(* ===== verification/Prelude.thy ===== *)
theory Prelude
  imports Main "HOL-Library.AList" "HOL-Library.Code_Target_Nat"
begin

text \<open>
  Shared vocabulary of the development: the exceptions the C++ code raises, the error results
  built over them, the loops that may stop early or throw, unsigned machine arithmetic, and the
  association lists that stand for the standard containers. Generic lemmas about these are
  declared \<^theory_text>\<open>simp\<close> or collected so that the component theories need only name the collection.
\<close>

named_theorems res_simps \<open>simplification of results that may carry an exception\<close>
named_theorems u32_simps \<open>unsigned arithmetic that provably does not wrap\<close>

section \<open>Exceptions and results\<close>

text \<open>
  The exceptions of the placer. \<open>FailToPlaceOnCurrentEpoch\<close>, \<open>FailToSatisfyPlacementConstraint\<close>
  and \<open>FailToSatisfyConflictingConstraint\<close> are the classes of \<open>placer/exceptions.hpp\<close>;
  \<open>OutOfRange\<close> is \<open>std::out_of_range\<close> as thrown by \<open>.at()\<close>; \<open>BadOptionalAccess\<close> is
  \<open>std::bad_optional_access\<close> as thrown by \<open>.value()\<close>; \<open>RuntimeError\<close> is the
  \<open>std::runtime_error\<close> thrown by \<open>TT_ASSERT\<close>, \<open>TT_THROW\<close> and \<open>log_fatal\<close>.
  \<open>UndefinedBehaviour\<close> is not an exception of the code: it marks an unchecked access
  (\<open>v[i]\<close> out of bounds, \<open>front()\<close> of an empty container) and no handler catches it.
\<close>

datatype exn =
    FailToPlaceOnCurrentEpoch
  | FailToSatisfyPlacementConstraint
  | FailToSatisfyConflictingConstraint
  | OutOfRange
  | BadOptionalAccess
  | RuntimeError
  | UndefinedBehaviour

type_synonym 'a res = "exn + 'a"

definition res_bind :: "'a res \<Rightarrow> ('a \<Rightarrow> 'b res) \<Rightarrow> 'b res" where
  "res_bind m f = (case m of Inl e \<Rightarrow> Inl e | Inr x \<Rightarrow> f x)"

lemma res_bind_simps [simp]:
  "res_bind (Inl e) f = Inl e"
  "res_bind (Inr x) f = f x"
  by (simp_all add: res_bind_def)

lemma res_bind_Inr_iff [res_simps]:
  "res_bind m f = Inr y \<longleftrightarrow> (\<exists>x. m = Inr x \<and> f x = Inr y)"
  by (cases m) simp_all

lemma res_bind_Inl_iff [res_simps]:
  "res_bind m f = Inl e \<longleftrightarrow> m = Inl e \<or> (\<exists>x. m = Inr x \<and> f x = Inl e)"
  by (cases m) simp_all

lemma res_bind_assoc: "res_bind (res_bind m f) g = res_bind m (\<lambda>x. res_bind (f x) g)"
  by (cases m) simp_all

lemma res_bind_cong [fundef_cong]:
  "m = n \<Longrightarrow> (\<And>x. n = Inr x \<Longrightarrow> f x = g x) \<Longrightarrow> res_bind m f = res_bind n g"
  by (cases n) simp_all

text \<open>\<open>TT_ASSERT(b)\<close>.\<close>

definition tt_assert :: "bool \<Rightarrow> unit res" where
  "tt_assert b = (if b then Inr () else Inl RuntimeError)"

lemma tt_assert_simps [simp]:
  "tt_assert True = Inr ()"
  "tt_assert False = Inl RuntimeError"
  by (simp_all add: tt_assert_def)

lemma tt_assert_Inr_iff [res_simps]: "tt_assert b = Inr u \<longleftrightarrow> b"
  by (simp add: tt_assert_def)

text \<open>\<open>opt.value()\<close>, and \<open>m.at(k)\<close> once the lookup is an option.\<close>

definition opt_value :: "'a option \<Rightarrow> 'a res" where
  "opt_value x = (case x of None \<Rightarrow> Inl BadOptionalAccess | Some a \<Rightarrow> Inr a)"

definition at_key :: "('k \<times> 'v) list \<Rightarrow> 'k \<Rightarrow> 'v res" where
  "at_key m k = (case map_of m k of None \<Rightarrow> Inl OutOfRange | Some v \<Rightarrow> Inr v)"

definition vec_at :: "'a list \<Rightarrow> nat \<Rightarrow> 'a res" where
  "vec_at xs i = (if i < length xs then Inr (xs ! i) else Inl OutOfRange)"

definition vec_idx :: "'a list \<Rightarrow> nat \<Rightarrow> 'a res" where
  "vec_idx xs i = (if i < length xs then Inr (xs ! i) else Inl UndefinedBehaviour)"

lemma opt_value_simps [simp]:
  "opt_value None = Inl BadOptionalAccess" "opt_value (Some a) = Inr a"
  by (simp_all add: opt_value_def)

lemma at_key_Inr_iff [res_simps]: "at_key m k = Inr v \<longleftrightarrow> map_of m k = Some v"
  by (simp add: at_key_def split: option.splits)

lemma at_key_Some [simp]: "map_of m k = Some v \<Longrightarrow> at_key m k = Inr v"
  by (simp add: at_key_def)

lemma at_key_None [simp]: "map_of m k = None \<Longrightarrow> at_key m k = Inl OutOfRange"
  by (simp add: at_key_def)

lemma vec_at_Inr_iff [res_simps]: "vec_at xs i = Inr v \<longleftrightarrow> i < length xs \<and> xs ! i = v"
  by (auto simp: vec_at_def)

lemma vec_at_ok [simp]: "i < length xs \<Longrightarrow> vec_at xs i = Inr (xs ! i)"
  by (simp add: vec_at_def)

lemma vec_idx_Inr_iff [res_simps]: "vec_idx xs i = Inr v \<longleftrightarrow> i < length xs \<and> xs ! i = v"
  by (auto simp: vec_idx_def)

lemma vec_idx_ok [simp]: "i < length xs \<Longrightarrow> vec_idx xs i = Inr (xs ! i)"
  by (simp add: vec_idx_def)

section \<open>Loops that may throw\<close>

text \<open>A range-based \<open>for\<close> whose body updates the local state.\<close>

primrec fold_res :: "('a \<Rightarrow> 's \<Rightarrow> 's res) \<Rightarrow> 'a list \<Rightarrow> 's \<Rightarrow> 's res" where
  "fold_res f [] s = Inr s"
| "fold_res f (x # xs) s = res_bind (f x s) (fold_res f xs)"

text \<open>A loop that returns false from the function at the first element that fails.\<close>

primrec all_res :: "('a \<Rightarrow> bool res) \<Rightarrow> 'a list \<Rightarrow> bool res" where
  "all_res f [] = Inr True"
| "all_res f (x # xs) = res_bind (f x) (\<lambda>b. if b then all_res f xs else Inr False)"

text \<open>A loop that returns the first value its body yields.\<close>

primrec find_res :: "('a \<Rightarrow> 'b option res) \<Rightarrow> 'a list \<Rightarrow> 'b option res" where
  "find_res f [] = Inr None"
| "find_res f (x # xs) =
     res_bind (f x) (\<lambda>r. case r of None \<Rightarrow> find_res f xs | Some y \<Rightarrow> Inr (Some y))"

text \<open>A loop that fills a vector.\<close>

primrec map_res :: "('a \<Rightarrow> 'b res) \<Rightarrow> 'a list \<Rightarrow> 'b list res" where
  "map_res f [] = Inr []"
| "map_res f (x # xs) = res_bind (f x) (\<lambda>y. res_bind (map_res f xs) (\<lambda>ys. Inr (y # ys)))"

lemma fold_res_cong [fundef_cong]:
  "xs = ys \<Longrightarrow> s = t \<Longrightarrow> (\<And>x u. x \<in> set ys \<Longrightarrow> f x u = g x u) \<Longrightarrow> fold_res f xs s = fold_res g ys t"
proof (induction ys arbitrary: xs s t)
  case (Cons y ys)
  then show ?case by (auto intro!: res_bind_cong)
qed simp

lemma fold_res_append:
  "fold_res f (xs @ ys) s = res_bind (fold_res f xs s) (fold_res f ys)"
proof (induction xs arbitrary: s)
  case (Cons x xs)
  then show ?case by (cases "f x s") simp_all
qed simp

lemma fold_res_invariant:
  assumes "fold_res f xs s = Inr t" and "P s"
    and "\<And>x u v. x \<in> set xs \<Longrightarrow> P u \<Longrightarrow> f x u = Inr v \<Longrightarrow> P v"
  shows "P t"
  using assms
proof (induction xs arbitrary: s)
  case (Cons x xs)
  from Cons.prems(1) obtain u where u: "f x s = Inr u" "fold_res f xs u = Inr t"
    by (auto simp: res_simps)
  with Cons.prems have "P u" by (metis list.set_intros(1))
  with u Cons.prems(3) show ?case by (meson Cons.IH list.set_intros(2))
qed simp

lemma fold_res_total:
  assumes "P s" and "\<And>x u. x \<in> set xs \<Longrightarrow> P u \<Longrightarrow> \<exists>v. f x u = Inr v \<and> P v"
  shows "\<exists>t. fold_res f xs s = Inr t \<and> P t"
  using assms
proof (induction xs arbitrary: s)
  case (Cons x xs)
  from Cons.prems(1,2) obtain u where "f x s = Inr u" "P u" by (meson list.set_intros(1))
  moreover from this Cons have "\<exists>t. fold_res f xs u = Inr t \<and> P t" by simp
  ultimately show ?case by simp
qed simp

lemma all_res_pure:
  "(\<And>x. x \<in> set xs \<Longrightarrow> f x = Inr (P x)) \<Longrightarrow> all_res f xs = Inr (\<forall>x\<in>set xs. P x)"
  by (induction xs) auto

lemma map_res_pure:
  "(\<And>x. x \<in> set xs \<Longrightarrow> f x = Inr (g x)) \<Longrightarrow> map_res f xs = Inr (map g xs)"
  by (induction xs) auto

lemma map_res_nth:
  "map_res f xs = Inr ys \<Longrightarrow> length ys = length xs \<and> (\<forall>i < length xs. f (xs ! i) = Inr (ys ! i))"
proof (induction xs arbitrary: ys)
  case (Cons x xs)
  then obtain y zs where "f x = Inr y" "map_res f xs = Inr zs" "ys = y # zs" by (auto simp: res_simps)
  with Cons.IH [of zs] show ?case by (simp add: nth_Cons split: nat.split)
qed simp

lemma find_res_pure:
  "(\<And>x. x \<in> set xs \<Longrightarrow> f x = Inr (if P x then Some (g x) else None)) \<Longrightarrow>
   find_res f xs = Inr (map_option g (List.find P xs))"
  by (induction xs) auto

lemma find_res_total:
  "(\<And>x. x \<in> set xs \<Longrightarrow> \<exists>r. f x = Inr r) \<Longrightarrow> \<exists>r. find_res f xs = Inr r"
proof (induction xs)
  case (Cons x xs)
  then obtain r where "f x = Inr r" by auto
  with Cons show ?case by (cases r) auto
qed simp

lemma find_res_SomeD:
  "find_res f xs = Inr (Some y) \<Longrightarrow> \<exists>x \<in> set xs. f x = Inr (Some y)"
  by (induction xs) (auto simp: res_simps split: option.splits)

lemma fold_res_pure:
  "(\<And>x u. x \<in> set xs \<Longrightarrow> f x u = Inr (g x u)) \<Longrightarrow> fold_res f xs s = Inr (fold g xs s)"
  by (induction xs arbitrary: s) auto

section \<open>Computations that may not return\<close>

text \<open>
  A loop whose termination depends on its input is a partial function: \<open>None\<close> means that the
  code does not return, \<open>Some (Inl e)\<close> that it throws, \<open>Some (Inr x)\<close> that it returns \<open>x\<close>.
\<close>

type_synonym 'a comp = "'a res option"

definition comp_bind :: "'a comp \<Rightarrow> ('a \<Rightarrow> 'b comp) \<Rightarrow> 'b comp" where
  "comp_bind m f =
     (case m of None \<Rightarrow> None | Some r \<Rightarrow> (case r of Inl e \<Rightarrow> Some (Inl e) | Inr x \<Rightarrow> f x))"

lemma comp_bind_simps [simp]:
  "comp_bind None f = None"
  "comp_bind (Some (Inl e)) f = Some (Inl e)"
  "comp_bind (Some (Inr x)) f = f x"
  by (simp_all add: comp_bind_def)

lemma comp_bind_returns [res_simps]:
  "comp_bind m f = Some (Inr y) \<longleftrightarrow> (\<exists>x. m = Some (Inr x) \<and> f x = Some (Inr y))"
  by (auto simp: comp_bind_def split: option.splits sum.splits)

lemma comp_bind_throws [res_simps]:
  "comp_bind m f = Some (Inl e) \<longleftrightarrow>
     m = Some (Inl e) \<or> (\<exists>x. m = Some (Inr x) \<and> f x = Some (Inl e))"
  by (auto simp: comp_bind_def split: option.splits sum.splits)

text \<open>A range-based \<open>for\<close> whose body may not return.\<close>

primrec fold_comp :: "('a \<Rightarrow> 's \<Rightarrow> 's comp) \<Rightarrow> 'a list \<Rightarrow> 's \<Rightarrow> 's comp" where
  "fold_comp f [] s = Some (Inr s)"
| "fold_comp f (x # xs) s = comp_bind (f x s) (fold_comp f xs)"

lemma fold_comp_returns:
  assumes "P s" and "\<And>x u. x \<in> set xs \<Longrightarrow> P u \<Longrightarrow> \<exists>v. f x u = Some (Inr v) \<and> P v"
  shows "\<exists>t. fold_comp f xs s = Some (Inr t) \<and> P t"
  using assms
proof (induction xs arbitrary: s)
  case (Cons x xs)
  from Cons.prems(1,2) obtain u where "f x s = Some (Inr u)" "P u" by (meson list.set_intros(1))
  moreover from this Cons have "\<exists>t. fold_comp f xs u = Some (Inr t) \<and> P t" by simp
  ultimately show ?case by simp
qed simp

section \<open>Unsigned machine arithmetic\<close>

text \<open>
  \<open>std::uint32_t\<close> and \<open>std::size_t\<close> values are natural numbers below \<open>2 ^ 32\<close> and
  \<open>2 ^ 64\<close>; the operations that can leave that range are written with their wrap-around.
\<close>

definition add32 :: "nat \<Rightarrow> nat \<Rightarrow> nat" where "add32 a b = (a + b) mod 2 ^ 32"
definition sub32 :: "nat \<Rightarrow> nat \<Rightarrow> nat" where "sub32 a b = (a + 2 ^ 32 - b) mod 2 ^ 32"
definition mul32 :: "nat \<Rightarrow> nat \<Rightarrow> nat" where "mul32 a b = (a * b) mod 2 ^ 32"
definition add64 :: "nat \<Rightarrow> nat \<Rightarrow> nat" where "add64 a b = (a + b) mod 2 ^ 64"
definition sub64 :: "nat \<Rightarrow> nat \<Rightarrow> nat" where "sub64 a b = (a + 2 ^ 64 - b) mod 2 ^ 64"

definition u32_max :: nat where "u32_max = 2 ^ 32 - 1"
definition size_max :: nat where "size_max = 2 ^ 64 - 1"

text \<open>The conversion of a \<open>std::uint32_t\<close> to \<open>int\<close>.\<close>

definition to_int32 :: "nat \<Rightarrow> int" where
  "to_int32 n = (if n < 2 ^ 31 then int n else int n - 2 ^ 32)"

lemma wrap_sub_exact:
  assumes "b \<le> a" and "a < (M::nat)"
  shows "(a + M - b) mod M = a - b"
proof -
  from assms(1) have "a + M - b = (a - b) + M" by simp
  moreover from assms(2) have "a - b < M" by (meson diff_le_self le_less_trans)
  ultimately show ?thesis by (metis mod_add_self2 mod_less)
qed

lemma add32_exact [u32_simps]: "a + b < 2 ^ 32 \<Longrightarrow> add32 a b = a + b"
  by (simp add: add32_def)

lemma sub32_exact [u32_simps]: "b \<le> a \<Longrightarrow> a < 2 ^ 32 \<Longrightarrow> sub32 a b = a - b"
  unfolding sub32_def by (rule wrap_sub_exact)

lemma mul32_exact [u32_simps]: "a * b < 2 ^ 32 \<Longrightarrow> mul32 a b = a * b"
  by (simp add: mul32_def)

lemma add64_exact [u32_simps]: "a + b < 2 ^ 64 \<Longrightarrow> add64 a b = a + b"
  by (simp add: add64_def)

lemma sub64_exact [u32_simps]: "b \<le> a \<Longrightarrow> a < 2 ^ 64 \<Longrightarrow> sub64 a b = a - b"
  unfolding sub64_def by (rule wrap_sub_exact)

lemma add32_bound [simp]: "add32 a b < 2 ^ 32"
  by (simp add: add32_def)

section \<open>Containers\<close>

text \<open>
  A \<open>std::unordered_map\<close> is an association list read with \<^term>\<open>map_of\<close>, written with
  \<open>AList.update\<close> and \<open>AList.delete\<close>; its order is the (unspecified) iteration order.
  A \<open>std::map\<close> is an association list kept in ascending order of its keys, which is its
  iteration order.
\<close>

fun omap_insert :: "'k::linorder \<Rightarrow> 'v \<Rightarrow> ('k \<times> 'v) list \<Rightarrow> ('k \<times> 'v) list" where
  "omap_insert k v [] = [(k, v)]"
| "omap_insert k v ((k', v') # m) =
     (if k < k' then (k, v) # (k', v') # m
      else if k = k' then (k, v) # m
      else (k', v') # omap_insert k v m)"

abbreviation ordered_keys :: "('k::linorder \<times> 'v) list \<Rightarrow> bool" where
  "ordered_keys m \<equiv> sorted_wrt (<) (map fst m)"

lemma map_of_omap_insert [simp]:
  "ordered_keys m \<Longrightarrow> map_of (omap_insert k v m) = (map_of m)(k \<mapsto> v)"
proof (induction k v m rule: omap_insert.induct)
  case (2 k v k' v' m)
  then show ?case by (auto simp: fun_eq_iff)
qed simp

lemma keys_omap_insert [simp]: "fst ` set (omap_insert k v m) = insert k (fst ` set m)"
  by (induction k v m rule: omap_insert.induct) auto

lemma ordered_keys_insert [simp]: "ordered_keys m \<Longrightarrow> ordered_keys (omap_insert k v m)"
proof (induction k v m rule: omap_insert.induct)
  case (2 k v k' v' m)
  then show ?case by (auto simp flip: image_set)
qed simp

lemma ordered_keys_delete [simp]: "ordered_keys m \<Longrightarrow> ordered_keys (AList.delete k m)"
  by (induction m) (auto simp: AList.delete_eq dest: filter_is_subset[THEN subsetD])

lemma ordered_keys_distinct: "ordered_keys m \<Longrightarrow> distinct (map fst m)"
  using strict_sorted_iff by blast

lemma map_of_delete_conv [simp]: "map_of (AList.delete k m) = (map_of m)(k := None)"
  by (rule delete_conv')

lemma map_of_update_conv [simp]: "map_of (AList.update k v m) = (map_of m)(k \<mapsto> v)"
  by (rule update_conv')

lemma update_append: "k \<notin> fst ` set m \<Longrightarrow> AList.update k v (m @ m') = m @ AList.update k v m'"
  by (induction m) auto

lemma update_new: "k \<notin> fst ` set m \<Longrightarrow> AList.update k v m = m @ [(k, v)]"
  using update_append [of k m v "[]"] by simp

lemma omap_insert_greater: "\<forall>(k', v') \<in> set m. k' < k \<Longrightarrow> omap_insert k v m = m @ [(k, v)]"
  by (induction k v m rule: omap_insert.induct) auto

lemma omap_insert_last: "\<forall>(k', v') \<in> set m. k' < k \<Longrightarrow> omap_insert k v (m @ [(k, u)]) = m @ [(k, v)]"
  by (induction m) auto

lemma map_of_fold_update:
  "map_of (fold (\<lambda>b. AList.update b c) bs m) = (\<lambda>x. if x \<in> set bs then Some c else map_of m x)"
  by (induction bs arbitrary: m) auto

end
