(* ===== verification/Geometry.thy ===== *)
theory Geometry
  imports Prelude
begin

text \<open>
  The geometry of \<open>placer/placer.hpp\<close> and the operators \<open>placer/placer.cpp\<close> defines on it:
  grid shapes, core coordinates, coordinate ranges with an inclusive start and an exclusive
  end, and the user's placement overrides. All fields are \<open>std::uint32_t\<close>.
\<close>

record CoordOffset =
  row_offset :: nat
  column_offset :: nat

record GridShape =
  rows :: nat
  columns :: nat

record Coord =
  row :: nat
  col :: nat

record CoordRange =
  range_start :: Coord
  range_end :: Coord

abbreviation mk_shape :: "nat \<Rightarrow> nat \<Rightarrow> GridShape" where
  "mk_shape r c \<equiv> \<lparr>rows = r, columns = c\<rparr>"

abbreviation mk_coord :: "nat \<Rightarrow> nat \<Rightarrow> Coord" where
  "mk_coord r c \<equiv> \<lparr>row = r, col = c\<rparr>"

abbreviation mk_range :: "Coord \<Rightarrow> Coord \<Rightarrow> CoordRange" where
  "mk_range s e \<equiv> \<lparr>range_start = s, range_end = e\<rparr>"

lemma mk_coord_eta [simp]: "mk_coord (row c) (col c) = c"
  by (rule Coord.equality) simp_all

lemma mk_shape_eta [simp]: "mk_shape (rows s) (columns s) = s"
  by (rule GridShape.equality) simp_all

definition volume :: "GridShape \<Rightarrow> nat" where
  "volume s = mul32 (rows s) (columns s)"

definition transposed :: "GridShape \<Rightarrow> GridShape" where
  "transposed s = mk_shape (columns s) (rows s)"

definition coord_add_shape :: "Coord \<Rightarrow> GridShape \<Rightarrow> Coord" where
  "coord_add_shape c s = mk_coord (add32 (row c) (rows s)) (add32 (col c) (columns s))"

definition coord_add_coord :: "Coord \<Rightarrow> Coord \<Rightarrow> Coord" where
  "coord_add_coord c d = mk_coord (add32 (row c) (row d)) (add32 (col c) (col d))"

definition coord_add_offset :: "Coord \<Rightarrow> CoordOffset \<Rightarrow> Coord" where
  "coord_add_offset c d =
     mk_coord (add32 (row c) (row_offset d)) (add32 (col c) (column_offset d))"

definition coord_less :: "Coord \<Rightarrow> Coord \<Rightarrow> bool" where
  "coord_less a b = (if row a = row b then col a < col b else row a < row b)"

definition coord_eq :: "Coord \<Rightarrow> Coord \<Rightarrow> bool" where
  "coord_eq a b = (row a = row b \<and> col a = col b)"

definition range_eq :: "CoordRange \<Rightarrow> CoordRange \<Rightarrow> bool" where
  "range_eq a b =
     (coord_eq (range_start a) (range_start b) \<and> coord_eq (range_end a) (range_end b))"

definition size_r :: "CoordRange \<Rightarrow> nat" where
  "size_r c = sub32 (row (range_end c)) (row (range_start c))"

definition size_c :: "CoordRange \<Rightarrow> nat" where
  "size_c c = sub32 (col (range_end c)) (col (range_start c))"

definition range_transpose :: "CoordRange \<Rightarrow> CoordRange" where
  "range_transpose c =
     (let r = size_r c in
      c\<lparr>range_end := mk_coord (add32 (row (range_start c)) (size_c c))
                             (add32 (col (range_start c)) r)\<rparr>)"

record PlacerOpOverride =
  grid_start :: "Coord option"
  transpose_op :: bool
  override_chip_id_opt :: "nat option"
  temporal_epoch_break :: bool

definition force_op_transpose :: PlacerOpOverride where
  "force_op_transpose =
     \<lparr>grid_start = None, transpose_op = True, override_chip_id_opt = None,
      temporal_epoch_break = False\<rparr>"

definition override_chip_id :: "nat \<Rightarrow> PlacerOpOverride" where
  "override_chip_id c =
     \<lparr>grid_start = None, transpose_op = False, override_chip_id_opt = Some c,
      temporal_epoch_break = False\<rparr>"

section \<open>Coordinates are linearly ordered\<close>

text \<open>The order of \<open>Coord::operator<\<close> as an instance of the library's class of linear orders.\<close>

instantiation Coord_ext :: (linorder) linorder
begin

definition less_Coord_ext :: "'a Coord_ext \<Rightarrow> 'a Coord_ext \<Rightarrow> bool" where
  "less_Coord_ext a b =
     (row a < row b \<or> row a = row b \<and> (col a < col b \<or> col a = col b \<and> Coord.more a < Coord.more b))"

definition less_eq_Coord_ext :: "'a Coord_ext \<Rightarrow> 'a Coord_ext \<Rightarrow> bool" where
  "less_eq_Coord_ext a b =
     (row a < row b \<or> row a = row b \<and> (col a < col b \<or> col a = col b \<and> Coord.more a \<le> Coord.more b))"

instance
  by intro_classes (auto simp: less_Coord_ext_def less_eq_Coord_ext_def)

end

lemma coord_less_is_less: "coord_less a b \<longleftrightarrow> a < b"
  by (auto simp: coord_less_def less_Coord_ext_def)

lemma coord_eq_is_eq [simp]: "coord_eq a b \<longleftrightarrow> a = b"
  by (auto simp: coord_eq_def)

lemma transposed_simps [simp]:
  "rows (transposed s) = columns s" "columns (transposed s) = rows s"
  "transposed (transposed s) = s"
  by (simp_all add: transposed_def)

section \<open>Ranges and shapes that stay inside 32 bits\<close>

definition wf_range :: "CoordRange \<Rightarrow> bool" where
  "wf_range c \<longleftrightarrow>
     row (range_start c) \<le> row (range_end c) \<and> row (range_end c) < 2 ^ 32 \<and>
     col (range_start c) \<le> col (range_end c) \<and> col (range_end c) < 2 ^ 32"

lemma wf_range_sizes:
  "wf_range c \<Longrightarrow> size_r c = row (range_end c) - row (range_start c)"
  "wf_range c \<Longrightarrow> size_c c = col (range_end c) - col (range_start c)"
  by (simp_all add: wf_range_def size_r_def size_c_def sub32_exact)

lemma range_transpose_sizes:
  assumes "wf_range c"
    and "row (range_start c) + size_c c < 2 ^ 32" and "col (range_start c) + size_r c < 2 ^ 32"
  shows "range_start (range_transpose c) = range_start c"
    and "row (range_end (range_transpose c)) = row (range_start c) + size_c c"
    and "col (range_end (range_transpose c)) = col (range_start c) + size_r c"
    and "wf_range (range_transpose c)"
  using assms by (auto simp: range_transpose_def Let_def wf_range_def add32_exact)

text \<open>
  Transposing a range of cores twice gives the range back, whenever neither the
  range nor its transpose leaves 32-bit coordinates.
\<close>

theorem range_transpose_involution:
  assumes "wf_range c"
    and "row (range_start c) + size_c c < 2 ^ 32" and "col (range_start c) + size_r c < 2 ^ 32"
  shows "range_transpose (range_transpose c) = c \<and>
         size_r (range_transpose c) = size_c c \<and> size_c (range_transpose c) = size_r c"
proof -
  let ?d = "range_transpose c"
  note d = range_transpose_sizes [OF assms]
  have sizes: "size_r ?d = size_c c" "size_c ?d = size_r c"
    using d assms by (simp_all add: wf_range_sizes)
  have "row (range_start c) + size_r c = row (range_end c)"
    and "col (range_start c) + size_c c = col (range_end c)"
    using assms(1) by (auto simp: wf_range_sizes wf_range_def)
  then have "range_end (range_transpose ?d) = range_end c"
    using assms(1) sizes d(1)
    by (simp add: range_transpose_def Let_def add32_exact wf_range_def)
  moreover have "range_start (range_transpose ?d) = range_start c"
    using d(1) by (simp add: range_transpose_def Let_def)
  ultimately show ?thesis using sizes by (simp add: CoordRange.equality)
qed

theorem range_transpose_involution_witness:
  "range_transpose (range_transpose (mk_range (mk_coord 1 2) (mk_coord 4 7)))
     = mk_range (mk_coord 1 2) (mk_coord 4 7)"
proof -
  have "wf_range (mk_range (mk_coord 1 2) (mk_coord 4 7))"
    "row (range_start (mk_range (mk_coord 1 2) (mk_coord 4 7)))
       + size_c (mk_range (mk_coord 1 2) (mk_coord 4 7)) < 2 ^ 32"
    "col (range_start (mk_range (mk_coord 1 2) (mk_coord 4 7)))
       + size_r (mk_range (mk_coord 1 2) (mk_coord 4 7)) < 2 ^ 32"
    by (simp_all add: wf_range_def size_c_def size_r_def sub32_def)
  from range_transpose_involution [OF this] show ?thesis by simp
qed

end
