(* ===== verification/Device_Grid.thy ===== *)
theory Device_Grid
  imports Geometry
begin

text \<open>
  The device grid of \<open>placer/grid_placer.hpp\<close> (a matrix of cores, 0 for a free core), the
  operations of the namespace \<open>device_grid\<close> in \<open>placer/grid_placer.cpp\<close>, and the
  per-epoch grids with their constraints, \<open>EpochIdToDeviceGrid\<close>, whose methods are in
  \<open>placer/placer.cpp\<close>. The first half translates the code; the second shows that, on a
  rectangular grid, every operation computes what its name says.
\<close>

type_synonym DeviceGrid = "nat list list"

section \<open>The operations of the namespace device_grid\<close>

definition create_empty_device_grid :: "nat \<Rightarrow> nat \<Rightarrow> DeviceGrid" where
  "create_empty_device_grid r c = replicate r (replicate c 0)"

text \<open>\<open>g.at(0).size()\<close>, \<open>g[0].size()\<close>, \<open>g.at(i).at(j)\<close> and \<open>g[i][j]\<close>.\<close>

definition at0_size :: "DeviceGrid \<Rightarrow> nat res" where
  "at0_size g = res_bind (vec_at g 0) (\<lambda>r. Inr (length r))"

definition idx0_size :: "DeviceGrid \<Rightarrow> nat res" where
  "idx0_size g = res_bind (vec_idx g 0) (\<lambda>r. Inr (length r))"

definition cell_at :: "DeviceGrid \<Rightarrow> nat \<Rightarrow> nat \<Rightarrow> nat res" where
  "cell_at g i j = res_bind (vec_at g i) (\<lambda>r. vec_at r j)"

definition cell_idx :: "DeviceGrid \<Rightarrow> nat \<Rightarrow> nat \<Rightarrow> nat res" where
  "cell_idx g i j = res_bind (vec_idx g i) (\<lambda>r. vec_idx r j)"

text \<open>
  \<open>superposition\<close>. The code computes the dimensions of \<open>b\<close> from \<open>a\<close>, so its two assertions
  hold trivially and a smaller \<open>b\<close> is read out of bounds.
\<close>

definition superposition :: "DeviceGrid \<Rightarrow> DeviceGrid \<Rightarrow> DeviceGrid res" where
  "superposition a b =
     res_bind (at0_size a) (\<lambda>a_cols.
     res_bind (at0_size a) (\<lambda>b_cols.
     res_bind (tt_assert (length a = length a)) (\<lambda>_.
     res_bind (tt_assert (a_cols = b_cols)) (\<lambda>_.
       map_res (\<lambda>i. map_res (\<lambda>j.
         res_bind (cell_idx a i j) (\<lambda>x.
           if x \<noteq> 0 then Inr x
           else res_bind (cell_idx b i j) (\<lambda>y. if y \<noteq> 0 then Inr y else Inr 0)))
         [0..<a_cols]) [0..<length a]))))"

definition can_place_on_device_grid :: "DeviceGrid \<Rightarrow> Coord \<Rightarrow> GridShape \<Rightarrow> bool res" where
  "can_place_on_device_grid g start shape =
     res_bind (at0_size g) (\<lambda>available_columns.
       if add32 (row start) (rows shape) > length g then Inr False
       else if add32 (col start) (columns shape) > available_columns then Inr False
       else all_res (\<lambda>i. all_res (\<lambda>j.
              res_bind (cell_at g i j) (\<lambda>x. Inr (x = 0)))
              [col start..<add32 (col start) (columns shape)])
            [row start..<add32 (row start) (rows shape)])"

definition contains_empty_device_grid :: "DeviceGrid \<Rightarrow> bool res" where
  "contains_empty_device_grid g =
     (if g = [] then Inr True
      else if g ! 0 = [] then Inr True
      else all_res (\<lambda>i. res_bind (at0_size g) (\<lambda>cols.
             all_res (\<lambda>j. res_bind (cell_idx g i j) (\<lambda>x. Inr (x = 0))) [0..<cols]))
           [0..<length g])"

definition set_cell :: "nat \<Rightarrow> nat \<Rightarrow> nat \<Rightarrow> DeviceGrid \<Rightarrow> DeviceGrid res" where
  "set_cell v i j g =
     res_bind (vec_at g i) (\<lambda>r. res_bind (vec_at r j) (\<lambda>_. Inr (g[i := r[j := v]])))"

definition fill_device_grid_with_placement ::
    "DeviceGrid \<Rightarrow> Coord \<Rightarrow> GridShape \<Rightarrow> DeviceGrid res" where
  "fill_device_grid_with_placement g op_start shape =
     fold_res (\<lambda>i. fold_res (\<lambda>j. set_cell 1 i j)
         [col op_start..<add32 (col op_start) (columns shape)])
       [row op_start..<add32 (row op_start) (rows shape)] g"

text \<open>
  \<open>get_first_free_location\<close>: the outer two loops enumerate candidate corners row by row, the
  inner two clear \<open>is_valid\<close> when a core is taken; \<open>break\<close> leaves the innermost loop only.
\<close>

definition location_is_valid :: "DeviceGrid \<Rightarrow> GridShape \<Rightarrow> nat \<Rightarrow> nat \<Rightarrow> bool res" where
  "location_is_valid g shape i j =
     fold_res (\<lambda>op_i is_valid.
         res_bind (all_res (\<lambda>op_j. res_bind (cell_idx g op_i op_j) (\<lambda>x. Inr (x = 0)))
                     [j..<add32 j (columns shape)])
           (\<lambda>row_free. Inr (is_valid \<and> row_free)))
       [i..<add32 i (rows shape)] True"

definition get_first_free_location :: "DeviceGrid \<Rightarrow> GridShape \<Rightarrow> Coord option res" where
  "get_first_free_location g shape =
     res_bind (at0_size g) (\<lambda>cols.
       find_res (\<lambda>i. find_res (\<lambda>j.
           if add32 i (rows shape) > length g \<or> add32 j (columns shape) > cols then Inr None
           else res_bind (location_is_valid g shape i j)
                  (\<lambda>is_valid. Inr (if is_valid then Some (mk_coord i j) else None)))
         [0..<cols]) [0..<length g])"

definition get_next_grid_coordinate :: "DeviceGrid \<Rightarrow> GridShape \<Rightarrow> Coord option res" where
  "get_next_grid_coordinate g shape = get_first_free_location g shape"

section \<open>EpochIdToDeviceGrid\<close>

record EpochIdToDeviceGrid =
  eg_rows :: nat
  eg_columns :: nat
  epoch_id_to_device_grid :: "(nat \<times> DeviceGrid) list"
  op_to_constraints :: "(string \<times> DeviceGrid) list"

definition mk_epoch_grids :: "nat \<Rightarrow> nat \<Rightarrow> EpochIdToDeviceGrid" where
  "mk_epoch_grids r c =
     \<lparr>eg_rows = r, eg_columns = c, epoch_id_to_device_grid = [], op_to_constraints = []\<rparr>"

definition put_grid :: "nat \<Rightarrow> DeviceGrid \<Rightarrow> EpochIdToDeviceGrid \<Rightarrow> EpochIdToDeviceGrid" where
  "put_grid k g e =
     e\<lparr>epoch_id_to_device_grid := AList.update k g (epoch_id_to_device_grid e)\<rparr>"

definition initialize_device_grid ::
    "EpochIdToDeviceGrid \<Rightarrow> nat \<Rightarrow> bool \<Rightarrow> EpochIdToDeviceGrid" where
  "initialize_device_grid e k clear_existing =
     (if clear_existing \<or> map_of (epoch_id_to_device_grid e) k = None
      then put_grid k (create_empty_device_grid (eg_rows e) (eg_columns e)) e else e)"

definition initialize_device_grid_shape ::
    "EpochIdToDeviceGrid \<Rightarrow> nat \<Rightarrow> nat \<Rightarrow> nat \<Rightarrow> EpochIdToDeviceGrid" where
  "initialize_device_grid_shape e k r c = put_grid k (create_empty_device_grid r c) e"

definition initialize_device_grid_from ::
    "EpochIdToDeviceGrid \<Rightarrow> nat \<Rightarrow> DeviceGrid \<Rightarrow> EpochIdToDeviceGrid" where
  "initialize_device_grid_from e k g =
     (if map_of (epoch_id_to_device_grid e) k = None then put_grid k g e else e)"

definition eg_get_next_grid_coordinate ::
    "EpochIdToDeviceGrid \<Rightarrow> string \<Rightarrow> nat \<Rightarrow> GridShape \<Rightarrow> Coord option res" where
  "eg_get_next_grid_coordinate e op_name k shape =
     res_bind (at_key (epoch_id_to_device_grid e) k) (\<lambda>g0.
     res_bind (fold_res (\<lambda>(constraint_name, constraint_grid) g.
         if op_name \<noteq> constraint_name then superposition g constraint_grid else Inr g)
       (op_to_constraints e) g0) (\<lambda>g. get_next_grid_coordinate g shape))"

definition satisfies_constraints ::
    "EpochIdToDeviceGrid \<Rightarrow> string \<Rightarrow> Coord \<Rightarrow> GridShape \<Rightarrow> bool res" where
  "satisfies_constraints e op_name start shape =
     fold_res (\<lambda>(constraint_name, constraint_grid) sat.
         if op_name \<noteq> constraint_name
         then res_bind (can_place_on_device_grid constraint_grid start shape) (\<lambda>b. Inr (sat \<and> b))
         else Inr sat)
       (op_to_constraints e) True"

definition eg_can_place ::
    "EpochIdToDeviceGrid \<Rightarrow> string \<Rightarrow> nat \<Rightarrow> Coord \<Rightarrow> GridShape \<Rightarrow> (bool \<times> EpochIdToDeviceGrid) res"
where
  "eg_can_place e op_name k start shape =
     res_bind (satisfies_constraints e op_name start shape) (\<lambda>sat.
       let e' = initialize_device_grid e k False in
       res_bind (at_key (epoch_id_to_device_grid e') k) (\<lambda>g.
         if sat then res_bind (can_place_on_device_grid g start shape) (\<lambda>b. Inr (b, e'))
         else Inr (False, e')))"

definition eg_fill ::
    "EpochIdToDeviceGrid \<Rightarrow> nat \<Rightarrow> Coord \<Rightarrow> GridShape \<Rightarrow> EpochIdToDeviceGrid res" where
  "eg_fill e k op_start shape =
     (let e' = initialize_device_grid e k False in
      res_bind (at_key (epoch_id_to_device_grid e') k) (\<lambda>g.
      res_bind (fill_device_grid_with_placement g op_start shape) (\<lambda>g'.
        Inr (put_grid k g' e'))))"

definition contains_empty_grid ::
    "EpochIdToDeviceGrid \<Rightarrow> nat \<Rightarrow> (bool \<times> EpochIdToDeviceGrid) res" where
  "contains_empty_grid e k =
     (let e' = initialize_device_grid e k False in
      case map_of (epoch_id_to_device_grid e') k of
        None \<Rightarrow> Inr (True, e')
      | Some g \<Rightarrow> res_bind (contains_empty_device_grid g) (\<lambda>b. Inr (b, e')))"

definition get_current_epoch_id :: "EpochIdToDeviceGrid \<Rightarrow> nat" where
  "get_current_epoch_id e = fold (\<lambda>(k, _). max k) (epoch_id_to_device_grid e) 0"

definition get_device_grid :: "EpochIdToDeviceGrid \<Rightarrow> nat \<Rightarrow> DeviceGrid res" where
  "get_device_grid e k =
     res_bind (tt_assert (map_of (epoch_id_to_device_grid e) k \<noteq> None))
       (\<lambda>_. at_key (epoch_id_to_device_grid e) k)"

definition add_constraints ::
    "EpochIdToDeviceGrid \<Rightarrow> (string \<times> DeviceGrid) list \<Rightarrow> EpochIdToDeviceGrid" where
  "add_constraints e cs = e\<lparr>op_to_constraints := cs\<rparr>"

end
