(* ===== verification/Grid_Facts.thy ===== *)
theory Grid_Facts
  imports Device_Grid
begin

text \<open>
  What the device grid operations compute on a rectangular grid: the specification
  \<open>fits\<close> (a rectangle of cores lies inside the grid and is free), the effect of a placement
  (\<open>paint\<close>), and the interface \<open>placement_surface\<close> that the grid placer relies on, with its
  interpretations on a single device grid and on the grids of \<open>EpochIdToDeviceGrid\<close>.
\<close>

named_theorems grid_simps \<open>evaluation of grid operations on rectangular grids\<close>

definition wf_grid :: "nat \<Rightarrow> nat \<Rightarrow> DeviceGrid \<Rightarrow> bool" where
  "wf_grid R C g \<longleftrightarrow>
     length g = R \<and> (\<forall>r \<in> set g. length r = C) \<and> 0 < R \<and> R < 2 ^ 32 \<and> C < 2 ^ 32"

definition in_rect :: "Coord \<Rightarrow> GridShape \<Rightarrow> nat \<Rightarrow> nat \<Rightarrow> bool" where
  "in_rect c s i j \<longleftrightarrow>
     row c \<le> i \<and> i < row c + rows s \<and> col c \<le> j \<and> j < col c + columns s"

definition fits :: "nat \<Rightarrow> nat \<Rightarrow> DeviceGrid \<Rightarrow> Coord \<Rightarrow> GridShape \<Rightarrow> bool" where
  "fits R C g c s \<longleftrightarrow>
     row c + rows s \<le> R \<and> col c + columns s \<le> C \<and>
     (\<forall>i \<in> {row c..<row c + rows s}. \<forall>j \<in> {col c..<col c + columns s}. g ! i ! j = 0)"

definition no_wrap :: "Coord \<Rightarrow> GridShape \<Rightarrow> bool" where
  "no_wrap c s \<longleftrightarrow> row c + rows s < 2 ^ 32 \<and> col c + columns s < 2 ^ 32"

definition nonempty_shape :: "GridShape \<Rightarrow> bool" where
  "nonempty_shape s \<longleftrightarrow> 0 < rows s \<and> 0 < columns s"

definition disjoint_rects :: "Coord \<Rightarrow> GridShape \<Rightarrow> Coord \<Rightarrow> GridShape \<Rightarrow> bool" where
  "disjoint_rects c s d t \<longleftrightarrow> (\<forall>i j. \<not> (in_rect c s i j \<and> in_rect d t i j))"

text \<open>Painting the cores selected by a predicate.\<close>

definition paint :: "(nat \<Rightarrow> nat \<Rightarrow> bool) \<Rightarrow> DeviceGrid \<Rightarrow> DeviceGrid" where
  "paint P g =
     map (\<lambda>i. map (\<lambda>j. if P i j then 1 else g ! i ! j) [0..<length (g ! i)]) [0..<length g]"

lemma wf_gridD:
  assumes "wf_grid R C g"
  shows "length g = R" "0 < R" "R < 2 ^ 32" "C < 2 ^ 32"
    and "i < R \<Longrightarrow> length (g ! i) = C"
  using assms by (auto simp: wf_grid_def)

lemma wf_grid_empty [simp]:
  "0 < R \<Longrightarrow> R < 2 ^ 32 \<Longrightarrow> C < 2 ^ 32 \<Longrightarrow> wf_grid R C (create_empty_device_grid R C)"
  by (simp add: wf_grid_def create_empty_device_grid_def)

lemma empty_grid_cell [simp]:
  "i < R \<Longrightarrow> j < C \<Longrightarrow> create_empty_device_grid R C ! i ! j = 0"
  by (simp add: create_empty_device_grid_def)

lemma fits_empty_grid [simp]:
  "fits R C (create_empty_device_grid R C) c s \<longleftrightarrow> row c + rows s \<le> R \<and> col c + columns s \<le> C"
  by (auto simp: fits_def)

lemma at0_size_wf [grid_simps]: "wf_grid R C g \<Longrightarrow> at0_size g = Inr C"
  by (auto simp: at0_size_def wf_gridD)

lemma idx0_size_wf [grid_simps]: "wf_grid R C g \<Longrightarrow> idx0_size g = Inr C"
  by (auto simp: idx0_size_def wf_gridD)

lemma cell_at_wf [grid_simps]:
  "wf_grid R C g \<Longrightarrow> i < R \<Longrightarrow> j < C \<Longrightarrow> cell_at g i j = Inr (g ! i ! j)"
  by (simp add: cell_at_def wf_gridD)

lemma cell_idx_wf [grid_simps]:
  "wf_grid R C g \<Longrightarrow> i < R \<Longrightarrow> j < C \<Longrightarrow> cell_idx g i j = Inr (g ! i ! j)"
  by (simp add: cell_idx_def wf_gridD)

section \<open>Placing\<close>

lemma can_place_fits:
  assumes g: "wf_grid R C g" and nw: "no_wrap c s"
  shows "can_place_on_device_grid g c s = Inr (fits R C g c s)"
proof (cases "row c + rows s \<le> R \<and> col c + columns s \<le> C")
  case True
  let ?rows = "[row c..<row c + rows s]" and ?cols = "[col c..<col c + columns s]"
  have row: "all_res (\<lambda>j. res_bind (cell_at g i j) (\<lambda>x. Inr (x = 0))) ?cols =
             Inr (\<forall>j \<in> set ?cols. g ! i ! j = 0)" if "i \<in> set ?rows" for i
    using that True by (intro all_res_pure) (auto simp: grid_simps [OF g])
  have "all_res (\<lambda>i. all_res (\<lambda>j. res_bind (cell_at g i j) (\<lambda>x. Inr (x = 0))) ?cols) ?rows =
        Inr (\<forall>i \<in> set ?rows. \<forall>j \<in> set ?cols. g ! i ! j = 0)"
    by (rule all_res_pure) (rule row)
  then show ?thesis
    using True nw
    by (simp add: can_place_on_device_grid_def grid_simps [OF g] wf_gridD(1) [OF g] fits_def
        no_wrap_def add32_exact)
next
  case False
  then show ?thesis
    using nw by (auto simp: can_place_on_device_grid_def grid_simps [OF g] wf_gridD(1) [OF g]
        fits_def no_wrap_def add32_exact)
qed

lemma paint_cell [simp]:
  "wf_grid R C g \<Longrightarrow> i < R \<Longrightarrow> j < C \<Longrightarrow> paint P g ! i ! j = (if P i j then 1 else g ! i ! j)"
  by (simp add: paint_def wf_gridD)

lemma wf_grid_paint [simp]: "wf_grid R C g \<Longrightarrow> wf_grid R C (paint P g)"
  by (auto simp: wf_grid_def paint_def)

lemma grid_eqI:
  assumes "wf_grid R C g" "wf_grid R C h" and "\<And>i j. i < R \<Longrightarrow> j < C \<Longrightarrow> g ! i ! j = h ! i ! j"
  shows "g = h"
  using assms by (auto intro!: nth_equalityI simp: wf_gridD)

lemma paint_paint:
  assumes g: "wf_grid R C g"
  shows "paint P (paint Q g) = paint (\<lambda>i j. P i j \<or> Q i j) g"
  using g by (intro grid_eqI [of R C]) (simp_all add: paint_cell [OF g] paint_cell [OF wf_grid_paint [OF g]])

lemma paint_none: "wf_grid R C g \<Longrightarrow> paint (\<lambda>_ _. False) g = g"
  by (rule grid_eqI [of R C]) simp_all

lemma set_cell_paint:
  assumes g: "wf_grid R C g" and "i < R" "j < C"
  shows "set_cell 1 i j g = Inr (paint (\<lambda>i' j'. i' = i \<and> j' = j) g)"
proof -
  have len: "length g = R" "length (g ! i) = C"
    using assms by (simp_all add: wf_gridD)
  have "wf_grid R C (g[i := (g ! i)[j := 1]])"
    using g len by (auto simp: wf_grid_def dest!: set_update_subset_insert [THEN subsetD])
  then have "g[i := (g ! i)[j := 1]] = paint (\<lambda>i' j'. i' = i \<and> j' = j) g"
    by (rule grid_eqI) (use g len assms in \<open>auto simp: nth_list_update\<close>)
  then show ?thesis
    using assms len by (simp add: set_cell_def)
qed

lemma fold_paint:
  assumes step: "\<And>x h. x \<in> set xs \<Longrightarrow> wf_grid R C h \<Longrightarrow> f x h = Inr (paint (P x) h)"
    and g: "wf_grid R C g"
  shows "fold_res f xs g = Inr (paint (\<lambda>i j. \<exists>x \<in> set xs. P x i j) g)"
  using assms
proof (induction xs arbitrary: g)
  case Nil
  then show ?case by (simp add: paint_none)
next
  case (Cons x xs)
  have "fold_res f (x # xs) g = fold_res f xs (paint (P x) g)"
    using Cons.prems by simp
  also have "\<dots> = Inr (paint (\<lambda>i j. \<exists>y \<in> set xs. P y i j) (paint (P x) g))"
    using Cons by simp
  also have "paint (\<lambda>i j. \<exists>y \<in> set xs. P y i j) (paint (P x) g)
           = paint (\<lambda>i j. \<exists>y \<in> set (x # xs). P y i j) g"
    unfolding paint_paint [OF Cons.prems(2)] by (rule arg_cong2 [where f = paint]) auto
  finally show ?case .
qed

lemma fill_paint:
  assumes g: "wf_grid R C g" and "row c + rows s \<le> R" "col c + columns s \<le> C"
  shows "fill_device_grid_with_placement g c s = Inr (paint (in_rect c s) g)"
proof -
  have nw: "add32 (row c) (rows s) = row c + rows s"
    "add32 (col c) (columns s) = col c + columns s"
    using assms(2,3) wf_gridD(3,4) [OF g] by (simp_all add: add32_exact)
  have inner: "fold_res (\<lambda>j. set_cell 1 i j) [col c..<col c + columns s] h =
      Inr (paint (\<lambda>i' j'. \<exists>j \<in> set [col c..<col c + columns s]. i' = i \<and> j' = j) h)"
    if "i \<in> set [row c..<row c + rows s]" "wf_grid R C h" for i h
    using that assms(2,3)
    by (intro fold_paint [of _ R C]) (auto simp: set_cell_paint simp del: One_nat_def)
  have rect: "(\<lambda>i' j'. \<exists>i \<in> set [row c..<row c + rows s].
          \<exists>j \<in> set [col c..<col c + columns s]. i' = i \<and> j' = j) = in_rect c s"
    by (auto simp: in_rect_def fun_eq_iff)
  have "fill_device_grid_with_placement g c s = Inr (paint (\<lambda>i' j'. \<exists>i \<in> set [row c..<row c + rows s].
          \<exists>j \<in> set [col c..<col c + columns s]. i' = i \<and> j' = j) g)"
    unfolding fill_device_grid_with_placement_def nw by (rule fold_paint [OF inner g])
  then show ?thesis unfolding rect .
qed

lemma fits_paint:
  assumes g: "wf_grid R C g"
  shows "fits R C (paint (in_rect c s) g) d t \<longleftrightarrow> fits R C g d t \<and> disjoint_rects c s d t"
proof (cases "row d + rows t \<le> R \<and> col d + columns t \<le> C")
  case True
  then have "paint (in_rect c s) g ! i ! j = (if in_rect c s i j then 1 else g ! i ! j)"
    if "in_rect d t i j" for i j
    using that g by (simp add: in_rect_def)
  moreover have "fits R C h d t \<longleftrightarrow> (\<forall>i j. in_rect d t i j \<longrightarrow> h ! i ! j = 0)" for h
    using True by (auto simp: fits_def in_rect_def)
  ultimately show ?thesis
    by (auto simp: disjoint_rects_def split: if_splits)
next
  case False
  then show ?thesis by (auto simp: fits_def)
qed

section \<open>Searching\<close>

lemma location_is_valid_fits:
  assumes g: "wf_grid R C g" and b: "i + rows s \<le> R" "j + columns s \<le> C"
  shows "location_is_valid g s i j = Inr (fits R C g (mk_coord i j) s)"
proof -
  have nw: "add32 i (rows s) = i + rows s" "add32 j (columns s) = j + columns s"
    using b wf_gridD(3,4) [OF g] by (simp_all add: add32_exact)
  have row: "all_res (\<lambda>op_j. res_bind (cell_idx g op_i op_j) (\<lambda>x. Inr (x = 0))) [j..<j + columns s] =
             Inr (\<forall>op_j \<in> set [j..<j + columns s]. g ! op_i ! op_j = 0)"
    if "op_i \<in> set [i..<i + rows s]" for op_i
    using that b by (intro all_res_pure) (auto simp: grid_simps [OF g])
  have "location_is_valid g s i j =
      Inr (fold (\<lambda>op_i v. v \<and> (\<forall>op_j \<in> set [j..<j + columns s]. g ! op_i ! op_j = 0))
             [i..<i + rows s] True)"
    unfolding location_is_valid_def nw using row by (intro fold_res_pure) simp
  moreover have "fold (\<lambda>x v. v \<and> P x) xs b \<longleftrightarrow> b \<and> (\<forall>x \<in> set xs. P x)" for P b and xs :: "nat list"
    by (induction xs arbitrary: b) auto
  ultimately show ?thesis using b by (auto simp: fits_def)
qed

lemma first_free_by_find:
  assumes g: "wf_grid R C g" and s: "R + rows s \<le> 2 ^ 32" "C + columns s \<le> 2 ^ 32"
  shows "get_first_free_location g s =
    Inr (map_option (\<lambda>i. mk_coord i (the (List.find (\<lambda>j. fits R C g (mk_coord i j) s) [0..<C])))
      (List.find (\<lambda>i. \<exists>j < C. fits R C g (mk_coord i j) s) [0..<R]))"
proof -
  have cell: "(if add32 i (rows s) > length g \<or> add32 j (columns s) > C then Inr None
      else res_bind (location_is_valid g s i j)
             (\<lambda>is_valid. Inr (if is_valid then Some (mk_coord i j) else None))) =
      Inr (if fits R C g (mk_coord i j) s then Some (mk_coord i j) else None)"
    if "i < R" "j < C" for i j
  proof -
    have nw: "add32 i (rows s) = i + rows s" "add32 j (columns s) = j + columns s"
      using s that by (simp_all add: add32_exact)
    show ?thesis
    proof (cases "i + rows s \<le> R \<and> j + columns s \<le> C")
      case True
      then show ?thesis
        unfolding nw using location_is_valid_fits [OF g, of i s j] by (simp add: wf_gridD(1) [OF g])
    next
      case False
      then have "\<not> fits R C g (mk_coord i j) s" by (auto simp: fits_def)
      with False show ?thesis unfolding nw by (auto simp: wf_gridD(1) [OF g])
    qed
  qed
  have inner: "find_res (\<lambda>j.
      if add32 i (rows s) > length g \<or> add32 j (columns s) > C then Inr None
      else res_bind (location_is_valid g s i j)
             (\<lambda>is_valid. Inr (if is_valid then Some (mk_coord i j) else None))) [0..<C] =
      Inr (if \<exists>j < C. fits R C g (mk_coord i j) s
           then Some (mk_coord i (the (List.find (\<lambda>j. fits R C g (mk_coord i j) s) [0..<C])))
           else None)" (is "find_res ?f _ = _") if i: "i < R" for i
  proof -
    let ?P = "\<lambda>j. fits R C g (mk_coord i j) s"
    have "find_res ?f [0..<C] = Inr (map_option (mk_coord i) (List.find ?P [0..<C]))"
      by (rule find_res_pure) (use cell [OF i] in simp)
    moreover have "List.find ?P [0..<C] = None \<longleftrightarrow> \<not> (\<exists>j < C. ?P j)"
      by (auto simp: find_None_iff)
    ultimately show ?thesis by (cases "List.find ?P [0..<C]") auto
  qed
  show ?thesis
    unfolding get_first_free_location_def at0_size_wf [OF g] wf_gridD(1) [OF g, symmetric] res_bind_simps
    by (rule find_res_pure) (use inner g in \<open>simp add: wf_gridD(1)\<close>)
qed

lemma fits_inside:
  "fits R C g c s \<Longrightarrow> nonempty_shape s \<Longrightarrow> row c < R \<and> col c < C"
  by (auto simp: fits_def nonempty_shape_def)

lemma find_upt_Some:
  "List.find P [0..<n] = Some i \<longleftrightarrow> i < n \<and> P i \<and> (\<forall>k < i. \<not> P k)"
  by (auto simp: find_Some_iff)

lemma first_free_total:
  assumes "wf_grid R C g" "R + rows s \<le> 2 ^ 32" "C + columns s \<le> 2 ^ 32"
  shows "\<exists>r. get_first_free_location g s = Inr r"
  using first_free_by_find [OF assms] by blast

lemma first_free_Some:
  assumes "wf_grid R C g" "R + rows s \<le> 2 ^ 32" "C + columns s \<le> 2 ^ 32"
    and "get_first_free_location g s = Inr (Some c)"
  shows "fits R C g c s" and "row d < R \<Longrightarrow> col d < C \<Longrightarrow> fits R C g d s \<Longrightarrow> c \<le> d"
proof -
  let ?P = "\<lambda>i j. fits R C g (mk_coord i j) s"
  from assms(4) obtain i where i: "List.find (\<lambda>i. \<exists>j < C. ?P i j) [0..<R] = Some i"
    and c: "c = mk_coord i (the (List.find (?P i) [0..<C]))"
    by (auto simp: first_free_by_find [OF assms(1-3)])
  from i have "\<exists>j < C. ?P i j" by (simp add: find_upt_Some)
  then have "List.find (?P i) [0..<C] \<noteq> None" by (auto simp: find_None_iff)
  then obtain j where j: "List.find (?P i) [0..<C] = Some j" by blast
  with c have c: "c = mk_coord i j" by simp
  with j show "fits R C g c s" by (simp add: find_upt_Some)
  assume d: "row d < R" "col d < C" "fits R C g d s"
  then have P: "?P (row d) (col d)" by simp
  from i have "\<forall>k < i. \<not> (\<exists>j < C. ?P k j)" by (simp add: find_upt_Some)
  with P d(2) have i': "i \<le> row d" by (meson not_le_imp_less)
  from j have "\<forall>k < j. \<not> ?P i k" by (simp add: find_upt_Some)
  with P have "row d = i \<longrightarrow> j \<le> col d" by (metis not_le_imp_less)
  with i' show "c \<le> d" unfolding c less_eq_Coord_ext_def by (auto simp: le_less)
qed

lemma first_free_None:
  assumes "wf_grid R C g" "R + rows s \<le> 2 ^ 32" "C + columns s \<le> 2 ^ 32" and "nonempty_shape s"
    and "get_first_free_location g s = Inr None"
  shows "\<not> fits R C g d s"
proof
  assume f: "fits R C g d s"
  then have "row d < R" "col d < C" using assms(4) fits_inside by blast+
  moreover from f have "fits R C g (mk_coord (row d) (col d)) s" by simp
  moreover have "\<forall>i < R. \<forall>j < C. \<not> fits R C g (mk_coord i j) s"
    using assms(5) by (auto simp: first_free_by_find [OF assms(1-3)] find_None_iff)
  ultimately show False by blast
qed

section \<open>Superposition\<close>

lemma superposition_wf:
  assumes a: "wf_grid R C a" and b: "wf_grid R C b"
  shows "superposition a b =
    Inr (map (\<lambda>i. map (\<lambda>j. if a ! i ! j \<noteq> 0 then a ! i ! j else b ! i ! j) [0..<C]) [0..<R])"
proof -
  have cell: "map_res (\<lambda>j. res_bind (cell_idx a i j) (\<lambda>x.
           if x \<noteq> 0 then Inr x
           else res_bind (cell_idx b i j) (\<lambda>y. if y \<noteq> 0 then Inr y else Inr 0))) [0..<C] =
         Inr (map (\<lambda>j. if a ! i ! j \<noteq> 0 then a ! i ! j else b ! i ! j) [0..<C])"
    if "i \<in> set [0..<R]" for i
    using that by (intro map_res_pure) (auto simp: grid_simps [OF a] grid_simps [OF b])
  show ?thesis
    unfolding superposition_def at0_size_wf [OF a] wf_gridD(1) [OF a]
    by (simp only: res_bind_simps tt_assert_simps simp_thms) (rule map_res_pure [OF cell])
qed

lemma superposition_fits:
  assumes a: "wf_grid R C a" and b: "wf_grid R C b"
  obtains s where "superposition a b = Inr s" "wf_grid R C s"
    "\<And>c t. fits R C s c t \<longleftrightarrow> fits R C a c t \<and> fits R C b c t"
proof
  let ?s = "map (\<lambda>i. map (\<lambda>j. if a ! i ! j \<noteq> 0 then a ! i ! j else b ! i ! j) [0..<C]) [0..<R]"
  show "superposition a b = Inr ?s" by (rule superposition_wf [OF assms])
  show "wf_grid R C ?s" using a by (auto simp: wf_grid_def)
  fix c t
  have "?s ! i ! j = 0 \<longleftrightarrow> a ! i ! j = 0 \<and> b ! i ! j = 0" if "i < R" "j < C" for i j
    using that by simp
  then show "fits R C ?s c t \<longleftrightarrow> fits R C a c t \<and> fits R C b c t"
    unfolding fits_def by (auto 0 3)
qed

section \<open>Well-formed epoch grids\<close>

definition wf_epoch_grids :: "nat \<Rightarrow> nat \<Rightarrow> EpochIdToDeviceGrid \<Rightarrow> bool" where
  "wf_epoch_grids R C e \<longleftrightarrow>
     eg_rows e = R \<and> eg_columns e = C \<and> 0 < R \<and> R < 2 ^ 32 \<and> C < 2 ^ 32 \<and>
     (\<forall>k g. map_of (epoch_id_to_device_grid e) k = Some g \<longrightarrow> wf_grid R C g) \<and>
     (\<forall>(n, g) \<in> set (op_to_constraints e). wf_grid R C g)"

definition epoch_fits ::
    "nat \<Rightarrow> nat \<Rightarrow> string \<Rightarrow> nat \<Rightarrow> EpochIdToDeviceGrid \<Rightarrow> Coord \<Rightarrow> GridShape \<Rightarrow> bool" where
  "epoch_fits R C n k e c s \<longleftrightarrow>
     (case map_of (epoch_id_to_device_grid e) k of
        None \<Rightarrow> row c + rows s \<le> R \<and> col c + columns s \<le> C
      | Some g \<Rightarrow> fits R C g c s) \<and>
     (\<forall>(m, h) \<in> set (op_to_constraints e). n \<noteq> m \<longrightarrow> fits R C h c s)"

lemma wf_epoch_grids_put [simp]:
  "wf_epoch_grids R C e \<Longrightarrow> wf_grid R C g \<Longrightarrow> wf_epoch_grids R C (put_grid k g e)"
  by (auto simp: wf_epoch_grids_def put_grid_def split: if_splits)

lemma wf_epoch_grids_initialize [simp]:
  "wf_epoch_grids R C e \<Longrightarrow> wf_epoch_grids R C (initialize_device_grid e k b)"
  unfolding initialize_device_grid_def
  by (auto intro!: wf_epoch_grids_put simp: wf_epoch_grids_def[of R C e])

lemma initialize_device_grid_simps [simp]:
  "op_to_constraints (initialize_device_grid e k b) = op_to_constraints e"
  "eg_rows (initialize_device_grid e k b) = eg_rows e"
  "eg_columns (initialize_device_grid e k b) = eg_columns e"
  by (simp_all add: initialize_device_grid_def put_grid_def)

lemma put_grid_simps [simp]:
  "op_to_constraints (put_grid k g e) = op_to_constraints e"
  "map_of (epoch_id_to_device_grid (put_grid k g e)) = (map_of (epoch_id_to_device_grid e))(k \<mapsto> g)"
  by (simp_all add: put_grid_def)

lemma initialized_grid:
  assumes "wf_epoch_grids R C e"
  obtains g where "map_of (epoch_id_to_device_grid (initialize_device_grid e k False)) k = Some g"
    "wf_grid R C g"
    "\<And>c s. epoch_fits R C n k e c s \<longleftrightarrow>
       fits R C g c s \<and> (\<forall>(m, h) \<in> set (op_to_constraints e). n \<noteq> m \<longrightarrow> fits R C h c s)"
proof (cases "map_of (epoch_id_to_device_grid e) k")
  case None
  with assms show ?thesis
    by (intro that [of "create_empty_device_grid R C"])
      (auto simp: initialize_device_grid_def wf_epoch_grids_def epoch_fits_def)
next
  case (Some g)
  with assms show ?thesis
    by (intro that [of g]) (auto simp: initialize_device_grid_def wf_epoch_grids_def epoch_fits_def)
qed

lemma satisfies_constraints_fits:
  assumes e: "wf_epoch_grids R C e" and nw: "no_wrap c s"
  shows "satisfies_constraints e n c s =
    Inr (\<forall>(m, h) \<in> set (op_to_constraints e). n \<noteq> m \<longrightarrow> fits R C h c s)"
proof -
  have "fold_res (\<lambda>(m, h) sat. if n \<noteq> m
          then res_bind (can_place_on_device_grid h c s) (\<lambda>b. Inr (sat \<and> b)) else Inr sat) cs b =
        Inr (b \<and> (\<forall>(m, h) \<in> set cs. n \<noteq> m \<longrightarrow> fits R C h c s))"
    if "\<forall>(m, h) \<in> set cs. wf_grid R C h" for cs b
    using that by (induction cs arbitrary: b) (auto simp: can_place_fits [OF _ nw])
  with e show ?thesis by (simp add: satisfies_constraints_def wf_epoch_grids_def)
qed

lemma eg_can_place_fits:
  assumes e: "wf_epoch_grids R C e" and nw: "no_wrap c s"
  shows "eg_can_place e n k c s = Inr (epoch_fits R C n k e c s, initialize_device_grid e k False)"
proof (rule initialized_grid [OF e, where k = k and n = n])
  fix g assume g: "map_of (epoch_id_to_device_grid (initialize_device_grid e k False)) k = Some g"
    "wf_grid R C g" and f: "\<And>c s. epoch_fits R C n k e c s \<longleftrightarrow>
       fits R C g c s \<and> (\<forall>(m, h) \<in> set (op_to_constraints e). n \<noteq> m \<longrightarrow> fits R C h c s)"
  show ?thesis
    using g can_place_fits [OF g(2) nw]
    by (simp add: eg_can_place_def satisfies_constraints_fits [OF assms] Let_def f)
qed

lemma eg_next_search:
  assumes e: "wf_epoch_grids R C e" and k: "map_of (epoch_id_to_device_grid e) k = Some g"
  shows "\<exists>h. eg_get_next_grid_coordinate e n k s = get_first_free_location h s \<and>
    wf_grid R C h \<and> (\<forall>c t. fits R C h c t \<longleftrightarrow> epoch_fits R C n k e c t)"
proof -
  have fold: "\<exists>h. fold_res (\<lambda>(m, b) a. if n \<noteq> m then superposition a b else Inr a) cs a = Inr h \<and>
      wf_grid R C h \<and> (\<forall>c t. fits R C h c t \<longleftrightarrow>
        fits R C a c t \<and> (\<forall>(m, b) \<in> set cs. n \<noteq> m \<longrightarrow> fits R C b c t))"
    if "\<forall>(m, b) \<in> set cs. wf_grid R C b" "wf_grid R C a" for cs a
    using that
  proof (induction cs arbitrary: a)
    case (Cons x cs)
    obtain m b where x: "x = (m, b)" by (cases x)
    show ?case
    proof (cases "n = m")
      case True
      with Cons x show ?thesis by auto
    next
      case False
      from Cons.prems x obtain a' where a': "superposition a b = Inr a'" "wf_grid R C a'"
        and f: "\<And>c t. fits R C a' c t \<longleftrightarrow> fits R C a c t \<and> fits R C b c t"
        by (auto elim: superposition_fits [of R C a b])
      with Cons.IH [of a'] Cons.prems show ?thesis using x False by auto
    qed
  qed simp
  from e k have "wf_grid R C g" and "\<forall>(m, b) \<in> set (op_to_constraints e). wf_grid R C b"
    by (auto simp: wf_epoch_grids_def)
  from fold [OF this(2,1)] obtain h where
    "fold_res (\<lambda>(m, b) a. if n \<noteq> m then superposition a b else Inr a) (op_to_constraints e) g = Inr h"
    "wf_grid R C h" "\<And>c t. fits R C h c t \<longleftrightarrow>
        fits R C g c t \<and> (\<forall>(m, b) \<in> set (op_to_constraints e). n \<noteq> m \<longrightarrow> fits R C b c t)"
    by blast
  with k show ?thesis
    by (intro exI [of _ h])
      (auto simp: eg_get_next_grid_coordinate_def get_next_grid_coordinate_def epoch_fits_def)
qed

lemma eg_fill_paint:
  assumes e: "wf_epoch_grids R C e" and f: "epoch_fits R C n k e c s"
  obtains g where "eg_fill e k c s = Inr (put_grid k (paint (in_rect c s) g) (initialize_device_grid e k False))"
    "wf_grid R C g" "fits R C g c s"
    "map_of (epoch_id_to_device_grid (initialize_device_grid e k False)) k = Some g"
proof (rule initialized_grid [OF e, where k = k and n = n])
  fix g assume g: "map_of (epoch_id_to_device_grid (initialize_device_grid e k False)) k = Some g"
    "wf_grid R C g" and *: "\<And>c s. epoch_fits R C n k e c s \<longleftrightarrow>
       fits R C g c s \<and> (\<forall>(m, h) \<in> set (op_to_constraints e). n \<noteq> m \<longrightarrow> fits R C h c s)"
  from * f have fg: "fits R C g c s" by simp
  then have "fill_device_grid_with_placement g c s = Inr (paint (in_rect c s) g)"
    using g(2) by (intro fill_paint) (auto simp: fits_def)
  with g fg show thesis by (intro that [of g]) (auto simp: eg_fill_def Let_def)
qed

end
