(* ===== verification/Grid_Interface.thy ===== *)
theory Grid_Interface
  imports Grid_Facts
begin

text \<open>
  The interface between a surface of cores and the placer that puts rectangles on it, as a
  locale: a test \<open>can\<close>, a search \<open>nxt\<close> and an update \<open>fill\<close>, with the laws that make a
  sequence of placements safe. It is interpreted on \<open>device_grid::*\<close> and on the grids that
  \<open>EpochIdToDeviceGrid\<close> keeps per epoch under the placer's constraints; the properties of
  both rest on the facts proved once in the locale.
\<close>

locale placement_surface =
  fixes can :: "'g \<Rightarrow> Coord \<Rightarrow> GridShape \<Rightarrow> bool res"
    and nxt :: "'g \<Rightarrow> GridShape \<Rightarrow> Coord option res"
    and fill :: "'g \<Rightarrow> Coord \<Rightarrow> GridShape \<Rightarrow> 'g res"
    and inv :: "'g \<Rightarrow> bool"
    and free :: "'g \<Rightarrow> Coord \<Rightarrow> GridShape \<Rightarrow> bool"
    and small :: "GridShape \<Rightarrow> bool"
  assumes can_free: "inv g \<Longrightarrow> no_wrap c s \<Longrightarrow> can g c s = Inr (free g c s)"
    and free_no_wrap: "inv g \<Longrightarrow> free g c s \<Longrightarrow> no_wrap c s"
    and nxt_total: "inv g \<Longrightarrow> small s \<Longrightarrow> \<exists>r. nxt g s = Inr r"
    and nxt_sound: "inv g \<Longrightarrow> small s \<Longrightarrow> nxt g s = Inr (Some c) \<Longrightarrow> free g c s"
    and nxt_complete:
      "inv g \<Longrightarrow> small s \<Longrightarrow> nonempty_shape s \<Longrightarrow> nxt g s = Inr None \<Longrightarrow> \<not> free g c s"
    and fill_ok:
      "inv g \<Longrightarrow> free g c s \<Longrightarrow> \<exists>g'. fill g c s = Inr g' \<and> inv g'"
    and fill_free:
      "inv g \<Longrightarrow> free g c s \<Longrightarrow> fill g c s = Inr g' \<Longrightarrow>
       free g' d t \<longleftrightarrow> free g d t \<and> disjoint_rects c s d t"
begin

text \<open>The search answers the test: what it finds can be placed, and it finds a place if there is one.\<close>

lemma nxt_can:
  assumes "inv g" "small s" "nxt g s = Inr (Some c)"
  shows "can g c s = Inr True"
  using assms can_free free_no_wrap nxt_sound by (metis (full_types))

lemma nxt_None_can:
  assumes "inv g" "small s" "nonempty_shape s" "nxt g s = Inr None" "no_wrap c s"
  shows "can g c s = Inr False"
  using assms can_free nxt_complete by metis

text \<open>Two placements in sequence never share a core, however the second one was chosen.\<close>

lemma placed_disjoint:
  assumes "inv g" "free g c s" "fill g c s = Inr g'" "inv g'" "no_wrap d t" "can g' d t = Inr True"
  shows "disjoint_rects c s d t"
  using assms can_free fill_free by (metis Inr_inject)

lemma nxt_after_fill_disjoint:
  assumes "inv g" "small s" "nxt g s = Inr (Some c)" "fill g c s = Inr g'"
    and "small t" "nxt g' t = Inr (Some d)"
  shows "disjoint_rects c s d t"
proof -
  from assms have f: "free g c s" by (blast intro: nxt_sound)
  with assms have "inv g'" by (metis fill_ok Inr_inject)
  with assms have "free g' d t" by (blast intro: nxt_sound)
  with fill_free [OF assms(1) f assms(4)] show ?thesis by simp
qed

lemma fill_monotone:
  assumes "inv g" "free g c s" "fill g c s = Inr g'" "free g' d t"
  shows "free g d t"
  using assms fill_free by blast

end

definition small_shape :: "nat \<Rightarrow> nat \<Rightarrow> GridShape \<Rightarrow> bool" where
  "small_shape R C s \<longleftrightarrow> R + rows s \<le> 2 ^ 32 \<and> C + columns s \<le> 2 ^ 32"

section \<open>One device grid\<close>

interpretation device: placement_surface
  can_place_on_device_grid get_next_grid_coordinate fill_device_grid_with_placement
  "wf_grid R C" "fits R C" "small_shape R C" for R C
proof unfold_locales
  fix g c s assume g: "wf_grid R C g"
  show "no_wrap c s \<Longrightarrow> can_place_on_device_grid g c s = Inr (fits R C g c s)"
    by (rule can_place_fits [OF g])
  show "fits R C g c s \<Longrightarrow> no_wrap c s"
    using wf_gridD(3,4) [OF g] by (auto simp: fits_def no_wrap_def)
  show "\<exists>r. get_next_grid_coordinate g s = Inr r" if "small_shape R C s"
    using that first_free_total [OF g] by (simp add: get_next_grid_coordinate_def small_shape_def)
  show "fits R C g c s" if "small_shape R C s" "get_next_grid_coordinate g s = Inr (Some c)"
    using that first_free_Some(1) [OF g] by (simp add: get_next_grid_coordinate_def small_shape_def)
  show "\<not> fits R C g c s"
    if "small_shape R C s" "nonempty_shape s" "get_next_grid_coordinate g s = Inr None"
    using that first_free_None [OF g] by (simp add: get_next_grid_coordinate_def small_shape_def)
  assume f: "fits R C g c s"
  then have fill: "fill_device_grid_with_placement g c s = Inr (paint (in_rect c s) g)"
    by (intro fill_paint [OF g]) (simp_all add: fits_def)
  show "\<exists>g'. fill_device_grid_with_placement g c s = Inr g' \<and> wf_grid R C g'"
    using fill g by simp
  show "fits R C g' d t = (fits R C g d t \<and> disjoint_rects c s d t)"
    if "fill_device_grid_with_placement g c s = Inr g'" for g' d t
  proof -
    from that fill have "g' = paint (in_rect c s) g" by simp
    then show ?thesis by (simp add: fits_paint [OF g])
  qed
qed

section \<open>The grid of one epoch, under constraints\<close>

definition epoch_can :: "string \<Rightarrow> nat \<Rightarrow> EpochIdToDeviceGrid \<Rightarrow> Coord \<Rightarrow> GridShape \<Rightarrow> bool res" where
  "epoch_can n k e c s = res_bind (eg_can_place e n k c s) (\<lambda>(b, _). Inr b)"

lemma epoch_fits_no_wrap:
  "wf_epoch_grids R C e \<Longrightarrow> epoch_fits R C n k e c s \<Longrightarrow> no_wrap c s"
  by (auto simp: epoch_fits_def no_wrap_def wf_epoch_grids_def fits_def split: option.splits)

interpretation epoch: placement_surface
  "epoch_can n k" "\<lambda>e. eg_get_next_grid_coordinate e n k" "\<lambda>e. eg_fill e k"
  "\<lambda>e. wf_epoch_grids R C e \<and> map_of (epoch_id_to_device_grid e) k \<noteq> None"
  "epoch_fits R C n k" "small_shape R C" for R C n k
proof unfold_locales
  fix e c s assume a: "wf_epoch_grids R C e \<and> map_of (epoch_id_to_device_grid e) k \<noteq> None"
  then have e: "wf_epoch_grids R C e" by simp
  from a obtain g0 where k: "map_of (epoch_id_to_device_grid e) k = Some g0" by auto
  show "no_wrap c s \<Longrightarrow> epoch_can n k e c s = Inr (epoch_fits R C n k e c s)"
    by (simp add: epoch_can_def eg_can_place_fits [OF e])
  show "epoch_fits R C n k e c s \<Longrightarrow> no_wrap c s" by (rule epoch_fits_no_wrap [OF e])
  obtain h where h: "eg_get_next_grid_coordinate e n k s = get_first_free_location h s"
    "wf_grid R C h" "\<And>c t. fits R C h c t \<longleftrightarrow> epoch_fits R C n k e c t"
    using eg_next_search [OF e k, of n s] by blast
  show "\<exists>r. eg_get_next_grid_coordinate e n k s = Inr r" if "small_shape R C s"
    using that first_free_total [OF h(2)] by (simp add: h(1) small_shape_def)
  show "epoch_fits R C n k e c s"
    if "small_shape R C s" "eg_get_next_grid_coordinate e n k s = Inr (Some c)"
    using that first_free_Some(1) [OF h(2)] h by (simp add: small_shape_def)
  show "\<not> epoch_fits R C n k e c s" if "small_shape R C s" "nonempty_shape s"
    "eg_get_next_grid_coordinate e n k s = Inr None"
    using that first_free_None [OF h(2)] h by (simp add: small_shape_def)
  assume f: "epoch_fits R C n k e c s"
  obtain g where fill: "eg_fill e k c s =
      Inr (put_grid k (paint (in_rect c s) g) (initialize_device_grid e k False))"
    and g: "wf_grid R C g" "map_of (epoch_id_to_device_grid (initialize_device_grid e k False)) k = Some g"
    by (rule eg_fill_paint [OF e f])
  show "\<exists>e'. eg_fill e k c s = Inr e' \<and>
      (wf_epoch_grids R C e' \<and> map_of (epoch_id_to_device_grid e') k \<noteq> None)"
    using fill e g(1) by simp
  from g(2) k have "map_of (epoch_id_to_device_grid e) k = Some g"
    by (simp add: initialize_device_grid_def)
  then show "epoch_fits R C n k e' d t = (epoch_fits R C n k e d t \<and> disjoint_rects c s d t)"
    if "eg_fill e k c s = Inr e'" for e' d t
    using that fill fits_paint [OF g(1)] by (auto simp: epoch_fits_def)
qed

section \<open>Properties\<close>

text \<open>
  On a rectangular grid the search for a free location is complete and
  canonical: it never throws, and it returns the first coordinate in row-major order at which
  the shape lies inside the grid on free cores only, or nothing if there is no such coordinate.
\<close>

theorem first_free_location_correct:
  assumes "wf_grid R C g" "small_shape R C s" "nonempty_shape s"
  shows "\<exists>r. get_first_free_location g s = Inr r \<and>
    (case r of
       None \<Rightarrow> (\<forall>d. \<not> fits R C g d s)
     | Some c \<Rightarrow> fits R C g c s \<and> (\<forall>d. fits R C g d s \<longrightarrow> c \<le> d))"
proof -
  note s = assms(2)[unfolded small_shape_def]
  obtain r where r: "get_first_free_location g s = Inr r"
    using first_free_total [OF assms(1)] s by blast
  show ?thesis
  proof (cases r)
    case None
    with r s show ?thesis using first_free_None [OF assms(1) _ _ assms(3)] by simp
  next
    case (Some c)
    with r have "get_first_free_location g s = Inr (Some c)" by simp
    note c = first_free_Some [OF assms(1) conjunct1 [OF s] conjunct2 [OF s] this]
    have "c \<le> d" if "fits R C g d s" for d
      using c(2) fits_inside [OF that assms(3)] that by blast
    with c(1) r Some show ?thesis by simp
  qed
qed

theorem first_free_location_correct_witness:
  "get_first_free_location [[1, 0, 0], [0, 0, 1]] (mk_shape 1 2) = Inr (Some (mk_coord 0 1)) \<and>
   (\<exists>r. get_first_free_location [[1, 0, 0], [0, 0, 1]] (mk_shape 2 2) = Inr r \<and>
    (case r of None \<Rightarrow> (\<forall>d. \<not> fits 2 3 [[1, 0, 0], [0, 0, 1]] d (mk_shape 2 2))
     | Some c \<Rightarrow> fits 2 3 [[1, 0, 0], [0, 0, 1]] c (mk_shape 2 2) \<and>
         (\<forall>d. fits 2 3 [[1, 0, 0], [0, 0, 1]] d (mk_shape 2 2) \<longrightarrow> c \<le> d)))"
proof
  show "get_first_free_location [[1, 0, 0], [0, 0, 1]] (mk_shape 1 2) = Inr (Some (mk_coord 0 1))"
    by code_simp
  show "\<exists>r. get_first_free_location [[1, 0, 0], [0, 0, 1]] (mk_shape 2 2) = Inr r \<and>
    (case r of None \<Rightarrow> (\<forall>d. \<not> fits 2 3 [[1, 0, 0], [0, 0, 1]] d (mk_shape 2 2))
     | Some c \<Rightarrow> fits 2 3 [[1, 0, 0], [0, 0, 1]] c (mk_shape 2 2) \<and>
         (\<forall>d. fits 2 3 [[1, 0, 0], [0, 0, 1]] d (mk_shape 2 2) \<longrightarrow> c \<le> d))"
    by (rule first_free_location_correct)
      (simp_all add: wf_grid_def small_shape_def nonempty_shape_def)
qed

text \<open>
  Placing a shape where the grid says it can be placed succeeds, keeps the grid
  rectangular, and blocks exactly the cores of the placed rectangle: afterwards another shape
  can be placed precisely where it could be placed before without touching that rectangle.
\<close>

theorem fill_blocks_exactly:
  assumes "wf_grid R C g" "no_wrap c s" "can_place_on_device_grid g c s = Inr True"
    and "no_wrap d t"
  shows "\<exists>g'. fill_device_grid_with_placement g c s = Inr g' \<and> wf_grid R C g' \<and>
    can_place_on_device_grid g' d t =
      Inr (can_place_on_device_grid g d t = Inr True \<and> disjoint_rects c s d t)"
proof -
  have f: "fits R C g c s" using assms(1-3) by (simp add: can_place_fits)
  obtain g' where g': "fill_device_grid_with_placement g c s = Inr g'" "wf_grid R C g'"
    using device.fill_ok [OF assms(1) f] by blast
  with assms device.fill_free [OF assms(1) f g'(1)] show ?thesis
    by (simp add: can_place_fits)
qed

theorem fill_blocks_exactly_witness:
  "\<exists>g'. fill_device_grid_with_placement [[0, 0, 0]] (mk_coord 0 1) (mk_shape 1 1) = Inr g' \<and>
    wf_grid 1 3 g' \<and>
    can_place_on_device_grid g' (mk_coord 0 2) (mk_shape 1 1) =
      Inr (can_place_on_device_grid [[0, 0, 0]] (mk_coord 0 2) (mk_shape 1 1) = Inr True \<and>
           disjoint_rects (mk_coord 0 1) (mk_shape 1 1) (mk_coord 0 2) (mk_shape 1 1))"
proof (rule fill_blocks_exactly)
  show "can_place_on_device_grid [[0, 0, 0]] (mk_coord 0 1) (mk_shape 1 1) = Inr True"
    by code_simp
qed (simp_all add: wf_grid_def no_wrap_def)

text \<open>
  C26 (functional). The search over an epoch's grid respects the constraints of all other ops: a
  location it returns is accepted by the epoch's own placement test (grid and constraints), and
  if it returns nothing the test refuses every location.
\<close>

theorem epoch_search_respects_constraints:
  assumes "wf_epoch_grids R C e" "map_of (epoch_id_to_device_grid e) k \<noteq> None"
    and "small_shape R C s" "nonempty_shape s"
  shows "\<exists>r. eg_get_next_grid_coordinate e n k s = Inr r \<and>
    (case r of
       None \<Rightarrow> (\<forall>d. no_wrap d s \<longrightarrow> eg_can_place e n k d s = Inr (False, e))
     | Some c \<Rightarrow> eg_can_place e n k c s = Inr (True, e) \<and> satisfies_constraints e n c s = Inr True)"
proof -
  have inv: "wf_epoch_grids R C e \<and> map_of (epoch_id_to_device_grid e) k \<noteq> None"
    using assms by simp
  have same: "initialize_device_grid e k False = e"
    using assms(2) by (auto simp: initialize_device_grid_def)
  obtain r where r: "eg_get_next_grid_coordinate e n k s = Inr r"
    using epoch.nxt_total [OF inv assms(3)] by blast
  show ?thesis
  proof (cases r)
    case None
    with r have "\<And>d. \<not> epoch_fits R C n k e d s"
      using epoch.nxt_complete [OF inv assms(3,4)] by simp
    with None r show ?thesis by (simp add: eg_can_place_fits [OF assms(1)] same)
  next
    case (Some c)
    with r have f: "epoch_fits R C n k e c s" using epoch.nxt_sound [OF inv assms(3)] by simp
    have "satisfies_constraints e n c s = Inr True"
      using f by (simp add: satisfies_constraints_fits [OF assms(1) epoch_fits_no_wrap [OF assms(1) f]]
          epoch_fits_def)
    with f Some r show ?thesis
      by (simp add: eg_can_place_fits [OF assms(1) epoch_fits_no_wrap [OF assms(1) f]] same)
  qed
qed

definition constrained_epoch_example :: EpochIdToDeviceGrid where
  "constrained_epoch_example =
     \<lparr>eg_rows = 1, eg_columns = 3, epoch_id_to_device_grid = [(0, [[1, 0, 0]])],
      op_to_constraints = [(''b'', [[0, 1, 0]])]\<rparr>"

theorem epoch_search_respects_constraints_witness:
  "eg_get_next_grid_coordinate constrained_epoch_example ''a'' 0 (mk_shape 1 1)
     = Inr (Some (mk_coord 0 2)) \<and>
   eg_can_place constrained_epoch_example ''a'' 0 (mk_coord 0 2) (mk_shape 1 1)
     = Inr (True, constrained_epoch_example)"
proof -
  have nxt: "eg_get_next_grid_coordinate constrained_epoch_example ''a'' 0 (mk_shape 1 1)
     = Inr (Some (mk_coord 0 2))"
    by code_simp
  have "wf_epoch_grids 1 3 constrained_epoch_example"
    "map_of (epoch_id_to_device_grid constrained_epoch_example) 0 \<noteq> None"
    "small_shape 1 3 (mk_shape 1 1)" "nonempty_shape (mk_shape 1 1)"
    by (simp_all add: wf_epoch_grids_def constrained_epoch_example_def wf_grid_def small_shape_def
        nonempty_shape_def)
  from epoch_search_respects_constraints [OF this, of "''a''"] nxt show ?thesis by simp
qed

text \<open>
  The bounds test of \<open>can_place_on_device_grid\<close> is computed in unsigned 32-bit
  arithmetic, and its wrap-around defeats it: a start row whose end row wraps to zero is
  accepted on every grid, although none of the requested cores is on the grid.
\<close>

theorem can_place_wraps:
  assumes "wf_grid R C g" "0 < rows s" "rows s \<le> 2 ^ 32 - R" "columns s \<le> C"
  shows "can_place_on_device_grid g (mk_coord (2 ^ 32 - rows s) 0) s = Inr True \<and>
         (\<forall>i j. in_rect (mk_coord (2 ^ 32 - rows s) 0) s i j \<longrightarrow> R \<le> i)"
proof -
  have R: "R < 2 ^ 32" "C < 2 ^ 32" using wf_gridD(3,4) [OF assms(1)] .
  have le: "rows s \<le> 2 ^ 32" using assms(3) by linarith
  then have wrap: "add32 (2 ^ 32 - rows s) (rows s) = 0" by (simp add: add32_def)
  have "add32 0 (columns s) = columns s" using assms(4) R by (simp add: add32_exact)
  with wrap assms(4) have "can_place_on_device_grid g (mk_coord (2 ^ 32 - rows s) 0) s = Inr True"
    by (simp add: can_place_on_device_grid_def at0_size_wf [OF assms(1)])
  moreover have "R \<le> 2 ^ 32 - rows s" using assms(3) R by linarith
  ultimately show ?thesis by (auto simp: in_rect_def)
qed

theorem can_place_wraps_witness:
  "can_place_on_device_grid [[1]] (mk_coord (2 ^ 32 - 1) 0) (mk_shape 1 1) = Inr True"
  using can_place_wraps [of 1 1 "[[1]]" "mk_shape 1 1"] by (simp add: wf_grid_def)

end
