(* ===== verification/Grid_Placer.thy ===== *)
theory Grid_Placer
  imports Grid_Interface
begin

text \<open>
  The grid placer of \<open>placer/grid_placer.cpp\<close>: the choice of a location for one op
  (\<open>get_placed_coordinate\<close>, with the user's overrides and automatic transposition), the
  placement of a list of ops (\<open>place_on_grid_helper\<close>) and its entry points \<open>place_one_op\<close>,
  \<open>place_on_grid\<close> and \<open>place_onto_device_grids\<close>. The retry loop of
  \<open>get_placed_coordinate\<close> is a partial function; exceptions are values.
\<close>

datatype NodeEpochType = Forward | Backward | Optimizer

datatype PlacerState =
    PLACE_WITH_RELATIVE_OFFSETS
  | INCREMENT_EPOCH_AND_PLACE_WITH_RELATIVE_OFFSETS
  | ALLOW_EPOCH_INCREMENTS

record DeviceGridConfig =
  enable_relative_offsets :: bool
  cfg_increment_epoch :: bool
  allow_increment :: bool

record DeviceGridPlacement =
  dgp_op_name :: string
  device_grid_index :: nat
  dgp_placed_cores :: CoordRange
  dgp_grid_transpose :: bool

record OpGroupToPlace =
  op_group_id :: nat
  op_names :: "string list"
  op_name_to_relative_offset_from_first_op :: "(string \<times> CoordOffset) list"
  group_chip_id :: nat
  increment_epoch :: bool
  group_epoch_type :: NodeEpochType

type_synonym overrides = "(string \<times> PlacerOpOverride) list"
type_synonym shapes = "(string \<times> GridShape) list"

section \<open>Transposition\<close>

primrec count_taken_cores :: "DeviceGrid \<Rightarrow> nat \<Rightarrow> nat list \<Rightarrow> nat res" where
  "count_taken_cores g op_j [] = Inr 0"
| "count_taken_cores g op_j (op_i # is) =
     res_bind (cell_idx g op_i op_j) (\<lambda>x.
       if x = 0 then Inr 0
       else res_bind (count_taken_cores g op_j is) (\<lambda>n. Inr (Suc n)))"

text \<open>
  The scan to the left of the candidate starts at \<open>int op_j = j - 1\<close>; for \<open>j > 2 ^ 31\<close> that is
  negative and the loop does not run.
\<close>

definition get_active_placement_row_height :: "DeviceGrid \<Rightarrow> Coord option \<Rightarrow> nat res" where
  "get_active_placement_row_height g candidate =
     (case candidate of
        None \<Rightarrow> Inr 0
      | Some c \<Rightarrow>
          res_bind (idx0_size g) (\<lambda>device_grid_columns.
          let device_grid_rows = length g;
              device_R_larger_than_C = device_grid_rows > device_grid_columns;
              i = row c; j = col c in
          res_bind (if i < device_grid_rows
              then find_res (\<lambda>op_j. res_bind (cell_idx g i op_j)
                     (\<lambda>x. Inr (if x \<noteq> 0 then Some op_j else None)))
                   (if j \<le> 2 ^ 31 then rev [0..<j] else [])
              else Inr None) (\<lambda>neighbour.
          res_bind (case neighbour of
              None \<Rightarrow> Inr 0
            | Some op_j \<Rightarrow> count_taken_cores g op_j [i..<device_grid_rows]) (\<lambda>row_height.
          Inr (if row_height = 0 \<and> device_R_larger_than_C
               then sub32 device_grid_rows i else row_height)))))"

definition should_try_auto_transpose_op ::
    "DeviceGrid \<Rightarrow> GridShape \<Rightarrow> bool \<Rightarrow> bool \<Rightarrow> bool res" where
  "should_try_auto_transpose_op g shape enable_auto_transposing manually_transpose_this_op =
     res_bind (idx0_size g) (\<lambda>device_grid_c.
     let device_grid_r = length g;
         is_transposable = columns shape \<le> device_grid_r \<and> rows shape \<le> device_grid_c in
     res_bind (tt_assert (\<not> manually_transpose_this_op \<or>
                          (manually_transpose_this_op \<and> is_transposable))) (\<lambda>_.
     let try_auto_transpose =
           is_transposable \<and> enable_auto_transposing \<and> rows shape > columns shape in
     Inr (try_auto_transpose \<and> \<not> manually_transpose_this_op)))"

definition apply_auto_transpose ::
    "bool \<Rightarrow> DeviceGrid \<Rightarrow> Coord option \<Rightarrow> nat \<Rightarrow> bool res" where
  "apply_auto_transpose try_auto_transpose g coordinate_to_try op_grid_R =
     (if \<not> try_auto_transpose then Inr False
      else if coordinate_to_try = None then Inr True
      else res_bind (get_active_placement_row_height g coordinate_to_try)
             (\<lambda>h. Inr (h < op_grid_R)))"

section \<open>Choosing a location\<close>

text \<open>One pass through the body of the retry loop of \<open>get_placed_coordinate\<close>.\<close>

definition retry_step ::
    "string \<Rightarrow> GridShape \<Rightarrow> bool \<Rightarrow> bool \<Rightarrow> nat \<Rightarrow> GridShape \<Rightarrow> EpochIdToDeviceGrid \<Rightarrow>
     (Coord \<times> nat \<times> GridShape \<times> EpochIdToDeviceGrid) res" where
  "retry_step op_name shape may_increment try_auto_transpose k shape_local e =
     res_bind (at_key (epoch_id_to_device_grid e) k) (\<lambda>device_grid.
     res_bind (eg_get_next_grid_coordinate e op_name k shape_local) (\<lambda>found.
     if may_increment \<and> found = None
     then Inr (mk_coord 0 0, add32 k 1, shape_local, initialize_device_grid e (add32 k 1) False)
     else
       res_bind (apply_auto_transpose try_auto_transpose device_grid found (rows shape)) (\<lambda>turn.
       res_bind (if turn
           then res_bind (eg_get_next_grid_coordinate e op_name k (transposed shape_local)) (\<lambda>coord_T.
             Inr (case coord_T of
                    None \<Rightarrow> (found, shape_local)
                  | Some t \<Rightarrow>
                      (case found of
                         None \<Rightarrow> (Some t, transposed shape)
                       | Some f \<Rightarrow>
                           if coord_less t f \<or> coord_eq t f
                           then (Some t, transposed shape) else (found, shape_local))))
           else Inr (found, shape_local)) (\<lambda>(coordinate_to_try, shape_local').
       case coordinate_to_try of
         None \<Rightarrow> Inl FailToPlaceOnCurrentEpoch
       | Some c \<Rightarrow> Inr (c, k, shape_local', e)))))"

partial_function (option) place_loop ::
    "string \<Rightarrow> GridShape \<Rightarrow> bool \<Rightarrow> bool \<Rightarrow> Coord \<Rightarrow> nat \<Rightarrow> GridShape \<Rightarrow> EpochIdToDeviceGrid \<Rightarrow>
     (Coord \<times> nat \<times> GridShape \<times> EpochIdToDeviceGrid) res option" where
  "place_loop op_name shape may_increment try_auto_transpose c k shape_local e =
     (case eg_can_place e op_name k c shape_local of
        Inl ex \<Rightarrow> Some (Inl ex)
      | Inr (ok, e') \<Rightarrow>
          if ok then Some (Inr (c, k, shape_local, e'))
          else (case retry_step op_name shape may_increment try_auto_transpose k shape_local e' of
                  Inl ex \<Rightarrow> Some (Inl ex)
                | Inr (c', k', shape_local', e'') \<Rightarrow>
                    place_loop op_name shape may_increment try_auto_transpose c' k' shape_local' e''))"

declare place_loop.simps [code]

text \<open>The user's \<open>grid_start\<close> override: taken when it can be placed, otherwise an error.\<close>

definition report_conflict ::
    "EpochIdToDeviceGrid \<Rightarrow> overrides \<Rightarrow> string \<Rightarrow> Coord \<Rightarrow> GridShape \<Rightarrow> unit res" where
  "report_conflict e op_to_overrides op_name user_grid_start shape_local =
     fold_res (\<lambda>(constraint_name, constraint_grid) _.
         if op_name = constraint_name then Inr ()
         else res_bind (can_place_on_device_grid constraint_grid user_grid_start shape_local) (\<lambda>b.
           if b then Inr ()
           else res_bind (at_key op_to_overrides constraint_name) (\<lambda>ov.
                res_bind (opt_value (grid_start ov)) (\<lambda>_.
                  Inl FailToSatisfyConflictingConstraint))))
       (op_to_constraints e) ()"

definition apply_user_grid_start ::
    "string \<Rightarrow> overrides \<Rightarrow> PlacerOpOverride option \<Rightarrow> Coord \<Rightarrow> nat \<Rightarrow> GridShape \<Rightarrow>
     EpochIdToDeviceGrid \<Rightarrow> (Coord \<times> EpochIdToDeviceGrid) res" where
  "apply_user_grid_start op_name op_to_overrides op_override coordinate_to_try k shape_local e =
     (case op_override of
        None \<Rightarrow> Inr (coordinate_to_try, e)
      | Some ov \<Rightarrow>
          (case grid_start ov of
             None \<Rightarrow> Inr (coordinate_to_try, e)
           | Some user_grid_start \<Rightarrow>
               res_bind (eg_can_place e op_name k user_grid_start shape_local) (\<lambda>(can_place, e').
               if can_place then Inr (user_grid_start, e')
               else res_bind (satisfies_constraints e' op_name user_grid_start shape_local) (\<lambda>sat.
                 if \<not> sat
                 then res_bind (report_conflict e' op_to_overrides op_name user_grid_start shape_local)
                        (\<lambda>_. Inr (coordinate_to_try, e'))
                 else Inl FailToSatisfyPlacementConstraint))))"

definition get_placed_coordinate ::
    "string \<Rightarrow> GridShape \<Rightarrow> EpochIdToDeviceGrid \<Rightarrow> nat \<Rightarrow> Coord option \<Rightarrow> bool \<Rightarrow> bool \<Rightarrow> overrides \<Rightarrow>
     (Coord \<times> nat \<times> bool \<times> EpochIdToDeviceGrid) comp" where
  "get_placed_coordinate op_name shape e0 k coordinate_to_try may_increment enable_auto_transposing
       op_to_overrides =
     comp_bind (Some (tt_assert (coordinate_to_try \<noteq> None))) (\<lambda>_.
     let e = initialize_device_grid e0 k False;
         op_override = map_of op_to_overrides op_name;
         manually_transpose_this_op =
           (case op_override of None \<Rightarrow> False | Some ov \<Rightarrow> transpose_op ov) in
     comp_bind (Some (at_key (epoch_id_to_device_grid e) k)) (\<lambda>g.
     comp_bind (Some (should_try_auto_transpose_op g shape enable_auto_transposing
                        manually_transpose_this_op)) (\<lambda>try_auto_transpose.
     let shape_local = (if manually_transpose_this_op then transposed shape else shape) in
     comp_bind (Some (apply_user_grid_start op_name op_to_overrides op_override
                        (the coordinate_to_try) k shape_local e)) (\<lambda>(c, e1).
     comp_bind (place_loop op_name shape may_increment try_auto_transpose c k shape_local e1)
       (\<lambda>(c', k', shape_local', e2).
         Some (Inr (c', k', rows shape \<noteq> rows shape_local', e2)))))))"

section \<open>Placing a list of ops\<close>

definition get_device_grid_config_from_strategy ::
    "bool \<Rightarrow> PlacerState \<Rightarrow> bool \<Rightarrow> bool \<Rightarrow> DeviceGridConfig" where
  "get_device_grid_config_from_strategy env_triplet_placement strategy induce_epoch_increment
       allow_incr =
     (case strategy of
        PLACE_WITH_RELATIVE_OFFSETS \<Rightarrow>
          \<lparr>enable_relative_offsets = env_triplet_placement,
           cfg_increment_epoch = induce_epoch_increment, allow_increment = allow_incr\<rparr>
      | INCREMENT_EPOCH_AND_PLACE_WITH_RELATIVE_OFFSETS \<Rightarrow>
          \<lparr>enable_relative_offsets = env_triplet_placement,
           cfg_increment_epoch = True, allow_increment = False\<rparr>
      | ALLOW_EPOCH_INCREMENTS \<Rightarrow>
          \<lparr>enable_relative_offsets = False,
           cfg_increment_epoch = True, allow_increment = True\<rparr>)"

text \<open>The loop of \<open>place_on_grid_helper\<close> over the ops of the group.\<close>

primrec place_ops ::
    "shapes \<Rightarrow> overrides \<Rightarrow> bool \<Rightarrow> DeviceGridConfig \<Rightarrow> bool \<Rightarrow> (string \<times> CoordOffset) list \<Rightarrow>
     string list \<Rightarrow> Coord \<Rightarrow> nat \<Rightarrow> Coord option \<Rightarrow> DeviceGridPlacement list \<Rightarrow> EpochIdToDeviceGrid \<Rightarrow>
     (DeviceGridPlacement list \<times> Coord) comp" where
  "place_ops op_to_grid_shape op_to_overrides enable cfg one_epoch offsets [] placed_coordinate k
       first_start placements e = Some (Inr (placements, placed_coordinate))"
| "place_ops op_to_grid_shape op_to_overrides enable cfg one_epoch offsets (op_name # ops)
       placed_coordinate k first_start placements e =
     comp_bind (Some (at_key op_to_grid_shape op_name)) (\<lambda>shape.
     let previous_coordinate = placed_coordinate;
         is_op_transpose_enabled = (enable \<or> length op_to_overrides > 0);
         try_coordinate =
           (case (map_of offsets op_name, first_start) of
              (Some offset, Some first) \<Rightarrow>
                if enable_relative_offsets cfg \<and> \<not> is_op_transpose_enabled
                then coord_add_offset first offset else placed_coordinate
            | _ \<Rightarrow> placed_coordinate) in
     comp_bind (get_placed_coordinate op_name shape e k (Some try_coordinate) (allow_increment cfg)
                  enable op_to_overrides) (\<lambda>(c, k', op_transposed, e').
     if one_epoch \<and> k' \<noteq> 0 then Some (Inr (placements, previous_coordinate))
     else
       let op_grid_shape = (if op_transposed then transposed shape else shape) in
       comp_bind (Some (eg_fill e' k' c op_grid_shape)) (\<lambda>e''.
         place_ops op_to_grid_shape op_to_overrides enable cfg one_epoch offsets ops c k'
           (case first_start of None \<Rightarrow> Some c | Some f \<Rightarrow> Some f)
           (placements @ [\<lparr>dgp_op_name = op_name, device_grid_index = k',
              dgp_placed_cores = mk_range c (coord_add_shape c op_grid_shape),
              dgp_grid_transpose = op_transposed\<rparr>]) e'')))"

definition place_on_grid_helper ::
    "string list \<Rightarrow> shapes \<Rightarrow> overrides \<Rightarrow> bool \<Rightarrow> DeviceGridConfig \<Rightarrow> DeviceGrid \<Rightarrow> Coord option \<Rightarrow>
     bool \<Rightarrow> (string \<times> CoordOffset) list \<Rightarrow> (string \<times> DeviceGrid) list \<Rightarrow>
     (DeviceGridPlacement list \<times> Coord) comp" where
  "place_on_grid_helper ops op_to_grid_shape op_to_overrides enable cfg device_grid
       starting_coordinate one_epoch offsets constraints =
     (let start = (case starting_coordinate of None \<Rightarrow> mk_coord 0 0 | Some c \<Rightarrow> c) in
      comp_bind (Some (at0_size device_grid)) (\<lambda>cols.
      let e0 = add_constraints
                 (initialize_device_grid_from (mk_epoch_grids (length device_grid) cols) 0 device_grid)
                 constraints in
      comp_bind (Some (if cfg_increment_epoch cfg
                       then res_bind (contains_empty_grid e0 0) (\<lambda>(b, e). Inr (\<not> b, e))
                       else Inr (False, e0))) (\<lambda>(new_epoch, e1).
        place_ops op_to_grid_shape op_to_overrides enable cfg one_epoch offsets ops
          (if new_epoch then mk_coord 0 0 else start) (if new_epoch then 1 else 0) None [] e1)))"

text \<open>
  \<open>place_one_op\<close>. The handler for all other exceptions is
  \<open>catch (...) { TT_ASSERT("place_one_op: caught unhandled exception"); }\<close>: its condition is a
  string literal, hence true, so the handler does nothing and the call returns no placement.
\<close>

definition swallow :: "'a res \<Rightarrow> 'a option res" where
  "swallow r =
     (case r of Inr x \<Rightarrow> Inr (Some x)
      | Inl UndefinedBehaviour \<Rightarrow> Inl UndefinedBehaviour
      | Inl _ \<Rightarrow> Inr None)"

definition place_one_op ::
    "bool \<Rightarrow> string \<Rightarrow> shapes \<Rightarrow> DeviceGrid \<Rightarrow> overrides \<Rightarrow> bool \<Rightarrow> Coord option \<Rightarrow>
     DeviceGridPlacement option comp" where
  "place_one_op env_triplet_placement op_name op_to_grid_shape device_grid op_to_overrides enable
       starting_coordinate =
     map_option swallow
       (comp_bind (place_on_grid_helper [op_name] op_to_grid_shape op_to_overrides enable
           (get_device_grid_config_from_strategy env_triplet_placement
              PLACE_WITH_RELATIVE_OFFSETS False False)
           device_grid starting_coordinate True [] [])
         (\<lambda>(placements, _).
           comp_bind (Some (tt_assert (length placements = 1))) (\<lambda>_. Some (vec_at placements 0))))"

text \<open>
  \<open>place_on_grid\<close> tries the three strategies in turn; every exception moves on to the next one
  (the second handler is again an assertion on a string literal).
\<close>

primrec place_with_strategies ::
    "bool \<Rightarrow> OpGroupToPlace \<Rightarrow> shapes \<Rightarrow> DeviceGrid \<Rightarrow> overrides \<Rightarrow> bool \<Rightarrow> Coord option \<Rightarrow>
     PlacerState list \<Rightarrow> (DeviceGridPlacement list \<times> Coord) comp" where
  "place_with_strategies env grp op_to_grid_shape device_grid op_to_overrides enable start [] =
     Some (Inl RuntimeError)"
| "place_with_strategies env grp op_to_grid_shape device_grid op_to_overrides enable start (st # sts) =
     comp_bind (map_option swallow
       (place_on_grid_helper (op_names grp) op_to_grid_shape op_to_overrides enable
          (get_device_grid_config_from_strategy env st (increment_epoch grp) False)
          device_grid start False (op_name_to_relative_offset_from_first_op grp) []))
       (\<lambda>r. case r of
          Some p \<Rightarrow> Some (Inr p)
        | None \<Rightarrow> place_with_strategies env grp op_to_grid_shape device_grid op_to_overrides
                    enable start sts)"

definition place_on_grid ::
    "bool \<Rightarrow> OpGroupToPlace \<Rightarrow> shapes \<Rightarrow> DeviceGrid \<Rightarrow> overrides \<Rightarrow> bool \<Rightarrow> Coord option \<Rightarrow>
     (DeviceGridPlacement list \<times> Coord) comp" where
  "place_on_grid env grp op_to_grid_shape device_grid op_to_overrides enable start =
     place_with_strategies env grp op_to_grid_shape device_grid op_to_overrides enable start
       [PLACE_WITH_RELATIVE_OFFSETS, INCREMENT_EPOCH_AND_PLACE_WITH_RELATIVE_OFFSETS,
        ALLOW_EPOCH_INCREMENTS]"

section \<open>Placing all groups\<close>

record EpochDeviceGridPlacement =
  edgp_device_grid :: DeviceGrid
  edgp_op_placements :: "DeviceGridPlacement list"

text \<open>The body of the loop of \<open>place_onto_device_grids\<close> over the placements of one group.\<close>

definition record_placement ::
    "shapes \<Rightarrow> nat \<Rightarrow> DeviceGridPlacement \<Rightarrow>
     EpochIdToDeviceGrid \<times> (nat \<times> DeviceGridPlacement list) list \<Rightarrow>
     (EpochIdToDeviceGrid \<times> (nat \<times> DeviceGridPlacement list) list) res" where
  "record_placement op_to_grid_shape current_epoch_id p st =
     (let (e, m) = st; device_index = add32 current_epoch_id (device_grid_index p) in
      res_bind (at_key op_to_grid_shape (dgp_op_name p)) (\<lambda>shape.
      res_bind (eg_fill e device_index (range_start (dgp_placed_cores p)) shape) (\<lambda>e'.
        Inr (e', AList.update device_index
                   ((case map_of m device_index of None \<Rightarrow> [] | Some ps \<Rightarrow> ps) @ [p]) m))))"

primrec place_groups ::
    "bool \<Rightarrow> shapes \<Rightarrow> overrides \<Rightarrow> bool \<Rightarrow> OpGroupToPlace list \<Rightarrow> nat \<Rightarrow> Coord option \<Rightarrow>
     EpochIdToDeviceGrid \<times> (nat \<times> DeviceGridPlacement list) list \<Rightarrow>
     (EpochIdToDeviceGrid \<times> (nat \<times> DeviceGridPlacement list) list) comp" where
  "place_groups env op_to_grid_shape op_to_overrides enable [] k start st = Some (Inr st)"
| "place_groups env op_to_grid_shape op_to_overrides enable (grp # grps) k start st =
     (let (e0, m) = st; e = initialize_device_grid e0 k False in
      comp_bind (Some (get_device_grid e k)) (\<lambda>g.
      comp_bind (place_on_grid env grp op_to_grid_shape g op_to_overrides enable start)
        (\<lambda>(placements, current_coordinate).
      comp_bind (Some (fold_res (record_placement op_to_grid_shape k) placements (e, m)))
        (\<lambda>(e', m').
           place_groups env op_to_grid_shape op_to_overrides enable grps (get_current_epoch_id e')
             (Some current_coordinate) (e', m')))))"

definition place_onto_device_grids ::
    "bool \<Rightarrow> GridShape \<Rightarrow> OpGroupToPlace list \<Rightarrow> shapes \<Rightarrow> overrides \<Rightarrow> bool \<Rightarrow>
     EpochDeviceGridPlacement list comp" where
  "place_onto_device_grids env device_grid_shape grps op_to_grid_shape op_to_overrides enable =
     comp_bind (place_groups env op_to_grid_shape op_to_overrides enable grps 0 None
                  (mk_epoch_grids (rows device_grid_shape) (columns device_grid_shape), []))
       (\<lambda>(e, m). Some (map_res (\<lambda>epoch_id.
          res_bind (at_key (epoch_id_to_device_grid e) epoch_id) (\<lambda>g.
          res_bind (at_key m epoch_id) (\<lambda>ps.
            Inr \<lparr>edgp_device_grid = g, edgp_op_placements = ps\<rparr>)))
        [0..<length (epoch_id_to_device_grid e)]))"

end
