(* ===== verification/Placer_Types.thy ===== *)
theory Placer_Types
  imports Grid_Placer
begin

text \<open>
  The data that the placer's stages exchange: the device description they consult
  (\<open>backend_api/device_config.hpp\<close>), the placer's configuration, the placements it decides and
  the solution that collects them (\<open>placer/placer.hpp\<close>), with the small methods of these
  structures from \<open>placer/placer.cpp\<close>. The environment variables that steer the placer are
  fields of \<open>Env\<close>.
\<close>

record Env =
  PYBUDA_TRIPLET_PLACEMENT :: bool
  PYBUDA_NEBULA_GALAXY_PLACER :: bool
  PYBUDA_PLACER_SNAKE :: bool
  PYBUDA_WORMHOLE_PIPELINED_PLACER :: bool
  PYBUDA_GALAXY_PLACER :: bool
  PYBUDA_GALAXY_PLACER_COMBINE_GRAD :: bool
  PYBUDA_GALAXY_PLACER_COMBINE_RECOMPUTE :: bool

section \<open>The device\<close>

datatype ARCH = GRAYSKULL | WORMHOLE_B0 | BLACKHOLE | Invalid_arch

record EthCoord =
  eth_x :: int
  eth_y :: int
  rack :: int
  shelf :: int

record DeviceConfig =
  arch :: ARCH
  chips_with_mmio :: "nat list"
  chip_coord_to_chip_id :: "(EthCoord \<times> nat) list"
  galaxy_shelves :: "int list"

definition eth_coord_less :: "EthCoord \<Rightarrow> EthCoord \<Rightarrow> bool" where
  "eth_coord_less a b \<longleftrightarrow>
     shelf a < shelf b \<or> (shelf a = shelf b \<and> rack a < rack b) \<or>
     (shelf a = shelf b \<and> rack a = rack b \<and> eth_y a < eth_y b) \<or>
     (shelf a = shelf b \<and> rack a = rack b \<and> eth_y a = eth_y b \<and> eth_x a < eth_x b)"

definition is_blackhole :: "DeviceConfig \<Rightarrow> bool" where
  "is_blackhole d \<longleftrightarrow> arch d = BLACKHOLE"

definition is_wormhole_b0 :: "DeviceConfig \<Rightarrow> bool" where
  "is_wormhole_b0 d \<longleftrightarrow> arch d = WORMHOLE_B0 \<or> is_blackhole d"

definition is_grayskull :: "DeviceConfig \<Rightarrow> bool" where
  "is_grayskull d \<longleftrightarrow> arch d = GRAYSKULL"

section \<open>The configuration\<close>

datatype ChipPlacementPolicy = MMIO_LAST | SNAKE

record PlacerConfig =
  chip_ids :: "nat list"
  chip_placement_policy :: ChipPlacementPolicy
  device_config :: DeviceConfig
  device_grid_shape :: GridShape
  output_queues_on_host :: bool
  harvested_rows :: "nat list"
  op_to_grid_shape :: shapes
  input_queue_to_grid_shape :: shapes
  op_to_epoch_type :: "(string \<times> NodeEpochType) list"
  op_to_grad_op :: "(string \<times> bool) list"
  op_to_recompute_op :: "(string \<times> bool) list"
  ops_tagged_for_chip_id_break :: "string list"
  ops_tagged_for_epoch_break :: "string list"
  ops_tagged_for_temporal_epoch_break :: "string list"
  fwd_to_bwd_nodes :: "(string \<times> string list) list"
  fwd_to_opt_nodes :: "(string \<times> (int \<times> string list) list) list"
  output_ops :: "string list"
  op_to_chip_id_assignment :: "(string \<times> nat) list"
  op_to_overrides :: overrides
  enable_auto_transposing_placement :: bool

definition get_available_rows_on_device :: "PlacerConfig \<Rightarrow> nat" where
  "get_available_rows_on_device cfg = sub32 (rows (device_grid_shape cfg)) (length (harvested_rows cfg))"

definition get_chip_id :: "PlacerConfig \<Rightarrow> string \<Rightarrow> nat res" where
  "get_chip_id cfg op_name =
     (if \<not> is_grayskull (device_config cfg) then Inr 0
      else at_key (op_to_chip_id_assignment cfg) op_name)"

definition get_chip_id_override :: "PlacerConfig \<Rightarrow> string \<Rightarrow> nat option" where
  "get_chip_id_override cfg op_name =
     (case map_of (op_to_overrides cfg) op_name of
        None \<Rightarrow> None
      | Some op_override \<Rightarrow> override_chip_id_opt op_override)"

definition place_on_new_epoch :: "PlacerConfig \<Rightarrow> string \<Rightarrow> PlacerConfig" where
  "place_on_new_epoch cfg op_name =
     cfg\<lparr>ops_tagged_for_epoch_break := List.insert op_name (ops_tagged_for_epoch_break cfg)\<rparr>"

definition place_on_new_chip :: "PlacerConfig \<Rightarrow> string \<Rightarrow> PlacerConfig" where
  "place_on_new_chip cfg op_name =
     cfg\<lparr>ops_tagged_for_chip_id_break := List.insert op_name (ops_tagged_for_chip_id_break cfg)\<rparr>"

section \<open>Placements\<close>

record EpochInfo =
  info_global_epoch_id :: nat
  info_temporal_epoch_id :: nat
  info_spatial_epoch_id :: nat
  info_epoch_type :: NodeEpochType

definition epoch_info_less :: "EpochInfo \<Rightarrow> EpochInfo \<Rightarrow> bool" where
  "epoch_info_less l r =
     (if info_temporal_epoch_id l = info_temporal_epoch_id r
      then info_spatial_epoch_id l < info_spatial_epoch_id r
      else info_temporal_epoch_id l < info_temporal_epoch_id r)"

record OpPlacement =
  placement_id :: nat
  placement_name :: string
  placement_chip_id :: nat
  global_epoch_id :: nat
  grid_transpose :: bool
  placed_cores :: CoordRange

definition op_placement_eq :: "OpPlacement \<Rightarrow> OpPlacement \<Rightarrow> bool" where
  "op_placement_eq l r \<longleftrightarrow>
     placement_name l = placement_name r \<and> placement_chip_id l = placement_chip_id r \<and>
     range_eq (placed_cores l) (placed_cores r)"

record QueueBufferPlacement =
  dram_channel :: nat
  dram_address :: nat
  dram_channel_location :: Coord
  buffer_size :: nat
  allocated_in_p2p_region :: bool

record QueueHostBufferPlacement =
  host_channel :: nat
  host_address :: nat
  host_buffer_size :: nat

record QueuePlacement =
  queue_name :: string
  queue_input_name :: string
  queue_grid_shape :: GridShape
  on_host :: bool
  queue_chip_id :: nat
  dram_buffers :: "QueueBufferPlacement list"
  host_buffers :: "QueueHostBufferPlacement list"
  read_only :: bool
  write_only :: bool
  write_stride :: int
  epoch_allocate :: int
  epoch_deallocate :: int

definition queue_size_bytes :: "QueuePlacement \<Rightarrow> nat" where
  "queue_size_bytes q = fold (\<lambda>b sz. add32 sz (buffer_size b mod 2 ^ 32)) (dram_buffers q) 0"

definition is_static :: "QueuePlacement \<Rightarrow> bool" where
  "is_static q \<longleftrightarrow> epoch_allocate q = -1 \<and> epoch_deallocate q = -1"

section \<open>The solution\<close>

record PlacerSolution =
  name_to_op_placement :: "(string \<times> OpPlacement) list"
  sol_input_queue_to_grid_shape :: shapes
  name_to_queue_placement :: "(string \<times> QueuePlacement) list"
  epoch_id_to_chip :: "(nat \<times> nat) list"
  epoch_id_to_subgraph_index :: "(nat \<times> nat) list"
  epoch_id_to_op_placement :: "(nat \<times> OpPlacement list) list"
  sol_device_grids :: EpochIdToDeviceGrid
  epoch_id_to_epoch_info :: "(nat \<times> EpochInfo) list"
  num_epochs :: nat
  is_pipelined :: bool
  fork_join_buffered :: bool

definition is_placed :: "PlacerSolution \<Rightarrow> string \<Rightarrow> bool" where
  "is_placed sol op = (map_of (name_to_op_placement sol) op \<noteq> None)"

definition sol_chip_id :: "PlacerSolution \<Rightarrow> string \<Rightarrow> nat res" where
  "sol_chip_id sol op =
     (case map_of (name_to_op_placement sol) op of
        Some p \<Rightarrow> Inr (placement_chip_id p)
      | None \<Rightarrow> (case map_of (name_to_queue_placement sol) op of
                   Some q \<Rightarrow> Inr (queue_chip_id q)
                 | None \<Rightarrow> Inl RuntimeError))"

definition sol_epoch_id :: "PlacerSolution \<Rightarrow> string \<Rightarrow> nat res" where
  "sol_epoch_id sol op =
     res_bind (at_key (name_to_op_placement sol) op) (\<lambda>p. Inr (global_epoch_id p))"

definition sol_epoch_info :: "PlacerSolution \<Rightarrow> nat \<Rightarrow> EpochInfo res" where
  "sol_epoch_info sol k = at_key (epoch_id_to_epoch_info sol) k"

definition sol_temporal_epoch_id :: "PlacerSolution \<Rightarrow> nat \<Rightarrow> nat res" where
  "sol_temporal_epoch_id sol k =
     res_bind (at_key (epoch_id_to_epoch_info sol) k) (\<lambda>i. Inr (info_temporal_epoch_id i))"

definition sol_op_temporal_epoch_id :: "PlacerSolution \<Rightarrow> string \<Rightarrow> nat res" where
  "sol_op_temporal_epoch_id sol op =
     res_bind (at_key (name_to_op_placement sol) op) (\<lambda>p.
     res_bind (at_key (epoch_id_to_epoch_info sol) (global_epoch_id p)) (\<lambda>i.
       Inr (info_temporal_epoch_id i)))"

definition sol_epoch_type :: "PlacerSolution \<Rightarrow> nat \<Rightarrow> NodeEpochType res" where
  "sol_epoch_type sol k =
     res_bind (at_key (epoch_id_to_epoch_info sol) k) (\<lambda>i. Inr (info_epoch_type i))"

definition num_temporal_epochs :: "PlacerSolution \<Rightarrow> nat" where
  "num_temporal_epochs sol =
     add32 (fold (\<lambda>(_, i) m. max m (info_temporal_epoch_id i)) (epoch_id_to_epoch_info sol) 0) 1"

definition num_temporal_epochs_of_type :: "PlacerSolution \<Rightarrow> NodeEpochType \<Rightarrow> nat" where
  "num_temporal_epochs_of_type sol ty =
     length (remdups (map (\<lambda>(_, i). info_temporal_epoch_id i)
       (filter (\<lambda>(_, i). info_epoch_type i = ty) (epoch_id_to_epoch_info sol))))"

text \<open>
  \<open>a.merge(b)\<close> of the standard maps: the entries of \<open>b\<close> whose key is not in \<open>a\<close> move over, the
  others stay in \<open>b\<close>. \<open>PlacerSolution::merge\<close> merges all maps but
  \<open>epoch_id_to_subgraph_index\<close>; the result is the pair of the solution and what is left.
\<close>

definition map_merge :: "('k \<times> 'v) list \<Rightarrow> ('k \<times> 'v) list \<Rightarrow> ('k \<times> 'v) list" where
  "map_merge a b = a @ filter (\<lambda>(k, _). map_of a k = None) b"

definition omap_merge :: "('k::linorder \<times> 'v) list \<Rightarrow> ('k \<times> 'v) list \<Rightarrow> ('k \<times> 'v) list" where
  "omap_merge a b = fold (\<lambda>(k, v) m. if map_of m k = None then omap_insert k v m else m) b a"

definition map_left :: "('k \<times> 'v) list \<Rightarrow> ('k \<times> 'v) list \<Rightarrow> ('k \<times> 'v) list" where
  "map_left a b = filter (\<lambda>(k, _). map_of a k \<noteq> None) b"

definition sol_merge :: "PlacerSolution \<Rightarrow> PlacerSolution \<Rightarrow> (PlacerSolution \<times> PlacerSolution) res" where
  "sol_merge a b =
     res_bind (tt_assert (is_pipelined a = is_pipelined b)) (\<lambda>_.
     res_bind (tt_assert (eg_rows (sol_device_grids a) = eg_rows (sol_device_grids b))) (\<lambda>_.
     res_bind (tt_assert (eg_columns (sol_device_grids a) = eg_columns (sol_device_grids b))) (\<lambda>_.
     let ga = epoch_id_to_device_grid (sol_device_grids a);
         gb = epoch_id_to_device_grid (sol_device_grids b) in
     Inr
      (a\<lparr>name_to_op_placement := map_merge (name_to_op_placement a) (name_to_op_placement b),
         sol_input_queue_to_grid_shape :=
           map_merge (sol_input_queue_to_grid_shape a) (sol_input_queue_to_grid_shape b),
         name_to_queue_placement :=
           map_merge (name_to_queue_placement a) (name_to_queue_placement b),
         epoch_id_to_chip := omap_merge (epoch_id_to_chip a) (epoch_id_to_chip b),
         epoch_id_to_op_placement :=
           map_merge (epoch_id_to_op_placement a) (epoch_id_to_op_placement b),
         epoch_id_to_epoch_info :=
           map_merge (epoch_id_to_epoch_info a) (epoch_id_to_epoch_info b),
         num_epochs := add32 (num_epochs a) (num_epochs b),
         sol_device_grids := (sol_device_grids a)\<lparr>epoch_id_to_device_grid := map_merge ga gb\<rparr>\<rparr>,
       b\<lparr>name_to_op_placement := map_left (name_to_op_placement a) (name_to_op_placement b),
         sol_input_queue_to_grid_shape :=
           map_left (sol_input_queue_to_grid_shape a) (sol_input_queue_to_grid_shape b),
         name_to_queue_placement :=
           map_left (name_to_queue_placement a) (name_to_queue_placement b),
         epoch_id_to_chip := map_left (epoch_id_to_chip a) (epoch_id_to_chip b),
         epoch_id_to_op_placement :=
           map_left (epoch_id_to_op_placement a) (epoch_id_to_op_placement b),
         epoch_id_to_epoch_info :=
           map_left (epoch_id_to_epoch_info a) (epoch_id_to_epoch_info b),
         sol_device_grids := (sol_device_grids b)\<lparr>epoch_id_to_device_grid := map_left ga gb\<rparr>\<rparr>))))"

section \<open>A sample configuration\<close>

text \<open>Used only to evaluate the model on concrete inputs.\<close>

definition sample_env :: Env where
  "sample_env =
     \<lparr>PYBUDA_TRIPLET_PLACEMENT = False, PYBUDA_NEBULA_GALAXY_PLACER = False,
      PYBUDA_PLACER_SNAKE = False, PYBUDA_WORMHOLE_PIPELINED_PLACER = False,
      PYBUDA_GALAXY_PLACER = False, PYBUDA_GALAXY_PLACER_COMBINE_GRAD = False,
      PYBUDA_GALAXY_PLACER_COMBINE_RECOMPUTE = False\<rparr>"

definition sample_config :: "ARCH \<Rightarrow> GridShape \<Rightarrow> shapes \<Rightarrow> overrides \<Rightarrow> PlacerConfig" where
  "sample_config a grid shapes ov =
     \<lparr>chip_ids = [0], chip_placement_policy = MMIO_LAST,
      device_config = \<lparr>arch = a, chips_with_mmio = [0], chip_coord_to_chip_id = [],
        galaxy_shelves = []\<rparr>,
      device_grid_shape = grid, output_queues_on_host = True, harvested_rows = [],
      op_to_grid_shape = shapes, input_queue_to_grid_shape = [],
      op_to_epoch_type = map (\<lambda>(n, _). (n, Forward)) shapes,
      op_to_grad_op = [], op_to_recompute_op = [], ops_tagged_for_chip_id_break = [],
      ops_tagged_for_epoch_break = [], ops_tagged_for_temporal_epoch_break = [],
      fwd_to_bwd_nodes = [], fwd_to_opt_nodes = [], output_ops = [],
      op_to_chip_id_assignment = map (\<lambda>(n, _). (n, 0)) shapes, op_to_overrides = ov,
      enable_auto_transposing_placement = False\<rparr>"

definition sample_group :: "nat \<Rightarrow> string \<Rightarrow> OpGroupToPlace" where
  "sample_group i n =
     \<lparr>op_group_id = i, op_names = [n], op_name_to_relative_offset_from_first_op = [],
      group_chip_id = 0, increment_epoch = False, group_epoch_type = Forward\<rparr>"

definition start_override :: "Coord \<Rightarrow> PlacerOpOverride" where
  "start_override c =
     \<lparr>grid_start = Some c, transpose_op = False, override_chip_id_opt = None,
      temporal_epoch_break = False\<rparr>"

end
