(* ===== verification/Grid_Placer_Facts.thy ===== *)
theory Grid_Placer_Facts
  imports Grid_Placer
begin

text \<open>
  The grid placer chooses legal locations: the retry loop of \<open>get_placed_coordinate\<close> ends, a
  location it returns is accepted by the epoch's placement test, and \<open>place_one_op\<close> returns
  free cores of the right shape inside the grid and never throws.
\<close>

section \<open>Transposition\<close>

lemma count_taken_total:
  "wf_grid R C g \<Longrightarrow> j < C \<Longrightarrow> (\<forall>i \<in> set is. i < R) \<Longrightarrow> \<exists>n. count_taken_cores g j is = Inr n"
proof (induction "is")
  case (Cons i "is")
  then obtain n where "count_taken_cores g j is = Inr n" by auto
  with Cons.prems show ?case by (simp add: cell_idx_wf)
qed simp

lemma row_height_total:
  assumes g: "wf_grid R C g" and c: "row c < R" "col c \<le> C"
  shows "\<exists>h. get_active_placement_row_height g (Some c) = Inr h"
proof -
  let ?scan = "find_res (\<lambda>op_j. res_bind (cell_idx g (row c) op_j)
        (\<lambda>x. Inr (if x \<noteq> 0 then Some op_j else None)))
      (if col c \<le> 2 ^ 31 then rev [0..<col c] else [])"
  have cols: "\<And>j. j \<in> set (if col c \<le> 2 ^ 31 then rev [0..<col c] else []) \<Longrightarrow> j < C"
    using c by (auto split: if_splits)
  have "\<exists>r. ?scan = Inr r"
    by (rule find_res_total) (use cols c in \<open>auto simp: cell_idx_wf [OF g]\<close>)
  then obtain r where r: "?scan = Inr r" ..
  have "\<exists>h. (case r of None \<Rightarrow> Inr 0
      | Some op_j \<Rightarrow> count_taken_cores g op_j [row c..<R]) = Inr h"
  proof (cases r)
    case (Some j)
    with r have "?scan = Inr (Some j)" by simp
    from find_res_SomeD [OF this] have "j < C"
      using cols by (auto simp: res_simps split: if_splits)
    with Some show ?thesis
      using count_taken_total [OF g, of j "[row c..<R]"] by simp
  qed simp
  then obtain h where "(case r of None \<Rightarrow> Inr 0
      | Some op_j \<Rightarrow> count_taken_cores g op_j [row c..<R]) = Inr h" ..
  with r c show ?thesis
    by (simp add: get_active_placement_row_height_def idx0_size_wf [OF g] wf_gridD(1) [OF g] Let_def)
qed

lemma should_try_wf:
  assumes "wf_grid R C g" and "manual \<Longrightarrow> columns s \<le> R \<and> rows s \<le> C"
  shows "should_try_auto_transpose_op g s enable manual =
    Inr (columns s \<le> R \<and> rows s \<le> C \<and> enable \<and> columns s < rows s \<and> \<not> manual)"
  using assms by (auto simp: should_try_auto_transpose_op_def idx0_size_wf wf_gridD Let_def)

section \<open>The retry loop\<close>

definition placeable :: "nat \<Rightarrow> nat \<Rightarrow> GridShape \<Rightarrow> bool" where
  "placeable R C s \<longleftrightarrow> nonempty_shape s \<and> small_shape R C s \<and> small_shape R C (transposed s)"

lemma apply_auto_transpose_total:
  assumes "wf_grid R C g" and "\<And>c. found = Some c \<Longrightarrow> row c < R \<and> col c < C"
  shows "\<exists>b. apply_auto_transpose tr g found h = Inr b"
proof (cases found)
  case (Some c)
  with assms obtain n where "get_active_placement_row_height g found = Inr n"
    using row_height_total [OF assms(1), of c] by auto
  with Some show ?thesis by (cases tr) (auto simp: apply_auto_transpose_def)
qed (auto simp: apply_auto_transpose_def)

lemma epoch_fits_inside:
  "wf_epoch_grids R C e \<Longrightarrow> epoch_fits R C n k e c s \<Longrightarrow> nonempty_shape s \<Longrightarrow> row c < R \<and> col c < C"
  by (auto simp: epoch_fits_def nonempty_shape_def fits_def split: option.splits)

text \<open>
  One retry that stays in the epoch either finds a legal location for the shape or its
  transpose, or reports that there is none for the shape.
\<close>

lemma retry_step_spec:
  assumes e: "wf_epoch_grids R C e" and k: "map_of (epoch_id_to_device_grid e) k = Some g"
    and s: "placeable R C s" and l: "l = s \<or> l = transposed s" and tr: "tr \<Longrightarrow> l = s"
    and stay: "inc \<Longrightarrow> \<exists>d. epoch_fits R C n k e d l"
  shows "(\<exists>c' l'. retry_step n s inc tr k l e = Inr (c', k, l', e) \<and>
            epoch_fits R C n k e c' l' \<and> (l' = l \<or> tr \<and> l' = transposed s)) \<or>
         (retry_step n s inc tr k l e = Inl FailToPlaceOnCurrentEpoch \<and> \<not> inc \<and>
            (\<forall>d. \<not> epoch_fits R C n k e d l) \<and>
            (tr \<longrightarrow> (\<forall>d. \<not> epoch_fits R C n k e d (transposed s))))"
proof -
  have inv: "wf_epoch_grids R C e \<and> map_of (epoch_id_to_device_grid e) k \<noteq> None"
    using e k by simp
  have shapes: "small_shape R C l" "small_shape R C (transposed l)" "nonempty_shape l"
    "nonempty_shape (transposed l)"
    using s l by (auto simp: placeable_def nonempty_shape_def)
  obtain f where f: "eg_get_next_grid_coordinate e n k l = Inr f"
    using epoch.nxt_total [OF inv shapes(1)] by blast
  obtain t where t: "eg_get_next_grid_coordinate e n k (transposed l) = Inr t"
    using epoch.nxt_total [OF inv shapes(2)] by blast
  have f_fits: "epoch_fits R C n k e c l" if "f = Some c" for c
    using epoch.nxt_sound [OF inv shapes(1)] f that by blast
  have t_fits: "epoch_fits R C n k e c (transposed l)" if "t = Some c" for c
    using epoch.nxt_sound [OF inv shapes(2)] t that by blast
  have f_none: "\<not> epoch_fits R C n k e d l" if "f = None" for d
    using epoch.nxt_complete [OF inv shapes(1,3)] f that by blast
  have t_none: "\<not> epoch_fits R C n k e d (transposed l)" if "t = None" for d
    using epoch.nxt_complete [OF inv shapes(2,4)] t that by blast
  have g: "wf_grid R C g" using e k by (auto simp: wf_epoch_grids_def)
  obtain turn where turn: "apply_auto_transpose tr g f (rows s) = Inr turn"
    using apply_auto_transpose_total [OF g, of f tr "rows s"] f_fits epoch_fits_inside [OF e _ shapes(3)]
    by blast
  have turn_try: "turn \<Longrightarrow> tr" and turn_None: "f = None \<Longrightarrow> turn = tr"
    using turn by (auto simp: apply_auto_transpose_def split: if_splits)
  have not_both: "\<not> (inc \<and> f = None)" using stay f_none by blast
  define pick where "pick = (if turn then (case t of None \<Rightarrow> (f, l)
      | Some t' \<Rightarrow> (case f of None \<Rightarrow> (Some t', transposed s)
          | Some f' \<Rightarrow> if coord_less t' f' \<or> coord_eq t' f' then (Some t', transposed s) else (f, l)))
    else (f, l))"
  have step: "retry_step n s inc tr k l e =
      (case fst pick of None \<Rightarrow> Inl FailToPlaceOnCurrentEpoch | Some c \<Rightarrow> Inr (c, k, snd pick, e))"
    unfolding retry_step_def f turn res_bind_simps at_key_Some [OF k]
    using not_both by (cases turn; cases f; cases t) (auto simp: t pick_def)
  show ?thesis
  proof (cases "fst pick")
    case None
    then have "f = None" and "turn \<longrightarrow> t = None"
      by (auto simp: pick_def split: option.splits if_splits)
    then show ?thesis using None step f_none t_none turn_None tr not_both by auto
  next
    case (Some c)
    then have "f = Some c \<and> snd pick = l \<or> turn \<and> t = Some c \<and> snd pick = transposed s"
      by (auto simp: pick_def split: option.splits if_splits)
    then have "epoch_fits R C n k e c (snd pick) \<and> (snd pick = l \<or> tr \<and> snd pick = transposed s)"
      using f_fits t_fits turn_try tr by auto
    then show ?thesis using Some step by simp
  qed
qed

lemma place_loop_unfold:
  assumes e: "wf_epoch_grids R C e" and nw: "no_wrap c l"
    and k: "map_of (epoch_id_to_device_grid e) k \<noteq> None"
  shows "place_loop n s inc tr c k l e =
    (if epoch_fits R C n k e c l then Some (Inr (c, k, l, e))
     else (case retry_step n s inc tr k l e of
             Inl ex \<Rightarrow> Some (Inl ex)
           | Inr (c', k', l', e') \<Rightarrow> place_loop n s inc tr c' k' l' e'))"
proof -
  have "initialize_device_grid e k False = e"
    using k by (auto simp: initialize_device_grid_def)
  then show ?thesis
    by (subst place_loop.simps) (simp add: eg_can_place_fits [OF e nw])
qed

lemma place_loop_returns:
  assumes e: "wf_epoch_grids R C e" and k: "map_of (epoch_id_to_device_grid e) k = Some g"
    and s: "placeable R C s" and l: "l = s \<or> l = transposed s" and tr: "tr \<Longrightarrow> l = s"
    and nw: "no_wrap c l" and stay: "inc \<Longrightarrow> \<exists>d. epoch_fits R C n k e d l"
  shows "(\<exists>c' l'. place_loop n s inc tr c k l e = Some (Inr (c', k, l', e)) \<and>
            epoch_fits R C n k e c' l' \<and> (l' = l \<or> tr \<and> l' = transposed s)) \<or>
         (place_loop n s inc tr c k l e = Some (Inl FailToPlaceOnCurrentEpoch) \<and> \<not> inc \<and>
            (\<forall>d. \<not> epoch_fits R C n k e d l) \<and>
            (tr \<longrightarrow> (\<forall>d. \<not> epoch_fits R C n k e d (transposed s))))"
proof (cases "epoch_fits R C n k e c l")
  case True
  then show ?thesis using k by (auto simp: place_loop_unfold [OF e nw])
next
  case False
  consider (found) c' l' where "retry_step n s inc tr k l e = Inr (c', k, l', e)"
      "epoch_fits R C n k e c' l'" "l' = l \<or> tr \<and> l' = transposed s"
    | (none) "retry_step n s inc tr k l e = Inl FailToPlaceOnCurrentEpoch" "\<not> inc"
      "\<forall>d. \<not> epoch_fits R C n k e d l" "tr \<longrightarrow> (\<forall>d. \<not> epoch_fits R C n k e d (transposed s))"
    using retry_step_spec [OF e k s l tr stay] by blast
  then show ?thesis
  proof cases
    case found
    have "place_loop n s inc tr c' k l' e = Some (Inr (c', k, l', e))"
      using found(2) k by (subst place_loop_unfold [OF e epoch_fits_no_wrap [OF e found(2)]]) auto
    then show ?thesis
      using found False k by (auto simp: place_loop_unfold [OF e nw])
  next
    case none
    then show ?thesis using False k by (auto simp: place_loop_unfold [OF e nw])
  qed
qed

section \<open>The chosen location is legal\<close>

lemma initialize_known:
  "map_of (epoch_id_to_device_grid e) k \<noteq> None \<Longrightarrow> initialize_device_grid e k False = e"
  by (auto simp: initialize_device_grid_def)

lemma initialized_known [simp]:
  "map_of (epoch_id_to_device_grid (initialize_device_grid e k False)) k \<noteq> None"
  by (simp add: initialize_device_grid_def)

lemma epoch_fits_initialize:
  assumes "wf_epoch_grids R C e"
  shows "epoch_fits R C n k (initialize_device_grid e k False) c s \<longleftrightarrow> epoch_fits R C n k e c s"
  using assms
  by (auto simp: epoch_fits_def initialize_device_grid_def wf_epoch_grids_def split: option.splits)

definition no_wrap_both :: "Coord \<Rightarrow> GridShape \<Rightarrow> bool" where
  "no_wrap_both c s \<longleftrightarrow> no_wrap c s \<and> no_wrap c (transposed s)"

definition override_no_wrap :: "overrides \<Rightarrow> string \<Rightarrow> GridShape \<Rightarrow> bool" where
  "override_no_wrap ov n s \<longleftrightarrow>
     (\<forall>o' u. map_of ov n = Some o' \<longrightarrow> grid_start o' = Some u \<longrightarrow> no_wrap_both u s)"

lemma apply_user_grid_start_cases:
  assumes e: "wf_epoch_grids R C e" and k: "map_of (epoch_id_to_device_grid e) k \<noteq> None"
    and nw: "\<And>o' u. op_override = Some o' \<Longrightarrow> grid_start o' = Some u \<Longrightarrow> no_wrap u l"
    and ret: "apply_user_grid_start n ov op_override c k l e = Inr (c', e')"
  shows "e' = e \<and> (c' = c \<or> (\<exists>o' u. op_override = Some o' \<and> grid_start o' = Some u \<and> c' = u))"
  using ret nw k
  by (auto simp: apply_user_grid_start_def eg_can_place_fits [OF e] initialize_known res_simps
      split: option.splits if_splits)

lemma report_conflict_defined:
  assumes e: "wf_epoch_grids R C e" and nw: "no_wrap u l"
  shows "report_conflict e ov n u l \<noteq> Inl UndefinedBehaviour"
proof -
  have "fold_res (\<lambda>(m, h) _. if n = m then Inr ()
         else res_bind (can_place_on_device_grid h u l) (\<lambda>b.
           if b then Inr ()
           else res_bind (at_key ov m) (\<lambda>ov.
                res_bind (opt_value (grid_start ov)) (\<lambda>_.
                  Inl FailToSatisfyConflictingConstraint)))) cs () \<noteq> Inl UndefinedBehaviour"
    if "\<forall>(m, h) \<in> set cs. wf_grid R C h" for cs
    using that
    by (induction cs)
      (auto simp: can_place_fits [OF _ nw] res_simps at_key_def opt_value_def
        split: option.splits if_splits)
  with e show ?thesis by (simp add: report_conflict_def wf_epoch_grids_def)
qed

lemma apply_user_grid_start_defined:
  assumes e: "wf_epoch_grids R C e" and k: "map_of (epoch_id_to_device_grid e) k \<noteq> None"
    and nw: "\<And>o' u. op_override = Some o' \<Longrightarrow> grid_start o' = Some u \<Longrightarrow> no_wrap u l"
  shows "apply_user_grid_start n ov op_override c k l e \<noteq> Inl UndefinedBehaviour"
  using nw k report_conflict_defined [OF e]
  by (auto simp: apply_user_grid_start_def eg_can_place_fits [OF e] initialize_known res_simps
      satisfies_constraints_fits [OF e] split: option.splits)

lemma shape_of_transposition:
  "l = s \<or> l = transposed s \<Longrightarrow> l = (if rows s \<noteq> rows l then transposed s else s)"
  by (auto simp: transposed_def)

lemma get_placed_coordinate_outcome:
  assumes e: "wf_epoch_grids R C e" and s: "placeable R C s"
    and nw: "no_wrap_both c s" "override_no_wrap ov n s"
  shows "\<exists>r. get_placed_coordinate n s e k (Some c) False enable ov = Some r \<and>
    (\<forall>c' k' t e'. r = Inr (c', k', t, e') \<longrightarrow>
       k' = k \<and> e' = initialize_device_grid e k False \<and>
       epoch_fits R C n k e c' (if t then transposed s else s)) \<and>
    r \<noteq> Inl UndefinedBehaviour"
proof -
  define e0 where "e0 = initialize_device_grid e k False"
  define manual where
    "manual = (case map_of ov n of None \<Rightarrow> False | Some o' \<Rightarrow> transpose_op o')"
  define l where "l = (if manual then transposed s else s)"
  have e0: "wf_epoch_grids R C e0" and dom: "map_of (epoch_id_to_device_grid e0) k \<noteq> None"
    using e by (simp_all add: e0_def)
  then obtain g where g: "map_of (epoch_id_to_device_grid e0) k = Some g" by blast
  have gpc: "get_placed_coordinate n s e k (Some c) False enable ov =
    comp_bind (Some (should_try_auto_transpose_op g s enable manual)) (\<lambda>tr.
    comp_bind (Some (apply_user_grid_start n ov (map_of ov n) c k l e0)) (\<lambda>(c, e1).
    comp_bind (place_loop n s False tr c k l e1) (\<lambda>(c', k', l', e2).
      Some (Inr (c', k', rows s \<noteq> rows l', e2)))))"
    using g by (simp add: get_placed_coordinate_def Let_def e0_def manual_def l_def)
  show ?thesis
  proof (cases "should_try_auto_transpose_op g s enable manual")
    case (Inl ex)
    have "wf_grid R C g" using e0 g by (auto simp: wf_epoch_grids_def)
    with Inl have "ex \<noteq> UndefinedBehaviour"
      by (auto simp: should_try_auto_transpose_op_def idx0_size_wf res_simps Let_def tt_assert_def
          split: if_splits)
    with Inl show ?thesis by (simp add: gpc)
  next
    case tr: (Inr tr)
    then have l: "l = s \<or> l = transposed s" "tr \<Longrightarrow> l = s"
      by (auto simp: l_def should_try_auto_transpose_op_def res_simps Let_def)
    show ?thesis
    proof (cases "apply_user_grid_start n ov (map_of ov n) c k l e0")
      case (Inl ex)
      have "no_wrap u l" if "map_of ov n = Some o'" "grid_start o' = Some u" for o' u
        using nw(2) that l(1) by (auto simp: override_no_wrap_def no_wrap_both_def)
      with Inl apply_user_grid_start_defined [OF e0 dom] have "ex \<noteq> UndefinedBehaviour" by blast
      with Inl tr show ?thesis by (simp add: gpc)
    next
      case user: (Inr p)
      obtain c1 e1 where p: "p = (c1, e1)" by (cases p)
      have nwu: "\<And>o' u. map_of ov n = Some o' \<Longrightarrow> grid_start o' = Some u \<Longrightarrow> no_wrap u l"
        using nw(2) l(1) by (auto simp: override_no_wrap_def no_wrap_both_def)
      have "e1 = e0 \<and> (c1 = c \<or> (\<exists>o' u. map_of ov n = Some o' \<and> grid_start o' = Some u \<and> c1 = u))"
        by (rule apply_user_grid_start_cases [OF e0 dom _ user [unfolded p]]) (rule nwu)
      then have "e1 = e0" and "no_wrap c1 l"
        using nw l(1) by (auto simp: override_no_wrap_def no_wrap_both_def)
      from place_loop_returns [OF e0 g s l(1) l(2) this(2), where inc = False and n = n] \<open>e1 = e0\<close>
      consider c' l' where "place_loop n s False tr c1 k l e1 = Some (Inr (c', k, l', e0))"
          "epoch_fits R C n k e0 c' l'" "l' = s \<or> l' = transposed s"
        | "place_loop n s False tr c1 k l e1 = Some (Inl FailToPlaceOnCurrentEpoch)"
        using l by blast
      then show ?thesis
      proof cases
        case 1
        then have "epoch_fits R C n k e c' (if rows s \<noteq> rows l' then transposed s else s)"
          using shape_of_transposition [OF 1(3)] epoch_fits_initialize [OF e] by (metis e0_def)
        with 1 show ?thesis using tr user p by (simp add: gpc e0_def)
      next
        case 2
        then show ?thesis using tr user p by (simp add: gpc)
      qed
    qed
  qed
qed

text \<open>
  C25 (safety). Within one epoch the choice of a location always returns, and a location it
  returns is legal: the rectangle of the op, turned if the result says so, lies on free cores of
  the epoch's grid and outside the constraints of all other ops. This holds with and without
  user overrides and automatic transposition.
\<close>

theorem placed_coordinate_legal:
  assumes "wf_epoch_grids R C e" "placeable R C s" "no_wrap_both c s" "override_no_wrap ov n s"
  shows "\<exists>r. get_placed_coordinate n s e k (Some c) False enable ov = Some r \<and>
    (case r of
       Inl _ \<Rightarrow> True
     | Inr (c', k', t, e') \<Rightarrow>
         k' = k \<and> e' = initialize_device_grid e k False \<and>
         eg_can_place e n k c' (if t then transposed s else s) = Inr (True, e'))"
proof -
  obtain r where r: "get_placed_coordinate n s e k (Some c) False enable ov = Some r"
    and legal: "\<And>c' k' t e'. r = Inr (c', k', t, e') \<Longrightarrow>
       k' = k \<and> e' = initialize_device_grid e k False \<and>
       epoch_fits R C n k e c' (if t then transposed s else s)"
    using get_placed_coordinate_outcome [OF assms, of k enable] by blast
  show ?thesis
  proof (cases r)
    case (Inr x)
    obtain c' k' t e' where x: "x = (c', k', t, e')" by (cases x)
    from legal [OF Inr [unfolded x]] have *: "k' = k" "e' = initialize_device_grid e k False"
      "epoch_fits R C n k e c' (if t then transposed s else s)" by blast+
    from eg_can_place_fits [OF assms(1) epoch_fits_no_wrap [OF assms(1) *(3)]] *
    have "eg_can_place e n k c' (if t then transposed s else s) = Inr (True, e')" by simp
    with * r Inr x show ?thesis by simp
  qed (use r in simp)
qed

theorem placed_coordinate_legal_witness:
  "\<exists>r. get_placed_coordinate ''op'' (mk_shape 2 1)
       \<lparr>eg_rows = 2, eg_columns = 3, epoch_id_to_device_grid = [(0, [[1, 0, 0], [1, 1, 0]])],
        op_to_constraints = []\<rparr> 0 (Some (mk_coord 0 0)) False True [] = Some r \<and>
    (case r of
       Inl _ \<Rightarrow> True
     | Inr (c', k', t, e') \<Rightarrow>
         k' = 0 \<and> e' = initialize_device_grid
           \<lparr>eg_rows = 2, eg_columns = 3, epoch_id_to_device_grid = [(0, [[1, 0, 0], [1, 1, 0]])],
            op_to_constraints = []\<rparr> 0 False \<and>
         eg_can_place
           \<lparr>eg_rows = 2, eg_columns = 3, epoch_id_to_device_grid = [(0, [[1, 0, 0], [1, 1, 0]])],
            op_to_constraints = []\<rparr> ''op'' 0 c' (if t then transposed (mk_shape 2 1) else mk_shape 2 1)
           = Inr (True, e'))"
  by (rule placed_coordinate_legal [of 2 3])
    (simp_all add: wf_epoch_grids_def wf_grid_def placeable_def small_shape_def nonempty_shape_def
      no_wrap_both_def no_wrap_def override_no_wrap_def)

section \<open>Placing one op\<close>

lemma single_epoch_grids:
  assumes "wf_grid R C g"
  defines "e \<equiv> add_constraints (initialize_device_grid_from (mk_epoch_grids R C) 0 g) []"
  shows "wf_epoch_grids R C e" "epoch_fits R C n 0 e c s \<longleftrightarrow> fits R C g c s"
    "initialize_device_grid e 0 False = e" "map_of (epoch_id_to_device_grid e) 0 = Some g"
    "op_to_constraints e = []"
  using assms wf_gridD(2-4) [OF assms(1)]
  by (auto simp: wf_epoch_grids_def epoch_fits_def add_constraints_def mk_epoch_grids_def put_grid_def
      initialize_device_grid_from_def initialize_device_grid_def wf_gridD)

lemma place_one_op_helper:
  assumes g: "wf_grid R C g"
  shows "place_on_grid_helper [n] shapes ov enable
      (get_device_grid_config_from_strategy env PLACE_WITH_RELATIVE_OFFSETS False False) g start True [] [] =
    place_ops shapes ov enable
      (get_device_grid_config_from_strategy env PLACE_WITH_RELATIVE_OFFSETS False False) True [] [n]
      (case start of None \<Rightarrow> mk_coord 0 0 | Some c \<Rightarrow> c) 0 None []
      (add_constraints (initialize_device_grid_from (mk_epoch_grids R C) 0 g) [])"
  by (simp add: place_on_grid_helper_def at0_size_wf [OF g] wf_gridD(1) [OF g] Let_def
      get_device_grid_config_from_strategy_def del: place_ops.simps)

lemma place_one_op_outcome:
  assumes "wf_grid R C g" "map_of shapes n = Some s" "placeable R C s"
    and "override_no_wrap ov n s"
    and "case start of None \<Rightarrow> True | Some c \<Rightarrow> no_wrap_both c s"
  shows "\<exists>r. place_one_op env n shapes g ov enable start = Some (Inr r) \<and>
    (case r of
       None \<Rightarrow> True
     | Some p \<Rightarrow>
         let q = (if dgp_grid_transpose p then transposed s else s) in
         dgp_op_name p = n \<and> device_grid_index p = 0 \<and>
         fits R C g (range_start (dgp_placed_cores p)) q \<and>
         range_end (dgp_placed_cores p) = coord_add_shape (range_start (dgp_placed_cores p)) q)"
proof -
  define e where "e = add_constraints (initialize_device_grid_from (mk_epoch_grids R C) 0 g) []"
  note e = single_epoch_grids [OF assms(1), folded e_def]
  define c where "c = (case start of None \<Rightarrow> mk_coord 0 0 | Some c \<Rightarrow> c)"
  have "no_wrap_both c s"
    using assms(3,5) wf_gridD(2-4) [OF assms(1)]
    by (auto simp: c_def no_wrap_both_def no_wrap_def placeable_def small_shape_def split: option.splits)
  then obtain r where r: "get_placed_coordinate n s e 0 (Some c) False enable ov = Some r"
    and ok: "\<And>c' k' t e'. r = Inr (c', k', t, e') \<Longrightarrow> k' = 0 \<and> e' = e \<and>
       fits R C g c' (if t then transposed s else s)"
    and ub: "r \<noteq> Inl UndefinedBehaviour"
    using get_placed_coordinate_outcome [OF e(1) assms(3) _ assms(4), of c 0 enable] e(2,3) by auto
  have pl: "place_one_op env n shapes g ov enable start =
    map_option swallow
      (comp_bind (place_ops shapes ov enable
        (get_device_grid_config_from_strategy env PLACE_WITH_RELATIVE_OFFSETS False False) True [] [n]
        c 0 None [] e)
       (\<lambda>(placements, _).
          comp_bind (Some (tt_assert (length placements = 1))) (\<lambda>_. Some (vec_at placements 0))))"
    unfolding place_one_op_def place_one_op_helper [OF assms(1)] c_def e_def ..
  show ?thesis
  proof (cases r)
    case (Inl ex)
    with ub have "swallow (Inl ex :: DeviceGridPlacement res) = Inr None"
      by (cases ex) (simp_all add: swallow_def)
    then show ?thesis
      using Inl r assms(2) by (simp add: pl get_device_grid_config_from_strategy_def)
  next
    case (Inr x)
    obtain c' k' t e' where x: "x = (c', k', t, e')" by (cases x)
    from ok [OF Inr [unfolded x]] have x': "k' = 0" "e' = e"
      and f: "fits R C g c' (if t then transposed s else s)" by auto
    from f have "epoch_fits R C n 0 e c' (if t then transposed s else s)" by (simp add: e(2))
    then obtain e'' where "eg_fill e 0 c' (if t then transposed s else s) = Inr e''"
      using epoch.fill_ok [of R C e 0 n c'] e(1,4) by auto
    then show ?thesis
      using Inr r x x' f assms(2)
      by (cases t) (simp_all add: pl get_device_grid_config_from_strategy_def swallow_def)
  qed
qed

text \<open>
  \<open>place_one_op\<close> always returns normally: it either places the op on free cores of
  the given device grid, with the op's shape or its transpose and an exclusive end that matches,
  or returns no placement. No exception reaches its caller.
\<close>

theorem place_one_op_legal:
  assumes "wf_grid R C g" "map_of shapes n = Some s" "placeable R C s"
    and "override_no_wrap ov n s"
    and "case start of None \<Rightarrow> True | Some c \<Rightarrow> no_wrap_both c s"
  shows "\<exists>r. place_one_op env n shapes g ov enable start = Some (Inr r) \<and>
    (case r of
       None \<Rightarrow> True
     | Some p \<Rightarrow>
         let q = (if dgp_grid_transpose p then transposed s else s) in
         dgp_op_name p = n \<and> device_grid_index p = 0 \<and>
         fits R C g (range_start (dgp_placed_cores p)) q \<and>
         range_end (dgp_placed_cores p) = coord_add_shape (range_start (dgp_placed_cores p)) q)"
  by (rule place_one_op_outcome [OF assms])

theorem place_one_op_legal_witness:
  "\<exists>r. place_one_op False ''op'' [(''op'', mk_shape 1 2)] [[1, 0, 0]] [] False None = Some (Inr r) \<and>
    (case r of
       None \<Rightarrow> True
     | Some p \<Rightarrow>
         let q = (if dgp_grid_transpose p then transposed (mk_shape 1 2) else mk_shape 1 2) in
         dgp_op_name p = ''op'' \<and> device_grid_index p = 0 \<and>
         fits 1 3 [[1, 0, 0]] (range_start (dgp_placed_cores p)) q \<and>
         range_end (dgp_placed_cores p) = coord_add_shape (range_start (dgp_placed_cores p)) q)"
  by (rule place_one_op_legal)
    (simp_all add: wf_grid_def placeable_def small_shape_def nonempty_shape_def override_no_wrap_def)

text \<open>
  A user override that asks for cores which are not free makes the placer throw
  \<open>FailToSatisfyPlacementConstraint\<close>, but \<open>place_one_op\<close> swallows it: its catch-all handler
  asserts a string literal, so the caller sees "does not fit" instead of an error.
\<close>

theorem bad_override_is_swallowed:
  assumes "wf_grid R C g" "map_of shapes n = Some s" "map_of ov n = Some ovr"
    and "grid_start ovr = Some u" "\<not> transpose_op ovr" "no_wrap u s" "\<not> fits R C g u s"
  shows "place_on_grid_helper [n] shapes ov enable
      (get_device_grid_config_from_strategy env PLACE_WITH_RELATIVE_OFFSETS False False)
      g start True [] [] = Some (Inl FailToSatisfyPlacementConstraint) \<and>
    place_one_op env n shapes g ov enable start = Some (Inr None)"
proof -
  define e where "e = add_constraints (initialize_device_grid_from (mk_epoch_grids R C) 0 g) []"
  note e = single_epoch_grids [OF assms(1), folded e_def]
  have "should_try_auto_transpose_op g s enable False \<in> range Inr"
    using should_try_wf [OF assms(1), of False] by blast
  then obtain tr where "should_try_auto_transpose_op g s enable False = Inr tr" by auto
  moreover have "apply_user_grid_start n ov (Some ovr) c 0 s e = Inl FailToSatisfyPlacementConstraint" for c
    using assms(4,6,7) e
    by (simp add: apply_user_grid_start_def eg_can_place_fits [OF e(1)]
        satisfies_constraints_fits [OF e(1)])
  ultimately have "get_placed_coordinate n s e 0 (Some c) False enable ov
      = Some (Inl FailToSatisfyPlacementConstraint)" for c
    using assms(3,5) e by (simp add: get_placed_coordinate_def)
  then have *: "place_ops shapes ov enable
      (get_device_grid_config_from_strategy env PLACE_WITH_RELATIVE_OFFSETS False False) True [] [n] c 0 None [] e
      = Some (Inl FailToSatisfyPlacementConstraint)" for c
    using assms(2) by (simp add: get_device_grid_config_from_strategy_def)
  show ?thesis
    unfolding place_one_op_def place_one_op_helper [OF assms(1)] e_def [symmetric] *
    by (simp add: swallow_def)
qed

theorem bad_override_is_swallowed_witness:
  "place_one_op False ''op'' [(''op'', mk_shape 1 1)] [[1, 0]]
     [(''op'', \<lparr>grid_start = Some (mk_coord 0 0), transpose_op = False,
                override_chip_id_opt = None, temporal_epoch_break = False\<rparr>)] False None
   = Some (Inr None)"
  by (rule bad_override_is_swallowed [of 1 2, THEN conjunct2])
    (auto simp: wf_grid_def no_wrap_def fits_def)

end
