(* ===== verification/Epoch_Placer.thy ===== *)
theory Epoch_Placer
  imports Placer_Types Grid_Placer_Facts
begin

text \<open>
  \<open>EpochDevicePlacer\<close> of \<open>placer/grid_placer.cpp\<close>: it takes a queue of op groups and fills one
  device grid after the other. A user override that finds its cores taken becomes a constraint,
  and the groups of the epoch are placed again around it. \<open>get_next_epoch\<close> and \<open>place\<close> loop
  until the queues are empty, so they are partial functions.
\<close>

record EpochDevicePlacer =
  op_groups_to_place_again :: "OpGroupToPlace list"
  remaining_op_groups :: "OpGroupToPlace list"
  placed_op_groups :: "OpGroupToPlace list"
  active_op_placements :: "DeviceGridPlacement list"
  active_device_grid :: DeviceGrid
  op_to_device_grid_constraint :: "(string \<times> DeviceGrid) list"

definition mk_epoch_placer :: EpochDevicePlacer where
  "mk_epoch_placer =
     \<lparr>op_groups_to_place_again = [], remaining_op_groups = [], placed_op_groups = [],
      active_op_placements = [], active_device_grid = [], op_to_device_grid_constraint = []\<rparr>"

definition enqueue_workload :: "OpGroupToPlace list \<Rightarrow> EpochDevicePlacer \<Rightarrow> EpochDevicePlacer" where
  "enqueue_workload op_groups s = s\<lparr>remaining_op_groups := remaining_op_groups s @ op_groups\<rparr>"

definition fresh_grid :: "PlacerConfig \<Rightarrow> DeviceGrid" where
  "fresh_grid cfg =
     create_empty_device_grid (get_available_rows_on_device cfg) (columns (device_grid_shape cfg))"

definition fill_placement :: "shapes \<Rightarrow> DeviceGridPlacement \<Rightarrow> DeviceGrid \<Rightarrow> DeviceGrid res" where
  "fill_placement shapes p g =
     res_bind (at_key shapes (dgp_op_name p)) (\<lambda>shape.
       fill_device_grid_with_placement g (range_start (dgp_placed_cores p))
         (if dgp_grid_transpose p then transposed shape else shape))"

text \<open>The member function \<open>place_on_grid\<close>.\<close>

definition edp_place_on_grid ::
    "Env \<Rightarrow> PlacerConfig \<Rightarrow> OpGroupToPlace \<Rightarrow> EpochDevicePlacer \<Rightarrow>
     (DeviceGridPlacement list \<times> EpochDevicePlacer) comp" where
  "edp_place_on_grid env cfg grp s =
     comp_bind (place_on_grid_helper (op_names grp) (op_to_grid_shape cfg) (op_to_overrides cfg)
         (enable_auto_transposing_placement cfg)
         (get_device_grid_config_from_strategy (PYBUDA_TRIPLET_PLACEMENT env)
            PLACE_WITH_RELATIVE_OFFSETS False False)
         (active_device_grid s) None True (op_name_to_relative_offset_from_first_op grp)
         (op_to_device_grid_constraint s))
       (\<lambda>(placements, _).
         comp_bind (Some (fold_res (fill_placement (op_to_grid_shape cfg)) placements
                            (active_device_grid s)))
           (\<lambda>g. Some (Inr (placements, s\<lparr>active_device_grid := g\<rparr>))))"

definition clear_state :: "PlacerConfig \<Rightarrow> EpochDevicePlacer \<Rightarrow> EpochDevicePlacer" where
  "clear_state cfg s =
     s\<lparr>active_device_grid := fresh_grid cfg, placed_op_groups := [], active_op_placements := [],
       op_to_device_grid_constraint := []\<rparr>"

definition complete_epoch ::
    "PlacerConfig \<Rightarrow> EpochDevicePlacer \<Rightarrow> EpochDeviceGridPlacement option \<times> EpochDevicePlacer" where
  "complete_epoch cfg s =
     (Some \<lparr>edgp_device_grid = active_device_grid s, edgp_op_placements = active_op_placements s\<rparr>,
      clear_state cfg s)"

section \<open>One iteration of get_next_epoch\<close>

definition current_group :: "EpochDevicePlacer \<Rightarrow> OpGroupToPlace" where
  "current_group s =
     (if op_groups_to_place_again s = [] then hd (remaining_op_groups s)
      else hd (op_groups_to_place_again s))"

text \<open>The rest of the \<open>try\<close> block once the group has been placed.\<close>

definition accept_group ::
    "OpGroupToPlace \<Rightarrow> DeviceGridPlacement list \<Rightarrow> EpochDevicePlacer \<Rightarrow> EpochDevicePlacer res" where
  "accept_group grp placements s =
     (let op = hd (op_names grp) in
      res_bind (if length (op_names grp) = 1 \<and> map_of (op_to_device_grid_constraint s) op \<noteq> None
          then res_bind (tt_assert (op_groups_to_place_again s = [])) (\<lambda>_.
                 Inr (s\<lparr>op_to_device_grid_constraint :=
                          AList.delete op (op_to_device_grid_constraint s)\<rparr>))
          else Inr s) (\<lambda>s1.
      let s2 = s1\<lparr>active_op_placements := active_op_placements s1 @ placements,
                  placed_op_groups := placed_op_groups s1 @ [grp]\<rparr> in
      Inr (if op_groups_to_place_again s2 = []
           then s2\<lparr>remaining_op_groups := tl (remaining_op_groups s2)\<rparr>
           else s2\<lparr>op_groups_to_place_again := tl (op_groups_to_place_again s2)\<rparr>)))"

text \<open>
  The handler of \<open>FailToSatisfyPlacementConstraint\<close>: complete the epoch when an override that is
  already placed conflicts with the new constraint, otherwise replay the epoch's groups.
\<close>

definition conflicts_with ::
    "PlacerConfig \<Rightarrow> DeviceGrid \<Rightarrow> DeviceGridPlacement \<Rightarrow> unit option res" where
  "conflicts_with cfg constraint_grid p =
     (case map_of (op_to_overrides cfg) (dgp_op_name p) of
        None \<Rightarrow> Inr None
      | Some existing_op_override \<Rightarrow>
          res_bind (at_key (op_to_grid_shape cfg) (dgp_op_name p)) (\<lambda>shape.
          res_bind (opt_value (grid_start existing_op_override)) (\<lambda>start.
          res_bind (can_place_on_device_grid constraint_grid start
              (if transpose_op existing_op_override then transposed shape else shape)) (\<lambda>b.
            Inr (if b then None else Some ())))))"

definition add_constraint ::
    "PlacerConfig \<Rightarrow> string \<Rightarrow> EpochDevicePlacer \<Rightarrow>
     (EpochDeviceGridPlacement option \<times> EpochDevicePlacer) res" where
  "add_constraint cfg op s =
     res_bind (tt_assert (map_of (op_to_overrides cfg) op \<noteq> None)) (\<lambda>_.
     res_bind (at_key (op_to_overrides cfg) op) (\<lambda>op_override.
     res_bind (at_key (op_to_grid_shape cfg) op) (\<lambda>shape.
     res_bind (opt_value (grid_start op_override)) (\<lambda>start.
     res_bind (fill_device_grid_with_placement (fresh_grid cfg) start
         (if transpose_op op_override then transposed shape else shape)) (\<lambda>constraint_grid.
     res_bind (find_res (conflicts_with cfg constraint_grid) (active_op_placements s)) (\<lambda>conflict.
       case conflict of
         Some _ \<Rightarrow> Inr (complete_epoch cfg s)
       | None \<Rightarrow>
           Inr (None, s\<lparr>op_to_device_grid_constraint :=
                          AList.update op constraint_grid (op_to_device_grid_constraint s),
                        op_groups_to_place_again := placed_op_groups s @ op_groups_to_place_again s,
                        placed_op_groups := [], active_op_placements := [],
                        active_device_grid := fresh_grid cfg\<rparr>)))))))"

definition epoch_step ::
    "Env \<Rightarrow> PlacerConfig \<Rightarrow> EpochDevicePlacer \<Rightarrow>
     (EpochDeviceGridPlacement option \<times> EpochDevicePlacer) comp" where
  "epoch_step env cfg s =
     (let grp = current_group s in
      comp_bind (Some (tt_assert (length (op_names grp) \<ge> 1))) (\<lambda>_.
      comp_bind (Some (if length (op_names grp) > 1
          then fold_res (\<lambda>op _. tt_assert (map_of (op_to_device_grid_constraint s) op = None))
                 (op_names grp) ()
          else Inr ())) (\<lambda>_.
      let op = hd (op_names grp) in
      if increment_epoch grp \<and> active_op_placements s \<noteq> []
      then Some (Inr (complete_epoch cfg s))
      else (case edp_place_on_grid env cfg grp s of
              None \<Rightarrow> None
            | Some (Inr (placements, s')) \<Rightarrow>
                Some (res_bind (accept_group grp placements s') (\<lambda>s''. Inr (None, s'')))
            | Some (Inl FailToPlaceOnCurrentEpoch) \<Rightarrow> Some (Inr (complete_epoch cfg s))
            | Some (Inl FailToSatisfyPlacementConstraint) \<Rightarrow> Some (add_constraint cfg op s)
            | Some (Inl FailToSatisfyConflictingConstraint) \<Rightarrow> Some (Inl RuntimeError)
            | Some (Inl e) \<Rightarrow> Some (Inl e)))))"

section \<open>The loops\<close>

partial_function (option) epoch_loop ::
    "Env \<Rightarrow> PlacerConfig \<Rightarrow> EpochDevicePlacer \<Rightarrow>
     (EpochDeviceGridPlacement option \<times> EpochDevicePlacer) res option" where
  "epoch_loop env cfg s =
     (if remaining_op_groups s = [] \<and> op_groups_to_place_again s = []
      then Some (Inr (if active_op_placements s \<noteq> [] then complete_epoch cfg s else (None, s)))
      else (case epoch_step env cfg s of
              None \<Rightarrow> None
            | Some (Inl e) \<Rightarrow> Some (Inl e)
            | Some (Inr (Some ep, s')) \<Rightarrow> Some (Inr (Some ep, s'))
            | Some (Inr (None, s')) \<Rightarrow> epoch_loop env cfg s'))"

definition get_next_epoch ::
    "Env \<Rightarrow> PlacerConfig \<Rightarrow> EpochDevicePlacer \<Rightarrow>
     (EpochDeviceGridPlacement option \<times> EpochDevicePlacer) comp" where
  "get_next_epoch env cfg s = epoch_loop env cfg (s\<lparr>active_device_grid := fresh_grid cfg\<rparr>)"

partial_function (option) collect_epochs ::
    "Env \<Rightarrow> PlacerConfig \<Rightarrow> EpochDevicePlacer \<Rightarrow> EpochDeviceGridPlacement list \<Rightarrow>
     EpochDeviceGridPlacement list res option" where
  "collect_epochs env cfg s epochs =
     (case get_next_epoch env cfg s of
        None \<Rightarrow> None
      | Some (Inl e) \<Rightarrow> Some (Inl e)
      | Some (Inr (None, s')) \<Rightarrow> Some (Inr epochs)
      | Some (Inr (Some ep, s')) \<Rightarrow> collect_epochs env cfg s' (epochs @ [ep]))"

declare epoch_loop.simps [code] collect_epochs.simps [code]

definition edp_place ::
    "Env \<Rightarrow> PlacerConfig \<Rightarrow> OpGroupToPlace list \<Rightarrow> EpochDeviceGridPlacement list comp" where
  "edp_place env cfg op_groups =
     collect_epochs env cfg (enqueue_workload op_groups mk_epoch_placer) []"

end
