(* ===== verification/Lowering.thy ===== *)
theory Lowering
  imports Placer_Types
begin

text \<open>
  What happens to the schedule before anything is placed: the checks of \<open>placer/utils.cpp\<close>, the
  workloads and chip orders of \<open>placer/lowering_utils.cpp\<close>, the chip assignment of
  \<open>placer/chip_id_assignment.cpp\<close> and the break tags of \<open>placer/lower_to_placer.cpp\<close>. The answers
  of the graph about a node are the record \<open>GraphNode\<close>. The static counter behind
  \<open>get_next_op_group_id\<close> is passed through as a number; an exception ends the compilation, so the
  counter is not returned with it.
\<close>

section \<open>Checks of the inputs\<close>

definition is_forward_to_backward_epoch_transition :: "NodeEpochType \<Rightarrow> NodeEpochType \<Rightarrow> bool" where
  "is_forward_to_backward_epoch_transition prev cur \<longleftrightarrow> prev = Forward \<and> cur = Backward"

definition is_backward_to_optimizer_epoch_transition :: "NodeEpochType \<Rightarrow> NodeEpochType \<Rightarrow> bool" where
  "is_backward_to_optimizer_epoch_transition prev cur \<longleftrightarrow> prev = Backward \<and> cur = Optimizer"

text \<open>The handler of \<open>std::out_of_range\<close> turns it into the fatal error of \<open>log_fatal\<close>.\<close>

definition fatal_if_out_of_range :: "'a res \<Rightarrow> 'a res" where
  "fatal_if_out_of_range r = (case r of Inl OutOfRange \<Rightarrow> Inl RuntimeError | _ \<Rightarrow> r)"

definition validate_op :: "PlacerConfig \<Rightarrow> OpGroupToPlace \<Rightarrow> nat \<Rightarrow> string list \<Rightarrow> string list res" where
  "validate_op cfg grp i visited =
     res_bind (vec_at (op_names grp) i) (\<lambda>current_op_name.
     res_bind (tt_assert (current_op_name \<notin> set visited)) (\<lambda>_.
     res_bind (if is_wormhole_b0 (device_config cfg) \<and> current_op_name \<in> set (output_ops cfg)
               then tt_assert (group_chip_id grp \<in> set (chips_with_mmio (device_config cfg)))
               else Inr ()) (\<lambda>_.
     fatal_if_out_of_range
       (res_bind (at_key (op_to_grid_shape cfg) current_op_name) (\<lambda>shape.
        res_bind (tt_assert (rows shape \<le> get_available_rows_on_device cfg)) (\<lambda>_.
        res_bind (tt_assert (\<not> columns shape > columns (device_grid_shape cfg))) (\<lambda>_.
        res_bind (if i > 0
                  then res_bind (vec_at (op_names grp) (i - 1)) (\<lambda>prev_op_name.
                       res_bind (at_key (op_to_epoch_type cfg) prev_op_name) (\<lambda>a.
                       res_bind (at_key (op_to_epoch_type cfg) current_op_name) (\<lambda>b.
                         tt_assert (a = b))))
                  else Inr ()) (\<lambda>_.
          Inr (List.insert current_op_name visited)))))))))"

definition validate_group :: "PlacerConfig \<Rightarrow> OpGroupToPlace \<Rightarrow> string list \<Rightarrow> string list res" where
  "validate_group cfg grp visited = fold_res (validate_op cfg grp) [0..<length (op_names grp)] visited"

definition validate_placer_inputs :: "PlacerConfig \<Rightarrow> OpGroupToPlace list \<Rightarrow> unit res" where
  "validate_placer_inputs cfg w = res_bind (fold_res (validate_group cfg) w []) (\<lambda>_. Inr ())"

definition validate_chip_mapping :: "PlacerConfig \<Rightarrow> OpGroupToPlace list \<Rightarrow> unit res" where
  "validate_chip_mapping cfg w =
     fold_res (\<lambda>grp _. tt_assert (group_chip_id grp \<in> set (chip_ids cfg))) w ()"

definition bwd_nodes_set :: "PlacerConfig \<Rightarrow> string list" where
  "bwd_nodes_set cfg =
     fold (\<lambda>(fwd, bwd_nodes) s. fold List.insert bwd_nodes s) (fwd_to_bwd_nodes cfg) []"

definition validate_placer_config :: "PlacerConfig \<Rightarrow> unit res" where
  "validate_placer_config cfg =
     (let bwd = bwd_nodes_set cfg;
          is_config_valid =
            fold (\<lambda>(fwd, m) ok. fold (\<lambda>(ix, opt_nodes) ok'.
                fold (\<lambda>opt_node ok''. if opt_node \<in> set bwd then False else ok'') opt_nodes ok') m ok)
              (fwd_to_opt_nodes cfg) True in
      tt_assert is_config_valid)"

section \<open>The order of the chips\<close>

definition galaxy_snake_coordinates :: "(int \<times> int) list" where
  "galaxy_snake_coordinates =
     [(3, 4), (3, 3), (3, 2), (3, 1), (3, 0), (2, 0), (1, 0), (0, 0),
      (0, 1), (1, 1), (2, 1), (2, 2), (1, 2), (0, 2), (0, 3), (1, 3),
      (2, 3), (2, 4), (1, 4), (0, 4), (0, 5), (1, 5), (2, 5), (2, 6),
      (1, 6), (0, 6), (0, 7), (1, 7), (2, 7), (3, 7), (3, 6), (3, 5)]"

definition get_galaxy_snake_chip_order :: "DeviceConfig \<Rightarrow> (nat \<times> nat) list res" where
  "get_galaxy_snake_chip_order d =
     res_bind (tt_assert (length (galaxy_shelves d) = 1)) (\<lambda>_.
     res_bind (fold_res (\<lambda>(x, y) (m, index).
         res_bind (at_key (chip_coord_to_chip_id d)
             \<lparr>eth_x = x, eth_y = y, rack = 0, shelf = hd (galaxy_shelves d)\<rparr>) (\<lambda>chip.
           Inr (omap_insert chip index m, add32 index 1)))
       galaxy_snake_coordinates ([], 0)) (\<lambda>(m, _). Inr m))"

definition apply_chip_placement_policy ::
    "DeviceConfig \<Rightarrow> ChipPlacementPolicy \<Rightarrow> nat list \<Rightarrow> nat list res" where
  "apply_chip_placement_policy d policy ids =
     (case policy of
        MMIO_LAST \<Rightarrow>
          Inr (filter (\<lambda>c. c \<notin> set (chips_with_mmio d)) ids @
               filter (\<lambda>c. c \<in> set (chips_with_mmio d)) ids)
      | SNAKE \<Rightarrow>
          res_bind (get_galaxy_snake_chip_order d) (\<lambda>indices.
          res_bind (tt_assert (length indices \<noteq> 0)) (\<lambda>_.
            let galaxy_chip_ids = filter (\<lambda>c. map_of indices c \<noteq> None) ids;
                non_galaxy_chip_ids = filter (\<lambda>c. map_of indices c = None) ids in
            Inr (sort_key (\<lambda>c. case map_of indices c of Some i \<Rightarrow> i | None \<Rightarrow> 0) galaxy_chip_ids @
                 non_galaxy_chip_ids))))"

definition get_op_to_grid_shape :: "string list \<Rightarrow> nat \<Rightarrow> nat \<Rightarrow> shapes" where
  "get_op_to_grid_shape scheduled_ops default_rows default_columns =
     fold (\<lambda>n m. AList.update n (mk_shape default_rows default_columns) m) scheduled_ops []"

section \<open>Workloads\<close>

definition check_tagged :: "string list \<Rightarrow> string list \<Rightarrow> unit res" where
  "check_tagged tagged scheduled_ops = fold_res (\<lambda>n _. tt_assert (n \<in> set scheduled_ops)) tagged ()"

definition check_user_defined_op_names :: "PlacerConfig \<Rightarrow> string list \<Rightarrow> unit res" where
  "check_user_defined_op_names cfg scheduled_ops =
     (if ops_tagged_for_chip_id_break cfg = [] \<and> ops_tagged_for_epoch_break cfg = [] then Inr ()
      else res_bind (check_tagged (ops_tagged_for_chip_id_break cfg) scheduled_ops) (\<lambda>_.
             check_tagged (ops_tagged_for_epoch_break cfg) scheduled_ops))"

definition check_break_names :: "string list list \<Rightarrow> string list \<Rightarrow> unit res" where
  "check_break_names breaks scheduled_ops =
     (if breaks = [] then Inr () else fold_res (\<lambda>ns _. check_tagged ns scheduled_ops) breaks ())"

text \<open>\<open>OpGroupToPlace::get_next_op_group_id\<close>: the id and the counter after it.\<close>

definition get_next_op_group_id :: "nat \<Rightarrow> nat \<times> nat" where
  "get_next_op_group_id counter = (counter, add32 counter 1)"

definition push_op_group ::
    "string \<Rightarrow> nat \<Rightarrow> bool \<Rightarrow> NodeEpochType \<Rightarrow> OpGroupToPlace list \<times> nat \<Rightarrow> OpGroupToPlace list \<times> nat" where
  "push_op_group op chip inc ty st =
     (let (i, counter) = get_next_op_group_id (snd st) in
      (fst st @ [\<lparr>op_group_id = i, op_names = [op], op_name_to_relative_offset_from_first_op = [],
                  group_chip_id = chip, increment_epoch = inc, group_epoch_type = ty\<rparr>], counter))"

definition simple_step ::
    "PlacerConfig \<Rightarrow> string \<Rightarrow> nat \<times> OpGroupToPlace list \<times> nat \<Rightarrow> (nat \<times> OpGroupToPlace list \<times> nat) res" where
  "simple_step cfg op s =
     (let (chip_index, st) = s in
      res_bind (at_key (op_to_epoch_type cfg) op) (\<lambda>ty.
        let inc = (fst st \<noteq> [] \<and> op \<in> set (ops_tagged_for_epoch_break cfg)) in
        res_bind (if fst st \<noteq> [] \<and> op \<in> set (ops_tagged_for_chip_id_break cfg)
                  then if chip_ids cfg = [] then Inl UndefinedBehaviour
                       else Inr (add32 chip_index 1 mod length (chip_ids cfg))
                  else Inr chip_index) (\<lambda>chip_index'.
        res_bind (vec_at (chip_ids cfg) chip_index') (\<lambda>chip.
          Inr (chip_index', push_op_group op chip inc ty st)))))"

definition generate_simple_placer_workload ::
    "PlacerConfig \<Rightarrow> string list \<Rightarrow> nat \<Rightarrow> (OpGroupToPlace list \<times> nat) res" where
  "generate_simple_placer_workload cfg scheduled_ops counter =
     res_bind (check_user_defined_op_names cfg scheduled_ops) (\<lambda>_.
     res_bind (fold_res (simple_step cfg) scheduled_ops (0, [], counter)) (\<lambda>(_, st). Inr st))"

definition forward_step ::
    "PlacerConfig \<Rightarrow> string \<Rightarrow> OpGroupToPlace list \<times> nat \<Rightarrow> (OpGroupToPlace list \<times> nat) res" where
  "forward_step cfg op st =
     (let inc = (fst st \<noteq> [] \<and> op \<in> set (ops_tagged_for_epoch_break cfg)) in
      res_bind (at_key (op_to_epoch_type cfg) op) (\<lambda>ty.
        if ty = Forward
        then res_bind (get_chip_id cfg op) (\<lambda>chip. Inr (push_op_group op chip inc Forward st))
        else Inr st))"

definition generate_forward_placer_workload ::
    "PlacerConfig \<Rightarrow> string list \<Rightarrow> nat \<Rightarrow> (OpGroupToPlace list \<times> nat) res" where
  "generate_forward_placer_workload cfg scheduled_ops counter =
     fold_res (forward_step cfg) scheduled_ops ([], counter)"

definition backward_step ::
    "PlacerConfig \<Rightarrow> string \<Rightarrow> OpGroupToPlace list \<times> nat \<Rightarrow> (OpGroupToPlace list \<times> nat) res" where
  "backward_step cfg op st =
     res_bind (at_key (op_to_epoch_type cfg) op) (\<lambda>ty.
       if ty = Backward
       then res_bind (get_chip_id cfg op) (\<lambda>chip.
              Inr (push_op_group op chip (op \<in> set (ops_tagged_for_epoch_break cfg)) Backward st))
       else Inr st)"

definition generate_backward_placer_workload ::
    "PlacerConfig \<Rightarrow> string list \<Rightarrow> nat \<Rightarrow> (OpGroupToPlace list \<times> nat) res" where
  "generate_backward_placer_workload cfg scheduled_ops counter =
     fold_res (backward_step cfg) scheduled_ops ([], counter)"

definition optimizer_step ::
    "PlacerConfig \<Rightarrow> string \<Rightarrow> OpGroupToPlace list \<times> nat \<Rightarrow> (OpGroupToPlace list \<times> nat) res" where
  "optimizer_step cfg op st =
     res_bind (at_key (op_to_epoch_type cfg) op) (\<lambda>ty.
       if ty = Optimizer
       then res_bind (get_chip_id cfg op) (\<lambda>chip.
              Inr (push_op_group op chip (op \<in> set (ops_tagged_for_epoch_break cfg)) Optimizer st))
       else Inr st)"

definition generate_optimizer_placer_workload ::
    "PlacerConfig \<Rightarrow> string list \<Rightarrow> nat \<Rightarrow> (OpGroupToPlace list \<times> nat) res" where
  "generate_optimizer_placer_workload cfg scheduled_ops counter =
     fold_res (optimizer_step cfg) scheduled_ops ([], counter)"

type_synonym ChipIdToPlacerWorkload = "(nat \<times> OpGroupToPlace list) list"

text \<open>\<open>placer_workload[op_group.chip_id].emplace_back(op_group)\<close>.\<close>

definition emplace_on_chip :: "OpGroupToPlace \<Rightarrow> ChipIdToPlacerWorkload \<Rightarrow> ChipIdToPlacerWorkload" where
  "emplace_on_chip grp m =
     omap_insert (group_chip_id grp)
       ((case map_of m (group_chip_id grp) of None \<Rightarrow> [] | Some grps \<Rightarrow> grps) @ [grp]) m"

definition generate_placer_workload ::
    "PlacerConfig \<Rightarrow> string list \<Rightarrow> nat \<Rightarrow> (ChipIdToPlacerWorkload \<times> nat) res" where
  "generate_placer_workload cfg scheduled_ops counter =
     res_bind (check_user_defined_op_names cfg scheduled_ops) (\<lambda>_.
     res_bind (if is_grayskull (device_config cfg)
               then tt_assert (op_to_chip_id_assignment cfg \<noteq> []) else Inr ()) (\<lambda>_.
     res_bind (generate_forward_placer_workload cfg scheduled_ops counter) (\<lambda>(fwd, counter1).
     let m1 = fold emplace_on_chip fwd [] in
     res_bind (generate_backward_placer_workload cfg scheduled_ops counter1) (\<lambda>(bwd, counter2).
     let m2 = fold emplace_on_chip bwd m1 in
     res_bind (generate_optimizer_placer_workload cfg scheduled_ops counter2) (\<lambda>(opt, counter3).
       Inr (fold emplace_on_chip opt m2, counter3))))))"

definition generate_wormhole_placer_workload ::
    "PlacerConfig \<Rightarrow> string list \<Rightarrow> nat \<Rightarrow> (OpGroupToPlace list \<times> nat) res" where
  "generate_wormhole_placer_workload cfg scheduled_ops counter =
     res_bind (check_user_defined_op_names cfg scheduled_ops) (\<lambda>_.
     res_bind (generate_forward_placer_workload cfg scheduled_ops counter) (\<lambda>(fwd, counter1).
     res_bind (generate_backward_placer_workload cfg scheduled_ops counter1) (\<lambda>(bwd, counter2).
     res_bind (generate_optimizer_placer_workload cfg scheduled_ops counter2) (\<lambda>(opt, counter3).
       Inr (fwd @ bwd @ opt, counter3)))))"

section \<open>Break tags\<close>

text \<open>What the graph says about a scheduled node.\<close>

record GraphNode =
  subgraph_id :: nat
  is_buda_op :: bool
  is_data_parallel_nop :: bool
  fracture_group_id :: "nat option"

definition get_node_by_name :: "(string \<times> GraphNode) list \<Rightarrow> string \<Rightarrow> GraphNode res" where
  "get_node_by_name nodes n = (case map_of nodes n of None \<Rightarrow> Inl RuntimeError | Some v \<Rightarrow> Inr v)"

definition tag_user_break :: "string list \<Rightarrow> string list \<Rightarrow> string list \<Rightarrow> string list" where
  "tag_user_break scheduled_ops names tagged =
     (if length names = 1 then List.insert (hd names) tagged
      else case List.find (\<lambda>op. op \<in> set names) scheduled_ops of
             None \<Rightarrow> tagged
           | Some op \<Rightarrow> List.insert op tagged)"

definition tag_step ::
    "(string \<times> GraphNode) list \<Rightarrow> string \<Rightarrow> nat \<times> bool \<times> string list \<Rightarrow> (nat \<times> bool \<times> string list) res" where
  "tag_step nodes op s =
     (let (prev_subgraph_id, in_nops, tagged) = s in
      res_bind (get_node_by_name nodes op) (\<lambda>node.
      res_bind (tt_assert (subgraph_id node \<ge> prev_subgraph_id)) (\<lambda>_.
      let tagged1 = (if subgraph_id node \<noteq> prev_subgraph_id then List.insert op tagged else tagged);
          prev1 = subgraph_id node in
      Inr (if is_buda_op node
           then if is_data_parallel_nop node
                then if \<not> in_nops then (prev1, True, List.insert op tagged1) else (prev1, in_nops, tagged1)
                else if in_nops then (prev1, False, List.insert op tagged1) else (prev1, in_nops, tagged1)
           else (prev1, in_nops, tagged1)))))"

definition tag_ops_for_epoch_or_chip_break ::
    "string list list \<Rightarrow> string list \<Rightarrow> (string \<times> GraphNode) list \<Rightarrow> string list res" where
  "tag_ops_for_epoch_or_chip_break breaks scheduled_ops nodes =
     res_bind (check_break_names breaks scheduled_ops) (\<lambda>_.
     let tagged = fold (tag_user_break scheduled_ops) breaks [] in
     res_bind (vec_idx scheduled_ops 0) (\<lambda>first.
     res_bind (get_node_by_name nodes first) (\<lambda>node.
     res_bind (fold_res (tag_step nodes) scheduled_ops (subgraph_id node, False, tagged)) (\<lambda>(_, _, tagged').
       Inr tagged'))))"

text \<open>The output nodes of the graph and the environment variables are arguments.\<close>

definition tag_ops_for_epoch_break ::
    "bool \<Rightarrow> Env \<Rightarrow> DeviceConfig \<Rightarrow> string list list \<Rightarrow> string list list \<Rightarrow> string list \<Rightarrow>
     (string \<times> GraphNode) list \<Rightarrow> string list \<Rightarrow> bool \<Rightarrow> string list res" where
  "tag_ops_for_epoch_break single_op_epochs env d epoch_breaks chip_breaks scheduled_ops nodes outputs
     use_interactive_placer =
     (if single_op_epochs then Inr (fold List.insert scheduled_ops [])
      else if (\<not> use_interactive_placer \<or> PYBUDA_WORMHOLE_PIPELINED_PLACER env) \<and> is_wormhole_b0 d
      then tag_ops_for_epoch_or_chip_break
             (epoch_breaks @ chip_breaks @
              (if PYBUDA_NEBULA_GALAXY_PLACER env then map (\<lambda>n. [n]) outputs else []))
             scheduled_ops nodes
      else tag_ops_for_epoch_or_chip_break epoch_breaks scheduled_ops nodes)"

definition tag_ops_for_chip_break ::
    "DeviceConfig \<Rightarrow> string list list \<Rightarrow> string list \<Rightarrow> (string \<times> GraphNode) list \<Rightarrow> bool \<Rightarrow> string list res" where
  "tag_ops_for_chip_break d chip_breaks scheduled_ops nodes use_interactive_placer =
     (if \<not> use_interactive_placer \<and> is_wormhole_b0 d then Inr []
      else tag_ops_for_epoch_or_chip_break chip_breaks scheduled_ops nodes)"

definition fracture_step ::
    "(string \<times> GraphNode) list \<Rightarrow> string \<Rightarrow> nat list \<times> string list \<Rightarrow> (nat list \<times> string list) res" where
  "fracture_step nodes op s =
     res_bind (get_node_by_name nodes op) (\<lambda>node.
       Inr (case fracture_group_id node of
              None \<Rightarrow> s
            | Some g \<Rightarrow> if g \<notin> set (fst s) then (List.insert g (fst s), List.insert op (snd s)) else s))"

definition tag_ops_for_temporal_epoch_break ::
    "(string \<times> GraphNode) list \<Rightarrow> string list \<Rightarrow> overrides \<Rightarrow> string list res" where
  "tag_ops_for_temporal_epoch_break nodes scheduled_ops ov =
     res_bind (fold_res (fracture_step nodes) scheduled_ops ([], [])) (\<lambda>(_, tagged).
       Inr (fold (\<lambda>(op, placer_override) t. if temporal_epoch_break placer_override then List.insert op t else t) ov tagged))"

end
