(* ===== verification/Chip_Placer.thy ===== *)
theory Chip_Placer
  imports Epoch_Placer Lowering
begin

text \<open>
  \<open>place_onto_chip\<close> of \<open>placer/placer.cpp\<close>: it checks the workload, runs the epoch placer over the
  op groups of one epoch type and collects the epochs in a \<open>PlacerSolution\<close>, which
  \<open>validate_placer_solution\<close> then colours in again to find overlaps.
\<close>

section \<open>Checks of a solution\<close>

definition fill_in_cell ::
    "(string \<times> OpPlacement) list \<Rightarrow> (nat \<times> string) list \<Rightarrow> nat \<Rightarrow> nat \<Rightarrow> nat \<Rightarrow> DeviceGrid \<Rightarrow> DeviceGrid res" where
  "fill_in_cell placements id_to_string i j k g =
     res_bind (cell_at g i j) (\<lambda>x.
       if x \<noteq> 0
       then res_bind (at_key id_to_string x) (\<lambda>offending_op.
            res_bind (at_key placements offending_op) (\<lambda>_. Inl RuntimeError))
       else Inr (g[i := (g ! i)[j := k]]))"

definition fill_in_device_grid ::
    "(string \<times> OpPlacement) list \<Rightarrow> (nat \<times> string) list \<Rightarrow> OpPlacement \<Rightarrow> nat \<Rightarrow> DeviceGrid \<Rightarrow> DeviceGrid res" where
  "fill_in_device_grid placements id_to_string p k g =
     (let cores = placed_cores p in
      fold_res (\<lambda>i. fold_res (\<lambda>j. fill_in_cell placements id_to_string i j k)
          [col (range_start cores)..<col (range_end cores)])
        [row (range_start cores)..<row (range_end cores)] g)"

text \<open>Not called anywhere; it returns false exactly when a harvested row is contained.\<close>

definition contains_harvested_row :: "nat \<Rightarrow> nat \<Rightarrow> nat list \<Rightarrow> bool" where
  "contains_harvested_row row_start num_rows_for_op rows_harvested =
     (case List.find (\<lambda>r. r \<ge> row_start \<and> r < add32 row_start num_rows_for_op) rows_harvested of
        Some _ \<Rightarrow> False | None \<Rightarrow> True)"

definition constrain_op ::
    "PlacerConfig \<Rightarrow> string \<Rightarrow> NodeEpochType \<times> bool \<Rightarrow> (NodeEpochType \<times> bool) res" where
  "constrain_op cfg op s =
     res_bind (at_key (op_to_epoch_type cfg) op) (\<lambda>ty.
       Inr (if is_forward_to_backward_epoch_transition (fst s) ty \<or>
               is_backward_to_optimizer_epoch_transition (fst s) ty
            then (ty, True) else s))"

primrec constrain_groups ::
    "PlacerConfig \<Rightarrow> NodeEpochType \<Rightarrow> OpGroupToPlace list \<Rightarrow> OpGroupToPlace list res" where
  "constrain_groups cfg prev_epoch_type [] = Inr []"
| "constrain_groups cfg prev_epoch_type (grp # grps) =
     res_bind (fold_res (constrain_op cfg) (op_names grp) (prev_epoch_type, increment_epoch grp)) (\<lambda>(prev, inc).
     res_bind (constrain_groups cfg prev grps) (\<lambda>grps'.
       Inr (grp\<lparr>increment_epoch := inc\<rparr> # grps')))"

definition generate_placement_constraints ::
    "PlacerConfig \<Rightarrow> OpGroupToPlace list \<Rightarrow> OpGroupToPlace list res" where
  "generate_placement_constraints cfg w = constrain_groups cfg Forward w"

definition placement_in_bounds :: "Env \<Rightarrow> PlacerConfig \<Rightarrow> string \<times> OpPlacement \<Rightarrow> bool" where
  "placement_in_bounds env cfg np =
     (let (n, p) = np; last_core = range_end (placed_cores p) in
      \<not> (row last_core > rows (device_grid_shape cfg) \<or> col last_core > columns (device_grid_shape cfg)) \<and>
      \<not> (PYBUDA_NEBULA_GALAXY_PLACER env \<and> output_queues_on_host cfg \<and> n \<in> set (output_ops cfg) \<and>
         row last_core > 8))"

definition colour_placement ::
    "(string \<times> OpPlacement) list \<Rightarrow> OpPlacement \<Rightarrow> nat \<times> (nat \<times> string) list \<times> DeviceGrid \<Rightarrow>
     (nat \<times> (nat \<times> string) list \<times> DeviceGrid) res" where
  "colour_placement placements p s =
     (let (start_id, ids, g) = s; ids' = AList.update start_id (placement_name p) ids in
      res_bind (fill_in_device_grid placements ids' p start_id g) (\<lambda>g'.
        Inr (add32 start_id 1, ids', g')))"

definition validate_placer_solution :: "Env \<Rightarrow> PlacerConfig \<Rightarrow> PlacerSolution \<Rightarrow> unit res" where
  "validate_placer_solution env cfg sol =
     res_bind (fold_res (\<lambda>np _. tt_assert (placement_in_bounds env cfg np)) (name_to_op_placement sol) ()) (\<lambda>_.
       fold_res (\<lambda>(epoch, placements) _.
           res_bind (fold_res (colour_placement (name_to_op_placement sol)) placements
               (1, [], create_empty_device_grid (get_available_rows_on_device cfg) (columns (device_grid_shape cfg))))
             (\<lambda>_. Inr ()))
         (epoch_id_to_op_placement sol) ())"

section \<open>Placing one workload\<close>

definition empty_solution :: "PlacerConfig \<Rightarrow> PlacerSolution" where
  "empty_solution cfg =
     \<lparr>name_to_op_placement = [], sol_input_queue_to_grid_shape = input_queue_to_grid_shape cfg,
      name_to_queue_placement = [], epoch_id_to_chip = [], epoch_id_to_subgraph_index = [],
      epoch_id_to_op_placement = [],
      sol_device_grids = mk_epoch_grids (get_available_rows_on_device cfg) (columns (device_grid_shape cfg)),
      epoch_id_to_epoch_info = [], num_epochs = 0, is_pipelined = True, fork_join_buffered = False\<rparr>"

text \<open>\<open>m[k].push_back(v)\<close>.\<close>

definition push_at :: "'k \<Rightarrow> 'v \<Rightarrow> ('k \<times> 'v list) list \<Rightarrow> ('k \<times> 'v list) list" where
  "push_at k v m = AList.update k ((case map_of m k of None \<Rightarrow> [] | Some vs \<Rightarrow> vs) @ [v]) m"

definition make_op_placement ::
    "(string \<times> nat) list \<Rightarrow> (string \<times> nat) list \<Rightarrow> nat \<Rightarrow> DeviceGridPlacement \<Rightarrow> OpPlacement res" where
  "make_op_placement name_to_op_group_id name_to_chip_id k p =
     res_bind (at_key name_to_op_group_id (dgp_op_name p)) (\<lambda>i.
     res_bind (at_key name_to_chip_id (dgp_op_name p)) (\<lambda>chip.
       Inr \<lparr>placement_id = i, placement_name = dgp_op_name p, placement_chip_id = chip,
            global_epoch_id = k, grid_transpose = dgp_grid_transpose p,
            placed_cores = dgp_placed_cores p\<rparr>))"

definition make_epoch_step ::
    "PlacerConfig \<Rightarrow> (string \<times> nat) list \<Rightarrow> (string \<times> nat) list \<Rightarrow> nat \<Rightarrow> DeviceGridPlacement \<Rightarrow>
     OpPlacement list \<times> EpochIdToDeviceGrid \<Rightarrow> (OpPlacement list \<times> EpochIdToDeviceGrid) res" where
  "make_epoch_step cfg ids chips k p s =
     res_bind (make_op_placement ids chips k p) (\<lambda>op.
     res_bind (at_key (op_to_grid_shape cfg) (dgp_op_name p)) (\<lambda>shape.
     res_bind (eg_fill (snd s) k (range_start (dgp_placed_cores p))
         (if dgp_grid_transpose p then mk_shape (columns shape) (rows shape) else shape)) (\<lambda>eg.
       Inr (fst s @ [op], eg))))"

text \<open>The solution so far, the greatest epoch id assigned and whether anything was placed.\<close>

definition record_op_placement ::
    "OpPlacement \<Rightarrow> PlacerSolution \<times> nat \<Rightarrow> PlacerSolution \<times> nat" where
  "record_op_placement p s =
     ((fst s)\<lparr>name_to_op_placement := AList.update (placement_name p) p (name_to_op_placement (fst s)),
              epoch_id_to_chip := omap_insert (global_epoch_id p) (placement_chip_id p) (epoch_id_to_chip (fst s)),
              epoch_id_to_op_placement :=
                push_at (global_epoch_id p) p (epoch_id_to_op_placement (fst s))\<rparr>,
      max (snd s) (global_epoch_id p))"

definition record_epoch ::
    "PlacerConfig \<Rightarrow> (string \<times> nat) list \<Rightarrow> (string \<times> nat) list \<Rightarrow> nat \<Rightarrow> nat \<times> EpochDeviceGridPlacement \<Rightarrow>
     PlacerSolution \<times> nat \<times> bool \<Rightarrow> (PlacerSolution \<times> nat \<times> bool) res" where
  "record_epoch cfg ids chips current_epoch_id iep s =
     (let (sol, max_id, placed) = s; k = add32 current_epoch_id (fst iep);
          grids = initialize_device_grid (sol_device_grids sol) k False in
      res_bind (fold_res (make_epoch_step cfg ids chips k) (edgp_op_placements (snd iep)) ([], grids))
        (\<lambda>(ops, grids').
          let (sol', max_id') = fold record_op_placement ops (sol\<lparr>sol_device_grids := grids'\<rparr>, max_id) in
          Inr (sol', max_id', placed \<or> ops \<noteq> [])))"

definition filter_op_groups :: "NodeEpochType option \<Rightarrow> OpGroupToPlace list \<Rightarrow> OpGroupToPlace list" where
  "filter_op_groups epoch_type w =
     filter (\<lambda>grp. case epoch_type of None \<Rightarrow> True | Some ty \<Rightarrow> group_epoch_type grp = ty) w"

definition name_map :: "(OpGroupToPlace \<Rightarrow> nat) \<Rightarrow> OpGroupToPlace list \<Rightarrow> (string \<times> nat) list" where
  "name_map f w = fold (\<lambda>grp. fold (\<lambda>n m. AList.update n (f grp) m) (op_names grp)) w []"

definition collect_solution ::
    "Env \<Rightarrow> PlacerConfig \<Rightarrow> OpGroupToPlace list \<Rightarrow> nat \<Rightarrow> EpochDeviceGridPlacement list \<Rightarrow> PlacerSolution res" where
  "collect_solution env cfg w epoch_start_id placed_epochs =
     res_bind (fold_res (record_epoch cfg (name_map op_group_id w) (name_map group_chip_id w) epoch_start_id)
         (enumerate 0 placed_epochs) (empty_solution cfg, epoch_start_id, False)) (\<lambda>(sol, max_id, placed).
       let sol' = sol\<lparr>num_epochs := (if placed then add32 (sub32 max_id epoch_start_id) 1 else 0)\<rparr> in
       res_bind (validate_placer_solution env cfg sol') (\<lambda>_. Inr sol'))"

text \<open>
  Without an epoch type the constraints are written into the caller's workload; no caller reads it
  again, so only the solution is returned.
\<close>

definition place_onto_chip ::
    "Env \<Rightarrow> PlacerConfig \<Rightarrow> OpGroupToPlace list \<Rightarrow> nat \<Rightarrow> NodeEpochType option \<Rightarrow> PlacerSolution comp" where
  "place_onto_chip env cfg w epoch_start_id epoch_type =
     comp_bind (Some (validate_chip_mapping cfg w)) (\<lambda>_.
     comp_bind (Some (validate_placer_inputs cfg w)) (\<lambda>_.
     comp_bind (Some (case epoch_type of Some _ \<Rightarrow> Inr w | None \<Rightarrow> generate_placement_constraints cfg w)) (\<lambda>w'.
     comp_bind (edp_place env cfg (filter_op_groups epoch_type w')) (\<lambda>placed_epochs.
       Some (collect_solution env cfg w' epoch_start_id placed_epochs)))))"

end
