(* ===== verification/Arch_Placers.thy ===== *)
theory Arch_Placers
  imports Chip_Placer
begin

text \<open>
  The placers of \<open>placer/placer.cpp\<close>: \<open>grayskull_placer\<close> places chip by chip, \<open>wormhole_placer\<close>
  places every epoch type on one virtual chip and then deals the epochs out to the chips,
  \<open>galaxy_placer\<close> does so per group of ops, and \<open>placer\<close> chooses between them. The counter of
  the op group ids goes in and comes back with the solution.
\<close>

section \<open>Grayskull\<close>

definition get_chip_id_order :: "ChipIdToPlacerWorkload \<Rightarrow> NodeEpochType \<Rightarrow> nat list" where
  "get_chip_id_order m epoch_type =
     (if epoch_type = Backward then rev (map fst m) else map fst m)"

text \<open>The three \<open>insert\<close> calls: entries already present are kept.\<close>

definition insert_solution :: "PlacerSolution \<Rightarrow> PlacerSolution \<Rightarrow> PlacerSolution" where
  "insert_solution chip_solution sol =
     sol\<lparr>name_to_op_placement := map_merge (name_to_op_placement sol) (name_to_op_placement chip_solution),
         epoch_id_to_op_placement :=
           map_merge (epoch_id_to_op_placement sol) (epoch_id_to_op_placement chip_solution),
         sol_device_grids := (sol_device_grids sol)\<lparr>epoch_id_to_device_grid :=
           map_merge (epoch_id_to_device_grid (sol_device_grids sol))
             (epoch_id_to_device_grid (sol_device_grids chip_solution))\<rparr>\<rparr>"

definition register_epoch :: "nat \<Rightarrow> nat \<Rightarrow> EpochInfo \<Rightarrow> PlacerSolution \<Rightarrow> PlacerSolution" where
  "register_epoch epoch_id chip info sol =
     sol\<lparr>epoch_id_to_chip := omap_insert epoch_id chip (epoch_id_to_chip sol),
         epoch_id_to_epoch_info := AList.update epoch_id info (epoch_id_to_epoch_info sol)\<rparr>"

definition grayskull_chip ::
    "Env \<Rightarrow> PlacerConfig \<Rightarrow> ChipIdToPlacerWorkload \<Rightarrow> NodeEpochType \<Rightarrow> nat \<Rightarrow> PlacerSolution \<times> nat \<Rightarrow>
     (PlacerSolution \<times> nat) comp" where
  "grayskull_chip env cfg m epoch_type chip s =
     (let (sol, current_epoch_id) = s in
      comp_bind (Some (at_key m chip)) (\<lambda>w.
      comp_bind (place_onto_chip env cfg w current_epoch_id (Some epoch_type)) (\<lambda>chip_solution.
        let next_epoch_id = add32 current_epoch_id (num_epochs chip_solution) in
        Some (Inr (fold (\<lambda>k. register_epoch k chip
              \<lparr>info_global_epoch_id = k, info_temporal_epoch_id = k, info_spatial_epoch_id = 0,
               info_epoch_type = epoch_type\<rparr>) [current_epoch_id..<next_epoch_id]
            (insert_solution chip_solution sol), next_epoch_id)))))"

definition grayskull_placer :: "Env \<Rightarrow> PlacerConfig \<Rightarrow> string list \<Rightarrow> nat \<Rightarrow> (PlacerSolution \<times> nat) comp" where
  "grayskull_placer env cfg scheduled_ops counter =
     comp_bind (Some (generate_placer_workload cfg scheduled_ops counter)) (\<lambda>(m, counter').
     comp_bind (fold_comp (\<lambda>epoch_type. fold_comp (grayskull_chip env cfg m epoch_type) (get_chip_id_order m epoch_type))
         [Forward, Backward, Optimizer] (empty_solution cfg, 0)) (\<lambda>(sol, current_epoch_id).
     comp_bind (Some (fold_res (\<lambda>i _. tt_assert (map_of (epoch_id_to_op_placement sol) i \<noteq> None))
         [0..<current_epoch_id] ())) (\<lambda>_.
       Some (Inr (sol\<lparr>num_epochs := current_epoch_id, is_pipelined := True\<rparr>, counter')))))"

text \<open>Not called by the placers; \<open>std::sort\<close> by the group id, whose ids are distinct.\<close>

primrec group_runs :: "nat \<Rightarrow> OpGroupToPlace list list \<Rightarrow> OpGroupToPlace list \<Rightarrow> OpGroupToPlace list list" where
  "group_runs previous_chip_id grouped [] = grouped"
| "group_runs previous_chip_id grouped (grp # grps) =
     group_runs (group_chip_id grp)
       (if grouped = [] \<or> previous_chip_id \<noteq> group_chip_id grp then grouped @ [[grp]]
        else butlast grouped @ [last grouped @ [grp]]) grps"

definition get_placer_workload_grouped_by_chip_id ::
    "ChipIdToPlacerWorkload \<Rightarrow> NodeEpochType \<Rightarrow> OpGroupToPlace list list" where
  "get_placer_workload_grouped_by_chip_id m epoch_type =
     (let w = sort_key op_group_id
                (filter (\<lambda>grp. group_epoch_type grp = epoch_type) (concat (map snd m))) in
      if w = [] then []
      else let grouped = group_runs (group_chip_id (hd w)) [] w in
           if epoch_type = Backward then rev grouped else grouped)"

section \<open>Which chip an epoch may go to\<close>

definition placement_allows :: "Env \<Rightarrow> PlacerConfig \<Rightarrow> nat \<Rightarrow> OpPlacement \<Rightarrow> bool" where
  "placement_allows env cfg chip p =
     (let n = placement_name p; is_output = n \<in> set (output_ops cfg);
          mmio = chip \<in> set (chips_with_mmio (device_config cfg)) in
      if output_queues_on_host cfg \<and> is_output \<and> \<not> mmio then False
      else if (case map_of (op_to_chip_id_assignment cfg) n of None \<Rightarrow> False | Some c \<Rightarrow> c \<noteq> chip) then False
      else if (case get_chip_id_override cfg n of None \<Rightarrow> False | Some c \<Rightarrow> c \<noteq> chip) then False
      else if PYBUDA_NEBULA_GALAXY_PLACER env \<and> mmio
           then (if \<not> output_queues_on_host cfg then False
                 else if output_queues_on_host cfg \<and> \<not> is_output then False else True)
      else True)"

definition can_place_epoch_onto_chip ::
    "Env \<Rightarrow> PlacerConfig \<Rightarrow> PlacerSolution \<Rightarrow> nat \<Rightarrow> nat \<Rightarrow> bool res" where
  "can_place_epoch_onto_chip env cfg sol epoch_id chip =
     res_bind (tt_assert (chips_with_mmio (device_config cfg) \<noteq> [])) (\<lambda>_.
     res_bind (at_key (epoch_id_to_op_placement sol) epoch_id) (\<lambda>ps.
       all_res (\<lambda>p. Inr (placement_allows env cfg chip p)) ps))"

definition add_user_chips :: "PlacerConfig \<Rightarrow> OpPlacement \<Rightarrow> nat list \<Rightarrow> nat list" where
  "add_user_chips cfg p s =
     (let s1 = (case get_chip_id_override cfg (placement_name p) of None \<Rightarrow> s | Some c \<Rightarrow> List.insert c s) in
      (case map_of (op_to_chip_id_assignment cfg) (placement_name p) of None \<Rightarrow> s1 | Some c \<Rightarrow> List.insert c s1))"

definition user_chips :: "PlacerConfig \<Rightarrow> OpPlacement list \<Rightarrow> nat list" where
  "user_chips cfg ps = fold (add_user_chips cfg) ps []"

definition validate_epoch_placement :: "PlacerConfig \<Rightarrow> PlacerSolution \<Rightarrow> nat \<Rightarrow> bool res" where
  "validate_epoch_placement cfg sol epoch_id =
     res_bind (tt_assert (chips_with_mmio (device_config cfg) \<noteq> [])) (\<lambda>_.
     res_bind (at_key (epoch_id_to_op_placement sol) epoch_id) (\<lambda>ps.
     let user_assigned_chip_ids = user_chips cfg ps in
     if length user_assigned_chip_ids > 1 then Inl RuntimeError
     else if length user_assigned_chip_ids = 1
     then res_bind (fold_res (\<lambda>p _. tt_assert (\<not> (output_queues_on_host cfg \<and>
              placement_name p \<in> set (output_ops cfg) \<and>
              hd user_assigned_chip_ids \<notin> set (chips_with_mmio (device_config cfg))))) ps ())
            (\<lambda>_. Inr True)
     else Inr True))"

text \<open>
  The position of the placer: the direction of the snake, the index of the current chip, the
  temporal and the spatial epoch id.
\<close>

record Cursor =
  cur_placing_forward :: bool
  cur_chip_index :: nat
  cur_temporal_epoch_id :: nat
  cur_spatial_epoch_id :: nat

definition advance_epoch :: "Env \<Rightarrow> nat list \<Rightarrow> bool \<Rightarrow> Cursor \<Rightarrow> Cursor" where
  "advance_epoch env chips is_fwd_chip_direction cur =
     (let i = cur_chip_index cur; t = cur_temporal_epoch_id cur;
          stay = cur\<lparr>cur_spatial_epoch_id := add32 (cur_spatial_epoch_id cur) 1\<rparr>;
          wrapped = cur\<lparr>cur_spatial_epoch_id := 0, cur_temporal_epoch_id := add32 t 1\<rparr> in
      if PYBUDA_PLACER_SNAKE env
      then if cur_placing_forward cur
           then if i = sub64 (length chips) 1 then wrapped\<lparr>cur_placing_forward := False\<rparr>
                else stay\<lparr>cur_chip_index := add32 i 1\<rparr>
           else if i = 0 then wrapped\<lparr>cur_placing_forward := True\<rparr>
                else stay\<lparr>cur_chip_index := sub32 i 1\<rparr>
      else if is_fwd_chip_direction
      then if add32 i 1 \<ge> length chips then wrapped\<lparr>cur_chip_index := 0\<rparr>
           else stay\<lparr>cur_chip_index := add32 i 1\<rparr>
      else if i = 0 then wrapped\<lparr>cur_chip_index := sub64 (length chips) 1 mod 2 ^ 32\<rparr>
           else stay\<lparr>cur_chip_index := sub32 i 1\<rparr>)"

section \<open>Wormhole: dealing the epochs out\<close>

text \<open>
  The local variables of \<open>wormhole_placer\<close>: the maps it fills are those of a \<open>PlacerSolution\<close>, and
  \<open>wh_chip_solution\<close> is the solution of the current epoch type, whose placements are updated.
\<close>

record WormholeState =
  wh_solution :: PlacerSolution
  wh_epoch_id_to_type :: "(nat \<times> NodeEpochType) list"
  wh_chip_solution :: PlacerSolution
  wh_cursor :: Cursor
  wh_num_epochs_placed_on_chip :: nat

definition default_op_placement :: OpPlacement where
  "default_op_placement =
     \<lparr>placement_id = 0, placement_name = [], placement_chip_id = 0, global_epoch_id = 0,
      grid_transpose = False, placed_cores = mk_range (mk_coord 0 0) (mk_coord 0 0)\<rparr>"

definition set_op_chip :: "nat \<Rightarrow> string \<Rightarrow> PlacerSolution \<Rightarrow> PlacerSolution" where
  "set_op_chip chip n sol =
     sol\<lparr>name_to_op_placement := AList.update n
       ((case map_of (name_to_op_placement sol) n of None \<Rightarrow> default_op_placement | Some p \<Rightarrow> p)
          \<lparr>placement_chip_id := chip\<rparr>) (name_to_op_placement sol)\<rparr>"

definition assign_epoch ::
    "NodeEpochType \<Rightarrow> nat list \<Rightarrow> nat \<Rightarrow> nat \<Rightarrow> WormholeState \<Rightarrow> WormholeState res" where
  "assign_epoch epoch_type chips epoch chip s =
     res_bind (at_key (epoch_id_to_op_placement (wh_chip_solution s)) epoch) (\<lambda>ps.
       let ps' = map (\<lambda>p. p\<lparr>placement_chip_id := chip\<rparr>) ps;
           chip_solution = (wh_chip_solution s)\<lparr>epoch_id_to_op_placement :=
             AList.update epoch ps' (epoch_id_to_op_placement (wh_chip_solution s))\<rparr>;
           sol1 = fold (\<lambda>p. set_op_chip chip (placement_name p)) ps (wh_solution s);
           sol2 = sol1\<lparr>epoch_id_to_op_placement :=
               map_merge (epoch_id_to_op_placement sol1) (epoch_id_to_op_placement chip_solution),
             sol_device_grids := (sol_device_grids sol1)\<lparr>epoch_id_to_device_grid :=
               map_merge (epoch_id_to_device_grid (sol_device_grids sol1))
                 (epoch_id_to_device_grid (sol_device_grids chip_solution))\<rparr>\<rparr>;
           sol3 = register_epoch epoch chip
             \<lparr>info_global_epoch_id = epoch,
              info_temporal_epoch_id = cur_temporal_epoch_id (wh_cursor s),
              info_spatial_epoch_id = cur_spatial_epoch_id (wh_cursor s) mod length chips,
              info_epoch_type = epoch_type\<rparr> sol2 in
       Inr (s\<lparr>wh_solution := sol3, wh_chip_solution := chip_solution,
              wh_epoch_id_to_type := AList.update epoch epoch_type (wh_epoch_id_to_type s),
              wh_num_epochs_placed_on_chip := add32 (wh_num_epochs_placed_on_chip s) 1\<rparr>))"

text \<open>\<open>std::ceil(float(num_epochs) / chip_ids.size())\<close>, exact below 2 to the 24 epochs.\<close>

definition epochs_per_chip :: "nat \<Rightarrow> nat \<Rightarrow> nat" where
  "epochs_per_chip epochs chips = (epochs + chips - 1) div chips"

definition advance_after_attempt ::
    "Env \<Rightarrow> nat list \<Rightarrow> bool \<Rightarrow> bool \<Rightarrow> WormholeState \<Rightarrow> WormholeState" where
  "advance_after_attempt env chips fwd valid s =
     (if PYBUDA_WORMHOLE_PIPELINED_PLACER env
      then if \<not> valid \<or> wh_num_epochs_placed_on_chip s \<ge>
                epochs_per_chip (num_epochs (wh_chip_solution s)) (length chips)
           then s\<lparr>wh_cursor := advance_epoch env chips fwd (wh_cursor s), wh_num_epochs_placed_on_chip := 0\<rparr>
           else s
      else s\<lparr>wh_cursor := advance_epoch env chips fwd (wh_cursor s)\<rparr>)"

definition attempt ::
    "Env \<Rightarrow> PlacerConfig \<Rightarrow> NodeEpochType \<Rightarrow> nat list \<Rightarrow> bool \<Rightarrow> nat \<Rightarrow> WormholeState \<Rightarrow>
     (bool \<times> WormholeState) res" where
  "attempt env cfg epoch_type chips fwd epoch s =
     res_bind (vec_idx chips (cur_chip_index (wh_cursor s))) (\<lambda>chip.
     res_bind (can_place_epoch_onto_chip env cfg (wh_chip_solution s) epoch chip) (\<lambda>valid.
     res_bind (if valid then assign_epoch epoch_type chips epoch chip s else Inr s) (\<lambda>s1.
       Inr (valid, advance_after_attempt env chips fwd valid s1))))"

text \<open>The loop over the attempts; with no attempt left the result is the last one's.\<close>

primrec attempt_loop ::
    "Env \<Rightarrow> PlacerConfig \<Rightarrow> NodeEpochType \<Rightarrow> nat list \<Rightarrow> bool \<Rightarrow> nat \<Rightarrow> nat \<Rightarrow> WormholeState \<Rightarrow>
     (bool \<times> WormholeState) res" where
  "attempt_loop env cfg epoch_type chips fwd epoch 0 s = Inr (False, s)"
| "attempt_loop env cfg epoch_type chips fwd epoch (Suc attempts) s =
     res_bind (attempt env cfg epoch_type chips fwd epoch s) (\<lambda>(valid, s1).
       if valid then Inr (True, s1) else attempt_loop env cfg epoch_type chips fwd epoch attempts s1)"

definition deal_epoch ::
    "Env \<Rightarrow> PlacerConfig \<Rightarrow> NodeEpochType \<Rightarrow> nat list \<Rightarrow> bool \<Rightarrow> nat \<Rightarrow> WormholeState \<Rightarrow> WormholeState res" where
  "deal_epoch env cfg epoch_type chips fwd epoch s =
     res_bind (validate_epoch_placement cfg (wh_chip_solution s) epoch) (\<lambda>_.
     res_bind (attempt_loop env cfg epoch_type chips fwd epoch (2 * length chips + 1) s) (\<lambda>(valid, s1).
     res_bind (tt_assert valid) (\<lambda>_. Inr s1)))"

definition deal_epoch_type ::
    "Env \<Rightarrow> PlacerConfig \<Rightarrow> OpGroupToPlace list \<Rightarrow> nat list \<Rightarrow> NodeEpochType \<Rightarrow>
     WormholeState \<times> nat \<Rightarrow> (WormholeState \<times> nat) comp" where
  "deal_epoch_type env cfg w chips epoch_type sc =
     (let (s, starting_epoch_id) = sc in
      comp_bind (place_onto_chip env cfg w starting_epoch_id (Some epoch_type)) (\<lambda>chip_solution.
      let sol = (wh_solution s)\<lparr>name_to_op_placement :=
            map_merge (name_to_op_placement (wh_solution s)) (name_to_op_placement chip_solution)\<rparr>;
          current_epoch_id = add32 starting_epoch_id (num_epochs chip_solution);
          fwd = (epoch_type = Forward \<or> epoch_type = Optimizer);
          s1 = s\<lparr>wh_solution := sol, wh_chip_solution := chip_solution,
                 wh_cursor := \<lparr>cur_placing_forward = True,
                   cur_chip_index = (if fwd then 0 else sub64 (length chips) 1 mod 2 ^ 32),
                   cur_temporal_epoch_id = cur_temporal_epoch_id (wh_cursor s),
                   cur_spatial_epoch_id = 0\<rparr>,
                 wh_num_epochs_placed_on_chip := 0\<rparr> in
      comp_bind (Some (fold_res (deal_epoch env cfg epoch_type chips fwd)
          [starting_epoch_id..<current_epoch_id] s1)) (\<lambda>s2.
        Some (Inr (s2, current_epoch_id)))))"

section \<open>Wormhole: temporal epochs\<close>

text \<open>
  Reading \<open>epoch_id_to_type\<close> or \<open>temporal_epoch_id_to_spatial_epochs\<close> with \<open>[]\<close> creates an absent entry;
  a read sees the default (\<open>Forward\<close>, no epochs) either way, and nothing else looks at those entries.
\<close>

record TemporalState =
  current_temporal_epoch :: nat
  chip_to_current_temporal_epoch :: "(nat \<times> nat) list"
  temporal_epoch_id_to_spatial_epochs :: "(nat \<times> nat list) list"
  temporal_epoch_id_to_epoch_type :: "(nat \<times> NodeEpochType) list"
  prev_epoch_type :: NodeEpochType
  temporal_info :: "(nat \<times> EpochInfo) list"

definition spatial_index :: "nat list \<Rightarrow> (nat \<times> nat) list" where
  "spatial_index chips = fold (\<lambda>i. omap_insert (chips ! i) i) [0..<length chips] []"

definition spatial_epochs :: "TemporalState \<Rightarrow> nat \<Rightarrow> nat list" where
  "spatial_epochs ts t =
     (case map_of (temporal_epoch_id_to_spatial_epochs ts) t of None \<Rightarrow> [] | Some s \<Rightarrow> s)"

definition temporal_step ::
    "PlacerConfig \<Rightarrow> (nat \<times> OpPlacement list) list \<Rightarrow> (nat \<times> NodeEpochType) list \<Rightarrow> nat \<times> nat \<Rightarrow>
     TemporalState \<Rightarrow> TemporalState res" where
  "temporal_step cfg epoch_ops types ec ts =
     (let (epoch_id, chip) = ec;
          t1 = (case map_of (chip_to_current_temporal_epoch ts) chip of
                  None \<Rightarrow> current_temporal_epoch ts
                | Some last_recorded \<Rightarrow> max (current_temporal_epoch ts) (last_recorded + 1));
          ty = (case map_of types epoch_id of None \<Rightarrow> Forward | Some ty \<Rightarrow> ty) in
      res_bind (at_key epoch_ops epoch_id) (\<lambda>ps.
      let requested = ((\<exists>p \<in> set ps. placement_name p \<in> set (ops_tagged_for_temporal_epoch_break cfg)) \<or>
                       ty \<noteq> prev_epoch_type ts);
          t2 = (if requested \<and> length (spatial_epochs ts t1) > 0 then t1 + 1 else t1) in
      res_bind (at_key (spatial_index (chip_ids cfg)) chip) (\<lambda>spatial.
        Inr (ts\<lparr>current_temporal_epoch := t2,
                prev_epoch_type := ty,
                chip_to_current_temporal_epoch := omap_insert chip t2 (chip_to_current_temporal_epoch ts),
                temporal_epoch_id_to_spatial_epochs :=
                  omap_insert t2 (List.insert spatial (spatial_epochs ts t2)) (temporal_epoch_id_to_spatial_epochs ts),
                temporal_epoch_id_to_epoch_type := omap_insert t2 ty (temporal_epoch_id_to_epoch_type ts),
                temporal_info := AList.update epoch_id
                  \<lparr>info_global_epoch_id = epoch_id, info_temporal_epoch_id = t2,
                   info_spatial_epoch_id = spatial, info_epoch_type = ty\<rparr> (temporal_info ts)\<rparr>))))"

definition add_empty_epoch ::
    "PlacerConfig \<Rightarrow> TemporalState \<Rightarrow> nat \<Rightarrow> nat \<Rightarrow> PlacerSolution \<times> nat \<Rightarrow> (PlacerSolution \<times> nat) res" where
  "add_empty_epoch cfg ts temporal spatial s =
     (let (sol, current_epoch_id) = s in
      if spatial \<in> set (spatial_epochs ts temporal) then Inr s
      else res_bind (vec_at (chip_ids cfg) spatial) (\<lambda>chip.
           res_bind (at_key (temporal_epoch_id_to_epoch_type ts) temporal) (\<lambda>ty.
             Inr ((register_epoch current_epoch_id chip
                    \<lparr>info_global_epoch_id = current_epoch_id, info_temporal_epoch_id = temporal,
                     info_spatial_epoch_id = spatial, info_epoch_type = ty\<rparr> sol)
                   \<lparr>epoch_id_to_op_placement :=
                      AList.update current_epoch_id [] (epoch_id_to_op_placement sol),
                    sol_device_grids := put_grid current_epoch_id [] (sol_device_grids sol)\<rparr>,
                  add32 current_epoch_id 1))))"

definition add_empty_epochs ::
    "PlacerConfig \<Rightarrow> TemporalState \<Rightarrow> PlacerSolution \<times> nat \<Rightarrow> (PlacerSolution \<times> nat) res" where
  "add_empty_epochs cfg ts =
     fold_res (\<lambda>temporal. fold_res (add_empty_epoch cfg ts temporal) [0..<length (chip_ids cfg)])
       [0..<length (temporal_epoch_id_to_epoch_type ts)]"

definition wormhole_placer :: "Env \<Rightarrow> PlacerConfig \<Rightarrow> string list \<Rightarrow> nat \<Rightarrow> (PlacerSolution \<times> nat) comp" where
  "wormhole_placer env cfg scheduled_ops counter =
     comp_bind (Some (generate_wormhole_placer_workload cfg scheduled_ops counter)) (\<lambda>(w, counter').
     comp_bind (Some (apply_chip_placement_policy (device_config cfg) (chip_placement_policy cfg) (chip_ids cfg))) (\<lambda>chips.
     comp_bind (fold_comp (deal_epoch_type env cfg w chips) [Forward, Backward, Optimizer]
        (\<lparr>wh_solution = empty_solution cfg, wh_epoch_id_to_type = [], wh_chip_solution = empty_solution cfg,
          wh_cursor = \<lparr>cur_placing_forward = True, cur_chip_index = 0, cur_temporal_epoch_id = 0,
                       cur_spatial_epoch_id = 0\<rparr>,
          wh_num_epochs_placed_on_chip = 0\<rparr>, 0)) (\<lambda>(s, current_epoch_id).
     let sol = wh_solution s in
     comp_bind (Some (fold_res (temporal_step cfg (epoch_id_to_op_placement sol) (wh_epoch_id_to_type s))
        (epoch_id_to_chip sol)
        \<lparr>current_temporal_epoch = 0, chip_to_current_temporal_epoch = [],
         temporal_epoch_id_to_spatial_epochs = [], temporal_epoch_id_to_epoch_type = [],
         prev_epoch_type = Forward, temporal_info = epoch_id_to_epoch_info sol\<rparr>)) (\<lambda>ts.
     comp_bind (Some (add_empty_epochs cfg ts
        (sol\<lparr>epoch_id_to_epoch_info := temporal_info ts\<rparr>, current_epoch_id))) (\<lambda>(sol', total).
       Some (Inr (sol'\<lparr>num_epochs := total, is_pipelined := (ops_tagged_for_chip_id_break cfg \<noteq> [])\<rparr>,
                  counter')))))))"

section \<open>Galaxy\<close>

text \<open>
  The five groups of ops and whether their chips ascend. The code sets \<open>is_recompute_op\<close> to false
  for every op, so the group of the recompute ops stays empty.
\<close>

datatype Megagroup = Fwd | Rcmp | Bwd | Grad | Opt

definition megagroup_of :: "Env \<Rightarrow> PlacerConfig \<Rightarrow> string \<Rightarrow> Megagroup res" where
  "megagroup_of env cfg op =
     (let split_grad = \<not> PYBUDA_GALAXY_PLACER_COMBINE_GRAD env;
          split_recompute = \<not> PYBUDA_GALAXY_PLACER_COMBINE_RECOMPUTE env in
      res_bind (at_key (op_to_epoch_type cfg) op) (\<lambda>ty.
      res_bind (at_key (op_to_grad_op cfg) op) (\<lambda>is_gradient_op.
      let is_recompute_op = False in
      Inr (if ty = Forward then Fwd
           else if ty = Optimizer then Opt
           else if split_recompute \<and> is_recompute_op then Rcmp
           else if split_grad \<and> is_gradient_op then Grad
           else Bwd))))"

definition op_megagroups :: "Env \<Rightarrow> PlacerConfig \<Rightarrow> string list \<Rightarrow> (Megagroup \<times> string) list res" where
  "op_megagroups env cfg ops =
     map_res (\<lambda>op. res_bind (megagroup_of env cfg op) (\<lambda>g. Inr (g, op))) ops"

record GalaxyState =
  gx_solution :: PlacerSolution
  gx_chip_solution :: PlacerSolution
  gx_chip_index :: nat
  gx_temporal_epoch_id :: nat
  gx_spatial_epoch_id :: nat

definition galaxy_advance :: "nat list \<Rightarrow> bool \<Rightarrow> GalaxyState \<Rightarrow> GalaxyState" where
  "galaxy_advance chips chip_direction s =
     (let i = gx_chip_index s;
          stay = s\<lparr>gx_spatial_epoch_id := add32 (gx_spatial_epoch_id s) 1\<rparr>;
          wrapped = s\<lparr>gx_spatial_epoch_id := 0,
                      gx_temporal_epoch_id := add32 (gx_temporal_epoch_id s) 1\<rparr> in
      if chip_direction
      then if add32 i 1 \<ge> length chips then wrapped\<lparr>gx_chip_index := 0\<rparr>
           else stay\<lparr>gx_chip_index := add32 i 1\<rparr>
      else if i = 0 then wrapped\<lparr>gx_chip_index := sub64 (length chips) 1 mod 2 ^ 32\<rparr>
           else stay\<lparr>gx_chip_index := sub32 i 1\<rparr>)"

definition galaxy_epoch ::
    "PlacerConfig \<Rightarrow> NodeEpochType \<Rightarrow> bool \<Rightarrow> nat \<Rightarrow> nat \<Rightarrow> GalaxyState \<Rightarrow> GalaxyState res" where
  "galaxy_epoch cfg epoch_type chip_direction current_epoch_id epoch s =
     res_bind (vec_idx (chip_ids cfg) (gx_chip_index s)) (\<lambda>chip.
     res_bind (at_key (epoch_id_to_op_placement (gx_chip_solution s)) epoch) (\<lambda>ps.
       let chip_solution = (gx_chip_solution s)\<lparr>epoch_id_to_op_placement :=
             AList.update epoch (map (\<lambda>p. p\<lparr>placement_chip_id := chip\<rparr>) ps)
               (epoch_id_to_op_placement (gx_chip_solution s))\<rparr>;
           sol = insert_solution chip_solution (gx_solution s);
           sol1 = fold (\<lambda>p. set_op_chip chip (placement_name p)) ps sol;
           sol2 = register_epoch epoch chip
             \<lparr>info_global_epoch_id = epoch, info_temporal_epoch_id = gx_temporal_epoch_id s,
              info_spatial_epoch_id = gx_spatial_epoch_id s mod length (chip_ids cfg),
              info_epoch_type = epoch_type\<rparr> sol1;
           s1 = s\<lparr>gx_solution := sol2, gx_chip_solution := chip_solution\<rparr> in
       Inr (if epoch < sub32 current_epoch_id 1 then galaxy_advance (chip_ids cfg) chip_direction s1 else s1)))"

definition galaxy_group ::
    "Env \<Rightarrow> PlacerConfig \<Rightarrow> (Megagroup \<times> string) list \<Rightarrow> Megagroup \<Rightarrow> (PlacerSolution \<times> nat \<times> nat) \<times> nat \<Rightarrow>
     ((PlacerSolution \<times> nat \<times> nat) \<times> nat) comp" where
  "galaxy_group env cfg ops ty s =
     (let ((sol, current_epoch_id, temporal), counter) = s;
          own = map snd (filter (\<lambda>p. fst p = ty) ops) in
      if own = [] then Some (Inr s)
      else let chip_direction = (ty = Fwd \<or> ty = Rcmp);
               epoch_type = (if ty = Fwd then Forward else if ty = Opt then Optimizer else Backward) in
        comp_bind (Some (generate_simple_placer_workload cfg own counter)) (\<lambda>(w, counter').
        comp_bind (place_onto_chip env cfg w current_epoch_id None) (\<lambda>chip_solution.
        let next_epoch_id = add32 current_epoch_id (num_epochs chip_solution) in
        comp_bind (Some (fold_res (galaxy_epoch cfg epoch_type chip_direction next_epoch_id)
            [current_epoch_id..<next_epoch_id]
            \<lparr>gx_solution = sol, gx_chip_solution = chip_solution,
             gx_chip_index = (if chip_direction then 0 else sub64 (length (chip_ids cfg)) 1 mod 2 ^ 32),
             gx_temporal_epoch_id = temporal, gx_spatial_epoch_id = 0\<rparr>)) (\<lambda>s1.
          Some (Inr ((gx_solution s1, next_epoch_id, add32 (gx_temporal_epoch_id s1) 1), counter'))))))"

definition galaxy_placer :: "Env \<Rightarrow> PlacerConfig \<Rightarrow> string list \<Rightarrow> nat \<Rightarrow> (PlacerSolution \<times> nat) comp" where
  "galaxy_placer env cfg scheduled_ops counter =
     comp_bind (Some (op_megagroups env cfg scheduled_ops)) (\<lambda>ops.
     comp_bind (fold_comp (galaxy_group env cfg ops) [Fwd, Rcmp, Bwd, Grad, Opt]
        ((empty_solution cfg, 0, 0), counter)) (\<lambda>((sol, current_epoch_id, _), counter').
       Some (Inr (sol\<lparr>num_epochs := current_epoch_id, is_pipelined := False\<rparr>, counter'))))"

section \<open>The placer\<close>

definition placer :: "Env \<Rightarrow> PlacerConfig \<Rightarrow> string list \<Rightarrow> nat \<Rightarrow> (PlacerSolution \<times> nat) comp" where
  "placer env cfg scheduled_ops counter =
     comp_bind (Some (validate_placer_config cfg)) (\<lambda>_.
       if PYBUDA_GALAXY_PLACER env then galaxy_placer env cfg scheduled_ops counter
       else if is_grayskull (device_config cfg) then grayskull_placer env cfg scheduled_ops counter
       else comp_bind (Some (tt_assert (is_wormhole_b0 (device_config cfg)))) (\<lambda>_.
              wormhole_placer env cfg scheduled_ops counter))"

end
