(* ===== verification/Deal_Facts.thy ===== *)
theory Deal_Facts
  imports Arch_Placers
begin

text \<open>
  How the wormhole placer deals the epochs out to the chips: the cursor visits every chip within
  the attempts of the loop, so an epoch that some chip accepts is never given up, and it only goes
  to a chip that accepts it.
\<close>

section \<open>The cursor visits every chip\<close>

abbreviation moves :: "Env \<Rightarrow> nat list \<Rightarrow> bool \<Rightarrow> nat \<Rightarrow> Cursor \<Rightarrow> Cursor" where
  "moves env chips fwd k cur \<equiv> (advance_epoch env chips fwd ^^ k) cur"

definition cursor_ok :: "nat list \<Rightarrow> Cursor \<Rightarrow> bool" where
  "cursor_ok chips cur \<longleftrightarrow> cur_chip_index cur < length chips \<and> length chips < 2 ^ 32"

lemma sub64_size: "0 < n \<Longrightarrow> n < 2 ^ 32 \<Longrightarrow> sub64 n (Suc 0) = n - 1"
  by (simp add: sub64_exact)

lemma advance_straight:
  assumes "cursor_ok chips cur" "\<not> PYBUDA_PLACER_SNAKE env"
  shows "cur_chip_index (advance_epoch env chips True cur) = Suc (cur_chip_index cur) mod length chips"
    and "cur_chip_index (advance_epoch env chips False cur) = (cur_chip_index cur + (length chips - 1)) mod length chips"
proof -
  let ?i = "cur_chip_index cur" and ?n = "length chips"
  have n: "?i < ?n" "?n < 2 ^ 32" "0 < ?n" using assms(1) by (auto simp: cursor_ok_def)
  have up: "add32 ?i 1 = Suc ?i" using n by (simp add: u32_simps)
  have "Suc ?i mod ?n = (if Suc ?i \<ge> ?n then 0 else Suc ?i)"
  proof (cases "Suc ?i = ?n")
    case False
    then show ?thesis using n by simp
  qed simp
  then show "cur_chip_index (advance_epoch env chips True cur) = Suc ?i mod ?n"
    using assms(2) up by (simp add: advance_epoch_def Let_def)
  have "(?i + (?n - 1)) mod ?n = (if ?i = 0 then ?n - 1 else ?i - 1)"
  proof (cases "?i = 0")
    case False
    then have "?i + (?n - 1) = ?i - 1 + ?n" using n by simp
    then show ?thesis using n False by (simp only: mod_add_self2) simp
  qed (use n in simp)
  then show "cur_chip_index (advance_epoch env chips False cur) = (?i + (?n - 1)) mod ?n"
    using assms(2) n by (auto simp: advance_epoch_def Let_def sub64_exact sub32_exact)
qed

lemma advance_snake:
  assumes "cursor_ok chips cur" "PYBUDA_PLACER_SNAKE env"
  shows "cur_placing_forward cur \<Longrightarrow> Suc (cur_chip_index cur) < length chips \<Longrightarrow>
      cur_chip_index (advance_epoch env chips fwd cur) = Suc (cur_chip_index cur) \<and>
      cur_placing_forward (advance_epoch env chips fwd cur)"
    and "cur_placing_forward cur \<Longrightarrow> Suc (cur_chip_index cur) = length chips \<Longrightarrow>
      cur_chip_index (advance_epoch env chips fwd cur) = cur_chip_index cur \<and>
      \<not> cur_placing_forward (advance_epoch env chips fwd cur)"
    and "\<not> cur_placing_forward cur \<Longrightarrow> 0 < cur_chip_index cur \<Longrightarrow>
      cur_chip_index (advance_epoch env chips fwd cur) = cur_chip_index cur - 1 \<and>
      \<not> cur_placing_forward (advance_epoch env chips fwd cur)"
    and "\<not> cur_placing_forward cur \<Longrightarrow> cur_chip_index cur = 0 \<Longrightarrow>
      cur_chip_index (advance_epoch env chips fwd cur) = 0 \<and>
      cur_placing_forward (advance_epoch env chips fwd cur)"
proof -
  have "cur_chip_index cur < length chips" "length chips < 2 ^ 32" "sub64 (length chips) (Suc 0) = length chips - 1"
    using assms(1) sub64_size [of "length chips"] by (cases chips; auto simp: cursor_ok_def)+
  with assms(2) show "cur_placing_forward cur \<Longrightarrow> Suc (cur_chip_index cur) < length chips \<Longrightarrow>
      cur_chip_index (advance_epoch env chips fwd cur) = Suc (cur_chip_index cur) \<and>
      cur_placing_forward (advance_epoch env chips fwd cur)"
    "cur_placing_forward cur \<Longrightarrow> Suc (cur_chip_index cur) = length chips \<Longrightarrow>
      cur_chip_index (advance_epoch env chips fwd cur) = cur_chip_index cur \<and>
      \<not> cur_placing_forward (advance_epoch env chips fwd cur)"
    "\<not> cur_placing_forward cur \<Longrightarrow> 0 < cur_chip_index cur \<Longrightarrow>
      cur_chip_index (advance_epoch env chips fwd cur) = cur_chip_index cur - 1 \<and>
      \<not> cur_placing_forward (advance_epoch env chips fwd cur)"
    "\<not> cur_placing_forward cur \<Longrightarrow> cur_chip_index cur = 0 \<Longrightarrow>
      cur_chip_index (advance_epoch env chips fwd cur) = 0 \<and>
      cur_placing_forward (advance_epoch env chips fwd cur)"
    by (auto simp: advance_epoch_def Let_def add32_exact sub32_exact)
qed

lemma advance_cursor_ok:
  assumes "cursor_ok chips cur"
  shows "cursor_ok chips (advance_epoch env chips fwd cur)"
proof -
  have n: "cur_chip_index cur < length chips" "length chips < 2 ^ 32" "0 < length chips"
    using assms by (auto simp: cursor_ok_def)
  have "cur_chip_index (advance_epoch env chips fwd cur) < length chips"
  proof (cases "PYBUDA_PLACER_SNAKE env")
    case True
    then show ?thesis
      using advance_snake [OF assms True, of fwd] n
      by (cases "cur_placing_forward cur"; cases "cur_chip_index cur = 0";
          cases "Suc (cur_chip_index cur) < length chips") auto
  next
    case False
    then show ?thesis using advance_straight [OF assms False] n by (cases fwd) (simp_all del: One_nat_def)
  qed
  with n show ?thesis by (simp add: cursor_ok_def)
qed

lemma moves_cursor_ok: "cursor_ok chips cur \<Longrightarrow> cursor_ok chips (moves env chips fwd k cur)"
  by (induction k) (simp_all add: advance_cursor_ok)

lemma moves_straight:
  assumes "cursor_ok chips cur" "\<not> PYBUDA_PLACER_SNAKE env"
  shows "cur_chip_index (moves env chips fwd k cur) =
     (cur_chip_index cur + k * (if fwd then 1 else length chips - 1)) mod length chips"
proof (induction k)
  case 0
  then show ?case using assms(1) by (simp add: cursor_ok_def)
next
  case (Suc k)
  note ok = moves_cursor_ok [OF assms(1), where env = env and fwd = fwd and k = "k"]
  show ?case
    using advance_straight [OF ok assms(2)] Suc
    by (cases fwd) (simp_all add: mod_simps add.commute add.left_commute add.assoc)
qed

lemma moves_snake_up:
  assumes "cursor_ok chips cur" "PYBUDA_PLACER_SNAKE env" "cur_placing_forward cur"
    and "cur_chip_index cur + k < length chips"
  shows "cur_chip_index (moves env chips fwd k cur) = cur_chip_index cur + k \<and>
     cur_placing_forward (moves env chips fwd k cur)"
  using assms(4)
proof (induction k)
  case (Suc k)
  then show ?case
    using advance_snake(1) [OF moves_cursor_ok [OF assms(1), where env = env and fwd = fwd and k = "k"] assms(2), of fwd] by simp
qed (use assms(3) in simp)

lemma moves_snake_down:
  assumes "cursor_ok chips cur" "PYBUDA_PLACER_SNAKE env" "\<not> cur_placing_forward cur"
    and "k \<le> cur_chip_index cur"
  shows "cur_chip_index (moves env chips fwd k cur) = cur_chip_index cur - k \<and>
     \<not> cur_placing_forward (moves env chips fwd k cur)"
  using assms(4)
proof (induction k)
  case (Suc k)
  then show ?case
    using advance_snake(3) [OF moves_cursor_ok [OF assms(1), where env = env and fwd = fwd and k = "k"] assms(2), of fwd] by simp
qed (use assms(3) in simp)

lemma funpow_plus: "(f ^^ (m + n)) x = (f ^^ m) ((f ^^ n) x)"
  by (simp add: funpow_add)

lemma cursor_visits:
  assumes "cursor_ok chips cur" "c < length chips"
  shows "\<exists>k \<le> 2 * length chips. cur_chip_index (moves env chips fwd k cur) = c"
proof (cases "PYBUDA_PLACER_SNAKE env")
  case False
  let ?i = "cur_chip_index cur" and ?n = "length chips"
  have i: "?i < ?n" using assms(1) by (simp add: cursor_ok_def)
  show ?thesis
  proof (cases fwd)
    case True
    have "(?i + (c + ?n - ?i) * 1) mod ?n = c" using i assms(2) by simp
    then show ?thesis
      using True moves_straight [OF assms(1) False, where fwd = fwd and k = "c + ?n - ?i"] i assms(2)
      by (intro exI [of _ "c + ?n - ?i"]) auto
  next
    case bw: False
    let ?k = "?i + ?n - c"
    have "k * (n - 1) + k = k * n" if "0 < n" for k n :: nat using that by (cases n) simp_all
    then have "?i + ?k * (?n - 1) + ?k = ?i + ?k * ?n" using i by (metis add.assoc gr_implies_not_zero gr0I)
    then have "?i + ?k * (?n - 1) = ?i + ?k * ?n - ?k" by simp
    also have "\<dots> = c + (?k - 1) * ?n"
    proof -
      have "?k \<ge> 1" using i assms(2) by simp
      then have "?k * ?n = (?k - 1) * ?n + ?n" by (metis add.commute mult_Suc Suc_diff_1 less_eq_Suc_le One_nat_def)
      then show ?thesis using i assms(2) by simp
    qed
    finally have "(?i + ?k * (?n - 1)) mod ?n = c" using assms(2) by simp
    then show ?thesis
      using bw moves_straight [OF assms(1) False, where fwd = fwd and k = "?k"] i assms(2)
      by (intro exI [of _ ?k]) auto
  qed
next
  case True
  let ?i = "cur_chip_index cur" and ?n = "length chips"
  have i: "?i < ?n" using assms(1) by (simp add: cursor_ok_def)
  show ?thesis
  proof (cases "cur_placing_forward cur")
    case fwd': True
    let ?m = "?n - 1 - ?i"
    have top: "cur_chip_index (moves env chips fwd ?m cur) = ?n - 1"
      "cur_placing_forward (moves env chips fwd ?m cur)"
      using moves_snake_up [OF assms(1) True fwd', where k = "?m" and fwd = fwd] i by auto
    let ?cur = "advance_epoch env chips fwd (moves env chips fwd ?m cur)"
    have turn: "cur_chip_index ?cur = ?n - 1" "\<not> cur_placing_forward ?cur"
      using advance_snake(2) [OF moves_cursor_ok [OF assms(1), where env = env and fwd = fwd and k = "?m"] True, of fwd] top i by auto
    have ok: "cursor_ok chips ?cur" by (intro advance_cursor_ok moves_cursor_ok assms(1))
    have "cur_chip_index (moves env chips fwd (?n - 1 - c) ?cur) = c"
      using moves_snake_down [OF ok True turn(2), where k = "?n - 1 - c" and fwd = fwd] turn(1) assms(2) by simp
    moreover have "moves env chips fwd (?n - 1 - c) ?cur = moves env chips fwd (?n - 1 - c + Suc ?m) cur"
      by (simp only: funpow_plus funpow.simps comp_apply)
    ultimately show ?thesis using i assms(2) by (intro exI [of _ "?n - 1 - c + Suc ?m"]) auto
  next
    case down: False
    have bot: "cur_chip_index (moves env chips fwd ?i cur) = 0"
      "\<not> cur_placing_forward (moves env chips fwd ?i cur)"
      using moves_snake_down [OF assms(1) True down, where k = "?i" and fwd = fwd] by auto
    let ?cur = "advance_epoch env chips fwd (moves env chips fwd ?i cur)"
    have turn: "cur_chip_index ?cur = 0" "cur_placing_forward ?cur"
      using advance_snake(4) [OF moves_cursor_ok [OF assms(1), where env = env and fwd = fwd and k = "?i"] True, of fwd] bot by auto
    have ok: "cursor_ok chips ?cur" by (intro advance_cursor_ok moves_cursor_ok assms(1))
    have "cur_chip_index (moves env chips fwd c ?cur) = c"
      using moves_snake_up [OF ok True turn(2), where k = "c" and fwd = fwd] turn(1) assms(2) by simp
    moreover have "moves env chips fwd c ?cur = moves env chips fwd (c + Suc ?i) cur"
      by (simp only: funpow_plus funpow.simps comp_apply)
    ultimately show ?thesis using i assms(2) by (intro exI [of _ "c + Suc ?i"]) auto
  qed
qed

section \<open>The attempts\<close>

definition accepts :: "Env \<Rightarrow> PlacerConfig \<Rightarrow> nat \<Rightarrow> OpPlacement list \<Rightarrow> bool" where
  "accepts env cfg chip ps \<longleftrightarrow> (\<forall>p \<in> set ps. placement_allows env cfg chip p)"

lemma can_place_epoch_eq:
  assumes "chips_with_mmio (device_config cfg) \<noteq> []" "map_of (epoch_id_to_op_placement sol) epoch = Some ps"
  shows "can_place_epoch_onto_chip env cfg sol epoch chip = Inr (accepts env cfg chip ps)"
  using assms all_res_pure [of ps "\<lambda>p. Inr (placement_allows env cfg chip p)" "placement_allows env cfg chip"]
  by (simp add: can_place_epoch_onto_chip_def accepts_def)

definition failed_attempt :: "Env \<Rightarrow> nat list \<Rightarrow> bool \<Rightarrow> WormholeState \<Rightarrow> WormholeState" where
  "failed_attempt env chips fwd s =
     s\<lparr>wh_cursor := advance_epoch env chips fwd (wh_cursor s),
       wh_num_epochs_placed_on_chip :=
         (if PYBUDA_WORMHOLE_PIPELINED_PLACER env then 0 else wh_num_epochs_placed_on_chip s)\<rparr>"

lemma advance_failed: "advance_after_attempt env chips fwd False s = failed_attempt env chips fwd s"
  by (simp add: advance_after_attempt_def failed_attempt_def)

lemma failed_attempt_simps [simp]:
  "wh_solution (failed_attempt env chips fwd s) = wh_solution s"
  "wh_chip_solution (failed_attempt env chips fwd s) = wh_chip_solution s"
  "wh_epoch_id_to_type (failed_attempt env chips fwd s) = wh_epoch_id_to_type s"
  "wh_cursor (failed_attempt env chips fwd s) = advance_epoch env chips fwd (wh_cursor s)"
  by (simp_all add: failed_attempt_def)

lemma advance_after_simps [simp]:
  "wh_solution (advance_after_attempt env chips fwd v s) = wh_solution s"
  "wh_chip_solution (advance_after_attempt env chips fwd v s) = wh_chip_solution s"
  "wh_epoch_id_to_type (advance_after_attempt env chips fwd v s) = wh_epoch_id_to_type s"
  by (simp_all add: advance_after_attempt_def)

lemma advance_after_cursor:
  "cursor_ok chips (wh_cursor s) \<Longrightarrow> cursor_ok chips (wh_cursor (advance_after_attempt env chips fwd v s))"
  by (simp add: advance_after_attempt_def advance_cursor_ok)

lemma attempt_eq:
  assumes "cursor_ok chips (wh_cursor s)" "chips_with_mmio (device_config cfg) \<noteq> []"
    and "map_of (epoch_id_to_op_placement (wh_chip_solution s)) epoch = Some ps"
  shows "attempt env cfg ty chips fwd epoch s =
     (let chip = chips ! cur_chip_index (wh_cursor s) in
      if accepts env cfg chip ps
      then res_bind (assign_epoch ty chips epoch chip s) (\<lambda>s1. Inr (True, advance_after_attempt env chips fwd True s1))
      else Inr (False, failed_attempt env chips fwd s))"
proof -
  have "vec_idx chips (cur_chip_index (wh_cursor s)) = Inr (chips ! cur_chip_index (wh_cursor s))"
    using assms(1) by (simp add: cursor_ok_def)
  then show ?thesis
    by (cases "accepts env cfg (chips ! cur_chip_index (wh_cursor s)) ps")
       (simp_all add: attempt_def can_place_epoch_eq [OF assms(2,3)] advance_failed)
qed

text \<open>Whatever the attempts before it did, the first accepting chip gets the epoch.\<close>

lemma attempt_loop_finds:
  assumes "cursor_ok chips (wh_cursor s)" "chips_with_mmio (device_config cfg) \<noteq> []"
    and "map_of (epoch_id_to_op_placement (wh_chip_solution s)) epoch = Some ps"
    and "accepts env cfg (chips ! cur_chip_index (moves env chips fwd k (wh_cursor s))) ps" "k < n"
  shows "\<exists>t chip. chip \<in> set chips \<and> accepts env cfg chip ps \<and> cursor_ok chips (wh_cursor t) \<and>
     wh_solution t = wh_solution s \<and> wh_chip_solution t = wh_chip_solution s \<and>
     wh_epoch_id_to_type t = wh_epoch_id_to_type s \<and>
     attempt_loop env cfg ty chips fwd epoch n s =
       res_bind (assign_epoch ty chips epoch chip t) (\<lambda>s1. Inr (True, advance_after_attempt env chips fwd True s1))"
  using assms(1,3,4,5)
proof (induction k arbitrary: s n)
  case (0 s n)
  then obtain n' where n: "n = Suc n'" by (cases n) auto
  let ?chip = "chips ! cur_chip_index (wh_cursor s)"
  have "attempt_loop env cfg ty chips fwd epoch n s =
      res_bind (assign_epoch ty chips epoch ?chip s) (\<lambda>s1. Inr (True, advance_after_attempt env chips fwd True s1))"
    using 0 n attempt_eq [OF 0(1) assms(2) 0(2), of env ty fwd] by (simp add: res_bind_assoc Let_def)
  moreover have "?chip \<in> set chips" using 0(1) by (simp add: cursor_ok_def)
  ultimately show ?case using 0 by (intro exI [of _ s] exI [of _ ?chip]) simp
next
  case (Suc k s n)
  then obtain n' where n: "n = Suc n'" by (cases n) auto
  let ?chip = "chips ! cur_chip_index (wh_cursor s)"
  show ?case
  proof (cases "accepts env cfg ?chip ps")
    case True
    have "attempt_loop env cfg ty chips fwd epoch n s =
        res_bind (assign_epoch ty chips epoch ?chip s) (\<lambda>s1. Inr (True, advance_after_attempt env chips fwd True s1))"
      using True n attempt_eq [OF Suc.prems(1) assms(2) Suc.prems(2), of env ty fwd] by (simp add: res_bind_assoc Let_def)
    moreover have "?chip \<in> set chips" using Suc.prems(1) by (simp add: cursor_ok_def)
    ultimately show ?thesis using True Suc.prems by (intro exI [of _ s] exI [of _ ?chip]) simp
  next
    case False
    let ?s = "failed_attempt env chips fwd s"
    have "attempt_loop env cfg ty chips fwd epoch n s = attempt_loop env cfg ty chips fwd epoch n' ?s"
      using False n attempt_eq [OF Suc.prems(1) assms(2) Suc.prems(2), of env ty fwd] by (simp add: Let_def)
    moreover have "moves env chips fwd (Suc k) (wh_cursor s) = moves env chips fwd k (wh_cursor ?s)"
      by (simp add: funpow_swap1)
    ultimately show ?thesis
      using Suc.IH [of ?s n'] Suc.prems n by (simp add: advance_cursor_ok)
  qed
qed

lemma attempt_loop_gives_up:
  assumes "cursor_ok chips (wh_cursor s)" "chips_with_mmio (device_config cfg) \<noteq> []"
    and "map_of (epoch_id_to_op_placement (wh_chip_solution s)) epoch = Some ps"
    and "\<forall>chip \<in> set chips. \<not> accepts env cfg chip ps"
  shows "\<exists>t. attempt_loop env cfg ty chips fwd epoch n s = Inr (False, t) \<and> wh_solution t = wh_solution s"
  using assms(1,3)
proof (induction n arbitrary: s)
  case (Suc n)
  have "chips ! cur_chip_index (wh_cursor s) \<in> set chips" using Suc.prems(1) by (simp add: cursor_ok_def)
  with assms(4) have no: "\<not> accepts env cfg (chips ! cur_chip_index (wh_cursor s)) ps" by blast
  have "attempt env cfg ty chips fwd epoch s = Inr (False, failed_attempt env chips fwd s)"
    unfolding attempt_eq [OF Suc.prems(1) assms(2) Suc.prems(2)] Let_def using no by (simp only: if_False)
  then show ?case using Suc.IH [of "failed_attempt env chips fwd s"] Suc.prems by (simp add: advance_cursor_ok)
qed simp

lemma accepting_chip_found:
  assumes "cursor_ok chips (wh_cursor s)" "chips_with_mmio (device_config cfg) \<noteq> []"
    and "map_of (epoch_id_to_op_placement (wh_chip_solution s)) epoch = Some ps"
    and "\<exists>chip \<in> set chips. accepts env cfg chip ps"
  shows "\<exists>t chip. chip \<in> set chips \<and> accepts env cfg chip ps \<and> cursor_ok chips (wh_cursor t) \<and>
     wh_solution t = wh_solution s \<and> wh_chip_solution t = wh_chip_solution s \<and>
     wh_epoch_id_to_type t = wh_epoch_id_to_type s \<and>
     attempt_loop env cfg ty chips fwd epoch (2 * length chips + 1) s =
       res_bind (assign_epoch ty chips epoch chip t) (\<lambda>s1. Inr (True, advance_after_attempt env chips fwd True s1))"
proof -
  from assms(4) obtain c where c: "c < length chips" "accepts env cfg (chips ! c) ps"
    by (metis in_set_conv_nth)
  from cursor_visits [OF assms(1) c(1), of env fwd] obtain k where
    "k \<le> 2 * length chips" "cur_chip_index (moves env chips fwd k (wh_cursor s)) = c" by blast
  then show ?thesis using attempt_loop_finds [OF assms(1-3), where env = env and fwd = fwd and k = k and n = "2 * length chips + 1" and ty = ty] c(2) by simp
qed

section \<open>What dealing an epoch changes\<close>

text \<open>
  Dealing changes the chip of placements only. \<open>erase\<close> forgets the chip, so the erased maps stay
  the same; that also hides the stale chips the code leaves in \<open>epoch_id_to_op_placement\<close>.
\<close>

definition erase :: "OpPlacement \<Rightarrow> OpPlacement" where
  "erase p = p\<lparr>placement_chip_id := 0\<rparr>"

definition erase_names :: "(string \<times> OpPlacement) list \<Rightarrow> (string \<times> OpPlacement) list" where
  "erase_names m = map (\<lambda>(n, p). (n, erase p)) m"

definition erase_epochs :: "(nat \<times> OpPlacement list) list \<Rightarrow> (nat \<times> OpPlacement list) list" where
  "erase_epochs m = map (\<lambda>(k, ps). (k, map erase ps)) m"

lemma erase_simps [simp]:
  "placement_name (erase p) = placement_name p" "global_epoch_id (erase p) = global_epoch_id p"
  "placed_cores (erase p) = placed_cores p" "grid_transpose (erase p) = grid_transpose p"
  "placement_id (erase p) = placement_id p"
  "erase (p\<lparr>placement_chip_id := c\<rparr>) = erase p"
  by (simp_all add: erase_def)

lemma keys_erase [simp]:
  "map fst (erase_names m) = map fst m" "map fst (erase_epochs e) = map fst e"
  by (simp_all add: erase_names_def erase_epochs_def case_prod_beta comp_def)

lemma erase_append [simp]:
  "erase_names (m @ m') = erase_names m @ erase_names m'"
  "erase_epochs (e @ e') = erase_epochs e @ erase_epochs e'"
  by (simp_all add: erase_names_def erase_epochs_def)

lemma map_of_erase:
  "map_of (erase_names m) n = map_option erase (map_of m n)"
  "map_of (erase_epochs e) k = map_option (map erase) (map_of e k)"
  by (simp_all add: erase_names_def erase_epochs_def map_of_map)

lemma erase_epochs_update:
  "map_of m k = Some ps \<Longrightarrow> map erase qs = map erase ps \<Longrightarrow> erase_epochs (AList.update k qs m) = erase_epochs m"
  by (induction m) (auto simp: erase_epochs_def)

lemma erase_names_update:
  "map_of m n = Some p \<Longrightarrow> erase q = erase p \<Longrightarrow> erase_names (AList.update n q m) = erase_names m"
  by (induction m) (auto simp: erase_names_def)

lemma set_op_chips:
  assumes "\<forall>p \<in> set ps. map_of (name_to_op_placement sol) (placement_name p) \<noteq> None"
  shows "erase_names (name_to_op_placement (fold (\<lambda>p. set_op_chip chip (placement_name p)) ps sol)) =
       erase_names (name_to_op_placement sol) \<and>
     (\<forall>n. map_of (name_to_op_placement (fold (\<lambda>p. set_op_chip chip (placement_name p)) ps sol)) n =
        (if n \<in> placement_name ` set ps then map_option (\<lambda>p. p\<lparr>placement_chip_id := chip\<rparr>) (map_of (name_to_op_placement sol) n)
         else map_of (name_to_op_placement sol) n)) \<and>
     epoch_id_to_op_placement (fold (\<lambda>p. set_op_chip chip (placement_name p)) ps sol) = epoch_id_to_op_placement sol \<and>
     epoch_id_to_chip (fold (\<lambda>p. set_op_chip chip (placement_name p)) ps sol) = epoch_id_to_chip sol"
  using assms
proof (induction ps arbitrary: sol)
  case (Cons p ps)
  from Cons.prems obtain q where q: "map_of (name_to_op_placement sol) (placement_name p) = Some q" by auto
  let ?sol = "set_op_chip chip (placement_name p) sol"
  have m: "name_to_op_placement ?sol =
      AList.update (placement_name p) (q\<lparr>placement_chip_id := chip\<rparr>) (name_to_op_placement sol)"
    using q by (simp add: set_op_chip_def)
  have rest: "epoch_id_to_op_placement ?sol = epoch_id_to_op_placement sol"
    "epoch_id_to_chip ?sol = epoch_id_to_chip sol" by (simp_all add: set_op_chip_def)
  have "\<forall>r \<in> set ps. map_of (name_to_op_placement ?sol) (placement_name r) \<noteq> None"
    using Cons.prems by (simp add: m)
  note IH = Cons.IH [OF this]
  show ?case
    using IH q erase_names_update [OF q, of "q\<lparr>placement_chip_id := chip\<rparr>"]
    by (auto simp: m rest split: option.splits)
qed simp

lemma assign_epoch_ok:
  assumes "map_of (epoch_id_to_op_placement (wh_chip_solution t)) epoch = Some ps"
  shows "\<exists>s1. assign_epoch ty chips epoch chip t = Inr s1 \<and>
     epoch_id_to_chip (wh_solution s1) =
       omap_insert epoch chip (epoch_id_to_chip (fold (\<lambda>p. set_op_chip chip (placement_name p)) ps (wh_solution t))) \<and>
     wh_epoch_id_to_type s1 = AList.update epoch ty (wh_epoch_id_to_type t) \<and> wh_cursor s1 = wh_cursor t \<and>
     erase_epochs (epoch_id_to_op_placement (wh_chip_solution s1)) =
       erase_epochs (epoch_id_to_op_placement (wh_chip_solution t)) \<and>
     epoch_id_to_op_placement (wh_solution s1) =
       map_merge (epoch_id_to_op_placement (fold (\<lambda>p. set_op_chip chip (placement_name p)) ps (wh_solution t)))
         (epoch_id_to_op_placement (wh_chip_solution s1)) \<and>
     name_to_op_placement (wh_solution s1) =
       name_to_op_placement (fold (\<lambda>p. set_op_chip chip (placement_name p)) ps (wh_solution t))"
  using assms erase_epochs_update [OF assms, of "map (\<lambda>p. p\<lparr>placement_chip_id := chip\<rparr>) ps"]
  by (simp add: assign_epoch_def register_epoch_def Let_def comp_def)

text \<open>
  C31 (termination). The loop over \<open>2 n + 1\<close> attempts decides every epoch: if some chip accepts all
  its ops, the epoch goes to an accepting chip, and the chip is recorded for the epoch and for each
  of its ops; if none does, the loop gives up and has changed no placement. This holds from every
  cursor position, for the wrap-around order, the reverse order and the snake, with and without
  pipelining; 2 n attempts visit every chip, also when the snake turns.
\<close>

theorem epoch_goes_to_an_accepting_chip:
  assumes "cur_chip_index (wh_cursor s) < length chips" "length chips < 2 ^ 32"
    and "chips_with_mmio (device_config cfg) \<noteq> []"
    and "map_of (epoch_id_to_op_placement (wh_chip_solution s)) epoch = Some ps"
    and "ordered_keys (epoch_id_to_chip (wh_solution s))"
    and "\<forall>p \<in> set ps. map_of (name_to_op_placement (wh_solution s)) (placement_name p) \<noteq> None"
  shows "if \<exists>chip \<in> set chips. \<forall>p \<in> set ps. placement_allows env cfg chip p
     then \<exists>chip \<in> set chips. \<exists>s'. (\<forall>p \<in> set ps. placement_allows env cfg chip p) \<and>
        attempt_loop env cfg ty chips fwd epoch (2 * length chips + 1) s = Inr (True, s') \<and>
        map_of (epoch_id_to_chip (wh_solution s')) epoch = Some chip \<and>
        (\<forall>p \<in> set ps. map_option placement_chip_id
           (map_of (name_to_op_placement (wh_solution s')) (placement_name p)) = Some chip)
     else \<exists>s'. attempt_loop env cfg ty chips fwd epoch (2 * length chips + 1) s = Inr (False, s') \<and>
        wh_solution s' = wh_solution s"
proof -
  have cur: "cursor_ok chips (wh_cursor s)" using assms(1,2) by (simp add: cursor_ok_def)
  show ?thesis
  proof (cases "\<exists>chip \<in> set chips. accepts env cfg chip ps")
    case True
    from accepting_chip_found [OF cur assms(3,4) True, where fwd = fwd and ty = ty] obtain t chip where
      chip: "chip \<in> set chips" "accepts env cfg chip ps" and t: "wh_solution t = wh_solution s"
      "wh_chip_solution t = wh_chip_solution s"
      and run: "attempt_loop env cfg ty chips fwd epoch (2 * length chips + 1) s =
       res_bind (assign_epoch ty chips epoch chip t) (\<lambda>s1. Inr (True, advance_after_attempt env chips fwd True s1))"
      by blast
    from assign_epoch_ok [of t epoch ps ty chips chip] assms(4) t obtain s1 where
      s1: "assign_epoch ty chips epoch chip t = Inr s1"
      "epoch_id_to_chip (wh_solution s1) = omap_insert epoch chip
         (epoch_id_to_chip (fold (\<lambda>p. set_op_chip chip (placement_name p)) ps (wh_solution s)))"
      "name_to_op_placement (wh_solution s1) =
         name_to_op_placement (fold (\<lambda>p. set_op_chip chip (placement_name p)) ps (wh_solution s))" by auto
    note names = set_op_chips [OF assms(6), of chip]
    have "map_of (epoch_id_to_chip (wh_solution s1)) epoch = Some chip"
      using s1(2) names assms(5) by simp
    moreover have "map_option placement_chip_id (map_of (name_to_op_placement (wh_solution s1)) (placement_name p)) =
        Some chip" if "p \<in> set ps" for p
      using s1(3) names assms(6) that by (auto simp: option.map_comp)
    ultimately show ?thesis
      using chip run s1(1) True unfolding accepts_def
      by (auto intro!: bexI [of _ chip] exI [of _ "advance_after_attempt env chips fwd True s1"])
  next
    case False
    then have "\<forall>chip \<in> set chips. \<not> accepts env cfg chip ps" by blast
    from attempt_loop_gives_up [OF cur assms(3,4) this, where fwd = fwd and ty = ty] False
    show ?thesis unfolding accepts_def by (simp only: if_False)
  qed
qed

text \<open>An output op whose queue is on the host: of the chips 7 and 4 only 4 has MMIO.\<close>

definition mmio_config :: PlacerConfig where
  "mmio_config = (sample_config WORMHOLE_B0 (mk_shape 1 1) [(''a'', mk_shape 1 1)] [])
     \<lparr>chip_ids := [7, 4], op_to_chip_id_assignment := [], output_ops := [''a''],
      device_config := \<lparr>arch = WORMHOLE_B0, chips_with_mmio = [4], chip_coord_to_chip_id = [], galaxy_shelves = []\<rparr>\<rparr>"

definition one_epoch_state :: WormholeState where
  "one_epoch_state =
     (let p = default_op_placement\<lparr>placement_name := ''a''\<rparr> in
      \<lparr>wh_solution = (empty_solution mmio_config)\<lparr>name_to_op_placement := [(''a'', p)]\<rparr>, wh_epoch_id_to_type = [],
       wh_chip_solution = (empty_solution mmio_config)\<lparr>epoch_id_to_op_placement := [(0, [p])]\<rparr>,
       wh_cursor = \<lparr>cur_placing_forward = True, cur_chip_index = 0, cur_temporal_epoch_id = 0, cur_spatial_epoch_id = 0\<rparr>,
       wh_num_epochs_placed_on_chip = 0\<rparr>)"

theorem epoch_goes_to_an_accepting_chip_witness:
  "\<exists>s'. attempt_loop sample_env mmio_config Forward [7, 4] True 0 5 one_epoch_state = Inr (True, s') \<and>
     map_of (epoch_id_to_chip (wh_solution s')) 0 = Some 4"
proof -
  let ?p = "default_op_placement\<lparr>placement_name := ''a''\<rparr>"
  have allows: "placement_allows sample_env mmio_config c ?p = (c = 4)" for c
    by (simp add: placement_allows_def mmio_config_def sample_config_def sample_env_def get_chip_id_override_def)
  have "if \<exists>chip \<in> set [7, 4]. \<forall>p \<in> set [?p]. placement_allows sample_env mmio_config chip p
     then \<exists>chip \<in> set [7, 4]. \<exists>s'. (\<forall>p \<in> set [?p]. placement_allows sample_env mmio_config chip p) \<and>
        attempt_loop sample_env mmio_config Forward [7, 4] True 0 (2 * length [7, 4 :: nat] + 1) one_epoch_state = Inr (True, s') \<and>
        map_of (epoch_id_to_chip (wh_solution s')) 0 = Some chip \<and>
        (\<forall>p \<in> set [?p]. map_option placement_chip_id
           (map_of (name_to_op_placement (wh_solution s')) (placement_name p)) = Some chip)
     else \<exists>s'. attempt_loop sample_env mmio_config Forward [7, 4] True 0 (2 * length [7, 4 :: nat] + 1) one_epoch_state =
        Inr (False, s') \<and> wh_solution s' = wh_solution one_epoch_state"
    by (rule epoch_goes_to_an_accepting_chip)
       (simp_all add: one_epoch_state_def Let_def empty_solution_def mmio_config_def sample_config_def)
  then show ?thesis by (simp add: allows) blast
qed

end
