(* ===== verification/Temporal_Facts.thy ===== *)
theory Temporal_Facts
  imports Arch_Placers
begin

text \<open>
  The second half of \<open>wormhole_placer\<close>: the epochs, in order, are grouped into temporal epochs, and
  the holes are filled with empty epochs. The result is a full matrix: every temporal epoch has
  exactly one epoch per chip, and all its epochs have one epoch type.
\<close>

section \<open>Positions\<close>

lemma spatial_index_spec:
  assumes "distinct chips"
  shows "ordered_keys (spatial_index chips) \<and>
     (\<forall>c i. map_of (spatial_index chips) c = Some i \<longleftrightarrow> i < length chips \<and> chips ! i = c)"
proof -
  have "ordered_keys (fold (\<lambda>i. omap_insert (chips ! i) i) [0..<n] []) \<and>
     (\<forall>c i. map_of (fold (\<lambda>i. omap_insert (chips ! i) i) [0..<n] []) c = Some i \<longleftrightarrow> i < n \<and> chips ! i = c)"
    if "n \<le> length chips" for n
    using that
  proof (induction n)
    case (Suc n)
    then have IH: "ordered_keys (fold (\<lambda>i. omap_insert (chips ! i) i) [0..<n] [])"
      "\<And>c i. map_of (fold (\<lambda>i. omap_insert (chips ! i) i) [0..<n] []) c = Some i \<longleftrightarrow> i < n \<and> chips ! i = c"
      by simp_all
    have "i < n \<Longrightarrow> chips ! i \<noteq> chips ! n" for i
      using Suc.prems assms by (simp add: nth_eq_iff_index_eq)
    then show ?case using IH by (auto simp: less_Suc_eq)
  qed simp
  from this [of "length chips"] show ?thesis by (simp add: spatial_index_def)
qed

text \<open>The temporal and the spatial id an epoch has been given.\<close>

definition slot :: "(nat \<times> EpochInfo) list \<Rightarrow> nat \<Rightarrow> (nat \<times> nat) option" where
  "slot infos k = map_option (\<lambda>i. (info_temporal_epoch_id i, info_spatial_epoch_id i)) (map_of infos k)"

definition used_slots :: "(nat \<times> EpochInfo) list \<Rightarrow> nat list \<Rightarrow> (nat \<times> nat) set" where
  "used_slots infos ks = {s. \<exists>k \<in> set ks. slot infos k = Some s}"

definition epoch_at :: "nat list \<Rightarrow> (nat \<times> EpochInfo) list \<Rightarrow> (nat \<times> NodeEpochType) list \<Rightarrow> nat \<Rightarrow> nat \<Rightarrow> bool" where
  "epoch_at chips infos ttypes k chip \<longleftrightarrow>
     (\<exists>t i ty. map_of infos k = Some \<lparr>info_global_epoch_id = k, info_temporal_epoch_id = t,
        info_spatial_epoch_id = i, info_epoch_type = ty\<rparr> \<and>
        i < length chips \<and> chips ! i = chip \<and> map_of ttypes t = Some ty)"

lemma epoch_at_slot:
  assumes "epoch_at chips infos ttypes k chip"
  obtains t i where "slot infos k = Some (t, i)" "i < length chips" "chips ! i = chip" "map_of ttypes t \<noteq> None"
  using assms by (auto simp: epoch_at_def slot_def)

section \<open>Grouping\<close>

text \<open>What holds after the epochs \<open>done\<close>: \<open>T\<close> is the current temporal epoch.\<close>

definition grouping ::
    "nat list \<Rightarrow> (nat \<times> NodeEpochType) list \<Rightarrow> (nat \<times> nat) list \<Rightarrow> TemporalState \<Rightarrow> bool" where
  "grouping chips types handled ts \<longleftrightarrow>
     (let T = current_temporal_epoch ts; infos = temporal_info ts; ttypes = temporal_epoch_id_to_epoch_type ts;
          lastt = chip_to_current_temporal_epoch ts in
      ordered_keys ttypes \<and> ordered_keys lastt \<and> ordered_keys (temporal_epoch_id_to_spatial_epochs ts) \<and>
      (\<forall>(k, chip) \<in> set handled. epoch_at chips infos ttypes k chip \<and>
         map_option info_epoch_type (map_of infos k) = map_of types k) \<and>
      inj_on (slot infos) (fst ` set handled) \<and>
      (\<forall>t. set (spatial_epochs ts t) = {i. (t, i) \<in> used_slots infos (map fst handled)}) \<and>
      (\<forall>(k, chip) \<in> set handled. \<forall>t i. slot infos k = Some (t, i) \<longrightarrow>
         (\<exists>l. map_of lastt chip = Some l \<and> t \<le> l)) \<and>
      (\<forall>chip l. map_of lastt chip = Some l \<longrightarrow> handled \<noteq> [] \<and> l \<le> T) \<and>
      (\<forall>t. map_of ttypes t \<noteq> None \<longleftrightarrow> handled \<noteq> [] \<and> t \<le> T) \<and>
      (\<forall>t. handled \<noteq> [] \<and> t \<le> T \<longrightarrow> spatial_epochs ts t \<noteq> []) \<and>
      (if handled = [] then T = 0 else map_of ttypes T = Some (prev_epoch_type ts)))"

lemma groupingD:
  assumes "grouping chips types handled ts"
  shows "ordered_keys (temporal_epoch_id_to_epoch_type ts)" "ordered_keys (chip_to_current_temporal_epoch ts)"
    "ordered_keys (temporal_epoch_id_to_spatial_epochs ts)"
    and "(k, chip) \<in> set handled \<Longrightarrow> epoch_at chips (temporal_info ts) (temporal_epoch_id_to_epoch_type ts) k chip"
    and "(k, chip) \<in> set handled \<Longrightarrow> map_option info_epoch_type (map_of (temporal_info ts) k) = map_of types k"
    and "inj_on (slot (temporal_info ts)) (fst ` set handled)"
    and "set (spatial_epochs ts t) = {i. (t, i) \<in> used_slots (temporal_info ts) (map fst handled)}"
    and "(k, chip) \<in> set handled \<Longrightarrow> slot (temporal_info ts) k = Some (t, i) \<Longrightarrow>
      \<exists>l. map_of (chip_to_current_temporal_epoch ts) chip = Some l \<and> t \<le> l"
    and "map_of (chip_to_current_temporal_epoch ts) chip = Some l \<Longrightarrow>
      handled \<noteq> [] \<and> l \<le> current_temporal_epoch ts"
    and "map_of (temporal_epoch_id_to_epoch_type ts) t \<noteq> None \<longleftrightarrow> handled \<noteq> [] \<and> t \<le> current_temporal_epoch ts"
    and "handled \<noteq> [] \<Longrightarrow> t \<le> current_temporal_epoch ts \<Longrightarrow> spatial_epochs ts t \<noteq> []"
    and "handled = [] \<Longrightarrow> current_temporal_epoch ts = 0"
    and "handled \<noteq> [] \<Longrightarrow>
      map_of (temporal_epoch_id_to_epoch_type ts) (current_temporal_epoch ts) = Some (prev_epoch_type ts)"
  using assms unfolding grouping_def Let_def by (auto split: if_splits)

text \<open>The slot for the next epoch is free, at most one temporal epoch ahead, and of the right type.\<close>

definition next_temporal :: "PlacerConfig \<Rightarrow> OpPlacement list \<Rightarrow> NodeEpochType \<Rightarrow> nat \<Rightarrow> TemporalState \<Rightarrow> nat" where
  "next_temporal cfg ps ty chip ts =
     (let t1 = (case map_of (chip_to_current_temporal_epoch ts) chip of
                  None \<Rightarrow> current_temporal_epoch ts
                | Some last_recorded \<Rightarrow> max (current_temporal_epoch ts) (last_recorded + 1));
          requested = ((\<exists>p \<in> set ps. placement_name p \<in> set (ops_tagged_for_temporal_epoch_break cfg)) \<or>
                       ty \<noteq> prev_epoch_type ts) in
      if requested \<and> length (spatial_epochs ts t1) > 0 then t1 + 1 else t1)"

lemma next_temporal_range:
  assumes g: "grouping chips types handled ts"
  shows "handled = [] \<Longrightarrow> next_temporal cfg ps ty chip ts = 0"
    and "handled \<noteq> [] \<Longrightarrow> next_temporal cfg ps ty chip ts = Suc (current_temporal_epoch ts) \<or>
      next_temporal cfg ps ty chip ts = current_temporal_epoch ts \<and> ty = prev_epoch_type ts \<and>
      (\<forall>l. map_of (chip_to_current_temporal_epoch ts) chip = Some l \<longrightarrow> l < current_temporal_epoch ts)"
proof -
  let ?T = "current_temporal_epoch ts"
  have beyond: "spatial_epochs ts (Suc ?T) = []"
  proof -
    have "map_of (temporal_epoch_id_to_epoch_type ts) (Suc ?T) = None" using groupingD(10) [OF g, of "Suc ?T"] by simp
    then have "(Suc ?T, i) \<notin> used_slots (temporal_info ts) (map fst handled)" for i
      using groupingD(4) [OF g] by (fastforce simp: used_slots_def elim: epoch_at_slot)
    then show ?thesis using groupingD(7) [OF g, of "Suc ?T"] by simp
  qed
  show "next_temporal cfg ps ty chip ts = 0" if "handled = []"
  proof -
    have "spatial_epochs ts 0 = []" using groupingD(7) [OF g, of 0] that by (simp add: used_slots_def)
    moreover have "map_of (chip_to_current_temporal_epoch ts) chip = None"
      using groupingD(9) [OF g, of chip] that by (cases "map_of (chip_to_current_temporal_epoch ts) chip") auto
    ultimately show ?thesis using groupingD(12) [OF g that] by (simp add: next_temporal_def Let_def)
  qed
  show "next_temporal cfg ps ty chip ts = Suc ?T \<or> next_temporal cfg ps ty chip ts = ?T \<and> ty = prev_epoch_type ts \<and>
      (\<forall>l. map_of (chip_to_current_temporal_epoch ts) chip = Some l \<longrightarrow> l < ?T)" if "handled \<noteq> []"
  proof (cases "map_of (chip_to_current_temporal_epoch ts) chip")
    case None
    then show ?thesis using groupingD(11) [OF g that, of ?T] by (auto simp: next_temporal_def Let_def)
  next
    case (Some l)
    then have "l < ?T \<or> l = ?T" using groupingD(9) [OF g Some] by auto
    then show ?thesis
    proof
      assume "l < ?T"
      then have "max ?T (l + 1) = ?T" by simp
      then show ?thesis using Some \<open>l < ?T\<close> groupingD(11) [OF g that, of ?T] by (auto simp: next_temporal_def Let_def)
    next
      assume "l = ?T"
      then have "max ?T (l + 1) = Suc ?T" by simp
      then show ?thesis using Some beyond by (simp add: next_temporal_def Let_def)
    qed
  qed
qed

text \<open>The new slot is free: the chip of an epoch in it would have to be the new chip.\<close>

lemma slot_is_free:
  assumes g: "grouping chips types handled ts" and k': "(k', chip') \<in> set handled"
    and i: "i < length chips" "chips ! i = chip"
  shows "slot (temporal_info ts) k' \<noteq> Some (next_temporal cfg ps ty chip ts, i)"
proof
  let ?t = "next_temporal cfg ps ty chip ts"
  assume eq: "slot (temporal_info ts) k' = Some (?t, i)"
  from epoch_at_slot [OF groupingD(4) [OF g k']] eq i have "chip' = chip" by auto
  with groupingD(8) [OF g k' eq] obtain l where
    l: "map_of (chip_to_current_temporal_epoch ts) chip = Some l" "?t \<le> l" by blast
  have "handled \<noteq> []" using k' by auto
  from next_temporal_range(2) [OF g this, of cfg ps ty chip] groupingD(9) [OF g l(1)] l show False by auto
qed

lemma temporal_step_eq:
  assumes "map_of epoch_ops k = Some ps" "map_of types k = Some ty"
    and "distinct (chip_ids cfg)" "i < length (chip_ids cfg)" "chip_ids cfg ! i = chip"
  shows "temporal_step cfg epoch_ops types (k, chip) ts =
     (let t = next_temporal cfg ps ty chip ts in
      Inr (ts\<lparr>current_temporal_epoch := t, prev_epoch_type := ty,
        chip_to_current_temporal_epoch := omap_insert chip t (chip_to_current_temporal_epoch ts),
        temporal_epoch_id_to_spatial_epochs :=
          omap_insert t (List.insert i (spatial_epochs ts t)) (temporal_epoch_id_to_spatial_epochs ts),
        temporal_epoch_id_to_epoch_type := omap_insert t ty (temporal_epoch_id_to_epoch_type ts),
        temporal_info := AList.update k
          \<lparr>info_global_epoch_id = k, info_temporal_epoch_id = t, info_spatial_epoch_id = i,
           info_epoch_type = ty\<rparr> (temporal_info ts)\<rparr>))"
proof -
  have "map_of (spatial_index (chip_ids cfg)) chip = Some i"
    using spatial_index_spec [OF assms(3)] assms(4,5) by blast
  then show ?thesis using assms(1,2) by (simp add: temporal_step_def next_temporal_def at_key_def Let_def)
qed

lemma slot_update:
  "slot (AList.update k v m) k' =
     (if k' = k then Some (info_temporal_epoch_id v, info_spatial_epoch_id v) else slot m k')"
  by (simp add: slot_def)

lemma spatial_epochs_insert:
  assumes "ordered_keys (temporal_epoch_id_to_spatial_epochs ts)"
    and "temporal_epoch_id_to_spatial_epochs ts' = omap_insert t s (temporal_epoch_id_to_spatial_epochs ts)"
  shows "spatial_epochs ts' u = (if u = t then s else spatial_epochs ts u)"
  using assms by (simp add: spatial_epochs_def)

lemma temporal_step_groups:
  assumes g: "grouping (chip_ids cfg) types handled ts"
    and ops: "map_of epoch_ops k = Some ps" and ty: "map_of types k = Some ty"
    and chips: "distinct (chip_ids cfg)" "chip \<in> set (chip_ids cfg)" and new: "k \<notin> fst ` set handled"
  shows "\<exists>ts'. temporal_step cfg epoch_ops types (k, chip) ts = Inr ts' \<and>
     grouping (chip_ids cfg) types (handled @ [(k, chip)]) ts'"
proof -
  from chips(2) obtain i where i: "i < length (chip_ids cfg)" "chip_ids cfg ! i = chip"
    by (auto simp: in_set_conv_nth)
  define t where "t = next_temporal cfg ps ty chip ts"
  define v where "v = \<lparr>info_global_epoch_id = k, info_temporal_epoch_id = t, info_spatial_epoch_id = i,
     info_epoch_type = ty\<rparr>"
  define ts' where "ts' = ts\<lparr>current_temporal_epoch := t, prev_epoch_type := ty,
      chip_to_current_temporal_epoch := omap_insert chip t (chip_to_current_temporal_epoch ts),
      temporal_epoch_id_to_spatial_epochs :=
        omap_insert t (List.insert i (spatial_epochs ts t)) (temporal_epoch_id_to_spatial_epochs ts),
      temporal_epoch_id_to_epoch_type := omap_insert t ty (temporal_epoch_id_to_epoch_type ts),
      temporal_info := AList.update k v (temporal_info ts)\<rparr>"
  have step: "temporal_step cfg epoch_ops types (k, chip) ts = Inr ts'"
    unfolding temporal_step_eq [OF ops ty chips(1) i] by (simp add: ts'_def v_def t_def Let_def)
  let ?T = "current_temporal_epoch ts"
  have start: "handled = [] \<Longrightarrow> t = 0" unfolding t_def by (rule next_temporal_range(1) [OF g])
  have range: "handled \<noteq> [] \<Longrightarrow> t = Suc ?T \<or> t = ?T \<and> ty = prev_epoch_type ts"
    using next_temporal_range(2) [OF g, of cfg ps ty chip] unfolding t_def by blast
  have cur_t: "current_temporal_epoch ts' = t" "prev_epoch_type ts' = ty" by (simp_all add: ts'_def)
  have old: "k' \<noteq> k" if "(k', chip') \<in> set handled" for k' chip' using new that by force
  have types_t: "map_of (temporal_epoch_id_to_epoch_type ts') u =
      (if u = t then Some ty else map_of (temporal_epoch_id_to_epoch_type ts) u)" for u
    using groupingD(1) [OF g] by (simp add: ts'_def)
  have last_t: "map_of (chip_to_current_temporal_epoch ts') c =
      (if c = chip then Some t else map_of (chip_to_current_temporal_epoch ts) c)" for c
    using groupingD(2) [OF g] by (simp add: ts'_def)
  have spatial_t: "spatial_epochs ts' u = (if u = t then List.insert i (spatial_epochs ts t) else spatial_epochs ts u)" for u
    by (rule spatial_epochs_insert [OF groupingD(3) [OF g]]) (simp add: ts'_def)
  have slot_t: "slot (temporal_info ts') k' = (if k' = k then Some (t, i) else slot (temporal_info ts) k')" for k'
    by (simp add: ts'_def slot_update v_def)
  have free: "slot (temporal_info ts) k' \<noteq> Some (t, i)" if "(k', chip') \<in> set handled" for k' chip'
    unfolding t_def by (rule slot_is_free [OF g that i])
  have kept: "map_of (temporal_epoch_id_to_epoch_type ts') u = Some y"
    if "map_of (temporal_epoch_id_to_epoch_type ts) u = Some y" for u y
  proof -
    have "handled \<noteq> []" "u \<le> ?T" using groupingD(10) [OF g, of u] that by auto
    then show ?thesis using range groupingD(13) [OF g] that by (auto simp: types_t)
  qed
  have reach: "\<exists>l. map_of (chip_to_current_temporal_epoch ts') chip' = Some l \<and> u \<le> l"
    if "(k', chip') \<in> set handled" "slot (temporal_info ts) k' = Some (u, j)" for k' chip' u j
  proof -
    from groupingD(8) [OF g that] obtain l where
      l: "map_of (chip_to_current_temporal_epoch ts) chip' = Some l" "u \<le> l" by blast
    have "handled \<noteq> []" using that(1) by auto
    then have "?T \<le> t" using range by auto
    then show ?thesis using l groupingD(9) [OF g l(1)] by (auto simp: last_t)
  qed
  have at: "epoch_at (chip_ids cfg) (temporal_info ts') (temporal_epoch_id_to_epoch_type ts') k' chip' \<and>
      map_option info_epoch_type (map_of (temporal_info ts') k') = map_of types k'"
    if "(k', chip') \<in> set (handled @ [(k, chip)])" for k' chip'
  proof (cases "(k', chip') \<in> set handled")
    case True
    then have "map_of (temporal_info ts') k' = map_of (temporal_info ts) k'" using old by (simp add: ts'_def)
    then show ?thesis
      using groupingD(4,5) [OF g True] kept unfolding epoch_at_def by fastforce
  next
    case False
    then have "k' = k" "chip' = chip" using that by auto
    then show ?thesis using i ty by (simp add: epoch_at_def ts'_def v_def types_t [unfolded ts'_def v_def, simplified])
  qed
  have used: "(u, j) \<in> used_slots (temporal_info ts') (map fst (handled @ [(k, chip)])) \<longleftrightarrow>
      (u, j) = (t, i) \<or> (u, j) \<in> used_slots (temporal_info ts) (map fst handled)" for u j
    using old by (fastforce simp: used_slots_def slot_t)
  have "grouping (chip_ids cfg) types (handled @ [(k, chip)]) ts'"
    unfolding grouping_def Let_def
  proof (intro conjI)
    show "\<forall>(k', chip') \<in> set (handled @ [(k, chip)]).
        epoch_at (chip_ids cfg) (temporal_info ts') (temporal_epoch_id_to_epoch_type ts') k' chip' \<and>
        map_option info_epoch_type (map_of (temporal_info ts') k') = map_of types k'"
      using at by blast
    have "inj_on (slot (temporal_info ts')) (fst ` set handled)"
      using groupingD(6) [OF g] old by (fastforce simp: inj_on_def slot_t)
    then show "inj_on (slot (temporal_info ts')) (fst ` set (handled @ [(k, chip)]))"
      using free old by (fastforce simp: slot_t)
    show "\<forall>u. set (spatial_epochs ts' u) = {j. (u, j) \<in> used_slots (temporal_info ts') (map fst (handled @ [(k, chip)]))}"
      using groupingD(7) [OF g] by (auto simp: used [simplified] spatial_t)
    show "\<forall>(k', chip') \<in> set (handled @ [(k, chip)]). \<forall>u j. slot (temporal_info ts') k' = Some (u, j) \<longrightarrow>
         (\<exists>l. map_of (chip_to_current_temporal_epoch ts') chip' = Some l \<and> u \<le> l)"
      using reach old by (fastforce simp: slot_t last_t)
    show "\<forall>c l. map_of (chip_to_current_temporal_epoch ts') c = Some l \<longrightarrow>
        handled @ [(k, chip)] \<noteq> [] \<and> l \<le> current_temporal_epoch ts'"
    proof (intro allI impI)
      fix c l
      assume "map_of (chip_to_current_temporal_epoch ts') c = Some l"
      then show "handled @ [(k, chip)] \<noteq> [] \<and> l \<le> current_temporal_epoch ts'"
        using groupingD(9) [OF g, of c l] range
        by (auto simp: last_t cur_t split: if_splits)
    qed
    show "\<forall>u. (map_of (temporal_epoch_id_to_epoch_type ts') u \<noteq> None) =
        (handled @ [(k, chip)] \<noteq> [] \<and> u \<le> current_temporal_epoch ts')"
    proof
      fix u
      show "(map_of (temporal_epoch_id_to_epoch_type ts') u \<noteq> None) =
          (handled @ [(k, chip)] \<noteq> [] \<and> u \<le> current_temporal_epoch ts')"
        using groupingD(10) [OF g, of u] range start by (cases "handled = []") (auto simp: types_t cur_t)
    qed
    show "\<forall>u. handled @ [(k, chip)] \<noteq> [] \<and> u \<le> current_temporal_epoch ts' \<longrightarrow> spatial_epochs ts' u \<noteq> []"
      using groupingD(11) [OF g] range start by (cases "handled = []") (auto simp: spatial_t cur_t List.insert_def)
    show "if handled @ [(k, chip)] = [] then current_temporal_epoch ts' = 0
      else map_of (temporal_epoch_id_to_epoch_type ts') (current_temporal_epoch ts') = Some (prev_epoch_type ts')"
      by (simp add: types_t cur_t)
  qed (simp_all add: ts'_def groupingD(1-3) [OF g])
  then show ?thesis using step by blast
qed

lemma temporal_fold_groups:
  assumes "grouping (chip_ids cfg) types handled ts" "distinct (chip_ids cfg)"
    and "distinct (map fst es)" "fst ` set es \<inter> fst ` set handled = {}"
    and "\<forall>(k, chip) \<in> set es. map_of epoch_ops k \<noteq> None \<and> map_of types k \<noteq> None \<and> chip \<in> set (chip_ids cfg)"
  shows "\<exists>ts'. fold_res (temporal_step cfg epoch_ops types) es ts = Inr ts' \<and>
     grouping (chip_ids cfg) types (handled @ es) ts'"
  using assms
proof (induction es arbitrary: handled ts)
  case (Cons e es)
  obtain k chip where e: "e = (k, chip)" by (cases e)
  from Cons.prems(5) e obtain ps ty where k: "map_of epoch_ops k = Some ps" "map_of types k = Some ty"
    "chip \<in> set (chip_ids cfg)" by auto
  have "k \<notin> fst ` set handled" using Cons.prems(4) e by auto
  from temporal_step_groups [OF Cons.prems(1) k(1,2) Cons.prems(2) k(3) this] obtain ts1 where
    ts1: "temporal_step cfg epoch_ops types e ts = Inr ts1"
    "grouping (chip_ids cfg) types (handled @ [e]) ts1" using e by blast
  have "fst ` set es \<inter> fst ` set (handled @ [e]) = {}" using Cons.prems(3,4) by auto
  from Cons.IH [OF ts1(2) Cons.prems(2) _ this] Cons.prems(3,5) obtain ts' where
    "fold_res (temporal_step cfg epoch_ops types) es ts1 = Inr ts'"
    "grouping (chip_ids cfg) types ((handled @ [e]) @ es) ts'" by fastforce
  with ts1(1) show ?case by simp
qed simp

definition fresh_temporal :: "(nat \<times> EpochInfo) list \<Rightarrow> TemporalState" where
  "fresh_temporal infos = \<lparr>current_temporal_epoch = 0, chip_to_current_temporal_epoch = [],
     temporal_epoch_id_to_spatial_epochs = [], temporal_epoch_id_to_epoch_type = [],
     prev_epoch_type = Forward, temporal_info = infos\<rparr>"

lemma fresh_groups: "grouping chips types [] (fresh_temporal infos)"
  by (simp add: grouping_def fresh_temporal_def spatial_epochs_def used_slots_def)

lemma keys_below_count:
  assumes "ordered_keys (m :: (nat \<times> 'v) list)" "\<forall>t. map_of m t \<noteq> None \<longleftrightarrow> t < n"
  shows "length m = n"
proof -
  have "t \<in> fst ` set m \<longleftrightarrow> t < n" for t using assms(2) map_of_eq_None_iff [of m t] by blast
  then have "fst ` set m = {..<n}" by auto
  then have "card (set (map fst m)) = n" by simp
  then show ?thesis using distinct_card [OF ordered_keys_distinct [OF assms(1)]] by simp
qed

section \<open>Filling the holes\<close>

text \<open>The epochs below \<open>c\<close> occupy the slots \<open>S\<close>, one epoch each.\<close>

definition filled ::
    "nat list \<Rightarrow> (nat \<times> NodeEpochType) list \<Rightarrow> PlacerSolution \<Rightarrow> nat \<Rightarrow> (nat \<times> nat) set \<Rightarrow> bool" where
  "filled chips ttypes sol c S \<longleftrightarrow>
     ordered_keys (epoch_id_to_chip sol) \<and>
     inj_on (slot (epoch_id_to_epoch_info sol)) {..<c} \<and>
     slot (epoch_id_to_epoch_info sol) ` {..<c} = Some ` S \<and>
     (\<forall>k < c. \<exists>chip. map_of (epoch_id_to_chip sol) k = Some chip \<and>
        epoch_at chips (epoch_id_to_epoch_info sol) ttypes k chip)"

lemma filled_count: "filled chips ttypes sol c S \<Longrightarrow> finite S \<and> card S = c"
proof -
  assume f: "filled chips ttypes sol c S"
  have "bij_betw (slot (epoch_id_to_epoch_info sol)) {..<c} (Some ` S)"
    using f by (simp add: filled_def bij_betw_def)
  then have "card (Some ` S) = c" "finite (Some ` S)"
    using bij_betw_same_card bij_betw_finite by fastforce+
  then show ?thesis by (simp add: card_image finite_image_iff)
qed

definition same_below :: "nat \<Rightarrow> PlacerSolution \<Rightarrow> PlacerSolution \<Rightarrow> bool" where
  "same_below c sol sol' \<longleftrightarrow>
     name_to_op_placement sol' = name_to_op_placement sol \<and>
     (\<forall>k < c. map_of (epoch_id_to_op_placement sol') k = map_of (epoch_id_to_op_placement sol) k \<and>
        map_of (epoch_id_to_chip sol') k = map_of (epoch_id_to_chip sol) k \<and>
        map_of (epoch_id_to_epoch_info sol') k = map_of (epoch_id_to_epoch_info sol) k)"

lemma add_empty_epoch_fills:
  assumes f: "filled (chip_ids cfg) (temporal_epoch_id_to_epoch_type ts) sol c S"
    and ty: "map_of (temporal_epoch_id_to_epoch_type ts) t \<noteq> None" and i: "i < length (chip_ids cfg)"
    and free: "i \<in> set (spatial_epochs ts t) \<longleftrightarrow> (t, i) \<in> S" and c: "Suc c < 2 ^ 32"
  shows "\<exists>sol' c'. add_empty_epoch cfg ts t i (sol, c) = Inr (sol', c') \<and> c \<le> c' \<and>
     filled (chip_ids cfg) (temporal_epoch_id_to_epoch_type ts) sol' c' (insert (t, i) S) \<and> same_below c sol sol' \<and>
     (\<forall>k. c \<le> k \<and> k < c' \<longrightarrow> map_of (epoch_id_to_op_placement sol') k = Some [])"
proof (cases "(t, i) \<in> S")
  case True
  then show ?thesis using f free by (auto simp: add_empty_epoch_def insert_absorb same_below_def)
next
  case False
  from ty obtain y where y: "map_of (temporal_epoch_id_to_epoch_type ts) t = Some y" by auto
  define v where "v = \<lparr>info_global_epoch_id = c, info_temporal_epoch_id = t, info_spatial_epoch_id = i, info_epoch_type = y\<rparr>"
  define sol' where "sol' = (register_epoch c (chip_ids cfg ! i) v sol)
     \<lparr>epoch_id_to_op_placement := AList.update c [] (epoch_id_to_op_placement sol),
      sol_device_grids := put_grid c [] (sol_device_grids sol)\<rparr>"
  have run: "add_empty_epoch cfg ts t i (sol, c) = Inr (sol', Suc c)"
    using False free i y c by (simp add: add_empty_epoch_def sol'_def v_def at_key_def add32_def)
  have fields: "ordered_keys (epoch_id_to_chip sol')"
    "map_of (epoch_id_to_chip sol') k = (if k = c then Some (chip_ids cfg ! i) else map_of (epoch_id_to_chip sol) k)"
    "slot (epoch_id_to_epoch_info sol') k = (if k = c then Some (t, i) else slot (epoch_id_to_epoch_info sol) k)"
    "map_of (epoch_id_to_epoch_info sol') k = (if k = c then Some v else map_of (epoch_id_to_epoch_info sol) k)" for k
    using f by (simp_all add: sol'_def register_epoch_def filled_def slot_update v_def)
  have old: "Some (t, i) \<notin> slot (epoch_id_to_epoch_info sol) ` {..<c}" using f False by (auto simp: filled_def)
  have img: "slot (epoch_id_to_epoch_info sol') ` {..<c} = slot (epoch_id_to_epoch_info sol) ` {..<c}"
    by (rule image_cong) (simp_all add: fields(3))
  have "inj_on (slot (epoch_id_to_epoch_info sol')) {..<c}"
    using f by (simp add: filled_def inj_on_def fields(3))
  then have inj: "inj_on (slot (epoch_id_to_epoch_info sol')) {..<Suc c}"
    using old img by (simp add: lessThan_Suc fields(3))
  have "slot (epoch_id_to_epoch_info sol') ` {..<Suc c} =
      insert (slot (epoch_id_to_epoch_info sol') c) (slot (epoch_id_to_epoch_info sol') ` {..<c})"
    by (simp only: lessThan_Suc image_insert)
  also have "\<dots> = Some ` insert (t, i) S"
    unfolding img using f by (simp add: filled_def fields(3))
  finally have "slot (epoch_id_to_epoch_info sol') ` {..<Suc c} = Some ` insert (t, i) S" .
  moreover have "\<exists>chip. map_of (epoch_id_to_chip sol') k = Some chip \<and>
      epoch_at (chip_ids cfg) (epoch_id_to_epoch_info sol') (temporal_epoch_id_to_epoch_type ts) k chip" if "k < Suc c" for k
  proof (cases "k = c")
    case True
    then show ?thesis using i y by (simp add: fields epoch_at_def v_def)
  next
    case False
    then show ?thesis using f that by (simp add: fields epoch_at_def filled_def less_Suc_eq)
  qed
  ultimately have "filled (chip_ids cfg) (temporal_epoch_id_to_epoch_type ts) sol' (Suc c) (insert (t, i) S)"
    using fields(1) inj by (simp add: filled_def)
  moreover have "same_below c sol sol'"
    using f by (simp add: same_below_def sol'_def register_epoch_def filled_def)
  moreover have "map_of (epoch_id_to_op_placement sol') c = Some []" by (simp add: sol'_def)
  ultimately show ?thesis using run by (auto simp: less_Suc_eq)
qed

lemma fold_res_map: "fold_res f (map g xs) s = fold_res (\<lambda>x. f (g x)) xs s"
  by (induction xs arbitrary: s) (auto intro: res_bind_cong)

lemma fold_res_product:
  "fold_res (\<lambda>t. fold_res (f t) is) ts s = fold_res (\<lambda>(t, i). f t i) (List.product ts is) s"
  by (induction ts arbitrary: s) (auto simp: fold_res_append fold_res_map intro: res_bind_cong)

lemma same_below_trans: "same_below c sol sol' \<Longrightarrow> same_below c' sol' sol'' \<Longrightarrow> c \<le> c' \<Longrightarrow> same_below c sol sol''"
  by (simp add: same_below_def)

lemma add_empty_epochs_fill:
  assumes "filled (chip_ids cfg) (temporal_epoch_id_to_epoch_type ts) sol c (U \<union> set seen)"
    and "\<forall>(t, i) \<in> set cells. map_of (temporal_epoch_id_to_epoch_type ts) t \<noteq> None \<and> i < length (chip_ids cfg)"
    and "\<forall>(t, i) \<in> set cells. i \<in> set (spatial_epochs ts t) \<longleftrightarrow> (t, i) \<in> U"
    and "distinct cells" "set cells \<inter> set seen = {}"
    and "finite B" "U \<union> set seen \<union> set cells \<subseteq> B" "Suc (card B) < 2 ^ 32"
  shows "\<exists>sol' c'. fold_res (\<lambda>(t, i). add_empty_epoch cfg ts t i) cells (sol, c) = Inr (sol', c') \<and> c \<le> c' \<and>
     filled (chip_ids cfg) (temporal_epoch_id_to_epoch_type ts) sol' c' (U \<union> set seen \<union> set cells) \<and>
     same_below c sol sol' \<and>
     (\<forall>k. c \<le> k \<and> k < c' \<longrightarrow> map_of (epoch_id_to_op_placement sol') k = Some [])"
  using assms
proof (induction cells arbitrary: sol c seen)
  case Nil
  then show ?case by (intro exI [of _ sol] exI [of _ c]) (auto simp: same_below_def)
next
  case (Cons cell cells)
  obtain t i where cell: "cell = (t, i)" by (cases cell)
  have "c \<le> card B" using filled_count [OF Cons.prems(1)] card_mono [OF Cons.prems(6), of "U \<union> set seen"] Cons.prems(7) by auto
  then have c: "Suc c < 2 ^ 32" using Cons.prems(8) by simp
  have free: "i \<in> set (spatial_epochs ts t) \<longleftrightarrow> (t, i) \<in> U \<union> set seen"
    using Cons.prems(3,5) cell by auto
  have ty: "map_of (temporal_epoch_id_to_epoch_type ts) t \<noteq> None" and i: "i < length (chip_ids cfg)"
    using Cons.prems(2) cell by auto
  from add_empty_epoch_fills [OF Cons.prems(1) ty i free c] obtain sol1 c1 where
    one: "add_empty_epoch cfg ts t i (sol, c) = Inr (sol1, c1)" "c \<le> c1" "same_below c sol sol1"
    "filled (chip_ids cfg) (temporal_epoch_id_to_epoch_type ts) sol1 c1 (insert (t, i) (U \<union> set seen))"
    "\<forall>k. c \<le> k \<and> k < c1 \<longrightarrow> map_of (epoch_id_to_op_placement sol1) k = Some []" by blast
  have "filled (chip_ids cfg) (temporal_epoch_id_to_epoch_type ts) sol1 c1 (U \<union> set (cell # seen))"
    using one(4) cell by simp
  from Cons.IH [OF this] Cons.prems obtain sol2 c2 where
    two: "fold_res (\<lambda>(t, i). add_empty_epoch cfg ts t i) cells (sol1, c1) = Inr (sol2, c2)" "c1 \<le> c2"
    "filled (chip_ids cfg) (temporal_epoch_id_to_epoch_type ts) sol2 c2 (U \<union> set (cell # seen) \<union> set cells)"
    "same_below c1 sol1 sol2" "\<forall>k. c1 \<le> k \<and> k < c2 \<longrightarrow> map_of (epoch_id_to_op_placement sol2) k = Some []"
    by auto
  have "map_of (epoch_id_to_op_placement sol2) k = Some []" if "c \<le> k" "k < c2" for k
    using one(5) two(4,5) that by (cases "k < c1") (auto simp: same_below_def)
  moreover have "U \<union> set (cell # seen) \<union> set cells = U \<union> set seen \<union> set (cell # cells)" by auto
  ultimately show ?case
    using one(1,2) two(1,2,3) same_below_trans [OF one(3) two(4) one(2)] cell
    by (intro exI [of _ sol2] exI [of _ c2]) simp
qed

section \<open>The whole stage\<close>

text \<open>
  A full matrix: \<open>epochs\<close> epochs, \<open>N\<close> temporal epochs with one epoch per chip, and one epoch type per
  temporal epoch.
\<close>

definition epoch_matrix :: "nat list \<Rightarrow> PlacerSolution \<Rightarrow> nat \<Rightarrow> nat \<Rightarrow> (nat \<Rightarrow> NodeEpochType) \<Rightarrow> bool" where
  "epoch_matrix chips sol epochs N type_of \<longleftrightarrow>
     epochs = N * length chips \<and>
     (\<forall>t < N. \<forall>i < length chips. \<exists>!k. k < epochs \<and>
        map_of (epoch_id_to_epoch_info sol) k = Some \<lparr>info_global_epoch_id = k, info_temporal_epoch_id = t,
          info_spatial_epoch_id = i, info_epoch_type = type_of t\<rparr> \<and>
        map_of (epoch_id_to_chip sol) k = Some (chips ! i))"

lemma filled_matrix:
  assumes f: "filled chips ttypes sol epochs ({..<N} \<times> {..<length chips})"
    and ty: "\<forall>t < N. map_of ttypes t \<noteq> None"
  shows "epoch_matrix chips sol epochs N (\<lambda>t. the (map_of ttypes t))"
proof -
  let ?infos = "epoch_id_to_epoch_info sol"
  have count: "epochs = N * length chips" using filled_count [OF f] by simp
  have "\<exists>!k. k < epochs \<and> map_of ?infos k = Some \<lparr>info_global_epoch_id = k, info_temporal_epoch_id = t,
          info_spatial_epoch_id = i, info_epoch_type = the (map_of ttypes t)\<rparr> \<and>
        map_of (epoch_id_to_chip sol) k = Some (chips ! i)" (is "\<exists>!k. ?P k")
    if "t < N" "i < length chips" for t i
  proof -
    have "Some (t, i) \<in> slot ?infos ` {..<epochs}" using f that by (auto simp: filled_def)
    then obtain k where k: "k < epochs" "slot ?infos k = Some (t, i)" by auto
    with f obtain chip where chip: "map_of (epoch_id_to_chip sol) k = Some chip" "epoch_at chips ?infos ttypes k chip"
      by (auto simp: filled_def)
    from chip(2) k(2) have "?P k" using k(1) chip(1) by (auto simp: epoch_at_def slot_def)
    moreover have "k' = k" if "?P k'" for k'
    proof -
      have "slot ?infos k' = slot ?infos k" using that unfolding k(2) by (simp add: slot_def)
      then show ?thesis using f that k(1) by (auto simp: filled_def dest: inj_onD)
    qed
    ultimately show ?thesis by blast
  qed
  with count show ?thesis by (simp add: epoch_matrix_def)
qed

lemma grouping_filled:
  assumes g: "grouping chips types es ts" and es: "es = epoch_id_to_chip sol" "map fst es = [0..<e]"
  shows "filled chips (temporal_epoch_id_to_epoch_type ts) (sol\<lparr>epoch_id_to_epoch_info := temporal_info ts\<rparr>) e
     (used_slots (temporal_info ts) [0..<e])"
proof -
  have keys: "fst ` set es = {..<e}" using es(2) by (metis list.set_map atLeast_upt)
  have "ordered_keys es" using es(2) by (simp add: sorted_wrt_upt)
  then have chip: "(k, c) \<in> set es \<longleftrightarrow> map_of es k = Some c" for k c
    by (simp add: ordered_keys_distinct map_of_eq_Some_iff)
  have at: "\<exists>c. map_of es k = Some c \<and> epoch_at chips (temporal_info ts) (temporal_epoch_id_to_epoch_type ts) k c"
    if "k < e" for k
  proof -
    from that keys have "k \<in> fst ` set es" by simp
    then obtain c where "(k, c) \<in> set es" by auto
    then show ?thesis using groupingD(4) [OF g] chip by blast
  qed
  have "slot (temporal_info ts) k \<in> Some ` used_slots (temporal_info ts) [0..<e]" if "k < e" for k
  proof -
    from at [OF that] obtain t i where "slot (temporal_info ts) k = Some (t, i)" by (auto elim: epoch_at_slot)
    then show ?thesis using that by (auto simp: used_slots_def intro!: image_eqI [of _ _ "(t, i)"])
  qed
  moreover have "Some ` used_slots (temporal_info ts) [0..<e] \<subseteq> slot (temporal_info ts) ` {..<e}"
    by (auto simp: used_slots_def) (metis imageI lessThan_iff)
  ultimately have "slot (temporal_info ts) ` {..<e} = Some ` used_slots (temporal_info ts) [0..<e]" by blast
  then show ?thesis
    using groupingD(6) [OF g] keys at \<open>ordered_keys es\<close> es(1) by (simp add: filled_def)
qed

lemma temporal_stage:
  assumes es: "map fst (epoch_id_to_chip sol) = [0..<e]" and chips: "distinct (chip_ids cfg)" "chip_ids cfg \<noteq> []"
    and on: "\<forall>k < e. \<exists>c \<in> set (chip_ids cfg). map_of (epoch_id_to_chip sol) k = Some c"
    and maps: "\<forall>k < e. map_of (epoch_id_to_op_placement sol) k \<noteq> None \<and> map_of types k \<noteq> None"
    and small: "Suc (e * length (chip_ids cfg)) < 2 ^ 32"
  shows "\<exists>ts sol' epochs. fold_res (temporal_step cfg (epoch_id_to_op_placement sol) types) (epoch_id_to_chip sol)
        (fresh_temporal (epoch_id_to_epoch_info sol)) = Inr ts \<and>
     add_empty_epochs cfg ts (sol\<lparr>epoch_id_to_epoch_info := temporal_info ts\<rparr>, e) = Inr (sol', epochs) \<and>
     e \<le> epochs \<and> same_below e (sol\<lparr>epoch_id_to_epoch_info := temporal_info ts\<rparr>) sol' \<and>
     (\<forall>k < e. map_option info_epoch_type (map_of (epoch_id_to_epoch_info sol') k) = map_of types k) \<and>
     (\<forall>k. e \<le> k \<and> k < epochs \<longrightarrow> map_of (epoch_id_to_op_placement sol') k = Some []) \<and>
     (\<exists>N type_of. N \<le> e \<and> epoch_matrix (chip_ids cfg) sol' epochs N type_of)"
proof -
  let ?es = "epoch_id_to_chip sol" and ?chips = "chip_ids cfg"
  have keys: "fst ` set ?es = {..<e}" using es by (metis list.set_map atLeast_upt)
  have order: "ordered_keys ?es" using es by (simp add: sorted_wrt_upt)
  have "distinct (map fst ?es)" using es by simp
  moreover have "\<forall>(k, chip) \<in> set ?es. map_of (epoch_id_to_op_placement sol) k \<noteq> None \<and> map_of types k \<noteq> None \<and>
      chip \<in> set ?chips"
  proof clarify
    fix k chip
    assume m: "(k, chip) \<in> set ?es"
    then have "map_of ?es k = Some chip" using order by (simp add: ordered_keys_distinct)
    moreover have "k < e" using m keys by force
    ultimately show "map_of (epoch_id_to_op_placement sol) k \<noteq> None \<and> map_of types k \<noteq> None \<and> chip \<in> set ?chips"
      using on maps by fastforce
  qed
  ultimately have "\<exists>ts. fold_res (temporal_step cfg (epoch_id_to_op_placement sol) types) ?es
       (fresh_temporal (epoch_id_to_epoch_info sol)) = Inr ts \<and> grouping ?chips types ([] @ ?es) ts"
    by - (rule temporal_fold_groups [OF fresh_groups chips(1)]; simp)
  then obtain ts where
    run: "fold_res (temporal_step cfg (epoch_id_to_op_placement sol) types) ?es
       (fresh_temporal (epoch_id_to_epoch_info sol)) = Inr ts"
    and g: "grouping ?chips types ?es ts" by auto
  define N where "N = (if ?es = [] then 0 else Suc (current_temporal_epoch ts))"
  let ?sol = "sol\<lparr>epoch_id_to_epoch_info := temporal_info ts\<rparr>" and ?tt = "temporal_epoch_id_to_epoch_type ts"
  have tt: "\<forall>t. map_of ?tt t \<noteq> None \<longleftrightarrow> t < N" using groupingD(10) [OF g] by (auto simp: N_def less_Suc_eq_le)
  have N: "length ?tt = N" by (rule keys_below_count [OF groupingD(1) [OF g] tt])
  let ?U = "used_slots (temporal_info ts) [0..<e]" and ?B = "{..<N} \<times> {..<length ?chips}"
  have fill: "filled ?chips ?tt ?sol e ?U" by (rule grouping_filled [OF g refl es])
  have U: "set (spatial_epochs ts t) = {i. (t, i) \<in> ?U}" for t using groupingD(7) [OF g, of t] es by simp
  have UB: "?U \<subseteq> ?B"
  proof clarify
    fix t i
    assume "(t, i) \<in> ?U"
    then obtain k where k: "k < e" "slot (temporal_info ts) k = Some (t, i)" by (auto simp: used_slots_def)
    with fill obtain chip where "epoch_at ?chips (temporal_info ts) ?tt k chip" by (auto simp: filled_def)
    then have "i < length ?chips" "map_of ?tt t \<noteq> None" using k(2) by (auto elim: epoch_at_slot)
    then show "t \<in> {..<N} \<and> i \<in> {..<length ?chips}" using tt by simp
  qed
  have "{..<N} \<subseteq> fst ` ?U"
  proof
    fix t
    assume "t \<in> {..<N}"
    then have "spatial_epochs ts t \<noteq> []"
      using groupingD(11) [OF g, of t] by (auto simp: N_def split: if_splits)
    then obtain i where "i \<in> set (spatial_epochs ts t)" by (meson list.set_sel(1))
    then show "t \<in> fst ` ?U" using U by force
  qed
  then have "card {..<N} \<le> card ?U" using filled_count [OF fill] surj_card_le by blast
  then have Ne: "N \<le> e" using filled_count [OF fill] by simp
  let ?cells = "List.product [0..<N] [0..<length ?chips]"
  have "\<exists>sol' c'. fold_res (\<lambda>(t, i). add_empty_epoch cfg ts t i) ?cells (?sol, e) = Inr (sol', c') \<and> e \<le> c' \<and>
     filled ?chips ?tt sol' c' (?U \<union> set [] \<union> set ?cells) \<and> same_below e ?sol sol' \<and>
     (\<forall>k. e \<le> k \<and> k < c' \<longrightarrow> map_of (epoch_id_to_op_placement sol') k = Some [])"
  proof (rule add_empty_epochs_fill)
    show "filled ?chips ?tt ?sol e (?U \<union> set [])" using fill by simp
    show "\<forall>(t, i) \<in> set ?cells. map_of ?tt t \<noteq> None \<and> i < length ?chips" using tt by auto
    show "\<forall>(t, i) \<in> set ?cells. i \<in> set (spatial_epochs ts t) \<longleftrightarrow> (t, i) \<in> ?U" using U by auto
    show "?U \<union> set [] \<union> set ?cells \<subseteq> ?B" using UB by auto
    show "Suc (card ?B) < 2 ^ 32"
    proof -
      have "card ?B = N * length ?chips" by (simp add: card_cartesian_product)
      also have "\<dots> \<le> e * length ?chips" using Ne by (rule mult_le_mono1)
      finally show ?thesis using small by linarith
    qed
  qed (simp_all add: distinct_product)
  then obtain sol' c' where fin:
    "add_empty_epochs cfg ts (?sol, e) = Inr (sol', c')" "e \<le> c'" "same_below e ?sol sol'"
    "filled ?chips ?tt sol' c' (?U \<union> set [] \<union> set ?cells)"
    "\<forall>k. e \<le> k \<and> k < c' \<longrightarrow> map_of (epoch_id_to_op_placement sol') k = Some []"
    by (auto simp: add_empty_epochs_def fold_res_product N)
  have "?U \<union> set [] \<union> set ?cells = ?B" using UB by auto
  then have "epoch_matrix ?chips sol' c' N (\<lambda>t. the (map_of ?tt t))"
    using filled_matrix [of ?chips ?tt sol' c' N] fin(4) tt by auto
  moreover have "map_option info_epoch_type (map_of (epoch_id_to_epoch_info sol') k) = map_of types k" if "k < e" for k
  proof -
    have "k \<in> fst ` set ?es" using that keys by simp
    then obtain c where "(k, c) \<in> set ?es" by auto
    from groupingD(5) [OF g this] show ?thesis using fin(3) that by (simp add: same_below_def)
  qed
  ultimately show ?thesis using run fin(1,2,3,5) Ne by blast
qed

end
