(* ===== verification/Lowering_Facts.thy ===== *)
theory Lowering_Facts
  imports Lowering "HOL-Library.Multiset"
begin

text \<open>
  What the checks accept and what the workloads contain: the op groups are the scheduled ops,
  forward ops first, then backward, then optimizer ops, and the workload per chip is the same list
  split by chip.
\<close>

section \<open>Loops that only check\<close>

lemma fold_res_check:
  "fold_res (\<lambda>x _. tt_assert (P x)) xs u = (if \<forall>x \<in> set xs. P x then Inr u else Inl RuntimeError)"
  for u :: unit
  by (induction xs) (auto simp: tt_assert_def)

lemma check_tagged_eq:
  "check_tagged tagged ops = (if set tagged \<subseteq> set ops then Inr () else Inl RuntimeError)"
  by (auto simp: check_tagged_def fold_res_check)

lemma check_user_defined_op_names_eq:
  "check_user_defined_op_names cfg ops =
     (if set (ops_tagged_for_chip_id_break cfg) \<subseteq> set ops \<and> set (ops_tagged_for_epoch_break cfg) \<subseteq> set ops
      then Inr () else Inl RuntimeError)"
  by (auto simp: check_user_defined_op_names_def check_tagged_eq)

lemma validate_chip_mapping_eq:
  "validate_chip_mapping cfg w =
     (if \<forall>grp \<in> set w. group_chip_id grp \<in> set (chip_ids cfg) then Inr () else Inl RuntimeError)"
  by (simp add: validate_chip_mapping_def fold_res_check)

section \<open>The check of the groups\<close>

definition op_fits_device :: "PlacerConfig \<Rightarrow> OpGroupToPlace \<Rightarrow> string \<Rightarrow> bool" where
  "op_fits_device cfg grp op \<longleftrightarrow>
     (is_wormhole_b0 (device_config cfg) \<and> op \<in> set (output_ops cfg) \<longrightarrow>
        group_chip_id grp \<in> set (chips_with_mmio (device_config cfg))) \<and>
     (\<exists>s. map_of (op_to_grid_shape cfg) op = Some s \<and> rows s \<le> get_available_rows_on_device cfg \<and>
        columns s \<le> columns (device_grid_shape cfg))"

definition same_epoch_type :: "PlacerConfig \<Rightarrow> string \<Rightarrow> string \<Rightarrow> bool" where
  "same_epoch_type cfg a b \<longleftrightarrow>
     (\<exists>ty. map_of (op_to_epoch_type cfg) a = Some ty \<and> map_of (op_to_epoch_type cfg) b = Some ty)"

definition op_accepted :: "PlacerConfig \<Rightarrow> OpGroupToPlace \<Rightarrow> nat \<Rightarrow> bool" where
  "op_accepted cfg grp i \<longleftrightarrow> op_fits_device cfg grp (op_names grp ! i) \<and>
     (i > 0 \<longrightarrow> same_epoch_type cfg (op_names grp ! (i - 1)) (op_names grp ! i))"

lemma fatal_simps:
  "fatal_if_out_of_range (res_bind (tt_assert b) f) = (if b then fatal_if_out_of_range (f ()) else Inl RuntimeError)"
  "fatal_if_out_of_range (res_bind (at_key m k) g) =
     (case map_of m k of None \<Rightarrow> Inl RuntimeError | Some v \<Rightarrow> fatal_if_out_of_range (g v))"
  "fatal_if_out_of_range (Inr x) = Inr x"
  "fatal_if_out_of_range (Inl RuntimeError) = Inl RuntimeError"
  by (cases b; simp add: fatal_if_out_of_range_def)
     (cases "map_of m k"; simp add: fatal_if_out_of_range_def)+

lemma fatal_types:
  assumes "i < length (op_names grp)"
  shows "fatal_if_out_of_range (res_bind
        (if i > 0 then res_bind (vec_at (op_names grp) (i - 1)) (\<lambda>prev_op_name.
             res_bind (at_key (op_to_epoch_type cfg) prev_op_name) (\<lambda>a.
             res_bind (at_key (op_to_epoch_type cfg) (op_names grp ! i)) (\<lambda>b. tt_assert (a = b)))) else Inr ())
        (\<lambda>_. Inr x)) =
     (if i > 0 \<longrightarrow> same_epoch_type cfg (op_names grp ! (i - 1)) (op_names grp ! i)
      then Inr x else Inl RuntimeError)"
proof (cases "i > 0")
  case True
  then have "vec_at (op_names grp) (i - 1) = Inr (op_names grp ! (i - 1))" using assms by simp
  with True show ?thesis
    by (simp add: res_bind_assoc fatal_simps same_epoch_type_def split: option.split)
qed (simp add: fatal_simps)

lemma validate_op_eq:
  assumes "i < length (op_names grp)"
  shows "validate_op cfg grp i visited =
     (if op_names grp ! i \<notin> set visited \<and> op_accepted cfg grp i
      then Inr (List.insert (op_names grp ! i) visited) else Inl RuntimeError)"
proof -
  let ?mmio = "is_wormhole_b0 (device_config cfg) \<and> op_names grp ! i \<in> set (output_ops cfg) \<longrightarrow>
     group_chip_id grp \<in> set (chips_with_mmio (device_config cfg))"
  have mmio: "(if is_wormhole_b0 (device_config cfg) \<and> op_names grp ! i \<in> set (output_ops cfg)
       then tt_assert (group_chip_id grp \<in> set (chips_with_mmio (device_config cfg))) else Inr ()) =
     tt_assert ?mmio" by (simp add: tt_assert_def)
  have op: "vec_at (op_names grp) i = Inr (op_names grp ! i)" using assms by simp
  show ?thesis
    unfolding validate_op_def op res_bind_simps mmio fatal_simps fatal_types [OF assms]
    by (auto simp: op_accepted_def op_fits_device_def tt_assert_def split: option.splits)
qed

lemma validate_group_eq:
  "validate_group cfg grp visited =
     (if distinct (op_names grp) \<and> set (op_names grp) \<inter> set visited = {} \<and>
         (\<forall>i < length (op_names grp). op_accepted cfg grp i)
      then Inr (rev (op_names grp) @ visited) else Inl RuntimeError)"
proof -
  have "fold_res (validate_op cfg grp) [0..<k] visited =
     (if distinct (take k (op_names grp)) \<and> set (take k (op_names grp)) \<inter> set visited = {} \<and>
         (\<forall>i < k. op_accepted cfg grp i)
      then Inr (rev (take k (op_names grp)) @ visited) else Inl RuntimeError)"
    if "k \<le> length (op_names grp)" for k
    using that
  proof (induction k)
    case (Suc k)
    then have k: "k < length (op_names grp)" by simp
    show ?case
      using Suc k
      by (auto simp: fold_res_append validate_op_eq [OF k] take_Suc_conv_app_nth less_Suc_eq
          simp del: upt_Suc simp add: upt_Suc_append)
  qed simp
  from this [of "length (op_names grp)"] show ?thesis by (simp add: validate_group_def)
qed

definition group_accepted :: "PlacerConfig \<Rightarrow> OpGroupToPlace \<Rightarrow> bool" where
  "group_accepted cfg grp \<longleftrightarrow>
     (\<forall>op \<in> set (op_names grp). op_fits_device cfg grp op) \<and>
     (length (op_names grp) \<le> 1 \<or>
      (\<exists>ty. \<forall>op \<in> set (op_names grp). map_of (op_to_epoch_type cfg) op = Some ty))"

lemma chain_const:
  assumes "\<forall>i < length xs. i > 0 \<longrightarrow> same_epoch_type cfg (xs ! (i - 1)) (xs ! i)" "1 < length xs"
  shows "\<exists>ty. \<forall>x \<in> set xs. map_of (op_to_epoch_type cfg) x = Some ty"
proof -
  from assms obtain ty where ty: "map_of (op_to_epoch_type cfg) (xs ! 0) = Some ty"
    unfolding same_epoch_type_def by (metis One_nat_def diff_self_eq_0 zero_less_one)
  have "map_of (op_to_epoch_type cfg) (xs ! i) = Some ty" if "i < length xs" for i
    using that
  proof (induction i)
    case (Suc i)
    with assms(1) have "same_epoch_type cfg (xs ! i) (xs ! Suc i)" by (metis diff_Suc_1 zero_less_Suc)
    with Suc show ?case by (auto simp: same_epoch_type_def)
  qed (use ty in simp)
  then show ?thesis by (metis in_set_conv_nth)
qed

lemma group_accepted_iff:
  "(\<forall>i < length (op_names grp). op_accepted cfg grp i) \<longleftrightarrow> group_accepted cfg grp"
proof
  assume L: "\<forall>i < length (op_names grp). op_accepted cfg grp i"
  then have "\<forall>op \<in> set (op_names grp). op_fits_device cfg grp op"
    by (metis in_set_conv_nth op_accepted_def)
  moreover from L have "\<forall>i < length (op_names grp). i > 0 \<longrightarrow>
      same_epoch_type cfg (op_names grp ! (i - 1)) (op_names grp ! i)" by (simp add: op_accepted_def)
  ultimately show "group_accepted cfg grp"
    using chain_const [of "op_names grp" cfg]
    by (cases "1 < length (op_names grp)") (simp_all add: group_accepted_def)
next
  assume R: "group_accepted cfg grp"
  show "\<forall>i < length (op_names grp). op_accepted cfg grp i"
  proof (intro allI impI)
    fix i assume i: "i < length (op_names grp)"
    have "same_epoch_type cfg (op_names grp ! (i - 1)) (op_names grp ! i)" if "i > 0"
      using R i that nth_mem [of "i - 1" "op_names grp"] nth_mem [OF i]
      by (auto simp: group_accepted_def same_epoch_type_def)
    with R i show "op_accepted cfg grp i" by (simp add: group_accepted_def op_accepted_def)
  qed
qed

lemma validate_placer_inputs_eq:
  "validate_placer_inputs cfg w =
     (if distinct (concat (map op_names w)) \<and> (\<forall>grp \<in> set w. group_accepted cfg grp)
      then Inr () else Inl RuntimeError)"
proof -
  have "fold_res (validate_group cfg) w visited =
     (if distinct (concat (map op_names w)) \<and> set (concat (map op_names w)) \<inter> set visited = {} \<and>
         (\<forall>grp \<in> set w. group_accepted cfg grp)
      then Inr (rev (concat (map op_names w)) @ visited) else Inl RuntimeError)" for visited
  proof (induction w arbitrary: visited)
    case (Cons grp w)
    have "fold_res (validate_group cfg) (grp # w) visited =
        (if distinct (op_names grp) \<and> set (op_names grp) \<inter> set visited = {} \<and> group_accepted cfg grp
         then fold_res (validate_group cfg) w (rev (op_names grp) @ visited) else Inl RuntimeError)"
      by (simp add: validate_group_eq [of cfg grp visited] group_accepted_iff)
    then show ?case by (auto simp: Cons.IH)
  qed simp
  from this [of "[]"] show ?thesis by (simp add: validate_placer_inputs_def)
qed

text \<open>
  C34 (error). \<open>validate_placer_inputs\<close> either accepts or throws the fatal error, and it accepts
  exactly the workloads in which no op occurs twice, every output op of a wormhole device is on a
  chip with MMIO, every op has a shape that fits the device and the ops of a group with several
  ops have one common epoch type. A missing shape or epoch type is the same fatal error.
\<close>

theorem validate_placer_inputs_exact:
  "validate_placer_inputs cfg w =
     (if distinct (concat (map op_names w)) \<and> (\<forall>grp \<in> set w. group_accepted cfg grp)
      then Inr () else Inl RuntimeError)"
  by (rule validate_placer_inputs_eq)

text \<open>The same op in two groups is refused.\<close>

theorem validate_placer_inputs_exact_witness:
  "validate_placer_inputs (sample_config GRAYSKULL (mk_shape 2 2) [(''a'', mk_shape 1 1)] [])
     [sample_group 0 ''a'', sample_group 1 ''a''] = Inl RuntimeError"
  by (subst validate_placer_inputs_exact) (simp add: sample_group_def)

section \<open>The workload\<close>

definition ops_of_type :: "PlacerConfig \<Rightarrow> NodeEpochType \<Rightarrow> string list \<Rightarrow> string list" where
  "ops_of_type cfg ty ops = filter (\<lambda>op. map_of (op_to_epoch_type cfg) op = Some ty) ops"

definition schedulable :: "PlacerConfig \<Rightarrow> string \<Rightarrow> bool" where
  "schedulable cfg op \<longleftrightarrow> map_of (op_to_epoch_type cfg) op \<noteq> None \<and> (\<exists>c. get_chip_id cfg op = Inr c)"

definition chip_of :: "PlacerConfig \<Rightarrow> string \<Rightarrow> nat" where
  "chip_of cfg op = (case get_chip_id cfg op of Inr c \<Rightarrow> c | Inl _ \<Rightarrow> 0)"

text \<open>The group of the op with the given id; the first forward group never starts an epoch.\<close>

definition group_of :: "PlacerConfig \<Rightarrow> nat option \<Rightarrow> NodeEpochType \<Rightarrow> nat \<times> string \<Rightarrow> OpGroupToPlace" where
  "group_of cfg first ty p =
     \<lparr>op_group_id = fst p, op_names = [snd p], op_name_to_relative_offset_from_first_op = [],
      group_chip_id = chip_of cfg (snd p),
      increment_epoch = (snd p \<in> set (ops_tagged_for_epoch_break cfg) \<and> first \<noteq> Some (fst p)),
      group_epoch_type = ty\<rparr>"

lemma groups_snoc:
  "map f (enumerate n (xs @ [x])) = map f (enumerate n xs) @ [f (n + length xs, x)]"
  by (simp add: enumerate_append_eq)

lemma enumerate_Nil_iff: "enumerate n xs = [] \<longleftrightarrow> xs = []"
  by (metis length_0_conv length_enumerate)

lemma forward_workload:
  assumes "\<forall>op \<in> set ops. schedulable cfg op" "n + length ops < 2 ^ 32"
  shows "generate_forward_placer_workload cfg ops n =
     Inr (map (group_of cfg (Some n) Forward) (enumerate n (ops_of_type cfg Forward ops)),
          n + length (ops_of_type cfg Forward ops))"
  using assms
proof (induction ops rule: rev_induct)
  case Nil
  then show ?case by (simp add: generate_forward_placer_workload_def ops_of_type_def)
next
  case (snoc op ops)
  let ?F = "ops_of_type cfg Forward ops"
  have IH: "fold_res (forward_step cfg) ops ([], n) =
      Inr (map (group_of cfg (Some n) Forward) (enumerate n ?F), n + length ?F)"
    using snoc by (simp add: generate_forward_placer_workload_def)
  from snoc.prems obtain ty c where ty: "map_of (op_to_epoch_type cfg) op = Some ty" and
    c: "get_chip_id cfg op = Inr c" by (auto simp: schedulable_def)
  have "length ?F \<le> length ops" by (simp add: ops_of_type_def)
  with snoc.prems have len: "add32 (n + length ?F) 1 = Suc (n + length ?F)" by (simp add: u32_simps)
  show ?case
  proof (cases "ty = Forward")
    case False
    then show ?thesis using IH ty
      by (simp add: generate_forward_placer_workload_def fold_res_append forward_step_def ops_of_type_def)
  next
    case True
    then have F: "ops_of_type cfg Forward (ops @ [op]) = ?F @ [op]" using ty by (simp add: ops_of_type_def)
    show ?thesis unfolding F groups_snoc using True IH ty c len
      by (auto simp: generate_forward_placer_workload_def fold_res_append forward_step_def push_op_group_def
          get_next_op_group_id_def group_of_def chip_of_def enumerate_Nil_iff)
  qed
qed

text \<open>The loops over the backward and the optimizer ops differ only in the epoch type.\<close>

definition typed_step ::
    "NodeEpochType \<Rightarrow> PlacerConfig \<Rightarrow> string \<Rightarrow> OpGroupToPlace list \<times> nat \<Rightarrow> (OpGroupToPlace list \<times> nat) res" where
  "typed_step t cfg op st =
     res_bind (at_key (op_to_epoch_type cfg) op) (\<lambda>ty.
       if ty = t
       then res_bind (get_chip_id cfg op) (\<lambda>chip.
              Inr (push_op_group op chip (op \<in> set (ops_tagged_for_epoch_break cfg)) t st))
       else Inr st)"

lemma typed_steps: "backward_step = typed_step Backward" "optimizer_step = typed_step Optimizer"
  by (simp_all add: fun_eq_iff backward_step_def optimizer_step_def typed_step_def)

lemma typed_step_other:
  "map_of (op_to_epoch_type cfg) op = Some ty \<Longrightarrow> ty \<noteq> t \<Longrightarrow> typed_step t cfg op st = Inr st"
  by (simp add: typed_step_def)

lemma typed_step_own:
  "map_of (op_to_epoch_type cfg) op = Some t \<Longrightarrow> get_chip_id cfg op = Inr c \<Longrightarrow>
   typed_step t cfg op (gs, n) = Inr (gs @ [group_of cfg None t (n, op)], add32 n 1)"
  by (simp add: typed_step_def push_op_group_def get_next_op_group_id_def group_of_def chip_of_def)

lemma typed_workload:
  assumes "\<forall>op \<in> set ops. schedulable cfg op" "n + length (ops_of_type cfg t ops) < 2 ^ 32"
  shows "fold_res (typed_step t cfg) ops ([], n) =
     Inr (map (group_of cfg None t) (enumerate n (ops_of_type cfg t ops)), n + length (ops_of_type cfg t ops))"
  using assms
proof (induction ops rule: rev_induct)
  case Nil
  then show ?case by (simp add: ops_of_type_def)
next
  case (snoc op ops)
  let ?F = "ops_of_type cfg t ops"
  from snoc.prems obtain ty c where ty: "map_of (op_to_epoch_type cfg) op = Some ty" and
    c: "get_chip_id cfg op = Inr c" by (auto simp: schedulable_def)
  have IH: "fold_res (typed_step t cfg) ops ([], n) =
      Inr (map (group_of cfg None t) (enumerate n ?F), n + length ?F)"
    using snoc by (simp add: ops_of_type_def split: if_splits)
  show ?case
  proof (cases "ty = t")
    case False
    then show ?thesis using IH ty by (simp add: fold_res_append typed_step_other ops_of_type_def)
  next
    case True
    then have F: "ops_of_type cfg t (ops @ [op]) = ?F @ [op]" using ty by (simp add: ops_of_type_def)
    then have "add32 (n + length ?F) 1 = Suc (n + length ?F)" using snoc.prems by (simp add: u32_simps)
    then show ?thesis unfolding F groups_snoc using True IH ty c
      by (simp add: fold_res_append typed_step_own)
  qed
qed

definition schedule_order :: "PlacerConfig \<Rightarrow> string list \<Rightarrow> string list" where
  "schedule_order cfg ops =
     ops_of_type cfg Forward ops @ ops_of_type cfg Backward ops @ ops_of_type cfg Optimizer ops"

lemma mset_schedule_order:
  assumes "\<forall>op \<in> set ops. map_of (op_to_epoch_type cfg) op \<noteq> None"
  shows "mset (schedule_order cfg ops) = mset ops"
  using assms
proof (induction ops)
  case Nil
  then show ?case by (simp add: schedule_order_def ops_of_type_def)
next
  case (Cons op ops)
  then obtain ty where "map_of (op_to_epoch_type cfg) op = Some ty" by auto
  with Cons show ?case by (cases ty) (simp_all add: schedule_order_def ops_of_type_def)
qed

text \<open>The groups of \<open>generate_wormhole_placer_workload\<close>, written down.\<close>

definition workload_of :: "PlacerConfig \<Rightarrow> string list \<Rightarrow> nat \<Rightarrow> OpGroupToPlace list" where
  "workload_of cfg ops n =
     (let F = ops_of_type cfg Forward ops; B = ops_of_type cfg Backward ops;
          Z = ops_of_type cfg Optimizer ops in
      map (group_of cfg (Some n) Forward) (enumerate n F) @
      map (group_of cfg None Backward) (enumerate (n + length F) B) @
      map (group_of cfg None Optimizer) (enumerate (n + length F + length B) Z))"

lemma map_enumerate_fst: "map fst (enumerate n xs) = [n..<n + length xs]"
  by (simp add: enumerate_eq_zip)

lemma map_enumerate_snd: "map (\<lambda>p. f (snd p)) (enumerate n xs) = map f xs"
  by (simp add: enumerate_eq_zip flip: map_map [unfolded comp_def])

lemma upt_split3: "[n..<n + a] @ [n + a..<n + a + b] @ [n + a + b..<n + a + b + c] = [n..<n + (a + b + c :: nat)]"
proof -
  have "[n..<n + (a + b + c)] = [n..<n + a] @ [n + a..<n + a + (b + c)]"
    using upt_add_eq_append [of n "n + a" "b + c"] by (simp add: add.assoc)
  also have "[n + a..<n + a + (b + c)] = [n + a..<n + a + b] @ [n + a + b..<n + a + b + c]"
    using upt_add_eq_append [of "n + a" "n + a + b" c] by (simp add: add.assoc)
  finally show ?thesis by simp
qed

lemma workload_of_fields:
  "map op_group_id (workload_of cfg ops n) = [n..<n + length (schedule_order cfg ops)]"
  "map op_names (workload_of cfg ops n) = map (\<lambda>op. [op]) (schedule_order cfg ops)"
  "map group_chip_id (workload_of cfg ops n) = map (chip_of cfg) (schedule_order cfg ops)"
proof -
  have id: "op_group_id \<circ> group_of cfg f t = fst" "op_names \<circ> group_of cfg f t = (\<lambda>p. [snd p])"
    "group_chip_id \<circ> group_of cfg f t = (\<lambda>p. chip_of cfg (snd p))" for f t
    by (simp_all add: fun_eq_iff group_of_def)
  show "map op_group_id (workload_of cfg ops n) = [n..<n + length (schedule_order cfg ops)]"
    by (simp add: workload_of_def Let_def id map_enumerate_fst schedule_order_def upt_split3
        add.assoc [symmetric])
  show "map op_names (workload_of cfg ops n) = map (\<lambda>op. [op]) (schedule_order cfg ops)"
    by (simp add: workload_of_def Let_def id map_enumerate_snd [where f = "\<lambda>op. [op]"] schedule_order_def)
  show "map group_chip_id (workload_of cfg ops n) = map (chip_of cfg) (schedule_order cfg ops)"
    by (simp add: workload_of_def Let_def id map_enumerate_snd schedule_order_def)
qed

lemma wormhole_workload:
  assumes "\<forall>op \<in> set ops. schedulable cfg op" "n + length ops < 2 ^ 32"
    and "check_user_defined_op_names cfg ops = Inr ()"
  shows "generate_wormhole_placer_workload cfg ops n = Inr (workload_of cfg ops n, n + length ops)"
proof -
  have len: "length (ops_of_type cfg Forward ops) + length (ops_of_type cfg Backward ops) +
      length (ops_of_type cfg Optimizer ops) = length ops"
  proof -
    have "mset (schedule_order cfg ops) = mset ops"
      using assms(1) by (intro mset_schedule_order) (simp add: schedulable_def)
    from mset_eq_length [OF this] show ?thesis by (simp add: schedule_order_def)
  qed
  show ?thesis
    using forward_workload [OF assms(1,2)] assms(2,3) len
      typed_workload [OF assms(1), of "n + length (ops_of_type cfg Forward ops)" Backward]
      typed_workload [OF assms(1), of "n + length (ops_of_type cfg Forward ops) +
        length (ops_of_type cfg Backward ops)" Optimizer]
    by (simp add: generate_wormhole_placer_workload_def generate_backward_placer_workload_def
        generate_optimizer_placer_workload_def typed_steps workload_of_def Let_def)
qed

lemma enumerate_member: "p \<in> set (enumerate k xs) \<Longrightarrow> snd p \<in> set xs"
proof -
  assume "p \<in> set (enumerate k xs)"
  moreover have "map snd (enumerate k xs) = xs" by (simp add: enumerate_eq_zip)
  ultimately show ?thesis by (metis image_eqI list.set_map)
qed

text \<open>
  C30 (functional). The workload contains every scheduled op in a group of its own, exactly once:
  the forward ops in schedule order, then the backward ops, then the optimizer ops, with
  consecutive group ids and the chip of the assignment. A group starts a new epoch exactly if the
  user tagged its op, except for the first forward group.
\<close>

theorem workload_is_the_schedule:
  assumes "\<forall>op \<in> set ops. schedulable cfg op" "n + length ops < 2 ^ 32"
    and "set (ops_tagged_for_chip_id_break cfg) \<union> set (ops_tagged_for_epoch_break cfg) \<subseteq> set ops"
  shows "\<exists>w. generate_wormhole_placer_workload cfg ops n = Inr (w, n + length ops) \<and>
     map op_names w = map (\<lambda>op. [op]) (schedule_order cfg ops) \<and>
     mset (concat (map op_names w)) = mset ops \<and>
     map op_group_id w = [n..<n + length ops] \<and>
     map group_chip_id w = map (chip_of cfg) (schedule_order cfg ops) \<and>
     (\<forall>grp \<in> set w. map_of (op_to_epoch_type cfg) (hd (op_names grp)) = Some (group_epoch_type grp) \<and>
        (increment_epoch grp \<longleftrightarrow> hd (op_names grp) \<in> set (ops_tagged_for_epoch_break cfg) \<and>
           (group_epoch_type grp = Forward \<longrightarrow> op_group_id grp \<noteq> n)))"
proof -
  have ms: "mset (schedule_order cfg ops) = mset ops"
    using assms(1) by (intro mset_schedule_order) (simp add: schedulable_def)
  from mset_eq_length [OF this] have len: "length (schedule_order cfg ops) = length ops" .
  have typed: "map_of (op_to_epoch_type cfg) (snd p) = Some t"
    if "p \<in> set (enumerate k (ops_of_type cfg t ops))" for p k t
    using enumerate_member [OF that] by (simp add: ops_of_type_def)
  have "\<forall>grp \<in> set (workload_of cfg ops n).
      map_of (op_to_epoch_type cfg) (hd (op_names grp)) = Some (group_epoch_type grp) \<and>
      (increment_epoch grp \<longleftrightarrow> hd (op_names grp) \<in> set (ops_tagged_for_epoch_break cfg) \<and>
         (group_epoch_type grp = Forward \<longrightarrow> op_group_id grp \<noteq> n))"
    by (auto simp: workload_of_def Let_def group_of_def dest: typed)
  moreover have "concat (map (\<lambda>op. [op]) xs) = xs" for xs :: "string list" by (induction xs) auto
  ultimately show ?thesis
    using wormhole_workload [OF assms(1,2)] assms(3) ms len
    by (simp add: check_user_defined_op_names_eq workload_of_fields)
qed

theorem workload_is_the_schedule_witness:
  "\<exists>w. generate_wormhole_placer_workload
       (sample_config WORMHOLE_B0 (mk_shape 2 2) [(''a'', mk_shape 1 1), (''b'', mk_shape 1 1)] [])
       [''b'', ''a''] 5 = Inr (w, 7) \<and>
     map op_names w = [[''b''], [''a'']] \<and> map op_group_id w = [5, 6]"
proof -
  let ?cfg = "sample_config WORMHOLE_B0 (mk_shape 2 2) [(''a'', mk_shape 1 1), (''b'', mk_shape 1 1)] []"
  have "\<forall>op \<in> set [''b'', ''a'']. schedulable ?cfg op"
    by (simp add: schedulable_def sample_config_def get_chip_id_def is_grayskull_def)
  moreover have "set (ops_tagged_for_chip_id_break ?cfg) \<union> set (ops_tagged_for_epoch_break ?cfg) \<subseteq> set [''b'', ''a'']"
    by (simp add: sample_config_def)
  moreover have "schedule_order ?cfg [''b'', ''a''] = [''b'', ''a'']"
    by (simp add: schedule_order_def ops_of_type_def sample_config_def)
  ultimately show ?thesis
    using workload_is_the_schedule [of "[''b'', ''a'']" ?cfg 5] by (auto simp: upt_rec)
qed

section \<open>The workload per chip\<close>

lemma emplace_keeps_order: "ordered_keys m \<Longrightarrow> ordered_keys (emplace_on_chip grp m)"
  by (simp add: emplace_on_chip_def)

lemma fold_emplace:
  assumes "ordered_keys m"
  shows "ordered_keys (fold emplace_on_chip w m) \<and>
     map_of (fold emplace_on_chip w m) c =
       (let own = filter (\<lambda>grp. group_chip_id grp = c) w in
        if own = [] then map_of m c
        else Some ((case map_of m c of None \<Rightarrow> [] | Some grps \<Rightarrow> grps) @ own))"
  using assms
proof (induction w arbitrary: m)
  case (Cons grp w)
  from Cons.IH [OF emplace_keeps_order [OF Cons.prems]] Cons.prems show ?case
    by (auto simp: Let_def emplace_on_chip_def split: option.splits)
qed simp

text \<open>
  The workload per chip that the grayskull placer uses is the single list of the
  wormhole placer, split by chip: every chip that occurs maps to its groups in the order of the
  list. Both throw for the same schedules, given that grayskull has an assignment at all.
\<close>

theorem chip_workloads_partition:
  assumes "is_grayskull (device_config cfg) \<Longrightarrow> op_to_chip_id_assignment cfg \<noteq> []"
  shows "case generate_wormhole_placer_workload cfg ops n of
       Inl e \<Rightarrow> generate_placer_workload cfg ops n = Inl e
     | Inr (w, n') \<Rightarrow>
         \<exists>m. generate_placer_workload cfg ops n = Inr (m, n') \<and> ordered_keys m \<and>
           (\<forall>c. map_of m c = (let own = filter (\<lambda>grp. group_chip_id grp = c) w in
                              if own = [] then None else Some own))"
proof -
  have eq: "generate_placer_workload cfg ops n =
      res_bind (generate_wormhole_placer_workload cfg ops n) (\<lambda>(w, n'). Inr (fold emplace_on_chip w [], n'))"
    using assms
    by (cases "check_user_defined_op_names cfg ops";
        cases "generate_forward_placer_workload cfg ops n")
       (auto simp: generate_placer_workload_def generate_wormhole_placer_workload_def Let_def
          res_bind_assoc case_prod_beta intro!: res_bind_cong)
  show ?thesis
    unfolding eq using fold_emplace [of "[]"]
    by (auto simp: Let_def split: sum.split)
qed

theorem chip_workloads_partition_witness:
  "case generate_wormhole_placer_workload
       (sample_config GRAYSKULL (mk_shape 2 2) [(''a'', mk_shape 1 1), (''b'', mk_shape 1 1)] [])
       [''b'', ''a''] 5 of
     Inl e \<Rightarrow> False
   | Inr (w, n') \<Rightarrow>
       \<exists>m. generate_placer_workload
         (sample_config GRAYSKULL (mk_shape 2 2) [(''a'', mk_shape 1 1), (''b'', mk_shape 1 1)] [])
         [''b'', ''a''] 5 = Inr (m, 7) \<and> map_of m 0 = Some w"
proof -
  let ?cfg = "sample_config GRAYSKULL (mk_shape 2 2) [(''a'', mk_shape 1 1), (''b'', mk_shape 1 1)] []"
  have nonempty: "op_to_chip_id_assignment ?cfg \<noteq> []" by (simp add: sample_config_def)
  have run: "case generate_wormhole_placer_workload ?cfg [''b'', ''a''] 5 of
      Inl e \<Rightarrow> False
    | Inr (w, n') \<Rightarrow> n' = 7 \<and> w \<noteq> [] \<and> list_all (\<lambda>grp. group_chip_id grp = 0) w" by code_simp
  then obtain w where w: "generate_wormhole_placer_workload ?cfg [''b'', ''a''] 5 = Inr (w, 7)" "w \<noteq> []"
    "filter (\<lambda>grp. group_chip_id grp = 0) w = w"
    by (auto split: sum.splits simp: list_all_iff filter_id_conv)
  then show ?thesis
    using chip_workloads_partition [of ?cfg "[''b'', ''a'']" 5] nonempty
    by (auto simp: Let_def)
qed

end
