(* ===== verification/Epoch_Placer_Facts.thy ===== *)
theory Epoch_Placer_Facts
  imports Epoch_Placer
begin

text \<open>
  \<open>EpochDevicePlacer::place\<close> without user overrides: when every op fits the grid it returns, it
  places every op exactly once and in order, and every epoch it returns is legal. The last section
  evaluates two inputs with user overrides on which it throws.
\<close>

section \<open>Legal epochs\<close>

text \<open>The shape an op occupies, turned when the placement says so.\<close>

definition occupied :: "shapes \<Rightarrow> DeviceGridPlacement \<Rightarrow> GridShape" where
  "occupied shapes p =
     (let s = the (map_of shapes (dgp_op_name p)) in
      if dgp_grid_transpose p then transposed s else s)"

definition inside :: "nat \<Rightarrow> nat \<Rightarrow> shapes \<Rightarrow> DeviceGridPlacement \<Rightarrow> bool" where
  "inside R C shapes p \<longleftrightarrow>
     (let c = range_start (dgp_placed_cores p); q = occupied shapes p in
      map_of shapes (dgp_op_name p) \<noteq> None \<and> row c + rows q \<le> R \<and> col c + columns q \<le> C \<and>
      range_end (dgp_placed_cores p) = mk_coord (row c + rows q) (col c + columns q))"

abbreviation covers :: "shapes \<Rightarrow> DeviceGridPlacement \<Rightarrow> nat \<Rightarrow> nat \<Rightarrow> bool" where
  "covers shapes p \<equiv> in_rect (range_start (dgp_placed_cores p)) (occupied shapes p)"

definition legal ::
    "nat \<Rightarrow> nat \<Rightarrow> shapes \<Rightarrow> DeviceGridPlacement list \<Rightarrow> DeviceGrid \<Rightarrow> bool" where
  "legal R C shapes ps g \<longleftrightarrow>
     wf_grid R C g \<and> (\<forall>p \<in> set ps. inside R C shapes p) \<and>
     sorted_wrt (\<lambda>p p'. \<forall>i j. \<not> (covers shapes p i j \<and> covers shapes p' i j)) ps \<and>
     (\<forall>i < R. \<forall>j < C. g ! i ! j = (if \<exists>p \<in> set ps. covers shapes p i j then 1 else 0))"

lemma legal_empty:
  "0 < R \<Longrightarrow> R < 2 ^ 32 \<Longrightarrow> C < 2 ^ 32 \<Longrightarrow> legal R C shapes [] (create_empty_device_grid R C)"
  by (simp add: legal_def del: One_nat_def)

lemma legal_extend:
  assumes ps: "legal R C shapes ps g" and p: "map_of shapes (dgp_op_name p) = Some s"
    and f: "fits R C g (range_start (dgp_placed_cores p)) (occupied shapes p)"
    and e: "range_end (dgp_placed_cores p) =
              coord_add_shape (range_start (dgp_placed_cores p)) (occupied shapes p)"
  shows "legal R C shapes (ps @ [p]) (paint (covers shapes p) g)"
proof -
  have g: "wf_grid R C g" and cell: "\<And>i j. i < R \<Longrightarrow> j < C \<Longrightarrow>
      g ! i ! j = (if \<exists>p \<in> set ps. covers shapes p i j then 1 else 0)"
    and ins: "\<And>p'. p' \<in> set ps \<Longrightarrow> inside R C shapes p'"
    using ps by (auto simp: legal_def)
  have bound: "row (range_start (dgp_placed_cores p)) + rows (occupied shapes p) \<le> R"
    "col (range_start (dgp_placed_cores p)) + columns (occupied shapes p) \<le> C"
    using f by (auto simp: fits_def)
  have "inside R C shapes p"
    using p e bound wf_gridD(3,4) [OF g]
    by (simp add: inside_def coord_add_shape_def add32_exact)
  moreover have "\<not> (covers shapes p' i j \<and> covers shapes p i j)" if "p' \<in> set ps" for p' i j
  proof
    assume c: "covers shapes p' i j \<and> covers shapes p i j"
    then have ij: "i < R" "j < C" using bound by (auto simp: in_rect_def)
    have "g ! i ! j = 0" using c f by (auto simp: fits_def in_rect_def)
    moreover have "g ! i ! j = 1" using cell [OF ij] c that by auto
    ultimately show False by simp
  qed
  moreover have "paint (covers shapes p) g ! i ! j =
      (if \<exists>p' \<in> set (ps @ [p]). covers shapes p' i j then 1 else 0)" if "i < R" "j < C" for i j
    using paint_cell [OF g that] cell [OF that] by auto
  ultimately show ?thesis
    using ps g unfolding legal_def by (auto simp: sorted_wrt_append simp del: One_nat_def)
qed

section \<open>One op on one grid\<close>

abbreviation first_strategy :: "bool \<Rightarrow> DeviceGridConfig" where
  "first_strategy triplets \<equiv>
     get_device_grid_config_from_strategy triplets PLACE_WITH_RELATIVE_OFFSETS False False"

lemma coordinate_without_overrides:
  assumes e: "wf_epoch_grids R C e" and k: "map_of (epoch_id_to_device_grid e) k = Some g"
    and s: "placeable R C s" and c: "no_wrap c s"
  shows "(\<exists>c' t. get_placed_coordinate n s e k (Some c) False enable [] = Some (Inr (c', k, t, e)) \<and>
            epoch_fits R C n k e c' (if t then transposed s else s)) \<or>
         (get_placed_coordinate n s e k (Some c) False enable [] = Some (Inl FailToPlaceOnCurrentEpoch) \<and>
            (\<forall>d. \<not> epoch_fits R C n k e d s))"
proof -
  have init: "initialize_device_grid e k False = e" using k by (intro initialize_known) simp
  have g: "wf_grid R C g" using e k by (auto simp: wf_epoch_grids_def)
  obtain tr where tr: "should_try_auto_transpose_op g s enable False = Inr tr"
    using should_try_wf [OF g, of False s enable] by blast
  have gpc: "get_placed_coordinate n s e k (Some c) False enable [] =
    comp_bind (place_loop n s False tr c k s e) (\<lambda>(c', k', l', e2).
      Some (Inr (c', k', rows s \<noteq> rows l', e2)))"
    using k tr by (simp add: get_placed_coordinate_def init apply_user_grid_start_def)
  from place_loop_returns [OF e k s _ _ c, where inc = False and tr = tr and n = n]
  consider c' l' where "place_loop n s False tr c k s e = Some (Inr (c', k, l', e))"
      "epoch_fits R C n k e c' l'" "l' = s \<or> l' = transposed s"
    | "place_loop n s False tr c k s e = Some (Inl FailToPlaceOnCurrentEpoch)"
      "\<forall>d. \<not> epoch_fits R C n k e d s" by blast
  then show ?thesis
  proof cases
    case 1
    have "l' = (if rows s \<noteq> rows l' then transposed s else s)"
      by (rule shape_of_transposition [OF 1(3)])
    with 1(2) have "epoch_fits R C n k e c' (if rows s \<noteq> rows l' then transposed s else s)" by metis
    with 1(1) show ?thesis by (intro disjI1 exI [of _ c'] exI [of _ "rows s \<noteq> rows l'"]) (simp add: gpc)
  next
    case 2
    then show ?thesis by (simp add: gpc)
  qed
qed

lemma single_op_on_grid:
  assumes g: "wf_grid R C g" and n: "map_of shapes n = Some s" and s: "placeable R C s"
  shows "(\<exists>p c. place_on_grid_helper [n] shapes [] enable (first_strategy tri) g None True offs [] =
              Some (Inr ([p], c)) \<and> dgp_op_name p = n \<and>
            fits R C g (range_start (dgp_placed_cores p)) (occupied shapes p) \<and>
            range_end (dgp_placed_cores p) =
              coord_add_shape (range_start (dgp_placed_cores p)) (occupied shapes p)) \<or>
         (place_on_grid_helper [n] shapes [] enable (first_strategy tri) g None True offs [] =
            Some (Inl FailToPlaceOnCurrentEpoch) \<and> (\<forall>d. \<not> fits R C g d s))"
proof -
  define e where "e = add_constraints (initialize_device_grid_from (mk_epoch_grids R C) 0 g) []"
  note e = single_epoch_grids [OF g, folded e_def]
  have helper: "place_on_grid_helper [n] shapes [] enable (first_strategy tri) g None True offs [] =
      place_ops shapes [] enable (first_strategy tri) True offs [n] (mk_coord 0 0) 0 None [] e"
    by (simp add: place_on_grid_helper_def at0_size_wf [OF g] wf_gridD(1) [OF g] Let_def e_def
        get_device_grid_config_from_strategy_def del: place_ops.simps)
  have strat: "\<not> allow_increment (first_strategy tri)"
    by (simp add: get_device_grid_config_from_strategy_def)
  have nw: "no_wrap (mk_coord 0 0) s"
    using s wf_gridD(2) [OF g] by (auto simp: placeable_def small_shape_def no_wrap_def)
  from coordinate_without_overrides [OF e(1,4) s nw, of n enable] show ?thesis
  proof (elim disjE exE conjE)
    fix c' t
    let ?q = "if t then transposed s else s"
    let ?p = "\<lparr>dgp_op_name = n, device_grid_index = 0,
               dgp_placed_cores = mk_range c' (coord_add_shape c' ?q), dgp_grid_transpose = t\<rparr>"
    assume gpc: "get_placed_coordinate n s e 0 (Some (mk_coord 0 0)) False enable [] = Some (Inr (c', 0, t, e))"
      and fit: "epoch_fits R C n 0 e c' ?q"
    obtain h where "eg_fill e 0 c' ?q = Inr h" using eg_fill_paint [OF e(1) fit] by metis
    then have "place_ops shapes [] enable (first_strategy tri) True offs [n] (mk_coord 0 0) 0 None [] e =
        Some (Inr ([?p], c'))"
      using gpc n strat by (auto split: option.splits)
    moreover have "occupied shapes ?p = ?q" using n by (simp add: occupied_def)
    ultimately show ?thesis
      using fit helper by (intro disjI1 exI [of _ ?p] exI [of _ c']) (simp add: e(2))
  next
    assume gpc: "get_placed_coordinate n s e 0 (Some (mk_coord 0 0)) False enable [] =
        Some (Inl FailToPlaceOnCurrentEpoch)" and "\<forall>d. \<not> epoch_fits R C n 0 e d s"
    then have "\<forall>d. \<not> fits R C g d s" by (simp add: e(2))
    moreover have "place_ops shapes [] enable (first_strategy tri) True offs [n] (mk_coord 0 0) 0 None [] e =
        Some (Inl FailToPlaceOnCurrentEpoch)"
      using gpc n strat by (auto split: option.splits)
    ultimately show ?thesis using helper by simp
  qed
qed

section \<open>Filling one epoch\<close>

definition grid_rows :: "PlacerConfig \<Rightarrow> nat" where
  "grid_rows cfg = get_available_rows_on_device cfg"

definition grid_columns :: "PlacerConfig \<Rightarrow> nat" where
  "grid_columns cfg = columns (device_grid_shape cfg)"

text \<open>No user overrides, single-op groups, every op fits an empty grid.\<close>

definition single_fitting_op :: "PlacerConfig \<Rightarrow> OpGroupToPlace \<Rightarrow> bool" where
  "single_fitting_op cfg grp \<longleftrightarrow>
     (\<exists>n s. op_names grp = [n] \<and> map_of (op_to_grid_shape cfg) n = Some s \<and>
        placeable (grid_rows cfg) (grid_columns cfg) s \<and>
        rows s \<le> grid_rows cfg \<and> columns s \<le> grid_columns cfg)"

definition plain_config :: "PlacerConfig \<Rightarrow> bool" where
  "plain_config cfg \<longleftrightarrow>
     op_to_overrides cfg = [] \<and> 0 < grid_rows cfg \<and> grid_rows cfg < 2 ^ 32 \<and> grid_columns cfg < 2 ^ 32"

abbreviation legal_on :: "PlacerConfig \<Rightarrow> DeviceGridPlacement list \<Rightarrow> DeviceGrid \<Rightarrow> bool" where
  "legal_on cfg \<equiv> legal (grid_rows cfg) (grid_columns cfg) (op_to_grid_shape cfg)"

definition steady :: "PlacerConfig \<Rightarrow> EpochDevicePlacer \<Rightarrow> bool" where
  "steady cfg s \<longleftrightarrow>
     op_groups_to_place_again s = [] \<and> op_to_device_grid_constraint s = [] \<and>
     (\<forall>grp \<in> set (remaining_op_groups s). single_fitting_op cfg grp) \<and>
     legal_on cfg (active_op_placements s) (active_device_grid s)"

abbreviation names :: "OpGroupToPlace list \<Rightarrow> string list" where
  "names grps \<equiv> concat (map op_names grps)"

lemma fresh_grid_legal: "plain_config cfg \<Longrightarrow> legal_on cfg [] (fresh_grid cfg)"
  unfolding plain_config_def fresh_grid_def grid_rows_def grid_columns_def
  by (intro legal_empty) auto

lemma fits_empty_epoch:
  assumes "legal R C shapes [] g" "rows s \<le> R" "columns s \<le> C"
  shows "fits R C g (mk_coord 0 0) s"
  using assms by (auto simp: legal_def fits_def)

lemma fill_placement_one:
  assumes "wf_grid R C g" "map_of shapes (dgp_op_name p) = Some s"
    and "fits R C g (range_start (dgp_placed_cores p)) (occupied shapes p)"
  shows "fold_res (fill_placement shapes) [p] g = Inr (paint (covers shapes p) g)"
proof -
  have "fill_device_grid_with_placement g (range_start (dgp_placed_cores p)) (occupied shapes p) =
      Inr (paint (covers shapes p) g)"
    by (rule fill_paint [OF assms(1)]) (use assms(3) in \<open>auto simp: fits_def\<close>)
  then show ?thesis using assms(2) by (simp add: fill_placement_def occupied_def)
qed

lemma epoch_step_plain:
  assumes cfg: "plain_config cfg" and s: "steady cfg s" and rem: "remaining_op_groups s = grp # rest"
  shows "(epoch_step env cfg s = Some (Inr (complete_epoch cfg s)) \<and> active_op_placements s \<noteq> []) \<or>
         (\<exists>s' p. epoch_step env cfg s = Some (Inr (None, s')) \<and> steady cfg s' \<and>
            remaining_op_groups s' = rest \<and>
            active_op_placements s' = active_op_placements s @ [p] \<and> op_names grp = [dgp_op_name p])"
proof -
  let ?R = "grid_rows cfg" and ?C = "grid_columns cfg" and ?shapes = "op_to_grid_shape cfg"
  from s rem obtain n sh where n: "op_names grp = [n]" "map_of ?shapes n = Some sh"
    "placeable ?R ?C sh" "rows sh \<le> ?R" "columns sh \<le> ?C"
    by (auto simp: steady_def single_fitting_op_def)
  have st: "op_groups_to_place_again s = []" "op_to_device_grid_constraint s = []"
    and leg: "legal_on cfg (active_op_placements s) (active_device_grid s)"
    using s by (simp_all add: steady_def)
  then have g: "wf_grid ?R ?C (active_device_grid s)" by (simp add: legal_def)
  have ov: "op_to_overrides cfg = []" using cfg by (simp add: plain_config_def)
  have grp: "current_group s = grp" using st rem by (simp add: current_group_def)
  show ?thesis
  proof (cases "increment_epoch grp \<and> active_op_placements s \<noteq> []")
    case True
    then show ?thesis using n grp by (simp add: epoch_step_def Let_def)
  next
    case False
    from single_op_on_grid [OF g n(2,3), of "enable_auto_transposing_placement cfg"
        "PYBUDA_TRIPLET_PLACEMENT env" "op_name_to_relative_offset_from_first_op grp"]
    show ?thesis
    proof (elim disjE exE conjE)
      fix p c
      assume place: "place_on_grid_helper [n] ?shapes [] (enable_auto_transposing_placement cfg)
          (first_strategy (PYBUDA_TRIPLET_PLACEMENT env)) (active_device_grid s) None True
          (op_name_to_relative_offset_from_first_op grp) [] = Some (Inr ([p], c))"
        and p: "dgp_op_name p = n"
        and fit: "fits ?R ?C (active_device_grid s) (range_start (dgp_placed_cores p)) (occupied ?shapes p)"
        and rend: "range_end (dgp_placed_cores p) =
          coord_add_shape (range_start (dgp_placed_cores p)) (occupied ?shapes p)"
      have sp: "map_of ?shapes (dgp_op_name p) = Some sh" using n p by simp
      let ?g = "paint (covers ?shapes p) (active_device_grid s)"
      have "edp_place_on_grid env cfg grp s = Some (Inr ([p], s\<lparr>active_device_grid := ?g\<rparr>))"
        using place fill_placement_one [OF g sp fit] n st ov
        by (simp add: edp_place_on_grid_def del: fold_res.simps)
      then have step: "epoch_step env cfg s = Some (Inr (None, s\<lparr>active_device_grid := ?g,
          active_op_placements := active_op_placements s @ [p],
          placed_op_groups := placed_op_groups s @ [grp], remaining_op_groups := rest\<rparr>))"
        using n grp False st rem by (auto simp: epoch_step_def Let_def accept_group_def)
      have "legal_on cfg (active_op_placements s @ [p]) ?g"
        by (rule legal_extend [OF leg sp fit rend])
      then show ?thesis
        using step s rem n(1) p by (intro disjI2 exI) (auto simp: steady_def)
    next
      assume place: "place_on_grid_helper [n] ?shapes [] (enable_auto_transposing_placement cfg)
          (first_strategy (PYBUDA_TRIPLET_PLACEMENT env)) (active_device_grid s) None True
          (op_name_to_relative_offset_from_first_op grp) [] = Some (Inl FailToPlaceOnCurrentEpoch)"
        and none: "\<forall>d. \<not> fits ?R ?C (active_device_grid s) d sh"
      have "edp_place_on_grid env cfg grp s = Some (Inl FailToPlaceOnCurrentEpoch)"
        using place n st ov by (simp add: edp_place_on_grid_def)
      then have "epoch_step env cfg s = Some (Inr (complete_epoch cfg s))"
        using n grp False by (auto simp: epoch_step_def Let_def)
      moreover have "active_op_placements s \<noteq> []"
        using none leg fits_empty_epoch n(4,5) by metis
      ultimately show ?thesis by simp
    qed
  qed
qed

lemma complete_epoch_steady:
  assumes "plain_config cfg" "steady cfg s"
  shows "steady cfg (clear_state cfg s)" "remaining_op_groups (clear_state cfg s) = remaining_op_groups s"
    "active_op_placements (clear_state cfg s) = []"
  using assms fresh_grid_legal by (auto simp: steady_def clear_state_def)

text \<open>One epoch: it takes a prefix of the queue, nonempty when there is one, and is legal.\<close>

definition legal_epoch :: "PlacerConfig \<Rightarrow> EpochDeviceGridPlacement \<Rightarrow> bool" where
  "legal_epoch cfg ep \<longleftrightarrow>
     edgp_op_placements ep \<noteq> [] \<and> legal_on cfg (edgp_op_placements ep) (edgp_device_grid ep)"

lemma epoch_loop_plain:
  assumes cfg: "plain_config cfg" and s: "steady cfg s"
  shows "(epoch_loop env cfg s = Some (Inr (None, s)) \<and> remaining_op_groups s = [] \<and>
            active_op_placements s = []) \<or>
         (\<exists>ep s' pre. epoch_loop env cfg s = Some (Inr (Some ep, s')) \<and> legal_epoch cfg ep \<and>
            steady cfg s' \<and> active_op_placements s' = [] \<and>
            remaining_op_groups s = pre @ remaining_op_groups s' \<and>
            map dgp_op_name (edgp_op_placements ep) =
              map dgp_op_name (active_op_placements s) @ names pre)"
  using s
proof (induction "remaining_op_groups s" arbitrary: s)
  case Nil
  then have st: "op_groups_to_place_again s = []" "legal_on cfg (active_op_placements s) (active_device_grid s)"
    by (simp_all add: steady_def)
  show ?case
  proof (cases "active_op_placements s = []")
    case True
    then show ?thesis using Nil st by (subst epoch_loop.simps) simp
  next
    case False
    then show ?thesis
      using Nil st complete_epoch_steady [OF cfg Nil(2)]
      by (intro disjI2) (subst epoch_loop.simps, simp add: complete_epoch_def legal_epoch_def)
  qed
next
  case (Cons grp rest)
  have leg: "legal_on cfg (active_op_placements s) (active_device_grid s)"
    using Cons.prems by (simp add: steady_def)
  from epoch_step_plain [OF cfg Cons.prems Cons.hyps(2) [symmetric], of env] show ?case
  proof (elim disjE exE conjE)
    assume "epoch_step env cfg s = Some (Inr (complete_epoch cfg s))" "active_op_placements s \<noteq> []"
    then show ?thesis
      using Cons.hyps(2) [symmetric] leg complete_epoch_steady [OF cfg Cons.prems]
      by (intro disjI2) (subst epoch_loop.simps, simp add: complete_epoch_def legal_epoch_def)
  next
    fix s' p
    assume step: "epoch_step env cfg s = Some (Inr (None, s'))" and s': "steady cfg s'"
      "remaining_op_groups s' = rest" "active_op_placements s' = active_op_placements s @ [p]"
      "op_names grp = [dgp_op_name p]"
    have loop: "epoch_loop env cfg s = epoch_loop env cfg s'"
      using step Cons.hyps(2) [symmetric] by (subst epoch_loop.simps) simp
    from Cons.hyps(1) [OF s'(2) [symmetric] s'(1)] s'(3) obtain ep s'' pre where
      "epoch_loop env cfg s' = Some (Inr (Some ep, s''))" "legal_epoch cfg ep" "steady cfg s''"
      "active_op_placements s'' = []" "rest = pre @ remaining_op_groups s''"
      "map dgp_op_name (edgp_op_placements ep) = map dgp_op_name (active_op_placements s') @ names pre"
      using s'(2) by auto
    then show ?thesis
      using loop s' Cons.hyps(2) [symmetric]
      by (intro disjI2 exI [of _ ep] exI [of _ s''] exI [of _ "grp # pre"]) simp
  qed
qed

lemma collect_epochs_plain:
  assumes cfg: "plain_config cfg" and s: "steady cfg s" "active_op_placements s = []"
  shows "\<exists>eps. collect_epochs env cfg s acc = Some (Inr (acc @ eps)) \<and>
           (\<forall>ep \<in> set eps. legal_epoch cfg ep) \<and>
           concat (map (\<lambda>ep. map dgp_op_name (edgp_op_placements ep)) eps) = names (remaining_op_groups s)"
  using s
proof (induction "length (remaining_op_groups s)" arbitrary: s acc rule: less_induct)
  case less
  let ?s = "s\<lparr>active_device_grid := fresh_grid cfg\<rparr>"
  have s0: "steady cfg ?s" using less.prems fresh_grid_legal [OF cfg] by (simp add: steady_def)
  from epoch_loop_plain [OF cfg s0, of env] show ?case
  proof (elim disjE exE conjE)
    assume "epoch_loop env cfg ?s = Some (Inr (None, ?s))" "remaining_op_groups ?s = []"
    then show ?thesis
      by (subst collect_epochs.simps) (simp add: get_next_epoch_def)
  next
    fix ep s' pre
    assume ep: "epoch_loop env cfg ?s = Some (Inr (Some ep, s'))" "legal_epoch cfg ep"
      "steady cfg s'" "active_op_placements s' = []"
      "remaining_op_groups ?s = pre @ remaining_op_groups s'"
      "map dgp_op_name (edgp_op_placements ep) = map dgp_op_name (active_op_placements ?s) @ names pre"
    then have nm: "map dgp_op_name (edgp_op_placements ep) = names pre" using less.prems(2) by simp
    moreover have "edgp_op_placements ep \<noteq> []" using ep(2) by (simp add: legal_epoch_def)
    ultimately have "pre \<noteq> []" by auto
    then have "length (remaining_op_groups s') < length (remaining_op_groups s)" using ep(5) by simp
    from less.hyps [OF this ep(3,4), of "acc @ [ep]"] obtain eps where
      "collect_epochs env cfg s' (acc @ [ep]) = Some (Inr ((acc @ [ep]) @ eps))"
      "\<forall>ep \<in> set eps. legal_epoch cfg ep"
      "concat (map (\<lambda>ep. map dgp_op_name (edgp_op_placements ep)) eps) = names (remaining_op_groups s')"
      by blast
    then show ?thesis
      using ep nm
      by (intro exI [of _ "ep # eps"]) (subst collect_epochs.simps, simp add: get_next_epoch_def)
  qed
qed

section \<open>The whole workload\<close>

lemma edp_place_plain:
  assumes "plain_config cfg" "\<forall>grp \<in> set op_groups. single_fitting_op cfg grp"
  shows "\<exists>eps. edp_place env cfg op_groups = Some (Inr eps) \<and>
           (\<forall>ep \<in> set eps. legal_epoch cfg ep) \<and>
           map dgp_op_name (concat (map edgp_op_placements eps)) = names op_groups"
proof -
  let ?s = "enqueue_workload op_groups mk_epoch_placer"
  let ?t = "?s\<lparr>active_device_grid := fresh_grid cfg\<rparr>"
  have "steady cfg ?t"
    using assms(2) fresh_grid_legal [OF assms(1)]
    by (simp add: steady_def enqueue_workload_def mk_epoch_placer_def)
  moreover have "active_op_placements ?t = []" "remaining_op_groups ?t = op_groups"
    by (simp_all add: enqueue_workload_def mk_epoch_placer_def)
  ultimately obtain eps where eps: "collect_epochs env cfg ?t [] = Some (Inr eps)"
    "\<forall>ep \<in> set eps. legal_epoch cfg ep"
    "concat (map (\<lambda>ep. map dgp_op_name (edgp_op_placements ep)) eps) = names op_groups"
    using collect_epochs_plain [OF assms(1), of ?t env "[]"] by auto
  have "collect_epochs env cfg ?s [] = collect_epochs env cfg ?t []"
    by (subst (1 2) collect_epochs.simps) (simp add: get_next_epoch_def)
  with eps show ?thesis by (simp add: edp_place_def map_concat comp_def)
qed

text \<open>
  C1 (liveness). With single-op groups that fit the device grid and no user overrides,
  \<open>EpochDevicePlacer::place\<close> returns; the epochs it returns contain every op of the workload exactly
  as often and in the order it was queued; no epoch is empty, and in each epoch the ops lie inside
  the grid, do not overlap, have exclusive ends that match their (possibly turned) shapes, and are
  exactly the taken cores of the epoch's device grid.
\<close>

theorem epoch_placer_places_everything:
  assumes "plain_config cfg" "\<forall>grp \<in> set op_groups. single_fitting_op cfg grp"
  shows "\<exists>eps. edp_place env cfg op_groups = Some (Inr eps) \<and>
           (\<forall>ep \<in> set eps. legal_epoch cfg ep) \<and>
           map dgp_op_name (concat (map edgp_op_placements eps)) = names op_groups"
  by (rule edp_place_plain [OF assms])

theorem epoch_placer_places_everything_witness:
  "\<exists>eps. edp_place sample_env
      (sample_config GRAYSKULL (mk_shape 2 2) [(''a'', mk_shape 2 1), (''b'', mk_shape 1 2)] [])
      [sample_group 0 ''a'', sample_group 1 ''b''] = Some (Inr eps) \<and>
    map dgp_op_name (concat (map edgp_op_placements eps)) = [''a'', ''b'']"
proof -
  let ?cfg = "sample_config GRAYSKULL (mk_shape 2 2) [(''a'', mk_shape 2 1), (''b'', mk_shape 1 2)] []"
  let ?w = "[sample_group 0 ''a'', sample_group 1 ''b'']"
  have "plain_config ?cfg"
    by (simp add: plain_config_def grid_rows_def grid_columns_def get_available_rows_on_device_def
        sample_config_def sub32_def)
  moreover have "\<forall>grp \<in> set ?w. single_fitting_op ?cfg grp"
    by (simp add: single_fitting_op_def sample_group_def sample_config_def grid_rows_def grid_columns_def
        get_available_rows_on_device_def sub32_def placeable_def nonempty_shape_def small_shape_def)
  ultimately obtain eps where "edp_place sample_env ?cfg ?w = Some (Inr eps)"
    "map dgp_op_name (concat (map edgp_op_placements eps)) = names ?w"
    using epoch_placer_places_everything [of ?cfg ?w sample_env] by blast
  moreover have "names ?w = [''a'', ''b'']" by (simp add: sample_group_def)
  ultimately show ?thesis by metis
qed

definition sample_shapes :: shapes where
  "sample_shapes = [(''g'', mk_shape 1 1), (''a'', mk_shape 1 1), (''b'', mk_shape 1 1)]"

definition unit_placement :: "string \<Rightarrow> nat \<Rightarrow> DeviceGridPlacement" where
  "unit_placement n j =
     \<lparr>dgp_op_name = n, device_grid_index = 0,
      dgp_placed_cores = mk_range (mk_coord 0 j) (mk_coord 1 (j + 1)), dgp_grid_transpose = False\<rparr>"

text \<open>
  Overrides that can all be satisfied are rejected. On a grid of one row and three
  columns, with \<open>a\<close> pinned to column 1 and \<open>b\<close> to column 0 and \<open>g\<close> free, the placement g, a, b in
  columns 2, 1, 0 exists; but \<open>place\<close> throws. Placing \<open>a\<close> after a replay, while it is itself still
  queued for replay, hits the assertion that the replay queue is empty.
\<close>

theorem satisfiable_overrides_rejected:
  "legal 1 3 sample_shapes [unit_placement ''g'' 2, unit_placement ''a'' 1, unit_placement ''b'' 0]
     [[1, 1, 1]] \<and>
   edp_place sample_env
     (sample_config GRAYSKULL (mk_shape 1 3) sample_shapes
        [(''a'', start_override (mk_coord 0 1)), (''b'', start_override (mk_coord 0 0))])
     [sample_group 0 ''g'', sample_group 1 ''a'', sample_group 2 ''b''] = Some (Inl RuntimeError)"
proof
  show "legal 1 3 sample_shapes
      [unit_placement ''g'' 2, unit_placement ''a'' 1, unit_placement ''b'' 0] [[1, 1, 1]]"
    unfolding legal_def
    by (intro conjI)
      (auto simp: wf_grid_def inside_def occupied_def in_rect_def sample_shapes_def unit_placement_def
        numeral_3_eq_3 less_Suc_eq)
  show "edp_place sample_env
     (sample_config GRAYSKULL (mk_shape 1 3) sample_shapes
        [(''a'', start_override (mk_coord 0 1)), (''b'', start_override (mk_coord 0 0))])
     [sample_group 0 ''g'', sample_group 1 ''a'', sample_group 2 ''b''] = Some (Inl RuntimeError)"
    by code_simp
qed

text \<open>
  An override that only asks for a transposition makes \<open>place\<close> throw
  \<open>bad_optional_access\<close>: when a later override turns into a constraint, the conflict check reads the
  grid start of every override in the epoch, also of those that have none.
\<close>

theorem transpose_override_crashes:
  "edp_place sample_env
     (sample_config GRAYSKULL (mk_shape 1 3) sample_shapes
        [(''a'', force_op_transpose), (''b'', start_override (mk_coord 0 0))])
     [sample_group 0 ''g'', sample_group 1 ''a'', sample_group 2 ''b''] = Some (Inl BadOptionalAccess)"
  by code_simp

end
