(* ===== verification/Chip_Placer_Facts.thy ===== *)
theory Chip_Placer_Facts
  imports Chip_Placer Lowering_Facts Epoch_Placer_Facts
begin

text \<open>
  \<open>place_onto_chip\<close> returns a solution in which every op of the epoch type is placed once, on free
  cores, in consecutive epochs. The colouring check of \<open>validate_placer_solution\<close> is shown to accept
  exactly the solutions without overlap, so it never fires on what the placer computes.
\<close>

section \<open>Colouring a grid\<close>

definition core_of :: "OpPlacement \<Rightarrow> nat \<Rightarrow> nat \<Rightarrow> bool" where
  "core_of p i j \<longleftrightarrow>
     row (range_start (placed_cores p)) \<le> i \<and> i < row (range_end (placed_cores p)) \<and>
     col (range_start (placed_cores p)) \<le> j \<and> j < col (range_end (placed_cores p))"

definition on_device :: "nat \<Rightarrow> nat \<Rightarrow> OpPlacement \<Rightarrow> bool" where
  "on_device R C p \<longleftrightarrow> row (range_end (placed_cores p)) \<le> R \<and> col (range_end (placed_cores p)) \<le> C"

definition share_core :: "OpPlacement \<Rightarrow> OpPlacement \<Rightarrow> bool" where
  "share_core p q \<longleftrightarrow> (\<exists>i j. core_of p i j \<and> core_of q i j)"

lemma fold_res_nested:
  "fold_res (\<lambda>x. fold_res (f x) ys) xs s = fold_res (\<lambda>(x, y). f x y) (List.product xs ys) s"
proof (induction xs arbitrary: s)
  case (Cons x xs)
  have "fold_res (\<lambda>(x, y). f x y) (map (Pair x) ys) s = fold_res (f x) ys s" for s
    by (induction ys arbitrary: s) (auto intro: res_bind_cong)
  moreover have "fold_res (\<lambda>x. fold_res (f x) ys) xs = fold_res (\<lambda>(x, y). f x y) (List.product xs ys)"
    by (rule ext) (rule Cons.IH)
  ultimately show ?case by (simp add: fold_res_append)
qed simp

definition colour :: "nat \<Rightarrow> (nat \<Rightarrow> nat \<Rightarrow> bool) \<Rightarrow> DeviceGrid \<Rightarrow> DeviceGrid" where
  "colour k P g = map (\<lambda>i. map (\<lambda>j. if P i j then k else g ! i ! j) [0..<length (g ! i)]) [0..<length g]"

lemma wf_grid_colour [simp]: "wf_grid R C g \<Longrightarrow> wf_grid R C (colour k P g)"
  by (auto simp: wf_grid_def colour_def)

lemma colour_cell [simp]:
  "wf_grid R C g \<Longrightarrow> i < R \<Longrightarrow> j < C \<Longrightarrow> colour k P g ! i ! j = (if P i j then k else g ! i ! j)"
  by (simp add: colour_def wf_gridD)

lemma update_is_colour:
  assumes g: "wf_grid R C g" and ij: "i < R" "j < C"
  shows "g[i := (g ! i)[j := k]] = colour k (\<lambda>i' j'. i' = i \<and> j' = j) g"
proof (rule grid_eqI [of R C])
  show "wf_grid R C (g[i := (g ! i)[j := k]])"
    using g ij by (auto simp: wf_grid_def dest!: set_update_subset_insert [THEN subsetD])
qed (use g ij in \<open>auto simp: wf_gridD nth_list_update\<close>)

definition known_colour :: "(string \<times> OpPlacement) list \<Rightarrow> (nat \<times> string) list \<Rightarrow> nat \<Rightarrow> bool" where
  "known_colour placements ids x \<longleftrightarrow> (\<exists>op. map_of ids x = Some op \<and> map_of placements op \<noteq> None)"

lemma fill_in_cells:
  assumes "wf_grid R C g" "\<forall>(i, j) \<in> set cs. i < R \<and> j < C" "distinct cs" "known_colour placements ids k"
    and "\<forall>i < R. \<forall>j < C. g ! i ! j \<noteq> 0 \<longrightarrow> known_colour placements ids (g ! i ! j)"
  shows "fold_res (\<lambda>(i, j). fill_in_cell placements ids i j k) cs g =
     (if \<exists>(i, j) \<in> set cs. g ! i ! j \<noteq> 0 then Inl RuntimeError else Inr (colour k (\<lambda>i j. (i, j) \<in> set cs) g))"
  using assms
proof (induction cs arbitrary: g)
  case Nil
  have "colour k (\<lambda>i j. False) g = g" by (rule grid_eqI [of R C]) (use Nil in auto)
  then show ?case by simp
next
  case (Cons c cs)
  obtain i j where c: "c = (i, j)" by force
  with Cons.prems have ij: "i < R" "j < C" by auto
  note cell = cell_at_wf [OF Cons.prems(1) ij]
  show ?case
  proof (cases "g ! i ! j = 0")
    case False
    with Cons.prems(5) ij obtain op p where "map_of ids (g ! i ! j) = Some op" "map_of placements op = Some p"
      by (fastforce simp: known_colour_def)
    with False show ?thesis by (auto simp: c fill_in_cell_def cell)
  next
    case True
    let ?g = "colour k (\<lambda>i' j'. i' = i \<and> j' = j) g"
    have step: "fill_in_cell placements ids i j k g = Inr ?g"
      using True by (simp add: fill_in_cell_def cell update_is_colour [OF Cons.prems(1) ij])
    have g: "wf_grid R C ?g" using Cons.prems(1) by simp
    have same: "?g ! i' ! j' = g ! i' ! j'" if "(i', j') \<in> set cs" for i' j'
    proof -
      from that Cons.prems(2,3) have "(i', j') \<noteq> (i, j)" "i' < R" "j' < C" by (auto simp: c)
      then show ?thesis using Cons.prems(1) by auto
    qed
    have known: "\<forall>i' < R. \<forall>j' < C. ?g ! i' ! j' \<noteq> 0 \<longrightarrow> known_colour placements ids (?g ! i' ! j')"
      using Cons.prems(1,4,5) by auto
    have rest: "fold_res (\<lambda>(i, j). fill_in_cell placements ids i j k) cs ?g =
       (if \<exists>(i, j) \<in> set cs. ?g ! i ! j \<noteq> 0 then Inl RuntimeError else Inr (colour k (\<lambda>i j. (i, j) \<in> set cs) ?g))"
      by (rule Cons.IH [OF g _ _ Cons.prems(4) known]) (use Cons.prems in auto)
    have "(\<exists>(i', j') \<in> set cs. ?g ! i' ! j' \<noteq> 0) \<longleftrightarrow> (\<exists>(i', j') \<in> set cs. g ! i' ! j' \<noteq> 0)"
      by (intro bex_cong [OF refl]) (clarsimp simp: same)
    then have "(\<exists>(i', j') \<in> set cs. ?g ! i' ! j' \<noteq> 0) \<longleftrightarrow> (\<exists>(i', j') \<in> set (c # cs). g ! i' ! j' \<noteq> 0)"
      by (simp add: c True)
    moreover have "colour k (\<lambda>i' j'. (i', j') \<in> set cs) ?g = colour k (\<lambda>i' j'. (i', j') \<in> set (c # cs)) g"
      by (rule grid_eqI [of R C])
         (use Cons.prems(1) in \<open>auto simp: c colour_cell [OF g] simp del: colour_cell
            intro: wf_grid_colour [OF wf_grid_colour]\<close>, simp_all add: colour_cell [OF Cons.prems(1)])
    ultimately show ?thesis using step rest by (simp add: c)
  qed
qed

lemma fill_in_device_grid_eq:
  assumes "wf_grid R C g" "on_device R C p" "known_colour placements ids k"
    and "\<forall>i < R. \<forall>j < C. g ! i ! j \<noteq> 0 \<longrightarrow> known_colour placements ids (g ! i ! j)"
  shows "fill_in_device_grid placements ids p k g =
     (if \<exists>i j. core_of p i j \<and> g ! i ! j \<noteq> 0 then Inl RuntimeError else Inr (colour k (core_of p) g))"
proof -
  define cs where "cs = List.product [row (range_start (placed_cores p))..<row (range_end (placed_cores p))]
     [col (range_start (placed_cores p))..<col (range_end (placed_cores p))]"
  have mem: "(i, j) \<in> set cs \<longleftrightarrow> core_of p i j" for i j by (auto simp: core_of_def cs_def)
  have "fill_in_device_grid placements ids p k g =
     (if \<exists>(i, j) \<in> set cs. g ! i ! j \<noteq> 0 then Inl RuntimeError else Inr (colour k (\<lambda>i j. (i, j) \<in> set cs) g))"
    unfolding fill_in_device_grid_def Let_def fold_res_nested cs_def
    by (rule fill_in_cells) (use assms in \<open>auto simp: on_device_def distinct_product\<close>)
  moreover have "(\<exists>(i, j) \<in> set cs. g ! i ! j \<noteq> 0) \<longleftrightarrow> (\<exists>i j. core_of p i j \<and> g ! i ! j \<noteq> 0)"
    unfolding mem [symmetric] by blast
  ultimately show ?thesis by (simp add: mem)
qed

text \<open>One epoch: placement number k is coloured k, and two placements may not share a core.\<close>

lemma colour_epoch:
  assumes "wf_grid R C g" "\<forall>p \<in> set ps. on_device R C p"
    and "\<forall>p \<in> set ps. map_of placements (placement_name p) \<noteq> None"
    and "\<forall>x. 0 < x \<and> x < n \<longrightarrow> known_colour placements ids x"
    and "\<forall>i < R. \<forall>j < C. g ! i ! j < n" "0 < n" "n + length ps < 2 ^ 32"
    and "\<forall>i < R. \<forall>j < C. g ! i ! j \<noteq> 0 \<longleftrightarrow> (\<exists>q \<in> Q. core_of q i j)" "\<forall>q \<in> Q. on_device R C q"
  shows "(case fold_res (colour_placement placements) ps (n, ids, g) of
       Inr _ \<Rightarrow> sorted_wrt (\<lambda>p q. \<not> share_core p q) ps \<and> (\<forall>p \<in> set ps. \<forall>q \<in> Q. \<not> share_core q p)
     | Inl e \<Rightarrow> e = RuntimeError \<and>
         \<not> (sorted_wrt (\<lambda>p q. \<not> share_core p q) ps \<and> (\<forall>p \<in> set ps. \<forall>q \<in> Q. \<not> share_core q p)))"
  using assms
proof (induction ps arbitrary: n ids g Q)
  case Nil
  then show ?case by simp
next
  case (Cons p ps)
  let ?ids = "AList.update n (placement_name p) ids"
  have ids: "known_colour placements ?ids x" if "0 < x" "x \<le> n" for x
    using that Cons.prems(3,4) by (auto simp: known_colour_def le_less)
  have "known_colour placements ?ids (g ! i ! j)" if "i < R" "j < C" "g ! i ! j \<noteq> 0" for i j
    using that Cons.prems(5) by (intro ids) (auto intro: less_imp_le)
  then have fill: "fill_in_device_grid placements ?ids p n g =
     (if \<exists>i j. core_of p i j \<and> g ! i ! j \<noteq> 0 then Inl RuntimeError else Inr (colour n (core_of p) g))"
    using Cons.prems(2,6) ids by (intro fill_in_device_grid_eq [OF Cons.prems(1)]) auto
  have core: "i < R \<and> j < C" if "core_of p i j" for i j
    using that Cons.prems(2) by (auto simp: core_of_def on_device_def)
  have clash: "(\<exists>i j. core_of p i j \<and> g ! i ! j \<noteq> 0) \<longleftrightarrow> (\<exists>q \<in> Q. share_core q p)"
    using Cons.prems(8) core unfolding share_core_def by blast
  show ?case
  proof (cases "\<exists>q \<in> Q. share_core q p")
    case True
    then show ?thesis using fill clash by (auto simp: colour_placement_def)
  next
    case False
    let ?g = "colour n (core_of p) g"
    have g: "wf_grid R C ?g" using Cons.prems(1) by simp
    have step: "colour_placement placements p (n, ids, g) = Inr (Suc n, ?ids, ?g)"
      using False fill clash Cons.prems(7) by (simp add: colour_placement_def u32_simps)
    have cell: "?g ! i ! j = (if core_of p i j then n else g ! i ! j)" if "i < R" "j < C" for i j
      using that Cons.prems(1) by simp
    have small: "\<forall>i < R. \<forall>j < C. ?g ! i ! j < Suc n"
      using Cons.prems(5) by (auto simp: cell intro: less_SucI)
    have cover: "\<forall>i < R. \<forall>j < C. ?g ! i ! j \<noteq> 0 \<longleftrightarrow> (\<exists>q \<in> insert p Q. core_of q i j)"
      using Cons.prems(6,8) by (auto simp: cell)
    have rest: "(case fold_res (colour_placement placements) ps (Suc n, ?ids, ?g) of
         Inr _ \<Rightarrow> sorted_wrt (\<lambda>p q. \<not> share_core p q) ps \<and> (\<forall>r \<in> set ps. \<forall>q \<in> insert p Q. \<not> share_core q r)
       | Inl e \<Rightarrow> e = RuntimeError \<and>
           \<not> (sorted_wrt (\<lambda>p q. \<not> share_core p q) ps \<and> (\<forall>r \<in> set ps. \<forall>q \<in> insert p Q. \<not> share_core q r)))"
      by (rule Cons.IH [OF g _ _ _ small _ _ cover]) (use Cons.prems ids in auto)
    show ?thesis
      using rest False by (auto simp: step split: sum.splits)
  qed
qed

lemma colour_empty_grid:
  assumes "0 < R" "R < 2 ^ 32" "C < 2 ^ 32" "\<forall>p \<in> set ps. on_device R C p" "1 + length ps < 2 ^ 32"
    and "\<forall>p \<in> set ps. map_of placements (placement_name p) \<noteq> None"
  shows "res_bind (fold_res (colour_placement placements) ps (1, [], create_empty_device_grid R C)) (\<lambda>_. Inr ()) =
     (if sorted_wrt (\<lambda>p q. \<not> share_core p q) ps then Inr () else Inl RuntimeError)"
  using colour_epoch [of R C "create_empty_device_grid R C" ps placements 1 "[]" "{}"] assms
  by (cases "fold_res (colour_placement placements) ps (1, [], create_empty_device_grid R C)")
     (auto simp del: One_nat_def)

lemma validate_placer_solution_eq:
  assumes "0 < get_available_rows_on_device cfg"
    and "get_available_rows_on_device cfg \<le> rows (device_grid_shape cfg)"
    and "rows (device_grid_shape cfg) < 2 ^ 32" "columns (device_grid_shape cfg) < 2 ^ 32"
    and "\<forall>(k, ps) \<in> set (epoch_id_to_op_placement sol). 1 + length ps < 2 ^ 32 \<and>
           (\<forall>p \<in> set ps. map_of (name_to_op_placement sol) (placement_name p) = Some p)"
    and "\<forall>(n, p) \<in> set (name_to_op_placement sol).
           on_device (get_available_rows_on_device cfg) (columns (device_grid_shape cfg)) p"
  shows "validate_placer_solution env cfg sol =
     (if (\<forall>(k, ps) \<in> set (epoch_id_to_op_placement sol). sorted_wrt (\<lambda>p q. \<not> share_core p q) ps) \<and>
         (\<forall>(n, p) \<in> set (name_to_op_placement sol). \<not> (PYBUDA_NEBULA_GALAXY_PLACER env \<and>
            output_queues_on_host cfg \<and> n \<in> set (output_ops cfg) \<and> row (range_end (placed_cores p)) > 8))
      then Inr () else Inl RuntimeError)"
proof -
  let ?R = "get_available_rows_on_device cfg" and ?C = "columns (device_grid_shape cfg)"
  let ?P = "name_to_op_placement sol"
  have bounds: "(\<forall>np \<in> set ?P. placement_in_bounds env cfg np) \<longleftrightarrow>
      (\<forall>(n, p) \<in> set ?P. \<not> (PYBUDA_NEBULA_GALAXY_PLACER env \<and>
            output_queues_on_host cfg \<and> n \<in> set (output_ops cfg) \<and> row (range_end (placed_cores p)) > 8))"
    using assms(2,6) by (fastforce simp: placement_in_bounds_def on_device_def Let_def)
  have epoch: "res_bind (fold_res (colour_placement ?P) ps (1, [], create_empty_device_grid ?R ?C)) (\<lambda>_. Inr ()) =
      (if sorted_wrt (\<lambda>p q. \<not> share_core p q) ps then Inr () else Inl RuntimeError)"
    if "(k, ps) \<in> set (epoch_id_to_op_placement sol)" for k ps
  proof (rule colour_empty_grid)
    show "\<forall>p \<in> set ps. on_device ?R ?C p"
      using assms(5,6) that by (fastforce dest: map_of_SomeD)
  qed (use assms that in fastforce)+
  have "fold_res (\<lambda>(epoch, placements) _.
         res_bind (fold_res (colour_placement ?P) placements (1, [], create_empty_device_grid ?R ?C)) (\<lambda>_. Inr ()))
       es () =
     (if \<forall>(k, ps) \<in> set es. sorted_wrt (\<lambda>p q. \<not> share_core p q) ps then Inr () else Inl RuntimeError)"
    if "set es \<subseteq> set (epoch_id_to_op_placement sol)" for es
    using that by (induction es) (auto simp: epoch simp del: One_nat_def)
  from this [OF subset_refl] show ?thesis
    unfolding validate_placer_solution_def fold_res_check bounds by simp
qed

text \<open>
  C28 (functional). For placements on the available rows of the device, the check of a solution
  either accepts or throws the fatal error, and it accepts exactly the solutions in which no two
  ops of an epoch share a core (and, with the Nebula galaxy placer, the output ops stay on the
  first eight rows). The colouring is an exact overlap test.
\<close>

theorem validate_placer_solution_exact:
  assumes "0 < get_available_rows_on_device cfg"
    and "get_available_rows_on_device cfg \<le> rows (device_grid_shape cfg)"
    and "rows (device_grid_shape cfg) < 2 ^ 32" "columns (device_grid_shape cfg) < 2 ^ 32"
    and "\<forall>(k, ps) \<in> set (epoch_id_to_op_placement sol). 1 + length ps < 2 ^ 32 \<and>
           (\<forall>p \<in> set ps. map_of (name_to_op_placement sol) (placement_name p) = Some p)"
    and "\<forall>(n, p) \<in> set (name_to_op_placement sol).
           on_device (get_available_rows_on_device cfg) (columns (device_grid_shape cfg)) p"
  shows "validate_placer_solution env cfg sol =
     (if (\<forall>(k, ps) \<in> set (epoch_id_to_op_placement sol). sorted_wrt (\<lambda>p q. \<not> share_core p q) ps) \<and>
         (\<forall>(n, p) \<in> set (name_to_op_placement sol). \<not> (PYBUDA_NEBULA_GALAXY_PLACER env \<and>
            output_queues_on_host cfg \<and> n \<in> set (output_ops cfg) \<and> row (range_end (placed_cores p)) > 8))
      then Inr () else Inl RuntimeError)"
  by (rule validate_placer_solution_eq [OF assms])

section \<open>Collecting the epochs\<close>

lemma eg_fill_in_bounds:
  assumes "wf_epoch_grids R C e" "row c + rows s \<le> R" "col c + columns s \<le> C"
  shows "\<exists>e'. eg_fill e k c s = Inr e' \<and> wf_epoch_grids R C e'"
proof (rule initialized_grid [OF assms(1), where k = k])
  fix g assume "map_of (epoch_id_to_device_grid (initialize_device_grid e k False)) k = Some g" "wf_grid R C g"
  then show ?thesis
    using fill_paint [of R C g c s] assms by (simp add: eg_fill_def)
qed

definition placed_op ::
    "(string \<times> nat) list \<Rightarrow> (string \<times> nat) list \<Rightarrow> nat \<Rightarrow> DeviceGridPlacement \<Rightarrow> OpPlacement" where
  "placed_op ids chips k p =
     \<lparr>placement_id = the (map_of ids (dgp_op_name p)), placement_name = dgp_op_name p,
      placement_chip_id = the (map_of chips (dgp_op_name p)), global_epoch_id = k,
      grid_transpose = dgp_grid_transpose p, placed_cores = dgp_placed_cores p\<rparr>"

lemma placed_op_simps [simp]:
  "placement_name (placed_op ids chips k p) = dgp_op_name p"
  "global_epoch_id (placed_op ids chips k p) = k"
  "placed_cores (placed_op ids chips k p) = dgp_placed_cores p"
  by (simp_all add: placed_op_def)

lemma make_epoch:
  assumes "wf_epoch_grids R C e" "\<forall>p \<in> set ps. inside R C (op_to_grid_shape cfg) p"
    and "\<forall>p \<in> set ps. map_of ids (dgp_op_name p) \<noteq> None \<and> map_of chips (dgp_op_name p) \<noteq> None"
  shows "\<exists>e'. fold_res (make_epoch_step cfg ids chips k) ps (acc, e) =
       Inr (acc @ map (placed_op ids chips k) ps, e') \<and> wf_epoch_grids R C e'"
  using assms
proof (induction ps arbitrary: acc e)
  case (Cons p ps)
  from Cons.prems(2) obtain s where s: "map_of (op_to_grid_shape cfg) (dgp_op_name p) = Some s"
    "row (range_start (dgp_placed_cores p)) + rows (occupied (op_to_grid_shape cfg) p) \<le> R"
    "col (range_start (dgp_placed_cores p)) + columns (occupied (op_to_grid_shape cfg) p) \<le> C"
    by (auto simp: inside_def Let_def)
  have turn: "(if dgp_grid_transpose p then mk_shape (columns s) (rows s) else s) = occupied (op_to_grid_shape cfg) p"
    using s(1) by (simp add: occupied_def transposed_def)
  from eg_fill_in_bounds [OF Cons.prems(1) s(2,3)] obtain e' where
    e': "eg_fill e k (range_start (dgp_placed_cores p)) (occupied (op_to_grid_shape cfg) p) = Inr e'"
    "wf_epoch_grids R C e'" by blast
  have "make_epoch_step cfg ids chips k p (acc, e) = Inr (acc @ [placed_op ids chips k p], e')"
    using Cons.prems(3) s(1) e'(1)
    by (auto simp: make_epoch_step_def make_op_placement_def placed_op_def turn)
  moreover have "\<exists>e''. fold_res (make_epoch_step cfg ids chips k) ps (acc @ [placed_op ids chips k p], e') =
      Inr ((acc @ [placed_op ids chips k p]) @ map (placed_op ids chips k) ps, e'') \<and> wf_epoch_grids R C e''"
    by (rule Cons.IH [OF e'(2)]) (use Cons.prems in auto)
  ultimately show ?case by simp
qed simp

lemma record_op_placements:
  assumes "ps \<noteq> []" "\<forall>p \<in> set ps. global_epoch_id p = k" "distinct (map placement_name ps)"
    and "set (map placement_name ps) \<inter> fst ` set (name_to_op_placement sol) = {}"
    and "\<forall>(k', v) \<in> set (epoch_id_to_chip sol). k' < k" "k \<notin> fst ` set (epoch_id_to_op_placement sol)"
  shows "fold record_op_placement ps (sol, mx) =
     (sol\<lparr>name_to_op_placement := name_to_op_placement sol @ map (\<lambda>p. (placement_name p, p)) ps,
          epoch_id_to_chip := epoch_id_to_chip sol @ [(k, placement_chip_id (last ps))],
          epoch_id_to_op_placement := epoch_id_to_op_placement sol @ [(k, ps)]\<rparr>, max mx k)"
  using assms
proof (induction ps rule: rev_induct)
  case (snoc p ps)
  have k: "global_epoch_id p = k" using snoc.prems(2) by simp
  have new: "placement_name p \<notin> fst ` set (name_to_op_placement sol @ map (\<lambda>p. (placement_name p, p)) ps)"
    using snoc.prems(3,4) by (auto simp: image_image)
  have none: "map_of (epoch_id_to_op_placement sol) k = None"
    using snoc.prems(6) by (simp add: map_of_eq_None_iff)
  show ?case
  proof (cases "ps = []")
    case True
    then show ?thesis
      using snoc.prems k new none
      by (simp add: record_op_placement_def push_at_def update_new omap_insert_greater)
  next
    case False
    with snoc have IH: "fold record_op_placement ps (sol, mx) =
       (sol\<lparr>name_to_op_placement := name_to_op_placement sol @ map (\<lambda>p. (placement_name p, p)) ps,
            epoch_id_to_chip := epoch_id_to_chip sol @ [(k, placement_chip_id (last ps))],
            epoch_id_to_op_placement := epoch_id_to_op_placement sol @ [(k, ps)]\<rparr>, max mx k)"
      by auto
    have "AList.update (placement_name p) p (name_to_op_placement sol @ map (\<lambda>p. (placement_name p, p)) ps) =
        name_to_op_placement sol @ map (\<lambda>p. (placement_name p, p)) (ps @ [p])"
      using update_append [OF new, where m' = "[]"] by simp
    then show ?thesis
      unfolding fold_append comp_apply IH
      using snoc.prems(5,6) k none False
      by (simp add: record_op_placement_def push_at_def update_append omap_insert_last map_add_def)
  qed
qed simp

text \<open>The epochs with their ids, as the solution keeps them.\<close>

definition epochs_from ::
    "(string \<times> nat) list \<Rightarrow> (string \<times> nat) list \<Rightarrow> nat \<Rightarrow> EpochDeviceGridPlacement list \<Rightarrow>
     (nat \<times> OpPlacement list) list" where
  "epochs_from ids chips start eps =
     map (\<lambda>(i, ep). (start + i, map (placed_op ids chips (start + i)) (edgp_op_placements ep))) (enumerate 0 eps)"

abbreviation placed_names :: "EpochDeviceGridPlacement list \<Rightarrow> string list" where
  "placed_names eps \<equiv> map dgp_op_name (concat (map edgp_op_placements eps))"

lemma epochs_from_snoc:
  "epochs_from ids chips start (eps @ [ep]) =
     epochs_from ids chips start eps @
     [(start + length eps, map (placed_op ids chips (start + length eps)) (edgp_op_placements ep))]"
  by (simp add: epochs_from_def enumerate_append_eq)

lemma keys_epochs_from: "map fst (epochs_from ids chips start eps) = [start..<start + length eps]"
  by (rule nth_equalityI) (simp_all add: epochs_from_def nth_enumerate_eq case_prod_beta)

lemma names_epochs_from:
  "map placement_name (concat (map snd (epochs_from ids chips start eps))) = placed_names eps"
proof (induction eps rule: rev_induct)
  case Nil
  then show ?case by (simp add: epochs_from_def)
next
  case (snoc ep eps)
  then show ?case by (simp add: epochs_from_snoc comp_def)
qed

lemma epochs_from_simps:
  assumes "(k, ps) \<in> set (epochs_from ids chips start eps)"
  shows "start \<le> k" "k < start + length eps" "\<exists>ep \<in> set eps. ps = map (placed_op ids chips k) (edgp_op_placements ep)"
  using assms by (auto simp: epochs_from_def enumerate_eq_zip dest: set_zip_leftD set_zip_rightD)

definition last_chip :: "nat \<times> OpPlacement list \<Rightarrow> nat \<times> nat" where
  "last_chip kps = (fst kps, placement_chip_id (last (snd kps)))"

lemma record_epochs:
  assumes "\<forall>ep \<in> set eps. legal_epoch cfg ep" "distinct (placed_names eps)" "start + length eps < 2 ^ 32"
    and "\<forall>n \<in> set (placed_names eps). map_of ids n \<noteq> None \<and> map_of chips n \<noteq> None"
    and "plain_config cfg"
  shows "\<exists>e'. wf_epoch_grids (grid_rows cfg) (grid_columns cfg) e' \<and>
     fold_res (record_epoch cfg ids chips start) (enumerate 0 eps) (empty_solution cfg, start, False) =
     Inr ((empty_solution cfg)\<lparr>
         name_to_op_placement := map (\<lambda>p. (placement_name p, p)) (concat (map snd (epochs_from ids chips start eps))),
         epoch_id_to_chip := map last_chip (epochs_from ids chips start eps),
         epoch_id_to_op_placement := epochs_from ids chips start eps,
         sol_device_grids := e'\<rparr>,
       start + (length eps - 1), eps \<noteq> [])"
  using assms
proof (induction eps rule: rev_induct)
  case Nil
  then have "wf_epoch_grids (grid_rows cfg) (grid_columns cfg) (sol_device_grids (empty_solution cfg))"
    by (simp add: empty_solution_def mk_epoch_grids_def wf_epoch_grids_def plain_config_def
        grid_rows_def grid_columns_def)
  then show ?case
    by (intro exI [of _ "sol_device_grids (empty_solution cfg)"])
       (simp add: epochs_from_def empty_solution_def)
next
  case (snoc ep eps)
  let ?k = "start + length eps" and ?E = "epochs_from ids chips start eps"
  let ?ps = "map (placed_op ids chips ?k) (edgp_op_placements ep)"
  let ?sol = "\<lambda>e'. (empty_solution cfg)\<lparr>
         name_to_op_placement := map (\<lambda>p. (placement_name p, p)) (concat (map snd ?E)),
         epoch_id_to_chip := map last_chip ?E, epoch_id_to_op_placement := ?E, sol_device_grids := e'\<rparr>"
  from snoc obtain e' where e': "wf_epoch_grids (grid_rows cfg) (grid_columns cfg) e'"
    "fold_res (record_epoch cfg ids chips start) (enumerate 0 eps) (empty_solution cfg, start, False) =
       Inr (?sol e', start + (length eps - 1), eps \<noteq> [])" by auto
  let ?e = "initialize_device_grid e' ?k False"
  have legal: "edgp_op_placements ep \<noteq> []"
    "\<forall>p \<in> set (edgp_op_placements ep). inside (grid_rows cfg) (grid_columns cfg) (op_to_grid_shape cfg) p"
    using snoc.prems(1) by (auto simp: legal_epoch_def legal_def)
  from make_epoch [where k = ?k and acc = "[]", OF _ legal(2), of ?e ids chips] e'(1) snoc.prems(4) obtain e'' where
    e'': "fold_res (make_epoch_step cfg ids chips ?k) (edgp_op_placements ep) ([], ?e) = Inr (?ps, e'')"
    "wf_epoch_grids (grid_rows cfg) (grid_columns cfg) e''" by auto
  have names: "map placement_name ?ps = map dgp_op_name (edgp_op_placements ep)" by simp
  have keys: "k' < ?k" if "k' \<in> fst ` set ?E" for k'
    using that keys_epochs_from [of ids chips start eps] by (metis atLeastLessThan_iff list.set_map set_upt)
  have rec: "fold record_op_placement ?ps (?sol e'', start + (length eps - 1)) =
      ((?sol e'')\<lparr>
         name_to_op_placement := map (\<lambda>p. (placement_name p, p)) (concat (map snd ?E)) @ map (\<lambda>p. (placement_name p, p)) ?ps,
         epoch_id_to_chip := map last_chip ?E @ [(?k, placement_chip_id (last ?ps))],
         epoch_id_to_op_placement := ?E @ [(?k, ?ps)]\<rparr>, max (start + (length eps - 1)) ?k)"
  proof (subst record_op_placements [where k = ?k])
    show "distinct (map placement_name ?ps)" unfolding names using snoc.prems(2) by simp
    show "set (map placement_name ?ps) \<inter> fst ` set (name_to_op_placement (?sol e'')) = {}"
    proof -
      have "fst ` set (name_to_op_placement (?sol e'')) = set (placed_names eps)"
        unfolding names_epochs_from [of ids chips start eps, symmetric] by (auto simp: image_image)
      moreover have "set (map dgp_op_name (edgp_op_placements ep)) \<inter> set (placed_names eps) = {}"
        using snoc.prems(2) by (simp add: Int_commute)
      ultimately show ?thesis unfolding names by (simp only:)
    qed
    show "\<forall>(k', v) \<in> set (epoch_id_to_chip (?sol e'')). k' < ?k"
      using keys by (auto simp: last_chip_def)
    show "?k \<notin> fst ` set (epoch_id_to_op_placement (?sol e''))" using keys by auto
  qed (use legal(1) in simp_all)
  have "record_epoch cfg ids chips start (length eps, ep) (?sol e', start + (length eps - 1), eps \<noteq> []) =
      Inr ((?sol e'')\<lparr>
         name_to_op_placement := map (\<lambda>p. (placement_name p, p)) (concat (map snd ?E)) @ map (\<lambda>p. (placement_name p, p)) ?ps,
         epoch_id_to_chip := map last_chip ?E @ [(?k, placement_chip_id (last ?ps))],
         epoch_id_to_op_placement := ?E @ [(?k, ?ps)]\<rparr>, ?k, True)"
    using e''(1) rec snoc.prems(3) legal(1)
    by (simp add: record_epoch_def u32_simps Let_def max_def del: fold_map)
  then show ?case
    using e'(2) e''(2)
    by (intro exI [of _ e'']) (simp add: fold_res_append enumerate_append_eq epochs_from_snoc last_chip_def)
qed

section \<open>place_onto_chip\<close>

text \<open>The device the epoch placer can work on: no overrides, and rows left after harvesting.\<close>

definition device_ok :: "PlacerConfig \<Rightarrow> bool" where
  "device_ok cfg \<longleftrightarrow> plain_config cfg \<and> length (harvested_rows cfg) \<le> rows (device_grid_shape cfg) \<and>
     rows (device_grid_shape cfg) < 2 ^ 32"

definition single_op :: "PlacerConfig \<Rightarrow> OpGroupToPlace \<Rightarrow> bool" where
  "single_op cfg grp \<longleftrightarrow> (\<exists>n. op_names grp = [n] \<and>
     (\<forall>s. map_of (op_to_grid_shape cfg) n = Some s \<longrightarrow> placeable (grid_rows cfg) (grid_columns cfg) s))"

text \<open>The cores of a placement are those of its op's shape, turned if the placement says so.\<close>

definition has_shape :: "PlacerConfig \<Rightarrow> OpPlacement \<Rightarrow> bool" where
  "has_shape cfg p \<longleftrightarrow>
     (\<exists>s. map_of (op_to_grid_shape cfg) (placement_name p) = Some s \<and>
        (let q = (if grid_transpose p then transposed s else s); c = range_start (placed_cores p) in
         range_end (placed_cores p) = mk_coord (row c + rows q) (col c + columns q)))"

definition epoch_ok :: "PlacerConfig \<Rightarrow> nat \<times> OpPlacement list \<Rightarrow> bool" where
  "epoch_ok cfg kps \<longleftrightarrow> snd kps \<noteq> [] \<and> sorted_wrt (\<lambda>p q. \<not> share_core p q) (snd kps) \<and>
     (\<forall>p \<in> set (snd kps). global_epoch_id p = fst kps \<and> has_shape cfg p \<and>
        on_device (grid_rows cfg) (grid_columns cfg) p)"

lemma name_map_spec:
  assumes "distinct (names w)" "grp \<in> set w" "n \<in> set (op_names grp)"
  shows "map_of (name_map f w) n = Some (f grp)"
  using assms
proof (induction w rule: rev_induct)
  case (snoc g w)
  have "map_of (name_map f (w @ [g])) = (\<lambda>x. if x \<in> set (op_names g) then Some (f g) else map_of (name_map f w) x)"
    unfolding name_map_def by (simp add: map_of_fold_update)
  with snoc show ?case by auto
qed simp

lemma legal_epoch_ok:
  assumes "legal_epoch cfg ep"
  shows "epoch_ok cfg (k, map (placed_op ids chips k) (edgp_op_placements ep))"
proof -
  let ?ps = "edgp_op_placements ep"
  have ins: "\<forall>p \<in> set ?ps. inside (grid_rows cfg) (grid_columns cfg) (op_to_grid_shape cfg) p"
    and srt: "sorted_wrt (\<lambda>p p'. \<forall>i j. \<not> (covers (op_to_grid_shape cfg) p i j \<and> covers (op_to_grid_shape cfg) p' i j)) ?ps"
    using assms by (auto simp: legal_epoch_def legal_def)
  have core: "core_of (placed_op ids chips k p) i j \<longleftrightarrow> covers (op_to_grid_shape cfg) p i j" if "p \<in> set ?ps" for p i j
    using ins that by (auto simp: core_of_def in_rect_def inside_def Let_def)
  have "has_shape cfg (placed_op ids chips k p) \<and>
      on_device (grid_rows cfg) (grid_columns cfg) (placed_op ids chips k p)" if "p \<in> set ?ps" for p
    using ins that by (auto simp: inside_def has_shape_def on_device_def occupied_def placed_op_def Let_def)
  moreover have "sorted_wrt (\<lambda>p q. \<not> share_core p q) (map (placed_op ids chips k) ?ps)"
    unfolding sorted_wrt_map
    by (rule sorted_wrt_mono_rel [OF _ srt]) (simp add: share_core_def core)
  ultimately show ?thesis using assms by (auto simp: epoch_ok_def legal_epoch_def)
qed

lemma epochs_from_ok:
  assumes "\<forall>ep \<in> set eps. legal_epoch cfg ep"
  shows "\<forall>kps \<in> set (epochs_from ids chips start eps). epoch_ok cfg kps"
proof
  fix kps assume "kps \<in> set (epochs_from ids chips start eps)"
  with epochs_from_simps(3) obtain ep where "ep \<in> set eps"
    "kps = (fst kps, map (placed_op ids chips (fst kps)) (edgp_op_placements ep))" by (metis prod.collapse)
  with assms legal_epoch_ok show "epoch_ok cfg kps" by metis
qed

lemma workload_fits:
  assumes "validate_placer_inputs cfg w = Inr ()" "\<forall>grp \<in> set w. single_op cfg grp"
  shows "distinct (names w)" "\<forall>grp \<in> set w. single_fitting_op cfg grp"
proof -
  from assms(1) have ok: "distinct (names w)" "\<forall>grp \<in> set w. group_accepted cfg grp"
    by (auto simp: validate_placer_inputs_eq split: if_splits)
  show "distinct (names w)" by (rule ok(1))
  show "\<forall>grp \<in> set w. single_fitting_op cfg grp"
  proof
    fix grp assume grp: "grp \<in> set w"
    with assms(2) obtain n where n: "op_names grp = [n]"
      "\<And>s. map_of (op_to_grid_shape cfg) n = Some s \<Longrightarrow> placeable (grid_rows cfg) (grid_columns cfg) s"
      by (auto simp: single_op_def)
    have "op_fits_device cfg grp n" using ok(2) grp n(1) by (simp add: group_accepted_def)
    then obtain s where "map_of (op_to_grid_shape cfg) n = Some s"
      "rows s \<le> grid_rows cfg" "columns s \<le> grid_columns cfg"
      by (auto simp: op_fits_device_def grid_rows_def grid_columns_def)
    with n show "single_fitting_op cfg grp" by (auto simp: single_fitting_op_def)
  qed
qed

lemma sum_list_nonempty: "\<forall>x \<in> set xs. f x \<noteq> [] \<Longrightarrow> length xs \<le> length (concat (map f xs))"
  by (induction xs) (auto simp: Suc_le_eq intro: less_le_trans [of _ "Suc _"] simp flip: length_greater_0_conv)

text \<open>
  With \<open>PYBUDA_NEBULA_GALAXY_PLACER\<close> set the final check refuses output ops below row 8, but the epoch
  placer does not know of this limit, so the device must not have more rows.
\<close>

definition output_rows_ok :: "Env \<Rightarrow> PlacerConfig \<Rightarrow> bool" where
  "output_rows_ok env cfg \<longleftrightarrow>
     PYBUDA_NEBULA_GALAXY_PLACER env \<and> output_queues_on_host cfg \<longrightarrow> grid_rows cfg \<le> 8"

lemma no_nebula_rows [simp]: "\<not> PYBUDA_NEBULA_GALAXY_PLACER env \<Longrightarrow> output_rows_ok env cfg"
  by (simp add: output_rows_ok_def)

lemma collect_solution_ok:
  assumes "device_ok cfg" "output_rows_ok env cfg" "distinct (names w)"
    and "\<forall>ep \<in> set eps. legal_epoch cfg ep" "placed_names eps = names (filter_op_groups ty w)"
    and "start + length (names w) < 2 ^ 32 - 1"
  shows "\<exists>sol. collect_solution env cfg w start eps = Inr sol \<and> num_epochs sol = length eps \<and>
     epoch_id_to_op_placement sol = epochs_from (name_map op_group_id w) (name_map group_chip_id w) start eps \<and>
     name_to_op_placement sol = map (\<lambda>p. (placement_name p, p)) (concat (map snd (epoch_id_to_op_placement sol)))"
proof -
  let ?ids = "name_map op_group_id w" and ?chips = "name_map group_chip_id w"
  let ?E = "epochs_from ?ids ?chips start eps"
  let ?P = "map (\<lambda>p. (placement_name p, p)) (concat (map snd ?E))"
  have sub: "set (placed_names eps) \<subseteq> set (names w)" unfolding assms(5) by (auto simp: filter_op_groups_def)
  have dist: "distinct (placed_names eps)"
    unfolding assms(5) filter_op_groups_def using assms(3) by (induction w) auto
  have known: "map_of ?ids n \<noteq> None \<and> map_of ?chips n \<noteq> None" if n: "n \<in> set (placed_names eps)" for n
  proof -
    from n sub obtain grp where "grp \<in> set w" "n \<in> set (op_names grp)" by auto
    with name_map_spec [OF assms(3)] show ?thesis by simp
  qed
  have "length eps \<le> length (placed_names eps)"
    using sum_list_nonempty [of eps edgp_op_placements] assms(4) by (auto simp: legal_epoch_def)
  moreover have few: "length (placed_names eps) \<le> length (names w)"
    using card_mono [OF _ sub] distinct_card [OF dist] distinct_card [OF assms(3)] by simp
  ultimately have len: "start + length eps < 2 ^ 32" using assms(6) by simp
  have plain: "plain_config cfg" using assms(1) by (simp add: device_ok_def)
  from record_epochs [OF assms(4) dist len _ plain, of ?ids ?chips] known obtain e' where
    run: "fold_res (record_epoch cfg ?ids ?chips start) (enumerate 0 eps) (empty_solution cfg, start, False) =
      Inr ((empty_solution cfg)\<lparr>name_to_op_placement := ?P, epoch_id_to_chip := map last_chip ?E,
         epoch_id_to_op_placement := ?E, sol_device_grids := e'\<rparr>, start + (length eps - 1), eps \<noteq> [])" by blast
  let ?n = "if eps \<noteq> [] then add32 (sub32 (start + (length eps - 1)) start) 1 else 0"
  let ?sol = "(empty_solution cfg)\<lparr>name_to_op_placement := ?P, epoch_id_to_chip := map last_chip ?E,
         epoch_id_to_op_placement := ?E, sol_device_grids := e', num_epochs := ?n\<rparr>"
  have n: "?n = length eps" using len by (auto simp: u32_simps Suc_diff_le simp flip: length_greater_0_conv)
  have names: "distinct (map placement_name (concat (map snd ?E)))" using dist by (simp only: names_epochs_from)
  have ok: "\<forall>kps \<in> set ?E. epoch_ok cfg kps" by (rule epochs_from_ok [OF assms(4)])
  have "validate_placer_solution env cfg ?sol = Inr ()"
  proof (subst validate_placer_solution_eq)
    show "0 < get_available_rows_on_device cfg" using plain by (simp add: plain_config_def grid_rows_def)
    show "get_available_rows_on_device cfg \<le> rows (device_grid_shape cfg)"
      using assms(1) by (simp add: device_ok_def get_available_rows_on_device_def sub32_exact)
    show "rows (device_grid_shape cfg) < 2 ^ 32" using assms(1) by (simp add: device_ok_def)
    show "columns (device_grid_shape cfg) < 2 ^ 32" using plain by (simp add: plain_config_def grid_columns_def)
    have size: "length ps \<le> length (placed_names eps)" if "(k, ps) \<in> set ?E" for k ps
    proof -
      from that have "ps \<in> set (map snd ?E)" by force
      then have "length ps \<in> set (map length (map snd ?E))" by (metis image_eqI list.set_map)
      then have "length ps \<le> length (concat (map snd ?E))" unfolding length_concat by (rule member_le_sum_list) simp
      also have "\<dots> = length (placed_names eps)"
        using arg_cong [OF names_epochs_from [of ?ids ?chips start eps], where f = length] by simp
      finally show ?thesis .
    qed
    have self: "map_of ?P (placement_name p) = Some p" if "(k, ps) \<in> set ?E" "p \<in> set ps" for k ps p
    proof (rule map_of_is_SomeI)
      show "distinct (map fst ?P)" using names by (simp add: comp_def)
      show "(placement_name p, p) \<in> set ?P" using that by force
    qed
    show "\<forall>(k, ps) \<in> set (epoch_id_to_op_placement ?sol). 1 + length ps < 2 ^ 32 \<and>
        (\<forall>p \<in> set ps. map_of (name_to_op_placement ?sol) (placement_name p) = Some p)"
      using size self few assms(6) by fastforce
    show "\<forall>(n, p) \<in> set (name_to_op_placement ?sol).
        on_device (get_available_rows_on_device cfg) (columns (device_grid_shape cfg)) p"
      using ok by (auto simp: epoch_ok_def grid_rows_def grid_columns_def)
    have "row (range_end (placed_cores p)) \<le> grid_rows cfg" if "(n, p) \<in> set (name_to_op_placement ?sol)" for n p
      using that ok by (auto simp: epoch_ok_def on_device_def Let_def)
    then have "\<not> (PYBUDA_NEBULA_GALAXY_PLACER env \<and> output_queues_on_host cfg \<and> n \<in> set (output_ops cfg) \<and>
        row (range_end (placed_cores p)) > 8)" if "(n, p) \<in> set (name_to_op_placement ?sol)" for n p
      using that assms(2) unfolding output_rows_ok_def by fastforce
    moreover have "\<forall>(k, ps) \<in> set (epoch_id_to_op_placement ?sol). sorted_wrt (\<lambda>p q. \<not> share_core p q) ps"
      using ok by (auto simp: epoch_ok_def)
    ultimately show "(if (\<forall>(k, ps) \<in> set (epoch_id_to_op_placement ?sol). sorted_wrt (\<lambda>p q. \<not> share_core p q) ps) \<and>
        (\<forall>(n, p) \<in> set (name_to_op_placement ?sol). \<not> (PYBUDA_NEBULA_GALAXY_PLACER env \<and>
           output_queues_on_host cfg \<and> n \<in> set (output_ops cfg) \<and> row (range_end (placed_cores p)) > 8))
      then Inr () else Inl RuntimeError) = Inr ()"
      by auto
  qed
  then show ?thesis using n
    by (intro exI [of _ ?sol]) (simp only: collect_solution_def run res_bind_simps Let_def prod.case, simp)
qed

text \<open>What \<open>place_onto_chip\<close> returns for the ops of one epoch type.\<close>

definition chip_solution_ok ::
    "PlacerConfig \<Rightarrow> OpGroupToPlace list \<Rightarrow> NodeEpochType \<Rightarrow> nat \<Rightarrow> PlacerSolution \<Rightarrow> bool" where
  "chip_solution_ok cfg w ty start sol \<longleftrightarrow>
     map fst (epoch_id_to_op_placement sol) = [start..<start + num_epochs sol] \<and>
     (\<forall>kps \<in> set (epoch_id_to_op_placement sol). epoch_ok cfg kps) \<and>
     name_to_op_placement sol =
       map (\<lambda>p. (placement_name p, p)) (concat (map snd (epoch_id_to_op_placement sol))) \<and>
     map fst (name_to_op_placement sol) = names (filter_op_groups (Some ty) w) \<and>
     (\<forall>grp \<in> set w. \<forall>n \<in> set (op_names grp). \<forall>p. map_of (name_to_op_placement sol) n = Some p \<longrightarrow>
        placement_id p = op_group_id grp \<and> placement_chip_id p = group_chip_id grp)"

lemma chip_solution_okD:
  assumes "chip_solution_ok cfg w ty start sol"
  shows "map fst (epoch_id_to_op_placement sol) = [start..<start + num_epochs sol]"
    and "\<forall>kps \<in> set (epoch_id_to_op_placement sol). epoch_ok cfg kps"
    and "name_to_op_placement sol =
      map (\<lambda>p. (placement_name p, p)) (concat (map snd (epoch_id_to_op_placement sol)))"
    and "map fst (name_to_op_placement sol) = names (filter_op_groups (Some ty) w)"
    and "\<forall>grp \<in> set w. \<forall>n \<in> set (op_names grp). \<forall>p. map_of (name_to_op_placement sol) n = Some p \<longrightarrow>
        placement_id p = op_group_id grp \<and> placement_chip_id p = group_chip_id grp"
proof -
  note c = assms [unfolded chip_solution_ok_def]
  show "map fst (epoch_id_to_op_placement sol) = [start..<start + num_epochs sol]" by (rule c [THEN conjunct1])
  show "\<forall>kps \<in> set (epoch_id_to_op_placement sol). epoch_ok cfg kps" by (rule c [THEN conjunct2, THEN conjunct1])
  show "name_to_op_placement sol =
      map (\<lambda>p. (placement_name p, p)) (concat (map snd (epoch_id_to_op_placement sol)))"
    by (rule c [THEN conjunct2, THEN conjunct2, THEN conjunct1])
  show "map fst (name_to_op_placement sol) = names (filter_op_groups (Some ty) w)"
    by (rule c [THEN conjunct2, THEN conjunct2, THEN conjunct2, THEN conjunct1])
  show "\<forall>grp \<in> set w. \<forall>n \<in> set (op_names grp). \<forall>p. map_of (name_to_op_placement sol) n = Some p \<longrightarrow>
        placement_id p = op_group_id grp \<and> placement_chip_id p = group_chip_id grp"
    by (rule c [THEN conjunct2, THEN conjunct2, THEN conjunct2, THEN conjunct2])
qed

lemma place_onto_chip_ok:
  assumes "device_ok cfg" "output_rows_ok env cfg"
    and "validate_chip_mapping cfg w = Inr ()" "validate_placer_inputs cfg w = Inr ()"
    and "\<forall>grp \<in> set w. single_op cfg grp" "start + length (names w) < 2 ^ 32 - 1"
  shows "\<exists>sol. place_onto_chip env cfg w start (Some ty) = Some (Inr sol) \<and> chip_solution_ok cfg w ty start sol \<and>
     num_epochs sol \<le> length (names (filter_op_groups (Some ty) w))"
proof -
  note fits = workload_fits [OF assms(4,5)]
  have "\<forall>grp \<in> set (filter_op_groups (Some ty) w). single_fitting_op cfg grp"
    using fits(2) by (simp add: filter_op_groups_def)
  with assms(1) edp_place_plain [of cfg "filter_op_groups (Some ty) w" env] obtain eps where
    eps: "edp_place env cfg (filter_op_groups (Some ty) w) = Some (Inr eps)" "\<forall>ep \<in> set eps. legal_epoch cfg ep"
    "placed_names eps = names (filter_op_groups (Some ty) w)" by (auto simp: device_ok_def)
  let ?ids = "name_map op_group_id w" and ?chips = "name_map group_chip_id w"
  let ?E = "epochs_from ?ids ?chips start eps"
  from collect_solution_ok [OF assms(1,2) fits(1) eps(2,3) assms(6)] obtain sol where
    sol: "collect_solution env cfg w start eps = Inr sol" "num_epochs sol = length eps"
    "epoch_id_to_op_placement sol = ?E"
    "name_to_op_placement sol = map (\<lambda>p. (placement_name p, p)) (concat (map snd ?E))" by auto
  have run: "place_onto_chip env cfg w start (Some ty) = Some (Inr sol)"
    using assms(3,4) eps(1) sol(1) by (simp add: place_onto_chip_def)
  have keys: "map fst (name_to_op_placement sol) = names (filter_op_groups (Some ty) w)"
    using names_epochs_from [of ?ids ?chips start eps] eps(3) sol(4) by (simp add: comp_def)
  have group: "placement_id p = op_group_id grp \<and> placement_chip_id p = group_chip_id grp"
    if "grp \<in> set w" "n \<in> set (op_names grp)" "map_of (name_to_op_placement sol) n = Some p" for grp n p
  proof -
    from map_of_SomeD [OF that(3)] have "p \<in> set (concat (map snd ?E)) \<and> placement_name p = n"
      unfolding sol(4) by auto
    then have p: "p \<in> set (concat (map snd ?E))" "placement_name p = n" by blast+
    then obtain k q where "p = placed_op ?ids ?chips k q" by (auto dest!: epochs_from_simps(3))
    then show ?thesis
      using p(2) name_map_spec [OF fits(1) that(1), of n] that(2) by (simp add: placed_op_def)
  qed
  have "length eps \<le> length (placed_names eps)"
    using sum_list_nonempty [of eps edgp_op_placements] eps(2) by (auto simp: legal_epoch_def)
  then show ?thesis
    using run sol keys group epochs_from_ok [OF eps(2)] eps(3)
    by (intro exI [of _ sol]) (auto simp: chip_solution_ok_def keys_epochs_from)
qed

lemma device_okI:
  assumes "op_to_overrides cfg = []" "length (harvested_rows cfg) < rows (device_grid_shape cfg)"
    and "rows (device_grid_shape cfg) < 2 ^ 32" "columns (device_grid_shape cfg) < 2 ^ 32"
  shows "device_ok cfg"
  using assms
  by (simp add: device_ok_def plain_config_def grid_rows_def grid_columns_def get_available_rows_on_device_def sub32_exact)

text \<open>
  C27 (liveness). Without user overrides for the ops, for a checked workload of groups of one op each that
  fits the grid, on a device that keeps a row after harvesting, and, when \<open>PYBUDA_NEBULA_GALAXY_PLACER\<close> is
  set and the output queues are on the host, has at most 8 rows, \<open>place_onto_chip\<close> returns. Every op of the
  epoch type is placed exactly once, with the group id and chip of its group; the epoch ids are
  consecutive from the start id and no epoch is empty; in an epoch every op has the cores of its
  shape, inside the available grid, and no two ops share a core. In particular the final check of
  the solution never fires. (With an override it can throw: \<open>transpose_override_crashes\<close>.)
\<close>

theorem place_onto_chip_correct:
  assumes "op_to_overrides cfg = []" "length (harvested_rows cfg) < rows (device_grid_shape cfg)"
    and "rows (device_grid_shape cfg) < 2 ^ 32" "columns (device_grid_shape cfg) < 2 ^ 32"
    and "PYBUDA_NEBULA_GALAXY_PLACER env \<and> output_queues_on_host cfg \<longrightarrow> grid_rows cfg \<le> 8"
    and "validate_chip_mapping cfg w = Inr ()" "validate_placer_inputs cfg w = Inr ()"
    and "\<forall>grp \<in> set w. single_op cfg grp" "start + length (names w) < 2 ^ 32 - 1"
  shows "\<exists>sol. place_onto_chip env cfg w start (Some ty) = Some (Inr sol) \<and> chip_solution_ok cfg w ty start sol"
  using place_onto_chip_ok [OF device_okI [OF assms(1-4)] assms(5) [folded output_rows_ok_def] assms(6-9), of ty]
  by blast

definition two_op_config :: PlacerConfig where
  "two_op_config = sample_config WORMHOLE_B0 (mk_shape 2 2) [(''a'', mk_shape 2 1), (''b'', mk_shape 1 2)] []"

lemma two_op_config_ok:
  "validate_chip_mapping two_op_config [sample_group 0 ''a'', sample_group 1 ''b''] = Inr ()"
  "validate_placer_inputs two_op_config [sample_group 0 ''a'', sample_group 1 ''b''] = Inr ()"
  "\<forall>grp \<in> set [sample_group 0 ''a'', sample_group 1 ''b'']. single_op two_op_config grp"
proof -
  show "validate_chip_mapping two_op_config [sample_group 0 ''a'', sample_group 1 ''b''] = Inr ()" by code_simp
  show "validate_placer_inputs two_op_config [sample_group 0 ''a'', sample_group 1 ''b''] = Inr ()" by code_simp
  show "\<forall>grp \<in> set [sample_group 0 ''a'', sample_group 1 ''b'']. single_op two_op_config grp"
    by (simp add: single_op_def sample_group_def two_op_config_def sample_config_def placeable_def
        nonempty_shape_def small_shape_def transposed_def grid_rows_def grid_columns_def
        get_available_rows_on_device_def sub32_def)
qed

theorem place_onto_chip_correct_witness:
  "\<exists>sol. place_onto_chip sample_env two_op_config [sample_group 0 ''a'', sample_group 1 ''b''] 3 (Some Forward) =
     Some (Inr sol) \<and> map fst (name_to_op_placement sol) = [''a'', ''b'']"
proof -
  have env: "PYBUDA_NEBULA_GALAXY_PLACER sample_env \<and> output_queues_on_host two_op_config \<longrightarrow>
      grid_rows two_op_config \<le> 8" by (simp add: sample_env_def)
  have dev: "op_to_overrides two_op_config = []"
    "length (harvested_rows two_op_config) < rows (device_grid_shape two_op_config)"
    "rows (device_grid_shape two_op_config) < 2 ^ 32" "columns (device_grid_shape two_op_config) < 2 ^ 32"
    by (simp_all add: two_op_config_def sample_config_def)
  have len: "3 + length (names [sample_group 0 ''a'', sample_group 1 ''b'']) < 2 ^ 32 - 1"
    by (simp add: sample_group_def)
  from place_onto_chip_correct [OF dev env two_op_config_ok len, of Forward]
  obtain sol where "place_onto_chip sample_env two_op_config [sample_group 0 ''a'', sample_group 1 ''b''] 3
      (Some Forward) = Some (Inr sol)"
    "chip_solution_ok two_op_config [sample_group 0 ''a'', sample_group 1 ''b''] Forward 3 sol"
    by (elim exE conjE)
  moreover have "map fst (name_to_op_placement sol) = [''a'', ''b'']"
    unfolding chip_solution_okD(4) [OF calculation(2)] by (simp add: filter_op_groups_def sample_group_def)
  ultimately show ?thesis by (intro exI [of _ sol] conjI)
qed

text \<open>Two ops of one epoch on the same core are refused.\<close>

definition overlapping_solution :: PlacerSolution where
  "overlapping_solution =
     (let p = (\<lambda>n. \<lparr>placement_id = 0, placement_name = n, placement_chip_id = 0, global_epoch_id = 0,
                   grid_transpose = False, placed_cores = mk_range (mk_coord 0 0) (mk_coord 1 1)\<rparr>) in
      (empty_solution two_op_config)\<lparr>name_to_op_placement := [(''a'', p ''a''), (''b'', p ''b'')],
         epoch_id_to_op_placement := [(0, [p ''a'', p ''b''])]\<rparr>)"

theorem validate_placer_solution_exact_witness:
  "validate_placer_solution sample_env two_op_config overlapping_solution = Inl RuntimeError"
proof -
  have avail: "get_available_rows_on_device two_op_config = 2"
    by (simp add: two_op_config_def sample_config_def get_available_rows_on_device_def sub32_def)
  have shape: "device_grid_shape two_op_config = mk_shape 2 2"
    by (simp add: two_op_config_def sample_config_def)
  have "validate_placer_solution sample_env two_op_config overlapping_solution =
     (if (\<forall>(k, ps) \<in> set (epoch_id_to_op_placement overlapping_solution). sorted_wrt (\<lambda>p q. \<not> share_core p q) ps) \<and>
         (\<forall>(n, p) \<in> set (name_to_op_placement overlapping_solution). \<not> (PYBUDA_NEBULA_GALAXY_PLACER sample_env \<and>
            output_queues_on_host two_op_config \<and> n \<in> set (output_ops two_op_config) \<and>
            row (range_end (placed_cores p)) > 8))
      then Inr () else Inl RuntimeError)"
    by (rule validate_placer_solution_exact)
       (simp_all add: avail shape overlapping_solution_def on_device_def Let_def)
  then show ?thesis
    by (auto simp: overlapping_solution_def share_core_def core_of_def Let_def)
qed

end
