(* ===== verification/Wormhole_Facts.thy ===== *)
theory Wormhole_Facts
  imports Deal_Facts Temporal_Facts Lowering_Facts Chip_Placer_Facts "HOL-Library.Multiset"
begin

text \<open>
  \<open>wormhole_placer\<close> as a whole: the workload is the schedule, every epoch type is placed on one virtual
  chip, its epochs are dealt out to chips that accept them, and the temporal epochs form a full matrix.
\<close>

section \<open>Merging and erasing\<close>

lemma map_merge_disjoint: "fst ` set a \<inter> fst ` set b = {} \<Longrightarrow> map_merge a b = a @ b"
proof -
  assume "fst ` set a \<inter> fst ` set b = {}"
  then have "\<forall>kv \<in> set b. map_of a (fst kv) = None" by (auto simp: map_of_eq_None_iff)
  then show ?thesis by (simp add: map_merge_def case_prod_beta filter_id_conv)
qed

lemma map_merge_absorb: "fst ` set b \<subseteq> fst ` set a \<Longrightarrow> map_merge a b = a"
proof -
  assume "fst ` set b \<subseteq> fst ` set a"
  then have "\<forall>kv \<in> set b. map_of a (fst kv) \<noteq> None" by (auto simp: map_of_eq_None_iff)
  then show ?thesis by (simp add: map_merge_def case_prod_beta filter_empty_conv)
qed

lemma placement_allows_name:
  "placement_name p = placement_name q \<Longrightarrow> placement_allows env cfg c p = placement_allows env cfg c q"
  by (simp add: placement_allows_def)

lemma erase_mem: "m \<in> erase ` S \<longleftrightarrow> (\<exists>p \<in> S. m = erase p)" by auto

text \<open>The name map that belongs to a list of epochs.\<close>

definition named :: "(nat \<times> OpPlacement list) list \<Rightarrow> (string \<times> OpPlacement) list" where
  "named A = map (\<lambda>p. (placement_name p, p)) (concat (map snd A))"

lemma named_append [simp]: "named (A @ B) = named A @ named B"
  by (simp add: named_def)

lemma named_erase: "named (erase_epochs A) = erase_names (named A)"
  by (simp add: named_def erase_epochs_def erase_names_def map_concat comp_def case_prod_beta)

lemma named_lookup:
  assumes "distinct (map fst (named A))" "(k, ps) \<in> set A" "p \<in> set ps"
  shows "map_of (named A) (placement_name p) = Some p"
  using assms by (intro map_of_is_SomeI) (auto simp: named_def image_iff, force)

lemma erase_idem [simp]: "erase (erase p) = erase p"
  by (simp add: erase_def)

section \<open>Dealing the epochs of one type\<close>

text \<open>
  \<open>A\<close> are the epochs, without chips, up to the last one of the current type, \<open>start\<close> is the first epoch
  of that type, and the epochs below \<open>k\<close> have been dealt.
\<close>

definition dealt ::
    "Env \<Rightarrow> PlacerConfig \<Rightarrow> nat list \<Rightarrow> (nat \<times> OpPlacement list) list \<Rightarrow> nat \<Rightarrow> nat \<Rightarrow> WormholeState \<Rightarrow> bool" where
  "dealt env cfg chips A start k s \<longleftrightarrow>
     erase_names (name_to_op_placement (wh_solution s)) = named A \<and>
     erase_epochs (epoch_id_to_op_placement (wh_solution s)) = (if k = start then take start A else A) \<and>
     erase_epochs (epoch_id_to_op_placement (wh_chip_solution s)) = drop start A \<and>
     map fst (epoch_id_to_chip (wh_solution s)) = [0..<k] \<and>
     (\<forall>n p. map_of (name_to_op_placement (wh_solution s)) n = Some p \<and> global_epoch_id p < k \<longrightarrow>
        map_of (epoch_id_to_chip (wh_solution s)) (global_epoch_id p) = Some (placement_chip_id p) \<and>
        placement_allows env cfg (placement_chip_id p) p) \<and>
     (\<forall>c \<in> snd ` set (epoch_id_to_chip (wh_solution s)). c \<in> set chips)"

lemma dealtD:
  assumes d: "dealt env cfg chips A start k s"
  shows "map_of (named A) n = map_option erase (map_of (name_to_op_placement (wh_solution s)) n)"
    and "map_of (drop start A) k' = map_option (map erase) (map_of (epoch_id_to_op_placement (wh_chip_solution s)) k')"
    and "map fst (epoch_id_to_chip (wh_solution s)) = [0..<k]"
    and "map_of (name_to_op_placement (wh_solution s)) n = Some p \<Longrightarrow> global_epoch_id p < k \<Longrightarrow>
      map_of (epoch_id_to_chip (wh_solution s)) (global_epoch_id p) = Some (placement_chip_id p) \<and>
      placement_allows env cfg (placement_chip_id p) p"
proof -
  have "erase_names (name_to_op_placement (wh_solution s)) = named A"
    "erase_epochs (epoch_id_to_op_placement (wh_chip_solution s)) = drop start A" using d by (simp_all add: dealt_def)
  then show "map_of (named A) n = map_option erase (map_of (name_to_op_placement (wh_solution s)) n)"
    "map_of (drop start A) k' = map_option (map erase) (map_of (epoch_id_to_op_placement (wh_chip_solution s)) k')"
    by (metis map_of_erase)+
qed (use d in \<open>auto simp: dealt_def\<close>)

lemma allowed_user_chips:
  assumes "placement_allows env cfg c p"
  shows "get_chip_id_override cfg (placement_name p) = Some c' \<Longrightarrow> c' = c"
    and "map_of (op_to_chip_id_assignment cfg) (placement_name p) = Some c' \<Longrightarrow> c' = c"
    and "output_queues_on_host cfg \<Longrightarrow> placement_name p \<in> set (output_ops cfg) \<Longrightarrow>
      c \<in> set (chips_with_mmio (device_config cfg))"
  using assms by (auto simp: placement_allows_def Let_def split: if_splits)

lemma user_chips_only:
  assumes "\<forall>p \<in> set ps. placement_allows env cfg c p"
  shows "user_chips cfg ps = [] \<or> user_chips cfg ps = [c]"
proof -
  have "add_user_chips cfg p s = [] \<or> add_user_chips cfg p s = [c]"
    if "placement_allows env cfg c p" "s = [] \<or> s = [c]" for p s
    using that(2) allowed_user_chips(1,2) [OF that(1)]
    by (auto simp: add_user_chips_def Let_def split: option.split)
  then have "fold (add_user_chips cfg) ps s = [] \<or> fold (add_user_chips cfg) ps s = [c]" if "s = [] \<or> s = [c]" for s
    using that assms by (induction ps arbitrary: s) auto
  then show ?thesis by (simp add: user_chips_def)
qed

lemma validate_epoch_placement_ok:
  assumes "chips_with_mmio (device_config cfg) \<noteq> []" "map_of (epoch_id_to_op_placement sol) k = Some ps"
    and "\<forall>p \<in> set ps. placement_allows env cfg c p"
  shows "validate_epoch_placement cfg sol k = Inr True"
proof -
  have "\<forall>p \<in> set ps. \<not> (output_queues_on_host cfg \<and> placement_name p \<in> set (output_ops cfg) \<and>
      c \<notin> set (chips_with_mmio (device_config cfg)))"
    using assms(3) allowed_user_chips(3) by blast
  then have "fold_res (\<lambda>p _. tt_assert (\<not> (output_queues_on_host cfg \<and> placement_name p \<in> set (output_ops cfg) \<and>
      c \<notin> set (chips_with_mmio (device_config cfg))))) ps () = Inr ()"
    by (simp add: fold_res_check)
  then show ?thesis
    using assms(1,2) user_chips_only [OF assms(3)] by (auto simp: validate_epoch_placement_def Let_def at_key_def)
qed

text \<open>What stays fixed while the epochs of one type are dealt.\<close>

definition dealable ::
    "Env \<Rightarrow> PlacerConfig \<Rightarrow> nat list \<Rightarrow> (nat \<times> OpPlacement list) list \<Rightarrow> nat \<Rightarrow> nat \<Rightarrow> bool" where
  "dealable env cfg chips A start cnt \<longleftrightarrow>
     map fst A = [0..<start + cnt] \<and> distinct (map fst (named A)) \<and>
     (\<forall>(k, ps) \<in> set A. \<forall>p \<in> set ps. global_epoch_id p = k) \<and>
     length chips < 2 ^ 32 \<and> chips_with_mmio (device_config cfg) \<noteq> [] \<and>
     (\<exists>c \<in> set chips. \<forall>(k, ps) \<in> set A. \<forall>p \<in> set ps. placement_allows env cfg c p)"

lemma dealable_nth:
  assumes "dealable env cfg chips A start cnt" "k < start + cnt"
  shows "\<exists>ps. A ! k = (k, ps) \<and> A ! k \<in> set A \<and> map_of A k = Some ps"
proof -
  have keys: "map fst A = [0..<start + cnt]" using assms(1) by (simp add: dealable_def)
  have len: "length A = start + cnt" using arg_cong [OF keys, of length] by simp
  have "fst (A ! k) = map fst A ! k" using assms(2) len by simp
  also have "\<dots> = k" unfolding keys using assms(2) by simp
  finally obtain ps where "A ! k = (k, ps)" by (metis prod.collapse)
  moreover have "A ! k \<in> set A" using assms(2) len by simp
  moreover have "distinct (map fst A)" unfolding keys by simp
  ultimately show ?thesis by (metis map_of_eq_Some_iff)
qed

lemma map_fst_take_drop:
  assumes "map fst A = [0..<start + cnt]"
  shows "map fst (take start A) = [0..<start]" "map fst (drop start A) = [start..<start + cnt]"
  using assms by (simp_all add: take_map [symmetric] drop_map [symmetric])

lemma map_of_drop:
  assumes "map fst A = [0..<start + cnt]" "start \<le> k" "k < start + cnt"
  shows "map_of (drop start A) k = map_of A k"
proof -
  have "k \<notin> fst ` set (take start A)"
    using map_fst_take_drop(1) [OF assms(1)] assms(2) by (metis atLeastLessThan_iff leD list.set_map set_upt)
  then have "map_of (take start A) k = None" by (simp add: map_of_eq_None_iff)
  then have "map_of (take start A @ drop start A) k = map_of (drop start A) k"
    by (simp add: map_add_def del: append_take_drop_id split: option.split)
  then show ?thesis by (simp only: append_take_drop_id)
qed

text \<open>The map of all epochs grows by the whole chip solution once, at the first dealt epoch.\<close>

lemma epochs_merged:
  assumes "map fst A = [0..<start + cnt]" "start \<le> k" "k < start + cnt"
    and "erase_epochs E = (if k = start then take start A else A)" "erase_epochs F = drop start A"
  shows "erase_epochs (map_merge E F) = A"
proof -
  have F: "fst ` set F = {start..<start + cnt}"
    using map_fst_take_drop(2) [OF assms(1)] assms(5) by (metis keys_erase(2) list.set_map set_upt)
  show ?thesis
  proof (cases "k = start")
    case True
    then have E: "fst ` set E = {0..<start}"
      using map_fst_take_drop(1) [OF assms(1)] assms(4) by (metis keys_erase(2) list.set_map set_upt)
    have "map_merge E F = E @ F" by (rule map_merge_disjoint) (simp add: E F)
    then show ?thesis using assms(4,5) True by simp
  next
    case False
    then have "fst ` set E = {0..<start + cnt}"
      using assms(1,4) by (metis keys_erase(2) list.set_map set_upt)
    then have "map_merge E F = E" by (intro map_merge_absorb) (auto simp: F)
    then show ?thesis using assms(4) False by simp
  qed
qed

lemma dealt_epoch_ops:
  assumes A: "dealable env cfg chips A start cnt" and d: "dealt env cfg chips A start k s"
    and k: "start \<le> k" "k < start + cnt"
  shows "\<exists>ps. map_of (epoch_id_to_op_placement (wh_chip_solution s)) k = Some ps \<and> map_of A k = Some (map erase ps) \<and>
     (\<forall>p \<in> set ps. \<exists>q. map_of (name_to_op_placement (wh_solution s)) (placement_name p) = Some q \<and> erase q = erase p \<and>
        global_epoch_id q = k)"
proof -
  from dealable_nth [OF A k(2)] obtain psA where psA: "(k, psA) \<in> set A" "map_of A k = Some psA" by auto
  have "map_of (drop start A) k = Some psA"
    using map_of_drop [of A start cnt k] A k psA(2) by (simp add: dealable_def)
  then obtain ps where ps: "map_of (epoch_id_to_op_placement (wh_chip_solution s)) k = Some ps" "map erase ps = psA"
    using dealtD(2) [OF d, of k] by auto
  have "\<exists>q. map_of (name_to_op_placement (wh_solution s)) (placement_name p) = Some q \<and> erase q = erase p \<and>
      global_epoch_id q = k" if "p \<in> set ps" for p
  proof -
    have e: "erase p \<in> set psA" using that ps(2) by auto
    have "map_of (named A) (placement_name (erase p)) = Some (erase p)"
      using A by (intro named_lookup [OF _ psA(1) e]) (simp add: dealable_def)
    then have "map_option erase (map_of (name_to_op_placement (wh_solution s)) (placement_name p)) = Some (erase p)"
      using dealtD(1) [OF d] by simp
    then obtain q where "map_of (name_to_op_placement (wh_solution s)) (placement_name p) = Some q" "erase q = erase p"
      by auto
    moreover have "global_epoch_id (erase p) = k" using A psA(1) e by (fastforce simp: dealable_def)
    ultimately show ?thesis by (metis erase_simps(2))
  qed
  then show ?thesis using ps psA(2) by blast
qed

text \<open>A placement of epoch \<open>k\<close> in the name map is one of the epoch's list.\<close>

lemma dealt_names_of_epoch:
  assumes A: "dealable env cfg chips A start cnt" and d: "dealt env cfg chips A start k' s"
    and p: "map_of (name_to_op_placement (wh_solution s)) n = Some p"
    and ps: "map_of A (global_epoch_id p) = Some (map erase ps)"
  shows "n = placement_name p \<and> n \<in> placement_name ` set ps"
proof -
  have "map_of (named A) n = Some (erase p)"
    using dealtD(1) [OF d] p by simp
  then have "(n, erase p) \<in> set (named A)" by (rule map_of_SomeD)
  then obtain k psA where k: "(k, psA) \<in> set A" "erase p \<in> set psA" "n = placement_name p"
    by (auto simp: named_def) 
  have "global_epoch_id (erase p) = k" using A k(1,2) by (fastforce simp: dealable_def)
  then have "global_epoch_id p = k" by simp
  moreover have "distinct (map fst A)" using A by (simp add: dealable_def)
  from map_of_is_SomeI [OF this k(1)] have "map_of A k = Some psA" .
  ultimately have "psA = map erase ps" using ps by simp
  then obtain q where "q \<in> set ps" "erase p = erase q" using k(2) by auto
  then show ?thesis using k(3) by (metis erase_simps(1) image_eqI)
qed

lemma deal_epoch_ok:
  assumes A: "dealable env cfg chips A start cnt" and d: "dealt env cfg chips A start k s"
    and cur: "cursor_ok chips (wh_cursor s)" and k: "start \<le> k" "k < start + cnt"
  shows "\<exists>s'. deal_epoch env cfg ty chips fwd k s = Inr s' \<and> dealt env cfg chips A start (Suc k) s' \<and>
     cursor_ok chips (wh_cursor s') \<and> wh_epoch_id_to_type s' = AList.update k ty (wh_epoch_id_to_type s)"
proof -
  have mmio: "chips_with_mmio (device_config cfg) \<noteq> []" using A by (simp add: dealable_def)
  from dealt_epoch_ops [OF A d k] obtain ps where
    ps: "map_of (epoch_id_to_op_placement (wh_chip_solution s)) k = Some ps" "map_of A k = Some (map erase ps)"
    and qs: "\<And>p. p \<in> set ps \<Longrightarrow> \<exists>q. map_of (name_to_op_placement (wh_solution s)) (placement_name p) = Some q \<and>
      erase q = erase p \<and> global_epoch_id q = k" by blast
  have known: "\<forall>p \<in> set ps. map_of (name_to_op_placement (wh_solution s)) (placement_name p) \<noteq> None"
    using qs by fastforce
  from A map_of_SomeD [OF ps(2)] obtain c where c: "c \<in> set chips" "\<forall>p \<in> set (map erase ps). placement_allows env cfg c p"
    unfolding dealable_def by fast
  have all: "\<forall>p \<in> set ps. placement_allows env cfg c p"
    using c(2) placement_allows_name [of "erase p" p for p] by auto
  from accepting_chip_found [OF cur mmio ps(1), of env] c(1) all obtain t chip where
    chip: "chip \<in> set chips" "accepts env cfg chip ps" and t: "cursor_ok chips (wh_cursor t)"
      "wh_solution t = wh_solution s" "wh_chip_solution t = wh_chip_solution s"
      "wh_epoch_id_to_type t = wh_epoch_id_to_type s"
    and run: "attempt_loop env cfg ty chips fwd k (2 * length chips + 1) s =
       res_bind (assign_epoch ty chips k chip t) (\<lambda>s1. Inr (True, advance_after_attempt env chips fwd True s1))"
    unfolding accepts_def by blast
  let ?f = "fold (\<lambda>p. set_op_chip chip (placement_name p)) ps (wh_solution s)"
  note names = set_op_chips [OF known, of chip]
  from assign_epoch_ok [of t k ps ty chips chip] ps(1) t(2,3,4) obtain s1 where
    s1: "assign_epoch ty chips k chip t = Inr s1"
    "epoch_id_to_chip (wh_solution s1) = omap_insert k chip (epoch_id_to_chip ?f)"
    "wh_epoch_id_to_type s1 = AList.update k ty (wh_epoch_id_to_type s)" "wh_cursor s1 = wh_cursor t"
    "erase_epochs (epoch_id_to_op_placement (wh_chip_solution s1)) =
       erase_epochs (epoch_id_to_op_placement (wh_chip_solution s))"
    "epoch_id_to_op_placement (wh_solution s1) =
       map_merge (epoch_id_to_op_placement ?f) (epoch_id_to_op_placement (wh_chip_solution s1))"
    "name_to_op_placement (wh_solution s1) = name_to_op_placement ?f" by auto
  have keys: "map fst (epoch_id_to_chip (wh_solution s)) = [0..<k]" using d by (simp add: dealt_def)
  have chips1: "epoch_id_to_chip (wh_solution s1) = epoch_id_to_chip (wh_solution s) @ [(k, chip)]"
  proof -
    have "fst ` set (epoch_id_to_chip (wh_solution s)) = {0..<k}" using keys by (metis list.set_map set_upt)
    then have "\<forall>(k', v) \<in> set (epoch_id_to_chip (wh_solution s)). k' < k" by force
    then show ?thesis using names by (simp add: s1(2) omap_insert_greater)
  qed
  have fresh: "map_of (epoch_id_to_chip (wh_solution s)) k = None"
    using keys by (metis atLeastLessThan_iff less_irrefl list.set_map map_of_eq_None_iff set_upt)
  have allowed: "map_of (epoch_id_to_chip (wh_solution s1)) (global_epoch_id p) = Some (placement_chip_id p) \<and>
      placement_allows env cfg (placement_chip_id p) p"
    if p: "map_of (name_to_op_placement (wh_solution s1)) n = Some p" "global_epoch_id p < Suc k" for n p
  proof (cases "n \<in> placement_name ` set ps")
    case True
    then obtain p' where p': "p' \<in> set ps" "n = placement_name p'" by blast
    from qs [OF p'(1)] obtain q where q: "map_of (name_to_op_placement (wh_solution s)) n = Some q"
      "erase q = erase p'" "global_epoch_id q = k" using p'(2) by blast
    have "p = q\<lparr>placement_chip_id := chip\<rparr>" using p(1) q(1) True names by (simp add: s1(7))
    moreover have "placement_name q = n" using q(2) p'(2) by (metis erase_simps(1))
    ultimately show ?thesis
      using chip(2) p' q(3) fresh placement_allows_name [of p p' env cfg chip] by (simp add: chips1 accepts_def map_add_def)
  next
    case False
    then have old: "map_of (name_to_op_placement (wh_solution s)) n = Some p" using p(1) names by (simp add: s1(7))
    have "global_epoch_id p \<noteq> k" using dealt_names_of_epoch [OF A d old, of ps] ps(2) False by auto
    then have "global_epoch_id p < k" using p(2) by simp
    with dealtD(4) [OF d old] show ?thesis by (simp add: chips1 map_add_def)
  qed
  have "erase_epochs (epoch_id_to_op_placement (wh_solution s1)) = A"
    unfolding s1(6) using names A d k
    by (intro epochs_merged [where start = start and cnt = cnt and k = k]) (simp_all add: dealable_def dealt_def s1(5))
  then have "dealt env cfg chips A start (Suc k) (advance_after_attempt env chips fwd True s1)"
    unfolding dealt_def advance_after_simps
  proof (intro conjI)
    show "erase_names (name_to_op_placement (wh_solution s1)) = named A"
      using names d by (simp add: s1(7) dealt_def)
    show "map fst (epoch_id_to_chip (wh_solution s1)) = [0..<Suc k]" using keys by (simp add: chips1)
    show "\<forall>n p. map_of (name_to_op_placement (wh_solution s1)) n = Some p \<and> global_epoch_id p < Suc k \<longrightarrow>
        map_of (epoch_id_to_chip (wh_solution s1)) (global_epoch_id p) = Some (placement_chip_id p) \<and>
        placement_allows env cfg (placement_chip_id p) p"
      using allowed by blast
    show "\<forall>c \<in> snd ` set (epoch_id_to_chip (wh_solution s1)). c \<in> set chips"
      using d chip(1) by (auto simp: chips1 dealt_def)
  qed (use d k(1) in \<open>simp_all add: s1(5) dealt_def\<close>)
  moreover have "deal_epoch env cfg ty chips fwd k s = Inr (advance_after_attempt env chips fwd True s1)"
    using run s1(1) validate_epoch_placement_ok [OF mmio ps(1) all] by (simp add: deal_epoch_def)
  moreover have "cursor_ok chips (wh_cursor (advance_after_attempt env chips fwd True s1))"
    using t(1) s1(4) by (simp add: advance_after_cursor)
  ultimately show ?thesis using s1(3) by (intro exI [of _ "advance_after_attempt env chips fwd True s1"]) simp
qed

lemma deal_epochs_ok:
  assumes A: "dealable env cfg chips A start cnt" and "dealt env cfg chips A start (start + j) s"
    and "cursor_ok chips (wh_cursor s)" "j \<le> cnt"
  shows "\<exists>s'. fold_res (deal_epoch env cfg ty chips fwd) [start + j..<start + cnt] s = Inr s' \<and>
     dealt env cfg chips A start (start + cnt) s' \<and>
     (\<forall>k. map_of (wh_epoch_id_to_type s') k =
        (if start + j \<le> k \<and> k < start + cnt then Some ty else map_of (wh_epoch_id_to_type s) k))"
  using assms(2-)
proof (induction "cnt - j" arbitrary: j s)
  case 0
  then show ?case by auto
next
  case (Suc m j s)
  have k: "start \<le> start + j" "start + j < start + cnt" using Suc.hyps(2) by simp_all
  from deal_epoch_ok [OF A Suc.prems(1,2) k, of ty fwd] obtain s1 where
    s1: "deal_epoch env cfg ty chips fwd (start + j) s = Inr s1" "dealt env cfg chips A start (start + Suc j) s1"
    "cursor_ok chips (wh_cursor s1)" "wh_epoch_id_to_type s1 = AList.update (start + j) ty (wh_epoch_id_to_type s)"
    by auto
  have "m = cnt - Suc j" "Suc j \<le> cnt" using Suc.hyps(2) by simp_all
  from Suc.hyps(1) [OF this(1) s1(2,3) this(2)] obtain s' where
    s': "fold_res (deal_epoch env cfg ty chips fwd) [start + Suc j..<start + cnt] s1 = Inr s'"
    "dealt env cfg chips A start (start + cnt) s'"
    "\<forall>k. map_of (wh_epoch_id_to_type s') k =
        (if start + Suc j \<le> k \<and> k < start + cnt then Some ty else map_of (wh_epoch_id_to_type s1) k)" by blast
  have "[start + j..<start + cnt] = (start + j) # [start + Suc j..<start + cnt]" using k(2) by (simp add: upt_conv_Cons)
  then show ?case using s1(1,4) s' k(2) by (intro exI [of _ s']) auto
qed

section \<open>One epoch type after the other\<close>

lemma epoch_ok_erase: "epoch_ok cfg (k, map erase ps) = epoch_ok cfg (k, ps)"
proof -
  have "share_core (erase p) (erase q) = share_core p q" "has_shape cfg (erase p) = has_shape cfg p"
    "on_device R C (erase p) = on_device R C p" for p q R C
    by (simp_all add: share_core_def core_of_def has_shape_def on_device_def)
  then show ?thesis by (simp add: epoch_ok_def sorted_wrt_map)
qed

lemma epochs_ok_erase: "(\<forall>kps \<in> set (erase_epochs E). epoch_ok cfg kps) \<longleftrightarrow> (\<forall>kps \<in> set E. epoch_ok cfg kps)"
  by (auto simp: erase_epochs_def epoch_ok_erase split: prod.splits)

text \<open>Everything the epochs placed so far satisfy: the epoch types \<open>tys\<close> are done, \<open>e\<close> epochs are there.\<close>

definition types_placed ::
    "Env \<Rightarrow> PlacerConfig \<Rightarrow> OpGroupToPlace list \<Rightarrow> nat list \<Rightarrow> NodeEpochType list \<Rightarrow> nat \<Rightarrow> WormholeState \<Rightarrow> bool" where
  "types_placed env cfg w chips tys e s \<longleftrightarrow>
     (let sol = wh_solution s; A = erase_epochs (epoch_id_to_op_placement sol) in
      erase_names (name_to_op_placement sol) = named A \<and> map fst A = [0..<e] \<and>
      map fst (name_to_op_placement sol) = concat (map (\<lambda>ty. names (filter_op_groups (Some ty) w)) tys) \<and>
      (\<forall>kps \<in> set A. epoch_ok cfg kps) \<and> e \<le> length (name_to_op_placement sol) \<and>
      map fst (epoch_id_to_chip sol) = [0..<e] \<and> (\<forall>c \<in> snd ` set (epoch_id_to_chip sol). c \<in> set chips) \<and>
      (\<forall>n p. map_of (name_to_op_placement sol) n = Some p \<longrightarrow>
         map_of (epoch_id_to_chip sol) (global_epoch_id p) = Some (placement_chip_id p) \<and>
         placement_allows env cfg (placement_chip_id p) p) \<and>
      (\<forall>(k, ps) \<in> set A. \<exists>ty. map_of (wh_epoch_id_to_type s) k = Some ty \<and>
         (\<forall>p \<in> set ps. map_of (op_to_epoch_type cfg) (placement_name p) = Some ty)))"

definition workload_ok :: "Env \<Rightarrow> PlacerConfig \<Rightarrow> OpGroupToPlace list \<Rightarrow> nat list \<Rightarrow> bool" where
  "workload_ok env cfg w chips \<longleftrightarrow>
     device_ok cfg \<and> \<not> PYBUDA_NEBULA_GALAXY_PLACER env \<and> validate_chip_mapping cfg w = Inr () \<and>
     validate_placer_inputs cfg w = Inr () \<and> (\<forall>grp \<in> set w. single_op cfg grp) \<and>
     distinct (names w) \<and> 2 * length (names w) < 2 ^ 32 - 1 \<and>
     (\<forall>grp \<in> set w. \<forall>n \<in> set (op_names grp). map_of (op_to_epoch_type cfg) n = Some (group_epoch_type grp)) \<and>
     chips \<noteq> [] \<and> length chips < 2 ^ 32 \<and> chips_with_mmio (device_config cfg) \<noteq> [] \<and>
     (\<exists>c \<in> set chips. \<forall>n \<in> set (names w). placement_allows env cfg c (default_op_placement\<lparr>placement_name := n\<rparr>))"

lemma workload_okD:
  assumes "workload_ok env cfg w chips"
  shows "device_ok cfg" "\<not> PYBUDA_NEBULA_GALAXY_PLACER env" "validate_chip_mapping cfg w = Inr ()"
    "validate_placer_inputs cfg w = Inr ()" "\<forall>grp \<in> set w. single_op cfg grp"
    "distinct (names w)" "2 * length (names w) < 2 ^ 32 - 1" "chips \<noteq> []" "length chips < 2 ^ 32"
    "chips_with_mmio (device_config cfg) \<noteq> []"
    and "\<And>grp n. grp \<in> set w \<Longrightarrow> n \<in> set (op_names grp) \<Longrightarrow>
      map_of (op_to_epoch_type cfg) n = Some (group_epoch_type grp)"
    and "\<exists>c \<in> set chips. \<forall>p. placement_name p \<in> set (names w) \<longrightarrow> placement_allows env cfg c p"
proof -
  from assms obtain c where c: "c \<in> set chips"
    "\<forall>n \<in> set (names w). placement_allows env cfg c (default_op_placement\<lparr>placement_name := n\<rparr>)"
    unfolding workload_ok_def by blast
  have "placement_allows env cfg c p" if "placement_name p \<in> set (names w)" for p
  proof -
    have "placement_allows env cfg c (default_op_placement\<lparr>placement_name := placement_name p\<rparr>)"
      using c(2) that by blast
    then show ?thesis
      by (subst placement_allows_name [where q = "default_op_placement\<lparr>placement_name := placement_name p\<rparr>"]) simp_all
  qed
  then show "\<exists>c \<in> set chips. \<forall>p. placement_name p \<in> set (names w) \<longrightarrow> placement_allows env cfg c p"
    using c(1) by blast
qed (use assms in \<open>auto simp: workload_ok_def\<close>)

lemma distinct_filtered: "distinct (concat (map f xs)) \<Longrightarrow> distinct (concat (map f (filter P xs)))"
  by (induction xs) auto

abbreviation names_of_types :: "OpGroupToPlace list \<Rightarrow> NodeEpochType list \<Rightarrow> string list" where
  "names_of_types w tys \<equiv> concat (map (\<lambda>ty. names (filter_op_groups (Some ty) w)) tys)"

lemma typed_name:
  assumes "workload_ok env cfg w chips" "n \<in> set (names (filter_op_groups (Some ty) w))"
  shows "n \<in> set (names w)" "map_of (op_to_epoch_type cfg) n = Some ty"
  using assms(2) workload_okD(11) [OF assms(1)] by (auto simp: filter_op_groups_def)

lemma typed_names_distinct:
  assumes "workload_ok env cfg w chips" "distinct tys"
  shows "distinct (names_of_types w tys)"
  using assms(2)
proof (induction tys)
  case (Cons ty tys)
  have "distinct (names (filter_op_groups (Some ty) w))"
    unfolding filter_op_groups_def by (rule distinct_filtered [OF workload_okD(6) [OF assms(1)]])
  moreover have "n \<notin> set (names_of_types w tys)" if "n \<in> set (names (filter_op_groups (Some ty) w))" for n
  proof
    assume "n \<in> set (names_of_types w tys)"
    then obtain ty' where ty': "ty' \<in> set tys" "n \<in> set (names (filter_op_groups (Some ty') w))" by auto
    then have "ty' = ty" using typed_name(2) [OF assms(1) that] typed_name(2) [OF assms(1) ty'(2)] by simp
    then show False using ty'(1) Cons.prems by simp
  qed
  ultimately show ?case using Cons by (simp only: list.map concat.simps distinct_append) auto
qed simp

lemma typed_names_count:
  assumes "workload_ok env cfg w chips" "distinct tys"
  shows "length (names_of_types w tys) \<le> length (names w)"
proof -
  have "set (names_of_types w tys) \<subseteq> set (names w)"
    using typed_name(1) [OF assms(1)] by (fastforce simp del: set_concat simp: set_concat)
  then have "card (set (names_of_types w tys)) \<le> card (set (names w))" by (simp add: card_mono)
  then show ?thesis
    using distinct_card [OF typed_names_distinct [OF assms]] distinct_card [OF workload_okD(6) [OF assms(1)]] by simp
qed

lemma named_member: "(k, ps) \<in> set A \<Longrightarrow> p \<in> set ps \<Longrightarrow> placement_name p \<in> set (map fst (named A))"
  by (force simp: named_def)

lemma named_lookup_epoch:
  assumes "map_of (named A) n = Some p" "\<forall>kps \<in> set A. epoch_ok cfg kps"
  shows "global_epoch_id p \<in> fst ` set A"
proof -
  have "(n, p) \<in> set (named A)" using assms(1) by (rule map_of_SomeD)
  then obtain k ps where "(k, ps) \<in> set A" "p \<in> set ps" by (auto simp: named_def)
  moreover from this assms(2) have "global_epoch_id p = k" by (fastforce simp: epoch_ok_def)
  ultimately show ?thesis by force
qed

lemma types_placedD:
  assumes "types_placed env cfg w chips tys e s"
  shows "erase_names (name_to_op_placement (wh_solution s)) = named (erase_epochs (epoch_id_to_op_placement (wh_solution s)))"
    and "map fst (epoch_id_to_op_placement (wh_solution s)) = [0..<e]"
    and "map fst (name_to_op_placement (wh_solution s)) = names_of_types w tys"
    and "\<forall>kps \<in> set (erase_epochs (epoch_id_to_op_placement (wh_solution s))). epoch_ok cfg kps"
    and "e \<le> length (name_to_op_placement (wh_solution s))"
    and "map fst (epoch_id_to_chip (wh_solution s)) = [0..<e]"
    and "\<forall>c \<in> snd ` set (epoch_id_to_chip (wh_solution s)). c \<in> set chips"
    and "map_of (name_to_op_placement (wh_solution s)) n = Some p \<Longrightarrow>
      map_of (epoch_id_to_chip (wh_solution s)) (global_epoch_id p) = Some (placement_chip_id p) \<and>
      placement_allows env cfg (placement_chip_id p) p"
    and "(k, ps) \<in> set (erase_epochs (epoch_id_to_op_placement (wh_solution s))) \<Longrightarrow>
      \<exists>ty. map_of (wh_epoch_id_to_type s) k = Some ty \<and>
        (\<forall>p \<in> set ps. map_of (op_to_epoch_type cfg) (placement_name p) = Some ty)"
  using assms by (auto simp: types_placed_def Let_def)

text \<open>The start of an epoch type: the solution of the virtual chip is there, nothing of it is dealt.\<close>

lemma type_starts:
  assumes w: "workload_ok env cfg w chips" and t: "types_placed env cfg w chips tys e s"
    and ty: "distinct (tys @ [ty])" and c: "chip_solution_ok cfg w ty e sol"
    and s1: "name_to_op_placement (wh_solution s1) =
        map_merge (name_to_op_placement (wh_solution s)) (name_to_op_placement sol)"
      "epoch_id_to_op_placement (wh_solution s1) = epoch_id_to_op_placement (wh_solution s)"
      "epoch_id_to_chip (wh_solution s1) = epoch_id_to_chip (wh_solution s)" "wh_chip_solution s1 = sol"
    and A: "A = erase_epochs (epoch_id_to_op_placement (wh_solution s) @ epoch_id_to_op_placement sol)"
  shows "dealable env cfg chips A e (num_epochs sol)" "dealt env cfg chips A e e s1"
    "map fst (named A) = names_of_types w (tys @ [ty])" "\<forall>kps \<in> set A. epoch_ok cfg kps"
proof -
  let ?E = "epoch_id_to_op_placement (wh_solution s)" and ?F = "epoch_id_to_op_placement sol"
  let ?N = "name_to_op_placement (wh_solution s)" and ?M = "name_to_op_placement sol"
  note t = types_placedD [OF t] and c = chip_solution_okD [OF c]
  have M: "?M = named ?F" using c(3) by (simp add: named_def)
  have names: "map fst ?N @ map fst ?M = names_of_types w (tys @ [ty])" using t(3) c(4) by simp
  have dist: "distinct (map fst ?N @ map fst ?M)" unfolding names by (rule typed_names_distinct [OF w ty])
  then have "fst ` set ?N \<inter> fst ` set ?M = {}" by simp
  then have N1: "name_to_op_placement (wh_solution s1) = ?N @ ?M" unfolding s1(1) by (rule map_merge_disjoint)
  have named: "named A = erase_names (?N @ ?M)" by (simp add: A t(1) M named_erase)
  show keys: "map fst (named A) = names_of_types w (tys @ [ty])" using names by (simp add: named)
  have "\<forall>kps \<in> set (erase_epochs ?F). epoch_ok cfg kps" using c(2) by (simp only: epochs_ok_erase)
  then show ok: "\<forall>kps \<in> set A. epoch_ok cfg kps" using t(4) unfolding A erase_append by (simp only: set_append ball_Un)
  have eps: "map fst A = [0..<e + num_epochs sol]"
    using t(2) c(1) upt_add_eq_append [of 0 e "num_epochs sol"] by (simp add: A)
  have inw: "set (names_of_types w (tys @ [ty])) \<subseteq> set (names w)"
    using typed_name(1) [OF w] by (fastforce simp del: set_concat simp: set_concat)
  from workload_okD(12) [OF w] obtain c0 where
    c0: "c0 \<in> set chips" "\<forall>p. placement_name p \<in> set (names w) \<longrightarrow> placement_allows env cfg c0 p" by blast
  have "placement_allows env cfg c0 p" if "(k, ps) \<in> set A" "p \<in> set ps" for k ps p
  proof -
    have "placement_name p \<in> set (names w)" using named_member [OF that] inw unfolding keys by (rule rev_subsetD)
    then show ?thesis using c0(2) by blast
  qed
  moreover have "distinct (map fst (named A))" using dist by (simp add: named)
  moreover have "\<forall>(k, ps) \<in> set A. \<forall>p \<in> set ps. global_epoch_id p = k" using ok by (fastforce simp: epoch_ok_def)
  ultimately show "dealable env cfg chips A e (num_epochs sol)"
    using eps c0(1) workload_okD(9,10) [OF w] unfolding dealable_def by blast
  have len: "length (erase_epochs ?E) = e" using arg_cong [OF t(2), of length] by (simp add: erase_epochs_def)
  have old: "map_of (epoch_id_to_chip (wh_solution s1)) (global_epoch_id p) = Some (placement_chip_id p) \<and>
      placement_allows env cfg (placement_chip_id p) p"
    if p: "map_of (name_to_op_placement (wh_solution s1)) n = Some p" "global_epoch_id p < e" for n p
  proof (cases "map_of ?N n")
    case None
    then have "map_of (named ?F) n = Some p" using p(1) by (simp add: N1 M map_add_def)
    from named_lookup_epoch [OF this c(2)] have "global_epoch_id p \<in> set (map fst ?F)" by simp
    then show ?thesis unfolding c(1) using p(2) by simp
  next
    case (Some q)
    then have "q = p" using p(1) by (simp add: N1 map_add_def split: option.splits)
    then show ?thesis using t(8) Some by (simp add: s1(3))
  qed
  show "dealt env cfg chips A e e s1"
    unfolding dealt_def
  proof (intro conjI)
    show "\<forall>n p. map_of (name_to_op_placement (wh_solution s1)) n = Some p \<and> global_epoch_id p < e \<longrightarrow>
        map_of (epoch_id_to_chip (wh_solution s1)) (global_epoch_id p) = Some (placement_chip_id p) \<and>
        placement_allows env cfg (placement_chip_id p) p"
      using old by blast
    show "erase_names (name_to_op_placement (wh_solution s1)) = named A" by (simp only: N1 named)
  qed (use t(6,7) len in \<open>simp_all add: s1(2-4) A\<close>)
qed

lemma key_member: "(k, v) \<in> set m \<Longrightarrow> k \<in> set (map fst m)"
  by force

text \<open>And its end: all its epochs are dealt.\<close>

lemma type_ends:
  assumes w: "workload_ok env cfg w chips" and t: "types_placed env cfg w chips tys e s"
    and ty: "distinct (tys @ [ty])" and c: "chip_solution_ok cfg w ty e sol"
    and A: "dealable env cfg chips A e (num_epochs sol)" and d: "dealt env cfg chips A e (e + num_epochs sol) s'"
    and keys: "map fst (named A) = names_of_types w (tys @ [ty])" and ok: "\<forall>kps \<in> set A. epoch_ok cfg kps"
    and A_def: "A = erase_epochs (epoch_id_to_op_placement (wh_solution s) @ epoch_id_to_op_placement sol)"
    and types: "\<And>k. map_of (wh_epoch_id_to_type s') k =
        (if e \<le> k \<and> k < e + num_epochs sol then Some ty else map_of (wh_epoch_id_to_type s) k)"
    and cnt: "num_epochs sol \<le> length (names (filter_op_groups (Some ty) w))"
  shows "types_placed env cfg w chips (tys @ [ty]) (e + num_epochs sol) s'"
proof -
  let ?E = "epoch_id_to_op_placement (wh_solution s)" and ?F = "epoch_id_to_op_placement sol"
  have eps: "map fst A = [0..<e + num_epochs sol]" using A by (simp add: dealable_def)
  have len: "length A = e + num_epochs sol" using arg_cong [OF eps, of length] by simp
  have all: "erase_epochs (epoch_id_to_op_placement (wh_solution s')) = A"
    using d len by (cases "num_epochs sol = 0") (simp_all add: dealt_def)
  have names: "erase_names (name_to_op_placement (wh_solution s')) = named A" using d by (simp add: dealt_def)
  then have keys': "map fst (name_to_op_placement (wh_solution s')) = names_of_types w (tys @ [ty])"
    using keys by (metis keys_erase(1))
  have allowed: "map_of (epoch_id_to_chip (wh_solution s')) (global_epoch_id p) = Some (placement_chip_id p) \<and>
      placement_allows env cfg (placement_chip_id p) p"
    if p: "map_of (name_to_op_placement (wh_solution s')) n = Some p" for n p
  proof (rule dealtD(4) [OF d p])
    have "map_of (named A) n = Some (erase p)" using dealtD(1) [OF d] p by simp
    from named_lookup_epoch [OF this ok] have "global_epoch_id p \<in> set (map fst A)" by simp
    then show "global_epoch_id p < e + num_epochs sol" unfolding eps by simp
  qed
  have typed: "\<exists>ty. map_of (wh_epoch_id_to_type s') k = Some ty \<and>
      (\<forall>p \<in> set ps. map_of (op_to_epoch_type cfg) (placement_name p) = Some ty)" if "(k, ps) \<in> set A" for k ps
  proof (cases "(k, ps) \<in> set (erase_epochs ?E)")
    case True
    then have "k \<in> set (map fst (erase_epochs ?E))" by (rule key_member)
    then have "k < e" using types_placedD(2) [OF t] by simp
    then show ?thesis using types_placedD(9) [OF t True] types by simp
  next
    case False
    then have F: "(k, ps) \<in> set (erase_epochs ?F)" using that by (simp add: A_def)
    then have "k \<in> set (map fst (erase_epochs ?F))" by (rule key_member)
    then have "e \<le> k \<and> k < e + num_epochs sol" using chip_solution_okD(1) [OF c] by simp
    moreover have "map fst (named (erase_epochs ?F)) = names (filter_op_groups (Some ty) w)"
      using chip_solution_okD(3,4) [OF c] by (simp add: named_erase) (simp add: named_def)
    then have "placement_name p \<in> set (names (filter_op_groups (Some ty) w))" if "p \<in> set ps" for p
      using named_member [OF F that] by simp
    ultimately show ?thesis using types typed_name(2) [OF w] by auto
  qed
  have "e + num_epochs sol \<le> length (names_of_types w (tys @ [ty]))"
  proof -
    have "e \<le> length (map fst (name_to_op_placement (wh_solution s)))" using types_placedD(5) [OF t] by simp
    then show ?thesis unfolding types_placedD(3) [OF t] using cnt by simp
  qed
  then have "e + num_epochs sol \<le> length (name_to_op_placement (wh_solution s'))"
    unfolding keys' [symmetric] by simp
  then show ?thesis
    unfolding types_placed_def Let_def all
    using names eps keys' ok allowed typed d by (intro conjI) (auto simp: dealt_def)
qed

lemma deal_type_ok:
  assumes w: "workload_ok env cfg w chips" and t: "types_placed env cfg w chips tys e s" and ty: "distinct (tys @ [ty])"
  shows "\<exists>s' e'. deal_epoch_type env cfg w chips ty (s, e) = Some (Inr (s', e')) \<and>
     types_placed env cfg w chips (tys @ [ty]) e' s'"
proof -
  note tD = types_placedD [OF t]
  have "e \<le> length (map fst (name_to_op_placement (wh_solution s)))" using tD(5) by simp
  also have "\<dots> \<le> length (names w)" unfolding tD(3) using ty by (intro typed_names_count [OF w]) simp
  finally have e: "e \<le> length (names w)" .
  then have "e + length (names w) < 2 ^ 32 - 1" using workload_okD(7) [OF w] by linarith
  from place_onto_chip_ok [OF workload_okD(1) [OF w] no_nebula_rows [OF workload_okD(2) [OF w]]
      workload_okD(3-5) [OF w] this, of ty] obtain sol where
    run: "place_onto_chip env cfg w e (Some ty) = Some (Inr sol)" and c: "chip_solution_ok cfg w ty e sol"
    and cnt: "num_epochs sol \<le> length (names (filter_op_groups (Some ty) w))" by blast
  have "length (names (filter_op_groups (Some ty) w)) \<le> length (names w)"
    using typed_names_count [OF w, of "[ty]"] by simp
  with cnt e have small: "add32 e (num_epochs sol) = e + num_epochs sol"
    using workload_okD(7) [OF w] by (intro add32_exact) linarith
  define fwd where "fwd = (ty = Forward \<or> ty = Optimizer)"
  define s1 where "s1 = s\<lparr>wh_solution := (wh_solution s)\<lparr>name_to_op_placement :=
        map_merge (name_to_op_placement (wh_solution s)) (name_to_op_placement sol)\<rparr>,
      wh_chip_solution := sol,
      wh_cursor := \<lparr>cur_placing_forward = True,
        cur_chip_index = (if fwd then 0 else sub64 (length chips) 1 mod 2 ^ 32),
        cur_temporal_epoch_id = cur_temporal_epoch_id (wh_cursor s), cur_spatial_epoch_id = 0\<rparr>,
      wh_num_epochs_placed_on_chip := 0\<rparr>"
  define A where "A = erase_epochs (epoch_id_to_op_placement (wh_solution s) @ epoch_id_to_op_placement sol)"
  have "dealable env cfg chips A e (num_epochs sol)" "dealt env cfg chips A e e s1"
    and keys: "map fst (named A) = names_of_types w (tys @ [ty])" and ok: "\<forall>kps \<in> set A. epoch_ok cfg kps"
    using type_starts [OF w t ty c _ _ _ _ A_def, of s1] by (simp_all add: s1_def)
  note A = this(1) and d = this(2)
  have cur: "cursor_ok chips (wh_cursor s1)"
    using workload_okD(8,9) [OF w] sub64_size [of "length chips"] by (simp add: s1_def cursor_ok_def)
  have "\<exists>s'. fold_res (deal_epoch env cfg ty chips fwd) [e + 0..<e + num_epochs sol] s1 = Inr s' \<and>
      dealt env cfg chips A e (e + num_epochs sol) s' \<and>
      (\<forall>k. map_of (wh_epoch_id_to_type s') k =
         (if e + 0 \<le> k \<and> k < e + num_epochs sol then Some ty else map_of (wh_epoch_id_to_type s1) k))"
    by (rule deal_epochs_ok [OF A _ cur]) (simp_all add: d)
  then obtain s' where s': "fold_res (deal_epoch env cfg ty chips fwd) [e..<e + num_epochs sol] s1 = Inr s'"
      "dealt env cfg chips A e (e + num_epochs sol) s'"
    and types: "\<And>k. map_of (wh_epoch_id_to_type s') k =
        (if e \<le> k \<and> k < e + num_epochs sol then Some ty else map_of (wh_epoch_id_to_type s) k)"
    by (auto simp: s1_def)
  have "deal_epoch_type env cfg w chips ty (s, e) = Some (Inr (s', e + num_epochs sol))"
    using s'(1) by (simp add: deal_epoch_type_def run small s1_def [symmetric] fwd_def [symmetric] Let_def)
  moreover have "types_placed env cfg w chips (tys @ [ty]) (e + num_epochs sol) s'"
    by (rule type_ends [OF w t ty c A s'(2) keys ok A_def types cnt])
  ultimately show ?thesis by blast
qed

section \<open>The workload of the schedule\<close>

text \<open>What the placer needs of an op: an epoch type, a chip that exists, and a shape that fits.\<close>

definition op_ready :: "PlacerConfig \<Rightarrow> string \<Rightarrow> bool" where
  "op_ready cfg op \<longleftrightarrow> schedulable cfg op \<and> chip_of cfg op \<in> set (chip_ids cfg) \<and>
     (is_wormhole_b0 (device_config cfg) \<and> op \<in> set (output_ops cfg) \<longrightarrow>
        chip_of cfg op \<in> set (chips_with_mmio (device_config cfg))) \<and>
     (\<exists>s. map_of (op_to_grid_shape cfg) op = Some s \<and> placeable (grid_rows cfg) (grid_columns cfg) s \<and>
        rows s \<le> grid_rows cfg \<and> columns s \<le> grid_columns cfg)"

lemma workload_of_group:
  assumes "grp \<in> set (workload_of cfg ops n)"
  obtains op where "op \<in> set ops" "op_names grp = [op]" "map_of (op_to_epoch_type cfg) op = Some (group_epoch_type grp)"
    "group_chip_id grp = chip_of cfg op"
proof -
  obtain f ty m where "grp \<in> set (map (group_of cfg f ty) (enumerate m (ops_of_type cfg ty ops)))"
    using assms unfolding workload_of_def Let_def set_append by blast
  then show ?thesis
    using that by (auto simp: group_of_def ops_of_type_def dest!: enumerate_member)
qed

lemma names_of_workload: "names (workload_of cfg ops n) = schedule_order cfg ops"
  by (simp add: workload_of_fields(2))

lemma schedule_workload_ok:
  assumes "device_ok cfg" "\<not> PYBUDA_NEBULA_GALAXY_PLACER env" "distinct ops" "\<forall>op \<in> set ops. op_ready cfg op"
    and "2 * length ops < 2 ^ 32 - 1" "chips \<noteq> []" "length chips < 2 ^ 32" "chips_with_mmio (device_config cfg) \<noteq> []"
    and "\<exists>c \<in> set chips. \<forall>op \<in> set ops. placement_allows env cfg c (default_op_placement\<lparr>placement_name := op\<rparr>)"
  shows "workload_ok env cfg (workload_of cfg ops n) chips"
proof -
  have "mset (schedule_order cfg ops) = mset ops"
    using assms(4) by (intro mset_schedule_order) (simp add: op_ready_def schedulable_def)
  then have order: "distinct (schedule_order cfg ops)" "set (schedule_order cfg ops) = set ops"
    "length (schedule_order cfg ops) = length ops"
    using assms(3) by (metis mset_eq_imp_distinct_iff, metis mset_eq_setD, metis size_mset)
  have grp: "group_accepted cfg g \<and> single_op cfg g \<and> group_chip_id g \<in> set (chip_ids cfg) \<and>
      (\<forall>m \<in> set (op_names g). map_of (op_to_epoch_type cfg) m = Some (group_epoch_type g))"
    if g: "g \<in> set (workload_of cfg ops n)" for g
  proof -
    from workload_of_group [OF g] obtain op where op: "op \<in> set ops" "op_names g = [op]"
      "map_of (op_to_epoch_type cfg) op = Some (group_epoch_type g)" "group_chip_id g = chip_of cfg op" .
    have "op_ready cfg op" using assms(4) op(1) by blast
    then show ?thesis using op(2-4)
      by (auto simp: op_ready_def group_accepted_def op_fits_device_def single_op_def grid_rows_def grid_columns_def)
  qed
  have "validate_chip_mapping cfg (workload_of cfg ops n) = Inr ()"
    unfolding validate_chip_mapping_eq using grp by simp
  moreover have "validate_placer_inputs cfg (workload_of cfg ops n) = Inr ()"
    unfolding validate_placer_inputs_eq names_of_workload using grp order(1) by simp
  ultimately show ?thesis
    using assms grp order unfolding workload_ok_def names_of_workload by auto
qed

lemma mset_split: "mset (filter (\<lambda>x. \<not> P x) xs) + mset (filter P xs) = mset xs"
  by (induction xs) auto

lemma apply_chip_placement_policy_permutes:
  assumes "apply_chip_placement_policy d policy ids = Inr chips"
  shows "mset chips = mset ids"
proof (cases policy)
  case MMIO_LAST
  then have "mset chips = mset (filter (\<lambda>c. c \<notin> set (chips_with_mmio d)) ids) +
      mset (filter (\<lambda>c. c \<in> set (chips_with_mmio d)) ids)"
    using assms by (auto simp: apply_chip_placement_policy_def)
  also have "\<dots> = mset ids" by (rule mset_split)
  finally show ?thesis .
next
  case SNAKE
  then show ?thesis using assms
    using mset_split [of "\<lambda>c. map_of m c = None" ids for m]
    by (auto simp: apply_chip_placement_policy_def res_simps Let_def)
qed

section \<open>The placer\<close>

text \<open>What \<open>wormhole_placer\<close> promises of its solution.\<close>

definition wormhole_solution_ok :: "Env \<Rightarrow> PlacerConfig \<Rightarrow> string list \<Rightarrow> PlacerSolution \<Rightarrow> bool" where
  "wormhole_solution_ok env cfg ops sol \<longleftrightarrow>
     map fst (name_to_op_placement sol) = schedule_order cfg ops \<and>
     (\<forall>op \<in> set ops. \<exists>p chip info. map_of (name_to_op_placement sol) op = Some p \<and>
        placement_name p = op \<and> has_shape cfg p \<and> on_device (grid_rows cfg) (grid_columns cfg) p \<and>
        chip \<in> set (chip_ids cfg) \<and> placement_chip_id p = chip \<and> placement_allows env cfg chip p \<and>
        map_of (epoch_id_to_chip sol) (global_epoch_id p) = Some chip \<and>
        map_of (epoch_id_to_epoch_info sol) (global_epoch_id p) = Some info \<and>
        map_of (op_to_epoch_type cfg) op = Some (info_epoch_type info)) \<and>
     (\<forall>op op' p p'. map_of (name_to_op_placement sol) op = Some p \<and> map_of (name_to_op_placement sol) op' = Some p' \<and>
        op \<noteq> op' \<and> global_epoch_id p = global_epoch_id p' \<longrightarrow> \<not> share_core p p') \<and>
     (\<exists>N type_of. epoch_matrix (chip_ids cfg) sol (num_epochs sol) N type_of)"

definition wormhole_start :: "PlacerConfig \<Rightarrow> WormholeState" where
  "wormhole_start cfg = \<lparr>wh_solution = empty_solution cfg, wh_epoch_id_to_type = [], wh_chip_solution = empty_solution cfg,
     wh_cursor = \<lparr>cur_placing_forward = True, cur_chip_index = 0, cur_temporal_epoch_id = 0, cur_spatial_epoch_id = 0\<rparr>,
     wh_num_epochs_placed_on_chip = 0\<rparr>"

lemma all_types_placed:
  assumes w: "workload_ok env cfg w chips"
  shows "\<exists>s e. fold_comp (deal_epoch_type env cfg w chips) [Forward, Backward, Optimizer] (wormhole_start cfg, 0) =
       Some (Inr (s, e)) \<and> types_placed env cfg w chips [Forward, Backward, Optimizer] e s"
proof -
  have "types_placed env cfg w chips [] 0 (wormhole_start cfg)"
    by (simp add: types_placed_def wormhole_start_def empty_solution_def erase_epochs_def erase_names_def named_def)
  from deal_type_ok [OF w this, of Forward] obtain s1 e1 where
    1: "deal_epoch_type env cfg w chips Forward (wormhole_start cfg, 0) = Some (Inr (s1, e1))"
    "types_placed env cfg w chips [Forward] e1 s1" by auto
  from deal_type_ok [OF w 1(2), of Backward] obtain s2 e2 where
    2: "deal_epoch_type env cfg w chips Backward (s1, e1) = Some (Inr (s2, e2))"
    "types_placed env cfg w chips [Forward, Backward] e2 s2" by auto
  from deal_type_ok [OF w 2(2), of Optimizer] obtain s3 e3 where
    3: "deal_epoch_type env cfg w chips Optimizer (s2, e2) = Some (Inr (s3, e3))"
    "types_placed env cfg w chips [Forward, Backward, Optimizer] e3 s3" by auto
  show ?thesis using 1(1) 2(1) 3 by (intro exI [of _ s3] exI [of _ e3]) simp
qed

lemma sorted_wrt_pair:
  "sorted_wrt P xs \<Longrightarrow> x \<in> set xs \<Longrightarrow> y \<in> set xs \<Longrightarrow> x \<noteq> y \<Longrightarrow> P x y \<or> P y x"
  by (induction xs) auto

lemma share_core_erase: "share_core (erase p) (erase q) = share_core p q"
  by (simp add: share_core_def core_of_def)

lemma on_device_erase: "on_device R C (erase p) = on_device R C p" "has_shape cfg (erase p) = has_shape cfg p"
  by (simp_all add: on_device_def has_shape_def)

text \<open>What the epochs say of the placement of an op.\<close>

lemma placed_op_facts:
  assumes t: "types_placed env cfg w chips tys e s"
    and p: "map_of (name_to_op_placement (wh_solution s)) n = Some p"
  shows "placement_name p = n" "has_shape cfg p" "on_device (grid_rows cfg) (grid_columns cfg) p"
    and "global_epoch_id p < e" "map_of (wh_epoch_id_to_type s) (global_epoch_id p) = map_of (op_to_epoch_type cfg) n"
    and "map_of (op_to_epoch_type cfg) n \<noteq> None"
    and "map_of (name_to_op_placement (wh_solution s)) m = Some q \<Longrightarrow> n \<noteq> m \<Longrightarrow>
      global_epoch_id p = global_epoch_id q \<Longrightarrow> \<not> share_core p q"
proof -
  let ?A = "erase_epochs (epoch_id_to_op_placement (wh_solution s))"
  have epoch: "\<exists>ps. (global_epoch_id p, ps) \<in> set ?A \<and> erase p \<in> set ps \<and> placement_name p = n \<and>
      epoch_ok cfg (global_epoch_id p, ps)"
    if "map_of (name_to_op_placement (wh_solution s)) n = Some p" for n p
  proof -
    have "map_of (named ?A) n = Some (erase p)"
      using that types_placedD(1) [OF t] map_of_erase(1) [of "name_to_op_placement (wh_solution s)" n] by simp
    then have "(n, erase p) \<in> set (named ?A)" by (rule map_of_SomeD)
    then obtain k ps where k: "(k, ps) \<in> set ?A" "erase p \<in> set ps" "placement_name p = n" by (auto simp: named_def)
    have ok: "epoch_ok cfg (k, ps)" using types_placedD(4) [OF t] k(1) by blast
    have "\<forall>q \<in> set ps. global_epoch_id q = k" using ok by (simp add: epoch_ok_def)
    with k(2) have "global_epoch_id (erase p) = k" by blast
    then show ?thesis using k ok by auto
  qed
  from epoch [OF p] obtain ps where ps: "(global_epoch_id p, ps) \<in> set ?A" "erase p \<in> set ps" "placement_name p = n"
    "epoch_ok cfg (global_epoch_id p, ps)" by blast
  show "placement_name p = n" by (rule ps(3))
  have "\<forall>q \<in> set ps. has_shape cfg q \<and> on_device (grid_rows cfg) (grid_columns cfg) q"
    using ps(4) by (simp add: epoch_ok_def)
  with ps(2) have "has_shape cfg (erase p) \<and> on_device (grid_rows cfg) (grid_columns cfg) (erase p)" by blast
  then show "has_shape cfg p" "on_device (grid_rows cfg) (grid_columns cfg) p" by (simp_all add: on_device_erase)
  have keys: "map fst ?A = [0..<e]" using types_placedD(2) [OF t] by simp
  have "global_epoch_id p \<in> set (map fst ?A)" using ps(1) by (rule key_member)
  then show "global_epoch_id p < e" unfolding keys by simp
  from types_placedD(9) [OF t ps(1)] ps(2,3)
  show "map_of (wh_epoch_id_to_type s) (global_epoch_id p) = map_of (op_to_epoch_type cfg) n"
    "map_of (op_to_epoch_type cfg) n \<noteq> None" by fastforce+
  assume q: "map_of (name_to_op_placement (wh_solution s)) m = Some q" "n \<noteq> m"
    and same: "global_epoch_id p = global_epoch_id q"
  from epoch [OF q(1)] obtain qs where qs: "(global_epoch_id q, qs) \<in> set ?A" "erase q \<in> set qs" "placement_name q = m"
    by blast
  have "distinct (map fst ?A)" unfolding keys by simp
  then have "qs = ps" using ps(1) qs(1) same by (metis map_of_is_SomeI option.inject)
  moreover have "erase p \<noteq> erase q" using q(2) ps(3) qs(3) by (metis erase_simps(1))
  ultimately have "\<not> share_core (erase p) (erase q) \<or> \<not> share_core (erase q) (erase p)"
    using sorted_wrt_pair [of "\<lambda>p q. \<not> share_core p q" ps "erase p" "erase q"] ps(2,4) qs(2)
    unfolding epoch_ok_def by simp
  then have "\<not> share_core p q \<or> \<not> share_core q p" by (simp only: share_core_erase)
  then show "\<not> share_core p q" by (auto simp: share_core_def)
qed

lemma group_of_names: "names (map (group_of cfg f ty) (enumerate m xs)) = xs"
  by (induction xs arbitrary: m) (simp_all add: group_of_def)

lemma names_by_type:
  "names_of_types (workload_of cfg ops n) [Forward, Backward, Optimizer] = schedule_order cfg ops"
proof -
  have "filter_op_groups (Some ty) (map (group_of cfg f ty') (enumerate m xs)) =
      (if ty = ty' then map (group_of cfg f ty') (enumerate m xs) else [])" for ty ty' f m and xs :: "string list"
    by (auto simp: filter_op_groups_def filter_map comp_def group_of_def)
  moreover have "filter_op_groups (Some ty) (u @ v) = filter_op_groups (Some ty) u @ filter_op_groups (Some ty) v" for ty u v
    by (simp add: filter_op_groups_def)
  ultimately show ?thesis
    by (simp add: workload_of_def Let_def schedule_order_def group_of_names [unfolded map_map])
qed

lemma wormhole_placer_ok:
  assumes dev: "device_ok cfg" "\<not> PYBUDA_NEBULA_GALAXY_PLACER env" "chips_with_mmio (device_config cfg) \<noteq> []"
    and ops: "distinct ops" "\<forall>op \<in> set ops. op_ready cfg op" "n + length ops < 2 ^ 32"
    and tags: "set (ops_tagged_for_chip_id_break cfg) \<union> set (ops_tagged_for_epoch_break cfg) \<subseteq> set ops"
    and chips: "distinct (chip_ids cfg)" "chip_ids cfg \<noteq> []"
      "apply_chip_placement_policy (device_config cfg) (chip_placement_policy cfg) (chip_ids cfg) = Inr chips"
    and some: "\<exists>c \<in> set (chip_ids cfg). \<forall>op \<in> set ops. placement_allows env cfg c (default_op_placement\<lparr>placement_name := op\<rparr>)"
    and small: "length (chip_ids cfg) < 2 ^ 32" "2 * length ops < 2 ^ 32 - 1" "Suc (length ops * length (chip_ids cfg)) < 2 ^ 32"
  shows "\<exists>sol. wormhole_placer env cfg ops n = Some (Inr (sol, n + length ops)) \<and> wormhole_solution_ok env cfg ops sol"
proof -
  have perm: "set chips = set (chip_ids cfg)" "length chips = length (chip_ids cfg)"
    using apply_chip_placement_policy_permutes [OF chips(3)] by (metis mset_eq_setD, metis size_mset)
  have "chips \<noteq> []" using perm(2) chips(2) by auto
  let ?w = "workload_of cfg ops n"
  have ready: "\<forall>op \<in> set ops. schedulable cfg op" using ops(2) by (simp add: op_ready_def)
  have gen: "generate_wormhole_placer_workload cfg ops n = Inr (?w, n + length ops)"
    using ready ops(3) tags by (intro wormhole_workload) (simp_all add: check_user_defined_op_names_eq)
  have w: "workload_ok env cfg ?w chips"
    using some small perm \<open>chips \<noteq> []\<close> by (intro schedule_workload_ok dev ops(1,2)) simp_all
  from all_types_placed [OF w] obtain s e where
    deal: "fold_comp (deal_epoch_type env cfg ?w chips) [Forward, Backward, Optimizer] (wormhole_start cfg, 0) = Some (Inr (s, e))"
    and t: "types_placed env cfg ?w chips [Forward, Backward, Optimizer] e s" by blast
  let ?sol = "wh_solution s"
  note tD = types_placedD [OF t]
  have order: "map fst (name_to_op_placement ?sol) = schedule_order cfg ops"
    unfolding tD(3) by (rule names_by_type)
  have "mset (schedule_order cfg ops) = mset ops"
    using ready by (intro mset_schedule_order) (simp add: schedulable_def)
  then have same: "set (schedule_order cfg ops) = set ops" "length (schedule_order cfg ops) = length ops"
    by (metis mset_eq_setD, metis size_mset)
  have len: "e \<le> length ops"
    using tD(5) same(2) unfolding order [symmetric] by simp
  have stage: "\<exists>ts sol' epochs. fold_res (temporal_step cfg (epoch_id_to_op_placement ?sol) (wh_epoch_id_to_type s))
        (epoch_id_to_chip ?sol) (fresh_temporal (epoch_id_to_epoch_info ?sol)) = Inr ts \<and>
     add_empty_epochs cfg ts (?sol\<lparr>epoch_id_to_epoch_info := temporal_info ts\<rparr>, e) = Inr (sol', epochs) \<and>
     e \<le> epochs \<and> same_below e (?sol\<lparr>epoch_id_to_epoch_info := temporal_info ts\<rparr>) sol' \<and>
     (\<forall>k < e. map_option info_epoch_type (map_of (epoch_id_to_epoch_info sol') k) = map_of (wh_epoch_id_to_type s) k) \<and>
     (\<forall>k. e \<le> k \<and> k < epochs \<longrightarrow> map_of (epoch_id_to_op_placement sol') k = Some []) \<and>
     (\<exists>N type_of. N \<le> e \<and> epoch_matrix (chip_ids cfg) sol' epochs N type_of)"
  proof (rule temporal_stage [OF tD(6) chips(1,2)])
    show "\<forall>k < e. \<exists>c \<in> set (chip_ids cfg). map_of (epoch_id_to_chip ?sol) k = Some c"
    proof (intro allI impI)
      fix k
      assume "k < e"
      then have "k \<in> set (map fst (epoch_id_to_chip ?sol))" unfolding tD(6) by simp
      then obtain c where c: "map_of (epoch_id_to_chip ?sol) k = Some c" by (metis list.set_map map_of_eq_None_iff not_None_eq)
      then have "c \<in> snd ` set (epoch_id_to_chip ?sol)" by (force dest: map_of_SomeD)
      then show "\<exists>c \<in> set (chip_ids cfg). map_of (epoch_id_to_chip ?sol) k = Some c" using c tD(7) perm(1) by blast
    qed
    show "\<forall>k < e. map_of (epoch_id_to_op_placement ?sol) k \<noteq> None \<and> map_of (wh_epoch_id_to_type s) k \<noteq> None"
    proof (intro allI impI)
      fix k
      assume "k < e"
      then have "k \<in> set (map fst (epoch_id_to_op_placement ?sol))" unfolding tD(2) by simp
      then obtain ps where ps: "map_of (epoch_id_to_op_placement ?sol) k = Some ps"
        by (metis list.set_map map_of_eq_None_iff not_None_eq)
      have "(k, map erase ps) \<in> set (erase_epochs (epoch_id_to_op_placement ?sol))"
        using ps map_of_SomeD [of "erase_epochs (epoch_id_to_op_placement ?sol)" k] by (simp add: map_of_erase)
      from tD(9) [OF this] ps
      show "map_of (epoch_id_to_op_placement ?sol) k \<noteq> None \<and> map_of (wh_epoch_id_to_type s) k \<noteq> None" by auto
    qed
    have "e * length (chip_ids cfg) \<le> length ops * length (chip_ids cfg)" using len by (rule mult_le_mono1)
    then show "Suc (e * length (chip_ids cfg)) < 2 ^ 32" using small(3) by linarith
  qed
  then obtain ts sol' epochs N type_of where
    run: "fold_res (temporal_step cfg (epoch_id_to_op_placement ?sol) (wh_epoch_id_to_type s))
        (epoch_id_to_chip ?sol) (fresh_temporal (epoch_id_to_epoch_info ?sol)) = Inr ts"
      "add_empty_epochs cfg ts (?sol\<lparr>epoch_id_to_epoch_info := temporal_info ts\<rparr>, e) = Inr (sol', epochs)"
    and below: "same_below e (?sol\<lparr>epoch_id_to_epoch_info := temporal_info ts\<rparr>) sol'"
    and types: "\<forall>k < e. map_option info_epoch_type (map_of (epoch_id_to_epoch_info sol') k) = map_of (wh_epoch_id_to_type s) k"
    and matrix: "epoch_matrix (chip_ids cfg) sol' epochs N type_of" by blast
  let ?res = "sol'\<lparr>num_epochs := epochs, is_pipelined := (ops_tagged_for_chip_id_break cfg \<noteq> [])\<rparr>"
  have "wormhole_placer env cfg ops n = Some (Inr (?res, n + length ops))"
    unfolding wormhole_placer_def gen wormhole_start_def [symmetric] fresh_temporal_def [symmetric]
    by (simp only: comp_bind_simps chips(3) deal run Let_def prod.case)
  moreover have "wormhole_solution_ok env cfg ops ?res"
    unfolding wormhole_solution_ok_def
  proof (intro conjI)
    have N: "name_to_op_placement ?res = name_to_op_placement ?sol" using below by (simp add: same_below_def)
    show "map fst (name_to_op_placement ?res) = schedule_order cfg ops" using order unfolding N .
    show "\<forall>op \<in> set ops. \<exists>p chip info. map_of (name_to_op_placement ?res) op = Some p \<and>
        placement_name p = op \<and> has_shape cfg p \<and> on_device (grid_rows cfg) (grid_columns cfg) p \<and>
        chip \<in> set (chip_ids cfg) \<and> placement_chip_id p = chip \<and> placement_allows env cfg chip p \<and>
        map_of (epoch_id_to_chip ?res) (global_epoch_id p) = Some chip \<and>
        map_of (epoch_id_to_epoch_info ?res) (global_epoch_id p) = Some info \<and>
        map_of (op_to_epoch_type cfg) op = Some (info_epoch_type info)"
    proof
      fix op
      assume "op \<in> set ops"
      then have "op \<in> set (map fst (name_to_op_placement ?sol))" unfolding order same(1) .
      then obtain p where p: "map_of (name_to_op_placement ?sol) op = Some p"
        by (metis list.set_map map_of_eq_None_iff not_None_eq)
      note f = placed_op_facts [OF t p]
      from tD(8) [OF p] have chip: "map_of (epoch_id_to_chip ?sol) (global_epoch_id p) = Some (placement_chip_id p)"
        "placement_allows env cfg (placement_chip_id p) p" by simp_all
      then have "placement_chip_id p \<in> snd ` set (epoch_id_to_chip ?sol)" by (force dest: map_of_SomeD)
      then have "placement_chip_id p \<in> set (chip_ids cfg)" using tD(7) perm(1) by blast
      moreover have "map_of (epoch_id_to_chip ?res) (global_epoch_id p) = Some (placement_chip_id p)"
        using below f(4) chip(1) by (simp add: same_below_def)
      moreover obtain info where "map_of (epoch_id_to_epoch_info ?res) (global_epoch_id p) = Some info"
        "map_of (op_to_epoch_type cfg) op = Some (info_epoch_type info)"
        using types f(4,5,6) by fastforce
      ultimately show "\<exists>p chip info. map_of (name_to_op_placement ?res) op = Some p \<and>
        placement_name p = op \<and> has_shape cfg p \<and> on_device (grid_rows cfg) (grid_columns cfg) p \<and>
        chip \<in> set (chip_ids cfg) \<and> placement_chip_id p = chip \<and> placement_allows env cfg chip p \<and>
        map_of (epoch_id_to_chip ?res) (global_epoch_id p) = Some chip \<and>
        map_of (epoch_id_to_epoch_info ?res) (global_epoch_id p) = Some info \<and>
        map_of (op_to_epoch_type cfg) op = Some (info_epoch_type info)"
        unfolding N using p f(1-3) chip(2) by blast
    qed
    show "\<forall>op op' p p'. map_of (name_to_op_placement ?res) op = Some p \<and>
        map_of (name_to_op_placement ?res) op' = Some p' \<and> op \<noteq> op' \<and> global_epoch_id p = global_epoch_id p' \<longrightarrow>
        \<not> share_core p p'"
      unfolding N using placed_op_facts(7) [OF t] by blast
    show "\<exists>N type_of. epoch_matrix (chip_ids cfg) ?res (num_epochs ?res) N type_of"
      using matrix by (auto simp: epoch_matrix_def)
  qed
  ultimately show ?thesis by blast
qed

text \<open>
  C2 (liveness). \<open>wormhole_placer\<close> returns. Every scheduled op is placed, in the order of the schedule, on free
  cores of its shape inside the device; its chip exists, accepts the op, and is the one the op's epoch is registered
  on; the epoch has the op's epoch type; and the temporal epochs form a full matrix: each has exactly one epoch per
  chip, of one epoch type, the holes filled with empty epochs. Needed: no overrides on the device grid, ops that fit
  an empty device, and one chip that accepts every op.
\<close>

theorem wormhole_placer_correct:
  assumes "device_ok cfg" "\<not> PYBUDA_NEBULA_GALAXY_PLACER env" "chips_with_mmio (device_config cfg) \<noteq> []"
    and "distinct ops" "\<forall>op \<in> set ops. op_ready cfg op" "n + length ops < 2 ^ 32"
    and "set (ops_tagged_for_chip_id_break cfg) \<union> set (ops_tagged_for_epoch_break cfg) \<subseteq> set ops"
    and "distinct (chip_ids cfg)" "chip_ids cfg \<noteq> []"
    and "apply_chip_placement_policy (device_config cfg) (chip_placement_policy cfg) (chip_ids cfg) = Inr chips"
    and "\<exists>c \<in> set (chip_ids cfg). \<forall>op \<in> set ops. placement_allows env cfg c (default_op_placement\<lparr>placement_name := op\<rparr>)"
    and "length (chip_ids cfg) < 2 ^ 32" "2 * length ops < 2 ^ 32 - 1" "Suc (length ops * length (chip_ids cfg)) < 2 ^ 32"
  shows "\<exists>sol. wormhole_placer env cfg ops n = Some (Inr (sol, n + length ops)) \<and> wormhole_solution_ok env cfg ops sol"
  using assms by (rule wormhole_placer_ok)

text \<open>Two ops of the whole grid, three chips, only the last with MMIO: chips 0 and 1 are used, chip 7 gets an empty epoch.\<close>

definition three_chip_config :: PlacerConfig where
  "three_chip_config = (sample_config WORMHOLE_B0 (mk_shape 1 1) [(''a'', mk_shape 1 1), (''b'', mk_shape 1 1)] [])
     \<lparr>chip_ids := [0, 1, 7], op_to_chip_id_assignment := [],
      device_config := \<lparr>arch = WORMHOLE_B0, chips_with_mmio = [7], chip_coord_to_chip_id = [], galaxy_shelves = []\<rparr>\<rparr>"

theorem wormhole_placer_correct_witness:
  "\<exists>sol. wormhole_placer sample_env three_chip_config [''b'', ''a''] 0 = Some (Inr (sol, 2)) \<and>
     map fst (name_to_op_placement sol) = [''b'', ''a'']"
proof -
  have rows: "get_available_rows_on_device three_chip_config = 1"
    by (simp add: three_chip_config_def sample_config_def get_available_rows_on_device_def sub32_def)
  have "device_ok three_chip_config"
    by (simp add: device_ok_def plain_config_def grid_rows_def grid_columns_def rows)
       (simp add: three_chip_config_def sample_config_def)
  moreover have "\<forall>op \<in> set [''b'', ''a'']. op_ready three_chip_config op"
    by (simp add: op_ready_def schedulable_def chip_of_def get_chip_id_def placeable_def nonempty_shape_def
        small_shape_def transposed_def grid_rows_def grid_columns_def rows)
       (simp add: three_chip_config_def sample_config_def is_grayskull_def)
  moreover have "apply_chip_placement_policy (device_config three_chip_config) (chip_placement_policy three_chip_config)
      (chip_ids three_chip_config) = Inr [0, 1, 7]"
    by (simp add: apply_chip_placement_policy_def three_chip_config_def sample_config_def)
  moreover have "\<forall>op \<in> set [''b'', ''a'']. placement_allows sample_env three_chip_config 0
      (default_op_placement\<lparr>placement_name := op\<rparr>)"
    by (simp add: placement_allows_def three_chip_config_def sample_config_def sample_env_def get_chip_id_override_def)
  ultimately have "\<exists>sol. wormhole_placer sample_env three_chip_config [''b'', ''a''] 0 = Some (Inr (sol, 0 + length [''b'', ''a''])) \<and>
      wormhole_solution_ok sample_env three_chip_config [''b'', ''a''] sol"
    by (intro wormhole_placer_correct [where chips = "[0, 1, 7]"])
       (simp_all add: three_chip_config_def sample_config_def sample_env_def)
  then obtain sol where sol: "wormhole_placer sample_env three_chip_config [''b'', ''a''] 0 = Some (Inr (sol, 2))"
    "wormhole_solution_ok sample_env three_chip_config [''b'', ''a''] sol" by auto
  have "schedule_order three_chip_config [''b'', ''a''] = [''b'', ''a'']" by code_simp
  then have "map fst (name_to_op_placement sol) = [''b'', ''a'']"
    using sol(2) unfolding wormhole_solution_ok_def by (elim conjE) simp
  then show ?thesis using sol(1) by (intro exI [of _ sol] conjI)
qed

text \<open>
  The epoch map of the solution can name a wrong chip. \<open>epoch_id_to_op_placement.insert\<close> copies the
  epochs of the whole epoch type when the first of them is dealt, and never overwrites: every later epoch keeps the
  chip of the workload. Here op \<open>a\<close> runs in epoch 1, which is registered on chip 1, as is the op itself in the
  name map; in the epoch map it is still on chip 0.
\<close>

theorem epoch_map_keeps_stale_chip:
  "case wormhole_placer sample_env three_chip_config [''b'', ''a''] 0 of
     Some (Inr (sol, _)) \<Rightarrow>
       map_of (epoch_id_to_chip sol) 1 = Some 1 \<and>
       map_option placement_chip_id (map_of (name_to_op_placement sol) ''a'') = Some 1 \<and>
       map_option (map (\<lambda>p. (placement_name p, placement_chip_id p))) (map_of (epoch_id_to_op_placement sol) 1) =
         Some [(''a'', 0)]
   | _ \<Rightarrow> False"
  by code_simp

end
