(* ===== verification/Chip_Assignment.thy ===== *)
theory Chip_Assignment
  imports Placer_Types
begin

text \<open>
  \<open>placer/chip_id_assignment.cpp\<close>: on grayskull every op is assigned to a chip before placement.
  Forward ops go to the chips in schedule order, by the user's chip breaks or in chunks of equal
  size; backward and optimizer ops follow the forward op they belong to.
\<close>

record ChipPlacerConfig =
  cp_chip_ids :: "nat list"
  cp_arch_name :: string
  cp_op_to_epoch_type :: "(string \<times> NodeEpochType) list"
  cp_ops_tagged_for_chip_id_break :: "string list"
  cp_fwd_to_bwd_nodes :: "(string \<times> string list) list"
  cp_fwd_to_opt_nodes :: "(string \<times> (int \<times> string list) list) list"

definition chip_placement_policy_from_string :: "string \<Rightarrow> ChipPlacementPolicy res" where
  "chip_placement_policy_from_string s =
     (if s = ''MMIO_LAST'' then Inr MMIO_LAST
      else if s = ''SNAKE'' then Inr SNAKE
      else Inl RuntimeError)"

definition get_num_fwd_ops :: "ChipPlacerConfig \<Rightarrow> string list \<Rightarrow> nat res" where
  "get_num_fwd_ops cfg scheduled_ops =
     fold_res (\<lambda>op n. res_bind (at_key (cp_op_to_epoch_type cfg) op) (\<lambda>ty.
       Inr (if ty = Forward then n + 1 else n))) scheduled_ops 0"

record AssignState =
  current_chip_index :: nat
  current_chip_id :: nat
  chip_id_to_num_assigned_ops :: "(nat \<times> nat) list"
  fwd_op_to_chip_id_placement :: "(string \<times> nat) list"

definition assign_current :: "ChipPlacerConfig \<Rightarrow> string \<Rightarrow> AssignState \<Rightarrow> AssignState res" where
  "assign_current cfg op s =
     res_bind (vec_idx (cp_chip_ids cfg) (current_chip_index s)) (\<lambda>chip.
       Inr (s\<lparr>current_chip_id := chip,
              fwd_op_to_chip_id_placement := AList.update op chip (fwd_op_to_chip_id_placement s),
              chip_id_to_num_assigned_ops := AList.update chip
                ((case map_of (chip_id_to_num_assigned_ops s) chip of None \<Rightarrow> 0 | Some n \<Rightarrow> n) + 1)
                (chip_id_to_num_assigned_ops s)\<rparr>))"

definition advance_chip :: "ChipPlacerConfig \<Rightarrow> AssignState \<Rightarrow> AssignState" where
  "advance_chip cfg s =
     s\<lparr>current_chip_index := add32 (current_chip_index s) 1 mod length (cp_chip_ids cfg)\<rparr>"

definition user_scheme_step :: "ChipPlacerConfig \<Rightarrow> string \<Rightarrow> AssignState \<Rightarrow> AssignState res" where
  "user_scheme_step cfg op s =
     (let s1 = (if map_of (chip_id_to_num_assigned_ops s) (current_chip_id s) \<noteq> None \<and>
                   op \<in> set (cp_ops_tagged_for_chip_id_break cfg)
                then advance_chip cfg s else s) in
      res_bind (at_key (cp_op_to_epoch_type cfg) op) (\<lambda>ty.
        if ty = Forward then assign_current cfg op s1 else Inr s1))"

text \<open>
  The number of ops per device is \<open>ceil((float)n / m)\<close>; below 2 to the 24 ops the division is
  exact enough for this to be the integer ceiling. The second component counts the forward ops.
\<close>

definition ops_per_device :: "nat \<Rightarrow> nat \<Rightarrow> nat" where
  "ops_per_device n m = (n + m - 1) div m"

definition auto_scheme_step ::
    "ChipPlacerConfig \<Rightarrow> nat \<Rightarrow> string \<Rightarrow> AssignState \<times> nat \<Rightarrow> (AssignState \<times> nat) res" where
  "auto_scheme_step cfg per_device op s =
     res_bind (at_key (cp_op_to_epoch_type cfg) op) (\<lambda>ty.
       if ty = Forward
       then res_bind (assign_current cfg op (fst s)) (\<lambda>s1.
              let fwd_op_idx = snd s + 1 in
              Inr (if fwd_op_idx mod per_device = 0 then advance_chip cfg s1 else s1, fwd_op_idx))
       else Inr s)"

definition get_grayskull_fwd_op_to_chip_id_placement ::
    "ChipPlacerConfig \<Rightarrow> string list \<Rightarrow> (string \<times> nat) list res" where
  "get_grayskull_fwd_op_to_chip_id_placement cfg scheduled_ops =
     res_bind (vec_idx (cp_chip_ids cfg) 0) (\<lambda>chip.
     let s0 = \<lparr>current_chip_index = 0, current_chip_id = chip, chip_id_to_num_assigned_ops = [],
               fwd_op_to_chip_id_placement = []\<rparr> in
     if cp_ops_tagged_for_chip_id_break cfg \<noteq> [] \<or> length (cp_chip_ids cfg) = 1
     then res_bind (fold_res (user_scheme_step cfg) scheduled_ops s0) (\<lambda>s.
            Inr (fwd_op_to_chip_id_placement s))
     else res_bind (get_num_fwd_ops cfg scheduled_ops) (\<lambda>n.
          res_bind (fold_res (auto_scheme_step cfg (ops_per_device n (length (cp_chip_ids cfg))))
                      scheduled_ops (s0, 0)) (\<lambda>s.
            Inr (fwd_op_to_chip_id_placement (fst s)))))"

definition assign_bwd_nodes ::
    "ChipPlacerConfig \<Rightarrow> string \<Rightarrow> (string \<times> nat) list \<Rightarrow> (string \<times> nat) list res" where
  "assign_bwd_nodes cfg op m =
     res_bind (at_key (cp_op_to_epoch_type cfg) op) (\<lambda>ty.
       if ty = Forward
       then res_bind (at_key m op) (\<lambda>fwd_chip_id.
              Inr (case map_of (cp_fwd_to_bwd_nodes cfg) op of
                     None \<Rightarrow> m
                   | Some bwds \<Rightarrow> fold (\<lambda>b. AList.update b fwd_chip_id) bwds m))
       else Inr m)"

definition assign_opt_nodes ::
    "ChipPlacerConfig \<Rightarrow> string \<Rightarrow> (string \<times> nat) list \<Rightarrow> (string \<times> nat) list res" where
  "assign_opt_nodes cfg op m =
     res_bind (at_key (cp_op_to_epoch_type cfg) op) (\<lambda>ty.
       if ty = Forward
       then (case map_of (cp_fwd_to_opt_nodes cfg) op of
               None \<Rightarrow> Inr m
             | Some opts \<Rightarrow>
                 res_bind (at_key m op) (\<lambda>fwd_chip_id.
                   Inr (fold (\<lambda>(ix, ns). fold (\<lambda>b. AList.update b fwd_chip_id) ns) opts m)))
       else Inr m)"

definition get_op_to_chip_id_assignment ::
    "ChipPlacerConfig \<Rightarrow> string list \<Rightarrow> (string \<times> nat) list res" where
  "get_op_to_chip_id_assignment cfg scheduled_ops =
     (if cp_arch_name cfg \<noteq> ''grayskull'' then Inr []
      else res_bind (get_grayskull_fwd_op_to_chip_id_placement cfg scheduled_ops) (\<lambda>m.
           res_bind (fold_res (assign_bwd_nodes cfg) (rev scheduled_ops) m) (\<lambda>m1.
             fold_res (assign_opt_nodes cfg) scheduled_ops m1)))"

end
