(* ===== verification/Chip_Assignment_Facts.thy ===== *)
theory Chip_Assignment_Facts
  imports Chip_Assignment
begin

text \<open>
  What the chip assignment computes: the automatic scheme is the division of the forward ops into
  blocks, and the ops of the backward and optimizer passes follow their forward ops. The two passes
  over the schedule that hand a chip on share the locale \<open>following_pass\<close>.
\<close>

abbreviation is_fwd :: "ChipPlacerConfig \<Rightarrow> string \<Rightarrow> bool" where
  "is_fwd cfg op \<equiv> map_of (cp_op_to_epoch_type cfg) op = Some Forward"

definition typed :: "ChipPlacerConfig \<Rightarrow> string \<Rightarrow> bool" where
  "typed cfg op \<longleftrightarrow> map_of (cp_op_to_epoch_type cfg) op \<noteq> None"

section \<open>The automatic scheme\<close>

lemma get_num_fwd_ops_spec:
  assumes "\<forall>op \<in> set ops. typed cfg op"
  shows "get_num_fwd_ops cfg ops = Inr (length (filter (is_fwd cfg) ops))"
proof -
  have "fold_res (\<lambda>op n. res_bind (at_key (cp_op_to_epoch_type cfg) op) (\<lambda>ty.
      Inr (if ty = Forward then n + 1 else n))) ops k = Inr (k + length (filter (is_fwd cfg) ops))" for k
    using assms by (induction ops arbitrary: k) (auto simp: typed_def)
  from this [of 0] show ?thesis by (simp add: get_num_fwd_ops_def)
qed

lemma ops_per_device_pos: "0 < n \<Longrightarrow> 0 < m \<Longrightarrow> 0 < ops_per_device n m"
  by (simp add: ops_per_device_def div_greater_zero_iff)

lemma ops_per_device_enough:
  assumes "0 < m"
  shows "n \<le> m * ops_per_device n m"
proof -
  have "n + m - 1 < m * ops_per_device n m + m"
    unfolding ops_per_device_def using dividend_less_times_div [OF assms, of "n + m - 1"] by (simp add: add.commute)
  then show ?thesis using assms by linarith
qed

definition blockwise :: "nat \<Rightarrow> nat list \<Rightarrow> string list \<Rightarrow> (string \<times> nat) list" where
  "blockwise d chips ops = map (\<lambda>k. (ops ! k, chips ! (k div d))) [0..<length ops]"

lemma blockwise_snoc:
  "blockwise d chips (ops @ [op]) = blockwise d chips ops @ [(op, chips ! (length ops div d))]"
  by (simp add: blockwise_def nth_append)

lemma keys_blockwise: "fst ` set (blockwise d chips ops) = set ops"
  by (force simp: blockwise_def in_set_conv_nth)

lemma auto_scheme_skip:
  "map_of (cp_op_to_epoch_type cfg) op = Some ty \<Longrightarrow> ty \<noteq> Forward \<Longrightarrow> auto_scheme_step cfg d op s = Inr s"
  by (simp add: auto_scheme_step_def)

lemma auto_scheme_fwd:
  assumes "is_fwd cfg op" "current_chip_index s < length (cp_chip_ids cfg)"
    and "op \<notin> fst ` set (fwd_op_to_chip_id_placement s)"
  shows "\<exists>t. auto_scheme_step cfg d op (s, k) = Inr (t, Suc k) \<and>
     current_chip_index t = (if Suc k mod d = 0
       then add32 (current_chip_index s) 1 mod length (cp_chip_ids cfg) else current_chip_index s) \<and>
     fwd_op_to_chip_id_placement t =
       fwd_op_to_chip_id_placement s @ [(op, cp_chip_ids cfg ! current_chip_index s)]"
  using assms by (simp add: auto_scheme_step_def assign_current_def advance_chip_def update_new Let_def)

lemma auto_scheme_run:
  assumes "\<forall>op \<in> set ops. typed cfg op" "distinct (filter (is_fwd cfg) ops)"
    and "0 < d" "length (filter (is_fwd cfg) ops) \<le> length (cp_chip_ids cfg) * d"
    and "cp_chip_ids cfg \<noteq> []" "length (cp_chip_ids cfg) < 2 ^ 32"
    and "current_chip_index s0 = 0" "fwd_op_to_chip_id_placement s0 = []"
  shows "\<exists>s. fold_res (auto_scheme_step cfg d) ops (s0, 0) = Inr (s, length (filter (is_fwd cfg) ops)) \<and>
     current_chip_index s = length (filter (is_fwd cfg) ops) div d mod length (cp_chip_ids cfg) \<and>
     fwd_op_to_chip_id_placement s = blockwise d (cp_chip_ids cfg) (filter (is_fwd cfg) ops)"
  using assms
proof (induction ops rule: rev_induct)
  case Nil
  then show ?case by (simp add: blockwise_def)
next
  case (snoc op ops)
  let ?F = "filter (is_fwd cfg) ops" and ?n = "length (cp_chip_ids cfg)"
  from snoc obtain s where run: "fold_res (auto_scheme_step cfg d) ops (s0, 0) = Inr (s, length ?F)"
    and ix: "current_chip_index s = length ?F div d mod ?n"
    and m: "fwd_op_to_chip_id_placement s = blockwise d (cp_chip_ids cfg) ?F" by auto
  from snoc.prems obtain ty where ty: "at_key (cp_op_to_epoch_type cfg) op = Inr ty"
    "map_of (cp_op_to_epoch_type cfg) op = Some ty" by (auto simp: typed_def)
  show ?case
  proof (cases "ty = Forward")
    case False
    then show ?thesis using run ix m ty by (simp add: fold_res_append auto_scheme_skip)
  next
    case True
    have "length ?F < ?n * d" using snoc.prems True ty by simp
    then have lt: "length ?F div d < ?n" by (simp add: less_mult_imp_div_less)
    have ix': "current_chip_index s = length ?F div d" using ix lt by simp
    have "op \<notin> fst ` set (fwd_op_to_chip_id_placement s)"
      using snoc.prems True ty by (simp add: keys_blockwise m)
    from auto_scheme_fwd [OF _ _ this, of cfg d "length ?F"] True ty lt ix' obtain t where
      t: "auto_scheme_step cfg d op (s, length ?F) = Inr (t, Suc (length ?F))"
      "current_chip_index t = (if Suc (length ?F) mod d = 0
         then add32 (current_chip_index s) 1 mod ?n else current_chip_index s)"
      "fwd_op_to_chip_id_placement t =
         fwd_op_to_chip_id_placement s @ [(op, cp_chip_ids cfg ! current_chip_index s)]" by auto
    have "add32 (length ?F div d) 1 = Suc (length ?F div d)"
      using lt snoc.prems by (simp add: u32_simps)
    with t ix' have "current_chip_index t = Suc (length ?F) div d mod ?n"
      using lt by (simp add: div_Suc)
    then show ?thesis
      using run t m ty True ix' by (simp add: fold_res_append blockwise_snoc)
  qed
qed

text \<open>
  Without user breaks and with several chips, the loop that hands the forward ops
  to the chips (a running index that is advanced after every full block, modulo the number of
  chips) is the division of the forward ops, in schedule order, into blocks of
  \<open>\<lceil>n / number of chips\<rceil>\<close>: op k goes to chip k div block size. The index never wraps around to the
  first chip before the last op.
\<close>

theorem auto_placement_is_blockwise:
  assumes "\<forall>op \<in> set ops. typed cfg op" "distinct (filter (is_fwd cfg) ops)"
    and "cp_ops_tagged_for_chip_id_break cfg = []" "1 < length (cp_chip_ids cfg)"
    and "length (cp_chip_ids cfg) < 2 ^ 32"
  shows "get_grayskull_fwd_op_to_chip_id_placement cfg ops =
     Inr (map (\<lambda>k. (filter (is_fwd cfg) ops ! k,
                    cp_chip_ids cfg ! (k div ops_per_device (length (filter (is_fwd cfg) ops)) (length (cp_chip_ids cfg)))))
          [0..<length (filter (is_fwd cfg) ops)]) \<and>
     (\<forall>k < length (filter (is_fwd cfg) ops).
        k div ops_per_device (length (filter (is_fwd cfg) ops)) (length (cp_chip_ids cfg)) < length (cp_chip_ids cfg))"
proof (cases "filter (is_fwd cfg) ops = []")
  case True
  have "fold_res (auto_scheme_step cfg d) ops (s, k) = Inr (s, k)" for d s k
    using True assms(1) by (induction ops) (auto simp: auto_scheme_step_def typed_def split: if_splits)
  with True assms show ?thesis
    using get_num_fwd_ops_spec [OF assms(1)]
    by (cases "cp_chip_ids cfg") (simp_all add: get_grayskull_fwd_op_to_chip_id_placement_def)
next
  case False
  let ?F = "filter (is_fwd cfg) ops" and ?n = "length (cp_chip_ids cfg)"
  let ?d = "ops_per_device (length ?F) ?n"
  have n: "0 < ?n" using assms(4) by linarith
  have d: "0 < ?d" "length ?F \<le> ?n * ?d"
    using False n by (auto intro!: ops_per_device_pos ops_per_device_enough simp flip: length_greater_0_conv)
  have bound: "\<forall>k < length ?F. k div ?d < ?n"
    using d by (meson less_le_trans less_mult_imp_div_less)
  let ?s0 = "\<lparr>current_chip_index = 0, current_chip_id = cp_chip_ids cfg ! 0,
     chip_id_to_num_assigned_ops = [], fwd_op_to_chip_id_placement = []\<rparr>"
  from auto_scheme_run [OF assms(1,2) d _ assms(5), of ?s0] n obtain s k where
    "fold_res (auto_scheme_step cfg ?d) ops (?s0, 0) = Inr (s, k)"
    "fwd_op_to_chip_id_placement s = blockwise ?d (cp_chip_ids cfg) ?F" by auto
  then have "get_grayskull_fwd_op_to_chip_id_placement cfg ops = Inr (blockwise ?d (cp_chip_ids cfg) ?F)"
    using get_num_fwd_ops_spec [OF assms(1)] assms(3,4) n
    by (simp add: get_grayskull_fwd_op_to_chip_id_placement_def Let_def)
  then show ?thesis using bound by (simp add: blockwise_def)
qed

theorem auto_placement_is_blockwise_witness:
  "let cfg = \<lparr>cp_chip_ids = [7, 4], cp_arch_name = ''grayskull'',
       cp_op_to_epoch_type = [(''a'', Forward), (''b'', Forward), (''c'', Backward), (''d'', Forward)],
       cp_ops_tagged_for_chip_id_break = [], cp_fwd_to_bwd_nodes = [], cp_fwd_to_opt_nodes = []\<rparr> in
   get_grayskull_fwd_op_to_chip_id_placement cfg [''a'', ''b'', ''c'', ''d''] =
     Inr [(''a'', 7), (''b'', 7), (''d'', 4)]"
  unfolding Let_def
  by (subst conjunct1 [OF auto_placement_is_blockwise])
     (simp_all add: typed_def ops_per_device_def upt_rec, code_simp)

section \<open>Backward and optimizer ops\<close>

text \<open>
  A pass over forward ops that writes the chip of every op to the names in its target list. If no
  forward op is itself a target, the last writer of a name decides its chip.
\<close>

locale following_pass =
  fixes step :: "string \<Rightarrow> (string \<times> nat) list \<Rightarrow> (string \<times> nat) list res"
    and fwd :: "string \<Rightarrow> bool"
    and known :: "string \<Rightarrow> bool"
    and targets :: "string \<Rightarrow> string list"
  assumes step_skip: "known f \<Longrightarrow> \<not> fwd f \<Longrightarrow> step f m = Inr m"
    and step_fwd: "known f \<Longrightarrow> fwd f \<Longrightarrow> map_of m f = Some c \<Longrightarrow>
      \<exists>m'. step f m = Inr m' \<and> map_of m' = (\<lambda>x. if x \<in> set (targets f) then Some c else map_of m x)"
begin

definition writers :: "string list \<Rightarrow> string \<Rightarrow> string list" where
  "writers L x = filter (\<lambda>f. fwd f \<and> x \<in> set (targets f)) L"

lemma pass_spec:
  assumes "\<forall>f \<in> set L. known f" "\<forall>f \<in> set L. fwd f \<longrightarrow> map_of m f \<noteq> None"
    and "\<forall>f \<in> set L. \<forall>g \<in> set L. fwd f \<longrightarrow> fwd g \<longrightarrow> f \<notin> set (targets g)"
  shows "\<exists>m'. fold_res step L m = Inr m' \<and>
     (\<forall>x. map_of m' x = (if writers L x = [] then map_of m x else map_of m (last (writers L x))))"
  using assms
proof (induction L rule: rev_induct)
  case Nil
  then show ?case by (simp add: writers_def)
next
  case (snoc f L)
  then obtain m' where m': "fold_res step L m = Inr m'"
    "\<forall>x. map_of m' x = (if writers L x = [] then map_of m x else map_of m (last (writers L x)))" by auto
  show ?case
  proof (cases "fwd f")
    case False
    then show ?thesis using m' snoc.prems(1) by (simp add: fold_res_append step_skip writers_def)
  next
    case True
    have "writers L f = []" using snoc.prems(3) True by (auto simp: writers_def filter_empty_conv)
    with m' snoc.prems(2) True obtain c where c: "map_of m' f = Some c" "map_of m f = Some c" by auto
    from step_fwd [OF _ True c(1)] snoc.prems(1) obtain m'' where
      "step f m' = Inr m''" "map_of m'' = (\<lambda>x. if x \<in> set (targets f) then Some c else map_of m' x)" by auto
    then show ?thesis
      using m' c True by (auto simp: fold_res_append writers_def)
  qed
qed

end

lemma map_of_fold_updates:
  "map_of (fold (\<lambda>(ix, ns). fold (\<lambda>b. AList.update b c) ns) opts m) =
     (\<lambda>x. if x \<in> set (concat (map snd opts)) then Some c else map_of m x)"
  by (induction opts arbitrary: m) (auto simp: map_of_fold_update)

definition bwd_nodes_of :: "ChipPlacerConfig \<Rightarrow> string \<Rightarrow> string list" where
  "bwd_nodes_of cfg f = (case map_of (cp_fwd_to_bwd_nodes cfg) f of None \<Rightarrow> [] | Some bs \<Rightarrow> bs)"

definition opt_nodes_of :: "ChipPlacerConfig \<Rightarrow> string \<Rightarrow> string list" where
  "opt_nodes_of cfg f =
     (case map_of (cp_fwd_to_opt_nodes cfg) f of None \<Rightarrow> [] | Some opts \<Rightarrow> concat (map snd opts))"

interpretation bwd_pass: following_pass "assign_bwd_nodes cfg" "is_fwd cfg" "typed cfg" "bwd_nodes_of cfg"
  for cfg
  by unfold_locales
     (auto simp: assign_bwd_nodes_def typed_def bwd_nodes_of_def map_of_fold_update split: option.split)

interpretation opt_pass: following_pass "assign_opt_nodes cfg" "is_fwd cfg" "typed cfg" "opt_nodes_of cfg"
  for cfg
  by unfold_locales
     (auto simp: assign_opt_nodes_def typed_def opt_nodes_of_def map_of_fold_updates split: option.split)

definition assigned :: "ChipPlacerConfig \<Rightarrow> string list \<Rightarrow> (string \<times> nat) list \<Rightarrow> bool" where
  "assigned cfg ops m \<longleftrightarrow>
     (\<forall>f \<in> set ops. is_fwd cfg f \<longrightarrow> (\<exists>c \<in> set (cp_chip_ids cfg). map_of m f = Some c))"

definition assigning :: "ChipPlacerConfig \<Rightarrow> string list \<Rightarrow> AssignState \<Rightarrow> bool" where
  "assigning cfg ops s \<longleftrightarrow> current_chip_index s < length (cp_chip_ids cfg) \<and>
     assigned cfg ops (fwd_op_to_chip_id_placement s)"

lemma assigning_advance: "assigning cfg ops s \<Longrightarrow> assigning cfg ops (advance_chip cfg s)"
  by (auto simp: assigning_def advance_chip_def intro!: mod_less_divisor)

lemma assigning_current:
  assumes "assigning cfg ops s"
  shows "\<exists>t. assign_current cfg op s = Inr t \<and> assigning cfg (ops @ [op]) t"
  using assms by (auto simp: assigning_def assigned_def assign_current_def)

lemma assigning_skip: "assigning cfg ops s \<Longrightarrow> \<not> is_fwd cfg op \<Longrightarrow> assigning cfg (ops @ [op]) s"
  by (auto simp: assigning_def assigned_def)

lemma user_scheme_assigns:
  assumes "typed cfg op" "assigning cfg ops s"
  shows "\<exists>t. user_scheme_step cfg op s = Inr t \<and> assigning cfg (ops @ [op]) t"
proof -
  from assms(1) obtain ty where ty: "map_of (cp_op_to_epoch_type cfg) op = Some ty"
    by (auto simp: typed_def)
  have keep: "assigning cfg ops (if b then advance_chip cfg s else s)" for b
    using assms(2) by (simp add: assigning_advance)
  show ?thesis
    using ty assigning_current [OF keep, of op] assigning_skip [OF keep, of op]
    by (cases "ty = Forward") (auto simp: user_scheme_step_def Let_def)
qed

lemma auto_scheme_assigns:
  assumes "typed cfg op" "assigning cfg ops (fst s)"
  shows "\<exists>t. auto_scheme_step cfg d op s = Inr t \<and> assigning cfg (ops @ [op]) (fst t)"
proof -
  from assms(1) obtain ty where ty: "map_of (cp_op_to_epoch_type cfg) op = Some ty"
    by (auto simp: typed_def)
  from assigning_current [OF assms(2), of op] obtain t where
    t: "assign_current cfg op (fst s) = Inr t" "assigning cfg (ops @ [op]) t" by blast
  show ?thesis
    using ty t assigning_advance [OF t(2)] assigning_skip [OF assms(2), of op]
    by (cases "ty = Forward") (auto simp: auto_scheme_step_def Let_def)
qed

lemma fold_assigns:
  assumes "\<forall>op \<in> set ops. typed cfg op" "P [] s0"
    and "\<And>op done s. typed cfg op \<Longrightarrow> P done s \<Longrightarrow> \<exists>t. f op s = Inr t \<and> P (done @ [op]) t"
  shows "\<exists>t. fold_res f ops s0 = Inr t \<and> P ops t"
  using assms(1,2) by (induction ops rule: rev_induct) (use assms(3) in \<open>fastforce simp: fold_res_append\<close>)+

lemma fwd_placement_total:
  assumes "\<forall>op \<in> set ops. typed cfg op" "cp_chip_ids cfg \<noteq> []"
  shows "\<exists>m. get_grayskull_fwd_op_to_chip_id_placement cfg ops = Inr m \<and> assigned cfg ops m"
proof -
  let ?s0 = "\<lparr>current_chip_index = 0, current_chip_id = cp_chip_ids cfg ! 0,
     chip_id_to_num_assigned_ops = [], fwd_op_to_chip_id_placement = []\<rparr>"
  have start: "assigning cfg [] ?s0" using assms(2) by (simp add: assigning_def assigned_def)
  from fold_assigns [where f = "user_scheme_step cfg" and P = "assigning cfg",
      OF assms(1) start user_scheme_assigns]
  obtain s where s: "fold_res (user_scheme_step cfg) ops ?s0 = Inr s"
    "assigned cfg ops (fwd_op_to_chip_id_placement s)" by (auto simp: assigning_def)
  from fold_assigns [where P = "\<lambda>ops s. assigning cfg ops (fst s)" and ?s0.0 = "(?s0, 0)",
      OF assms(1) _ auto_scheme_assigns] start
  obtain t where "fold_res (auto_scheme_step cfg (ops_per_device (length (filter (is_fwd cfg) ops))
      (length (cp_chip_ids cfg)))) ops (?s0, 0) = Inr t"
    "assigned cfg ops (fwd_op_to_chip_id_placement (fst t))"
    by (fastforce simp: assigning_def)
  with s assms(2) show ?thesis
    using get_num_fwd_ops_spec [OF assms(1)]
    by (auto simp: get_grayskull_fwd_op_to_chip_id_placement_def Let_def)
qed

text \<open>The forward ops, in schedule order, that a backward or optimizer op is listed under.\<close>

definition bwd_owners :: "ChipPlacerConfig \<Rightarrow> string list \<Rightarrow> string \<Rightarrow> string list" where
  "bwd_owners cfg ops b = filter (\<lambda>f. is_fwd cfg f \<and> b \<in> set (bwd_nodes_of cfg f)) ops"

definition opt_owners :: "ChipPlacerConfig \<Rightarrow> string list \<Rightarrow> string \<Rightarrow> string list" where
  "opt_owners cfg ops b = filter (\<lambda>f. is_fwd cfg f \<and> b \<in> set (opt_nodes_of cfg f)) ops"

text \<open>
  The assignment never throws when every scheduled op has an epoch type. Every
  forward op is on one of the chips; a backward op is on the chip of the first forward op it is
  listed under and an optimizer op on the chip of the last one. This needs that no op is both, and
  none of them a forward op, which \<open>validate_placer_config\<close> checks for the first half.
\<close>

theorem followers_stay_with_their_op:
  assumes "cp_arch_name cfg = ''grayskull''" "cp_chip_ids cfg \<noteq> []" "\<forall>op \<in> set ops. typed cfg op"
    and "\<forall>f \<in> set ops. \<forall>g \<in> set ops. is_fwd cfg f \<longrightarrow> is_fwd cfg g \<longrightarrow>
           f \<notin> set (bwd_nodes_of cfg g) \<and> f \<notin> set (opt_nodes_of cfg g)"
    and "\<forall>b. bwd_owners cfg ops b = [] \<or> opt_owners cfg ops b = []"
  shows "\<exists>m. get_op_to_chip_id_assignment cfg ops = Inr m \<and>
     (\<forall>f \<in> set ops. is_fwd cfg f \<longrightarrow> (\<exists>c \<in> set (cp_chip_ids cfg). map_of m f = Some c)) \<and>
     (\<forall>b. bwd_owners cfg ops b \<noteq> [] \<longrightarrow> map_of m b = map_of m (hd (bwd_owners cfg ops b))) \<and>
     (\<forall>b. opt_owners cfg ops b \<noteq> [] \<longrightarrow> map_of m b = map_of m (last (opt_owners cfg ops b)))"
proof -
  from fwd_placement_total [OF assms(3,2)] obtain m where
    m: "get_grayskull_fwd_op_to_chip_id_placement cfg ops = Inr m" "assigned cfg ops m" by blast
  have has: "\<forall>f \<in> set ops. is_fwd cfg f \<longrightarrow> map_of m f \<noteq> None" using m(2) by (fastforce simp: assigned_def)
  have writers: "bwd_pass.writers cfg (rev ops) x = rev (bwd_owners cfg ops x)"
    "opt_pass.writers cfg ops x = opt_owners cfg ops x" for x
    by (simp_all add: bwd_pass.writers_def opt_pass.writers_def bwd_owners_def opt_owners_def rev_filter)
  from bwd_pass.pass_spec [of "rev ops" cfg m] assms(3,4) has obtain m1 where
    m1: "fold_res (assign_bwd_nodes cfg) (rev ops) m = Inr m1"
    "\<And>x. map_of m1 x = (if bwd_owners cfg ops x = [] then map_of m x
                         else map_of m (hd (bwd_owners cfg ops x)))"
    by (auto simp: writers last_rev)
  have fwd1: "map_of m1 f = map_of m f" if "f \<in> set ops" "is_fwd cfg f" for f
    using m1(2) that assms(4) by (simp add: bwd_owners_def filter_empty_conv)
  from opt_pass.pass_spec [of ops cfg m1] assms(3,4) has fwd1 obtain m2 where
    m2: "fold_res (assign_opt_nodes cfg) ops m1 = Inr m2"
    "\<And>x. map_of m2 x = (if opt_owners cfg ops x = [] then map_of m1 x
                         else map_of m1 (last (opt_owners cfg ops x)))"
    by (auto simp: writers)
  have fwd2: "map_of m2 f = map_of m f" if "f \<in> set ops" "is_fwd cfg f" for f
    using m2(2) fwd1 that assms(4) by (simp add: opt_owners_def filter_empty_conv)
  have owner: "f \<in> set ops \<and> is_fwd cfg f"
    if "f \<in> set (bwd_owners cfg ops b) \<or> f \<in> set (opt_owners cfg ops b)" for f b
    using that by (auto simp: bwd_owners_def opt_owners_def)
  have "map_of m2 b = map_of m2 (hd (bwd_owners cfg ops b))" if "bwd_owners cfg ops b \<noteq> []" for b
    using that m1(2) m2(2) assms(5) fwd2 owner [of "hd (bwd_owners cfg ops b)" b] by (metis list.set_sel(1))
  moreover have "map_of m2 b = map_of m2 (last (opt_owners cfg ops b))" if "opt_owners cfg ops b \<noteq> []" for b
    using that m2(2) fwd1 fwd2 owner [of "last (opt_owners cfg ops b)" b] by simp
  moreover have "\<forall>f \<in> set ops. is_fwd cfg f \<longrightarrow> (\<exists>c \<in> set (cp_chip_ids cfg). map_of m2 f = Some c)"
    using m(2) fwd2 by (simp add: assigned_def)
  ultimately show ?thesis
    using m m1 m2 assms(1) by (simp add: get_op_to_chip_id_assignment_def)
qed

definition sample_chip_config :: ChipPlacerConfig where
  "sample_chip_config =
     \<lparr>cp_chip_ids = [7, 4], cp_arch_name = ''grayskull'',
      cp_op_to_epoch_type = [(''a'', Forward), (''b'', Forward), (''w'', Backward), (''o'', Optimizer)],
      cp_ops_tagged_for_chip_id_break = [],
      cp_fwd_to_bwd_nodes = [(''a'', [''w'']), (''b'', [''w''])],
      cp_fwd_to_opt_nodes = [(''a'', [(0, [''o''])]), (''b'', [(1, [''o''])])]\<rparr>"

theorem followers_stay_with_their_op_witness:
  "\<exists>m. get_op_to_chip_id_assignment sample_chip_config [''a'', ''b'', ''w'', ''o''] = Inr m \<and>
     map_of m ''w'' = map_of m ''a'' \<and> map_of m ''o'' = map_of m ''b''"
proof -
  let ?ops = "[''a'', ''b'', ''w'', ''o'']"
  have owners: "bwd_owners sample_chip_config ?ops b = (if b = ''w'' then [''a'', ''b''] else [])"
    "opt_owners sample_chip_config ?ops b = (if b = ''o'' then [''a'', ''b''] else [])" for b
    by (simp_all add: bwd_owners_def opt_owners_def sample_chip_config_def bwd_nodes_of_def opt_nodes_of_def)
  have "cp_arch_name sample_chip_config = ''grayskull''" "cp_chip_ids sample_chip_config \<noteq> []"
    "\<forall>op \<in> set ?ops. typed sample_chip_config op"
    "\<forall>f \<in> set ?ops. \<forall>g \<in> set ?ops. is_fwd sample_chip_config f \<longrightarrow> is_fwd sample_chip_config g \<longrightarrow>
       f \<notin> set (bwd_nodes_of sample_chip_config g) \<and> f \<notin> set (opt_nodes_of sample_chip_config g)"
    "\<forall>b. bwd_owners sample_chip_config ?ops b = [] \<or> opt_owners sample_chip_config ?ops b = []"
    by (simp_all add: owners)
       (simp_all add: sample_chip_config_def typed_def bwd_nodes_of_def opt_nodes_of_def)
  from followers_stay_with_their_op [OF this] obtain m where
    "get_op_to_chip_id_assignment sample_chip_config ?ops = Inr m"
    "\<forall>b. bwd_owners sample_chip_config ?ops b \<noteq> [] \<longrightarrow>
       map_of m b = map_of m (hd (bwd_owners sample_chip_config ?ops b))"
    "\<forall>b. opt_owners sample_chip_config ?ops b \<noteq> [] \<longrightarrow>
       map_of m b = map_of m (last (opt_owners sample_chip_config ?ops b))"
    by blast
  then show ?thesis by (auto simp: owners)
qed

end
