(* ===== verification/Best_Fit.thy ===== *)
theory Best_Fit
  imports Prelude
begin

text \<open>
  The allocator of one DRAM channel: \<open>Block\<close> and \<open>Blocks\<close> of \<open>placer/dram_allocator.hpp\<close> and
  \<open>BestFitAllocator\<close> of \<open>placer/best_fit_allocator.cpp\<close>. Addresses and sizes are
  \<open>std::size_t\<close>. \<open>free_blocks_start\<close> is a \<open>std::map\<close> (kept in key order), the other two
  indexes are unordered maps.
\<close>

record Block =
  block_addr :: nat
  block_size :: nat

record Blocks =
  free_blocks_start :: "(nat \<times> Block) list"
  free_blocks_end :: "(nat \<times> Block) list"
  allocated_blocks :: "(nat \<times> Block) list"

abbreviation mk_block :: "nat \<Rightarrow> nat \<Rightarrow> Block" where
  "mk_block a s \<equiv> \<lparr>block_addr = a, block_size = s\<rparr>"

definition empty_blocks :: Blocks where
  "empty_blocks = \<lparr>free_blocks_start = [], free_blocks_end = [], allocated_blocks = []\<rparr>"

definition add_free_block :: "Block \<Rightarrow> Blocks \<Rightarrow> Blocks" where
  "add_free_block b B =
     B\<lparr>free_blocks_start := omap_insert (block_addr b) b (free_blocks_start B),
       free_blocks_end := AList.update (add64 (block_addr b) (block_size b)) b (free_blocks_end B)\<rparr>"

definition remove_free_block :: "Block \<Rightarrow> Blocks \<Rightarrow> Blocks" where
  "remove_free_block b B =
     B\<lparr>free_blocks_start := AList.delete (block_addr b) (free_blocks_start B),
       free_blocks_end := AList.delete (add64 (block_addr b) (block_size b)) (free_blocks_end B)\<rparr>"

text \<open>The constructor.\<close>

definition best_fit_init :: "nat \<Rightarrow> nat \<Rightarrow> Blocks \<Rightarrow> Blocks" where
  "best_fit_init start_addr end_addr pre_allocated_blocks =
     (if length (free_blocks_start pre_allocated_blocks) > 0 then pre_allocated_blocks
      else if start_addr < end_addr
           then add_free_block (mk_block start_addr (add64 (sub64 end_addr start_addr) 1)) empty_blocks
           else empty_blocks)"

definition get_capacity :: "Blocks \<Rightarrow> nat" where
  "get_capacity B = fold (\<lambda>(_, b) capacity. add64 capacity (block_size b)) (free_blocks_start B) 0"

text \<open>
  The search of \<open>allocate\<close>, over the free blocks from the highest address down, with the
  variables \<open>closest_block\<close> (not yet assigned at first) and \<open>diff\<close>.
\<close>

primrec best_fit_scan ::
    "nat \<Rightarrow> (nat \<times> Block) list \<Rightarrow> Block option \<Rightarrow> nat \<Rightarrow> Block option \<times> nat" where
  "best_fit_scan sz [] closest diff = (closest, diff)"
| "best_fit_scan sz (kb # rest) closest diff =
     (if block_size (snd kb) \<ge> sz
      then let my_diff = block_size (snd kb) - sz in
           if my_diff < diff
           then if my_diff = 0 then (Some (snd kb), my_diff)
                else best_fit_scan sz rest (Some (snd kb)) my_diff
           else best_fit_scan sz rest closest diff
      else best_fit_scan sz rest closest diff)"

text \<open>\<open>allocate\<close>: the address of the allocation, or nothing when it returns false.\<close>

definition allocate :: "Blocks \<Rightarrow> nat \<Rightarrow> nat option \<times> Blocks" where
  "allocate B sz =
     (let (closest, diff) = best_fit_scan sz (rev (free_blocks_start B)) None size_max in
      if diff = size_max then (None, B)
      else let closest_block = the closest;
               addr = sub64 (add64 (block_addr closest_block) (block_size closest_block)) sz;
               B' = remove_free_block closest_block B in
           if diff = 0
           then (Some addr,
                 B'\<lparr>allocated_blocks := AList.update addr closest_block (allocated_blocks B')\<rparr>)
           else (Some addr,
                 add_free_block (mk_block (block_addr closest_block) diff)
                   (B'\<lparr>allocated_blocks :=
                        AList.update addr (mk_block addr sz) (allocated_blocks B')\<rparr>)))"

text \<open>
  \<open>deallocate\<close>: the two stages that merge the freed block with its free neighbours, then the
  whole operation.
\<close>

definition merge_next :: "Blocks \<Rightarrow> nat \<Rightarrow> Block \<Rightarrow> Block \<times> Blocks" where
  "merge_next B addr it =
     (case map_of (free_blocks_start B) (add64 addr (block_size it)) of
        None \<Rightarrow> (it, B)
      | Some nxt \<Rightarrow>
          (it\<lparr>block_size := add64 (block_size it) (block_size nxt)\<rparr>, remove_free_block nxt B))"

definition merge_prev :: "Blocks \<Rightarrow> nat \<Rightarrow> Block \<Rightarrow> Block \<times> Blocks" where
  "merge_prev B addr freed_block =
     (case map_of (free_blocks_end B) addr of
        None \<Rightarrow> (freed_block, B)
      | Some prv \<Rightarrow>
          (freed_block\<lparr>block_addr := block_addr prv,
                       block_size := add64 (block_size freed_block) (block_size prv)\<rparr>,
           remove_free_block prv B))"

definition deallocate :: "Blocks \<Rightarrow> nat \<Rightarrow> Blocks res" where
  "deallocate B addr =
     (case map_of (allocated_blocks B) addr of
        None \<Rightarrow> Inl RuntimeError
      | Some it \<Rightarrow>
          let (freed1, B1) = merge_next B addr it;
              (freed2, B2) = merge_prev B1 addr freed1;
              B3 = add_free_block freed2 B2
          in Inr (B3\<lparr>allocated_blocks := AList.delete addr (allocated_blocks B3)\<rparr>))"

definition clear_allocated_blocks :: "Blocks \<Rightarrow> Blocks res" where
  "clear_allocated_blocks B = fold_res (\<lambda>(start, _) C. deallocate C start) (allocated_blocks B) B"

end
