(* ===== verification/Channel_Interface.thy ===== *)
theory Channel_Interface
  imports Prelude
begin

text \<open>
  The contract of the abstract class \<open>ChannelAllocator\<close> (\<open>placer/dram_allocator.hpp\<close>), as the DRAM
  allocator relies on it: \<open>buffers\<close> are the live allocations (address and size), \<open>unused\<close> the
  addresses that are free. What the DRAM allocator needs is proved here, once, from these laws.
\<close>

definition span :: "nat \<Rightarrow> nat \<Rightarrow> nat set" where
  "span a n = {a..<a + n}"

lemma span_empty_iff [simp]: "span a n = {} \<longleftrightarrow> n = 0"
  by (simp add: span_def)

locale channel_allocator =
  fixes alloc :: "'s \<Rightarrow> nat \<Rightarrow> nat option \<times> 's"
    and dealloc :: "'s \<Rightarrow> nat \<Rightarrow> 's res"
    and ok :: "'s \<Rightarrow> bool"
    and buffers :: "'s \<Rightarrow> (nat \<times> nat) set"
    and unused :: "'s \<Rightarrow> nat set"
  assumes alloc_fails: "ok s \<Longrightarrow> 0 < n \<Longrightarrow> alloc s n = (None, s') \<Longrightarrow> s' = s"
    and alloc_succeeds: "ok s \<Longrightarrow> 0 < n \<Longrightarrow> alloc s n = (Some a, s') \<Longrightarrow>
      ok s' \<and> span a n \<subseteq> unused s \<and> unused s' = unused s - span a n \<and>
      buffers s' = insert (a, n) (buffers s)"
    and dealloc_live: "ok s \<Longrightarrow> (a, n) \<in> buffers s \<Longrightarrow>
      \<exists>s'. dealloc s a = Inr s' \<and> ok s' \<and> unused s' = unused s \<union> span a n \<and>
           buffers s' = buffers s - {(a, n)}"
    and dealloc_unknown: "ok s \<Longrightarrow> a \<notin> fst ` buffers s \<Longrightarrow> dealloc s a = Inl RuntimeError"
    and live_not_free: "ok s \<Longrightarrow> (a, n) \<in> buffers s \<Longrightarrow> 0 < n \<and> span a n \<inter> unused s = {}"
    and live_disjoint: "ok s \<Longrightarrow> (a, n) \<in> buffers s \<Longrightarrow> (b, m) \<in> buffers s \<Longrightarrow> (a, n) \<noteq> (b, m) \<Longrightarrow>
      span a n \<inter> span b m = {}"
begin

lemma alloc_disjoint:
  assumes "ok s" "0 < n" "alloc s n = (Some a, s')" "(b, m) \<in> buffers s"
  shows "span a n \<inter> span b m = {}"
  using alloc_succeeds [OF assms(1-3)] live_not_free [OF assms(1,4)] by blast

lemma alloc_fresh:
  assumes "ok s" "0 < n" "alloc s n = (Some a, s')"
  shows "a \<notin> fst ` buffers s"
proof
  assume "a \<in> fst ` buffers s"
  then obtain m where m: "(a, m) \<in> buffers s" by auto
  with live_not_free [OF assms(1) m] have "a \<in> span a m" by (simp add: span_def)
  moreover have "a \<in> span a n" using assms(2) by (simp add: span_def)
  ultimately show False using alloc_disjoint [OF assms m] by blast
qed

lemma alloc_dealloc:
  assumes "ok s" "0 < n" "alloc s n = (Some a, s')"
  shows "\<exists>s''. dealloc s' a = Inr s'' \<and> ok s'' \<and> buffers s'' = buffers s \<and> unused s'' = unused s"
proof -
  note a = alloc_succeeds [OF assms]
  have "(a, n) \<notin> buffers s" using alloc_fresh [OF assms] by force
  moreover from a obtain s'' where "dealloc s' a = Inr s''" "ok s''"
    "unused s'' = unused s' \<union> span a n" "buffers s'' = buffers s' - {(a, n)}"
    using dealloc_live [of s' a n] by blast
  ultimately show ?thesis using a by (intro exI [of _ s'']) auto
qed

lemma address_unique:
  assumes "ok s" "(a, n) \<in> buffers s" "(a, m) \<in> buffers s"
  shows "n = m"
proof (rule ccontr)
  assume "n \<noteq> m"
  then have "span a n \<inter> span a m = {}" using live_disjoint [OF assms] by blast
  moreover have "a \<in> span a n \<inter> span a m"
    using live_not_free assms by (auto simp: span_def)
  ultimately show False by blast
qed

lemma double_free:
  assumes "ok s" "dealloc s a = Inr s'"
  shows "dealloc s' a = Inl RuntimeError"
proof -
  from assms dealloc_unknown [of s a] obtain n where n: "(a, n) \<in> buffers s" by force
  from dealloc_live [OF assms(1) n] assms(2)
  have "ok s'" "buffers s' = buffers s - {(a, n)}" by auto
  moreover from this address_unique [OF assms(1) n] have "a \<notin> fst ` buffers s'" by force
  ultimately show ?thesis by (intro dealloc_unknown)
qed

end

end
