(* ===== verification/Best_Fit_Facts.thy ===== *)
theory Best_Fit_Facts
  imports Best_Fit Channel_Interface
begin

text \<open>
  Correctness of the channel allocator. The three indexes represent a set of free and a set of
  allocated blocks (\<open>represents\<close>); the two sets tile the channel's address range and no two
  free blocks touch (\<open>tiling\<close>, \<open>coalesced\<close>). Every operation keeps this invariant.
\<close>

definition cells :: "Block \<Rightarrow> nat set" where
  "cells b = {block_addr b..<block_addr b + block_size b}"

definition represents :: "Blocks \<Rightarrow> Block set \<Rightarrow> Block set \<Rightarrow> bool" where
  "represents B F A \<longleftrightarrow>
     ordered_keys (free_blocks_start B) \<and>
     distinct (map fst (free_blocks_end B)) \<and> distinct (map fst (allocated_blocks B)) \<and>
     (\<forall>k b. map_of (free_blocks_start B) k = Some b \<longleftrightarrow> b \<in> F \<and> k = block_addr b) \<and>
     (\<forall>k b. map_of (free_blocks_end B) k = Some b \<longleftrightarrow> b \<in> F \<and> k = block_addr b + block_size b) \<and>
     (\<forall>k b. map_of (allocated_blocks B) k = Some b \<longleftrightarrow> b \<in> A \<and> k = block_addr b)"

definition tiling :: "nat \<Rightarrow> nat \<Rightarrow> Block set \<Rightarrow> Block set \<Rightarrow> bool" where
  "tiling lo hi F A \<longleftrightarrow>
     hi < 2 ^ 64 \<and> F \<inter> A = {} \<and> (\<forall>b \<in> F \<union> A. 0 < block_size b) \<and>
     (\<forall>b \<in> F \<union> A. \<forall>c \<in> F \<union> A. b \<noteq> c \<longrightarrow> cells b \<inter> cells c = {}) \<and>
     (\<Union>b \<in> F \<union> A. cells b) = {lo..<hi}"

definition coalesced :: "Block set \<Rightarrow> bool" where
  "coalesced F \<longleftrightarrow> (\<forall>b \<in> F. \<forall>c \<in> F. block_addr b + block_size b \<noteq> block_addr c)"

definition bf_inv :: "nat \<Rightarrow> nat \<Rightarrow> Blocks \<Rightarrow> bool" where
  "bf_inv lo hi B \<longleftrightarrow> (\<exists>F A. represents B F A \<and> tiling lo hi F A \<and> coalesced F)"

definition free_of :: "Blocks \<Rightarrow> Block set" where
  "free_of B = ran (map_of (free_blocks_start B))"

definition live :: "Blocks \<Rightarrow> Block set" where
  "live B = ran (map_of (allocated_blocks B))"

lemma represents_sets:
  assumes "represents B F A"
  shows "free_of B = F" "live B = A"
  using assms by (auto simp: represents_def free_of_def live_def ran_def)

lemma bf_invD:
  assumes "bf_inv lo hi B"
  shows "represents B (free_of B) (live B)" "tiling lo hi (free_of B) (live B)" "coalesced (free_of B)"
  using assms represents_sets unfolding bf_inv_def by metis+

lemma bf_invI:
  "represents B F A \<Longrightarrow> tiling lo hi F A \<Longrightarrow> coalesced F \<Longrightarrow> bf_inv lo hi B"
  unfolding bf_inv_def by blast

section \<open>Geometry of tilings\<close>

lemma mk_block_eq: "block_size b = sz \<Longrightarrow> mk_block (block_addr b) sz = b"
  by (auto intro: Block.equality)

lemma cells_nonempty: "0 < block_size b \<Longrightarrow> block_addr b \<in> cells b"
  by (simp add: cells_def)

lemma disjoint_insert:
  assumes "\<forall>x \<in> X. \<forall>y \<in> X. x \<noteq> y \<longrightarrow> cells x \<inter> cells y = {}" "\<forall>x \<in> X. cells m \<inter> cells x = {}"
  shows "\<forall>x \<in> insert m X. \<forall>y \<in> insert m X. x \<noteq> y \<longrightarrow> cells x \<inter> cells y = {}"
  using assms by blast

lemma tilingD:
  assumes "tiling lo hi F A" "b \<in> F \<union> A"
  shows "0 < block_size b" "lo \<le> block_addr b" "block_addr b + block_size b \<le> hi" "hi < 2 ^ 64"
    "block_addr b + block_size b < 2 ^ 64"
proof -
  show pos: "0 < block_size b" "hi < 2 ^ 64" using assms by (auto simp: tiling_def)
  have "cells b \<subseteq> {lo..<hi}" using assms unfolding tiling_def by blast
  then show "lo \<le> block_addr b" "block_addr b + block_size b \<le> hi"
    using pos by (auto simp: cells_def)
  with pos show "block_addr b + block_size b < 2 ^ 64" by linarith
qed

lemma tiling_disjoint:
  "tiling lo hi F A \<Longrightarrow> b \<in> F \<union> A \<Longrightarrow> c \<in> F \<union> A \<Longrightarrow> x \<in> cells b \<Longrightarrow> x \<in> cells c \<Longrightarrow> b = c"
  unfolding tiling_def by blast

lemma tiling_addr_inj:
  "tiling lo hi F A \<Longrightarrow> b \<in> F \<union> A \<Longrightarrow> c \<in> F \<union> A \<Longrightarrow> block_addr b = block_addr c \<Longrightarrow> b = c"
  using tiling_disjoint [of lo hi F A b c "block_addr b"] tilingD(1)
  by (metis cells_nonempty)

lemma tiling_end_inj:
  assumes "tiling lo hi F A" "b \<in> F \<union> A" "c \<in> F \<union> A"
    and "block_addr b + block_size b = block_addr c + block_size c"
  shows "b = c"
proof -
  have "0 < block_size b" "0 < block_size c"
    using tilingD(1) [OF assms(1)] assms(2,3) by blast+
  then have "block_addr b + block_size b - 1 \<in> cells b \<inter> cells c"
    using assms(4) unfolding cells_def by (simp only: Int_iff atLeastLessThan_iff) linarith
  then show ?thesis using tiling_disjoint [OF assms(1-3)] by blast
qed

text \<open>Replacing a set \<open>S\<close> of blocks by one block with the same cells, free or allocated.\<close>

lemma tiling_merge:
  assumes t: "tiling lo hi F A" and S: "S \<subseteq> F \<union> A" and m: "cells m = (\<Union>b \<in> S. cells b)"
    and pos: "0 < block_size m"
  shows "tiling lo hi (insert m (F - S)) (A - S)" "tiling lo hi (F - S) (insert m (A - S))"
proof -
  let ?rest = "(F - S) \<union> (A - S)"
  have apart: "cells m \<inter> cells b = {}" if b: "b \<in> ?rest" for b
  proof -
    have "cells c \<inter> cells b = {}" if "c \<in> S" for c
    proof -
      from that b S have "c \<noteq> b" "c \<in> F \<union> A" "b \<in> F \<union> A" by blast+
      with t show ?thesis unfolding tiling_def by metis
    qed
    then show ?thesis unfolding m by blast
  qed
  then have new: "m \<notin> ?rest" using pos cells_nonempty by blast
  have "F \<union> A = S \<union> ?rest" using S by blast
  then have "(\<Union>b \<in> F \<union> A. cells b) = (\<Union>b \<in> S \<union> ?rest. cells b)" by (rule arg_cong)
  also have "\<dots> = cells m \<union> (\<Union>b \<in> ?rest. cells b)" unfolding m by (rule UN_Un)
  finally have cover: "cells m \<union> (\<Union>b \<in> ?rest. cells b) = {lo..<hi}"
    using t unfolding tiling_def by metis
  have rest: "\<forall>b \<in> ?rest. 0 < block_size b" "hi < 2 ^ 64" "(F - S) \<inter> (A - S) = {}"
    "\<forall>b \<in> ?rest. \<forall>c \<in> ?rest. b \<noteq> c \<longrightarrow> cells b \<inter> cells c = {}"
    using t unfolding tiling_def by blast+
  have disj: "\<forall>x \<in> insert m ?rest. \<forall>y \<in> insert m ?rest. x \<noteq> y \<longrightarrow> cells x \<inter> cells y = {}"
    by (rule disjoint_insert) (use rest apart in blast)+
  have un: "insert m (F - S) \<union> (A - S) = insert m ?rest" "(F - S) \<union> insert m (A - S) = insert m ?rest"
    by blast+
  have sep: "insert m (F - S) \<inter> (A - S) = {}" "(F - S) \<inter> insert m (A - S) = {}"
    using new rest(3) by blast+
  have cover': "(\<Union>b \<in> insert m ?rest. cells b) = {lo..<hi}" using cover by simp
  have pos': "\<forall>b \<in> insert m ?rest. 0 < block_size b" using pos rest(1) by simp
  show "tiling lo hi (insert m (F - S)) (A - S)"
    unfolding tiling_def un using rest(2) sep(1) pos' disj cover' by (intro conjI)
  show "tiling lo hi (F - S) (insert m (A - S))"
    unfolding tiling_def un using rest(2) sep(2) pos' disj cover' by (intro conjI)
qed

text \<open>Splitting a free block into a free front part and an allocated back part.\<close>

lemma tiling_split:
  assumes t: "tiling lo hi F A" and b: "b \<in> F"
    and parts: "cells b = cells c \<union> cells d" "cells c \<inter> cells d = {}"
    and pos: "0 < block_size c" "0 < block_size d"
  shows "tiling lo hi (insert c (F - {b})) (insert d A)"
proof -
  let ?rest = "(F - {b}) \<union> A"
  have apart: "cells b \<inter> cells x = {}" if "x \<in> ?rest" for x
  proof -
    from that b t have "x \<noteq> b" "x \<in> F \<union> A" "b \<in> F \<union> A" unfolding tiling_def by blast+
    with t show ?thesis unfolding tiling_def by metis
  qed
  have new: "c \<notin> ?rest" "d \<notin> ?rest" "c \<noteq> d"
    using apart parts pos cells_nonempty by blast+
  have "F \<union> A = insert b ?rest" using b by blast
  then have "(\<Union>b \<in> F \<union> A. cells b) = cells b \<union> (\<Union>x \<in> ?rest. cells x)" by simp
  then have cover: "cells b \<union> (\<Union>x \<in> ?rest. cells x) = {lo..<hi}"
    using t unfolding tiling_def by metis
  have rest: "\<forall>x \<in> ?rest. 0 < block_size x" "hi < 2 ^ 64" "(F - {b}) \<inter> A = {}"
    "\<forall>x \<in> ?rest. \<forall>y \<in> ?rest. x \<noteq> y \<longrightarrow> cells x \<inter> cells y = {}"
    using t b unfolding tiling_def by blast+
  have un: "insert c (F - {b}) \<union> insert d A = insert c (insert d ?rest)" by blast
  have cover': "(\<Union>x \<in> insert c (insert d ?rest). cells x) = {lo..<hi}"
    using cover parts(1) by (simp add: Un_assoc)
  have disj: "\<forall>x \<in> insert c (insert d ?rest). \<forall>y \<in> insert c (insert d ?rest).
      x \<noteq> y \<longrightarrow> cells x \<inter> cells y = {}"
    by (intro disjoint_insert) (use rest(4) apart parts in blast)+
  show ?thesis
    unfolding tiling_def un using new rest(1-3) pos cover' disj by simp
qed

section \<open>The indexes\<close>

lemma represents_remove:
  assumes r: "represents B F A" and t: "tiling lo hi F' A'" "F \<subseteq> F' \<union> A'" and b: "b \<in> F"
  shows "represents (remove_free_block b B) (F - {b}) A"
proof -
  have bt: "b \<in> F' \<union> A'" using t(2) b by blast
  have "add64 (block_addr b) (block_size b) = block_addr b + block_size b"
    using tilingD(5) [OF t(1) bt] by (simp add: add64_exact)
  moreover have "c = b" if "c \<in> F" "block_addr c = block_addr b" for c
    using tiling_addr_inj [OF t(1)] that t(2) b by blast
  moreover have "c = b" if "c \<in> F" "block_addr c + block_size c = block_addr b + block_size b" for c
    using tiling_end_inj [OF t(1)] that t(2) b by blast
  ultimately show ?thesis
    using r unfolding represents_def remove_free_block_def
    by (auto simp: distinct_delete)
qed

lemma represents_add:
  assumes r: "represents B F A" and t: "tiling lo hi F' A'" "insert b F \<subseteq> F' \<union> A'" and new: "b \<notin> F"
  shows "represents (add_free_block b B) (insert b F) A"
proof -
  have bt: "b \<in> F' \<union> A'" using t(2) by blast
  have "add64 (block_addr b) (block_size b) = block_addr b + block_size b"
    using tilingD(5) [OF t(1) bt] by (simp add: add64_exact)
  moreover have "c \<notin> F" if "block_addr c = block_addr b" for c
    using tiling_addr_inj [OF t(1)] that t(2) new by blast
  moreover have "c \<notin> F" if "block_addr b + block_size b = block_addr c + block_size c" for c
    using tiling_end_inj [OF t(1)] that t(2) new by (metis insertCI subsetD)
  ultimately show ?thesis
    using r unfolding represents_def add_free_block_def
    by (auto simp: distinct_update)
qed

lemma represents_allocate:
  assumes r: "represents B F A" and new: "\<And>c. c \<in> A \<Longrightarrow> block_addr c \<noteq> block_addr b"
  shows "represents (B\<lparr>allocated_blocks := AList.update (block_addr b) b (allocated_blocks B)\<rparr>) F (insert b A)"
proof -
  have "c \<notin> A" if "block_addr c = block_addr b" for c using new that by blast
  then show ?thesis using r unfolding represents_def by (auto simp: distinct_update)
qed

lemma represents_release:
  assumes r: "represents B F A" and t: "tiling lo hi F' A" and b: "b \<in> A"
  shows "represents (B\<lparr>allocated_blocks := AList.delete (block_addr b) (allocated_blocks B)\<rparr>) F (A - {b})"
proof -
  have "c = b" if "c \<in> A" "block_addr c = block_addr b" for c
    using tiling_addr_inj [OF t] that b by blast
  then show ?thesis using r unfolding represents_def by (auto simp: distinct_delete)
qed

section \<open>Allocation\<close>

lemma best_fit_scan_cases:
  "(best_fit_scan sz xs c d = (c, d) \<and> (\<forall>b \<in> snd ` set xs. sz \<le> block_size b \<longrightarrow> d \<le> block_size b - sz)) \<or>
   (\<exists>pre k b post. xs = pre @ (k, b) # post \<and> sz \<le> block_size b \<and> block_size b - sz < d \<and>
      best_fit_scan sz xs c d = (Some b, block_size b - sz) \<and>
      (\<forall>x \<in> snd ` set pre. sz \<le> block_size x \<longrightarrow> block_size b < block_size x) \<and>
      (\<forall>x \<in> snd ` set post. sz \<le> block_size x \<longrightarrow> block_size b \<le> block_size x))"
proof (induction xs arbitrary: c d)
  case (Cons kb xs)
  obtain k b where kb: "kb = (k, b)" by (cases kb)
  show ?case
  proof (cases "sz \<le> block_size b \<and> block_size b - sz < d")
    case better: True
    show ?thesis
    proof (cases "block_size b = sz")
      case True
      then have "best_fit_scan sz (kb # xs) c d = (Some b, block_size b - sz)"
        using better kb by simp
      then show ?thesis using better kb True
        by (intro disjI2 exI [of _ "[]"] exI [of _ k] exI [of _ b] exI [of _ xs]) auto
    next
      case False
      with better kb have eq: "best_fit_scan sz (kb # xs) c d = best_fit_scan sz xs (Some b) (block_size b - sz)"
        by simp
      from Cons.IH [of "Some b" "block_size b - sz"] show ?thesis
      proof (elim disjE exE conjE)
        assume "best_fit_scan sz xs (Some b) (block_size b - sz) = (Some b, block_size b - sz)"
          and "\<forall>x \<in> snd ` set xs. sz \<le> block_size x \<longrightarrow> block_size b - sz \<le> block_size x - sz"
        then show ?thesis using better kb eq
          by (intro disjI2 exI [of _ "[]"] exI [of _ k] exI [of _ b] exI [of _ xs]) auto
      next
        fix pre k' b' post
        assume "xs = pre @ (k', b') # post" "sz \<le> block_size b'" "block_size b' - sz < block_size b - sz"
          "best_fit_scan sz xs (Some b) (block_size b - sz) = (Some b', block_size b' - sz)"
          "\<forall>x \<in> snd ` set pre. sz \<le> block_size x \<longrightarrow> block_size b' < block_size x"
          "\<forall>x \<in> snd ` set post. sz \<le> block_size x \<longrightarrow> block_size b' \<le> block_size x"
        then show ?thesis using better kb eq
          by (intro disjI2 exI [of _ "kb # pre"] exI [of _ k'] exI [of _ b'] exI [of _ post]) auto
      qed
    qed
  next
    case False
    with kb have eq: "best_fit_scan sz (kb # xs) c d = best_fit_scan sz xs c d" by auto
    from Cons.IH [of c d] show ?thesis
    proof (elim disjE exE conjE)
      assume "best_fit_scan sz xs c d = (c, d)"
        "\<forall>x \<in> snd ` set xs. sz \<le> block_size x \<longrightarrow> d \<le> block_size x - sz"
      then show ?thesis using False kb eq by auto
    next
      fix pre k' b' post
      assume "xs = pre @ (k', b') # post" "sz \<le> block_size b'" "block_size b' - sz < d"
        "best_fit_scan sz xs c d = (Some b', block_size b' - sz)"
        "\<forall>x \<in> snd ` set pre. sz \<le> block_size x \<longrightarrow> block_size b' < block_size x"
        "\<forall>x \<in> snd ` set post. sz \<le> block_size x \<longrightarrow> block_size b' \<le> block_size x"
      then show ?thesis using False kb eq
        by (intro disjI2 exI [of _ "kb # pre"] exI [of _ k'] exI [of _ b'] exI [of _ post]) auto
    qed
  qed
qed simp

text \<open>The block that the search picks: the smallest that is large enough, the highest of those.\<close>

definition best_block :: "Block set \<Rightarrow> nat \<Rightarrow> Block \<Rightarrow> bool" where
  "best_block F sz b \<longleftrightarrow>
     b \<in> F \<and> sz \<le> block_size b \<and>
     (\<forall>c \<in> F. sz \<le> block_size c \<longrightarrow>
        block_size b < block_size c \<or> block_size b = block_size c \<and> block_addr c \<le> block_addr b)"

lemma best_fit_scan_best:
  assumes r: "represents B F A" and t: "tiling lo hi F A" and sz: "0 < sz"
  shows "(best_fit_scan sz (rev (free_blocks_start B)) None size_max = (None, size_max) \<and>
            (\<forall>b \<in> F. block_size b < sz)) \<or>
         (\<exists>b. best_fit_scan sz (rev (free_blocks_start B)) None size_max = (Some b, block_size b - sz) \<and>
            block_size b - sz \<noteq> size_max \<and> best_block F sz b)"
proof -
  let ?fs = "free_blocks_start B"
  have fs: "ordered_keys ?fs" and mem: "\<And>k b. map_of ?fs k = Some b \<longleftrightarrow> b \<in> F \<and> k = block_addr b"
    using r by (auto simp: represents_def)
  have d: "distinct (map fst ?fs)" by (rule ordered_keys_distinct [OF fs])
  have in_fs: "(k, b) \<in> set ?fs \<longleftrightarrow> b \<in> F \<and> k = block_addr b" for k b
    using mem map_of_eq_Some_iff [OF d] by metis
  then have F: "snd ` set ?fs = F" by force
  have small: "block_size b - sz < size_max" if "b \<in> F" for b
    using tilingD(5) [OF t, of b] that sz by (simp add: size_max_def)
  from best_fit_scan_cases [of sz "rev ?fs" None size_max] show ?thesis
  proof (elim disjE exE conjE)
    assume "best_fit_scan sz (rev ?fs) None size_max = (None, size_max)"
      and none: "\<forall>b \<in> snd ` set (rev ?fs). sz \<le> block_size b \<longrightarrow> size_max \<le> block_size b - sz"
    moreover have "block_size b < sz" if "b \<in> F" for b
      using none small [OF that] that F by (metis leD leI set_rev)
    ultimately show ?thesis by blast
  next
    fix pre k b post
    assume split: "rev ?fs = pre @ (k, b) # post" and b: "sz \<le> block_size b" "block_size b - sz < size_max"
      and scan: "best_fit_scan sz (rev ?fs) None size_max = (Some b, block_size b - sz)"
      and pre: "\<forall>x \<in> snd ` set pre. sz \<le> block_size x \<longrightarrow> block_size b < block_size x"
      and post: "\<forall>x \<in> snd ` set post. sz \<le> block_size x \<longrightarrow> block_size b \<le> block_size x"
    from split have "?fs = rev post @ (k, b) # rev pre"
      by (metis (no_types) append.assoc append_Cons append_Nil rev_append rev_rev_ident rev.simps(2))
    with fs have sorted: "\<forall>x \<in> set post. fst x < k" by (auto simp: sorted_wrt_append)
    have mem': "set ?fs = insert (k, b) (set pre \<union> set post)"
      using arg_cong [OF split, of set] by auto
    then have bF: "b \<in> F" "k = block_addr b" using in_fs by blast+
    have "block_size b < block_size c \<or> block_size b = block_size c \<and> block_addr c \<le> block_addr b"
      if c: "c \<in> F" "sz \<le> block_size c" for c
    proof -
      have "(block_addr c, c) \<in> set ?fs" using c in_fs by blast
      then consider "c = b" | "c \<in> snd ` set pre" | "(block_addr c, c) \<in> set post"
        unfolding mem' by force
      then show ?thesis
        using pre post sorted bF(2) c(2) by cases (auto simp: le_less)
    qed
    then have "best_block F sz b" using b(1) bF(1) by (auto simp: best_block_def)
    then show ?thesis using scan b(2) by auto
  qed
qed

lemma allocate_cases:
  assumes inv: "bf_inv lo hi B" and sz: "0 < sz"
  obtains (fails) "allocate B sz = (None, B)" "\<forall>b \<in> free_of B. block_size b < sz"
  | (succeeds) b B' where "best_block (free_of B) sz b"
      "allocate B sz = (Some (block_addr b + block_size b - sz), B')" "bf_inv lo hi B'"
      "live B' = insert (mk_block (block_addr b + block_size b - sz) sz) (live B)"
      "free_of B' = (if block_size b = sz then free_of B - {b}
                     else insert (mk_block (block_addr b) (block_size b - sz)) (free_of B - {b}))"
proof -
  let ?F = "free_of B" and ?A = "live B"
  note r = bf_invD(1) [OF inv] and t = bf_invD(2) [OF inv] and co = bf_invD(3) [OF inv]
  from best_fit_scan_best [OF r t sz] show thesis
  proof (elim disjE exE conjE)
    assume "best_fit_scan sz (rev (free_blocks_start B)) None size_max = (None, size_max)"
      "\<forall>b \<in> ?F. block_size b < sz"
    then show thesis by (intro fails) (simp_all add: allocate_def)
  next
    fix b
    assume scan: "best_fit_scan sz (rev (free_blocks_start B)) None size_max = (Some b, block_size b - sz)"
      and ne: "block_size b - sz \<noteq> size_max" and best: "best_block ?F sz b"
    from best have b: "b \<in> ?F" "sz \<le> block_size b" by (simp_all add: best_block_def)
    have bt: "b \<in> ?F \<union> ?A" using b(1) by blast
    note bd = tilingD [OF t bt]
    let ?a = "block_addr b + block_size b - sz"
    have addr: "sub64 (add64 (block_addr b) (block_size b)) sz = ?a"
      using bd(5) b(2) by (simp add: add64_exact sub64_exact)
    have r1: "represents (remove_free_block b B) (?F - {b}) ?A"
      by (rule represents_remove [OF r t _ b(1)]) blast
    have a_in: "?a \<in> cells b" using b(2) sz by (auto simp: cells_def)
    have new: "block_addr c \<noteq> ?a" if "c \<in> ?A" for c
    proof
      assume "block_addr c = ?a"
      moreover from that have ct: "c \<in> ?F \<union> ?A" by blast
      ultimately have "?a \<in> cells c" using tilingD(1) [OF t ct] cells_nonempty by metis
      with a_in have "b = c" using tiling_disjoint [OF t bt ct] by blast
      with that b(1) t show False unfolding tiling_def by blast
    qed
    show thesis
    proof (cases "block_size b = sz")
      case True
      let ?B' = "(remove_free_block b B)\<lparr>allocated_blocks :=
          AList.update (block_addr b) b (allocated_blocks (remove_free_block b B))\<rparr>"
      have alloc: "allocate B sz = (Some ?a, ?B')"
        using scan ne addr True by (simp add: allocate_def Let_def)
      have r2: "represents ?B' (?F - {b}) (insert b ?A)"
        by (rule represents_allocate [OF r1]) (use new True in auto)
      have "tiling lo hi (?F - {b}) (insert b (?A - {b}))"
        by (rule tiling_merge(2) [OF t]) (use b(1) bd(1) in auto)
      moreover have "?A - {b} = ?A" using b(1) t unfolding tiling_def by blast
      ultimately have "bf_inv lo hi ?B'"
        using r2 co by (intro bf_invI [OF r2]) (auto simp: coalesced_def)
      then show thesis
        using best alloc represents_sets [OF r2] True
        by (intro succeeds [of b ?B']) (simp_all add: mk_block_eq)
    next
      case False
      with b(2) have gt: "sz < block_size b" by simp
      let ?c = "mk_block (block_addr b) (block_size b - sz)" and ?d = "mk_block ?a sz"
      let ?B1 = "(remove_free_block b B)\<lparr>allocated_blocks :=
          AList.update ?a ?d (allocated_blocks (remove_free_block b B))\<rparr>"
      have alloc: "allocate B sz = (Some ?a, add_free_block ?c ?B1)"
        using scan ne addr gt by (simp add: allocate_def Let_def)
      have t': "tiling lo hi (insert ?c (?F - {b})) (insert ?d ?A)"
        by (rule tiling_split [OF t b(1)]) (use gt sz in \<open>auto simp: cells_def\<close>)
      have r2: "represents ?B1 (?F - {b}) (insert ?d ?A)"
        using represents_allocate [OF r1, of ?d] new by simp
      have "?c \<notin> ?F - {b}"
        using tiling_addr_inj [OF t, of ?c b] b(1) gt by auto
      then have r3: "represents (add_free_block ?c ?B1) (insert ?c (?F - {b})) (insert ?d ?A)"
        by (intro represents_add [OF r2 t']) auto
      have above: "x \<notin> ?F - {b}" if "?a = block_addr x" for x
      proof
        assume x: "x \<in> ?F - {b}"
        have "block_addr x = block_addr ?d" unfolding Block.simps by (rule that [symmetric])
        then have "x = ?d" by (rule tiling_addr_inj [OF t' UnI1 [OF insertI2 [OF x]] UnI2 [OF insertI1]])
        moreover have "insert ?c (?F - {b}) \<inter> insert ?d ?A = {}"
          using t' unfolding tiling_def by (elim conjE)
        ultimately show False using x by (metis IntI emptyE insertI1 insertI2)
      qed
      have split: "block_addr ?c + block_size ?c = ?a" using gt by simp
      have "block_addr x + block_size x \<noteq> block_addr y"
        if "x \<in> insert ?c (?F - {b})" "y \<in> insert ?c (?F - {b})" for x y
      proof (cases "x = ?c")
        case True
        have "?a \<noteq> block_addr ?c" using gt sz by simp
        with True split above [of y] that(2) show ?thesis by auto
      next
        case False
        then have x: "x \<in> ?F" using that(1) by blast
        moreover have "y \<in> ?F \<or> block_addr y = block_addr b" using that(2) by auto
        ultimately show ?thesis using co b(1) unfolding coalesced_def by metis
      qed
      then have "coalesced (insert ?c (?F - {b}))"
        unfolding coalesced_def by blast
      then have "bf_inv lo hi (add_free_block ?c ?B1)" by (rule bf_invI [OF r3 t'])
      then show thesis
        using best alloc represents_sets [OF r3] False
        by (intro succeeds [of b "add_free_block ?c ?B1"]) simp_all
    qed
  qed
qed

section \<open>Deallocation\<close>

text \<open>
  The two merging stages. \<open>N\<close> is the set (empty or a singleton) of free blocks that start where
  the freed block ends, \<open>P\<close> of those that end where it starts.
\<close>

lemma merge_next_spec:
  assumes r: "represents B F A" and t: "tiling lo hi F A" and co: "coalesced F" and b: "b \<in> A"
    and N: "N = {n \<in> F. block_addr n = block_addr b + block_size b}"
  shows "\<exists>f1 B1. merge_next B (block_addr b) b = (f1, B1) \<and> represents B1 (F - N) A \<and>
           block_addr f1 = block_addr b \<and> cells f1 = cells b \<union> (\<Union>n \<in> N. cells n) \<and>
           0 < block_size f1 \<and> block_addr f1 + block_size f1 < 2 ^ 64 \<and>
           (\<forall>y \<in> F - N. block_addr f1 + block_size f1 \<noteq> block_addr y)"
proof -
  have bt: "b \<in> F \<union> A" using b by blast
  note bd = tilingD [OF t bt]
  have e: "add64 (block_addr b) (block_size b) = block_addr b + block_size b"
    using bd(5) by (simp add: add64_exact)
  have look: "map_of (free_blocks_start B) k = Some n \<longleftrightarrow> n \<in> F \<and> k = block_addr n" for k n
    using r by (simp add: represents_def)
  show ?thesis
  proof (cases "map_of (free_blocks_start B) (block_addr b + block_size b)")
    case None
    with look have "n \<notin> F" if "block_addr n = block_addr b + block_size b" for n
      using that by (metis option.distinct(1))
    then have "N = {}" using N by blast
    moreover from this have "\<forall>y \<in> F. block_addr b + block_size b \<noteq> block_addr y"
      using N by auto
    ultimately show ?thesis using r bd None e by (simp add: merge_next_def)
  next
    case (Some n)
    with look have n: "n \<in> F" "block_addr n = block_addr b + block_size b" by auto
    then have nt: "n \<in> F \<union> A" by blast
    have uniq: "m = n" if "m \<in> F" "block_addr m = block_addr b + block_size b" for m
      by (rule tiling_addr_inj [OF t UnI1 [OF that(1)] nt]) (simp only: that(2) n(2))
    have Nn: "N = {n}" unfolding N using n uniq by blast
    note nd = tilingD [OF t nt]
    let ?f = "b\<lparr>block_size := block_size b + block_size n\<rparr>"
    have "add64 (block_size b) (block_size n) = block_size b + block_size n"
      by (rule add64_exact) (use nd(5) n(2) in linarith)
    then have eq: "merge_next B (block_addr b) b = (?f, remove_free_block n B)"
      using Some e by (simp add: merge_next_def)
    have fend: "block_addr ?f + block_size ?f = block_addr n + block_size n"
      using n(2) by simp
    show ?thesis
    proof (rule exI, rule exI, intro conjI)
      show "merge_next B (block_addr b) b = (?f, remove_free_block n B)" by (rule eq)
      show "represents (remove_free_block n B) (F - N) A"
        unfolding Nn by (rule represents_remove [OF r t _ n(1)]) blast
      show "cells ?f = cells b \<union> (\<Union>n \<in> N. cells n)"
        unfolding Nn using n(2) by (auto simp: cells_def)
      show "block_addr ?f + block_size ?f < 2 ^ 64" unfolding fend by (rule nd(5))
      show "\<forall>y \<in> F - N. block_addr ?f + block_size ?f \<noteq> block_addr y"
        unfolding fend using co n(1) unfolding coalesced_def by blast
    qed (use bd(1) in simp_all)
  qed
qed

lemma merge_prev_spec:
  assumes r: "represents B F A" and t: "tiling lo hi G A" "F \<subseteq> G" and co: "coalesced F"
    and f: "0 < block_size f" "block_addr f + block_size f < 2 ^ 64"
    and P: "P = {p \<in> F. block_addr p + block_size p = block_addr f}"
  shows "\<exists>f2 B2. merge_prev B (block_addr f) f = (f2, B2) \<and> represents B2 (F - P) A \<and>
           block_addr f2 + block_size f2 = block_addr f + block_size f \<and>
           cells f2 = cells f \<union> (\<Union>p \<in> P. cells p) \<and> 0 < block_size f2 \<and>
           (\<forall>x \<in> F - P. block_addr x + block_size x \<noteq> block_addr f2)"
proof -
  have look: "map_of (free_blocks_end B) k = Some p \<longleftrightarrow> p \<in> F \<and> k = block_addr p + block_size p" for k p
    using r by (simp add: represents_def)
  show ?thesis
  proof (cases "map_of (free_blocks_end B) (block_addr f)")
    case None
    with look have "p \<notin> F" if "block_addr p + block_size p = block_addr f" for p
      using that by (metis option.distinct(1))
    then have "P = {}" using P by blast
    moreover from this have "\<forall>x \<in> F. block_addr x + block_size x \<noteq> block_addr f"
      using P by auto
    ultimately show ?thesis using r f None by (simp add: merge_prev_def)
  next
    case (Some p)
    with look have p: "p \<in> F" "block_addr p + block_size p = block_addr f" by auto
    then have pt: "p \<in> G \<union> A" using t(2) by blast
    have uniq: "m = p" if "m \<in> F" "block_addr m + block_size m = block_addr f" for m
      by (rule tiling_end_inj [OF t(1) UnI1 [OF subsetD [OF t(2) that(1)]] pt])
        (simp only: that(2) p(2))
    have Pp: "P = {p}" unfolding P using p uniq by blast
    let ?f = "f\<lparr>block_addr := block_addr p, block_size := block_size f + block_size p\<rparr>"
    have "add64 (block_size f) (block_size p) = block_size f + block_size p"
      by (rule add64_exact) (use f(2) p(2) in linarith)
    then have eq: "merge_prev B (block_addr f) f = (?f, remove_free_block p B)"
      using Some by (simp add: merge_prev_def)
    show ?thesis
    proof (rule exI, rule exI, intro conjI)
      show "merge_prev B (block_addr f) f = (?f, remove_free_block p B)" by (rule eq)
      show "represents (remove_free_block p B) (F - P) A"
        unfolding Pp by (rule represents_remove [OF r t(1) _ p(1)]) (use t(2) in blast)
      show "cells ?f = cells f \<union> (\<Union>p \<in> P. cells p)"
        unfolding Pp using p(2) by (auto simp: cells_def)
      show "block_addr ?f + block_size ?f = block_addr f + block_size f" using p(2) by simp
      show "\<forall>x \<in> F - P. block_addr x + block_size x \<noteq> block_addr ?f"
        using co p(1) by (simp add: coalesced_def)
    qed (use f(1) in simp)
  qed
qed

lemma deallocate_spec:
  assumes inv: "bf_inv lo hi B" and b: "b \<in> live B"
  shows "\<exists>B'. deallocate B (block_addr b) = Inr B' \<and> bf_inv lo hi B' \<and> live B' = live B - {b} \<and>
           (\<Union>c \<in> free_of B'. cells c) = cells b \<union> (\<Union>c \<in> free_of B. cells c)"
proof -
  let ?F = "free_of B" and ?A = "live B"
  note r = bf_invD(1) [OF inv] and t = bf_invD(2) [OF inv] and co = bf_invD(3) [OF inv]
  let ?N = "{n \<in> ?F. block_addr n = block_addr b + block_size b}"
  from merge_next_spec [OF r t co b refl] obtain f1 B1 where
    f1: "merge_next B (block_addr b) b = (f1, B1)" "represents B1 (?F - ?N) ?A"
      "block_addr f1 = block_addr b" "cells f1 = cells b \<union> (\<Union>n \<in> ?N. cells n)"
      "0 < block_size f1" "block_addr f1 + block_size f1 < 2 ^ 64"
      "\<forall>y \<in> ?F - ?N. block_addr f1 + block_size f1 \<noteq> block_addr y" by blast
  let ?P = "{p \<in> ?F - ?N. block_addr p + block_size p = block_addr f1}"
  have co1: "coalesced (?F - ?N)" using co unfolding coalesced_def by blast
  from merge_prev_spec [OF f1(2) t Diff_subset co1 f1(5,6) refl] obtain f2 B2 where
    f2: "merge_prev B1 (block_addr f1) f1 = (f2, B2)" "represents B2 (?F - ?N - ?P) ?A"
      "block_addr f2 + block_size f2 = block_addr f1 + block_size f1"
      "cells f2 = cells f1 \<union> (\<Union>p \<in> ?P. cells p)" "0 < block_size f2"
      "\<forall>x \<in> ?F - ?N - ?P. block_addr x + block_size x \<noteq> block_addr f2" by blast
  let ?S = "insert b (?N \<union> ?P)" and ?R = "?F - ?N - ?P"
  have bF: "b \<notin> ?F" using b t unfolding tiling_def by blast
  have cf2: "cells f2 = (\<Union>x \<in> ?S. cells x)" unfolding f2(4) f1(4) by blast
  have "?S \<subseteq> ?F \<union> ?A" using b by blast
  from tiling_merge(1) [OF t this cf2 f2(5)]
  have "tiling lo hi (insert f2 (?F - ?S)) (?A - ?S)" .
  moreover have "?F - ?S = ?R" using bF by blast
  moreover have "?A - ?S = ?A - {b}" using t unfolding tiling_def by blast
  ultimately have t': "tiling lo hi (insert f2 ?R) (?A - {b})" by simp
  have "f2 \<notin> ?R"
  proof
    assume R: "f2 \<in> ?R"
    have bt: "b \<in> ?F \<union> ?A" using b by blast
    have "block_addr b \<in> cells b" by (rule cells_nonempty [OF tilingD(1) [OF t bt]])
    then have "block_addr b \<in> cells f2" unfolding cf2 by blast
    then have "f2 = b" using tiling_disjoint [OF t _ bt _ \<open>block_addr b \<in> cells b\<close>] R by blast
    with R bF show False by blast
  qed
  then have r3: "represents (add_free_block f2 B2) (insert f2 ?R) ?A"
    by (intro represents_add [OF f2(2) t']) auto
  let ?B3 = "add_free_block f2 B2"
  let ?B' = "?B3\<lparr>allocated_blocks := AList.delete (block_addr b) (allocated_blocks ?B3)\<rparr>"
  have r4: "represents ?B' (insert f2 ?R) (?A - {b})" by (rule represents_release [OF r3 t b])
  have far: "block_addr f2 + block_size f2 \<noteq> block_addr y" if "y \<in> ?F - ?N" for y
    unfolding f2(3) using f1(7) that by blast
  have "coalesced (insert f2 ?R)"
    unfolding coalesced_def
  proof (intro ballI)
    fix x y assume x: "x \<in> insert f2 ?R" and y: "y \<in> insert f2 ?R"
    show "block_addr x + block_size x \<noteq> block_addr y"
    proof (cases "x = f2")
      case True
      show ?thesis
      proof (cases "y = f2")
        case True then show ?thesis using \<open>x = f2\<close> f2(5) by simp
      next
        case False
        then have "y \<in> ?F - ?N" using y by blast
        then show ?thesis unfolding \<open>x = f2\<close> by (rule far)
      qed
    next
      case False
      then have xR: "x \<in> ?R" using x by blast
      show ?thesis
      proof (cases "y = f2")
        case True then show ?thesis using f2(6) xR by blast
      next
        case False
        then have "x \<in> ?F" "y \<in> ?F" using xR y by blast+
        then show ?thesis using co unfolding coalesced_def by blast
      qed
    qed
  qed
  then have inv': "bf_inv lo hi ?B'" by (rule bf_invI [OF r4 t'])
  have "map_of (allocated_blocks B) (block_addr b) = Some b"
    using r b by (simp add: represents_def)
  then have "deallocate B (block_addr b) = Inr ?B'"
    using f1(1) f2(1) f1(3) by (simp add: deallocate_def Let_def)
  moreover have "(\<Union>c \<in> insert f2 ?R. cells c) = cells b \<union> (\<Union>c \<in> ?F. cells c)"
    unfolding UN_insert cf2 by blast
  ultimately show ?thesis using inv' represents_sets [OF r4] by (intro exI [of _ ?B']) simp
qed

section \<open>The free blocks are the maximal runs of free cells\<close>

lemma run_within:
  assumes F: "tiling lo hi F A" and G: "tiling lo' hi' G A'" "coalesced G"
    and sub: "(\<Union>b \<in> F. cells b) \<subseteq> (\<Union>c \<in> G. cells c)"
    and b: "b \<in> F" and c: "c \<in> G" and x: "x \<in> cells b" "x \<in> cells c"
  shows "cells b \<subseteq> cells c"
proof -
  have ct: "c \<in> G \<union> A'" using c by blast
  have in_G: "\<exists>d \<in> G. y \<in> cells d" if "y \<in> cells b" for y using sub b that by blast
  have apart: "d = c" if "d \<in> G" "y \<in> cells d" "y \<in> cells c" for d y
    using tiling_disjoint [OF G(1) _ ct] that by blast
  have "block_addr b + block_size b \<le> block_addr c + block_size c"
  proof (rule ccontr)
    assume "\<not> ?thesis"
    then have "block_addr c + block_size c \<in> cells b" using x by (simp add: cells_def)
    then obtain d where d: "d \<in> G" "block_addr c + block_size c \<in> cells d" using in_G by blast
    from G(2) c d(1) have "block_addr d \<noteq> block_addr c + block_size c"
      unfolding coalesced_def by metis
    with d(2) x(2) have "block_addr c + block_size c - 1 \<in> cells d" "block_addr c + block_size c - 1 \<in> cells c"
      unfolding cells_def atLeastLessThan_iff by linarith+
    then have "d = c" by (rule apart [OF d(1)])
    with d(2) show False by (simp add: cells_def)
  qed
  moreover have "block_addr c \<le> block_addr b"
  proof (rule ccontr)
    assume "\<not> ?thesis"
    then have before: "block_addr c - 1 \<in> cells b" "0 < block_addr c" using x by (auto simp: cells_def)
    then obtain d where d: "d \<in> G" "block_addr c - 1 \<in> cells d" using in_G by blast
    from G(2) c d(1) have "block_addr d + block_size d \<noteq> block_addr c"
      unfolding coalesced_def by metis
    with d(2) before(2) have "block_addr c \<in> cells d" unfolding cells_def atLeastLessThan_iff by linarith
    then have "d = c" by (rule apart [OF d(1)]) (rule cells_nonempty [OF tilingD(1) [OF G(1) ct]])
    with d(2) have "block_addr c - 1 \<in> cells c" by simp
    then show False using before(2) unfolding cells_def atLeastLessThan_iff by linarith
  qed
  ultimately show ?thesis by (simp add: cells_def)
qed

lemma cells_inj: "cells b = cells c \<Longrightarrow> 0 < block_size b \<Longrightarrow> b = c"
proof -
  assume eq: "cells b = cells c" and pos: "0 < block_size b"
  have "block_addr b = block_addr c \<and> block_addr b + block_size b = block_addr c + block_size c"
    using eq pos unfolding cells_def
    by (metis atLeastLessThan_eq_iff less_add_same_cancel1 atLeastLessThan_empty_iff2 not_less)
  then show "b = c" by (auto intro: Block.equality)
qed

lemma coalesced_subset:
  assumes F: "tiling lo hi F A" "coalesced F" and G: "tiling lo hi G A'" "coalesced G"
    and eq: "(\<Union>b \<in> F. cells b) = (\<Union>c \<in> G. cells c)"
  shows "F \<subseteq> G"
proof
  fix b assume b: "b \<in> F"
  have pos: "0 < block_size b" using tilingD(1) [OF F(1)] b by blast
  have x: "block_addr b \<in> cells b" by (rule cells_nonempty [OF pos])
  then obtain c where c: "c \<in> G" "block_addr b \<in> cells c" using eq b by blast
  have "cells b = cells c"
  proof
    show "cells b \<subseteq> cells c" by (rule run_within [OF F(1) G equalityD1 [OF eq] b c(1) x c(2)])
    show "cells c \<subseteq> cells b" by (rule run_within [OF G(1) F equalityD2 [OF eq] c(1) b c(2) x])
  qed
  with pos have "b = c" by (intro cells_inj)
  with c(1) show "b \<in> G" by simp
qed

lemma coalesced_unique:
  assumes "tiling lo hi F A" "coalesced F" "tiling lo hi G A'" "coalesced G"
    and "(\<Union>b \<in> F. cells b) = (\<Union>c \<in> G. cells c)"
  shows "F = G"
  using coalesced_subset [OF assms] coalesced_subset [OF assms(3,4,1,2) assms(5) [symmetric]] by blast

section \<open>Capacity and clearing\<close>

lemma fold_add64:
  "t + sum_list (map (\<lambda>kb. block_size (snd kb)) xs) < 2 ^ 64 \<Longrightarrow>
   fold (\<lambda>(_, b) capacity. add64 capacity (block_size b)) xs t =
     t + sum_list (map (\<lambda>kb. block_size (snd kb)) xs)"
proof (induction xs arbitrary: t)
  case (Cons kb xs)
  then have "add64 t (block_size (snd kb)) = t + block_size (snd kb)" by (simp add: add64_exact)
  with Cons show ?case by (simp add: case_prod_unfold add.assoc)
qed simp

lemma represents_free_list:
  assumes "represents B F A"
  shows "snd ` set (free_blocks_start B) = F" "finite F"
    "sum_list (map (\<lambda>kb. block_size (snd kb)) (free_blocks_start B)) = (\<Sum>b \<in> F. block_size b)"
proof -
  let ?fs = "free_blocks_start B"
  have d: "distinct (map fst ?fs)"
    using assms by (auto simp: represents_def intro: ordered_keys_distinct)
  have mem: "(k, b) \<in> set ?fs \<longleftrightarrow> b \<in> F \<and> k = block_addr b" for k b
    using assms map_of_eq_Some_iff [OF d] unfolding represents_def by metis
  show F: "snd ` set ?fs = F" using mem by force
  then show "finite F" by (metis List.finite_set finite_imageI)
  have inj: "inj_on snd (set ?fs)" using mem by (auto simp: inj_on_def)
  have "sum_list (map (\<lambda>kb. block_size (snd kb)) ?fs) = (\<Sum>kb \<in> set ?fs. block_size (snd kb))"
    using d distinct_map sum_list_distinct_conv_sum_set by blast
  also have "\<dots> = (\<Sum>b \<in> F. block_size b)"
    unfolding F [symmetric] by (simp add: sum.reindex [OF inj])
  finally show "sum_list (map (\<lambda>kb. block_size (snd kb)) ?fs) = (\<Sum>b \<in> F. block_size b)" .
qed

lemma sum_sizes:
  assumes t: "tiling lo hi F A" and X: "X \<subseteq> F \<union> A" "finite X"
  shows "(\<Sum>b \<in> X. block_size b) = card (\<Union>b \<in> X. cells b)"
proof -
  have "card (\<Union>b \<in> X. cells b) = (\<Sum>b \<in> X. card (cells b))"
  proof (rule card_UN_disjoint [OF X(2)])
    show "\<forall>b \<in> X. finite (cells b)" by (simp add: cells_def)
    show "\<forall>b \<in> X. \<forall>c \<in> X. b \<noteq> c \<longrightarrow> cells b \<inter> cells c = {}"
      using t X(1) unfolding tiling_def by (metis subsetD)
  qed
  then show ?thesis by (simp add: cells_def)
qed

lemma capacity_cells:
  assumes inv: "bf_inv lo hi B"
  shows "get_capacity B = card (\<Union>b \<in> free_of B. cells b)"
proof -
  note r = bf_invD(1) [OF inv] and t = bf_invD(2) [OF inv]
  note fl = represents_free_list [OF r]
  have sum: "(\<Sum>b \<in> free_of B. block_size b) = card (\<Union>b \<in> free_of B. cells b)"
    by (rule sum_sizes [OF t _ fl(2)]) blast
  have "(\<Union>b \<in> free_of B. cells b) \<subseteq> {lo..<hi}" using t unfolding tiling_def by blast
  then have "card (\<Union>b \<in> free_of B. cells b) \<le> card {lo..<hi}" by (intro card_mono) simp
  moreover have "hi < 2 ^ 64" using t by (simp add: tiling_def)
  ultimately have small: "card (\<Union>b \<in> free_of B. cells b) < 2 ^ 64" by simp
  show ?thesis
    unfolding get_capacity_def using fold_add64 [of 0 "free_blocks_start B"] small
    by (simp only: fl(3) sum add_0)
qed

lemma clear_loop:
  assumes "bf_inv lo hi B" "distinct (map fst xs)"
    and "\<And>k b. (k, b) \<in> set xs \<Longrightarrow> b \<in> live B \<and> k = block_addr b"
  shows "\<exists>B'. fold_res (\<lambda>(start, _) C. deallocate C start) xs B = Inr B' \<and> bf_inv lo hi B' \<and>
           live B' = live B - snd ` set xs"
  using assms
proof (induction xs arbitrary: B)
  case (Cons kb xs)
  obtain k b where kb: "kb = (k, b)" by (cases kb)
  with Cons.prems(3) have b: "b \<in> live B" "k = block_addr b" by auto
  from deallocate_spec [OF Cons.prems(1) b(1)] obtain C where
    C: "deallocate B (block_addr b) = Inr C" "bf_inv lo hi C" "live C = live B - {b}" by blast
  have "y \<in> live C \<and> j = block_addr y" if "(j, y) \<in> set xs" for j y
  proof -
    from that Cons.prems(2) kb have "j \<noteq> k" by force
    then show ?thesis using that Cons.prems(3) [of j y] b(2) C(3) by auto
  qed
  from Cons.IH [OF C(2) _ this] Cons.prems(2) obtain B' where
    "fold_res (\<lambda>(start, _) C. deallocate C start) xs C = Inr B'" "bf_inv lo hi B'"
    "live B' = live C - snd ` set xs" by auto
  then show ?case using C kb b(2) by auto
qed simp

lemma represents_allocated_list:
  assumes "represents B F A"
  shows "snd ` set (allocated_blocks B) = A" "distinct (map fst (allocated_blocks B))"
    "(k, b) \<in> set (allocated_blocks B) \<longleftrightarrow> b \<in> A \<and> k = block_addr b"
proof -
  show d: "distinct (map fst (allocated_blocks B))" using assms by (simp add: represents_def)
  have mem: "(k, b) \<in> set (allocated_blocks B) \<longleftrightarrow> b \<in> A \<and> k = block_addr b" for k b
    using assms map_of_eq_Some_iff [OF d] unfolding represents_def by metis
  then show "(k, b) \<in> set (allocated_blocks B) \<longleftrightarrow> b \<in> A \<and> k = block_addr b" .
  show "snd ` set (allocated_blocks B) = A" using mem by force
qed

lemma clear_spec:
  assumes inv: "bf_inv lo hi B"
  shows "\<exists>B'. clear_allocated_blocks B = Inr B' \<and> bf_inv lo hi B' \<and> live B' = {}"
proof -
  note al = represents_allocated_list [OF bf_invD(1) [OF inv]]
  have "b \<in> live B \<and> k = block_addr b" if "(k, b) \<in> set (allocated_blocks B)" for k b
    using that al(3) by blast
  from clear_loop [OF inv al(2) this] show ?thesis
    unfolding clear_allocated_blocks_def al(1) by simp
qed

lemma empty_channel:
  assumes "bf_inv lo hi B" "live B = {}" "lo < hi"
  shows "free_of B = {mk_block lo (hi - lo)}"
proof (rule coalesced_unique)
  note t = bf_invD(2) [OF assms(1)]
  show "tiling lo hi (free_of B) (live B)" "coalesced (free_of B)"
    using bf_invD [OF assms(1)] by blast+
  show "tiling lo hi {mk_block lo (hi - lo)} {}"
    using t assms(3) by (auto simp: tiling_def cells_def)
  show "coalesced {mk_block lo (hi - lo)}" using assms(3) by (simp add: coalesced_def)
  show "(\<Union>b \<in> free_of B. cells b) = (\<Union>b \<in> {mk_block lo (hi - lo)}. cells b)"
    using t assms(2,3) by (auto simp: tiling_def cells_def)
qed

section \<open>The best-fit allocator is a channel allocator\<close>

definition live_buffers :: "Blocks \<Rightarrow> (nat \<times> nat) set" where
  "live_buffers B = (\<lambda>b. (block_addr b, block_size b)) ` live B"

definition free_cells :: "Blocks \<Rightarrow> nat set" where
  "free_cells B = (\<Union>b \<in> free_of B. cells b)"

lemma cells_span: "cells b = span (block_addr b) (block_size b)"
  by (simp add: cells_def span_def)

lemma mk_block_live: "(a, n) \<in> live_buffers B \<longleftrightarrow> mk_block a n \<in> live B"
proof
  assume "(a, n) \<in> live_buffers B"
  then show "mk_block a n \<in> live B" by (auto simp: live_buffers_def mk_block_eq)
next
  assume "mk_block a n \<in> live B"
  from imageI [OF this, of "\<lambda>b. (block_addr b, block_size b)"]
  show "(a, n) \<in> live_buffers B" by (simp add: live_buffers_def)
qed

lemma tiling_parts:
  assumes t: "tiling lo hi F A"
  shows "b \<in> A \<Longrightarrow> cells b \<inter> (\<Union>c \<in> F. cells c) = {}"
    and "(\<Union>c \<in> F. cells c) = {lo..<hi} - (\<Union>c \<in> A. cells c)"
proof -
  have apart: "cells b \<inter> cells c = {}" if "b \<in> A" "c \<in> F" for b c
  proof -
    have "b \<in> F \<union> A" "c \<in> F \<union> A" using that by blast+
    moreover have "F \<inter> A = {}" using t by (simp add: tiling_def)
    then have "b \<noteq> c" using that by blast
    ultimately show ?thesis using tiling_disjoint [OF t] by blast
  qed
  then show "b \<in> A \<Longrightarrow> cells b \<inter> (\<Union>c \<in> F. cells c) = {}" by blast
  have "(\<Union>c \<in> F \<union> A. cells c) = {lo..<hi}" using t by (simp only: tiling_def)
  then have "(\<Union>c \<in> F. cells c) \<union> (\<Union>c \<in> A. cells c) = {lo..<hi}" by (simp only: UN_Un)
  moreover have "(\<Union>c \<in> F. cells c) \<inter> (\<Union>c \<in> A. cells c) = {}" using apart by blast
  ultimately show "(\<Union>c \<in> F. cells c) = {lo..<hi} - (\<Union>c \<in> A. cells c)" by blast
qed

lemma free_cells_live:
  "bf_inv lo hi B \<Longrightarrow> free_cells B = {lo..<hi} - (\<Union>c \<in> live B. cells c)"
  unfolding free_cells_def by (rule tiling_parts(2)) (rule bf_invD)

lemma allocate_laws:
  assumes "bf_inv lo hi B" "0 < n"
  shows "allocate B n = (None, B') \<Longrightarrow> B' = B"
    and "allocate B n = (Some a, B') \<Longrightarrow>
      bf_inv lo hi B' \<and> span a n \<subseteq> free_cells B \<and> free_cells B' = free_cells B - span a n \<and>
      live_buffers B' = insert (a, n) (live_buffers B)"
proof -
  assume eq: "allocate B n = (None, B')"
  show "B' = B" by (cases rule: allocate_cases [OF assms]) (use eq in auto)
next
  assume eq: "allocate B n = (Some a, B')"
  show "bf_inv lo hi B' \<and> span a n \<subseteq> free_cells B \<and>
      free_cells B' = free_cells B - span a n \<and> live_buffers B' = insert (a, n) (live_buffers B)"
    using assms
  proof (cases rule: allocate_cases)
      case (succeeds b C)
      with eq have C: "C = B'" "a = block_addr b + block_size b - n" by auto
      have b: "b \<in> free_of B" "n \<le> block_size b" using succeeds(1) by (simp_all add: best_block_def)
      have "span a n \<subseteq> cells b" using b(2) C(2) by (auto simp: span_def cells_def)
      then have sub: "span a n \<subseteq> free_cells B" using b(1) unfolding free_cells_def by blast
      have "free_cells B' = {lo..<hi} - (\<Union>c \<in> live B'. cells c)"
        by (rule free_cells_live) (use succeeds(3) C in simp)
      also have "\<dots> = free_cells B - span a n"
        using succeeds(4) C unfolding free_cells_live [OF assms(1)] by (auto simp: cells_span)
      finally show ?thesis using sub succeeds(3,4) C by (simp add: live_buffers_def)
  qed (use eq in simp)
qed

lemma deallocate_laws:
  assumes inv: "bf_inv lo hi B" and live: "(a, n) \<in> live_buffers B"
  shows "\<exists>B'. deallocate B a = Inr B' \<and> bf_inv lo hi B' \<and> free_cells B' = free_cells B \<union> span a n \<and>
           live_buffers B' = live_buffers B - {(a, n)}"
proof -
  have b: "mk_block a n \<in> live B" using live by (simp add: mk_block_live)
  from deallocate_spec [OF inv b] obtain B' where B': "deallocate B a = Inr B'" "bf_inv lo hi B'"
    "live B' = live B - {mk_block a n}" "free_cells B' = span a n \<union> free_cells B"
    unfolding free_cells_def by (force simp: cells_span)
  have "x \<in> live_buffers B' \<longleftrightarrow> x \<in> live_buffers B - {(a, n)}" for x
    using B'(3) by (cases x) (simp add: mk_block_live)
  then have "live_buffers B' = live_buffers B - {(a, n)}" by blast
  with B' show ?thesis by (metis Un_commute)
qed

lemma deallocate_unknown_throws:
  assumes inv: "bf_inv lo hi B" and "a \<notin> fst ` live_buffers B"
  shows "deallocate B a = Inl RuntimeError"
proof -
  have "map_of (allocated_blocks B) a = None"
  proof (rule ccontr)
    assume "map_of (allocated_blocks B) a \<noteq> None"
    then obtain b where "map_of (allocated_blocks B) a = Some b" by blast
    then have "b \<in> live B" "a = block_addr b"
      using bf_invD(1) [OF inv] by (simp_all add: represents_def)
    then show False using assms(2) by (force simp: live_buffers_def)
  qed
  then show ?thesis by (simp add: deallocate_def)
qed

lemma live_blocks_apart:
  assumes inv: "bf_inv lo hi B" and a: "(a, n) \<in> live_buffers B"
  shows "0 < n \<and> span a n \<inter> free_cells B = {}"
    and "(b, m) \<in> live_buffers B \<Longrightarrow> (a, n) \<noteq> (b, m) \<Longrightarrow> span a n \<inter> span b m = {}"
proof -
  note t = bf_invD(2) [OF inv]
  have A: "mk_block a n \<in> live B" using a by (simp add: mk_block_live)
  then have At: "mk_block a n \<in> free_of B \<union> live B" by blast
  show "0 < n \<and> span a n \<inter> free_cells B = {}"
    using tilingD(1) [OF t At] tiling_parts(1) [OF t, of "mk_block a n"] A by (simp add: free_cells_def cells_span)
  assume "(b, m) \<in> live_buffers B" and ne: "(a, n) \<noteq> (b, m)"
  then have Bt: "mk_block b m \<in> free_of B \<union> live B" by (simp add: mk_block_live)
  have "mk_block a n \<noteq> mk_block b m" using ne by simp
  then have "cells (mk_block a n) \<inter> cells (mk_block b m) = {}"
    using tiling_disjoint [OF t At Bt] by blast
  then show "span a n \<inter> span b m = {}" by (simp add: cells_span)
qed

interpretation best_fit: channel_allocator allocate deallocate "bf_inv lo hi" live_buffers free_cells
proof
  show "s' = s" if "bf_inv lo hi s" "0 < n" "allocate s n = (None, s')" for s n s'
    by (rule allocate_laws(1) [OF that])
qed (rule allocate_laws(2) deallocate_laws deallocate_unknown_throws live_blocks_apart; assumption)+

text \<open>The same contract for a channel over any range.\<close>

definition some_range :: "Blocks \<Rightarrow> bool" where
  "some_range B \<longleftrightarrow> (\<exists>lo hi. bf_inv lo hi B)"

interpretation any_channel: channel_allocator allocate deallocate some_range live_buffers free_cells
proof
  fix s s' and n :: nat
  assume "some_range s" "0 < n"
  then show "allocate s n = (None, s') \<Longrightarrow> s' = s"
    by (auto simp: some_range_def dest: best_fit.alloc_fails)
next
  fix s n s' a
  assume "some_range s" "0 < n" "allocate s n = (Some a, s')"
  then show "some_range s' \<and> span a n \<subseteq> free_cells s \<and> free_cells s' = free_cells s - span a n \<and>
      live_buffers s' = insert (a, n) (live_buffers s)"
    unfolding some_range_def using best_fit.alloc_succeeds by blast
next
  fix s a n
  assume "some_range s" "(a, n) \<in> live_buffers s"
  then show "\<exists>s'. deallocate s a = Inr s' \<and> some_range s' \<and> free_cells s' = free_cells s \<union> span a n \<and>
      live_buffers s' = live_buffers s - {(a, n)}"
    unfolding some_range_def using best_fit.dealloc_live by meson
next
  fix s a
  assume "some_range s" "a \<notin> fst ` live_buffers s"
  then show "deallocate s a = Inl RuntimeError"
    unfolding some_range_def using best_fit.dealloc_unknown by blast
next
  fix s a n
  assume "some_range s" "(a, n) \<in> live_buffers s"
  then show "0 < n \<and> span a n \<inter> free_cells s = {}"
    unfolding some_range_def using best_fit.live_not_free by blast
next
  fix s a n b m
  assume "some_range s" "(a, n) \<in> live_buffers s" "(b, m) \<in> live_buffers s" "(a, n) \<noteq> (b, m)"
  then show "span a n \<inter> span b m = {}"
    unfolding some_range_def using best_fit.live_disjoint by blast
qed

end
