(* ===== verification/Best_Fit_Spec.thy ===== *)
theory Best_Fit_Spec
  imports Best_Fit_Facts
begin

text \<open>
  What \<open>BestFitAllocator\<close> promises, stated over the whole operations: the constructor, best-fit
  allocation, coalescing deallocation, capacity, clearing, and what happens to a pre-allocated
  channel that has no free block left.
\<close>

lemma represents_init:
  assumes "start_addr < end_addr" "end_addr + 1 < 2 ^ 64"
    and "free_blocks_start P = []"
  shows "represents (best_fit_init start_addr end_addr P)
           {mk_block start_addr (end_addr + 1 - start_addr)} {}"
    and "tiling start_addr (end_addr + 1) {mk_block start_addr (end_addr + 1 - start_addr)} {}"
    and "coalesced {mk_block start_addr (end_addr + 1 - start_addr)}"
proof -
  have sz: "add64 (sub64 end_addr start_addr) 1 = end_addr + 1 - start_addr"
    "add64 start_addr (end_addr + 1 - start_addr) = end_addr + 1"
    using assms by (simp_all add: sub64_exact add64_exact)
  show "represents (best_fit_init start_addr end_addr P)
          {mk_block start_addr (end_addr + 1 - start_addr)} {}"
    using assms sz
    by (simp add: best_fit_init_def add_free_block_def empty_blocks_def represents_def) auto
  show "tiling start_addr (end_addr + 1) {mk_block start_addr (end_addr + 1 - start_addr)} {}"
    using assms by (auto simp: tiling_def cells_def)
  show "coalesced {mk_block start_addr (end_addr + 1 - start_addr)}"
    using assms by (simp add: coalesced_def)
qed

lemma init_state:
  assumes "start_addr < end_addr" "end_addr + 1 < 2 ^ 64" "free_blocks_start P = []"
  shows "bf_inv start_addr (end_addr + 1) (best_fit_init start_addr end_addr P)"
    and "live_buffers (best_fit_init start_addr end_addr P) = {}"
    and "free_cells (best_fit_init start_addr end_addr P) = {start_addr..end_addr}"
proof -
  note r = represents_init [OF assms]
  show "bf_inv start_addr (end_addr + 1) (best_fit_init start_addr end_addr P)"
    by (rule bf_invI [OF r])
  show "live_buffers (best_fit_init start_addr end_addr P) = {}"
    using represents_sets [OF r(1)] by (simp add: live_buffers_def)
  show "free_cells (best_fit_init start_addr end_addr P) = {start_addr..end_addr}"
    using represents_sets [OF r(1)] assms by (auto simp: free_cells_def cells_def)
qed

lemma free_list_empty:
  assumes "bf_inv lo hi B"
  shows "free_blocks_start B = [] \<longleftrightarrow> free_of B = {}"
  using represents_free_list(1) [OF bf_invD(1) [OF assms]] by (metis image_is_empty set_empty)

text \<open>
  Constructed over a non-trivial range and no pre-allocated blocks, the allocator
  satisfies its invariant: every address of the inclusive range is free, nothing is allocated.
\<close>

theorem constructor_frees_the_range:
  assumes "start_addr < end_addr" "end_addr + 1 < 2 ^ 64"
  shows "bf_inv start_addr (end_addr + 1) (best_fit_init start_addr end_addr empty_blocks) \<and>
         live_buffers (best_fit_init start_addr end_addr empty_blocks) = {} \<and>
         free_cells (best_fit_init start_addr end_addr empty_blocks) = {start_addr..end_addr}"
proof -
  have "free_blocks_start empty_blocks = []" by (simp add: empty_blocks_def)
  from init_state [OF assms this] show ?thesis by blast
qed

theorem constructor_frees_the_range_witness:
  "bf_inv 256 1024 (best_fit_init 256 1023 empty_blocks)"
  using constructor_frees_the_range [of 256 1023] by simp

text \<open>
  C22 (functional). \<open>allocate\<close> fails, changing nothing, exactly when no free block is large enough.
  Otherwise it takes the end of the smallest free block that is large enough (the one at the
  highest address among equals), keeps the invariant, and the new buffer overlaps no live one.
\<close>

theorem allocate_is_best_fit:
  assumes "bf_inv lo hi B" "0 < sz"
  shows "case allocate B sz of
           (None, B') \<Rightarrow> B' = B \<and> (\<forall>b \<in> free_of B. block_size b < sz)
         | (Some a, B') \<Rightarrow>
             bf_inv lo hi B' \<and> live_buffers B' = insert (a, sz) (live_buffers B) \<and>
             (\<exists>b. best_block (free_of B) sz b \<and> a + sz = block_addr b + block_size b) \<and>
             (\<forall>(c, n) \<in> live_buffers B. span a sz \<inter> span c n = {})"
  using assms
proof (cases rule: allocate_cases)
  case (succeeds b B')
  let ?a = "block_addr b + block_size b - sz"
  have "?a + sz = block_addr b + block_size b" using succeeds(1) by (simp add: best_block_def)
  moreover have "span ?a sz \<inter> span c n = {}" if "(c, n) \<in> live_buffers B" for c n
    by (rule best_fit.alloc_disjoint [OF assms succeeds(2) that])
  ultimately show ?thesis
    using succeeds best_fit.alloc_succeeds [OF assms succeeds(2)] by auto
qed simp

theorem allocate_is_best_fit_witness:
  "bf_inv 0 100 (snd (allocate (best_fit_init 0 99 empty_blocks) 30)) \<and>
   fst (allocate (best_fit_init 0 99 empty_blocks) 30) = Some 70"
proof -
  have inv: "bf_inv 0 100 (best_fit_init 0 99 empty_blocks)"
    using init_state(1) [of 0 99 empty_blocks] by (simp add: empty_blocks_def)
  have "fst (allocate (best_fit_init 0 99 empty_blocks) 30) = Some 70" by code_simp
  then show ?thesis
    using allocate_is_best_fit [OF inv, of 30]
    by (cases "allocate (best_fit_init 0 99 empty_blocks) 30") simp
qed

text \<open>
  C23 (functional). Freeing a live buffer returns, removes exactly that buffer, adds exactly its
  addresses to the free space, and leaves no two adjacent free blocks: the free blocks are the
  maximal runs of free addresses, so any state with the same free addresses has the same ones.
\<close>

theorem deallocate_coalesces:
  assumes "bf_inv lo hi B" "(a, n) \<in> live_buffers B"
  shows "\<exists>B'. deallocate B a = Inr B' \<and> bf_inv lo hi B' \<and>
           live_buffers B' = live_buffers B - {(a, n)} \<and> free_cells B' = free_cells B \<union> span a n \<and>
           (\<forall>C. bf_inv lo hi C \<and> free_cells C = free_cells B' \<longrightarrow> free_of C = free_of B')"
proof -
  from deallocate_laws [OF assms] obtain B' where B': "deallocate B a = Inr B'" "bf_inv lo hi B'"
    "free_cells B' = free_cells B \<union> span a n" "live_buffers B' = live_buffers B - {(a, n)}" by blast
  have "free_of C = free_of B'" if "bf_inv lo hi C" "free_cells C = free_cells B'" for C
    by (rule coalesced_unique [OF bf_invD(2,3) [OF that(1)] bf_invD(2,3) [OF B'(2)]])
      (use that(2) in \<open>simp add: free_cells_def\<close>)
  with B' show ?thesis by blast
qed

theorem deallocate_coalesces_witness:
  "\<exists>B'. deallocate (snd (allocate (best_fit_init 0 99 empty_blocks) 30)) 70 = Inr B' \<and>
        live_buffers B' = {}"
proof -
  let ?B = "best_fit_init 0 99 empty_blocks"
  note init = init_state [of 0 99 empty_blocks, simplified empty_blocks_def, simplified]
  have inv: "bf_inv 0 100 ?B" "live_buffers ?B = {}"
    using init by (simp_all add: empty_blocks_def)
  have "fst (allocate ?B 30) = Some 70" by code_simp
  then have alloc: "allocate ?B 30 = (Some 70, snd (allocate ?B 30))"
    by (metis prod.collapse)
  have "bf_inv 0 100 (snd (allocate ?B 30))" "live_buffers (snd (allocate ?B 30)) = {(70, 30)}"
    using allocate_laws(2) [OF inv(1) _ alloc] inv(2) by simp_all
  from deallocate_coalesces [OF this(1), of 70 30] this(2) show ?thesis by auto
qed

text \<open>
  Freeing a buffer right after allocating it restores the free blocks and the live
  buffers that were there before.
\<close>

theorem allocate_deallocate_roundtrip:
  assumes inv: "bf_inv lo hi B" and sz: "0 < sz" and alloc: "allocate B sz = (Some a, B')"
  shows "\<exists>B''. deallocate B' a = Inr B'' \<and> free_of B'' = free_of B \<and>
           live_buffers B'' = live_buffers B \<and> bf_inv lo hi B''"
proof -
  from best_fit.alloc_dealloc [OF assms] obtain B'' where B'': "deallocate B' a = Inr B''"
    "bf_inv lo hi B''" "live_buffers B'' = live_buffers B" "free_cells B'' = free_cells B" by blast
  have "free_of B'' = free_of B"
    by (rule coalesced_unique [OF bf_invD(2,3) [OF B''(2)] bf_invD(2,3) [OF inv]])
      (use B''(4) in \<open>simp add: free_cells_def\<close>)
  with B'' show ?thesis by blast
qed

theorem allocate_deallocate_roundtrip_witness:
  "\<exists>B''. deallocate (snd (allocate (best_fit_init 0 99 empty_blocks) 30)) 70 = Inr B'' \<and>
         free_of B'' = free_of (best_fit_init 0 99 empty_blocks)"
proof -
  let ?B = "best_fit_init 0 99 empty_blocks"
  have inv: "bf_inv 0 100 ?B"
    using init_state(1) [of 0 99 empty_blocks] by (simp add: empty_blocks_def)
  have "fst (allocate ?B 30) = Some 70" by code_simp
  then have alloc: "allocate ?B 30 = (Some 70, snd (allocate ?B 30))"
    by (metis prod.collapse)
  have "0 < (30::nat)" by simp
  from allocate_deallocate_roundtrip [OF inv this alloc] show ?thesis by blast
qed

text \<open>
  \<open>clear_allocated_blocks\<close> frees every buffer without throwing, whatever the
  order of the unordered map: the channel ends with a single free block over its whole range.
\<close>

theorem clear_restores_channel:
  assumes "bf_inv lo hi B" "lo < hi"
  shows "\<exists>B'. clear_allocated_blocks B = Inr B' \<and> bf_inv lo hi B' \<and> live_buffers B' = {} \<and>
           free_of B' = {mk_block lo (hi - lo)}"
proof -
  from clear_spec [OF assms(1)] obtain B' where
    B': "clear_allocated_blocks B = Inr B'" "bf_inv lo hi B'" "live B' = {}" by blast
  from empty_channel [OF B'(2,3) assms(2)] B' show ?thesis by (simp add: live_buffers_def)
qed

theorem clear_restores_channel_witness:
  "\<exists>B'. clear_allocated_blocks (best_fit_init 0 99 empty_blocks) = Inr B' \<and> live_buffers B' = {}"
proof -
  have inv: "bf_inv 0 100 (best_fit_init 0 99 empty_blocks)"
    using init_state(1) [of 0 99 empty_blocks] by (simp add: empty_blocks_def)
  have "(0::nat) < 100" by simp
  from clear_restores_channel [OF inv this] show ?thesis by blast
qed

text \<open>
  \<open>get_capacity\<close> never wraps: it is the size of the range less the sizes of the
  live buffers.
\<close>

theorem capacity_is_what_is_left:
  assumes inv: "bf_inv lo hi B"
  shows "get_capacity B + (\<Sum>b \<in> live B. block_size b) = hi - lo"
proof -
  note t = bf_invD(2) [OF inv] and al = represents_allocated_list(1) [OF bf_invD(1) [OF inv]]
  have fin: "finite (live B)" using al by (metis List.finite_set finite_imageI)
  then have live: "(\<Sum>b \<in> live B. block_size b) = card (\<Union>b \<in> live B. cells b)"
    by (intro sum_sizes [OF t]) auto
  have "(\<Union>b \<in> live B. cells b) \<subseteq> {lo..<hi}" using t unfolding tiling_def by blast
  then have "card ({lo..<hi} - (\<Union>b \<in> live B. cells b)) + card (\<Union>b \<in> live B. cells b) = card {lo..<hi}"
    by (metis card_Diff_subset card_mono finite_atLeastLessThan finite_subset le_add_diff_inverse2)
  then show ?thesis
    using capacity_cells [OF inv] free_cells_live [OF inv] live by (simp add: free_cells_def)
qed

theorem capacity_is_what_is_left_witness:
  "get_capacity (best_fit_init 0 99 empty_blocks)
     + (\<Sum>b \<in> live (best_fit_init 0 99 empty_blocks). block_size b) = 100 - 0"
  by (rule capacity_is_what_is_left)
    (use init_state(1) [of 0 99 empty_blocks] in \<open>simp add: empty_blocks_def\<close>)

text \<open>
  Freeing an address twice throws the second time, and only live addresses can be
  freed.
\<close>

theorem double_free_throws:
  assumes "bf_inv lo hi B" "deallocate B a = Inr B'"
  shows "a \<in> fst ` live_buffers B \<and> deallocate B' a = Inl RuntimeError"
proof
  show "a \<in> fst ` live_buffers B"
    using best_fit.dealloc_unknown [OF assms(1), of a] assms(2) by force
  show "deallocate B' a = Inl RuntimeError" by (rule best_fit.double_free [OF assms])
qed

definition example_channel :: Blocks where
  "example_channel = snd (allocate (best_fit_init 0 99 empty_blocks) 100)"

lemma example_channel_facts:
  "bf_inv 0 100 example_channel" "live_buffers example_channel = {(0, 100)}"
  "free_of example_channel = {}"
proof -
  let ?B = "best_fit_init 0 99 empty_blocks"
  have inv: "bf_inv 0 100 ?B" "live_buffers ?B = {}"
    using init_state [of 0 99 empty_blocks] by (simp_all add: empty_blocks_def)
  have "fst (allocate ?B 100) = Some 0" by code_simp
  then have alloc: "allocate ?B 100 = (Some 0, example_channel)"
    unfolding example_channel_def by (metis prod.collapse)
  from allocate_laws(2) [OF inv(1) _ alloc] inv(2)
  show i: "bf_inv 0 100 example_channel" "live_buffers example_channel = {(0, 100)}" by simp_all
  have "free_blocks_start example_channel = []" by code_simp
  then show "free_of example_channel = {}" by (simp add: free_of_def)
qed

theorem double_free_throws_witness:
  "\<exists>B'. deallocate example_channel 0 = Inr B' \<and> deallocate B' 0 = Inl RuntimeError"
proof -
  from deallocate_laws [OF example_channel_facts(1), of 0 100] obtain B' where
    B': "deallocate example_channel 0 = Inr B'" by (auto simp: example_channel_facts)
  with double_free_throws [OF example_channel_facts(1) B'] show ?thesis by blast
qed

text \<open>
  A pre-allocated channel is taken over by the constructor only while it has a free
  block. A channel that is completely allocated is discarded: the new allocator treats the whole
  range as free, although every address of it is in a live buffer.
\<close>

theorem full_channel_is_forgotten:
  assumes inv: "bf_inv lo (hi + 1) B" and range: "lo < hi" "hi + 1 < 2 ^ 64"
  shows "(free_of B \<noteq> {} \<longrightarrow> best_fit_init lo hi B = B) \<and>
         (free_of B = {} \<longrightarrow>
            (\<Union>(a, n) \<in> live_buffers B. span a n) = {lo..hi} \<and>
            live_buffers (best_fit_init lo hi B) = {} \<and>
            free_cells (best_fit_init lo hi B) = {lo..hi})"
proof (intro conjI impI)
  assume "free_of B \<noteq> {}"
  then have "free_blocks_start B \<noteq> []" using free_list_empty [OF inv] by simp
  then show "best_fit_init lo hi B = B" by (simp add: best_fit_init_def)
next
  assume free: "free_of B = {}"
  then have nil: "free_blocks_start B = []" using free_list_empty [OF inv] by simp
  show "live_buffers (best_fit_init lo hi B) = {}" "free_cells (best_fit_init lo hi B) = {lo..hi}"
    by (rule init_state [OF range nil])+
  have "(\<Union>(a, n) \<in> live_buffers B. span a n) = (\<Union>b \<in> live B. cells b)"
    by (simp add: live_buffers_def cells_span)
  also have "\<dots> = {lo..hi}"
    using bf_invD(2) [OF inv] free by (auto simp: tiling_def)
  finally show "(\<Union>(a, n) \<in> live_buffers B. span a n) = {lo..hi}" .
qed

theorem full_channel_is_forgotten_witness:
  "live_buffers example_channel = {(0, 100)} \<and>
   live_buffers (best_fit_init 0 99 example_channel) = {}"
  using full_channel_is_forgotten [of 0 99 example_channel] example_channel_facts by simp

end
