(* ===== verification/Dram_Config.thy ===== *)
theory Dram_Config
  imports Placer_Types Best_Fit
begin

text \<open>
  The data of the DRAM placer: \<open>DramConfig\<close>, \<open>DramPlacerConfig\<close> and
  \<open>QueueDRAMPlacementParameters\<close> (\<open>placer/dram.hpp\<close>), and the parts of a queue node that the
  allocator reads (\<open>graph_lib/node_types.hpp\<close>). What the backend answers about the device is a
  record of parameters, \<open>DramBackend\<close>.
\<close>

record DramBackend =
  dram_num_channels :: nat
  dram_channel_capacity :: nat
  dram_backend_reserved :: "nat \<Rightarrow> nat"
  dram_backend_reserved_max :: nat
  dram_core_coord :: "nat \<Rightarrow> nat \<Rightarrow> int \<times> int"
  backend_p2p_offset :: nat
  backend_p2p_size :: nat
  backend_host_mmio_offset :: nat
  backend_host_mmio_size :: nat

record DramConfig =
  channel :: nat
  sub_channel :: nat
  channel_size :: nat
  location :: Coord
  initial_dram_offset :: nat

definition get_dram_num_subchannels :: "DeviceConfig \<Rightarrow> nat" where
  "get_dram_num_subchannels d = (if is_grayskull d then 1 else 3)"

definition grayskull_locs :: "Coord list" where
  "grayskull_locs =
     [mk_coord 0 0, mk_coord 5 0, mk_coord 0 3, mk_coord 5 3,
      mk_coord 0 6, mk_coord 5 6, mk_coord 0 9, mk_coord 5 9]"

definition get_location :: "DeviceConfig \<Rightarrow> DramBackend \<Rightarrow> nat \<Rightarrow> nat \<Rightarrow> Coord res" where
  "get_location d be ch subchannel =
     (if is_grayskull d
      then res_bind (tt_assert (ch < length grayskull_locs)) (\<lambda>_. vec_at grayskull_locs ch)
      else if is_wormhole_b0 d
      then let (x, y) = dram_core_coord be ch subchannel in
           Inr (mk_coord (nat (y mod 2 ^ 32)) (nat (x mod 2 ^ 32)))
      else Inl RuntimeError)"

definition get_config :: "DeviceConfig \<Rightarrow> DramBackend \<Rightarrow> DramConfig list res" where
  "get_config d be =
     map_res (\<lambda>(ch, sub).
         res_bind (get_location d be ch sub) (\<lambda>loc.
           Inr \<lparr>channel = ch, sub_channel = sub, channel_size = dram_channel_capacity be,
                location = loc,
                initial_dram_offset =
                  add32 (if is_grayskull d then dram_backend_reserved_max be
                         else dram_backend_reserved be ch) 256\<rparr>))
       (List.product [0..<dram_num_channels be] [0..<get_dram_num_subchannels d])"

record DramQueueConfigOverride =
  dq_chip_id :: "nat option"
  dq_channel :: "nat option"

record DramPlacerConfig =
  dp_device_config :: DeviceConfig
  dram_config :: "DramConfig list"
  input_queues_on_host :: bool
  dp_output_queues_on_host :: bool
  force_disable_dynamic_dram :: bool
  p2p_offset :: nat
  p2p_size :: nat
  host_mmio_range_offset :: nat
  host_mmio_range_size :: nat
  manual_dram_queue_placement :: "(string \<times> DramQueueConfigOverride) list"

definition mk_dram_placer_config ::
    "DeviceConfig \<Rightarrow> DramBackend \<Rightarrow> bool \<Rightarrow> bool \<Rightarrow> bool \<Rightarrow>
     (string \<times> DramQueueConfigOverride) list \<Rightarrow> DramPlacerConfig res" where
  "mk_dram_placer_config d be env_disable_dynamic_dram input_on_host output_on_host manual =
     res_bind (tt_assert (add32 (backend_p2p_offset be) (backend_p2p_size be) = 0x40000000)) (\<lambda>_.
     res_bind (get_config d be) (\<lambda>cfg.
       Inr \<lparr>dp_device_config = d, dram_config = cfg, input_queues_on_host = input_on_host,
            dp_output_queues_on_host = output_on_host,
            force_disable_dynamic_dram = env_disable_dynamic_dram,
            p2p_offset = backend_p2p_offset be, p2p_size = backend_p2p_size be,
            host_mmio_range_offset = backend_host_mmio_offset be,
            host_mmio_range_size = backend_host_mmio_size be,
            manual_dram_queue_placement = manual\<rparr>))"

section \<open>Queues\<close>

datatype QueueNodeType = Input | Output | EpochToEpoch | GradAccumulator | Buffering

record QueueNode =
  node_name :: string
  is_kQueue :: bool
  queue_type :: QueueNodeType
  num_entries :: int
  cross_epoch_type :: bool
  cross_chip_type :: bool

definition is_grad_accumulator :: "QueueNode \<Rightarrow> bool" where
  "is_grad_accumulator q \<longleftrightarrow> queue_type q = GradAccumulator"

definition is_buffering :: "QueueNode \<Rightarrow> bool" where
  "is_buffering q \<longleftrightarrow> queue_type q = Buffering"

type_synonym consumer_map = "(nat \<times> (nat \<times> (Coord \<times> nat) list) list) list"
type_synonym producer_map = "(nat \<times> (nat \<times> (Coord \<times> nat)) list) list"

record QueueDRAMPlacementParameters =
  node :: QueueNode
  param_grid_shape :: GridShape
  consumer_loc :: consumer_map
  producer_loc :: producer_map
  producer_epoch :: nat
  last_consumer_epoch :: nat
  in_p2p_region_soft :: bool
  in_p2p_region_hard :: bool
  param_is_input :: bool
  is_prologue :: bool
  queue_size :: nat

type_synonym DRAMScheduleData = "QueuePlacement \<times> QueueDRAMPlacementParameters"

end
