(* ===== verification/Channel_Picker.thy ===== *)
theory Channel_Picker
  imports Dram_Config
begin

text \<open>
  The channel pickers of \<open>placer/dram_allocator.cpp\<close>: round robin, round robin over two groups of
  channels, greatest capacity, and closest channel. \<open>skip_ch0\<close> and \<open>no_epoch\<close> stand for the
  environment variables \<open>PYBUDA_DISABLE_DRAM0\<close> and \<open>PYBUDA_CLOSEST_NO_EPOCH\<close>. Nodes are
  identified by their name. The iteration order of the unordered containers is the order of the
  lists that stand for them.
\<close>

section \<open>Round robin\<close>

definition rr_start :: "bool \<Rightarrow> nat" where
  "rr_start skip_ch0 = (if skip_ch0 then 1 else 0)"

definition rr_pick :: "bool \<Rightarrow> nat \<Rightarrow> nat \<Rightarrow> (nat \<times> nat) res" where
  "rr_pick skip_ch0 n next_channel =
     res_bind (tt_assert (next_channel < n)) (\<lambda>_.
       let next' = add32 next_channel 1 in
       Inr (next_channel, if next' \<ge> n then rr_start skip_ch0 else next'))"

record ff_group =
  ff_next :: nat
  ff_min :: nat
  ff_max :: nat

definition ff_init :: "bool \<Rightarrow> nat \<Rightarrow> ff_group list" where
  "ff_init skip_ch0 n =
     map (\<lambda>i. let mid = n div 2;
                  lo = (if i = 0 \<or> i = 2 then rr_start skip_ch0 else mid);
                  hi = (if i = 0 then mid else n)
              in \<lparr>ff_next = lo, ff_min = lo, ff_max = hi\<rparr>) [0..<3::nat]"

definition ff_pick ::
    "bool \<Rightarrow> nat \<Rightarrow> QueueDRAMPlacementParameters \<Rightarrow> ff_group list \<Rightarrow> (nat \<times> ff_group list) res" where
  "ff_pick skip_ch0 n parameters groups0 =
     (let g = (if param_is_input parameters then 2 else producer_epoch parameters mod 2);
          groups = (if groups0 = [] then ff_init skip_ch0 n else groups0) in
      res_bind (vec_idx groups g) (\<lambda>grp.
      res_bind (tt_assert (ff_next grp < n)) (\<lambda>_.
        let next' = add32 (ff_next grp) 1 in
        Inr (ff_next grp,
             groups[g := grp\<lparr>ff_next := if next' \<ge> ff_max grp then ff_min grp else next'\<rparr>]))))"

section \<open>Greatest capacity\<close>

text \<open>\<open>largest_capacity\<close> is a \<open>std::uint32_t\<close>, the capacity a \<open>std::size_t\<close>.\<close>

definition greatest_step :: "(nat \<Rightarrow> nat) \<Rightarrow> nat \<Rightarrow> nat \<times> nat \<Rightarrow> nat \<times> nat" where
  "greatest_step capacity i st =
     (let (largest_capacity, selected_channel) = st in
      if capacity i > largest_capacity then (capacity i mod 2 ^ 32, i)
      else (largest_capacity, selected_channel))"

definition greatest_pick :: "(nat \<Rightarrow> nat) \<Rightarrow> nat \<Rightarrow> nat res" where
  "greatest_pick capacity n =
     (let (_, selected_channel) = fold (greatest_step capacity) [0..<n] (0, 0) in
      res_bind (tt_assert (selected_channel < n)) (\<lambda>_. Inr selected_channel))"

section \<open>Closest channel\<close>

definition noc_axis :: "nat \<Rightarrow> nat \<Rightarrow> nat \<Rightarrow> nat" where
  "noc_axis a b extent = (if a \<le> b then sub32 b a else add32 (sub32 extent a) b)"

definition noc_distance :: "Coord \<Rightarrow> Coord \<Rightarrow> GridShape \<Rightarrow> nat \<Rightarrow> nat" where
  "noc_distance s e grid_size noc =
     (let grid_r = rows grid_size + 2; grid_c = columns grid_size + 2 in
      if noc = 0
      then add32 (noc_axis (col s) (col e) grid_c) (noc_axis (row s) (row e) grid_r)
      else add32 (noc_axis (col e) (col s) grid_c) (noc_axis (row e) (row s) grid_r))"

record ClosestPicker =
  current_node :: "string option"
  solution :: "(nat \<times> (nat \<times> nat) list) list"
  unused_channels_in_epoch :: "(nat \<times> nat list) list"
  unused_channels_in_epoch_prologue :: "(nat \<times> nat list) list"

definition closest_reset :: ClosestPicker where
  "closest_reset =
     \<lparr>current_node = None, solution = [], unused_channels_in_epoch = [],
      unused_channels_in_epoch_prologue = []\<rparr>"

definition is_channel_unused :: "nat \<Rightarrow> bool \<Rightarrow> nat list \<Rightarrow> bool \<times> nat" where
  "is_channel_unused ch grayskull unused =
     (if ch \<notin> set unused
      then if \<not> grayskull \<and> ch mod 2 = 0 \<and> add32 ch 1 \<in> set unused then (True, add32 ch 1)
           else (False, ch)
      else (True, ch))"

definition reset_channels :: "DramConfig list \<Rightarrow> bool \<Rightarrow> nat list" where
  "reset_channels cfg grayskull =
     remdups (concat (map (\<lambda>c. if grayskull then [channel c]
                               else [mul32 (channel c) 2, add32 (mul32 (channel c) 2) 1]) cfg))"

type_synonym epoch_channels = "(nat \<times> nat list) list"
type_synonym distances = "(nat \<times> nat) list"

definition lookup_default :: "'v \<Rightarrow> ('k \<times> 'v) list \<Rightarrow> 'k \<Rightarrow> 'v" where
  "lookup_default d m k = (case map_of m k of None \<Rightarrow> d | Some v \<Rightarrow> v)"

definition min_noc :: "Coord \<Rightarrow> Coord \<Rightarrow> GridShape \<Rightarrow> nat" where
  "min_noc s e grid =
     (let noc0 = noc_distance s e grid 0; noc1 = noc_distance s e grid 1 in
      if noc0 < noc1 then noc0 else noc1)"

definition add_distance :: "nat \<Rightarrow> nat \<Rightarrow> distances \<Rightarrow> distances" where
  "add_distance epoch d m = AList.update epoch (add32 (lookup_default 0 m epoch) d) m"

text \<open>
  The check of the channels used per epoch: the \<open>continue\<close> in the source's loop over the epochs
  only continues that loop, so the check never skips a channel; it can only move it to its alias.
\<close>

definition epoch_aliases ::
    "DramConfig list \<Rightarrow> bool \<Rightarrow> nat list \<Rightarrow> nat \<Rightarrow> epoch_channels \<Rightarrow> nat \<times> epoch_channels" where
  "epoch_aliases cfg grayskull used_epochs real_channel epoch_map =
     fold (\<lambda>epoch (ch, m).
         let m' = (if map_of m epoch = None
                   then AList.update epoch (reset_channels cfg grayskull) m else m) in
         (snd (is_channel_unused ch grayskull (lookup_default [] m' epoch)), m'))
       used_epochs (real_channel, epoch_map)"

definition record_best ::
    "nat \<Rightarrow> nat \<times> nat \<Rightarrow> (nat \<times> distances) list \<Rightarrow> (nat \<times> distances) list" where
  "record_best real_channel ed best =
     (let (epoch, d) = ed; known = lookup_default [] best real_channel in
      case map_of known epoch of
        Some d0 \<Rightarrow> if d < d0 then AList.update real_channel (AList.update epoch d known) best
                   else best
      | None \<Rightarrow> AList.update real_channel (AList.update epoch d known) best)"

text \<open>
  One DRAM location in the search for a buffer's channel. The best distances are recorded inside
  the branch that handles the producer, so a queue without a producer records none.
\<close>

definition closest_location ::
    "DramConfig list \<Rightarrow> bool \<Rightarrow> GridShape \<Rightarrow> nat list \<Rightarrow> (Coord \<times> nat) list \<Rightarrow>
     (Coord \<times> nat) option \<Rightarrow> nat list \<Rightarrow> DramConfig \<Rightarrow>
     epoch_channels \<times> (nat \<times> distances) list \<Rightarrow> epoch_channels \<times> (nat \<times> distances) list" where
  "closest_location cfg grayskull grid unused consumers producer used_epochs dram_c st =
     (let (epoch_map, best) = st;
          (is_unused, real0) = is_channel_unused
            (if grayskull then channel dram_c else mul32 (channel dram_c) 2) grayskull unused in
      if \<not> is_unused then st
      else let (real_channel, epoch_map') =
                 epoch_aliases cfg grayskull used_epochs real0 epoch_map;
               d1 = fold (\<lambda>(loc, epoch). add_distance epoch (min_noc (location dram_c) loc grid))
                      consumers [] in
           case producer of
             None \<Rightarrow> (epoch_map', best)
           | Some (loc, epoch) \<Rightarrow>
               (epoch_map',
                fold (record_best real_channel)
                  (add_distance epoch (min_noc loc (location dram_c) grid) d1) best))"

definition best_total :: "(nat \<times> distances) list \<Rightarrow> nat" where
  "best_total best =
     snd (fold (\<lambda>(ch, ds) (total_best_distance, total_best_channel).
            let total = fold (\<lambda>(_, d) t. add32 t d) ds 0 in
            if total < total_best_distance then (total, ch)
            else (total_best_distance, total_best_channel)) best (u32_max, 0))"

definition epoch_map_of :: "bool \<Rightarrow> ClosestPicker \<Rightarrow> epoch_channels" where
  "epoch_map_of prologue p =
     (if prologue then unused_channels_in_epoch_prologue p else unused_channels_in_epoch p)"

definition set_epoch_map :: "bool \<Rightarrow> epoch_channels \<Rightarrow> ClosestPicker \<Rightarrow> ClosestPicker" where
  "set_epoch_map prologue m p =
     (if prologue then p\<lparr>unused_channels_in_epoch_prologue := m\<rparr>
      else p\<lparr>unused_channels_in_epoch := m\<rparr>)"

definition release_channel ::
    "DramConfig list \<Rightarrow> bool \<Rightarrow> bool \<Rightarrow> nat \<Rightarrow> nat \<Rightarrow> epoch_channels \<Rightarrow> epoch_channels" where
  "release_channel cfg grayskull no_epoch best epoch m =
     (let chs = lookup_default [] m epoch;
          chs' = (if no_epoch then chs else removeAll best chs) in
      AList.update epoch (if chs' = [] then reset_channels cfg grayskull else chs') m)"

text \<open>The body of the two nested loops over the buffers of the queue.\<close>

definition closest_buffer ::
    "DramConfig list \<Rightarrow> bool \<Rightarrow> bool \<Rightarrow> GridShape \<Rightarrow> QueueDRAMPlacementParameters \<Rightarrow> nat \<times> nat \<Rightarrow>
     nat list \<times> ClosestPicker \<Rightarrow> (nat list \<times> ClosestPicker) res" where
  "closest_buffer cfg grayskull no_epoch grid ps rc st =
     (let (r, c) = rc; (unused, p) = st in
      res_bind (tt_assert (map_of (consumer_loc ps) r \<noteq> None)) (\<lambda>_.
      res_bind (at_key (consumer_loc ps) r) (\<lambda>consumer_row.
      res_bind (tt_assert (map_of consumer_row c \<noteq> None)) (\<lambda>_.
      res_bind (at_key consumer_row c) (\<lambda>consumers.
      let producer = (case map_of (producer_loc ps) r of None \<Rightarrow> None | Some m \<Rightarrow> map_of m c);
          used_epochs = remdups (map snd consumers @
                          (case producer of None \<Rightarrow> [] | Some (_, e) \<Rightarrow> [e]));
          searched = fold
            (closest_location cfg grayskull grid unused consumers producer used_epochs) cfg
            (epoch_map_of (is_prologue ps) p, []);
          epoch_map = fst searched;
          total_best_channel = best_total (snd searched);
          unused' = removeAll total_best_channel unused;
          unused'' = (if unused' = [] then reset_channels cfg grayskull else unused');
          epoch_map' = fold (release_channel cfg grayskull no_epoch total_best_channel)
                         used_epochs epoch_map;
          p' = set_epoch_map (is_prologue ps) epoch_map' p in
      Inr (unused'',
           p'\<lparr>solution := AList.update r
                 (AList.update c total_best_channel (lookup_default [] (solution p') r))
                 (solution p')\<rparr>))))))"

definition closest_lookup :: "Coord \<Rightarrow> ClosestPicker \<Rightarrow> nat res" where
  "closest_lookup c p =
     res_bind (tt_assert (map_of (solution p) (row c) \<noteq> None)) (\<lambda>_.
     res_bind (at_key (solution p) (row c)) (\<lambda>m.
     res_bind (tt_assert (map_of m (col c) \<noteq> None)) (\<lambda>_. at_key m (col c))))"

definition closest_pick ::
    "DramConfig list \<Rightarrow> bool \<Rightarrow> bool \<Rightarrow> GridShape \<Rightarrow> QueueDRAMPlacementParameters \<Rightarrow> Coord \<Rightarrow>
     ClosestPicker \<Rightarrow> (nat \<times> ClosestPicker) res" where
  "closest_pick cfg grayskull no_epoch grid ps c p =
     res_bind (if current_node p = Some (node_name (node ps)) then Inr p
         else res_bind (fold_res (closest_buffer cfg grayskull no_epoch grid ps)
                (List.product [0..<rows (param_grid_shape ps)] [0..<columns (param_grid_shape ps)])
                (reset_channels cfg grayskull, p))
              (\<lambda>(_, p'). Inr (p'\<lparr>current_node := Some (node_name (node ps))\<rparr>)))
       (\<lambda>p'. res_bind (closest_lookup c p') (\<lambda>ch. Inr (ch, p')))"

section \<open>The picker of an allocator\<close>

datatype DRAMPlacementAlgorithm = ROUND_ROBIN | ROUND_ROBIN_FLIP_FLOP | GREATEST_CAPACITY | CLOSEST

datatype ChannelPicker =
    RoundRobinPicker nat
  | RoundRobinFlipFlopPicker "ff_group list"
  | GreatestCapacityPicker
  | ClosestChannelPicker ClosestPicker

definition new_picker :: "bool \<Rightarrow> DRAMPlacementAlgorithm \<Rightarrow> ChannelPicker" where
  "new_picker skip_ch0 alg =
     (case alg of
        ROUND_ROBIN \<Rightarrow> RoundRobinPicker (rr_start skip_ch0)
      | ROUND_ROBIN_FLIP_FLOP \<Rightarrow> RoundRobinFlipFlopPicker []
      | GREATEST_CAPACITY \<Rightarrow> GreatestCapacityPicker
      | CLOSEST \<Rightarrow> ClosestChannelPicker closest_reset)"

definition reset_picker :: "bool \<Rightarrow> ChannelPicker \<Rightarrow> ChannelPicker" where
  "reset_picker skip_ch0 p =
     (case p of
        RoundRobinPicker _ \<Rightarrow> RoundRobinPicker (rr_start skip_ch0)
      | RoundRobinFlipFlopPicker _ \<Rightarrow> RoundRobinFlipFlopPicker []
      | GreatestCapacityPicker \<Rightarrow> GreatestCapacityPicker
      | ClosestChannelPicker _ \<Rightarrow> ClosestChannelPicker closest_reset)"

text \<open>\<open>pick_channel\<close>, dispatched over the pickers; \<open>grid\<close> is the device's grid size.\<close>

definition pick_channel ::
    "bool \<Rightarrow> bool \<Rightarrow> GridShape \<Rightarrow> DramPlacerConfig \<Rightarrow> QueueDRAMPlacementParameters \<Rightarrow> Coord \<Rightarrow>
     Blocks list \<Rightarrow> ChannelPicker \<Rightarrow> (nat \<times> ChannelPicker) res" where
  "pick_channel skip_ch0 no_epoch grid cfg ps c chans p =
     (case p of
        RoundRobinPicker next_channel \<Rightarrow>
          res_bind (rr_pick skip_ch0 (length chans) next_channel)
            (\<lambda>(i, nxt). Inr (i, RoundRobinPicker nxt))
      | RoundRobinFlipFlopPicker groups \<Rightarrow>
          res_bind (ff_pick skip_ch0 (length chans) ps groups)
            (\<lambda>(i, gs). Inr (i, RoundRobinFlipFlopPicker gs))
      | GreatestCapacityPicker \<Rightarrow>
          res_bind (greatest_pick (\<lambda>i. get_capacity (chans ! i)) (length chans))
            (\<lambda>i. Inr (i, GreatestCapacityPicker))
      | ClosestChannelPicker q \<Rightarrow>
          res_bind (closest_pick (dram_config cfg) (is_grayskull (dp_device_config cfg)) no_epoch
                      grid ps c q)
            (\<lambda>(i, q'). Inr (i, ClosestChannelPicker q')))"

end
