(* ===== verification/Dram_Allocator.thy ===== *)
theory Dram_Allocator
  imports Channel_Picker
begin

text \<open>
  \<open>DramAllocator\<close> of \<open>placer/dram_allocator.cpp\<close>: one channel allocator per (virtual) channel, one
  for the peer-to-peer region, and a channel picker. A queue is placed as one buffer per core of
  its grid; \<open>allocate_queues\<close> places the static queues first and then the dynamic ones, epoch by
  epoch. Channel allocators and pickers are the classes of \<open>Best_Fit\<close> and \<open>Channel_Picker\<close>. Logging is left out.
\<close>

record DramAllocator =
  dram_cfg :: DramPlacerConfig
  allocator_chip_id :: nat
  channel_allocators :: "Blocks list"
  p2p_allocator :: Blocks
  channel_picker :: ChannelPicker

text \<open>The environment of an allocator: two variables and the device's grid size.\<close>

record DramEnv =
  PYBUDA_DISABLE_DRAM0 :: bool
  PYBUDA_CLOSEST_NO_EPOCH :: bool
  dram_grid_size :: GridShape

section \<open>Construction\<close>

text \<open>The first entry of every channel, sub-channels skipped.\<close>

primrec first_per_channel :: "nat list \<Rightarrow> DramConfig list \<Rightarrow> DramConfig list" where
  "first_per_channel seen [] = []"
| "first_per_channel seen (c # cs) =
     (if channel c \<in> set seen then first_per_channel seen cs
      else c # first_per_channel (channel c # seen) cs)"

definition default_blocks :: "DramPlacerConfig \<Rightarrow> Blocks list" where
  "default_blocks cfg =
     concat (map (\<lambda>_. if is_wormhole_b0 (dp_device_config cfg)
                      then [empty_blocks, empty_blocks] else [empty_blocks])
              (first_per_channel [] (dram_config cfg))) @ [empty_blocks]"

definition channel_blocks ::
    "DramPlacerConfig \<Rightarrow> nat \<Rightarrow> Blocks list \<Rightarrow> DramConfig \<Rightarrow> Blocks list res" where
  "channel_blocks cfg limit_top_address allocated c =
     (if is_wormhole_b0 (dp_device_config cfg)
      then res_bind (vec_idx allocated (mul32 2 (channel c))) (\<lambda>lower.
           res_bind (vec_idx allocated (add32 (mul32 2 (channel c)) 1)) (\<lambda>upper.
             Inr [best_fit_init (initial_dram_offset c) (sub64 (channel_size c div 2) 1) lower,
                  best_fit_init (max (initial_dram_offset c) (channel_size c div 2))
                    (sub64 (sub64 (channel_size c) 1) limit_top_address) upper]))
      else res_bind (vec_idx allocated (channel c)) (\<lambda>blocks.
             Inr [best_fit_init (initial_dram_offset c) (sub64 (channel_size c) 1) blocks]))"

definition mk_dram_allocator ::
    "DramEnv \<Rightarrow> DramPlacerConfig \<Rightarrow> nat \<Rightarrow> Blocks list \<Rightarrow> DRAMPlacementAlgorithm \<Rightarrow> DramAllocator res"
where
  "mk_dram_allocator env cfg chip allocated0 alg =
     (let allocated = (if allocated0 = [] then default_blocks cfg else allocated0);
          (offset, size) = (if chip = 0 then (host_mmio_range_offset cfg, host_mmio_range_size cfg)
                            else (p2p_offset cfg, p2p_size cfg));
          limit_top_address = (if is_blackhole (dp_device_config cfg) then 16 * 1024 * 1024 else 0) in
      res_bind (vec_idx (dram_config cfg) 0) (\<lambda>c0.
      res_bind (vec_idx allocated 0) (\<lambda>blocks0.
      let first = best_fit_init (initial_dram_offset c0) (sub64 offset 1) blocks0;
          second = (if is_wormhole_b0 (dp_device_config cfg)
            then [best_fit_init (max (add64 offset size) (initial_dram_offset c0))
                    (sub64 (sub64 (channel_size c0) 1) limit_top_address) blocks0]
            else []) in
      res_bind (map_res (channel_blocks cfg limit_top_address allocated)
                  (first_per_channel [0] (dram_config cfg))) (\<lambda>rest.
        Inr \<lparr>dram_cfg = cfg, allocator_chip_id = chip,
             channel_allocators = first # second @ concat rest,
             p2p_allocator = best_fit_init offset (sub64 (add64 offset size) 1) (last allocated),
             channel_picker = new_picker (PYBUDA_DISABLE_DRAM0 env) alg\<rparr>))))"

definition get_blocks :: "DramAllocator \<Rightarrow> Blocks list" where
  "get_blocks a = channel_allocators a @ [p2p_allocator a]"

definition get_dram_free_space :: "DramAllocator \<Rightarrow> nat \<times> nat" where
  "get_dram_free_space a =
     (fold (\<lambda>B regular. add64 regular (get_capacity B)) (channel_allocators a) 0,
      add64 0 (get_capacity (p2p_allocator a)))"

definition reset_dram_allocator :: "DramEnv \<Rightarrow> DramAllocator \<Rightarrow> DramAllocator res" where
  "reset_dram_allocator env a =
     res_bind (map_res clear_allocated_blocks (channel_allocators a)) (\<lambda>chans.
     res_bind (clear_allocated_blocks (p2p_allocator a)) (\<lambda>p2p.
       Inr (a\<lparr>channel_allocators := chans, p2p_allocator := p2p,
              channel_picker := reset_picker (PYBUDA_DISABLE_DRAM0 env) (channel_picker a)\<rparr>)))"

section \<open>The buffers of one queue\<close>

definition create_buffer_placement ::
    "DramPlacerConfig \<Rightarrow> nat \<Rightarrow> nat \<Rightarrow> nat \<Rightarrow> bool \<Rightarrow> QueueBufferPlacement res" where
  "create_buffer_placement cfg virtual_channel channel_address sz in_p2p_region =
     (let real_channel = (if is_wormhole_b0 (dp_device_config cfg)
                          then virtual_channel div 2 else virtual_channel) in
      res_bind (vec_idx (dram_config cfg) real_channel) (\<lambda>c.
        Inr \<lparr>dram_channel = virtual_channel, dram_address = channel_address,
             dram_channel_location = location c, buffer_size = sz,
             allocated_in_p2p_region = in_p2p_region\<rparr>))"

text \<open>
  The attempts of \<open>allocate_buffers\<close>: \<open>attempts\<close> channels remain to be tried, the next one is
  \<open>sel\<close>. \<open>alloc\<close> is the virtual method \<open>ChannelAllocator::allocate\<close>.
\<close>

primrec try_channels ::
    "('s \<Rightarrow> nat \<Rightarrow> nat option \<times> 's) \<Rightarrow> nat \<Rightarrow> nat \<Rightarrow> nat \<Rightarrow> 's list \<Rightarrow> (nat \<times> nat) option \<times> 's list"
where
  "try_channels alloc sz 0 sel chans = (None, chans)"
| "try_channels alloc sz (Suc attempts) sel chans =
     (case alloc (chans ! sel) sz of
        (Some addr, B) \<Rightarrow> (Some (sel, addr), chans[sel := B])
      | (None, B) \<Rightarrow>
          if attempts = 0 then (None, chans[sel := B])
          else try_channels alloc sz attempts ((sel + 1) mod length chans) (chans[sel := B]))"

definition select_channel ::
    "DramEnv \<Rightarrow> QueueDRAMPlacementParameters \<Rightarrow> Coord \<Rightarrow> DramAllocator \<Rightarrow> (nat \<times> DramAllocator) res" where
  "select_channel env ps c a =
     (case Option.bind (map_of (manual_dram_queue_placement (dram_cfg a)) (node_name (node ps)))
             dq_channel of
        Some selected \<Rightarrow> Inr (selected, a)
      | None \<Rightarrow>
          res_bind (pick_channel (PYBUDA_DISABLE_DRAM0 env) (PYBUDA_CLOSEST_NO_EPOCH env)
                      (dram_grid_size env) (dram_cfg a) ps c (channel_allocators a)
                      (channel_picker a))
            (\<lambda>(i, p). Inr (i, a\<lparr>channel_picker := p\<rparr>)))"

text \<open>One buffer: nothing when \<open>allocate_buffers\<close> gives up.\<close>

definition allocate_regular ::
    "DramEnv \<Rightarrow> QueueDRAMPlacementParameters \<Rightarrow> Coord \<Rightarrow> DramAllocator \<Rightarrow>
     (QueueBufferPlacement option \<times> DramAllocator) res" where
  "allocate_regular env ps c a =
     res_bind (select_channel env ps c a) (\<lambda>(selected, a1).
     res_bind (tt_assert (selected < length (channel_allocators a1))) (\<lambda>_.
       case try_channels allocate (queue_size ps) (length (channel_allocators a1)) selected
              (channel_allocators a1) of
         (None, chans) \<Rightarrow> Inr (None, a1\<lparr>channel_allocators := chans\<rparr>)
       | (Some (sel, addr), chans) \<Rightarrow>
           res_bind (create_buffer_placement (dram_cfg a1) sel addr (queue_size ps) False)
             (\<lambda>b. Inr (Some b, a1\<lparr>channel_allocators := chans\<rparr>))))"

definition allocate_cell ::
    "DramEnv \<Rightarrow> QueueDRAMPlacementParameters \<Rightarrow> Coord \<Rightarrow> DramAllocator \<Rightarrow>
     (QueueBufferPlacement option \<times> DramAllocator) res" where
  "allocate_cell env ps c a =
     (if in_p2p_region_soft ps \<or> in_p2p_region_hard ps
      then (case allocate (p2p_allocator a) (queue_size ps) of
              (Some addr, B) \<Rightarrow>
                res_bind (create_buffer_placement (dram_cfg a) 0 addr (queue_size ps) True)
                  (\<lambda>b. Inr (Some b, a\<lparr>p2p_allocator := B\<rparr>))
            | (None, B) \<Rightarrow>
                if in_p2p_region_hard ps then Inr (None, a\<lparr>p2p_allocator := B\<rparr>)
                else allocate_regular env ps c (a\<lparr>p2p_allocator := B\<rparr>))
      else allocate_regular env ps c a)"

primrec allocate_cells ::
    "DramEnv \<Rightarrow> QueueDRAMPlacementParameters \<Rightarrow> (nat \<times> nat) list \<Rightarrow> QueueBufferPlacement list \<Rightarrow>
     DramAllocator \<Rightarrow> ((bool \<times> QueueBufferPlacement list) \<times> DramAllocator) res" where
  "allocate_cells env ps [] bufs a = Inr ((True, bufs), a)"
| "allocate_cells env ps (rc # rcs) bufs a =
     res_bind (allocate_cell env ps (mk_coord (fst rc) (snd rc)) a) (\<lambda>(b, a').
       case b of
         None \<Rightarrow> Inr ((False, bufs), a')
       | Some buf \<Rightarrow> allocate_cells env ps rcs (bufs @ [buf]) a')"

definition allocate_buffers ::
    "DramEnv \<Rightarrow> QueueDRAMPlacementParameters \<Rightarrow> DramAllocator \<Rightarrow>
     ((bool \<times> QueueBufferPlacement list) \<times> DramAllocator) res" where
  "allocate_buffers env ps a =
     res_bind (tt_assert (queue_size ps > 0)) (\<lambda>_.
       allocate_cells env ps
         (List.product [0..<rows (param_grid_shape ps)] [0..<columns (param_grid_shape ps)]) [] a)"

definition deallocate_buffer :: "QueueBufferPlacement \<Rightarrow> DramAllocator \<Rightarrow> DramAllocator res" where
  "deallocate_buffer b a =
     (if allocated_in_p2p_region b
      then res_bind (deallocate (p2p_allocator a) (dram_address b)) (\<lambda>B.
             Inr (a\<lparr>p2p_allocator := B\<rparr>))
      else res_bind (vec_at (channel_allocators a) (dram_channel b)) (\<lambda>ch.
           res_bind (deallocate ch (dram_address b)) (\<lambda>B.
             Inr (a\<lparr>channel_allocators := (channel_allocators a)[dram_channel b := B]\<rparr>))))"

definition deallocate_buffers :: "QueuePlacement \<Rightarrow> DramAllocator \<Rightarrow> DramAllocator res" where
  "deallocate_buffers q a =
     res_bind (tt_assert (dram_buffers q \<noteq> [])) (\<lambda>_. fold_res deallocate_buffer (dram_buffers q) a)"

section \<open>All queues of a chip\<close>

definition is_static_queue :: "bool \<Rightarrow> int \<Rightarrow> QueueNode \<Rightarrow> bool \<Rightarrow> bool" where
  "is_static_queue disable_dynamic_dram microbatch_size q inp =
     (let force_dynamic_dram = is_buffering q \<and> num_entries q < microbatch_size;
          e2e = is_kQueue q \<and> queue_type q = EpochToEpoch in
      (\<not> force_dynamic_dram \<and> disable_dynamic_dram) \<or> inp \<or> (e2e \<and> cross_epoch_type q) \<or>
      (e2e \<and> cross_chip_type q) \<or> is_grad_accumulator q)"

text \<open>
  The static pass. \<open>std::sort\<close> leaves the order of queues of equal size open; here it is the
  given one. The result is None when an allocation fails and the function returns false.
\<close>

definition sort_by_size :: "DRAMScheduleData list \<Rightarrow> DRAMScheduleData list" where
  "sort_by_size qs = sort_key (\<lambda>(_, ps). - int (queue_size ps)) qs"

primrec static_pass ::
    "DramEnv \<Rightarrow> bool \<Rightarrow> int \<Rightarrow> nat list \<Rightarrow> DRAMScheduleData list \<Rightarrow> nat list \<Rightarrow> DramAllocator \<Rightarrow>
     ((bool \<times> DRAMScheduleData list \<times> nat list) \<times> DramAllocator) res" where
  "static_pass env dis mb [] qs dynamic_queues a = Inr ((True, qs, dynamic_queues), a)"
| "static_pass env dis mb (i # is) qs dynamic_queues a =
     (let (q, ps) = qs ! i in
      if is_static_queue dis mb (node ps) (param_is_input ps)
      then res_bind (allocate_buffers env ps a) (\<lambda>((ok, bufs), a').
             if \<not> ok then Inr ((False, qs, dynamic_queues), a')
             else static_pass env dis mb is (qs[i := (q\<lparr>dram_buffers := bufs\<rparr>, ps)])
                    dynamic_queues a')
      else static_pass env dis mb is qs (dynamic_queues @ [i]) a)"

text \<open>
  The schedule of the dynamic queues: per epoch, the queues to allocate (a multiset ordered by
  their last consumer epoch, equal ones in insertion order) and those to free. A queue is the
  index of its entry.
\<close>

fun insert_by_consumer :: "(nat \<Rightarrow> nat) \<Rightarrow> nat \<Rightarrow> nat list \<Rightarrow> nat list" where
  "insert_by_consumer key q [] = [q]"
| "insert_by_consumer key q (x # xs) =
     (if key q < key x then q # x # xs else x # insert_by_consumer key q xs)"

definition schedule_queue ::
    "DRAMScheduleData list \<Rightarrow> nat \<Rightarrow> (nat \<times> nat list \<times> nat list) list \<Rightarrow>
     (nat \<times> nat list \<times> nat list) list" where
  "schedule_queue qs i m =
     (let ps = snd (qs ! i);
          (al, fr) = lookup_default ([], []) m (producer_epoch ps);
          m1 = omap_insert (producer_epoch ps)
                 (insert_by_consumer (\<lambda>j. last_consumer_epoch (snd (qs ! j))) i al, fr) m;
          (al2, fr2) = lookup_default ([], []) m1 (last_consumer_epoch ps)
      in omap_insert (last_consumer_epoch ps) (al2, fr2 @ [i]) m1)"

primrec allocate_dynamic ::
    "DramEnv \<Rightarrow> nat list \<Rightarrow> DRAMScheduleData list \<Rightarrow> DramAllocator \<Rightarrow>
     ((bool \<times> DRAMScheduleData list) \<times> DramAllocator) res" where
  "allocate_dynamic env [] qs a = Inr ((True, qs), a)"
| "allocate_dynamic env (i # is) qs a =
     (let (q, ps) = qs ! i in
      res_bind (allocate_buffers env ps a) (\<lambda>((ok, bufs), a').
        if \<not> ok then Inr ((False, qs), a')
        else allocate_dynamic env is
               (qs[i := (q\<lparr>dram_buffers := bufs, epoch_allocate := to_int32 (producer_epoch ps)\<rparr>, ps)]) a'))"

definition free_dynamic ::
    "nat list \<Rightarrow> DRAMScheduleData list \<Rightarrow> DramAllocator \<Rightarrow> (DRAMScheduleData list \<times> DramAllocator) res"
where
  "free_dynamic is qs a =
     fold_res (\<lambda>i (qs, a). let (q, ps) = qs ! i in
         res_bind (deallocate_buffers q a) (\<lambda>a'.
           Inr (qs[i := (q\<lparr>epoch_deallocate := to_int32 (last_consumer_epoch ps)\<rparr>, ps)], a')))
       is (qs, a)"

primrec run_epochs ::
    "DramEnv \<Rightarrow> (nat \<times> nat list \<times> nat list) list \<Rightarrow> DRAMScheduleData list \<Rightarrow> DramAllocator \<Rightarrow>
     ((bool \<times> DRAMScheduleData list) \<times> DramAllocator) res" where
  "run_epochs env [] qs a = Inr ((True, qs), a)"
| "run_epochs env (ep # eps) qs a =
     (let (_, to_allocate, to_free) = ep in
      res_bind (allocate_dynamic env to_allocate qs a) (\<lambda>((ok, qs1), a1).
        if \<not> ok then Inr ((False, qs1), a1)
        else res_bind (free_dynamic to_free qs1 a1) (\<lambda>(qs2, a2). run_epochs env eps qs2 a2)))"

definition halve_channels :: "QueuePlacement \<Rightarrow> QueuePlacement" where
  "halve_channels q =
     q\<lparr>dram_buffers := map (\<lambda>b. b\<lparr>dram_channel := dram_channel b div 2\<rparr>) (dram_buffers q)\<rparr>"

text \<open>\<open>allocate_queues\<close>: the flag it returns, the updated schedule and the allocator.\<close>

definition allocate_queues ::
    "DramEnv \<Rightarrow> DRAMScheduleData list \<Rightarrow> bool \<Rightarrow> int \<Rightarrow> DramAllocator \<Rightarrow>
     ((bool \<times> DRAMScheduleData list) \<times> DramAllocator) res" where
  "allocate_queues env qs0 disable_dynamic_dram microbatch_size a0 =
     (let qs = sort_by_size qs0 in
      res_bind (static_pass env disable_dynamic_dram microbatch_size [0..<length qs] qs [] a0)
        (\<lambda>((ok, qs1, dynamic_queues), a1).
      if \<not> ok then Inr ((False, qs1), a1)
      else res_bind (run_epochs env (fold (schedule_queue qs1) dynamic_queues []) qs1 a1)
             (\<lambda>((ok2, qs2), a2).
           if \<not> ok2 then Inr ((False, qs2), a2)
           else Inr ((True, if is_wormhole_b0 (dp_device_config (dram_cfg a2))
                            then map (\<lambda>(q, ps). (halve_channels q, ps)) qs2 else qs2), a2))))"

end
