(* ===== verification/Channel_Picker_Facts.thy ===== *)
theory Channel_Picker_Facts
  imports Channel_Picker
begin

text \<open>
  The contract of \<open>ChannelPicker::pick_channel\<close> as the allocator uses it (a channel that exists),
  and what each picker adds to it: round robin visits the channels in turn, the greatest-capacity
  picker finds the maximum as long as capacities fit 32 bits, and the closest-channel picker
  ignores queues without a producer.
\<close>

section \<open>The contract\<close>

locale picker_contract =
  fixes pick :: "nat \<Rightarrow> 'q \<Rightarrow> 'p \<Rightarrow> (nat \<times> 'p) res"
    and pok :: "nat \<Rightarrow> 'p \<Rightarrow> bool"
  assumes pick_in_range: "pok n p \<Longrightarrow> \<exists>i p'. pick n q p = Inr (i, p') \<and> i < n \<and> pok n p'"
begin

lemma picks_in_range:
  assumes "pok n p"
  shows "\<exists>is p'. fold_res (\<lambda>q (is, p). res_bind (pick n q p) (\<lambda>(i, p'). Inr (is @ [i], p'))) qs (acc, p)
           = Inr (acc @ is, p') \<and> length is = length qs \<and> (\<forall>i \<in> set is. i < n) \<and> pok n p'"
  using assms
proof (induction qs arbitrary: acc p)
  case (Cons q qs)
  from pick_in_range [OF Cons.prems, of q] obtain i p1 where
    p1: "pick n q p = Inr (i, p1)" "i < n" "pok n p1" by blast
  from Cons.IH [OF p1(3), of "acc @ [i]"] obtain "is" p2 where
    "fold_res (\<lambda>q (is, p). res_bind (pick n q p) (\<lambda>(i, p'). Inr (is @ [i], p'))) qs (acc @ [i], p1)
       = Inr ((acc @ [i]) @ is, p2)" "length is = length qs" "\<forall>i \<in> set is. i < n" "pok n p2" by blast
  then show ?case using p1 by (intro exI [of _ "i # is"] exI [of _ p2]) simp
qed simp

end

section \<open>Round robin\<close>

definition rr_ok :: "bool \<Rightarrow> nat \<Rightarrow> nat \<Rightarrow> bool" where
  "rr_ok skip_ch0 n p \<longleftrightarrow> rr_start skip_ch0 \<le> p \<and> p < n \<and> n < 2 ^ 32"

lemma rr_pick_ok:
  assumes "rr_ok skip_ch0 n p"
  shows "rr_pick skip_ch0 n p =
    Inr (p, if p + 1 \<ge> n then rr_start skip_ch0 else p + 1)"
proof -
  have "add32 p 1 = p + 1" using assms by (intro add32_exact) (auto simp: rr_ok_def)
  then show ?thesis using assms by (simp add: rr_pick_def rr_ok_def)
qed

interpretation round_robin: picker_contract "\<lambda>n (_ :: unit) p. rr_pick skip_ch0 n p" "rr_ok skip_ch0"
proof
  fix n p and q :: unit
  assume "rr_ok skip_ch0 n p"
  then show "\<exists>i p'. rr_pick skip_ch0 n p = Inr (i, p') \<and> i < n \<and> rr_ok skip_ch0 n p'"
    by (auto simp: rr_pick_ok) (auto simp: rr_ok_def)
qed

text \<open>The \<open>k\<close>-th next channel of the cycle through \<open>lo, \<dots>, n - 1\<close>.\<close>

definition rr_nth :: "nat \<Rightarrow> nat \<Rightarrow> nat \<Rightarrow> nat \<Rightarrow> nat" where
  "rr_nth lo n p k = lo + (p - lo + k) mod (n - lo)"

lemma rr_nth_step:
  assumes "lo \<le> p" "p < n"
  shows "rr_nth lo n (if p + 1 \<ge> n then lo else p + 1) k = rr_nth lo n p (Suc k)"
proof (cases "p + 1 \<ge> n")
  case True
  then have eq: "p - lo + Suc k = k + (n - lo)" using assms by linarith
  have "(p - lo + Suc k) mod (n - lo) = k mod (n - lo)" unfolding eq by (rule mod_add_self2)
  with True show ?thesis by (simp add: rr_nth_def)
next
  case False
  then have "p + 1 - lo + k = p - lo + Suc k" using assms by linarith
  with False show ?thesis by (simp add: rr_nth_def)
qed

lemma rr_sequence:
  assumes "rr_ok skip_ch0 n p"
  shows "\<exists>p'. fold_res (\<lambda>_ (is, p). res_bind (rr_pick skip_ch0 n p) (\<lambda>(i, p'). Inr (is @ [i], p')))
           [0..<m] (acc, p) =
         Inr (acc @ map (rr_nth (rr_start skip_ch0) n p) [0..<m], p')"
proof -
  let ?f = "\<lambda>(_::nat) (is, p). res_bind (rr_pick skip_ch0 n p) (\<lambda>(i, p'). Inr (is @ [i], p'))"
  have "\<exists>p'. fold_res ?f xs (acc, p) =
      Inr (acc @ map (rr_nth (rr_start skip_ch0) n p) [0..<length xs], p')"
    if "rr_ok skip_ch0 n p" for xs acc p
    using that
  proof (induction xs arbitrary: acc p)
    case (Cons x xs)
    let ?p1 = "if p + 1 \<ge> n then rr_start skip_ch0 else p + 1"
    have pick: "rr_pick skip_ch0 n p = Inr (p, ?p1)" by (rule rr_pick_ok [OF Cons.prems])
    have p: "rr_start skip_ch0 \<le> p" "p < n" using Cons.prems by (auto simp: rr_ok_def)
    have "rr_ok skip_ch0 n ?p1" using Cons.prems by (auto simp: rr_ok_def)
    from Cons.IH [OF this, of "acc @ [p]"] obtain p' where
      IH: "fold_res ?f xs (acc @ [p], ?p1) =
        Inr ((acc @ [p]) @ map (rr_nth (rr_start skip_ch0) n ?p1) [0..<length xs], p')" by blast
    have "rr_nth (rr_start skip_ch0) n p 0 = p" using p by (simp add: rr_nth_def)
    moreover have "map (rr_nth (rr_start skip_ch0) n ?p1) [0..<length xs] =
        map (rr_nth (rr_start skip_ch0) n p) [Suc 0..<Suc (length xs)]"
      unfolding rr_nth_step [OF p] map_Suc_upt [symmetric] by simp
    ultimately have "[p] @ map (rr_nth (rr_start skip_ch0) n ?p1) [0..<length xs] =
        map (rr_nth (rr_start skip_ch0) n p) [0..<length (x # xs)]"
      by (simp add: upt_conv_Cons del: upt_Suc)
    with IH pick show ?case by (simp del: upt_Suc)
  qed simp
  from this [OF assms, of "[0..<m]"] show ?thesis by simp
qed

section \<open>Two groups\<close>

definition ff_ok :: "bool \<Rightarrow> nat \<Rightarrow> ff_group list \<Rightarrow> bool" where
  "ff_ok skip_ch0 n gs \<longleftrightarrow>
     rr_start skip_ch0 < n \<and> n < 2 ^ 32 \<and>
     (gs = [] \<or> length gs = 3 \<and> (\<forall>g \<in> set gs. ff_next g < n \<and> ff_min g < n \<and> ff_max g \<le> n))"

lemma ff_init_ok: "rr_start skip_ch0 < n \<Longrightarrow> n < 2 ^ 32 \<Longrightarrow> ff_ok skip_ch0 n (ff_init skip_ch0 n)"
  by (auto simp: ff_ok_def ff_init_def Let_def)

interpretation flip_flop: picker_contract "ff_pick skip_ch0" "ff_ok skip_ch0"
proof
  fix n gs0 and q :: QueueDRAMPlacementParameters
  assume gs0: "ff_ok skip_ch0 n gs0"
  define gs where "gs = (if gs0 = [] then ff_init skip_ch0 n else gs0)"
  define g where "g = (if param_is_input q then 2 else producer_epoch q mod 2)"
  have gs: "ff_ok skip_ch0 n gs" "gs \<noteq> []"
    using gs0 ff_init_ok [of skip_ch0 n] by (auto simp: gs_def ff_ok_def ff_init_def)
  then have len: "length gs = 3" and n: "n < 2 ^ 32"
    and all: "\<forall>g \<in> set gs. ff_next g < n \<and> ff_min g < n \<and> ff_max g \<le> n"
    by (auto simp: ff_ok_def)
  have "producer_epoch q mod 2 < 2" by (rule mod_less_divisor) simp
  then have g: "g < length gs" using len by (auto simp: g_def)
  have grp: "ff_next (gs ! g) < n" "ff_min (gs ! g) < n" "ff_max (gs ! g) \<le> n"
    using all g by (auto simp: all_set_conv_all_nth)
  have add: "add32 (ff_next (gs ! g)) 1 = ff_next (gs ! g) + 1"
    by (rule add32_exact) (use grp(1) n in linarith)
  let ?nxt = "if ff_next (gs ! g) + 1 \<ge> ff_max (gs ! g) then ff_min (gs ! g)
              else ff_next (gs ! g) + 1"
  let ?gs' = "gs[g := (gs ! g)\<lparr>ff_next := ?nxt\<rparr>]"
  have "ff_pick skip_ch0 n q gs0 = Inr (ff_next (gs ! g), ?gs')"
    using g grp by (simp add: ff_pick_def gs_def [symmetric] g_def [symmetric] add Let_def del: One_nat_def)
  moreover have "?nxt < n" using grp by auto
  then have "ff_ok skip_ch0 n ?gs'"
    using gs(1) len all grp
    by (auto simp: ff_ok_def dest: set_update_subset_insert [THEN subsetD])
  ultimately show "\<exists>i p'. ff_pick skip_ch0 n q gs0 = Inr (i, p') \<and> i < n \<and> ff_ok skip_ch0 n p'"
    using grp(1) by blast
qed

section \<open>Greatest capacity\<close>

lemma greatest_scan:
  "let (l, s) = fold (greatest_step capacity) [0..<m] (0, 0) in
     (m > 0 \<longrightarrow> s < m) \<and>
     ((\<forall>i < m. capacity i < 2 ^ 32) \<longrightarrow>
        (\<forall>i < m. capacity i \<le> l) \<and> (l \<noteq> 0 \<longrightarrow> capacity s = l \<and> (\<forall>i < s. capacity i < l)) \<and>
        (l = 0 \<longrightarrow> s = 0))"
proof (induction m)
  case (Suc m)
  obtain l s where ls: "fold (greatest_step capacity) [0..<m] (0, 0) = (l, s)" by fastforce
  have IH: "m > 0 \<Longrightarrow> s < m" "\<forall>i < m. capacity i < 2 ^ 32 \<Longrightarrow> (\<forall>i < m. capacity i \<le> l) \<and>
      (l \<noteq> 0 \<longrightarrow> capacity s = l \<and> (\<forall>i < s. capacity i < l)) \<and> (l = 0 \<longrightarrow> s = 0)"
    using Suc [unfolded ls Let_def prod.case] by blast+
  have new: "fold (greatest_step capacity) [0..<Suc m] (0, 0) =
      (if capacity m > l then (capacity m mod 2 ^ 32, m) else (l, s))"
    using ls by (simp add: greatest_step_def)
  show ?case
  proof (cases "capacity m > l")
    case True
    have "(\<forall>i < Suc m. capacity i \<le> capacity m) \<and> (\<forall>i < m. capacity i < capacity m)"
      if "\<forall>i < Suc m. capacity i < 2 ^ 32"
    proof -
      have "\<forall>i < m. capacity i \<le> l" using IH(2) that by (meson less_SucI)
      then have "\<forall>i < m. capacity i < capacity m" using True by (meson le_less_trans)
      then show ?thesis by (auto simp: less_Suc_eq)
    qed
    moreover have "capacity m mod 2 ^ 32 = capacity m" if "\<forall>i < Suc m. capacity i < 2 ^ 32"
      using that by (meson lessI mod_less)
    ultimately show ?thesis
      using True by (simp only: new Let_def prod.case if_True) auto
  next
    case False
    have "(\<forall>i < Suc m. capacity i \<le> l) \<and>
        (l \<noteq> 0 \<longrightarrow> capacity s = l \<and> (\<forall>i < s. capacity i < l)) \<and> (l = 0 \<longrightarrow> s = 0)"
      if "\<forall>i < Suc m. capacity i < 2 ^ 32"
    proof -
      have "\<forall>i < m. capacity i < 2 ^ 32" using that by (meson less_SucI)
      from IH(2) [OF this] False show ?thesis by (metis less_Suc_eq not_less)
    qed
    moreover have "s < Suc m"
    proof (cases "m = 0")
      case True
      with ls show ?thesis by simp
    qed (use IH(1) in simp)
    ultimately show ?thesis unfolding new if_not_P [OF False] Let_def prod.case by blast
  qed
qed simp

interpretation greatest: picker_contract
  "\<lambda>n capacity (_ :: unit). res_bind (greatest_pick capacity n) (\<lambda>i. Inr (i, ()))" "\<lambda>n _. 0 < n"
proof
  fix n :: nat and p :: unit and q :: "nat \<Rightarrow> nat"
  assume "0 < n"
  with greatest_scan [of q n] show "\<exists>i p'. res_bind (greatest_pick q n) (\<lambda>i. Inr (i, ())) = Inr (i, p') \<and>
      i < n \<and> 0 < n"
    by (auto simp: greatest_pick_def)
qed

section \<open>Closest channel\<close>

text \<open>
  The closest channel picker computes the channels of all buffers of a queue when it is asked for the
  first one, and answers from its solution as long as it is asked for the same queue. It returns a
  channel when every buffer has a consumer location and the configured channels exist.
\<close>

definition closest_channels :: "DramConfig list \<Rightarrow> bool \<Rightarrow> nat \<Rightarrow> bool" where
  "closest_channels cfg grayskull n \<longleftrightarrow> 0 < n \<and> n < 2 ^ 32 \<and>
     (\<forall>d \<in> set cfg. if grayskull then channel d < n else 2 * channel d + 1 < n)"

definition consumers_known :: "QueueDRAMPlacementParameters \<Rightarrow> bool" where
  "consumers_known ps \<longleftrightarrow>
     (\<forall>r < rows (param_grid_shape ps). \<forall>c < columns (param_grid_shape ps).
        \<exists>m. map_of (consumer_loc ps) r = Some m \<and> map_of m c \<noteq> None)"

definition solved :: "ClosestPicker \<Rightarrow> nat \<Rightarrow> nat \<Rightarrow> bool" where
  "solved p r c \<longleftrightarrow> (\<exists>m. map_of (solution p) r = Some m \<and> map_of m c \<noteq> None)"

definition solved_queue :: "QueueDRAMPlacementParameters \<Rightarrow> ClosestPicker \<Rightarrow> bool" where
  "solved_queue ps p \<longleftrightarrow>
     (\<forall>r < rows (param_grid_shape ps). \<forall>c < columns (param_grid_shape ps). solved p r c)"

text \<open>All channels of the solution exist.\<close>

definition closest_ok :: "nat \<Rightarrow> ClosestPicker \<Rightarrow> bool" where
  "closest_ok n p \<longleftrightarrow> (\<forall>r m c i. map_of (solution p) r = Some m \<longrightarrow> map_of m c = Some i \<longrightarrow> i < n)"

definition aliases :: "bool \<Rightarrow> nat \<Rightarrow> nat set" where
  "aliases grayskull base = (if grayskull then {base} else {base, base + 1})"

lemma unused_alias:
  assumes "x \<in> aliases gs base" "gs \<or> even base" "base + 1 < 2 ^ 32"
  shows "snd (is_channel_unused x gs unused) \<in> aliases gs base"
  using assms by (auto simp: is_channel_unused_def aliases_def add32_exact even_iff_mod_2_eq_zero split: if_splits)

lemma epoch_alias:
  assumes "x \<in> aliases gs base" "gs \<or> even base" "base + 1 < 2 ^ 32"
  shows "fst (epoch_aliases cfg gs used x m) \<in> aliases gs base"
  using assms(1)
proof (induction used arbitrary: x m)
  case (Cons e used)
  then show ?case using unused_alias [OF _ assms(2,3)] by (simp add: epoch_aliases_def Let_def)
qed (simp add: epoch_aliases_def)

lemma record_best_keys: "fst ` set (record_best ch ed best) \<subseteq> insert ch (fst ` set best)"
proof -
  have keys: "fst ` set (AList.update ch v best) \<subseteq> insert ch (fst ` set best)" for v :: distances
    by (simp add: dom_map_of_conv_image_fst [symmetric] update_conv')
  have same: "fst ` set best \<subseteq> insert ch (fst ` set best)" by blast
  show ?thesis
    by (cases ed; cases "map_of (lookup_default [] best ch) (fst ed)")
      (simp_all add: record_best_def Let_def keys same)
qed

lemma fold_best_keys: "fst ` set (fold (record_best ch) ds best) \<subseteq> insert ch (fst ` set best)"
proof (induction ds arbitrary: best)
  case (Cons d ds)
  have "fst ` set (fold (record_best ch) ds (record_best ch d best)) \<subseteq> insert ch (fst ` set (record_best ch d best))"
    by (rule Cons)
  also have "\<dots> \<subseteq> insert ch (fst ` set best)" using record_best_keys [of ch d best] by (rule insert_subsetI [OF insertI1])
  finally show ?case by simp
qed (simp add: subset_insertI)

lemma closest_location_keys:
  assumes "closest_channels cfg gs n" "d \<in> set cfg" "fst ` set best \<subseteq> {..<n}"
  shows "fst ` set (snd (closest_location cfg gs grid unused consumers producer used d (m, best))) \<subseteq> {..<n}"
proof -
  define base where "base = (if gs then channel d else mul32 (channel d) 2)"
  have b: "aliases gs base \<subseteq> {..<n}" "gs \<or> even base" "base + 1 < 2 ^ 32"
    using assms(1,2) by (auto simp: closest_channels_def base_def aliases_def mul32_def)
  obtain unused0 real0 where u: "is_channel_unused base gs unused = (unused0, real0)" by fastforce
  obtain ch m1 where e: "epoch_aliases cfg gs used real0 m = (ch, m1)" by fastforce
  have "snd (is_channel_unused base gs unused) \<in> aliases gs base"
    by (rule unused_alias [OF _ b(2,3)]) (simp add: aliases_def)
  from epoch_alias [OF this b(2,3), of cfg used m] have "ch \<in> aliases gs base" by (simp add: u e)
  then have best: "fst ` set (fold (record_best ch) ds best) \<subseteq> {..<n}" for ds
    using assms(3) b(1) fold_best_keys [of ch ds best] by blast
  show ?thesis
    using assms(3) best
    by (simp add: closest_location_def base_def [symmetric] u e Let_def split: option.split prod.split)
qed

lemma closest_search_keys:
  assumes "closest_channels cfg gs n" "set ds \<subseteq> set cfg" "fst ` set best \<subseteq> {..<n}"
  shows "fst ` set (snd (fold (closest_location cfg gs grid unused consumers producer used) ds (m, best))) \<subseteq> {..<n}"
  using assms(2,3)
proof (induction ds arbitrary: m best)
  case (Cons d ds)
  obtain m1 best1 where s: "closest_location cfg gs grid unused consumers producer used d (m, best) = (m1, best1)"
    by fastforce
  have "fst ` set best1 \<subseteq> {..<n}"
    using closest_location_keys [OF assms(1) _ Cons.prems(2), of d grid unused consumers producer used m] Cons.prems(1) s
    by simp
  then show ?case using Cons.IH [of best1 m1] Cons.prems(1) s by simp
qed simp

lemma best_total_key: "best_total best \<in> insert 0 (fst ` set best)"
proof -
  let ?f = "\<lambda>(ch, ds) (total_best_distance, total_best_channel).
      let total = fold (\<lambda>(_, d) t. add32 t d) ds 0 in
      if total < total_best_distance then (total, ch) else (total_best_distance, total_best_channel)"
  have "snd (fold ?f bs (t, ch)) \<in> insert ch (fst ` set bs)" for bs :: "(nat \<times> distances) list" and t ch
  proof (induction bs arbitrary: t ch)
    case (Cons b bs)
    obtain t' ch' where s: "?f b (t, ch) = (t', ch')" by fastforce
    then have "ch' = ch \<or> ch' = fst b" by (auto simp: Let_def split: prod.splits if_splits)
    with Cons [of t' ch'] s show ?case by auto
  qed simp
  then show ?thesis unfolding best_total_def .
qed

lemma closest_buffer_ok:
  assumes ch: "closest_channels cfg gs n" and known: "map_of (consumer_loc ps) r = Some m" "map_of m c \<noteq> None"
    and p: "closest_ok n p"
  shows "\<exists>unused' p'. closest_buffer cfg gs no_epoch grid ps (r, c) (unused, p) = Inr (unused', p') \<and>
     closest_ok n p' \<and> solved p' r c \<and> (\<forall>r c. solved p r c \<longrightarrow> solved p' r c)"
proof -
  obtain consumers where cs: "map_of m c = Some consumers" using known(2) by blast
  define producer where "producer = (case map_of (producer_loc ps) r of None \<Rightarrow> None | Some m \<Rightarrow> map_of m c)"
  define used where "used = remdups (map snd consumers @ (case producer of None \<Rightarrow> [] | Some (_, e) \<Rightarrow> [e]))"
  define searched where "searched = fold (closest_location cfg gs grid unused consumers producer used) cfg
      (epoch_map_of (is_prologue ps) p, [])"
  define v where "v = best_total (snd searched)"
  have "fst ` set (snd searched) \<subseteq> {..<n}"
    unfolding searched_def by (rule closest_search_keys [OF ch]) simp_all
  then have v: "v < n" using best_total_key [of "snd searched"] ch by (auto simp: v_def closest_channels_def)
  obtain unused' p' where
    run: "closest_buffer cfg gs no_epoch grid ps (r, c) (unused, p) = Inr (unused', p')"
    and sol: "solution p' = AList.update r (AList.update c v (lookup_default [] (solution p) r)) (solution p)"
    using known(1) cs
    by (auto simp: closest_buffer_def at_key_def tt_assert_def Let_def producer_def [symmetric] used_def [symmetric]
        searched_def [symmetric] v_def [symmetric] set_epoch_map_def)
  have "closest_ok n p'"
    using p v by (auto simp: closest_ok_def sol update_conv' lookup_default_def split: if_splits option.splits)
  moreover have "solved p' r c" by (simp add: solved_def sol update_conv')
  moreover have "solved p' r' c'" if "solved p r' c'" for r' c'
    using that by (auto simp: solved_def sol update_conv' lookup_default_def split: option.splits)
  ultimately show ?thesis using run by blast
qed

lemma closest_buffers_ok:
  assumes ch: "closest_channels cfg gs n" and known: "consumers_known ps"
    and "set rcs \<subseteq> {..<rows (param_grid_shape ps)} \<times> {..<columns (param_grid_shape ps)}" and "closest_ok n p"
  shows "\<exists>unused' p'. fold_res (closest_buffer cfg gs no_epoch grid ps) rcs (unused, p) = Inr (unused', p') \<and>
     closest_ok n p' \<and> (\<forall>(r, c) \<in> set rcs. solved p' r c) \<and> (\<forall>r c. solved p r c \<longrightarrow> solved p' r c)"
  using assms(3,4)
proof (induction rcs arbitrary: unused p)
  case (Cons rc rcs)
  obtain r c where rc: "rc = (r, c)" by fastforce
  then have "r < rows (param_grid_shape ps)" "c < columns (param_grid_shape ps)" using Cons.prems(1) by simp_all
  then obtain m where m: "map_of (consumer_loc ps) r = Some m" "map_of m c \<noteq> None"
    using known unfolding consumers_known_def by blast
  from closest_buffer_ok [OF ch m Cons.prems(2)] obtain unused1 p1 where
    p1: "closest_buffer cfg gs no_epoch grid ps (r, c) (unused, p) = Inr (unused1, p1)" "closest_ok n p1"
      "solved p1 r c" "\<forall>r c. solved p r c \<longrightarrow> solved p1 r c" by blast
  have "set rcs \<subseteq> {..<rows (param_grid_shape ps)} \<times> {..<columns (param_grid_shape ps)}" using Cons.prems(1) by simp
  from Cons.IH [OF this p1(2), of unused1] obtain unused' p' where
    "fold_res (closest_buffer cfg gs no_epoch grid ps) rcs (unused1, p1) = Inr (unused', p')" "closest_ok n p'"
    "\<forall>(r, c) \<in> set rcs. solved p' r c" "\<forall>r c. solved p1 r c \<longrightarrow> solved p' r c" by blast
  then show ?case using p1 rc by auto
qed simp

lemma solved_lookup:
  assumes "solved p (row c) (col c)" "closest_ok n p"
  shows "\<exists>i < n. closest_lookup c p = Inr i"
  using assms by (auto simp: solved_def closest_ok_def closest_lookup_def at_key_def tt_assert_def)

lemma closest_pick_ok:
  assumes ch: "closest_channels cfg gs n" and known: "consumers_known ps" and p: "closest_ok n p"
    and old: "current_node p = Some (node_name (node ps)) \<longrightarrow> solved_queue ps p"
    and c: "row c < rows (param_grid_shape ps)" "col c < columns (param_grid_shape ps)"
  shows "\<exists>i p'. closest_pick cfg gs no_epoch grid ps c p = Inr (i, p') \<and> i < n \<and> closest_ok n p' \<and>
     current_node p' = Some (node_name (node ps)) \<and> solved_queue ps p'"
proof (cases "current_node p = Some (node_name (node ps))")
  case True
  then have "solved p (row c) (col c)" using old c by (simp add: solved_queue_def)
  from solved_lookup [OF this p] True old p show ?thesis by (auto simp: closest_pick_def)
next
  case False
  let ?rcs = "List.product [0..<rows (param_grid_shape ps)] [0..<columns (param_grid_shape ps)]"
  have "set ?rcs \<subseteq> {..<rows (param_grid_shape ps)} \<times> {..<columns (param_grid_shape ps)}" by auto
  from closest_buffers_ok [OF ch known this p, of no_epoch grid "reset_channels cfg gs"] obtain unused' p1 where
    run: "fold_res (closest_buffer cfg gs no_epoch grid ps) ?rcs (reset_channels cfg gs, p) = Inr (unused', p1)"
    and p1: "closest_ok n p1" "\<forall>(r, c) \<in> set ?rcs. solved p1 r c" by blast
  let ?p = "p1\<lparr>current_node := Some (node_name (node ps))\<rparr>"
  have ok: "closest_ok n ?p" using p1(1) by (simp add: closest_ok_def)
  have all: "solved_queue ps ?p" using p1(2) by (auto simp: solved_queue_def solved_def)
  then have "solved ?p (row c) (col c)" using c by (simp add: solved_queue_def)
  from solved_lookup [OF this ok] ok all False run show ?thesis by (auto simp: closest_pick_def)
qed

section \<open>What the pickers guarantee\<close>

text \<open>
  The round-robin picker never throws and visits the channels in turn: starting at
  \<open>p\<close>, its \<open>k\<close>-th choice is the \<open>k\<close>-th channel after \<open>p\<close> in the cycle of all channels (all but
  channel 0 when that one is disabled).
\<close>

theorem round_robin_visits_in_turn:
  assumes "rr_start skip_ch0 \<le> p" "p < n" "n < 2 ^ 32"
  shows "\<exists>p'. fold_res (\<lambda>_ (is, p). res_bind (rr_pick skip_ch0 n p) (\<lambda>(i, p'). Inr (is @ [i], p')))
           [0..<m] ([], p) =
         Inr (map (\<lambda>k. rr_start skip_ch0 + (p - rr_start skip_ch0 + k) mod (n - rr_start skip_ch0))
                [0..<m], p')"
proof -
  have "rr_ok skip_ch0 n p" using assms by (simp add: rr_ok_def)
  from rr_sequence [OF this, of m "[]", unfolded rr_nth_def append_Nil] show ?thesis .
qed

theorem round_robin_visits_in_turn_witness:
  "\<exists>p'. fold_res (\<lambda>_ (is, p). res_bind (rr_pick True 3 p) (\<lambda>(i, p'). Inr (is @ [i], p')))
      [0..<4] ([], 2) = Inr ([2, 1, 2, 1], p')"
proof -
  have "rr_start True \<le> 2" "(2::nat) < 3" "(3::nat) < 2 ^ 32" by (simp_all add: rr_start_def)
  moreover have "map (\<lambda>k. rr_start True + (2 - rr_start True + k) mod (3 - rr_start True)) [0..<4] = [2, 1, 2, 1]"
    by (simp add: rr_start_def upt_rec)
  ultimately show ?thesis using round_robin_visits_in_turn [of True 2 3 4] by simp
qed

text \<open>
  With at least one channel and all capacities below \<open>2 ^ 32\<close> bytes, the
  greatest-capacity picker returns the first channel of maximal capacity.
\<close>

theorem greatest_capacity_correct:
  assumes "0 < n" "\<forall>i < n. capacity i < 2 ^ 32"
  shows "\<exists>s. greatest_pick capacity n = Inr s \<and> s < n \<and> (\<forall>i < n. capacity i \<le> capacity s) \<and>
           (\<forall>i < s. capacity i < capacity s)"
proof -
  obtain l s where ls: "fold (greatest_step capacity) [0..<n] (0, 0) = (l, s)" by fastforce
  from greatest_scan [of capacity n, unfolded ls Let_def prod.case] assms
  have s: "s < n" "\<forall>i < n. capacity i \<le> l" "l \<noteq> 0 \<Longrightarrow> capacity s = l \<and> (\<forall>i < s. capacity i < l)"
    "l = 0 \<Longrightarrow> s = 0" by blast+
  have "(\<forall>i < n. capacity i \<le> capacity s) \<and> (\<forall>i < s. capacity i < capacity s)"
  proof (cases "l = 0")
    case True
    with s show ?thesis by auto
  qed (use s in auto)
  with s(1) ls show ?thesis by (simp add: greatest_pick_def)
qed

theorem greatest_capacity_correct_witness:
  "\<exists>s. greatest_pick (\<lambda>i. if i = 1 then 7 else 5) 3 = Inr s \<and> s < 3"
proof -
  have "(0::nat) < 3" "\<forall>i < 3. (if i = 1 then 7 else 5 :: nat) < 2 ^ 32" by simp_all
  from greatest_capacity_correct [OF this] show ?thesis by blast
qed

text \<open>
  With a channel of \<open>2 ^ 32\<close> free bytes the choice is wrong: the running maximum is
  kept in 32 bits, so the capacity of that channel counts as 0 and the next channel wins, however
  little space it has.
\<close>

theorem greatest_capacity_truncates:
  assumes "0 < c" "c < 2 ^ 32"
  shows "greatest_pick (\<lambda>i. if i = 0 then 2 ^ 32 else c) 2 = Inr 1"
proof -
  have "[0..<2] = [0, 1::nat]" by (simp add: upt_rec)
  with assms show ?thesis by (simp add: greatest_pick_def greatest_step_def)
qed

theorem greatest_capacity_truncates_witness:
  "greatest_pick (\<lambda>i. if i = 0 then 2 ^ 32 else 1) 2 = Inr 1"
  by (rule greatest_capacity_truncates) simp_all

lemma closest_without_producer_best:
  "snd (fold (closest_location cfg gs grid unused consumers None used) cs (m, best)) = best"
  by (induction cs arbitrary: m) (auto simp: closest_location_def split: prod.splits)

text \<open>
  A queue without a producer (a parameter or a constant) is always sent to channel
  0 by the closest-channel picker, wherever its readers are: the distances to the consumers are
  only recorded inside the branch that handles the producer.
\<close>

theorem closest_ignores_producerless_queues:
  assumes "producer_loc ps = []" "closest_buffer cfg gs no_epoch grid ps (r, c) (unused, p) = Inr (unused', p')"
  shows "closest_lookup (mk_coord r c) p' = Inr 0"
proof -
  have "best_total [] = 0" by (simp add: best_total_def)
  then show ?thesis
    using assms
    by (auto simp: closest_buffer_def closest_lookup_def res_simps Let_def
        closest_without_producer_best)
qed

theorem closest_ignores_producerless_queues_witness:
  "let cfg = [\<lparr>channel = 0, sub_channel = 0, channel_size = 8, location = mk_coord 0 0,
               initial_dram_offset = 0\<rparr>,
              \<lparr>channel = 1, sub_channel = 0, channel_size = 8, location = mk_coord 5 5,
               initial_dram_offset = 0\<rparr>];
       ps = \<lparr>node = \<lparr>node_name = ''weights'', is_kQueue = False, queue_type = Input, num_entries = 1,
                     cross_epoch_type = False, cross_chip_type = False\<rparr>,
             param_grid_shape = mk_shape 1 1, consumer_loc = [(0, [(0, [(mk_coord 5 5, 0)])])],
             producer_loc = [], producer_epoch = 0, last_consumer_epoch = 0,
             in_p2p_region_soft = False, in_p2p_region_hard = False, param_is_input = True,
             is_prologue = True, queue_size = 1\<rparr>
   in \<exists>u p. closest_buffer cfg True False (mk_shape 10 12) ps (0, 0) ([0, 1], closest_reset) = Inr (u, p) \<and>
            closest_lookup (mk_coord 0 0) p = Inr 0"
proof -
  let ?cfg = "[\<lparr>channel = 0, sub_channel = 0, channel_size = 8, location = mk_coord 0 0,
               initial_dram_offset = 0\<rparr>,
              \<lparr>channel = 1, sub_channel = 0, channel_size = 8, location = mk_coord 5 5,
               initial_dram_offset = 0\<rparr>]"
  let ?ps = "\<lparr>node = \<lparr>node_name = ''weights'', is_kQueue = False, queue_type = Input, num_entries = 1,
                     cross_epoch_type = False, cross_chip_type = False\<rparr>,
             param_grid_shape = mk_shape 1 1, consumer_loc = [(0, [(0, [(mk_coord 5 5, 0)])])],
             producer_loc = [], producer_epoch = 0, last_consumer_epoch = 0,
             in_p2p_region_soft = False, in_p2p_region_hard = False, param_is_input = True,
             is_prologue = True, queue_size = 1\<rparr>"
  have "\<not> isl (closest_buffer ?cfg True False (mk_shape 10 12) ?ps (0, 0) ([0, 1], closest_reset))"
    by code_simp
  then obtain u p where
    run: "closest_buffer ?cfg True False (mk_shape 10 12) ?ps (0, 0) ([0, 1], closest_reset) = Inr (u, p)"
    by (cases "closest_buffer ?cfg True False (mk_shape 10 12) ?ps (0, 0) ([0, 1], closest_reset)")
      auto
  have "producer_loc ?ps = []" by simp
  from closest_ignores_producerless_queues [OF this run] run show ?thesis
    unfolding Let_def by blast
qed

end
