(* ===== verification/Dram_Allocator_Facts.thy ===== *)
theory Dram_Allocator_Facts
  imports Dram_Allocator Channel_Picker_Facts Best_Fit_Spec
begin

text \<open>
  Correctness of \<open>DramAllocator\<close>. The abstract state of an allocator is the set of buffers it
  holds (\<open>held\<close>): allocating a queue adds one fresh buffer per core of its grid and nothing else,
  freeing it removes exactly those, and buffers in the same region never overlap.
\<close>

section \<open>Trying the channels in turn\<close>

context channel_allocator
begin

lemma try_channels_from:
  assumes "\<forall>s \<in> set chans. ok s" "0 < sz" "sel < length chans" "0 < attempts" "attempts \<le> length chans"
  shows "(\<exists>k a B. let i = (sel + k) mod length chans in
            k < attempts \<and> try_channels alloc sz attempts sel chans = (Some (i, a), chans[i := B]) \<and>
            alloc (chans ! i) sz = (Some a, B)) \<or>
         (try_channels alloc sz attempts sel chans = (None, chans) \<and>
            (\<forall>k < attempts. fst (alloc (chans ! ((sel + k) mod length chans)) sz) = None))"
  using assms
proof (induction attempts arbitrary: sel)
  case (Suc attempts)
  let ?n = "length chans"
  obtain r B where rB: "alloc (chans ! sel) sz = (r, B)" by fastforce
  have mod0: "(sel + 0) mod ?n = sel" using Suc.prems(3) by simp
  show ?case
  proof (cases r)
    case (Some a)
    then show ?thesis
      using rB mod0 Suc.prems(3)
      by (intro disjI1 exI [of _ 0] exI [of _ a] exI [of _ B]) (simp add: Let_def)
  next
    case None
    have "ok (chans ! sel)" using Suc.prems(1,3) by simp
    from alloc_fails [OF this Suc.prems(2) rB [unfolded None]] have B: "B = chans ! sel" .
    show ?thesis
    proof (cases "attempts = 0")
      case True
      then show ?thesis using rB None B mod0 by simp
    next
      case False
      let ?sel' = "(sel + 1) mod ?n"
      have n: "0 < ?n" using Suc.prems(3) by linarith
      have shift: "(?sel' + k) mod ?n = (sel + Suc k) mod ?n" for k
        by (simp add: mod_add_left_eq)
      have eq: "try_channels alloc sz (Suc attempts) sel chans = try_channels alloc sz attempts ?sel' chans"
        using rB None B False by simp
      have "0 < attempts" "attempts \<le> ?n" "?sel' < ?n" using False Suc.prems(5) n by simp_all
      from Suc.IH [OF Suc.prems(1,2) this(3,1,2)] show ?thesis
      proof (elim disjE exE conjE)
        fix k a B'
        assume *: "let i = (?sel' + k) mod ?n in k < attempts \<and>
          try_channels alloc sz attempts ?sel' chans = (Some (i, a), chans[i := B']) \<and>
          alloc (chans ! i) sz = (Some a, B')"
        then show ?thesis
          unfolding eq Let_def shift by (intro disjI1 exI [of _ "Suc k"] exI [of _ a] exI [of _ B']) simp
      next
        assume none: "try_channels alloc sz attempts ?sel' chans = (None, chans)"
          and all: "\<forall>k < attempts. fst (alloc (chans ! ((?sel' + k) mod ?n)) sz) = None"
        have "fst (alloc (chans ! ((sel + k) mod ?n)) sz) = None" if "k < Suc attempts" for k
        proof (cases k)
          case 0
          then show ?thesis using rB None mod0 by simp
        next
          case (Suc j)
          then show ?thesis using all that shift [of j] by (metis Suc_less_eq)
        qed
        then show ?thesis using none unfolding eq by blast
      qed
    qed
  qed
qed simp

lemma cyclic_index:
  assumes "i < n" "sel < n"
  shows "\<exists>k < n. (sel + k) mod n = (i :: nat)"
proof (intro exI conjI)
  show "(i + n - sel) mod n < n" using assms by simp
  show "(sel + (i + n - sel) mod n) mod n = i"
    using assms by (simp add: mod_add_right_eq)
qed

text \<open>All channels are tried: it fails only when every channel fails.\<close>

lemma try_channels_spec:
  assumes "\<forall>s \<in> set chans. ok s" "0 < sz" "sel < length chans"
  shows "(\<exists>i a B. i < length chans \<and>
            try_channels alloc sz (length chans) sel chans = (Some (i, a), chans[i := B]) \<and>
            alloc (chans ! i) sz = (Some a, B)) \<or>
         (try_channels alloc sz (length chans) sel chans = (None, chans) \<and>
            (\<forall>s \<in> set chans. fst (alloc s sz) = None))"
proof -
  have n: "0 < length chans" using assms(3) by linarith
  from try_channels_from [OF assms n order_refl] show ?thesis
  proof (elim disjE exE conjE)
    fix k a B
    assume "let i = (sel + k) mod length chans in k < length chans \<and>
      try_channels alloc sz (length chans) sel chans = (Some (i, a), chans[i := B]) \<and>
      alloc (chans ! i) sz = (Some a, B)"
    then show ?thesis
      using n by (intro disjI1 exI [of _ "(sel + k) mod length chans"] exI [of _ a] exI [of _ B])
        (simp add: Let_def)
  next
    assume "try_channels alloc sz (length chans) sel chans = (None, chans)"
      and all: "\<forall>k < length chans. fst (alloc (chans ! ((sel + k) mod length chans)) sz) = None"
    moreover have "fst (alloc s sz) = None" if s: "s \<in> set chans" for s
    proof -
      obtain i where "i < length chans" "chans ! i = s" using s by (auto simp: in_set_conv_nth)
      moreover from this cyclic_index [OF _ assms(3)] obtain k where
        "k < length chans" "(sel + k) mod length chans = i" by blast
      ultimately show ?thesis using all by metis
    qed
    ultimately show ?thesis by blast
  qed
qed

end

section \<open>The invariant of an allocator\<close>

definition picker_ok :: "bool \<Rightarrow> nat \<Rightarrow> ChannelPicker \<Rightarrow> bool" where
  "picker_ok skip_ch0 n p =
     (case p of
        RoundRobinPicker nxt \<Rightarrow> rr_ok skip_ch0 n nxt
      | RoundRobinFlipFlopPicker gs \<Rightarrow> ff_ok skip_ch0 n gs
      | GreatestCapacityPicker \<Rightarrow> 0 < n
      | ClosestChannelPicker q \<Rightarrow> closest_ok n q)"

text \<open>
  What a queue has to bring along. The closest channel picker asks that the channels of the configuration
  exist, that every buffer of the queue has a consumer, and that a solution for a queue of the same name
  covers this one.
\<close>

definition is_closest :: "ChannelPicker \<Rightarrow> bool" where
  "is_closest p \<longleftrightarrow> (case p of ClosestChannelPicker _ \<Rightarrow> True | _ \<Rightarrow> False)"

definition picker_ready :: "DramPlacerConfig \<Rightarrow> nat \<Rightarrow> QueueDRAMPlacementParameters \<Rightarrow> ChannelPicker \<Rightarrow> bool" where
  "picker_ready cfg n ps p \<longleftrightarrow>
     (case p of
        ClosestChannelPicker q \<Rightarrow>
          closest_channels (dram_config cfg) (is_grayskull (dp_device_config cfg)) n \<and> consumers_known ps \<and>
          (current_node q = Some (node_name (node ps)) \<longrightarrow> solved_queue ps q)
      | _ \<Rightarrow> True)"

text \<open>The picker after it was asked for buffers of the queue, or left alone.\<close>

definition after_pick :: "QueueDRAMPlacementParameters \<Rightarrow> ChannelPicker \<Rightarrow> ChannelPicker \<Rightarrow> bool" where
  "after_pick ps p p' \<longleftrightarrow> p' = p \<or> \<not> is_closest p \<and> \<not> is_closest p' \<or>
     is_closest p \<and> (\<exists>q. p' = ClosestChannelPicker q \<and> current_node q = Some (node_name (node ps)) \<and> solved_queue ps q)"

lemma after_pick_refl [simp]: "after_pick ps p p"
  by (simp add: after_pick_def)

lemma after_pick_closest: "after_pick ps p p' \<Longrightarrow> is_closest p' = is_closest p"
  by (auto simp: after_pick_def is_closest_def)

lemma after_pick_trans: "after_pick ps p p' \<Longrightarrow> after_pick ps p' p'' \<Longrightarrow> after_pick ps p p''"
  using after_pick_closest [of ps p p'] by (auto simp: after_pick_def)

lemma picker_stays_ready:
  assumes "picker_ready cfg n qs p" "after_pick ps p p'" "is_closest p \<longrightarrow> ps = qs \<or> node_name (node ps) \<noteq> node_name (node qs)"
  shows "picker_ready cfg n qs p'"
  using assms by (auto simp: picker_ready_def after_pick_def is_closest_def split: ChannelPicker.splits)

lemma pick_channel_ok:
  assumes "picker_ok skip_ch0 (length chans) p" and ready: "picker_ready cfg (length chans) ps p"
    and c: "row c < rows (param_grid_shape ps)" "col c < columns (param_grid_shape ps)"
  shows "\<exists>i p'. pick_channel skip_ch0 no_epoch grid cfg ps c chans p = Inr (i, p') \<and>
           i < length chans \<and> picker_ok skip_ch0 (length chans) p' \<and> after_pick ps p p'"
proof (cases p)
  case (RoundRobinPicker nxt)
  with assms have "rr_ok skip_ch0 (length chans) nxt" by (simp add: picker_ok_def)
  from round_robin.pick_in_range [OF this] show ?thesis
    using RoundRobinPicker by (auto simp: pick_channel_def picker_ok_def after_pick_def is_closest_def)
next
  case (RoundRobinFlipFlopPicker gs)
  with assms have "ff_ok skip_ch0 (length chans) gs" by (simp add: picker_ok_def)
  from flip_flop.pick_in_range [OF this, of ps] show ?thesis
    using RoundRobinFlipFlopPicker by (auto simp: pick_channel_def picker_ok_def after_pick_def is_closest_def)
next
  case GreatestCapacityPicker
  with assms have "0 < length chans" by (simp add: picker_ok_def)
  from greatest.pick_in_range [OF this, of "\<lambda>i. get_capacity (chans ! i)"] show ?thesis
    using GreatestCapacityPicker by (auto simp: pick_channel_def picker_ok_def res_simps)
next
  case (ClosestChannelPicker q)
  let ?gs = "is_grayskull (dp_device_config cfg)"
  have "closest_channels (dram_config cfg) ?gs (length chans)" "consumers_known ps" "closest_ok (length chans) q"
    "current_node q = Some (node_name (node ps)) \<longrightarrow> solved_queue ps q"
    using assms ClosestChannelPicker by (simp_all add: picker_ok_def picker_ready_def)
  from closest_pick_ok [OF this c, of no_epoch grid] obtain i q' where
    "closest_pick (dram_config cfg) ?gs no_epoch grid ps c q = Inr (i, q')" "i < length chans"
    "closest_ok (length chans) q'" "current_node q' = Some (node_name (node ps))" "solved_queue ps q'" by blast
  then show ?thesis
    using ClosestChannelPicker
    by (intro exI [of _ i] exI [of _ "ClosestChannelPicker q'"])
      (simp add: pick_channel_def picker_ok_def after_pick_def is_closest_def)
qed

definition real_channel_known :: "DramPlacerConfig \<Rightarrow> nat \<Rightarrow> bool" where
  "real_channel_known cfg n \<longleftrightarrow>
     (\<forall>i < n. (if is_wormhole_b0 (dp_device_config cfg) then i div 2 else i) < length (dram_config cfg))"

definition dram_ok :: "DramEnv \<Rightarrow> DramAllocator \<Rightarrow> bool" where
  "dram_ok env a \<longleftrightarrow>
     0 < length (channel_allocators a) \<and> (\<forall>B \<in> set (channel_allocators a). some_range B) \<and>
     some_range (p2p_allocator a) \<and>
     picker_ok (PYBUDA_DISABLE_DRAM0 env) (length (channel_allocators a)) (channel_picker a) \<and>
     real_channel_known (dram_cfg a) (length (channel_allocators a))"

text \<open>The channel that is set for the queue by hand exists, or else the picker can be asked.\<close>

definition channel_known :: "QueueDRAMPlacementParameters \<Rightarrow> DramAllocator \<Rightarrow> bool" where
  "channel_known ps a \<longleftrightarrow>
     (case Option.bind (map_of (manual_dram_queue_placement (dram_cfg a)) (node_name (node ps))) dq_channel of
        Some i \<Rightarrow> i < length (channel_allocators a)
      | None \<Rightarrow> picker_ready (dram_cfg a) (length (channel_allocators a)) ps (channel_picker a))"

text \<open>What an allocator holds: the region, the channel, the address and the size of every buffer.\<close>

type_synonym buffer_key = "bool \<times> nat \<times> nat \<times> nat"

definition held :: "DramAllocator \<Rightarrow> buffer_key set" where
  "held a =
     {(True, 0, addr, n) | addr n. (addr, n) \<in> live_buffers (p2p_allocator a)} \<union>
     {(False, i, addr, n) | i addr n. i < length (channel_allocators a) \<and>
        (addr, n) \<in> live_buffers (channel_allocators a ! i)}"

definition buffer_key :: "QueueBufferPlacement \<Rightarrow> buffer_key" where
  "buffer_key b = (allocated_in_p2p_region b, dram_channel b, dram_address b, buffer_size b)"

lemma held_disjoint:
  assumes "dram_ok env a" "(p, i, x, n) \<in> held a" "(p, i, y, m) \<in> held a" "(x, n) \<noteq> (y, m)"
  shows "span x n \<inter> span y m = {}"
proof -
  have p2p: "some_range (p2p_allocator a)"
    and chan: "i < length (channel_allocators a) \<Longrightarrow> some_range (channel_allocators a ! i)"
    using assms(1) by (simp_all add: dram_ok_def)
  show ?thesis
  proof (cases p)
    case True
    with assms(2,3) have "(x, n) \<in> live_buffers (p2p_allocator a)" "(y, m) \<in> live_buffers (p2p_allocator a)"
      by (auto simp: held_def)
    then show ?thesis by (rule any_channel.live_disjoint [OF p2p _ _ assms(4)])
  next
    case False
    with assms(2,3) have i: "i < length (channel_allocators a)"
      and "(x, n) \<in> live_buffers (channel_allocators a ! i)" "(y, m) \<in> live_buffers (channel_allocators a ! i)"
      by (auto simp: held_def)
    then show ?thesis by (intro any_channel.live_disjoint [OF chan [OF i] _ _ assms(4)])
  qed
qed

lemma held_p2p:
  "held (a\<lparr>p2p_allocator := B\<rparr>) = {k \<in> held a. \<not> fst k} \<union> {(True, 0, x, n) | x n. (x, n) \<in> live_buffers B}"
  by (auto simp: held_def)

lemma held_channel:
  assumes "i < length (channel_allocators a)"
  shows "held (a\<lparr>channel_allocators := (channel_allocators a)[i := B]\<rparr>) =
    {k \<in> held a. fst k \<or> fst (snd k) \<noteq> i} \<union> {(False, i, x, n) | x n. (x, n) \<in> live_buffers B}"
  using assms by (auto simp: held_def nth_list_update split: if_splits)

lemma held_picker [simp]: "held (a\<lparr>channel_picker := p\<rparr>) = held a"
  by (simp add: held_def)

lemma in_held:
  "(True, i, x, n) \<in> held a \<longleftrightarrow> i = 0 \<and> (x, n) \<in> live_buffers (p2p_allocator a)"
  "(False, i, x, n) \<in> held a \<longleftrightarrow>
     i < length (channel_allocators a) \<and> (x, n) \<in> live_buffers (channel_allocators a ! i)"
  by (auto simp: held_def)

section \<open>One buffer\<close>

text \<open>What allocating one buffer may do.\<close>

definition allocated_one ::
    "DramEnv \<Rightarrow> QueueDRAMPlacementParameters \<Rightarrow> nat \<Rightarrow> DramAllocator \<Rightarrow> QueueBufferPlacement \<Rightarrow> DramAllocator \<Rightarrow> bool"
where
  "allocated_one env ps sz a b a' \<longleftrightarrow>
     dram_ok env a' \<and> held a' = insert (buffer_key b) (held a) \<and> buffer_key b \<notin> held a \<and>
     buffer_size b = sz \<and> dram_cfg a' = dram_cfg a \<and>
     length (channel_allocators a') = length (channel_allocators a) \<and>
     after_pick ps (channel_picker a) (channel_picker a')"

lemma create_buffer_ok:
  assumes "real_channel_known cfg n" "i < n"
  shows "\<exists>loc. create_buffer_placement cfg i addr sz p = Inr \<lparr>dram_channel = i, dram_address = addr,
    dram_channel_location = loc, buffer_size = sz, allocated_in_p2p_region = p\<rparr>"
  using assms by (simp add: create_buffer_placement_def real_channel_known_def)

lemma set_update_ok:
  "\<forall>B \<in> set xs. P B \<Longrightarrow> P B' \<Longrightarrow> \<forall>B \<in> set (xs[i := B']). P B"
  using set_update_subset_insert by fastforce

lemma allocate_in_channel:
  assumes a: "dram_ok env a" and i: "i < length (channel_allocators a)" and sz: "0 < sz"
    and alloc: "allocate (channel_allocators a ! i) sz = (Some x, B)"
    and b: "b = \<lparr>dram_channel = i, dram_address = x, dram_channel_location = loc, buffer_size = sz,
                  allocated_in_p2p_region = False\<rparr>"
  shows "allocated_one env ps sz a b (a\<lparr>channel_allocators := (channel_allocators a)[i := B]\<rparr>)"
proof -
  have ok: "some_range (channel_allocators a ! i)" using a i by (simp add: dram_ok_def)
  note law = any_channel.alloc_succeeds [OF ok sz alloc]
  have "(x, sz) \<notin> live_buffers (channel_allocators a ! i)"
    using any_channel.alloc_fresh [OF ok sz alloc] by force
  then have "buffer_key b \<notin> held a" using b by (simp add: buffer_key_def in_held)
  moreover have "k \<in> held (a\<lparr>channel_allocators := (channel_allocators a)[i := B]\<rparr>) \<longleftrightarrow>
      k \<in> insert (buffer_key b) (held a)" for k
    using law b i unfolding held_channel [OF i]
    by (cases k) (auto simp: buffer_key_def in_held)
  then have "held (a\<lparr>channel_allocators := (channel_allocators a)[i := B]\<rparr>) = insert (buffer_key b) (held a)"
    by blast
  moreover have "\<forall>B \<in> set ((channel_allocators a)[i := B]). some_range B"
    by (rule set_update_ok) (use a law in \<open>simp_all add: dram_ok_def\<close>)
  then have "dram_ok env (a\<lparr>channel_allocators := (channel_allocators a)[i := B]\<rparr>)"
    using a by (simp add: dram_ok_def)
  ultimately show ?thesis using b by (simp add: allocated_one_def)
qed

lemma allocate_in_p2p:
  assumes a: "dram_ok env a" and sz: "0 < sz" and alloc: "allocate (p2p_allocator a) sz = (Some x, B)"
    and b: "b = \<lparr>dram_channel = 0, dram_address = x, dram_channel_location = loc, buffer_size = sz,
                  allocated_in_p2p_region = True\<rparr>"
  shows "allocated_one env ps sz a b (a\<lparr>p2p_allocator := B\<rparr>)"
proof -
  have ok: "some_range (p2p_allocator a)" using a by (simp add: dram_ok_def)
  note law = any_channel.alloc_succeeds [OF ok sz alloc]
  have "(x, sz) \<notin> live_buffers (p2p_allocator a)"
    using any_channel.alloc_fresh [OF ok sz alloc] by force
  then have "buffer_key b \<notin> held a" using b by (simp add: buffer_key_def in_held)
  moreover have "k \<in> held (a\<lparr>p2p_allocator := B\<rparr>) \<longleftrightarrow> k \<in> insert (buffer_key b) (held a)" for k
    using law b unfolding held_p2p by (cases k) (auto simp: buffer_key_def in_held)
  then have "held (a\<lparr>p2p_allocator := B\<rparr>) = insert (buffer_key b) (held a)" by blast
  ultimately show ?thesis using a law b by (simp add: allocated_one_def dram_ok_def)
qed

text \<open>No channel has a free block for the size.\<close>

definition no_channel_fits :: "nat \<Rightarrow> DramAllocator \<Rightarrow> bool" where
  "no_channel_fits sz a \<longleftrightarrow> (\<forall>B \<in> set (channel_allocators a). \<forall>b \<in> free_of B. block_size b < sz)"

lemma allocate_none:
  assumes "some_range B" "0 < sz" "fst (allocate B sz) = None"
  shows "\<forall>b \<in> free_of B. block_size b < sz"
proof -
  from assms(1) obtain lo hi where "bf_inv lo hi B" by (auto simp: some_range_def)
  from this assms(2) show ?thesis by (cases rule: allocate_cases) (use assms(3) in auto)
qed

lemma select_channel_ok:
  assumes a: "dram_ok env a" and m: "channel_known ps a"
    and c: "row c < rows (param_grid_shape ps)" "col c < columns (param_grid_shape ps)"
  shows "\<exists>i p. select_channel env ps c a = Inr (i, a\<lparr>channel_picker := p\<rparr>) \<and>
           i < length (channel_allocators a) \<and>
           dram_ok env (a\<lparr>channel_picker := p\<rparr>) \<and> after_pick ps (channel_picker a) p"
proof (cases "Option.bind (map_of (manual_dram_queue_placement (dram_cfg a)) (node_name (node ps))) dq_channel")
  case None
  have "picker_ok (PYBUDA_DISABLE_DRAM0 env) (length (channel_allocators a)) (channel_picker a)"
    "picker_ready (dram_cfg a) (length (channel_allocators a)) ps (channel_picker a)"
    using a m None by (simp_all add: dram_ok_def channel_known_def)
  from pick_channel_ok [OF this c] obtain i p where
    "pick_channel (PYBUDA_DISABLE_DRAM0 env) (PYBUDA_CLOSEST_NO_EPOCH env) (dram_grid_size env)
       (dram_cfg a) ps c (channel_allocators a) (channel_picker a) = Inr (i, p)"
    "i < length (channel_allocators a)"
    "picker_ok (PYBUDA_DISABLE_DRAM0 env) (length (channel_allocators a)) p" "after_pick ps (channel_picker a) p" by blast
  with None a show ?thesis
    by (intro exI [of _ i] exI [of _ p]) (simp add: select_channel_def dram_ok_def)
next
  case (Some i)
  with m a show ?thesis
    by (intro exI [of _ i] exI [of _ "channel_picker a"]) (simp add: select_channel_def channel_known_def)
qed

lemma allocate_regular_cases:
  assumes a: "dram_ok env a" and m: "channel_known ps a" and sz: "0 < queue_size ps"
    and c: "row c < rows (param_grid_shape ps)" "col c < columns (param_grid_shape ps)"
  shows "(\<exists>b a'. allocate_regular env ps c a = Inr (Some b, a') \<and> allocated_one env ps (queue_size ps) a b a') \<or>
         (\<exists>a'. allocate_regular env ps c a = Inr (None, a') \<and> dram_ok env a' \<and> held a' = held a \<and>
            no_channel_fits (queue_size ps) a)"
proof -
  from select_channel_ok [OF a m c] obtain i p where
    sel: "select_channel env ps c a = Inr (i, a\<lparr>channel_picker := p\<rparr>)" "i < length (channel_allocators a)"
    and a1: "dram_ok env (a\<lparr>channel_picker := p\<rparr>)" and p: "after_pick ps (channel_picker a) p" by blast
  let ?a = "a\<lparr>channel_picker := p\<rparr>" and ?n = "length (channel_allocators a)"
  have ok: "\<forall>s \<in> set (channel_allocators a). some_range s" using a by (simp add: dram_ok_def)
  from any_channel.try_channels_spec [OF ok sz sel(2)] show ?thesis
  proof (elim disjE exE conjE)
    fix j x B
    assume j: "j < ?n" and tried: "try_channels allocate (queue_size ps) ?n i (channel_allocators a) =
        (Some (j, x), (channel_allocators a)[j := B])"
      and alloc: "allocate (channel_allocators a ! j) (queue_size ps) = (Some x, B)"
    have "real_channel_known (dram_cfg a) ?n" using a by (simp add: dram_ok_def)
    from create_buffer_ok [OF this j] obtain loc where
      b: "create_buffer_placement (dram_cfg a) j x (queue_size ps) False =
        Inr \<lparr>dram_channel = j, dram_address = x, dram_channel_location = loc,
             buffer_size = queue_size ps, allocated_in_p2p_region = False\<rparr>" by blast
    let ?b = "\<lparr>dram_channel = j, dram_address = x, dram_channel_location = loc,
               buffer_size = queue_size ps, allocated_in_p2p_region = False\<rparr>"
    have "allocated_one env ps (queue_size ps) ?a ?b
        (?a\<lparr>channel_allocators := (channel_allocators ?a)[j := B]\<rparr>)"
      by (rule allocate_in_channel [OF a1 _ sz _ refl]) (use j alloc in simp_all)
    then show ?thesis
      using sel tried b p by (intro disjI1) (simp add: allocate_regular_def allocated_one_def)
  next
    assume "try_channels allocate (queue_size ps) ?n i (channel_allocators a) = (None, channel_allocators a)"
      and none: "\<forall>s \<in> set (channel_allocators a). fst (allocate s (queue_size ps)) = None"
    moreover have "no_channel_fits (queue_size ps) a"
      unfolding no_channel_fits_def using none ok allocate_none [OF _ sz] by blast
    ultimately show ?thesis
      using sel a1 by (intro disjI2) (simp add: allocate_regular_def)
  qed
qed

lemma allocate_cell_cases:
  assumes a: "dram_ok env a" and m: "channel_known ps a" and sz: "0 < queue_size ps"
    and c: "row c < rows (param_grid_shape ps)" "col c < columns (param_grid_shape ps)"
  shows "(\<exists>b a'. allocate_cell env ps c a = Inr (Some b, a') \<and> allocated_one env ps (queue_size ps) a b a') \<or>
         (\<exists>a'. allocate_cell env ps c a = Inr (None, a') \<and> dram_ok env a' \<and> held a' = held a \<and>
            (in_p2p_region_hard ps \<or> no_channel_fits (queue_size ps) a) \<and>
            (in_p2p_region_soft ps \<or> in_p2p_region_hard ps \<longrightarrow>
               (\<forall>b \<in> free_of (p2p_allocator a). block_size b < queue_size ps)))"
proof (cases "in_p2p_region_soft ps \<or> in_p2p_region_hard ps")
  case False
  then show ?thesis
    using allocate_regular_cases [OF a m sz c] by (simp add: allocate_cell_def)
next
  case True
  obtain r B where rB: "allocate (p2p_allocator a) (queue_size ps) = (r, B)" by fastforce
  have ok: "some_range (p2p_allocator a)" using a by (simp add: dram_ok_def)
  show ?thesis
  proof (cases r)
    case (Some x)
    have "real_channel_known (dram_cfg a) (length (channel_allocators a))" "0 < length (channel_allocators a)"
      using a by (simp_all add: dram_ok_def)
    from create_buffer_ok [OF this] obtain loc where
      b: "create_buffer_placement (dram_cfg a) 0 x (queue_size ps) True =
        Inr \<lparr>dram_channel = 0, dram_address = x, dram_channel_location = loc,
             buffer_size = queue_size ps, allocated_in_p2p_region = True\<rparr>" by blast
    from allocate_in_p2p [OF a sz rB [unfolded Some] refl, of ps] show ?thesis
      using b True rB Some by (intro disjI1) (simp add: allocate_cell_def)
  next
    case None
    then have same: "a\<lparr>p2p_allocator := B\<rparr> = a"
      using any_channel.alloc_fails [OF ok sz] rB by simp
    have full: "\<forall>b \<in> free_of (p2p_allocator a). block_size b < queue_size ps"
      by (rule allocate_none [OF ok sz]) (use rB None in simp)
    have "allocate_cell env ps c a =
        (if in_p2p_region_hard ps then Inr (None, a) else allocate_regular env ps c a)"
      using True rB None same by (simp add: allocate_cell_def)
    then show ?thesis
      using allocate_regular_cases [OF a m sz c] a full by auto
  qed
qed

section \<open>The buffers of a queue\<close>

definition keys :: "QueueBufferPlacement list \<Rightarrow> buffer_key set" where
  "keys bufs = buffer_key ` set bufs"

text \<open>The allocation of several buffers, starting from those in \<open>done\<close>.\<close>

definition allocated_all ::
    "DramEnv \<Rightarrow> QueueDRAMPlacementParameters \<Rightarrow> nat \<Rightarrow> DramAllocator \<Rightarrow> QueueBufferPlacement list \<Rightarrow> DramAllocator \<Rightarrow> bool"
where
  "allocated_all env ps sz a bufs a' \<longleftrightarrow>
     dram_ok env a' \<and> held a' = held a \<union> keys bufs \<and> held a \<inter> keys bufs = {} \<and>
     distinct (map buffer_key bufs) \<and> (\<forall>b \<in> set bufs. buffer_size b = sz) \<and>
     dram_cfg a' = dram_cfg a \<and> length (channel_allocators a') = length (channel_allocators a) \<and>
     after_pick ps (channel_picker a) (channel_picker a')"

text \<open>The channel of a queue stays known when buffers of the same queue or of one of another name are picked.\<close>

lemma channel_stays_known:
  assumes "channel_known qs a" "dram_cfg a' = dram_cfg a" "length (channel_allocators a') = length (channel_allocators a)"
    and "after_pick ps (channel_picker a) (channel_picker a')"
    and "is_closest (channel_picker a) \<longrightarrow> ps = qs \<or> node_name (node ps) \<noteq> node_name (node qs)"
  shows "channel_known qs a'"
  using assms(1-3) picker_stays_ready [OF _ assms(4,5)]
  by (simp add: channel_known_def split: option.splits)

abbreviation grid_of :: "QueueDRAMPlacementParameters \<Rightarrow> (nat \<times> nat) list" where
  "grid_of ps \<equiv> List.product [0..<rows (param_grid_shape ps)] [0..<columns (param_grid_shape ps)]"

lemma allocate_cells_cases:
  assumes "dram_ok env a" "channel_known ps a" "0 < queue_size ps" "set rcs \<subseteq> set (grid_of ps)"
  shows "\<exists>ok bufs a'. allocate_cells env ps rcs acc a = Inr ((ok, acc @ bufs), a') \<and>
           (ok \<longrightarrow> length bufs = length rcs) \<and>
           dram_ok env a' \<and> held a' = held a \<union> keys bufs \<and> held a \<inter> keys bufs = {} \<and>
           distinct (map buffer_key bufs) \<and> (\<forall>b \<in> set bufs. buffer_size b = queue_size ps) \<and>
           (ok \<longrightarrow> allocated_all env ps (queue_size ps) a bufs a')"
  using assms
proof (induction rcs arbitrary: acc a)
  case Nil
  then show ?case
    by (intro exI [of _ True] exI [of _ "[]"] exI [of _ a]) (simp add: keys_def allocated_all_def)
next
  case (Cons rc rcs)
  have rc: "row (mk_coord (fst rc) (snd rc)) < rows (param_grid_shape ps)"
    "col (mk_coord (fst rc) (snd rc)) < columns (param_grid_shape ps)"
    using Cons.prems(4) by auto
  from allocate_cell_cases [OF Cons.prems(1-3) rc]
  consider (one) b a1 where
      "allocate_cell env ps (mk_coord (fst rc) (snd rc)) a = Inr (Some b, a1)"
      "allocated_one env ps (queue_size ps) a b a1"
    | (none) a1 where "allocate_cell env ps (mk_coord (fst rc) (snd rc)) a = Inr (None, a1)"
      "dram_ok env a1" "held a1 = held a" by blast
  then show ?case
  proof cases
    case (one b a1)
    note cell = one(1)
    from one(2) have a1: "dram_ok env a1" "held a1 = insert (buffer_key b) (held a)" "buffer_key b \<notin> held a"
      "buffer_size b = queue_size ps" "dram_cfg a1 = dram_cfg a"
      "length (channel_allocators a1) = length (channel_allocators a)"
      and p1: "after_pick ps (channel_picker a) (channel_picker a1)"
      by (simp_all add: allocated_one_def)
    have m1: "channel_known ps a1" using channel_stays_known [OF Cons.prems(2) a1(5,6) p1] by simp
    have "set rcs \<subseteq> set (grid_of ps)" using Cons.prems(4) by simp
    from Cons.IH [OF a1(1) m1 Cons.prems(3) this, of "acc @ [b]"] obtain ok bufs a' where
      IH: "allocate_cells env ps rcs (acc @ [b]) a1 = Inr ((ok, (acc @ [b]) @ bufs), a')"
        "ok \<longrightarrow> length bufs = length rcs" "dram_ok env a'" "held a' = held a1 \<union> keys bufs"
        "held a1 \<inter> keys bufs = {}" "distinct (map buffer_key bufs)"
        "\<forall>b \<in> set bufs. buffer_size b = queue_size ps"
        "ok \<longrightarrow> allocated_all env ps (queue_size ps) a1 bufs a'" by blast
    have k: "keys (b # bufs) = insert (buffer_key b) (keys bufs)" by (simp add: keys_def)
    have "buffer_key b \<notin> keys bufs" using IH(5) a1(2) by blast
    then have d: "distinct (map buffer_key (b # bufs))" using IH(6) by (simp add: keys_def)
    have h: "held a' = held a \<union> keys (b # bufs)" "held a \<inter> keys (b # bufs) = {}"
      using IH(4,5) a1(2,3) unfolding k by blast+
    have "ok \<longrightarrow> allocated_all env ps (queue_size ps) a (b # bufs) a'"
      using IH h d a1 after_pick_trans [OF p1] by (simp add: allocated_all_def)
    then show ?thesis
      using cell IH(1,2,3,7) h d a1(4)
      by (intro exI [of _ ok] exI [of _ "b # bufs"] exI [of _ a']) simp
  next
    case (none a1)
    then show ?thesis
      by (intro exI [of _ False] exI [of _ "[]"] exI [of _ a1]) (simp add: keys_def)
  qed
qed

lemma grid_cells_length:
  "length (List.product [0..<r] [0..<c]) = r * (c :: nat)"
  by (simp add: length_product)

section \<open>Freeing buffers\<close>

lemma held_p2p_delete:
  assumes "live_buffers B = live_buffers (p2p_allocator a) - {(x, n)}"
  shows "held (a\<lparr>p2p_allocator := B\<rparr>) = held a - {(True, 0, x, n)}"
proof -
  have "(p, i, y, m) \<in> held (a\<lparr>p2p_allocator := B\<rparr>) \<longleftrightarrow> (p, i, y, m) \<in> held a - {(True, 0, x, n)}"
    for p i y m
    by (cases p) (simp_all add: in_held assms, blast)
  then show ?thesis by (metis (no_types) subsetI subset_antisym surj_pair)
qed

lemma held_channel_delete:
  assumes "i < length (channel_allocators a)"
    and "live_buffers B = live_buffers (channel_allocators a ! i) - {(x, n)}"
  shows "held (a\<lparr>channel_allocators := (channel_allocators a)[i := B]\<rparr>) = held a - {(False, i, x, n)}"
proof -
  have "(p, j, y, m) \<in> held (a\<lparr>channel_allocators := (channel_allocators a)[i := B]\<rparr>) \<longleftrightarrow>
      (p, j, y, m) \<in> held a - {(False, i, x, n)}" for p j y m
    using assms by (cases p; cases "j = i") (simp_all add: in_held)
  then show ?thesis by (metis (no_types) subsetI subset_antisym surj_pair)
qed

lemma deallocate_buffer_held:
  assumes a: "dram_ok env a" and b: "buffer_key b \<in> held a"
  shows "\<exists>a'. deallocate_buffer b a = Inr a' \<and> dram_ok env a' \<and> held a' = held a - {buffer_key b}"
proof (cases "allocated_in_p2p_region b")
  case True
  have ok: "some_range (p2p_allocator a)" using a by (simp add: dram_ok_def)
  have live: "dram_channel b = 0" "(dram_address b, buffer_size b) \<in> live_buffers (p2p_allocator a)"
    using b True by (auto simp: buffer_key_def in_held)
  from any_channel.dealloc_live [OF ok live(2)] obtain B where
    B: "deallocate (p2p_allocator a) (dram_address b) = Inr B" "some_range B"
      "live_buffers B = live_buffers (p2p_allocator a) - {(dram_address b, buffer_size b)}" by blast
  have "buffer_key b = (True, 0, dram_address b, buffer_size b)"
    using True live(1) by (simp add: buffer_key_def)
  then have "held (a\<lparr>p2p_allocator := B\<rparr>) = held a - {buffer_key b}"
    using held_p2p_delete [OF B(3)] by simp
  then show ?thesis using B True a by (simp add: deallocate_buffer_def dram_ok_def)
next
  case False
  let ?i = "dram_channel b"
  have live: "?i < length (channel_allocators a)"
    "(dram_address b, buffer_size b) \<in> live_buffers (channel_allocators a ! ?i)"
    using b False by (auto simp: buffer_key_def in_held)
  have ok: "some_range (channel_allocators a ! ?i)" using a live(1) by (simp add: dram_ok_def)
  from any_channel.dealloc_live [OF ok live(2)] obtain B where
    B: "deallocate (channel_allocators a ! ?i) (dram_address b) = Inr B" "some_range B"
      "live_buffers B = live_buffers (channel_allocators a ! ?i) - {(dram_address b, buffer_size b)}" by blast
  let ?a = "a\<lparr>channel_allocators := (channel_allocators a)[?i := B]\<rparr>"
  have "buffer_key b = (False, ?i, dram_address b, buffer_size b)"
    using False by (simp add: buffer_key_def)
  then have "held ?a = held a - {buffer_key b}"
    using held_channel_delete [OF live(1) B(3)] by simp
  moreover have "\<forall>B' \<in> set ((channel_allocators a)[?i := B]). some_range B'"
    by (rule set_update_ok) (use a B(2) in \<open>simp_all add: dram_ok_def\<close>)
  ultimately show ?thesis using B False a live(1) by (simp add: deallocate_buffer_def dram_ok_def)
qed

lemma deallocate_all_held:
  assumes "dram_ok env a" "keys bufs \<subseteq> held a" "distinct (map buffer_key bufs)"
  shows "\<exists>a'. fold_res deallocate_buffer bufs a = Inr a' \<and> dram_ok env a' \<and> held a' = held a - keys bufs"
  using assms
proof (induction bufs arbitrary: a)
  case (Cons b bufs)
  have "buffer_key b \<in> held a" using Cons.prems(2) by (simp add: keys_def)
  from deallocate_buffer_held [OF Cons.prems(1) this] obtain a1 where
    a1: "deallocate_buffer b a = Inr a1" "dram_ok env a1" "held a1 = held a - {buffer_key b}" by blast
  have "buffer_key b \<notin> keys bufs" using Cons.prems(3) by (simp add: keys_def)
  then have sub: "keys bufs \<subseteq> held a1" using Cons.prems(2) a1(3) by (auto simp: keys_def)
  have "distinct (map buffer_key bufs)" using Cons.prems(3) by simp
  from Cons.IH [OF a1(2) sub this] obtain a' where
    "fold_res deallocate_buffer bufs a1 = Inr a'" "dram_ok env a'" "held a' = held a1 - keys bufs" by blast
  then show ?case using a1 by (intro exI [of _ a']) (auto simp: keys_def)
qed (simp add: keys_def)

end
