(* ===== verification/Dram_Schedule.thy ===== *)
theory Dram_Schedule
  imports Dram_Allocator_Facts
begin

text \<open>
  \<open>allocate_queues\<close> (\<open>dram_allocator.cpp\<close>) over a whole schedule: queues whose lifetimes overlap
  never get overlapping buffers. A static queue lives for ever, a dynamic one from its producer
  epoch to its last consumer epoch. The proof follows the run: \<open>A\<close> are the queues allocated so
  far, \<open>F\<close> those freed again.
\<close>

section \<open>Queues, lifetimes and separation\<close>

definition queue_ok :: "DramAllocator \<Rightarrow> QueueDRAMPlacementParameters \<Rightarrow> bool" where
  "queue_ok a ps \<longleftrightarrow>
     channel_known ps a \<and> 0 < queue_size ps \<and> 0 < rows (param_grid_shape ps) \<and>
     0 < columns (param_grid_shape ps) \<and> producer_epoch ps \<le> last_consumer_epoch ps"

definition grid_cells :: "QueueDRAMPlacementParameters \<Rightarrow> nat" where
  "grid_cells ps = rows (param_grid_shape ps) * columns (param_grid_shape ps)"

definition static_queue :: "bool \<Rightarrow> int \<Rightarrow> QueueDRAMPlacementParameters \<Rightarrow> bool" where
  "static_queue dis mb ps = is_static_queue dis mb (node ps) (param_is_input ps)"

definition coexist ::
    "bool \<Rightarrow> int \<Rightarrow> QueueDRAMPlacementParameters \<Rightarrow> QueueDRAMPlacementParameters \<Rightarrow> bool" where
  "coexist dis mb p q \<longleftrightarrow>
     static_queue dis mb p \<or> static_queue dis mb q \<or>
     (producer_epoch p \<le> last_consumer_epoch q \<and> producer_epoch q \<le> last_consumer_epoch p)"

definition apart :: "QueueBufferPlacement list \<Rightarrow> QueueBufferPlacement list \<Rightarrow> bool" where
  "apart bs cs \<longleftrightarrow>
     (\<forall>b \<in> set bs. \<forall>c \<in> set cs.
        allocated_in_p2p_region b = allocated_in_p2p_region c \<and> dram_channel b = dram_channel c \<longrightarrow>
        span (dram_address b) (buffer_size b) \<inter> span (dram_address c) (buffer_size c) = {})"

lemma apart_sym: "apart bs cs \<Longrightarrow> apart cs bs"
  unfolding apart_def by (metis inf_commute)

lemma coexist_sym: "coexist dis mb p q = coexist dis mb q p"
  by (auto simp: coexist_def)

text \<open>Buffers that are held at the same time and are different do not overlap.\<close>

lemma held_apart:
  assumes "dram_ok env a" "keys bs \<subseteq> held a" "keys cs \<subseteq> held a" "keys bs \<inter> keys cs = {}"
  shows "apart bs cs"
proof -
  have "span (dram_address b) (buffer_size b) \<inter> span (dram_address c) (buffer_size c) = {}"
    if bc: "b \<in> set bs" "c \<in> set cs" and eq: "allocated_in_p2p_region b = allocated_in_p2p_region c"
      "dram_channel b = dram_channel c" for b c
  proof (rule held_disjoint [OF assms(1)])
    have kb: "buffer_key b \<in> keys bs" and kc: "buffer_key c \<in> keys cs"
      using bc by (simp_all add: keys_def)
    show "(allocated_in_p2p_region b, dram_channel b, dram_address b, buffer_size b) \<in> held a"
      using kb assms(2) by (auto simp: buffer_key_def)
    show "(allocated_in_p2p_region b, dram_channel b, dram_address c, buffer_size c) \<in> held a"
      using kc assms(3) eq by (auto simp: buffer_key_def)
    show "(dram_address b, buffer_size b) \<noteq> (dram_address c, buffer_size c)"
      using kb kc assms(4) eq by (auto simp: buffer_key_def)
  qed
  then show ?thesis by (simp add: apart_def)
qed

section \<open>The invariant of a run\<close>

abbreviation bufs_of :: "DRAMScheduleData list \<Rightarrow> nat \<Rightarrow> QueueBufferPlacement list" where
  "bufs_of qs i \<equiv> dram_buffers (fst (qs ! i))"

definition run_inv ::
    "DramEnv \<Rightarrow> bool \<Rightarrow> int \<Rightarrow> QueueDRAMPlacementParameters list \<Rightarrow> DramAllocator \<Rightarrow> nat set \<Rightarrow> nat set \<Rightarrow>
     DRAMScheduleData list \<Rightarrow> DramAllocator \<Rightarrow> bool" where
  "run_inv env dis mb P a0 A F qs a \<longleftrightarrow>
     (\<forall>i < length P. i \<notin> A \<longrightarrow> channel_known (P ! i) a) \<and>
     (is_closest (channel_picker a) \<longrightarrow> distinct (map (\<lambda>ps. node_name (node ps)) P)) \<and>
     map snd qs = P \<and> dram_ok env a \<and> dram_cfg a = dram_cfg a0 \<and>
     length (channel_allocators a) = length (channel_allocators a0) \<and>
     A \<subseteq> {..<length P} \<and> F \<subseteq> A \<and>
     held a = held a0 \<union> (\<Union>i \<in> A - F. keys (bufs_of qs i)) \<and>
     (\<forall>i \<in> A. distinct (map buffer_key (bufs_of qs i)) \<and> length (bufs_of qs i) = grid_cells (P ! i)) \<and>
     (\<forall>i \<in> A - F. held a0 \<inter> keys (bufs_of qs i) = {}) \<and>
     (\<forall>i \<in> A - F. \<forall>j \<in> A - F. i \<noteq> j \<longrightarrow> keys (bufs_of qs i) \<inter> keys (bufs_of qs j) = {}) \<and>
     (\<forall>i \<in> A. \<forall>j \<in> A. i \<noteq> j \<and> coexist dis mb (P ! i) (P ! j) \<longrightarrow> apart (bufs_of qs i) (bufs_of qs j))"

lemma run_invD:
  assumes "run_inv env dis mb P a0 A F qs a"
  shows "map snd qs = P" "dram_ok env a" "dram_cfg a = dram_cfg a0"
    "length (channel_allocators a) = length (channel_allocators a0)" "A \<subseteq> {..<length P}" "F \<subseteq> A"
    "held a = held a0 \<union> (\<Union>i \<in> A - F. keys (bufs_of qs i))"
    "\<And>i. i \<in> A \<Longrightarrow> distinct (map buffer_key (bufs_of qs i))"
    "\<And>i. i \<in> A \<Longrightarrow> length (bufs_of qs i) = grid_cells (P ! i)"
    "\<And>i. i \<in> A \<Longrightarrow> i \<notin> F \<Longrightarrow> held a0 \<inter> keys (bufs_of qs i) = {}"
    "\<And>i j. i \<in> A \<Longrightarrow> i \<notin> F \<Longrightarrow> j \<in> A \<Longrightarrow> j \<notin> F \<Longrightarrow> i \<noteq> j \<Longrightarrow>
       keys (bufs_of qs i) \<inter> keys (bufs_of qs j) = {}"
    "\<And>i j. i \<in> A \<Longrightarrow> j \<in> A \<Longrightarrow> i \<noteq> j \<Longrightarrow> coexist dis mb (P ! i) (P ! j) \<Longrightarrow>
       apart (bufs_of qs i) (bufs_of qs j)"
    "\<And>i. i < length P \<Longrightarrow> i \<notin> A \<Longrightarrow> channel_known (P ! i) a"
    "is_closest (channel_picker a) \<Longrightarrow> distinct (map (\<lambda>ps. node_name (node ps)) P)"
  using assms unfolding run_inv_def by (elim conjE, simp)+

lemma run_inv_init:
  assumes "dram_ok env a" "map snd qs = P" "\<forall>ps \<in> set P. channel_known ps a"
    and "is_closest (channel_picker a) \<longrightarrow> distinct (map (\<lambda>ps. node_name (node ps)) P)"
  shows "run_inv env dis mb P a {} {} qs a"
  using assms by (simp add: run_inv_def)

lemma run_inv_length: "run_inv env dis mb P a0 A F qs a \<Longrightarrow> length qs = length P"
  using run_invD(1) by (metis length_map)

lemma run_inv_param:
  "run_inv env dis mb P a0 A F qs a \<Longrightarrow> i < length P \<Longrightarrow> snd (qs ! i) = P ! i"
  using run_invD(1) by (metis length_map nth_map)

lemma map_snd_update: "map snd qs = P \<Longrightarrow> i < length P \<Longrightarrow> map snd (qs[i := (q, P ! i)]) = P"
  by (metis list_update_id map_update snd_conv)

text \<open>Allocating one more queue.\<close>

lemma run_allocate:
  assumes inv: "run_inv env dis mb P a0 A F qs a"
    and i: "i < length P" "i \<notin> A" and ok: "queue_ok a0 (P ! i)"
    and freed: "\<And>j. j \<in> F \<Longrightarrow> \<not> coexist dis mb (P ! i) (P ! j)"
  shows "\<exists>fin bufs a'. allocate_buffers env (P ! i) a = Inr ((fin, bufs), a') \<and> dram_ok env a' \<and>
     (fin \<longrightarrow> (\<forall>q. dram_buffers q = bufs \<longrightarrow>
        run_inv env dis mb P a0 (insert i A) F (qs[i := (q, P ! i)]) a'))"
proof -
  note I = run_invD [OF inv]
  let ?ps = "P ! i"
  let ?cells = "List.product [0..<rows (param_grid_shape ?ps)] [0..<columns (param_grid_shape ?ps)]"
  have m: "channel_known ?ps a" "0 < queue_size ?ps"
    using ok I(13) [OF i] by (simp_all add: queue_ok_def)
  from allocate_cells_cases [OF I(2) m order_refl, of "[]"] obtain ok' bufs a' where
    run: "allocate_cells env ?ps ?cells [] a = Inr ((ok', bufs), a')"
    and len: "ok' \<longrightarrow> length bufs = length ?cells" and a': "dram_ok env a'"
    and h: "held a' = held a \<union> keys bufs" and fresh: "held a \<inter> keys bufs = {}"
    and d: "distinct (map buffer_key bufs)"
    and all: "ok' \<longrightarrow> allocated_all env ?ps (queue_size ?ps) a bufs a'" by auto
  have "run_inv env dis mb P a0 (insert i A) F (qs[i := (q, ?ps)]) a'"
    if ok': ok' and q: "dram_buffers q = bufs" for q
  proof -
    let ?qs = "qs[i := (q, ?ps)]"
    have li: "i < length qs" using i(1) run_inv_length [OF inv] by simp
    have new: "bufs_of ?qs i = bufs" using li q by simp
    have old: "bufs_of ?qs j = bufs_of qs j" if "j \<in> A" for j
      using that i(2) by (metis nth_list_update_neq)
    have iF: "i \<notin> F" using i(2) I(6) by blast
    have heldA: "keys (bufs_of qs j) \<subseteq> held a" if "j \<in> A" "j \<notin> F" for j
      using that I(7) by blast
    have sep: "apart bufs (bufs_of qs j)" if "j \<in> A" "coexist dis mb ?ps (P ! j)" for j
    proof (rule held_apart [OF a'])
      have jF: "j \<notin> F" using freed that(2) by blast
      show "keys bufs \<subseteq> held a'" "keys (bufs_of qs j) \<subseteq> held a'"
        using h heldA [OF that(1) jF] by blast+
      show "keys bufs \<inter> keys (bufs_of qs j) = {}" using heldA [OF that(1) jF] fresh by blast
    qed
    have heldi: "held a0 \<inter> keys bufs = {}" using fresh I(7) by blast
    have Un: "held a' = held a0 \<union> (\<Union>j \<in> insert i A - F. keys (bufs_of ?qs j))"
    proof -
      have "(\<Union>j \<in> insert i A - F. keys (bufs_of ?qs j)) =
          keys bufs \<union> (\<Union>j \<in> A - F. keys (bufs_of ?qs j))"
        using iF new by (simp add: insert_Diff_if)
      also have "(\<Union>j \<in> A - F. keys (bufs_of ?qs j)) = (\<Union>j \<in> A - F. keys (bufs_of qs j))"
        by (rule SUP_cong [OF refl]) (simp only: old DiffD1)
      finally show ?thesis unfolding h I(7) by (simp only: Un_ac)
    qed
    show ?thesis
      unfolding run_inv_def
    proof (intro conjI)
      have pick: "after_pick ?ps (channel_picker a) (channel_picker a')" "dram_cfg a' = dram_cfg a"
        "length (channel_allocators a') = length (channel_allocators a)"
        using all ok' by (simp_all add: allocated_all_def)
      show "is_closest (channel_picker a') \<longrightarrow> distinct (map (\<lambda>ps. node_name (node ps)) P)"
        using I(14) after_pick_closest [OF pick(1)] by simp
      show "\<forall>j < length P. j \<notin> insert i A \<longrightarrow> channel_known (P ! j) a'"
      proof (intro allI impI)
        fix j assume j: "j < length P" "j \<notin> insert i A"
        have "node_name (node ?ps) \<noteq> node_name (node (P ! j))" if "is_closest (channel_picker a)"
          using I(14) [OF that] j i(1) by (simp add: distinct_conv_nth)
        then show "channel_known (P ! j) a'"
          using channel_stays_known [OF I(13) [OF j(1)] pick(2,3,1)] j(2) by blast
      qed
      show "map snd ?qs = P" by (rule map_snd_update [OF I(1) i(1)])
      show "dram_cfg a' = dram_cfg a0" "length (channel_allocators a') = length (channel_allocators a0)"
        using all ok' I(3,4) by (simp_all add: allocated_all_def)
      show "insert i A \<subseteq> {..<length P}" "F \<subseteq> insert i A" using I(5,6) i(1) by auto
      show "\<forall>j \<in> insert i A. distinct (map buffer_key (bufs_of ?qs j)) \<and>
          length (bufs_of ?qs j) = grid_cells (P ! j)"
        using new old d len ok' I(8,9) by (auto simp: grid_cells_def length_product)
      show "\<forall>j \<in> insert i A - F. held a0 \<inter> keys (bufs_of ?qs j) = {}"
      proof
        fix j
        assume "j \<in> insert i A - F"
        then consider "j = i" | "j \<in> A" "j \<notin> F" by blast
        then show "held a0 \<inter> keys (bufs_of ?qs j) = {}"
        proof cases
          case 1
          then show ?thesis by (simp only: new heldi)
        next
          case 2
          then show ?thesis using I(10) [OF 2] by (simp only: old)
        qed
      qed
      show "\<forall>j \<in> insert i A - F. \<forall>k \<in> insert i A - F. j \<noteq> k \<longrightarrow>
          keys (bufs_of ?qs j) \<inter> keys (bufs_of ?qs k) = {}"
      proof (intro ballI impI)
        fix j k
        assume jk: "j \<in> insert i A - F" "k \<in> insert i A - F" "j \<noteq> k"
        then consider "j = i" "k \<in> A" "k \<notin> F" | "k = i" "j \<in> A" "j \<notin> F"
          | "j \<in> A" "j \<notin> F" "k \<in> A" "k \<notin> F" by blast
        then show "keys (bufs_of ?qs j) \<inter> keys (bufs_of ?qs k) = {}"
        proof cases
          case 1
          have "keys bufs \<inter> keys (bufs_of qs k) = {}" using heldA [OF 1(2,3)] fresh by blast
          then show ?thesis using 1 by (simp only: new old)
        next
          case 2
          have "keys (bufs_of qs j) \<inter> keys bufs = {}" using heldA [OF 2(2,3)] fresh by blast
          then show ?thesis using 2 by (simp only: new old)
        next
          case 3
          show ?thesis using I(11) [OF 3 jk(3)] 3 by (simp only: old)
        qed
      qed
      show "\<forall>j \<in> insert i A. \<forall>k \<in> insert i A. j \<noteq> k \<and> coexist dis mb (P ! j) (P ! k) \<longrightarrow>
          apart (bufs_of ?qs j) (bufs_of ?qs k)"
        using new old sep apart_sym coexist_sym I(12) by (auto 0 4)
    qed (use a' Un in simp_all)
  qed
  then show ?thesis
    using run m(2) a' by (intro exI [of _ ok'] exI [of _ bufs] exI [of _ a']) (simp add: allocate_buffers_def)
qed

lemma remove_part:
  "h' = h - K \<Longrightarrow> h = H \<union> (K \<union> U) \<Longrightarrow> H \<inter> K = {} \<Longrightarrow> K \<inter> U = {} \<Longrightarrow> h' = H \<union> U"
  by blast

lemma SUP_eq_const_empty: "(\<And>x. x \<in> A \<Longrightarrow> f x = {}) \<Longrightarrow> (\<Union>x \<in> A. f x) = {}"
  by blast

lemma deallocate_buffer_cfg:
  "deallocate_buffer b a = Inr a' \<Longrightarrow>
     dram_cfg a' = dram_cfg a \<and> length (channel_allocators a') = length (channel_allocators a) \<and>
     channel_picker a' = channel_picker a"
  by (auto simp: deallocate_buffer_def res_simps split: if_splits)

lemma dealloc_all_cfg:
  "fold_res deallocate_buffer bufs a = Inr a' \<Longrightarrow>
     dram_cfg a' = dram_cfg a \<and> length (channel_allocators a') = length (channel_allocators a) \<and>
     channel_picker a' = channel_picker a"
  by (induction bufs arbitrary: a) (fastforce simp: res_simps dest: deallocate_buffer_cfg)+

text \<open>Freeing a live queue.\<close>

lemma run_free:
  assumes inv: "run_inv env dis mb P a0 A F qs a" and i: "i \<in> A" "i \<notin> F" and ok: "queue_ok a0 (P ! i)"
  shows "\<exists>a'. deallocate_buffers (fst (qs ! i)) a = Inr a' \<and>
     (\<forall>q. dram_buffers q = bufs_of qs i \<longrightarrow>
        run_inv env dis mb P a0 A (insert i F) (qs[i := (q, P ! i)]) a')"
proof -
  note I = run_invD [OF inv]
  have sub: "keys (bufs_of qs i) \<subseteq> held a" using i I(7) by blast
  have "0 < length (bufs_of qs i)" using I(9) [OF i(1)] ok by (simp add: queue_ok_def grid_cells_def)
  then have ne: "bufs_of qs i \<noteq> []" by auto
  from deallocate_all_held [OF I(2) sub I(8) [OF i(1)]] obtain a' where
    a': "fold_res deallocate_buffer (bufs_of qs i) a = Inr a'" "dram_ok env a'"
      "held a' = held a - keys (bufs_of qs i)" by blast
  note cfg = dealloc_all_cfg [OF a'(1)]
  have "run_inv env dis mb P a0 A (insert i F) (qs[i := (q, P ! i)]) a'"
    if q: "dram_buffers q = bufs_of qs i" for q
  proof -
    let ?qs = "qs[i := (q, P ! i)]"
    have iP: "i < length P" using i(1) I(5) by blast
    then have "i < length qs" using run_inv_length [OF inv] by simp
    then have same: "bufs_of ?qs j = bufs_of qs j" for j using q by (cases "j = i") simp_all
    have known: "channel_known ps a' = channel_known ps a" for ps
      using cfg by (simp add: channel_known_def split: option.split)
    have disj: "keys (bufs_of qs i) \<inter> keys (bufs_of qs j) = {}" if "j \<in> A - insert i F" for j
      using that i I(11) by blast
    have "(\<Union>j \<in> A - F. keys (bufs_of qs j)) =
        keys (bufs_of qs i) \<union> (\<Union>j \<in> A - insert i F. keys (bufs_of qs j))" using i by blast
    moreover have "keys (bufs_of qs i) \<inter> (\<Union>j \<in> A - insert i F. keys (bufs_of qs j)) = {}"
      unfolding Int_UN_distrib by (rule SUP_eq_const_empty) (rule disj)
    ultimately have Un: "held a' = held a0 \<union> (\<Union>j \<in> A - insert i F. keys (bufs_of qs j))"
      using remove_part [OF a'(3)] I(7) I(10) [OF i] by simp
    show ?thesis
      unfolding run_inv_def same
    proof (intro conjI)
      show "map snd ?qs = P" by (rule map_snd_update [OF I(1) iP])
      show "A \<subseteq> {..<length P}" "insert i F \<subseteq> A" using I(5,6) i(1) by auto
      show "\<forall>j < length P. j \<notin> A \<longrightarrow> channel_known (P ! j) a'"
        using I(13) by (simp add: known)
    qed (use a'(2) Un cfg I in auto)
  qed
  then show ?thesis using a'(1) ne by (intro exI [of _ a']) (simp add: deallocate_buffers_def)
qed

section \<open>The static pass\<close>

lemma static_pass_run:
  assumes "run_inv env dis mb P a0 A {} qs a" "distinct is" "set is \<subseteq> {..<length P}"
    and "set is \<inter> A = {}" "\<forall>ps \<in> set P. queue_ok a0 ps"
  shows "\<exists>fin qs' dyn' a'. static_pass env dis mb is qs dyn a = Inr ((fin, qs', dyn'), a') \<and>
     map snd qs' = P \<and> dram_ok env a' \<and>
     (fin \<longrightarrow> dyn' = dyn @ filter (\<lambda>i. \<not> static_queue dis mb (P ! i)) is \<and>
        run_inv env dis mb P a0 (A \<union> {i \<in> set is. static_queue dis mb (P ! i)}) {} qs' a')"
  using assms
proof (induction "is" arbitrary: A qs dyn a)
  case Nil
  then show ?case
    using run_invD(1,2) [OF Nil(1)]
    by (intro exI [of _ True] exI [of _ qs] exI [of _ dyn] exI [of _ a]) simp
next
  case (Cons i "is")
  obtain q where q: "qs ! i = (q, P ! i)"
    using run_inv_param [OF Cons.prems(1), of i] Cons.prems(3) by (cases "qs ! i") auto
  have i: "i < length P" "i \<notin> A" "queue_ok a0 (P ! i)" using Cons.prems(3-5) by auto
  show ?case
  proof (cases "static_queue dis mb (P ! i)")
    case False
    then have "static_pass env dis mb (i # is) qs dyn a = static_pass env dis mb is qs (dyn @ [i]) a"
      using q by (simp add: static_queue_def)
    moreover have "{j \<in> set (i # is). static_queue dis mb (P ! j)} =
        {j \<in> set is. static_queue dis mb (P ! j)}" using False by auto
    moreover have "distinct is" "set is \<subseteq> {..<length P}" "set is \<inter> A = {}" using Cons.prems(2-4) by auto
    ultimately show ?thesis
      using Cons.IH [OF Cons.prems(1), of "dyn @ [i]"] Cons.prems(5) False by simp
  next
    case True
    from run_allocate [OF Cons.prems(1) i] obtain fin bufs a1 where
      al: "allocate_buffers env (P ! i) a = Inr ((fin, bufs), a1)" "dram_ok env a1"
      and inv: "fin \<longrightarrow> (\<forall>q. dram_buffers q = bufs \<longrightarrow>
        run_inv env dis mb P a0 (insert i A) {} (qs[i := (q, P ! i)]) a1)" by blast
    have step: "static_pass env dis mb (i # is) qs dyn a =
        (if \<not> fin then Inr ((False, qs, dyn), a1)
         else static_pass env dis mb is (qs[i := (q\<lparr>dram_buffers := bufs\<rparr>, P ! i)]) dyn a1)"
      using q True al(1) by (simp add: static_queue_def)
    show ?thesis
    proof (cases fin)
      case False
      then show ?thesis
        using al(2) run_invD(1) [OF Cons.prems(1)] unfolding step
        by (intro exI [of _ False] exI [of _ qs] exI [of _ dyn] exI [of _ a1]) simp
    next
      case fin: True
      let ?qs = "qs[i := (q\<lparr>dram_buffers := bufs\<rparr>, P ! i)]"
      have "run_inv env dis mb P a0 (insert i A) {} ?qs a1" using inv fin by simp
      from Cons.IH [OF this, of dyn] Cons.prems obtain fin' qs' dyn' a' where
        IH: "static_pass env dis mb is ?qs dyn a1 = Inr ((fin', qs', dyn'), a')" "map snd qs' = P"
          "dram_ok env a'"
          "fin' \<longrightarrow> dyn' = dyn @ filter (\<lambda>i. \<not> static_queue dis mb (P ! i)) is \<and>
             run_inv env dis mb P a0 (insert i A \<union> {i \<in> set is. static_queue dis mb (P ! i)}) {} qs' a'"
        by auto
      have "insert i A \<union> {i \<in> set is. static_queue dis mb (P ! i)} =
          A \<union> {j \<in> set (i # is). static_queue dis mb (P ! j)}" using True by auto
      then show ?thesis unfolding step using fin IH True by simp
    qed
  qed
qed

section \<open>The schedule of the dynamic queues\<close>

lemma insert_by_consumer_simps [simp]:
  "set (insert_by_consumer key q xs) = insert q (set xs)"
  "distinct (insert_by_consumer key q xs) \<longleftrightarrow> q \<notin> set xs \<and> distinct xs"
  by (induction key q xs rule: insert_by_consumer.induct) auto

text \<open>Epoch by epoch, the queues produced in it and the queues last read in it.\<close>

definition schedules ::
    "DRAMScheduleData list \<Rightarrow> nat set \<Rightarrow> (nat \<times> nat list \<times> nat list) list \<Rightarrow> bool" where
  "schedules qs D m \<longleftrightarrow>
     ordered_keys m \<and>
     (\<forall>i \<in> D. producer_epoch (snd (qs ! i)) \<in> fst ` set m \<and>
             last_consumer_epoch (snd (qs ! i)) \<in> fst ` set m) \<and>
     (\<forall>e al fr. map_of m e = Some (al, fr) \<longrightarrow>
        distinct al \<and> distinct fr \<and> set al = {i \<in> D. producer_epoch (snd (qs ! i)) = e} \<and>
        set fr = {i \<in> D. last_consumer_epoch (snd (qs ! i)) = e})"

text \<open>An epoch that is not in the map yet reads as two empty lists.\<close>

lemma schedules_lookup:
  assumes "schedules qs D m" "lookup_default ([], []) m e = (al, fr)"
  shows "distinct al" "distinct fr" "set al = {i \<in> D. producer_epoch (snd (qs ! i)) = e}"
    "set fr = {i \<in> D. last_consumer_epoch (snd (qs ! i)) = e}"
proof -
  have "distinct al \<and> distinct fr \<and> set al = {i \<in> D. producer_epoch (snd (qs ! i)) = e} \<and>
      set fr = {i \<in> D. last_consumer_epoch (snd (qs ! i)) = e}"
  proof (cases "map_of m e")
    case None
    then have e: "e \<notin> fst ` set m" by (simp add: map_of_eq_None_iff)
    have "producer_epoch (snd (qs ! i)) \<noteq> e \<and> last_consumer_epoch (snd (qs ! i)) \<noteq> e" if "i \<in> D" for i
      using assms(1) that e unfolding schedules_def by blast
    moreover have "al = []" "fr = []" using assms(2) None by (simp_all add: lookup_default_def)
    ultimately show ?thesis by auto
  next
    case (Some v)
    then have "map_of m e = Some (al, fr)" using assms(2) by (simp add: lookup_default_def)
    then show ?thesis using assms(1) unfolding schedules_def by blast
  qed
  then show "distinct al" "distinct fr" "set al = {i \<in> D. producer_epoch (snd (qs ! i)) = e}"
    "set fr = {i \<in> D. last_consumer_epoch (snd (qs ! i)) = e}" by simp_all
qed

lemma schedule_queue_schedules:
  assumes m: "schedules qs D m" and i: "i \<notin> D"
  shows "schedules qs (insert i D) (schedule_queue qs i m)"
proof -
  let ?p = "producer_epoch (snd (qs ! i))" and ?l = "last_consumer_epoch (snd (qs ! i))"
  let ?key = "\<lambda>j. last_consumer_epoch (snd (qs ! j))"
  obtain al fr where alfr: "lookup_default ([], []) m ?p = (al, fr)" by fastforce
  define m1 where "m1 = omap_insert ?p (insert_by_consumer ?key i al, fr) m"
  obtain al2 fr2 where alfr2: "lookup_default ([], []) m1 ?l = (al2, fr2)" by fastforce
  have ord: "ordered_keys m" using m by (simp add: schedules_def)
  then have ord1: "ordered_keys m1" by (simp add: m1_def)
  have res: "schedule_queue qs i m = omap_insert ?l (al2, fr2 @ [i]) m1"
    using alfr alfr2 unfolding m1_def by (simp add: schedule_queue_def Let_def)
  note S = schedules_lookup [OF m alfr]
  have look: "map_of m1 e = (if e = ?p then Some (insert_by_consumer ?key i al, fr) else map_of m e)" for e
    using ord by (simp add: m1_def)
  have S2: "distinct al2 \<and> distinct fr2 \<and> set fr2 = {j \<in> D. ?key j = ?l} \<and>
      set al2 = {j \<in> insert i D. producer_epoch (snd (qs ! j)) = ?l}"
  proof (cases "?l = ?p")
    case True
    with alfr2 look have "al2 = insert_by_consumer ?key i al" "fr2 = fr" by (simp_all add: lookup_default_def)
    with S i True show ?thesis by auto
  next
    case False
    with alfr2 look have "lookup_default ([], []) m ?l = (al2, fr2)" by (simp add: lookup_default_def)
    from schedules_lookup [OF m this] False show ?thesis by auto
  qed
  have entry: "distinct al' \<and> distinct fr' \<and>
      set al' = {j \<in> insert i D. producer_epoch (snd (qs ! j)) = e} \<and> set fr' = {j \<in> insert i D. ?key j = e}"
    if e: "map_of (omap_insert ?l (al2, fr2 @ [i]) m1) e = Some (al', fr')" for e al' fr'
  proof (cases "e = ?l")
    case True
    with e ord1 have "al' = al2" "fr' = fr2 @ [i]" by simp_all
    with S2 i True show ?thesis by auto
  next
    case l: False
    with e ord1 have e1: "map_of m1 e = Some (al', fr')" by simp
    show ?thesis
    proof (cases "e = ?p")
      case True
      with e1 look have "al' = insert_by_consumer ?key i al" "fr' = fr" by simp_all
      with S i l True show ?thesis by auto
    next
      case False
      with e1 look have "lookup_default ([], []) m e = (al', fr')" by (simp add: lookup_default_def)
      from schedules_lookup [OF m this] l False show ?thesis by auto
    qed
  qed
  have "fst ` set (omap_insert ?l (al2, fr2 @ [i]) m1) = insert ?l (insert ?p (fst ` set m))"
    by (simp add: m1_def)
  moreover have "\<forall>j \<in> D. producer_epoch (snd (qs ! j)) \<in> fst ` set m \<and> ?key j \<in> fst ` set m"
    using m unfolding schedules_def by blast
  ultimately have "\<forall>j \<in> insert i D. producer_epoch (snd (qs ! j)) \<in> fst ` set (omap_insert ?l (al2, fr2 @ [i]) m1) \<and>
      ?key j \<in> fst ` set (omap_insert ?l (al2, fr2 @ [i]) m1)" by blast
  moreover have "ordered_keys (omap_insert ?l (al2, fr2 @ [i]) m1)" using ord1 by simp
  ultimately show ?thesis unfolding res schedules_def using entry by blast
qed

lemma schedule_all:
  assumes "schedules qs D m" "distinct is" "set is \<inter> D = {}"
  shows "schedules qs (D \<union> set is) (fold (schedule_queue qs) is m)"
  using assms
proof (induction "is" arbitrary: D m)
  case (Cons i "is")
  have "schedules qs (insert i D) (schedule_queue qs i m)"
    using Cons.prems by (intro schedule_queue_schedules) auto
  from Cons.IH [OF this] Cons.prems show ?case by auto
qed simp

text \<open>The schedule reads only the parameters of the queues.\<close>

lemma schedules_cong: "map snd qs = map snd qs' \<Longrightarrow> D \<subseteq> {..<length qs} \<Longrightarrow> schedules qs D m = schedules qs' D m"
proof -
  assume *: "map snd qs = map snd qs'" "D \<subseteq> {..<length qs}"
  then have "snd (qs ! i) = snd (qs' ! i)" if "i \<in> D" for i
    using that by (metis length_map lessThan_iff nth_map subsetD)
  then show ?thesis unfolding schedules_def by (simp cong: conj_cong)
qed

end
