(* ===== verification/Dram_Placement.thy ===== *)
theory Dram_Placement
  imports Dram_Allocator
begin

text \<open>
  The parts of \<open>placer/dram.cpp\<close> around the allocator: the physical coordinates of cores, the
  decision whether all queues can be static, the static attempt, and the second pass of
  \<open>place_dram_queues\<close>, which allocates the scheduled queues chip by chip and stores their
  placements. The first pass (which reads the graph) and \<open>get_reader_cores\<close> (floating point) are
  not modelled; the schedule is an argument.
\<close>

definition logical_to_physical_coord :: "Coord \<Rightarrow> DeviceConfig \<Rightarrow> nat list \<Rightarrow> Coord" where
  "logical_to_physical_coord c d harvested =
     (if is_grayskull d then c
      else let cl = (if col c \<le> 3 then add32 (col c) 1 else add32 (col c) 2);
               r0 = (if row c \<le> 4 then add32 (row c) 1 else add32 (row c) 2);
               r = fold (\<lambda>h r. if r \<ge> h then add32 r 1 else r) harvested r0
           in mk_coord r cl)"

definition get_writer_core :: "OpPlacement \<Rightarrow> Coord \<Rightarrow> Coord" where
  "get_writer_core placement dram_buffer =
     mk_coord (add32 (row (range_start (placed_cores placement))) (row dram_buffer))
              (add32 (col (range_start (placed_cores placement))) (col dram_buffer))"

definition get_harvested_rows :: "nat \<Rightarrow> nat list" where
  "get_harvested_rows harvest_mask = filter (\<lambda>i. odd (harvest_mask div 2 ^ i)) [0..<32]"

section \<open>Static or dynamic\<close>

text \<open>The three running sums (32 bits) over the queues of a chip.\<close>

definition demand ::
    "DRAMScheduleData list \<Rightarrow> nat \<times> nat \<times> nat" where
  "demand queues =
     fold (\<lambda>(_, ps) (hard, soft, regular).
         let sz = queue_size ps mod 2 ^ 32 in
         if in_p2p_region_hard ps then (add32 hard sz, soft, regular)
         else if in_p2p_region_soft ps then (hard, add32 soft sz, regular)
         else (hard, soft, add32 regular sz)) queues (0, 0, 0)"

definition chip_fits_static :: "DRAMScheduleData list \<Rightarrow> DramAllocator \<Rightarrow> bool" where
  "chip_fits_static queues a =
     (let (hard, soft, regular) = demand queues;
          (free_regular, free_p2p) = get_dram_free_space a in
      if hard < free_p2p \<and> regular < free_regular
      then \<not> soft > add64 (sub64 free_p2p hard) (sub64 free_regular regular)
      else False)"

definition disable_dynamic_dram_if_possible ::
    "bool \<Rightarrow> (nat \<times> DRAMScheduleData list) list \<Rightarrow> DramAllocator list \<Rightarrow> bool res" where
  "disable_dynamic_dram_if_possible env_disable_automatic scheduled allocators =
     (if env_disable_automatic then Inr False
      else fold_res (\<lambda>(chip, queues) dis.
             res_bind (vec_at allocators chip) (\<lambda>a. Inr (dis \<and> chip_fits_static queues a)))
             scheduled True)"

definition try_static_dram_placement ::
    "DramEnv \<Rightarrow> DRAMScheduleData list \<Rightarrow> int \<Rightarrow> DramAllocator \<Rightarrow>
     ((bool \<times> DRAMScheduleData list) \<times> DramAllocator) res" where
  "try_static_dram_placement env queues microbatch_size a =
     res_bind (allocate_queues env queues True microbatch_size a) (\<lambda>((ok, queues'), a').
       if \<not> ok
       then res_bind (reset_dram_allocator env a') (\<lambda>a''.
              Inr ((False, map (\<lambda>(q, ps). (q\<lparr>dram_buffers := []\<rparr>, ps)) queues'), a''))
       else Inr ((True, queues'), a'))"

section \<open>The second pass\<close>

text \<open>The state of the second pass: the schedule, the allocators and the placements.\<close>

record SecondPass =
  scheduled :: "(nat \<times> DRAMScheduleData list) list"
  dram_allocators :: "DramAllocator list"
  queue_placements :: "(string \<times> QueuePlacement) list"

definition place_chip ::
    "bool \<Rightarrow> DramEnv \<Rightarrow> bool \<Rightarrow> int \<Rightarrow> nat \<Rightarrow> SecondPass \<Rightarrow> SecondPass res" where
  "place_chip env_disable_automatic env force_disable microbatch_size chip s =
     (case map_of (scheduled s) chip of
        None \<Rightarrow> Inr s
      | Some queues \<Rightarrow>
          res_bind (vec_at (dram_allocators s) chip) (\<lambda>a.
          res_bind (disable_dynamic_dram_if_possible env_disable_automatic (scheduled s)
                      (dram_allocators s)) (\<lambda>possible.
          let disable_dynamic_dram = possible \<or> force_disable in
          res_bind (if disable_dynamic_dram
                    then try_static_dram_placement env queues microbatch_size a
                    else Inr ((False, queues), a)) (\<lambda>((ok, queues1), a1).
          res_bind (if \<not> ok then allocate_queues env queues1 False microbatch_size a1
                    else Inr ((True, queues1), a1)) (\<lambda>((ok2, queues2), a2).
          res_bind (tt_assert ok2) (\<lambda>_.
            Inr (s\<lparr>scheduled := AList.update chip queues2 (scheduled s),
                   dram_allocators := (dram_allocators s)[chip := a2],
                   queue_placements :=
                     fold (\<lambda>(q, ps). AList.update (node_name (node ps)) q) queues2
                       (queue_placements s)\<rparr>)))))))"

definition link_queue ::
    "string \<times> string \<Rightarrow> (string \<times> QueuePlacement) list \<Rightarrow> QueuePlacement \<Rightarrow>
     (string \<times> QueuePlacement) list" where
  "link_queue kv m dflt =
     (let (key, val) = kv; m1 = m;
          k0 = lookup_default dflt m1 key; v0 = lookup_default dflt m1 val;
          m2 = AList.update key (k0\<lparr>dram_buffers := dram_buffers v0, write_only := True\<rparr>) m1;
          v1 = (lookup_default dflt m2 val)\<lparr>read_only := True\<rparr>;
          m3 = AList.update val v1 m2;
          k1 = (lookup_default dflt m3 key)\<lparr>queue_chip_id := queue_chip_id v1\<rparr>
      in AList.update key k1 m3)"

definition place_scheduled_queues ::
    "bool \<Rightarrow> DramEnv \<Rightarrow> bool \<Rightarrow> int \<Rightarrow> nat \<Rightarrow> (string \<times> string) list \<Rightarrow> (string \<times> string) list \<Rightarrow>
     QueuePlacement \<Rightarrow> SecondPass \<Rightarrow> SecondPass res" where
  "place_scheduled_queues env_disable_automatic env force_disable microbatch_size max_chip_id
       linked_queues subgraph_link_queues dflt s =
     res_bind (fold_res (place_chip env_disable_automatic env force_disable microbatch_size)
                 [0..<max_chip_id + 1] s) (\<lambda>s'.
       Inr (s'\<lparr>queue_placements :=
              fold (\<lambda>kv m. link_queue kv m dflt) (linked_queues @ subgraph_link_queues)
                (queue_placements s')\<rparr>))"

end
