(* ===== verification/Dram_Spec.thy ===== *)
theory Dram_Spec
  imports Dram_Allocator_Facts Dram_Placement
begin

text \<open>
  What the DRAM placer guarantees for whole queues, and three places where the code does not keep
  what it means to: the reported location of a channel, the second half of channel 0 of a
  wormhole device, and resetting the allocator.
\<close>

section \<open>A sample allocator\<close>

definition sample_dram_env :: DramEnv where
  "sample_dram_env =
     \<lparr>PYBUDA_DISABLE_DRAM0 = False, PYBUDA_CLOSEST_NO_EPOCH = False, dram_grid_size = mk_shape 10 12\<rparr>"

definition sample_dram_config :: DramPlacerConfig where
  "sample_dram_config =
     \<lparr>dp_device_config = \<lparr>arch = GRAYSKULL, chips_with_mmio = [0], chip_coord_to_chip_id = [],
        galaxy_shelves = []\<rparr>,
      dram_config = [\<lparr>channel = 0, sub_channel = 0, channel_size = 100, location = mk_coord 0 0,
                      initial_dram_offset = 0\<rparr>,
                     \<lparr>channel = 1, sub_channel = 0, channel_size = 100, location = mk_coord 5 0,
                      initial_dram_offset = 0\<rparr>],
      input_queues_on_host = True, dp_output_queues_on_host = True,
      force_disable_dynamic_dram = False, p2p_offset = 0, p2p_size = 100,
      host_mmio_range_offset = 0, host_mmio_range_size = 100, manual_dram_queue_placement = []\<rparr>"

definition sample_dram :: DramAllocator where
  "sample_dram =
     \<lparr>dram_cfg = sample_dram_config, allocator_chip_id = 0,
      channel_allocators = [best_fit_init 0 99 empty_blocks, best_fit_init 0 99 empty_blocks],
      p2p_allocator = best_fit_init 0 99 empty_blocks, channel_picker = RoundRobinPicker 0\<rparr>"

definition sample_queue :: "nat \<Rightarrow> QueueDRAMPlacementParameters" where
  "sample_queue sz =
     \<lparr>node = \<lparr>node_name = ''q'', is_kQueue = True, queue_type = GradAccumulator, num_entries = 1,
             cross_epoch_type = False, cross_chip_type = False\<rparr>,
      param_grid_shape = mk_shape 1 2, consumer_loc = [], producer_loc = [],
      producer_epoch = 0, last_consumer_epoch = 0, in_p2p_region_soft = False,
      in_p2p_region_hard = False, param_is_input = False, is_prologue = False, queue_size = sz\<rparr>"

lemma sample_channel: "some_range (best_fit_init 0 99 empty_blocks)"
  using init_state(1) [of 0 99 empty_blocks] by (auto simp: some_range_def empty_blocks_def)

lemma sample_dram_ok: "dram_ok sample_dram_env sample_dram"
  using sample_channel
  by (simp add: dram_ok_def sample_dram_def picker_ok_def rr_ok_def rr_start_def sample_dram_env_def
      real_channel_known_def sample_dram_config_def is_wormhole_b0_def is_blackhole_def)

lemma sample_channel_known: "channel_known (sample_queue sz) sample_dram"
  by (simp add: channel_known_def picker_ready_def sample_dram_def sample_dram_config_def)

section \<open>One queue\<close>

text \<open>
  C17 (functional). Allocating a queue of positive size, whose manual channel exists if it has one, never
  throws, with any channel picker; but that of the algorithm \<open>CLOSEST\<close>, when it is asked, needs that the
  configured channels exist, that every buffer of the queue has the location of a consumer, and that a
  solution it kept for a queue of the same name covers this one (\<open>channel_known\<close>). The allocation adds to the buffers the
  allocator holds exactly the ones it returns, all fresh, one per core of the queue's grid when it
  succeeds; and no two buffers held in the same region and channel overlap.
\<close>

theorem allocate_buffers_correct:
  assumes "dram_ok env a" "channel_known ps a" "0 < queue_size ps"
  shows "\<exists>ok bufs a'. allocate_buffers env ps a = Inr ((ok, bufs), a') \<and>
           dram_ok env a' \<and> held a' = held a \<union> buffer_key ` set bufs \<and>
           held a \<inter> buffer_key ` set bufs = {} \<and> distinct (map buffer_key bufs) \<and>
           (\<forall>b \<in> set bufs. buffer_size b = queue_size ps) \<and>
           (ok \<longrightarrow> length bufs = rows (param_grid_shape ps) * columns (param_grid_shape ps)) \<and>
           (\<forall>p i x n y m. (p, i, x, n) \<in> held a' \<and> (p, i, y, m) \<in> held a' \<and> (x, n) \<noteq> (y, m) \<longrightarrow>
              span x n \<inter> span y m = {})"
proof -
  let ?cells = "List.product [0..<rows (param_grid_shape ps)] [0..<columns (param_grid_shape ps)]"
  from allocate_cells_cases [OF assms order_refl, of "[]"] obtain ok bufs a' where
    "allocate_cells env ps ?cells [] a = Inr ((ok, bufs), a')"
    "ok \<longrightarrow> length bufs = length ?cells" "dram_ok env a'" "held a' = held a \<union> keys bufs"
    "held a \<inter> keys bufs = {}" "distinct (map buffer_key bufs)"
    "\<forall>b \<in> set bufs. buffer_size b = queue_size ps" by auto
  moreover from this(3) have "\<forall>p i x n y m. (p, i, x, n) \<in> held a' \<and> (p, i, y, m) \<in> held a' \<and>
      (x, n) \<noteq> (y, m) \<longrightarrow> span x n \<inter> span y m = {}"
    using held_disjoint by blast
  ultimately show ?thesis
    using assms(3) by (simp add: allocate_buffers_def grid_cells_length keys_def)
qed

theorem allocate_buffers_correct_witness:
  "\<exists>ok bufs a'. allocate_buffers sample_dram_env (sample_queue 30) sample_dram = Inr ((ok, bufs), a') \<and>
     held a' = held sample_dram \<union> buffer_key ` set bufs"
proof -
  have "0 < queue_size (sample_queue 30)" by (simp add: sample_queue_def)
  from allocate_buffers_correct [OF sample_dram_ok sample_channel_known this] show ?thesis by blast
qed

text \<open>
  C32 (roundtrip). Freeing the buffers that an allocation returned for a queue succeeds and restores exactly
  the buffers held before. (The queue has a positive size and a known channel as in the previous property of
  this theory; for the algorithm \<open>CLOSEST\<close> this includes the locations of the consumers.)
\<close>

theorem queue_buffers_roundtrip:
  assumes "dram_ok env a" "channel_known ps a" "0 < queue_size ps"
    and "allocate_buffers env ps a = Inr ((ok, bufs), a')" "dram_buffers q = bufs" "bufs \<noteq> []"
  shows "\<exists>a''. deallocate_buffers q a' = Inr a'' \<and> dram_ok env a'' \<and> held a'' = held a"
proof -
  let ?cells = "List.product [0..<rows (param_grid_shape ps)] [0..<columns (param_grid_shape ps)]"
  from allocate_cells_cases [OF assms(1-3) order_refl, of "[]"] obtain ok' bufs' b where
    *: "allocate_cells env ps ?cells [] a = Inr ((ok', bufs'), b)" "dram_ok env b"
    "held b = held a \<union> keys bufs'" "held a \<inter> keys bufs' = {}" "distinct (map buffer_key bufs')" by auto
  with assms(3,4) have eq: "bufs' = bufs" "b = a'" by (simp_all add: allocate_buffers_def)
  have "keys bufs \<subseteq> held a'" "distinct (map buffer_key bufs)" "dram_ok env a'"
    using * eq by auto
  from deallocate_all_held [OF this(3,1,2)] obtain a'' where
    "fold_res deallocate_buffer bufs a' = Inr a''" "dram_ok env a''" "held a'' = held a' - keys bufs" by blast
  moreover have "held a' - keys bufs = held a" using *(3,4) unfolding eq by blast
  ultimately show ?thesis using assms(5,6) by (simp add: deallocate_buffers_def)
qed

theorem queue_buffers_roundtrip_witness:
  "\<exists>ok bufs a' a''. allocate_buffers sample_dram_env (sample_queue 30) sample_dram = Inr ((ok, bufs), a') \<and>
     deallocate_buffers
       \<lparr>queue_name = ''q'', queue_input_name = ''op'', queue_grid_shape = mk_shape 1 2, on_host = False,
        queue_chip_id = 0, dram_buffers = bufs, host_buffers = [], read_only = False,
        write_only = False, write_stride = -1, epoch_allocate = -1, epoch_deallocate = -1\<rparr> a' = Inr a'' \<and>
     held a'' = held sample_dram"
proof -
  have sz: "0 < queue_size (sample_queue 30)" by (simp add: sample_queue_def)
  have "(case allocate_buffers sample_dram_env (sample_queue 30) sample_dram of
      Inl _ \<Rightarrow> False | Inr ((ok, bufs), a') \<Rightarrow> bufs \<noteq> [])" by code_simp
  then obtain ok bufs a' where
    run: "allocate_buffers sample_dram_env (sample_queue 30) sample_dram = Inr ((ok, bufs), a')"
    and ne: "bufs \<noteq> []" by (auto split: sum.splits)
  let ?q = "\<lparr>queue_name = ''q'', queue_input_name = ''op'', queue_grid_shape = mk_shape 1 2,
      on_host = False, queue_chip_id = 0, dram_buffers = bufs, host_buffers = [], read_only = False,
      write_only = False, write_stride = -1, epoch_allocate = -1, epoch_deallocate = -1\<rparr>"
  have "dram_buffers ?q = bufs" by simp
  from queue_buffers_roundtrip [OF sample_dram_ok sample_channel_known sz run this ne] run
  show ?thesis by blast
qed

text \<open>
  The search for a channel is complete: a buffer is refused only when no free
  block of any channel is large enough (for a queue that must be in the peer-to-peer region, when
  no block of that region is), and a refusal changes nothing the allocator holds.
\<close>

theorem refused_only_when_full:
  assumes "dram_ok env a" "channel_known ps a" "0 < queue_size ps"
    and "row c < rows (param_grid_shape ps)" "col c < columns (param_grid_shape ps)"
    and "allocate_cell env ps c a = Inr (None, a')"
  shows "held a' = held a \<and>
         (in_p2p_region_soft ps \<or> in_p2p_region_hard ps \<longrightarrow>
            (\<forall>b \<in> free_of (p2p_allocator a). block_size b < queue_size ps)) \<and>
         (\<not> in_p2p_region_hard ps \<longrightarrow>
            (\<forall>B \<in> set (channel_allocators a). \<forall>b \<in> free_of B. block_size b < queue_size ps))"
  using allocate_cell_cases [OF assms(1-5)] assms(6) by (auto simp: no_channel_fits_def)

theorem refused_only_when_full_witness:
  "\<exists>a'. allocate_cell sample_dram_env (sample_queue 101) (mk_coord 0 0) sample_dram = Inr (None, a') \<and>
     held a' = held sample_dram"
proof -
  have sz: "0 < queue_size (sample_queue 101)" by (simp add: sample_queue_def)
  have "(case allocate_cell sample_dram_env (sample_queue 101) (mk_coord 0 0) sample_dram of
      Inr (None, _) \<Rightarrow> True | _ \<Rightarrow> False)" by code_simp
  then obtain a' where
    run: "allocate_cell sample_dram_env (sample_queue 101) (mk_coord 0 0) sample_dram = Inr (None, a')"
    by (auto split: sum.splits option.splits)
  have "row (mk_coord 0 0) < rows (param_grid_shape (sample_queue 101))"
    "col (mk_coord 0 0) < columns (param_grid_shape (sample_queue 101))" by (simp_all add: sample_queue_def)
  from refused_only_when_full [OF sample_dram_ok sample_channel_known sz this run] run show ?thesis by blast
qed

end
