(* ===== verification/Dram_Queues.thy ===== *)
theory Dram_Queues
  imports Dram_Schedule Dram_Spec "HOL-Library.Multiset"
begin

text \<open>
  The guarantees of \<open>allocate_queues\<close> and of the static attempt of \<open>dram.cpp\<close>: no two queues
  that are alive at the same time get overlapping buffers, whatever mix of static and dynamic
  queues is scheduled, and every run returns.
\<close>

section \<open>One epoch\<close>

lemma allocate_dynamic_run:
  assumes "run_inv env dis mb P a0 A F qs a" "distinct is" "set is \<subseteq> {..<length P}" "set is \<inter> A = {}"
    and "\<forall>ps \<in> set P. queue_ok a0 ps"
    and "\<forall>i \<in> set is. \<forall>j \<in> F. \<not> coexist dis mb (P ! i) (P ! j)"
  shows "\<exists>fin qs' a'. allocate_dynamic env is qs a = Inr ((fin, qs'), a') \<and>
     map snd qs' = P \<and> dram_ok env a' \<and> (fin \<longrightarrow> run_inv env dis mb P a0 (A \<union> set is) F qs' a')"
  using assms
proof (induction "is" arbitrary: A qs a)
  case Nil
  then show ?case
    using run_invD(1,2) [OF Nil(1)] by (intro exI [of _ True] exI [of _ qs] exI [of _ a]) simp
next
  case (Cons i "is")
  obtain q where q: "qs ! i = (q, P ! i)"
    using run_inv_param [OF Cons.prems(1), of i] Cons.prems(3) by (cases "qs ! i") auto
  have i: "i < length P" "i \<notin> A" "queue_ok a0 (P ! i)" using Cons.prems(3-5) by auto
  have fr: "\<not> coexist dis mb (P ! i) (P ! j)" if "j \<in> F" for j using Cons.prems(6) that by simp
  from run_allocate [OF Cons.prems(1) i fr] obtain fin bufs a1 where
    al: "allocate_buffers env (P ! i) a = Inr ((fin, bufs), a1)" "dram_ok env a1"
    and inv: "fin \<longrightarrow> (\<forall>q. dram_buffers q = bufs \<longrightarrow>
      run_inv env dis mb P a0 (insert i A) F (qs[i := (q, P ! i)]) a1)" by blast
  let ?qs = "qs[i := (q\<lparr>dram_buffers := bufs, epoch_allocate := to_int32 (producer_epoch (P ! i))\<rparr>, P ! i)]"
  have step: "allocate_dynamic env (i # is) qs a =
      (if \<not> fin then Inr ((False, qs), a1) else allocate_dynamic env is ?qs a1)"
    using q al(1) by simp
  show ?case
  proof (cases fin)
    case False
    then show ?thesis
      using al(2) run_invD(1) [OF Cons.prems(1)] unfolding step
      by (intro exI [of _ False] exI [of _ qs] exI [of _ a1]) simp
  next
    case True
    have "run_inv env dis mb P a0 (insert i A) F ?qs a1" using inv True by simp
    from Cons.IH [OF this] Cons.prems obtain fin' qs' a' where
      "allocate_dynamic env is ?qs a1 = Inr ((fin', qs'), a')" "map snd qs' = P" "dram_ok env a'"
      "fin' \<longrightarrow> run_inv env dis mb P a0 (insert i A \<union> set is) F qs' a'" by auto
    then show ?thesis unfolding step using True by simp
  qed
qed

lemma free_dynamic_run:
  assumes "run_inv env dis mb P a0 A F qs a" "distinct is" "set is \<subseteq> A" "set is \<inter> F = {}"
    and "\<forall>ps \<in> set P. queue_ok a0 ps"
  shows "\<exists>qs' a'. free_dynamic is qs a = Inr (qs', a') \<and> run_inv env dis mb P a0 A (F \<union> set is) qs' a'"
  using assms
proof (induction "is" arbitrary: F qs a)
  case Nil
  then show ?case by (simp add: free_dynamic_def)
next
  case (Cons i "is")
  have i: "i \<in> A" "i \<notin> F" using Cons.prems(3,4) by auto
  then have iP: "i < length P" using run_invD(5) [OF Cons.prems(1)] by blast
  then have ok: "queue_ok a0 (P ! i)" using Cons.prems(5) by simp
  obtain q where q: "qs ! i = (q, P ! i)"
    using run_inv_param [OF Cons.prems(1) iP] by (cases "qs ! i") auto
  from run_free [OF Cons.prems(1) i ok] obtain a1 where
    a1: "deallocate_buffers q a = Inr a1"
      "\<forall>q'. dram_buffers q' = dram_buffers q \<longrightarrow>
         run_inv env dis mb P a0 A (insert i F) (qs[i := (q', P ! i)]) a1" using q by auto
  let ?qs = "qs[i := (q\<lparr>epoch_deallocate := to_int32 (last_consumer_epoch (P ! i))\<rparr>, P ! i)]"
  have step: "free_dynamic (i # is) qs a = free_dynamic is ?qs a1"
    using q a1(1) by (simp add: free_dynamic_def)
  have "run_inv env dis mb P a0 A (insert i F) ?qs a1" using a1(2) by simp
  from Cons.IH [OF this] Cons.prems show ?case unfolding step by auto
qed

section \<open>All epochs\<close>

text \<open>
  Before the epochs \<open>eps\<close> are run, the dynamic queues produced before epoch \<open>b\<close> are allocated
  and those last read before it are freed.
\<close>

lemma run_epochs_run:
  assumes "ordered_keys eps" "\<forall>k \<in> fst ` set eps. b \<le> k"
    and "\<forall>i \<in> D. b \<le> producer_epoch (P ! i) \<longrightarrow> producer_epoch (P ! i) \<in> fst ` set eps"
    and "\<forall>i \<in> D. b \<le> last_consumer_epoch (P ! i) \<longrightarrow> last_consumer_epoch (P ! i) \<in> fst ` set eps"
    and "\<forall>e al fr. (e, al, fr) \<in> set eps \<longrightarrow> distinct al \<and> distinct fr \<and>
           set al = {i \<in> D. producer_epoch (P ! i) = e} \<and> set fr = {i \<in> D. last_consumer_epoch (P ! i) = e}"
    and "run_inv env dis mb P a0 (S \<union> {i \<in> D. producer_epoch (P ! i) < b})
           {i \<in> D. last_consumer_epoch (P ! i) < b} qs a"
    and D: "D \<subseteq> {..<length P}" "S \<inter> D = {}" "\<forall>i \<in> D. \<not> static_queue dis mb (P ! i)"
    and ok: "\<forall>ps \<in> set P. queue_ok a0 ps"
  shows "\<exists>fin qs' a'. run_epochs env eps qs a = Inr ((fin, qs'), a') \<and> map snd qs' = P \<and> dram_ok env a' \<and>
     (fin \<longrightarrow> run_inv env dis mb P a0 (S \<union> D) D qs' a')"
  using assms(1-6)
proof (induction eps arbitrary: b qs a)
  case Nil
  have "S \<union> {i \<in> D. producer_epoch (P ! i) < b} = S \<union> D" "{i \<in> D. last_consumer_epoch (P ! i) < b} = D"
    using Nil(3,4) by (auto simp: not_le)
  then show ?case
    using Nil(6) run_invD(1,2) [OF Nil(6)]
    by (intro exI [of _ True] exI [of _ qs] exI [of _ a]) simp
next
  case (Cons ep eps)
  obtain e al fr where ep: "ep = (e, al, fr)" by (cases ep)
  let ?prod = "\<lambda>i. producer_epoch (P ! i)" and ?last = "\<lambda>i. last_consumer_epoch (P ! i)"
  have E: "distinct al" "distinct fr" "set al = {i \<in> D. ?prod i = e}" "set fr = {i \<in> D. ?last i = e}"
    using Cons.prems(5) ep by auto
  have be: "b \<le> e" and later: "\<forall>k \<in> fst ` set eps. e < k" using Cons.prems(1,2) ep by auto
  have none: "{i \<in> D. ?prod i < b} = {i \<in> D. ?prod i < e}" "{i \<in> D. ?last i < b} = {i \<in> D. ?last i < e}"
  proof -
    have ks: "fst ` set (ep # eps) = insert e (fst ` set eps)" by (simp add: ep)
    have lt: "x < b \<longleftrightarrow> x < e" if "b \<le> x \<longrightarrow> x \<in> fst ` set (ep # eps)" for x
    proof -
      from that consider "x < b" | "x = e" "b \<le> x" | "e < x" "b \<le> x" unfolding ks using later by force
      then show ?thesis using be by cases simp_all
    qed
    show "{i \<in> D. ?prod i < b} = {i \<in> D. ?prod i < e}"
      by (intro Collect_cong conj_cong refl lt) (use Cons.prems(3) in blast)
    show "{i \<in> D. ?last i < b} = {i \<in> D. ?last i < e}"
      by (intro Collect_cong conj_cong refl lt) (use Cons.prems(4) in blast)
  qed
  let ?A = "S \<union> {i \<in> D. ?prod i < e}" and ?F = "{i \<in> D. ?last i < e}"
  have inv: "run_inv env dis mb P a0 ?A ?F qs a" using Cons.prems(6) unfolding none .
  have sub: "set al \<subseteq> {..<length P}" "set al \<inter> ?A = {}" using E(3) D(1,2) by auto
  have gone: "\<forall>i \<in> set al. \<forall>j \<in> ?F. \<not> coexist dis mb (P ! i) (P ! j)"
    using E(3) D(3) by (auto simp: coexist_def)
  from allocate_dynamic_run [OF inv E(1) sub ok gone] obtain fin qs1 a1 where
    al: "allocate_dynamic env al qs a = Inr ((fin, qs1), a1)" "map snd qs1 = P" "dram_ok env a1"
      "fin \<longrightarrow> run_inv env dis mb P a0 (?A \<union> set al) ?F qs1 a1" by blast
  show ?case
  proof (cases fin)
    case False
    then show ?thesis using al(1-3) ep by (intro exI [of _ False] exI [of _ qs1] exI [of _ a1]) simp
  next
    case True
    have A': "?A \<union> set al = S \<union> {i \<in> D. ?prod i < Suc e}" unfolding E(3) less_Suc_eq by blast
    have F': "?F \<union> set fr = {i \<in> D. ?last i < Suc e}" unfolding E(4) less_Suc_eq by blast
    have le: "?prod i \<le> ?last i" if "i \<in> D" for i
    proof -
      have "P ! i \<in> set P" using that D(1) by auto
      then show ?thesis using ok by (simp add: queue_ok_def)
    qed
    have frA: "set fr \<subseteq> ?A \<union> set al"
    proof
      fix i
      assume "i \<in> set fr"
      then have i: "i \<in> D" "?last i = e" using E(4) by simp_all
      with le [OF i(1)] show "i \<in> ?A \<union> set al" unfolding A' by simp
    qed
    have frF: "set fr \<inter> ?F = {}" using E(4) by auto
    from al(4) True have "run_inv env dis mb P a0 (?A \<union> set al) ?F qs1 a1" by blast
    from free_dynamic_run [OF this E(2) frA frF ok] obtain qs2 a2 where
      fr: "free_dynamic fr qs1 a1 = Inr (qs2, a2)"
        "run_inv env dis mb P a0 (?A \<union> set al) (?F \<union> set fr) qs2 a2" by blast
    have step: "run_epochs env (ep # eps) qs a = run_epochs env eps qs2 a2"
      using ep al(1) True fr(1) by simp
    have h: "ordered_keys eps" "\<forall>k \<in> fst ` set eps. Suc e \<le> k"
      "\<forall>i \<in> D. Suc e \<le> ?prod i \<longrightarrow> ?prod i \<in> fst ` set eps"
      "\<forall>i \<in> D. Suc e \<le> ?last i \<longrightarrow> ?last i \<in> fst ` set eps"
      using Cons.prems(1,3,4) later ep be by auto
    show ?thesis unfolding step
      by (rule Cons.IH [OF h _ fr(2) [unfolded A' F']]) (use Cons.prems(5) in simp)
  qed
qed

section \<open>All queues of a chip\<close>

text \<open>Every queue can be placed; queues of the closest channel picker, which knows them by name, have different names.\<close>

definition queues_ok :: "DramAllocator \<Rightarrow> DRAMScheduleData list \<Rightarrow> bool" where
  "queues_ok a qs \<longleftrightarrow> (\<forall>qp \<in> set qs. queue_ok a (snd qp)) \<and>
     (is_closest (channel_picker a) \<longrightarrow> distinct (map (\<lambda>qp. node_name (node (snd qp))) qs))"

lemma sorted_queues: "mset (sort_by_size qs) = mset qs"
  unfolding sort_by_size_def by (rule mset_sort)

lemma allocate_queues_run:
  assumes a: "dram_ok env a" and ok: "queues_ok a qs0"
  defines "P \<equiv> map snd (sort_by_size qs0)"
  shows "\<exists>fin r qs a'. allocate_queues env qs0 dis mb a = Inr ((fin, r), a') \<and>
     map snd qs = P \<and> map snd r = P \<and> dram_ok env a' \<and>
     (fin \<longrightarrow> r = (if is_wormhole_b0 (dp_device_config (dram_cfg a))
                    then map (\<lambda>(q, ps). (halve_channels q, ps)) qs else qs) \<and>
        run_inv env dis mb P a {..<length P} {i. i < length P \<and> \<not> static_queue dis mb (P ! i)} qs a')"
proof -
  let ?qs = "sort_by_size qs0" and ?n = "length (sort_by_size qs0)"
  let ?st = "\<lambda>i. static_queue dis mb (P ! i)"
  let ?dyn = "filter (\<lambda>i. \<not> ?st i) [0..<?n]"
  have n: "length P = ?n" by (simp add: P_def)
  have okP: "\<forall>ps \<in> set P. queue_ok a ps" using ok by (auto simp: P_def sort_by_size_def queues_ok_def)
  have "distinct (map (\<lambda>ps. node_name (node ps)) P)" if "is_closest (channel_picker a)"
  proof -
    have "mset (map (\<lambda>ps. node_name (node ps)) P) = mset (map (\<lambda>qp. node_name (node (snd qp))) qs0)"
      unfolding P_def map_map comp_def mset_map sorted_queues ..
    then show ?thesis using ok that unfolding queues_ok_def by (metis mset_eq_imp_distinct_iff)
  qed
  then have "run_inv env dis mb P a {} {} ?qs a"
    using okP by (intro run_inv_init [OF a]) (auto simp: P_def queue_ok_def)
  moreover have "distinct [0..<?n]" "set [0..<?n] \<subseteq> {..<length P}" "set [0..<?n] \<inter> {} = {}" using n by auto
  ultimately have "\<exists>fin qs' dyn' a'. static_pass env dis mb [0..<?n] ?qs [] a = Inr ((fin, qs', dyn'), a') \<and>
     map snd qs' = P \<and> dram_ok env a' \<and>
     (fin \<longrightarrow> dyn' = [] @ ?dyn \<and> run_inv env dis mb P a ({} \<union> {i \<in> set [0..<?n]. ?st i}) {} qs' a')"
    by (rule static_pass_run [OF _ _ _ _ okP])
  then obtain fin1 qs1 dyn a1 where
    st: "static_pass env dis mb [0..<?n] ?qs [] a = Inr ((fin1, qs1, dyn), a1)" "map snd qs1 = P" "dram_ok env a1"
    and fin1: "fin1 \<longrightarrow> dyn = ?dyn \<and> run_inv env dis mb P a {i \<in> set [0..<?n]. ?st i} {} qs1 a1" by (simp only: append_Nil Un_empty_left) blast
  show ?thesis
  proof (cases fin1)
    case False
    then show ?thesis
      using st by (intro exI [of _ False] exI [of _ qs1] exI [of _ a1]) (simp add: allocate_queues_def)
  next
    case True
    let ?D = "{i. i < ?n \<and> \<not> ?st i}" and ?S = "{i. i < ?n \<and> ?st i}"
    let ?m = "fold (schedule_queue qs1) ?dyn []"
    have par: "snd (qs1 ! i) = P ! i" if "i < ?n" for i
      using that st(2) n by (metis length_map nth_map)
    have "schedules qs1 {} []" by (simp add: schedules_def)
    from schedule_all [OF this, of ?dyn] have sch: "schedules qs1 ?D ?m" by (simp add: Collect_conj_eq)
    have inv: "run_inv env dis mb P a ?S {} qs1 a1" using fin1 True by (simp add: Collect_conj_eq)
    have entry: "distinct al \<and> distinct fr \<and> set al = {i \<in> ?D. producer_epoch (P ! i) = e} \<and>
        set fr = {i \<in> ?D. last_consumer_epoch (P ! i) = e}" if e: "(e, al, fr) \<in> set ?m" for e al fr
    proof -
      have "distinct (map fst ?m)" using sch ordered_keys_distinct unfolding schedules_def by blast
      then have "map_of ?m e = Some (al, fr)" using e by (rule map_of_is_SomeI)
      then have "distinct al \<and> distinct fr \<and> set al = {i \<in> ?D. producer_epoch (snd (qs1 ! i)) = e} \<and>
          set fr = {i \<in> ?D. last_consumer_epoch (snd (qs1 ! i)) = e}"
        using sch unfolding schedules_def by blast
      then show ?thesis using par by (simp cong: conj_cong)
    qed
    have ord: "ordered_keys ?m" using sch by (simp add: schedules_def)
    have keys: "producer_epoch (P ! i) \<in> fst ` set ?m \<and> last_consumer_epoch (P ! i) \<in> fst ` set ?m"
      if "i \<in> ?D" for i
    proof -
      have "producer_epoch (snd (qs1 ! i)) \<in> fst ` set ?m \<and> last_consumer_epoch (snd (qs1 ! i)) \<in> fst ` set ?m"
        using that sch unfolding schedules_def by blast
      then show ?thesis using par [of i] that by simp
    qed
    have "\<exists>fin qs' a'. run_epochs env ?m qs1 a1 = Inr ((fin, qs'), a') \<and> map snd qs' = P \<and>
        dram_ok env a' \<and> (fin \<longrightarrow> run_inv env dis mb P a (?S \<union> ?D) ?D qs' a')"
    proof (rule run_epochs_run [where b = 0, OF ord])
      show "\<forall>e al fr. (e, al, fr) \<in> set ?m \<longrightarrow> distinct al \<and> distinct fr \<and>
          set al = {i \<in> ?D. producer_epoch (P ! i) = e} \<and> set fr = {i \<in> ?D. last_consumer_epoch (P ! i) = e}"
        using entry by blast
      show "run_inv env dis mb P a (?S \<union> {i \<in> ?D. producer_epoch (P ! i) < 0})
          {i \<in> ?D. last_consumer_epoch (P ! i) < 0} qs1 a1" using inv by simp
      show "\<forall>k \<in> fst ` set ?m. 0 \<le> k" by simp
      show "\<forall>i \<in> ?D. 0 \<le> producer_epoch (P ! i) \<longrightarrow> producer_epoch (P ! i) \<in> fst ` set ?m"
        "\<forall>i \<in> ?D. 0 \<le> last_consumer_epoch (P ! i) \<longrightarrow> last_consumer_epoch (P ! i) \<in> fst ` set ?m"
        using keys by blast+
      show "?D \<subseteq> {..<length P}" using n by auto
    qed (use okP in blast)+
    then obtain fin qs' a' where
      run: "run_epochs env ?m qs1 a1 = Inr ((fin, qs'), a')" "map snd qs' = P" "dram_ok env a'"
      and inv': "fin \<longrightarrow> run_inv env dis mb P a (?S \<union> ?D) ?D qs' a'" by blast
    have un: "?S \<union> ?D = {..<?n}" by auto
    show ?thesis
    proof (cases fin)
      case False
      then show ?thesis
        using st(1) run True fin1
        by (intro exI [of _ False] exI [of _ qs'] exI [of _ a']) (simp add: allocate_queues_def)
    next
      case fin: True
      then have I: "run_inv env dis mb P a {..<?n} ?D qs' a'" using inv' un by simp
      let ?r = "if is_wormhole_b0 (dp_device_config (dram_cfg a))
          then map (\<lambda>(q, ps). (halve_channels q, ps)) qs' else qs'"
      have "map snd ?r = P" using run(2) by (simp add: comp_def case_prod_beta)
      moreover have "allocate_queues env qs0 dis mb a = Inr ((True, ?r), a')"
        using st(1) run(1) True fin1 fin run_invD(3) [OF I] by (simp add: allocate_queues_def)
      ultimately show ?thesis
        using run(2,3) I n by (intro exI [of _ True] exI [of _ ?r] exI [of _ qs'] exI [of _ a']) simp
    qed
  qed
qed

definition separated :: "bool \<Rightarrow> int \<Rightarrow> DRAMScheduleData list \<Rightarrow> bool" where
  "separated dis mb qs \<longleftrightarrow>
     (\<forall>i < length qs. length (bufs_of qs i) = grid_cells (snd (qs ! i)) \<and> distinct (map buffer_key (bufs_of qs i))) \<and>
     (\<forall>i < length qs. \<forall>j < length qs. i \<noteq> j \<and> coexist dis mb (snd (qs ! i)) (snd (qs ! j)) \<longrightarrow>
        apart (bufs_of qs i) (bufs_of qs j))"

text \<open>The buffers of the static queues.\<close>

definition static_buffers :: "bool \<Rightarrow> int \<Rightarrow> DRAMScheduleData list \<Rightarrow> buffer_key set" where
  "static_buffers dis mb qs = (\<Union>i \<in> {i. i < length qs \<and> static_queue dis mb (snd (qs ! i))}. keys (bufs_of qs i))"

lemma run_inv_finished:
  assumes inv: "run_inv env dis mb P a {..<length P} {i. i < length P \<and> \<not> static_queue dis mb (P ! i)} qs a'"
  shows "separated dis mb qs" and "held a' = held a \<union> static_buffers dis mb qs"
    and "held a \<inter> static_buffers dis mb qs = {}"
proof -
  note I = run_invD [OF inv] and len = run_inv_length [OF inv]
  let ?F = "{i. i < length P \<and> \<not> static_queue dis mb (P ! i)}"
  have P: "P ! i = snd (qs ! i)" if "i < length qs" for i
    using run_inv_param [OF inv] that len by simp
  show "separated dis mb qs"
    unfolding separated_def using I(8,9,12) len P by auto
  have left: "{..<length P} - ?F = {i. i < length qs \<and> static_queue dis mb (snd (qs ! i))}"
    using P len by auto
  show "held a' = held a \<union> static_buffers dis mb qs"
    unfolding static_buffers_def left [symmetric] by (rule I(7))
  show "held a \<inter> static_buffers dis mb qs = {}"
    unfolding static_buffers_def left [symmetric] Int_UN_distrib
    by (rule SUP_eq_const_empty) (use I(10) in blast)
qed

text \<open>
  C18 (safety). For queues of positive size and grid that are produced before they are last read, and whose
  manual channels, if they have any, exist (and, for the algorithm \<open>CLOSEST\<close>, if the configured channels
  exist, every buffer has the location of a consumer, and the queues have different names), \<open>allocate_queues\<close>
  never throws. When it reports success, there is an
  assignment \<open>qs\<close> of buffers to the queues with one buffer per core of a queue's grid, in which queues that
  are alive at the same time (one of them static, or their epochs overlapping) have disjoint buffers. The
  result is \<open>qs\<close>; on a wormhole device, whose buffers \<open>qs\<close> places in virtual channels, it is \<open>qs\<close> with the
  channel numbers halved, and the separation is stated only for the virtual channels. The allocator then
  holds what it held before and exactly the buffers that \<open>qs\<close> gives to the static queues: the buffers of
  every dynamic queue have been freed again.
\<close>

theorem allocate_queues_correct:
  assumes "dram_ok env a" "queues_ok a qs0"
  shows "\<exists>fin r a'. allocate_queues env qs0 dis mb a = Inr ((fin, r), a') \<and>
     mset (map snd r) = mset (map snd qs0) \<and> dram_ok env a' \<and>
     (fin \<longrightarrow> (\<exists>qs. r = (if is_wormhole_b0 (dp_device_config (dram_cfg a))
                      then map (\<lambda>(q, ps). (halve_channels q, ps)) qs else qs) \<and>
        separated dis mb qs \<and> held a' = held a \<union> static_buffers dis mb qs \<and>
        held a \<inter> static_buffers dis mb qs = {}))"
proof -
  let ?P = "map snd (sort_by_size qs0)"
  from allocate_queues_run [OF assms] obtain fin r qs a' where
    run: "allocate_queues env qs0 dis mb a = Inr ((fin, r), a')" "map snd r = ?P" "dram_ok env a'"
    and fin: "fin \<longrightarrow> r = (if is_wormhole_b0 (dp_device_config (dram_cfg a))
                    then map (\<lambda>(q, ps). (halve_channels q, ps)) qs else qs) \<and>
        run_inv env dis mb ?P a {..<length ?P} {i. i < length ?P \<and> \<not> static_queue dis mb (?P ! i)} qs a'" by blast
  have ms: "mset ?P = mset (map snd qs0)" unfolding mset_map sorted_queues ..
  have "\<exists>qs. r = (if is_wormhole_b0 (dp_device_config (dram_cfg a))
        then map (\<lambda>(q, ps). (halve_channels q, ps)) qs else qs) \<and>
      separated dis mb qs \<and> held a' = held a \<union> static_buffers dis mb qs \<and>
      held a \<inter> static_buffers dis mb qs = {}" if fin
    using fin that run_inv_finished [of env dis mb ?P a qs a'] by blast
  then show ?thesis using run ms by (intro exI [of _ fin] exI [of _ r] exI [of _ a']) simp
qed

definition sample_entry :: "nat \<Rightarrow> DRAMScheduleData" where
  "sample_entry sz =
     (\<lparr>queue_name = ''q'', queue_input_name = ''op'', queue_grid_shape = mk_shape 1 2, on_host = False,
       queue_chip_id = 0, dram_buffers = [], host_buffers = [], read_only = False,
       write_only = False, write_stride = -1, epoch_allocate = -1, epoch_deallocate = -1\<rparr>, sample_queue sz)"

lemma sample_queue_ok: "0 < sz \<Longrightarrow> queue_ok sample_dram (snd (sample_entry sz))"
  using sample_channel_known by (simp add: queue_ok_def sample_entry_def sample_queue_def)

lemma sample_picker: "\<not> is_closest (channel_picker sample_dram)"
  by (simp add: is_closest_def sample_dram_def)

theorem allocate_queues_correct_witness:
  "\<exists>fin r a'. allocate_queues sample_dram_env [sample_entry 30, sample_entry 40] False 1 sample_dram =
     Inr ((fin, r), a') \<and> dram_ok sample_dram_env a'"
proof -
  have "queues_ok sample_dram [sample_entry 30, sample_entry 40]"
    by (simp add: queues_ok_def sample_queue_ok sample_picker)
  from allocate_queues_correct [OF sample_dram_ok this, of False 1] show ?thesis
    by (elim exE conjE) (intro exI conjI; assumption)
qed

section \<open>Resetting the allocator\<close>

lemma clear_channels:
  "\<forall>B \<in> set Bs. some_range B \<Longrightarrow> \<exists>Cs. map_res clear_allocated_blocks Bs = Inr Cs \<and>
     length Cs = length Bs \<and> (\<forall>C \<in> set Cs. some_range C \<and> live_buffers C = {})"
proof (induction Bs)
  case (Cons B Bs)
  then obtain lo hi where "bf_inv lo hi B" by (auto simp: some_range_def)
  from clear_spec [OF this] obtain C where
    "clear_allocated_blocks B = Inr C" "bf_inv lo hi C" "live C = {}" by blast
  moreover from Cons obtain Cs where "map_res clear_allocated_blocks Bs = Inr Cs"
    "length Cs = length Bs" "\<forall>C \<in> set Cs. some_range C \<and> live_buffers C = {}" by auto
  ultimately show ?case by (intro exI [of _ "C # Cs"]) (auto simp: some_range_def live_buffers_def)
qed simp

lemma reset_picker_ok: "picker_ok skip n p \<Longrightarrow> picker_ok skip n (reset_picker skip p)"
  by (cases p) (auto simp: picker_ok_def reset_picker_def rr_ok_def ff_ok_def closest_ok_def closest_reset_def)

lemma reset_spec:
  assumes "dram_ok env a"
  shows "\<exists>a'. reset_dram_allocator env a = Inr a' \<and> dram_ok env a' \<and> held a' = {} \<and>
     dram_cfg a' = dram_cfg a \<and> length (channel_allocators a') = length (channel_allocators a)"
proof -
  from assms obtain Cs where Cs: "map_res clear_allocated_blocks (channel_allocators a) = Inr Cs"
    "length Cs = length (channel_allocators a)" "\<forall>C \<in> set Cs. some_range C \<and> live_buffers C = {}"
    using clear_channels unfolding dram_ok_def by meson
  have "\<forall>B \<in> set [p2p_allocator a]. some_range B" using assms by (simp add: dram_ok_def)
  from clear_channels [OF this] obtain C where
    C: "clear_allocated_blocks (p2p_allocator a) = Inr C" "some_range C" "live_buffers C = {}"
    by (auto simp: res_simps)
  let ?a = "a\<lparr>channel_allocators := Cs, p2p_allocator := C,
     channel_picker := reset_picker (PYBUDA_DISABLE_DRAM0 env) (channel_picker a)\<rparr>"
  have "reset_dram_allocator env a = Inr ?a" using Cs(1) C(1) by (simp add: reset_dram_allocator_def)
  moreover have "dram_ok env ?a" using assms Cs C reset_picker_ok by (simp add: dram_ok_def)
  moreover have "held ?a = {}" using Cs C by (auto simp: held_def)
  ultimately show ?thesis using Cs(2) by (intro exI [of _ ?a]) simp
qed

text \<open>
  The static attempt returns. When it fails, every queue of the chip is left without
  buffers and the allocator holds nothing at all: also the buffers that were held before the
  attempt, and never belonged to it, are freed.
\<close>

theorem static_attempt_frees_everything:
  assumes "dram_ok env a" "queues_ok a qs0"
  shows "\<exists>ok r a'. try_static_dram_placement env qs0 mb a = Inr ((ok, r), a') \<and> dram_ok env a' \<and>
     mset (map snd r) = mset (map snd qs0) \<and>
     (\<not> ok \<longrightarrow> held a' = {} \<and> (\<forall>qp \<in> set r. dram_buffers (fst qp) = []))"
proof -
  from allocate_queues_run [OF assms, of True mb] obtain fin r a1 where
    run: "allocate_queues env qs0 True mb a = Inr ((fin, r), a1)" "dram_ok env a1"
      "map snd r = map snd (sort_by_size qs0)" by blast
  from reset_spec [OF run(2)] obtain a2 where
    a2: "reset_dram_allocator env a1 = Inr a2" "dram_ok env a2" "held a2 = {}" by blast
  have ms: "mset (map snd r) = mset (map snd qs0)"
    unfolding run(3) mset_map sort_by_size_def by (simp only: mset_sort)
  show ?thesis
  proof (cases fin)
    case True
    then show ?thesis
      using run ms by (intro exI [of _ True] exI [of _ r] exI [of _ a1]) (simp add: try_static_dram_placement_def)
  next
    case False
    let ?r = "map (\<lambda>(q, ps). (q\<lparr>dram_buffers := []\<rparr>, ps)) r"
    have "map snd ?r = map snd r" by (simp add: case_prod_beta)
    then have "mset (map snd ?r) = mset (map snd qs0)" using ms by metis
    then show ?thesis
      using run a2 False
      by (intro exI [of _ False] exI [of _ ?r] exI [of _ a2])
        (auto simp: try_static_dram_placement_def simp del: mset_map)
  qed
qed

theorem static_attempt_frees_everything_witness:
  "\<exists>ok r a'. try_static_dram_placement sample_dram_env [sample_entry 80, sample_entry 70] 1 sample_dram =
     Inr ((ok, r), a') \<and> dram_ok sample_dram_env a'"
proof -
  have "queues_ok sample_dram [sample_entry 80, sample_entry 70]"
    by (simp add: queues_ok_def sample_queue_ok sample_picker)
  from static_attempt_frees_everything [OF sample_dram_ok this, of 1] show ?thesis
    by (elim exE conjE) (intro exI conjI; assumption)
qed

end
