(* ===== verification/Dram_Device.thy ===== *)
theory Dram_Device
  imports Dram_Spec
begin

text \<open>
  The DRAM allocator and the layout of a device: the location it reports for a buffer, and handing
  its blocks over to a new allocator. Both go wrong on devices whose DRAM channels are split
  (wormhole and blackhole).
\<close>

section \<open>Lists\<close>

lemma concat_pairs:
  "concat (map (\<lambda>c. [xs ! (2 * c), xs ! (2 * c + 1)]) [0..<n]) = map ((!) xs) [0..<2 * n]"
  by (induction n) simp_all

section \<open>The reported location\<close>

text \<open>
  The location in a buffer's placement. On grayskull it is the location of the
  buffer's channel. On a device with split channels \<open>dram_config\<close> has three entries per channel but
  is indexed by the channel, so a buffer of real channel r is reported at the location of
  sub-channel r mod 3 of channel r div 3.
\<close>

theorem reported_location:
  assumes "get_config (dp_device_config cfg) be = Inr (dram_config cfg)"
    and "create_buffer_placement cfg v addr sz p = Inr b"
  shows "get_location (dp_device_config cfg) be
           (if is_grayskull (dp_device_config cfg) then v else v div 2 div 3)
           (if is_grayskull (dp_device_config cfg) then 0 else v div 2 mod 3) = Inr (dram_channel_location b)"
proof -
  let ?d = "dp_device_config cfg" and ?n = "dram_num_channels be"
  let ?k = "get_dram_num_subchannels ?d"
  let ?xs = "List.product [0..<?n] [0..<?k]"
  note nth = map_res_nth [OF assms(1) [unfolded get_config_def]]
  define r where "r = (if is_wormhole_b0 ?d then v div 2 else v)"
  have r: "r < length (dram_config cfg)" "dram_channel_location b = location (dram_config cfg ! r)"
    using assms(2) by (auto simp: create_buffer_placement_def r_def res_simps Let_def)
  then have rl: "r < ?n * ?k" using nth by (simp add: length_product)
  then have k: "0 < ?k" by (cases ?k) simp_all
  have "r div ?k < ?n" using rl k by (simp add: less_mult_imp_div_less)
  then have "?xs ! r = (r div ?k, r mod ?k)" using rl k by (simp add: product_nth)
  then have "get_location ?d be (r div ?k) (r mod ?k) = Inr (location (dram_config cfg ! r))"
    using mp [OF spec [OF conjunct2 [OF nth], of r]] rl
    by (auto simp: length_product res_simps dest!: arg_cong [where f = location])
  moreover have "is_grayskull ?d \<or> is_wormhole_b0 ?d"
  proof (rule ccontr)
    assume "\<not> ?thesis"
    with calculation show False by (simp add: get_location_def)
  qed
  ultimately show ?thesis
    using r(2)
    by (auto simp: r_def get_dram_num_subchannels_def is_grayskull_def is_wormhole_b0_def is_blackhole_def)
qed

definition wormhole_backend :: DramBackend where
  "wormhole_backend =
     \<lparr>dram_num_channels = 6, dram_channel_capacity = 2 ^ 31, dram_backend_reserved = (\<lambda>_. 0),
      dram_backend_reserved_max = 0,
      dram_core_coord = (\<lambda>c s. (int c, int s)), backend_p2p_offset = 0, backend_p2p_size = 0,
      backend_host_mmio_offset = 0, backend_host_mmio_size = 0\<rparr>"

definition wormhole_config :: DramPlacerConfig where
  "wormhole_config = sample_dram_config
     \<lparr>dp_device_config := \<lparr>arch = WORMHOLE_B0, chips_with_mmio = [0], chip_coord_to_chip_id = [],
        galaxy_shelves = []\<rparr>,
      dram_config := concat (map (\<lambda>c. map (\<lambda>s.
        \<lparr>channel = c, sub_channel = s, channel_size = 2 ^ 31, location = mk_coord s c,
         initial_dram_offset = 256\<rparr>) [0..<3]) [0..<6])\<rparr>"

text \<open>A buffer in virtual channel 11, hence channel 5, is reported at channel 1.\<close>

theorem reported_location_witness:
  "\<exists>b. create_buffer_placement wormhole_config 11 0 1 False = Inr b \<and>
     get_location (dp_device_config wormhole_config) wormhole_backend 1 2 = Inr (dram_channel_location b)"
proof -
  have cfg: "get_config (dp_device_config wormhole_config) wormhole_backend = Inr (dram_config wormhole_config)"
    by (simp add: get_config_def wormhole_config_def wormhole_backend_def get_dram_num_subchannels_def
        is_grayskull_def is_wormhole_b0_def get_location_def upt_rec add32_def)
  have "length (dram_config wormhole_config) = 18" by (simp add: wormhole_config_def upt_rec)
  then obtain b where b: "create_buffer_placement wormhole_config 11 0 1 False = Inr b"
    by (simp add: create_buffer_placement_def Let_def)
  from reported_location [OF cfg b] b show ?thesis
    by (intro exI [of _ b]) (simp add: wormhole_config_def is_grayskull_def)
qed

section \<open>Handing over the blocks\<close>

lemma first_per_channel_head:
  assumes "map channel (first_per_channel [] cs) = 0 # rest"
  shows "\<exists>c0 cs'. cs = c0 # cs' \<and> channel c0 = 0 \<and> first_per_channel [0] cs = first_per_channel [0] cs' \<and>
           map channel (first_per_channel [0] cs) = rest"
  using assms by (cases cs) auto

text \<open>
  A new allocator built from the blocks of another one (\<open>get_blocks\<close>), each with
  some free space, takes them over unchanged; but on a device with split channels the second half
  of channel 0 gets the blocks of the first half.
\<close>

theorem blocks_are_handed_over:
  assumes "map channel (first_per_channel [] (dram_config cfg)) = [0..<n]" "0 < n" "n < 2 ^ 31"
    and "length bs = (if is_wormhole_b0 (dp_device_config cfg) then 2 * n else n) + 1"
    and "\<forall>B \<in> set bs. free_blocks_start B \<noteq> []"
  shows "\<exists>a. mk_dram_allocator env cfg chip bs alg = Inr a \<and>
     get_blocks a = (if is_wormhole_b0 (dp_device_config cfg) then bs[1 := bs ! 0] else bs)"
proof -
  let ?wh = "is_wormhole_b0 (dp_device_config cfg)"
  have "map channel (first_per_channel [] (dram_config cfg)) = 0 # [1..<n]"
    using assms(1,2) by (simp add: upt_conv_Cons)
  from first_per_channel_head [OF this] obtain c0 cs where
    c0: "dram_config cfg = c0 # cs" "channel c0 = 0"
    and rest: "map channel (first_per_channel [0] (dram_config cfg)) = [1..<n]" by blast
  have keep: "best_fit_init s e B = B" if "B \<in> set bs" for s e B
    using assms(5) that by (simp add: best_fit_init_def)
  let ?f = "\<lambda>c. if ?wh then [bs ! (2 * channel c), bs ! (2 * channel c + 1)] else [bs ! channel c]"
  have ch: "channel c < n" if "c \<in> set (first_per_channel [0] (dram_config cfg))" for c
  proof -
    have "channel c \<in> set (map channel (first_per_channel [0] (dram_config cfg)))" using that by simp
    then show ?thesis unfolding rest by simp
  qed
  have block: "channel_blocks cfg l bs c = Inr (?f c)"
    if "c \<in> set (first_per_channel [0] (dram_config cfg))" for l c
  proof -
    have n: "channel c < n" by (rule ch [OF that])
    then have "mul32 2 (channel c) = 2 * channel c" "add32 (2 * channel c) 1 = 2 * channel c + 1"
      using assms(3) by (simp_all add: mul32_def add32_def)
    then show ?thesis using n assms(4) keep by (simp add: channel_blocks_def)
  qed
  have blocks: "map_res (channel_blocks cfg l bs) (first_per_channel [0] (dram_config cfg)) =
      Inr (map ?f (first_per_channel [0] (dram_config cfg)))" for l
    by (rule map_res_pure) (rule block)
  have cc: "map ?f (first_per_channel [0] (dram_config cfg)) =
      map (\<lambda>c. if ?wh then [bs ! (2 * c), bs ! (2 * c + 1)] else [bs ! c]) [1..<n]"
    unfolding rest [symmetric] by simp
  have ne: "bs \<noteq> []" using assms(4) by auto
  have up: "[0..<n] = 0 # [1..<n]" using assms(2) by (simp add: upt_conv_Cons)
  have heads: "vec_idx (dram_config cfg) 0 = Inr c0" "vec_idx bs 0 = Inr (bs ! 0)" "bs ! 0 \<in> set bs"
    "last bs \<in> set bs" using c0(1) ne by simp_all
  have "\<exists>a. mk_dram_allocator env cfg chip bs alg = Inr a \<and>
     get_blocks a = bs ! 0 # (if ?wh then [bs ! 0] else []) @
       concat (map (\<lambda>c. if ?wh then [bs ! (2 * c), bs ! (2 * c + 1)] else [bs ! c]) [1..<n]) @ [last bs]"
    unfolding cc [symmetric] using ne
    by (simp add: mk_dram_allocator_def get_blocks_def Let_def heads keep blocks)
  then obtain a where a: "mk_dram_allocator env cfg chip bs alg = Inr a"
    "get_blocks a = bs ! 0 # (if ?wh then [bs ! 0] else []) @
       concat (map (\<lambda>c. if ?wh then [bs ! (2 * c), bs ! (2 * c + 1)] else [bs ! c]) [1..<n]) @ [last bs]"
    by blast
  show ?thesis
  proof (cases ?wh)
    case True
    have "concat (map (\<lambda>c. [bs ! (2 * c), bs ! (2 * c + 1)]) [0..<n]) = map ((!) bs) [0..<2 * n]"
      by (rule concat_pairs)
    then have "bs ! 0 # bs ! 1 # concat (map (\<lambda>c. [bs ! (2 * c), bs ! (2 * c + 1)]) [1..<n]) @ [last bs] =
        map ((!) bs) [0..<2 * n] @ [last bs]" unfolding up by simp
    also have "\<dots> = bs"
      using assms(4) True ne by (intro nth_equalityI) (auto simp: nth_append last_conv_nth less_Suc_eq)
    finally have "bs[1 := bs ! 0] = (bs ! 0 # bs ! 1 #
        concat (map (\<lambda>c. [bs ! (2 * c), bs ! (2 * c + 1)]) [1..<n]) @ [last bs])[1 := bs ! 0]" by simp
    then show ?thesis using a True by (intro exI [of _ a]) simp
  next
    case False
    have "concat (map (\<lambda>c. [bs ! c]) [1..<n]) = map ((!) bs) [1..<n]" by (simp add: concat_map_singleton)
    moreover have "bs ! 0 # map ((!) bs) [1..<n] @ [last bs] = map ((!) bs) [0..<n] @ [last bs]"
      unfolding up by simp
    moreover have "map ((!) bs) [0..<n] @ [last bs] = bs"
      using assms(4) False ne by (intro nth_equalityI) (auto simp: nth_append last_conv_nth less_Suc_eq)
    ultimately show ?thesis using a False by (intro exI [of _ a]) simp
  qed
qed

theorem blocks_are_handed_over_witness:
  "\<exists>a. mk_dram_allocator sample_dram_env wormhole_config 0
         (map (\<lambda>i. best_fit_init i 99 empty_blocks) [0..<13]) ROUND_ROBIN = Inr a \<and>
     get_blocks a ! 1 = best_fit_init 0 99 empty_blocks"
proof -
  let ?bs = "map (\<lambda>i. best_fit_init i 99 empty_blocks) [0..<13]"
  have wh: "is_wormhole_b0 (dp_device_config wormhole_config)"
    by (simp add: wormhole_config_def is_wormhole_b0_def)
  have "map channel (first_per_channel [] (dram_config wormhole_config)) = [0..<6]"
    by (simp add: wormhole_config_def upt_rec)
  moreover have "\<forall>B \<in> set ?bs. free_blocks_start B \<noteq> []"
    by (auto simp: best_fit_init_def add_free_block_def empty_blocks_def)
  ultimately obtain a where "mk_dram_allocator sample_dram_env wormhole_config 0 ?bs ROUND_ROBIN = Inr a"
    "get_blocks a = ?bs[1 := ?bs ! 0]"
    using blocks_are_handed_over [of wormhole_config 6 ?bs sample_dram_env 0 ROUND_ROBIN] wh by auto
  then show ?thesis by (intro exI [of _ a]) (simp add: upt_rec)
qed

end
