(* ===== verification/Host_Memory.thy ===== *)
theory Host_Memory
  imports Placer_Types "HOL-Library.Word"
begin

text \<open>
  Queues in host memory: the configuration of \<open>placer/host_memory.hpp\<close>, the allocator of
  \<open>placer/host_memory_allocator.cpp\<close> (a cursor that moves through the host channels) and the
  placement of \<open>placer/host_memory.cpp\<close>. What the code asks the graph about a queue node is the
  record \<open>HostQueue\<close>, and what the backend says about host memory is \<open>HostBackend\<close>.
\<close>

section \<open>Configuration\<close>

record HostBackend =
  host_memory_num_channels :: nat
  host_memory_channel_start_address :: nat
  host_memory_channel_size :: "nat \<Rightarrow> nat"

record HostChannelMemoryRegion =
  host_channel_id :: nat
  host_channel_start_addr :: nat
  host_channel_size :: nat

record HostMemoryPlacerConfig =
  hm_device_config :: DeviceConfig
  host_memory_regions :: "HostChannelMemoryRegion list"
  hm_input_queues_on_host :: bool
  hm_output_queues_on_host :: bool

definition mk_host_memory_config ::
    "DeviceConfig \<Rightarrow> nat \<Rightarrow> HostBackend \<Rightarrow> bool \<Rightarrow> bool \<Rightarrow> HostMemoryPlacerConfig" where
  "mk_host_memory_config d num_chip_ids be input_on_host output_on_host =
     (let on_host1 = (if input_on_host \<and> is_grayskull d then False else input_on_host);
          on_host2 = (if input_on_host \<and> is_wormhole_b0 d \<and> num_chip_ids > 1 then False else on_host1) in
      \<lparr>hm_device_config = d,
       host_memory_regions = map (\<lambda>i. \<lparr>host_channel_id = i,
         host_channel_start_addr = host_memory_channel_start_address be,
         host_channel_size = host_memory_channel_size be i\<rparr>) [0..<host_memory_num_channels be],
       hm_input_queues_on_host = on_host2, hm_output_queues_on_host = output_on_host\<rparr>)"

section \<open>Alignment\<close>

definition align_address :: "nat \<Rightarrow> nat \<Rightarrow> nat" where
  "align_address address alignment =
     unat (and (word_of_nat address + word_of_nat alignment - 1 :: 32 word)
               (Bit_Operations.not (word_of_nat (sub32 alignment 1))))"

definition align_host_address :: "nat \<Rightarrow> DeviceConfig \<Rightarrow> nat" where
  "align_host_address address d =
     (if is_blackhole d then align_address address 64
      else let address1 = align_address address 32 in
           if address1 div 32 mod 2 = 0 then add32 address1 32 else address1)"

section \<open>The allocator\<close>

record HostMemoryAllocator =
  hm_config :: HostMemoryPlacerConfig
  current_allocation_channel :: nat
  current_allocation_address :: nat

definition mk_host_allocator :: "HostMemoryPlacerConfig \<Rightarrow> nat \<Rightarrow> HostMemoryAllocator" where
  "mk_host_allocator cfg address =
     \<lparr>hm_config = cfg, current_allocation_channel = 0, current_allocation_address = address\<rparr>"

definition get_current_allocation_address :: "HostMemoryAllocator \<Rightarrow> nat" where
  "get_current_allocation_address h =
     align_host_address (current_allocation_address h) (hm_device_config (hm_config h))"

definition increment_allocation_address :: "nat \<Rightarrow> HostMemoryAllocator \<Rightarrow> HostMemoryAllocator" where
  "increment_allocation_address sz h =
     h\<lparr>current_allocation_address :=
         align_host_address (add32 (get_current_allocation_address h) sz)
           (hm_device_config (hm_config h))\<rparr>"

text \<open>The function calls itself on the next channel.\<close>

partial_function (option) allocate_memory ::
    "nat \<Rightarrow> HostMemoryAllocator \<Rightarrow> ((nat \<times> nat) \<times> HostMemoryAllocator) res option" where
  "allocate_memory queue_size h =
     (let channel = current_allocation_channel h; address = get_current_allocation_address h;
          regions = host_memory_regions (hm_config h) in
      case vec_at regions channel of
        Inl e \<Rightarrow> Some (Inl e)
      | Inr region \<Rightarrow>
          if add32 address queue_size > host_channel_size region
          then if channel \<ge> length regions - 1 then Some (Inl RuntimeError)
               else (case vec_at regions (add32 channel 1) of
                       Inl e \<Rightarrow> Some (Inl e)
                     | Inr nxt \<Rightarrow>
                         allocate_memory queue_size
                           (h\<lparr>current_allocation_channel := add32 channel 1,
                              current_allocation_address := host_channel_start_addr nxt\<rparr>))
          else Some (Inr ((channel, address), increment_allocation_address queue_size h)))"

declare allocate_memory.simps [code]

primrec allocate_host_cells ::
    "nat \<Rightarrow> (nat \<times> nat) list \<Rightarrow> QueueHostBufferPlacement list \<Rightarrow> HostMemoryAllocator \<Rightarrow>
     (QueueHostBufferPlacement list \<times> HostMemoryAllocator) comp" where
  "allocate_host_cells queue_size [] bufs h = Some (Inr (bufs, h))"
| "allocate_host_cells queue_size (rc # rcs) bufs h =
     comp_bind (allocate_memory queue_size h) (\<lambda>((allocated_channel, allocated_address), h').
       allocate_host_cells queue_size rcs
         (bufs @ [\<lparr>host_channel = allocated_channel, host_address = allocated_address,
                   host_buffer_size = queue_size\<rparr>]) h')"

definition allocate_host_queue ::
    "CoordRange \<Rightarrow> nat \<Rightarrow> HostMemoryAllocator \<Rightarrow>
     (QueueHostBufferPlacement list \<times> HostMemoryAllocator) comp" where
  "allocate_host_queue queue_grid queue_size h =
     allocate_host_cells queue_size
       (List.product [row (range_start queue_grid)..<row (range_end queue_grid)]
          [col (range_start queue_grid)..<col (range_end queue_grid)]) [] h"

section \<open>Placing the host queues\<close>

definition is_queue_already_placed :: "PlacerSolution \<Rightarrow> string \<Rightarrow> bool" where
  "is_queue_already_placed sol n \<longleftrightarrow> map_of (name_to_queue_placement sol) n \<noteq> None"

definition is_queue_already_allocated :: "PlacerSolution \<Rightarrow> string \<Rightarrow> bool" where
  "is_queue_already_allocated sol n \<longleftrightarrow>
     (case map_of (name_to_queue_placement sol) n of
        None \<Rightarrow> False | Some q \<Rightarrow> length (dram_buffers q) \<noteq> 0)"

text \<open>The size the backend computes for a queue, times the data parallel factor, as an \<open>int\<close>.\<close>

definition get_queue_size :: "int \<Rightarrow> nat \<Rightarrow> int" where
  "get_queue_size io_size_in_bytes data_parallel_factor =
     to_int32 (mul32 (nat (io_size_in_bytes mod 2 ^ 32)) data_parallel_factor)"

text \<open>
  What the code reads from the graph and the balancer about a queue node: its name and kind, the
  op it takes its placement from, the name of its input, the grid of that op's model when it is an
  ethernet copy (\<open>None\<close> when there is no model), whether the block shape to use and the one of
  the queue itself are known, and its size.
\<close>

record HostQueue =
  hq_name :: string
  hq_is_input :: bool
  hq_is_output_host :: bool
  hq_is_host :: bool
  hq_ref_name :: "string option"
  hq_is_ethernet_datacopy :: bool
  hq_model_grid :: "(nat \<times> nat) option"
  hq_block_shape_known :: bool
  hq_own_block_shape_known :: bool
  hq_io_size :: int
  hq_input_name :: string

definition get_host_queue_grid ::
    "PlacerSolution \<Rightarrow> OpPlacement \<Rightarrow> HostQueue \<Rightarrow> CoordRange \<Rightarrow> (CoordRange \<times> GridShape) res" where
  "get_host_queue_grid sol placement q rng =
     (if hq_is_input q
      then res_bind (at_key (sol_input_queue_to_grid_shape sol) (hq_name q)) (\<lambda>queue_grid.
             Inr (mk_range (range_start rng)
                    (mk_coord (add32 (row (range_start rng)) (rows queue_grid))
                              (add32 (col (range_start rng)) (columns queue_grid))), queue_grid))
      else if hq_is_output_host q
      then Inr (mk_range (range_start rng)
                  (mk_coord (add32 (row (range_start rng)) 1) (add32 (col (range_start rng)) 1)),
                mk_shape 1 1)
      else Inr (rng, mk_shape (if grid_transpose placement then size_c rng else size_r rng)
                       (if grid_transpose placement then size_r rng else size_c rng)))"

definition get_host_queue_placement ::
    "nat \<Rightarrow> PlacerSolution \<Rightarrow> HostQueue \<Rightarrow> string \<Rightarrow> HostMemoryAllocator \<Rightarrow>
     (QueuePlacement \<times> HostMemoryAllocator) comp" where
  "get_host_queue_placement data_parallel_factor sol q ref_name h =
     (case map_of (name_to_op_placement sol) ref_name of
        None \<Rightarrow> Some (Inl RuntimeError)
      | Some placement \<Rightarrow>
          (case (if hq_is_ethernet_datacopy q then map_option (\<lambda>(r, c). mk_range (mk_coord 0 0) (mk_coord r c)) (hq_model_grid q)
                 else Some (placed_cores placement)) of
             None \<Rightarrow> Some (Inl RuntimeError)
           | Some rng0 \<Rightarrow>
               if \<not> hq_block_shape_known q then Some (Inl RuntimeError)
               else if hq_is_output_host q \<and> \<not> hq_own_block_shape_known q then Some (Inl OutOfRange)
               else comp_bind (Some (get_host_queue_grid sol placement q rng0)) (\<lambda>(rng, queue_grid).
                 let queue_size = nat (get_queue_size (hq_io_size q) data_parallel_factor mod 2 ^ 32) in
                 comp_bind (allocate_host_queue rng queue_size h) (\<lambda>(bufs, h').
                   Some (Inr (\<lparr>queue_name = hq_name q, queue_input_name = hq_input_name q,
                     queue_grid_shape = queue_grid, on_host = True,
                     queue_chip_id = placement_chip_id placement, dram_buffers = [],
                     host_buffers = bufs, read_only = False, write_only = False, write_stride = -1,
                     epoch_allocate = -1, epoch_deallocate = -1\<rparr>, h'))))))"

primrec place_host_queues ::
    "nat \<Rightarrow> HostQueue list \<Rightarrow> PlacerSolution \<Rightarrow> HostMemoryAllocator \<Rightarrow>
     (PlacerSolution \<times> HostMemoryAllocator) comp" where
  "place_host_queues factor [] sol h = Some (Inr (sol, h))"
| "place_host_queues factor (q # qs) sol h =
     (case hq_ref_name q of
        None \<Rightarrow> place_host_queues factor qs sol h
      | Some ref_name \<Rightarrow>
          if \<not> hq_is_host q \<or> is_queue_already_allocated sol (hq_name q) \<or>
             is_queue_already_placed sol (hq_name q)
          then place_host_queues factor qs sol h
          else comp_bind (get_host_queue_placement factor sol q ref_name h) (\<lambda>(p, h').
                 place_host_queues factor qs
                   (sol\<lparr>name_to_queue_placement := (hq_name q, p) # name_to_queue_placement sol\<rparr>) h'))"

end
