(* ===== verification/Host_Memory_Facts.thy ===== *)
theory Host_Memory_Facts
  imports Host_Memory Channel_Interface
begin

text \<open>
  The host memory allocator: every address has the alignment the device needs, buffers stay below
  the size of their channel and never overlap, and the allocator always returns. This holds as
  long as no sum leaves 32 bits (\<open>host_ok\<close>); without that a buffer larger than its channel is
  accepted.
\<close>

section \<open>Alignment\<close>

lemma and_not_mask: "and w (Bit_Operations.not (mask n)) = w - take_bit n (w :: 'a::len word)"
proof -
  have "bit w i" if "bit (take_bit n w) i" for i
    using that by (simp add: bit_take_bit_iff)
  then have "w - take_bit n w = and w (Bit_Operations.not (take_bit n w))"
    by (rule disjunctive_diff)
  also have "\<dots> = and w (Bit_Operations.not (mask n))"
    by (rule bit_eqI) (auto simp: bit_simps)
  finally show ?thesis ..
qed

lemma unat_and_not_mask: "unat (and w (Bit_Operations.not (mask n :: 'a::len word))) = unat w - unat w mod 2 ^ n"
proof -
  have "take_bit n w \<le> w" by (simp add: word_le_nat_alt unsigned_take_bit_eq take_bit_nat_less_eq_self)
  moreover have "unat (take_bit n w) = unat w mod 2 ^ n"
    by (simp only: unsigned_take_bit_eq) (simp add: take_bit_eq_mod)
  ultimately show ?thesis by (simp only: and_not_mask unat_sub)
qed

lemma align_address_pow2:
  assumes "0 < n" "n < 32" "a + 2 ^ n \<le> 2 ^ 32"
  shows "align_address a (2 ^ n) = (a + 2 ^ n - 1) - (a + 2 ^ n - 1) mod 2 ^ n"
proof -
  have "(2::nat) ^ n < 2 ^ 32" using assms(2) by (rule power_strict_increasing) simp
  moreover have "0 < (2::nat) ^ n" by simp
  ultimately have lt: "a + 2 ^ n - 1 < 2 ^ 32" "(2::nat) ^ n < 2 ^ 32" using assms(3) by linarith+
  have "sub32 (2 ^ n) 1 = 2 ^ n - 1" using lt by (intro sub32_exact) simp_all
  then have "(word_of_nat (sub32 (2 ^ n) 1) :: 32 word) = mask n"
    by (simp add: mask_eq_exp_minus_1 of_nat_diff)
  moreover have "1 \<le> a + 2 ^ n" using \<open>0 < (2::nat) ^ n\<close> by linarith
  then have "(word_of_nat a + word_of_nat (2 ^ n) - 1 :: 32 word) = word_of_nat (a + 2 ^ n - 1)"
    by (simp add: of_nat_diff del: One_nat_def)
  moreover have "unat (word_of_nat (a + 2 ^ n - 1) :: 32 word) = a + 2 ^ n - 1"
    using lt(1) by (simp add: unsigned_of_nat take_bit_nat_eq_self)
  ultimately show ?thesis unfolding align_address_def by (simp only: unat_and_not_mask)
qed

lemma round_up_bounds:
  fixes a m :: nat
  assumes "0 < m"
  shows "a \<le> (a + m - 1) - (a + m - 1) mod m" "(a + m - 1) - (a + m - 1) mod m < a + m"
    "((a + m - 1) - (a + m - 1) mod m) mod m = 0"
proof -
  have "(a + m - 1) mod m < m" using assms by simp
  moreover have "(a + m - 1) mod m \<le> a + m - 1" by (rule mod_less_eq_dividend)
  ultimately show "a \<le> (a + m - 1) - (a + m - 1) mod m" "(a + m - 1) - (a + m - 1) mod m < a + m"
    using assms by linarith+
  show "((a + m - 1) - (a + m - 1) mod m) mod m = 0" by (simp add: minus_mod_eq_mult_div)
qed

definition host_aligned :: "DeviceConfig \<Rightarrow> nat \<Rightarrow> bool" where
  "host_aligned d a \<longleftrightarrow> a mod 64 = (if is_blackhole d then 0 else 32)"

lemma align_host_bounds:
  assumes "a \<le> 2 ^ 31"
  shows "a \<le> align_host_address a d" "align_host_address a d < a + 64"
    "host_aligned d (align_host_address a d)"
proof -
  have "a \<le> align_host_address a d \<and> align_host_address a d < a + 64 \<and>
      host_aligned d (align_host_address a d)"
  proof (cases "is_blackhole d")
    case True
    have "align_address a 64 = (a + 64 - 1) - (a + 64 - 1) mod 64"
      using align_address_pow2 [of 6 a] assms by simp
    with True round_up_bounds [of 64 a] show ?thesis by (simp add: align_host_address_def host_aligned_def)
  next
    case False
    define r where "r = align_address a 32"
    have "r = (a + 32 - 1) - (a + 32 - 1) mod 32"
      using align_address_pow2 [of 5 a] assms by (simp add: r_def)
    with round_up_bounds [of 32 a] have r: "a \<le> r" "r < a + 32" "r mod 32 = 0" by simp_all
    then obtain q where q: "r = 32 * q" by (auto simp: mod_eq_0_iff_dvd)
    have add: "add32 r 32 = r + 32" using r(2) assms by (intro add32_exact) simp
    show ?thesis
    proof (cases "q mod 2 = 0")
      case True
      then obtain p where "q = 2 * p" by (auto simp: mod_eq_0_iff_dvd)
      then have "r = 64 * p" using q by simp
      with False r add show ?thesis
        by (simp add: align_host_address_def host_aligned_def r_def [symmetric] Let_def)
    next
      case odd: False
      then obtain p where "q = 2 * p + 1" by (metis oddE mod_eq_0_iff_dvd)
      then have "r mod 64 = 32" using q by simp
      moreover have "r div 32 mod 2 \<noteq> 0" using odd q by simp
      ultimately show ?thesis
        using False r by (simp add: align_host_address_def host_aligned_def r_def [symmetric] Let_def)
    qed
  qed
  then show "a \<le> align_host_address a d" "align_host_address a d < a + 64"
    "host_aligned d (align_host_address a d)" by blast+
qed

section \<open>One buffer\<close>

definition host_ok :: "HostMemoryAllocator \<Rightarrow> bool" where
  "host_ok h \<longleftrightarrow>
     current_allocation_address h \<le> 2 ^ 31 \<and> length (host_memory_regions (hm_config h)) < 2 ^ 32 \<and>
     (\<forall>r \<in> set (host_memory_regions (hm_config h)).
        host_channel_start_addr r \<le> 2 ^ 31 \<and> host_channel_size r \<le> 2 ^ 31 - 64)"

definition host_size_ok :: "nat \<Rightarrow> bool" where
  "host_size_ok sz \<longleftrightarrow> sz \<le> 2 ^ 31 - 64"

text \<open>A buffer lies behind the cursor of the allocator; a buffer comes before another one.\<close>

definition behind :: "HostMemoryAllocator \<Rightarrow> QueueHostBufferPlacement \<Rightarrow> bool" where
  "behind h b \<longleftrightarrow>
     host_channel b < current_allocation_channel h \<or>
     (host_channel b = current_allocation_channel h \<and>
      host_address b + host_buffer_size b \<le> current_allocation_address h)"

definition before :: "QueueHostBufferPlacement \<Rightarrow> QueueHostBufferPlacement \<Rightarrow> bool" where
  "before b c \<longleftrightarrow>
     host_channel b < host_channel c \<or>
     (host_channel b = host_channel c \<and> host_address b + host_buffer_size b \<le> host_address c)"

definition in_channel :: "HostMemoryPlacerConfig \<Rightarrow> QueueHostBufferPlacement \<Rightarrow> bool" where
  "in_channel cfg b \<longleftrightarrow>
     host_channel b < length (host_memory_regions cfg) \<and>
     host_aligned (hm_device_config cfg) (host_address b) \<and>
     host_address b + host_buffer_size b \<le> host_channel_size (host_memory_regions cfg ! host_channel b)"

abbreviation host_buffer :: "nat \<Rightarrow> nat \<Rightarrow> nat \<Rightarrow> QueueHostBufferPlacement" where
  "host_buffer ch a sz \<equiv> \<lparr>host_channel = ch, host_address = a, host_buffer_size = sz\<rparr>"

text \<open>A step of the cursor: the buffers behind it come before the new one, which is behind the new cursor.\<close>

definition host_step :: "nat \<Rightarrow> HostMemoryAllocator \<Rightarrow> nat \<Rightarrow> nat \<Rightarrow> HostMemoryAllocator \<Rightarrow> bool" where
  "host_step sz h ch a h' \<longleftrightarrow>
     host_ok h' \<and> hm_config h' = hm_config h \<and> in_channel (hm_config h) (host_buffer ch a sz) \<and>
     behind h' (host_buffer ch a sz) \<and>
     (\<forall>b. behind h b \<longrightarrow> before b (host_buffer ch a sz) \<and> behind h' b)"

text \<open>The buffer does not fit into channel \<open>k\<close> from address \<open>a\<close> on.\<close>

definition too_large :: "HostMemoryPlacerConfig \<Rightarrow> nat \<Rightarrow> nat \<Rightarrow> nat \<Rightarrow> bool" where
  "too_large cfg sz k a \<longleftrightarrow>
     host_channel_size (host_memory_regions cfg ! k) < align_host_address a (hm_device_config cfg) + sz"

lemma allocate_memory_here:
  assumes h: "host_ok h" and sz: "host_size_ok sz"
    and ch: "current_allocation_channel h < length (host_memory_regions (hm_config h))"
    and fits: "\<not> too_large (hm_config h) sz (current_allocation_channel h) (current_allocation_address h)"
  shows "\<exists>a h'. allocate_memory sz h = Some (Inr ((current_allocation_channel h, a), h')) \<and>
     host_step sz h (current_allocation_channel h) a h'"
proof -
  let ?d = "hm_device_config (hm_config h)" and ?ch = "current_allocation_channel h"
  let ?a = "get_current_allocation_address h" and ?h = "increment_allocation_address sz h"
  have r: "host_channel_size (host_memory_regions (hm_config h) ! ?ch) \<le> 2 ^ 31 - 64"
    using h ch by (simp add: host_ok_def)
  have a: "current_allocation_address h \<le> ?a" "host_aligned ?d ?a"
    using align_host_bounds [of "current_allocation_address h" ?d] h
    by (simp_all add: host_ok_def get_current_allocation_address_def)
  have le: "?a + sz \<le> host_channel_size (host_memory_regions (hm_config h) ! ?ch)"
    using fits by (simp add: too_large_def get_current_allocation_address_def)
  with r have add: "add32 ?a sz = ?a + sz" by (intro add32_exact) simp
  have "?a + sz \<le> 2 ^ 31" using le r by simp
  note up = align_host_bounds [OF this, of ?d]
  have h': "current_allocation_address ?h = align_host_address (?a + sz) ?d"
    "current_allocation_channel ?h = ?ch" "hm_config ?h = hm_config h"
    using add by (simp_all add: increment_allocation_address_def)
  have "align_host_address (?a + sz) ?d \<le> 2 ^ 31" using up(2) le r by simp
  then have "host_ok ?h" using h h' by (simp add: host_ok_def)
  moreover have "allocate_memory sz h = Some (Inr ((?ch, ?a), ?h))"
    using ch le add by (simp add: allocate_memory.simps [of sz h] Let_def)
  ultimately show ?thesis
    using h' a up(1) le ch
    by (intro exI [of _ ?a] exI [of _ ?h])
      (auto simp: host_step_def in_channel_def behind_def before_def)
qed

lemma allocate_memory_cases:
  assumes "host_ok h" "host_size_ok sz"
    and "current_allocation_channel h < length (host_memory_regions (hm_config h))"
  shows "(\<exists>ch a h'. allocate_memory sz h = Some (Inr ((ch, a), h')) \<and> host_step sz h ch a h') \<or>
     (allocate_memory sz h = Some (Inl RuntimeError) \<and>
        too_large (hm_config h) sz (current_allocation_channel h) (current_allocation_address h) \<and>
        (\<forall>k. current_allocation_channel h < k \<and> k < length (host_memory_regions (hm_config h)) \<longrightarrow>
           too_large (hm_config h) sz k (host_channel_start_addr (host_memory_regions (hm_config h) ! k))))"
  using assms
proof (induction "length (host_memory_regions (hm_config h)) - current_allocation_channel h"
    arbitrary: h rule: less_induct)
  case less
  let ?ch = "current_allocation_channel h" and ?rs = "host_memory_regions (hm_config h)"
  let ?cfg = "hm_config h"
  show ?case
  proof (cases "too_large ?cfg sz ?ch (current_allocation_address h)")
    case False
    then show ?thesis using allocate_memory_here [OF less.prems False] by blast
  next
    case large: True
    let ?a = "get_current_allocation_address h"
    have "?a < 2 ^ 31 + 64"
      using align_host_bounds [of "current_allocation_address h" "hm_device_config ?cfg"] less.prems(1)
      by (simp add: host_ok_def get_current_allocation_address_def)
    then have "add32 ?a sz = ?a + sz"
      using less.prems(2) by (intro add32_exact) (simp add: host_size_ok_def)
    then have over: "host_channel_size (?rs ! ?ch) < add32 ?a sz"
      using large by (simp add: too_large_def get_current_allocation_address_def)
    show ?thesis
    proof (cases "length ?rs - 1 \<le> ?ch")
      case True
      then have "allocate_memory sz h = Some (Inl RuntimeError)"
        using over less.prems(3) by (simp add: allocate_memory.simps [of sz h] Let_def)
      then show ?thesis using large True by auto
    next
      case False
      then have nxt: "?ch + 1 < length ?rs" by linarith
      have "length ?rs < 2 ^ 32" using less.prems(1) by (simp add: host_ok_def)
      with nxt have ch1: "add32 ?ch 1 = ?ch + 1" by (intro add32_exact) simp
      let ?h = "h\<lparr>current_allocation_channel := ?ch + 1,
        current_allocation_address := host_channel_start_addr (?rs ! (?ch + 1))\<rparr>"
      have rec: "allocate_memory sz h = allocate_memory sz ?h"
        using over less.prems(3) nxt False ch1
        by (simp add: allocate_memory.simps [of sz h] Let_def del: One_nat_def)
      have ok: "host_ok ?h" using less.prems(1) nxt by (simp add: host_ok_def)
      have bk: "behind ?h b" if "behind h b" for b using that by (auto simp: behind_def)
      have "length (host_memory_regions (hm_config ?h)) - current_allocation_channel ?h < length ?rs - ?ch"
        using nxt by simp
      from less.hyps [OF this ok less.prems(2)] nxt
      consider (some) ch a h' where "allocate_memory sz ?h = Some (Inr ((ch, a), h'))" "host_step sz ?h ch a h'"
        | (none) "allocate_memory sz ?h = Some (Inl RuntimeError)"
          "too_large ?cfg sz (?ch + 1) (host_channel_start_addr (?rs ! (?ch + 1)))"
          "\<forall>k. ?ch + 1 < k \<and> k < length ?rs \<longrightarrow> too_large ?cfg sz k (host_channel_start_addr (?rs ! k))"
        by auto
      then show ?thesis
      proof cases
        case some
        then have "host_step sz h ch a h'" using bk by (auto simp: host_step_def)
        with some(1) rec show ?thesis by simp
      next
        case none
        have "too_large ?cfg sz k (host_channel_start_addr (?rs ! k))" if "?ch < k" "k < length ?rs" for k
        proof (cases "k = ?ch + 1")
          case True
          then show ?thesis using none(2) by simp
        next
          case False
          then show ?thesis using none(3) that by simp
        qed
        then show ?thesis using none(1) rec large by simp
      qed
    qed
  qed
qed

section \<open>Queues\<close>

text \<open>The buffers placed so far, in the order they were placed.\<close>

definition placed_so_far :: "QueueHostBufferPlacement list \<Rightarrow> HostMemoryAllocator \<Rightarrow> bool" where
  "placed_so_far bs h \<longleftrightarrow>
     host_ok h \<and> sorted_wrt before bs \<and>
     (\<forall>b \<in> set bs. in_channel (hm_config h) b \<and> behind h b)"

lemma placed_step:
  assumes "placed_so_far bs h" "host_step sz h ch a h'"
  shows "placed_so_far (bs @ [host_buffer ch a sz]) h'"
  using assms by (auto simp: placed_so_far_def host_step_def sorted_wrt_append)

lemma allocate_memory_run:
  assumes "placed_so_far bs h" "host_size_ok sz"
  shows "\<exists>r. allocate_memory sz h = Some r \<and>
     (case r of Inl e \<Rightarrow> e \<in> {RuntimeError, OutOfRange}
      | Inr ((ch, a), h') \<Rightarrow> placed_so_far (bs @ [host_buffer ch a sz]) h' \<and> hm_config h' = hm_config h)"
proof (cases "current_allocation_channel h < length (host_memory_regions (hm_config h))")
  case True
  have "host_ok h" using assms(1) by (simp add: placed_so_far_def)
  from allocate_memory_cases [OF this assms(2) True] show ?thesis
    using placed_step [OF assms(1)] by (auto simp: host_step_def)
next
  case False
  then show ?thesis by (simp add: allocate_memory.simps [of sz h] vec_at_def Let_def)
qed

lemma allocate_host_cells_run:
  assumes "placed_so_far bs h" "host_size_ok sz"
  shows "\<exists>r. allocate_host_cells sz rcs acc h = Some r \<and>
     (case r of Inl e \<Rightarrow> e \<in> {RuntimeError, OutOfRange}
      | Inr (out, h') \<Rightarrow> \<exists>bufs. out = acc @ bufs \<and> length bufs = length rcs \<and>
          placed_so_far (bs @ bufs) h' \<and> hm_config h' = hm_config h)"
  using assms
proof (induction rcs arbitrary: acc bs h)
  case (Cons rc rcs)
  from allocate_memory_run [OF Cons.prems] obtain r where
    r: "allocate_memory sz h = Some r" and c: "case r of Inl e \<Rightarrow> e \<in> {RuntimeError, OutOfRange}
      | Inr ((ch, a), h') \<Rightarrow> placed_so_far (bs @ [host_buffer ch a sz]) h' \<and> hm_config h' = hm_config h" by blast
  show ?case
  proof (cases r)
    case (Inl e)
    then show ?thesis using r c by simp
  next
    case (Inr x)
    obtain ch a h' where x: "x = ((ch, a), h')" by (cases x) auto
    let ?b = "host_buffer ch a sz"
    have h': "placed_so_far (bs @ [?b]) h'" "hm_config h' = hm_config h" using c Inr x by simp_all
    from Cons.IH [OF h'(1) Cons.prems(2), of "acc @ [?b]"] obtain r' where
      r': "allocate_host_cells sz rcs (acc @ [?b]) h' = Some r'"
      and c': "case r' of Inl e \<Rightarrow> e \<in> {RuntimeError, OutOfRange}
        | Inr (out, h'') \<Rightarrow> \<exists>bufs. out = (acc @ [?b]) @ bufs \<and> length bufs = length rcs \<and>
            placed_so_far ((bs @ [?b]) @ bufs) h'' \<and> hm_config h'' = hm_config h'" by blast
    have step: "allocate_host_cells sz (rc # rcs) acc h = Some r'" using r Inr x r' by simp
    show ?thesis
    proof (cases r')
      case (Inl e)
      then show ?thesis using step c' by simp
    next
      case (Inr y)
      obtain out h'' where y: "y = (out, h'')" by (cases y)
      with c' Inr obtain bufs where "out = (acc @ [?b]) @ bufs" "length bufs = length rcs"
        "placed_so_far ((bs @ [?b]) @ bufs) h''" "hm_config h'' = hm_config h'" by auto
      then show ?thesis using step Inr y h'(2) by (auto intro!: exI [of _ "?b # bufs"])
    qed
  qed
qed simp

definition queue_size_ok :: "nat \<Rightarrow> HostQueue \<Rightarrow> bool" where
  "queue_size_ok factor q \<longleftrightarrow> host_size_ok (nat (get_queue_size (hq_io_size q) factor mod 2 ^ 32))"

lemma get_host_queue_placement_run:
  assumes "placed_so_far bs h" "queue_size_ok factor q"
  shows "\<exists>r. get_host_queue_placement factor sol q ref h = Some r \<and>
     (case r of Inl e \<Rightarrow> e \<in> {RuntimeError, OutOfRange}
      | Inr (p, h') \<Rightarrow> placed_so_far (bs @ host_buffers p) h' \<and> hm_config h' = hm_config h)"
proof -
  have grid: "get_host_queue_grid sol pl q rng = Inl e \<Longrightarrow> e = OutOfRange" for pl rng e
    by (auto simp: get_host_queue_grid_def res_simps at_key_def split: if_splits option.splits)
  have alloc: "\<exists>r. allocate_host_queue rng sz h = Some r \<and>
     (case r of Inl e \<Rightarrow> e \<in> {RuntimeError, OutOfRange}
      | Inr (bufs, h') \<Rightarrow> placed_so_far (bs @ bufs) h' \<and> hm_config h' = hm_config h)"
    if "host_size_ok sz" for rng sz
    using allocate_host_cells_run [OF assms(1) that, of _ "[]"]
    unfolding allocate_host_queue_def by (fastforce split: sum.splits)
  note alloc = alloc [OF assms(2) [unfolded queue_size_ok_def]]
  show ?thesis
  proof (cases "map_of (name_to_op_placement sol) ref")
    case None
    then show ?thesis by (simp add: get_host_queue_placement_def)
  next
    case (Some pl)
    let ?rng = "if hq_is_ethernet_datacopy q
      then map_option (\<lambda>(r, c). mk_range (mk_coord 0 0) (mk_coord r c)) (hq_model_grid q)
      else Some (placed_cores pl)"
    consider (early) "\<exists>e \<in> {RuntimeError, OutOfRange}.
        get_host_queue_placement factor sol q ref h = Some (Inl e)"
      | (go) rng queue_grid where "?rng \<noteq> None" "get_host_queue_grid sol pl q (the ?rng) = Inr (rng, queue_grid)"
        "hq_block_shape_known q" "hq_is_output_host q \<longrightarrow> hq_own_block_shape_known q"
    proof (cases "?rng = None \<or> \<not> hq_block_shape_known q \<or> hq_is_output_host q \<and> \<not> hq_own_block_shape_known q")
      case True
      then have "\<exists>e \<in> {RuntimeError, OutOfRange}. get_host_queue_placement factor sol q ref h = Some (Inl e)"
        using Some by (auto simp: get_host_queue_placement_def split: option.splits if_splits)
      then show ?thesis by (rule that(1))
    next
      case False
      then obtain rng0 where rng0: "?rng = Some rng0" by auto
      show ?thesis
      proof (cases "get_host_queue_grid sol pl q rng0")
        case (Inl e)
        then have "get_host_queue_placement factor sol q ref h = Some (Inl e)"
          using Some False rng0 unfolding get_host_queue_placement_def by auto
        then show ?thesis using that(1) grid [OF Inl] by simp
      next
        case (Inr x)
        then show ?thesis using that(2) [of "fst x" "snd x"] False rng0 by simp
      qed
    qed
    then show ?thesis
    proof cases
      case early
      then show ?thesis by fastforce
    next
      case go
      then obtain rng0 where rng0: "?rng = Some rng0" by blast
      let ?sz = "nat (get_queue_size (hq_io_size q) factor mod 2 ^ 32)"
      from alloc [of rng] obtain r where r: "allocate_host_queue rng ?sz h = Some r"
        and c: "case r of Inl e \<Rightarrow> e \<in> {RuntimeError, OutOfRange}
          | Inr (bufs, h') \<Rightarrow> placed_so_far (bs @ bufs) h' \<and> hm_config h' = hm_config h" by blast
      have run: "get_host_queue_placement factor sol q ref h =
          comp_bind (Some r) (\<lambda>(bufs, h'). Some (Inr (\<lparr>queue_name = hq_name q, queue_input_name = hq_input_name q,
                     queue_grid_shape = queue_grid, on_host = True,
                     queue_chip_id = placement_chip_id pl, dram_buffers = [],
                     host_buffers = bufs, read_only = False, write_only = False, write_stride = -1,
                     epoch_allocate = -1, epoch_deallocate = -1\<rparr>, h')))"
        using Some go r rng0 unfolding get_host_queue_placement_def by auto
      show ?thesis
      proof (cases r)
        case (Inl e)
        then show ?thesis using run c by simp
      next
        case (Inr x)
        obtain bufs h' where "x = (bufs, h')" by (cases x)
        then show ?thesis using run c Inr by simp
      qed
    qed
  qed
qed

section \<open>All host queues\<close>

text \<open>The buffers of the queues placed by a run, in placement order: the newest queue comes first in the map.\<close>

definition buffers_in_order :: "(string \<times> QueuePlacement) list \<Rightarrow> QueueHostBufferPlacement list" where
  "buffers_in_order ps = concat (map (\<lambda>p. host_buffers (snd p)) (rev ps))"

text \<open>
  C21 (safety). For queues and regions whose sizes and addresses are at most \<open>2 ^ 31 - 64\<close> (and \<open>2 ^ 31\<close>), so that
  the 32-bit cursor cannot wrap around (\<open>host_ok\<close>, \<open>queue_size_ok\<close>), placing the host queues always returns. On success the new queues' buffers lie in
  existing channels, below the size of their channel and at addresses with the alignment the
  device needs, and they are placed one after the other: of any two, the earlier one is in an
  earlier channel or ends, in the same channel, before the later one starts. The only errors are a
  missing placement, model or shape, and running out of channels.
\<close>

theorem host_queues_disjoint:
  assumes "host_ok h" "\<forall>q \<in> set qs. queue_size_ok factor q"
  shows "\<exists>r. place_host_queues factor qs sol h = Some r \<and>
     (case r of Inl e \<Rightarrow> e \<in> {RuntimeError, OutOfRange}
      | Inr (sol', h') \<Rightarrow>
          \<exists>new. name_to_queue_placement sol' = new @ name_to_queue_placement sol \<and>
            name_to_op_placement sol' = name_to_op_placement sol \<and>
            sorted_wrt before (buffers_in_order new) \<and>
            (\<forall>b \<in> set (buffers_in_order new). in_channel (hm_config h) b))"
proof -
  have run: "\<exists>r. place_host_queues factor qs sol h = Some r \<and>
     (case r of Inl e \<Rightarrow> e \<in> {RuntimeError, OutOfRange}
      | Inr (sol', h') \<Rightarrow>
          \<exists>new. name_to_queue_placement sol' = new @ name_to_queue_placement sol \<and>
            name_to_op_placement sol' = name_to_op_placement sol \<and> hm_config h' = hm_config h \<and>
            placed_so_far (bs @ buffers_in_order new) h')"
    if "placed_so_far bs h" "\<forall>q \<in> set qs. queue_size_ok factor q" for bs
    using that
  proof (induction qs arbitrary: sol h bs)
    case Nil
    then show ?case by (simp add: buffers_in_order_def)
  next
    case (Cons q qs)
    have skip: "?case" if "place_host_queues factor (q # qs) sol h = place_host_queues factor qs sol h"
      unfolding that using Cons.IH [OF Cons.prems(1)] Cons.prems(2) by simp
    show ?case
    proof (cases "hq_ref_name q = None \<or> \<not> hq_is_host q \<or> is_queue_already_allocated sol (hq_name q) \<or>
        is_queue_already_placed sol (hq_name q)")
      case True
      then show ?thesis by (intro skip) (auto split: option.split)
    next
      case False
      then obtain ref where ref: "hq_ref_name q = Some ref" by auto
      have qok: "queue_size_ok factor q" using Cons.prems(2) by simp
      from get_host_queue_placement_run [OF Cons.prems(1) qok] obtain r where
        r: "get_host_queue_placement factor sol q ref h = Some r"
        and c: "case r of Inl e \<Rightarrow> e \<in> {RuntimeError, OutOfRange}
          | Inr (p, h') \<Rightarrow> placed_so_far (bs @ host_buffers p) h' \<and> hm_config h' = hm_config h" by blast
      show ?thesis
      proof (cases r)
        case (Inl e)
        then show ?thesis using False ref r c by simp
      next
        case (Inr x)
        obtain p h' where x: "x = (p, h')" by (cases x)
        let ?sol = "sol\<lparr>name_to_queue_placement := (hq_name q, p) # name_to_queue_placement sol\<rparr>"
        have step: "place_host_queues factor (q # qs) sol h = place_host_queues factor qs ?sol h'"
          using False ref r Inr x by simp
        have h': "placed_so_far (bs @ host_buffers p) h'" "hm_config h' = hm_config h" using c Inr x by simp_all
        have "\<forall>q \<in> set qs. queue_size_ok factor q" using Cons.prems(2) by simp
        from Cons.IH [OF h'(1) this, of ?sol] obtain r' where
          r': "place_host_queues factor qs ?sol h' = Some r'"
          and c': "case r' of Inl e \<Rightarrow> e \<in> {RuntimeError, OutOfRange}
            | Inr (sol', h'') \<Rightarrow>
                \<exists>new. name_to_queue_placement sol' = new @ name_to_queue_placement ?sol \<and>
                  name_to_op_placement sol' = name_to_op_placement ?sol \<and> hm_config h'' = hm_config h' \<and>
                  placed_so_far ((bs @ host_buffers p) @ buffers_in_order new) h''" by blast
        show ?thesis
        proof (cases r')
          case (Inl e)
          then show ?thesis using step r' c' by simp
        next
          case (Inr y)
          obtain sol' h'' where y: "y = (sol', h'')" by (cases y)
          with c' Inr obtain new where new: "name_to_queue_placement sol' = new @ name_to_queue_placement ?sol"
            "name_to_op_placement sol' = name_to_op_placement ?sol" "hm_config h'' = hm_config h'"
            "placed_so_far ((bs @ host_buffers p) @ buffers_in_order new) h''" by auto
          have "buffers_in_order (new @ [(hq_name q, p)]) = host_buffers p @ buffers_in_order new"
            by (simp add: buffers_in_order_def)
          then show ?thesis
            using step r' Inr y new h'(2) by (auto intro!: exI [of _ "new @ [(hq_name q, p)]"])
        qed
      qed
    qed
  qed
  have "placed_so_far [] h" using assms(1) by (simp add: placed_so_far_def)
  from run [OF this assms(2)] obtain r where r: "place_host_queues factor qs sol h = Some r"
    and c: "case r of Inl e \<Rightarrow> e \<in> {RuntimeError, OutOfRange}
      | Inr (sol', h') \<Rightarrow>
          \<exists>new. name_to_queue_placement sol' = new @ name_to_queue_placement sol \<and>
            name_to_op_placement sol' = name_to_op_placement sol \<and> hm_config h' = hm_config h \<and>
            placed_so_far ([] @ buffers_in_order new) h'" by blast
  show ?thesis
  proof (cases r)
    case (Inl e)
    then show ?thesis using r c by simp
  next
    case (Inr x)
    then show ?thesis using r c by (cases x) (fastforce simp: placed_so_far_def)
  qed
qed

definition sample_host :: HostMemoryAllocator where
  "sample_host = mk_host_allocator
     (mk_host_memory_config \<lparr>arch = WORMHOLE_B0, chips_with_mmio = [0], chip_coord_to_chip_id = [],
        galaxy_shelves = []\<rparr> 1
        \<lparr>host_memory_num_channels = 2, host_memory_channel_start_address = 0,
         host_memory_channel_size = (\<lambda>_. 1024)\<rparr> True True) 0"

definition sample_host_queue :: "string \<Rightarrow> int \<Rightarrow> HostQueue" where
  "sample_host_queue n sz =
     \<lparr>hq_name = n, hq_is_input = False, hq_is_output_host = True, hq_is_host = True,
      hq_ref_name = Some ''op'', hq_is_ethernet_datacopy = False, hq_model_grid = None,
      hq_block_shape_known = True, hq_own_block_shape_known = True, hq_io_size = sz,
      hq_input_name = ''op''\<rparr>"

definition sample_host_solution :: PlacerSolution where
  "sample_host_solution =
     \<lparr>name_to_op_placement = [(''op'', \<lparr>placement_id = 0, placement_name = ''op'', placement_chip_id = 0,
        global_epoch_id = 0, grid_transpose = False, placed_cores = mk_range (mk_coord 0 0) (mk_coord 1 1)\<rparr>)],
      sol_input_queue_to_grid_shape = [], name_to_queue_placement = [], epoch_id_to_chip = [],
      epoch_id_to_subgraph_index = [], epoch_id_to_op_placement = [],
      sol_device_grids = mk_epoch_grids 1 1, epoch_id_to_epoch_info = [], num_epochs = 1,
      is_pipelined = False, fork_join_buffered = False\<rparr>"

theorem host_queues_disjoint_witness:
  "\<exists>r. place_host_queues 1 [sample_host_queue ''a'' 600, sample_host_queue ''b'' 600]
         sample_host_solution sample_host = Some r"
proof -
  have "host_ok sample_host"
    by (simp add: host_ok_def sample_host_def mk_host_allocator_def mk_host_memory_config_def Let_def)
  moreover have "\<forall>q \<in> set [sample_host_queue ''a'' 600, sample_host_queue ''b'' 600]. queue_size_ok 1 q"
    by (simp add: queue_size_ok_def host_size_ok_def get_queue_size_def sample_host_queue_def
        mul32_def to_int32_def)
  ultimately show ?thesis using host_queues_disjoint by blast
qed

text \<open>
  The size check \<open>address + size > channel size\<close> is computed in 32 bits. At the start of
  a host channel of 1 KB a queue of 4294967264 bytes is accepted, and the cursor does not move
  past it: the next queue is placed on top of it.
\<close>

theorem host_size_check_wraps:
  "case allocate_memory 4294967264 sample_host of
     Some (Inr ((ch, a), h)) \<Rightarrow>
       ch = 0 \<and> a = 32 \<and> a + 4294967264 > 1024 \<and>
       (case allocate_memory 64 h of Some (Inr ((ch', a'), _)) \<Rightarrow> ch' = ch \<and> a' = a | _ \<Rightarrow> False)
   | _ \<Rightarrow> False"
  by code_simp

end
