(* ===== verification/Interactive_Placer.thy ===== *)
theory Interactive_Placer
  imports Arch_Placers
begin

text \<open>
  The class \<open>InteractivePlacer\<close> (\<open>placer/interactive_placer.cpp\<close>), through which the balancer places op
  by op: it opens epochs, moves on to the next chip when an op does not fit, and can undo the
  placements of the current temporal epoch. A method takes the object and returns it updated; the
  set of output ops, which the constructor asks the graph for, is an argument.
\<close>

section \<open>State\<close>

text \<open>The fields of \<open>BalancerConfig\<close> the class reads; \<open>bc_grid_size\<close> is \<open>device_config.grid_size\<close>.\<close>

record BalancerConfig =
  bc_device_config :: DeviceConfig
  bc_grid_size :: GridShape
  bc_chip_ids :: "nat list"
  bc_chip_placement_policy :: ChipPlacementPolicy
  bc_output_queues_on_host :: bool
  op_name_to_placer_overrides :: overrides
  bc_enable_auto_transposing_placement :: bool

record InteractivePlacer =
  current_epoch_index :: nat
  current_epoch_type :: NodeEpochType
  ip_valid :: bool
  sorted_chip_ids :: "nat list"
  remaining_chip_ids :: "nat list"
  current_chip_id :: nat
  current_temporal_epoch_id :: nat
  current_spatial_epoch_id :: nat
  ip_chips_with_mmio :: "nat list"
  is_current_chip_id_mmio :: bool
  ip_config :: BalancerConfig
  ip_names :: "(string \<times> OpPlacement) list"
  ip_chips :: "(nat \<times> nat) list"
  ip_subgraphs :: "(nat \<times> nat) list"
  ip_epochs :: "(nat \<times> OpPlacement list) list"
  ip_grids :: EpochIdToDeviceGrid
  ip_infos :: "(nat \<times> EpochInfo) list"
  placed_ops_in_current_epoch :: "string list"
  visited_ops_in_current_epoch :: "string list"
  ip_output_ops :: "string list"

definition INVALID_CHIP_ID :: nat where
  "INVALID_CHIP_ID = 2 ^ 32 - 1"

section \<open>Chips and epochs\<close>

text \<open>\<open>insert_empty_graphs\<close> pops the remaining chips one by one; an empty epoch is registered for each.\<close>

definition insert_empty_graph :: "nat \<Rightarrow> nat \<Rightarrow> nat \<Rightarrow> InteractivePlacer \<Rightarrow> InteractivePlacer" where
  "insert_empty_graph spatial temporal chip p =
     (let k = current_epoch_index p in
      p\<lparr>ip_chips := omap_insert k chip (ip_chips p),
        ip_infos := AList.update k \<lparr>info_global_epoch_id = k, info_temporal_epoch_id = temporal,
          info_spatial_epoch_id = spatial, info_epoch_type = current_epoch_type p\<rparr> (ip_infos p),
        ip_subgraphs := omap_insert k 0 (ip_subgraphs p),
        ip_epochs := AList.update k [] (ip_epochs p),
        current_epoch_index := add32 k 1\<rparr>)"

primrec insert_empty_graphs_for ::
    "nat list \<Rightarrow> nat \<Rightarrow> nat \<Rightarrow> InteractivePlacer \<Rightarrow> InteractivePlacer res" where
  "insert_empty_graphs_for [] spatial temporal p = Inr (p\<lparr>remaining_chip_ids := []\<rparr>)"
| "insert_empty_graphs_for (chip # chips) spatial temporal p =
     res_bind (tt_assert (spatial < length (sorted_chip_ids p))) (\<lambda>_.
       insert_empty_graphs_for chips (add32 spatial 1) temporal (insert_empty_graph spatial temporal chip p))"

definition insert_empty_graphs :: "nat \<Rightarrow> nat \<Rightarrow> InteractivePlacer \<Rightarrow> InteractivePlacer res" where
  "insert_empty_graphs spatial temporal p = insert_empty_graphs_for (remaining_chip_ids p) spatial temporal p"

text \<open>Repopulating the chips for a temporal epoch.\<close>

definition repopulate :: "Env \<Rightarrow> bool \<Rightarrow> InteractivePlacer \<Rightarrow> InteractivePlacer res" where
  "repopulate env new_temporal_epoch p =
     res_bind (if remaining_chip_ids p \<noteq> [] \<and> new_temporal_epoch
               then res_bind (at_key (ip_infos p) (sub32 (current_epoch_index p) 1)) (\<lambda>info.
                      insert_empty_graphs (add32 (info_spatial_epoch_id info) 1)
                        (sub32 (current_temporal_epoch_id p) 1) p)
               else Inr p) (\<lambda>p1.
       Inr (p1\<lparr>remaining_chip_ids :=
         (if PYBUDA_PLACER_SNAKE env \<and> current_temporal_epoch_id p1 mod 2 = 1
          then rev (sorted_chip_ids p1) else sorted_chip_ids p1)\<rparr>))"

definition requested_chip :: "nat list option \<Rightarrow> nat list \<Rightarrow> nat" where
  "requested_chip requested_chip_ids remaining =
     (case requested_chip_ids of
        None \<Rightarrow> INVALID_CHIP_ID
      | Some cs \<Rightarrow> (case find (\<lambda>c. c \<in> set remaining) cs of None \<Rightarrow> INVALID_CHIP_ID | Some c \<Rightarrow> c))"

definition take_chip :: "nat list option \<Rightarrow> InteractivePlacer \<Rightarrow> InteractivePlacer res" where
  "take_chip requested_chip_ids p =
     (let remaining = remaining_chip_ids p; c = requested_chip requested_chip_ids remaining in
      res_bind (if c \<noteq> INVALID_CHIP_ID
                then Inr (p\<lparr>current_chip_id := c, remaining_chip_ids := removeAll c remaining\<rparr>)
                else if remaining = [] then Inl UndefinedBehaviour
                else Inr (p\<lparr>current_chip_id := hd remaining, remaining_chip_ids := tl remaining\<rparr>)) (\<lambda>p1.
        Inr (p1\<lparr>is_current_chip_id_mmio := current_chip_id p1 \<in> set (ip_chips_with_mmio p1)\<rparr>)))"

definition next_chip_id ::
    "Env \<Rightarrow> bool \<Rightarrow> bool \<Rightarrow> nat list option \<Rightarrow> InteractivePlacer \<Rightarrow> InteractivePlacer res" where
  "next_chip_id env start_temporal_epoch new_temporal_epoch requested_chip_ids p =
     res_bind (if start_temporal_epoch then repopulate env new_temporal_epoch p else Inr p)
       (take_chip requested_chip_ids)"

definition register_current_epoch :: "Env \<Rightarrow> bool \<Rightarrow> InteractivePlacer \<Rightarrow> InteractivePlacer" where
  "register_current_epoch env start_temporal_epoch p =
     (let k = current_epoch_index p;
          grid = (if PYBUDA_NEBULA_GALAXY_PLACER env \<and> is_current_chip_id_mmio p
                  then mk_shape 8 8 else bc_grid_size (ip_config p)) in
      p\<lparr>ip_infos := AList.update k \<lparr>info_global_epoch_id = k,
          info_temporal_epoch_id = current_temporal_epoch_id p,
          info_spatial_epoch_id = current_spatial_epoch_id p, info_epoch_type = current_epoch_type p\<rparr> (ip_infos p),
        ip_grids := initialize_device_grid_shape (ip_grids p) k (rows grid) (columns grid),
        ip_epochs := AList.update k [] (ip_epochs p),
        ip_chips := omap_insert k (current_chip_id p) (ip_chips p),
        ip_subgraphs := omap_insert k 0 (ip_subgraphs p),
        placed_ops_in_current_epoch :=
          (if start_temporal_epoch then [] else placed_ops_in_current_epoch p),
        visited_ops_in_current_epoch :=
          (if start_temporal_epoch then [] else visited_ops_in_current_epoch p)\<rparr>)"

definition init_epoch ::
    "Env \<Rightarrow> bool \<Rightarrow> bool \<Rightarrow> nat list option \<Rightarrow> InteractivePlacer \<Rightarrow> InteractivePlacer res" where
  "init_epoch env start_temporal_epoch new_temporal_epoch requested_chip_ids p =
     res_bind (next_chip_id env start_temporal_epoch new_temporal_epoch requested_chip_ids p) (\<lambda>p1.
       Inr (register_current_epoch env start_temporal_epoch p1))"

definition mk_interactive_placer :: "Env \<Rightarrow> BalancerConfig \<Rightarrow> string list \<Rightarrow> InteractivePlacer res" where
  "mk_interactive_placer env cfg output_nodes =
     res_bind (tt_assert (length (bc_chip_ids cfg) = 1 \<or> is_wormhole_b0 (bc_device_config cfg))) (\<lambda>_.
     res_bind (if \<not> PYBUDA_WORMHOLE_PIPELINED_PLACER env \<and> is_wormhole_b0 (bc_device_config cfg)
               then apply_chip_placement_policy (bc_device_config cfg) (bc_chip_placement_policy cfg) (bc_chip_ids cfg)
               else Inr [0]) (\<lambda>chips.
       init_epoch env True True None
         \<lparr>current_epoch_index = 0, current_epoch_type = Forward, ip_valid = True, sorted_chip_ids = chips,
          remaining_chip_ids = [], current_chip_id = 0, current_temporal_epoch_id = 0, current_spatial_epoch_id = 0,
          ip_chips_with_mmio = chips_with_mmio (bc_device_config cfg), is_current_chip_id_mmio = False,
          ip_config = cfg, ip_names = [], ip_chips = [], ip_subgraphs = [], ip_epochs = [],
          ip_grids = mk_epoch_grids (rows (bc_grid_size cfg)) (columns (bc_grid_size cfg)), ip_infos = [],
          placed_ops_in_current_epoch = [], visited_ops_in_current_epoch = [], ip_output_ops = output_nodes\<rparr>))"

section \<open>Placing an op\<close>

text \<open>Whether the current chip takes the op, and the chips requested for the next attempt.\<close>

definition ip_override_chip :: "InteractivePlacer \<Rightarrow> string \<Rightarrow> nat" where
  "ip_override_chip p op_name =
     (case map_of (op_name_to_placer_overrides (ip_config p)) op_name of
        None \<Rightarrow> INVALID_CHIP_ID
      | Some ov \<Rightarrow> (case override_chip_id_opt ov of None \<Rightarrow> INVALID_CHIP_ID | Some c \<Rightarrow> c))"

definition can_place_op_onto_chip ::
    "Env \<Rightarrow> string \<Rightarrow> bool \<Rightarrow> InteractivePlacer \<Rightarrow> (bool \<times> nat list) res" where
  "can_place_op_onto_chip env op_name chip_break p =
     (let cfg = ip_config p;
          output_op = (bc_output_queues_on_host cfg \<and> op_name \<in> set (ip_output_ops p));
          skip_due_to_output_op = (output_op \<and> \<not> is_current_chip_id_mmio p);
          late = (placed_ops_in_current_epoch p \<noteq> [] \<and> op_name \<notin> set (visited_ops_in_current_epoch p));
          skip_due_to_chip_break = (chip_break \<and> late);
          override_chip_id = ip_override_chip p op_name;
          skip_due_to_chip_id_override =
            (override_chip_id \<noteq> INVALID_CHIP_ID \<and> override_chip_id \<noteq> current_chip_id p) in
      res_bind (tt_assert (override_chip_id = INVALID_CHIP_ID \<or> \<not> skip_due_to_output_op \<or>
          override_chip_id \<in> set (ip_chips_with_mmio p))) (\<lambda>_.
      let skip_if_not_output = (PYBUDA_NEBULA_GALAXY_PLACER env \<and> \<not> output_op \<and>
            is_current_chip_id_mmio p \<and> length (sorted_chip_ids p) \<noteq> 1);
          skip_due_to_epoch_break_for_output_op = (PYBUDA_NEBULA_GALAXY_PLACER env \<and>
            PYBUDA_WORMHOLE_PIPELINED_PLACER env \<and> output_op \<and> late);
          requested_chip_ids =
            (if skip_due_to_chip_id_override then [override_chip_id]
             else if skip_due_to_output_op then chips_with_mmio (bc_device_config cfg) else []) in
      Inr (\<not> skip_due_to_output_op \<and> \<not> skip_due_to_chip_break \<and> \<not> skip_due_to_chip_id_override \<and>
           \<not> skip_if_not_output \<and> \<not> skip_due_to_epoch_break_for_output_op, requested_chip_ids)))"

text \<open>
  The step to the next spatial epoch. When nothing is placed yet and a requested chip is still to
  come, the current chip goes back to the pool, once for every such requested chip.
\<close>

definition put_chip_back :: "nat \<Rightarrow> InteractivePlacer \<Rightarrow> InteractivePlacer" where
  "put_chip_back requested p =
     (if requested \<in> set (remaining_chip_ids p)
      then p\<lparr>remaining_chip_ids := current_chip_id p # remaining_chip_ids p,
             current_spatial_epoch_id := sub32 (current_spatial_epoch_id p) 1,
             current_epoch_index := sub32 (current_epoch_index p) 1\<rparr>
      else p)"

definition next_spatial_epoch ::
    "Env \<Rightarrow> string \<Rightarrow> nat list \<Rightarrow> InteractivePlacer \<Rightarrow> InteractivePlacer res" where
  "next_spatial_epoch env op_name requested_chip_ids p =
     (let p1 = p\<lparr>visited_ops_in_current_epoch := List.insert op_name (visited_ops_in_current_epoch p),
                 current_spatial_epoch_id := add32 (current_spatial_epoch_id p) 1,
                 current_epoch_index := add32 (current_epoch_index p) 1\<rparr>;
          p2 = (if placed_ops_in_current_epoch p1 = [] then fold put_chip_back requested_chip_ids p1 else p1) in
      init_epoch env False False (Some requested_chip_ids) p2)"

text \<open>The attempt on the current chip.\<close>

definition attempt_op ::
    "Env \<Rightarrow> string \<Rightarrow> bool \<Rightarrow> shapes \<Rightarrow> bool \<Rightarrow> InteractivePlacer \<Rightarrow> DeviceGridPlacement option comp" where
  "attempt_op env op_name enable_transpose to_place can_place p =
     (if can_place
      then comp_bind (Some (get_device_grid (ip_grids p) (current_epoch_index p))) (\<lambda>g.
             place_one_op (PYBUDA_TRIPLET_PLACEMENT env) op_name to_place g
               (op_name_to_placer_overrides (ip_config p)) enable_transpose None)
      else Some (Inr None))"

definition check_harvested_rows :: "Env \<Rightarrow> string \<Rightarrow> DeviceGridPlacement \<Rightarrow> InteractivePlacer \<Rightarrow> unit res" where
  "check_harvested_rows env op_name placement p =
     tt_assert (\<not> PYBUDA_NEBULA_GALAXY_PLACER env \<or> \<not> bc_output_queues_on_host (ip_config p) \<or>
       op_name \<notin> set (ip_output_ops p) \<or> row (range_end (dgp_placed_cores placement)) \<le> 8)"

partial_function (option) ip_place_one_op ::
    "Env \<Rightarrow> string \<Rightarrow> bool \<Rightarrow> bool \<Rightarrow> shapes \<Rightarrow> InteractivePlacer \<Rightarrow>
     (DeviceGridPlacement option \<times> InteractivePlacer) res option" where
  "ip_place_one_op env op_name enable_transpose chip_break to_place p =
     (case can_place_op_onto_chip env op_name chip_break p of
        Inl ex \<Rightarrow> Some (Inl ex)
      | Inr (can_place, requested_chip_ids) \<Rightarrow>
          (case attempt_op env op_name enable_transpose to_place can_place p of
             None \<Rightarrow> None
           | Some (Inl ex) \<Rightarrow> Some (Inl ex)
           | Some (Inr (Some placement)) \<Rightarrow>
               Some (res_bind (check_harvested_rows env op_name placement p) (\<lambda>_. Inr (Some placement, p)))
           | Some (Inr None) \<Rightarrow>
               if remaining_chip_ids p = [] then Some (Inr (None, p))
               else (case next_spatial_epoch env op_name requested_chip_ids p of
                       Inl ex \<Rightarrow> Some (Inl ex)
                     | Inr p' \<Rightarrow> ip_place_one_op env op_name enable_transpose chip_break to_place p')))"

declare ip_place_one_op.simps [code]

text \<open>Recording a placement: the op list, the name map, the epoch, and the cores of the grid.\<close>

definition record_op ::
    "string \<Rightarrow> bool \<Rightarrow> CoordRange \<Rightarrow> GridShape \<Rightarrow> InteractivePlacer \<Rightarrow> InteractivePlacer res" where
  "record_op op_name transposed_flag cores op_shape p =
     (let k = current_epoch_index p;
          op_placement = \<lparr>placement_id = 0, placement_name = op_name, placement_chip_id = current_chip_id p,
            global_epoch_id = k, grid_transpose = transposed_flag, placed_cores = cores\<rparr> in
      res_bind (eg_fill (ip_grids p) k (range_start cores) op_shape) (\<lambda>grids.
        Inr (p\<lparr>placed_ops_in_current_epoch := placed_ops_in_current_epoch p @ [op_name],
               ip_names := AList.update op_name op_placement (ip_names p),
               ip_epochs := push_at k op_placement (ip_epochs p),
               ip_grids := grids\<rparr>)))"

definition place_op ::
    "Env \<Rightarrow> string \<Rightarrow> GridShape \<Rightarrow> bool \<Rightarrow> bool \<Rightarrow> InteractivePlacer \<Rightarrow>
     (CoordRange option \<times> InteractivePlacer) comp" where
  "place_op env op_name shape enable_transpose chip_break p =
     comp_bind (Some (tt_assert (ip_valid p))) (\<lambda>_.
     comp_bind (ip_place_one_op env op_name
         (bc_enable_auto_transposing_placement (ip_config p) \<and> enable_transpose) chip_break [(op_name, shape)] p)
       (\<lambda>(placement, p1).
       case placement of
         None \<Rightarrow> Some (Inr (None, p1))
       | Some pl \<Rightarrow>
           comp_bind (Some (record_op op_name (dgp_grid_transpose pl) (dgp_placed_cores pl)
               (if dgp_grid_transpose pl then transposed shape else shape) p1)) (\<lambda>p2.
             Some (Inr (Some (dgp_placed_cores pl), p2)))))"

definition can_fit_on_single_epoch :: "InteractivePlacer \<Rightarrow> nat \<Rightarrow> nat \<Rightarrow> bool \<Rightarrow> bool" where
  "can_fit_on_single_epoch p r c allow_transpose =
     (r \<le> eg_rows (ip_grids p) \<and> c \<le> eg_columns (ip_grids p) \<or>
      allow_transpose \<and> bc_enable_auto_transposing_placement (ip_config p) \<and>
      r \<le> eg_columns (ip_grids p) \<and> c \<le> eg_rows (ip_grids p) \<and> r > c)"

text \<open>Two ops are placed as one block and then separated: the first at its start, the second at its end.\<close>

definition place_two_ops_rowwise ::
    "Env \<Rightarrow> string \<Rightarrow> GridShape \<Rightarrow> string \<Rightarrow> GridShape \<Rightarrow> bool \<Rightarrow> bool \<Rightarrow> InteractivePlacer \<Rightarrow>
     (CoordRange option \<times> InteractivePlacer) comp" where
  "place_two_ops_rowwise env op_name_1 shape_1 op_name_2 shape_2 enable_transpose chip_break p =
     comp_bind (Some (tt_assert (ip_valid p))) (\<lambda>_.
     comp_bind (Some (tt_assert (rows shape_1 = rows shape_2))) (\<lambda>_.
     let block = mk_shape (rows shape_1) (add32 (columns shape_1) (columns shape_2)) in
     comp_bind (Some (tt_assert (can_fit_on_single_epoch p (rows block) (columns block) enable_transpose))) (\<lambda>_.
     comp_bind (ip_place_one_op env op_name_1
         (bc_enable_auto_transposing_placement (ip_config p) \<and> enable_transpose) chip_break [(op_name_1, block)] p)
       (\<lambda>(placement, p1).
       case placement of
         None \<Rightarrow> Some (Inr (None, p1))
       | Some pl \<Rightarrow>
           let cores = dgp_placed_cores pl; tr = dgp_grid_transpose pl;
               op_shape_1 = (if tr then transposed shape_1 else shape_1);
               op_shape_2 = (if tr then transposed shape_2 else shape_2);
               cores_1 = cores\<lparr>range_end := mk_coord (add32 (row (range_start cores)) (rows op_shape_1))
                                                    (add32 (col (range_start cores)) (columns op_shape_1))\<rparr>;
               cores_2 = cores\<lparr>range_start := mk_coord (sub32 (row (range_end cores)) (rows op_shape_2))
                                                      (sub32 (col (range_end cores)) (columns op_shape_2))\<rparr> in
           comp_bind (Some (record_op op_name_1 tr cores_1 op_shape_1 p1)) (\<lambda>p2.
           comp_bind (Some (record_op op_name_2 tr cores_2 op_shape_2 p2)) (\<lambda>p3.
             Some (Inr (Some cores, p3))))))))"

section \<open>Epochs and rewinding\<close>

definition next_epoch :: "Env \<Rightarrow> NodeEpochType \<Rightarrow> InteractivePlacer \<Rightarrow> (nat \<times> InteractivePlacer) res" where
  "next_epoch env epoch_type p =
     res_bind (tt_assert (ip_valid p)) (\<lambda>_.
     res_bind (init_epoch env True True None
         (p\<lparr>current_epoch_index := add32 (current_epoch_index p) 1,
            current_temporal_epoch_id := add32 (current_temporal_epoch_id p) 1,
            current_spatial_epoch_id := 0, current_epoch_type := epoch_type\<rparr>)) (\<lambda>p1.
       Inr (current_epoch_index p1, p1)))"

text \<open>Both rewinds go back to the first spatial epoch of the temporal epoch and open it again.\<close>

definition reopen_temporal_epoch :: "Env \<Rightarrow> InteractivePlacer \<Rightarrow> InteractivePlacer res" where
  "reopen_temporal_epoch env p =
     init_epoch env True False None
       (p\<lparr>current_epoch_index := sub32 (current_epoch_index p) (current_spatial_epoch_id p),
          current_spatial_epoch_id := 0\<rparr>)"

definition unplace_logged ::
    "string \<Rightarrow> (string \<times> OpPlacement) list \<times> InteractivePlacer \<Rightarrow> ((string \<times> OpPlacement) list \<times> InteractivePlacer) res"
where
  "unplace_logged op s =
     (let (ret, p) = s in
      res_bind (at_key (ip_names p) op) (\<lambda>pl.
        Inr (ret @ [(op, pl)], p\<lparr>ip_names := AList.delete op (ip_names p)\<rparr>)))"

definition rewind_epoch_logged ::
    "Env \<Rightarrow> InteractivePlacer \<Rightarrow> ((string \<times> OpPlacement) list \<times> InteractivePlacer) res" where
  "rewind_epoch_logged env p =
     res_bind (fold_res unplace_logged (placed_ops_in_current_epoch p) ([], p)) (\<lambda>(ret, p1).
     res_bind (reopen_temporal_epoch env p1) (\<lambda>p2. Inr (ret, p2)))"

definition rewind_epoch :: "Env \<Rightarrow> InteractivePlacer \<Rightarrow> InteractivePlacer res" where
  "rewind_epoch env p =
     reopen_temporal_epoch env
       (p\<lparr>ip_names := fold AList.delete (placed_ops_in_current_epoch p) (ip_names p)\<rparr>)"

definition set_overrides :: "overrides \<Rightarrow> InteractivePlacer \<Rightarrow> InteractivePlacer" where
  "set_overrides ov p = p\<lparr>ip_config := (ip_config p)\<lparr>op_name_to_placer_overrides := ov\<rparr>\<rparr>"

text \<open>Placing an op again where it was: its own override is set aside for the time of the call.\<close>

definition replace_op :: "Env \<Rightarrow> string \<Rightarrow> OpPlacement \<Rightarrow> InteractivePlacer \<Rightarrow> InteractivePlacer comp" where
  "replace_op env op pl p =
     (let ov = op_name_to_placer_overrides (ip_config p);
          user_override = map_of ov op;
          ov1 = AList.delete op ov;
          rewind_override = \<lparr>grid_start = Some (range_start (placed_cores pl)), transpose_op = grid_transpose pl,
            override_chip_id_opt = Some (placement_chip_id pl), temporal_epoch_break = False\<rparr>;
          untransposed = (if grid_transpose pl then range_transpose (placed_cores pl) else placed_cores pl) in
      comp_bind (place_op env op (mk_shape (size_r untransposed) (size_c untransposed)) False False
          (set_overrides (AList.update op rewind_override ov1) p)) (\<lambda>(placed, p1).
      let ov2 = AList.delete op (op_name_to_placer_overrides (ip_config p1));
          ov3 = (case user_override of None \<Rightarrow> ov2 | Some u \<Rightarrow> AList.update op u ov2) in
      comp_bind (Some (tt_assert (placed \<noteq> None))) (\<lambda>_. Some (Inr (set_overrides ov3 p1)))))"

primrec replay_to ::
    "Env \<Rightarrow> string \<Rightarrow> (string \<times> OpPlacement) option \<Rightarrow> (string \<times> OpPlacement) list \<Rightarrow> InteractivePlacer \<Rightarrow>
     ((string \<times> OpPlacement) option \<times> InteractivePlacer) comp" where
  "replay_to env op_name prev [] p = Some (Inl RuntimeError)"
| "replay_to env op_name prev (x # xs) p =
     (if fst x = op_name then Some (Inr (prev, p))
      else comp_bind (replace_op env (fst x) (snd x) p) (replay_to env op_name (Some x) xs))"

text \<open>The result is the last op placed again; None stands for the pair with the empty name.\<close>

definition rewind_to ::
    "Env \<Rightarrow> string \<Rightarrow> InteractivePlacer \<Rightarrow> ((string \<times> OpPlacement) option \<times> InteractivePlacer) comp" where
  "rewind_to env op_name p =
     comp_bind (Some (rewind_epoch_logged env p)) (\<lambda>(rew, p1). replay_to env op_name None rew p1)"

section \<open>Pipelined placement\<close>

text \<open>
  The local variables of \<open>assign_chip_ids_for_pipelined_placement\<close> beside the object. Every epoch that
  is assigned has an entry in \<open>epoch_id_to_op_placement\<close>, so reading it with \<open>[]\<close> creates none.
\<close>

record PipelineState =
  pl_placer :: InteractivePlacer
  current_chip_id_index :: nat
  num_epochs_placed_on_chip :: nat

definition epoch_ops :: "InteractivePlacer \<Rightarrow> nat \<Rightarrow> OpPlacement list" where
  "epoch_ops p k = (case map_of (ip_epochs p) k of None \<Rightarrow> [] | Some ps \<Rightarrow> ps)"

definition can_place_epoch :: "Env \<Rightarrow> string list \<Rightarrow> nat \<Rightarrow> InteractivePlacer \<Rightarrow> bool res" where
  "can_place_epoch env chip_break_ops k p =
     all_res (\<lambda>pl. res_bind (can_place_op_onto_chip env (placement_name pl)
         (placement_name pl \<in> set chip_break_ops) p) (\<lambda>(ok, _). Inr ok)) (epoch_ops p k)"

definition set_ip_op_chip :: "nat \<Rightarrow> string \<Rightarrow> InteractivePlacer \<Rightarrow> InteractivePlacer" where
  "set_ip_op_chip chip op p =
     p\<lparr>ip_names := AList.update op
         ((case map_of (ip_names p) op of None \<Rightarrow> default_op_placement | Some pl \<Rightarrow> pl)
            \<lparr>placement_chip_id := chip\<rparr>) (ip_names p)\<rparr>"

text \<open>The epoch goes to the current chip; the other chips get empty epochs, which end the temporal epoch.\<close>

definition assign_ip_epoch :: "nat \<Rightarrow> PipelineState \<Rightarrow> PipelineState res" where
  "assign_ip_epoch k s =
     (let p = pl_placer s; chip = current_chip_id p; ps = epoch_ops p k;
          info = (case map_of (ip_infos p) k of
                    None \<Rightarrow> \<lparr>info_global_epoch_id = 0, info_temporal_epoch_id = 0, info_spatial_epoch_id = 0,
                             info_epoch_type = Forward\<rparr>
                  | Some info \<Rightarrow> info);
          p1 = p\<lparr>ip_chips := omap_insert k chip (ip_chips p),
                 ip_infos := AList.update k (info\<lparr>info_temporal_epoch_id := current_temporal_epoch_id p,
                   info_spatial_epoch_id := current_spatial_epoch_id p\<rparr>) (ip_infos p),
                 ip_subgraphs := omap_insert k 0 (ip_subgraphs p),
                 ip_epochs := AList.update k (map (\<lambda>pl. pl\<lparr>placement_chip_id := chip\<rparr>) ps) (ip_epochs p)\<rparr>;
          p2 = fold (\<lambda>pl. set_ip_op_chip chip (placement_name pl)) ps p1;
          p3 = p2\<lparr>placed_ops_in_current_epoch := placed_ops_in_current_epoch p2 @ map placement_name ps,
                  remaining_chip_ids := removeAll chip (remaining_chip_ids p2)\<rparr> in
      res_bind (insert_empty_graphs (add32 (current_spatial_epoch_id p3) 1) (current_temporal_epoch_id p3) p3) (\<lambda>p4.
      res_bind (tt_assert (remaining_chip_ids p4 = [])) (\<lambda>_.
        Inr (s\<lparr>pl_placer := p4\<lparr>current_temporal_epoch_id := add32 (current_temporal_epoch_id p4) 1,
                current_spatial_epoch_id := 0, remaining_chip_ids := sorted_chip_ids p4\<rparr>,
               num_epochs_placed_on_chip := add32 (num_epochs_placed_on_chip s) 1\<rparr>))))"

definition goto_chip :: "nat \<Rightarrow> InteractivePlacer \<Rightarrow> InteractivePlacer res" where
  "goto_chip i p =
     res_bind (if sorted_chip_ids p = [] then Inl UndefinedBehaviour
               else vec_at (sorted_chip_ids p) (i mod length (sorted_chip_ids p))) (\<lambda>chip.
       Inr (p\<lparr>current_chip_id := chip, is_current_chip_id_mmio := chip \<in> set (ip_chips_with_mmio p)\<rparr>))"

text \<open>What follows an attempt: the ops count as visited, and a full or refused chip is left.\<close>

definition after_epoch_attempt :: "nat \<Rightarrow> nat \<Rightarrow> bool \<Rightarrow> PipelineState \<Rightarrow> PipelineState res" where
  "after_epoch_attempt num_epochs_per_chip k placed s =
     (let p = pl_placer s; full = (num_epochs_placed_on_chip s = num_epochs_per_chip);
          p1 = p\<lparr>visited_ops_in_current_epoch :=
                   fold (\<lambda>pl. List.insert (placement_name pl)) (epoch_ops p k) (visited_ops_in_current_epoch p),
                 placed_ops_in_current_epoch := (if placed \<and> full then [] else placed_ops_in_current_epoch p)\<rparr> in
      if \<not> placed \<or> full
      then res_bind (goto_chip (add32 (current_chip_id_index s) 1) p1) (\<lambda>p2.
             Inr (s\<lparr>pl_placer := p2, current_chip_id_index := add32 (current_chip_id_index s) 1,
                    num_epochs_placed_on_chip := 0\<rparr>))
      else Inr (s\<lparr>pl_placer := p1\<rparr>))"

text \<open>The search for a chip; there is no bound on the attempts in the code.\<close>

partial_function (option) find_chip_for_epoch ::
    "Env \<Rightarrow> string list \<Rightarrow> nat \<Rightarrow> nat \<Rightarrow> PipelineState \<Rightarrow> PipelineState res option" where
  "find_chip_for_epoch env chip_break_ops num_epochs_per_chip k s =
     (case can_place_epoch env chip_break_ops k (pl_placer s) of
        Inl ex \<Rightarrow> Some (Inl ex)
      | Inr placed \<Rightarrow>
          (case res_bind (if placed then assign_ip_epoch k s else Inr s)
                  (after_epoch_attempt num_epochs_per_chip k placed) of
             Inl ex \<Rightarrow> Some (Inl ex)
           | Inr s1 \<Rightarrow> if placed then Some (Inr s1)
                        else find_chip_for_epoch env chip_break_ops num_epochs_per_chip k s1))"

declare find_chip_for_epoch.simps [code]

definition assign_chip_ids_for_pipelined_placement ::
    "Env \<Rightarrow> nat \<Rightarrow> string list option \<Rightarrow> InteractivePlacer \<Rightarrow> InteractivePlacer comp" where
  "assign_chip_ids_for_pipelined_placement env n chip_break_ops p =
     (let cfg = ip_config p in
      comp_bind (Some (tt_assert (is_wormhole_b0 (bc_device_config cfg)))) (\<lambda>_.
      comp_bind (Some (tt_assert (chip_break_ops \<noteq> None))) (\<lambda>_.
      comp_bind (Some (apply_chip_placement_policy (bc_device_config cfg) (bc_chip_placement_policy cfg)
          (bc_chip_ids cfg))) (\<lambda>chips.
      comp_bind (Some (tt_assert (remaining_chip_ids p = []))) (\<lambda>_.
      comp_bind (Some (goto_chip 0 (p\<lparr>placed_ops_in_current_epoch := [], visited_ops_in_current_epoch := [],
          sorted_chip_ids := chips, remaining_chip_ids := chips, current_temporal_epoch_id := 0,
          current_spatial_epoch_id := 0\<rparr>))) (\<lambda>p1.
      comp_bind (fold_comp (find_chip_for_epoch env (case chip_break_ops of None \<Rightarrow> [] | Some ops \<Rightarrow> ops) (epochs_per_chip n (length chips)))
          [0..<n] \<lparr>pl_placer = p1, current_chip_id_index = 0, num_epochs_placed_on_chip = 0\<rparr>) (\<lambda>s.
        Some (Inr (pl_placer s)))))))))"

section \<open>Commit\<close>

text \<open>The number of epochs is taken before the last empty graphs are inserted.\<close>

definition commit ::
    "Env \<Rightarrow> string list option \<Rightarrow> InteractivePlacer \<Rightarrow> (PlacerSolution \<times> InteractivePlacer) comp" where
  "commit env chip_break_ops p =
     comp_bind (Some (at_key (ip_epochs p) (current_epoch_index p))) (\<lambda>ps.
     let p1 = (if ps \<noteq> [] then p\<lparr>current_epoch_index := add32 (current_epoch_index p) 1\<rparr> else p);
         n = current_epoch_index p1 in
     comp_bind (if PYBUDA_WORMHOLE_PIPELINED_PLACER env
                then assign_chip_ids_for_pipelined_placement env n chip_break_ops p1
                else Some (insert_empty_graphs (add32 (current_spatial_epoch_id p1) 1)
                       (current_temporal_epoch_id p1) p1)) (\<lambda>p2.
       Some (Inr (\<lparr>name_to_op_placement = ip_names p2, sol_input_queue_to_grid_shape = [],
                   name_to_queue_placement = [], epoch_id_to_chip = ip_chips p2, epoch_id_to_subgraph_index = [],
                   epoch_id_to_op_placement = ip_epochs p2, sol_device_grids = ip_grids p2,
                   epoch_id_to_epoch_info = ip_infos p2, num_epochs = n, is_pipelined = True,
                   fork_join_buffered = False\<rparr>, p2\<lparr>ip_valid := False\<rparr>))))"

end
