(* ===== verification/Interactive_Facts.thy ===== *)
theory Interactive_Facts
  imports Interactive_Placer Chip_Placer_Facts "HOL-Library.Multiset"
begin

text \<open>
  The chips and epochs of the interactive placer. Every temporal epoch takes as many epochs as there
  are chips, so epoch \<open>t * n + i\<close> is the \<open>i\<close>-th of temporal epoch \<open>t\<close>, and the chips of a temporal
  epoch are a permutation of all chips: those of its epochs so far and those that remain.
\<close>

section \<open>The order of epochs and chips\<close>

abbreviation chip_count :: "InteractivePlacer \<Rightarrow> nat" where
  "chip_count p \<equiv> length (sorted_chip_ids p)"

text \<open>
  What the configuration has to satisfy. At most one of the chips has MMIO: with two, the current
  chip is put back twice (see below).
\<close>

definition chips_setup :: "InteractivePlacer \<Rightarrow> bool" where
  "chips_setup p \<longleftrightarrow> distinct (sorted_chip_ids p) \<and> sorted_chip_ids p \<noteq> [] \<and>
     INVALID_CHIP_ID \<notin> set (sorted_chip_ids p) \<and>
     ip_chips_with_mmio p = chips_with_mmio (bc_device_config (ip_config p)) \<and>
     length (filter (\<lambda>c. c \<in> set (sorted_chip_ids p)) (ip_chips_with_mmio p)) \<le> 1"

definition small_epochs :: "InteractivePlacer \<Rightarrow> bool" where
  "small_epochs p \<longleftrightarrow> (current_temporal_epoch_id p + 1) * chip_count p < 2 ^ 32"

text \<open>The first epochs of temporal epoch \<open>t\<close> run on the chips \<open>cs\<close>.\<close>

definition block :: "InteractivePlacer \<Rightarrow> nat \<Rightarrow> nat list \<Rightarrow> bool" where
  "block p t cs \<longleftrightarrow> (\<forall>j < length cs. map_of (ip_chips p) (t * chip_count p + j) = Some (cs ! j) \<and>
     (\<exists>ty. map_of (ip_infos p) (t * chip_count p + j) = Some \<lparr>info_global_epoch_id = t * chip_count p + j,
        info_temporal_epoch_id = t, info_spatial_epoch_id = j, info_epoch_type = ty\<rparr>))"

text \<open>
  The temporal epochs before the current one are complete, \<open>used\<close> are the chips of the current one,
  and the next epoch to be opened has the current index.
\<close>

definition between :: "InteractivePlacer \<Rightarrow> nat list \<Rightarrow> bool" where
  "between p used \<longleftrightarrow>
     ordered_keys (ip_chips p) \<and> small_epochs p \<and> length used = current_spatial_epoch_id p \<and>
     current_epoch_index p = current_temporal_epoch_id p * chip_count p + current_spatial_epoch_id p \<and>
     (\<forall>t < current_temporal_epoch_id p. \<exists>cs. mset cs = mset (sorted_chip_ids p) \<and> block p t cs) \<and>
     mset used + mset (remaining_chip_ids p) = mset (sorted_chip_ids p) \<and>
     block p (current_temporal_epoch_id p) used"

text \<open>The same with the current epoch open.\<close>

definition chips_inv :: "InteractivePlacer \<Rightarrow> nat list \<Rightarrow> bool" where
  "chips_inv p used \<longleftrightarrow>
     ordered_keys (ip_chips p) \<and> small_epochs p \<and> length used = current_spatial_epoch_id p \<and>
     current_epoch_index p = current_temporal_epoch_id p * chip_count p + current_spatial_epoch_id p \<and>
     (\<forall>t < current_temporal_epoch_id p. \<exists>cs. mset cs = mset (sorted_chip_ids p) \<and> block p t cs) \<and>
     mset used + {#current_chip_id p#} + mset (remaining_chip_ids p) = mset (sorted_chip_ids p) \<and>
     block p (current_temporal_epoch_id p) (used @ [current_chip_id p]) \<and>
     is_current_chip_id_mmio p = (current_chip_id p \<in> set (ip_chips_with_mmio p))"

lemma betweenD:
  assumes "between p used"
  shows "ordered_keys (ip_chips p)" "small_epochs p" "length used = current_spatial_epoch_id p"
    "current_epoch_index p = current_temporal_epoch_id p * chip_count p + current_spatial_epoch_id p"
    "\<forall>t < current_temporal_epoch_id p. \<exists>cs. mset cs = mset (sorted_chip_ids p) \<and> block p t cs"
    "mset used + mset (remaining_chip_ids p) = mset (sorted_chip_ids p)"
    "block p (current_temporal_epoch_id p) used"
  using assms unfolding between_def by blast+

lemma chips_invD:
  assumes "chips_inv p used"
  shows "ordered_keys (ip_chips p)" "small_epochs p" "length used = current_spatial_epoch_id p"
    "current_epoch_index p = current_temporal_epoch_id p * chip_count p + current_spatial_epoch_id p"
    "\<forall>t < current_temporal_epoch_id p. \<exists>cs. mset cs = mset (sorted_chip_ids p) \<and> block p t cs"
    "mset used + {#current_chip_id p#} + mset (remaining_chip_ids p) = mset (sorted_chip_ids p)"
    "block p (current_temporal_epoch_id p) (used @ [current_chip_id p])"
    "is_current_chip_id_mmio p = (current_chip_id p \<in> set (ip_chips_with_mmio p))"
  using assms unfolding chips_inv_def by blast+

lemma between_bounds:
  assumes "between p used" "remaining_chip_ids p \<noteq> []"
  shows "current_spatial_epoch_id p < chip_count p" "Suc (current_epoch_index p) < 2 ^ 32"
proof -
  have "size (mset used + mset (remaining_chip_ids p)) = size (mset (sorted_chip_ids p))"
    using assms(1) by (simp only: between_def)
  then have len: "length used + length (remaining_chip_ids p) = chip_count p" by simp
  moreover have "0 < length (remaining_chip_ids p)" using assms(2) by simp
  ultimately have "length used < chip_count p" by linarith
  then show less: "current_spatial_epoch_id p < chip_count p" using assms(1) by (simp add: between_def)
  have "Suc (current_epoch_index p) \<le> (current_temporal_epoch_id p + 1) * chip_count p"
    using assms(1) less by (simp add: between_def)
  also have "\<dots> < 2 ^ 32" using assms(1) by (simp only: between_def small_epochs_def)
  finally show "Suc (current_epoch_index p) < 2 ^ 32" .
qed

lemma find_member: "find P xs = Some x \<Longrightarrow> x \<in> set xs \<and> P x"
  by (induction xs) (auto split: if_splits)

lemma mset_remove_distinct:
  "distinct xs \<Longrightarrow> c \<in> set xs \<Longrightarrow> {#c#} + mset (removeAll c xs) = mset xs"
  by (simp add: distinct_remove1_removeAll [symmetric])

text \<open>Taking a chip: a requested one if it remains, else the first.\<close>

lemma take_chip_ok:
  assumes "chips_setup p" "mset used + mset (remaining_chip_ids p) = mset (sorted_chip_ids p)"
    and "remaining_chip_ids p \<noteq> []"
  shows "\<exists>c rest. take_chip req p = Inr (p\<lparr>current_chip_id := c, remaining_chip_ids := rest,
        is_current_chip_id_mmio := c \<in> set (ip_chips_with_mmio p)\<rparr>) \<and>
     {#c#} + mset rest = mset (remaining_chip_ids p) \<and>
     (case req of None \<Rightarrow> c = hd (remaining_chip_ids p) | Some cs \<Rightarrow>
        (\<exists>r \<in> set cs. r \<in> set (remaining_chip_ids p)) \<longrightarrow> c \<in> set cs)"
proof -
  have "mset (used @ remaining_chip_ids p) = mset (sorted_chip_ids p)" using assms(2) by simp
  then have "distinct (used @ remaining_chip_ids p)"
    using assms(1) unfolding chips_setup_def by (metis mset_eq_imp_distinct_iff)
  then have dist: "distinct (remaining_chip_ids p)" by simp
  have valid: "INVALID_CHIP_ID \<notin> set (remaining_chip_ids p)"
    using assms(1,2) by (metis UnI2 chips_setup_def set_append set_mset_mset set_mset_union)
  show ?thesis
  proof (cases "requested_chip req (remaining_chip_ids p) = INVALID_CHIP_ID")
    case True
    have "case req of None \<Rightarrow> True | Some cs \<Rightarrow> \<not> (\<exists>r \<in> set cs. r \<in> set (remaining_chip_ids p))"
    proof (cases req)
      case (Some cs)
      have "find (\<lambda>c. c \<in> set (remaining_chip_ids p)) cs = None"
        using True Some valid find_member by (fastforce simp: requested_chip_def split: option.splits)
      then show ?thesis using Some by (auto simp: find_None_iff)
    qed simp
    then show ?thesis using True assms(3)
      by (cases "remaining_chip_ids p") (auto simp: take_chip_def Let_def split: option.splits)
  next
    case False
    then obtain cs c where req: "req = Some cs" "find (\<lambda>c. c \<in> set (remaining_chip_ids p)) cs = Some c"
      by (auto simp: requested_chip_def split: option.splits)
    then have c: "requested_chip req (remaining_chip_ids p) = c" by (simp add: requested_chip_def)
    have "c \<in> set cs" "c \<in> set (remaining_chip_ids p)" using find_member [OF req(2)] by simp_all
    with False req(1) c mset_remove_distinct [OF dist, of c] show ?thesis
      by (intro exI [of _ c] exI [of _ "removeAll c (remaining_chip_ids p)"]) (simp add: take_chip_def Let_def)
  qed
qed

text \<open>Keys of earlier epochs are different from later ones.\<close>

lemma epoch_key_less: "t < T \<Longrightarrow> j < n \<Longrightarrow> t * n + j < T * (n :: nat)"
proof -
  assume "t < T" "j < n"
  then have "t * n + j < (t + 1) * n" by simp
  also have "\<dots> \<le> T * n" using \<open>t < T\<close> by (intro mult_le_mono1) simp
  finally show ?thesis .
qed

lemma block_mono:
  assumes "block p t cs" "sorted_chip_ids p' = sorted_chip_ids p"
    and "\<forall>j < length cs. map_of (ip_chips p') (t * chip_count p + j) = map_of (ip_chips p) (t * chip_count p + j) \<and>
      map_of (ip_infos p') (t * chip_count p + j) = map_of (ip_infos p) (t * chip_count p + j)"
  shows "block p' t cs"
  using assms by (simp add: block_def)

text \<open>Opening the epoch on the chip that was taken.\<close>

lemma closed_blocks_kept:
  assumes "\<forall>t < T. \<exists>cs. mset cs = mset (sorted_chip_ids p) \<and> block p t cs"
    and "sorted_chip_ids p' = sorted_chip_ids p"
    and "\<And>k. k < T * chip_count p \<Longrightarrow> map_of (ip_chips p') k = map_of (ip_chips p) k \<and> map_of (ip_infos p') k = map_of (ip_infos p) k"
  shows "\<forall>t < T. \<exists>cs. mset cs = mset (sorted_chip_ids p') \<and> block p' t cs"
proof (intro allI impI)
  fix t
  assume t: "t < T"
  with assms(1) obtain cs where cs: "mset cs = mset (sorted_chip_ids p)" "block p t cs" by blast
  then have "length cs = chip_count p" by (metis size_mset)
  then have "block p' t cs"
    using assms(3) epoch_key_less [OF t] by (intro block_mono [OF cs(2) assms(2)]) simp
  then show "\<exists>cs. mset cs = mset (sorted_chip_ids p') \<and> block p' t cs" using cs(1) assms(2) by auto
qed

lemma register_opens:
  assumes b: "between p used" and r: "mset (remaining_chip_ids p) = {#c#} + mset rest"
  shows "chips_inv (register_current_epoch env st
     (p\<lparr>current_chip_id := c, remaining_chip_ids := rest, is_current_chip_id_mmio := c \<in> set (ip_chips_with_mmio p)\<rparr>)) used"
    (is "chips_inv ?p used")
proof -
  let ?k = "current_epoch_index p" and ?T = "current_temporal_epoch_id p" and ?n = "chip_count p"
  have k: "?k = ?T * ?n + length used" and ord: "ordered_keys (ip_chips p)" using b by (simp_all add: between_def)
  have chips: "map_of (ip_chips ?p) k = (if k = ?k then Some c else map_of (ip_chips p) k)"
    and infos: "map_of (ip_infos ?p) k = (if k = ?k then Some \<lparr>info_global_epoch_id = ?k, info_temporal_epoch_id = ?T,
        info_spatial_epoch_id = current_spatial_epoch_id p, info_epoch_type = current_epoch_type p\<rparr>
      else map_of (ip_infos p) k)" for k
    using ord by (simp_all add: register_current_epoch_def Let_def)
  have rest: "sorted_chip_ids ?p = sorted_chip_ids p" "current_temporal_epoch_id ?p = ?T" "current_epoch_index ?p = ?k"
    "current_spatial_epoch_id ?p = current_spatial_epoch_id p" "remaining_chip_ids ?p = rest" "current_chip_id ?p = c"
    "is_current_chip_id_mmio ?p = (c \<in> set (ip_chips_with_mmio p))" "ip_chips_with_mmio ?p = ip_chips_with_mmio p"
    by (simp_all add: register_current_epoch_def Let_def)
  have "\<forall>t < ?T. \<exists>cs. mset cs = mset (sorted_chip_ids ?p) \<and> block ?p t cs"
  proof (rule closed_blocks_kept [OF _ rest(1)])
    show "\<forall>t < ?T. \<exists>cs. mset cs = mset (sorted_chip_ids p) \<and> block p t cs" by (rule betweenD(5) [OF b])
    show "map_of (ip_chips ?p) k' = map_of (ip_chips p) k' \<and> map_of (ip_infos ?p) k' = map_of (ip_infos p) k'"
      if "k' < ?T * ?n" for k' using that k unfolding chips infos by simp
  qed
  moreover have "block ?p ?T (used @ [c])"
    unfolding block_def
  proof (intro allI impI)
    fix j
    assume "j < length (used @ [c])"
    then consider "j < length used" | "j = length used" by fastforce
    then show "map_of (ip_chips ?p) (?T * chip_count ?p + j) = Some ((used @ [c]) ! j) \<and>
      (\<exists>ty. map_of (ip_infos ?p) (?T * chip_count ?p + j) = Some \<lparr>info_global_epoch_id = ?T * chip_count ?p + j,
        info_temporal_epoch_id = ?T, info_spatial_epoch_id = j, info_epoch_type = ty\<rparr>)"
    proof cases
      case 1
      moreover have "block p ?T used" using b by (simp add: between_def)
      ultimately show ?thesis unfolding rest chips infos k by (simp add: block_def nth_append)
    next
      case 2
      then have "(used @ [c]) ! j = c" by simp
      then show ?thesis using 2 betweenD(3) [OF b] unfolding rest chips infos k by simp
    qed
  qed
  moreover have "ordered_keys (ip_chips ?p)" using ord by (simp add: register_current_epoch_def Let_def)
  moreover have "mset used + {#c#} + mset rest = mset (sorted_chip_ids p)"
    using b r by (simp add: between_def)
  ultimately show ?thesis
    using b by (simp add: chips_inv_def between_def rest small_epochs_def)
qed

lemma init_epoch_opens:
  assumes "chips_setup p" "between p used" "remaining_chip_ids p \<noteq> []"
  shows "\<exists>p'. init_epoch env False new req p = Inr p' \<and> chips_inv p' used"
proof -
  from take_chip_ok [OF assms(1) _ assms(3), of used req] assms(2) obtain c rest where
    "take_chip req p = Inr (p\<lparr>current_chip_id := c, remaining_chip_ids := rest,
        is_current_chip_id_mmio := c \<in> set (ip_chips_with_mmio p)\<rparr>)"
    "{#c#} + mset rest = mset (remaining_chip_ids p)" by (auto simp: between_def)
  with register_opens [OF assms(2), of c rest env False] show ?thesis
    by (simp add: init_epoch_def next_chip_id_def)
qed

section \<open>The next spatial epoch\<close>

lemma put_back_none:
  "\<forall>r \<in> set rs. r \<notin> set (remaining_chip_ids p) \<Longrightarrow> fold put_chip_back rs p = p"
  by (induction rs) (simp_all add: put_chip_back_def)

lemma put_back_once:
  assumes "length (filter (\<lambda>c. c \<in> S) rs) \<le> 1" "set (remaining_chip_ids p) \<subseteq> S" "current_chip_id p \<notin> set rs"
  shows "fold put_chip_back rs p =
     (if \<exists>r \<in> set rs. r \<in> set (remaining_chip_ids p)
      then p\<lparr>remaining_chip_ids := current_chip_id p # remaining_chip_ids p,
             current_spatial_epoch_id := sub32 (current_spatial_epoch_id p) 1,
             current_epoch_index := sub32 (current_epoch_index p) 1\<rparr>
      else p)"
  using assms(1,3)
proof (induction rs)
  case (Cons r rs)
  show ?case
  proof (cases "r \<in> set (remaining_chip_ids p)")
    case True
    then have "filter (\<lambda>c. c \<in> S) rs = []" using Cons.prems(1) assms(2) by auto
    then have "\<forall>r' \<in> set rs. r' \<notin> set (current_chip_id p # remaining_chip_ids p)"
      using Cons.prems(2) assms(2) by (auto simp: filter_empty_conv)
    moreover define b where "b = p\<lparr>remaining_chip_ids := current_chip_id p # remaining_chip_ids p,
       current_spatial_epoch_id := sub32 (current_spatial_epoch_id p) 1,
       current_epoch_index := sub32 (current_epoch_index p) 1\<rparr>"
    ultimately have "fold put_chip_back rs b = b" by (intro put_back_none) simp
    moreover have "put_chip_back r p = b" using True by (simp add: put_chip_back_def b_def)
    ultimately show ?thesis using True by (simp add: b_def [symmetric] del: One_nat_def)
  next
    case False
    then have "length (filter (\<lambda>c. c \<in> S) rs) \<le> 1" using Cons.prems(1) by (auto split: if_splits)
    moreover have "put_chip_back r p = p" using False by (simp add: put_chip_back_def)
    ultimately show ?thesis using Cons False by simp
  qed
qed simp

text \<open>The chips an op may request, and how much the search for its chip has left.\<close>

definition wanted :: "InteractivePlacer \<Rightarrow> string \<Rightarrow> nat set" where
  "wanted p op = (if ip_override_chip p op \<noteq> INVALID_CHIP_ID then {ip_override_chip p op} else set (ip_chips_with_mmio p))"

definition search_measure :: "string \<Rightarrow> InteractivePlacer \<Rightarrow> nat" where
  "search_measure op p =
     size (filter_mset (\<lambda>c. c \<in> wanted p op) (mset (remaining_chip_ids p))) + length (remaining_chip_ids p)"

text \<open>What no step of the search changes.\<close>

definition same_setup :: "InteractivePlacer \<Rightarrow> InteractivePlacer \<Rightarrow> bool" where
  "same_setup p p' \<longleftrightarrow> sorted_chip_ids p' = sorted_chip_ids p \<and> ip_config p' = ip_config p \<and>
     ip_chips_with_mmio p' = ip_chips_with_mmio p \<and> ip_output_ops p' = ip_output_ops p \<and> ip_valid p' = ip_valid p"

lemma same_setup_refl [simp]: "same_setup p p"
  by (simp add: same_setup_def)

lemma same_setup_trans: "same_setup p q \<Longrightarrow> same_setup q r \<Longrightarrow> same_setup p r"
  by (simp add: same_setup_def)

lemma chips_setup_cong:
  assumes "same_setup p p'"
  shows "chips_setup p' = chips_setup p"
proof -
  have "sorted_chip_ids p' = sorted_chip_ids p" "ip_config p' = ip_config p"
    "ip_chips_with_mmio p' = ip_chips_with_mmio p" using assms by (simp_all add: same_setup_def)
  then show ?thesis by (simp only: chips_setup_def)
qed

definition requests_ok :: "InteractivePlacer \<Rightarrow> string \<Rightarrow> nat list \<Rightarrow> bool" where
  "requests_ok p op rs \<longleftrightarrow> set rs \<subseteq> wanted p op \<and> length (filter (\<lambda>c. c \<in> set (sorted_chip_ids p)) rs) \<le> 1 \<and>
     (rs \<noteq> [] \<longrightarrow> current_chip_id p \<notin> wanted p op)"

lemma can_place_cases:
  assumes "chips_setup p" "is_current_chip_id_mmio p = (current_chip_id p \<in> set (ip_chips_with_mmio p))"
    and "ip_override_chip p op = INVALID_CHIP_ID \<or> \<not> (bc_output_queues_on_host (ip_config p) \<and> op \<in> set (ip_output_ops p)) \<or>
      ip_override_chip p op \<in> set (ip_chips_with_mmio p)"
  shows "\<exists>ok rs. can_place_op_onto_chip env op chip_break p = Inr (ok, rs) \<and> requests_ok p op rs \<and>
     (ok \<longrightarrow> (ip_override_chip p op = INVALID_CHIP_ID \<or> ip_override_chip p op = current_chip_id p) \<and>
       (bc_output_queues_on_host (ip_config p) \<and> op \<in> set (ip_output_ops p) \<longrightarrow> current_chip_id p \<in> set (ip_chips_with_mmio p)))"
  using assms
  by (auto simp: can_place_op_onto_chip_def Let_def requests_ok_def wanted_def chips_setup_def)

text \<open>The grid of a chip, and what opening an epoch leaves and changes.\<close>

definition grid_on :: "Env \<Rightarrow> InteractivePlacer \<Rightarrow> nat \<Rightarrow> GridShape" where
  "grid_on env p c =
     (if PYBUDA_NEBULA_GALAXY_PLACER env \<and> c \<in> set (ip_chips_with_mmio p) then mk_shape 8 8 else bc_grid_size (ip_config p))"

definition opened :: "Env \<Rightarrow> InteractivePlacer \<Rightarrow> InteractivePlacer \<Rightarrow> bool" where
  "opened env p p' \<longleftrightarrow> same_setup p p' \<and> ip_names p' = ip_names p \<and>
     ip_epochs p' = AList.update (current_epoch_index p') [] (ip_epochs p) \<and>
     ip_chips p' = omap_insert (current_epoch_index p') (current_chip_id p') (ip_chips p) \<and>
     ip_grids p' = initialize_device_grid_shape (ip_grids p) (current_epoch_index p')
       (rows (grid_on env p (current_chip_id p'))) (columns (grid_on env p (current_chip_id p')))"

lemma search_measure_cong: "same_setup p p' \<Longrightarrow> wanted p' op = wanted p op"
  by (simp add: wanted_def ip_override_chip_def same_setup_def)

lemma filter_mset_split: "{#c#} + M = N \<Longrightarrow> filter_mset P N = (if P c then {#c#} + filter_mset P M else filter_mset P M)"
  by auto

lemma next_spatial_ok:
  assumes su: "chips_setup p" and inv: "chips_inv p used" and left: "remaining_chip_ids p \<noteq> []"
    and rs: "requests_ok p op rs"
  shows "\<exists>p' used'. next_spatial_epoch env op rs p = Inr p' \<and> chips_inv p' used' \<and> opened env p p' \<and>
     placed_ops_in_current_epoch p' = placed_ops_in_current_epoch p \<and>
     current_temporal_epoch_id p' = current_temporal_epoch_id p \<and> current_epoch_type p' = current_epoch_type p \<and>
     (current_epoch_index p' = Suc (current_epoch_index p) \<or>
      placed_ops_in_current_epoch p = [] \<and> current_epoch_index p' = current_epoch_index p) \<and>
     search_measure op p' < search_measure op p"
proof -
  note iD = chips_invD [OF inv]
  let ?T = "current_temporal_epoch_id p" and ?n = "chip_count p" and ?s = "current_spatial_epoch_id p"
  have "size (mset used + {#current_chip_id p#} + mset (remaining_chip_ids p)) = ?n" unfolding iD(6) by simp
  then have len: "Suc ?s + length (remaining_chip_ids p) = ?n" using iD(3) by simp
  then have "Suc ?s < ?n" using left by (cases "remaining_chip_ids p") auto
  then have "Suc (current_epoch_index p) < (?T + 1) * ?n" using iD(4) by simp
  then have small: "Suc (current_epoch_index p) < 2 ^ 32" using iD(2) unfolding small_epochs_def by linarith
  then have add: "add32 ?s 1 = Suc ?s" "add32 (current_epoch_index p) 1 = Suc (current_epoch_index p)"
    using iD(4) by (simp_all add: add32_exact)
  define p1 where "p1 = p\<lparr>visited_ops_in_current_epoch := List.insert op (visited_ops_in_current_epoch p),
      current_spatial_epoch_id := Suc ?s, current_epoch_index := Suc (current_epoch_index p)\<rparr>"
  define goback where "goback = (placed_ops_in_current_epoch p = [] \<and> (\<exists>r \<in> set rs. r \<in> set (remaining_chip_ids p)))"
  define p2 where "p2 = (if goback then p\<lparr>visited_ops_in_current_epoch := List.insert op (visited_ops_in_current_epoch p),
      remaining_chip_ids := current_chip_id p # remaining_chip_ids p\<rparr> else p1)"
  have rem: "set (remaining_chip_ids p) \<subseteq> set (sorted_chip_ids p)"
    using iD(6) by (metis Un_upper2 set_mset_mset set_mset_union)
  have "fold put_chip_back rs p1 = (if \<exists>r \<in> set rs. r \<in> set (remaining_chip_ids p1)
      then p1\<lparr>remaining_chip_ids := current_chip_id p1 # remaining_chip_ids p1,
             current_spatial_epoch_id := sub32 (current_spatial_epoch_id p1) 1,
             current_epoch_index := sub32 (current_epoch_index p1) 1\<rparr> else p1)"
    using rs rem by (intro put_back_once [where S = "set (sorted_chip_ids p)"]) (auto simp: p1_def requests_ok_def)
  moreover have "sub32 (Suc ?s) 1 = ?s" "sub32 (Suc (current_epoch_index p)) 1 = current_epoch_index p"
    using small iD(4) by (simp_all add: sub32_def)
  ultimately have "(if placed_ops_in_current_epoch p1 = [] then fold put_chip_back rs p1 else p1) = p2"
    unfolding p2_def goback_def by (auto simp: p1_def)
  then have nxt: "next_spatial_epoch env op rs p = init_epoch env False False (Some rs) p2"
    unfolding next_spatial_epoch_def Let_def add p1_def [symmetric] by simp
  define used2 where "used2 = (if goback then used else used @ [current_chip_id p])"
  have same: "block p2 t cs = block p t cs" "sorted_chip_ids p2 = sorted_chip_ids p" "current_temporal_epoch_id p2 = ?T"
    "ip_chips p2 = ip_chips p" for t cs by (simp_all add: p2_def p1_def block_def)
  have b2: "between p2 used2"
    unfolding between_def same
  proof (intro conjI)
    show "small_epochs p2" using iD(2) by (simp add: small_epochs_def same)
    show "length used2 = current_spatial_epoch_id p2" using iD(3) by (simp add: used2_def p2_def p1_def)
    show "current_epoch_index p2 = ?T * ?n + current_spatial_epoch_id p2" using iD(4) by (simp add: p2_def p1_def)
    show "mset used2 + mset (remaining_chip_ids p2) = mset (sorted_chip_ids p)"
      using iD(6) by (simp add: used2_def p2_def p1_def)
    have "block p ?T used" using iD(7) by (auto simp: block_def nth_append less_Suc_eq)
    then show "block p ?T used2" using iD(7) by (simp add: used2_def)
  qed (use iD(1,5) in simp_all)
  have left2: "remaining_chip_ids p2 \<noteq> []" using left by (simp add: p2_def p1_def)
  have "same_setup p p2" by (simp add: p2_def p1_def same_setup_def)
  then have su2: "chips_setup p2" using su by (simp only: chips_setup_cong)
  from take_chip_ok [OF su2 betweenD(6) [OF b2] left2, of "Some rs"] obtain c rest where
    take: "take_chip (Some rs) p2 = Inr (p2\<lparr>current_chip_id := c, remaining_chip_ids := rest,
        is_current_chip_id_mmio := c \<in> set (ip_chips_with_mmio p2)\<rparr>)"
    and rest: "{#c#} + mset rest = mset (remaining_chip_ids p2)"
    and req: "(\<exists>r \<in> set rs. r \<in> set (remaining_chip_ids p2)) \<Longrightarrow> c \<in> set rs" by auto
  define p' where "p' = register_current_epoch env False (p2\<lparr>current_chip_id := c, remaining_chip_ids := rest,
        is_current_chip_id_mmio := c \<in> set (ip_chips_with_mmio p2)\<rparr>)"
  have "next_spatial_epoch env op rs p = Inr p'" by (simp add: nxt init_epoch_def next_chip_id_def take p'_def)
  moreover have "chips_inv p' used2" unfolding p'_def using rest by (intro register_opens [OF b2]) simp
  moreover have "opened env p p'"
    by (simp add: opened_def same_setup_def p'_def p2_def p1_def register_current_epoch_def Let_def grid_on_def)
  moreover have "search_measure op p' < search_measure op p"
  proof -
    let ?f = "\<lambda>xs. size (filter_mset (\<lambda>c. c \<in> wanted p op) (mset xs))"
    have "wanted p' op = wanted p op" by (rule search_measure_cong) (use \<open>opened env p p'\<close> in \<open>simp add: opened_def\<close>)
    then have m: "search_measure op p' = ?f rest + length rest"
      by (simp add: search_measure_def p'_def register_current_epoch_def Let_def)
    have mp: "search_measure op p = ?f (remaining_chip_ids p) + length (remaining_chip_ids p)"
      by (simp add: search_measure_def)
    have count: "?f (remaining_chip_ids p2) = (if c \<in> wanted p op then Suc (?f rest) else ?f rest)"
      "length (remaining_chip_ids p2) = Suc (length rest)"
      using filter_mset_split [OF rest, of "\<lambda>c. c \<in> wanted p op"] arg_cong [OF rest, of size] by simp_all
    show ?thesis
    proof (cases goback)
      case True
      then obtain r where r: "r \<in> set rs" "r \<in> set (remaining_chip_ids p)" by (auto simp: goback_def)
      then have "c \<in> set rs" using True by (intro req) (auto simp: p2_def)
      then have "c \<in> wanted p op" "current_chip_id p \<notin> wanted p op" using rs r(1) by (auto simp: requests_ok_def)
      then show ?thesis using True count unfolding m mp by (simp add: p2_def)
    next
      case False
      then have "remaining_chip_ids p2 = remaining_chip_ids p" by (simp add: p2_def p1_def)
      then show ?thesis using count unfolding m mp by (simp split: if_splits)
    qed
  qed
  ultimately show ?thesis
    by (intro exI [of _ p'] exI [of _ used2]) (auto simp: p'_def p2_def p1_def goback_def register_current_epoch_def Let_def)
qed

end
