(* ===== verification/Interactive_Ops.thy ===== *)
theory Interactive_Ops
  imports Interactive_Facts
begin

text \<open>
  The placements of the interactive placer: what is recorded for an op agrees with the epoch it is
  recorded in, the ops of an epoch share no core, the grid of the open epoch shows exactly the cores
  that are taken, and the ops of the current temporal epoch are listed in the order of their placement.
\<close>

section \<open>The records\<close>

definition names_of :: "InteractivePlacer \<Rightarrow> nat \<Rightarrow> nat \<Rightarrow> string list" where
  "names_of p a b = concat (map (\<lambda>k. map placement_name (epoch_ops p k)) [a..<b])"

text \<open>A range of cores that holds at least one core.\<close>

definition nonempty_range :: "CoordRange \<Rightarrow> bool" where
  "nonempty_range c \<longleftrightarrow>
     row (range_start c) < row (range_end c) \<and> col (range_start c) < col (range_end c)"

definition placement_ok :: "Env \<Rightarrow> InteractivePlacer \<Rightarrow> nat \<Rightarrow> OpPlacement \<Rightarrow> bool" where
  "placement_ok env p k pl \<longleftrightarrow> global_epoch_id pl = k \<and> map_of (ip_names p) (placement_name pl) = Some pl \<and>
     map_of (ip_chips p) k = Some (placement_chip_id pl) \<and>
     on_device (rows (grid_on env p (placement_chip_id pl))) (columns (grid_on env p (placement_chip_id pl))) pl \<and>
     nonempty_range (placed_cores pl)"

text \<open>The epochs below \<open>N\<close> are in order, and no op is recorded elsewhere.\<close>

definition records_ok :: "Env \<Rightarrow> InteractivePlacer \<Rightarrow> nat \<Rightarrow> bool" where
  "records_ok env p N \<longleftrightarrow>
     (\<forall>k < N. \<forall>pl \<in> set (epoch_ops p k). placement_ok env p k pl) \<and>
     (\<forall>k < N. sorted_wrt (\<lambda>a b. \<not> share_core a b) (epoch_ops p k)) \<and>
     (\<forall>x pl. map_of (ip_names p) x = Some pl \<longrightarrow>
        placement_name pl = x \<and> global_epoch_id pl < N \<and> pl \<in> set (epoch_ops p (global_epoch_id pl))) \<and>
     distinct (names_of p 0 N)"

definition epoch_open :: "Env \<Rightarrow> InteractivePlacer \<Rightarrow> bool" where
  "epoch_open env p \<longleftrightarrow> (\<exists>g. map_of (epoch_id_to_device_grid (ip_grids p)) (current_epoch_index p) = Some g \<and>
     wf_grid (rows (grid_on env p (current_chip_id p))) (columns (grid_on env p (current_chip_id p))) g \<and>
     (\<forall>i < rows (grid_on env p (current_chip_id p)). \<forall>j < columns (grid_on env p (current_chip_id p)).
        g ! i ! j = 0 \<longleftrightarrow> (\<forall>pl \<in> set (epoch_ops p (current_epoch_index p)). \<not> core_of pl i j)))"

definition ops_inv :: "Env \<Rightarrow> InteractivePlacer \<Rightarrow> bool" where
  "ops_inv env p \<longleftrightarrow> records_ok env p (Suc (current_epoch_index p)) \<and> epoch_open env p \<and>
     placed_ops_in_current_epoch p =
       names_of p (current_temporal_epoch_id p * chip_count p) (Suc (current_epoch_index p))"

text \<open>The grids of the configuration have cores, and their dimensions are 32-bit values.\<close>

definition grid_size_ok :: "InteractivePlacer \<Rightarrow> bool" where
  "grid_size_ok p \<longleftrightarrow> 0 < rows (bc_grid_size (ip_config p)) \<and> rows (bc_grid_size (ip_config p)) < 2 ^ 32 \<and>
     columns (bc_grid_size (ip_config p)) < 2 ^ 32"

lemma records_okD:
  assumes "records_ok env p N"
  shows "k < N \<Longrightarrow> pl \<in> set (epoch_ops p k) \<Longrightarrow> placement_ok env p k pl"
    "k < N \<Longrightarrow> sorted_wrt (\<lambda>a b. \<not> share_core a b) (epoch_ops p k)"
    "map_of (ip_names p) x = Some pl \<Longrightarrow>
       placement_name pl = x \<and> global_epoch_id pl < N \<and> pl \<in> set (epoch_ops p (global_epoch_id pl))"
    "distinct (names_of p 0 N)"
  using assms unfolding records_ok_def by blast+

lemma names_of_cong: "(\<And>k. a \<le> k \<Longrightarrow> k < b \<Longrightarrow> epoch_ops p' k = epoch_ops p k) \<Longrightarrow> names_of p' a b = names_of p a b"
  unfolding names_of_def by (intro arg_cong [where f = concat] map_cong) auto

lemma names_of_Suc: "a \<le> b \<Longrightarrow> names_of p a (Suc b) = names_of p a b @ map placement_name (epoch_ops p b)"
  by (simp add: names_of_def)

lemma names_of_split: "a \<le> b \<Longrightarrow> b \<le> c \<Longrightarrow> names_of p a c = names_of p a b @ names_of p b c"
  unfolding names_of_def by (metis concat_append le_add_diff_inverse map_append upt_add_eq_append)

lemma names_of_empty [simp]: "names_of p a a = []"
  by (simp add: names_of_def)

lemma set_names_of: "x \<in> set (names_of p a b) \<longleftrightarrow> (\<exists>k pl. a \<le> k \<and> k < b \<and> pl \<in> set (epoch_ops p k) \<and> placement_name pl = x)"
  by (auto simp: names_of_def)

lemma records_ok_cong:
  assumes "records_ok env p N" "same_setup p p'" "ip_names p' = ip_names p"
    and "\<And>k. k < N \<Longrightarrow> epoch_ops p' k = epoch_ops p k"
    and "\<And>k. k < N \<Longrightarrow> map_of (ip_chips p') k = map_of (ip_chips p) k"
  shows "records_ok env p' N"
proof -
  have "grid_on env p' = grid_on env p" using assms(2) by (simp add: grid_on_def same_setup_def fun_eq_iff)
  then have "placement_ok env p' k pl = placement_ok env p k pl" if "k < N" for k pl
    using assms(3,5) that by (simp add: placement_ok_def)
  moreover have "names_of p' 0 N = names_of p 0 N" using assms(4) by (intro names_of_cong) simp
  ultimately show ?thesis
    using assms(1) unfolding records_ok_def assms(3) by (metis assms(4))
qed

text \<open>An epoch without ops neither adds nor takes anything.\<close>

lemma records_skip: "records_ok env p N \<Longrightarrow> epoch_ops p N = [] \<Longrightarrow> records_ok env p (Suc N)"
  unfolding records_ok_def by (auto simp: less_Suc_eq names_of_Suc)

lemma records_unskip:
  assumes "records_ok env p (Suc N)" "epoch_ops p N = []"
  shows "records_ok env p N"
proof -
  note D = records_okD [OF assms(1)]
  have "global_epoch_id pl < N" if "map_of (ip_names p) x = Some pl" for x pl
    using D(3) [OF that] assms(2) by (metis empty_iff empty_set less_SucE)
  moreover have "distinct (names_of p 0 N)" using D(4) by (simp add: names_of_Suc)
  ultimately show ?thesis using D(1-3) unfolding records_ok_def by (metis less_SucI)
qed

lemma epoch_ops_update: "ip_epochs p' = AList.update k ps (ip_epochs p) \<Longrightarrow> epoch_ops p' = (epoch_ops p)(k := ps)"
  by (auto simp: epoch_ops_def fun_eq_iff update_conv)

section \<open>Opening epochs\<close>

lemma grid_on_wf: "grid_size_ok p \<Longrightarrow> 0 < rows (grid_on env p c) \<and> rows (grid_on env p c) < 2 ^ 32 \<and> columns (grid_on env p c) < 2 ^ 32"
  by (simp add: grid_on_def grid_size_ok_def)

text \<open>An epoch that was just opened is empty, and its grid is free.\<close>

lemma opened_epoch_open:
  assumes "opened env p p'" "grid_size_ok p"
  shows "epoch_open env p'" "epoch_ops p' (current_epoch_index p') = []"
proof -
  have e: "epoch_ops p' = (epoch_ops p)(current_epoch_index p' := [])"
    using assms(1) by (intro epoch_ops_update) (simp add: opened_def)
  then show "epoch_ops p' (current_epoch_index p') = []" by simp
  have "grid_on env p' = grid_on env p"
    using assms(1) by (simp add: opened_def grid_on_def same_setup_def fun_eq_iff)
  then show "epoch_open env p'"
    using assms(1) e grid_on_wf [OF assms(2), of env "current_chip_id p'"]
    by (simp add: epoch_open_def opened_def initialize_device_grid_shape_def)
qed

lemma opened_records:
  assumes "records_ok env p N" "opened env p p'" "ordered_keys (ip_chips p)" "current_epoch_index p' = N"
  shows "records_ok env p' (Suc N)"
proof (rule records_skip)
  have e: "epoch_ops p' = (epoch_ops p)(N := [])"
    using assms(2,4) by (intro epoch_ops_update) (simp add: opened_def)
  then show "epoch_ops p' N = []" by simp
  show "records_ok env p' N"
    using assms(2-4) e by (intro records_ok_cong [OF assms(1)]) (auto simp: opened_def)
qed

text \<open>Going on to the next spatial epoch.\<close>

lemma chips_inv_order:
  assumes "chips_inv p used"
  shows "current_temporal_epoch_id p * chip_count p \<le> current_epoch_index p"
  using chips_invD(4) [OF assms] by simp

lemma next_spatial_ops:
  assumes inv: "chips_inv p used" and ops: "ops_inv env p" and op: "opened env p p'" and size: "grid_size_ok p"
    and same: "placed_ops_in_current_epoch p' = placed_ops_in_current_epoch p"
      "current_temporal_epoch_id p' = current_temporal_epoch_id p"
    and idx: "current_epoch_index p' = Suc (current_epoch_index p) \<or>
      placed_ops_in_current_epoch p = [] \<and> current_epoch_index p' = current_epoch_index p"
  shows "ops_inv env p'"
proof -
  let ?k = "current_epoch_index p" and ?a = "current_temporal_epoch_id p * chip_count p"
  have rec: "records_ok env p (Suc ?k)" and placed: "placed_ops_in_current_epoch p = names_of p ?a (Suc ?k)"
    using ops by (simp_all add: ops_inv_def)
  have a: "?a \<le> ?k" by (rule chips_inv_order [OF inv])
  have count: "sorted_chip_ids p' = sorted_chip_ids p" using op by (simp add: opened_def same_setup_def)
  have e: "epoch_ops p' = (epoch_ops p)(current_epoch_index p' := [])"
    using op by (intro epoch_ops_update) (simp add: opened_def)
  note ord = chips_invD(1) [OF inv]
  have "records_ok env p' (Suc (current_epoch_index p')) \<and>
    names_of p ?a (Suc ?k) = names_of p' ?a (Suc (current_epoch_index p'))"
    using idx
  proof
    assume k: "current_epoch_index p' = Suc ?k"
    have "names_of p' ?a (Suc ?k) = names_of p ?a (Suc ?k)" using e k by (intro names_of_cong) simp
    then show ?thesis using opened_records [OF rec op ord k] a e k by (simp add: names_of_Suc)
  next
    assume k: "placed_ops_in_current_epoch p = [] \<and> current_epoch_index p' = ?k"
    then have "names_of p ?a (Suc ?k) = []" using placed by simp
    then have no: "epoch_ops p ?k = []" "names_of p ?a ?k = []" using a by (simp_all add: names_of_Suc)
    have "names_of p' ?a ?k = names_of p ?a ?k" using e k by (intro names_of_cong) simp
    then show ?thesis
      using opened_records [OF records_unskip [OF rec no(1)] op ord] a e k no by (simp add: names_of_Suc)
  qed
  then show ?thesis
    using opened_epoch_open(1) [OF op size] placed by (simp add: ops_inv_def same count)
qed

section \<open>Recording an op\<close>

text \<open>Cores of the current epoch that are on the chip and not taken.\<close>

definition free_rect :: "Env \<Rightarrow> InteractivePlacer \<Rightarrow> Coord \<Rightarrow> GridShape \<Rightarrow> bool" where
  "free_rect env p c q \<longleftrightarrow> row c + rows q \<le> rows (grid_on env p (current_chip_id p)) \<and>
     col c + columns q \<le> columns (grid_on env p (current_chip_id p)) \<and>
     (\<forall>pl \<in> set (epoch_ops p (current_epoch_index p)). \<forall>i j. in_rect c q i j \<longrightarrow> \<not> core_of pl i j)"

lemma open_grid_fits:
  assumes "epoch_open env p" "grid_size_ok p"
  obtains g where "map_of (epoch_id_to_device_grid (ip_grids p)) (current_epoch_index p) = Some g"
    "wf_grid (rows (grid_on env p (current_chip_id p))) (columns (grid_on env p (current_chip_id p))) g"
    "\<And>c q. fits (rows (grid_on env p (current_chip_id p))) (columns (grid_on env p (current_chip_id p))) g c q \<longleftrightarrow>
       free_rect env p c q"
proof -
  let ?R = "rows (grid_on env p (current_chip_id p))" and ?C = "columns (grid_on env p (current_chip_id p))"
  obtain g where g: "map_of (epoch_id_to_device_grid (ip_grids p)) (current_epoch_index p) = Some g" "wf_grid ?R ?C g"
    and z: "\<And>i j. i < ?R \<Longrightarrow> j < ?C \<Longrightarrow> g ! i ! j = 0 \<longleftrightarrow>
      (\<forall>pl \<in> set (epoch_ops p (current_epoch_index p)). \<not> core_of pl i j)"
    using assms(1) unfolding epoch_open_def by blast
  have "fits ?R ?C g c q \<longleftrightarrow> free_rect env p c q" for c q
  proof (cases "row c + rows q \<le> ?R \<and> col c + columns q \<le> ?C")
    case True
    then have "fits ?R ?C g c q \<longleftrightarrow> (\<forall>i j. in_rect c q i j \<longrightarrow> g ! i ! j = 0)"
      by (auto simp: fits_def in_rect_def)
    also have "\<dots> \<longleftrightarrow> (\<forall>i j. in_rect c q i j \<longrightarrow>
        (\<forall>pl \<in> set (epoch_ops p (current_epoch_index p)). \<not> core_of pl i j))"
      using z True by (auto simp: in_rect_def)
    finally show ?thesis using True by (auto simp: free_rect_def)
  qed (auto simp: fits_def free_rect_def)
  with g that show thesis by blast
qed

definition placed_at :: "string \<Rightarrow> bool \<Rightarrow> CoordRange \<Rightarrow> InteractivePlacer \<Rightarrow> OpPlacement" where
  "placed_at op tr cores p = \<lparr>placement_id = 0, placement_name = op, placement_chip_id = current_chip_id p,
     global_epoch_id = current_epoch_index p, grid_transpose = tr, placed_cores = cores\<rparr>"

definition with_op :: "OpPlacement \<Rightarrow> EpochIdToDeviceGrid \<Rightarrow> InteractivePlacer \<Rightarrow> InteractivePlacer" where
  "with_op pl grids p = p\<lparr>placed_ops_in_current_epoch := placed_ops_in_current_epoch p @ [placement_name pl],
     ip_names := AList.update (placement_name pl) pl (ip_names p),
     ip_epochs := push_at (current_epoch_index p) pl (ip_epochs p), ip_grids := grids\<rparr>"

lemma with_op_epochs:
  "epoch_ops (with_op pl grids p) = (epoch_ops p)(current_epoch_index p := epoch_ops p (current_epoch_index p) @ [pl])"
  by (auto simp: with_op_def epoch_ops_def push_at_def update_conv fun_eq_iff split: option.splits)

lemma chips_inv_with_op: "chips_inv (with_op pl grids p) used = chips_inv p used"
  by (simp add: chips_inv_def with_op_def small_epochs_def block_def)

lemma core_of_rect:
  assumes "range_start (placed_cores pl) = c" "range_end (placed_cores pl) = coord_add_shape c q"
    and "row c + rows q < 2 ^ 32" "col c + columns q < 2 ^ 32"
  shows "core_of pl i j \<longleftrightarrow> in_rect c q i j"
  using assms by (auto simp: core_of_def in_rect_def coord_add_shape_def add32_exact)

lemma current_chip_registered:
  assumes "chips_inv p used"
  shows "map_of (ip_chips p) (current_epoch_index p) = Some (current_chip_id p)"
proof -
  have "(used @ [current_chip_id p]) ! current_spatial_epoch_id p = current_chip_id p"
    using chips_invD(3) [OF assms] by (simp add: nth_append)
  then show ?thesis using chips_invD(3,4,7) [OF assms] by (simp add: block_def)
qed

lemma with_op_records:
  assumes rec: "records_ok env p (Suc (current_epoch_index p))" and new: "map_of (ip_names p) op = None"
    and free: "free_rect env p c q" and core: "\<And>i j. core_of pl i j \<longleftrightarrow> in_rect c q i j"
    and pl: "pl = placed_at op tr cores p" and dev: "on_device (rows (grid_on env p (current_chip_id p))) (columns (grid_on env p (current_chip_id p))) pl"
    and chip: "map_of (ip_chips p) (current_epoch_index p) = Some (current_chip_id p)"
    and some: "nonempty_range cores"
  shows "records_ok env (with_op pl grids p) (Suc (current_epoch_index p))"
proof -
  let ?k = "current_epoch_index p" and ?p = "with_op pl grids p"
  note D = records_okD [OF rec]
  have fields: "placement_name pl = op" "global_epoch_id pl = ?k" "placement_chip_id pl = current_chip_id p"
    by (simp_all add: pl placed_at_def)
  have names: "map_of (ip_names ?p) = (map_of (ip_names p))(op \<mapsto> pl)" by (simp add: with_op_def fields update_conv)
  have grid: "grid_on env ?p = grid_on env p" and chips: "ip_chips ?p = ip_chips p"
    by (simp_all add: with_op_def grid_on_def fun_eq_iff)
  have fresh: "placement_name pl' \<noteq> op" if "k < Suc ?k" "pl' \<in> set (epoch_ops p k)" for k pl'
    using D(1) [OF that] new by (auto simp: placement_ok_def)
  have "placement_ok env ?p k pl'" if k: "k < Suc ?k" and mem: "pl' \<in> set (epoch_ops ?p k)" for k pl'
  proof (cases "pl' \<in> set (epoch_ops p k)")
    case True
    then show ?thesis using D(1) [OF k True] fresh [OF k True] by (simp add: placement_ok_def names grid chips)
  next
    case False
    then have "pl' = pl" "k = ?k" using mem by (simp_all add: with_op_epochs split: if_splits)
    moreover have "placed_cores pl = cores" by (simp add: pl placed_at_def)
    ultimately show ?thesis using dev chip some by (simp add: placement_ok_def names grid chips fields)
  qed
  moreover have "sorted_wrt (\<lambda>a b. \<not> share_core a b) (epoch_ops ?p k)" if "k < Suc ?k" for k
  proof -
    have "\<not> share_core a pl" if "a \<in> set (epoch_ops p ?k)" for a
      using free that unfolding share_core_def core free_rect_def by blast
    then show ?thesis using D(2) [OF that] D(2) [of ?k] by (auto simp: with_op_epochs sorted_wrt_append)
  qed
  moreover have "placement_name pl' = x \<and> global_epoch_id pl' < Suc ?k \<and> pl' \<in> set (epoch_ops ?p (global_epoch_id pl'))"
    if m: "map_of (ip_names ?p) x = Some pl'" for x pl'
  proof (cases "x = op")
    case True
    then have "pl' = pl" using m by (simp add: names)
    then show ?thesis using True by (simp add: fields with_op_epochs)
  next
    case False
    then show ?thesis using D(3) [of x pl'] m by (auto simp: names with_op_epochs)
  qed
  moreover have "distinct (names_of ?p 0 (Suc ?k))"
  proof -
    have "names_of ?p 0 ?k = names_of p 0 ?k" by (rule names_of_cong) (simp add: with_op_epochs)
    then have "names_of ?p 0 (Suc ?k) = names_of p 0 (Suc ?k) @ [op]"
      by (simp add: names_of_Suc with_op_epochs fields)
    moreover have "op \<notin> set (names_of p 0 (Suc ?k))" using fresh by (auto simp: set_names_of)
    ultimately show ?thesis using D(4) by simp
  qed
  ultimately show ?thesis unfolding records_ok_def by blast
qed

lemma record_op_ok:
  assumes inv: "chips_inv p used" and ops: "ops_inv env p" and size: "grid_size_ok p"
    and some: "nonempty_shape q" and free: "free_rect env p (range_start cores) q" and new: "map_of (ip_names p) op = None"
    and stop: "range_end cores = coord_add_shape (range_start cores) q"
  shows "\<exists>grids. record_op op tr cores q p = Inr (with_op (placed_at op tr cores p) grids p) \<and>
     ops_inv env (with_op (placed_at op tr cores p) grids p)"
proof -
  let ?k = "current_epoch_index p" and ?c = "range_start cores" and ?pl = "placed_at op tr cores p"
  let ?R = "rows (grid_on env p (current_chip_id p))" and ?C = "columns (grid_on env p (current_chip_id p))"
  have rec: "records_ok env p (Suc ?k)" and opn: "epoch_open env p"
    and placed: "placed_ops_in_current_epoch p = names_of p (current_temporal_epoch_id p * chip_count p) (Suc ?k)"
    using ops by (simp_all add: ops_inv_def)
  from open_grid_fits [OF opn size] obtain g where
    g: "map_of (epoch_id_to_device_grid (ip_grids p)) ?k = Some g" "wf_grid ?R ?C g" by blast
  have inside: "row ?c + rows q \<le> ?R" "col ?c + columns q \<le> ?C" using free by (simp_all add: free_rect_def)
  then have small: "row ?c + rows q < 2 ^ 32" "col ?c + columns q < 2 ^ 32"
    using grid_on_wf [OF size, of env "current_chip_id p"] by linarith+
  have core: "core_of ?pl i j \<longleftrightarrow> in_rect ?c q i j" for i j
    by (rule core_of_rect [OF _ _ small]) (simp_all add: placed_at_def stop)
  have dev: "on_device ?R ?C ?pl"
    using inside small by (simp add: on_device_def placed_at_def stop coord_add_shape_def add32_exact)
  define grids where "grids = put_grid ?k (paint (in_rect ?c q) g) (ip_grids p)"
  let ?p = "with_op ?pl grids p"
  have "eg_fill (ip_grids p) ?k ?c q = Inr grids"
    using g(1) fill_paint [OF g(2) inside] by (simp add: eg_fill_def initialize_device_grid_def grids_def)
  then have "record_op op tr cores q p = Inr ?p"
    by (simp add: record_op_def with_op_def placed_at_def Let_def)
  moreover have "records_ok env ?p (Suc ?k)"
    using some small
    by (intro with_op_records [OF rec new free core refl dev current_chip_registered [OF inv]])
      (simp add: nonempty_range_def nonempty_shape_def stop coord_add_shape_def add32_exact)
  moreover have "epoch_open env ?p"
  proof -
    have "g ! i ! j = 0 \<longleftrightarrow> (\<forall>pl \<in> set (epoch_ops p ?k). \<not> core_of pl i j)" if "i < ?R" "j < ?C" for i j
      using opn g(1) that by (simp add: epoch_open_def)
    then have "paint (in_rect ?c q) g ! i ! j = 0 \<longleftrightarrow> (\<forall>pl \<in> set (epoch_ops ?p ?k). \<not> core_of pl i j)"
      if "i < ?R" "j < ?C" for i j using that g(2) by (auto simp: with_op_epochs core)
    moreover have "grid_on env ?p = grid_on env p" by (simp add: with_op_def grid_on_def fun_eq_iff)
    moreover have "current_epoch_index ?p = ?k" "current_chip_id ?p = current_chip_id p" "ip_grids ?p = grids"
      by (simp_all add: with_op_def)
    ultimately show ?thesis using g(2) by (simp add: epoch_open_def grids_def)
  qed
  moreover have "placed_ops_in_current_epoch ?p = names_of ?p (current_temporal_epoch_id ?p * chip_count ?p) (Suc (current_epoch_index ?p))"
  proof -
    let ?a = "current_temporal_epoch_id p * chip_count p"
    have "names_of ?p ?a ?k = names_of p ?a ?k" by (rule names_of_cong) (simp add: with_op_epochs)
    then have "names_of ?p ?a (Suc ?k) = names_of p ?a (Suc ?k) @ [op]"
      using chips_inv_order [OF inv] by (simp add: names_of_Suc with_op_epochs placed_at_def)
    then show ?thesis using placed by (simp add: with_op_def placed_at_def)
  qed
  ultimately show ?thesis by (auto simp: ops_inv_def with_op_def)
qed

end
