(* ===== verification/Interactive_Place.thy ===== *)
theory Interactive_Place
  imports Interactive_Ops
begin

text \<open>
  Placing an op with the interactive placer. The search over the chips of the temporal epoch ends,
  because each step takes a chip from the pool, and the one step that puts a chip back takes a
  requested one instead; an op that is placed gets free cores of a chip that accepts it.
\<close>

section \<open>The search for a chip\<close>

text \<open>What is asked of an op: a nonempty shape that fits 32 bits, and overrides that make sense.\<close>

definition op_shaped :: "Env \<Rightarrow> InteractivePlacer \<Rightarrow> string \<Rightarrow> GridShape \<Rightarrow> bool" where
  "op_shaped env p op s \<longleftrightarrow>
     (\<forall>c. placeable (rows (grid_on env p c)) (columns (grid_on env p c)) s) \<and>
     override_no_wrap (op_name_to_placer_overrides (ip_config p)) op s"

definition op_placeable :: "Env \<Rightarrow> InteractivePlacer \<Rightarrow> string \<Rightarrow> GridShape \<Rightarrow> bool" where
  "op_placeable env p op s \<longleftrightarrow>
     (\<forall>c. placeable (rows (grid_on env p c)) (columns (grid_on env p c)) s) \<and>
     override_no_wrap (op_name_to_placer_overrides (ip_config p)) op s \<and>
     (ip_override_chip p op = INVALID_CHIP_ID \<or>
      \<not> (bc_output_queues_on_host (ip_config p) \<and> op \<in> set (ip_output_ops p)) \<or>
      ip_override_chip p op \<in> set (ip_chips_with_mmio p))"

lemma op_placeable_shaped: "op_placeable env p op s \<Longrightarrow> op_shaped env p op s"
  by (simp add: op_placeable_def op_shaped_def)

lemma op_shaped_nonempty: "op_shaped env p op s \<Longrightarrow> nonempty_shape s \<and> nonempty_shape (transposed s)"
  by (auto simp: op_shaped_def placeable_def nonempty_shape_def transposed_def)

text \<open>The current chip takes the op: it is the one of its override, and has MMIO for an output op.\<close>

definition chip_takes :: "InteractivePlacer \<Rightarrow> string \<Rightarrow> bool" where
  "chip_takes p op \<longleftrightarrow> (ip_override_chip p op = INVALID_CHIP_ID \<or> ip_override_chip p op = current_chip_id p) \<and>
     (bc_output_queues_on_host (ip_config p) \<and> op \<in> set (ip_output_ops p) \<longrightarrow>
      current_chip_id p \<in> set (ip_chips_with_mmio p))"

definition placed_well :: "Env \<Rightarrow> InteractivePlacer \<Rightarrow> string \<Rightarrow> GridShape \<Rightarrow> bool \<Rightarrow> CoordRange \<Rightarrow> bool" where
  "placed_well env p op s tr cores \<longleftrightarrow> chip_takes p op \<and>
     free_rect env p (range_start cores) (if tr then transposed s else s) \<and>
     range_end cores = coord_add_shape (range_start cores) (if tr then transposed s else s)"

text \<open>What the search keeps.\<close>

definition searched :: "InteractivePlacer \<Rightarrow> InteractivePlacer \<Rightarrow> bool" where
  "searched p p' \<longleftrightarrow> same_setup p p' \<and> ip_names p' = ip_names p \<and>
     placed_ops_in_current_epoch p' = placed_ops_in_current_epoch p \<and>
     current_temporal_epoch_id p' = current_temporal_epoch_id p \<and> current_epoch_type p' = current_epoch_type p \<and>
     current_epoch_index p \<le> current_epoch_index p'"

lemma searched_refl [simp]: "searched p p"
  by (simp add: searched_def)

lemma searched_trans: "searched p q \<Longrightarrow> searched q r \<Longrightarrow> searched p r"
  by (auto simp: searched_def intro: same_setup_trans)

lemma searched_setup: "searched p p' \<Longrightarrow> same_setup p p'"
  by (simp add: searched_def)

lemma setup_congs:
  assumes "same_setup p p'"
  shows "op_placeable env p' op s = op_placeable env p op s" "op_shaped env p' op s = op_shaped env p op s"
    "grid_size_ok p' = grid_size_ok p"
    "ip_override_chip p' op = ip_override_chip p op" "grid_on env p' = grid_on env p"
  using assms by (simp_all add: same_setup_def op_placeable_def op_shaped_def grid_size_ok_def grid_on_def ip_override_chip_def fun_eq_iff)

text \<open>One attempt on the current chip.\<close>

lemma attempt_outcome:
  assumes ops: "epoch_open env p" "grid_size_ok p" and op: "op_shaped env p op s"
    and ok: "ok \<Longrightarrow> chip_takes p op"
  shows "\<exists>r. attempt_op env op tr [(op, s)] ok p = Some (Inr r) \<and>
     (case r of None \<Rightarrow> True
      | Some pl \<Rightarrow> placed_well env p op s (dgp_grid_transpose pl) (dgp_placed_cores pl) \<and>
          check_harvested_rows env op pl p = Inr ())"
proof (cases ok)
  case True
  let ?R = "rows (grid_on env p (current_chip_id p))" and ?C = "columns (grid_on env p (current_chip_id p))"
  from open_grid_fits [OF ops] obtain g where
    g: "map_of (epoch_id_to_device_grid (ip_grids p)) (current_epoch_index p) = Some g" "wf_grid ?R ?C g"
    and fits: "\<And>c q. fits ?R ?C g c q \<longleftrightarrow> free_rect env p c q" by blast
  have "placeable ?R ?C s" and ov: "override_no_wrap (op_name_to_placer_overrides (ip_config p)) op s"
    using op unfolding op_shaped_def by blast+
  from place_one_op_outcome [OF g(2) _ this, of "[(op, s)]" None "PYBUDA_TRIPLET_PLACEMENT env" tr] obtain r where
    r: "place_one_op (PYBUDA_TRIPLET_PLACEMENT env) op [(op, s)] g (op_name_to_placer_overrides (ip_config p)) tr None = Some (Inr r)"
    and res: "case r of None \<Rightarrow> True | Some pl \<Rightarrow>
         let q = (if dgp_grid_transpose pl then transposed s else s) in
         dgp_op_name pl = op \<and> device_grid_index pl = 0 \<and> fits ?R ?C g (range_start (dgp_placed_cores pl)) q \<and>
         range_end (dgp_placed_cores pl) = coord_add_shape (range_start (dgp_placed_cores pl)) q" by auto
  have "attempt_op env op tr [(op, s)] ok p = Some (Inr r)"
    using True g(1) r by (simp add: attempt_op_def get_device_grid_def)
  moreover have "placed_well env p op s (dgp_grid_transpose pl) (dgp_placed_cores pl) \<and> check_harvested_rows env op pl p = Inr ()"
    if "r = Some pl" for pl
  proof
    show pw: "placed_well env p op s (dgp_grid_transpose pl) (dgp_placed_cores pl)"
      using res ok [OF True] that unfolding placed_well_def fits [symmetric] by (simp add: Let_def)
    let ?q = "if dgp_grid_transpose pl then transposed s else s" and ?c = "range_start (dgp_placed_cores pl)"
    have "row ?c + rows ?q \<le> ?R" using pw by (simp add: placed_well_def free_rect_def)
    moreover have "row (range_end (dgp_placed_cores pl)) \<le> row ?c + rows ?q"
      using pw by (simp add: placed_well_def coord_add_shape_def add32_def)
    ultimately have "row (range_end (dgp_placed_cores pl)) \<le> ?R" by linarith
    then show "check_harvested_rows env op pl p = Inr ()"
      using ok [OF True] by (auto simp: check_harvested_rows_def chip_takes_def grid_on_def tt_assert_def split: if_splits)
  qed
  ultimately show ?thesis by (cases r) simp_all
qed (simp add: attempt_op_def)

lemma search_returns:
  assumes "chips_setup p" "chips_inv p used" "ops_inv env p" "grid_size_ok p" "op_placeable env p op s"
  shows "\<exists>r p' used'. ip_place_one_op env op tr cb [(op, s)] p = Some (Inr (r, p')) \<and> chips_inv p' used' \<and>
     ops_inv env p' \<and> searched p p' \<and>
     (case r of None \<Rightarrow> remaining_chip_ids p' = []
      | Some pl \<Rightarrow> placed_well env p' op s (dgp_grid_transpose pl) (dgp_placed_cores pl))"
  using assms
proof (induction "search_measure op p" arbitrary: p used rule: less_induct)
  case less
  note inv = less.prems(2) and ops = less.prems(3)
  from can_place_cases [OF less.prems(1) chips_invD(8) [OF inv], of op env cb] less.prems(5) obtain ok rs where
    can: "can_place_op_onto_chip env op cb p = Inr (ok, rs)" and rs: "requests_ok p op rs"
    and takes: "ok \<Longrightarrow> chip_takes p op" unfolding op_placeable_def chip_takes_def by blast
  from attempt_outcome [of env p op s ok tr] ops less.prems(4) op_placeable_shaped [OF less.prems(5)] takes obtain r where
    att: "attempt_op env op tr [(op, s)] ok p = Some (Inr r)"
    and res: "case r of None \<Rightarrow> True
      | Some pl \<Rightarrow> placed_well env p op s (dgp_grid_transpose pl) (dgp_placed_cores pl) \<and>
          check_harvested_rows env op pl p = Inr ()" by (auto simp: ops_inv_def)
  note step = ip_place_one_op.simps [of env op tr cb "[(op, s)]" p]
  show ?case
  proof (cases r)
    case (Some pl)
    then show ?thesis using inv ops can att res by (intro exI [of _ r] exI [of _ p] exI [of _ used]) (simp add: step)
  next
    case None
    show ?thesis
    proof (cases "remaining_chip_ids p = []")
      case True
      then show ?thesis using None inv ops can att
        by (intro exI [of _ None] exI [of _ p] exI [of _ used]) (simp add: step)
    next
      case False
      from next_spatial_ok [OF less.prems(1) inv False rs, of env] obtain p1 used1 where
        nxt: "next_spatial_epoch env op rs p = Inr p1" and inv1: "chips_inv p1 used1" and op1: "opened env p p1"
        and same: "placed_ops_in_current_epoch p1 = placed_ops_in_current_epoch p"
          "current_temporal_epoch_id p1 = current_temporal_epoch_id p" "current_epoch_type p1 = current_epoch_type p"
        and idx: "current_epoch_index p1 = Suc (current_epoch_index p) \<or>
          placed_ops_in_current_epoch p = [] \<and> current_epoch_index p1 = current_epoch_index p"
        and m: "search_measure op p1 < search_measure op p" by blast
      have su1: "same_setup p p1" and s1: "searched p p1" using op1 same idx by (auto simp: searched_def opened_def)
      have ops1: "ops_inv env p1" by (rule next_spatial_ops [OF inv ops op1 less.prems(4) same(1,2) idx])
      from less.hyps [OF m _ inv1 ops1] less.prems(1,4,5) obtain r' p' used' where
        "ip_place_one_op env op tr cb [(op, s)] p1 = Some (Inr (r', p'))" "chips_inv p' used'" "ops_inv env p'"
        "searched p1 p'" "case r' of None \<Rightarrow> remaining_chip_ids p' = []
          | Some pl \<Rightarrow> placed_well env p' op s (dgp_grid_transpose pl) (dgp_placed_cores pl)"
        by (auto simp: setup_congs [OF su1] chips_setup_cong [OF su1])
      then show ?thesis using None False can att nxt searched_trans [OF s1]
        by (intro exI [of _ r'] exI [of _ p'] exI [of _ used']) (simp add: step)
    qed
  qed
qed

text \<open>
  A search that returns a value keeps the invariants also when an override sends an output op to a
  chip without MMIO: the assertion about it has then not been reached.
\<close>

lemma can_place_success:
  assumes "chips_setup p" "is_current_chip_id_mmio p = (current_chip_id p \<in> set (ip_chips_with_mmio p))"
    and "can_place_op_onto_chip env op cb p = Inr (ok, rs)"
  shows "requests_ok p op rs \<and> (ok \<longrightarrow> chip_takes p op)"
proof -
  let ?ov = "ip_override_chip p op" and ?out = "bc_output_queues_on_host (ip_config p) \<and> op \<in> set (ip_output_ops p)"
  show ?thesis
  proof (cases "?ov = INVALID_CHIP_ID \<or> \<not> ?out \<or> ?ov \<in> set (ip_chips_with_mmio p)")
    case True
    from can_place_cases [OF assms(1,2) this, of env cb] assms(3) show ?thesis by (simp add: chip_takes_def)
  next
    case False
    then have out: "?ov \<noteq> INVALID_CHIP_ID" "?out" "?ov \<notin> set (ip_chips_with_mmio p)" by simp_all
    have "is_current_chip_id_mmio p"
      using assms(3) out by (simp add: can_place_op_onto_chip_def Let_def tt_assert_def res_simps split: if_splits)
    then have "current_chip_id p \<noteq> ?ov" using assms(2) out(3) by metis
    then have "can_place_op_onto_chip env op cb p = Inr (False, [?ov])"
      using out \<open>is_current_chip_id_mmio p\<close> by (simp add: can_place_op_onto_chip_def Let_def tt_assert_def)
    then show ?thesis
      using assms(3) out \<open>current_chip_id p \<noteq> ?ov\<close> by (auto simp: requests_ok_def wanted_def)
  qed
qed

lemma search_keeps:
  assumes "chips_setup p" "chips_inv p used" "ops_inv env p" "grid_size_ok p" "op_shaped env p op s"
    and "ip_place_one_op env op tr cb [(op, s)] p = Some (Inr (r, p'))"
  shows "\<exists>used'. chips_inv p' used' \<and> ops_inv env p' \<and> searched p p' \<and>
     (case r of None \<Rightarrow> True
      | Some pl \<Rightarrow> placed_well env p' op s (dgp_grid_transpose pl) (dgp_placed_cores pl))"
  using assms
proof (induction "search_measure op p" arbitrary: p used rule: less_induct)
  case less
  note inv = less.prems(2) and ops = less.prems(3)
  note step = ip_place_one_op.simps [of env op tr cb "[(op, s)]" p]
  obtain ok rs where can: "can_place_op_onto_chip env op cb p = Inr (ok, rs)"
    using less.prems(6) unfolding step by (cases "can_place_op_onto_chip env op cb p") auto
  have C: "requests_ok p op rs" "ok \<Longrightarrow> chip_takes p op"
    using can_place_success [OF less.prems(1) chips_invD(8) [OF inv] can] by simp_all
  from attempt_outcome [of env p op s ok tr] ops less.prems(4,5) C(2) obtain q where
    att: "attempt_op env op tr [(op, s)] ok p = Some (Inr q)"
    and res: "case q of None \<Rightarrow> True
      | Some pl \<Rightarrow> placed_well env p op s (dgp_grid_transpose pl) (dgp_placed_cores pl) \<and>
          check_harvested_rows env op pl p = Inr ()" by (auto simp: ops_inv_def)
  show ?case
  proof (cases "q = None \<and> remaining_chip_ids p \<noteq> []")
    case False
    then have "p' = p \<and> r = q"
      using less.prems(6) can att res unfolding step by (auto split: option.splits if_splits)
    then show ?thesis using inv ops res by (intro exI [of _ used]) (auto split: option.splits)
  next
    case True
    from next_spatial_ok [OF less.prems(1) inv _ C(1), of env] True obtain p1 used1 where
      nxt: "next_spatial_epoch env op rs p = Inr p1" and inv1: "chips_inv p1 used1" and op1: "opened env p p1"
      and same: "placed_ops_in_current_epoch p1 = placed_ops_in_current_epoch p"
        "current_temporal_epoch_id p1 = current_temporal_epoch_id p" "current_epoch_type p1 = current_epoch_type p"
      and idx: "current_epoch_index p1 = Suc (current_epoch_index p) \<or>
        placed_ops_in_current_epoch p = [] \<and> current_epoch_index p1 = current_epoch_index p"
      and m: "search_measure op p1 < search_measure op p" by blast
    have su1: "same_setup p p1" and s1: "searched p p1" using op1 same idx by (auto simp: searched_def opened_def)
    have ops1: "ops_inv env p1" by (rule next_spatial_ops [OF inv ops op1 less.prems(4) same(1,2) idx])
    have rest: "ip_place_one_op env op tr cb [(op, s)] p1 = Some (Inr (r, p'))"
      using less.prems(6) True can att nxt unfolding step by simp
    from less.hyps [OF m _ inv1 ops1 _ _ rest] less.prems(1,4,5) searched_trans [OF s1] show ?thesis
      by (auto simp: setup_congs [OF su1] chips_setup_cong [OF su1])
  qed
qed

section \<open>place_op\<close>

text \<open>The invariant of the placer while it is in use.\<close>

definition placer_inv :: "Env \<Rightarrow> InteractivePlacer \<Rightarrow> bool" where
  "placer_inv env p \<longleftrightarrow> chips_setup p \<and> grid_size_ok p \<and> ip_valid p \<and> (\<exists>used. chips_inv p used) \<and> ops_inv env p"

lemma placer_invE:
  assumes "placer_inv env p"
  obtains used where "chips_setup p" "grid_size_ok p" "ip_valid p" "chips_inv p used" "ops_inv env p"
  using assms unfolding placer_inv_def by blast

lemma with_op_simps [simp]:
  "sorted_chip_ids (with_op pl grids p) = sorted_chip_ids p" "ip_config (with_op pl grids p) = ip_config p"
  "same_setup q (with_op pl grids p) = same_setup q p" "ip_valid (with_op pl grids p) = ip_valid p"
  "current_temporal_epoch_id (with_op pl grids p) = current_temporal_epoch_id p"
  "current_epoch_index (with_op pl grids p) = current_epoch_index p"
  "current_epoch_type (with_op pl grids p) = current_epoch_type p"
  "current_chip_id (with_op pl grids p) = current_chip_id p"
  "map_of (ip_names (with_op pl grids p)) = (map_of (ip_names p))(placement_name pl \<mapsto> pl)"
  "placed_ops_in_current_epoch (with_op pl grids p) = placed_ops_in_current_epoch p @ [placement_name pl]"
  "placed_at op tr cores (with_op pl grids p) = placed_at op tr cores p"
  "placement_name (placed_at op tr cores p) = op"
  by (simp_all add: with_op_def same_setup_def placed_at_def update_conv)

lemma chip_takes_with_op: "chip_takes (with_op pl grids p) op = chip_takes p op"
  by (simp add: chip_takes_def with_op_def ip_override_chip_def)

text \<open>What an op that was placed looks like afterwards.\<close>

definition op_recorded ::
    "InteractivePlacer \<Rightarrow> InteractivePlacer \<Rightarrow> string \<Rightarrow> GridShape \<Rightarrow> CoordRange \<Rightarrow> bool" where
  "op_recorded p p' op s cores \<longleftrightarrow> chip_takes p' op \<and>
     (\<exists>turned. map_of (ip_names p') = (map_of (ip_names p))(op \<mapsto> placed_at op turned cores p') \<and>
       range_end cores = coord_add_shape (range_start cores) (if turned then transposed s else s)) \<and>
     placed_ops_in_current_epoch p' = placed_ops_in_current_epoch p @ [op]"

text \<open>Recording an op on the free cores that the search found.\<close>

lemma recorded_inv:
  assumes su: "chips_setup p" "grid_size_ok p" "ip_valid p" and inv: "chips_inv p used" "ops_inv env p"
    and pw: "placed_well env p op s t cores" and some: "nonempty_shape (if t then transposed s else s)"
    and new: "map_of (ip_names p) op = None"
  obtains grids where
    "record_op op t cores (if t then transposed s else s) p = Inr (with_op (placed_at op t cores p) grids p)"
    "placer_inv env (with_op (placed_at op t cores p) grids p)"
    "op_recorded p (with_op (placed_at op t cores p) grids p) op s cores"
proof -
  from record_op_ok [OF inv su(2) some _ new, of cores t] pw obtain grids where
    rec: "record_op op t cores (if t then transposed s else s) p = Inr (with_op (placed_at op t cores p) grids p)"
    and ops: "ops_inv env (with_op (placed_at op t cores p) grids p)"
    unfolding placed_well_def by blast
  let ?p = "with_op (placed_at op t cores p) grids p"
  have kept: "same_setup p ?p" by simp
  have "placer_inv env ?p"
    using su inv ops unfolding placer_inv_def
    by (auto simp: chips_setup_cong [OF kept] setup_congs [OF kept] chips_inv_with_op)
  moreover have "op_recorded p ?p op s cores"
    using pw by (auto simp: op_recorded_def placed_well_def chip_takes_with_op)
  ultimately show thesis using that [OF rec] by blast
qed

lemma op_recorded_cong:
  "ip_names p = ip_names q \<Longrightarrow> placed_ops_in_current_epoch p = placed_ops_in_current_epoch q \<Longrightarrow>
   op_recorded p p' op s cores = op_recorded q p' op s cores"
  by (simp add: op_recorded_def)

text \<open>\<open>place_op\<close> after its search.\<close>

lemma place_op_unfold:
  assumes "ip_valid p"
    and "ip_place_one_op env op (bc_enable_auto_transposing_placement (ip_config p) \<and> tp) cb [(op, s)] p = Some (Inr (r, p1))"
  shows "place_op env op s tp cb p = (case r of
      None \<Rightarrow> Some (Inr (None, p1))
    | Some pl \<Rightarrow> comp_bind (Some (record_op op (dgp_grid_transpose pl) (dgp_placed_cores pl)
          (if dgp_grid_transpose pl then transposed s else s) p1)) (\<lambda>p2. Some (Inr (Some (dgp_placed_cores pl), p2))))"
  using assms by (simp add: place_op_def)

lemma searched_inv:
  assumes su: "chips_setup p" "grid_size_ok p" "ip_valid p" and s1: "searched p p1"
  shows "chips_setup p1" "grid_size_ok p1" "ip_valid p1"
  using su searched_setup [OF s1]
  by (simp_all add: chips_setup_cong setup_congs) (simp add: same_setup_def)

lemma place_op_outcome:
  assumes "placer_inv env p" "op_placeable env p op s" "map_of (ip_names p) op = None"
  shows "\<exists>r p'. place_op env op s tp chip_break p = Some (Inr (r, p')) \<and> placer_inv env p' \<and> same_setup p p' \<and>
     current_temporal_epoch_id p' = current_temporal_epoch_id p \<and> current_epoch_index p \<le> current_epoch_index p' \<and>
     (case r of
        None \<Rightarrow> remaining_chip_ids p' = [] \<and> ip_names p' = ip_names p \<and>
          placed_ops_in_current_epoch p' = placed_ops_in_current_epoch p
      | Some cores \<Rightarrow> op_recorded p p' op s cores)"
proof -
  obtain used where su: "chips_setup p" "grid_size_ok p" "ip_valid p" and inv: "chips_inv p used" "ops_inv env p"
    using assms(1) by (rule placer_invE)
  let ?tr = "bc_enable_auto_transposing_placement (ip_config p) \<and> tp"
  from search_returns [OF su(1) inv su(2) assms(2), of ?tr chip_break] obtain r p1 used1 where
    srch: "ip_place_one_op env op ?tr chip_break [(op, s)] p = Some (Inr (r, p1))"
    and inv1: "chips_inv p1 used1" "ops_inv env p1" and s1: "searched p p1"
    and res: "case r of None \<Rightarrow> remaining_chip_ids p1 = []
      | Some pl \<Rightarrow> placed_well env p1 op s (dgp_grid_transpose pl) (dgp_placed_cores pl)" by blast
  note same = searched_setup [OF s1] and su1 = searched_inv [OF su s1]
  note plc = place_op_unfold [OF su(3) srch]
  have moved: "current_temporal_epoch_id p1 = current_temporal_epoch_id p"
    "current_epoch_index p \<le> current_epoch_index p1" "ip_names p1 = ip_names p"
    "placed_ops_in_current_epoch p1 = placed_ops_in_current_epoch p" using s1 by (simp_all add: searched_def)
  show ?thesis
  proof (cases r)
    case None
    then show ?thesis using plc su1 inv1 same moved res by (auto simp: placer_inv_def)
  next
    case (Some pl)
    let ?cores = "dgp_placed_cores pl" and ?t = "dgp_grid_transpose pl"
    have pw: "placed_well env p1 op s ?t ?cores" using res Some by simp
    have new: "map_of (ip_names p1) op = None" using moved(3) assms(3) by simp
    have some: "nonempty_shape (if ?t then transposed s else s)"
      using op_shaped_nonempty [OF op_placeable_shaped [OF assms(2)]] by simp
    from recorded_inv [OF su1 inv1 pw some new] obtain grids where
      rec: "record_op op ?t ?cores (if ?t then transposed s else s) p1 = Inr (with_op (placed_at op ?t ?cores p1) grids p1)"
      and ok: "placer_inv env (with_op (placed_at op ?t ?cores p1) grids p1)"
        "op_recorded p1 (with_op (placed_at op ?t ?cores p1) grids p1) op s ?cores" .
    let ?p = "with_op (placed_at op ?t ?cores p1) grids p1"
    have "op_recorded p ?p op s ?cores" using ok(2) op_recorded_cong [OF moved(3,4)] by simp
    moreover have "place_op env op s tp chip_break p = Some (Inr (Some ?cores, ?p))"
      unfolding plc using Some rec by simp
    ultimately show ?thesis using same moved ok(1) by (intro exI [of _ "Some ?cores"] exI [of _ ?p]) simp
  qed
qed

lemma place_op_keeps:
  assumes "placer_inv env p" "op_shaped env p op s" "map_of (ip_names p) op = None"
    and run: "place_op env op s tp cb p = Some (Inr (r, p'))"
  shows "placer_inv env p' \<and> same_setup p p' \<and>
     (\<forall>x. x \<noteq> op \<longrightarrow> map_of (ip_names p') x = map_of (ip_names p) x)"
proof -
  obtain used where su: "chips_setup p" "grid_size_ok p" "ip_valid p" and inv: "chips_inv p used" "ops_inv env p"
    using assms(1) by (rule placer_invE)
  obtain q p1 where srch: "ip_place_one_op env op (bc_enable_auto_transposing_placement (ip_config p) \<and> tp) cb [(op, s)] p =
      Some (Inr (q, p1))"
    using run by (auto simp: place_op_def res_simps)
  from search_keeps [OF su(1) inv su(2) assms(2) srch] obtain used1 where
    inv1: "chips_inv p1 used1" "ops_inv env p1" and s1: "searched p p1"
    and res: "case q of None \<Rightarrow> True
      | Some pl \<Rightarrow> placed_well env p1 op s (dgp_grid_transpose pl) (dgp_placed_cores pl)" by blast
  note same = searched_setup [OF s1] and su1 = searched_inv [OF su s1]
  note plc = place_op_unfold [OF su(3) srch]
  have names: "ip_names p1 = ip_names p" using s1 by (simp add: searched_def)
  show ?thesis
  proof (cases q)
    case None
    then have "p' = p1" using run plc by simp
    then show ?thesis using su1 inv1 same names by (auto simp: placer_inv_def)
  next
    case (Some pl)
    let ?cores = "dgp_placed_cores pl" and ?t = "dgp_grid_transpose pl"
    have pw: "placed_well env p1 op s ?t ?cores" using res Some by simp
    have new: "map_of (ip_names p1) op = None" using names assms(3) by simp
    have some: "nonempty_shape (if ?t then transposed s else s)" using op_shaped_nonempty [OF assms(2)] by simp
    from recorded_inv [OF su1 inv1 pw some new] obtain grids where
      rec: "record_op op ?t ?cores (if ?t then transposed s else s) p1 = Inr (with_op (placed_at op ?t ?cores p1) grids p1)"
      and ok: "placer_inv env (with_op (placed_at op ?t ?cores p1) grids p1)" .
    have "p' = with_op (placed_at op ?t ?cores p1) grids p1" using run plc Some rec by simp
    then show ?thesis using ok same names by simp
  qed
qed

end
