(* ===== verification/Interactive_Run.thy ===== *)
theory Interactive_Run
  imports Interactive_Place
begin

text \<open>
  Runs of the interactive placer: construction, the step to the next temporal epoch, which fills the
  current one with empty epochs, the two rewinds and the commit, and the invariant of every run.
\<close>

section \<open>Filling a temporal epoch\<close>

text \<open>Between two epochs: temporal epoch \<open>t\<close> has run on the chips \<open>cs\<close> so far.\<close>

definition closing :: "Env \<Rightarrow> InteractivePlacer \<Rightarrow> nat \<Rightarrow> nat list \<Rightarrow> bool" where
  "closing env p t cs \<longleftrightarrow> ordered_keys (ip_chips p) \<and> current_epoch_index p = t * chip_count p + length cs \<and>
     (\<forall>t' < t. \<exists>cs'. mset cs' = mset (sorted_chip_ids p) \<and> block p t' cs') \<and> block p t cs \<and>
     records_ok env p (current_epoch_index p)"

lemma closingD:
  assumes "closing env p t cs"
  shows "ordered_keys (ip_chips p)" "current_epoch_index p = t * chip_count p + length cs"
    "\<forall>t' < t. \<exists>cs'. mset cs' = mset (sorted_chip_ids p) \<and> block p t' cs'" "block p t cs"
    "records_ok env p (current_epoch_index p)"
  using assms unfolding closing_def by blast+

text \<open>What the empty epochs leave alone.\<close>

definition only_epochs :: "InteractivePlacer \<Rightarrow> InteractivePlacer \<Rightarrow> bool" where
  "only_epochs p p' \<longleftrightarrow> same_setup p p' \<and> ip_names p' = ip_names p \<and> ip_grids p' = ip_grids p \<and>
     current_temporal_epoch_id p' = current_temporal_epoch_id p \<and>
     current_spatial_epoch_id p' = current_spatial_epoch_id p \<and> current_epoch_type p' = current_epoch_type p \<and>
     placed_ops_in_current_epoch p' = placed_ops_in_current_epoch p"

lemma only_epochsD:
  assumes "only_epochs p p'"
  shows "same_setup p p'" "ip_names p' = ip_names p" "ip_grids p' = ip_grids p"
    "current_temporal_epoch_id p' = current_temporal_epoch_id p"
    "current_spatial_epoch_id p' = current_spatial_epoch_id p" "current_epoch_type p' = current_epoch_type p"
    "placed_ops_in_current_epoch p' = placed_ops_in_current_epoch p"
  using assms unfolding only_epochs_def by blast+

lemma only_epochs_trans: "only_epochs p q \<Longrightarrow> only_epochs q r \<Longrightarrow> only_epochs p r"
  unfolding only_epochs_def by (auto intro: same_setup_trans)

lemma insert_empty_graph_frame: "only_epochs p (insert_empty_graph s t chip p)"
  by (simp add: only_epochs_def insert_empty_graph_def same_setup_def Let_def)

lemma insert_empty_graph_closing:
  assumes cl: "closing env p t cs" and small: "Suc (current_epoch_index p) < 2 ^ 32"
  shows "closing env (insert_empty_graph (length cs) t chip p) t (cs @ [chip])"
proof -
  let ?k = "current_epoch_index p" and ?p = "insert_empty_graph (length cs) t chip p" and ?n = "chip_count p"
  note D = closingD [OF cl]
  have chips: "map_of (ip_chips ?p) k = (if k = ?k then Some chip else map_of (ip_chips p) k)"
    and infos: "map_of (ip_infos ?p) k = (if k = ?k then Some \<lparr>info_global_epoch_id = ?k, info_temporal_epoch_id = t,
        info_spatial_epoch_id = length cs, info_epoch_type = current_epoch_type p\<rparr> else map_of (ip_infos p) k)" for k
    using D(1) by (simp_all add: insert_empty_graph_def Let_def update_conv)
  have same: "sorted_chip_ids ?p = sorted_chip_ids p" by (simp add: insert_empty_graph_def Let_def)
  have idx: "current_epoch_index ?p = Suc ?k" using small by (simp add: insert_empty_graph_def add32_exact Let_def)
  have e: "epoch_ops ?p = (epoch_ops p)(?k := [])"
    by (rule epoch_ops_update) (simp add: insert_empty_graph_def Let_def)
  have "\<forall>t' < t. \<exists>cs'. mset cs' = mset (sorted_chip_ids ?p) \<and> block ?p t' cs'"
    by (rule closed_blocks_kept [OF D(3) same]) (use D(2) in \<open>simp add: chips infos\<close>)
  moreover have "block ?p t (cs @ [chip])"
    unfolding block_def
  proof (intro allI impI)
    fix j
    assume "j < length (cs @ [chip])"
    then consider "j < length cs" | "j = length cs" by fastforce
    then show "map_of (ip_chips ?p) (t * chip_count ?p + j) = Some ((cs @ [chip]) ! j) \<and>
      (\<exists>ty. map_of (ip_infos ?p) (t * chip_count ?p + j) = Some \<lparr>info_global_epoch_id = t * chip_count ?p + j,
        info_temporal_epoch_id = t, info_spatial_epoch_id = j, info_epoch_type = ty\<rparr>)"
    proof cases
      case 1
      then show ?thesis using D(2,4) unfolding same chips infos by (simp add: block_def nth_append)
    next
      case 2
      then have "(cs @ [chip]) ! j = chip" by simp
      then show ?thesis using 2 D(2) unfolding same chips infos by simp
    qed
  qed
  moreover have "records_ok env ?p (Suc ?k)"
  proof (rule records_skip)
    show "records_ok env ?p ?k"
      using insert_empty_graph_frame [of p "length cs" t chip] e chips
      by (intro records_ok_cong [OF D(5)]) (auto simp: only_epochs_def)
  qed (simp add: e)
  moreover have "ordered_keys (ip_chips ?p)" using D(1) by (simp add: insert_empty_graph_def Let_def)
  ultimately show ?thesis using D(2) by (simp add: closing_def idx same)
qed

lemma insert_empty_graphs_closing:
  assumes "closing env p t cs" "length cs + length chips \<le> chip_count p"
    and "t * chip_count p + length cs + length chips < 2 ^ 32" "chip_count p < 2 ^ 32"
  shows "\<exists>p'. insert_empty_graphs_for chips (length cs) t p = Inr p' \<and> closing env p' t (cs @ chips) \<and>
     only_epochs p p' \<and> remaining_chip_ids p' = []"
  using assms
proof (induction chips arbitrary: p cs)
  case Nil
  have "only_epochs p (p\<lparr>remaining_chip_ids := []\<rparr>)" by (simp add: only_epochs_def same_setup_def)
  moreover have "closing env (p\<lparr>remaining_chip_ids := []\<rparr>) t cs"
  proof -
    have "records_ok env (p\<lparr>remaining_chip_ids := []\<rparr>) (current_epoch_index p)"
      by (rule records_ok_cong [OF closingD(5) [OF Nil.prems(1)]]) (simp_all add: same_setup_def epoch_ops_def)
    then show ?thesis using closingD(1-4) [OF Nil.prems(1)] by (simp add: closing_def block_def)
  qed
  ultimately show ?case by simp
next
  case (Cons chip chips)
  let ?p = "insert_empty_graph (length cs) t chip p"
  note fr = insert_empty_graph_frame [of p "length cs" t chip]
  have n: "chip_count ?p = chip_count p" by (simp add: insert_empty_graph_def Let_def)
  have "closing env ?p t (cs @ [chip])"
    using Cons.prems closingD(2) [OF Cons.prems(1)] by (intro insert_empty_graph_closing) simp_all
  from Cons.IH [OF this] Cons.prems(2-4) n obtain p' where
    p': "insert_empty_graphs_for chips (length (cs @ [chip])) t ?p = Inr p'" "closing env p' t ((cs @ [chip]) @ chips)"
    "only_epochs ?p p'" "remaining_chip_ids p' = []" by auto
  moreover have "add32 (length cs) 1 = length (cs @ [chip])" using Cons.prems(2,4) by (simp add: add32_exact)
  moreover have "length cs < chip_count p" using Cons.prems(2) by simp
  ultimately show ?case using only_epochs_trans [OF fr p'(3)] by (intro exI [of _ p']) simp
qed

section \<open>Opening a temporal epoch\<close>

definition chip_order :: "Env \<Rightarrow> InteractivePlacer \<Rightarrow> nat list" where
  "chip_order env p = (if PYBUDA_PLACER_SNAKE env \<and> current_temporal_epoch_id p mod 2 = 1
     then rev (sorted_chip_ids p) else sorted_chip_ids p)"

text \<open>A temporal epoch that has just been opened: its first epoch is empty and on the first chip.\<close>

definition fresh_epoch :: "Env \<Rightarrow> InteractivePlacer \<Rightarrow> bool" where
  "fresh_epoch env p \<longleftrightarrow> placer_inv env p \<and> placed_ops_in_current_epoch p = [] \<and> current_spatial_epoch_id p = 0 \<and>
     current_epoch_index p = current_temporal_epoch_id p * chip_count p \<and>
     current_chip_id p # remaining_chip_ids p = chip_order env p"

lemma open_temporal_epoch:
  assumes su: "chips_setup p" "grid_size_ok p" "ip_valid p" and b: "between p []"
    and rec: "records_ok env p (current_epoch_index p)" and order: "remaining_chip_ids p = chip_order env p"
  shows "\<exists>p'. res_bind (take_chip None p) (\<lambda>p1. Inr (register_current_epoch env True p1)) = Inr p' \<and>
     fresh_epoch env p' \<and> same_setup p p' \<and> ip_names p' = ip_names p \<and>
     current_temporal_epoch_id p' = current_temporal_epoch_id p \<and> current_epoch_type p' = current_epoch_type p"
proof -
  have ne: "remaining_chip_ids p \<noteq> []" using su(1) by (simp add: order chip_order_def chips_setup_def)
  have ms: "mset [] + mset (remaining_chip_ids p) = mset (sorted_chip_ids p)" by (rule betweenD(6) [OF b])
  from take_chip_ok [OF su(1) ms ne, of None] obtain c rest where
    take: "take_chip None p = Inr (p\<lparr>current_chip_id := c, remaining_chip_ids := rest,
        is_current_chip_id_mmio := c \<in> set (ip_chips_with_mmio p)\<rparr>)"
    and rest: "{#c#} + mset rest = mset (remaining_chip_ids p)" by auto
  have cr: "c # rest = chip_order env p"
  proof -
    let ?o = "chip_order env p"
    have "p\<lparr>current_chip_id := hd ?o, remaining_chip_ids := tl ?o, is_current_chip_id_mmio := hd ?o \<in> set (ip_chips_with_mmio p)\<rparr> =
      p\<lparr>current_chip_id := c, remaining_chip_ids := rest, is_current_chip_id_mmio := c \<in> set (ip_chips_with_mmio p)\<rparr>"
      (is "?p1 = ?p2") using take ne by (simp add: take_chip_def requested_chip_def Let_def order)
    then have "current_chip_id ?p1 = current_chip_id ?p2" "remaining_chip_ids ?p1 = remaining_chip_ids ?p2"
      by (simp_all only:)
    then show ?thesis using ne order by (cases ?o) simp_all
  qed
  define p' where "p' = register_current_epoch env True (p\<lparr>current_chip_id := c, remaining_chip_ids := rest,
        is_current_chip_id_mmio := c \<in> set (ip_chips_with_mmio p)\<rparr>)"
  have inv: "chips_inv p' []" unfolding p'_def using rest by (intro register_opens [OF b]) simp
  have op: "opened env p p'"
    by (simp add: opened_def same_setup_def p'_def register_current_epoch_def Let_def grid_on_def)
  have fields: "current_epoch_index p' = current_epoch_index p" "placed_ops_in_current_epoch p' = []"
    "current_temporal_epoch_id p' = current_temporal_epoch_id p" "current_spatial_epoch_id p' = current_spatial_epoch_id p"
    "current_chip_id p' = c" "remaining_chip_ids p' = rest" "current_epoch_type p' = current_epoch_type p"
    by (simp_all add: p'_def register_current_epoch_def Let_def)
  have same: "same_setup p p'" and names: "ip_names p' = ip_names p" using op by (simp_all add: opened_def)
  have sorted: "sorted_chip_ids p' = sorted_chip_ids p" using same by (simp add: same_setup_def)
  have s0: "current_spatial_epoch_id p = 0" using betweenD(3) [OF b] by simp
  then have idx: "current_epoch_index p' = current_temporal_epoch_id p' * chip_count p'"
    using betweenD(4) [OF b] fields sorted by simp
  have "records_ok env p' (Suc (current_epoch_index p'))"
    using opened_records [OF rec op betweenD(1) [OF b] fields(1)] by (simp only: fields(1))
  moreover have "names_of p' (current_temporal_epoch_id p' * chip_count p') (Suc (current_epoch_index p')) = []"
    using opened_epoch_open(2) [OF op su(2)] idx by (simp add: names_of_Suc)
  ultimately have "ops_inv env p'"
    using opened_epoch_open(1) [OF op su(2)] by (simp only: ops_inv_def fields(2))
  then have "placer_inv env p'"
    using su inv same unfolding placer_inv_def
    by (auto simp: chips_setup_cong [OF same] setup_congs [OF same] same_setup_def)
  then have "fresh_epoch env p'"
    using idx s0 fields cr by (simp add: fresh_epoch_def chip_order_def sorted)
  moreover have "res_bind (take_chip None p) (\<lambda>p1. Inr (register_current_epoch env True p1)) = Inr p'"
    by (simp add: take p'_def)
  ultimately show ?thesis using same names fields by (intro exI [of _ p']) simp
qed

text \<open>The next temporal epoch: the rest of the current one is filled with empty epochs.\<close>

lemma length_used:
  assumes "chips_inv p used"
  shows "length used + 1 + length (remaining_chip_ids p) = chip_count p"
  using arg_cong [OF chips_invD(6) [OF assms], of size] by simp

lemma chips_inv_closing:
  assumes "chips_inv p used" "records_ok env p (Suc (current_epoch_index p))"
    and "p' = p\<lparr>current_epoch_index := Suc (current_epoch_index p), current_temporal_epoch_id := t',
       current_spatial_epoch_id := s', current_epoch_type := ty\<rparr>"
  shows "closing env p' (current_temporal_epoch_id p) (used @ [current_chip_id p])"
proof -
  have "records_ok env p' (Suc (current_epoch_index p))"
    by (rule records_ok_cong [OF assms(2)]) (simp_all add: assms(3) same_setup_def epoch_ops_def)
  then show ?thesis
    using chips_invD(1-5,7) [OF assms(1)] by (simp add: closing_def assms(3) block_def)
qed

lemma fill_temporal_epoch:
  assumes cl: "closing env p (current_temporal_epoch_id p - 1) cs" and T: "0 < current_temporal_epoch_id p"
    and len: "length cs + length (remaining_chip_ids p) = chip_count p" and ne: "cs \<noteq> []"
    and small: "current_temporal_epoch_id p * chip_count p < 2 ^ 32" "current_temporal_epoch_id p < 2 ^ 32"
  shows "\<exists>p1. repopulate env True p = Inr (p1\<lparr>remaining_chip_ids := chip_order env p\<rparr>) \<and>
     closing env p1 (current_temporal_epoch_id p - 1) (cs @ remaining_chip_ids p) \<and> only_epochs p p1"
proof (cases "remaining_chip_ids p = []")
  case True
  then show ?thesis using cl
    by (intro exI [of _ p]) (simp add: repopulate_def chip_order_def only_epochs_def)
next
  case False
  let ?t = "current_temporal_epoch_id p - 1" and ?n = "chip_count p"
  have total: "?t * ?n + length cs + length (remaining_chip_ids p) = current_temporal_epoch_id p * ?n"
    using T len by (cases "current_temporal_epoch_id p") simp_all
  have n: "?n < 2 ^ 32" using small(1) T by (cases "current_temporal_epoch_id p") simp_all
  have idx: "current_epoch_index p = ?t * ?n + length cs" by (rule closingD(2) [OF cl])
  then have "sub32 (current_epoch_index p) 1 = ?t * ?n + (length cs - 1)"
    using ne total small(1) by (cases cs) (simp_all add: sub32_def)
  moreover have "\<exists>ty. map_of (ip_infos p) (?t * ?n + (length cs - 1)) = Some \<lparr>info_global_epoch_id = ?t * ?n + (length cs - 1),
      info_temporal_epoch_id = ?t, info_spatial_epoch_id = length cs - 1, info_epoch_type = ty\<rparr>"
    using closingD(4) [OF cl] ne unfolding block_def by (cases cs) auto
  ultimately obtain info where info: "at_key (ip_infos p) (sub32 (current_epoch_index p) 1) = Inr info"
    "info_spatial_epoch_id info = length cs - 1" by (auto simp: at_key_def)
  have "add32 (info_spatial_epoch_id info) 1 = length cs" using info(2) ne len n by (cases cs) (simp_all add: add32_exact)
  moreover have "sub32 (current_temporal_epoch_id p) 1 = ?t"
    using T small(2) by (cases "current_temporal_epoch_id p") (simp_all add: sub32_def)
  moreover from insert_empty_graphs_closing [OF cl _ _ n, of "remaining_chip_ids p"] len total small(1) obtain p1 where
    p1: "insert_empty_graphs_for (remaining_chip_ids p) (length cs) ?t p = Inr p1"
    "closing env p1 ?t (cs @ remaining_chip_ids p)" "only_epochs p p1" "remaining_chip_ids p1 = []" by auto
  moreover have "current_temporal_epoch_id p1 = current_temporal_epoch_id p" "sorted_chip_ids p1 = sorted_chip_ids p"
    using p1(3) by (simp_all add: only_epochs_def same_setup_def)
  ultimately show ?thesis using False info(1)
    by (intro exI [of _ p1]) (simp add: repopulate_def insert_empty_graphs_def chip_order_def)
qed

lemma next_epoch_ok:
  assumes inv: "placer_inv env p" and small: "(current_temporal_epoch_id p + 2) * chip_count p < 2 ^ 32"
  shows "\<exists>p'. next_epoch env ty p = Inr (current_epoch_index p', p') \<and> fresh_epoch env p' \<and> same_setup p p' \<and>
     ip_names p' = ip_names p \<and> current_temporal_epoch_id p' = Suc (current_temporal_epoch_id p) \<and>
     current_epoch_type p' = ty"
proof -
  obtain used where su: "chips_setup p" "grid_size_ok p" "ip_valid p" and ci: "chips_inv p used" and ops: "ops_inv env p"
    using inv by (rule placer_invE)
  let ?T = "current_temporal_epoch_id p" and ?n = "chip_count p"
  have n0: "0 < ?n" using su(1) by (simp add: chips_setup_def)
  have "(?T + 2) * 1 \<le> (?T + 2) * ?n" by (rule mult_le_mono2) (use n0 in linarith)
  then have T: "?T + 2 < 2 ^ 32" using small unfolding mult_1_right by (rule le_less_trans)
  have len: "length used + 1 + length (remaining_chip_ids p) = ?n" by (rule length_used [OF ci])
  have "?T * ?n + length used + 1 \<le> (?T + 2) * ?n" using len by simp
  then have idx: "Suc (current_epoch_index p) < 2 ^ 32" using chips_invD(3,4) [OF ci] small by linarith
  define p0 where "p0 = p\<lparr>current_epoch_index := Suc (current_epoch_index p), current_temporal_epoch_id := Suc ?T,
     current_spatial_epoch_id := 0, current_epoch_type := ty\<rparr>"
  have p0: "current_temporal_epoch_id p0 = Suc ?T" "remaining_chip_ids p0 = remaining_chip_ids p"
    "sorted_chip_ids p0 = sorted_chip_ids p" "same_setup p p0" "ip_names p0 = ip_names p"
    "current_spatial_epoch_id p0 = 0" "current_epoch_type p0 = ty" "ip_valid p0 = ip_valid p"
    by (simp_all add: p0_def same_setup_def)
  have cl: "closing env p0 (current_temporal_epoch_id p0 - 1) (used @ [current_chip_id p])"
    using chips_inv_closing [OF ci _ p0_def] ops by (simp add: p0 ops_inv_def)
  from fill_temporal_epoch [OF cl] len small T n0 obtain p1 where
    rep: "repopulate env True p0 = Inr (p1\<lparr>remaining_chip_ids := chip_order env p0\<rparr>)"
    and cl1: "closing env p1 ?T (used @ [current_chip_id p] @ remaining_chip_ids p)" and only: "only_epochs p0 p1"
    by (auto simp: p0)
  note O = only_epochsD [OF only]
  define p2 where "p2 = p1\<lparr>remaining_chip_ids := chip_order env p0\<rparr>"
  have same2: "same_setup p p2"
    using same_setup_trans [OF p0(4) O(1)] by (simp add: p2_def same_setup_def)
  then have sorted: "sorted_chip_ids p2 = sorted_chip_ids p" "ip_valid p2 = ip_valid p" by (simp_all add: same_setup_def)
  have fields: "current_temporal_epoch_id p2 = Suc ?T" "current_spatial_epoch_id p2 = 0" "ip_names p2 = ip_names p"
    "current_epoch_type p2 = ty" "remaining_chip_ids p2 = chip_order env p2"
    using O p0 sorted by (simp_all add: p2_def chip_order_def)
  note C = closingD [OF cl1]
  have full: "mset (used @ [current_chip_id p] @ remaining_chip_ids p) = mset (sorted_chip_ids p)"
    using chips_invD(6) [OF ci] by (simp add: ac_simps)
  have sorted1: "sorted_chip_ids p1 = sorted_chip_ids p" using sorted(1) by (simp add: p2_def)
  have blk: "block p2 t cs = block p1 t cs" for t cs by (simp add: p2_def block_def)
  have idx2: "current_epoch_index p2 = Suc ?T * ?n" using C(2) len by (simp add: p2_def sorted1)
  have b: "between p2 []"
    unfolding between_def
  proof (intro conjI)
    show "\<forall>t < current_temporal_epoch_id p2. \<exists>cs. mset cs = mset (sorted_chip_ids p2) \<and> block p2 t cs"
      using C(3,4) full unfolding fields sorted sorted1 blk less_Suc_eq by blast
    show "small_epochs p2" using small by (simp add: small_epochs_def fields sorted)
    show "mset [] + mset (remaining_chip_ids p2) = mset (sorted_chip_ids p2)" by (simp add: fields(5) chip_order_def)
    show "length [] = current_spatial_epoch_id p2" by (simp add: fields(2))
    show "current_epoch_index p2 = current_temporal_epoch_id p2 * chip_count p2 + current_spatial_epoch_id p2"
      by (simp only: idx2 fields(1,2) sorted(1) add_0_right)
    show "ordered_keys (ip_chips p2)" using C(1) by (simp add: p2_def)
  qed (simp add: block_def)
  have rec: "records_ok env p2 (current_epoch_index p2)"
  proof -
    have "records_ok env p2 (current_epoch_index p1)"
      by (rule records_ok_cong [OF C(5)]) (simp_all add: p2_def same_setup_def epoch_ops_def)
    then show ?thesis by (simp add: p2_def)
  qed
  have su2: "chips_setup p2" "grid_size_ok p2" "ip_valid p2"
    using su unfolding chips_setup_cong [OF same2] setup_congs [OF same2] sorted(2) by blast+
  from open_temporal_epoch [OF su2 b rec fields(5)] obtain p' where
    p': "res_bind (take_chip None p2) (\<lambda>p1. Inr (register_current_epoch env True p1)) = Inr p'"
    "fresh_epoch env p'" "same_setup p2 p'" "ip_names p' = ip_names p2"
    "current_temporal_epoch_id p' = current_temporal_epoch_id p2" "current_epoch_type p' = current_epoch_type p2" by blast
  have "init_epoch env True True None p0 = Inr p'"
    using rep p'(1) by (simp add: init_epoch_def next_chip_id_def p2_def)
  moreover have "p\<lparr>current_epoch_index := add32 (current_epoch_index p) 1,
      current_temporal_epoch_id := add32 ?T 1, current_spatial_epoch_id := 0, current_epoch_type := ty\<rparr> = p0"
    using idx T by (simp add: p0_def add32_exact)
  ultimately have "next_epoch env ty p = Inr (current_epoch_index p', p')"
    using su(3) by (simp add: next_epoch_def)
  then show ?thesis using p' fields same_setup_trans [OF same2 p'(3)] by (intro exI [of _ p']) simp
qed

section \<open>Rewinding\<close>

lemma map_of_fold_delete: "map_of (fold AList.delete xs m) = map_of m |` (- set xs)"
  by (induction xs arbitrary: m) (auto simp: delete_conv restrict_map_def fun_eq_iff)

text \<open>Erasing the ops of the last epochs leaves the records of the others in order.\<close>

lemma records_erase:
  assumes rec: "records_ok env p N" and le: "M \<le> N" and same: "same_setup p p'"
    and names: "map_of (ip_names p') = map_of (ip_names p) |` (- set (names_of p M N))"
    and ops: "\<And>k. k < M \<Longrightarrow> epoch_ops p' k = epoch_ops p k"
    and chips: "\<And>k. k < M \<Longrightarrow> map_of (ip_chips p') k = map_of (ip_chips p) k"
  shows "records_ok env p' M"
proof -
  note D = records_okD [OF rec]
  have dist: "distinct (names_of p 0 M @ names_of p M N)" using D(4) le by (simp add: names_of_split [of 0 M N])
  have grid: "grid_on env p' = grid_on env p" by (rule setup_congs(5) [OF same])
  have "placement_ok env p' k pl" if "k < M" "pl \<in> set (epoch_ops p' k)" for k pl
  proof -
    have mem: "pl \<in> set (epoch_ops p k)" using that ops by simp
    then have "placement_name pl \<in> set (names_of p 0 M)" using that(1) by (auto simp: set_names_of)
    then have "placement_name pl \<notin> set (names_of p M N)" using dist by auto
    then show ?thesis using D(1) [of k pl] that(1) le mem chips by (simp add: placement_ok_def names grid)
  qed
  moreover have "placement_name pl = x \<and> global_epoch_id pl < M \<and> pl \<in> set (epoch_ops p' (global_epoch_id pl))"
    if "map_of (ip_names p') x = Some pl" for x pl
  proof -
    have x: "x \<notin> set (names_of p M N)" "map_of (ip_names p) x = Some pl"
      using that by (auto simp: names restrict_map_def split: if_splits)
    note E = D(3) [OF x(2)]
    then have "global_epoch_id pl < M" using x(1) unfolding set_names_of by (metis not_le)
    then show ?thesis using E ops by simp
  qed
  moreover have "sorted_wrt (\<lambda>a b. \<not> share_core a b) (epoch_ops p' k)" if "k < M" for k
    using D(2) [of k] that le ops by simp
  moreover have "distinct (names_of p' 0 M)"
    using dist names_of_cong [of 0 M p' p] ops by simp
  ultimately show ?thesis unfolding records_ok_def by blast
qed

lemma reopen_ok:
  assumes inv: "placer_inv env p" and names: "map_of nm = map_of (ip_names p) |` (- set (placed_ops_in_current_epoch p))"
  shows "\<exists>p'. reopen_temporal_epoch env (p\<lparr>ip_names := nm\<rparr>) = Inr p' \<and> fresh_epoch env p' \<and> same_setup p p' \<and>
     ip_names p' = nm \<and> current_temporal_epoch_id p' = current_temporal_epoch_id p \<and>
     current_epoch_type p' = current_epoch_type p"
proof -
  obtain used where su: "chips_setup p" "grid_size_ok p" "ip_valid p" and ci: "chips_inv p used" and ops: "ops_inv env p"
    using inv by (rule placer_invE)
  note C = chips_invD [OF ci]
  let ?T = "current_temporal_epoch_id p" and ?n = "chip_count p"
  define p0 where "p0 = p\<lparr>ip_names := nm, current_epoch_index := ?T * ?n, current_spatial_epoch_id := 0,
    remaining_chip_ids := chip_order env p\<rparr>"
  have "current_epoch_index p < 2 ^ 32"
  proof -
    have "current_epoch_index p \<le> (?T + 1) * ?n" using C(3,4) length_used [OF ci] by simp
    also have "\<dots> < 2 ^ 32" using C(2) by (simp only: small_epochs_def)
    finally show ?thesis .
  qed
  then have start: "sub32 (current_epoch_index p) (current_spatial_epoch_id p) = ?T * ?n"
    using C(4) by (simp add: sub32_def)
  have same: "same_setup p p0" by (simp add: p0_def same_setup_def)
  have fields: "current_epoch_index p0 = ?T * ?n" "current_temporal_epoch_id p0 = ?T" "current_spatial_epoch_id p0 = 0"
    "sorted_chip_ids p0 = sorted_chip_ids p" "ip_names p0 = nm" "remaining_chip_ids p0 = chip_order env p0"
    "current_epoch_type p0 = current_epoch_type p" "ip_valid p0 = ip_valid p" "ip_chips p0 = ip_chips p"
    by (simp_all add: p0_def chip_order_def)
  have blk: "block p0 t cs = block p t cs" for t cs by (simp add: p0_def block_def)
  have rec: "records_ok env p0 (current_epoch_index p0)"
    unfolding fields(1)
  proof (rule records_erase [OF _ _ same])
    show "records_ok env p (Suc (current_epoch_index p))" using ops by (simp add: ops_inv_def)
    show "map_of (ip_names p0) = map_of (ip_names p) |` (- set (names_of p (?T * ?n) (Suc (current_epoch_index p))))"
      using ops names by (simp add: fields(5) ops_inv_def)
  qed (use C(4) in \<open>simp_all add: fields p0_def epoch_ops_def\<close>)
  have b: "between p0 []"
    unfolding between_def
  proof (intro conjI)
    show "\<forall>t < current_temporal_epoch_id p0. \<exists>cs. mset cs = mset (sorted_chip_ids p0) \<and> block p0 t cs"
      using C(5) unfolding fields blk .
    show "mset [] + mset (remaining_chip_ids p0) = mset (sorted_chip_ids p0)" by (simp add: fields(6) chip_order_def)
    show "small_epochs p0" using C(2) by (simp add: small_epochs_def fields)
  qed (use C(1) in \<open>simp_all add: fields block_def\<close>)
  have su0: "chips_setup p0" "grid_size_ok p0" "ip_valid p0"
    using su unfolding chips_setup_cong [OF same] setup_congs [OF same] fields(8) by blast+
  from open_temporal_epoch [OF su0 b rec fields(6)] obtain p' where
    p': "res_bind (take_chip None p0) (\<lambda>p1. Inr (register_current_epoch env True p1)) = Inr p'"
    "fresh_epoch env p'" "same_setup p0 p'" "ip_names p' = ip_names p0"
    "current_temporal_epoch_id p' = current_temporal_epoch_id p0" "current_epoch_type p' = current_epoch_type p0" by blast
  have "reopen_temporal_epoch env (p\<lparr>ip_names := nm\<rparr>) = Inr p'"
    using p'(1) start
    by (cases "PYBUDA_PLACER_SNAKE env \<and> current_temporal_epoch_id p mod 2 = 1")
      (auto simp: reopen_temporal_epoch_def init_epoch_def next_chip_id_def repopulate_def p0_def chip_order_def)
  then show ?thesis using p' fields same_setup_trans [OF same p'(3)] by (intro exI [of _ p']) simp
qed

lemma rewind_epoch_ok:
  assumes "placer_inv env p"
  shows "\<exists>p'. rewind_epoch env p = Inr p' \<and> fresh_epoch env p' \<and> same_setup p p' \<and>
     map_of (ip_names p') = map_of (ip_names p) |` (- set (placed_ops_in_current_epoch p)) \<and>
     current_temporal_epoch_id p' = current_temporal_epoch_id p \<and> current_epoch_type p' = current_epoch_type p"
  using reopen_ok [OF assms map_of_fold_delete] by (auto simp: rewind_epoch_def map_of_fold_delete)

text \<open>The logged rewind returns the placements it erases, in the order in which they were made.\<close>

lemma unplace_all:
  assumes "distinct xs" "\<forall>x \<in> set xs. map_of (ip_names p) x \<noteq> None"
  shows "fold_res unplace_logged xs (ret, p) =
     Inr (ret @ map (\<lambda>x. (x, the (map_of (ip_names p) x))) xs, p\<lparr>ip_names := fold AList.delete xs (ip_names p)\<rparr>)"
  using assms
proof (induction xs arbitrary: ret p)
  case (Cons x xs)
  then obtain pl where pl: "map_of (ip_names p) x = Some pl" by auto
  define q where "q = p\<lparr>ip_names := AList.delete x (ip_names p)\<rparr>"
  have q: "map_of (ip_names q) y = map_of (ip_names p) y" if "y \<in> set xs" for y
    using that Cons.prems(1) by (auto simp: q_def delete_conv)
  have "unplace_logged x (ret, p) = Inr (ret @ [(x, pl)], q)" using pl by (simp add: unplace_logged_def at_key_def q_def)
  moreover have "fold_res unplace_logged xs (ret @ [(x, pl)], q) =
     Inr ((ret @ [(x, pl)]) @ map (\<lambda>x. (x, the (map_of (ip_names q) x))) xs, q\<lparr>ip_names := fold AList.delete xs (ip_names q)\<rparr>)"
    using Cons.prems q by (intro Cons.IH) simp_all
  moreover have "map (\<lambda>x. (x, the (map_of (ip_names q) x))) xs = map (\<lambda>x. (x, the (map_of (ip_names p) x))) xs"
    using q by simp
  ultimately show ?case using pl by (simp add: q_def)
qed simp

lemma placed_known:
  assumes "placer_inv env p"
  shows "distinct (placed_ops_in_current_epoch p)"
    "x \<in> set (placed_ops_in_current_epoch p) \<Longrightarrow> map_of (ip_names p) x \<noteq> None"
proof -
  obtain used where ci: "chips_inv p used" and ops: "ops_inv env p" using assms by (rule placer_invE)
  let ?a = "current_temporal_epoch_id p * chip_count p" and ?b = "Suc (current_epoch_index p)"
  have rec: "records_ok env p ?b" and placed: "placed_ops_in_current_epoch p = names_of p ?a ?b"
    using ops by (simp_all add: ops_inv_def)
  have "names_of p 0 ?b = names_of p 0 ?a @ names_of p ?a ?b"
    using chips_inv_order [OF ci] by (intro names_of_split) simp_all
  then show "distinct (placed_ops_in_current_epoch p)" using records_okD(4) [OF rec] placed by simp
  show "map_of (ip_names p) x \<noteq> None" if "x \<in> set (placed_ops_in_current_epoch p)"
    using that records_okD(1) [OF rec] unfolding placed set_names_of placement_ok_def by force
qed

lemma rewind_logged_eq:
  assumes "placer_inv env p"
  shows "rewind_epoch_logged env p =
     res_bind (rewind_epoch env p) (\<lambda>p'. Inr (map (\<lambda>x. (x, the (map_of (ip_names p) x))) (placed_ops_in_current_epoch p), p'))"
  using unplace_all [of "placed_ops_in_current_epoch p" p "[]"] placed_known [OF assms]
  by (simp add: rewind_epoch_logged_def rewind_epoch_def)

section \<open>Two ops as one block\<close>

text \<open>The two halves of a free block are free, one after the other.\<close>

definition halves :: "GridShape \<Rightarrow> GridShape \<Rightarrow> GridShape" where
  "halves s1 s2 = mk_shape (rows s1) (columns s1 + columns s2)"

lemma free_first_half:
  assumes "free_rect env p c (if t then transposed (halves s1 s2) else halves s1 s2)"
  shows "free_rect env p c (if t then transposed s1 else s1)"
  using assms by (auto simp: free_rect_def halves_def transposed_def in_rect_def split: if_splits)

lemma free_second_half:
  assumes free: "free_rect env p c (if t then transposed (halves s1 s2) else halves s1 s2)"
    and same: "rows s1 = rows s2" and core: "\<And>i j. core_of pl i j \<longleftrightarrow> in_rect c q1 i j"
    and q1: "q1 = (if t then transposed s1 else s1)" and q2: "q2 = (if t then transposed s2 else s2)"
    and d: "d = (if t then mk_coord (row c + columns s1) (col c) else mk_coord (row c) (col c + columns s1))"
  shows "free_rect env (with_op pl grids p) d q2"
proof -
  have "grid_on env (with_op pl grids p) = grid_on env p" by (simp add: with_op_def grid_on_def fun_eq_iff)
  then show ?thesis
    using free same
    by (cases t) (auto simp: free_rect_def with_op_epochs core halves_def transposed_def in_rect_def d q1 q2)
qed

lemma place_two_keeps:
  assumes inv: "placer_inv env p" and shaped: "op_shaped env p op1 (halves s1 s2)"
    and some: "nonempty_shape s1" "nonempty_shape s2" and new: "map_of (ip_names p) op1 = None"
      "map_of (ip_names p) op2 = None" "op1 \<noteq> op2"
    and run: "place_two_ops_rowwise env op1 s1 op2 s2 tp cb p = Some (Inr (r, p'))"
  shows "placer_inv env p'"
proof -
  obtain used where su: "chips_setup p" "grid_size_ok p" "ip_valid p" and inv0: "chips_inv p used" "ops_inv env p"
    using inv by (rule placer_invE)
  have rows: "rows s1 = rows s2" using run by (auto simp: place_two_ops_rowwise_def res_simps tt_assert_def split: if_splits)
  have "columns s1 + columns s2 < 2 ^ 32"
  proof -
    have "columns (grid_on env p 0) + (columns s1 + columns s2) \<le> 2 ^ 32"
      "rows (grid_on env p 0) + (columns s1 + columns s2) \<le> 2 ^ 32" "0 < rows (grid_on env p 0)"
      using shaped grid_on_wf [OF su(2), of env 0]
      by (auto simp: op_shaped_def placeable_def small_shape_def halves_def transposed_def)
    then show ?thesis by linarith
  qed
  then have block: "mk_shape (rows s1) (add32 (columns s1) (columns s2)) = halves s1 s2"
    by (simp add: halves_def add32_exact)
  obtain q p1 where
    srch: "ip_place_one_op env op1 (bc_enable_auto_transposing_placement (ip_config p) \<and> tp) cb [(op1, halves s1 s2)] p =
      Some (Inr (q, p1))"
    using run by (auto simp: place_two_ops_rowwise_def res_simps Let_def block)
  from search_keeps [OF su(1) inv0 su(2) shaped srch] obtain used1 where
    inv1: "chips_inv p1 used1" "ops_inv env p1" and s1: "searched p p1"
    and res: "case q of None \<Rightarrow> True
      | Some pl \<Rightarrow> placed_well env p1 op1 (halves s1 s2) (dgp_grid_transpose pl) (dgp_placed_cores pl)" by blast
  note su1 = searched_inv [OF su s1]
  have names: "ip_names p1 = ip_names p" using s1 by (simp add: searched_def)
  show ?thesis
  proof (cases q)
    case None
    then have "p' = p1"
      using run srch by (auto simp: place_two_ops_rowwise_def res_simps Let_def block)
    then show ?thesis using su1 inv1 by (auto simp: placer_inv_def)
  next
    case (Some pl)
    define t cores c where "t = dgp_grid_transpose pl" and "cores = dgp_placed_cores pl" and "c = range_start cores"
    define q1 q2 where "q1 = (if t then transposed s1 else s1)" and "q2 = (if t then transposed s2 else s2)"
    define d where "d = (if t then mk_coord (row c + columns s1) (col c) else mk_coord (row c) (col c + columns s1))"
    have pw: "free_rect env p1 c (if t then transposed (halves s1 s2) else halves s1 s2)"
      "range_end cores = coord_add_shape c (if t then transposed (halves s1 s2) else halves s1 s2)"
      using res Some by (simp_all add: placed_well_def t_def cores_def c_def)
    have small: "row c + rows (if t then transposed (halves s1 s2) else halves s1 s2) < 2 ^ 32"
      "col c + columns (if t then transposed (halves s1 s2) else halves s1 s2) < 2 ^ 32"
      using pw(1) grid_on_wf [OF su1(2), of env "current_chip_id p1"] by (auto simp: free_rect_def)
    let ?cores1 = "cores\<lparr>range_end := mk_coord (add32 (row c) (rows q1)) (add32 (col c) (columns q1))\<rparr>"
    let ?cores2 = "cores\<lparr>range_start := mk_coord (sub32 (row (range_end cores)) (rows q2))
        (sub32 (col (range_end cores)) (columns q2))\<rparr>"
    have d2: "mk_coord (sub32 (row (range_end cores)) (rows q2)) (sub32 (col (range_end cores)) (columns q2)) = d"
      using small rows
      by (auto simp: pw(2) coord_add_shape_def add32_exact sub32_exact halves_def transposed_def q2_def d_def split: if_splits)
    have free1: "free_rect env p1 c q1" unfolding q1_def by (rule free_first_half [OF pw(1)])
    have small1: "row c + rows q1 < 2 ^ 32" "col c + columns q1 < 2 ^ 32"
      using free1 grid_on_wf [OF su1(2), of env "current_chip_id p1"] by (auto simp: free_rect_def)
    have ne: "nonempty_shape q1" "nonempty_shape q2"
      using some by (auto simp: q1_def q2_def nonempty_shape_def transposed_def)
    have stop1: "range_end ?cores1 = coord_add_shape (range_start ?cores1) q1"
      by (simp add: coord_add_shape_def c_def)
    have new1: "map_of (ip_names p1) op1 = None" using names new(1) by simp
    have "free_rect env p1 (range_start ?cores1) q1" using free1 by (simp add: c_def)
    from record_op_ok [OF inv1 su1(2) ne(1) this new1 stop1, of t] obtain grids1 where
      rec1: "record_op op1 t ?cores1 q1 p1 = Inr (with_op (placed_at op1 t ?cores1 p1) grids1 p1)"
      and ops1: "ops_inv env (with_op (placed_at op1 t ?cores1 p1) grids1 p1)" by blast
    let ?pl1 = "placed_at op1 t ?cores1 p1"
    let ?p2 = "with_op ?pl1 grids1 p1"
    have kept: "same_setup p1 ?p2" by simp
    have inv2: "chips_inv ?p2 used1" using inv1(1) by (simp add: chips_inv_with_op)
    have size2: "grid_size_ok ?p2" using su1(2) by (simp add: setup_congs [OF kept])
    have core: "core_of ?pl1 i j \<longleftrightarrow> in_rect c q1 i j" for i j
      by (rule core_of_rect [OF _ _ small1]) (simp_all add: placed_at_def c_def coord_add_shape_def)
    have "free_rect env ?p2 d q2" by (rule free_second_half [OF pw(1) rows core q1_def q2_def d_def])
    then have free2: "free_rect env ?p2 (range_start ?cores2) q2" by (simp add: d2)
    have stop2: "range_end ?cores2 = coord_add_shape (range_start ?cores2) q2"
      using small rows
      by (auto simp: d2 pw(2) coord_add_shape_def add32_exact sub32_exact halves_def transposed_def q2_def d_def split: if_splits)
    have new2: "map_of (ip_names ?p2) op2 = None" using names new(2,3) by simp
    from record_op_ok [OF inv2 ops1 size2 ne(2) free2 new2 stop2, of t] obtain grids2 where
      rec2: "record_op op2 t ?cores2 q2 ?p2 = Inr (with_op (placed_at op2 t ?cores2 ?p2) grids2 ?p2)"
      and ops2: "ops_inv env (with_op (placed_at op2 t ?cores2 ?p2) grids2 ?p2)" by blast
    let ?p3 = "with_op (placed_at op2 t ?cores2 ?p2) grids2 ?p2"
    have "p' = ?p3"
      using run srch Some rec1 rec2
      by (auto simp: place_two_ops_rowwise_def res_simps Let_def block t_def [symmetric] cores_def [symmetric]
          c_def [symmetric] q1_def [symmetric] q2_def [symmetric])
    moreover have kept3: "same_setup p1 ?p3" by simp
    have "chips_setup ?p3" "grid_size_ok ?p3" "ip_valid ?p3"
      unfolding chips_setup_cong [OF kept3] setup_congs(3) [OF kept3] using su1 by simp_all
    ultimately show ?thesis using inv2 ops2 by (auto simp: placer_inv_def chips_inv_with_op)
  qed
qed

section \<open>Rewinding to an op\<close>

lemma set_overrides_inv [simp]: "placer_inv env (set_overrides ov p) = placer_inv env p"
proof -
  have "grid_on env (set_overrides ov p) = grid_on env p" by (simp add: set_overrides_def grid_on_def fun_eq_iff)
  moreover have "epoch_ops (set_overrides ov p) = epoch_ops p" by (simp add: set_overrides_def epoch_ops_def fun_eq_iff)
  ultimately show ?thesis
    by (simp add: placer_inv_def chips_setup_def grid_size_ok_def chips_inv_def small_epochs_def block_def ops_inv_def
        records_ok_def placement_ok_def epoch_open_def names_of_def) (simp add: set_overrides_def)
qed

text \<open>The grids are far from the 32-bit limit, so no placed range can wrap when it is placed again.\<close>

definition small_grid :: "InteractivePlacer \<Rightarrow> bool" where
  "small_grid p \<longleftrightarrow> rows (bc_grid_size (ip_config p)) < 2 ^ 31 \<and> columns (bc_grid_size (ip_config p)) < 2 ^ 31"

definition small_cores :: "CoordRange \<Rightarrow> bool" where
  "small_cores c \<longleftrightarrow> nonempty_range c \<and> row (range_end c) < 2 ^ 31 \<and> col (range_end c) < 2 ^ 31"

lemma grid_on_small: "small_grid p \<Longrightarrow> rows (grid_on env p c) < 2 ^ 31 \<and> columns (grid_on env p c) < 2 ^ 31"
  by (simp add: small_grid_def grid_on_def)

lemma replay_shaped:
  assumes "small_grid p" "small_cores c"
    and "map_of (op_name_to_placer_overrides (ip_config p)) op = Some ov" "grid_start ov = Some (range_start c)"
    and u: "u = (if t then range_transpose c else c)"
  shows "op_shaped env p op (mk_shape (size_r u) (size_c u))"
proof -
  have c: "row (range_start c) < row (range_end c)" "col (range_start c) < col (range_end c)"
    "row (range_end c) < 2 ^ 31" "col (range_end c) < 2 ^ 31" using assms(2) by (simp_all add: small_cores_def nonempty_range_def)
  define h w where "h = row (range_end c) - row (range_start c)" and "w = col (range_end c) - col (range_start c)"
  have hw: "size_r c = h" "size_c c = w" "0 < h" "0 < w" "h < 2 ^ 31" "w < 2 ^ 31"
    using c by (simp_all add: size_r_def size_c_def sub32_exact h_def w_def)
  have u': "size_r u = (if t then w else h)" "size_c u = (if t then h else w)"
    using c hw unfolding u
    by (simp_all add: range_transpose_def Let_def size_r_def [of "c\<lparr>range_end := _\<rparr>"] size_c_def [of "c\<lparr>range_end := _\<rparr>"]
        add32_exact sub32_exact)
  have "placeable (rows (grid_on env p k)) (columns (grid_on env p k)) (mk_shape (size_r u) (size_c u))" for k
    using grid_on_small [OF assms(1), of env k] hw
    by (auto simp: placeable_def nonempty_shape_def small_shape_def transposed_def u')
  moreover have "override_no_wrap (op_name_to_placer_overrides (ip_config p)) op (mk_shape (size_r u) (size_c u))"
    using assms(3,4) c hw by (auto simp: override_no_wrap_def no_wrap_both_def no_wrap_def transposed_def u')
  ultimately show ?thesis by (simp add: op_shaped_def)
qed

lemma replace_op_keeps:
  assumes inv: "placer_inv env p" and small: "small_grid p" "small_cores (placed_cores pl)"
    and new: "map_of (ip_names p) op = None" and run: "replace_op env op pl p = Some (Inr p')"
  shows "placer_inv env p' \<and> small_grid p' \<and> (\<forall>x. x \<noteq> op \<longrightarrow> map_of (ip_names p') x = map_of (ip_names p) x)"
proof -
  define ov where "ov = AList.update op \<lparr>grid_start = Some (range_start (placed_cores pl)), transpose_op = grid_transpose pl,
      override_chip_id_opt = Some (placement_chip_id pl), temporal_epoch_break = False\<rparr>
      (AList.delete op (op_name_to_placer_overrides (ip_config p)))"
  define u where "u = (if grid_transpose pl then range_transpose (placed_cores pl) else placed_cores pl)"
  let ?q = "set_overrides ov p"
  obtain placed p1 ov3 where
    pl: "place_op env op (mk_shape (size_r u) (size_c u)) False False ?q = Some (Inr (placed, p1))"
    and p': "p' = set_overrides ov3 p1"
    using run by (auto simp: replace_op_def Let_def res_simps ov_def u_def)
  have "op_shaped env ?q op (mk_shape (size_r u) (size_c u))"
    using small by (intro replay_shaped [OF _ _ _ _ u_def])
      (auto simp: set_overrides_def small_grid_def ov_def update_conv)
  moreover have "map_of (ip_names ?q) op = None" using new by (simp add: set_overrides_def)
  ultimately have "placer_inv env p1 \<and> same_setup ?q p1 \<and> (\<forall>x. x \<noteq> op \<longrightarrow> map_of (ip_names p1) x = map_of (ip_names ?q) x)"
    using place_op_keeps [OF _ _ _ pl] inv by simp
  then show ?thesis
    using small(1) by (auto simp: p' small_grid_def same_setup_def) (auto simp: set_overrides_def)
qed

lemma replay_keeps:
  assumes "replay_to env op_name prev xs p = Some (Inr (r, p'))" "placer_inv env p" "small_grid p"
    and "distinct (map fst xs)" "\<forall>(x, pl) \<in> set xs. map_of (ip_names p) x = None \<and> small_cores (placed_cores pl)"
  shows "placer_inv env p'"
  using assms
proof (induction xs arbitrary: prev p)
  case (Cons x xs)
  show ?case
  proof (cases "fst x = op_name")
    case True
    then show ?thesis using Cons.prems(1,2) by simp
  next
    case False
    then obtain p1 where p1: "replace_op env (fst x) (snd x) p = Some (Inr p1)"
      "replay_to env op_name (Some x) xs p1 = Some (Inr (r, p'))"
      using Cons.prems(1) by (auto simp: res_simps)
    have "map_of (ip_names p) (fst x) = None" "small_cores (placed_cores (snd x))"
      using Cons.prems(5) by (auto simp: case_prod_beta)
    from replace_op_keeps [OF Cons.prems(2,3) this(2,1) p1(1)] have
      keep: "placer_inv env p1" "small_grid p1" "\<forall>y. y \<noteq> fst x \<longrightarrow> map_of (ip_names p1) y = map_of (ip_names p) y" by blast+
    have "fst x \<notin> fst ` set xs" using Cons.prems(4) by simp
    then have "\<forall>(y, pl) \<in> set xs. map_of (ip_names p1) y = None \<and> small_cores (placed_cores pl)"
      using Cons.prems(5) keep(3) by (fastforce simp: image_iff)
    then show ?thesis using Cons.IH [OF p1(2) keep(1,2)] Cons.prems(4) by simp
  qed
qed simp

lemma rewind_to_keeps:
  assumes inv: "placer_inv env p" and small: "small_grid p" and run: "rewind_to env op_name p = Some (Inr (r, p'))"
  shows "placer_inv env p'"
proof -
  obtain used where ops: "ops_inv env p" using inv by (rule placer_invE)
  let ?xs = "placed_ops_in_current_epoch p"
  from rewind_epoch_ok [OF inv] obtain p1 where
    p1: "rewind_epoch env p = Inr p1" "fresh_epoch env p1" "same_setup p p1"
      "map_of (ip_names p1) = map_of (ip_names p) |` (- set ?xs)" by blast
  let ?log = "map (\<lambda>x. (x, the (map_of (ip_names p) x))) ?xs"
  have "replay_to env op_name None ?log p1 = Some (Inr (r, p'))"
    using run p1(1) by (simp add: rewind_to_def rewind_logged_eq [OF inv])
  moreover have "placer_inv env p1" using p1(2) by (simp add: fresh_epoch_def)
  moreover have "small_grid p1" using small p1(3) by (simp add: small_grid_def same_setup_def)
  moreover have "distinct (map fst ?log)" using placed_known(1) [OF inv] by (simp add: comp_def)
  moreover have "small_cores (placed_cores (the (map_of (ip_names p) x)))" if x: "x \<in> set ?xs" for x
  proof -
    obtain pl where pl: "map_of (ip_names p) x = Some pl" using placed_known(2) [OF inv x] by blast
    have rec: "records_ok env p (Suc (current_epoch_index p))" using ops by (simp add: ops_inv_def)
    from records_okD(3) [OF rec pl] records_okD(1) [OF rec] have "placement_ok env p (global_epoch_id pl) pl" by blast
    then show ?thesis
      using grid_on_small [OF small, of env "placement_chip_id pl"] pl
      by (auto simp: placement_ok_def on_device_def small_cores_def)
  qed
  then have "\<forall>(x, pl) \<in> set ?log. map_of (ip_names p1) x = None \<and> small_cores (placed_cores pl)"
    by (auto simp: p1(4) restrict_map_def)
  ultimately show ?thesis by (rule replay_keeps)
qed

section \<open>Construction\<close>

text \<open>The configurations considered: at most one of the chips has MMIO (see \<open>chips_setup\<close>).\<close>

definition usable_config :: "Env \<Rightarrow> BalancerConfig \<Rightarrow> nat list \<Rightarrow> bool" where
  "usable_config env cfg chips \<longleftrightarrow>
     (length (bc_chip_ids cfg) = 1 \<or> is_wormhole_b0 (bc_device_config cfg)) \<and>
     (if \<not> PYBUDA_WORMHOLE_PIPELINED_PLACER env \<and> is_wormhole_b0 (bc_device_config cfg)
      then apply_chip_placement_policy (bc_device_config cfg) (bc_chip_placement_policy cfg) (bc_chip_ids cfg) = Inr chips
      else chips = [0]) \<and>
     distinct chips \<and> chips \<noteq> [] \<and> INVALID_CHIP_ID \<notin> set chips \<and> length chips < 2 ^ 32 \<and>
     length (filter (\<lambda>c. c \<in> set chips) (chips_with_mmio (bc_device_config cfg))) \<le> 1 \<and>
     0 < rows (bc_grid_size cfg) \<and> rows (bc_grid_size cfg) < 2 ^ 32 \<and> columns (bc_grid_size cfg) < 2 ^ 32"

lemma construction_ok:
  assumes cfg: "usable_config env cfg chips"
  shows "\<exists>p. mk_interactive_placer env cfg outs = Inr p \<and> fresh_epoch env p \<and> ip_names p = [] \<and>
     sorted_chip_ids p = chips \<and> ip_config p = cfg \<and> ip_output_ops p = outs \<and> current_temporal_epoch_id p = 0"
proof -
  define p0 where "p0 = \<lparr>current_epoch_index = 0, current_epoch_type = Forward, ip_valid = True, sorted_chip_ids = chips,
          remaining_chip_ids = [], current_chip_id = 0, current_temporal_epoch_id = 0, current_spatial_epoch_id = 0,
          ip_chips_with_mmio = chips_with_mmio (bc_device_config cfg), is_current_chip_id_mmio = False,
          ip_config = cfg, ip_names = [], ip_chips = [], ip_subgraphs = [], ip_epochs = [],
          ip_grids = mk_epoch_grids (rows (bc_grid_size cfg)) (columns (bc_grid_size cfg)), ip_infos = [],
          placed_ops_in_current_epoch = [], visited_ops_in_current_epoch = [], ip_output_ops = outs\<rparr>"
  define p1 where "p1 = p0\<lparr>remaining_chip_ids := chips\<rparr>"
  have fields: "sorted_chip_ids p1 = chips" "remaining_chip_ids p1 = chip_order env p1" "ip_config p1 = cfg"
    "current_epoch_index p1 = 0" "ip_names p1 = []" "ip_output_ops p1 = outs" "current_temporal_epoch_id p1 = 0"
    "current_spatial_epoch_id p1 = 0" "ip_chips p1 = []" "ip_valid p1"
    "ip_chips_with_mmio p1 = chips_with_mmio (bc_device_config cfg)"
    by (simp_all add: p1_def p0_def chip_order_def)
  have mk: "mk_interactive_placer env cfg outs =
      res_bind (take_chip None p1) (\<lambda>p2. Inr (register_current_epoch env True p2))"
    using cfg by (simp add: mk_interactive_placer_def usable_config_def init_epoch_def next_chip_id_def repopulate_def
        p0_def p1_def split: if_splits)
  have su: "chips_setup p1" "grid_size_ok p1"
    using cfg by (simp_all add: chips_setup_def grid_size_ok_def fields usable_config_def)
  have "between p1 []"
    using cfg unfolding between_def by (simp add: fields small_epochs_def usable_config_def block_def chip_order_def)
  moreover have "records_ok env p1 (current_epoch_index p1)"
    by (simp add: records_ok_def fields)
  ultimately obtain p where
    "res_bind (take_chip None p1) (\<lambda>p2. Inr (register_current_epoch env True p2)) = Inr p" "fresh_epoch env p"
    "same_setup p1 p" "ip_names p = ip_names p1" "current_temporal_epoch_id p = current_temporal_epoch_id p1"
    using open_temporal_epoch [OF su fields(10) _ _ fields(2)] by blast
  then show ?thesis using mk fields by (intro exI [of _ p]) (simp add: same_setup_def)
qed

section \<open>Runs\<close>

text \<open>
  The calls of a client that places every op at most once, and asks for no more than \<open>2 ^ 32\<close> epochs: all
  operations of the class that change it, up to the commit. A block of two ops has the summed columns, and
  \<open>rewind_to\<close> is for grids of less than \<open>2 ^ 31\<close> rows and columns.
\<close>

inductive ip_run :: "Env \<Rightarrow> InteractivePlacer \<Rightarrow> bool" for env where
  run_start: "usable_config env cfg chips \<Longrightarrow> mk_interactive_placer env cfg outs = Inr p \<Longrightarrow> ip_run env p"
| run_place: "ip_run env p \<Longrightarrow> op_placeable env p op s \<Longrightarrow> map_of (ip_names p) op = None \<Longrightarrow>
    place_op env op s tp chip_break p = Some (Inr (r, p')) \<Longrightarrow> ip_run env p'"
| run_two: "ip_run env p \<Longrightarrow> op_shaped env p op1 (halves s1 s2) \<Longrightarrow> nonempty_shape s1 \<Longrightarrow> nonempty_shape s2 \<Longrightarrow>
    map_of (ip_names p) op1 = None \<Longrightarrow> map_of (ip_names p) op2 = None \<Longrightarrow> op1 \<noteq> op2 \<Longrightarrow>
    place_two_ops_rowwise env op1 s1 op2 s2 tp chip_break p = Some (Inr (r, p')) \<Longrightarrow> ip_run env p'"
| run_next: "ip_run env p \<Longrightarrow> (current_temporal_epoch_id p + 2) * chip_count p < 2 ^ 32 \<Longrightarrow>
    next_epoch env ty p = Inr (k, p') \<Longrightarrow> ip_run env p'"
| run_rewind: "ip_run env p \<Longrightarrow> rewind_epoch env p = Inr p' \<Longrightarrow> ip_run env p'"
| run_rewind_logged: "ip_run env p \<Longrightarrow> rewind_epoch_logged env p = Inr (log, p') \<Longrightarrow> ip_run env p'"
| run_rewind_to: "ip_run env p \<Longrightarrow> small_grid p \<Longrightarrow> rewind_to env op p = Some (Inr (r, p')) \<Longrightarrow> ip_run env p'"

lemma fresh_epoch_inv: "fresh_epoch env p \<Longrightarrow> placer_inv env p"
  by (simp add: fresh_epoch_def)

lemma ip_run_inv: "ip_run env p \<Longrightarrow> placer_inv env p"
proof (induction rule: ip_run.induct)
  case (run_start cfg chips outs p)
  then show ?case using construction_ok [of env cfg chips outs] fresh_epoch_inv by auto
next
  case (run_place p op s tp chip_break r p')
  then show ?case using place_op_outcome [of env p op s tp chip_break] by auto
next
  case (run_two p op1 s1 s2 op2 tp chip_break r p')
  show ?case by (rule place_two_keeps [OF run_two.IH run_two.hyps(2-8)])
next
  case (run_rewind_to p op r p')
  show ?case by (rule rewind_to_keeps [OF run_rewind_to.IH run_rewind_to.hyps(2,3)])
next
  case (run_next p ty k p')
  then show ?case using next_epoch_ok [of env p ty] fresh_epoch_inv by auto
next
  case (run_rewind p p')
  then show ?case using rewind_epoch_ok [of env p] fresh_epoch_inv by auto
next
  case (run_rewind_logged p log p')
  then show ?case using rewind_epoch_ok [of env p] rewind_logged_eq [of env p] fresh_epoch_inv by auto
qed

text \<open>A sequence of placements in one temporal epoch, with the ops that found cores.\<close>

inductive ip_places :: "Env \<Rightarrow> InteractivePlacer \<Rightarrow> string list \<Rightarrow> InteractivePlacer \<Rightarrow> bool" for env p where
  places_none: "ip_places env p [] p"
| places_one: "ip_places env p ops q \<Longrightarrow> op_placeable env q op s \<Longrightarrow> map_of (ip_names q) op = None \<Longrightarrow>
    place_op env op s tp chip_break q = Some (Inr (r, q')) \<Longrightarrow>
    ip_places env p (case r of None \<Rightarrow> ops | Some _ \<Rightarrow> ops @ [op]) q'"

lemma ip_places_ok:
  assumes "ip_places env p ops p'" "placer_inv env p" "placed_ops_in_current_epoch p = []"
  shows "placer_inv env p' \<and> placed_ops_in_current_epoch p' = ops \<and>
     map_of (ip_names p') |` (- set ops) = map_of (ip_names p) \<and> set ops \<inter> dom (map_of (ip_names p)) = {} \<and>
     current_temporal_epoch_id p' = current_temporal_epoch_id p"
  using assms
proof (induction rule: ip_places.induct)
  case (places_one ops q op s tp chip_break r q')
  then have q: "placer_inv env q" "placed_ops_in_current_epoch q = ops"
    "map_of (ip_names q) |` (- set ops) = map_of (ip_names p)" "set ops \<inter> dom (map_of (ip_names p)) = {}"
    "current_temporal_epoch_id q = current_temporal_epoch_id p" by simp_all
  have new: "op \<notin> dom (map_of (ip_names p))"
    using q(3) places_one.hyps(3) by (metis domIff restrict_map_def)
  from place_op_outcome [OF q(1) places_one.hyps(2,3), of tp chip_break] places_one.hyps(4)
  have res: "placer_inv env q'" "current_temporal_epoch_id q' = current_temporal_epoch_id q"
    "case r of None \<Rightarrow> remaining_chip_ids q' = [] \<and> ip_names q' = ip_names q \<and>
          placed_ops_in_current_epoch q' = placed_ops_in_current_epoch q
      | Some cores \<Rightarrow> op_recorded q q' op s cores" by auto
  show ?case
  proof (cases r)
    case None
    then show ?thesis using q res by simp
  next
    case (Some cores)
    then obtain pl where pl: "map_of (ip_names q') = (map_of (ip_names q))(op \<mapsto> pl)"
      "placed_ops_in_current_epoch q' = ops @ [op]" using res(3) q(2) by (auto simp: op_recorded_def)
    have "map_of (ip_names q') |` (- set (ops @ [op])) = map_of (ip_names p)"
      using q(3) new by (auto simp: pl(1) restrict_map_def fun_eq_iff split: if_splits)
    then show ?thesis using Some q res pl(2) new by auto
  qed
qed auto

end
