(* ===== verification/Interactive_Spec.thy ===== *)
theory Interactive_Spec
  imports Interactive_Run
begin

text \<open>
  The properties of the interactive placer: the invariant of its runs, the outcome of placing an op,
  of rewinding, of the step to the next temporal epoch and of the commit.
\<close>

section \<open>Runs\<close>

lemma placed_apart:
  assumes rec: "records_ok env p N" and x: "map_of (ip_names p) x = Some a" and y: "map_of (ip_names p) y = Some b"
    and ne: "x \<noteq> y" and same: "global_epoch_id a = global_epoch_id b"
  shows "\<not> share_core a b"
proof -
  note A = records_okD(3) [OF rec x] and B = records_okD(3) [OF rec y]
  then have "a \<noteq> b" using ne by auto
  moreover have "sorted_wrt (\<lambda>a b. \<not> share_core a b) (epoch_ops p (global_epoch_id a))"
    using records_okD(2) [OF rec] A by simp
  moreover obtain i j where "i < length (epoch_ops p (global_epoch_id a))" "a = epoch_ops p (global_epoch_id a) ! i"
    "j < length (epoch_ops p (global_epoch_id a))" "b = epoch_ops p (global_epoch_id a) ! j"
    using A B same by (metis in_set_conv_nth)
  ultimately have "\<not> share_core a b \<or> \<not> share_core b a"
    by (metis nat_neq_iff sorted_wrt_iff_nth_less)
  then show ?thesis by (auto simp: share_core_def)
qed

lemma run_legal:
  assumes "placer_inv env p"
  shows "(\<forall>x a. map_of (ip_names p) x = Some a \<longrightarrow> placement_name a = x \<and> global_epoch_id a \<le> current_epoch_index p \<and>
       map_of (ip_chips p) (global_epoch_id a) = Some (placement_chip_id a) \<and>
       on_device (rows (grid_on env p (placement_chip_id a))) (columns (grid_on env p (placement_chip_id a))) a \<and>
       nonempty_range (placed_cores a)) \<and>
     (\<forall>x y a b. map_of (ip_names p) x = Some a \<and> map_of (ip_names p) y = Some b \<and> x \<noteq> y \<and>
       global_epoch_id a = global_epoch_id b \<longrightarrow> \<not> share_core a b) \<and>
     (\<forall>t < current_temporal_epoch_id p. \<exists>cs. mset cs = mset (sorted_chip_ids p) \<and>
       (\<forall>j < length cs. map_of (ip_chips p) (t * length (sorted_chip_ids p) + j) = Some (cs ! j)))"
proof -
  obtain used where ci: "chips_inv p used" and ops: "ops_inv env p" using assms by (rule placer_invE)
  have rec: "records_ok env p (Suc (current_epoch_index p))" using ops by (simp add: ops_inv_def)
  have "placement_name a = x \<and> global_epoch_id a \<le> current_epoch_index p \<and>
      map_of (ip_chips p) (global_epoch_id a) = Some (placement_chip_id a) \<and>
      on_device (rows (grid_on env p (placement_chip_id a))) (columns (grid_on env p (placement_chip_id a))) a \<and>
      nonempty_range (placed_cores a)"
    if "map_of (ip_names p) x = Some a" for x a
    using records_okD(3) [OF rec that] records_okD(1) [OF rec, of "global_epoch_id a" a]
    by (simp add: placement_ok_def less_Suc_eq_le)
  moreover have "\<exists>cs. mset cs = mset (sorted_chip_ids p) \<and>
      (\<forall>j < length cs. map_of (ip_chips p) (t * length (sorted_chip_ids p) + j) = Some (cs ! j))"
    if "t < current_temporal_epoch_id p" for t
    using chips_invD(5) [OF ci] that unfolding block_def by blast
  ultimately show ?thesis using placed_apart [OF rec] by blast
qed

text \<open>
  C4 (invariant). On a device of which at most one chip has MMIO, after any calls of a client before the
  commit (placing an op or a block of two ops, new epochs, the three kinds of rewinds) that return and in
  which no op is placed while it is placed already, shapes are not empty, overridden start cores do not wrap
  around, an output op is not sent to a chip without MMIO by an override, the epochs stay below \<open>2 ^ 32\<close>, and
  \<open>rewind_to\<close> is used for grids below \<open>2 ^ 31\<close>: every op that is placed is recorded under its name, on the
  chip its epoch runs on, on at least one core and inside the grid of that chip; two ops of one epoch share
  no core; and the epochs of every earlier temporal epoch run on every chip exactly once. (With two MMIO chips
  this is false: \<open>two_mmio_chips_break_the_index\<close>.)
\<close>

theorem interactive_runs_stay_legal:
  assumes "ip_run env p"
  shows "(\<forall>x a. map_of (ip_names p) x = Some a \<longrightarrow> placement_name a = x \<and> global_epoch_id a \<le> current_epoch_index p \<and>
       map_of (ip_chips p) (global_epoch_id a) = Some (placement_chip_id a) \<and>
       on_device (rows (grid_on env p (placement_chip_id a))) (columns (grid_on env p (placement_chip_id a))) a \<and>
       nonempty_range (placed_cores a)) \<and>
     (\<forall>x y a b. map_of (ip_names p) x = Some a \<and> map_of (ip_names p) y = Some b \<and> x \<noteq> y \<and>
       global_epoch_id a = global_epoch_id b \<longrightarrow> \<not> share_core a b) \<and>
     (\<forall>t < current_temporal_epoch_id p. \<exists>cs. mset cs = mset (sorted_chip_ids p) \<and>
       (\<forall>j < length cs. map_of (ip_chips p) (t * length (sorted_chip_ids p) + j) = Some (cs ! j)))"
  by (rule run_legal [OF ip_run_inv [OF assms]])

text \<open>A configuration with two chips, the second with MMIO, and the run that places one op on it.\<close>

definition two_chip_config :: "nat list \<Rightarrow> nat list \<Rightarrow> BalancerConfig" where
  "two_chip_config chips mmio =
     \<lparr>bc_device_config = \<lparr>arch = WORMHOLE_B0, chips_with_mmio = mmio, chip_coord_to_chip_id = [], galaxy_shelves = []\<rparr>,
      bc_grid_size = mk_shape 10 10, bc_chip_ids = chips, bc_chip_placement_policy = MMIO_LAST,
      bc_output_queues_on_host = True, op_name_to_placer_overrides = [], bc_enable_auto_transposing_placement = False\<rparr>"

lemma two_chip_usable: "usable_config sample_env (two_chip_config [0, 1] [1]) [0, 1]"
  by (simp add: usable_config_def two_chip_config_def sample_env_def is_wormhole_b0_def
      apply_chip_placement_policy_def INVALID_CHIP_ID_def)

lemma two_chip_start:
  obtains p where "mk_interactive_placer sample_env (two_chip_config [0, 1] [1]) [''out''] = Inr p"
    "ip_run sample_env p" "fresh_epoch sample_env p" "ip_names p = []" "sorted_chip_ids p = [0, 1]"
    "ip_config p = two_chip_config [0, 1] [1]" "ip_output_ops p = [''out'']" "current_temporal_epoch_id p = 0"
  using construction_ok [OF two_chip_usable, of "[''out'']"] run_start [OF two_chip_usable] by blast

lemma two_chip_placeable:
  assumes "ip_config p = two_chip_config [0, 1] [1]"
  shows "op_placeable sample_env p op (mk_shape 2 2)"
  using assms
  by (simp add: op_placeable_def grid_on_def sample_env_def two_chip_config_def placeable_def nonempty_shape_def
      small_shape_def override_no_wrap_def ip_override_chip_def transposed_def)

text \<open>The states after placing an op and after moving on to the next temporal epoch.\<close>

lemma two_chip_place:
  assumes "ip_run sample_env p" "ip_config p = two_chip_config [0, 1] [1]" "map_of (ip_names p) op = None"
  obtains r p' where "place_op sample_env op (mk_shape 2 2) False False p = Some (Inr (r, p'))" "ip_run sample_env p'"
    "ip_config p' = two_chip_config [0, 1] [1]" "sorted_chip_ids p' = sorted_chip_ids p"
    "current_temporal_epoch_id p' = current_temporal_epoch_id p"
proof -
  from place_op_outcome [OF ip_run_inv [OF assms(1)] two_chip_placeable [OF assms(2)] assms(3), of False False]
  obtain r p' where *: "place_op sample_env op (mk_shape 2 2) False False p = Some (Inr (r, p'))" "same_setup p p'"
    "current_temporal_epoch_id p' = current_temporal_epoch_id p" by blast
  moreover have "ip_run sample_env p'"
    using run_place [OF assms(1) two_chip_placeable [OF assms(2)] assms(3) *(1)] .
  ultimately show thesis using that [of r p'] assms(2) by (simp add: same_setup_def)
qed

theorem interactive_runs_stay_legal_witness:
  "\<exists>p p' r. mk_interactive_placer sample_env (two_chip_config [0, 1] [1]) [''out''] = Inr p \<and>
     place_op sample_env ''a'' (mk_shape 2 2) False False p = Some (Inr (r, p')) \<and>
     (\<forall>x a. map_of (ip_names p') x = Some a \<longrightarrow> map_of (ip_chips p') (global_epoch_id a) = Some (placement_chip_id a))"
proof -
  obtain p where p: "mk_interactive_placer sample_env (two_chip_config [0, 1] [1]) [''out''] = Inr p"
    "ip_run sample_env p" "ip_names p = []" "ip_config p = two_chip_config [0, 1] [1]" using two_chip_start by blast
  obtain r p' where p': "place_op sample_env ''a'' (mk_shape 2 2) False False p = Some (Inr (r, p'))" "ip_run sample_env p'"
    by (rule two_chip_place [OF p(2,4), of "''a''"]) (simp_all add: p(3))
  show ?thesis using interactive_runs_stay_legal [OF p'(2)] p(1) p'(1) by blast
qed

section \<open>Placing and rewinding\<close>

text \<open>
  C8 (liveness). On a device of which at most one chip has MMIO, after any calls of a client before the commit
  (those of \<open>ip_run\<close>), placing an op that is not placed yet, of a nonempty shape, with an overridden start
  core that does not wrap around and, for an output op, with no override to a chip without MMIO
  (\<open>op_placeable\<close>), returns: either the op is recorded on the chip the placer then is on, which is that of its override and has MMIO for an output op, on cores of
  its shape or, turned, of the transposed shape; or no chip of the temporal epoch is left, and
  nothing was placed.
\<close>

theorem place_op_correct:
  assumes "ip_run env p" "op_placeable env p op s" "map_of (ip_names p) op = None"
  shows "\<exists>r p'. place_op env op s tp chip_break p = Some (Inr (r, p')) \<and>
     current_temporal_epoch_id p' = current_temporal_epoch_id p \<and> current_epoch_index p \<le> current_epoch_index p' \<and>
     (case r of
        None \<Rightarrow> remaining_chip_ids p' = [] \<and> ip_names p' = ip_names p \<and>
          placed_ops_in_current_epoch p' = placed_ops_in_current_epoch p
      | Some cores \<Rightarrow> chip_takes p' op \<and> placed_ops_in_current_epoch p' = placed_ops_in_current_epoch p @ [op] \<and>
          (\<exists>turned. map_of (ip_names p') = (map_of (ip_names p))(op \<mapsto>
               \<lparr>placement_id = 0, placement_name = op, placement_chip_id = current_chip_id p',
                global_epoch_id = current_epoch_index p', grid_transpose = turned, placed_cores = cores\<rparr>) \<and>
             range_end cores = coord_add_shape (range_start cores) (if turned then transposed s else s)))"
proof -
  from place_op_outcome [OF ip_run_inv [OF assms(1)] assms(2,3), of tp chip_break] obtain r p' where
    *: "place_op env op s tp chip_break p = Some (Inr (r, p'))"
      "current_temporal_epoch_id p' = current_temporal_epoch_id p" "current_epoch_index p \<le> current_epoch_index p'"
    and res: "case r of None \<Rightarrow> remaining_chip_ids p' = [] \<and> ip_names p' = ip_names p \<and>
          placed_ops_in_current_epoch p' = placed_ops_in_current_epoch p
      | Some cores \<Rightarrow> op_recorded p p' op s cores" by blast
  show ?thesis
    using * res by (intro exI [of _ r] exI [of _ p']) (cases r; simp add: op_recorded_def placed_at_def)
qed

theorem place_op_correct_witness:
  "\<exists>p r p'. mk_interactive_placer sample_env (two_chip_config [0, 1] [1]) [''out''] = Inr p \<and>
     place_op sample_env ''out'' (mk_shape 2 2) False False p = Some (Inr (r, p')) \<and>
     (case r of None \<Rightarrow> remaining_chip_ids p' = [] | Some cores \<Rightarrow> chip_takes p' ''out'')"
proof -
  obtain p where p: "mk_interactive_placer sample_env (two_chip_config [0, 1] [1]) [''out''] = Inr p"
    "ip_run sample_env p" "ip_names p = []" "ip_config p = two_chip_config [0, 1] [1]" using two_chip_start by blast
  have new: "map_of (ip_names p) ''out'' = None" by (simp add: p(3))
  from place_op_correct [OF p(2) two_chip_placeable [OF p(4)] new, of False False] obtain r p' where
    "place_op sample_env ''out'' (mk_shape 2 2) False False p = Some (Inr (r, p'))"
    "case r of None \<Rightarrow> remaining_chip_ids p' = [] | Some cores \<Rightarrow> chip_takes p' ''out''"
    by (force split: option.splits)
  then show ?thesis using p(1) by blast
qed

text \<open>
  The logged rewind leaves the same state as the fast one, and returns the
  placements of the ops it undoes in the order in which they were placed.
\<close>

theorem rewind_logged_is_rewind:
  assumes "ip_run env p"
  shows "rewind_epoch_logged env p =
     res_bind (rewind_epoch env p) (\<lambda>p'.
       Inr (map (\<lambda>x. (x, the (map_of (ip_names p) x))) (placed_ops_in_current_epoch p), p'))"
  by (rule rewind_logged_eq [OF ip_run_inv [OF assms]])

theorem rewind_logged_is_rewind_witness:
  "\<exists>p p' q. mk_interactive_placer sample_env (two_chip_config [0, 1] [1]) [''out''] = Inr p \<and>
     (\<exists>r. place_op sample_env ''a'' (mk_shape 2 2) False False p = Some (Inr (r, p'))) \<and>
     rewind_epoch sample_env p' = Inr q \<and>
     rewind_epoch_logged sample_env p' =
       Inr (map (\<lambda>x. (x, the (map_of (ip_names p') x))) (placed_ops_in_current_epoch p'), q)"
proof -
  obtain p where p: "mk_interactive_placer sample_env (two_chip_config [0, 1] [1]) [''out''] = Inr p"
    "ip_run sample_env p" "ip_names p = []" "ip_config p = two_chip_config [0, 1] [1]" using two_chip_start by blast
  obtain r p' where p': "place_op sample_env ''a'' (mk_shape 2 2) False False p = Some (Inr (r, p'))" "ip_run sample_env p'"
    by (rule two_chip_place [OF p(2,4), of "''a''"]) (simp_all add: p(3))
  obtain q where "rewind_epoch sample_env p' = Inr q" using rewind_epoch_ok [OF ip_run_inv [OF p'(2)]] by blast
  then show ?thesis using p(1) p'(1) rewind_logged_is_rewind [OF p'(2)]
    by (intro exI [of _ p] exI [of _ p'] exI [of _ q]) auto
qed

text \<open>
  C29 (roundtrip). On a device of which at most one chip has MMIO (\<open>ip_run\<close>), rewinding undoes any sequence
  of placements in a temporal epoch that was opened and has no op yet: the map of placed ops is again the one
  before them, the placer is back on the first chip and the first epoch of the temporal epoch, and
  all cores of that epoch are free.
\<close>

theorem rewind_undoes_placements:
  assumes "ip_run env p" "placed_ops_in_current_epoch p = []" "ip_places env p ops p'"
  shows "\<exists>q. rewind_epoch env p' = Inr q \<and> map_of (ip_names q) = map_of (ip_names p) \<and>
     placed_ops_in_current_epoch q = [] \<and> current_temporal_epoch_id q = current_temporal_epoch_id p \<and>
     current_epoch_index q = current_temporal_epoch_id q * length (sorted_chip_ids q) \<and>
     current_chip_id q # remaining_chip_ids q = chip_order env q \<and>
     (\<forall>c s. free_rect env q c s \<longleftrightarrow> row c + rows s \<le> rows (grid_on env q (current_chip_id q)) \<and>
        col c + columns s \<le> columns (grid_on env q (current_chip_id q)))"
proof -
  note P = ip_places_ok [OF assms(3) ip_run_inv [OF assms(1)] assms(2)]
  from rewind_epoch_ok [of env p'] P obtain q where q: "rewind_epoch env p' = Inr q" "fresh_epoch env q"
    "map_of (ip_names q) = map_of (ip_names p') |` (- set (placed_ops_in_current_epoch p'))"
    "current_temporal_epoch_id q = current_temporal_epoch_id p'" by blast
  have F: "placer_inv env q" "placed_ops_in_current_epoch q = []"
    "current_epoch_index q = current_temporal_epoch_id q * chip_count q"
    "current_chip_id q # remaining_chip_ids q = chip_order env q" using q(2) by (simp_all add: fresh_epoch_def)
  obtain used where "ops_inv env q" using F(1) by (rule placer_invE)
  then have "names_of q (current_epoch_index q) (Suc (current_epoch_index q)) = []"
    using F(2,3) by (simp add: ops_inv_def)
  then have "epoch_ops q (current_epoch_index q) = []" by (simp add: names_of_Suc)
  then have "free_rect env q c s \<longleftrightarrow> row c + rows s \<le> rows (grid_on env q (current_chip_id q)) \<and>
      col c + columns s \<le> columns (grid_on env q (current_chip_id q))" for c s by (simp add: free_rect_def)
  moreover have "map_of (ip_names q) = map_of (ip_names p)" using q(3) P by simp
  moreover have "current_temporal_epoch_id q = current_temporal_epoch_id p" using q(4) P by simp
  ultimately show ?thesis using q(1) F(2-4) by (intro exI [of _ q]) blast
qed

theorem rewind_undoes_placements_witness:
  "\<exists>p r p' q. mk_interactive_placer sample_env (two_chip_config [0, 1] [1]) [''out''] = Inr p \<and>
     place_op sample_env ''a'' (mk_shape 2 2) False False p = Some (Inr (r, p')) \<and>
     rewind_epoch sample_env p' = Inr q \<and> map_of (ip_names q) = Map.empty"
proof -
  obtain p where p: "mk_interactive_placer sample_env (two_chip_config [0, 1] [1]) [''out''] = Inr p"
    "ip_run sample_env p" "ip_names p = []" "ip_config p = two_chip_config [0, 1] [1]" "fresh_epoch sample_env p"
    using two_chip_start by blast
  have new: "map_of (ip_names p) ''a'' = None" by (simp add: p(3))
  obtain r p' where p': "place_op sample_env ''a'' (mk_shape 2 2) False False p = Some (Inr (r, p'))"
    by (rule two_chip_place [OF p(2,4) new])
  have "placed_ops_in_current_epoch p = []" using p(5) by (simp add: fresh_epoch_def)
  from rewind_undoes_placements [OF p(2) this places_one [OF places_none two_chip_placeable [OF p(4)] new p']]
  obtain q where "rewind_epoch sample_env p' = Inr q" "map_of (ip_names q) = map_of (ip_names p)" by blast
  then show ?thesis using p(1,3) p' by auto
qed

section \<open>Epochs and commit\<close>

text \<open>What a committed solution says of a temporal epoch: its epochs run on all chips, once each.\<close>

definition full_temporal_epoch :: "PlacerSolution \<Rightarrow> nat list \<Rightarrow> nat \<Rightarrow> bool" where
  "full_temporal_epoch sol chips t \<longleftrightarrow> (\<exists>cs. mset cs = mset chips \<and>
     (\<forall>j < length chips. map_of (epoch_id_to_chip sol) (t * length chips + j) = Some (cs ! j) \<and>
       (\<exists>info. map_of (epoch_id_to_epoch_info sol) (t * length chips + j) = Some info \<and>
         info_temporal_epoch_id info = t \<and> info_spatial_epoch_id info = j)))"

lemma full_blocks:
  assumes "\<forall>t' < t. \<exists>cs'. mset cs' = mset (sorted_chip_ids p) \<and> block p t' cs'"
    and "mset cs = mset (sorted_chip_ids p)" "block p t cs"
    and "epoch_id_to_chip sol = ip_chips p" "epoch_id_to_epoch_info sol = ip_infos p"
  shows "\<forall>t' \<le> t. full_temporal_epoch sol (sorted_chip_ids p) t'"
proof (intro allI impI)
  fix t'
  assume "t' \<le> t"
  then obtain cs' where cs': "mset cs' = mset (sorted_chip_ids p)" "block p t' cs'"
    using assms(1-3) le_neq_implies_less by blast
  have "length cs' = chip_count p" using cs'(1) by (metis size_mset)
  then show "full_temporal_epoch sol (sorted_chip_ids p) t'"
    using cs' unfolding full_temporal_epoch_def assms(4,5) block_def by (intro exI [of _ cs']) fastforce
qed

lemma commit_outcome:
  assumes inv: "placer_inv env p" and pip: "\<not> PYBUDA_WORMHOLE_PIPELINED_PLACER env"
    and ne: "epoch_ops p (current_epoch_index p) \<noteq> []"
  shows "\<exists>sol p'. commit env breaks p = Some (Inr (sol, p')) \<and> \<not> ip_valid p' \<and>
     name_to_op_placement sol = ip_names p \<and> num_epochs sol = Suc (current_epoch_index p) \<and>
     (\<forall>t \<le> current_temporal_epoch_id p. full_temporal_epoch sol (sorted_chip_ids p) t) \<and>
     records_ok env p' (Suc (current_temporal_epoch_id p) * chip_count p) \<and>
     epoch_id_to_op_placement sol = ip_epochs p' \<and> ip_names p' = ip_names p \<and> epoch_id_to_chip sol = ip_chips p'"
proof -
  obtain used where ci: "chips_inv p used" and ops: "ops_inv env p" using inv by (rule placer_invE)
  note C = chips_invD [OF ci]
  let ?T = "current_temporal_epoch_id p" and ?n = "chip_count p" and ?cs = "used @ [current_chip_id p]"
  have len: "length used + 1 + length (remaining_chip_ids p) = ?n" by (rule length_used [OF ci])
  have small: "?T * ?n + ?n < 2 ^ 32" using C(2) by (simp add: small_epochs_def)
  define p1 where "p1 = p\<lparr>current_epoch_index := Suc (current_epoch_index p), current_temporal_epoch_id := ?T,
      current_spatial_epoch_id := current_spatial_epoch_id p, current_epoch_type := current_epoch_type p\<rparr>"
  have cl: "closing env p1 ?T ?cs" using chips_inv_closing [OF ci _ p1_def] ops by (simp add: ops_inv_def)
  have n: "chip_count p1 = ?n" "remaining_chip_ids p1 = remaining_chip_ids p" "sorted_chip_ids p1 = sorted_chip_ids p"
    "ip_names p1 = ip_names p" by (simp_all add: p1_def)
  from insert_empty_graphs_closing [OF cl, of "remaining_chip_ids p"] len small obtain p2 where
    ins: "insert_empty_graphs_for (remaining_chip_ids p) (length ?cs) ?T p1 = Inr p2"
    and cl2: "closing env p2 ?T (?cs @ remaining_chip_ids p)" and only: "only_epochs p1 p2" by (auto simp: n)
  note K = closingD [OF cl2] and O = only_epochsD [OF only]
  have sorted: "sorted_chip_ids p2 = sorted_chip_ids p" using O(1) n(3) by (simp add: same_setup_def)
  define sol where "sol = \<lparr>name_to_op_placement = ip_names p2, sol_input_queue_to_grid_shape = [],
      name_to_queue_placement = [], epoch_id_to_chip = ip_chips p2, epoch_id_to_subgraph_index = [],
      epoch_id_to_op_placement = ip_epochs p2, sol_device_grids = ip_grids p2,
      epoch_id_to_epoch_info = ip_infos p2, num_epochs = Suc (current_epoch_index p), is_pipelined = True,
      fork_join_buffered = False\<rparr>"
  obtain ps where ps: "map_of (ip_epochs p) (current_epoch_index p) = Some ps" "ps \<noteq> []"
    using ne by (auto simp: epoch_ops_def split: option.splits)
  have "Suc (current_epoch_index p) < 2 ^ 32 \<or> Suc (current_epoch_index p) = ?T * ?n + ?n" using C(3,4) len small by linarith
  then have "Suc (current_epoch_index p) < 2 ^ 32" using small by auto
  then have p1: "p\<lparr>current_epoch_index := add32 (current_epoch_index p) 1\<rparr> = p1" by (simp add: p1_def add32_exact)
  have "add32 (current_spatial_epoch_id p1) 1 = length ?cs"
    using C(3) len small by (simp add: p1_def add32_exact)
  then have "insert_empty_graphs (add32 (current_spatial_epoch_id p1) 1) (current_temporal_epoch_id p1) p1 = Inr p2"
    using ins by (simp add: insert_empty_graphs_def n) (simp add: p1_def)
  then have "commit env breaks p = Some (Inr (sol, p2\<lparr>ip_valid := False\<rparr>))"
    using ps p1 pip by (simp add: commit_def at_key_def sol_def Let_def) (simp add: p1_def)
  moreover have "\<forall>t \<le> ?T. full_temporal_epoch sol (sorted_chip_ids p2) t"
  proof (rule full_blocks [OF K(3) _ K(4)])
    show "mset (?cs @ remaining_chip_ids p) = mset (sorted_chip_ids p2)"
      using C(6) by (simp add: sorted ac_simps)
  qed (simp_all add: sol_def)
  moreover have "records_ok env (p2\<lparr>ip_valid := False\<rparr>) (Suc ?T * ?n)"
  proof -
    have idx: "current_epoch_index p2 = Suc ?T * ?n" using K(2) len by (simp add: sorted)
    have "grid_on env (p2\<lparr>ip_valid := False\<rparr>) = grid_on env p2" by (simp add: grid_on_def fun_eq_iff)
    then show ?thesis
      using K(5) unfolding idx
      by (simp add: records_ok_def placement_ok_def names_of_def epoch_ops_def)
  qed
  ultimately show ?thesis
    using O(2) n(4) by (intro exI [of _ sol] exI [of _ "p2\<lparr>ip_valid := False\<rparr>"]) (simp add: sol_def sorted)
qed

text \<open>
  Committing a run whose current epoch has ops returns: the solution holds exactly
  the ops that are placed, each listed in its epoch, which is below the number of epochs and on the
  chip of the op; every temporal epoch runs on all chips, the last one after it was filled with empty
  epochs, which the number of epochs does not count; and the placer is no longer valid.
\<close>

theorem commit_correct:
  assumes "ip_run env p" "\<not> PYBUDA_WORMHOLE_PIPELINED_PLACER env" "epoch_ops p (current_epoch_index p) \<noteq> []"
  shows "\<exists>sol p'. commit env breaks p = Some (Inr (sol, p')) \<and> \<not> ip_valid p' \<and>
     name_to_op_placement sol = ip_names p \<and> num_epochs sol = Suc (current_epoch_index p) \<and>
     (\<forall>x a. map_of (name_to_op_placement sol) x = Some a \<longrightarrow> global_epoch_id a < num_epochs sol \<and>
        map_of (epoch_id_to_chip sol) (global_epoch_id a) = Some (placement_chip_id a) \<and>
        (\<exists>ps. map_of (epoch_id_to_op_placement sol) (global_epoch_id a) = Some ps \<and> a \<in> set ps)) \<and>
     (\<forall>t \<le> current_temporal_epoch_id p. full_temporal_epoch sol (sorted_chip_ids p) t)"
proof -
  have inv: "placer_inv env p" by (rule ip_run_inv [OF assms(1)])
  from commit_outcome [OF inv assms(2,3), of breaks] obtain sol p' where
    c: "commit env breaks p = Some (Inr (sol, p'))" "\<not> ip_valid p'" "name_to_op_placement sol = ip_names p"
      "num_epochs sol = Suc (current_epoch_index p)"
      "\<forall>t \<le> current_temporal_epoch_id p. full_temporal_epoch sol (sorted_chip_ids p) t"
    and rec: "records_ok env p' (Suc (current_temporal_epoch_id p) * chip_count p)"
    and same: "epoch_id_to_op_placement sol = ip_epochs p'" "ip_names p' = ip_names p"
      "epoch_id_to_chip sol = ip_chips p'" by blast
  have "global_epoch_id a < num_epochs sol \<and>
      map_of (epoch_id_to_chip sol) (global_epoch_id a) = Some (placement_chip_id a) \<and>
      (\<exists>ps. map_of (epoch_id_to_op_placement sol) (global_epoch_id a) = Some ps \<and> a \<in> set ps)"
    if a: "map_of (name_to_op_placement sol) x = Some a" for x a
  proof -
    have "map_of (ip_names p') x = Some a" using a c(3) same(2) by simp
    note R = records_okD(3) [OF rec this]
    then have ok: "placement_ok env p' (global_epoch_id a) a" using records_okD(1) [OF rec] by blast
    have "global_epoch_id a \<le> current_epoch_index p"
      using run_legal [OF inv] a unfolding c(3) by blast
    moreover have "\<exists>ps. map_of (ip_epochs p') (global_epoch_id a) = Some ps \<and> a \<in> set ps"
      using R by (cases "map_of (ip_epochs p') (global_epoch_id a)") (simp_all add: epoch_ops_def)
    ultimately show ?thesis using ok unfolding same(1,3) c(4) placement_ok_def by simp
  qed
  then show ?thesis using c by blast
qed

lemma two_chip_commit_ready:
  "case mk_interactive_placer sample_env (two_chip_config [0, 1] [1]) [''out''] of
     Inl _ \<Rightarrow> False
   | Inr p \<Rightarrow> (case place_op sample_env ''a'' (mk_shape 2 2) False False p of
       Some (Inr (_, p')) \<Rightarrow> epoch_ops p' (current_epoch_index p') \<noteq> []
     | _ \<Rightarrow> False)"
  by code_simp

theorem commit_correct_witness:
  "\<exists>p r p' sol q. mk_interactive_placer sample_env (two_chip_config [0, 1] [1]) [''out''] = Inr p \<and>
     place_op sample_env ''a'' (mk_shape 2 2) False False p = Some (Inr (r, p')) \<and>
     commit sample_env None p' = Some (Inr (sol, q)) \<and> num_epochs sol = Suc (current_epoch_index p') \<and>
     full_temporal_epoch sol [0, 1] 0"
proof -
  obtain p where p: "mk_interactive_placer sample_env (two_chip_config [0, 1] [1]) [''out''] = Inr p"
    "ip_run sample_env p" "ip_names p = []" "ip_config p = two_chip_config [0, 1] [1]"
    "sorted_chip_ids p = [0, 1]" "current_temporal_epoch_id p = 0" using two_chip_start by blast
  obtain r p' where p': "place_op sample_env ''a'' (mk_shape 2 2) False False p = Some (Inr (r, p'))" "ip_run sample_env p'"
    "sorted_chip_ids p' = sorted_chip_ids p" "current_temporal_epoch_id p' = current_temporal_epoch_id p"
    by (rule two_chip_place [OF p(2,4), of "''a''"]) (simp_all add: p(3))
  have "epoch_ops p' (current_epoch_index p') \<noteq> []" using two_chip_commit_ready unfolding p(1) by (simp add: p'(1))
  from commit_correct [OF p'(2) _ this, of None] obtain sol q where
    "commit sample_env None p' = Some (Inr (sol, q))" "num_epochs sol = Suc (current_epoch_index p')"
    "\<forall>t \<le> current_temporal_epoch_id p'. full_temporal_epoch sol (sorted_chip_ids p') t"
    by (auto simp: sample_env_def)
  then show ?thesis using p(1,5,6) p' by auto
qed

text \<open>
  With two MMIO chips still to come, the search for the chip of an output op puts the
  current chip back twice: the epoch index wraps around to the largest 32-bit value, where the op is
  placed, and the first chip is in the pool twice.
\<close>

theorem two_mmio_chips_break_the_index:
  "case mk_interactive_placer sample_env (two_chip_config [0, 1, 2, 3] [2, 3]) [''out''] of
     Inl _ \<Rightarrow> False
   | Inr p \<Rightarrow> (case place_op sample_env ''out'' (mk_shape 1 1) False False p of
       Some (Inr (Some _, p')) \<Rightarrow> current_epoch_index p' = 2 ^ 32 - 1 \<and>
         map_option global_epoch_id (map_of (ip_names p') ''out'') = Some (2 ^ 32 - 1) \<and>
         remaining_chip_ids p' = [0, 0, 1, 3]
     | _ \<Rightarrow> False)"
  by code_simp

text \<open>
  A new temporal epoch that gets no op before the commit is not completed: its only epoch
  is registered again, as the second of the temporal epoch and on the second chip, so the first chip
  has none.
\<close>

theorem empty_last_epoch_is_overwritten:
  "case mk_interactive_placer sample_env (two_chip_config [0, 1] [1]) [''out''] of
     Inl _ \<Rightarrow> False
   | Inr p \<Rightarrow> (case next_epoch sample_env Forward p of
       Inl _ \<Rightarrow> False
     | Inr (_, p1) \<Rightarrow> (case commit sample_env None p1 of
         Some (Inr (sol, _)) \<Rightarrow> epoch_id_to_chip sol = [(0, 0), (1, 1), (2, 1)] \<and>
           map_option info_temporal_epoch_id (map_of (epoch_id_to_epoch_info sol) 2) = Some 1 \<and>
           map_option info_spatial_epoch_id (map_of (epoch_id_to_epoch_info sol) 2) = Some 1
       | _ \<Rightarrow> False))"
  by code_simp

text \<open>
  The type of the new temporal epoch is set before the previous one is completed, so the
  empty epochs that complete a forward temporal epoch are registered as backward epochs.
\<close>

theorem filler_epochs_get_the_next_type:
  "case mk_interactive_placer sample_env (two_chip_config [0, 1] [1]) [''out''] of
     Inl _ \<Rightarrow> False
   | Inr p \<Rightarrow> (case next_epoch sample_env Backward p of
       Inl _ \<Rightarrow> False
     | Inr (_, p1) \<Rightarrow>
         map_option info_temporal_epoch_id (map_of (ip_infos p1) 0) = Some 0 \<and>
         map_option info_temporal_epoch_id (map_of (ip_infos p1) 1) = Some 0 \<and>
         map_option info_epoch_type (map_of (ip_infos p1) 0) = Some Forward \<and>
         map_option info_epoch_type (map_of (ip_infos p1) 1) = Some Backward)"
  by code_simp

end
