(* ===== verification/Sparse_Matrix.thy ===== *)
theory Sparse_Matrix
  imports Prelude "HOL-Library.Product_Lexorder"
begin

text \<open>
  Sparse matrices in coordinate form, \<open>SparseCOO\<close> of \<open>shared_utils/sparse_matmul_utils.hpp\<close>, and their
  compression into unique tiles, \<open>compress_unique_tiles\<close> of \<open>sparse_matmul_utils.cpp\<close>. Coordinates and
  dimensions are natural numbers; the code keeps them in 64-bit integers and never makes one negative.
  A value is the bit pattern of a float, 0 for \<open>0.f\<close>: the code only copies and compares values.
\<close>

definition TILE_DIM :: nat where "TILE_DIM = 32"

section \<open>Matrices\<close>

text \<open>The default bounds are the empty interval of the 64-bit integers.\<close>

record Bounds =
  bounds_min :: int
  bounds_max :: int

definition default_bounds :: Bounds where
  "default_bounds = \<lparr>bounds_min = 2 ^ 63 - 1, bounds_max = - (2 ^ 63)\<rparr>"

definition extend_bounds :: "Bounds \<Rightarrow> Bounds \<Rightarrow> Bounds" where
  "extend_bounds other b = \<lparr>bounds_min = min (bounds_min b) (bounds_min other), bounds_max = max (bounds_max b) (bounds_max other)\<rparr>"

definition extend_bounds_to :: "nat \<Rightarrow> Bounds \<Rightarrow> Bounds" where
  "extend_bounds_to minmax b = extend_bounds \<lparr>bounds_min = int minmax, bounds_max = int minmax\<rparr> b"

datatype SortOrder = UNSORTED | ROW_MAJOR | COLUMN_MAJOR

record SparseCOO =
  coo_rows :: "nat list"
  coo_cols :: "nat list"
  coo_vals :: "nat list"
  coo_shape :: "nat list"
  col_bounds :: Bounds
  sorted_order :: SortOrder

text \<open>The first constructor reads the first and the last column, which need not be the extreme ones.\<close>

definition mk_coo :: "nat list \<Rightarrow> nat list \<Rightarrow> nat list \<Rightarrow> nat list \<Rightarrow> SparseCOO res" where
  "mk_coo rs cs vs sh =
     (if cs = [] then Inl UndefinedBehaviour
      else Inr \<lparr>coo_rows = rs, coo_cols = cs, coo_vals = vs, coo_shape = sh,
        col_bounds = \<lparr>bounds_min = int (hd cs), bounds_max = int (last cs)\<rparr>,
        sorted_order = (if sorted rs then ROW_MAJOR else UNSORTED)\<rparr>)"

definition empty_coo :: "nat list \<Rightarrow> SparseCOO" where
  "empty_coo sh = \<lparr>coo_rows = [], coo_cols = [], coo_vals = [], coo_shape = sh, col_bounds = default_bounds,
     sorted_order = UNSORTED\<rparr>"

definition coo_rt :: "SparseCOO \<Rightarrow> nat res" where
  "coo_rt m = res_bind (vec_idx (coo_shape m) 0) (\<lambda>h. Inr ((h + TILE_DIM - 1) div TILE_DIM))"

definition coo_ct :: "SparseCOO \<Rightarrow> nat res" where
  "coo_ct m = res_bind (vec_idx (coo_shape m) 1) (\<lambda>w. Inr ((w + TILE_DIM - 1) div TILE_DIM))"

section \<open>Slicing and concatenation\<close>

definition push_entry :: "nat \<Rightarrow> nat \<Rightarrow> nat \<Rightarrow> SparseCOO \<Rightarrow> SparseCOO" where
  "push_entry r c v m = m\<lparr>coo_rows := coo_rows m @ [r], coo_cols := coo_cols m @ [c], coo_vals := coo_vals m @ [v],
     col_bounds := extend_bounds_to c (col_bounds m)\<rparr>"

definition slice_entry :: "SparseCOO \<Rightarrow> nat \<Rightarrow> nat \<Rightarrow> SparseCOO list \<Rightarrow> SparseCOO list res" where
  "slice_entry m slice_height idx ret =
     res_bind (vec_idx (coo_rows m) idx) (\<lambda>r.
     if slice_height = 0 then Inl UndefinedBehaviour
     else res_bind (vec_idx ret (r div slice_height)) (\<lambda>slice.
     res_bind (vec_idx (coo_cols m) idx) (\<lambda>c.
     res_bind (vec_idx (coo_vals m) idx) (\<lambda>v.
       Inr (ret[r div slice_height := push_entry (r mod slice_height) c v slice])))))"

definition vslice :: "nat \<Rightarrow> SparseCOO \<Rightarrow> SparseCOO list res" where
  "vslice num_slices m =
     res_bind (vec_idx (coo_shape m) 0) (\<lambda>h.
     if num_slices = 0 then Inl UndefinedBehaviour
     else res_bind (tt_assert (h mod num_slices = 0)) (\<lambda>_.
     if num_slices = 1 then Inr [m]
     else res_bind (vec_idx (coo_shape m) 1) (\<lambda>w.
       fold_res (slice_entry m (h div num_slices)) [0..<length (coo_rows m)]
         (replicate num_slices (empty_coo [h div num_slices, w])))))"

text \<open>
  \<open>vcat\<close>: the rows are written into a vector of the total number of values, the columns and values are
  appended; a block without values only moves the offset.
\<close>

definition vcat_step :: "nat list \<Rightarrow> nat \<Rightarrow> SparseCOO \<Rightarrow> nat list \<times> SparseCOO \<times> nat \<Rightarrow> (nat list \<times> SparseCOO \<times> nat) res" where
  "vcat_step first_shape total_count coo s =
     (let (written, ret, row_offset) = s in
      res_bind (tt_assert (coo_shape coo = first_shape)) (\<lambda>_.
      res_bind (vec_idx (coo_shape coo) 0) (\<lambda>h.
      if coo_vals coo = [] then Inr (written, ret, row_offset + h)
      else if length written + length (coo_rows coo) > total_count then Inl UndefinedBehaviour
      else Inr (written @ map (\<lambda>r. r + row_offset) (coo_rows coo),
                ret\<lparr>coo_cols := coo_cols ret @ coo_cols coo, coo_vals := coo_vals ret @ coo_vals coo,
                    col_bounds := extend_bounds (col_bounds coo) (col_bounds ret)\<rparr>, row_offset + h))))"

definition vcat :: "SparseCOO list \<Rightarrow> SparseCOO res" where
  "vcat coos =
     (case coos of
        [] \<Rightarrow> Inl RuntimeError
      | first # _ \<Rightarrow>
          res_bind (tt_assert (length (coo_shape first) = 2)) (\<lambda>_.
          let ret = empty_coo ((coo_shape first)[0 := (coo_shape first ! 0) * length coos]);
              total_count = sum_list (map (\<lambda>m. length (coo_vals m)) coos) in
          if total_count = 0 then Inr ret
          else res_bind (fold_res (vcat_step (coo_shape first) total_count) coos ([], ret, 0)) (\<lambda>(written, ret, _).
            res_bind (tt_assert (length (coo_cols ret) = total_count)) (\<lambda>_.
            res_bind (tt_assert (length (coo_vals ret) = total_count)) (\<lambda>_.
              Inr (ret\<lparr>coo_rows := written @ replicate (total_count - length written) 0\<rparr>))))))"

section \<open>Sorting\<close>

text \<open>
  \<open>sort_\<close> takes a flag for row-major order. The order of entries with the same coordinates is left
  open by \<open>std::sort\<close>; here they stay in order.
\<close>

definition coo_entries :: "SparseCOO \<Rightarrow> (nat \<times> nat \<times> nat) list" where
  "coo_entries m = zip (coo_rows m) (zip (coo_cols m) (coo_vals m))"

definition sort_entries :: "bool \<Rightarrow> SparseCOO \<Rightarrow> SparseCOO" where
  "sort_entries row_major m =
     (let zipped = (if row_major then sort_key (\<lambda>(r, c, v). (r, c)) (coo_entries m)
                    else sort_key (\<lambda>(r, c, v). (c, r)) (coo_entries m)) in
      m\<lparr>coo_rows := map fst zipped, coo_cols := map (fst \<circ> snd) zipped, coo_vals := map (snd \<circ> snd) zipped,
        col_bounds := fold (extend_bounds_to \<circ> fst \<circ> snd) zipped (col_bounds m)\<rparr>)"

text \<open>
  The call \<open>sort_(sort_order)\<close> converts the order, an enumeration, to the flag: both
  \<open>ROW_MAJOR\<close> (1) and \<open>COLUMN_MAJOR\<close> (2) become true.
\<close>

definition order_as_bool :: "SortOrder \<Rightarrow> bool" where
  "order_as_bool order = (case order of UNSORTED \<Rightarrow> False | ROW_MAJOR \<Rightarrow> True | COLUMN_MAJOR \<Rightarrow> True)"

definition coo_sort :: "SortOrder \<Rightarrow> SparseCOO \<Rightarrow> SparseCOO res" where
  "coo_sort order m =
     res_bind (tt_assert (order \<noteq> UNSORTED)) (\<lambda>_.
       Inr (if order = sorted_order m then m
            else (sort_entries (order_as_bool order) m)\<lparr>sorted_order := order\<rparr>))"

section \<open>Compression into unique tiles\<close>

text \<open>The key of a tile: its entries with their position in the tile, in the order they were added.\<close>

type_synonym TileKey = "(nat \<times> nat \<times> nat) list"

record SparseIndex =
  si_unique_id :: nat
  si_ct :: nat
  si_rt :: nat
  si_z :: nat
  si_zdim :: nat

definition ubr_idx :: "nat \<Rightarrow> SparseIndex \<Rightarrow> nat" where "ubr_idx u_rt si = si_rt si div u_rt"
definition ubc_idx :: "nat \<Rightarrow> SparseIndex \<Rightarrow> nat" where "ubc_idx u_kt si = si_ct si div u_kt"

record TileStore =
  unique_id_map :: "(TileKey \<times> nat) list"
  store_tiles :: "nat list"
  store_indices :: "SparseIndex list"

definition tile_of_key :: "TileKey \<Rightarrow> nat list" where
  "tile_of_key key = fold (\<lambda>(r, c, v) tile. tile[r * TILE_DIM + c := v]) key (replicate (TILE_DIM * TILE_DIM) 0)"

definition add_tile :: "TileKey \<Rightarrow> TileStore \<Rightarrow> nat \<times> TileStore" where
  "add_tile tile s =
     (case map_of (unique_id_map s) tile of
        Some i \<Rightarrow> (i, s)
      | None \<Rightarrow>
          let i = length (store_tiles s) div (TILE_DIM * TILE_DIM) in
          (i, s\<lparr>unique_id_map := AList.update tile i (unique_id_map s),
                store_tiles := store_tiles s @ tile_of_key tile\<rparr>))"

definition emplace_index :: "nat \<Rightarrow> nat \<Rightarrow> nat \<Rightarrow> nat \<Rightarrow> nat \<Rightarrow> TileStore \<Rightarrow> TileStore" where
  "emplace_index i ct rt z zdim s = s\<lparr>store_indices := store_indices s @
     [\<lparr>si_unique_id = i, si_ct = ct, si_rt = rt, si_z = z, si_zdim = zdim\<rparr>]\<rparr>"

definition flush_tile :: "nat \<Rightarrow> nat \<Rightarrow> nat \<Rightarrow> nat \<times> TileKey \<Rightarrow> TileStore \<Rightarrow> TileStore" where
  "flush_tile irt z zdim ictk s =
     (let (ict, tile_key) = ictk; (tile_id, s1) = add_tile tile_key s in emplace_index tile_id ict irt z zdim s1)"

definition append_entry :: "nat \<Rightarrow> nat \<times> nat \<times> nat \<Rightarrow> (nat \<times> TileKey) list \<Rightarrow> (nat \<times> TileKey) list" where
  "append_entry ct e keys = AList.update ct ((case map_of keys ct of None \<Rightarrow> [] | Some k \<Rightarrow> k) @ [e]) keys"

text \<open>One entry of a matrix: it belongs to the current row of tiles, or that row is flushed and the next begins.\<close>

definition compress_entry ::
    "nat \<Rightarrow> nat \<Rightarrow> nat \<times> nat \<times> nat \<Rightarrow> nat \<times> (nat \<times> TileKey) list \<times> TileStore \<Rightarrow> nat \<times> (nat \<times> TileKey) list \<times> TileStore"
where
  "compress_entry z zdim rcv s =
     (let (row, col, v) = rcv; (next_rt, keys, st) = s;
          rt = row div TILE_DIM; ct = col div TILE_DIM; e = (row - rt * TILE_DIM, col - ct * TILE_DIM, v) in
      if rt < next_rt then (next_rt, append_entry ct e keys, st)
      else (let st1 = (if keys = [] then emplace_index 0 ct (next_rt - 1) z zdim st else st);
                st2 = fold (flush_tile (next_rt - 1) z zdim) keys st1 in
            (rt + 1, append_entry ct e [], st2)))"

definition compress_matrix :: "nat \<Rightarrow> nat \<times> SparseCOO \<Rightarrow> TileStore \<Rightarrow> TileStore" where
  "compress_matrix zdim zm st =
     (let (z, m) = zm; (next_rt, keys, st1) = fold (compress_entry z zdim) (coo_entries m) (1, [], st) in
      fold (flush_tile (next_rt - 1) z zdim) keys st1)"

record SparseEnv =
  PYBUDA_SPARSE_NO_MATH :: bool
  PYBUDA_SPARSE_MM_ENCODE_ALL_STRIPS :: bool
  PYBUDA_ALLOW_ILLEGAL_SPARSE_PARS :: bool
  PYBUDA_SPARSE_DISABLE_LAYOUT_DATAFLOW :: bool

definition compress_unique_tiles :: "SparseEnv \<Rightarrow> SparseCOO list \<Rightarrow> SparseIndex list \<times> nat list" where
  "compress_unique_tiles env sparse_zs =
     (let st0 = snd (add_tile [] \<lparr>unique_id_map = [], store_tiles = [], store_indices = []\<rparr>);
          st = (if PYBUDA_SPARSE_NO_MATH env then st0
                else fold (compress_matrix (length sparse_zs)) (zip [0..<length sparse_zs] sparse_zs) st0) in
      (store_indices st, store_tiles st))"

end
