(* ===== verification/Sparse_Encoding.thy ===== *)
theory Sparse_Encoding
  imports Sparse_Matrix "HOL-Library.Word"
begin

unbundle bit_operations_syntax

text \<open>
  The encoding of the index list of a sparse matrix for the device (\<open>sparse_matmul_utils.cpp\<close>): strips
  of 16-bit words in tiles of 4096 bytes, the class \<open>StripAllocator\<close>, and \<open>encode_strips\<close>. Everything the
  code writes and reads lies at even addresses, so the memory is a list of 16-bit words and sizes and
  offsets count words: a tile has 2048 of them and the header of a strip three.
\<close>

section \<open>Bit widths\<close>

text \<open>\<open>32 - __builtin_clz(n)\<close> for a positive \<open>n\<close>; for 0 the builtin is undefined.\<close>

fun bit_length :: "nat \<Rightarrow> nat" where
  "bit_length n = (if n = 0 then 0 else Suc (bit_length (n div 2)))"

declare bit_length.simps [simp del]

definition clz_width :: "nat \<Rightarrow> nat res" where
  "clz_width n = (if n = 0 then Inl UndefinedBehaviour else Inr (bit_length n))"

definition get_u_rt_encoding_bits :: "nat \<Rightarrow> nat res" where
  "get_u_rt_encoding_bits u_rt =
     res_bind (clz_width u_rt) (\<lambda>u_rt_bits. Inr (u_rt_bits - (if u_rt AND (u_rt - 1) = 0 then 1 else 0)))"

definition get_u_kt_encoding_bits :: "nat \<Rightarrow> nat res" where
  "get_u_kt_encoding_bits u_kt =
     res_bind (clz_width u_kt) (\<lambda>u_kt_bits. Inr (max (u_kt_bits - (if u_kt AND (u_kt - 1) = 0 then 1 else 0)) 1))"

section \<open>Strips\<close>

text \<open>
  \<open>strip_info_struct\<close>: the low half of the strip index; its high 14 bits with the flags
  \<open>last_strip_in_row\<close> (bit 14) and \<open>last_strip_in_tile\<close> (bit 15); the number of ublocks.
\<close>

definition strip_info :: "nat \<Rightarrow> nat \<Rightarrow> bool \<Rightarrow> bool \<Rightarrow> nat list res" where
  "strip_info strip_index nz_ublocks last_strip_in_row last_strip_in_tile =
     res_bind (tt_assert (strip_index < 2 ^ 30)) (\<lambda>_.
       Inr [take_bit 16 strip_index,
            drop_bit 16 strip_index OR push_bit 14 (of_bool last_strip_in_row) OR push_bit 15 (of_bool last_strip_in_tile),
            take_bit 16 nz_ublocks])"

definition strip_index_of :: "nat \<Rightarrow> nat \<Rightarrow> nat" where
  "strip_index_of w0 w1 = push_bit 16 (take_bit 14 w1) OR w0"

text \<open>\<open>set_strip_index\<close> and the assignments to the two flags, at the strip that starts at word \<open>p\<close>.\<close>

definition set_strip_index :: "nat \<Rightarrow> nat \<Rightarrow> nat list \<Rightarrow> nat list res" where
  "set_strip_index p strip_index mem =
     res_bind (tt_assert (strip_index < 2 ^ 30)) (\<lambda>_.
     res_bind (vec_idx mem (p + 1)) (\<lambda>w1.
       Inr (mem[p := take_bit 16 strip_index,
                p + 1 := drop_bit 16 strip_index OR push_bit 14 (of_bool (bit w1 14)) OR push_bit 15 (of_bool (bit w1 15))])))"

definition set_last_in_row :: "nat \<Rightarrow> nat list \<Rightarrow> nat list" where
  "set_last_in_row p mem = mem[p + 1 := set_bit 14 (mem ! (p + 1))]"

definition set_last_in_tile :: "nat \<Rightarrow> nat list \<Rightarrow> nat list" where
  "set_last_in_tile p mem = mem[p + 1 := set_bit 15 (mem ! (p + 1))]"

section \<open>The allocator\<close>

definition kTileSize :: nat where "kTileSize = 2048"

record StripAllocator =
  buda_strips :: "nat list"
  strip_offset :: nat
  prev_strip_ptr :: "nat option"
  num_strips :: nat

definition new_allocator :: StripAllocator where
  "new_allocator = \<lparr>buda_strips = [], strip_offset = 0, prev_strip_ptr = None, num_strips = 0\<rparr>"

definition memcpy :: "nat \<Rightarrow> nat list \<Rightarrow> nat list \<Rightarrow> nat list" where
  "memcpy dst ws mem = take dst mem @ ws @ drop (dst + length ws) mem"

definition allocate_tile :: "StripAllocator \<Rightarrow> StripAllocator" where
  "allocate_tile a = a\<lparr>strip_offset := length (buda_strips a), buda_strips := buda_strips a @ replicate kTileSize 0\<rparr>"

definition push_strip :: "nat list \<Rightarrow> nat list \<Rightarrow> StripAllocator \<Rightarrow> StripAllocator res" where
  "push_strip info strip_indices a =
     (let total_size = length info + length strip_indices in
      res_bind (tt_assert (total_size < kTileSize)) (\<lambda>_.
      let a1 = (if strip_offset a + total_size > length (buda_strips a)
                then allocate_tile (case prev_strip_ptr a of None \<Rightarrow> a
                       | Some p \<Rightarrow> a\<lparr>buda_strips := set_last_in_tile p (buda_strips a)\<rparr>)
                else a) in
      Inr (a1\<lparr>prev_strip_ptr := Some (strip_offset a1),
              buda_strips := memcpy (strip_offset a1) (info @ strip_indices) (buda_strips a1),
              strip_offset := strip_offset a1 + total_size, num_strips := num_strips a1 + 1\<rparr>)))"

text \<open>
  Walking over the index array of a strip: every ublock has a header and then as many words as the
  header says, where 0 stands for the largest number.
\<close>

definition tiles_in_header :: "nat \<Rightarrow> nat \<Rightarrow> nat" where
  "tiles_in_header sparse_ublock_idx_bits encoded =
     (let n = drop_bit sparse_ublock_idx_bits encoded in
      if n = 0 then take_bit 16 (push_bit (16 - sparse_ublock_idx_bits) 1) else n)"

primrec skip_ublocks :: "nat \<Rightarrow> nat \<Rightarrow> nat list \<Rightarrow> nat \<Rightarrow> nat res" where
  "skip_ublocks sparse_ublock_idx_bits 0 mem i = Inr i"
| "skip_ublocks sparse_ublock_idx_bits (Suc n) mem i =
     res_bind (vec_idx mem i) (\<lambda>encoded.
       skip_ublocks sparse_ublock_idx_bits n mem (i + 1 + tiles_in_header sparse_ublock_idx_bits encoded))"

lemma skip_ublocks_le: "skip_ublocks b n mem i = Inr j \<Longrightarrow> i \<le> j"
  by (induction n arbitrary: i) (fastforce simp: res_simps)+

text \<open>\<open>patch_strip_indices\<close> adds an offset to the index of every strip of the tiles from \<open>base\<close> on.\<close>

function patch_tile :: "nat \<Rightarrow> nat \<Rightarrow> nat \<Rightarrow> nat \<Rightarrow> nat list \<Rightarrow> nat list res" where
  "patch_tile stop offset sparse_ublock_idx_bits p mem =
     (if stop \<le> p then Inr mem
      else res_bind (vec_idx mem p) (\<lambda>w0.
      res_bind (vec_idx mem (p + 1)) (\<lambda>w1.
      res_bind (vec_idx mem (p + 2)) (\<lambda>nz_ublocks.
      res_bind (set_strip_index p (add32 (strip_index_of w0 w1) offset) mem) (\<lambda>mem1.
      res_bind (skip_ublocks sparse_ublock_idx_bits nz_ublocks mem1 (p + 3)) (\<lambda>q.
        if bit w1 15 then Inr mem1
        else patch_tile stop offset sparse_ublock_idx_bits q mem1))))))"
  by auto
termination
  by (relation "measure (\<lambda>(stop, _, _, p, _). stop - p)") (auto simp: res_simps dest!: skip_ublocks_le)

declare patch_tile.simps [simp del]

definition patch_strip_indices :: "nat \<Rightarrow> nat \<Rightarrow> nat \<Rightarrow> nat \<Rightarrow> nat list \<Rightarrow> nat list res" where
  "patch_strip_indices base sz offset sparse_ublock_idx_bits mem =
     fold_res (\<lambda>tile_id. patch_tile (base + sz) offset sparse_ublock_idx_bits (base + tile_id * kTileSize))
       [0..<(sz + kTileSize - 1) div kTileSize] mem"

text \<open>
  \<open>repeat\<close>. Its parameter \<open>num_strips\<close> hides the member of that name, so the product at its end is lost and
  the member still counts the strips of one copy.
\<close>

definition repeat_strips :: "nat \<Rightarrow> nat \<Rightarrow> nat \<Rightarrow> StripAllocator \<Rightarrow> StripAllocator res" where
  "repeat_strips n strips sparse_ublock_idx_bits a =
     (case prev_strip_ptr a of
        None \<Rightarrow> Inr a
      | Some p \<Rightarrow>
          if n \<le> 1 then Inr a
          else (let mem = set_last_in_row p (buda_strips a);
                    fits = (strip_offset a * n \<le> length mem);
                    orig_size = (if fits then strip_offset a else length mem);
                    from_end = orig_size - p;
                    mem1 = (if fits then mem
                            else set_last_in_tile p mem @ replicate (orig_size * n - length mem) 0) in
            res_bind (fold_res (\<lambda>i m. patch_strip_indices (orig_size * i) orig_size (strips * i) sparse_ublock_idx_bits
                  (memcpy (orig_size * i) (take orig_size m) m)) [1..<n] mem1) (\<lambda>mem2.
              Inr (a\<lparr>buda_strips := mem2, strip_offset := orig_size * n,
                     prev_strip_ptr := Some (orig_size * n - from_end)\<rparr>))))"

definition finish_buda_strips :: "StripAllocator \<Rightarrow> nat list \<times> nat" where
  "finish_buda_strips a =
     (case prev_strip_ptr a of
        None \<Rightarrow> (buda_strips a, num_strips a)
      | Some p \<Rightarrow> (set_last_in_tile p (set_last_in_row p (buda_strips a)), num_strips a))"

section \<open>Encoding\<close>

text \<open>The words of an index array; the parameters of the two encoders are 16-bit integers.\<close>

definition encode_ublock_header :: "nat \<Rightarrow> nat \<Rightarrow> nat \<Rightarrow> nat res" where
  "encode_ublock_header sparse_ublock_idx_bits current_ublock_index nz_tiles_in_ublock =
     (let nz_bits = 16 - sparse_ublock_idx_bits;
          current = take_bit 16 current_ublock_index; nz = take_bit 16 nz_tiles_in_ublock in
      res_bind (tt_assert (current < 2 ^ sparse_ublock_idx_bits)) (\<lambda>_.
      res_bind (tt_assert (nz \<le> 2 ^ nz_bits)) (\<lambda>_.
        Inr (take_bit 16 (push_bit sparse_ublock_idx_bits (if nz = 2 ^ nz_bits then 0 else nz)) OR current))))"

definition encode_index_pair :: "nat \<Rightarrow> nat \<Rightarrow> nat \<Rightarrow> nat \<Rightarrow> nat \<Rightarrow> nat res" where
  "encode_index_pair sparse_tile_ptr_bits u_kt_bits in0 in0_rt in0_ct =
     res_bind (tt_assert (take_bit 16 in0 < 2 ^ sparse_tile_ptr_bits)) (\<lambda>_.
       Inr (take_bit 16 (push_bit (16 - sparse_tile_ptr_bits) (take_bit 16 in0)) OR
            take_bit 16 (push_bit u_kt_bits (take_bit 16 in0_rt)) OR take_bit 16 in0_ct))"

record StripEncoding =
  enc_mk :: nat
  enc_u_rt :: nat
  enc_u_kt :: nat
  enc_u_kt_bits :: nat
  enc_sparse_tile_ptr_bits :: nat
  enc_sparse_ublock_idx_bits :: nat
  enc_t_factor_r :: nat
  enc_allow_illegal :: bool

record EncodeState =
  enc_prev_z :: nat
  enc_prev_strip_index :: nat
  enc_nz_ublocks :: nat
  enc_strip_indices :: "nat list"
  enc_allocator :: StripAllocator

definition same_ublock :: "StripEncoding \<Rightarrow> SparseIndex \<Rightarrow> SparseIndex \<Rightarrow> bool" where
  "same_ublock p a b \<longleftrightarrow> si_z b = si_z a \<and> ubr_idx (enc_u_rt p) b = ubr_idx (enc_u_rt p) a \<and>
     ubc_idx (enc_u_kt p) b = ubc_idx (enc_u_kt p) a"

text \<open>The first ublock of a list of indices that starts with \<open>x\<close>, and what follows it.\<close>

primrec split_ublock :: "StripEncoding \<Rightarrow> SparseIndex \<Rightarrow> SparseIndex list \<Rightarrow> SparseIndex list \<times> SparseIndex list" where
  "split_ublock p x [] = ([x], [])"
| "split_ublock p x (y # ys) =
     (if same_ublock p x y then (let (us, rest) = split_ublock p y ys in (x # us, rest)) else ([x], y # ys))"

lemma split_ublock_append: "split_ublock p x xs = (us, rest) \<Longrightarrow> us @ rest = x # xs"
  by (induction xs arbitrary: x us rest) (auto split: if_splits prod.splits)

lemma split_ublock_shorter: "split_ublock p x xs = (us, rest) \<Longrightarrow> length rest < Suc (length xs)"
  by (induction xs arbitrary: x us rest) (fastforce split: if_splits prod.splits)+

text \<open>A z without entries gets a strip without ublocks.\<close>

definition push_empty_row :: "nat \<Rightarrow> StripAllocator \<Rightarrow> StripAllocator res" where
  "push_empty_row strip_index a = res_bind (strip_info strip_index 0 True False) (\<lambda>info. push_strip info [] a)"

definition add_missing_zs :: "nat \<Rightarrow> nat \<Rightarrow> nat \<Rightarrow> StripAllocator \<Rightarrow> StripAllocator res" where
  "add_missing_zs strip_index prev_z curr_z a = fold_res (\<lambda>_. push_empty_row strip_index) [prev_z..<curr_z] a"

text \<open>
  One round of the loop: a ublock is encoded, and the strip is pushed when the next ublock seems to
  belong to another strip. The strip index of the current ublock counts the strips of the earlier
  z, that of the next one does not.
\<close>

definition encode_ublock ::
    "StripEncoding \<Rightarrow> SparseIndex list \<Rightarrow> SparseIndex list \<Rightarrow> EncodeState \<Rightarrow> EncodeState res" where
  "encode_ublock p us rest s =
     (let x = hd us; curr_z = si_z x;
          curr_strip_index = enc_mk p * (curr_z div enc_t_factor_r p) + ubc_idx (enc_u_kt p) x;
          next_z = (case rest of [] \<Rightarrow> curr_z | y # _ \<Rightarrow> si_z y);
          next_strip_index = (case rest of [] \<Rightarrow> - 1 | y # _ \<Rightarrow> int (ubc_idx (enc_u_kt p) y)) in
      res_bind (tt_assert (enc_allow_illegal p \<or> enc_prev_strip_index s \<le> curr_strip_index)) (\<lambda>_.
      res_bind (add_missing_zs curr_strip_index (enc_prev_z s) curr_z (enc_allocator s)) (\<lambda>a1.
      let prev_z = max (enc_prev_z s) curr_z; nz_ublocks = take_bit 16 (enc_nz_ublocks s + 1) in
      res_bind (encode_ublock_header (enc_sparse_ublock_idx_bits p) (ubr_idx (enc_u_rt p) x) (length us)) (\<lambda>header.
      res_bind (map_res (\<lambda>si. encode_index_pair (enc_sparse_tile_ptr_bits p) (enc_u_kt_bits p) (si_unique_id si)
          (si_rt si mod enc_u_rt p) (si_ct si mod enc_u_kt p)) us) (\<lambda>pairs.
      let indices = enc_strip_indices s @ header # pairs;
          s1 = s\<lparr>enc_prev_z := prev_z, enc_prev_strip_index := curr_strip_index, enc_nz_ublocks := nz_ublocks,
                 enc_strip_indices := indices, enc_allocator := a1\<rparr> in
      if int curr_strip_index \<noteq> next_strip_index \<or> curr_z \<noteq> next_z
      then (let is_last_strip_in_row = (curr_z \<noteq> next_z \<or> rest = []) in
        res_bind (strip_info curr_strip_index nz_ublocks is_last_strip_in_row False) (\<lambda>info.
        res_bind (push_strip info indices a1) (\<lambda>a2.
          Inr (s1\<lparr>enc_nz_ublocks := 0, enc_strip_indices := [], enc_allocator := a2,
                  enc_prev_z := prev_z + of_bool is_last_strip_in_row\<rparr>))))
      else Inr s1)))))"

function encode_loop :: "StripEncoding \<Rightarrow> SparseIndex list \<Rightarrow> EncodeState \<Rightarrow> EncodeState res" where
  "encode_loop p [] s = Inr s"
| "encode_loop p (x # xs) s =
     (let (us, rest) = split_ublock p x xs in res_bind (encode_ublock p us rest s) (encode_loop p rest))"
  by pat_completeness auto
termination
  by (relation "measure (\<lambda>(_, xs, _). length xs)") (auto dest: split_ublock_shorter [OF sym])

definition encode_strips ::
    "SparseEnv \<Rightarrow> SparseIndex list \<Rightarrow> nat \<Rightarrow> nat \<Rightarrow> nat \<Rightarrow> nat \<Rightarrow> nat \<Rightarrow> nat \<Rightarrow> nat \<Rightarrow> nat \<Rightarrow> (nat list \<times> nat) res" where
  "encode_strips env indices dimz dimc u_rt u_kt sparse_tile_ptr_bits sparse_ublock_idx_bits t_factor_r t_factor_c =
     res_bind (tt_assert (\<not> PYBUDA_SPARSE_MM_ENCODE_ALL_STRIPS env)) (\<lambda>_.
     if u_kt = 0 then Inl UndefinedBehaviour
     else (let m_k = (dimc + TILE_DIM - 1) div TILE_DIM div u_kt in
     res_bind (get_u_rt_encoding_bits u_rt) (\<lambda>u_rt_bits.
     res_bind (get_u_kt_encoding_bits u_kt) (\<lambda>u_kt_bits.
     res_bind (tt_assert (u_rt_bits + u_kt_bits \<le> 16 - sparse_tile_ptr_bits)) (\<lambda>_.
     if t_factor_r = 0 \<and> indices \<noteq> [] then Inl UndefinedBehaviour
     else
     res_bind (encode_loop \<lparr>enc_mk = m_k, enc_u_rt = u_rt, enc_u_kt = u_kt, enc_u_kt_bits = u_kt_bits,
           enc_sparse_tile_ptr_bits = sparse_tile_ptr_bits, enc_sparse_ublock_idx_bits = sparse_ublock_idx_bits,
           enc_t_factor_r = t_factor_r, enc_allow_illegal = PYBUDA_ALLOW_ILLEGAL_SPARSE_PARS env\<rparr> indices
         \<lparr>enc_prev_z = 0, enc_prev_strip_index = 0, enc_nz_ublocks = 0, enc_strip_indices = [],
          enc_allocator = new_allocator\<rparr>) (\<lambda>s.
     res_bind (fold_res (\<lambda>z. push_empty_row (sub32 (m_k * (z div t_factor_r + 1)) 1))
         [enc_prev_z s..<dimz * t_factor_r] (enc_allocator s)) (\<lambda>a.
     res_bind (repeat_strips t_factor_c (m_k * dimz) sparse_ublock_idx_bits a) (\<lambda>a2.
       Inr (finish_buda_strips a2)))))))))"

text \<open>
  The format, read as \<open>print_info_indices\<close> reads it: tile by tile, strip by strip up to the one that is
  the last of its tile. Each strip gives its index, its row flag and its ublocks with their words.
\<close>

primrec read_ublocks :: "nat \<Rightarrow> nat \<Rightarrow> nat list \<Rightarrow> nat \<Rightarrow> ((nat \<times> nat list) list \<times> nat) res" where
  "read_ublocks sparse_ublock_idx_bits 0 mem i = Inr ([], i)"
| "read_ublocks sparse_ublock_idx_bits (Suc n) mem i =
     res_bind (vec_idx mem i) (\<lambda>encoded.
       let nz = tiles_in_header sparse_ublock_idx_bits encoded in
       res_bind (map_res (vec_idx mem) [i + 1..<i + 1 + nz]) (\<lambda>ws.
       res_bind (read_ublocks sparse_ublock_idx_bits n mem (i + 1 + nz)) (\<lambda>(us, j).
         Inr ((take_bit sparse_ublock_idx_bits encoded, ws) # us, j))))"

type_synonym strip_record = "nat \<times> bool \<times> (nat \<times> nat list) list"

lemma read_ublocks_le: "read_ublocks b n mem i = Inr (us, j) \<Longrightarrow> i \<le> j"
  by (induction n arbitrary: i us) (fastforce simp: res_simps Let_def split: prod.splits)+

function read_strips :: "nat \<Rightarrow> nat list \<Rightarrow> nat \<Rightarrow> strip_record list res" where
  "read_strips sparse_ublock_idx_bits mem p =
     (if length mem \<le> p then Inl UndefinedBehaviour
      else res_bind (vec_idx mem p) (\<lambda>w0.
      res_bind (vec_idx mem (p + 1)) (\<lambda>w1.
      res_bind (vec_idx mem (p + 2)) (\<lambda>nz_ublocks.
      res_bind (read_ublocks sparse_ublock_idx_bits nz_ublocks mem (p + 3)) (\<lambda>(us, q).
        let strip = (strip_index_of w0 w1, bit w1 14, us) in
        if bit w1 15 then Inr [strip]
        else res_bind (read_strips sparse_ublock_idx_bits mem q) (\<lambda>strips. Inr (strip # strips)))))))"
  by auto
termination
  by (relation "measure (\<lambda>(_, mem, p). length mem - p)") (auto simp: res_simps dest!: read_ublocks_le)

declare read_strips.simps [simp del]

definition read_encoding :: "nat \<Rightarrow> nat list \<Rightarrow> strip_record list res" where
  "read_encoding sparse_ublock_idx_bits mem =
     res_bind (tt_assert (length mem mod kTileSize = 0)) (\<lambda>_.
     res_bind (map_res (\<lambda>tile_id. read_strips sparse_ublock_idx_bits mem (tile_id * kTileSize))
         [0..<length mem div kTileSize]) (\<lambda>strips. Inr (concat strips)))"

end
