(* ===== verification/Sparse_Buda.thy ===== *)
theory Sparse_Buda
  imports Sparse_Encoding
begin

text \<open>
  \<open>SparseBUDA\<close> (\<open>sparse_matmul_utils\<close>): the widths of the encoding, the layouts, the search for the legal
  factors t, the tiles and encodings of all cores, and the estimates. Sizes stay below \<open>2 ^ 31\<close>, so ints
  are natural numbers; memory is counted in 16-bit words as in the encoding.
\<close>

datatype Layout = Layout_Default | ZMajor | ZMajorDataflow

record SparseBUDA =
  sparse_zs :: "SparseCOO list"
  sparse_indices :: "SparseIndex list"
  sparse_shape :: "nat list"
  sparse_uniq_tiles :: "nat list"
  sb_zdim :: nat
  bcast_factor :: nat

definition kMaxUblocksR :: nat where "kMaxUblocksR = 8192"
definition kMaxSparseTiles :: nat where "kMaxSparseTiles = 4096"
definition kMaxSparseIndexValue :: nat where "kMaxSparseIndexValue = 2 ^ 30"

definition mk_sparse_buda :: "SparseCOO list \<Rightarrow> SparseIndex list \<Rightarrow> nat list \<Rightarrow> nat list \<Rightarrow> nat \<Rightarrow> nat \<Rightarrow> SparseBUDA res" where
  "mk_sparse_buda zs indices sh tiles zdim bcast =
     res_bind (tt_assert (length sh = 2)) (\<lambda>_.
     res_bind (tt_assert (sh ! 1 mod TILE_DIM = 0)) (\<lambda>_.
     res_bind (tt_assert (take_bit 32 (sh ! 1 div TILE_DIM) < kMaxSparseIndexValue)) (\<lambda>_.
       Inr \<lparr>sparse_zs = zs, sparse_indices = indices, sparse_shape = sh, sparse_uniq_tiles = tiles,
            sb_zdim = zdim, bcast_factor = bcast\<rparr>)))"

definition compress_sparse_tensor_and_strip_info :: "SparseEnv \<Rightarrow> SparseCOO list \<Rightarrow> nat \<Rightarrow> SparseBUDA res" where
  "compress_sparse_tensor_and_strip_info env zs bcast =
     (let (indices, tiles) = compress_unique_tiles env zs in
      res_bind (vec_idx zs 0) (\<lambda>z0. mk_sparse_buda zs indices (coo_shape z0) tiles (length zs) bcast))"

section \<open>Widths\<close>

text \<open>The number of tiles and of ublock rows, or the negative error code.\<close>

definition encoding_limits :: "SparseBUDA \<Rightarrow> nat \<Rightarrow> nat \<Rightarrow> nat \<Rightarrow> (int + nat \<times> nat) res" where
  "encoding_limits sb grid_r t_factor_r u_rt =
     (let num_sparse_tiles = take_bit 32 (length (sparse_uniq_tiles sb) div (TILE_DIM * TILE_DIM));
          rows = TILE_DIM * grid_r * t_factor_r * u_rt in
      res_bind (tt_assert (0 < num_sparse_tiles)) (\<lambda>_.
      if kMaxSparseTiles < num_sparse_tiles then Inr (Inl (- 1))
      else res_bind (vec_idx (sparse_shape sb) 0) (\<lambda>h.
      if rows = 0 then Inl UndefinedBehaviour
      else let max_ublocks_r = take_bit 32 (h div rows) in
        Inr (if kMaxUblocksR < max_ublocks_r then Inl (- 2) else Inr (num_sparse_tiles, max_ublocks_r)))))"

definition get_sparse_tile_ptr_bits :: "SparseBUDA \<Rightarrow> nat \<Rightarrow> nat \<Rightarrow> nat \<Rightarrow> int res" where
  "get_sparse_tile_ptr_bits sb grid_r t_factor_r u_rt =
     res_bind (encoding_limits sb grid_r t_factor_r u_rt) (\<lambda>l. Inr (case l of
       Inl e \<Rightarrow> e | Inr (num_sparse_tiles, _) \<Rightarrow> int (bit_length num_sparse_tiles)))"

definition get_sparse_ublock_idx_bits :: "SparseBUDA \<Rightarrow> nat \<Rightarrow> nat \<Rightarrow> nat \<Rightarrow> int res" where
  "get_sparse_ublock_idx_bits sb grid_r t_factor_r u_rt =
     res_bind (encoding_limits sb grid_r t_factor_r u_rt) (\<lambda>l. Inr (case l of
       Inl e \<Rightarrow> e | Inr (num_sparse_tiles, max_ublocks_r) \<Rightarrow> int (bit_length (max num_sparse_tiles max_ublocks_r))))"

definition get_max_u_kt :: "SparseBUDA \<Rightarrow> nat \<Rightarrow> nat \<Rightarrow> nat \<Rightarrow> int \<Rightarrow> nat res" where
  "get_max_u_kt sb grid_r t_factor_r u_rt sparse_tile_ptr_bits =
     res_bind (if sparse_tile_ptr_bits = 0 then get_sparse_tile_ptr_bits sb grid_r t_factor_r u_rt
               else Inr sparse_tile_ptr_bits) (\<lambda>bits.
     res_bind (tt_assert (0 < 16 - bits)) (\<lambda>_.
     res_bind (get_u_rt_encoding_bits u_rt) (\<lambda>u_rt_bits.
     res_bind (tt_assert (0 < 16 - bits - int u_rt_bits)) (\<lambda>_.
       Inr (2 ^ nat (16 - bits - int u_rt_bits))))))"

section \<open>Layouts\<close>

definition create_layout :: "SparseEnv \<Rightarrow> bool \<Rightarrow> Layout" where
  "create_layout env z_major =
     (if z_major \<and> \<not> PYBUDA_SPARSE_DISABLE_LAYOUT_DATAFLOW env then ZMajorDataflow
      else if z_major then ZMajor else Layout_Default)"

text \<open>The slices of one t in the order they are stacked.\<close>

definition stacking_order :: "nat \<Rightarrow> nat \<Rightarrow> nat \<Rightarrow> nat \<Rightarrow> Layout \<Rightarrow> nat \<Rightarrow> nat list" where
  "stacking_order grid_r t_factor_r bcast dflow layout t =
     (if layout = ZMajorDataflow
      then concat (map (\<lambda>r. concat (map (\<lambda>d. map (\<lambda>b.
             b * t_factor_r * grid_r * dflow + t * grid_r * dflow + r * dflow + d) [0..<bcast]) [0..<dflow])) [0..<grid_r])
      else concat (map (\<lambda>b. map (\<lambda>r. b * t_factor_r * grid_r + t * grid_r + r) [0..<grid_r]) [0..<bcast]))"

definition vslice_layout :: "SparseCOO \<Rightarrow> nat \<Rightarrow> nat \<Rightarrow> nat \<Rightarrow> Layout \<Rightarrow> SparseCOO list res" where
  "vslice_layout sparse grid_r t_factor_r bcast layout =
     (if layout = Layout_Default then vslice (grid_r * t_factor_r) sparse
      else res_bind (coo_rt sparse) (\<lambda>rt.
      if layout = ZMajorDataflow \<and> (grid_r = 0 \<or> t_factor_r = 0 \<or> bcast = 0) then Inl UndefinedBehaviour
      else if layout = ZMajorDataflow \<and> rt div grid_r div t_factor_r mod bcast \<noteq> 0 then Inr []
      else (let dflow = (if layout = ZMajorDataflow then rt div grid_r div t_factor_r div bcast else 1) in
        res_bind (vslice (grid_r * t_factor_r * bcast * dflow) sparse) (\<lambda>vsliced.
        res_bind (map_res (\<lambda>t.
          res_bind (map_res (vec_idx vsliced) (stacking_order grid_r t_factor_r bcast dflow layout t)) (\<lambda>b_slices.
            map_res (\<lambda>r. vcat (take (bcast * dflow) (drop (r * bcast * dflow) b_slices))) [0..<grid_r]))
          [0..<t_factor_r]) (\<lambda>slices. Inr (concat slices))))))"

section \<open>Legal factors t\<close>

fun set_intersection :: "nat list \<Rightarrow> nat list \<Rightarrow> nat list" where
  "set_intersection [] ys = []"
| "set_intersection (x # xs) [] = []"
| "set_intersection (x # xs) (y # ys) =
     (if x < y then set_intersection xs (y # ys)
      else if y < x then set_intersection (x # xs) ys
      else x # set_intersection xs ys)"

text \<open>The next slice of the core that has values, or the last one.\<close>

primrec next_slice_of :: "SparseCOO list \<Rightarrow> nat \<Rightarrow> nat \<Rightarrow> nat \<Rightarrow> nat \<Rightarrow> SparseCOO res" where
  "next_slice_of slices grid_r g_r 0 next_idx = vec_idx slices (next_idx * grid_r + g_r)"
| "next_slice_of slices grid_r g_r (Suc k) next_idx =
     res_bind (vec_idx slices (next_idx * grid_r + g_r)) (\<lambda>s.
       if coo_vals s = [] then next_slice_of slices grid_r g_r k (next_idx + 1) else Inr s)"

definition strips_ordered :: "SparseEnv \<Rightarrow> SparseCOO \<Rightarrow> SparseCOO \<Rightarrow> nat \<Rightarrow> bool" where
  "strips_ordered env cur_slice nxt u_kt =
     (let curr_max = (if PYBUDA_ALLOW_ILLEGAL_SPARSE_PARS env then int (last (coo_cols cur_slice)) else bounds_max (col_bounds cur_slice));
          next_min = (if PYBUDA_ALLOW_ILLEGAL_SPARSE_PARS env then int (hd (coo_cols nxt)) else bounds_min (col_bounds nxt)) in
      curr_max div int TILE_DIM div int u_kt \<le> next_min div int TILE_DIM div int u_kt)"

definition legal_step ::
    "SparseEnv \<Rightarrow> SparseCOO list \<Rightarrow> nat \<Rightarrow> nat \<Rightarrow> nat \<Rightarrow> nat \<Rightarrow> nat list \<Rightarrow> nat list res" where
  "legal_step env slices grid_r slices_per_core g_r slice_idx legal_u_kts =
     (if legal_u_kts = [] then Inr []
      else res_bind (vec_idx slices (slice_idx * grid_r + g_r)) (\<lambda>cur_slice.
      res_bind (next_slice_of slices grid_r g_r (slices_per_core - 2 - slice_idx) (slice_idx + 1)) (\<lambda>nxt.
      if coo_vals cur_slice = [] \<or> coo_vals nxt = [] then Inr legal_u_kts
      else if 0 \<in> set legal_u_kts then Inl UndefinedBehaviour
      else Inr (filter (strips_ordered env cur_slice nxt) legal_u_kts))))"

definition legal_u_kts_for :: "SparseEnv \<Rightarrow> SparseCOO list \<Rightarrow> nat \<Rightarrow> nat list \<Rightarrow> nat list res" where
  "legal_u_kts_for env slices grid_r u_kts =
     (if grid_r = 0 then Inl UndefinedBehaviour
      else let slices_per_core = length slices div grid_r in
        fold_res (\<lambda>g_r. fold_res (legal_step env slices grid_r slices_per_core g_r) [0..<slices_per_core - 1])
          [0..<grid_r] u_kts)"

text \<open>One factor for one matrix; the state is the set of its factors and the map from factors to widths.\<close>

definition try_factor ::
    "SparseEnv \<Rightarrow> nat \<Rightarrow> nat list \<Rightarrow> nat \<Rightarrow> Layout \<Rightarrow> SparseCOO \<Rightarrow> nat \<Rightarrow> nat list \<times> (nat \<times> nat list) list \<Rightarrow>
     (nat list \<times> (nat \<times> nat list) list) res" where
  "try_factor env grid_r u_kts bcast layout sparse t s =
     (let (curr_ts, t_to_legal_u_kts) = s in
      if t \<in> set curr_ts then Inr s
      else res_bind (vslice_layout sparse grid_r t bcast layout) (\<lambda>slices.
      if slices = [] then Inr s
      else res_bind (legal_u_kts_for env slices grid_r u_kts) (\<lambda>legal_u_kts.
      if legal_u_kts = [] then Inr s
      else (let now = (case map_of t_to_legal_u_kts t of None \<Rightarrow> legal_u_kts
                         | Some before \<Rightarrow> set_intersection legal_u_kts before) in
        Inr (if now = [] then curr_ts else insort t curr_ts, AList.update t now t_to_legal_u_kts)))))"

definition factors_of_matrix ::
    "SparseEnv \<Rightarrow> nat \<Rightarrow> nat list \<Rightarrow> nat list \<Rightarrow> nat \<Rightarrow> Layout \<Rightarrow> SparseCOO \<Rightarrow> (nat \<times> nat list) list \<Rightarrow>
     (nat list \<times> (nat \<times> nat list) list) res" where
  "factors_of_matrix env grid_r potential_ts u_kts bcast layout sparse m =
     fold_res (try_factor env grid_r u_kts bcast layout sparse) potential_ts ([1], m)"

fun par_t_loop ::
    "SparseEnv \<Rightarrow> nat \<Rightarrow> nat list \<Rightarrow> nat list \<Rightarrow> nat \<Rightarrow> Layout \<Rightarrow> nat list option \<Rightarrow> (nat \<times> nat list) list \<Rightarrow>
     SparseCOO list \<Rightarrow> SparseCOO list \<Rightarrow> ((nat \<times> nat list) list \<times> SparseCOO list) res" where
  "par_t_loop env grid_r potential_ts u_kts bcast layout ts m before [] =
     (let m1 = fold (\<lambda>t m. if map_of m t = Some [] then AList.delete t m else m) (case ts of None \<Rightarrow> [] | Some ts \<Rightarrow> ts) m in
      res_bind (tt_assert (m1 \<noteq> [])) (\<lambda>_. Inr (m1, before)))"
| "par_t_loop env grid_r potential_ts u_kts bcast layout ts m before (z # zs) =
     res_bind (coo_sort COLUMN_MAJOR z) (\<lambda>sparse.
     res_bind (factors_of_matrix env grid_r potential_ts u_kts bcast layout sparse m) (\<lambda>(curr_ts, m1).
     let ts1 = (case ts of None \<Rightarrow> curr_ts | Some ts \<Rightarrow> set_intersection ts curr_ts) in
     if ts \<noteq> None \<and> length ts1 = 1 then Inr ([(1, [])], before @ sparse # zs)
     else par_t_loop env grid_r potential_ts u_kts bcast layout (Some ts1) m1 (before @ [sparse]) zs))"

definition get_par_t_values ::
    "SparseEnv \<Rightarrow> nat \<Rightarrow> nat list \<Rightarrow> SparseCOO list \<Rightarrow> nat list \<Rightarrow> nat \<Rightarrow> Layout \<Rightarrow>
     ((nat \<times> nat list) list \<times> SparseCOO list) res" where
  "get_par_t_values env grid_r potential_ts zs u_kts bcast layout =
     res_bind (tt_assert (zs \<noteq> [])) (\<lambda>_.
     res_bind (tt_assert (length (coo_shape (hd zs)) = 2)) (\<lambda>_.
     if potential_ts = [] \<or> potential_ts = [1] then Inr ([(1, [])], zs)
     else par_t_loop env grid_r (rev (sort potential_ts)) u_kts bcast layout None [(1, u_kts)] [] zs))"

section \<open>Tiles and encodings\<close>

definition comp_zcr_ublocked :: "SparseIndex \<Rightarrow> SparseIndex \<Rightarrow> nat \<Rightarrow> nat \<Rightarrow> bool" where
  "comp_zcr_ublocked a b u_rt u_kt =
     (if si_z a = si_z b
      then (if si_ct a div u_kt = si_ct b div u_kt
        then (if si_rt a div u_rt = si_rt b div u_rt
          then (if si_rt a = si_rt b then si_ct a < si_ct b else si_rt a < si_rt b)
          else si_rt a div u_rt < si_rt b div u_rt)
        else si_ct a div u_kt < si_ct b div u_kt)
      else si_z a < si_z b)"

text \<open>
  \<open>std::sort\<close> with this comparison. It sorts by the key below; indices with the same key, whose order is
  open, do not occur after a compression.
\<close>

definition zcr_key :: "nat \<Rightarrow> nat \<Rightarrow> SparseIndex \<Rightarrow> nat \<times> nat \<times> nat \<times> nat \<times> nat" where
  "zcr_key u_rt u_kt si = (si_z si, si_ct si div u_kt, si_rt si div u_rt, si_rt si, si_ct si)"

definition sort_zcr_ublocked :: "nat \<Rightarrow> nat \<Rightarrow> SparseIndex list \<Rightarrow> SparseIndex list" where
  "sort_zcr_ublocked u_rt u_kt = sort_key (zcr_key u_rt u_kt)"

lemma comp_zcr_is_key: "comp_zcr_ublocked a b u_rt u_kt \<longleftrightarrow> zcr_key u_rt u_kt a < zcr_key u_rt u_kt b"
  by (auto simp: comp_zcr_ublocked_def zcr_key_def less_prod_def)

text \<open>The slices of all matrices, and those of one core: every \<open>grid_r\<close>-th from \<open>g_r\<close> on.\<close>

definition slice_all :: "SparseBUDA \<Rightarrow> nat \<Rightarrow> nat \<Rightarrow> Layout \<Rightarrow> SparseCOO list res" where
  "slice_all sb grid_r t_factor_r layout =
     res_bind (map_res (\<lambda>z.
         res_bind (coo_sort ROW_MAJOR z) (\<lambda>sparse.
         res_bind (vslice_layout sparse grid_r t_factor_r (bcast_factor sb) layout) (\<lambda>slices.
         res_bind (tt_assert (slices \<noteq> [])) (\<lambda>_. Inr slices)))) (sparse_zs sb))
       (\<lambda>slices. Inr (concat slices))"

definition slices_of_core :: "nat \<Rightarrow> nat \<Rightarrow> 'a list \<Rightarrow> 'a list" where
  "slices_of_core grid_r g_r xs = map (nth xs) (filter (\<lambda>i. i mod grid_r = g_r) [0..<length xs])"

definition encode_core ::
    "SparseEnv \<Rightarrow> SparseBUDA \<Rightarrow> nat \<Rightarrow> nat \<Rightarrow> nat \<Rightarrow> nat \<Rightarrow> nat \<Rightarrow> nat \<Rightarrow> nat \<Rightarrow> SparseCOO list \<Rightarrow> nat \<Rightarrow>
     (nat list \<times> nat list \<times> nat) res" where
  "encode_core env sb grid_r t_factor_r t_factor_c u_rt u_kt ptr_bits ublock_bits slice_ztr g_r =
     (let curr_slice_ts = slices_of_core grid_r g_r slice_ztr;
          (indices, curr_tiles) = compress_unique_tiles env curr_slice_ts in
      res_bind (vec_idx curr_slice_ts 0) (\<lambda>s0.
      res_bind (vec_idx (coo_shape s0) 1) (\<lambda>dimc.
      res_bind (encode_strips env (sort_zcr_ublocked u_rt u_kt indices) (length (sparse_zs sb)) dimc u_rt u_kt
          ptr_bits ublock_bits t_factor_r t_factor_c) (\<lambda>(encoded, num_strips).
        Inr (curr_tiles, encoded, num_strips)))))"

definition pad_to :: "nat \<Rightarrow> nat list \<Rightarrow> nat list" where
  "pad_to n xs = xs @ replicate (n - length xs) 0"

definition get_sparse_tiles_and_encodings ::
    "SparseEnv \<Rightarrow> SparseBUDA \<Rightarrow> nat \<Rightarrow> nat \<Rightarrow> nat \<Rightarrow> nat \<Rightarrow> nat \<Rightarrow> Layout \<Rightarrow>
     (nat list list \<times> nat list list \<times> nat list \<times> nat list \<times> nat list) res" where
  "get_sparse_tiles_and_encodings env sb grid_r t_factor_r t_factor_c u_rt u_kt layout =
     res_bind (get_sparse_tile_ptr_bits sb grid_r t_factor_r u_rt) (\<lambda>ptr_bits.
     res_bind (get_sparse_ublock_idx_bits sb grid_r t_factor_r u_rt) (\<lambda>ublock_bits.
     res_bind (tt_assert (0 < ptr_bits \<and> 0 < ublock_bits)) (\<lambda>_.
     res_bind (get_u_rt_encoding_bits u_rt) (\<lambda>u_rt_bits.
     res_bind (get_u_kt_encoding_bits u_kt) (\<lambda>u_kt_bits.
     res_bind (tt_assert (ptr_bits + int u_rt_bits + int u_kt_bits \<le> 16)) (\<lambda>_.
     res_bind (slice_all sb grid_r t_factor_r layout) (\<lambda>slice_ztr.
     res_bind (map_res (encode_core env sb grid_r t_factor_r t_factor_c u_rt u_kt (nat ptr_bits) (nat ublock_bits) slice_ztr)
         [0..<grid_r]) (\<lambda>cores.
     if cores = [] then Inl UndefinedBehaviour
     else (let sparse_tiles = map fst cores; buda_indices = map (fst \<circ> snd) cores;
               sparse_max_len = Max (set (map length sparse_tiles));
               words = Max (set (map length buda_indices));
               indices_max_len = (words + kTileSize - 1) div kTileSize * kTileSize in
       Inr (map (pad_to sparse_max_len) sparse_tiles, map (pad_to indices_max_len) buda_indices,
            [1, 1, grid_r * TILE_DIM, sparse_max_len div TILE_DIM],
            [1, 1, grid_r * TILE_DIM, indices_max_len div 2 div TILE_DIM], map (snd \<circ> snd) cores))))))))))"

end
