(* ===== verification/Sparse_Strips.thy ===== *)
theory Sparse_Strips
  imports Sparse_Encoding
begin

text \<open>
  Reading back what the strip allocator wrote: the memory is a sequence of tiles, each holding whole
  strips of which only the last carries the flag \<open>last_strip_in_tile\<close>, and reading it gives the strips
  that were pushed, in order.
\<close>

section \<open>Bit widths\<close>

lemma bit_length_bounds: "0 < n \<Longrightarrow> 2 ^ (bit_length n - 1) \<le> n \<and> n < 2 ^ bit_length n"
proof (induction n rule: bit_length.induct)
  case (1 n)
  show ?case
  proof (cases "n div 2 = 0")
    case True
    then have "n = 1" using 1(2) by simp
    then show ?thesis by (simp add: bit_length.simps)
  next
    case False
    then have IH: "2 ^ (bit_length (n div 2) - 1) \<le> n div 2" "n div 2 < 2 ^ bit_length (n div 2)" using 1 by auto
    have l: "bit_length n = Suc (bit_length (n div 2))" using 1(2) by (simp add: bit_length.simps [of n])
    have pos: "0 < bit_length (n div 2)" using False by (simp add: bit_length.simps [of "n div 2"])
    have "2 * 2 ^ (bit_length (n div 2) - 1) \<le> n" using IH(1) by linarith
    moreover have "2 * 2 ^ (bit_length (n div 2) - 1) = (2 :: nat) ^ bit_length (n div 2)"
      using pos by (metis Suc_pred' power_Suc)
    moreover have "n < 2 * 2 ^ bit_length (n div 2)" using IH(2) by linarith
    ultimately show ?thesis by (simp add: l)
  qed
qed

lemma and_pred_zero: "0 < n \<Longrightarrow> n AND (n - 1) = 0 \<longleftrightarrow> n = 2 ^ (bit_length n - 1)" for n :: nat
proof (induction n rule: bit_length.induct)
  case (1 n)
  show ?case
  proof (cases "n = 1")
    case True
    then show ?thesis by (simp add: bit_length.simps)
  next
    case n: False
    then have half: "0 < n div 2" "n \<noteq> 0" using 1(2) by auto
    then have IH: "n div 2 AND (n div 2 - 1) = 0 \<longleftrightarrow> n div 2 = 2 ^ (bit_length (n div 2) - 1)" using 1 by auto
    have l: "bit_length n = Suc (bit_length (n div 2))" using half by (simp add: bit_length.simps [of n])
    have pos: "0 < bit_length (n div 2)" using half by (simp add: bit_length.simps [of "n div 2"])
    then have p: "(2 :: nat) ^ (bit_length n - 1) = 2 * 2 ^ (bit_length (n div 2) - 1)"
      unfolding l by (metis Suc_pred' diff_Suc_1 power_Suc)
    show ?thesis
    proof (cases "even n")
      case True
      then have "(n - 1) div 2 = n div 2 - 1" by (elim evenE) simp
      then have "n AND (n - 1) = 2 * (n div 2 AND (n div 2 - 1))"
        using True half by (subst and_rec) simp
      moreover have "n = 2 ^ (bit_length n - 1) \<longleftrightarrow> n div 2 = 2 ^ (bit_length (n div 2) - 1)"
        unfolding p using True by (elim evenE) simp
      ultimately show ?thesis using IH by simp
    next
      case False
      then have "(n - 1) div 2 = n div 2" by (elim oddE) simp
      then have "n AND (n - 1) = 2 * (n div 2)" using False by (subst and_rec) simp
      moreover have "n \<noteq> 2 ^ (bit_length n - 1)" using False unfolding p by (metis dvd_triv_left)
      ultimately show ?thesis using half by simp
    qed
  qed
qed

text \<open>The width for \<open>u\<close> values is the least one that holds all of them.\<close>

lemma u_rt_bits_least:
  assumes "get_u_rt_encoding_bits u = Inr k"
  shows "u \<le> 2 ^ k" "u \<le> 2 ^ j \<Longrightarrow> k \<le> j" "0 < u"
proof -
  show u: "0 < u" using assms by (auto simp: get_u_rt_encoding_bits_def clz_width_def split: if_splits)
  have k: "k = bit_length u - (if u = 2 ^ (bit_length u - 1) then 1 else 0)"
    using assms u and_pred_zero [OF u] by (simp add: get_u_rt_encoding_bits_def clz_width_def del: One_nat_def)
  note B = bit_length_bounds [OF u]
  have pos: "0 < bit_length u" using u by (simp add: bit_length.simps [of u])
  show "u \<le> 2 ^ k" using k B by (auto split: if_splits)
  show "k \<le> j" if "u \<le> 2 ^ j"
  proof (cases "u = 2 ^ (bit_length u - 1)")
    case True
    then have "(2 :: nat) ^ (bit_length u - 1) \<le> 2 ^ j" using that by simp
    then show ?thesis using k True by (simp add: power_le_imp_le_exp)
  next
    case False
    then have "2 ^ (bit_length u - 1) < u" using B by simp
    then have "(2 :: nat) ^ (bit_length u - 1) < 2 ^ j" using that by linarith
    then have "bit_length u - 1 < j" by (rule power_less_imp_less_exp [rotated]) simp
    then show ?thesis using k False pos by simp
  qed
qed

lemma u_kt_bits_enough:
  assumes "get_u_kt_encoding_bits u = Inr k"
  shows "u \<le> 2 ^ k" "0 < u" "0 < k"
proof -
  obtain k' where k': "get_u_rt_encoding_bits u = Inr k'" "k = max k' 1"
    using assms by (auto simp: get_u_kt_encoding_bits_def get_u_rt_encoding_bits_def res_simps)
  show "0 < u" by (rule u_rt_bits_least(3) [OF k'(1)])
  have "u \<le> 2 ^ k'" by (rule u_rt_bits_least(1) [OF k'(1)])
  also have "(2 :: nat) ^ k' \<le> 2 ^ k" using k'(2) by (intro power_increasing) simp_all
  finally show "u \<le> 2 ^ k" .
  show "0 < k" using k'(2) by simp
qed

section \<open>Words\<close>

lemma small_bits: "x < 2 ^ 30 \<Longrightarrow> 30 \<le> m \<Longrightarrow> \<not> bit x m" for x :: nat
  by (metis bit_take_bit_iff not_le take_bit_nat_eq_self)

definition header_flags :: "nat \<Rightarrow> bool \<Rightarrow> bool \<Rightarrow> nat" where
  "header_flags strip_index r t = drop_bit 16 strip_index OR push_bit 14 (of_bool r) OR push_bit 15 (of_bool t)"

lemma header_index:
  assumes "strip_index < 2 ^ 30"
  shows "strip_index_of (take_bit 16 strip_index) (header_flags strip_index r t) = strip_index"
  by (rule bit_eqI) (use small_bits [OF assms] in \<open>auto simp: strip_index_of_def header_flags_def bit_simps not_less\<close>)

lemma bit_header:
  assumes "strip_index < 2 ^ 30"
  shows "bit (header_flags strip_index r t) 14 = r" "bit (header_flags strip_index r t) 15 = t"
  using small_bits [OF assms] by (auto simp: header_flags_def bit_simps)

lemma flag_bits: "bit (32768 :: nat) n \<longleftrightarrow> n = 15" "bit (16384 :: nat) n \<longleftrightarrow> n = 14"
proof -
  have "(32768 :: nat) = 2 ^ 15" "(16384 :: nat) = 2 ^ 14" by simp_all
  then show "bit (32768 :: nat) n \<longleftrightarrow> n = 15" "bit (16384 :: nat) n \<longleftrightarrow> n = 14" by (simp_all only: bit_exp_iff) auto
qed

lemma set_header_flag:
  "set_bit 15 (header_flags i r t) = header_flags i r True"
  "set_bit 14 (header_flags i r t) = header_flags i True t"
  by (rule bit_eqI; auto simp: header_flags_def bit_simps flag_bits)+

lemma ublock_header_read:
  assumes "u < 2 ^ b" "b \<le> 16" "0 < n" "n \<le> 2 ^ (16 - b)" "0 < b"
    and h: "h = take_bit 16 (push_bit b (if n = 2 ^ (16 - b) then 0 else n)) OR u"
  shows "take_bit b h = u" "tiles_in_header b h = n"
proof -
  let ?n = "if n = 2 ^ (16 - b) then 0 else n"
  have "?n < 2 ^ (16 - b)" using assms(4) by auto
  then have "push_bit b ?n < 2 ^ (16 - b) * 2 ^ b" by (simp add: push_bit_eq_mult)
  also have "(2 :: nat) ^ (16 - b) * 2 ^ b = 2 ^ 16" using assms(2) by (simp flip: power_add)
  finally have h': "h = push_bit b ?n OR u" unfolding h by (simp add: take_bit_nat_eq_self)
  have u: "take_bit b u = u" "drop_bit b u = 0" using assms(1) by (simp_all add: take_bit_nat_eq_self drop_bit_eq_div)
  show "take_bit b h = u" unfolding h' by (simp add: u take_bit_push_bit)
  have "drop_bit b (push_bit b ?n) = ?n" by (simp add: drop_bit_eq_div push_bit_eq_mult)
  then have "drop_bit b h = ?n" unfolding h' by (simp add: u)
  moreover have "take_bit 16 ((2 :: nat) ^ (16 - b)) = 2 ^ (16 - b)"
    using assms(2,5) by (intro take_bit_nat_eq_self power_strict_increasing) auto
  ultimately show "tiles_in_header b h = n"
    using assms(3) by (auto simp: tiles_in_header_def push_bit_eq_mult simp del: take_bit_eq_self_iff_drop_bit_eq_0)
qed

text \<open>
  The layout of the memory of the strip allocator: a sequence of tiles, each holding whole strips of
  which only the last carries the flag \<open>last_strip_in_tile\<close>, and the reader on such a memory.
\<close>

section \<open>Strips as words\<close>

definition ublock_word :: "nat \<Rightarrow> nat \<Rightarrow> nat \<Rightarrow> nat" where
  "ublock_word b u n = take_bit 16 (push_bit b (if n = 2 ^ (16 - b) then 0 else n)) OR u"

primrec ublock_words :: "nat \<Rightarrow> (nat \<times> nat list) list \<Rightarrow> nat list" where
  "ublock_words b [] = []"
| "ublock_words b (x # us) = ublock_word b (fst x) (length (snd x)) # snd x @ ublock_words b us"

definition ok_ublock :: "nat \<Rightarrow> nat \<times> nat list \<Rightarrow> bool" where
  "ok_ublock b x \<longleftrightarrow> fst x < 2 ^ b \<and> snd x \<noteq> [] \<and> length (snd x) \<le> 2 ^ (16 - b)"

fun strip_words :: "nat \<Rightarrow> bool \<Rightarrow> strip_record \<Rightarrow> nat list" where
  "strip_words b t (i, r, us) = [take_bit 16 i, header_flags i r t, length us] @ ublock_words b us"

fun ok_strip :: "nat \<Rightarrow> strip_record \<Rightarrow> bool" where
  "ok_strip b (i, r, us) \<longleftrightarrow> i < 2 ^ 30 \<and> list_all (ok_ublock b) us \<and> length us < 2 ^ 16 \<and>
     3 + length (ublock_words b us) < kTileSize"

definition ok_bits :: "nat \<Rightarrow> bool" where "ok_bits b \<longleftrightarrow> 0 < b \<and> b \<le> 16"

lemma read_ublocks_step:
  assumes "vec_idx mem i = Inr h" "tiles_in_header b h = n" "map_res (vec_idx mem) [i + 1..<i + 1 + n] = Inr ws"
    "read_ublocks b k mem (i + 1 + n) = Inr (us, j)"
  shows "read_ublocks b (Suc k) mem i = Inr ((take_bit b h, ws) # us, j)"
  using assms by (simp add: Let_def del: upt_Suc)

lemma read_ublocks_written:
  assumes "ok_bits b" "list_all (ok_ublock b) us"
  shows "read_ublocks b (length us) (pre @ ublock_words b us @ post) (length pre) =
    Inr (us, length pre + length (ublock_words b us))"
  using assms(2)
proof (induction us arbitrary: pre)
  case Nil
  then show ?case by simp
next
  case (Cons x us)
  obtain u ws where x: "x = (u, ws)" by force
  let ?h = "ublock_word b u (length ws)" and ?mem = "pre @ ublock_words b (x # us) @ post"
  have ok: "u < 2 ^ b" "ws \<noteq> []" "length ws \<le> 2 ^ (16 - b)" using Cons.prems by (auto simp: ok_ublock_def x)
  have h: "take_bit b ?h = u" "tiles_in_header b ?h = length ws"
    using ublock_header_read [of u b "length ws" ?h] ok assms(1) by (auto simp: ublock_word_def ok_bits_def)
  have mem: "?mem = (pre @ ?h # ws) @ ublock_words b us @ post" by (simp add: x)
  have h0: "vec_idx ?mem (length pre) = Inr ?h" by (simp add: res_simps x)
  have pick: "map_res (vec_idx (p0 @ ys @ q)) [length p0..<length p0 + length ys] = Inr ys" for p0 ys q :: "nat list"
  proof -
    have "map_res (vec_idx (p0 @ ys @ q)) [length p0..<length p0 + length ys] =
        Inr (map (nth (p0 @ ys @ q)) [length p0..<length p0 + length ys])"
      by (rule map_res_pure) (auto simp: res_simps)
    also have "map (nth (p0 @ ys @ q)) [length p0..<length p0 + length ys] = ys"
      by (rule nth_equalityI) (auto simp: nth_append)
    finally show ?thesis .
  qed
  have ws: "map_res (vec_idx ?mem) [length pre + 1..<length pre + 1 + length ws] = Inr ws"
    using pick [of "pre @ [?h]" ws "ublock_words b us @ post"] by (simp add: x)
  have "read_ublocks b (length us) ?mem (length pre + 1 + length ws) =
      Inr (us, length pre + 1 + length ws + length (ublock_words b us))"
    using Cons.IH [of "pre @ ?h # ws"] Cons.prems unfolding mem by simp
  then have "read_ublocks b (Suc (length us)) ?mem (length pre) =
      Inr ((take_bit b ?h, ws) # us, length pre + 1 + length ws + length (ublock_words b us))"
    by (rule read_ublocks_step [OF h0 h(2) ws])
  then show ?case by (simp add: x h)
qed

fun closed_words :: "nat \<Rightarrow> strip_record list \<Rightarrow> nat list" where
  "closed_words b [] = []"
| "closed_words b [s] = strip_words b True s"
| "closed_words b (s # s' # ss) = strip_words b False s @ closed_words b (s' # ss)"

text \<open>One strip of a tile that is read where it was written.\<close>

lemma read_strip_step:
  assumes "ok_bits b" "ok_strip b (i, r, us)" and mem: "mem = pre @ strip_words b t (i, r, us) @ post"
  shows "read_strips b mem (length pre) =
    (if t then Inr [(i, r, us)]
     else res_bind (read_strips b mem (length (pre @ strip_words b t (i, r, us)))) (\<lambda>strips. Inr ((i, r, us) # strips)))"
proof -
  let ?n = "length pre"
  have i: "i < 2 ^ 30" and us: "list_all (ok_ublock b) us" using assms(2) by simp_all
  have w: "vec_idx mem ?n = Inr (take_bit 16 i)" "vec_idx mem (?n + 1) = Inr (header_flags i r t)"
    "vec_idx mem (?n + 2) = Inr (length us)"
    unfolding mem by (simp_all add: res_simps nth_append)
  have "mem = (pre @ [take_bit 16 i, header_flags i r t, length us]) @ ublock_words b us @ post"
    unfolding mem by simp
  then have u: "read_ublocks b (length us) mem (?n + 3) = Inr (us, ?n + 3 + length (ublock_words b us))"
    using read_ublocks_written [OF assms(1) us, of "pre @ [take_bit 16 i, header_flags i r t, length us]" post]
    by (simp add: numeral_3_eq_3)
  have l: "\<not> length mem \<le> ?n" unfolding mem by simp
  have q: "length (pre @ strip_words b t (i, r, us)) = ?n + 3 + length (ublock_words b us)" by simp
  show ?thesis
    unfolding q by (subst read_strips.simps) (use l w u header_index [OF i] bit_header [OF i] in \<open>simp add: Let_def\<close>)
qed

lemma read_strips_written:
  assumes "ok_bits b" "list_all (ok_strip b) ss" "ss \<noteq> []"
  shows "read_strips b (pre @ closed_words b ss @ post) (length pre) = Inr ss"
  using assms
proof (induction ss arbitrary: pre rule: closed_words.induct)
  case (1 b)
  then show ?case by simp
next
  case (2 b s)
  obtain i r us where s: "s = (i, r, us)" by (cases s)
  show ?case using read_strip_step [OF 2(1), of i r us _ pre True post] 2(2) by (simp add: s del: strip_words.simps)
next
  case (3 b s s' ss)
  obtain i r us where s: "s = (i, r, us)" by (cases s)
  let ?mem = "pre @ closed_words b (s # s' # ss) @ post"
  have mem: "?mem = pre @ strip_words b False (i, r, us) @ closed_words b (s' # ss) @ post" by (simp add: s)
  have "read_strips b ((pre @ strip_words b False (i, r, us)) @ closed_words b (s' # ss) @ post)
      (length (pre @ strip_words b False (i, r, us))) = Inr (s' # ss)"
    by (rule 3(1)) (use 3(2-) in simp_all)
  then show ?case
    using read_strip_step [OF 3(2), of i r us ?mem pre False "closed_words b (s' # ss) @ post"] 3(3) mem
    by (simp add: s del: strip_words.simps)
qed

lemma closed_words_snoc:
  "closed_words b (ss @ [s]) = concat (map (strip_words b False) ss) @ strip_words b True s"
  by (induction ss rule: closed_words.induct) simp_all

section \<open>Tiles\<close>

definition padded :: "nat list \<Rightarrow> nat list" where
  "padded ws = ws @ replicate (kTileSize - length ws) 0"

lemma length_padded: "length ws \<le> kTileSize \<Longrightarrow> length (padded ws) = kTileSize"
  by (simp add: padded_def)

definition ok_tile :: "nat \<Rightarrow> strip_record list \<Rightarrow> bool" where
  "ok_tile b ss \<longleftrightarrow> ss \<noteq> [] \<and> list_all (ok_strip b) ss \<and> length (closed_words b ss) \<le> kTileSize"

definition tile_words :: "nat \<Rightarrow> strip_record list list \<Rightarrow> nat list" where
  "tile_words b tss = concat (map (\<lambda>ss. padded (closed_words b ss)) tss)"

lemma length_tile_words: "list_all (ok_tile b) tss \<Longrightarrow> length (tile_words b tss) = length tss * kTileSize"
  by (induction tss) (simp_all add: tile_words_def ok_tile_def length_padded)

lemma read_tiles_written:
  assumes "ok_bits b" "list_all (ok_tile b) tss"
  shows "read_encoding b (tile_words b tss) = Inr (concat tss)"
proof -
  let ?mem = "tile_words b tss"
  have len: "length ?mem = length tss * kTileSize" by (rule length_tile_words [OF assms(2)])
  have "read_strips b ?mem (n * kTileSize) = Inr (tss ! n)" if "n < length tss" for n
  proof -
    let ?ss = "tss ! n"
    have split: "tss = take n tss @ ?ss # drop (Suc n) tss" by (rule id_take_nth_drop [OF that])
    have ok: "list_all (ok_tile b) (take n tss)" "ok_tile b ?ss"
      using assms(2) that by (auto simp: list_all_iff dest: in_set_takeD)
    have pre: "length (tile_words b (take n tss)) = n * kTileSize" using length_tile_words [OF ok(1)] that by simp
    have "?mem = tile_words b (take n tss) @ closed_words b ?ss @
        replicate (kTileSize - length (closed_words b ?ss)) 0 @ tile_words b (drop (Suc n) tss)"
      by (subst split) (simp add: tile_words_def padded_def)
    then show ?thesis
      using read_strips_written [OF assms(1), of ?ss "tile_words b (take n tss)"] ok(2) pre by (simp add: ok_tile_def)
  qed
  then have "map_res (\<lambda>n. read_strips b ?mem (n * kTileSize)) [0..<length tss] = Inr (map (nth tss) [0..<length tss])"
    by (intro map_res_pure) simp
  then show ?thesis using len by (simp add: read_encoding_def map_nth kTileSize_def)
qed

end
