(* ===== verification/Sparse_Alloc.thy ===== *)
theory Sparse_Alloc
  imports Sparse_Strips
begin

text \<open>
  The strip allocator keeps the layout: closed tiles and an open one whose last strip is the previous
  strip. Finishing closes the last tile, and what is read then is the strips that were pushed.
\<close>

definition open_words :: "nat \<Rightarrow> strip_record list \<Rightarrow> nat list" where
  "open_words b ss = concat (map (strip_words b False) ss)"

lemma open_words_simps [simp]:
  "open_words b [] = []"
  "open_words b (s # ss) = strip_words b False s @ open_words b ss"
  "open_words b (ss @ ss') = open_words b ss @ open_words b ss'"
  by (simp_all add: open_words_def)

lemma open_words_snoc: "open_words b (ss @ [s]) = open_words b ss @ strip_words b False s"
  by (simp add: open_words_def)

lemma closed_words_last: "closed_words b (ss @ [s]) = open_words b ss @ strip_words b True s"
  by (simp add: open_words_def closed_words_snoc)

lemma length_strip_words: "length (strip_words b t (i, r, us)) = 3 + length (ublock_words b us)"
  by simp

definition open_layout :: "nat \<Rightarrow> StripAllocator \<Rightarrow> strip_record list list \<Rightarrow> strip_record list \<Rightarrow> strip_record \<Rightarrow> bool" where
  "open_layout b a tss ss s \<longleftrightarrow>
     list_all (ok_tile b) tss \<and> list_all (ok_strip b) (ss @ [s]) \<and> length (open_words b (ss @ [s])) \<le> kTileSize \<and>
     buda_strips a = tile_words b tss @ padded (open_words b (ss @ [s])) \<and>
     strip_offset a = length tss * kTileSize + length (open_words b (ss @ [s])) \<and>
     prev_strip_ptr a = Some (length tss * kTileSize + length (open_words b ss)) \<and>
     num_strips a = length (concat tss) + length ss + 1"

text \<open>The allocator holds these strips, in this order.\<close>

definition holds_strips :: "nat \<Rightarrow> strip_record list \<Rightarrow> StripAllocator \<Rightarrow> bool" where
  "holds_strips b all a \<longleftrightarrow>
     (if all = [] then a = new_allocator
      else \<exists>tss ss s. all = concat tss @ ss @ [s] \<and> open_layout b a tss ss s)"

lemma holds_stripsD:
  assumes "holds_strips b all a" "all \<noteq> []"
  shows "\<exists>tss ss s. all = concat tss @ ss @ [s] \<and> open_layout b a tss ss s"
  using assms by (simp only: holds_strips_def if_False)

lemma set_strip_flags:
  "set_last_in_tile (length pre) (pre @ strip_words b t (i, r, us) @ post) = pre @ strip_words b True (i, r, us) @ post"
  "set_last_in_row (length pre) (pre @ strip_words b t (i, r, us) @ post) = pre @ strip_words b t (i, True, us) @ post"
  by (simp_all add: set_last_in_tile_def set_last_in_row_def nth_append list_update_append set_header_flag)

lemma memcpy_zeros:
  assumes "length ws \<le> n"
  shows "memcpy (length pre) ws (pre @ replicate n 0) = pre @ ws @ replicate (n - length ws) 0"
  using assms by (simp add: memcpy_def)

text \<open>The first strip of a new tile, and a strip that fits into the open one.\<close>

lemma push_into_new_tile:
  assumes tss: "list_all (ok_tile b) tss" and s: "ok_strip b s"
    and a: "buda_strips a = tile_words b tss" "num_strips a = length (concat tss)"
  defines "a1 \<equiv> allocate_tile a"
  shows "open_layout b (a1\<lparr>prev_strip_ptr := Some (strip_offset a1),
      buda_strips := memcpy (strip_offset a1) (strip_words b False s) (buda_strips a1),
      strip_offset := strip_offset a1 + length (strip_words b False s), num_strips := num_strips a1 + 1\<rparr>) tss [] s"
proof -
  let ?w = "strip_words b False s"
  have w: "length ?w \<le> kTileSize" using s by (cases s) auto
  have a1: "buda_strips a1 = tile_words b tss @ replicate kTileSize 0" "strip_offset a1 = length (tile_words b tss)"
      "num_strips a1 = length (concat tss)"
    using a by (simp_all add: a1_def allocate_tile_def)
  have "memcpy (strip_offset a1) ?w (buda_strips a1) = tile_words b tss @ padded ?w"
    unfolding a1(1,2) by (subst memcpy_zeros [OF w]) (simp add: padded_def)
  then show ?thesis
    using tss s w a1 by (simp add: open_layout_def open_words_def length_tile_words [OF tss])
qed

lemma push_into_open_tile:
  assumes L: "open_layout b a tss ss s0" and s: "ok_strip b s"
    and fits: "strip_offset a + length (strip_words b False s) \<le> length (buda_strips a)"
  shows "open_layout b (a\<lparr>prev_strip_ptr := Some (strip_offset a),
      buda_strips := memcpy (strip_offset a) (strip_words b False s) (buda_strips a),
      strip_offset := strip_offset a + length (strip_words b False s), num_strips := num_strips a + 1\<rparr>) tss (ss @ [s0]) s"
proof -
  let ?w = "strip_words b False s" and ?o = "open_words b (ss @ [s0])"
  have tss: "list_all (ok_tile b) tss" and o: "length ?o \<le> kTileSize"
    and mem: "buda_strips a = tile_words b tss @ padded ?o"
    and off: "strip_offset a = length tss * kTileSize + length ?o"
    using L by (simp_all only: open_layout_def)
  note lt = length_tile_words [OF tss]
  have w: "length ?o + length ?w \<le> kTileSize"
    using fits by (simp only: mem off length_append lt length_padded [OF o])
  have pre: "strip_offset a = length (tile_words b tss @ ?o)" using off lt by simp
  have "memcpy (strip_offset a) ?w (buda_strips a) =
      memcpy (length (tile_words b tss @ ?o)) ?w ((tile_words b tss @ ?o) @ replicate (kTileSize - length ?o) 0)"
    unfolding pre mem padded_def by (simp only: append_assoc)
  also have "\<dots> = (tile_words b tss @ ?o) @ ?w @ replicate (kTileSize - length ?o - length ?w) 0"
    by (rule memcpy_zeros, use w in linarith)
  also have "\<dots> = tile_words b tss @ padded (open_words b ((ss @ [s0]) @ [s]))"
    unfolding padded_def open_words_snoc [of b "ss @ [s0]"] by (simp only: append_assoc length_append diff_diff_left)
  finally show ?thesis
    using L s w off unfolding open_layout_def by (simp del: strip_words.simps ok_strip.simps)
qed

text \<open>Closing the open tile.\<close>

lemma close_tile:
  assumes L: "open_layout b a tss ss s" and p: "prev_strip_ptr a = Some p"
  shows "set_last_in_tile p (buda_strips a) = tile_words b (tss @ [ss @ [s]])" "ok_tile b (ss @ [s])"
proof -
  obtain i r us where s: "s = (i, r, us)" by (cases s)
  let ?w = "\<lambda>t. strip_words b t (i, r, us)"
  have tss: "list_all (ok_tile b) tss" and mem: "buda_strips a = tile_words b tss @ padded (open_words b (ss @ [s]))"
    and p': "p = length (tile_words b tss @ open_words b ss)"
    using L p length_tile_words [of b tss] by (auto simp: open_layout_def)
  have "set_last_in_tile p (buda_strips a) = (tile_words b tss @ open_words b ss) @ ?w True @
      replicate (kTileSize - length (open_words b (ss @ [s]))) 0"
    unfolding p' mem padded_def s
    using set_strip_flags(1) [of "tile_words b tss @ open_words b ss" b False i r us] by (simp del: strip_words.simps)
  also have "\<dots> = tile_words b (tss @ [ss @ [s]])"
    by (simp add: tile_words_def padded_def closed_words_last s)
  finally show "set_last_in_tile p (buda_strips a) = tile_words b (tss @ [ss @ [s]])" .
  show "ok_tile b (ss @ [s])"
    using L by (simp add: ok_tile_def open_layout_def closed_words_last s)
qed

lemma push_strip_holds:
  assumes H: "holds_strips b all a"
    and push: "push_strip [take_bit 16 i, header_flags i r False, length us] (ublock_words b us) a = Inr a'"
    and s: "i < 2 ^ 30" "list_all (ok_ublock b) us" "length us < 2 ^ 16"
  shows "holds_strips b (all @ [(i, r, us)]) a'"
proof -
  let ?s = "(i, r, us)" and ?n = "3 + length (ublock_words b us)"
  have n: "?n < kTileSize" using push by (auto simp: push_strip_def Let_def res_simps)
  then have ok: "ok_strip b ?s" using s by simp
  have w: "strip_words b False ?s = [take_bit 16 i, header_flags i r False, length us] @ ublock_words b us" by simp
  have lw: "length (strip_words b False ?s) = ?n" by simp
  have a': "a' = (let a1 = (if strip_offset a + length (strip_words b False ?s) > length (buda_strips a)
                then allocate_tile (case prev_strip_ptr a of None \<Rightarrow> a
                       | Some p \<Rightarrow> a\<lparr>buda_strips := set_last_in_tile p (buda_strips a)\<rparr>)
                else a) in
      a1\<lparr>prev_strip_ptr := Some (strip_offset a1),
              buda_strips := memcpy (strip_offset a1) (strip_words b False ?s) (buda_strips a1),
              strip_offset := strip_offset a1 + length (strip_words b False ?s), num_strips := num_strips a1 + 1\<rparr>)"
    using push n unfolding w push_strip_def by (simp add: Let_def)
  show ?thesis
  proof (cases "all = []")
    case True
    then have a: "a = new_allocator" using H by (simp add: holds_strips_def)
    have "open_layout b a' [] [] ?s"
      unfolding a' using push_into_new_tile [of b "[]" ?s a] ok lw
      by (simp add: a new_allocator_def tile_words_def Let_def del: strip_words.simps)
    then show ?thesis using True by (auto simp: holds_strips_def intro!: exI [of _ "[]"])
  next
    case False
    then obtain tss ss s0 where all: "all = concat tss @ ss @ [s0]" and L: "open_layout b a tss ss s0"
      using holds_stripsD [OF H False] by blast
    show ?thesis
    proof (cases "strip_offset a + length (strip_words b False ?s) > length (buda_strips a)")
      case False
      then have "open_layout b a' tss (ss @ [s0]) ?s"
        unfolding a' using push_into_open_tile [OF L ok] by (simp add: Let_def del: strip_words.simps)
      then show ?thesis unfolding holds_strips_def using all by (auto intro!: exI [of _ tss] exI [of _ "ss @ [s0]"])
    next
      case True
      obtain p where p: "prev_strip_ptr a = Some p" using L by (auto simp: open_layout_def)
      let ?a = "a\<lparr>buda_strips := set_last_in_tile p (buda_strips a)\<rparr>" and ?tss = "tss @ [ss @ [s0]]"
      note C = close_tile [OF L p]
      have tss: "list_all (ok_tile b) ?tss" "num_strips ?a = length (concat ?tss)"
        using L C(2) by (simp_all add: open_layout_def)
      have "a' = (allocate_tile ?a)\<lparr>prev_strip_ptr := Some (strip_offset (allocate_tile ?a)),
          buda_strips := memcpy (strip_offset (allocate_tile ?a)) (strip_words b False ?s) (buda_strips (allocate_tile ?a)),
          strip_offset := strip_offset (allocate_tile ?a) + length (strip_words b False ?s),
          num_strips := num_strips (allocate_tile ?a) + 1\<rparr>"
        unfolding a' p Let_def option.case using True by (simp only: if_True)
      then have "open_layout b a' ?tss [] ?s"
        using push_into_new_tile [OF tss(1) ok, of ?a] tss(2) C(1) by simp
      then show ?thesis unfolding holds_strips_def using all by (auto intro!: exI [of _ ?tss])
    qed
  qed
qed

lemma strip_info_Inr:
  "strip_info i n r t = Inr info \<longleftrightarrow> i < 2 ^ 30 \<and> info = [take_bit 16 i, header_flags i r t, take_bit 16 n]"
  by (auto simp: strip_info_def header_flags_def res_simps)

section \<open>The contract with the encoder\<close>

text \<open>What the encoder relies on: a strip that was put is held after the ones before it.\<close>

locale strip_store =
  fixes put :: "nat list \<Rightarrow> nat list \<Rightarrow> 'a \<Rightarrow> 'a res"
    and holds :: "nat \<Rightarrow> strip_record list \<Rightarrow> 'a \<Rightarrow> bool"
  assumes put_holds: "holds b all a \<Longrightarrow>
      put [take_bit 16 i, header_flags i r False, length us] (ublock_words b us) a = Inr a' \<Longrightarrow>
      i < 2 ^ 30 \<Longrightarrow> list_all (ok_ublock b) us \<Longrightarrow> length us < 2 ^ 16 \<Longrightarrow> holds b (all @ [(i, r, us)]) a'"
begin

text \<open>Rows without ublocks.\<close>

lemma put_row:
  assumes "res_bind (strip_info i 0 True False) (\<lambda>info. put info [] a) = Inr a'" "holds b all a"
  shows "holds b (all @ [(i, True, [])]) a'"
  using assms put_holds [OF assms(2), of i True "[]" a'] by (auto simp: res_simps strip_info_Inr)

lemma put_rows:
  assumes "fold_res (\<lambda>z a. res_bind (strip_info (f z) 0 True False) (\<lambda>info. put info [] a)) zs a = Inr a'" "holds b all a"
  shows "holds b (all @ map (\<lambda>z. (f z, True, [])) zs) a'"
  using assms
proof (induction zs arbitrary: a all)
  case (Cons z zs)
  obtain a1 where a1: "res_bind (strip_info (f z) 0 True False) (\<lambda>info. put info [] a) = Inr a1"
      "fold_res (\<lambda>z a. res_bind (strip_info (f z) 0 True False) (\<lambda>info. put info [] a)) zs a1 = Inr a'"
    using Cons.prems(1) unfolding fold_res.simps res_bind_Inr_iff [of _ "fold_res _ _"] by blast
  show ?case using Cons.IH [OF a1(2) put_row [OF a1(1) Cons.prems(2)]] by simp
qed simp

end

interpretation allocator: strip_store push_strip holds_strips
  by unfold_locales (rule push_strip_holds)

text \<open>What is read back: the strips, the last one flagged as the last of its row.\<close>

fun end_row :: "strip_record list \<Rightarrow> strip_record list" where
  "end_row [] = []"
| "end_row [(i, r, us)] = [(i, True, us)]"
| "end_row (s # s' # ss) = s # end_row (s' # ss)"

lemma end_row_snoc: "end_row (ss @ [(i, r, us)]) = ss @ [(i, True, us)]"
  by (induction ss rule: end_row.induct) simp_all

lemma finish_read:
  assumes "ok_bits b" "holds_strips b all a" "finish_buda_strips a = (mem, n)"
  shows "read_encoding b mem = Inr (end_row all)" "n = length all"
proof -
  show "read_encoding b mem = Inr (end_row all)"
  proof (cases "all = []")
    case True
    then have "mem = tile_words b []"
      using assms(2,3) by (auto simp: holds_strips_def new_allocator_def finish_buda_strips_def tile_words_def)
    then show ?thesis using True read_tiles_written [OF assms(1), of "[]"] by simp
  next
    case False
    then obtain tss ss s where all: "all = concat tss @ ss @ [s]" and L: "open_layout b a tss ss s"
      using holds_stripsD [OF assms(2) False] by blast
    obtain i r us where s: "s = (i, r, us)" by (cases s)
    obtain p where p: "prev_strip_ptr a = Some p" using L by (auto simp: open_layout_def)
    let ?a = "a\<lparr>buda_strips := set_last_in_row p (buda_strips a)\<rparr>" and ?s = "(i, True, us)"
    let ?pre = "tile_words b tss @ open_words b ss"
    have tss: "list_all (ok_tile b) tss" and mem: "buda_strips a = tile_words b tss @ padded (open_words b (ss @ [s]))"
      and p': "p = length ?pre"
      using L p length_tile_words [of b tss] by (auto simp: open_layout_def)
    have "set_last_in_row p (buda_strips a) = tile_words b tss @ padded (open_words b (ss @ [?s]))"
      unfolding p' mem padded_def s using set_strip_flags(2) [of ?pre b False i r us] by simp
    then have L': "open_layout b ?a tss ss ?s"
      using L by (simp add: open_layout_def s)
    note C = close_tile [OF L', of p]
    have "mem = tile_words b (tss @ [ss @ [?s]])"
      using assms(3) C(1) p by (auto simp: finish_buda_strips_def)
    moreover have "list_all (ok_tile b) (tss @ [ss @ [?s]])" using tss C(2) p by simp
    ultimately have "read_encoding b mem = Inr (concat (tss @ [ss @ [?s]]))"
      using read_tiles_written [OF assms(1)] by simp
    then show ?thesis using end_row_snoc [of "concat tss @ ss" i r us] by (simp add: all s)
  qed
  show "n = length all"
    using assms(2,3) by (auto simp: holds_strips_def new_allocator_def finish_buda_strips_def open_layout_def split: if_splits)
qed

end
