(* ===== verification/Sparse_Codec.thy ===== *)
theory Sparse_Codec
  imports Sparse_Alloc
begin

text \<open>
  The encoding loses nothing: reading the strips of \<open>encode_strips\<close> back, with the z of a strip counted by
  the row flags before it, gives the list of indices that was encoded.
\<close>

section \<open>The decoder\<close>

type_synonym sparse_entry = "nat \<times> nat \<times> nat \<times> nat"

definition entry_of :: "SparseIndex \<Rightarrow> sparse_entry" where
  "entry_of si = (si_unique_id si, si_rt si, si_ct si, si_z si)"

definition decode_word :: "StripEncoding \<Rightarrow> nat \<Rightarrow> nat \<times> nat \<times> nat" where
  "decode_word p w = (let n = 16 - enc_sparse_tile_ptr_bits p; k = enc_u_kt_bits p in
     (drop_bit n w, take_bit (n - k) (drop_bit k w), take_bit k w))"

definition decode_ublock :: "StripEncoding \<Rightarrow> nat \<Rightarrow> nat \<Rightarrow> nat \<times> nat list \<Rightarrow> sparse_entry list" where
  "decode_ublock p z c x = map (\<lambda>w. case decode_word p w of (i, r, k) \<Rightarrow>
     (i, fst x * enc_u_rt p + r, c * enc_u_kt p + k, z)) (snd x)"

fun decode_strips :: "StripEncoding \<Rightarrow> nat \<Rightarrow> strip_record list \<Rightarrow> sparse_entry list" where
  "decode_strips p z [] = []"
| "decode_strips p z ((i, r, us) # ss) =
     concat (map (decode_ublock p z (i - enc_mk p * (z div enc_t_factor_r p))) us) @ decode_strips p (z + of_bool r) ss"

definition row_count :: "strip_record list \<Rightarrow> nat" where
  "row_count ss = length (filter (\<lambda>(i, r, us). r) ss)"

lemma row_count_simps [simp]:
  "row_count [] = 0" "row_count ((i, r, us) # ss) = of_bool r + row_count ss"
  "row_count (ss @ ss') = row_count ss + row_count ss'"
  by (simp_all add: row_count_def)

lemma decode_strips_append:
  "decode_strips p z (ss @ ss') = decode_strips p z ss @ decode_strips p (z + row_count ss) ss'"
  by (induction p z ss rule: decode_strips.induct) (simp_all add: add.assoc)

lemma decode_empty_rows: "decode_strips p z (replicate n (i, True, [])) = []"
  by (induction n arbitrary: z) simp_all

section \<open>One ublock\<close>

definition enc_ok :: "StripEncoding \<Rightarrow> bool" where
  "enc_ok p \<longleftrightarrow> ok_bits (enc_sparse_ublock_idx_bits p) \<and> 0 < enc_u_rt p \<and> 0 < enc_u_kt p \<and>
     enc_u_kt p \<le> 2 ^ enc_u_kt_bits p \<and> enc_u_rt p \<le> 2 ^ (16 - enc_sparse_tile_ptr_bits p - enc_u_kt_bits p) \<and>
     0 < enc_u_kt_bits p \<and> enc_u_kt_bits p \<le> 16 - enc_sparse_tile_ptr_bits p"

lemma word_fields:
  fixes x y z :: nat
  assumes "x < 2 ^ t" "y < 2 ^ (n - k)" "z < 2 ^ k" "k \<le> n" "n = 16 - t" "t \<le> 16"
    and w: "w = take_bit 16 (push_bit n x) OR take_bit 16 (push_bit k y) OR z"
  shows "drop_bit n w = x" "take_bit (n - k) (drop_bit k w) = y" "take_bit k w = z"
proof -
  have lt: "v * 2 ^ k' < 2 ^ 16" if "v < 2 ^ j" "j + k' \<le> 16" for v j k' :: nat
  proof -
    have "v * 2 ^ k' < 2 ^ j * 2 ^ k'" using that(1) by simp
    also have "\<dots> = 2 ^ (j + k')" by (rule power_add [symmetric])
    also have "\<dots> \<le> (2 :: nat) ^ 16" using that(2) by (intro power_increasing) auto
    finally show ?thesis .
  qed
  have "push_bit n x < 2 ^ 16" using lt [OF assms(1), of n] assms(5,6) by (simp add: push_bit_eq_mult)
  moreover have y16: "push_bit k y < 2 ^ 16" using lt [OF assms(2), of k] assms(4,5) by (simp add: push_bit_eq_mult)
  ultimately have w': "w = push_bit n x OR push_bit k y OR z" unfolding w by (simp add: take_bit_nat_eq_self)
  have z: "take_bit k z = z" "drop_bit k z = 0" "drop_bit n z = 0"
  proof -
    have "(2 :: nat) ^ k \<le> 2 ^ n" using assms(4) by (intro power_increasing) auto
    then have "z < 2 ^ n" using assms(3) by linarith
    then show "take_bit k z = z" "drop_bit k z = 0" "drop_bit n z = 0"
      using assms(3) by (simp_all add: take_bit_nat_eq_self drop_bit_eq_div)
  qed
  have yn: "push_bit k y < 2 ^ n"
  proof -
    have "y * 2 ^ k < 2 ^ (n - k) * 2 ^ k" using assms(2) by simp
    also have "\<dots> = 2 ^ n" using assms(4) by (simp flip: power_add)
    finally show ?thesis by (simp add: push_bit_eq_mult)
  qed
  have "drop_bit n (push_bit k y) = 0" using yn by (simp add: drop_bit_eq_div)
  moreover have "drop_bit n (push_bit n x) = x" by (simp add: drop_bit_eq_div push_bit_eq_mult)
  ultimately show "drop_bit n w = x" unfolding w' by (simp add: z)
  have "drop_bit k (push_bit n x) = push_bit (n - k) x"
    using assms(4) by (intro bit_eqI) (auto simp: bit_simps add.commute)
  moreover have "drop_bit k (push_bit k y) = y" by (simp add: drop_bit_eq_div push_bit_eq_mult)
  ultimately have "drop_bit k w = push_bit (n - k) x OR y" unfolding w' by (simp add: z)
  then show "take_bit (n - k) (drop_bit k w) = y"
    using assms(2) by (simp add: take_bit_push_bit take_bit_nat_eq_self)
  show "take_bit k w = z" unfolding w' using assms(4) by (simp add: z take_bit_push_bit)
qed

definition ublock_raw :: "StripEncoding \<Rightarrow> SparseIndex list \<Rightarrow> nat list res" where
  "ublock_raw p us =
     res_bind (encode_ublock_header (enc_sparse_ublock_idx_bits p) (ubr_idx (enc_u_rt p) (hd us)) (length us)) (\<lambda>header.
     res_bind (map_res (\<lambda>si. encode_index_pair (enc_sparse_tile_ptr_bits p) (enc_u_kt_bits p) (si_unique_id si)
          (si_rt si mod enc_u_rt p) (si_ct si mod enc_u_kt p)) us) (\<lambda>pairs. Inr (header # pairs)))"

definition ok_group :: "StripEncoding \<Rightarrow> nat \<Rightarrow> nat \<Rightarrow> SparseIndex list \<Rightarrow> bool" where
  "ok_group p z c us \<longleftrightarrow> us \<noteq> [] \<and> (\<forall>x \<in> set us. si_z x = z \<and> ubc_idx (enc_u_kt p) x = c \<and>
     ubr_idx (enc_u_rt p) x = ubr_idx (enc_u_rt p) (hd us) \<and> si_unique_id x < 2 ^ 16 \<and> ubr_idx (enc_u_rt p) x < 2 ^ 16)"

lemma decode_pair:
  assumes p: "enc_ok p" and id: "si_unique_id si < 2 ^ 16"
    and w: "encode_index_pair (enc_sparse_tile_ptr_bits p) (enc_u_kt_bits p) (si_unique_id si)
          (si_rt si mod enc_u_rt p) (si_ct si mod enc_u_kt p) = Inr w"
  shows "decode_word p w = (si_unique_id si, si_rt si mod enc_u_rt p, si_ct si mod enc_u_kt p)"
proof -
  let ?t = "enc_sparse_tile_ptr_bits p" and ?k = "enc_u_kt_bits p" and ?y = "si_rt si mod enc_u_rt p"
    and ?z = "si_ct si mod enc_u_kt p" and ?x = "si_unique_id si"
  have y: "?y < 2 ^ (16 - ?t - ?k)" and z: "?z < 2 ^ ?k" and k: "?k \<le> 16 - ?t"
    using p by (auto simp: enc_ok_def intro: less_le_trans [OF mod_less_divisor])
  have le: "(2 :: nat) ^ (16 - ?t - ?k) \<le> 2 ^ 16" "(2 :: nat) ^ ?k \<le> 2 ^ 16"
    using k by (linarith | intro power_increasing)+
  have t16: "take_bit 16 ?x = ?x" "take_bit 16 ?y = ?y" "take_bit 16 ?z = ?z"
    using id less_le_trans [OF y le(1)] less_le_trans [OF z le(2)] by (simp_all add: take_bit_nat_eq_self)
  have x: "?x < 2 ^ ?t" and w': "w = take_bit 16 (push_bit (16 - ?t) ?x) OR take_bit 16 (push_bit ?k ?y) OR ?z"
    using w by (auto simp: encode_index_pair_def res_simps t16)
  have "?t \<le> 16" using p by (auto simp: enc_ok_def)
  then show ?thesis
    unfolding decode_word_def Let_def by (simp only: word_fields [OF x y z k refl _ w'])
qed

lemma header_asserts:
  assumes "encode_ublock_header b u n = Inr h"
  shows "take_bit 16 u < 2 ^ b" "take_bit 16 n \<le> 2 ^ (16 - b)"
    "h = take_bit 16 (push_bit b (if take_bit 16 n = 2 ^ (16 - b) then 0 else take_bit 16 n)) OR take_bit 16 u"
  using assms unfolding encode_ublock_header_def Let_def
  by (cases "take_bit 16 u < 2 ^ b"; cases "take_bit 16 n \<le> 2 ^ (16 - b)";
      simp only: tt_assert_simps res_bind_simps sum.inject sum.distinct)+

text \<open>A ublock of a strip that was pushed reads as its indices.\<close>

lemma decode_raw:
  assumes p: "enc_ok p" and g: "ok_group p z c us" and raw: "ublock_raw p us = Inr ws" and len: "length ws < 2048"
  shows "\<exists>x. ok_ublock (enc_sparse_ublock_idx_bits p) x \<and> ws = ublock_words (enc_sparse_ublock_idx_bits p) [x] \<and>
    decode_ublock p z c x = map entry_of us"
proof -
  let ?b = "enc_sparse_ublock_idx_bits p" and ?u = "ubr_idx (enc_u_rt p) (hd us)"
  obtain h ps where h: "encode_ublock_header ?b ?u (length us) = Inr h" and ws: "ws = h # ps"
    and ps: "map_res (\<lambda>si. encode_index_pair (enc_sparse_tile_ptr_bits p) (enc_u_kt_bits p) (si_unique_id si)
          (si_rt si mod enc_u_rt p) (si_ct si mod enc_u_kt p)) us = Inr ps"
    using raw by (auto simp: ublock_raw_def res_simps)
  have lp: "length ps = length us" and each: "\<forall>i < length us. encode_index_pair (enc_sparse_tile_ptr_bits p)
      (enc_u_kt_bits p) (si_unique_id (us ! i)) (si_rt (us ! i) mod enc_u_rt p) (si_ct (us ! i) mod enc_u_kt p) = Inr (ps ! i)"
    using map_res_nth [OF ps] by auto
  have us: "us \<noteq> []" and all: "\<And>x. x \<in> set us \<Longrightarrow> si_z x = z \<and> ubc_idx (enc_u_kt p) x = c \<and>
     ubr_idx (enc_u_rt p) x = ?u \<and> si_unique_id x < 2 ^ 16"
    and u16: "?u < 2 ^ 16"
    using g hd_in_set [of us] unfolding ok_group_def by blast+
  have small: "length us < 2 ^ 16" using len ws lp by simp
  have h': "?u < 2 ^ ?b" "length us \<le> 2 ^ (16 - ?b)" "h = ublock_word ?b ?u (length us)"
    using header_asserts [OF h, unfolded take_bit_nat_eq_self [OF u16] take_bit_nat_eq_self [OF small]]
    by (simp_all only: ublock_word_def)
  have "decode_ublock p z c (?u, ps) = map entry_of us"
  proof (rule nth_equalityI)
    show "length (decode_ublock p z c (?u, ps)) = length (map entry_of us)" by (simp add: decode_ublock_def lp)
    fix i assume "i < length (decode_ublock p z c (?u, ps))"
    then have i: "i < length us" by (simp add: decode_ublock_def lp)
    let ?si = "us ! i"
    have si: "si_z ?si = z" "ubc_idx (enc_u_kt p) ?si = c" "ubr_idx (enc_u_rt p) ?si = ?u" "si_unique_id ?si < 2 ^ 16"
      using all [OF nth_mem [OF i]] by blast+
    have "decode_word p (ps ! i) = (si_unique_id ?si, si_rt ?si mod enc_u_rt p, si_ct ?si mod enc_u_kt p)"
      by (rule decode_pair [OF p si(4)]) (use each i in blast)
    moreover have "?u * enc_u_rt p + si_rt ?si mod enc_u_rt p = si_rt ?si" "c * enc_u_kt p + si_ct ?si mod enc_u_kt p = si_ct ?si"
      using si(2,3) by (metis div_mult_mod_eq ubr_idx_def, metis div_mult_mod_eq ubc_idx_def)
    ultimately show "decode_ublock p z c (?u, ps) ! i = map entry_of us ! i"
      using i lp si(1) by (simp add: decode_ublock_def entry_of_def)
  qed
  moreover have "ok_ublock ?b (?u, ps)" using h' us lp by (auto simp: ok_ublock_def)
  moreover have "ws = ublock_words ?b [(?u, ps)]" using ws h'(3) lp by simp
  ultimately show ?thesis by blast
qed

lemma ublock_words_append: "ublock_words b (us @ vs) = ublock_words b us @ ublock_words b vs"
  by (induction us) simp_all

lemma decode_pending:
  assumes p: "enc_ok p"
  shows "\<forall>us \<in> set pend. ok_group p z c us \<Longrightarrow> map_res (ublock_raw p) pend = Inr wss \<Longrightarrow> length (concat wss) < 2048 \<Longrightarrow>
    \<exists>xs. list_all (ok_ublock (enc_sparse_ublock_idx_bits p)) xs \<and> length xs = length pend \<and>
      concat wss = ublock_words (enc_sparse_ublock_idx_bits p) xs \<and>
      concat (map (decode_ublock p z c) xs) = map entry_of (concat pend)"
proof (induction pend arbitrary: wss)
  case Nil
  then show ?case by simp
next
  case (Cons us pend)
  obtain ws wss' where w: "ublock_raw p us = Inr ws" "map_res (ublock_raw p) pend = Inr wss'" "wss = ws # wss'"
    using Cons.prems(2) by (auto simp: res_simps)
  obtain x where x: "ok_ublock (enc_sparse_ublock_idx_bits p) x" "ws = ublock_words (enc_sparse_ublock_idx_bits p) [x]"
      "decode_ublock p z c x = map entry_of us"
    using decode_raw [OF p, of z c us ws] Cons.prems w by auto
  obtain xs where "list_all (ok_ublock (enc_sparse_ublock_idx_bits p)) xs" "length xs = length pend"
      "concat wss' = ublock_words (enc_sparse_ublock_idx_bits p) xs"
      "concat (map (decode_ublock p z c) xs) = map entry_of (concat pend)"
    using Cons.IH [OF _ w(2)] Cons.prems w(3) by auto
  then show ?case using x w(3) by (intro exI [of _ "x # xs"]) (simp add: x(2))
qed

end
