(* ===== verification/Sparse_Loop.thy ===== *)
theory Sparse_Loop
  imports Sparse_Codec
begin

text \<open>
  The loop of \<open>encode_strips\<close>: the strips that were pushed decode to the indices that were consumed, up to
  the ublocks that wait for their strip to end.
\<close>

section \<open>Pushing\<close>

lemma push_empty_rows_hold:
  assumes "fold_res (\<lambda>z. push_empty_row (f z)) zs a = Inr a'" "holds_strips b all a"
  shows "holds_strips b (all @ map (\<lambda>z. (f z, True, [])) zs) a'"
  using allocator.put_rows [OF assms(1) [unfolded push_empty_row_def] assms(2)] .

lemma decode_row_ends: "decode_strips p z (map (\<lambda>z. (f z, True, [])) zs) = []"
  by (induction zs arbitrary: z) simp_all

lemma row_count_row_ends: "row_count (map (\<lambda>z. (f z, True, [])) zs) = length zs"
  by (induction zs) simp_all

section \<open>Ublocks\<close>

lemma same_ublock_trans: "same_ublock p a b \<Longrightarrow> same_ublock p b c \<Longrightarrow> same_ublock p a c"
  by (simp add: same_ublock_def)

lemma split_ublock_group:
  "split_ublock p x xs = (us, rest) \<Longrightarrow> us \<noteq> [] \<and> hd us = x \<and> (\<forall>y \<in> set us. same_ublock p x y)"
proof (induction xs arbitrary: x us rest)
  case (Cons y ys)
  show ?case
  proof (cases "same_ublock p x y")
    case True
    obtain us' where us': "split_ublock p y ys = (us', rest)" "us = x # us'"
      using Cons.prems True by (auto split: prod.splits)
    have "\<forall>y' \<in> set us'. same_ublock p x y'" using Cons.IH [OF us'(1)] same_ublock_trans [OF True] by blast
    then show ?thesis using us'(2) by (simp add: same_ublock_def)
  next
    case False
    then show ?thesis using Cons.prems by (auto simp: same_ublock_def)
  qed
qed (auto simp: same_ublock_def)

definition encodable :: "StripEncoding \<Rightarrow> SparseIndex \<Rightarrow> bool" where
  "encodable p x \<longleftrightarrow> ubc_idx (enc_u_kt p) x < enc_mk p \<and> ubr_idx (enc_u_rt p) x < 2 ^ 16 \<and> si_unique_id x < 2 ^ 16"

lemma split_ok_group:
  assumes "split_ublock p x xs = (us, rest)" "\<forall>y \<in> set (x # xs). encodable p y"
  shows "ok_group p (si_z x) (ubc_idx (enc_u_kt p) x) us"
proof -
  note G = split_ublock_group [OF assms(1)]
  have "set us \<subseteq> set (x # xs)" using split_ublock_append [OF assms(1)] by (metis Un_upper1 set_append)
  then have "\<forall>y \<in> set us. encodable p y" using assms(2) by blast
  with G show ?thesis unfolding ok_group_def encodable_def same_ublock_def by metis
qed

section \<open>One round\<close>

definition strip_index_at :: "StripEncoding \<Rightarrow> SparseIndex \<Rightarrow> nat" where
  "strip_index_at p x = enc_mk p * (si_z x div enc_t_factor_r p) + ubc_idx (enc_u_kt p) x"

lemma encode_ublockE:
  assumes "encode_ublock p us rest s = Inr s'"
  obtains (wait) a1 ws y ys where
      "add_missing_zs (strip_index_at p (hd us)) (enc_prev_z s) (si_z (hd us)) (enc_allocator s) = Inr a1"
      "ublock_raw p us = Inr ws" "rest = y # ys" "si_z y = si_z (hd us)" "ubc_idx (enc_u_kt p) y = strip_index_at p (hd us)"
      "enc_prev_z s' = max (enc_prev_z s) (si_z (hd us))" "enc_nz_ublocks s' = take_bit 16 (enc_nz_ublocks s + 1)"
      "enc_strip_indices s' = enc_strip_indices s @ ws" "enc_allocator s' = a1"
    | (push) a1 ws where
      "add_missing_zs (strip_index_at p (hd us)) (enc_prev_z s) (si_z (hd us)) (enc_allocator s) = Inr a1"
      "ublock_raw p us = Inr ws" "strip_index_at p (hd us) < 2 ^ 30"
      "push_strip [take_bit 16 (strip_index_at p (hd us)),
         header_flags (strip_index_at p (hd us)) (rest = [] \<or> si_z (hd rest) \<noteq> si_z (hd us)) False,
         take_bit 16 (enc_nz_ublocks s + 1)] (enc_strip_indices s @ ws) a1 = Inr (enc_allocator s')"
      "enc_prev_z s' = max (enc_prev_z s) (si_z (hd us)) + of_bool (rest = [] \<or> si_z (hd rest) \<noteq> si_z (hd us))"
      "enc_nz_ublocks s' = 0" "enc_strip_indices s' = []"
proof -
  let ?i = "strip_index_at p (hd us)" and ?z = "si_z (hd us)"
  define next_z where "next_z = (case rest of [] \<Rightarrow> ?z | y # _ \<Rightarrow> si_z y)"
  define next_i where "next_i = (case rest of [] \<Rightarrow> - 1 | y # _ \<Rightarrow> int (ubc_idx (enc_u_kt p) y))"
  define r where "r = (?z \<noteq> next_z \<or> rest = [])"
  have r: "r = (rest = [] \<or> si_z (hd rest) \<noteq> ?z)" by (auto simp: r_def next_z_def split: list.splits)
  note U = assms [unfolded encode_ublock_def Let_def, folded strip_index_at_def next_z_def next_i_def r_def]
  define S where "S = (\<lambda>a ws. s\<lparr>enc_prev_z := max (enc_prev_z s) ?z, enc_prev_strip_index := ?i,
    enc_nz_ublocks := take_bit 16 (enc_nz_ublocks s + 1), enc_strip_indices := enc_strip_indices s @ ws, enc_allocator := a\<rparr>)"
  obtain a1 header pairs where a1: "add_missing_zs ?i (enc_prev_z s) ?z (enc_allocator s) = Inr a1"
    and raw: "encode_ublock_header (enc_sparse_ublock_idx_bits p) (ubr_idx (enc_u_rt p) (hd us)) (length us) = Inr header"
      "map_res (\<lambda>si. encode_index_pair (enc_sparse_tile_ptr_bits p) (enc_u_kt_bits p) (si_unique_id si)
          (si_rt si mod enc_u_rt p) (si_ct si mod enc_u_kt p)) us = Inr pairs"
    and s': "(if int ?i \<noteq> next_i \<or> ?z \<noteq> next_z
        then res_bind (strip_info ?i (take_bit 16 (enc_nz_ublocks s + 1)) r False) (\<lambda>info.
        res_bind (push_strip info (enc_strip_indices s @ header # pairs) a1) (\<lambda>a2.
          Inr ((S a1 (header # pairs))\<lparr>enc_nz_ublocks := 0, enc_strip_indices := [], enc_allocator := a2,
                  enc_prev_z := max (enc_prev_z s) ?z + of_bool r\<rparr>)))
        else Inr (S a1 (header # pairs))) = Inr s'"
    using U unfolding res_bind_Inr_iff S_def r_def by (elim exE conjE) (rule that, (assumption | (unfold S_def r_def, assumption))+)
  have raw: "ublock_raw p us = Inr (header # pairs)" using raw by (simp add: ublock_raw_def)
  show ?thesis
  proof (cases "int ?i \<noteq> next_i \<or> ?z \<noteq> next_z")
    case True
    then obtain info a2 where i: "strip_info ?i (take_bit 16 (enc_nz_ublocks s + 1)) r False = Inr info"
        "push_strip info (enc_strip_indices s @ header # pairs) a1 = Inr a2"
        "s' = (S a1 (header # pairs))\<lparr>enc_nz_ublocks := 0, enc_strip_indices := [], enc_allocator := a2,
                  enc_prev_z := max (enc_prev_z s) ?z + of_bool r\<rparr>"
      using s' by (auto simp: res_simps)
    show ?thesis using i unfolding strip_info_Inr by (intro push [OF a1 raw]) (simp_all add: r [symmetric] take_bit_take_bit)
  next
    case False
    then obtain y ys where y: "rest = y # ys" by (cases rest) (auto simp: next_i_def)
    have "s' = S a1 (header # pairs)" using s' False by simp
    then show ?thesis using False y by (intro wait [OF a1 raw y]) (simp_all add: next_i_def next_z_def S_def)
  qed
qed

section \<open>The invariant\<close>

text \<open>
  After the indices \<open>D\<close>, with \<open>xs\<close> to come: the pushed strips \<open>all\<close>, the ublocks \<open>pend\<close> of the strip under
  construction and their words.
\<close>

definition enc_state :: "StripEncoding \<Rightarrow> SparseIndex list \<Rightarrow> SparseIndex list \<Rightarrow> EncodeState \<Rightarrow>
    strip_record list \<Rightarrow> SparseIndex list list \<Rightarrow> nat list list \<Rightarrow> bool" where
  "enc_state p D xs s all pend wss \<longleftrightarrow>
     holds_strips (enc_sparse_ublock_idx_bits p) all (enc_allocator s) \<and> enc_prev_z s = row_count all \<and>
     decode_strips p 0 all @ map entry_of (concat pend) = map entry_of D \<and>
     map_res (ublock_raw p) pend = Inr wss \<and> enc_strip_indices s = concat wss \<and>
     enc_nz_ublocks s = take_bit 16 (length pend) \<and> (\<forall>x \<in> set xs. row_count all \<le> si_z x) \<and>
     (pend \<noteq> [] \<longrightarrow> xs \<noteq> [] \<and> row_count all = si_z (hd xs) \<and>
        (\<forall>us \<in> set pend. ok_group p (si_z (hd xs)) (ubc_idx (enc_u_kt p) (hd xs)) us)) \<and>
     (xs = [] \<longrightarrow> all = [] \<or> fst (snd (last all))) \<and>
     (\<forall>m. (\<forall>x \<in> set D. si_z x < m) \<longrightarrow> row_count all \<le> m)"

lemma map_res_snoc: "map_res f (xs @ [x]) = res_bind (map_res f xs) (\<lambda>ys. res_bind (f x) (\<lambda>y. Inr (ys @ [y])))"
  by (induction xs) (simp_all add: res_bind_assoc)

lemma take_bit_Suc_nz: "take_bit 16 (take_bit 16 n + 1) = take_bit 16 (n + 1)" for n :: nat
  by (simp add: take_bit_eq_mod mod_simps)

lemma length_ublock_words: "length vs \<le> length (ublock_words b vs)"
  by (induction vs) auto

text \<open>The zs without entries that are skipped.\<close>

lemma add_missing_holds:
  assumes "add_missing_zs i (row_count all) z a = Inr a1" "holds_strips b all a"
  defines "gap \<equiv> map (\<lambda>_. (i, True, [])) [row_count all..<z]"
  shows "holds_strips b (all @ gap) a1" "row_count (all @ gap) = max (row_count all) z"
    "decode_strips p 0 (all @ gap) = decode_strips p 0 all"
  using push_empty_rows_hold [OF assms(1) [unfolded add_missing_zs_def] assms(2)]
  by (simp_all add: gap_def decode_strips_append decode_row_ends row_count_row_ends)

lemma encode_ublock_step:
  assumes p: "enc_ok p" and J: "enc_state p D (x # xs) s all pend wss"
    and split: "split_ublock p x xs = (us, rest)" and enc: "encode_ublock p us rest s = Inr s'"
    and good: "\<forall>y \<in> set (x # xs). encodable p y" and srt: "sorted (map si_z (x # xs))"
  shows "\<exists>all' pend' wss'. enc_state p (D @ us) rest s' all' pend' wss'"
proof -
  let ?b = "enc_sparse_ublock_idx_bits p" and ?z = "si_z x" and ?c = "ubc_idx (enc_u_kt p) x" and ?i = "strip_index_at p x"
  have H: "holds_strips ?b all (enc_allocator s)" and prev: "enc_prev_z s = row_count all"
    and dec: "decode_strips p 0 all @ map entry_of (concat pend) = map entry_of D"
    and wss: "map_res (ublock_raw p) pend = Inr wss" "enc_strip_indices s = concat wss"
    and nz: "enc_nz_ublocks s = take_bit 16 (length pend)" and le: "row_count all \<le> ?z"
    and pend: "pend \<noteq> [] \<Longrightarrow> row_count all = ?z" "\<forall>us \<in> set pend. ok_group p ?z ?c us"
    using J unfolding enc_state_def by (blast, blast, blast, blast, blast, blast, force, force, force)
  have hd: "hd us = x" using split_ublock_group [OF split] by blast
  have us: "us @ rest = x # xs" by (rule split_ublock_append [OF split])
  have x_us: "x \<in> set us" using split_ublock_group [OF split] hd_in_set [of us] by auto
  have grp: "ok_group p ?z ?c us" by (rule split_ok_group [OF split good])
  have rest: "\<forall>y \<in> set rest. encodable p y" "\<forall>y \<in> set rest. ?z \<le> si_z y" "sorted (map si_z rest)"
  proof -
    have sub: "set rest \<subseteq> set (x # xs)" using us by (metis Un_upper2 set_append)
    then show "\<forall>y \<in> set rest. encodable p y" using good by blast
    show "\<forall>y \<in> set rest. ?z \<le> si_z y" using sub srt by auto
    show "sorted (map si_z rest)" using srt by (metis map_append sorted_append us)
  qed
  have pend_us: "\<forall>us' \<in> set (pend @ [us]). ok_group p ?z ?c us'" using pend(2) grp by auto
  show ?thesis
    using enc
  proof (cases rule: encode_ublockE)
    case (wait a1 ws y ys)
    let ?gap = "map (\<lambda>_. (?i, True, [])) [row_count all..<?z]"
    have a1: "add_missing_zs ?i (row_count all) ?z (enc_allocator s) = Inr a1" using wait(1) by (simp only: hd prev)
    note M = add_missing_holds [OF a1 H]
    have rows: "row_count (all @ ?gap) = ?z" using M(2) le by simp
    have "ubc_idx (enc_u_kt p) y = ?c"
    proof -
      have "ubc_idx (enc_u_kt p) y < enc_mk p" using rest(1) wait(3) by (auto simp: encodable_def)
      then have "enc_mk p * (?z div enc_t_factor_r p) + ?c < enc_mk p" using wait(5) by (simp add: hd strip_index_at_def)
      then have "?z div enc_t_factor_r p = 0" by (cases "?z div enc_t_factor_r p") auto
      then show ?thesis using wait(5) by (simp add: hd strip_index_at_def)
    qed
    moreover have "map_res (ublock_raw p) (pend @ [us]) = Inr (wss @ [ws])" using wss(1) wait(2) by (simp add: map_res_snoc)
    moreover have "row_count (all @ ?gap) = si_z (hd rest)" using wait(3,4) rows by (simp add: hd)
    moreover have "decode_strips p 0 (all @ ?gap) @ map entry_of (concat (pend @ [us])) = map entry_of (D @ us)"
      using dec M(3) [of p] by simp
    moreover have bound: "\<forall>m. (\<forall>y \<in> set (D @ us). si_z y < m) \<longrightarrow> row_count (all @ ?gap) \<le> m"
      unfolding rows using x_us by (auto intro: less_imp_le)
    moreover have "take_bit 16 (enc_nz_ublocks s + 1) = take_bit 16 (length (pend @ [us]))"
      unfolding nz take_bit_Suc_nz by simp
    ultimately have "enc_state p (D @ us) rest s' (all @ ?gap) (pend @ [us]) (wss @ [ws])"
      unfolding enc_state_def using wait M(1,2) rest(2) pend_us le rows wss(2) prev bound by (simp add: hd)
    then show ?thesis by blast
  next
    case (push a1 ws)
    let ?gap = "map (\<lambda>_. (?i, True, [])) [row_count all..<?z]" and ?r = "rest = [] \<or> si_z (hd rest) \<noteq> ?z"
    have a1: "add_missing_zs ?i (row_count all) ?z (enc_allocator s) = Inr a1" using push(1) by (simp only: hd prev)
    note M = add_missing_holds [OF a1 H]
    have rows: "row_count (all @ ?gap) = ?z" using M(2) le by simp
    have w: "map_res (ublock_raw p) (pend @ [us]) = Inr (wss @ [ws])" using wss(1) push(2) by (simp add: map_res_snoc)
    have "length (enc_strip_indices s @ ws) < 2048"
      using push(4) by (auto simp: push_strip_def Let_def res_simps kTileSize_def)
    then have len: "length (concat (wss @ [ws])) < 2048" using wss(2) by simp
    obtain vs where vs: "list_all (ok_ublock ?b) vs" "length vs = length (pend @ [us])"
        "concat (wss @ [ws]) = ublock_words ?b vs"
        "concat (map (decode_ublock p ?z ?c) vs) = map entry_of (concat (pend @ [us]))"
      using decode_pending [OF p pend_us w len] by blast
    have "length vs < 2048" using le_less_trans [OF length_ublock_words len [unfolded vs(3)]] .
    then have small: "length vs < 2 ^ 16" by simp
    have "take_bit 16 (enc_nz_ublocks s + 1) = take_bit 16 (length vs)"
      unfolding nz take_bit_Suc_nz vs(2) by simp
    then have "take_bit 16 (enc_nz_ublocks s + 1) = length vs" by (simp only: take_bit_nat_eq_self [OF small])
    then have ps: "push_strip [take_bit 16 ?i, header_flags ?i ?r False, length vs] (ublock_words ?b vs) a1 = Inr (enc_allocator s')"
      using push(4) vs(3) wss(2) hd by simp
    note N = allocator.put_holds [OF M(1) ps push(3) [unfolded hd] vs(1) small]
    let ?all = "(all @ ?gap) @ [(?i, ?r, vs)]"
    have "decode_strips p 0 ?all = decode_strips p 0 (all @ ?gap) @ concat (map (decode_ublock p ?z ?c) vs)"
      unfolding decode_strips_append [of p 0 "all @ ?gap"] rows add_0 by (simp add: strip_index_at_def)
    then have "decode_strips p 0 ?all @ map entry_of (concat []) = map entry_of (D @ us)"
      using dec M(3) [of p] vs(4) by simp
    moreover have count: "row_count ?all = ?z + of_bool ?r" using rows by (simp only: row_count_simps)
    moreover have bound: "\<forall>m. (\<forall>y \<in> set (D @ us). si_z y < m) \<longrightarrow> row_count ?all \<le> m"
      unfolding count using x_us by (auto simp: Suc_le_eq intro: less_imp_le)
    moreover have "enc_prev_z s' = row_count ?all" unfolding count using push(5) le by (simp only: hd prev max_absorb2)
    moreover have "\<forall>y \<in> set rest. row_count ?all \<le> si_z y"
    proof
      fix y assume y: "y \<in> set rest"
      then have "si_z (hd rest) \<le> si_z y" using rest(3) by (cases rest) auto
      moreover have "?z \<le> si_z (hd rest)" using rest(2) y by (cases rest) auto
      ultimately show "row_count ?all \<le> si_z y" unfolding count using y by (cases rest) auto
    qed
    ultimately have "enc_state p (D @ us) rest s' ?all [] []"
      unfolding enc_state_def using N push(6,7) bound by simp
    then show ?thesis by blast
  qed
qed

lemma encode_loop_decodes:
  "enc_ok p \<Longrightarrow> enc_state p D xs s all pend wss \<Longrightarrow> encode_loop p xs s = Inr s' \<Longrightarrow> \<forall>y \<in> set xs. encodable p y \<Longrightarrow>
    sorted (map si_z xs) \<Longrightarrow> \<exists>all' pend' wss'. enc_state p (D @ xs) [] s' all' pend' wss'"
proof (induction p xs s arbitrary: D all pend wss rule: encode_loop.induct)
  case (1 p s)
  then show ?case by auto
next
  case (2 p x xs s)
  obtain us rest where split: "split_ublock p x xs = (us, rest)" by force
  obtain s1 where s1: "encode_ublock p us rest s = Inr s1" "encode_loop p rest s1 = Inr s'"
    using "2.prems"(3) split by (auto simp: res_simps)
  have us: "us @ rest = x # xs" by (rule split_ublock_append [OF split])
  have sub: "set rest \<subseteq> set (x # xs)" using us by (metis Un_upper2 set_append)
  have srt: "sorted (map si_z rest)" using "2.prems"(5) by (metis map_append sorted_append us)
  obtain all1 pend1 wss1 where J: "enc_state p (D @ us) rest s1 all1 pend1 wss1"
    using encode_ublock_step [OF _ "2.prems"(2) split s1(1) "2.prems"(4,5)] "2.prems"(1) by blast
  have good: "\<forall>y \<in> set rest. encodable p y" using "2.prems"(4) sub by blast
  show ?case
    using "2.IH" [OF split [symmetric] refl s1(1) "2.prems"(1) J s1(2) good srt] us by simp
qed

text \<open>
  The encoder as a whole: the strips it returns decode to the list of indices it was given.
\<close>

text \<open>The parameters of the encoding, as \<open>encode_strips\<close> computes them.\<close>

definition encoding_of :: "SparseEnv \<Rightarrow> nat \<Rightarrow> nat \<Rightarrow> nat \<Rightarrow> nat \<Rightarrow> nat \<Rightarrow> nat \<Rightarrow> nat \<Rightarrow> StripEncoding" where
  "encoding_of env dimc u_rt u_kt u_kt_bits sparse_tile_ptr_bits sparse_ublock_idx_bits t_factor_r =
     \<lparr>enc_mk = (dimc + TILE_DIM - 1) div TILE_DIM div u_kt, enc_u_rt = u_rt, enc_u_kt = u_kt, enc_u_kt_bits = u_kt_bits,
      enc_sparse_tile_ptr_bits = sparse_tile_ptr_bits, enc_sparse_ublock_idx_bits = sparse_ublock_idx_bits,
      enc_t_factor_r = t_factor_r, enc_allow_illegal = PYBUDA_ALLOW_ILLEGAL_SPARSE_PARS env\<rparr>"

lemma end_row_ended: "ss = [] \<or> fst (snd (last ss)) \<Longrightarrow> end_row ss = ss"
  by (induction ss rule: end_row.induct) auto

lemma last_row_end: "fst (snd (last (map (\<lambda>z. (f z, True, us)) (z # zs))))"
  by (induction zs arbitrary: z) auto

lemma encode_strips_decodes:
  assumes enc: "encode_strips env indices dimz dimc u_rt u_kt t b t_r 1 = Inr (mem, n)"
    and bits: "get_u_kt_encoding_bits u_kt = Inr k" and b: "ok_bits b"
  defines "p \<equiv> encoding_of env dimc u_rt u_kt k t b t_r"
  assumes good: "\<forall>x \<in> set indices. encodable p x \<and> si_z x < dimz * t_r" and srt: "sorted (map si_z indices)"
  shows "\<exists>strips. read_encoding b mem = Inr strips \<and> length strips = n \<and> row_count strips = dimz * t_r \<and>
    decode_strips p 0 strips = map entry_of indices"
proof -
  let ?s0 = "\<lparr>enc_prev_z = 0, enc_prev_strip_index = 0, enc_nz_ublocks = 0, enc_strip_indices = [],
          enc_allocator = new_allocator\<rparr>"
  define f where "f = (\<lambda>z. sub32 (enc_mk p * (z div t_r + 1)) 1)"
  obtain r_bits s a where r: "get_u_rt_encoding_bits u_rt = Inr r_bits" "r_bits + k \<le> 16 - t"
    and s: "encode_loop p indices ?s0 = Inr s"
    and a: "fold_res (\<lambda>z. push_empty_row (f z)) [enc_prev_z s..<dimz * t_r] (enc_allocator s) = Inr a"
    and mem: "finish_buda_strips a = (mem, n)"
    using enc bits
    by (auto simp: encode_strips_def Let_def res_simps p_def encoding_of_def f_def repeat_strips_def
        split: if_splits option.splits)
  have p: "enc_ok p"
  proof -
    have "u_rt \<le> 2 ^ (16 - t - k)"
      using u_rt_bits_least(1) [OF r(1)] power_increasing [of r_bits "16 - t - k" "2 :: nat"] r(2) by linarith
    then show ?thesis
      using b u_rt_bits_least(3) [OF r(1)] u_kt_bits_enough [OF bits] r(2) by (simp add: enc_ok_def p_def encoding_of_def)
  qed
  have "enc_state p [] indices ?s0 [] [] []"
    by (simp add: enc_state_def holds_strips_def)
  then obtain all pend wss where J: "enc_state p ([] @ indices) [] s all pend wss"
    using encode_loop_decodes [OF p _ s] good srt by blast
  then have pend: "pend = []" by (auto simp: enc_state_def)
  let ?tail = "map (\<lambda>z. (f z, True, [])) [row_count all..<dimz * t_r]"
  have H: "holds_strips b all (enc_allocator s)" and prev: "enc_prev_z s = row_count all"
    and dec: "decode_strips p 0 all = map entry_of indices" and ended: "all = [] \<or> fst (snd (last all))"
    using J pend by (simp_all add: enc_state_def p_def encoding_of_def)
  have le: "row_count all \<le> dimz * t_r" using J good by (simp add: enc_state_def)
  have H': "holds_strips b (all @ ?tail) a" using push_empty_rows_hold [OF a H] prev by simp
  have "(all @ ?tail) = [] \<or> fst (snd (last (all @ ?tail)))"
    using ended by (cases "[row_count all..<dimz * t_r]") (auto simp: last_map)
  then have "read_encoding b mem = Inr (all @ ?tail)" "n = length (all @ ?tail)"
    using finish_read [OF b H' mem] end_row_ended by auto
  moreover have "row_count (all @ ?tail) = dimz * t_r" using le by (simp add: row_count_row_ends)
  moreover have "decode_strips p 0 (all @ ?tail) = map entry_of indices"
    by (simp add: decode_strips_append decode_row_ends dec)
  ultimately show ?thesis by (intro exI [of _ "all @ ?tail"]) simp
qed

end
