(* ===== verification/Sparse_Facts.thy ===== *)
theory Sparse_Facts
  imports Sparse_Matrix "HOL-Library.Multiset"
begin

text \<open>
  Slicing, concatenating and sorting sparse matrices: slices hold the entries of their rows, the
  concatenation of the slices is the matrix again, and sorting permutes the entries.
\<close>

section \<open>Matrices in order\<close>

definition wf_coo :: "nat \<Rightarrow> nat \<Rightarrow> SparseCOO \<Rightarrow> bool" where
  "wf_coo h w m \<longleftrightarrow> coo_shape m = [h, w] \<and> length (coo_cols m) = length (coo_rows m) \<and>
     length (coo_vals m) = length (coo_rows m) \<and> (\<forall>e \<in> set (coo_entries m). fst e < h \<and> fst (snd e) < w)"

lemma wf_cooD:
  assumes "wf_coo h w m"
  shows "coo_shape m = [h, w]" "length (coo_cols m) = length (coo_rows m)" "length (coo_vals m) = length (coo_rows m)"
    "e \<in> set (coo_entries m) \<Longrightarrow> fst e < h \<and> fst (snd e) < w" "length (coo_entries m) = length (coo_rows m)"
  using assms unfolding wf_coo_def by (blast | simp add: coo_entries_def)+

lemma entries_nth:
  assumes "length (coo_cols m) = length (coo_rows m)" "length (coo_vals m) = length (coo_rows m)" "i < length (coo_rows m)"
  shows "coo_entries m ! i = (coo_rows m ! i, coo_cols m ! i, coo_vals m ! i)"
  using assms by (simp add: coo_entries_def)

lemma push_entry_facts:
  assumes "length (coo_cols m) = length (coo_rows m)" "length (coo_vals m) = length (coo_rows m)"
  shows "coo_entries (push_entry r c v m) = coo_entries m @ [(r, c, v)]"
    "length (coo_cols (push_entry r c v m)) = length (coo_rows (push_entry r c v m))"
    "length (coo_vals (push_entry r c v m)) = length (coo_rows (push_entry r c v m))"
    "coo_shape (push_entry r c v m) = coo_shape m"
  using assms by (simp_all add: coo_entries_def push_entry_def)

section \<open>Slices\<close>

text \<open>The entries of slice \<open>s\<close>, with rows counted from its first row.\<close>

definition slice_of :: "nat \<Rightarrow> nat \<Rightarrow> (nat \<times> nat \<times> nat) list \<Rightarrow> (nat \<times> nat \<times> nat) list" where
  "slice_of sh s es = map (\<lambda>e. (fst e mod sh, snd e)) (filter (\<lambda>e. fst e div sh = s) es)"

definition slices_of :: "nat \<Rightarrow> nat \<Rightarrow> nat \<Rightarrow> (nat \<times> nat \<times> nat) list \<Rightarrow> SparseCOO list \<Rightarrow> bool" where
  "slices_of n sh w es ss \<longleftrightarrow> length ss = n \<and> (\<forall>s < n. coo_shape (ss ! s) = [sh, w] \<and>
     length (coo_cols (ss ! s)) = length (coo_rows (ss ! s)) \<and> length (coo_vals (ss ! s)) = length (coo_rows (ss ! s)) \<and>
     coo_entries (ss ! s) = slice_of sh s es)"

lemma slice_of_snoc:
  "slice_of sh s (es @ [e]) = slice_of sh s es @ (if fst e div sh = s then [(fst e mod sh, snd e)] else [])"
  by (simp add: slice_of_def)

lemma slice_fold:
  assumes wf: "wf_coo (n * sh) w m" and k: "k \<le> length (coo_rows m)"
  shows "\<exists>ss. fold_res (slice_entry m sh) [0..<k] (replicate n (empty_coo [sh, w])) = Inr ss \<and>
     slices_of n sh w (take k (coo_entries m)) ss"
  using k
proof (induction k)
  case 0
  show ?case by (simp add: slices_of_def empty_coo_def coo_entries_def slice_of_def)
next
  case (Suc k)
  then obtain ss where ss: "fold_res (slice_entry m sh) [0..<k] (replicate n (empty_coo [sh, w])) = Inr ss"
    "slices_of n sh w (take k (coo_entries m)) ss" by auto
  note W = wf_cooD [OF wf]
  let ?r = "coo_rows m ! k" and ?c = "coo_cols m ! k" and ?v = "coo_vals m ! k"
  have k: "k < length (coo_rows m)" using Suc.prems by simp
  have e: "coo_entries m ! k = (?r, ?c, ?v)" by (rule entries_nth [OF W(2,3) k])
  then have "(?r, ?c, ?v) \<in> set (coo_entries m)" using k W(5) by (metis nth_mem)
  then have r: "?r < n * sh" using W(4) by fastforce
  then have sh: "0 < sh" by (cases sh) simp_all
  then have s: "?r div sh < n" using r by (simp add: less_mult_imp_div_less)
  let ?ss = "ss[?r div sh := push_entry (?r mod sh) ?c ?v (ss ! (?r div sh))]"
  have len: "length ss = n" using ss(2) by (simp add: slices_of_def)
  have "slice_entry m sh k ss = Inr ?ss" using k W(2,3) sh s len by (simp add: slice_entry_def)
  moreover have "slices_of n sh w (take (Suc k) (coo_entries m)) ?ss"
  proof -
    have tk: "take (Suc k) (coo_entries m) = take k (coo_entries m) @ [(?r, ?c, ?v)]"
      using k W(5) e by (simp add: take_Suc_conv_app_nth)
    show ?thesis
      using ss(2) s len unfolding slices_of_def tk slice_of_snoc
      by (auto simp: nth_list_update push_entry_facts)
  qed
  ultimately show ?case using ss(1) by (simp add: fold_res_append)
qed

lemma slices_of_one:
  assumes "wf_coo h w m" "0 < h"
  shows "slices_of 1 h w (coo_entries m) [m]"
proof -
  have "slice_of h 0 (coo_entries m) = coo_entries m"
    using wf_cooD(4) [OF assms(1)] assms(2) unfolding slice_of_def
    by (subst filter_True) (auto intro!: map_idI simp: prod_eq_iff)
  then show ?thesis using wf_cooD [OF assms(1)] by (simp add: slices_of_def)
qed

lemma vslice_ok:
  assumes wf: "wf_coo (n * sh) w m" and n: "0 < n" "0 < sh"
  shows "\<exists>ss. vslice n m = Inr ss \<and> slices_of n sh w (coo_entries m) ss"
proof (cases "n = 1")
  case True
  then show ?thesis using wf_cooD(1) [OF wf] slices_of_one [of sh w m] wf n by (simp add: vslice_def)
next
  case False
  then show ?thesis
    using slice_fold [OF wf, of "length (coo_rows m)"] wf_cooD(1,5) [OF wf] n by (simp add: vslice_def)
qed

section \<open>Concatenation\<close>

definition shift_rows :: "nat \<Rightarrow> (nat \<times> nat \<times> nat) list \<Rightarrow> (nat \<times> nat \<times> nat) list" where
  "shift_rows d es = map (\<lambda>e. (fst e + d, snd e)) es"

definition aligned :: "nat \<Rightarrow> nat \<Rightarrow> SparseCOO \<Rightarrow> bool" where
  "aligned sh w m \<longleftrightarrow> coo_shape m = [sh, w] \<and> length (coo_cols m) = length (coo_rows m) \<and> length (coo_vals m) = length (coo_rows m)"

primrec stacked :: "nat \<Rightarrow> nat \<Rightarrow> SparseCOO list \<Rightarrow> (nat \<times> nat \<times> nat) list" where
  "stacked sh d [] = []"
| "stacked sh d (m # ms) = shift_rows d (coo_entries m) @ stacked sh (d + sh) ms"

lemma zip_shift: "zip (map (\<lambda>r. r + d) rs) xs = shift_rows d (zip rs xs)"
  unfolding shift_rows_def zip_map1 by (intro map_cong) auto

lemma vcat_fold:
  assumes "\<forall>m \<in> set ms. aligned sh w m" "length written = length (coo_cols ret)" "length (coo_vals ret) = length (coo_cols ret)"
    and "length written + sum_list (map (\<lambda>m. length (coo_vals m)) ms) \<le> tot"
  shows "\<exists>written' ret'. fold_res (vcat_step [sh, w] tot) ms (written, ret, d) = Inr (written', ret', d + sh * length ms) \<and>
     zip written' (zip (coo_cols ret') (coo_vals ret')) = zip written (zip (coo_cols ret) (coo_vals ret)) @ stacked sh d ms \<and>
     length written' = length written + sum_list (map (\<lambda>m. length (coo_vals m)) ms) \<and>
     length (coo_cols ret') = length written' \<and> length (coo_vals ret') = length written' \<and> coo_shape ret' = coo_shape ret"
  using assms
proof (induction ms arbitrary: written ret d)
  case (Cons m ms)
  have m: "coo_shape m = [sh, w]" "length (coo_cols m) = length (coo_rows m)" "length (coo_vals m) = length (coo_rows m)"
    using Cons.prems(1) by (simp_all add: aligned_def)
  define ret1 where "ret1 = (if coo_vals m = [] then ret else ret\<lparr>coo_cols := coo_cols ret @ coo_cols m,
    coo_vals := coo_vals ret @ coo_vals m, col_bounds := extend_bounds (col_bounds m) (col_bounds ret)\<rparr>)"
  define written1 where "written1 = written @ map (\<lambda>r. r + d) (coo_rows m)"
  have "vcat_step [sh, w] tot m (written, ret, d) = Inr (written1, ret1, d + sh)"
    using m Cons.prems(4) by (auto simp: vcat_step_def written1_def ret1_def)
  moreover have "zip written1 (zip (coo_cols ret1) (coo_vals ret1)) =
      zip written (zip (coo_cols ret) (coo_vals ret)) @ shift_rows d (coo_entries m)"
    using m Cons.prems(2,3) by (auto simp: written1_def ret1_def zip_shift coo_entries_def shift_rows_def)
  moreover have "length written1 = length written + length (coo_vals m)" "length (coo_cols ret1) = length written1"
    "length (coo_vals ret1) = length written1" "coo_shape ret1 = coo_shape ret"
    using m Cons.prems(2,3) by (auto simp: written1_def ret1_def)
  ultimately show ?case
    using Cons.IH [of written1 ret1 "d + sh"] Cons.prems(1,4) by (auto simp: add.assoc)
qed simp

lemma vcat_ok:
  assumes "\<forall>m \<in> set ms. aligned sh w m" "ms \<noteq> []"
  shows "\<exists>m'. vcat ms = Inr m' \<and> coo_entries m' = stacked sh 0 ms \<and> coo_shape m' = [sh * length ms, w] \<and>
     length (coo_cols m') = length (coo_rows m') \<and> length (coo_vals m') = length (coo_rows m')"
proof -
  obtain first rest where ms: "ms = first # rest" using assms(2) by (cases ms) auto
  have first: "coo_shape first = [sh, w]" using assms(1) by (simp add: ms aligned_def)
  let ?tot = "sum_list (map (\<lambda>m. length (coo_vals m)) ms)"
  define ret where "ret = empty_coo [sh * length ms, w]"
  have ret: "coo_cols ret = []" "coo_vals ret = []" "coo_shape ret = [sh * length ms, w]" "coo_rows ret = []"
    by (simp_all add: ret_def empty_coo_def)
  show ?thesis
  proof (cases "?tot = 0")
    case True
    have "coo_entries m = []" if "m \<in> set ms" for m
      using True assms(1) that by (auto simp: coo_entries_def aligned_def)
    then have "stacked sh d ms = []" for d by (induction ms arbitrary: d) (simp_all add: shift_rows_def)
    moreover have "vcat ms = Inr ret" using True first by (simp add: vcat_def ms ret_def)
    ultimately show ?thesis using ret by (intro exI [of _ ret]) (simp add: coo_entries_def)
  next
    case False
    from vcat_fold [OF assms(1), of "[]" ret ?tot 0] ret obtain written' ret' where
      fold: "fold_res (vcat_step [sh, w] ?tot) ms ([], ret, 0) = Inr (written', ret', sh * length ms)"
      "zip written' (zip (coo_cols ret') (coo_vals ret')) = stacked sh 0 ms" "length written' = ?tot"
      "length (coo_cols ret') = ?tot" "length (coo_vals ret') = ?tot" "coo_shape ret' = coo_shape ret" by auto
    then have "vcat ms = Inr (ret'\<lparr>coo_rows := written'\<rparr>)"
      using False first unfolding vcat_def ms by (auto simp: ret_def ms Let_def)
    then show ?thesis using fold ret by (intro exI [of _ "ret'\<lparr>coo_rows := written'\<rparr>"]) (simp add: coo_entries_def)
  qed
qed

section \<open>Slicing and putting together\<close>

lemma sorted_filter_split:
  fixes f :: "'a \<Rightarrow> nat"
  assumes "sorted (map f xs)"
  shows "filter (\<lambda>x. f x < n) xs @ filter (\<lambda>x. f x = n) xs = filter (\<lambda>x. f x < Suc n) xs"
  using assms
proof (induction xs)
  case (Cons x xs)
  have "filter (\<lambda>y. f y < n) xs = []" if "f x = n"
    using Cons.prems that by (auto simp: filter_empty_conv)
  then show ?case using Cons by auto
qed simp

lemma concat_buckets:
  fixes f :: "'a \<Rightarrow> nat"
  assumes "sorted (map f xs)"
  shows "concat (map (\<lambda>s. filter (\<lambda>x. f x = s) xs) [0..<n]) = filter (\<lambda>x. f x < n) xs"
  by (induction n) (simp_all add: sorted_filter_split [OF assms])

lemma stacked_slices:
  assumes "slices_of n sh w es ss" "0 < sh"
  shows "stacked sh (sh * (n - k)) (drop (n - k) ss) =
     concat (map (\<lambda>s. filter (\<lambda>e. fst e div sh = s) es) [n - k..<n])"
  using assms(1)
proof (induction k)
  case 0
  then show ?case by (simp add: slices_of_def)
next
  case (Suc k)
  show ?case
  proof (cases "k < n")
    case True
    let ?s = "n - Suc k"
    have s: "?s < n" "Suc ?s = n - k" using True by simp_all
    have len: "length ss = n" using Suc.prems by (simp add: slices_of_def)
    have d: "drop ?s ss = ss ! ?s # drop (n - k) ss" using s len by (metis Cons_nth_drop_Suc)
    have e: "coo_entries (ss ! ?s) = slice_of sh ?s es" using Suc.prems s(1) by (simp add: slices_of_def)
    have "shift_rows (sh * ?s) (slice_of sh ?s es) = filter (\<lambda>e. fst e div sh = ?s) es"
      unfolding shift_rows_def slice_of_def map_map o_def
      by (intro map_idI) (auto simp: prod_eq_iff, metis mod_mult_div_eq)
    moreover have "sh * ?s + sh = sh * (n - k)" using s(2) by (metis mult_Suc_right add.commute)
    moreover have "[?s..<n] = ?s # [n - k..<n]" using s by (metis upt_conv_Cons)
    ultimately show ?thesis using Suc.IH [OF Suc.prems] by (simp add: d e)
  next
    case False
    then have "n - Suc k = n - k" by simp
    then show ?thesis using Suc.IH [OF Suc.prems] by (simp only:)
  qed
qed

lemma vslice_vcat:
  assumes wf: "wf_coo (n * sh) w m" and n: "0 < n" "0 < sh" and srt: "sorted (coo_rows m)"
  shows "\<exists>ss m'. vslice n m = Inr ss \<and> length ss = n \<and> (\<forall>s \<in> set ss. wf_coo sh w s) \<and>
     vcat ss = Inr m' \<and> coo_shape m' = coo_shape m \<and> coo_entries m' = coo_entries m"
proof -
  note W = wf_cooD [OF wf]
  from vslice_ok [OF wf n] obtain ss where ss: "vslice n m = Inr ss" "slices_of n sh w (coo_entries m) ss" by blast
  have len: "length ss = n" using ss(2) by (simp add: slices_of_def)
  have slice: "wf_coo sh w (ss ! s)" if "s < n" for s
    using ss(2) that n(2) W(4) unfolding wf_coo_def slices_of_def slice_of_def by auto
  then have all: "\<forall>s \<in> set ss. wf_coo sh w s" using len by (auto simp: in_set_conv_nth)
  then have "\<forall>s \<in> set ss. aligned sh w s" by (auto simp: wf_coo_def aligned_def)
  moreover have "ss \<noteq> []" using len n(1) by auto
  ultimately obtain m' where m': "vcat ss = Inr m'" "coo_entries m' = stacked sh 0 ss" "coo_shape m' = [sh * length ss, w]"
    using vcat_ok by blast
  have "map fst (coo_entries m) = coo_rows m" using W(2,3) by (simp add: coo_entries_def)
  then have "sorted (map (\<lambda>e. fst e div sh) (coo_entries m))"
  proof -
    have "sorted_wrt (\<lambda>a b. fst a \<le> fst b) (coo_entries m)"
      using srt \<open>map fst (coo_entries m) = coo_rows m\<close> by (metis sorted_map)
    then have "sorted_wrt (\<lambda>a b. fst a div sh \<le> fst b div sh) (coo_entries m)"
      by (rule sorted_wrt_mono_rel [rotated]) (rule div_le_mono)
    then show ?thesis unfolding sorted_map .
  qed
  moreover have "filter (\<lambda>e. fst e div sh < n) (coo_entries m) = coo_entries m"
    using W(4) by (intro filter_True) (auto simp: less_mult_imp_div_less)
  ultimately have "concat (map (\<lambda>s. filter (\<lambda>e. fst e div sh = s) (coo_entries m)) [0..<n]) = coo_entries m"
    by (simp add: concat_buckets)
  then have "stacked sh 0 ss = coo_entries m" using stacked_slices [OF ss(2) n(2), of n] by simp
  then show ?thesis using ss(1) len all m' W(1) by (intro exI [of _ ss] exI [of _ m']) (simp add: mult.commute)
qed

end
