(* ===== verification/Sparse_Tiles.thy ===== *)
theory Sparse_Tiles
  imports Sparse_Facts
begin

text \<open>
  Compression into unique tiles: the index list and the tiles stand for the matrices they were made
  from, every tile position has at most one index, and sorting, which the compression relies on,
  sorts by rows whatever order is asked for.
\<close>

section \<open>Sorting\<close>

lemma coo_entries_of_entries:
  "coo_rows m = map fst es \<Longrightarrow> coo_cols m = map (fst \<circ> snd) es \<Longrightarrow> coo_vals m = map (snd \<circ> snd) es \<Longrightarrow> coo_entries m = es"
  by (simp add: coo_entries_def zip_map_fst_snd flip: map_map)

lemma sort_entries_entries:
  "coo_entries (sort_entries b m) = (if b then sort_key (\<lambda>(r, c, v). (r, c)) (coo_entries m)
     else sort_key (\<lambda>(r, c, v). (c, r)) (coo_entries m))"
  by (rule coo_entries_of_entries) (simp_all add: sort_entries_def Let_def)

lemma coo_sort_by_rows:
  assumes "order \<noteq> UNSORTED" "order \<noteq> sorted_order m"
  shows "\<exists>m'. coo_sort order m = Inr m' \<and> mset (coo_entries m') = mset (coo_entries m) \<and>
     sorted (map (\<lambda>(r, c, v). (r, c)) (coo_entries m')) \<and> sorted_order m' = order \<and> coo_shape m' = coo_shape m"
proof -
  have "order_as_bool order" using assms(1) by (cases order) (simp_all add: order_as_bool_def)
  then have e: "coo_entries (sort_entries (order_as_bool order) m) = sort_key (\<lambda>(r, c, v). (r, c)) (coo_entries m)"
    by (simp add: sort_entries_entries)
  let ?m = "(sort_entries (order_as_bool order) m)\<lparr>sorted_order := order\<rparr>"
  have "coo_entries ?m = coo_entries (sort_entries (order_as_bool order) m)" by (simp add: coo_entries_def)
  moreover have "coo_sort order m = Inr ?m" using assms by (simp add: coo_sort_def)
  moreover have "coo_shape ?m = coo_shape m" by (simp add: sort_entries_def Let_def)
  ultimately show ?thesis by (intro exI [of _ ?m]) (simp add: e)
qed

section \<open>The tiles of the store\<close>

definition tile_at :: "nat list \<Rightarrow> nat \<Rightarrow> nat list" where
  "tile_at tiles i = take (TILE_DIM * TILE_DIM) (drop (i * (TILE_DIM * TILE_DIM)) tiles)"

definition store_ok :: "TileStore \<Rightarrow> bool" where
  "store_ok s \<longleftrightarrow> length (store_tiles s) = length (unique_id_map s) * (TILE_DIM * TILE_DIM) \<and>
     (\<forall>(k, i) \<in> set (unique_id_map s). i < length (unique_id_map s) \<and> tile_at (store_tiles s) i = tile_of_key k) \<and>
     (\<forall>si \<in> set (store_indices s). si_unique_id si < length (unique_id_map s))"

lemma length_tile_of_key [simp]: "length (tile_of_key k) = TILE_DIM * TILE_DIM"
proof -
  have "length (fold (\<lambda>(r, c, v) tile. tile[r * TILE_DIM + c := v]) k tile) = length tile" for tile :: "nat list"
    by (induction k arbitrary: tile) (auto split: prod.splits)
  then show ?thesis by (simp add: tile_of_key_def)
qed

lemma tile_at_append:
  assumes "length tiles = n * (TILE_DIM * TILE_DIM)" "length tile = TILE_DIM * TILE_DIM"
  shows "i < n \<Longrightarrow> tile_at (tiles @ tile) i = tile_at tiles i" "tile_at (tiles @ tile) n = tile"
proof -
  show "tile_at (tiles @ tile) i = tile_at tiles i" if "i < n"
  proof -
    have "Suc i * (TILE_DIM * TILE_DIM) \<le> n * (TILE_DIM * TILE_DIM)" using that by (intro mult_le_mono1) simp
    then have "i * (TILE_DIM * TILE_DIM) + TILE_DIM * TILE_DIM \<le> length tiles" unfolding assms(1) by simp
    then show ?thesis by (simp add: tile_at_def)
  qed
  show "tile_at (tiles @ tile) n = tile" using assms by (simp add: tile_at_def)
qed

lemma add_tile_ok:
  assumes "store_ok s" "add_tile k s = (i, s')"
  shows "store_ok s'" "i < length (unique_id_map s')" "tile_at (store_tiles s') i = tile_of_key k"
    "store_indices s' = store_indices s" "length (unique_id_map s) \<le> length (unique_id_map s')"
    "j < length (unique_id_map s) \<Longrightarrow> tile_at (store_tiles s') j = tile_at (store_tiles s) j"
proof -
  let ?n = "length (unique_id_map s)"
  have len: "length (store_tiles s) = ?n * (TILE_DIM * TILE_DIM)"
    and known: "\<And>k i. (k, i) \<in> set (unique_id_map s) \<Longrightarrow> i < ?n \<and> tile_at (store_tiles s) i = tile_of_key k"
    and ids: "\<And>si. si \<in> set (store_indices s) \<Longrightarrow> si_unique_id si < ?n"
    using assms(1) unfolding store_ok_def by blast+
  have "store_ok s' \<and> i < length (unique_id_map s') \<and> tile_at (store_tiles s') i = tile_of_key k \<and>
      store_indices s' = store_indices s \<and> ?n \<le> length (unique_id_map s') \<and>
      (\<forall>j < ?n. tile_at (store_tiles s') j = tile_at (store_tiles s) j)"
  proof (cases "map_of (unique_id_map s) k")
    case (Some i')
    then have "i = i'" "s' = s" using assms(2) by (simp_all add: add_tile_def)
    then show ?thesis using assms(1) known [OF map_of_SomeD [OF Some]] by simp
  next
    case None
    have "0 < TILE_DIM" by (simp add: TILE_DIM_def)
    then have i: "i = ?n" and s': "s' = s\<lparr>unique_id_map := AList.update k i (unique_id_map s),
        store_tiles := store_tiles s @ tile_of_key k\<rparr>" using assms(2) None len by (auto simp: add_tile_def Let_def)
    have upd: "AList.update k ?n (unique_id_map s) = unique_id_map s @ [(k, ?n)]"
      using None by (intro update_new) (simp add: map_of_eq_None_iff)
    note T = tile_at_append [OF len length_tile_of_key [of k]]
    show ?thesis unfolding store_ok_def s' using len known ids T
      by (auto simp: i upd less_Suc_eq)
  qed
  then show "store_ok s'" "i < length (unique_id_map s')" "tile_at (store_tiles s') i = tile_of_key k"
    "store_indices s' = store_indices s" "?n \<le> length (unique_id_map s')"
    "j < ?n \<Longrightarrow> tile_at (store_tiles s') j = tile_at (store_tiles s) j" by blast+
qed

text \<open>The tile stored for a position of a matrix.\<close>

definition index_key :: "SparseIndex \<Rightarrow> nat \<times> nat \<times> nat" where
  "index_key si = (si_z si, si_rt si, si_ct si)"

definition stored :: "TileStore \<Rightarrow> nat \<times> nat \<times> nat \<Rightarrow> nat list option" where
  "stored s key = map_option (tile_at (store_tiles s)) (map_of (map (\<lambda>si. (index_key si, si_unique_id si)) (store_indices s)) key)"

definition one_index_each :: "TileStore \<Rightarrow> bool" where
  "one_index_each s \<longleftrightarrow> distinct (map index_key (store_indices s))"

lemma stored_add_tile:
  assumes "store_ok s" "add_tile k s = (i, s')"
  shows "stored s' = stored s"
proof
  fix key
  note A = add_tile_ok [OF assms]
  have "tile_at (store_tiles s') u = tile_at (store_tiles s) u"
    if "map_of (map (\<lambda>si. (index_key si, si_unique_id si)) (store_indices s)) key = Some u" for u
  proof -
    have "\<exists>si \<in> set (store_indices s). u = si_unique_id si" using map_of_SomeD [OF that] by auto
    then show ?thesis using assms(1) A(6) by (auto simp: store_ok_def)
  qed
  then show "stored s' key = stored s key"
    unfolding stored_def A(4) by (cases "map_of (map (\<lambda>si. (index_key si, si_unique_id si)) (store_indices s)) key") auto
qed

lemma emplace_index_ok:
  assumes "store_ok s" "one_index_each s" "stored s (z, rt, ct) = None" "i < length (unique_id_map s)"
  shows "store_ok (emplace_index i ct rt z zdim s)" "one_index_each (emplace_index i ct rt z zdim s)"
    "stored (emplace_index i ct rt z zdim s) = (stored s)((z, rt, ct) \<mapsto> tile_at (store_tiles s) i)"
proof -
  let ?ix = "map (\<lambda>si. (index_key si, si_unique_id si)) (store_indices s)"
  have new: "map_of ?ix (z, rt, ct) = None" using assms(3) by (simp add: stored_def)
  then have fresh: "(z, rt, ct) \<notin> index_key ` set (store_indices s)"
    by (simp add: map_of_eq_None_iff image_image)
  show "store_ok (emplace_index i ct rt z zdim s)" using assms(1,4) by (auto simp: store_ok_def emplace_index_def)
  show "one_index_each (emplace_index i ct rt z zdim s)"
    using assms(2) fresh by (simp add: one_index_each_def emplace_index_def) (simp add: index_key_def)
  show "stored (emplace_index i ct rt z zdim s) = (stored s)((z, rt, ct) \<mapsto> tile_at (store_tiles s) i)"
    using new by (auto simp: stored_def emplace_index_def index_key_def fun_eq_iff map_add_def split: option.splits)
qed

text \<open>Flushing a row of tiles stores each of them at its position.\<close>

lemma flush_tiles_ok:
  assumes "store_ok s" "one_index_each s" "distinct (map fst keys)" "\<forall>ct \<in> fst ` set keys. stored s (z, irt, ct) = None"
  shows "store_ok (fold (flush_tile irt z zdim) keys s) \<and> one_index_each (fold (flush_tile irt z zdim) keys s) \<and>
     stored (fold (flush_tile irt z zdim) keys s) = (\<lambda>(z', rt', ct'). if z' = z \<and> rt' = irt \<and> map_of keys ct' \<noteq> None
       then map_option tile_of_key (map_of keys ct') else stored s (z', rt', ct'))"
  using assms
proof (induction keys arbitrary: s)
  case Nil
  then show ?case by (simp add: fun_eq_iff)
next
  case (Cons x keys)
  obtain ict k where x: "x = (ict, k)" by (cases x)
  obtain i s1 where a: "add_tile k s = (i, s1)" by (cases "add_tile k s")
  note A = add_tile_ok [OF Cons.prems(1) a]
  have st1: "stored s1 = stored s" by (rule stored_add_tile [OF Cons.prems(1) a])
  have one1: "one_index_each s1" using Cons.prems(2) A(4) by (simp add: one_index_each_def)
  have new: "stored s1 (z, irt, ict) = None" using Cons.prems(4) st1 x by simp
  define s2 where "s2 = emplace_index i ict irt z zdim s1"
  note E = emplace_index_ok [OF A(1) one1 new A(2), of zdim, folded s2_def]
  have fl: "flush_tile irt z zdim x s = s2" by (simp add: flush_tile_def x a s2_def)
  have st2: "stored s2 = (stored s)((z, irt, ict) \<mapsto> tile_of_key k)" using E(3) A(3) st1 by simp
  have "\<forall>ct \<in> fst ` set keys. stored s2 (z, irt, ct) = None" using Cons.prems(3,4) st2 x by auto
  from Cons.IH [OF E(1,2) _ this] Cons.prems(3) have IH: "store_ok (fold (flush_tile irt z zdim) keys s2)"
    "one_index_each (fold (flush_tile irt z zdim) keys s2)"
    "stored (fold (flush_tile irt z zdim) keys s2) = (\<lambda>(z', rt', ct'). if z' = z \<and> rt' = irt \<and> map_of keys ct' \<noteq> None
       then map_option tile_of_key (map_of keys ct') else stored s2 (z', rt', ct'))" by auto
  have "map_of keys ict = None" using Cons.prems(3) x by (simp add: map_of_eq_None_iff)
  then have "stored (fold (flush_tile irt z zdim) keys s2) = (\<lambda>(z', rt', ct'). if z' = z \<and> rt' = irt \<and> map_of (x # keys) ct' \<noteq> None
       then map_option tile_of_key (map_of (x # keys) ct') else stored s (z', rt', ct'))"
    by (auto simp: IH(3) st2 x fun_eq_iff)
  moreover have "fold (flush_tile irt z zdim) (x # keys) s = fold (flush_tile irt z zdim) keys s2" by (simp add: fl)
  ultimately show ?case using IH(1,2) by (simp only:)
qed

section \<open>One matrix\<close>

text \<open>The entries of a tile, with their position in it.\<close>

definition key_at :: "nat \<Rightarrow> nat \<Rightarrow> (nat \<times> nat \<times> nat) list \<Rightarrow> TileKey" where
  "key_at rt ct es = map (\<lambda>(r, c, v). (r mod TILE_DIM, c mod TILE_DIM, v))
     (filter (\<lambda>(r, c, v). r div TILE_DIM = rt \<and> c div TILE_DIM = ct) es)"

lemma key_at_snoc: "key_at rt ct (es @ [(r, c, v)]) =
    key_at rt ct es @ (if r div TILE_DIM = rt \<and> c div TILE_DIM = ct then [(r mod TILE_DIM, c mod TILE_DIM, v)] else [])"
  by (simp add: key_at_def)

lemma key_at_empty: "\<forall>e \<in> set es. fst e div TILE_DIM \<noteq> rt \<Longrightarrow> key_at rt ct es = []"
  by (auto simp: key_at_def filter_empty_conv)

definition tile_content :: "TileStore \<Rightarrow> nat \<times> nat \<times> nat \<Rightarrow> nat list" where
  "tile_content s key = (case stored s key of None \<Rightarrow> replicate (TILE_DIM * TILE_DIM) 0 | Some tile \<Rightarrow> tile)"

lemma tile_of_empty: "tile_of_key [] = replicate (TILE_DIM * TILE_DIM) 0"
  by (simp add: tile_of_key_def)

text \<open>After some entries: the rows of tiles before the current one are stored, the current one is collected.\<close>

definition compress_inv :: "nat \<Rightarrow> TileStore \<Rightarrow> (nat \<times> nat \<times> nat) list \<Rightarrow> nat \<times> (nat \<times> TileKey) list \<times> TileStore \<Rightarrow> bool" where
  "compress_inv z s0 es s \<longleftrightarrow> (case s of (next_rt, keys, st) \<Rightarrow>
     store_ok st \<and> one_index_each st \<and> map_of (unique_id_map st) [] = Some 0 \<and> distinct (map fst keys) \<and> 0 < next_rt \<and>
     (\<forall>ct. map_of keys ct = (if key_at (next_rt - 1) ct es = [] then None else Some (key_at (next_rt - 1) ct es))) \<and>
     (\<forall>rt < next_rt - 1. \<forall>ct. tile_content st (z, rt, ct) = tile_of_key (key_at rt ct es)) \<and>
     (\<forall>rt \<ge> next_rt - 1. \<forall>ct. stored st (z, rt, ct) = None) \<and>
     (\<forall>e \<in> set es. fst e div TILE_DIM < next_rt) \<and>
     (if es = [] then next_rt = 1 else \<exists>e \<in> set es. fst e div TILE_DIM = next_rt - 1) \<and>
     (\<forall>z' rt ct. z' \<noteq> z \<longrightarrow> stored st (z', rt, ct) = stored s0 (z', rt, ct)))"

lemma compress_invD:
  assumes "compress_inv z s0 es (next_rt, keys, st)"
  shows "store_ok st" "one_index_each st" "map_of (unique_id_map st) [] = Some 0" "distinct (map fst keys)" "0 < next_rt"
    "map_of keys ct = (if key_at (next_rt - 1) ct es = [] then None else Some (key_at (next_rt - 1) ct es))"
    "rt < next_rt - 1 \<Longrightarrow> tile_content st (z, rt, ct) = tile_of_key (key_at rt ct es)"
    "next_rt - 1 \<le> rt \<Longrightarrow> stored st (z, rt, ct) = None"
    "e \<in> set es \<Longrightarrow> fst e div TILE_DIM < next_rt"
    "es = [] \<Longrightarrow> next_rt = 1" "es \<noteq> [] \<Longrightarrow> \<exists>e \<in> set es. fst e div TILE_DIM = next_rt - 1"
    "z' \<noteq> z \<Longrightarrow> stored st (z', rt, ct) = stored s0 (z', rt, ct)"
  using assms unfolding compress_inv_def prod.case by (blast | (simp only: if_True if_False refl, blast) | meson)+

lemma add_tile_keeps: "map_of (unique_id_map s) k = Some j \<Longrightarrow> map_of (unique_id_map (snd (add_tile k' s))) k = Some j"
  by (auto simp: add_tile_def Let_def split: option.splits)

lemma flush_keeps:
  "map_of (unique_id_map s) k = Some j \<Longrightarrow> map_of (unique_id_map (fold (flush_tile irt z zdim) keys s)) k = Some j"
proof (induction keys arbitrary: s)
  case (Cons x keys)
  have "map_of (unique_id_map (flush_tile irt z zdim x s)) k = Some j"
    using add_tile_keeps [OF Cons.prems, of "snd x"]
    by (cases x; cases "add_tile (snd x) s") (simp add: flush_tile_def emplace_index_def)
  then show ?case using Cons.IH by simp
qed simp

text \<open>Flushing the row that is being collected stores all rows up to it.\<close>

lemma flush_inv:
  assumes inv: "compress_inv z s0 es (next_rt, keys, st)"
    and st'_def: "st' = fold (flush_tile (next_rt - 1) z zdim) keys st"
  shows "store_ok st'" "one_index_each st'" "map_of (unique_id_map st') [] = Some 0"
    "rt < next_rt \<Longrightarrow> tile_content st' (z, rt, ct) = tile_of_key (key_at rt ct es)"
    "next_rt \<le> rt \<Longrightarrow> stored st' (z, rt, ct) = None"
    "z' \<noteq> z \<Longrightarrow> stored st' (z', rt, ct) = stored s0 (z', rt, ct)"
proof -
  note I = compress_invD [OF inv]
  have "\<forall>ct \<in> fst ` set keys. stored st (z, next_rt - 1, ct) = None" using I(8) by simp
  from flush_tiles_ok [OF I(1,2,4) this, of zdim] have F: "store_ok st'" "one_index_each st'"
    "stored st' = (\<lambda>(z', rt', ct'). if z' = z \<and> rt' = next_rt - 1 \<and> map_of keys ct' \<noteq> None
       then map_option tile_of_key (map_of keys ct') else stored st (z', rt', ct'))" by (simp_all add: st'_def)
  show "store_ok st'" "one_index_each st'" by (rule F(1), rule F(2))
  show "map_of (unique_id_map st') [] = Some 0" unfolding st'_def by (rule flush_keeps [OF I(3)])
  show "tile_content st' (z, rt, ct) = tile_of_key (key_at rt ct es)" if "rt < next_rt"
  proof (cases "rt = next_rt - 1")
    case True
    then show ?thesis
      using I(6) [of ct] I(8) [of "next_rt - 1" ct] by (simp add: tile_content_def F(3) tile_of_empty)
  next
    case False
    then have "rt < next_rt - 1" using that by simp
    then show ?thesis using I(7) [of rt ct] False by (simp add: tile_content_def F(3))
  qed
  show "stored st' (z, rt, ct) = None" if "next_rt \<le> rt"
  proof -
    have "rt \<noteq> next_rt - 1" "next_rt - 1 \<le> rt" using that I(5) by simp_all
    then show ?thesis using I(8) [of rt ct] by (simp add: F(3))
  qed
  show "stored st' (z', rt, ct) = stored s0 (z', rt, ct)" if "z' \<noteq> z"
    using that I(12) by (simp add: F(3))
qed

lemma compress_entry_inv:
  assumes inv: "compress_inv z s0 es (next_rt, keys, st)" and srt: "\<forall>e \<in> set es. fst e \<le> r"
  shows "compress_inv z s0 (es @ [(r, c, v)]) (compress_entry z zdim (r, c, v) (next_rt, keys, st))"
proof -
  note I = compress_invD [OF inv]
  let ?rt = "r div TILE_DIM" and ?ct = "c div TILE_DIM" and ?e = "(r mod TILE_DIM, c mod TILE_DIM, v)"
  let ?es = "es @ [(r, c, v)]"
  have loc: "r - ?rt * TILE_DIM = r mod TILE_DIM" "c - ?ct * TILE_DIM = c mod TILE_DIM"
    by (simp_all add: minus_div_mult_eq_mod)
  have low: "fst e div TILE_DIM \<le> ?rt" if "e \<in> set es" for e using srt that by (simp add: div_le_mono)
  have ge: "next_rt - 1 \<le> ?rt"
  proof (cases "es = []")
    case False
    then show ?thesis using I(11) low by fastforce
  qed (use I(10) in simp)
  show ?thesis
  proof (cases "?rt < next_rt")
    case True
    then have rt: "?rt = next_rt - 1" using ge by simp
    have step: "compress_entry z zdim (r, c, v) (next_rt, keys, st) = (next_rt, append_entry ?ct ?e keys, st)"
      using True by (simp add: compress_entry_def Let_def loc)
    have keys: "map_of (append_entry ?ct ?e keys) ct = (if key_at (next_rt - 1) ct ?es = [] then None else Some (key_at (next_rt - 1) ct ?es))" for ct
      using I(6) rt by (simp add: append_entry_def key_at_snoc split: option.splits)
    have "distinct (map fst (append_entry ?ct ?e keys))" using I(4) by (simp add: append_entry_def distinct_update)
    moreover have "tile_content st (z, rt', ct) = tile_of_key (key_at rt' ct ?es)" if "rt' < next_rt - 1" for rt' ct
      using I(7) that rt by (simp add: key_at_snoc)
    ultimately show ?thesis unfolding step compress_inv_def prod.case
      using I(1-3,5,8,9,12) keys rt True by (auto simp: all_conj_distrib)
  next
    case False
    define st1 where "st1 = (if keys = [] then emplace_index 0 ?ct (next_rt - 1) z zdim st else st)"
    define st2 where "st2 = fold (flush_tile (next_rt - 1) z zdim) keys st1"
    have step: "compress_entry z zdim (r, c, v) (next_rt, keys, st) = (?rt + 1, [(?ct, [?e])], st2)"
      using False by (simp add: compress_entry_def Let_def loc st1_def st2_def append_entry_def)
    have st2: "store_ok st2 \<and> one_index_each st2 \<and> map_of (unique_id_map st2) [] = Some 0 \<and>
      (\<forall>rt < next_rt. \<forall>ct. tile_content st2 (z, rt, ct) = tile_of_key (key_at rt ct es)) \<and>
      (\<forall>rt \<ge> next_rt. \<forall>ct. stored st2 (z, rt, ct) = None) \<and>
      (\<forall>z' rt ct. z' \<noteq> z \<longrightarrow> stored st2 (z', rt, ct) = stored s0 (z', rt, ct))"
    proof (cases "keys = []")
      case True
      have "es = []"
      proof (rule ccontr)
        assume "es \<noteq> []"
        then obtain e where "e \<in> set es" "fst e div TILE_DIM = next_rt - 1" using I(11) by blast
        then have "key_at (next_rt - 1) (fst (snd e) div TILE_DIM) es \<noteq> []"
          by (force simp: key_at_def filter_empty_conv)
        then show False using I(6) [of "fst (snd e) div TILE_DIM"] True by simp
      qed
      then have "next_rt = 1" using I(10) by simp
      have zero: "0 < length (unique_id_map st)" "tile_at (store_tiles st) 0 = tile_of_key []"
        using I(1) map_of_SomeD [OF I(3)] unfolding store_ok_def by auto
      note E = emplace_index_ok [OF I(1,2) I(8) [of "next_rt - 1" ?ct] zero(1), of zdim]
      have "st2 = emplace_index 0 ?ct (next_rt - 1) z zdim st" using True by (simp add: st2_def st1_def)
      moreover have "map_of (unique_id_map (emplace_index 0 ?ct (next_rt - 1) z zdim st)) [] = Some 0"
        using I(3) by (simp add: emplace_index_def)
      ultimately show ?thesis
        using E I(8,12) zero(2) \<open>es = []\<close> \<open>next_rt = 1\<close>
        by (auto simp: tile_content_def key_at_def tile_of_empty)
    next
      case False
      then have "st2 = fold (flush_tile (next_rt - 1) z zdim) keys st" by (simp add: st2_def st1_def)
      note FI = flush_inv [OF inv this]
      show ?thesis using FI by blast
    qed
    have S: "store_ok st2" "one_index_each st2" "map_of (unique_id_map st2) [] = Some 0"
      "\<And>rt ct. rt < next_rt \<Longrightarrow> tile_content st2 (z, rt, ct) = tile_of_key (key_at rt ct es)"
      "\<And>rt ct. next_rt \<le> rt \<Longrightarrow> stored st2 (z, rt, ct) = None"
      "\<And>z' rt ct. z' \<noteq> z \<Longrightarrow> stored st2 (z', rt, ct) = stored s0 (z', rt, ct)" using st2 by blast+
    have "key_at ?rt ct es = []" for ct using I(9) False by (intro key_at_empty) fastforce
    then have keys: "map_of [(?ct, [?e])] ct = (if key_at (?rt + 1 - 1) ct ?es = [] then None else Some (key_at (?rt + 1 - 1) ct ?es))" for ct
      by (simp add: key_at_snoc)
    have content: "tile_content st2 (z, rt', ct) = tile_of_key (key_at rt' ct ?es)" if "rt' < ?rt" for rt' ct
    proof (cases "rt' < next_rt")
      case True
      then show ?thesis using S(4) [OF True] that by (simp add: key_at_snoc)
    next
      case False
      then have "key_at rt' ct es = []" using I(9) by (intro key_at_empty) fastforce
      then show ?thesis using S(5) [of rt' ct] False that by (simp add: key_at_snoc tile_content_def tile_of_empty)
    qed
    have "fst e div TILE_DIM < ?rt + 1" if "e \<in> set ?es" for e
      using that low [of e] by (cases "e = (r, c, v)") (simp_all add: less_Suc_eq_le)
    moreover have "stored st2 (z, rt', ct) = None" if "?rt + 1 - 1 \<le> rt'" for rt' ct
      by (rule S(5)) (use that False in simp)
    moreover have "distinct (map fst [(?ct, [?e])])" "0 < ?rt + 1"
      "if ?es = [] then ?rt + 1 = 1 else \<exists>e \<in> set ?es. fst e div TILE_DIM = ?rt + 1 - 1" by simp_all
    moreover have "tile_content st2 (z, rt', ct) = tile_of_key (key_at rt' ct ?es)" if "rt' < ?rt + 1 - 1" for rt' ct
      by (rule content) (use that in simp)
    ultimately show ?thesis unfolding step compress_inv_def prod.case using S(1-3,6) keys by blast
  qed
qed

section \<open>All matrices\<close>

lemma compress_entries_inv:
  assumes "compress_inv z s0 es0 s" "sorted_wrt (\<lambda>a b. fst a \<le> fst b) (es0 @ es)"
  shows "compress_inv z s0 (es0 @ es) (fold (compress_entry z zdim) es s)"
  using assms
proof (induction es arbitrary: s es0)
  case (Cons e es)
  obtain r c v where e: "e = (r, c, v)" by (cases e)
  obtain next_rt keys st where s: "s = (next_rt, keys, st)" by (cases s)
  have "\<forall>e' \<in> set es0. fst e' \<le> r" using Cons.prems(2) e by (auto simp: sorted_wrt_append)
  then have "compress_inv z s0 (es0 @ [e]) (compress_entry z zdim e s)"
    unfolding e s by (rule compress_entry_inv [OF Cons.prems(1) [unfolded s]])
  from Cons.IH [OF this] Cons.prems(2) show ?case by simp
qed simp

text \<open>What the store holds after the matrices \<open>ms\<close>, the first of them numbered \<open>z0\<close>.\<close>

definition holds_matrices :: "TileStore \<Rightarrow> nat \<Rightarrow> SparseCOO list \<Rightarrow> bool" where
  "holds_matrices s n ms \<longleftrightarrow> store_ok s \<and> one_index_each s \<and> map_of (unique_id_map s) [] = Some 0 \<and>
     (\<forall>z < n. \<forall>rt ct. tile_content s (z, rt, ct) = tile_of_key (key_at rt ct (coo_entries (ms ! z)))) \<and>
     (\<forall>z \<ge> n. \<forall>rt ct. stored s (z, rt, ct) = None)"

lemma compress_matrix_ok:
  assumes H: "holds_matrices s n ms" and srt: "sorted_wrt (\<lambda>a b. fst a \<le> fst b) (coo_entries (ms ! n))"
  shows "holds_matrices (compress_matrix zdim (n, ms ! n) s) (Suc n) ms"
proof -
  let ?es = "coo_entries (ms ! n)"
  have "compress_inv n s [] (1, [], s)"
    using H by (auto simp: compress_inv_def holds_matrices_def key_at_def)
  from compress_entries_inv [OF this, of ?es zdim] srt
  have inv: "compress_inv n s ?es (fold (compress_entry n zdim) ?es (1, [], s))" by simp
  obtain next_rt keys st where f: "fold (compress_entry n zdim) ?es (1, [], s) = (next_rt, keys, st)"
    by (cases "fold (compress_entry n zdim) ?es (1, [], s)")
  define st' where "st' = fold (flush_tile (next_rt - 1) n zdim) keys st"
  have cm: "compress_matrix zdim (n, ms ! n) s = st'" unfolding compress_matrix_def Let_def prod.case f st'_def ..
  note I = compress_invD [OF inv [unfolded f]] and F = flush_inv [OF inv [unfolded f] st'_def]
  have "tile_content st' (n, rt, ct) = tile_of_key (key_at rt ct ?es)" for rt ct
  proof (cases "rt < next_rt")
    case False
    then have "key_at rt ct ?es = []" using I(9) by (intro key_at_empty) fastforce
    then show ?thesis using F(5) [of rt ct] False by (simp add: tile_content_def tile_of_empty)
  qed (rule F(4))
  moreover have "tile_content st' (z, rt, ct) = tile_content s (z, rt, ct)" if "z \<noteq> n" for z rt ct
    using F(6) [OF that] by (simp add: tile_content_def)
  moreover have "stored st' (z, rt, ct) = None" if "Suc n \<le> z" for z rt ct
    using F(6) [of z] H that unfolding holds_matrices_def by auto
  ultimately show ?thesis
    using F(1-3) H unfolding cm holds_matrices_def by (auto simp: less_Suc_eq)
qed

lemma compress_all_ok:
  assumes "\<forall>m \<in> set ms. sorted_wrt (\<lambda>a b. fst a \<le> fst b) (coo_entries m)" "n \<le> length ms"
    and "holds_matrices s 0 ms"
  shows "holds_matrices (fold (compress_matrix zdim) (take n (zip [0..<length ms] ms)) s) n ms"
  using assms(2)
proof (induction n)
  case (Suc n)
  have "take (Suc n) (zip [0..<length ms] ms) = take n (zip [0..<length ms] ms) @ [(n, ms ! n)]"
    using Suc.prems by (simp add: take_Suc_conv_app_nth)
  then show ?case using Suc assms(1) by (simp add: compress_matrix_ok)
qed (use assms(3) in simp)

section \<open>Values\<close>

text \<open>The value of a matrix at a position: that of the last entry there.\<close>

definition value_at :: "(nat \<times> nat \<times> nat) list \<Rightarrow> nat \<Rightarrow> nat \<Rightarrow> nat" where
  "value_at es r c = fold (\<lambda>(r', c', v) x. if r' = r \<and> c' = c then v else x) es 0"

text \<open>The value that the indices and the tiles give for it.\<close>

definition tiled_value :: "SparseIndex list \<Rightarrow> nat list \<Rightarrow> nat \<Rightarrow> nat \<Rightarrow> nat \<Rightarrow> nat" where
  "tiled_value indices tiles z r c =
     (case map_of (map (\<lambda>si. (index_key si, si_unique_id si)) indices) (z, r div TILE_DIM, c div TILE_DIM) of
        None \<Rightarrow> 0
      | Some i \<Rightarrow> tile_at tiles i ! (r mod TILE_DIM * TILE_DIM + c mod TILE_DIM))"

lemma tile_of_key_nth:
  assumes "\<forall>e \<in> set k. fst e < TILE_DIM \<and> fst (snd e) < TILE_DIM" "a < TILE_DIM" "b < TILE_DIM"
  shows "tile_of_key k ! (a * TILE_DIM + b) = value_at k a b"
  using assms(1)
proof (induction k rule: rev_induct)
  case Nil
  have "a * TILE_DIM + b < TILE_DIM * TILE_DIM" using assms(2,3) by (simp add: TILE_DIM_def)
  then show ?case by (simp add: tile_of_key_def value_at_def)
next
  case (snoc e k)
  obtain r c v where e: "e = (r, c, v)" by (cases e)
  have rc: "r < TILE_DIM" "c < TILE_DIM" using snoc.prems e by auto
  then have "r * TILE_DIM + c < TILE_DIM * TILE_DIM" by (simp add: TILE_DIM_def)
  moreover have "r * TILE_DIM + c = a * TILE_DIM + b \<longleftrightarrow> r = a \<and> c = b"
  proof -
    have "(r * TILE_DIM + c) div TILE_DIM = r" "(r * TILE_DIM + c) mod TILE_DIM = c"
      "(a * TILE_DIM + b) div TILE_DIM = a" "(a * TILE_DIM + b) mod TILE_DIM = b"
      using rc assms(2,3) by simp_all
    then show ?thesis by metis
  qed
  moreover have "tile_of_key (k @ [e]) = (tile_of_key k)[r * TILE_DIM + c := v]" by (simp add: tile_of_key_def e)
  ultimately show ?case using snoc by (simp add: e value_at_def nth_list_update)
qed

lemma value_at_key:
  "value_at (key_at (r div TILE_DIM) (c div TILE_DIM) es) (r mod TILE_DIM) (c mod TILE_DIM) = value_at es r c"
proof (induction es rule: rev_induct)
  case (snoc e es)
  obtain r' c' v where e: "e = (r', c', v)" by (cases e)
  have "r' = r \<longleftrightarrow> r' div TILE_DIM = r div TILE_DIM \<and> r' mod TILE_DIM = r mod TILE_DIM"
    "c' = c \<longleftrightarrow> c' div TILE_DIM = c div TILE_DIM \<and> c' mod TILE_DIM = c mod TILE_DIM" by (metis div_mult_mod_eq)+
  then show ?case using snoc by (auto simp: e key_at_snoc value_at_def)
qed (simp add: key_at_def value_at_def)

lemma compress_values:
  assumes "\<not> PYBUDA_SPARSE_NO_MATH env" "\<forall>m \<in> set ms. sorted_wrt (\<lambda>a b. fst a \<le> fst b) (coo_entries m)"
    and res: "compress_unique_tiles env ms = (indices, tiles)"
  shows "distinct (map index_key indices) \<and> (\<exists>n. length tiles = n * (TILE_DIM * TILE_DIM) \<and> (\<forall>si \<in> set indices. si_unique_id si < n)) \<and>
     (\<forall>z < length ms. \<forall>r c. tiled_value indices tiles z r c = value_at (coo_entries (ms ! z)) r c)"
proof -
  define s0 where "s0 = snd (add_tile [] \<lparr>unique_id_map = [], store_tiles = [], store_indices = []\<rparr>)"
  have s0: "s0 = \<lparr>unique_id_map = [([], 0)], store_tiles = tile_of_key [], store_indices = []\<rparr>"
    by (simp add: s0_def add_tile_def)
  have "holds_matrices s0 0 ms"
    unfolding holds_matrices_def s0 by (simp add: store_ok_def one_index_each_def stored_def tile_at_def)
  from compress_all_ok [OF assms(2) order.refl this, of "length ms"]
  have H: "holds_matrices (fold (compress_matrix (length ms)) (zip [0..<length ms] ms) s0) (length ms) ms" by simp
  define st where "st = fold (compress_matrix (length ms)) (zip [0..<length ms] ms) s0"
  have it: "indices = store_indices st" "tiles = store_tiles st"
    using res assms(1) by (simp_all add: compress_unique_tiles_def s0_def st_def Let_def)
  note H = H [folded st_def]
  have ok: "store_ok st" "one_index_each st" using H by (simp_all add: holds_matrices_def)
  have "tiled_value indices tiles z r c = value_at (coo_entries (ms ! z)) r c" if "z < length ms" for z r c
  proof -
    let ?k = "key_at (r div TILE_DIM) (c div TILE_DIM) (coo_entries (ms ! z))"
    have pos: "0 < TILE_DIM" by (simp add: TILE_DIM_def)
    have "r mod TILE_DIM * TILE_DIM + c mod TILE_DIM < TILE_DIM * TILE_DIM"
      using pos mod_less_divisor [OF pos, of r] mod_less_divisor [OF pos, of c] by (simp add: TILE_DIM_def)
    then have "tiled_value indices tiles z r c =
        tile_content st (z, r div TILE_DIM, c div TILE_DIM) ! (r mod TILE_DIM * TILE_DIM + c mod TILE_DIM)"
      by (simp add: tiled_value_def tile_content_def stored_def it split: option.split)
    also have "\<dots> = tile_of_key ?k ! (r mod TILE_DIM * TILE_DIM + c mod TILE_DIM)"
      using H that by (simp add: holds_matrices_def)
    also have "\<dots> = value_at ?k (r mod TILE_DIM) (c mod TILE_DIM)"
      using pos by (intro tile_of_key_nth) (auto simp: key_at_def)
    finally show ?thesis by (simp add: value_at_key)
  qed
  moreover have "\<exists>n. length tiles = n * (TILE_DIM * TILE_DIM) \<and> (\<forall>si \<in> set indices. si_unique_id si < n)"
    using ok(1) unfolding it store_ok_def by (intro exI [of _ "length (unique_id_map st)"]) blast
  ultimately show ?thesis using ok(2) by (simp add: one_index_each_def it)
qed

end
