(* ===== verification/Sparse_Cores.thy ===== *)
theory Sparse_Cores
  imports Sparse_Buda Sparse_Loop Sparse_Tiles
begin

text \<open>
  All cores together: what the tiles and encodings of the cores hold is the values of the matrices.
\<close>

section \<open>Values\<close>

lemma value_at_snoc: "value_at (es @ [(r', c', v)]) r c = (if r' = r \<and> c' = c then v else value_at es r c)"
  by (simp add: value_at_def)

lemma value_at_notin: "(\<And>v. (r, c, v) \<notin> set es) \<Longrightarrow> value_at es r c = 0"
proof (induction es rule: rev_induct)
  case Nil
  then show ?case by (simp add: value_at_def)
next
  case (snoc e es)
  obtain r' c' v' where e: "e = (r', c', v')" by (cases e)
  then show ?case using snoc by (auto simp: value_at_snoc)
qed

definition coords :: "(nat \<times> nat \<times> nat) list \<Rightarrow> (nat \<times> nat) list" where
  "coords es = map (\<lambda>(r, c, v). (r, c)) es"

lemma value_at_in: "distinct (coords es) \<Longrightarrow> (r, c, v) \<in> set es \<Longrightarrow> value_at es r c = v"
proof (induction es rule: rev_induct)
  case (snoc e es)
  obtain r' c' v' where e: "e = (r', c', v')" by (cases e)
  have "(r', c') \<notin> set (coords es)" using snoc.prems(1) by (simp add: coords_def e)
  moreover have "(r, c, v) \<in> set es \<Longrightarrow> (r, c) \<in> set (coords es)" by (force simp: coords_def)
  ultimately show ?case using snoc by (auto simp: value_at_snoc e coords_def)
qed simp

lemma value_at_perm:
  assumes "mset es = mset es'" "distinct (coords es)"
  shows "value_at es r c = value_at es' r c"
proof -
  have set: "set es = set es'" using assms(1) by (rule mset_eq_setD)
  have "mset (coords es) = mset (coords es')" using assms(1) by (simp add: coords_def)
  then have d: "distinct (coords es')" using assms(2) by (metis mset_eq_imp_distinct_iff)
  show ?thesis
  proof (cases "\<exists>v. (r, c, v) \<in> set es")
    case True
    then obtain v where "(r, c, v) \<in> set es" by blast
    then show ?thesis using value_at_in [OF assms(2)] value_at_in [OF d] set by simp
  next
    case False
    then show ?thesis using value_at_notin [of r c es] value_at_notin [of r c es'] set by simp
  qed
qed

lemma value_at_slice: "value_at (slice_of sh (r div sh) es) (r mod sh) c = value_at es r c"
proof (induction es rule: rev_induct)
  case (snoc e es)
  obtain r' c' v where e: "e = (r', c', v)" by (cases e)
  have "r' = r \<longleftrightarrow> r' div sh = r div sh \<and> r' mod sh = r mod sh" by (metis div_mult_mod_eq)
  then show ?case using snoc by (auto simp: slice_of_snoc value_at_snoc e)
qed (simp add: slice_of_def value_at_def)

section \<open>Sorting and slicing\<close>

lemma sorted_rows_slice:
  assumes "sorted_wrt (\<lambda>a b. fst a \<le> fst b) es"
  shows "sorted_wrt (\<lambda>a b. fst a \<le> fst b) (slice_of sh s es)"
proof -
  have F: "sorted_wrt (\<lambda>a b. fst a \<le> fst b) (filter (\<lambda>e. fst e div sh = s) es)" using assms by (rule sorted_wrt_filter)
  have M: "fst a mod sh \<le> fst b mod sh" if "fst a div sh = s" "fst b div sh = s" "fst a \<le> fst b"
    for a b :: "nat \<times> nat \<times> nat"
    using that(1,3) div_mult_mod_eq [of "fst a" sh] div_mult_mod_eq [of "fst b" sh] unfolding that(2) [folded that(1)]
    by linarith
  show ?thesis
    unfolding slice_of_def sorted_wrt_map by (rule sorted_wrt_mono_rel [OF _ F]) (auto intro: M)
qed

definition ready :: "nat \<Rightarrow> nat \<Rightarrow> SparseCOO \<Rightarrow> bool" where
  "ready h w m \<longleftrightarrow> wf_coo h w m \<and> distinct (coords (coo_entries m)) \<and> (sorted_order m = ROW_MAJOR \<longrightarrow> sorted (coo_rows m))"

lemma sort_rows_ok:
  assumes "ready h w m" "coo_sort ROW_MAJOR m = Inr m'"
  shows "wf_coo h w m'" "sorted_wrt (\<lambda>a b. fst a \<le> fst b) (coo_entries m')" "mset (coo_entries m') = mset (coo_entries m)"
proof -
  have wf: "wf_coo h w m" using assms(1) by (simp add: ready_def)
  have "wf_coo h w m' \<and> sorted_wrt (\<lambda>a b. fst a \<le> fst b) (coo_entries m') \<and> mset (coo_entries m') = mset (coo_entries m)"
  proof (cases "sorted_order m = ROW_MAJOR")
    case True
    then have m: "m' = m" using assms(2) by (auto simp: coo_sort_def res_simps)
    have "map fst (coo_entries m) = coo_rows m" using wf_cooD(2,3) [OF wf] by (simp add: coo_entries_def)
    then have "sorted_wrt (\<lambda>a b. fst a \<le> fst b) (coo_entries m)"
      using assms(1) True by (simp add: ready_def flip: sorted_wrt_map)
    then show ?thesis using wf m by simp
  next
    case False
    then have m: "m' = (sort_entries True m)\<lparr>sorted_order := ROW_MAJOR\<rparr>"
      using assms(2) by (auto simp: coo_sort_def res_simps order_as_bool_def)
    have e: "coo_entries m' = sort_key (\<lambda>(r, c, v). (r, c)) (coo_entries m)"
      using sort_entries_entries [of True m] by (simp add: m coo_entries_def)
    have "sorted (map (\<lambda>(r, c, v). (r, c)) (coo_entries m'))" unfolding e by (rule sorted_sort_key)
    then have s: "sorted_wrt (\<lambda>a b. fst a \<le> fst b) (coo_entries m')"
      by (auto simp: sorted_wrt_map less_eq_prod_def split: prod.splits elim!: sorted_wrt_mono_rel [rotated])
    have "coo_shape m' = [h, w]" using wf_cooD(1) [OF wf] by (simp add: m sort_entries_def Let_def)
    moreover have "set (coo_entries m') = set (coo_entries m)" using e by simp
    ultimately have "wf_coo h w m'"
      using wf unfolding wf_coo_def by (auto simp: m sort_entries_def Let_def)
    then show ?thesis using s e by simp
  qed
  then show "wf_coo h w m'" "sorted_wrt (\<lambda>a b. fst a \<le> fst b) (coo_entries m')" "mset (coo_entries m') = mset (coo_entries m)"
    by blast+
qed

text \<open>The slices of every matrix, and the slices of a core.\<close>

lemma concat_nth_equal:
  assumes "\<forall>xs \<in> set xss. length xs = n" "i < length xss" "j < n"
  shows "concat xss ! (i * n + j) = xss ! i ! j" "length (concat xss) = length xss * n"
  using assms
proof (induction xss arbitrary: i)
  case (Cons xs xss)
  {
    case 1
    then show ?case using Cons.IH(1) [of "i - 1"] by (cases i) (auto simp: nth_append)
  next
    case 2
    then show ?case using Cons.IH(2) by (cases xss) auto
  }
qed simp_all

lemma filter_residue: "r < g \<Longrightarrow> filter (\<lambda>i. i mod g = r) [0..<q * g] = map (\<lambda>k. k * g + r) [0..<q]"
proof (induction q)
  case (Suc q)
  have split: "[0..<Suc q * g] = [0..<q * g] @ [q * g..<q * g + g]"
    using upt_add_eq_append [of 0 "q * g" g] by (simp add: add.commute)
  have "filter (\<lambda>i. i mod g = r) [q * g..<q * g + n] = (if r < n then [q * g + r] else [])" if "n \<le> g" for n
    using that
  proof (induction n)
    case (Suc n)
    have "(q * g + n) mod g = n" using Suc.prems by simp
    then show ?case using Suc by (auto simp: less_Suc_eq)
  qed simp
  then show ?case unfolding split using Suc by simp
qed simp

lemma slices_of_core_nth:
  assumes "r < g" "length xs = q * g" "k < q"
  shows "slices_of_core g r xs ! k = xs ! (k * g + r)" "length (slices_of_core g r xs) = q"
  using assms by (simp_all add: slices_of_core_def filter_residue)

text \<open>What a slice of a matrix holds: its rows, in order.\<close>

definition core_slice :: "nat \<Rightarrow> nat \<Rightarrow> SparseCOO \<Rightarrow> nat \<Rightarrow> SparseCOO \<Rightarrow> bool" where
  "core_slice sh w m s x \<longleftrightarrow> coo_shape x = [sh, w] \<and> sorted_wrt (\<lambda>a b. fst a \<le> fst b) (coo_entries x) \<and>
     (\<forall>e \<in> set (coo_entries x). fst e < sh \<and> fst (snd e) < w) \<and>
     (\<forall>r c. r div sh = s \<longrightarrow> value_at (coo_entries x) (r mod sh) c = value_at (coo_entries m) r c)"

lemma slice_matrix:
  assumes m: "ready h w m" "0 < h" and srt: "coo_sort ROW_MAJOR m = Inr m'" and ss: "vslice n m' = Inr ss"
  shows "n \<noteq> 0" "h mod n = 0" "length ss = n" "s < n \<Longrightarrow> core_slice (h div n) w m s (ss ! s)"
proof -
  note S = sort_rows_ok [OF m(1) srt]
  show n: "n \<noteq> 0" and mod: "h mod n = 0"
    using ss wf_cooD(1) [OF S(1)] by (auto simp: vslice_def res_simps split: if_splits)
  let ?sh = "h div n"
  have h: "h = n * ?sh" using mod by auto
  then have sh: "0 < ?sh" using m(2) by (metis mult_0_right neq0_conv)
  have "wf_coo (n * ?sh) w m'" using S(1) h by simp
  then have sl: "slices_of n ?sh w (coo_entries m') ss" using vslice_ok [of n ?sh w m'] ss n sh by auto
  then show "length ss = n" by (simp add: slices_of_def)
  show "core_slice ?sh w m s (ss ! s)" if "s < n"
  proof -
    have x: "coo_shape (ss ! s) = [?sh, w]" "coo_entries (ss ! s) = slice_of ?sh s (coo_entries m')"
      using sl that by (simp_all add: slices_of_def)
    have "\<forall>e \<in> set (coo_entries (ss ! s)). fst e < ?sh \<and> fst (snd e) < w"
      using wf_cooD(4) [OF S(1)] sh unfolding x(2) by (auto simp: slice_of_def)
    moreover have "value_at (coo_entries (ss ! s)) (r mod ?sh) c = value_at (coo_entries m) r c" if "r div ?sh = s" for r c
      using value_at_slice [of ?sh r "coo_entries m'" c] value_at_perm [of "coo_entries m" "coo_entries m'" r c] S(3) m(1) that
      by (simp add: x(2) ready_def)
    ultimately show ?thesis using x(1) sorted_rows_slice [OF S(2)] by (simp add: core_slice_def x(2))
  qed
qed

lemma slice_all_ok:
  assumes zs: "\<forall>m \<in> set (sparse_zs sb). ready h w m" "0 < h" and all: "slice_all sb g t Layout_Default = Inr xs"
    and z: "z < length (sparse_zs sb)"
  shows "g * t \<noteq> 0" "h mod (g * t) = 0" "length xs = length (sparse_zs sb) * (g * t)"
    "s < g * t \<Longrightarrow> core_slice (h div (g * t)) w (sparse_zs sb ! z) s (xs ! (z * (g * t) + s))"
proof -
  let ?n = "g * t" and ?zs = "sparse_zs sb"
  obtain xss where xss: "map_res (\<lambda>z. res_bind (coo_sort ROW_MAJOR z) (\<lambda>sparse.
         res_bind (vslice_layout sparse g t (bcast_factor sb) Layout_Default) (\<lambda>slices.
         res_bind (tt_assert (slices \<noteq> [])) (\<lambda>_. Inr slices)))) ?zs = Inr xss" and xs: "xs = concat xss"
    using all by (auto simp: slice_all_def res_simps)
  note N = map_res_nth [OF xss]
  have each: "?n \<noteq> 0 \<and> h mod ?n = 0 \<and> length (xss ! i) = ?n \<and> (\<forall>s < ?n. core_slice (h div ?n) w (?zs ! i) s (xss ! i ! s))"
    if i: "i < length ?zs" for i
  proof -
    obtain m' where m': "coo_sort ROW_MAJOR (?zs ! i) = Inr m'" "vslice ?n m' = Inr (xss ! i)"
      using N i by (auto simp: res_simps vslice_layout_def)
    have "ready h w (?zs ! i)" using zs(1) i by simp
    from slice_matrix [OF this zs(2) m'] show ?thesis by blast
  qed
  have len: "\<forall>ys \<in> set xss. length ys = ?n" using each N by (metis in_set_conv_nth)
  show "?n \<noteq> 0" "h mod ?n = 0" using each [OF z] by blast+
  show "length xs = length ?zs * ?n"
    using concat_nth_equal(2) [OF len, of z "0"] each [OF z] z N by (simp add: xs)
  show "core_slice (h div ?n) w (?zs ! z) s (xs ! (z * ?n + s))" if "s < ?n"
    using concat_nth_equal(1) [OF len, of z s] each [OF z] z N that by (simp add: xs)
qed

section \<open>Indices of a compression\<close>

text \<open>An index lies where some entry of its matrix lies, or in the first row.\<close>

definition index_in :: "nat \<Rightarrow> nat \<Rightarrow> nat \<Rightarrow> SparseIndex \<Rightarrow> bool" where
  "index_in zs rows cols si \<longleftrightarrow> si_z si < zs \<and> si_rt si < rows \<and> si_ct si < cols"

definition compress_range :: "nat \<Rightarrow> nat \<Rightarrow> nat \<Rightarrow> nat \<times> (nat \<times> TileKey) list \<times> TileStore \<Rightarrow> bool" where
  "compress_range zs rows cols s \<longleftrightarrow> (case s of (next_rt, keys, st) \<Rightarrow>
     next_rt \<le> rows \<and> 0 < next_rt \<and> (\<forall>ct \<in> fst ` set keys. ct < cols) \<and> (\<forall>si \<in> set (store_indices st). index_in zs rows cols si))"

lemma flush_range:
  assumes "\<forall>ct \<in> fst ` set keys. ct < cols" "\<forall>si \<in> set (store_indices st). index_in zs rows cols si" "irt < rows" "z < zs"
  shows "\<forall>si \<in> set (store_indices (fold (flush_tile irt z zdim) keys st)). index_in zs rows cols si"
  using assms
proof (induction keys arbitrary: st)
  case (Cons k keys)
  obtain ct tk where k: "k = (ct, tk)" by (cases k)
  obtain i s1 where a: "add_tile tk st = (i, s1)" by force
  have "store_indices s1 = store_indices st" using a by (auto simp: add_tile_def Let_def split: option.splits)
  then have "\<forall>si \<in> set (store_indices (flush_tile irt z zdim k st)). index_in zs rows cols si"
    using Cons.prems by (auto simp: k flush_tile_def a emplace_index_def index_in_def)
  then show ?case using Cons by simp
qed simp

lemma fst_update: "fst ` set (AList.update k v m) = insert k (fst ` set m)"
  by (induction m) auto

lemma update_key_cases: "x \<in> set (AList.update k v m) \<Longrightarrow> fst x = k \<or> fst x \<in> fst ` set m"
  using fst_update [of k v m] by blast

lemma compress_entry_range:
  assumes "compress_range zs rows cols s" "z < zs" "r div TILE_DIM < rows" "c div TILE_DIM < cols"
  shows "compress_range zs rows cols (compress_entry z zdim (r, c, v) s)"
proof -
  obtain next_rt keys st where s: "s = (next_rt, keys, st)" by (cases s)
  let ?st1 = "if keys = [] then emplace_index 0 (c div TILE_DIM) (next_rt - 1) z zdim st else st"
  have I: "next_rt \<le> rows" "0 < next_rt" "\<forall>ct \<in> fst ` set keys. ct < cols" "\<forall>si \<in> set (store_indices st). index_in zs rows cols si"
    using assms(1) by (auto simp: compress_range_def s)
  have st1: "\<forall>si \<in> set (store_indices ?st1). index_in zs rows cols si"
    using I assms(2,4) by (auto simp: emplace_index_def index_in_def)
  have "\<forall>si \<in> set (store_indices (fold (flush_tile (next_rt - 1) z zdim) keys ?st1)). index_in zs rows cols si"
    by (rule flush_range [OF I(3) st1 _ assms(2)]) (use I in simp)
  then show ?thesis
    using I assms(3,4) by (auto simp: s compress_entry_def Let_def compress_range_def append_entry_def dest!: update_key_cases)
qed

lemma compress_matrix_range:
  assumes "\<forall>si \<in> set (store_indices st). index_in zs rows cols si" "z < zs" "0 < rows"
    and "\<forall>e \<in> set (coo_entries m). fst e div TILE_DIM < rows \<and> fst (snd e) div TILE_DIM < cols"
  shows "\<forall>si \<in> set (store_indices (compress_matrix zdim (z, m) st)). index_in zs rows cols si"
proof -
  have "compress_range zs rows cols (fold (compress_entry z zdim) es (1, [], st))"
    if "set es \<subseteq> set (coo_entries m)" for es
    using that
  proof (induction es rule: rev_induct)
    case Nil
    then show ?case using assms by (auto simp: compress_range_def)
  next
    case (snoc e es)
    obtain r c v where e: "e = (r, c, v)" by (cases e)
    have "compress_range zs rows cols (fold (compress_entry z zdim) es (1, [], st))" using snoc by simp
    moreover have "r div TILE_DIM < rows" "c div TILE_DIM < cols" using snoc.prems assms(4) e by auto
    ultimately have "compress_range zs rows cols (compress_entry z zdim (r, c, v) (fold (compress_entry z zdim) es (1, [], st)))"
      using compress_entry_range [OF _ assms(2)] by blast
    then show ?case by (simp add: e)
  qed
  from this [OF order_refl] obtain next_rt keys st1 where
      f: "fold (compress_entry z zdim) (coo_entries m) (1, [], st) = (next_rt, keys, st1)"
    and R: "compress_range zs rows cols (next_rt, keys, st1)"
    by (metis prod_cases3)
  then show ?thesis
    using flush_range [of keys cols st1 zs rows "next_rt - 1" z zdim] assms(2)
    by (auto simp: compress_matrix_def compress_range_def)
qed

lemma compress_range_all:
  assumes "compress_unique_tiles env ms = (indices, tiles)" "0 < rows"
    and "\<forall>m \<in> set ms. \<forall>e \<in> set (coo_entries m). fst e div TILE_DIM < rows \<and> fst (snd e) div TILE_DIM < cols"
  shows "\<forall>si \<in> set indices. index_in (length ms) rows cols si"
proof -
  define s0 where "s0 = snd (add_tile [] \<lparr>unique_id_map = [], store_tiles = [], store_indices = []\<rparr>)"
  have s0: "store_indices s0 = []" by (simp add: s0_def add_tile_def Let_def)
  have "\<forall>si \<in> set (store_indices (fold (compress_matrix zdim) zms s0)). index_in (length ms) rows cols si"
    if "set zms \<subseteq> set (zip [0..<length ms] ms)" for zms zdim
    using that
  proof (induction zms rule: rev_induct)
    case (snoc zm zms)
    obtain z m where zm: "zm = (z, m)" by (cases zm)
    then have "z < length ms" "m \<in> set ms" using snoc.prems by (auto dest: set_zip_leftD set_zip_rightD)
    then show ?case using compress_matrix_range [OF _ _ assms(2), of _ "length ms" cols z m] snoc assms(3) by (simp add: zm)
  qed (simp add: s0)
  from this [OF order_refl] show ?thesis
    using assms(1) s0 by (auto simp: compress_unique_tiles_def Let_def s0_def split: if_splits)
qed

end
