(* ===== verification/Sparse_Values.thy ===== *)
theory Sparse_Values
  imports Sparse_Cores
begin

text \<open>
  The values a core computes with: a position is looked up in the decoded strips, the entry there points
  to a tile of the core.
\<close>

definition tile_value :: "sparse_entry list \<Rightarrow> nat list \<Rightarrow> nat \<Rightarrow> nat \<Rightarrow> nat \<Rightarrow> nat" where
  "tile_value entries tiles z r c =
     (case map_of (map (\<lambda>(i, rt, ct, z). ((z, rt, ct), i)) entries) (z, r div TILE_DIM, c div TILE_DIM) of
        None \<Rightarrow> 0
      | Some i \<Rightarrow> tile_at tiles i ! (r mod TILE_DIM * TILE_DIM + c mod TILE_DIM))"

lemma tile_value_entries: "tile_value (map entry_of indices) tiles z r c = tiled_value indices tiles z r c"
  by (simp add: tile_value_def tiled_value_def entry_of_def index_key_def comp_def)

lemma tiled_value_perm:
  assumes "set is = set is'" "distinct (map index_key is)" "distinct (map index_key is')"
  shows "tiled_value is tiles z r c = tiled_value is' tiles z r c"
proof -
  let ?f = "\<lambda>si. (index_key si, si_unique_id si)"
  have "map fst (map ?f js) = map index_key js" for js by simp
  then have "map_of (map ?f is) = map_of (map ?f is')"
    using map_of_inject_set [of "map ?f is" "map ?f is'"] assms by (simp add: comp_def)
  then show ?thesis by (simp add: tiled_value_def)
qed

lemma zcr_sorted_z: "sorted (map si_z (sort_zcr_ublocked u_rt u_kt indices))"
proof -
  have "sorted (map (zcr_key u_rt u_kt) (sort_zcr_ublocked u_rt u_kt indices))"
    unfolding sort_zcr_ublocked_def by (rule sorted_sort_key)
  then show ?thesis
    unfolding sorted_map by (rule sorted_wrt_mono_rel [rotated]) (auto simp: zcr_key_def less_eq_prod_def)
qed

lemma tiled_value_padded:
  assumes "length tiles = n * (TILE_DIM * TILE_DIM)" "\<forall>si \<in> set indices. si_unique_id si < n"
  shows "tiled_value indices (tiles @ pad) z r c = tiled_value indices tiles z r c"
proof -
  have "tile_at (tiles @ pad) i = tile_at tiles i" if "i < n" for i
  proof -
    have "Suc i * (TILE_DIM * TILE_DIM) \<le> length tiles" unfolding assms(1) using that by (intro mult_le_mono1) simp
    then show ?thesis by (simp add: tile_at_def)
  qed
  then show ?thesis
    using assms(2) by (fastforce simp: tiled_value_def split: option.splits dest!: map_of_SomeD)
qed

lemma core_holds_slices:
  assumes env: "\<not> PYBUDA_SPARSE_NO_MATH env" and bits: "get_u_kt_encoding_bits u_kt = Inr kb" and b: "ok_bits b"
    and enc: "encode_core env sb g t 1 u_rt u_kt ptr b ztr r = Inr (tiles, mem, n)"
    and cs: "cs = slices_of_core g r ztr" "length cs = length (sparse_zs sb) * t"
      "\<forall>x \<in> set cs. \<exists>m s. core_slice sh (TILE_DIM * (u_kt * k)) m s x"
    and sh: "0 < sh" "sh div TILE_DIM div u_rt < 2 ^ 16" and len: "length tiles \<le> 2 ^ 16 * (TILE_DIM * TILE_DIM)"
  shows "\<exists>strips. read_encoding b mem = Inr strips \<and> length strips = n \<and> (\<forall>z < length cs. \<forall>r c.
    tile_value (decode_strips (encoding_of env (TILE_DIM * (u_kt * k)) u_rt u_kt kb ptr b t) 0 strips) (tiles @ pad) z r c =
      value_at (coo_entries (cs ! z)) r c)"
proof -
  let ?w = "TILE_DIM * (u_kt * k)" and ?rows = "sh div TILE_DIM + 1"
  let ?p = "encoding_of env ?w u_rt u_kt kb ptr b t"
  obtain indices x0 w' where comp: "compress_unique_tiles env cs = (indices, tiles)"
    and x0: "vec_idx cs 0 = Inr x0" "vec_idx (coo_shape x0) 1 = Inr w'"
    and strips': "encode_strips env (sort_zcr_ublocked u_rt u_kt indices) (length (sparse_zs sb)) w' u_rt u_kt ptr b t 1 = Inr (mem, n)"
    using enc by (auto simp: encode_core_def Let_def res_simps cs(1) split: prod.splits)
  have "x0 \<in> set cs" using x0(1) by (auto simp: res_simps)
  then have w': "w' = ?w" using cs(3) x0(2) by (auto simp: core_slice_def res_simps)
  note strips = strips' [unfolded w']
  let ?is = "sort_zcr_ublocked u_rt u_kt indices"
  have set: "set ?is = set indices" by (simp add: sort_zcr_ublocked_def)
  have srt: "\<forall>x \<in> set cs. sorted_wrt (\<lambda>a b. fst a \<le> fst b) (coo_entries x)"
    and bounds: "\<forall>x \<in> set cs. \<forall>e \<in> set (coo_entries x). fst e < sh \<and> fst (snd e) < ?w"
    using cs(3) unfolding core_slice_def by blast+
  note V = compress_values [OF env srt comp]
  obtain nt where nt: "length tiles = nt * (TILE_DIM * TILE_DIM)" "\<forall>si \<in> set indices. si_unique_id si < nt"
    using V by blast
  have "nt \<le> 2 ^ 16" using nt(1) len by (simp add: TILE_DIM_def)
  then have ids: "\<forall>si \<in> set indices. si_unique_id si < 2 ^ 16" using nt(2) by (meson less_le_trans)
  have "\<forall>x \<in> set cs. \<forall>e \<in> set (coo_entries x). fst e div TILE_DIM < ?rows \<and> fst (snd e) div TILE_DIM < u_kt * k"
  proof (intro ballI conjI)
    fix x e assume "x \<in> set cs" "e \<in> set (coo_entries x)"
    then have e: "fst e \<le> sh" "fst (snd e) < ?w" using bounds by (auto intro: less_imp_le)
    show "fst e div TILE_DIM < ?rows" using div_le_mono [OF e(1), of TILE_DIM] by simp
    show "fst (snd e) div TILE_DIM < u_kt * k" using e(2) by (simp add: less_mult_imp_div_less mult.commute)
  qed
  then have range: "\<forall>si \<in> set indices. index_in (length cs) ?rows (u_kt * k) si"
    by (intro compress_range_all [OF comp]) simp_all
  have mk: "(?w + TILE_DIM - 1) div TILE_DIM div u_kt = k" using u_kt_bits_enough(2) [OF bits] by (simp add: TILE_DIM_def)
  have good: "\<forall>x \<in> set ?is. encodable ?p x \<and> si_z x < length (sparse_zs sb) * t"
  proof
    fix x assume "x \<in> set ?is"
    then have x: "x \<in> set indices" by (simp only: set)
    then have r: "si_z x < length cs" "si_rt x \<le> sh div TILE_DIM" "si_ct x < u_kt * k" using range by (auto simp: index_in_def)
    have "si_rt x div u_rt < 2 ^ 16" using div_le_mono [OF r(2), of u_rt] sh(2) by linarith
    moreover have "si_ct x div u_kt < k" using r(3) by (simp add: less_mult_imp_div_less mult.commute)
    ultimately show "encodable ?p x \<and> si_z x < length (sparse_zs sb) * t"
      using ids x r(1) cs(2) by (simp add: encodable_def encoding_of_def mk ubr_idx_def ubc_idx_def del: One_nat_def)
  qed
  obtain ss where ss: "read_encoding b mem = Inr ss" "length ss = n"
      "decode_strips ?p 0 ss = map entry_of ?is"
    using encode_strips_decodes [OF strips bits b good zcr_sorted_z] by blast
  have "tile_value (decode_strips ?p 0 ss) (tiles @ pad) z r c = value_at (coo_entries (cs ! z)) r c" if "z < length cs" for z r c
  proof -
    have "distinct (map index_key ?is)"
      using V unfolding sort_zcr_ublocked_def by (metis distinct_map distinct_sort set_sort)
    then have "tile_value (decode_strips ?p 0 ss) (tiles @ pad) z r c = tiled_value indices (tiles @ pad) z r c"
      unfolding ss(3) tile_value_entries using V by (intro tiled_value_perm [OF set]) simp_all
    then show ?thesis using V that tiled_value_padded [OF nt] by simp
  qed
  then show ?thesis using ss by blast
qed

section \<open>All cores\<close>

lemma bit_length_le: "n \<le> 2 ^ k \<Longrightarrow> bit_length n \<le> k + 1"
proof (cases "n = 0")
  case False
  assume "n \<le> 2 ^ k"
  with bit_length_bounds [of n] False have "(2 :: nat) ^ (bit_length n - 1) \<le> 2 ^ k" by (meson le_trans neq0_conv)
  then have "bit_length n - 1 \<le> k" by (rule power_le_imp_le_exp [rotated]) simp
  then show ?thesis by simp
qed (simp add: bit_length.simps)

lemma ublock_bits_ok:
  assumes "get_sparse_ublock_idx_bits sb g t u_rt = Inr b" "0 < b" "sparse_shape sb ! 0 < 2 ^ 32"
  shows "ok_bits (nat b)" "sparse_shape sb ! 0 div (TILE_DIM * g * t * u_rt) \<le> kMaxUblocksR"
proof -
  obtain l where l: "encoding_limits sb g t u_rt = Inr l" "b = (case l of Inl e \<Rightarrow> e
      | Inr (num_sparse_tiles, max_ublocks_r) \<Rightarrow> int (bit_length (max num_sparse_tiles max_ublocks_r)))"
    using assms(1) by (auto simp: get_sparse_ublock_idx_bits_def res_simps)
  have div: "sparse_shape sb ! 0 div rows < 2 ^ 32" for rows using assms(3) div_le_dividend le_less_trans by blast
  obtain nt ub where "l = Inr (nt, ub)" "nt \<le> kMaxSparseTiles" and ub: "ub \<le> kMaxUblocksR"
      "ub = sparse_shape sb ! 0 div (TILE_DIM * g * t * u_rt)"
    using l assms(2) take_bit_nat_eq_self [OF div]
    by (auto simp: encoding_limits_def Let_def res_simps split: if_splits)
  then have "b = int (bit_length (max nt ub))" "max nt ub \<le> 2 ^ 13"
    using l(2) by (auto simp: kMaxSparseTiles_def kMaxUblocksR_def)
  then show "ok_bits (nat b)" using bit_length_le [of "max nt ub" 13] assms(2) by (auto simp: ok_bits_def)
  show "sparse_shape sb ! 0 div (TILE_DIM * g * t * u_rt) \<le> kMaxUblocksR" using ub by simp
qed

lemma nested_div: "h div (g * t) div TILE_DIM div u = h div (TILE_DIM * g * t * u)" for h g t u :: nat
  by (simp add: div_mult2_eq [symmetric] mult.assoc mult.commute mult.left_commute)

lemma cores_hold_values:
  assumes env: "\<not> PYBUDA_SPARSE_NO_MATH env"
    and res: "get_sparse_tiles_and_encodings env sb g t 1 u_rt u_kt Layout_Default = Inr (tiles, encs, sh1, sh2, ns)"
    and zs: "\<forall>m \<in> set (sparse_zs sb). ready h (TILE_DIM * (u_kt * k)) m"
    and shape: "sparse_shape sb ! 0 = h" "h < 2 ^ 32" and small: "\<forall>ts \<in> set tiles. length ts \<le> 2 ^ 16 * (TILE_DIM * TILE_DIM)"
    and bits: "get_sparse_tile_ptr_bits sb g t u_rt = Inr ptr" "get_sparse_ublock_idx_bits sb g t u_rt = Inr ub"
      "get_u_kt_encoding_bits u_kt = Inr kb"
    and z: "z < length (sparse_zs sb)" and r: "r < h"
  defines "s \<equiv> r div (h div (g * t))"
  shows "s mod g < length encs \<and> (\<exists>mem pad strips. encs ! (s mod g) = mem @ replicate pad 0 \<and>
    read_encoding (nat ub) mem = Inr strips \<and> length strips = ns ! (s mod g) \<and>
    tile_value (decode_strips (encoding_of env (TILE_DIM * (u_kt * k)) u_rt u_kt kb (nat ptr) (nat ub) t) 0 strips)
      (tiles ! (s mod g)) (z * t + s div g) (r mod (h div (g * t))) c = value_at (coo_entries (sparse_zs sb ! z)) r c)"
proof -
  let ?sh = "h div (g * t)" and ?w = "TILE_DIM * (u_kt * k)" and ?zs = "sparse_zs sb"
  obtain ztr cores where ub: "0 < ub" and ztr: "slice_all sb g t Layout_Default = Inr ztr"
    and cores: "map_res (encode_core env sb g t 1 u_rt u_kt (nat ptr) (nat ub) ztr) [0..<g] = Inr cores"
    and out: "tiles = map (pad_to (Max (set (map length (map fst cores))))) (map fst cores)"
      "ns = map (snd \<circ> snd) cores" "encs = map (pad_to ((Max (set (map length (map (fst \<circ> snd) cores))) + kTileSize - 1) div kTileSize * kTileSize))
        (map (fst \<circ> snd) cores)"
    using res bits by (auto simp: get_sparse_tiles_and_encodings_def res_simps Let_def image_image split: if_splits)
  note B = ublock_bits_ok [OF bits(2) ub]
  note S = slice_all_ok [OF zs _ ztr z]
  note C = map_res_nth [OF cores]
  have h: "0 < h" using r by simp
  have n: "g * t \<noteq> 0" "h = g * t * ?sh" using S(1,2) [OF h] by auto
  then have sh: "0 < ?sh" using h by (metis mult_0_right neq0_conv)
  have s: "s < g * t" unfolding s_def using r n(2) by (metis less_mult_imp_div_less)
  have g: "0 < g" using n(1) by simp
  then have core: "s mod g < g" and q: "s div g < t" using s by (simp_all add: less_mult_imp_div_less mult.commute)
  let ?cs = "slices_of_core g (s mod g) ztr"
  have len: "length ztr = (length ?zs * t) * g" using S(3) [OF h] by simp
  note N = slices_of_core_nth [OF core len]
  have lc: "length cores = g" using C by simp
  obtain ts mem nr where co: "cores ! (s mod g) = (ts, mem, nr)" by (cases "cores ! (s mod g)") auto
  have enc: "encode_core env sb g t 1 u_rt u_kt (nat ptr) (nat ub) ztr (s mod g) = Inr (ts, mem, nr)"
    using C core co by auto
  obtain pad where pad: "tiles ! (s mod g) = ts @ replicate pad 0"
    using core lc co by (simp add: out(1) pad_to_def)
  obtain pad' where pad': "encs ! (s mod g) = mem @ replicate pad' 0" "length encs = g" "ns ! (s mod g) = nr"
    using core lc co by (simp add: out(2,3) pad_to_def)
  have "tiles ! (s mod g) \<in> set tiles" using core lc by (intro nth_mem) (simp add: out(1))
  then have len_ts: "length ts \<le> 2 ^ 16 * (TILE_DIM * TILE_DIM)" using small pad by fastforce
  have t: "0 < length ?zs * t" using z n(1) by (cases ?zs) auto
  then have lcs: "length ?cs = length ?zs * t" by (rule N(2))
  have slice: "core_slice ?sh ?w (?zs ! zz) (q * g + s mod g) (?cs ! (zz * t + q))" if "zz < length ?zs" "q < t" for zz q
  proof -
    have k: "zz * t + q < length ?zs * t"
    proof -
      have "zz * t + q < (zz + 1) * t" using that(2) by simp
      also have "\<dots> \<le> length ?zs * t" using that(1) by (intro mult_le_mono1) simp
      finally show ?thesis .
    qed
    have "q * g + s mod g < (q + 1) * g" using core by simp
    also have "\<dots> \<le> t * g" using that(2) by (intro mult_le_mono1) simp
    finally have "q * g + s mod g < g * t" by (simp add: mult.commute)
    from slice_all_ok(4) [OF zs h ztr that(1) this]
    show ?thesis using N(1) [OF k] by (simp add: algebra_simps)
  qed
  have all: "\<forall>x \<in> set ?cs. \<exists>m s. core_slice ?sh ?w m s x"
  proof
    fix x assume "x \<in> set ?cs"
    then obtain i where i: "i < length ?zs * t" "x = ?cs ! i" by (metis in_set_conv_nth lcs)
    then have "i div t < length ?zs" "i mod t < t" "i = (i div t) * t + i mod t"
      using n(1) by (simp_all add: less_mult_imp_div_less)
    then show "\<exists>m s. core_slice ?sh ?w m s x" using slice i(2) by metis
  qed
  have h32: "sparse_shape sb ! 0 < 2 ^ 32" using shape by simp
  have "?sh div TILE_DIM div u_rt \<le> kMaxUblocksR" unfolding nested_div using B(2) [OF h32] shape(1) by (simp only:)
  then have ubr: "?sh div TILE_DIM div u_rt < 2 ^ 16" unfolding kMaxUblocksR_def by (rule le_less_trans) simp
  obtain strips where st: "read_encoding (nat ub) mem = Inr strips" "length strips = nr"
      "\<And>z r c. z < length ?cs \<Longrightarrow> tile_value (decode_strips (encoding_of env ?w u_rt u_kt kb (nat ptr) (nat ub) t) 0 strips)
        (ts @ replicate pad 0) z r c = value_at (coo_entries (?cs ! z)) r c"
    using core_holds_slices [OF env bits(3) B(1) [OF h32] enc refl lcs all sh ubr len_ts, of "replicate pad 0"] by blast
  have k: "z * t + s div g < length ?cs"
  proof -
    have "z * t + s div g < (z + 1) * t" using q by simp
    also have "\<dots> \<le> length ?zs * t" using z by (intro mult_le_mono1) simp
    finally show ?thesis by (simp only: lcs)
  qed
  have "value_at (coo_entries (?cs ! (z * t + s div g))) (r mod ?sh) c = value_at (coo_entries (?zs ! z)) r c"
    using slice [OF z q] by (simp add: core_slice_def s_def)
  then show ?thesis using st(3) [OF k] st(1,2) pad pad' core by auto
qed

end
