(* ===== verification/Sparse_Spec.thy ===== *)
theory Sparse_Spec
  imports Sparse_Values
begin

text \<open>
  The properties of the sparse matmul encoding: slices and concatenations of matrices, the tiles of the
  compression, the strips of the encoder, and what all cores hold together.
\<close>

section \<open>Examples\<close>

definition plain_env :: SparseEnv where
  "plain_env = \<lparr>PYBUDA_SPARSE_NO_MATH = False, PYBUDA_SPARSE_MM_ENCODE_ALL_STRIPS = False,
     PYBUDA_ALLOW_ILLEGAL_SPARSE_PARS = False, PYBUDA_SPARSE_DISABLE_LAYOUT_DATAFLOW = False\<rparr>"

definition sample_matrix :: SparseCOO where
  "sample_matrix = \<lparr>coo_rows = [40, 0], coo_cols = [1, 3], coo_vals = [7, 8], coo_shape = [64, 32],
     col_bounds = default_bounds, sorted_order = UNSORTED\<rparr>"

definition sample_sparse :: SparseBUDA where
  "sample_sparse = \<lparr>sparse_zs = [sample_matrix], sparse_indices = [], sparse_shape = [64, 32],
    sparse_uniq_tiles = replicate 1024 0, sb_zdim = 1, bcast_factor = 1\<rparr>"

text \<open>Evaluating the encoder without its memory.\<close>

definition pushed :: "nat list \<Rightarrow> nat list \<Rightarrow> StripAllocator \<Rightarrow> StripAllocator" where
  "pushed info ws a = (case push_strip info ws a of Inr a' \<Rightarrow> a' | Inl _ \<Rightarrow> a)"

lemma push_strip_fits: "length info + length ws < kTileSize \<Longrightarrow> push_strip info ws a = Inr (pushed info ws a)"
  by (simp add: pushed_def push_strip_def Let_def)

lemma repeat_once: "repeat_strips 1 strips b a = Inr a" "repeat_strips (Suc 0) strips b a = Inr a"
  by (simp_all add: repeat_strips_def split: option.splits)

lemma sample_slices: "\<exists>x y. slice_all sample_sparse 2 1 Layout_Default = Inr [x, y] \<and>
    coo_entries x = [(0, 3, 8)] \<and> coo_entries y = [(8, 1, 7)] \<and> coo_shape x = [32, 32] \<and> coo_shape y = [32, 32]"
proof -
  have "case res_bind (coo_sort ROW_MAJOR sample_matrix) (vslice 2) of Inl _ \<Rightarrow> False
    | Inr xs \<Rightarrow> length xs = 2 \<and> map coo_entries xs = [[(0, 3, 8)], [(8, 1, 7)]] \<and> map coo_shape xs = [[32, 32], [32, 32]]"
    by code_simp
  then obtain m x y where xy: "coo_sort ROW_MAJOR sample_matrix = Inr m" "vslice 2 m = Inr [x, y]"
      "coo_entries x = [(0, 3, 8)]" "coo_entries y = [(8, 1, 7)]" "coo_shape x = [32, 32]" "coo_shape y = [32, 32]"
    by (cases "coo_sort ROW_MAJOR sample_matrix"; auto split: sum.splits simp: numeral_2_eq_2 length_Suc_conv)
  then show ?thesis by (simp add: slice_all_def sample_sparse_def vslice_layout_def)
qed

lemma sample_compress:
  assumes "coo_entries x = [(r, c, v)]" "r < 32" "c < 32"
  shows "compress_unique_tiles plain_env [x] =
    ([\<lparr>si_unique_id = 1, si_ct = 0, si_rt = 0, si_z = 0, si_zdim = 1\<rparr>], tile_of_key [] @ tile_of_key [(r, c, v)])"
  using assms by (simp add: compress_unique_tiles_def plain_env_def Let_def compress_matrix_def compress_entry_def add_tile_def
      append_entry_def flush_tile_def emplace_index_def TILE_DIM_def)

lemma bit_length_1: "bit_length (Suc 0) = 1" "bit_length 1 = 1"
  by (simp_all add: bit_length.simps)

lemma sample_strips: "\<exists>mem n. encode_strips plain_env (sort_zcr_ublocked 1 1 [\<lparr>si_unique_id = 1, si_ct = 0, si_rt = 0, si_z = 0, si_zdim = 1\<rparr>])
    1 32 1 1 1 1 1 1 = Inr (mem, n)"
  by (simp add: encode_strips_def plain_env_def Let_def get_u_rt_encoding_bits_def get_u_kt_encoding_bits_def clz_width_def
      bit_length_1 sort_zcr_ublocked_def encode_ublock_def add_missing_zs_def encode_ublock_header_def encode_index_pair_def
      strip_info_def push_strip_fits kTileSize_def repeat_once TILE_DIM_def ubr_idx_def ubc_idx_def surj_pair)

lemma sample_bits:
  "get_sparse_tile_ptr_bits sample_sparse 2 1 1 = Inr 1" "get_sparse_ublock_idx_bits sample_sparse 2 1 1 = Inr 1"
  "get_u_rt_encoding_bits 1 = Inr 0" "get_u_kt_encoding_bits 1 = Inr 1"
  by (simp_all add: get_sparse_tile_ptr_bits_def get_sparse_ublock_idx_bits_def encoding_limits_def sample_sparse_def
      TILE_DIM_def kMaxSparseTiles_def kMaxUblocksR_def bit_length_1 Let_def take_bit_eq_mod
      get_u_rt_encoding_bits_def get_u_kt_encoding_bits_def clz_width_def)

lemma sample_core:
  assumes "slices_of_core 2 g ztr = [x]" "coo_entries x = [(r, c, v)]" "r < 32" "c < 32" "coo_shape x = [32, 32]"
  shows "\<exists>mem n. encode_core plain_env sample_sparse 2 1 1 1 1 1 1 ztr g =
    Inr (tile_of_key [] @ tile_of_key [(r, c, v)], mem, n)"
  using sample_compress [OF assms(2-4)] sample_strips assms
  by (auto simp: encode_core_def Let_def sample_sparse_def vec_idx_def)

lemma sample_result: "\<exists>tiles encs sh1 sh2 ns.
    get_sparse_tiles_and_encodings plain_env sample_sparse 2 1 1 1 1 Layout_Default = Inr (tiles, encs, sh1, sh2, ns) \<and>
    (\<forall>ts \<in> set tiles. length ts \<le> 2 ^ 16 * (TILE_DIM * TILE_DIM))"
proof -
  obtain x y where xy: "slice_all sample_sparse 2 1 Layout_Default = Inr [x, y]"
      "coo_entries x = [(0, 3, 8)]" "coo_entries y = [(8, 1, 7)]" "coo_shape x = [32, 32]" "coo_shape y = [32, 32]"
    using sample_slices by blast
  have "slices_of_core 2 0 [x, y] = [x]" "slices_of_core 2 1 [x, y] = [y]"
    by (simp_all add: slices_of_core_def upt_rec)
  then obtain m0 n0 m1 n1 where
    "encode_core plain_env sample_sparse 2 1 1 1 1 1 1 [x, y] 0 = Inr (tile_of_key [] @ tile_of_key [(0, 3, 8)], m0, n0)"
    "encode_core plain_env sample_sparse 2 1 1 1 1 1 1 [x, y] 1 = Inr (tile_of_key [] @ tile_of_key [(8, 1, 7)], m1, n1)"
    using sample_core [of 0 "[x, y]" x 0 3 8] sample_core [of 1 "[x, y]" y 8 1 7] xy by auto
  moreover have "[0..<2] = [0, Suc 0]" by (simp add: upt_rec)
  ultimately show ?thesis
    using xy(1) sample_bits by (simp add: get_sparse_tiles_and_encodings_def Let_def pad_to_def TILE_DIM_def)
qed

lemma sample_ready: "ready 64 (TILE_DIM * (1 * 1)) sample_matrix"
  by code_simp

section \<open>All cores\<close>

text \<open>
  C5 (refinement). With the default layout, one column factor (\<open>t_factor_c = 1\<close>) and the compression switched
  on (\<open>PYBUDA_SPARSE_NO_MATH\<close> unset), the tiles and encodings that \<open>get_sparse_tiles_and_encodings\<close> returns
  represent the matrices: the strips of a core, read back from its encoding, point for every position of
  every matrix to a tile of that core that holds the value of the matrix there, or to none where it is
  zero. Row r of matrix z lies on core s mod grid_r, where s is its slice, as matrix z * t + s div grid_r of
  that core. The matrices have the height h and a width of k ublocks, no position twice, and are
  sorted by rows if they say so; no core has more than 2^16 tiles, as many as an index can name. The
  other layouts and column factors are not covered.
\<close>

theorem cores_hold_the_matrices:
  assumes "\<not> PYBUDA_SPARSE_NO_MATH env"
    and "get_sparse_tiles_and_encodings env sb g t 1 u_rt u_kt Layout_Default = Inr (tiles, encs, sh1, sh2, ns)"
    and "\<forall>m \<in> set (sparse_zs sb). ready h (TILE_DIM * (u_kt * k)) m"
    and "sparse_shape sb ! 0 = h" "h < 2 ^ 32" "\<forall>ts \<in> set tiles. length ts \<le> 2 ^ 16 * (TILE_DIM * TILE_DIM)"
    and "get_sparse_tile_ptr_bits sb g t u_rt = Inr ptr" "get_sparse_ublock_idx_bits sb g t u_rt = Inr ub"
      "get_u_kt_encoding_bits u_kt = Inr kb"
    and "z < length (sparse_zs sb)" "r < h" "s = r div (h div (g * t))"
  shows "s mod g < length encs \<and> (\<exists>mem pad strips. encs ! (s mod g) = mem @ replicate pad 0 \<and>
    read_encoding (nat ub) mem = Inr strips \<and> length strips = ns ! (s mod g) \<and>
    tile_value (decode_strips (encoding_of env (TILE_DIM * (u_kt * k)) u_rt u_kt kb (nat ptr) (nat ub) t) 0 strips)
      (tiles ! (s mod g)) (z * t + s div g) (r mod (h div (g * t))) c = value_at (coo_entries (sparse_zs sb ! z)) r c)"
  unfolding assms(12) by (rule cores_hold_values [OF assms(1-11)])

lemma cores_hold_the_matrices_witness: "\<exists>tiles encs sh1 sh2 ns mem pad strips.
    get_sparse_tiles_and_encodings plain_env sample_sparse 2 1 1 1 1 Layout_Default = Inr (tiles, encs, sh1, sh2, ns) \<and>
    encs ! 1 = mem @ replicate pad 0 \<and> read_encoding 1 mem = Inr strips \<and>
    tile_value (decode_strips (encoding_of plain_env 32 1 1 1 1 1 1) 0 strips) (tiles ! 1) 0 8 1 = 7"
proof -
  obtain tiles encs sh1 sh2 ns where res:
      "get_sparse_tiles_and_encodings plain_env sample_sparse 2 1 1 1 1 Layout_Default = Inr (tiles, encs, sh1, sh2, ns)"
      "\<forall>ts \<in> set tiles. length ts \<le> 2 ^ 16 * (TILE_DIM * TILE_DIM)"
    using sample_result by blast
  have "\<not> PYBUDA_SPARSE_NO_MATH plain_env" "\<forall>m \<in> set (sparse_zs sample_sparse). ready 64 (TILE_DIM * (1 * 1)) m"
      "sparse_shape sample_sparse ! 0 = 64" "0 < length (sparse_zs sample_sparse)"
    using sample_ready by (simp_all add: plain_env_def sample_sparse_def)
  from cores_hold_the_matrices [OF this(1) res(1) this(2,3) _ res(2) sample_bits(1,2,4) this(4), of 40 1 1]
  have "\<exists>mem pad strips. encs ! 1 = mem @ replicate pad 0 \<and> read_encoding 1 mem = Inr strips \<and>
      tile_value (decode_strips (encoding_of plain_env 32 1 1 1 1 1 1) 0 strips) (tiles ! 1) 0 8 1 =
      value_at (coo_entries (sparse_zs sample_sparse ! 0)) 40 1"
    by (auto simp: TILE_DIM_def)
  moreover have "value_at (coo_entries (sparse_zs sample_sparse ! 0)) 40 1 = 7"
    by (simp add: sample_sparse_def sample_matrix_def coo_entries_def value_at_def)
  ultimately show ?thesis using res(1) by auto
qed

section \<open>The encoder\<close>

text \<open>
  C7 (roundtrip). With one column factor (\<open>t_factor_c = 1\<close>), when \<open>encode_strips\<close> returns for indices that are
  sorted by z and inside the matrix, its strips, read back tile by tile, are as many as it says, end
  as many rows as there are zs, and decode to exactly these indices in their order. For a larger
  \<open>t_factor_c\<close> the strips are repeated but the number it returns is that of one copy, so the claim is not made.
\<close>

theorem strips_decode_to_indices:
  assumes "encode_strips env indices dimz dimc u_rt u_kt t b t_r 1 = Inr (mem, n)"
    and "get_u_kt_encoding_bits u_kt = Inr k" "0 < b" "b \<le> 16" "p = encoding_of env dimc u_rt u_kt k t b t_r"
    and "\<forall>x \<in> set indices. encodable p x \<and> si_z x < dimz * t_r" "sorted (map si_z indices)"
  shows "\<exists>strips. read_encoding b mem = Inr strips \<and> length strips = n \<and> row_count strips = dimz * t_r \<and>
    decode_strips p 0 strips = map entry_of indices"
  using encode_strips_decodes [OF assms(1,2)] assms(3-7) by (simp add: ok_bits_def)

definition sample_index :: "nat \<Rightarrow> nat \<Rightarrow> SparseIndex" where
  "sample_index z ct = \<lparr>si_unique_id = 1, si_ct = ct, si_rt = 0, si_z = z, si_zdim = 1\<rparr>"

lemma strips_decode_to_indices_witness: "\<exists>mem n strips. encode_strips plain_env [sample_index 0 0] 1 32 1 1 1 1 1 1 = Inr (mem, n) \<and>
    read_encoding 1 mem = Inr strips \<and> length strips = n \<and>
    decode_strips (encoding_of plain_env 32 1 1 1 1 1 1) 0 strips = [(1, 0, 0, 0)]"
proof -
  have srt: "sort_zcr_ublocked 1 1 [sample_index 0 0] = [sample_index 0 0]" by (simp add: sort_zcr_ublocked_def)
  obtain mem n where enc: "encode_strips plain_env [sample_index 0 0] 1 32 1 1 1 1 1 1 = Inr (mem, n)"
    using sample_strips srt by (auto simp: sample_index_def)
  have good: "\<forall>x \<in> set [sample_index 0 0]. encodable (encoding_of plain_env 32 1 1 1 1 1 1) x \<and> si_z x < 1 * 1"
    by (simp add: encodable_def encoding_of_def sample_index_def TILE_DIM_def ubr_idx_def ubc_idx_def)
  show ?thesis
    using strips_decode_to_indices [OF enc sample_bits(4) _ _ refl good] enc by (auto simp: entry_of_def sample_index_def)
qed

text \<open>
  For a z after the first \<open>t_factor_r\<close> ones every ublock ends its strip, also when the next
  ublock lies in the same one: the index of the current strip counts the strips of the earlier matrices,
  that of the next one does not.
\<close>

theorem later_ublocks_get_own_strips:
  assumes "encode_ublock p us rest s = Inr s'" "\<forall>y \<in> set rest. encodable p y"
    and "0 < enc_t_factor_r p" "enc_t_factor_r p \<le> si_z (hd us)"
  shows "enc_strip_indices s' = [] \<and> enc_nz_ublocks s' = 0"
  using assms(1)
proof (cases rule: encode_ublockE)
  case (wait a1 ws y ys)
  have "0 < si_z (hd us) div enc_t_factor_r p" using assms(3,4) by (simp add: div_greater_zero_iff)
  then have "enc_mk p \<le> strip_index_at p (hd us)"
    by (cases "si_z (hd us) div enc_t_factor_r p") (simp_all add: strip_index_at_def)
  moreover have "ubc_idx (enc_u_kt p) y < enc_mk p" using assms(2) wait(3) by (simp add: encodable_def)
  ultimately show ?thesis using wait(5) by linarith
qed simp

lemma later_ublocks_get_own_strips_witness: "\<exists>s'. encode_ublock (encoding_of plain_env 64 1 2 1 1 1 1)
    [sample_index 1 0] [(sample_index 1 1)\<lparr>si_rt := 1\<rparr>]
    \<lparr>enc_prev_z = 1, enc_prev_strip_index = 0, enc_nz_ublocks = 0, enc_strip_indices = [], enc_allocator = new_allocator\<rparr> = Inr s' \<and>
    enc_strip_indices s' = [] \<and> enc_nz_ublocks s' = 0 \<and>
    ubc_idx 2 (sample_index 1 0) = ubc_idx 2 ((sample_index 1 1)\<lparr>si_rt := 1\<rparr>)"
proof -
  let ?p = "encoding_of plain_env 64 1 2 1 1 1 1" and ?y = "(sample_index 1 1)\<lparr>si_rt := 1\<rparr>"
    and ?s = "\<lparr>enc_prev_z = 1, enc_prev_strip_index = 0, enc_nz_ublocks = 0, enc_strip_indices = [], enc_allocator = new_allocator\<rparr>"
  have "\<exists>s'. encode_ublock ?p [sample_index 1 0] [?y] ?s = Inr s'"
    by (simp add: encode_ublock_def encoding_of_def plain_env_def sample_index_def add_missing_zs_def encode_ublock_header_def
        encode_index_pair_def strip_info_def push_strip_fits kTileSize_def TILE_DIM_def ubr_idx_def ubc_idx_def Let_def)
  then obtain s' where s': "encode_ublock ?p [sample_index 1 0] [?y] ?s = Inr s'" by blast
  have "\<forall>y \<in> set [?y]. encodable ?p y" "0 < enc_t_factor_r ?p" "enc_t_factor_r ?p \<le> si_z (hd [sample_index 1 0])"
    by (simp_all add: encodable_def encoding_of_def sample_index_def TILE_DIM_def ubr_idx_def ubc_idx_def)
  note L = later_ublocks_get_own_strips [OF s' this]
  show ?thesis using s' L by (auto simp: sample_index_def ubc_idx_def)
qed

text \<open>
  The width for ublock rows is the least number of bits that holds all values below \<open>u_rt\<close>,
  and it is defined exactly for positive \<open>u_rt\<close>.
\<close>

theorem u_rt_width_is_least:
  "get_u_rt_encoding_bits u_rt = (if u_rt = 0 then Inl UndefinedBehaviour else Inr (LEAST k. u_rt \<le> 2 ^ k))"
proof (cases "u_rt = 0")
  case False
  then obtain k where k: "get_u_rt_encoding_bits u_rt = Inr k" by (simp add: get_u_rt_encoding_bits_def clz_width_def)
  have "(LEAST k. u_rt \<le> 2 ^ k) = k" by (rule Least_equality) (use u_rt_bits_least [OF k] in blast)+
  then show ?thesis using k False by simp
qed (simp add: get_u_rt_encoding_bits_def clz_width_def)

section \<open>Matrices\<close>

text \<open>
  C33 (functional). The compression of matrices whose entries are sorted by row gives every tile position
  at most one index, only ids of stored tiles, and for every position of every matrix the tile that its
  index points to holds the value there (zero where there is no index).
\<close>

theorem compression_keeps_values:
  assumes "\<not> PYBUDA_SPARSE_NO_MATH env" "\<forall>m \<in> set ms. sorted_wrt (\<lambda>a b. fst a \<le> fst b) (coo_entries m)"
    and "compress_unique_tiles env ms = (indices, tiles)"
  shows "distinct (map index_key indices) \<and> (\<exists>n. length tiles = n * (TILE_DIM * TILE_DIM) \<and> (\<forall>si \<in> set indices. si_unique_id si < n)) \<and>
     (\<forall>z < length ms. \<forall>r c. tiled_value indices tiles z r c = value_at (coo_entries (ms ! z)) r c)"
  by (rule compress_values [OF assms])

definition one_entry :: "nat \<Rightarrow> nat \<Rightarrow> nat \<Rightarrow> SparseCOO" where
  "one_entry r c v = (empty_coo [32, 32])\<lparr>coo_rows := [r], coo_cols := [c], coo_vals := [v]\<rparr>"

lemma compression_keeps_values_witness:
  "tiled_value [\<lparr>si_unique_id = 1, si_ct = 0, si_rt = 0, si_z = 0, si_zdim = 1\<rparr>] (tile_of_key [] @ tile_of_key [(8, 1, 7)]) 0 8 1 = 7"
proof -
  have e: "coo_entries (one_entry r c v) = [(r, c, v)]" for r c v by (simp add: one_entry_def coo_entries_def)
  have "\<not> PYBUDA_SPARSE_NO_MATH plain_env" "\<forall>m \<in> set [one_entry 8 1 7]. sorted_wrt (\<lambda>a b. fst a \<le> fst b) (coo_entries m)"
    by (simp_all add: plain_env_def e)
  from compression_keeps_values [OF this sample_compress [OF e]] show ?thesis by (simp add: e value_at_def)
qed

text \<open>
  Slicing a matrix whose rows are sorted into n parts of equal height returns n
  matrices of that height, and stacking them gives the entries and the shape of the matrix again.
\<close>

theorem slices_stack_to_the_matrix:
  assumes "wf_coo (n * sh) w m" "0 < n" "0 < sh" "sorted (coo_rows m)"
  shows "\<exists>ss m'. vslice n m = Inr ss \<and> length ss = n \<and> (\<forall>s \<in> set ss. wf_coo sh w s) \<and>
     vcat ss = Inr m' \<and> coo_shape m' = coo_shape m \<and> coo_entries m' = coo_entries m"
  by (rule vslice_vcat [OF assms])

definition sorted_matrix :: SparseCOO where
  "sorted_matrix = sample_matrix\<lparr>coo_rows := [0, 40]\<rparr>"

lemma slices_stack_to_the_matrix_witness: "\<exists>ss m'. vslice 2 sorted_matrix = Inr ss \<and> length ss = 2 \<and>
    vcat ss = Inr m' \<and> coo_entries m' = [(0, 1, 7), (40, 3, 8)]"
proof -
  have "wf_coo (2 * 32) 32 sorted_matrix" "sorted (coo_rows sorted_matrix)"
      "coo_entries sorted_matrix = [(0, 1, 7), (40, 3, 8)]"
    by (simp_all add: wf_coo_def sorted_matrix_def sample_matrix_def coo_entries_def)
  then show ?thesis using slices_stack_to_the_matrix [of 2 32 32 sorted_matrix] by auto
qed

text \<open>
  Sorting a matrix by columns sorts its entries by rows: the order is handed to \<open>sort_\<close>,
  whose argument is the flag for row-major order. The entries are kept, and the matrix is marked as
  sorted by columns.
\<close>

theorem column_sort_sorts_rows:
  assumes "sorted_order m \<noteq> COLUMN_MAJOR"
  shows "\<exists>m'. coo_sort COLUMN_MAJOR m = Inr m' \<and> mset (coo_entries m') = mset (coo_entries m) \<and>
    sorted (map (\<lambda>(r, c, v). (r, c)) (coo_entries m')) \<and> sorted_order m' = COLUMN_MAJOR"
  using coo_sort_by_rows [of COLUMN_MAJOR m] assms by auto

lemma column_sort_sorts_rows_witness: "\<exists>m'. coo_sort COLUMN_MAJOR sample_matrix = Inr m' \<and>
    mset (coo_entries m') = {#(40, 1, 7), (0, 3, 8)#} \<and> sorted (map (\<lambda>(r, c, v). (r, c)) (coo_entries m'))"
proof -
  have "sorted_order sample_matrix \<noteq> COLUMN_MAJOR" "coo_entries sample_matrix = [(40, 1, 7), (0, 3, 8)]"
    by (simp_all add: sample_matrix_def coo_entries_def)
  then show ?thesis using column_sort_sorts_rows [of sample_matrix] by auto
qed

section \<open>Legal factors\<close>

definition tall_matrix :: "nat list \<Rightarrow> SparseCOO" where
  "tall_matrix cs = \<lparr>coo_rows = [0, 32, 64, 96], coo_cols = cs, coo_vals = [1, 1, 1, 1], coo_shape = [128, 64],
     col_bounds = \<lparr>bounds_min = 0, bounds_max = 63\<rparr>, sorted_order = ROW_MAJOR\<rparr>"

text \<open>
  \<open>get_par_t_values\<close> returns factors that some matrix rules out: here 4 is legal for the
  first matrix only, and it stays in the map because the last loop visits the factors that are legal for
  all matrices instead of those that are not.
\<close>

theorem illegal_factor_is_returned:
  "(case get_par_t_values plain_env 1 [2, 4] [tall_matrix [0, 0, 0, 0], tall_matrix [40, 0, 40, 40]] [1] 1 Layout_Default of
      Inl _ \<Rightarrow> False | Inr (m, _) \<Rightarrow> map_of m 4 = Some [1]) \<and>
   (case factors_of_matrix plain_env 1 [4, 2] [1] 1 Layout_Default (tall_matrix [40, 0, 40, 40]) [(1, [1])] of
      Inl _ \<Rightarrow> False | Inr (ts, _) \<Rightarrow> ts = [1, 2])"
  by code_simp

end
