(* ===== verification/Sparse_Estimates.thy ===== *)
theory Sparse_Estimates
  imports Sparse_Buda
begin

text \<open>
  The estimates of \<open>SparseBUDA\<close> that the balancer asks for: the range of strips of every core and the
  number of tiles and of encoding tiles of a core. Sizes of encodings count bytes here.
\<close>

section \<open>Serialization\<close>

definition strip_range ::
    "SparseEnv \<Rightarrow> nat \<Rightarrow> nat \<Rightarrow> nat \<Rightarrow> nat \<Rightarrow> SparseCOO list \<Rightarrow> nat \<Rightarrow> (int \<times> int) res" where
  "strip_range env grid_r t_factor_r u_rt u_kt slice_ztr g_r =
     (let curr_slice_ts = slices_of_core grid_r g_r slice_ztr;
          indices = sort_zcr_ublocked u_rt u_kt (fst (compress_unique_tiles env curr_slice_ts)) in
      res_bind (vec_idx curr_slice_ts 0) (\<lambda>s0.
      res_bind (vec_idx (coo_shape s0) 1) (\<lambda>dimc.
      if u_kt = 0 \<or> t_factor_r = 0 then Inl UndefinedBehaviour
      else (let m_k = (dimc + TILE_DIM - 1) div TILE_DIM div u_kt;
                strip = (\<lambda>si. int (m_k * (si_z si div t_factor_r) + ubc_idx u_kt si)) in
        Inr (fold (\<lambda>si. min (strip si)) indices (2 ^ 31 - 1), fold (\<lambda>si. max (strip si)) indices (- 1))))))"

definition collect_sparse_matmul_serialization_info ::
    "SparseEnv \<Rightarrow> SparseBUDA \<Rightarrow> nat \<Rightarrow> nat \<Rightarrow> nat \<Rightarrow> nat \<Rightarrow> nat \<Rightarrow> Layout \<Rightarrow> (int list \<times> int list) res" where
  "collect_sparse_matmul_serialization_info env sb grid_r t_factor_r t_factor_c u_rt u_kt layout =
     res_bind (tt_assert (layout = ZMajorDataflow)) (\<lambda>_.
     res_bind (tt_assert (t_factor_c = 1)) (\<lambda>_.
     res_bind (slice_all sb grid_r t_factor_r layout) (\<lambda>slice_ztr.
     res_bind (map_res (strip_range env grid_r t_factor_r u_rt u_kt slice_ztr) [0..<grid_r]) (\<lambda>ranges.
       Inr (map fst ranges, map snd ranges)))))"

section \<open>Encoding tiles\<close>

text \<open>Counting the nonzero ublocks and tiles of every core, z and strip.\<close>

type_synonym strip_key = "nat \<times> nat \<times> nat"

record EstimateCounts =
  used_ublocks :: "strip_key list"
  num_nz_ublocks :: "(strip_key \<times> nat) list"
  num_nz_tiles :: "(strip_key \<times> nat) list"

definition count_up :: "strip_key \<Rightarrow> (strip_key \<times> nat) list \<Rightarrow> (strip_key \<times> nat) list" where
  "count_up k m = AList.update k ((case map_of m k of None \<Rightarrow> 0 | Some n \<Rightarrow> n) + 1) m"

definition count_index ::
    "nat \<Rightarrow> nat \<Rightarrow> nat \<Rightarrow> nat \<Rightarrow> nat \<Rightarrow> nat \<Rightarrow> nat \<Rightarrow> SparseIndex \<Rightarrow> EstimateCounts \<Rightarrow> EstimateCounts res" where
  "count_index grid_r t_factor_r zt t_height n_strips u_rt u_kt si s =
     (let rt_cnt_per_core = t_height div grid_r in
      if t_height = 0 \<or> rt_cnt_per_core = 0 then Inl UndefinedBehaviour
      else (let zt_ind = si_z si * t_factor_r + si_rt si div t_height; rt_in_t = si_rt si mod t_height;
                strip_ind = si_ct si div u_kt; ublock_row_in_core = rt_in_t mod rt_cnt_per_core div u_rt;
                core_index = rt_in_t div rt_cnt_per_core; block_key = ublock_row_in_core * n_strips + strip_ind;
                k = (core_index, zt_ind, strip_ind); bk = (core_index, zt_ind, block_key);
                s1 = s\<lparr>num_nz_tiles := count_up k (num_nz_tiles s)\<rparr> in
        if grid_r \<le> core_index \<or> zt \<le> zt_ind then Inl UndefinedBehaviour
        else Inr (if bk \<in> set (used_ublocks s) then s1
          else s1\<lparr>used_ublocks := bk # used_ublocks s, num_nz_ublocks := count_up k (num_nz_ublocks s)\<rparr>)))"

definition tile_bytes :: nat where "tile_bytes = TILE_DIM * TILE_DIM * 4"

definition round_up_for :: "nat \<Rightarrow> nat \<Rightarrow> nat" where
  "round_up_for n space = (if space mod tile_bytes + n > tile_bytes then (space div tile_bytes + 1) * tile_bytes else space)"

text \<open>Empty strips from \<open>strip\<close> up to \<open>key\<close>, as many as fit into each tile.\<close>

function fill_strips :: "nat \<Rightarrow> nat \<Rightarrow> nat \<Rightarrow> nat" where
  "fill_strips key strip space =
     (if key \<le> strip then space
      else (let space1 = round_up_for 6 space; n = min ((tile_bytes - space1 mod tile_bytes) div 6) (key - strip) in
        fill_strips key (strip + n) (space1 + n * 6)))"
  by auto
termination
proof (relation "measure (\<lambda>(key, strip, _). key - strip)", simp)
  fix key strip space x y :: nat
  assume "\<not> key \<le> strip" "x = round_up_for 6 space" "y = min ((tile_bytes - x mod tile_bytes) div 6) (key - strip)"
  moreover have "6 \<le> tile_bytes - round_up_for 6 space mod tile_bytes"
    by (auto simp: round_up_for_def tile_bytes_def TILE_DIM_def)
  ultimately have "0 < y" by (auto simp: div_greater_zero_iff)
  then show "((key, strip + y, x + y * 6), key, strip, space) \<in> measure (\<lambda>(key, strip, _). key - strip)"
    using \<open>\<not> key \<le> strip\<close> by simp
qed

declare fill_strips.simps [simp del]

text \<open>One strip with values; the state is the bytes so far, the strip after the last one and the flag for the first.\<close>

definition add_nz_strip ::
    "bool \<Rightarrow> (strip_key \<times> nat) list \<Rightarrow> nat \<Rightarrow> nat \<Rightarrow> nat \<times> nat \<Rightarrow> nat \<times> nat \<times> bool \<Rightarrow> (nat \<times> nat \<times> bool) res" where
  "add_nz_strip encode_all_strips nz_tiles idx_r idx_zt kv s =
     (let (key, val) = kv; (space, strip, first_strip_encoded) = s;
          space1 = (if encode_all_strips then fill_strips key strip space else space);
          tiles = (case map_of nz_tiles (idx_r, idx_zt, key) of None \<Rightarrow> 0 | Some n \<Rightarrow> n);
          increment = 6 + 2 * (val + tiles) in
      if increment < tile_bytes
      then Inr (round_up_for increment space1 + increment, key + 1, first_strip_encoded \<or> key = 0)
      else Inl RuntimeError)"

definition strips_of :: "(strip_key \<times> nat) list \<Rightarrow> nat \<Rightarrow> nat \<Rightarrow> (nat \<times> nat) list" where
  "strips_of m idx_r idx_zt = sort_key fst (map (\<lambda>((_, _, key), val). (key, val)) (filter (\<lambda>((r, z, _), _). r = idx_r \<and> z = idx_zt) m))"

definition estimate_zt :: "bool \<Rightarrow> EstimateCounts \<Rightarrow> nat \<Rightarrow> nat \<Rightarrow> nat \<Rightarrow> nat \<Rightarrow> nat res" where
  "estimate_zt encode_all_strips counts n_strips idx_r idx_zt space =
     res_bind (fold_res (add_nz_strip encode_all_strips (num_nz_tiles counts) idx_r idx_zt)
         (strips_of (num_nz_ublocks counts) idx_r idx_zt) (space, 0, False)) (\<lambda>(space1, strip, first_strip_encoded).
       if encode_all_strips then Inr (fill_strips n_strips strip space1)
       else (let added_space = (if strip < n_strips then 6 else 0) + (if first_strip_encoded then 0 else 6) in
         Inr (round_up_for added_space space1 + added_space)))"

definition get_encoding_tiles_per_core_estimate ::
    "SparseEnv \<Rightarrow> SparseBUDA \<Rightarrow> nat \<Rightarrow> nat \<Rightarrow> nat \<Rightarrow> nat \<Rightarrow> nat res" where
  "get_encoding_tiles_per_core_estimate env sb grid_r t_factor_r u_rt u_kt =
     res_bind (vec_idx (sparse_shape sb) 0) (\<lambda>h.
     res_bind (tt_assert (h mod TILE_DIM = 0)) (\<lambda>_.
     res_bind (vec_idx (sparse_shape sb) 1) (\<lambda>w.
     res_bind (tt_assert (w mod TILE_DIM = 0)) (\<lambda>_.
     if u_kt = 0 \<or> grid_r = 0 \<or> u_rt = 0 \<or> t_factor_r = 0 then Inl UndefinedBehaviour
     else (let sparse_rt = h div TILE_DIM; n_strips = w div TILE_DIM div u_kt; zt = sb_zdim sb * t_factor_r;
               encode_all_strips = PYBUDA_SPARSE_MM_ENCODE_ALL_STRIPS env in
       res_bind (tt_assert (sparse_rt mod grid_r = 0)) (\<lambda>_.
       res_bind (tt_assert (sparse_rt div grid_r mod u_rt = 0)) (\<lambda>_.
       res_bind (fold_res (count_index grid_r t_factor_r zt (sparse_rt div t_factor_r) n_strips u_rt u_kt)
           (sparse_indices sb) \<lparr>used_ublocks = [], num_nz_ublocks = [], num_nz_tiles = []\<rparr>) (\<lambda>counts.
       res_bind (map_res (\<lambda>idx_r. fold_res (estimate_zt encode_all_strips counts n_strips idx_r) [0..<zt] 0) [0..<grid_r])
         (\<lambda>space. Inr ((fold max space 0 + tile_bytes - 1) div tile_bytes)))))))))) "

section \<open>Tiles\<close>

definition insert_id :: "nat \<Rightarrow> nat \<Rightarrow> SparseIndex \<Rightarrow> nat list list \<Rightarrow> nat list list res" where
  "insert_id rt_slice_height t_slice_height si uniq =
     (let core_r = si_rt si mod rt_slice_height div t_slice_height in
      res_bind (vec_idx uniq core_r) (\<lambda>ids. Inr (uniq[core_r := List.insert (si_unique_id si) ids])))"

definition get_sparse_tiles_per_core_estimate :: "SparseBUDA \<Rightarrow> nat \<Rightarrow> nat \<Rightarrow> nat res" where
  "get_sparse_tiles_per_core_estimate sb grid_r t_factor_r =
     res_bind (vec_idx (sparse_shape sb) 0) (\<lambda>h.
     let rt = h div TILE_DIM in
     res_bind (tt_assert (grid_r * t_factor_r \<le> rt)) (\<lambda>_.
     if grid_r * t_factor_r = 0 then Inl UndefinedBehaviour
     else res_bind (tt_assert (rt mod (grid_r * t_factor_r) = 0)) (\<lambda>_.
     res_bind (tt_assert (rt mod t_factor_r = 0)) (\<lambda>_.
     res_bind (fold_res (insert_id (h div t_factor_r div TILE_DIM) (h div grid_r div t_factor_r div TILE_DIM))
         (sparse_indices sb) (replicate grid_r [0])) (\<lambda>uniq. Inr (Max (set (map length uniq))))))))"

text \<open>
  The estimate is the largest number of tiles a core refers to, the zero tile included. The core of a row
  of tiles is found as for the default layout.
\<close>

definition ids_of_core :: "nat \<Rightarrow> nat \<Rightarrow> SparseIndex list \<Rightarrow> nat \<Rightarrow> nat set" where
  "ids_of_core rt_slice_height t_slice_height indices r =
     {si_unique_id si |si. si \<in> set indices \<and> si_rt si mod rt_slice_height div t_slice_height = r}"

lemma in_set_update_cases: "x \<in> set (xs[i := y]) \<Longrightarrow> x = y \<or> x \<in> set xs"
  using set_update_subset_insert [of xs i y] by blast

lemma insert_ids_ok:
  assumes "fold_res (insert_id R T) indices uniq = Inr uniq'" "\<forall>ids \<in> set uniq. distinct ids"
  shows "length uniq' = length uniq \<and> (\<forall>ids \<in> set uniq'. distinct ids) \<and>
    (\<forall>r < length uniq. set (uniq' ! r) = set (uniq ! r) \<union> ids_of_core R T indices r)"
  using assms
proof (induction indices arbitrary: uniq)
  case (Cons si indices)
  let ?r = "si_rt si mod R div T"
  have r: "?r < length uniq"
    and rest: "fold_res (insert_id R T) indices (uniq[?r := List.insert (si_unique_id si) (uniq ! ?r)]) = Inr uniq'"
    using Cons.prems(1) unfolding fold_res.simps res_bind_Inr_iff by (auto simp: insert_id_def [of R T si] Let_def res_simps)
  have "\<forall>ids \<in> set (uniq[?r := List.insert (si_unique_id si) (uniq ! ?r)]). distinct ids"
    using Cons.prems(2) r by (auto dest!: in_set_update_cases)
  note IH = Cons.IH [OF rest this]
  have "ids_of_core R T (si # indices) r = (if ?r = r then {si_unique_id si} else {}) \<union> ids_of_core R T indices r" for r
    by (auto simp: ids_of_core_def)
  then show ?case using IH r by (auto simp: nth_list_update)
qed (simp add: ids_of_core_def)

lemma tiles_estimate_counts:
  assumes "get_sparse_tiles_per_core_estimate sb g t = Inr n" "sparse_shape sb = [h, w]"
  shows "n = Max ((\<lambda>r. card (insert 0 (ids_of_core (h div t div TILE_DIM) (h div g div t div TILE_DIM) (sparse_indices sb) r))) ` {..<g})"
proof -
  let ?ids = "ids_of_core (h div t div TILE_DIM) (h div g div t div TILE_DIM) (sparse_indices sb)"
  obtain uniq where u: "fold_res (insert_id (h div t div TILE_DIM) (h div g div t div TILE_DIM)) (sparse_indices sb)
      (replicate g [0]) = Inr uniq" and n: "n = Max (set (map length uniq))"
    using assms by (auto simp: get_sparse_tiles_per_core_estimate_def Let_def res_simps split: if_splits)
  have I: "length uniq = g" "\<forall>ids \<in> set uniq. distinct ids" "\<forall>r < g. set (uniq ! r) = insert 0 (?ids r)"
    using insert_ids_ok [OF u] by auto
  have "set (map length uniq) = (\<lambda>r. length (uniq ! r)) ` {..<g}"
    using I(1) by (force simp: in_set_conv_nth image_iff)
  also have "\<dots> = (\<lambda>r. card (insert 0 (?ids r))) ` {..<g}"
    using I by (intro image_cong refl) (metis distinct_card lessThan_iff nth_mem)
  finally show ?thesis by (simp only: n)
qed

end
