(* ===== verification/Graph_Shape.thy ===== *)
theory Graph_Shape
  imports Prelude
begin

text \<open>
  The shapes that graph nodes carry (\<open>graph_lib/shape.cpp\<close>, \<open>graph_lib/shape.hpp\<close>) and the tile
  sizes they are measured in (\<open>graph_lib/utils.cpp\<close>). A shape is a vector of 32-bit dimensions;
  a \<open>BUDA\<close> shape has four or five of them, the last two of which count whole tiles. Indexing a
  shape, its row and column tiles and its broadcasts can fail; each check of the code is a branch.
\<close>

section \<open>Tiles\<close>

datatype TileDim =
    Dim32x32 | Dim16x32 | Dim32x16 | Dim8x32 | Dim4x32 | Dim2x32 | Dim1x32 | Invalid_tile_dim

fun get_row_size_from_tile_size :: "TileDim \<Rightarrow> nat res" where
  "get_row_size_from_tile_size Dim32x32 = Inr 32"
| "get_row_size_from_tile_size Dim16x32 = Inr 16"
| "get_row_size_from_tile_size Dim32x16 = Inr 32"
| "get_row_size_from_tile_size Dim8x32 = Inr 8"
| "get_row_size_from_tile_size Dim4x32 = Inr 4"
| "get_row_size_from_tile_size Dim2x32 = Inr 2"
| "get_row_size_from_tile_size Dim1x32 = Inr 1"
| "get_row_size_from_tile_size Invalid_tile_dim = Inl RuntimeError"

fun get_col_size_from_tile_size :: "TileDim \<Rightarrow> nat res" where
  "get_col_size_from_tile_size Dim32x32 = Inr 32"
| "get_col_size_from_tile_size Dim16x32 = Inr 32"
| "get_col_size_from_tile_size Dim32x16 = Inr 16"
| "get_col_size_from_tile_size Dim8x32 = Inr 32"
| "get_col_size_from_tile_size Dim4x32 = Inr 32"
| "get_col_size_from_tile_size Dim2x32 = Inr 32"
| "get_col_size_from_tile_size Dim1x32 = Inr 32"
| "get_col_size_from_tile_size Invalid_tile_dim = Inl RuntimeError"

definition get_tile_dim_from_height_width :: "int \<Rightarrow> int \<Rightarrow> TileDim res" where
  "get_tile_dim_from_height_width tile_height tile_width =
     (if tile_height = 32
      then if tile_width = 16 then Inr Dim32x16
           else if tile_width = 32 then Inr Dim32x32 else Inl RuntimeError
      else if tile_height = 16 then Inr Dim16x32
      else if tile_height = 8 then Inr Dim8x32
      else if tile_height = 4 then Inr Dim4x32
      else if tile_height = 2 then Inr Dim2x32
      else if tile_height = 1 then Inr Dim1x32
      else Inl RuntimeError)"

section \<open>Shapes\<close>

datatype ShapeType = FREE | BUDA

record Shape =
  shape_valid :: bool
  shape_type :: ShapeType
  shape_dims :: "nat list"
  tile_dim :: TileDim

definition BUDA_TILE_DIM :: nat where "BUDA_TILE_DIM = 32"
definition BUDA_DIM_COUNT :: nat where "BUDA_DIM_COUNT = 4"
definition BUDA_MAX_DIM_COUNT :: nat where "BUDA_MAX_DIM_COUNT = 5"

definition default_shape :: Shape where
  "default_shape = \<lparr>shape_valid = False, shape_type = FREE, shape_dims = [], tile_dim = Dim32x32\<rparr>"

definition mk_typed_shape :: "bool \<Rightarrow> ShapeType \<Rightarrow> nat list \<Rightarrow> Shape" where
  "mk_typed_shape valid type dims =
     \<lparr>shape_valid = valid, shape_type = type, shape_dims = dims, tile_dim = Dim32x32\<rparr>"

definition create_shape :: "nat list \<Rightarrow> Shape" where
  "create_shape values = default_shape\<lparr>shape_dims := values, shape_valid := True, shape_type := FREE\<rparr>"

text \<open>
  \<open>values[i] % d\<close> where \<open>d\<close> is an \<open>int\<close>: the divisor is converted to \<open>std::uint32_t\<close>, and a
  zero divisor is undefined.
\<close>

definition dim_mod :: "nat \<Rightarrow> int \<Rightarrow> nat res" where
  "dim_mod v d =
     (let m = nat (d mod 2 ^ 32) in if m = 0 then Inl UndefinedBehaviour else Inr (v mod m))"

definition create_buda :: "nat list \<Rightarrow> int \<Rightarrow> int \<Rightarrow> Shape res" where
  "create_buda values tile_height tile_width =
     res_bind (tt_assert (BUDA_DIM_COUNT \<le> length values \<and> length values \<le> BUDA_MAX_DIM_COUNT)) (\<lambda>_.
     res_bind (dim_mod (values ! (length values - 1)) tile_width) (\<lambda>c.
     res_bind (tt_assert (c = 0)) (\<lambda>_.
     res_bind (dim_mod (values ! (length values - 2)) tile_height) (\<lambda>r.
     res_bind (tt_assert (r = 0)) (\<lambda>_.
     res_bind (get_tile_dim_from_height_width tile_height tile_width) (\<lambda>td.
       Inr \<lparr>shape_valid = True, shape_type = BUDA, shape_dims = values, tile_dim = td\<rparr>))))))"

definition create_buda_wzrc :: "nat \<Rightarrow> nat \<Rightarrow> nat \<Rightarrow> nat \<Rightarrow> Shape res" where
  "create_buda_wzrc w z r c =
     res_bind (tt_assert (r mod BUDA_TILE_DIM = 0)) (\<lambda>_.
     res_bind (tt_assert (c mod BUDA_TILE_DIM = 0)) (\<lambda>_.
       Inr (default_shape\<lparr>shape_dims := [w, z, r, c], shape_valid := True, shape_type := BUDA\<rparr>)))"

definition single_tile :: "Shape res" where
  "single_tile = create_buda_wzrc 1 1 BUDA_TILE_DIM BUDA_TILE_DIM"

text \<open>
  \<open>create_with_type_from_other\<close> reads \<open>s.dims_[-1]\<close>: the index is converted to \<open>std::size_t\<close>, far
  beyond the vector, so a \<open>BUDA\<close> pattern never gets past it.
\<close>

definition create_with_type_from_other :: "Shape \<Rightarrow> nat list \<Rightarrow> Shape res" where
  "create_with_type_from_other other dims =
     (let s = default_shape\<lparr>shape_dims := dims, shape_valid := True, shape_type := FREE\<rparr> in
      if shape_type other = BUDA
      then res_bind (tt_assert (BUDA_DIM_COUNT \<le> length dims \<and> length dims \<le> BUDA_MAX_DIM_COUNT)) (\<lambda>_.
           res_bind (vec_idx dims size_max) (\<lambda>r.
           res_bind (tt_assert (r mod BUDA_TILE_DIM = 0)) (\<lambda>_.
           res_bind (vec_idx dims (size_max - 1)) (\<lambda>c.
           res_bind (tt_assert (c mod BUDA_TILE_DIM = 0)) (\<lambda>_.
             Inr (s\<lparr>shape_type := BUDA\<rparr>))))))
      else Inr s)"

section \<open>Conversion to a BUDA shape\<close>

fun squeeze_leading :: "nat \<Rightarrow> nat list \<Rightarrow> nat list res" where
  "squeeze_leading n [] = Inr []"
| "squeeze_leading n (d # ds) =
     (if n < length (d # ds) then res_bind (tt_assert (d = 1)) (\<lambda>_. squeeze_leading n ds)
      else Inr (d # ds))"

definition unsqueeze_leading :: "nat \<Rightarrow> nat list \<Rightarrow> nat list" where
  "unsqueeze_leading n ds = replicate (n - length ds) 1 @ ds"

definition snap_to_tile :: "nat \<Rightarrow> nat \<Rightarrow> nat" where
  "snap_to_tile tile d = (if d mod tile \<noteq> 0 then add32 d (tile - d mod tile) else d)"

definition to_buda :: "Shape \<Rightarrow> Shape res" where
  "to_buda other =
     (if shape_type other = BUDA then Inr other
      else
        res_bind (squeeze_leading BUDA_MAX_DIM_COUNT (shape_dims other)) (\<lambda>squeezed.
        let dims = unsqueeze_leading BUDA_DIM_COUNT squeezed; r = length dims - 2 in
        res_bind (get_row_size_from_tile_size (tile_dim other)) (\<lambda>tile_r.
        res_bind (get_col_size_from_tile_size (tile_dim other)) (\<lambda>tile_c.
          Inr \<lparr>shape_valid = True, shape_type = BUDA,
               shape_dims = dims[r := snap_to_tile tile_r (dims ! r),
                                 r + 1 := snap_to_tile tile_c (dims ! (r + 1))],
               tile_dim = tile_dim other\<rparr>))))"

section \<open>Access\<close>

definition shape_index :: "Shape \<Rightarrow> int \<Rightarrow> nat res" where
  "shape_index s i =
     (let j = (if i < 0 then i + int (length (shape_dims s)) else i) in
      res_bind (tt_assert (0 \<le> j \<and> j < int (length (shape_dims s)))) (\<lambda>_.
      res_bind (tt_assert (shape_valid s)) (\<lambda>_. vec_idx (shape_dims s) (nat j))))"

definition negative_index :: "Shape \<Rightarrow> int \<Rightarrow> int" where
  "negative_index s i = (if i < 0 then i else i - int (length (shape_dims s)))"

definition positive_index :: "Shape \<Rightarrow> int \<Rightarrow> int" where
  "positive_index s i = (if i < 0 then i + int (length (shape_dims s)) else i)"

definition index_in_bounds :: "Shape \<Rightarrow> int \<Rightarrow> bool" where
  "index_in_bounds s i \<longleftrightarrow> 0 \<le> positive_index s i \<and> positive_index s i < int (length (shape_dims s))"

definition shape_volume :: "Shape \<Rightarrow> nat" where
  "shape_volume s = foldl mul32 1 (shape_dims s)"

definition get_tile_height :: "Shape \<Rightarrow> nat res" where
  "get_tile_height s = get_row_size_from_tile_size (tile_dim s)"

definition get_tile_width :: "Shape \<Rightarrow> nat res" where
  "get_tile_width s = get_col_size_from_tile_size (tile_dim s)"

definition get_tile_volume :: "Shape \<Rightarrow> nat res" where
  "get_tile_volume s = res_bind (get_tile_height s) (\<lambda>h. res_bind (get_tile_width s) (\<lambda>w. Inr (h * w)))"

text \<open>
  The accessors of \<open>BUDA\<close> shapes. The index is the signed difference of the code: when it is
  negative the access is out of the vector.
\<close>

definition dim_from_end :: "Shape \<Rightarrow> nat \<Rightarrow> nat res" where
  "dim_from_end s k =
     res_bind (tt_assert (shape_valid s)) (\<lambda>_.
     res_bind (tt_assert (shape_type s = BUDA)) (\<lambda>_.
       if k \<le> length (shape_dims s) then vec_idx (shape_dims s) (length (shape_dims s) - k)
       else Inl UndefinedBehaviour))"

definition shape_rt :: "Shape \<Rightarrow> nat res" where
  "shape_rt s =
     res_bind (tt_assert (shape_valid s)) (\<lambda>_.
     res_bind (tt_assert (shape_type s = BUDA)) (\<lambda>_.
     res_bind (get_row_size_from_tile_size (tile_dim s)) (\<lambda>tile_r.
     res_bind (dim_from_end s 2) (\<lambda>d. Inr (d div tile_r)))))"

definition shape_ct :: "Shape \<Rightarrow> nat res" where
  "shape_ct s = res_bind (dim_from_end s 1) (\<lambda>d. Inr (d div BUDA_TILE_DIM))"

definition shape_z :: "Shape \<Rightarrow> nat res" where "shape_z s = dim_from_end s 3"
definition shape_w :: "Shape \<Rightarrow> nat res" where "shape_w s = dim_from_end s 4"

definition is_single_tile :: "Shape \<Rightarrow> bool res" where
  "is_single_tile s =
     res_bind (tt_assert (shape_type s = BUDA)) (\<lambda>_.
     res_bind (shape_w s) (\<lambda>w. if w \<noteq> 1 then Inr False else
     res_bind (shape_z s) (\<lambda>z. if z \<noteq> 1 then Inr False else
     res_bind (shape_rt s) (\<lambda>rt. if rt \<noteq> 1 then Inr False else
     res_bind (shape_ct s) (\<lambda>ct. Inr (ct = 1))))))"

definition is_unit :: "Shape \<Rightarrow> int \<Rightarrow> bool res" where
  "is_unit s index =
     (let i = negative_index s index in
      res_bind (shape_index s i) (\<lambda>d.
        Inr (if shape_type s = BUDA \<and> i \<ge> -2 then d = BUDA_TILE_DIM else d = 1)))"

section \<open>Comparison, ranks and broadcasts\<close>

text \<open>
  \<open>operator==\<close> compares the dimensions from the last one; a dimension that only one side has
  must be 1. The body of the loop for the index \<open>-k\<close>:
\<close>

definition dims_agree_at :: "nat list \<Rightarrow> nat list \<Rightarrow> nat \<Rightarrow> bool" where
  "dims_agree_at a b k =
     (if length a < k then b ! (length b - k) = 1
      else if length b < k then a ! (length a - k) = 1
      else a ! (length a - k) = b ! (length b - k))"

definition shape_eq :: "Shape \<Rightarrow> Shape \<Rightarrow> bool" where
  "shape_eq s t =
     (let a = shape_dims s; b = shape_dims t in
      list_all (dims_agree_at a b) [1 ..< Suc (max (length a) (length b))])"

definition canonical :: "Shape \<Rightarrow> Shape" where
  "canonical s = create_shape (unsqueeze_leading 4 (shape_dims s))"

definition as_tuple :: "Shape \<Rightarrow> (int \<times> int \<times> int \<times> int) res" where
  "as_tuple s =
     (let can = canonical s in
      res_bind (shape_index can 0) (\<lambda>a. res_bind (shape_index can 1) (\<lambda>b.
      res_bind (shape_index can 2) (\<lambda>c. res_bind (shape_index can 3) (\<lambda>d.
        Inr (to_int32 a, to_int32 b, to_int32 c, to_int32 d))))))"

definition as_rank :: "Shape \<Rightarrow> nat \<Rightarrow> Shape res" where
  "as_rank s rank =
     res_bind (tt_assert (0 < rank)) (\<lambda>_.
     res_bind (squeeze_leading rank (unsqueeze_leading rank (shape_dims s))) (\<lambda>v.
       Inr (create_shape v)))"

text \<open>
  \<open>broadcast_dims\<close>: the dimensions (operand, index, size) along which \<open>s\<close> has to be repeated to
  reach \<open>t\<close>, from the last one. The assertion of the \<open>BUDA\<close> branch is the code's: it demands the
  tile size of the outer dimensions and 1 of the row and the column.
\<close>

definition broadcast_step ::
    "Shape \<Rightarrow> Shape \<Rightarrow> nat \<Rightarrow> (nat \<times> nat \<times> nat) list \<Rightarrow> (nat \<times> nat \<times> nat) list res" where
  "broadcast_step s t i acc =
     (let my_dim = shape_dims s ! (length (shape_dims s) - 1 - i);
          other_dim = shape_dims t ! (length (shape_dims t) - 1 - i) in
      if my_dim < other_dim
      then res_bind
             (tt_assert
               (if shape_type s = FREE then my_dim = 1
                else (2 \<le> i \<and> my_dim = BUDA_TILE_DIM) \<or> (i < 2 \<and> my_dim = 1)))
             (\<lambda>_. Inr (acc @ [(0, length (shape_dims s) - 1 - i, other_dim)]))
      else Inr acc)"

definition broadcast_dims :: "Shape \<Rightarrow> Shape \<Rightarrow> (nat \<times> nat \<times> nat) list res" where
  "broadcast_dims s t =
     res_bind (tt_assert (shape_valid s \<and> shape_valid t)) (\<lambda>_.
       if shape_volume s = shape_volume t then Inr []
       else fold_res (broadcast_step s t)
              [0 ..< min (length (shape_dims s)) (length (shape_dims t))] [])"

section \<open>Pickling\<close>

definition shape_type_code :: "ShapeType \<Rightarrow> int" where
  "shape_type_code t = (case t of FREE \<Rightarrow> 0 | BUDA \<Rightarrow> 1)"

definition get_pickle_data :: "Shape \<Rightarrow> bool \<times> int \<times> nat list" where
  "get_pickle_data s = (shape_valid s, shape_type_code (shape_type s), shape_dims s)"

definition create_from_pickled :: "bool \<times> int \<times> nat list \<Rightarrow> Shape res" where
  "create_from_pickled = (\<lambda>(valid, type, dims).
     if \<not> valid then Inr default_shape
     else if type = shape_type_code FREE then Inr (create_shape dims)
     else if type = shape_type_code BUDA
     then create_buda dims (int BUDA_TILE_DIM) (int BUDA_TILE_DIM)
     else Inl RuntimeError)"

text \<open>\<open>align_up_tile\<close> at the type \<open>std::uint32_t\<close>: the first subtraction wraps at zero.\<close>

definition align_up_tile :: "nat \<Rightarrow> nat" where
  "align_up_tile d =
     (let e = sub32 d 1 in add32 (e - e mod BUDA_TILE_DIM) BUDA_TILE_DIM)"

end
