(* ===== verification/Graph_Store.thy ===== *)
theory Graph_Store
  imports Graph_Shape Grid_Placer Dram_Config "HOL-Library.Product_Lexorder"
begin

text \<open>
  The compiler's graph (\<open>graph_lib/graph.cpp\<close>, \<open>graph.hpp\<close>, \<open>edge.cpp\<close>): nodes, typed edges, the
  maps that index them and the operations that change them. A node is known by its id; the two
  maps \<open>nodes_map_\<close> (owning pointers) and \<open>nodes_map_raw_\<close> always hold the same nodes and are one
  map here. An \<open>unordered_set<Edge>\<close> is a list without two edges of one identity and an
  \<open>unordered_map\<close> an association list; their order stands for the iteration order, which the
  standard leaves open. The attributes of edges are shared pointers, so they live in a store of
  their own. The process-wide counters of ids are threaded through the operations that use them.
\<close>

type_synonym NodeId = int
type_synonym PortId = nat

section \<open>Edges\<close>

datatype EdgeType =
    kData | kControl | kDataLoopback | kAutogradFwdToBwd | kAutogradFwdToGradient
  | kAutogradFwdToOptimizer | kAutogradFwdToRecompute | kControlLoop | kAutogradOutputToLoss
  | kAutogradInputToGradientOut | kPartialDataCopy | kSubgraphLink

record Edge =
  edge_creation_id :: nat
  producer_node_id :: NodeId
  producer_output_port_id :: PortId
  consumer_node_id :: NodeId
  consumer_input_port_id :: PortId
  edge_type :: EdgeType

type_synonym EdgeUniqueId = "NodeId \<times> PortId \<times> NodeId \<times> PortId \<times> EdgeType"

text \<open>The identity of an edge leaves its creation id out.\<close>

definition edge_key :: "Edge \<Rightarrow> EdgeUniqueId" where
  "edge_key e = (producer_node_id e, producer_output_port_id e, consumer_node_id e,
                 consumer_input_port_id e, edge_type e)"

definition set_insert :: "Edge \<Rightarrow> Edge list \<Rightarrow> Edge list" where
  "set_insert e es = (if edge_key e \<in> edge_key ` set es then es else es @ [e])"

definition set_erase :: "EdgeUniqueId \<Rightarrow> Edge list \<Rightarrow> Edge list" where
  "set_erase k es = [e \<leftarrow> es. edge_key e \<noteq> k]"

section \<open>Nodes\<close>

datatype NodeType = kInput | kOutput | kPyOp | kBudaOp | kBudaNaryTM | kQueue

datatype InputNodeType =
    Parameter | Constant | Accumulator | Activation | Loss | OptimizerParameter | Target

datatype ConstantInputNodeType = SingleValue | SingleTile | Tensor

text \<open>The members of the node classes that the modelled code reads or loses.\<close>

record InputFields =
  input_type :: InputNodeType
  input_requires_grad :: bool
  tile_broadcast_dims :: "int list"
  prologue :: bool

record OutputFields =
  output_requires_grad :: bool
  is_loss_output :: bool
  is_saved_intermediate :: bool
  untilize :: bool

record OpFields =
  op_name :: string
  is_gradient_op :: bool
  is_buffering_op :: bool

text \<open>
  The dynamic class of a node with its members: queue nodes (with their kind and entries), inputs,
  constant inputs (with the dimensions of a single value), outputs, the two kinds of ops and the
  n-ary TMs.
\<close>

datatype NodeClass =
    QueueNodeClass QueueNodeType int
  | InputNodeClass InputFields
  | ConstantInputNodeClass InputFields ConstantInputNodeType "int \<times> int"
  | OutputNodeClass OutputFields
  | PyOpNodeClass OpFields
  | BudaOpNodeClass OpFields
  | BudaNaryTMNodeClass string

record Node =
  n_name :: string
  n_id :: NodeId
  n_type :: NodeType
  n_shape :: Shape
  n_epoch :: NodeEpochType
  n_df :: nat
  n_class :: NodeClass

text \<open>\<open>node->as<T>()\<close>: the node type is checked, then the pointer is cast dynamically.\<close>

definition as_input :: "Node \<Rightarrow> InputFields res" where
  "as_input n =
     (if n_type n = kInput
      then (case n_class n of InputNodeClass f \<Rightarrow> Inr f | ConstantInputNodeClass f _ _ \<Rightarrow> Inr f
                            | _ \<Rightarrow> Inl UndefinedBehaviour)
      else Inl RuntimeError)"

definition as_output :: "Node \<Rightarrow> OutputFields res" where
  "as_output n =
     (if n_type n = kOutput
      then (case n_class n of OutputNodeClass f \<Rightarrow> Inr f | _ \<Rightarrow> Inl UndefinedBehaviour)
      else Inl RuntimeError)"

definition as_op :: "Node \<Rightarrow> OpFields res" where
  "as_op n =
     (if n_type n = kPyOp \<or> n_type n = kBudaOp
      then (case n_class n of PyOpNodeClass f \<Rightarrow> Inr f | BudaOpNodeClass f \<Rightarrow> Inr f
                            | _ \<Rightarrow> Inl UndefinedBehaviour)
      else Inl RuntimeError)"

definition as_buda_op :: "Node \<Rightarrow> OpFields res" where
  "as_buda_op n =
     (if n_type n = kBudaOp
      then (case n_class n of BudaOpNodeClass f \<Rightarrow> Inr f | _ \<Rightarrow> Inl UndefinedBehaviour)
      else Inl RuntimeError)"

definition as_queue_type :: "Node \<Rightarrow> QueueNodeType res" where
  "as_queue_type n =
     (if n_type n = kQueue \<or> n_type n = kInput \<or> n_type n = kOutput
      then (case n_class n of
              QueueNodeClass q _ \<Rightarrow> Inr q
            | InputNodeClass _ \<Rightarrow> Inr Input
            | ConstantInputNodeClass _ _ _ \<Rightarrow> Inr Input
            | OutputNodeClass _ \<Rightarrow> Inr Output
            | _ \<Rightarrow> Inl UndefinedBehaviour)
      else Inl RuntimeError)"

text \<open>
  \<open>clone(name)\<close> of the node classes: the constructor of the class, \<open>Node::clone\<close> (name, shape,
  epoch type and data format) and the members that the class copies. An n-ary TM has no \<open>clone\<close>.
\<close>

definition clone_class :: "NodeClass \<Rightarrow> NodeClass res" where
  "clone_class c = (case c of
       QueueNodeClass q entries \<Rightarrow> Inr (QueueNodeClass q entries)
     | InputNodeClass f \<Rightarrow>
         Inr (InputNodeClass
           \<lparr>input_type = input_type f, input_requires_grad = input_requires_grad f,
            tile_broadcast_dims = tile_broadcast_dims f, prologue = False\<rparr>)
     | ConstantInputNodeClass f kind _ \<Rightarrow>
         Inr (ConstantInputNodeClass
           \<lparr>input_type = Constant, input_requires_grad = False, tile_broadcast_dims = [],
            prologue = False\<rparr> kind (-1, -1))
     | OutputNodeClass f \<Rightarrow>
         Inr (OutputNodeClass
           \<lparr>output_requires_grad = output_requires_grad f, is_loss_output = is_loss_output f,
            is_saved_intermediate = False, untilize = True\<rparr>)
     | PyOpNodeClass f \<Rightarrow>
         Inr (PyOpNodeClass \<lparr>op_name = op_name f, is_gradient_op = is_gradient_op f,
                            is_buffering_op = is_buffering_op f\<rparr>)
     | BudaOpNodeClass f \<Rightarrow>
         Inr (BudaOpNodeClass \<lparr>op_name = op_name f, is_gradient_op = is_gradient_op f,
                              is_buffering_op = False\<rparr>)
     | BudaNaryTMNodeClass _ \<Rightarrow> Inl RuntimeError)"

definition clone_node :: "Node \<Rightarrow> string \<Rightarrow> Node res" where
  "clone_node n new_name =
     res_bind (clone_class (n_class n)) (\<lambda>c.
       Inr \<lparr>n_name = (if new_name = '''' then n_name n else new_name), n_id = -1,
            n_type = (case c of QueueNodeClass _ _ \<Rightarrow> kQueue | InputNodeClass _ \<Rightarrow> kInput
                              | ConstantInputNodeClass _ _ _ \<Rightarrow> kInput | OutputNodeClass _ \<Rightarrow> kOutput
                              | PyOpNodeClass _ \<Rightarrow> kPyOp | BudaOpNodeClass _ \<Rightarrow> kBudaOp
                              | BudaNaryTMNodeClass _ \<Rightarrow> kBudaNaryTM),
            n_shape = n_shape n, n_epoch = n_epoch n, n_df = n_df n, n_class = c\<rparr>)"

section \<open>Edge attributes\<close>

datatype UBlockOrder = UBlock_R | UBlock_C

text \<open>
  The operations along an edge (\<open>tms\<close>, by name), the order of the micro blocks, and what a
  \<open>LoopEdgeAttributes\<close> adds: the number of iterations, which no constructor initialises, and the
  nodes of the loop.
\<close>

record EdgeAttributes =
  attr_edge_type :: EdgeType
  tms :: "string list"
  ublock_order :: UBlockOrder
  loop_iterations :: "int option"
  nodes_processed_in_loop :: "NodeId list"

definition create_attributes :: "EdgeType \<Rightarrow> EdgeAttributes" where
  "create_attributes t =
     \<lparr>attr_edge_type = t, tms = [], ublock_order = UBlock_R, loop_iterations = None,
      nodes_processed_in_loop = []\<rparr>"

text \<open>\<open>EdgeAttributes::as<LoopEdgeAttributes>\<close> checks the edge type.\<close>

definition as_loop :: "EdgeAttributes \<Rightarrow> EdgeAttributes res" where
  "as_loop a = (if attr_edge_type a = kControlLoop then Inr a else Inl RuntimeError)"

definition copy_from :: "EdgeAttributes \<Rightarrow> EdgeAttributes \<Rightarrow> EdgeAttributes" where
  "copy_from other a = a\<lparr>tms := tms other, ublock_order := ublock_order other\<rparr>"

section \<open>The graph\<close>

text \<open>
  The attributes are values in \<open>attr_store\<close>, and \<open>edge_to_attr_map\<close> holds pointers (indices) into
  it: two edges may share one. The last three members are the contexts a \<open>GraphTraversalContext\<close>
  installs.
\<close>

record Graph =
  graph_name :: string
  graph_id :: int
  enable_training :: bool
  microbatch :: int
  node_id_to_subgraph_id :: "(NodeId \<times> nat) list"
  num_subgraphs :: nat
  ordered_module_input_node_ids :: "NodeId list"
  ordered_module_output_node_ids :: "NodeId list"
  ordered_module_target_node_ids :: "NodeId list"
  node_order :: "NodeId list"
  node_name_to_node_id :: "(string \<times> NodeId) list"
  nodes_map :: "(NodeId \<times> Node) list"
  operands_map :: "(NodeId \<times> Edge list) list"
  users_map :: "(NodeId \<times> Edge list) list"
  edge_to_attr_map :: "(EdgeUniqueId \<times> nat) list"
  attr_store :: "EdgeAttributes list"
  virtual_nodes :: "NodeId list"
  virtual_node_traversal_context :: "NodeId list option"
  ignored_edges_traversal_context :: "EdgeUniqueId list option"
  node_traversal_context :: "NodeId list option"

definition mk_graph :: "string \<Rightarrow> int \<Rightarrow> Graph" where
  "mk_graph name unique_id =
     \<lparr>graph_name = name, graph_id = unique_id, enable_training = False, microbatch = 0,
      node_id_to_subgraph_id = [], num_subgraphs = 0, ordered_module_input_node_ids = [],
      ordered_module_output_node_ids = [], ordered_module_target_node_ids = [], node_order = [],
      node_name_to_node_id = [], nodes_map = [], operands_map = [], users_map = [],
      edge_to_attr_map = [], attr_store = [], virtual_nodes = [],
      virtual_node_traversal_context = None, ignored_edges_traversal_context = None,
      node_traversal_context = None\<rparr>"

text \<open>The static counters \<open>Graph::last_node_id_assigned_\<close> and \<open>Edge::last_assigned_edge_creation_id\<close>.\<close>

record IdCounters =
  last_node_id_assigned :: NodeId
  last_assigned_edge_creation_id :: nat

section \<open>Node queries\<close>

definition has_node_with_id :: "Graph \<Rightarrow> NodeId \<Rightarrow> bool" where
  "has_node_with_id G n \<longleftrightarrow> map_of (nodes_map G) n \<noteq> None"

definition has_node_with_name :: "Graph \<Rightarrow> string \<Rightarrow> bool" where
  "has_node_with_name G name \<longleftrightarrow> map_of (node_name_to_node_id G) name \<noteq> None"

definition node_by_id :: "Graph \<Rightarrow> NodeId \<Rightarrow> Node res" where
  "node_by_id G n = (case map_of (nodes_map G) n of Some x \<Rightarrow> Inr x | None \<Rightarrow> Inl RuntimeError)"

text \<open>\<open>node_by_name\<close> with \<open>raise_exception\<close>; without it the error is a null pointer.\<close>

definition node_by_name :: "Graph \<Rightarrow> string \<Rightarrow> Node res" where
  "node_by_name G name =
     (case map_of (node_name_to_node_id G) name of
        None \<Rightarrow> Inl RuntimeError
      | Some n \<Rightarrow> node_by_id G n)"

definition find_node_by_name :: "Graph \<Rightarrow> string \<Rightarrow> Node option" where
  "find_node_by_name G name = Option.bind (map_of (node_name_to_node_id G) name) (map_of (nodes_map G))"

definition node_ids :: "Graph \<Rightarrow> NodeId list" where
  "node_ids G = map fst (nodes_map G)"

definition num_nodes :: "Graph \<Rightarrow> nat" where
  "num_nodes G = length (nodes_map G)"

text \<open>\<open>nodes(node_filter)\<close>, over the nodes in the order of their insertion.\<close>

definition nodes_where :: "Graph \<Rightarrow> (Node \<Rightarrow> bool) \<Rightarrow> Node list res" where
  "nodes_where G P =
     res_bind (map_res (node_by_id G) (node_order G)) (\<lambda>ns. Inr (filter P ns))"

definition nodes_by_type :: "Graph \<Rightarrow> NodeType \<Rightarrow> Node list res" where
  "nodes_by_type G t = nodes_where G (\<lambda>n. n_type n = t)"

definition contains_nodes_of_epoch_type :: "Graph \<Rightarrow> NodeEpochType \<Rightarrow> bool res" where
  "contains_nodes_of_epoch_type G t =
     res_bind (nodes_where G (\<lambda>n. n_epoch n = t)) (\<lambda>ns. Inr (ns \<noteq> []))"

definition contains_bwd_nodes :: "Graph \<Rightarrow> bool res" where
  "contains_bwd_nodes G = contains_nodes_of_epoch_type G Backward"

definition contains_opt_nodes :: "Graph \<Rightarrow> bool res" where
  "contains_opt_nodes G = contains_nodes_of_epoch_type G Optimizer"

definition contains_recompute_nodes :: "Graph \<Rightarrow> bool" where
  "contains_recompute_nodes G \<longleftrightarrow>
     (\<exists>(_, es) \<in> set (users_map G). \<exists>e \<in> set es. edge_type e = kAutogradFwdToRecompute)"

section \<open>Subgraphs\<close>

definition nodes_by_subgraph :: "Graph \<Rightarrow> nat \<Rightarrow> NodeId list res" where
  "nodes_by_subgraph G i =
     fold_res (\<lambda>n acc. res_bind (at_key (node_id_to_subgraph_id G) n) (\<lambda>j.
                 Inr (if j = i then acc @ [n] else acc))) (node_order G) []"

definition enlarge_subgraphs :: "nat \<Rightarrow> Graph \<Rightarrow> Graph" where
  "enlarge_subgraphs i G = (if i \<ge> num_subgraphs G then G\<lparr>num_subgraphs := add32 i 1\<rparr> else G)"

definition move_node_to_subgraph :: "NodeId \<Rightarrow> nat \<Rightarrow> Graph \<Rightarrow> Graph" where
  "move_node_to_subgraph n i G =
     enlarge_subgraphs i (G\<lparr>node_id_to_subgraph_id := AList.update n i (node_id_to_subgraph_id G)\<rparr>)"

definition get_subgraph_id_for_node :: "Graph \<Rightarrow> NodeId \<Rightarrow> nat res" where
  "get_subgraph_id_for_node G n = at_key (node_id_to_subgraph_id G) n"

end
