(* ===== verification/Graph_Edges.thy ===== *)
theory Graph_Edges
  imports Graph_Store
begin

text \<open>
  The edge queries of the graph and the operations that change it (\<open>graph_lib/graph.cpp\<close>):
  visibility under traversal contexts, sorted operand and user edges, adding and removing nodes
  and edges, renaming, the ordered module inputs, outputs and targets, and cloning.
\<close>

section \<open>Visibility\<close>

definition is_node_virtual :: "Graph \<Rightarrow> NodeId \<Rightarrow> bool" where
  "is_node_virtual G n \<longleftrightarrow> n \<in> set (virtual_nodes G)"

definition no_context :: "Graph \<Rightarrow> bool" where
  "no_context G \<longleftrightarrow>
     node_traversal_context G = None \<and> virtual_node_traversal_context G = None \<and> virtual_nodes G = []"

definition in_context :: "'a list option \<Rightarrow> 'a \<Rightarrow> bool" where
  "in_context c x \<longleftrightarrow> (case c of None \<Rightarrow> False | Some xs \<Rightarrow> x \<in> set xs)"

definition is_node_visible :: "Graph \<Rightarrow> NodeId \<Rightarrow> bool" where
  "is_node_visible G n =
     (if no_context G then True
      else if \<not> is_node_virtual G n
      then node_traversal_context G = None \<or> in_context (node_traversal_context G) n
      else in_context (virtual_node_traversal_context G) n \<or> in_context (node_traversal_context G) n)"

definition is_edge_visible :: "Graph \<Rightarrow> Edge \<Rightarrow> bool res" where
  "is_edge_visible G e =
     (if no_context G then Inr True
      else if in_context (ignored_edges_traversal_context G) (edge_key e) then Inr False
      else res_bind (node_by_id G (producer_node_id e)) (\<lambda>_.
           res_bind (node_by_id G (consumer_node_id e)) (\<lambda>_.
             Inr (is_node_visible G (producer_node_id e) \<and> is_node_visible G (consumer_node_id e)))))"

definition mark_node_virtual :: "NodeId \<Rightarrow> Graph \<Rightarrow> Graph" where
  "mark_node_virtual n G = G\<lparr>virtual_nodes := List.insert n (virtual_nodes G)\<rparr>"

definition mark_node_persisted :: "NodeId \<Rightarrow> Graph \<Rightarrow> Graph res" where
  "mark_node_persisted n G =
     res_bind (tt_assert (n \<in> set (virtual_nodes G))) (\<lambda>_.
       Inr (G\<lparr>virtual_nodes := removeAll n (virtual_nodes G)\<rparr>))"

definition is_graph_traversal_context_set :: "Graph \<Rightarrow> bool" where
  "is_graph_traversal_context_set G \<longleftrightarrow>
     virtual_node_traversal_context G \<noteq> None \<or> ignored_edges_traversal_context G \<noteq> None"

text \<open>
  \<open>GraphTraversalContext\<close> saves the contexts of the graph and installs its own; its destructor
  puts the saved ones back.
\<close>

type_synonym SavedContext = "NodeId list option \<times> EdgeUniqueId list option \<times> NodeId list option"

definition enter_context ::
    "NodeId list option \<Rightarrow> NodeId list option \<Rightarrow> EdgeUniqueId list option \<Rightarrow> Graph \<Rightarrow>
     SavedContext \<times> Graph" where
  "enter_context nodes virt ignored G =
     ((virtual_node_traversal_context G, ignored_edges_traversal_context G, node_traversal_context G),
      G\<lparr>virtual_node_traversal_context := virt, ignored_edges_traversal_context := ignored,
        node_traversal_context := nodes\<rparr>)"

definition leave_context :: "SavedContext \<Rightarrow> Graph \<Rightarrow> Graph" where
  "leave_context saved G =
     (case saved of (virt, ignored, nodes) \<Rightarrow>
       G\<lparr>virtual_node_traversal_context := virt, ignored_edges_traversal_context := ignored,
         node_traversal_context := nodes\<rparr>)"

section \<open>Edge queries\<close>

definition edges_by_type :: "Graph \<Rightarrow> EdgeType \<Rightarrow> Edge list" where
  "edges_by_type G t = [e \<leftarrow> concat (map snd (operands_map G)). edge_type e = t]"

definition operand_edges_set :: "Graph \<Rightarrow> NodeId \<Rightarrow> Edge list res" where
  "operand_edges_set G n = at_key (operands_map G) n"

definition user_edges_set :: "Graph \<Rightarrow> NodeId \<Rightarrow> Edge list res" where
  "user_edges_set G n = at_key (users_map G) n"

text \<open>The loop that collects the edges passing the filter, and then whether they are visible.\<close>

definition visible_edges :: "Graph \<Rightarrow> (Edge \<Rightarrow> bool) \<Rightarrow> Edge list \<Rightarrow> Edge list res" where
  "visible_edges G edge_filter es =
     fold_res (\<lambda>e acc.
       if edge_filter e
       then res_bind (is_edge_visible G e) (\<lambda>v. Inr (if v then acc @ [e] else acc))
       else Inr acc) es []"

definition operand_edges :: "Graph \<Rightarrow> (Edge \<Rightarrow> bool) \<Rightarrow> NodeId \<Rightarrow> Edge list res" where
  "operand_edges G edge_filter n =
     res_bind (operand_edges_set G n) (\<lambda>es.
     res_bind (visible_edges G edge_filter es) (\<lambda>vs. Inr (sort_key consumer_input_port_id vs)))"

definition user_edge_order :: "Edge \<Rightarrow> PortId \<times> PortId \<times> nat" where
  "user_edge_order e = (producer_output_port_id e, consumer_input_port_id e, edge_creation_id e)"

definition user_edges :: "Graph \<Rightarrow> (Edge \<Rightarrow> bool) \<Rightarrow> NodeId \<Rightarrow> Edge list res" where
  "user_edges G edge_filter n =
     res_bind (user_edges_set G n) (\<lambda>es.
     res_bind (visible_edges G edge_filter es) (\<lambda>vs. Inr (sort_key user_edge_order vs)))"

abbreviation any_edge :: "Edge \<Rightarrow> bool" where "any_edge \<equiv> (\<lambda>_. True)"

definition is_data_edge :: "Edge \<Rightarrow> bool" where
  "is_data_edge e \<longleftrightarrow> edge_type e = kData \<or> edge_type e = kDataLoopback"

definition operand_data_edges :: "Graph \<Rightarrow> (Edge \<Rightarrow> bool) \<Rightarrow> NodeId \<Rightarrow> Edge list res" where
  "operand_data_edges G edge_filter = operand_edges G (\<lambda>e. edge_filter e \<and> is_data_edge e)"

definition operand_partial_datacopy_edges :: "Graph \<Rightarrow> (Edge \<Rightarrow> bool) \<Rightarrow> NodeId \<Rightarrow> Edge list res" where
  "operand_partial_datacopy_edges G edge_filter =
     operand_edges G (\<lambda>e. edge_filter e \<and> edge_type e = kPartialDataCopy)"

definition user_data_edges :: "Graph \<Rightarrow> (Edge \<Rightarrow> bool) \<Rightarrow> NodeId \<Rightarrow> Edge list res" where
  "user_data_edges G edge_filter = user_edges G (\<lambda>e. edge_filter e \<and> is_data_edge e)"

definition user_partial_datacopy_edges :: "Graph \<Rightarrow> (Edge \<Rightarrow> bool) \<Rightarrow> NodeId \<Rightarrow> Edge list res" where
  "user_partial_datacopy_edges G edge_filter =
     user_edges G (\<lambda>e. edge_filter e \<and> edge_type e = kPartialDataCopy)"

definition node_edges :: "Graph \<Rightarrow> (Edge \<Rightarrow> bool) \<Rightarrow> NodeId \<Rightarrow> Edge list res" where
  "node_edges G edge_filter n =
     res_bind (operand_edges G edge_filter n) (\<lambda>os.
     res_bind (user_edges G edge_filter n) (\<lambda>us. Inr (os @ us)))"

definition producers_of :: "Graph \<Rightarrow> Edge list \<Rightarrow> Node list res" where
  "producers_of G es = map_res (\<lambda>e. node_by_id G (producer_node_id e)) es"

definition consumers_of :: "Graph \<Rightarrow> Edge list \<Rightarrow> Node list res" where
  "consumers_of G es = map_res (\<lambda>e. node_by_id G (consumer_node_id e)) es"

definition operands :: "Graph \<Rightarrow> NodeId \<Rightarrow> Node list res" where
  "operands G n = res_bind (operand_edges G any_edge n) (producers_of G)"

definition data_operands :: "Graph \<Rightarrow> NodeId \<Rightarrow> Node list res" where
  "data_operands G n = res_bind (operand_data_edges G any_edge n) (producers_of G)"

definition users :: "Graph \<Rightarrow> NodeId \<Rightarrow> Node list res" where
  "users G n = res_bind (user_edges G any_edge n) (consumers_of G)"

definition data_users :: "Graph \<Rightarrow> NodeId \<Rightarrow> Node list res" where
  "data_users G n =
     res_bind (user_edges G any_edge n) (\<lambda>es. consumers_of G [e \<leftarrow> es. edge_type e = kData])"

definition get_edges :: "Graph \<Rightarrow> NodeId \<Rightarrow> NodeId \<Rightarrow> Edge list res" where
  "get_edges G producer consumer =
     res_bind (user_data_edges G any_edge producer) (\<lambda>es. Inr [e \<leftarrow> es. consumer_node_id e = consumer])"

definition user_data_edges_for_operand_port :: "Graph \<Rightarrow> NodeId \<Rightarrow> PortId \<Rightarrow> Edge list res" where
  "user_data_edges_for_operand_port G n port =
     res_bind (user_data_edges G any_edge n) (\<lambda>es. Inr [e \<leftarrow> es. producer_output_port_id e = port])"

text \<open>
  The output port of a user edge and its position among the data edges that leave by that port.
  An edge that is not among them keeps the port -1: the plain \<open>assert\<close> (absent from a release
  build) is the only check.
\<close>

definition output_port_and_index_for_data_user_port :: "Graph \<Rightarrow> NodeId \<Rightarrow> Edge \<Rightarrow> (PortId \<times> nat) res" where
  "output_port_and_index_for_data_user_port G n user_edge =
     res_bind (user_data_edges G any_edge n) (\<lambda>es.
       if edge_key user_edge \<notin> edge_key ` set es then Inl UndefinedBehaviour
       else
         let port = producer_output_port_id user_edge;
             same_port = [e \<leftarrow> es. producer_output_port_id e = port] in
         Inr (port, length (takeWhile (\<lambda>e. edge_key e \<noteq> edge_key user_edge) same_port)))"

fun index_edges :: "NodeId \<Rightarrow> (PortId \<times> nat) list \<Rightarrow> Edge list \<Rightarrow> (PortId \<times> nat) list" where
  "index_edges consumer index [] = []"
| "index_edges consumer index (e # es) =
     (let port = producer_output_port_id e;
          i = (case map_of index port of None \<Rightarrow> 0 | Some j \<Rightarrow> j);
          rest = index_edges consumer (AList.update port (i + 1) index) es in
      if consumer_node_id e = consumer then (port, i) # rest else rest)"

definition output_port_and_index_for_consumer :: "Graph \<Rightarrow> NodeId \<Rightarrow> NodeId \<Rightarrow> (PortId \<times> nat) list res" where
  "output_port_and_index_for_consumer G producer consumer =
     res_bind (user_edges G any_edge producer) (\<lambda>es. Inr (index_edges consumer [] es))"

text \<open>The autograd edges from a forward node, grouped by its output port.\<close>

definition push_by_port :: "PortId \<Rightarrow> Node \<Rightarrow> (PortId \<times> Node list) list \<Rightarrow> (PortId \<times> Node list) list" where
  "push_by_port port x ret =
     AList.update port ((case map_of ret port of None \<Rightarrow> [] | Some ns \<Rightarrow> ns) @ [x]) ret"

definition group_by_port :: "Graph \<Rightarrow> EdgeType \<Rightarrow> NodeId \<Rightarrow> (PortId \<times> Node list) list res" where
  "group_by_port G t n =
     res_bind (user_edges G any_edge n) (\<lambda>es.
       fold_res (\<lambda>e ret.
         if edge_type e = t
         then res_bind (node_by_id G (consumer_node_id e)) (\<lambda>c.
                Inr (push_by_port (producer_output_port_id e) c ret))
         else Inr ret) es [])"

definition get_recompute_nodes :: "Graph \<Rightarrow> NodeId \<Rightarrow> (PortId \<times> Node list) list res" where
  "get_recompute_nodes G n = group_by_port G kAutogradFwdToRecompute n"

definition get_opt_nodes :: "Graph \<Rightarrow> NodeId \<Rightarrow> (PortId \<times> Node list) list res" where
  "get_opt_nodes G n = group_by_port G kAutogradFwdToOptimizer n"

end
