(* ===== verification/Graph_Ops.thy ===== *)
theory Graph_Ops
  imports Graph_Edges
begin

text \<open>
  The operations that change a graph (\<open>graph_lib/graph.cpp\<close>, and \<open>add_node\<close> of \<open>graph.hpp\<close>):
  nodes and edges come and go, nodes are renamed, the ordered module inputs, outputs and targets
  are registered, and a graph is cloned.
\<close>

section \<open>Adding\<close>

text \<open>
  A default id that is already taken frees the node that had it while \<open>nodes_\<close> still points at
  it; nothing can be said of the graph from there on.
\<close>

definition add_node ::
    "Node \<Rightarrow> nat \<Rightarrow> NodeId option \<Rightarrow> IdCounters \<times> Graph \<Rightarrow> (NodeId \<times> IdCounters \<times> Graph) res" where
  "add_node nd subgraph_id default_node_id = (\<lambda>(ids, G).
     let (n, ids') =
           (case default_node_id of
              Some d \<Rightarrow> (d, ids)
            | None \<Rightarrow> (last_node_id_assigned ids + 1,
                       ids\<lparr>last_node_id_assigned := last_node_id_assigned ids + 1\<rparr>)) in
     if has_node_with_name G (n_name nd) then Inl RuntimeError
     else if has_node_with_id G n then Inl UndefinedBehaviour
     else Inr (n, ids',
       enlarge_subgraphs subgraph_id
         (G\<lparr>node_name_to_node_id := AList.update (n_name nd) n (node_name_to_node_id G),
            nodes_map := AList.update n (nd\<lparr>n_id := n\<rparr>) (nodes_map G),
            node_order := node_order G @ [n],
            operands_map := AList.update n [] (operands_map G),
            users_map := AList.update n [] (users_map G),
            node_id_to_subgraph_id := AList.update n subgraph_id (node_id_to_subgraph_id G)\<rparr>)))"

text \<open>\<open>m[n]\<close> of the edge maps: a missing entry is an empty set (and a write makes it exist).\<close>

definition edge_entry :: "(NodeId \<times> Edge list) list \<Rightarrow> NodeId \<Rightarrow> Edge list" where
  "edge_entry m n = (case map_of m n of None \<Rightarrow> [] | Some es \<Rightarrow> es)"

definition map_insert :: "'k \<Rightarrow> 'v \<Rightarrow> ('k \<times> 'v) list \<Rightarrow> ('k \<times> 'v) list" where
  "map_insert k v m = (if map_of m k = None then AList.update k v m else m)"

text \<open>\<open>add_edge(edge, edge_attributes)\<close>; the attributes are a pointer into the store.\<close>

definition add_edge_with :: "Edge \<Rightarrow> nat option \<Rightarrow> Graph \<Rightarrow> Graph" where
  "add_edge_with e attributes G =
     (let G1 = G\<lparr>users_map := AList.update (producer_node_id e)
                    (set_insert e (edge_entry (users_map G) (producer_node_id e))) (users_map G),
                 operands_map := AList.update (consumer_node_id e)
                    (set_insert e (edge_entry (operands_map G) (consumer_node_id e))) (operands_map G)\<rparr> in
      case attributes of
        Some a \<Rightarrow> G1\<lparr>edge_to_attr_map := map_insert (edge_key e) a (edge_to_attr_map G1)\<rparr>
      | None \<Rightarrow>
          G1\<lparr>edge_to_attr_map := map_insert (edge_key e) (length (attr_store G1)) (edge_to_attr_map G1),
             attr_store := attr_store G1 @ [create_attributes (edge_type e)]\<rparr>)"

definition mk_edge ::
    "NodeId \<Rightarrow> PortId \<Rightarrow> NodeId \<Rightarrow> PortId \<Rightarrow> EdgeType \<Rightarrow> IdCounters \<Rightarrow> Edge \<times> IdCounters" where
  "mk_edge p pout c cin t ids =
     (\<lparr>edge_creation_id = last_assigned_edge_creation_id ids, producer_node_id = p,
       producer_output_port_id = pout, consumer_node_id = c, consumer_input_port_id = cin,
       edge_type = t\<rparr>,
      ids\<lparr>last_assigned_edge_creation_id := add64 (last_assigned_edge_creation_id ids) 1\<rparr>)"

definition add_edge_ports ::
    "NodeId \<Rightarrow> NodeId \<Rightarrow> PortId \<Rightarrow> PortId \<Rightarrow> EdgeType \<Rightarrow> IdCounters \<times> Graph \<Rightarrow> IdCounters \<times> Graph" where
  "add_edge_ports producer consumer pout cin t = (\<lambda>(ids, G).
     let (e, ids') = mk_edge producer pout consumer cin t ids in (ids', add_edge_with e None G))"

text \<open>Without ports the consumer gets the port after its largest operand port.\<close>

definition next_input_port :: "Edge list \<Rightarrow> PortId" where
  "next_input_port es = foldl (\<lambda>port e. max port (add32 (consumer_input_port_id e) 1)) 0 es"

definition add_edge ::
    "NodeId \<Rightarrow> NodeId \<Rightarrow> EdgeType \<Rightarrow> IdCounters \<times> Graph \<Rightarrow> (IdCounters \<times> Graph) res" where
  "add_edge producer consumer t = (\<lambda>(ids, G).
     res_bind (at_key (operands_map G) consumer) (\<lambda>es.
       Inr (add_edge_ports producer consumer 0 (next_input_port es) t (ids, G))))"

section \<open>Attributes\<close>

definition get_edge_attributes :: "Graph \<Rightarrow> Edge \<Rightarrow> nat res" where
  "get_edge_attributes G e = at_key (edge_to_attr_map G) (edge_key e)"

definition edge_attributes :: "Graph \<Rightarrow> Edge \<Rightarrow> EdgeAttributes res" where
  "edge_attributes G e = res_bind (get_edge_attributes G e) (vec_idx (attr_store G))"

definition copy_edge_attributes :: "Edge \<Rightarrow> Edge \<Rightarrow> Graph \<Rightarrow> Graph \<Rightarrow> Graph res" where
  "copy_edge_attributes src dest old_graph G =
     res_bind (edge_attributes old_graph src) (\<lambda>a.
     res_bind (get_edge_attributes G dest) (\<lambda>p.
     res_bind (vec_idx (attr_store G) p) (\<lambda>b.
       Inr (G\<lparr>attr_store := (attr_store G)[p := copy_from a b]\<rparr>))))"

definition copy_node_attributes :: "Node \<Rightarrow> Node \<Rightarrow> Node" where
  "copy_node_attributes src dst =
     (let dst' = dst\<lparr>n_epoch := n_epoch src, n_df := n_df src\<rparr> in
      case (n_class src, n_class dst) of
        (BudaOpNodeClass f, BudaOpNodeClass g) \<Rightarrow>
          (if n_type dst = kBudaOp \<and> n_type src = kBudaOp \<and> is_gradient_op f
           then dst'\<lparr>n_class := BudaOpNodeClass (g\<lparr>is_gradient_op := True\<rparr>)\<rparr> else dst')
      | (PyOpNodeClass f, PyOpNodeClass g) \<Rightarrow>
          (if n_type dst = kPyOp \<and> n_type src = kPyOp \<and> is_gradient_op f
           then dst'\<lparr>n_class := PyOpNodeClass (g\<lparr>is_gradient_op := True\<rparr>)\<rparr> else dst')
      | _ \<Rightarrow> dst')"

section \<open>Removing\<close>

definition erase_edges :: "(Edge \<Rightarrow> NodeId) \<Rightarrow> Edge list \<Rightarrow> (NodeId \<times> Edge list) list \<Rightarrow> (NodeId \<times> Edge list) list" where
  "erase_edges side es m =
     fold (\<lambda>e m. AList.update (side e) (set_erase (edge_key e) (edge_entry m (side e))) m) es m"

text \<open>\<open>remove_node\<close> hands the node out with its id reset.\<close>

definition remove_node :: "NodeId \<Rightarrow> Graph \<Rightarrow> (Node \<times> Graph) res" where
  "remove_node n G =
     (let users1 = erase_edges producer_node_id (edge_entry (operands_map G) n) (users_map G);
          operands1 = erase_edges consumer_node_id (edge_entry users1 n) (operands_map G) in
      res_bind (at_key (nodes_map G) n) (\<lambda>nd.
        Inr (nd\<lparr>n_id := -1\<rparr>,
             G\<lparr>node_name_to_node_id := AList.delete (n_name nd) (node_name_to_node_id G),
               operands_map := AList.delete n operands1,
               users_map := AList.delete n users1,
               nodes_map := AList.delete n (nodes_map G),
               node_order := removeAll n (node_order G),
               virtual_nodes := removeAll n (virtual_nodes G)\<rparr>)))"

text \<open>
  \<open>remove_edge\<close> returns the attributes; that the edge was there is only checked in debug builds
  (\<open>TT_DBG_ASSERT\<close>).
\<close>

definition remove_edge :: "Edge \<Rightarrow> Graph \<Rightarrow> (nat \<times> Graph) res" where
  "remove_edge e G =
     res_bind (get_edge_attributes G e) (\<lambda>attr.
       let p = producer_node_id e; c = consumer_node_id e;
           present = edge_key e \<in> edge_key ` set (edge_entry (operands_map G) c) in
       Inr (attr,
         G\<lparr>users_map :=
              (if present then AList.update p (set_erase (edge_key e) (edge_entry (users_map G) p)) (users_map G)
               else users_map G),
           operands_map :=
              AList.update c (set_erase (edge_key e) (edge_entry (operands_map G) c)) (operands_map G)\<rparr>))"

section \<open>Names\<close>

definition set_node :: "NodeId \<Rightarrow> Node \<Rightarrow> Graph \<Rightarrow> Graph" where
  "set_node n nd G = G\<lparr>nodes_map := AList.update n nd (nodes_map G)\<rparr>"

definition update_node_name :: "NodeId \<Rightarrow> string \<Rightarrow> Graph \<Rightarrow> Graph res" where
  "update_node_name n new_name G =
     res_bind (node_by_id G n) (\<lambda>nd.
       let id = (case map_of (node_name_to_node_id G) (n_name nd) of Some i \<Rightarrow> i | None \<Rightarrow> 0) in
       Inr (set_node n (nd\<lparr>n_name := new_name\<rparr>)
         (G\<lparr>node_name_to_node_id :=
              AList.update new_name id (AList.delete (n_name nd) (node_name_to_node_id G))\<rparr>)))"

section \<open>Module inputs, outputs and targets\<close>

definition register_module_inputs :: "NodeId list \<Rightarrow> bool \<Rightarrow> Graph \<Rightarrow> Graph" where
  "register_module_inputs ns keep G =
     G\<lparr>ordered_module_input_node_ids := (if keep then ordered_module_input_node_ids G else []) @ ns\<rparr>"

definition register_module_targets :: "NodeId list \<Rightarrow> Graph \<Rightarrow> Graph" where
  "register_module_targets ns G = G\<lparr>ordered_module_target_node_ids := ns\<rparr>"

definition set_requires_grad :: "NodeId \<Rightarrow> bool \<Rightarrow> Graph \<Rightarrow> Graph res" where
  "set_requires_grad n b G =
     res_bind (node_by_id G n) (\<lambda>nd. res_bind (as_output nd) (\<lambda>f.
       Inr (set_node n (nd\<lparr>n_class := OutputNodeClass (f\<lparr>output_requires_grad := b\<rparr>)\<rparr>) G)))"

definition register_module_outputs :: "NodeId list \<Rightarrow> bool list \<Rightarrow> bool \<Rightarrow> Graph \<Rightarrow> Graph res" where
  "register_module_outputs ns grads keep G =
     res_bind (tt_assert (length ns = length grads)) (\<lambda>_.
       fold_res (\<lambda>(n, b). set_requires_grad n b) (zip ns grads)
         (G\<lparr>ordered_module_output_node_ids :=
              (if keep then ordered_module_output_node_ids G else []) @ ns\<rparr>))"

text \<open>Removing an id from one of the lists returns the index it had.\<close>

definition remove_id :: "NodeId \<Rightarrow> NodeId list \<Rightarrow> (nat \<times> NodeId list) res" where
  "remove_id n ns =
     (if n \<in> set ns then Inr (length (takeWhile (\<lambda>m. m \<noteq> n) ns), remove1 n ns) else Inl RuntimeError)"

definition remove_module_input :: "NodeId \<Rightarrow> Graph \<Rightarrow> (nat \<times> Graph) res" where
  "remove_module_input n G =
     res_bind (remove_id n (ordered_module_input_node_ids G)) (\<lambda>(i, ns).
       Inr (i, G\<lparr>ordered_module_input_node_ids := ns\<rparr>))"

definition remove_module_output :: "NodeId \<Rightarrow> Graph \<Rightarrow> (nat \<times> Graph) res" where
  "remove_module_output n G =
     res_bind (remove_id n (ordered_module_output_node_ids G)) (\<lambda>(i, ns).
       Inr (i, G\<lparr>ordered_module_output_node_ids := ns\<rparr>))"

definition remove_module_target :: "NodeId \<Rightarrow> Graph \<Rightarrow> (nat \<times> Graph) res" where
  "remove_module_target n G =
     res_bind (remove_id n (ordered_module_target_node_ids G)) (\<lambda>(i, ns).
       Inr (i, G\<lparr>ordered_module_target_node_ids := ns\<rparr>))"

definition add_module_input :: "NodeId \<Rightarrow> Graph \<Rightarrow> Graph" where
  "add_module_input n G = G\<lparr>ordered_module_input_node_ids := ordered_module_input_node_ids G @ [n]\<rparr>"

definition add_module_output :: "NodeId \<Rightarrow> Graph \<Rightarrow> Graph" where
  "add_module_output n G = G\<lparr>ordered_module_output_node_ids := ordered_module_output_node_ids G @ [n]\<rparr>"

definition add_module_target :: "NodeId \<Rightarrow> Graph \<Rightarrow> Graph" where
  "add_module_target n G = G\<lparr>ordered_module_target_node_ids := ordered_module_target_node_ids G @ [n]\<rparr>"

text \<open>
  \<open>copy_module_inputs\<close>, \<open>copy_module_outputs\<close>, \<open>copy_module_targets\<close>: an id without an image is
  fatal.
\<close>

definition copied_ids :: "Graph \<Rightarrow> (NodeId \<times> NodeId) list \<Rightarrow> NodeId list \<Rightarrow> NodeId list res" where
  "copied_ids old_graph old_to_new ns =
     map_res (\<lambda>n. res_bind (node_by_id old_graph n) (\<lambda>_.
       case map_of old_to_new n of Some m \<Rightarrow> Inr m | None \<Rightarrow> Inl RuntimeError)) ns"

definition copy_module_inputs :: "Graph \<Rightarrow> (NodeId \<times> NodeId) list \<Rightarrow> Graph \<Rightarrow> Graph res" where
  "copy_module_inputs old_graph old_to_new G =
     res_bind (copied_ids old_graph old_to_new (ordered_module_input_node_ids old_graph)) (\<lambda>ns.
       Inr (G\<lparr>ordered_module_input_node_ids := ns\<rparr>))"

definition copy_module_outputs :: "Graph \<Rightarrow> (NodeId \<times> NodeId) list \<Rightarrow> Graph \<Rightarrow> Graph res" where
  "copy_module_outputs old_graph old_to_new G =
     res_bind (copied_ids old_graph old_to_new (ordered_module_output_node_ids old_graph)) (\<lambda>ns.
       Inr (G\<lparr>ordered_module_output_node_ids := ns\<rparr>))"

definition copy_module_targets :: "Graph \<Rightarrow> (NodeId \<times> NodeId) list \<Rightarrow> Graph \<Rightarrow> Graph res" where
  "copy_module_targets old_graph old_to_new G =
     res_bind (copied_ids old_graph old_to_new (ordered_module_target_node_ids old_graph)) (\<lambda>ns.
       Inr (G\<lparr>ordered_module_target_node_ids := ns\<rparr>))"

section \<open>Cloning\<close>

definition clone_nodes :: "Graph \<Rightarrow> IdCounters \<times> Graph \<Rightarrow> (IdCounters \<times> Graph) res" where
  "clone_nodes G =
     fold_res (\<lambda>(n, nd) s.
       res_bind (clone_node nd '''') (\<lambda>copy.
       res_bind (get_subgraph_id_for_node G n) (\<lambda>i.
       res_bind (add_node copy i (Some n) s) (\<lambda>(_, s'). Inr s')))) (nodes_map G)"

definition clone_edge :: "Graph \<Rightarrow> Edge \<Rightarrow> IdCounters \<times> Graph \<Rightarrow> (IdCounters \<times> Graph) res" where
  "clone_edge G e = (\<lambda>(ids, C).
     res_bind (at_key (nodes_map G) (producer_node_id e)) (\<lambda>_.
     res_bind (at_key (nodes_map G) (consumer_node_id e)) (\<lambda>_.
       let (e', ids') = mk_edge (producer_node_id e) (producer_output_port_id e) (consumer_node_id e)
                          (consumer_input_port_id e) (edge_type e) ids in
       res_bind (copy_edge_attributes e e' G (add_edge_with e' None C)) (\<lambda>C'. Inr (ids', C')))))"

definition clone_edges :: "Graph \<Rightarrow> IdCounters \<times> Graph \<Rightarrow> (IdCounters \<times> Graph) res" where
  "clone_edges G = fold_res (clone_edge G) (concat (map snd (operands_map G)))"

definition cloned_ids :: "Graph \<Rightarrow> NodeId list \<Rightarrow> NodeId list res" where
  "cloned_ids G ns = map_res (\<lambda>n. res_bind (at_key (nodes_map G) n) (\<lambda>_. Inr n)) ns"

text \<open>
  \<open>clone(cloned_graph)\<close>: nodes keep their ids, edges get new creation ids. The argument is the
  graph that is filled: the caller's, or a new one (\<^const>\<open>mk_graph\<close>) if it passes none.
\<close>

definition clone_graph :: "Graph \<Rightarrow> IdCounters \<times> Graph \<Rightarrow> (IdCounters \<times> Graph) res" where
  "clone_graph G s =
     res_bind (clone_nodes G s) (\<lambda>s1.
     res_bind (clone_edges G s1) (\<lambda>(ids, C).
     res_bind (cloned_ids G (ordered_module_input_node_ids G)) (\<lambda>ins.
     res_bind (cloned_ids G (ordered_module_output_node_ids G)) (\<lambda>outs.
     res_bind (cloned_ids G (ordered_module_target_node_ids G)) (\<lambda>targets.
       Inr (ids,
         C\<lparr>ordered_module_input_node_ids := ordered_module_input_node_ids C @ ins,
           ordered_module_output_node_ids := ordered_module_output_node_ids C @ outs,
           ordered_module_target_node_ids := ordered_module_target_node_ids C @ targets,
           microbatch := microbatch G\<rparr>))))))"

end
