(* ===== verification/Graph_Queries.thy ===== *)
theory Graph_Queries
  imports Graph_Ops
begin

text \<open>
  What the compiler reads off a graph (\<open>graph_lib/graph.cpp\<close>): the module's inputs, outputs and
  targets in their order with their names, shapes, tiles and subgraphs, the constants, parameters
  and saved intermediates, and the nodes that autograd made for a forward node.
\<close>

definition ordered_nodes :: "Graph \<Rightarrow> NodeId list \<Rightarrow> Node list res" where
  "ordered_nodes G ns = map_res (node_by_id G) ns"

definition ordered_module_inputs :: "Graph \<Rightarrow> Node list res" where
  "ordered_module_inputs G = ordered_nodes G (ordered_module_input_node_ids G)"

definition ordered_module_outputs :: "Graph \<Rightarrow> Node list res" where
  "ordered_module_outputs G = ordered_nodes G (ordered_module_output_node_ids G)"

section \<open>Names\<close>

definition ordered_names :: "Graph \<Rightarrow> NodeId list \<Rightarrow> string list res" where
  "ordered_names G ns = map_res (\<lambda>n. res_bind (node_by_id G n) (\<lambda>x. Inr (n_name x))) ns"

definition get_ordered_input_names :: "Graph \<Rightarrow> string list res" where
  "get_ordered_input_names G = ordered_names G (ordered_module_input_node_ids G)"

definition get_ordered_target_names :: "Graph \<Rightarrow> string list res" where
  "get_ordered_target_names G = ordered_names G (ordered_module_target_node_ids G)"

definition get_ordered_output_names :: "Graph \<Rightarrow> string list res" where
  "get_ordered_output_names G = ordered_names G (ordered_module_output_node_ids G)"

definition is_intermediate :: "Node \<Rightarrow> bool res" where
  "is_intermediate x =
     (if n_type x = kOutput then res_bind (as_output x) (\<lambda>f. Inr (is_saved_intermediate f)) else Inr False)"

definition get_ordered_intermediate_names :: "Graph \<Rightarrow> string list res" where
  "get_ordered_intermediate_names G =
     fold_res (\<lambda>n acc.
       res_bind (node_by_id G n) (\<lambda>x.
       res_bind (is_intermediate x) (\<lambda>b. Inr (if b then acc @ [n_name x] else acc)))) (node_order G) []"

definition get_ordered_input_gradient_names :: "Graph \<Rightarrow> string list res" where
  "get_ordered_input_gradient_names G =
     fold_res (\<lambda>n acc.
       res_bind (node_by_id G n) (\<lambda>x.
       res_bind (as_input x) (\<lambda>f.
         if \<not> input_requires_grad f then Inr acc
         else
           res_bind (user_edges G (\<lambda>e. edge_type e = kAutogradInputToGradientOut) n) (\<lambda>gradients.
             case gradients of
               [] \<Rightarrow> Inr acc
             | e # _ \<Rightarrow>
                 res_bind (tt_assert (length gradients = 1)) (\<lambda>_.
                 res_bind (node_by_id G (consumer_node_id e)) (\<lambda>y. Inr (acc @ [n_name y])))))))
       (ordered_module_input_node_ids G) []"

definition get_ordered_output_gradient_names :: "Graph \<Rightarrow> string list res" where
  "get_ordered_output_gradient_names G =
     fold_res (\<lambda>n acc.
       res_bind (node_by_id G n) (\<lambda>_.
       res_bind (user_edges G (\<lambda>e. edge_type e = kAutogradOutputToLoss) n) (\<lambda>losses.
       res_bind (tt_assert (length losses \<le> 1)) (\<lambda>_.
         case losses of
           [] \<Rightarrow> Inr acc
         | e # _ \<Rightarrow> res_bind (node_by_id G (consumer_node_id e)) (\<lambda>y. Inr (acc @ [n_name y]))))))
       (ordered_module_output_node_ids G) []"

section \<open>Gradients, shapes, subgraphs and tiles\<close>

definition get_ordered_input_requires_grad :: "Graph \<Rightarrow> bool list res" where
  "get_ordered_input_requires_grad G =
     map_res (\<lambda>n. res_bind (node_by_id G n) (\<lambda>x. res_bind (as_input x) (\<lambda>f. Inr (input_requires_grad f))))
       (ordered_module_input_node_ids G)"

definition get_ordered_output_requires_grad :: "Graph \<Rightarrow> bool list res" where
  "get_ordered_output_requires_grad G =
     map_res (\<lambda>n. res_bind (node_by_id G n) (\<lambda>x. res_bind (as_output x) (\<lambda>f. Inr (output_requires_grad f))))
       (ordered_module_output_node_ids G)"

definition ordered_shapes :: "Graph \<Rightarrow> NodeId list \<Rightarrow> nat list list res" where
  "ordered_shapes G ns =
     map_res (\<lambda>n. res_bind (node_by_id G n) (\<lambda>x. Inr (shape_dims (n_shape x)))) ns"

definition get_ordered_input_shapes :: "Graph \<Rightarrow> nat list list res" where
  "get_ordered_input_shapes G = ordered_shapes G (ordered_module_input_node_ids G)"

definition get_ordered_output_shapes :: "Graph \<Rightarrow> nat list list res" where
  "get_ordered_output_shapes G = ordered_shapes G (ordered_module_output_node_ids G)"

definition get_ordered_target_shapes :: "Graph \<Rightarrow> nat list list res" where
  "get_ordered_target_shapes G = ordered_shapes G (ordered_module_target_node_ids G)"

definition get_ordered_intermediate_shapes :: "Graph \<Rightarrow> nat list list res" where
  "get_ordered_intermediate_shapes G =
     res_bind (get_ordered_intermediate_names G) (\<lambda>names.
       map_res (\<lambda>name. res_bind (node_by_name G name) (\<lambda>x. Inr (shape_dims (n_shape x)))) names)"

definition subgraph_indices :: "Graph \<Rightarrow> NodeId list \<Rightarrow> nat list res" where
  "subgraph_indices G ns = map_res (get_subgraph_id_for_node G) ns"

definition get_ordered_input_subgraph_indices :: "Graph \<Rightarrow> nat list res" where
  "get_ordered_input_subgraph_indices G = subgraph_indices G (ordered_module_input_node_ids G)"

definition get_ordered_output_subgraph_indices :: "Graph \<Rightarrow> nat list res" where
  "get_ordered_output_subgraph_indices G = subgraph_indices G (ordered_module_output_node_ids G)"

definition get_ordered_target_subgraph_indices :: "Graph \<Rightarrow> nat list res" where
  "get_ordered_target_subgraph_indices G = subgraph_indices G (ordered_module_target_node_ids G)"

definition ordered_module_outputs_by_subgraph_index :: "Graph \<Rightarrow> nat \<Rightarrow> Node list res" where
  "ordered_module_outputs_by_subgraph_index G i =
     fold_res (\<lambda>n acc.
       res_bind (get_subgraph_id_for_node G n) (\<lambda>j.
         if j = i then res_bind (node_by_id G n) (\<lambda>x. Inr (acc @ [x])) else Inr acc))
       (ordered_module_output_node_ids G) []"

definition node_tile_dims :: "Node \<Rightarrow> (nat \<times> nat) res" where
  "node_tile_dims x =
     res_bind (get_tile_height (n_shape x)) (\<lambda>h. res_bind (get_tile_width (n_shape x)) (\<lambda>w. Inr (h, w)))"

definition get_ordered_input_tile_dims :: "Graph \<Rightarrow> (nat \<times> nat) list res" where
  "get_ordered_input_tile_dims G =
     map_res (\<lambda>n. res_bind (node_by_id G n) node_tile_dims) (ordered_module_input_node_ids G)"

section \<open>Constants and parameters\<close>

definition inputs_of_type :: "Graph \<Rightarrow> InputNodeType \<Rightarrow> Node list res" where
  "inputs_of_type G t =
     fold_res (\<lambda>n acc.
       res_bind (node_by_id G n) (\<lambda>x.
         if n_type x = kInput
         then res_bind (as_input x) (\<lambda>f. Inr (if input_type f = t then acc @ [x] else acc))
         else Inr acc)) (node_order G) []"

definition get_parameter_nodes :: "Graph \<Rightarrow> Node list res" where
  "get_parameter_nodes G = inputs_of_type G Parameter"

text \<open>\<open>get_constant_nodes\<close> without recursion into the graphs of constant inputs.\<close>

definition get_constant_nodes :: "Graph \<Rightarrow> Node list res" where
  "get_constant_nodes G = inputs_of_type G Constant"

definition get_constant_names :: "Graph \<Rightarrow> string list res" where
  "get_constant_names G = res_bind (get_constant_nodes G) (\<lambda>ns. Inr (map n_name ns))"

definition get_ordered_parameter_tile_dims :: "Graph \<Rightarrow> (nat \<times> nat) list res" where
  "get_ordered_parameter_tile_dims G = res_bind (get_parameter_nodes G) (map_res node_tile_dims)"

definition get_ordered_constant_tile_dims :: "Graph \<Rightarrow> (nat \<times> nat) list res" where
  "get_ordered_constant_tile_dims G = res_bind (get_constant_nodes G) (map_res node_tile_dims)"

definition get_tile_broadcast_dims_at :: "Graph \<Rightarrow> NodeId list \<Rightarrow> nat \<Rightarrow> int list res" where
  "get_tile_broadcast_dims_at G ns i =
     res_bind (tt_assert (i < length ns)) (\<lambda>_.
     res_bind (vec_idx ns i) (\<lambda>n. res_bind (node_by_id G n) (\<lambda>x. res_bind (as_input x) (\<lambda>f.
       Inr (tile_broadcast_dims f)))))"

definition get_tile_broadcast_dims_for_input :: "Graph \<Rightarrow> nat \<Rightarrow> int list res" where
  "get_tile_broadcast_dims_for_input G = get_tile_broadcast_dims_at G (ordered_module_input_node_ids G)"

definition get_tile_broadcast_dims_for_target :: "Graph \<Rightarrow> nat \<Rightarrow> int list res" where
  "get_tile_broadcast_dims_for_target G = get_tile_broadcast_dims_at G (ordered_module_target_node_ids G)"

definition get_tile_broadcast_dims_for_bw_input :: "Graph \<Rightarrow> nat \<Rightarrow> int list res" where
  "get_tile_broadcast_dims_for_bw_input G i =
     res_bind (get_ordered_output_gradient_names G) (\<lambda>names.
     res_bind (tt_assert (i < length names)) (\<lambda>_.
     res_bind (vec_idx names i) (\<lambda>name. res_bind (node_by_name G name) (\<lambda>x.
     res_bind (as_input x) (\<lambda>f. Inr (tile_broadcast_dims f))))))"

section \<open>Autograd\<close>

text \<open>The gradient of a forward node is the op behind the queue that stores it, if there is one.\<close>

definition get_gradient_nodes :: "Graph \<Rightarrow> NodeId \<Rightarrow> (PortId \<times> Node list) list res" where
  "get_gradient_nodes G n =
     res_bind (user_edges G any_edge n) (\<lambda>es.
       fold_res (\<lambda>e ret.
         if edge_type e = kAutogradFwdToGradient
         then res_bind (node_by_id G (consumer_node_id e)) (\<lambda>g.
              res_bind (if n_type g = kQueue
                        then res_bind (data_operands G (n_id g)) (\<lambda>ops. vec_at ops 0)
                        else Inr g) (\<lambda>op.
                Inr (push_by_port (producer_output_port_id e) op ret)))
         else Inr ret) es [])"

definition is_gradient_node :: "Node \<Rightarrow> bool" where
  "is_gradient_node x = (case n_class x of PyOpNodeClass f \<Rightarrow> is_gradient_op f
                                         | BudaOpNodeClass f \<Rightarrow> is_gradient_op f | _ \<Rightarrow> False)"

text \<open>
  A backward node that accumulates a gradient is left out. The loop over its operands assigns
  \<open>skip\<close>, so the last gradient edge from another node decides.
\<close>

definition skip_bwd :: "Graph \<Rightarrow> NodeId \<Rightarrow> Node \<Rightarrow> bool res" where
  "skip_bwd G n bwd =
     res_bind (operand_edges G any_edge (n_id bwd)) (\<lambda>ops.
       fold_res (\<lambda>e skip.
         if edge_type e = kAutogradFwdToGradient
         then res_bind (node_by_id G (producer_node_id e)) (\<lambda>p.
                Inr (if producer_node_id e \<noteq> n then n_type p \<noteq> kInput else skip))
         else Inr skip) ops (is_gradient_node bwd))"

definition get_bwd_nodes :: "Graph \<Rightarrow> NodeId \<Rightarrow> (PortId \<times> Node list) list res" where
  "get_bwd_nodes G n =
     res_bind (user_edges G any_edge n) (\<lambda>es.
       fold_res (\<lambda>e ret.
         if edge_type e = kAutogradFwdToBwd
         then res_bind (node_by_id G (consumer_node_id e)) (\<lambda>bwd.
              res_bind (skip_bwd G n bwd) (\<lambda>skip.
                Inr (if skip then ret else push_by_port (producer_output_port_id e) bwd ret)))
         else Inr ret) es [])"

end
