(* ===== verification/Graph_Shape_Facts.thy ===== *)
theory Graph_Shape_Facts
  imports Graph_Shape
begin

text \<open>
  Shapes are well typed: a \<open>BUDA\<close> shape has four or five dimensions of which the last two count
  whole tiles of its tile size. The factory functions build only such shapes, except that
  \<open>create_buda\<close> with a tile height and a tile width that both differ from 32 leaves the columns
  unchecked; the accessors return on all of them. Comparison is equality up to leading ones, and
  pickling keeps exactly the shapes of 32x32 tiles.
\<close>

definition typed_shape :: "Shape \<Rightarrow> bool" where
  "typed_shape s \<longleftrightarrow>
     shape_valid s \<and>
     (\<exists>h w. get_row_size_from_tile_size (tile_dim s) = Inr h \<and>
            get_col_size_from_tile_size (tile_dim s) = Inr w \<and>
            (shape_type s = BUDA \<longrightarrow>
               4 \<le> length (shape_dims s) \<and> length (shape_dims s) \<le> 5 \<and>
               shape_dims s ! (length (shape_dims s) - 2) mod h = 0 \<and>
               shape_dims s ! (length (shape_dims s) - 1) mod w = 0))"

text \<open>
  What \<open>create_buda\<close> guarantees for any tile size: the tile that is stored has the height that was
  asked for, so the rows count whole tiles, but unless the height is 32 its width is 32 whatever
  width the columns were checked against.
\<close>

definition rows_typed :: "Shape \<Rightarrow> bool" where
  "rows_typed s \<longleftrightarrow>
     shape_valid s \<and>
     (\<exists>h w. get_row_size_from_tile_size (tile_dim s) = Inr h \<and>
            get_col_size_from_tile_size (tile_dim s) = Inr w \<and>
            (shape_type s = BUDA \<longrightarrow>
               4 \<le> length (shape_dims s) \<and> length (shape_dims s) \<le> 5 \<and>
               shape_dims s ! (length (shape_dims s) - 2) mod h = 0 \<and>
               (h = 32 \<longrightarrow> shape_dims s ! (length (shape_dims s) - 1) mod w = 0)))"

text \<open>
  The shapes that the factories of the class make, and those that a tile size is set on before the
  conversion to \<open>BUDA\<close>. \<open>sizes\<close> says which tile heights and widths \<open>create_buda\<close> is called with.
\<close>

inductive factory_shape :: "(int \<Rightarrow> int \<Rightarrow> bool) \<Rightarrow> Shape \<Rightarrow> bool" for sizes where
  by_create: "factory_shape sizes (create_shape dims)"
| by_create_buda: "sizes tile_height tile_width \<Longrightarrow> create_buda dims tile_height tile_width = Inr s \<Longrightarrow>
                   factory_shape sizes s"
| by_wzrc: "create_buda_wzrc w z r c = Inr s \<Longrightarrow> factory_shape sizes s"
| by_other: "factory_shape sizes other \<Longrightarrow> create_with_type_from_other other dims = Inr s \<Longrightarrow>
             factory_shape sizes s"
| by_to_buda: "factory_shape sizes other \<Longrightarrow> to_buda other = Inr s \<Longrightarrow> factory_shape sizes s"
| by_rank: "factory_shape sizes other \<Longrightarrow> as_rank other rank = Inr s \<Longrightarrow> factory_shape sizes s"
| by_canonical: "factory_shape sizes other \<Longrightarrow> factory_shape sizes (canonical other)"
| by_pickle: "create_from_pickled data = Inr s \<Longrightarrow> shape_valid s \<Longrightarrow> factory_shape sizes s"
| by_tile: "factory_shape sizes s \<Longrightarrow> shape_type s = FREE \<Longrightarrow> td \<noteq> Invalid_tile_dim \<Longrightarrow>
            factory_shape sizes (s\<lparr>tile_dim := td\<rparr>)"

section \<open>Tiles\<close>

lemma tile_sizes:
  "td \<noteq> Invalid_tile_dim \<Longrightarrow>
   \<exists>h w. get_row_size_from_tile_size td = Inr h \<and> get_col_size_from_tile_size td = Inr w"
  by (cases td) auto

lemma power_of_two_divides:
  assumes "h = 2 ^ k" and "k \<le> (32::nat)"
  shows "0 < (h::nat) \<and> h dvd 2 ^ 32"
  unfolding assms(1) using le_imp_power_dvd [OF assms(2), of "2::nat"] by simp

lemma row_size_divides:
  assumes "get_row_size_from_tile_size td = Inr h"
  shows "0 < h \<and> h dvd 2 ^ 32"
proof -
  from assms have "h = 2 ^ 5 \<or> h = 2 ^ 4 \<or> h = 2 ^ 3 \<or> h = 2 ^ 2 \<or> h = 2 ^ 1 \<or> h = 2 ^ 0"
    by (cases td) auto
  then show ?thesis by (elim disjE) (erule power_of_two_divides, simp)+
qed

lemma col_size_divides:
  assumes "get_col_size_from_tile_size td = Inr w"
  shows "0 < w \<and> w dvd 2 ^ 32"
proof -
  from assms have "w = 2 ^ 5 \<or> w = 2 ^ 4" by (cases td) auto
  then show ?thesis by (elim disjE) (erule power_of_two_divides, simp)+
qed

lemma snapped_divides:
  assumes "tile dvd 2 ^ 32" and "0 < tile"
  shows "snap_to_tile tile d mod tile = 0"
proof -
  have "d + (tile - d mod tile) = d div tile * tile + tile"
    using assms(2) mod_less_divisor [of tile d] div_mult_mod_eq [of d tile] by linarith
  then have "(d + (tile - d mod tile)) mod tile = 0" by simp
  then have "(d + (tile - d mod tile)) mod 2 ^ 32 mod tile = 0"
    using mod_mod_cancel [OF assms(1)] by simp
  then show ?thesis by (simp add: snap_to_tile_def add32_def)
qed

lemma dim_mod_0:
  assumes "dim_mod v d = Inr 0" and "0 < d" and "d \<le> 32"
  shows "v mod nat d = 0"
proof -
  have "nat (d mod 2 ^ 32) = nat d" using assms(2,3) by simp
  with assms(1) show ?thesis by (simp add: dim_mod_def Let_def split: if_splits)
qed

lemma tile_dim_sizes:
  assumes "get_tile_dim_from_height_width h w = Inr td" and "h = 32 \<or> w = 32"
  shows "get_row_size_from_tile_size td = Inr (nat h) \<and> get_col_size_from_tile_size td = Inr (nat w) \<and>
         0 < h \<and> h \<le> 32 \<and> 0 < w \<and> w \<le> 32"
  using assms by (auto simp: get_tile_dim_from_height_width_def split: if_splits)

lemma tile_dim_rows:
  assumes "get_tile_dim_from_height_width h w = Inr td"
  shows "get_row_size_from_tile_size td = Inr (nat h) \<and> 0 < h \<and> h \<le> 32 \<and>
         (h = 32 \<longrightarrow> get_col_size_from_tile_size td = Inr (nat w) \<and> 0 < w \<and> w \<le> 32) \<and>
         (\<exists>c. get_col_size_from_tile_size td = Inr c)"
  using assms by (auto simp: get_tile_dim_from_height_width_def split: if_splits)

section \<open>The factories build typed shapes\<close>

lemma typed_rows: "typed_shape s \<Longrightarrow> rows_typed s"
  by (auto simp: typed_shape_def rows_typed_def)

lemma free_typed: "rows_typed s \<Longrightarrow> shape_type s = FREE \<Longrightarrow> typed_shape s"
  by (auto simp: typed_shape_def rows_typed_def)

lemma create_typed [simp]: "typed_shape (create_shape dims)"
  by (simp add: typed_shape_def create_shape_def default_shape_def)

lemma create_buda_typed:
  assumes "create_buda dims h w = Inr s" and "h = 32 \<or> w = 32"
  shows "typed_shape s"
proof -
  from assms(1) obtain td where td: "get_tile_dim_from_height_width h w = Inr td"
    and len: "4 \<le> length dims" "length dims \<le> 5"
    and s: "s = \<lparr>shape_valid = True, shape_type = BUDA, shape_dims = dims, tile_dim = td\<rparr>"
    and c: "dim_mod (dims ! (length dims - 1)) w = Inr 0"
    and r: "dim_mod (dims ! (length dims - 2)) h = Inr 0"
    by (auto simp: create_buda_def BUDA_DIM_COUNT_def BUDA_MAX_DIM_COUNT_def res_simps)
  note sizes = tile_dim_sizes [OF td assms(2)]
  then have "dims ! (length dims - 2) mod nat h = 0" "dims ! (length dims - 1) mod nat w = 0"
    using dim_mod_0 [OF c] dim_mod_0 [OF r] by simp_all
  with sizes len show ?thesis by (simp add: typed_shape_def s)
qed

lemma create_buda_rows:
  assumes "create_buda dims h w = Inr s"
  shows "rows_typed s"
proof -
  from assms(1) obtain td where td: "get_tile_dim_from_height_width h w = Inr td"
    and len: "4 \<le> length dims" "length dims \<le> 5"
    and s: "s = \<lparr>shape_valid = True, shape_type = BUDA, shape_dims = dims, tile_dim = td\<rparr>"
    and c: "dim_mod (dims ! (length dims - 1)) w = Inr 0"
    and r: "dim_mod (dims ! (length dims - 2)) h = Inr 0"
    by (auto simp: create_buda_def BUDA_DIM_COUNT_def BUDA_MAX_DIM_COUNT_def res_simps)
  note sizes = tile_dim_rows [OF td]
  then have "dims ! (length dims - 2) mod nat h = 0" "h = 32 \<longrightarrow> dims ! (length dims - 1) mod nat w = 0"
    using dim_mod_0 [OF c] dim_mod_0 [OF r] by simp_all
  with sizes len show ?thesis by (auto simp: rows_typed_def s)
qed

lemma wzrc_typed: "create_buda_wzrc w z r c = Inr s \<Longrightarrow> typed_shape s"
  by (auto simp: create_buda_wzrc_def typed_shape_def default_shape_def BUDA_TILE_DIM_def res_simps
      numeral_2_eq_2)

lemma length_squeezed:
  "squeeze_leading n ds = Inr ds' \<Longrightarrow> length ds' \<le> n \<or> ds' = []"
  by (induction n ds rule: squeeze_leading.induct) (auto simp: res_simps split: if_splits)

lemma length_unsqueezed [simp]: "length (unsqueeze_leading n ds) = max n (length ds)"
  by (simp add: unsqueeze_leading_def)

lemma to_buda_typed:
  assumes "to_buda s = Inr t" and "typed_shape s"
  shows "typed_shape t \<and> shape_type t = BUDA"
proof (cases "shape_type s = BUDA")
  case True
  with assms show ?thesis by (simp add: to_buda_def)
next
  case False
  with assms(1) obtain sq h w where sq: "squeeze_leading 5 (shape_dims s) = Inr sq"
    and h: "get_row_size_from_tile_size (tile_dim s) = Inr h"
    and w: "get_col_size_from_tile_size (tile_dim s) = Inr w"
    and t: "t = (let dims = unsqueeze_leading 4 sq; r = length dims - 2 in
        \<lparr>shape_valid = True, shape_type = BUDA,
         shape_dims = dims[r := snap_to_tile h (dims ! r), r + 1 := snap_to_tile w (dims ! (r + 1))],
         tile_dim = tile_dim s\<rparr>)"
    by (auto simp: to_buda_def BUDA_MAX_DIM_COUNT_def BUDA_DIM_COUNT_def Let_def res_simps)
  define dims where "dims = unsqueeze_leading 4 sq"
  have len: "4 \<le> length dims" "length dims \<le> 5" using length_squeezed [OF sq] by (auto simp: dims_def)
  have r: "length dims - 2 < length dims" "length dims - 2 + 1 = length dims - 1"
    "length dims - 1 < length dims" "length dims - 2 \<noteq> length dims - 1"
    using len by auto
  note sizes = row_size_divides [OF h] col_size_divides [OF w]
  have "shape_dims t ! (length dims - 1) mod w = 0" "shape_dims t ! (length dims - 2) mod h = 0"
    using snapped_divides [of h] snapped_divides [of w] sizes r
    by (simp_all add: t dims_def [symmetric] Let_def)
  with len h w show ?thesis by (simp add: t dims_def [symmetric] Let_def typed_shape_def)
qed

lemma other_typed:
  "create_with_type_from_other s dims = Inr t \<Longrightarrow> length dims \<le> 5 \<or> shape_type s = FREE \<Longrightarrow>
   typed_shape t"
  by (auto simp: create_with_type_from_other_def typed_shape_def default_shape_def Let_def size_max_def
      res_simps split: if_splits)

lemma rank_typed: "as_rank s rank = Inr t \<Longrightarrow> typed_shape t"
  by (auto simp: as_rank_def res_simps)

lemma pickle_typed: "create_from_pickled data = Inr s \<Longrightarrow> shape_valid s \<Longrightarrow> typed_shape s"
  by (auto simp: create_from_pickled_def default_shape_def BUDA_TILE_DIM_def split: prod.splits if_splits
      intro: create_buda_typed)

lemma to_buda_cases: "to_buda s = Inr t \<Longrightarrow> t = s \<or> shape_type s = FREE"
  by (cases "shape_type s") (simp_all add: to_buda_def)

lemma by_other_typed: "create_with_type_from_other other dims = Inr s \<Longrightarrow> typed_shape s"
  by (cases "shape_type other")
    (auto simp: create_with_type_from_other_def default_shape_def typed_shape_def Let_def BUDA_DIM_COUNT_def
      BUDA_MAX_DIM_COUNT_def size_max_def res_simps)

lemma factory_rows:
  assumes "factory_shape sizes s"
  shows "rows_typed s"
  using assms
proof (induction rule: factory_shape.induct)
  case (by_to_buda other s)
  then show ?case
    using to_buda_cases [of other s] to_buda_typed [of other s] free_typed [of other] typed_rows by auto
next
  case (by_tile s td)
  then show ?case using tile_sizes [of td] by (auto simp: rows_typed_def)
qed (auto simp: canonical_def intro: create_buda_rows typed_rows wzrc_typed rank_typed pickle_typed by_other_typed)

lemma factory_typed:
  assumes "factory_shape sizes s" and "\<forall>h w. sizes h w \<longrightarrow> h = 32 \<or> w = 32"
  shows "typed_shape s"
  using assms
proof (induction rule: factory_shape.induct)
  case (by_tile s td)
  then show ?case using tile_sizes [of td] by (auto simp: typed_shape_def)
qed (auto simp: canonical_def intro: create_buda_typed wzrc_typed to_buda_typed [THEN conjunct1]
      rank_typed pickle_typed by_other_typed)

lemma typed_accessors:
  assumes "rows_typed s" and "shape_type s = BUDA"
  shows "\<exists>rt ct z w. shape_rt s = Inr rt \<and> shape_ct s = Inr ct \<and> shape_z s = Inr z \<and> shape_w s = Inr w"
  using assms
  by (auto simp: rows_typed_def shape_rt_def shape_ct_def shape_z_def shape_w_def dim_from_end_def)

section \<open>Comparison\<close>

definition significant :: "Shape \<Rightarrow> nat list" where
  "significant s = dropWhile (\<lambda>d. d = 1) (shape_dims s)"

text \<open>The same comparison over the reversed dimensions, by recursion.\<close>

fun agree :: "nat list \<Rightarrow> nat list \<Rightarrow> bool" where
  "agree [] ys = (\<forall>y \<in> set ys. y = 1)"
| "agree xs [] = (\<forall>x \<in> set xs. x = 1)"
| "agree (x # xs) (y # ys) = (x = y \<and> agree xs ys)"

lemma dropWhile_snoc:
  "dropWhile P (xs @ [x]) =
     (if dropWhile P xs = [] then (if P x then [] else [x]) else dropWhile P xs @ [x])"
  by (simp add: dropWhile_append)

lemma agree_rev: "agree xs ys \<longleftrightarrow> dropWhile (\<lambda>d. d = 1) (rev xs) = dropWhile (\<lambda>d. d = 1) (rev ys)"
proof (induction xs ys rule: agree.induct)
  case (1 ys)
  have "dropWhile (\<lambda>d. d = 1) (rev ys) = [] \<longleftrightarrow> (\<forall>y \<in> set ys. y = 1)"
    unfolding dropWhile_eq_Nil_conv by simp
  then show ?case unfolding agree.simps rev.simps dropWhile.simps by metis
next
  case (2 x xs)
  have "dropWhile (\<lambda>d. d = 1) (rev (x # xs)) = [] \<longleftrightarrow> (\<forall>y \<in> set (x # xs). y = 1)"
    unfolding dropWhile_eq_Nil_conv by (simp only: set_rev)
  then show ?case by simp
next
  case (3 x xs y ys)
  define A B where "A = dropWhile (\<lambda>d. d = 1) (rev xs)" and "B = dropWhile (\<lambda>d. d = 1) (rev ys)"
  have "(x = y \<and> A = B) \<longleftrightarrow>
        (if A = [] then (if x = 1 then [] else [x]) else A @ [x]) =
        (if B = [] then (if y = 1 then [] else [y]) else B @ [y])"
    by (cases A; cases B) auto
  then show ?case unfolding agree.simps rev.simps dropWhile_snoc 3 A_def B_def .
qed

lemma agree_nth:
  "agree xs ys \<longleftrightarrow>
     (\<forall>i < max (length xs) (length ys).
        if length xs \<le> i then ys ! i = 1 else if length ys \<le> i then xs ! i = 1 else xs ! i = ys ! i)"
proof (induction xs ys rule: agree.induct)
  case (1 ys)
  then show ?case by (simp add: all_set_conv_all_nth)
next
  case (2 x xs)
  then show ?case by (simp add: all_set_conv_all_nth del: list.set)
next
  case (3 x xs y ys)
  then show ?case by (simp add: All_less_Suc2)
qed

lemma dims_agree_rev:
  "dims_agree_at a b (Suc i) \<longleftrightarrow>
     (if length a \<le> i then rev b ! i = 1 else if length b \<le> i then rev a ! i = 1
      else rev a ! i = rev b ! i)" if "i < max (length a) (length b)"
  using that by (auto simp: dims_agree_at_def rev_nth)

lemma shape_eq_significant: "shape_eq s t \<longleftrightarrow> significant s = significant t"
proof -
  let ?a = "shape_dims s" and ?b = "shape_dims t"
  have "shape_eq s t \<longleftrightarrow> (\<forall>i < max (length ?a) (length ?b). dims_agree_at ?a ?b (Suc i))"
  proof -
    have "set [1 ..< Suc (max (length ?a) (length ?b))] = Suc ` {..< max (length ?a) (length ?b)}"
      by (metis One_nat_def atLeastLessThan_upt image_Suc_atLeastLessThan lessThan_atLeast0)
    then show ?thesis by (auto simp: shape_eq_def Let_def list_all_iff simp del: upt_Suc)
  qed
  also have "\<dots> \<longleftrightarrow> agree (rev ?a) (rev ?b)"
    by (simp add: agree_nth dims_agree_rev)
  also have "\<dots> \<longleftrightarrow> significant s = significant t"
    by (simp add: agree_rev significant_def)
  finally show ?thesis .
qed

end
