(* ===== verification/Shape_Spec.thy ===== *)
theory Shape_Spec
  imports Graph_Shape_Facts
begin

text \<open>The properties of graph shapes: typing, comparison, conversion, pickling and broadcasts.\<close>

text \<open>
  C19 (type).
  Whatever tile sizes \<open>create_buda\<close> is called with (\<open>sizes\<close>), a shape built by the factory functions is
  well typed, except that its columns need not count whole tiles: a \<open>BUDA\<close> shape has four or five
  dimensions, its rows count whole tiles of its tile size, and so do its columns if the tile height is 32.
  When no call of \<open>create_buda\<close> has a tile height and a tile width that both differ from 32, the columns
  always count whole tiles. On every \<open>BUDA\<close> shape of the factories no accessor fails: \<open>rt\<close> is the number of
  tile rows, and \<open>ct\<close>, \<open>z\<close> and \<open>w\<close> return. (A tile size is set only before the conversion to \<open>BUDA\<close>.)
\<close>
theorem factory_shapes_are_typed:
  assumes "factory_shape sizes s"
  shows "rows_typed s \<and>
         ((\<forall>h w. sizes h w \<longrightarrow> h = 32 \<or> w = 32) \<longrightarrow> typed_shape s) \<and>
         (shape_type s = BUDA \<longrightarrow>
            (\<exists>h. get_tile_height s = Inr h \<and> 0 < h \<and>
                 shape_rt s = Inr (shape_dims s ! (length (shape_dims s) - 2) div h)) \<and>
            (\<exists>ct z w. shape_ct s = Inr ct \<and> shape_z s = Inr z \<and> shape_w s = Inr w))"
proof (intro conjI impI)
  show typed: "rows_typed s" by (rule factory_rows [OF assms])
  show "typed_shape s" if "\<forall>h w. sizes h w \<longrightarrow> h = 32 \<or> w = 32" by (rule factory_typed [OF assms that])
  assume buda: "shape_type s = BUDA"
  from typed obtain h where h: "get_row_size_from_tile_size (tile_dim s) = Inr h"
    by (auto simp: rows_typed_def)
  with typed buda
  show "\<exists>h. get_tile_height s = Inr h \<and> 0 < h \<and>
            shape_rt s = Inr (shape_dims s ! (length (shape_dims s) - 2) div h)"
    using row_size_divides [OF h]
    by (auto simp: get_tile_height_def shape_rt_def dim_from_end_def rows_typed_def)
  show "\<exists>ct z w. shape_ct s = Inr ct \<and> shape_z s = Inr z \<and> shape_w s = Inr w"
    using typed_accessors [OF typed buda] by blast
qed

text \<open>The exception exists: tiles of 16x16 are stored as tiles of 16x32, and 48 columns are one and a half of them.\<close>

lemma narrow_tiles_break_columns:
  "\<exists>s. factory_shape (\<lambda>h w. h = 16 \<and> w = 16) s \<and> rows_typed s \<and> \<not> typed_shape s"
proof (intro exI conjI)
  let ?s = "\<lparr>shape_valid = True, shape_type = BUDA, shape_dims = [1, 1, 16, 48], tile_dim = Dim16x32\<rparr>"
  have "create_buda [1, 1, 16, 48] 16 16 = Inr ?s" by code_simp
  then show "factory_shape (\<lambda>h w. h = 16 \<and> w = 16) ?s" by (rule by_create_buda [rotated]) simp
  then show "rows_typed ?s" by (rule factory_rows)
  show "\<not> typed_shape ?s" by (simp add: typed_shape_def)
qed

lemma sample_shape:
  "to_buda (create_shape [3, 40, 70]\<lparr>tile_dim := Dim16x32\<rparr>) =
     Inr \<lparr>shape_valid = True, shape_type = BUDA, shape_dims = [1, 3, 48, 96], tile_dim = Dim16x32\<rparr>"
  by code_simp

lemma sample_factory:
  "factory_shape sizes
     \<lparr>shape_valid = True, shape_type = BUDA, shape_dims = [1, 3, 48, 96], tile_dim = Dim16x32\<rparr>"
proof (rule by_to_buda [OF _ sample_shape], rule by_tile)
  show "factory_shape sizes (create_shape [3, 40, 70])" by (rule by_create)
qed (simp_all add: create_shape_def)

theorem factory_shapes_are_typed_witness:
  "\<exists>h. get_tile_height
         \<lparr>shape_valid = True, shape_type = BUDA, shape_dims = [1, 3, 48, 96], tile_dim = Dim16x32\<rparr> = Inr h"
  using factory_shapes_are_typed [OF sample_factory [of "\<lambda>_ _. True"]] by auto

text \<open>
  C20 (equivalence).
  \<open>operator==\<close> of shapes is equality of their dimensions up to leading ones; in particular it is
  an equivalence and it ignores the tile size and the type.
\<close>
theorem shape_eq_up_to_leading_ones:
  "shape_eq s t \<longleftrightarrow>
     dropWhile (\<lambda>d. d = 1) (shape_dims s) = dropWhile (\<lambda>d. d = 1) (shape_dims t)"
  using shape_eq_significant by (simp add: significant_def)

text \<open>
  C36 (roundtrip).
  Pickling a shape of the factories (of any tile sizes) and creating it again gives the same shape exactly
  when its tiles are 32x32: the tile size is not part of the pickled data.
\<close>
theorem pickling_keeps_square_tiles_only:
  assumes "factory_shape sizes s"
  shows "create_from_pickled (get_pickle_data s) = Inr s \<longleftrightarrow> tile_dim s = Dim32x32"
proof -
  have typed: "rows_typed s" by (rule factory_rows [OF assms])
  show ?thesis
  proof (cases "shape_type s")
    case FREE
    with typed show ?thesis
      by (cases s) (auto simp: create_from_pickled_def get_pickle_data_def create_shape_def default_shape_def
          rows_typed_def)
  next
    case BUDA
    have code: "shape_type_code BUDA \<noteq> shape_type_code FREE" by (simp add: shape_type_code_def)
    have tile: "tile_dim s = Dim32x32" if pk: "create_from_pickled (get_pickle_data s) = Inr s"
    proof -
      have "create_buda (shape_dims s) 32 32 = Inr s"
        using pk typed BUDA code
        by (simp add: create_from_pickled_def get_pickle_data_def rows_typed_def BUDA_TILE_DIM_def)
      then have "\<lparr>shape_valid = True, shape_type = BUDA, shape_dims = shape_dims s, tile_dim = Dim32x32\<rparr> = s"
        by (auto simp: create_buda_def get_tile_dim_from_height_width_def res_simps)
      then show ?thesis by (metis Shape.select_convs(4))
    qed
    moreover have "create_from_pickled (get_pickle_data s) = Inr s" if "tile_dim s = Dim32x32"
      using that typed BUDA code
      by (cases s) (auto simp: create_from_pickled_def get_pickle_data_def rows_typed_def create_buda_def
          get_tile_dim_from_height_width_def BUDA_TILE_DIM_def BUDA_DIM_COUNT_def BUDA_MAX_DIM_COUNT_def
          dim_mod_def Let_def)
    ultimately show ?thesis by blast
  qed
qed

theorem pickling_keeps_square_tiles_only_witness:
  "create_from_pickled (get_pickle_data
     \<lparr>shape_valid = True, shape_type = BUDA, shape_dims = [1, 3, 48, 96], tile_dim = Dim16x32\<rparr>) \<noteq>
   Inr \<lparr>shape_valid = True, shape_type = BUDA, shape_dims = [1, 3, 48, 96], tile_dim = Dim16x32\<rparr>"
  using pickling_keeps_square_tiles_only [OF sample_factory [of "\<lambda>_ _. True"]] by simp

text \<open>
  A \<open>BUDA\<close> shape cannot be broadcast along its columns: whatever the tile size, as soon as the
  last dimension of the other shape is larger (and the volumes differ), \<open>broadcast_dims\<close> throws,
  although \<open>is_unit\<close> calls a column of one tile a unit. Its assertion asks for a column of 1.
\<close>
theorem columns_never_broadcast:
  assumes "typed_shape s" and "shape_type s = BUDA" and "shape_valid t"
    and "shape_dims t \<noteq> []" and "0 < last (shape_dims s)" and "last (shape_dims s) < last (shape_dims t)"
    and "shape_volume s \<noteq> shape_volume t"
  shows "broadcast_dims s t = Inl RuntimeError"
proof -
  from assms(1,2) obtain w where len: "4 \<le> length (shape_dims s)"
    and w: "get_col_size_from_tile_size (tile_dim s) = Inr w"
    and mod_w: "shape_dims s ! (length (shape_dims s) - 1) mod w = 0" and valid: "shape_valid s"
    by (auto simp: typed_shape_def)
  then have last_s: "shape_dims s ! (length (shape_dims s) - 1) = last (shape_dims s)"
    using last_conv_nth [of "shape_dims s"] by fastforce
  have last_t: "shape_dims t ! (length (shape_dims t) - 1) = last (shape_dims t)"
    using last_conv_nth [OF assms(4)] by simp
  have "1 < w" using w by (cases "tile_dim s") auto
  then have "last (shape_dims s) \<noteq> 1" using mod_w last_s by auto
  moreover have "0 < min (length (shape_dims s)) (length (shape_dims t))"
    using len assms(4) by (cases "shape_dims s"; cases "shape_dims t") auto
  ultimately show ?thesis
    using assms(2,3,6,7) valid last_s last_t
    by (simp add: broadcast_dims_def upt_conv_Cons broadcast_step_def Let_def)
qed

theorem columns_never_broadcast_witness:
  "broadcast_dims
     \<lparr>shape_valid = True, shape_type = BUDA, shape_dims = [1, 1, 32, 32], tile_dim = Dim32x32\<rparr>
     (create_shape [1, 1, 32, 64]) = Inl RuntimeError"
  by (rule columns_never_broadcast)
    (simp_all add: typed_shape_def create_shape_def default_shape_def shape_volume_def mul32_def)

lemma snap_rounds_up:
  assumes "0 < tile" and "tile \<le> 32" and "d + 32 < 2 ^ 32"
  shows "snap_to_tile tile d = tile * ((d + tile - 1) div tile)"
proof -
  define q r where "q = d div tile" and "r = d mod tile"
  have d: "d = tile * q + r" and r: "r < tile" using assms(1) by (simp_all add: q_def r_def)
  show ?thesis
  proof (cases "r = 0")
    case True
    then have "d + tile - 1 = tile * q + (tile - 1)" using assms(1) d by simp
    moreover have "(tile * q + (tile - 1)) div tile = q"
      by (rule div_nat_eqI) (use assms(1) in simp_all)
    ultimately have "(d + tile - 1) div tile = q" by simp
    moreover have "snap_to_tile tile d = d"
      using True unfolding r_def by (simp add: snap_to_tile_def)
    moreover have "d = tile * q" using True d by simp
    ultimately show ?thesis by metis
  next
    case False
    have "d + tile - 1 = tile * (q + 1) + (r - 1)" using False d by (simp add: algebra_simps)
    then have "(d + tile - 1) div tile = q + 1"
      using r assms(1) by (intro div_nat_eqI) (simp_all add: algebra_simps)
    moreover have "d + (tile - r) = tile * (q + 1)" using d r by (simp add: algebra_simps)
    moreover have "d + (tile - r) < 2 ^ 32" using assms by linarith
    moreover have "snap_to_tile tile d = add32 d (tile - r)"
      using False unfolding r_def by (simp add: snap_to_tile_def)
    ultimately show ?thesis by (simp add: add32_def)
  qed
qed

lemma squeeze_short: "length ds \<le> n \<Longrightarrow> squeeze_leading n ds = Inr ds"
  by (cases ds) auto

text \<open>
  C24 (bounds).
  Converting a shape to \<open>BUDA\<close> pads it to four dimensions and rounds the row and the column up to
  the least multiple of the tile, as long as the rounding stays within 32 bits; no other dimension
  changes.
\<close>
theorem to_buda_rounds_up:
  assumes "shape_type s = FREE" and "length (shape_dims s) \<le> 5"
    and "\<forall>d \<in> set (shape_dims s). d + 32 < 2 ^ 32"
    and "get_tile_height s = Inr h" and "get_tile_width s = Inr w"
    and "dims = replicate (4 - length (shape_dims s)) 1 @ shape_dims s"
  shows "to_buda s =
           Inr \<lparr>shape_valid = True, shape_type = BUDA,
                shape_dims = take (length dims - 2) dims @
                  [h * ((dims ! (length dims - 2) + h - 1) div h),
                   w * ((dims ! (length dims - 1) + w - 1) div w)],
                tile_dim = tile_dim s\<rparr>"
proof -
  have h: "get_row_size_from_tile_size (tile_dim s) = Inr h" "0 < h" "h \<le> 32"
    using assms(4) by (cases "tile_dim s"; auto simp: get_tile_height_def)+
  have w: "get_col_size_from_tile_size (tile_dim s) = Inr w" "0 < w" "w \<le> 32"
    using assms(5) by (cases "tile_dim s"; auto simp: get_tile_width_def)+
  have len: "4 \<le> length dims" using assms(6) by simp
  have small: "d + 32 < 2 ^ 32" if "d \<in> set dims" for d
    using that assms(3,6) by auto
  define m where "m = length dims - 2"
  have m: "m < length dims" "m + 1 < length dims" "length dims - 1 = m + 1" "length dims = m + 2"
    using len by (simp_all add: m_def)
  have row: "snap_to_tile h (dims ! m) = h * ((dims ! m + h - 1) div h)"
    by (rule snap_rounds_up [OF h(2,3) small]) (simp add: m)
  have col: "snap_to_tile w (dims ! (m + 1)) = w * ((dims ! (m + 1) + w - 1) div w)"
    by (rule snap_rounds_up [OF w(2,3) small]) (simp add: m)
  have upd: "dims[m := a, m + 1 := b] = take m dims @ [a, b]" for a b
    using m by (simp add: list_eq_iff_nth_eq nth_append nth_list_update nth_Cons' min_def)
  have conv: "unsqueeze_leading 4 (shape_dims s) = dims"
    by (simp only: unsqueeze_leading_def assms(6))
  have len_max: "max 4 (length (shape_dims s)) - 2 = m"
    using arg_cong [OF conv, of length] by (simp add: m_def)
  show ?thesis
    using assms(1,2) h(1) w(1) len_max
    by (simp add: to_buda_def BUDA_MAX_DIM_COUNT_def BUDA_DIM_COUNT_def squeeze_short Let_def conv
        m_def [symmetric] upd [unfolded One_nat_def add_Suc_right add_0_right] row col m(4)
        row [unfolded One_nat_def] col [unfolded One_nat_def add_Suc_right add_0_right])
qed

theorem to_buda_rounds_up_witness:
  "\<exists>t. to_buda (create_shape [3, 40, 70]\<lparr>tile_dim := Dim16x32\<rparr>) = Inr t \<and>
       shape_dims t = [1, 3, 48, 96]"
  by (subst to_buda_rounds_up [where h = 16 and w = 32 and dims = "[1, 3, 40, 70]"])
     (simp_all add: create_shape_def default_shape_def get_tile_height_def get_tile_width_def)

end
