(* ===== verification/Graph_Facts.thy ===== *)
theory Graph_Facts
  imports Graph_Ops
begin

text \<open>
  The invariant of the graph store and its preservation: the node map, the name map, the order of
  insertion and the two edge maps describe one graph. Every edge is in the operand set of its
  consumer and in the user set of its producer, both ends are nodes, and its attributes exist.
\<close>

section \<open>The invariant\<close>

definition node_set :: "Graph \<Rightarrow> NodeId set" where
  "node_set G = dom (map_of (nodes_map G))"

text \<open>Nodes: ids, order, names and subgraphs agree.\<close>

definition nodes_ok :: "Graph \<Rightarrow> bool" where
  "nodes_ok G \<longleftrightarrow>
     distinct (map fst (nodes_map G)) \<and> distinct (node_order G) \<and> set (node_order G) = node_set G \<and>
     (\<forall>n x. map_of (nodes_map G) n = Some x \<longrightarrow> n_id x = n) \<and>
     (\<forall>name n. map_of (node_name_to_node_id G) name = Some n \<longleftrightarrow>
        (\<exists>x. map_of (nodes_map G) n = Some x \<and> n_name x = name)) \<and>
     (\<forall>n \<in> node_set G. \<exists>i < num_subgraphs G. map_of (node_id_to_subgraph_id G) n = Some i) \<and>
     set (virtual_nodes G) \<subseteq> node_set G"

text \<open>Edges: the two maps hold the same edges, between nodes, each identity once.\<close>

definition edges_ok :: "Graph \<Rightarrow> bool" where
  "edges_ok G \<longleftrightarrow>
     distinct (map fst (operands_map G)) \<and> distinct (map fst (users_map G)) \<and>
     dom (map_of (operands_map G)) = node_set G \<and> dom (map_of (users_map G)) = node_set G \<and>
     (\<forall>c. \<forall>e \<in> set (edge_entry (operands_map G) c). consumer_node_id e = c) \<and>
     (\<forall>p. \<forall>e \<in> set (edge_entry (users_map G) p). producer_node_id e = p) \<and>
     (\<forall>e. e \<in> set (edge_entry (operands_map G) (consumer_node_id e)) \<longleftrightarrow>
          e \<in> set (edge_entry (users_map G) (producer_node_id e))) \<and>
     (\<forall>c. distinct (map edge_key (edge_entry (operands_map G) c))) \<and>
     (\<forall>p. distinct (map edge_key (edge_entry (users_map G) p)))"

definition attributes_ok :: "Graph \<Rightarrow> bool" where
  "attributes_ok G \<longleftrightarrow>
     (\<forall>c. \<forall>e \<in> set (edge_entry (operands_map G) c). edge_key e \<in> dom (map_of (edge_to_attr_map G))) \<and>
     (\<forall>k p. map_of (edge_to_attr_map G) k = Some p \<longrightarrow> p < length (attr_store G))"

definition graph_ok :: "Graph \<Rightarrow> bool" where
  "graph_ok G \<longleftrightarrow> nodes_ok G \<and> edges_ok G \<and> attributes_ok G"

lemma edges_okD:
  assumes "edges_ok G"
  shows "distinct (map fst (operands_map G))" and "distinct (map fst (users_map G))"
    and "dom (map_of (operands_map G)) = node_set G" and "dom (map_of (users_map G)) = node_set G"
    and "e \<in> set (edge_entry (operands_map G) c) \<Longrightarrow> consumer_node_id e = c"
    and "e \<in> set (edge_entry (users_map G) p) \<Longrightarrow> producer_node_id e = p"
    and "e \<in> set (edge_entry (operands_map G) (consumer_node_id e)) \<longleftrightarrow>
         e \<in> set (edge_entry (users_map G) (producer_node_id e))"
    and "distinct (map edge_key (edge_entry (operands_map G) c))"
    and "distinct (map edge_key (edge_entry (users_map G) p))"
  using assms unfolding edges_ok_def by blast+

lemma nodes_okD:
  assumes "nodes_ok G"
  shows "distinct (map fst (nodes_map G))" and "distinct (node_order G)"
    and "set (node_order G) = node_set G"
    and "map_of (nodes_map G) n = Some x \<Longrightarrow> n_id x = n"
    and "map_of (node_name_to_node_id G) name = Some n \<longleftrightarrow>
         (\<exists>x. map_of (nodes_map G) n = Some x \<and> n_name x = name)"
    and "n \<in> node_set G \<Longrightarrow> \<exists>i < num_subgraphs G. map_of (node_id_to_subgraph_id G) n = Some i"
    and "set (virtual_nodes G) \<subseteq> node_set G"
  using assms unfolding nodes_ok_def by blast+

text \<open>The edges of a graph.\<close>

definition graph_edges :: "Graph \<Rightarrow> Edge set" where
  "graph_edges G = {e. e \<in> set (edge_entry (operands_map G) (consumer_node_id e))}"

lemma edge_entry_update [simp]:
  "edge_entry (AList.update k v m) n = (if n = k then v else edge_entry m n)"
  by (simp add: edge_entry_def map_of_update_conv)

lemma edge_entry_delete [simp]:
  "edge_entry (AList.delete k m) n = (if n = k then [] else edge_entry m n)"
  by (simp add: edge_entry_def map_of_delete_conv)

lemma edge_entry_outside: "n \<notin> dom (map_of m) \<Longrightarrow> edge_entry m n = []"
  by (auto simp: edge_entry_def split: option.splits)

lemma edge_entry_at_key: "n \<in> dom (map_of m) \<Longrightarrow> at_key m n = Inr (edge_entry m n)"
  by (auto simp: edge_entry_def at_key_def)

lemma edges_ok_entries:
  assumes "edges_ok G"
  shows "set (edge_entry (operands_map G) c) = {e \<in> graph_edges G. consumer_node_id e = c}"
    and "set (edge_entry (users_map G) p) = {e \<in> graph_edges G. producer_node_id e = p}"
proof -
  show "set (edge_entry (operands_map G) c) = {e \<in> graph_edges G. consumer_node_id e = c}"
    using edges_okD(5) [OF assms] unfolding graph_edges_def by blast
  show "set (edge_entry (users_map G) p) = {e \<in> graph_edges G. producer_node_id e = p}"
    unfolding graph_edges_def mem_Collect_eq edges_okD(7) [OF assms]
    using edges_okD(6) [OF assms] by blast
qed

lemma edges_ok_ends:
  assumes "edges_ok G" and "e \<in> graph_edges G"
  shows "producer_node_id e \<in> node_set G \<and> consumer_node_id e \<in> node_set G"
proof -
  from assms(2) have "e \<in> set (edge_entry (operands_map G) (consumer_node_id e))"
    and "e \<in> set (edge_entry (users_map G) (producer_node_id e))"
    by (simp_all add: edges_ok_entries [OF assms(1)])
  then have "consumer_node_id e \<in> dom (map_of (operands_map G))"
    and "producer_node_id e \<in> dom (map_of (users_map G))"
    using edge_entry_outside [of "consumer_node_id e" "operands_map G"]
      edge_entry_outside [of "producer_node_id e" "users_map G"] by fastforce+
  then show ?thesis by (simp add: edges_okD(3,4) [OF assms(1)])
qed

text \<open>Two edges of one identity are the same edge.\<close>

lemma edges_ok_inj:
  assumes "edges_ok G" and "e \<in> graph_edges G" and "f \<in> graph_edges G" and "edge_key e = edge_key f"
  shows "e = f"
proof -
  have "consumer_node_id e = consumer_node_id f" using assms(4) by (simp add: edge_key_def)
  with assms(2,3) have "e \<in> set (edge_entry (operands_map G) (consumer_node_id e))"
    "f \<in> set (edge_entry (operands_map G) (consumer_node_id e))"
    by (simp_all add: graph_edges_def)
  moreover have "inj_on edge_key (set (edge_entry (operands_map G) (consumer_node_id e)))"
    using edges_okD(8) [OF assms(1)] by (simp add: distinct_map)
  ultimately show ?thesis using assms(4) by (meson inj_onD)
qed

section \<open>Sets of edges\<close>

lemma set_erase_set [simp]: "set (set_erase k es) = {e \<in> set es. edge_key e \<noteq> k}"
  by (auto simp: set_erase_def)

lemma distinct_erase [simp]: "distinct (map edge_key es) \<Longrightarrow> distinct (map edge_key (set_erase k es))"
  by (simp add: set_erase_def distinct_map_filter)

lemma distinct_insert [simp]: "distinct (map edge_key es) \<Longrightarrow> distinct (map edge_key (set_insert e es))"
  by (auto simp: set_insert_def)

section \<open>Empty graphs and new nodes\<close>

lemma mk_graph_ok [simp]: "graph_ok (mk_graph name i)"
  by (simp add: graph_ok_def nodes_ok_def edges_ok_def attributes_ok_def node_set_def edge_entry_def
      mk_graph_def)

lemma enlarge_subgraphs_simps [simp]:
  "nodes_map (enlarge_subgraphs i G) = nodes_map G"
  "node_order (enlarge_subgraphs i G) = node_order G"
  "node_name_to_node_id (enlarge_subgraphs i G) = node_name_to_node_id G"
  "operands_map (enlarge_subgraphs i G) = operands_map G"
  "users_map (enlarge_subgraphs i G) = users_map G"
  "edge_to_attr_map (enlarge_subgraphs i G) = edge_to_attr_map G"
  "attr_store (enlarge_subgraphs i G) = attr_store G"
  "node_id_to_subgraph_id (enlarge_subgraphs i G) = node_id_to_subgraph_id G"
  "virtual_nodes (enlarge_subgraphs i G) = virtual_nodes G"
  "node_set (enlarge_subgraphs i G) = node_set G"
  by (simp_all add: enlarge_subgraphs_def node_set_def)

lemma enlarged:
  "i + 1 < 2 ^ 32 \<Longrightarrow> i < num_subgraphs (enlarge_subgraphs i G) \<and>
   num_subgraphs G \<le> num_subgraphs (enlarge_subgraphs i G)"
  by (simp add: enlarge_subgraphs_def u32_simps)

lemma distinct_update [simp]: "distinct (map fst m) \<Longrightarrow> distinct (map fst (AList.update k v m))"
  by (simp add: distinct_update)

lemma distinct_delete [simp]: "distinct (map fst m) \<Longrightarrow> distinct (map fst (AList.delete k m))"
  by (simp add: distinct_delete)

text \<open>\<open>edges_ok\<close> and \<open>attributes_ok\<close> look at the entries, the keys and the nodes only.\<close>

lemma edges_ok_frame:
  assumes "edges_ok G"
    and "edge_entry (operands_map H) = edge_entry (operands_map G)"
    and "edge_entry (users_map H) = edge_entry (users_map G)"
    and "dom (map_of (operands_map H)) = node_set H" and "dom (map_of (users_map H)) = node_set H"
    and "distinct (map fst (operands_map H))" and "distinct (map fst (users_map H))"
  shows "edges_ok H"
  using assms unfolding edges_ok_def by metis

lemma attributes_ok_frame:
  assumes "attributes_ok G" and "edge_entry (operands_map H) = edge_entry (operands_map G)"
    and "edge_to_attr_map H = edge_to_attr_map G" and "attr_store H = attr_store G"
  shows "attributes_ok H"
  using assms unfolding attributes_ok_def by metis

lemma edge_entry_new: "n \<notin> dom (map_of m) \<Longrightarrow> edge_entry (AList.update n [] m) = edge_entry m"
  by (rule ext) (simp add: edge_entry_outside)

lemma has_node_with_id_iff: "has_node_with_id G n \<longleftrightarrow> n \<in> node_set G"
  by (auto simp: has_node_with_id_def node_set_def)

text \<open>What \<open>add_node\<close> returns when it does.\<close>

lemma add_nodeE:
  assumes "add_node x i d (ids, G) = Inr (n, ids', H)"
  obtains "n_name x \<notin> dom (map_of (node_name_to_node_id G))" and "n \<notin> node_set G"
    and "ids' = (case d of Some _ \<Rightarrow> ids | None \<Rightarrow> ids\<lparr>last_node_id_assigned := n\<rparr>)"
    and "n = (case d of Some k \<Rightarrow> k | None \<Rightarrow> last_node_id_assigned ids + 1)"
    and "H = enlarge_subgraphs i
         (G\<lparr>node_name_to_node_id := AList.update (n_name x) n (node_name_to_node_id G),
            nodes_map := AList.update n (x\<lparr>n_id := n\<rparr>) (nodes_map G),
            node_order := node_order G @ [n],
            operands_map := AList.update n [] (operands_map G),
            users_map := AList.update n [] (users_map G),
            node_id_to_subgraph_id := AList.update n i (node_id_to_subgraph_id G)\<rparr>)"
proof -
  from assms have "\<not> has_node_with_name G (n_name x)" "\<not> has_node_with_id G n"
    by (auto simp: add_node_def Let_def split: option.splits if_splits)
  then have "n_name x \<notin> dom (map_of (node_name_to_node_id G))" "n \<notin> node_set G"
    by (auto simp: has_node_with_name_def has_node_with_id_iff)
  with assms show thesis
    by (intro that) (auto simp: add_node_def Let_def split: option.splits if_splits)
qed

lemma node_set_update [simp]:
  "nodes_map H = AList.update n x (nodes_map G) \<Longrightarrow> node_set H = insert n (node_set G)"
  by (simp add: node_set_def map_of_update_conv)

lemma nodes_ok_add:
  assumes ok: "nodes_ok G" and new: "n \<notin> node_set G" "n_name x \<notin> dom (map_of (node_name_to_node_id G))"
    and H: "nodes_map H = AList.update n (x\<lparr>n_id := n\<rparr>) (nodes_map G)" "node_order H = node_order G @ [n]"
      "node_name_to_node_id H = AList.update (n_name x) n (node_name_to_node_id G)"
      "node_id_to_subgraph_id H = AList.update n i (node_id_to_subgraph_id G)"
      "virtual_nodes H = virtual_nodes G" "i < num_subgraphs H" "num_subgraphs G \<le> num_subgraphs H"
  shows "nodes_ok H"
proof -
  have set: "node_set H = insert n (node_set G)" using H(1) by simp
  have names: "map_of (node_name_to_node_id H) name = Some m \<longleftrightarrow>
        (\<exists>y. map_of (nodes_map H) m = Some y \<and> n_name y = name)" for name m
  proof (cases "name = n_name x")
    case True
    have "map_of (node_name_to_node_id G) name = None" using new(2) True by auto
    then have "\<not> (\<exists>y. map_of (nodes_map G) m = Some y \<and> n_name y = name)"
      using nodes_okD(5) [OF ok, of name m] by auto
    with True show ?thesis using H(1,3) by (auto simp: map_of_update_conv)
  next
    case False
    then show ?thesis
      using H(1,3) nodes_okD(5) [OF ok, of name m] new(1)
      by (auto simp: map_of_update_conv node_set_def)
  qed
  have ids: "n_id y = m" if "map_of (nodes_map H) m = Some y" for m y
    using that H(1) nodes_okD(4) [OF ok, of m y] by (auto simp: map_of_update_conv split: if_splits)
  have subgraphs: "\<exists>j < num_subgraphs H. map_of (node_id_to_subgraph_id H) m = Some j"
    if "m \<in> node_set H" for m
  proof (cases "m = n")
    case True
    then show ?thesis using H(4,6) by (simp add: map_of_update_conv)
  next
    case False
    with that set obtain j where "j < num_subgraphs G" "map_of (node_id_to_subgraph_id G) m = Some j"
      using nodes_okD(6) [OF ok, of m] by auto
    with False H(4,7) show ?thesis by (auto simp: map_of_update_conv)
  qed
  show ?thesis
    unfolding nodes_ok_def
    using nodes_okD(1,2,3,7) [OF ok] names ids subgraphs new(1) H(1,2,5) set by auto
qed

lemma add_node_ok:
  assumes ok: "graph_ok G" and add: "add_node x i d (ids, G) = Inr (n, ids', H)" and small: "i + 1 < 2 ^ 32"
  shows "graph_ok H"
  using add
proof (cases rule: add_nodeE)
  case 1
  let ?H0 = "G\<lparr>node_name_to_node_id := AList.update (n_name x) n (node_name_to_node_id G),
            nodes_map := AList.update n (x\<lparr>n_id := n\<rparr>) (nodes_map G),
            node_order := node_order G @ [n],
            operands_map := AList.update n [] (operands_map G),
            users_map := AList.update n [] (users_map G),
            node_id_to_subgraph_id := AList.update n i (node_id_to_subgraph_id G)\<rparr>"
  have eok: "edges_ok G" and nok: "nodes_ok G" and aok: "attributes_ok G"
    using ok by (simp_all add: graph_ok_def)
  have new: "n \<notin> dom (map_of (operands_map G))" "n \<notin> dom (map_of (users_map G))"
    using 1(2) by (simp_all add: edges_okD(3,4) [OF eok])
  have set: "node_set H = insert n (node_set G)" by (simp add: 1(5))
  have "nodes_ok H"
    by (rule nodes_ok_add [OF nok 1(2) 1(1), of H i]) (use enlarged [OF small, of ?H0] in \<open>simp_all add: 1(5)\<close>)
  moreover have "edges_ok H"
  proof (rule edges_ok_frame [OF eok])
    show "edge_entry (operands_map H) = edge_entry (operands_map G)"
      "edge_entry (users_map H) = edge_entry (users_map G)"
      using new by (simp_all add: 1(5) edge_entry_new)
    show "dom (map_of (operands_map H)) = node_set H" "dom (map_of (users_map H)) = node_set H"
      unfolding set by (simp_all add: 1(5) edges_okD(3,4) [OF eok] map_of_update_conv)
  qed (simp_all add: 1(5) edges_okD(1,2) [OF eok])
  moreover have "attributes_ok H"
    by (rule attributes_ok_frame [OF aok]) (simp_all add: 1(5) edge_entry_new new)
  ultimately show ?thesis by (simp add: graph_ok_def)
qed

end
