(* ===== verification/Graph_Edit.thy ===== *)
theory Graph_Edit
  imports Graph_Facts
begin

text \<open>
  Adding and removing edges, removing nodes and renaming keep the invariant of the graph store,
  with what each does to the set of edges.
\<close>

section \<open>Adding an edge\<close>

definition edge_keys :: "Graph \<Rightarrow> EdgeUniqueId set" where
  "edge_keys G = edge_key ` graph_edges G"

lemma key_present:
  assumes "edges_ok G"
  shows "edge_key e \<in> edge_key ` set (edge_entry (operands_map G) (consumer_node_id e)) \<longleftrightarrow>
         edge_key e \<in> edge_keys G"
    and "edge_key e \<in> edge_key ` set (edge_entry (users_map G) (producer_node_id e)) \<longleftrightarrow>
         edge_key e \<in> edge_keys G"
proof -
  have "f \<in> graph_edges G \<Longrightarrow> edge_key e = edge_key f \<Longrightarrow>
        consumer_node_id f = consumer_node_id e \<and> producer_node_id f = producer_node_id e" for f
    by (simp add: edge_key_def)
  then show "edge_key e \<in> edge_key ` set (edge_entry (operands_map G) (consumer_node_id e)) \<longleftrightarrow>
         edge_key e \<in> edge_keys G"
    and "edge_key e \<in> edge_key ` set (edge_entry (users_map G) (producer_node_id e)) \<longleftrightarrow>
         edge_key e \<in> edge_keys G"
    unfolding edges_ok_entries [OF assms] edge_keys_def image_iff by blast+
qed

lemma add_edge_with_simps [simp]:
  "nodes_map (add_edge_with e a G) = nodes_map G"
  "node_order (add_edge_with e a G) = node_order G"
  "node_name_to_node_id (add_edge_with e a G) = node_name_to_node_id G"
  "node_id_to_subgraph_id (add_edge_with e a G) = node_id_to_subgraph_id G"
  "num_subgraphs (add_edge_with e a G) = num_subgraphs G"
  "virtual_nodes (add_edge_with e a G) = virtual_nodes G"
  "node_set (add_edge_with e a G) = node_set G"
  by (simp_all add: add_edge_with_def Let_def node_set_def split: option.split)

lemma add_edge_entries:
  "edge_entry (operands_map (add_edge_with e a G)) c =
     (if c = consumer_node_id e then set_insert e (edge_entry (operands_map G) c)
      else edge_entry (operands_map G) c)"
  "edge_entry (users_map (add_edge_with e a G)) p =
     (if p = producer_node_id e then set_insert e (edge_entry (users_map G) p)
      else edge_entry (users_map G) p)"
  by (simp_all add: add_edge_with_def Let_def split: option.split)

lemma nodes_ok_frame:
  assumes "nodes_ok G" and "nodes_map H = nodes_map G" and "node_order H = node_order G"
    and "node_name_to_node_id H = node_name_to_node_id G"
    and "node_id_to_subgraph_id H = node_id_to_subgraph_id G" and "num_subgraphs H = num_subgraphs G"
    and "virtual_nodes H = virtual_nodes G"
  shows "nodes_ok H"
  using assms unfolding nodes_ok_def node_set_def by simp

lemma add_edge_present:
  assumes "edges_ok G" and "edge_key e \<in> edge_keys G"
  shows "edge_entry (operands_map (add_edge_with e a G)) = edge_entry (operands_map G) \<and>
         edge_entry (users_map (add_edge_with e a G)) = edge_entry (users_map G)"
  using key_present [OF assms(1), of e] assms(2)
  by (auto simp: add_edge_entries set_insert_def fun_eq_iff)

lemma add_edge_keys_ok:
  assumes "edges_ok G" and "producer_node_id e \<in> node_set G" and "consumer_node_id e \<in> node_set G"
  shows "dom (map_of (operands_map (add_edge_with e a G))) = node_set G \<and>
         dom (map_of (users_map (add_edge_with e a G))) = node_set G \<and>
         distinct (map fst (operands_map (add_edge_with e a G))) \<and>
         distinct (map fst (users_map (add_edge_with e a G)))"
  using assms(2,3) edges_okD(1-4) [OF assms(1)]
  by (simp add: add_edge_with_def Let_def map_of_update_conv insert_absorb split: option.split)

lemma add_edge_absent:
  assumes "edges_ok G" and "edge_key e \<notin> edge_keys G"
  shows "graph_edges (add_edge_with e a G) = insert e (graph_edges G)"
proof -
  have "f \<in> set (edge_entry (operands_map (add_edge_with e a G)) (consumer_node_id f)) \<longleftrightarrow>
        f = e \<or> f \<in> graph_edges G" for f
    using key_present(1) [OF assms(1), of e] assms(2)
    by (cases "consumer_node_id f = consumer_node_id e")
      (auto simp: add_edge_entries set_insert_def edges_ok_entries [OF assms(1)])
  then show ?thesis unfolding graph_edges_def [of "add_edge_with e a G"] by auto
qed

lemma add_edge_edges_ok:
  assumes ok: "edges_ok G" and ends: "producer_node_id e \<in> node_set G" "consumer_node_id e \<in> node_set G"
  shows "edges_ok (add_edge_with e a G)"
proof (cases "edge_key e \<in> edge_keys G")
  case True
  note same = add_edge_present [OF ok True, of a]
  show ?thesis
    by (rule edges_ok_frame [OF ok]) (use same add_edge_keys_ok [OF ok ends, of a] in simp_all)
next
  case False
  let ?H = "add_edge_with e a G"
  note keys = key_present [OF ok, of e] add_edge_keys_ok [OF ok ends, of a]
  have ops: "edge_entry (operands_map ?H) c =
      (if c = consumer_node_id e then edge_entry (operands_map G) c @ [e] else edge_entry (operands_map G) c)" for c
    using keys(1) False by (simp add: add_edge_entries set_insert_def)
  have uses: "edge_entry (users_map ?H) p =
      (if p = producer_node_id e then edge_entry (users_map G) p @ [e] else edge_entry (users_map G) p)" for p
    using keys(2) False by (simp add: add_edge_entries set_insert_def)
  have ops_set: "set (edge_entry (operands_map ?H) c) = {f \<in> insert e (graph_edges G). consumer_node_id f = c}" for c
    by (auto simp: ops edges_ok_entries [OF ok])
  have users_set: "set (edge_entry (users_map ?H) p) = {f \<in> insert e (graph_edges G). producer_node_id f = p}" for p
    by (auto simp: uses edges_ok_entries [OF ok])
  have "distinct (map edge_key (edge_entry (operands_map ?H) c))" for c
    using edges_okD(8) [OF ok] keys(1) False by (simp add: ops)
  moreover have "distinct (map edge_key (edge_entry (users_map ?H) p))" for p
    using edges_okD(9) [OF ok] keys(2) False by (simp add: uses)
  ultimately show ?thesis
    unfolding edges_ok_def using keys(3) by (simp add: ops_set users_set)
qed

lemma map_insert_map_of [simp]:
  "map_of (map_insert k v m) = (if map_of m k = None then (map_of m)(k \<mapsto> v) else map_of m)"
  by (simp add: map_insert_def map_of_update_conv)

lemma add_edge_attributes_ok:
  assumes ok: "attributes_ok G" and a: "\<And>p. a = Some p \<Longrightarrow> p < length (attr_store G)"
  shows "attributes_ok (add_edge_with e a G)"
proof -
  let ?H = "add_edge_with e a G"
  have has: "dom (map_of (edge_to_attr_map ?H)) = insert (edge_key e) (dom (map_of (edge_to_attr_map G)))"
    by (cases a) (auto simp: add_edge_with_def Let_def)
  have bound: "p < length (attr_store ?H)" if "map_of (edge_to_attr_map ?H) k = Some p" for k p
  proof -
    have "q < length (attr_store G)" if "map_of (edge_to_attr_map G) k = Some q" for k q
      using ok that unfolding attributes_ok_def by blast
    with that a show ?thesis
      by (cases a) (auto simp: add_edge_with_def Let_def less_Suc_eq split: if_splits)
  qed
  have "edge_key f \<in> dom (map_of (edge_to_attr_map ?H))"
    if "f \<in> set (edge_entry (operands_map ?H) c)" for c f
  proof -
    from that have "f = e \<or> f \<in> set (edge_entry (operands_map G) c)"
      by (auto simp: add_edge_entries set_insert_def split: if_splits)
    with ok has show ?thesis unfolding attributes_ok_def by blast
  qed
  with bound show ?thesis unfolding attributes_ok_def by blast
qed

lemma add_edge_ok:
  assumes "graph_ok G" and "producer_node_id e \<in> node_set G" and "consumer_node_id e \<in> node_set G"
    and "\<And>p. a = Some p \<Longrightarrow> p < length (attr_store G)"
  shows "graph_ok (add_edge_with e a G)"
proof -
  have "nodes_ok (add_edge_with e a G)"
    by (rule nodes_ok_frame [of G]) (use assms(1) in \<open>simp_all add: graph_ok_def\<close>)
  with assms show ?thesis
    by (simp add: graph_ok_def add_edge_edges_ok add_edge_attributes_ok)
qed

section \<open>Removing an edge\<close>

lemma set_erase_absent: "k \<notin> edge_key ` set es \<Longrightarrow> set_erase k es = es"
  by (auto simp: set_erase_def filter_id_conv)

lemma set_erase_snoc: "edge_key e \<notin> edge_key ` set es \<Longrightarrow> set_erase (edge_key e) (es @ [e]) = es"
  using set_erase_absent [of "edge_key e" es] by (simp add: set_erase_def)

lemma remove_edgeE:
  assumes "remove_edge e G = Inr (p, H)" and "edges_ok G"
  obtains "map_of (edge_to_attr_map G) (edge_key e) = Some p"
    and "\<And>x. edge_entry (users_map H) x =
           (if x = producer_node_id e then set_erase (edge_key e) (edge_entry (users_map G) x)
            else edge_entry (users_map G) x)"
    and "\<And>x. edge_entry (operands_map H) x =
           (if x = consumer_node_id e then set_erase (edge_key e) (edge_entry (operands_map G) x)
            else edge_entry (operands_map G) x)"
    and "dom (map_of (operands_map H)) = insert (consumer_node_id e) (node_set G)"
    and "dom (map_of (users_map H)) = node_set G"
    and "distinct (map fst (operands_map H))" and "distinct (map fst (users_map H))"
    and "nodes_map H = nodes_map G" and "node_order H = node_order G"
    and "node_name_to_node_id H = node_name_to_node_id G"
    and "node_id_to_subgraph_id H = node_id_to_subgraph_id G" and "num_subgraphs H = num_subgraphs G"
    and "virtual_nodes H = virtual_nodes G" and "edge_to_attr_map H = edge_to_attr_map G"
    and "attr_store H = attr_store G"
proof -
  let ?present = "edge_key e \<in> edge_key ` set (edge_entry (operands_map G) (consumer_node_id e))"
  from assms(1) have attr: "map_of (edge_to_attr_map G) (edge_key e) = Some p"
    and H: "H = G\<lparr>users_map :=
              (if ?present
               then AList.update (producer_node_id e)
                      (set_erase (edge_key e) (edge_entry (users_map G) (producer_node_id e))) (users_map G)
               else users_map G),
           operands_map :=
              AList.update (consumer_node_id e)
                (set_erase (edge_key e) (edge_entry (operands_map G) (consumer_node_id e))) (operands_map G)\<rparr>"
    by (simp_all add: remove_edge_def get_edge_attributes_def Let_def res_simps)
  note present = key_present [OF assms(2), of e]
  have producer: "producer_node_id e \<in> node_set G" if ?present
  proof -
    from that present obtain f where "f \<in> graph_edges G" "edge_key e = edge_key f"
      by (auto simp: edge_keys_def)
    with edges_ok_ends [OF assms(2), of f] show ?thesis by (simp add: edge_key_def)
  qed
  show thesis
  proof (rule that [OF attr])
    show "edge_entry (users_map H) x =
           (if x = producer_node_id e then set_erase (edge_key e) (edge_entry (users_map G) x)
            else edge_entry (users_map G) x)" for x
      using present set_erase_absent [of "edge_key e" "edge_entry (users_map G) (producer_node_id e)"]
      by (simp add: H)
    show "dom (map_of (users_map H)) = node_set G"
      using producer edges_okD(4) [OF assms(2)] by (auto simp: H map_of_update_conv)
  qed (use edges_okD(1-4) [OF assms(2)] in \<open>simp_all add: H map_of_update_conv\<close>)
qed

text \<open>Erasing the edges of a set from both maps, whatever else changes.\<close>

lemma edges_ok_subset:
  assumes ok: "edges_ok G"
    and ops: "\<And>c. edge_entry (operands_map H) c = filter P (edge_entry (operands_map G) c)"
    and uses: "\<And>p. edge_entry (users_map H) p = filter P (edge_entry (users_map G) p)"
    and keys: "dom (map_of (operands_map H)) = node_set H" "dom (map_of (users_map H)) = node_set H"
      "distinct (map fst (operands_map H))" "distinct (map fst (users_map H))"
  shows "edges_ok H \<and> graph_edges H = {f \<in> graph_edges G. P f}"
proof -
  have "distinct (map edge_key (edge_entry (operands_map H) c))"
    "distinct (map edge_key (edge_entry (users_map H) c))" for c
    using edges_okD(8,9) [OF ok] by (simp_all add: ops uses distinct_map_filter)
  with keys have "edges_ok H"
    unfolding edges_ok_def by (simp add: ops uses edges_ok_entries [OF ok])
  moreover have "graph_edges H = {f \<in> graph_edges G. P f}"
    unfolding graph_edges_def [of H] by (simp add: ops edges_ok_entries [OF ok])
  ultimately show ?thesis by blast
qed

lemma erase_as_filter:
  assumes "edges_ok G"
  shows "(if x = consumer_node_id e then set_erase (edge_key e) (edge_entry (operands_map G) x)
          else edge_entry (operands_map G) x) =
         filter (\<lambda>f. edge_key f \<noteq> edge_key e) (edge_entry (operands_map G) x)"
    and "(if x = producer_node_id e then set_erase (edge_key e) (edge_entry (users_map G) x)
          else edge_entry (users_map G) x) =
         filter (\<lambda>f. edge_key f \<noteq> edge_key e) (edge_entry (users_map G) x)"
proof -
  have "edge_key f \<noteq> edge_key e" if "f \<in> set (edge_entry (operands_map G) x)" "x \<noteq> consumer_node_id e" for f
    using edges_okD(5) [OF assms that(1)] that(2) by (simp add: edge_key_def)
  then show "(if x = consumer_node_id e then set_erase (edge_key e) (edge_entry (operands_map G) x)
          else edge_entry (operands_map G) x) =
         filter (\<lambda>f. edge_key f \<noteq> edge_key e) (edge_entry (operands_map G) x)"
    by (simp add: set_erase_def)
  have "edge_key f \<noteq> edge_key e" if "f \<in> set (edge_entry (users_map G) x)" "x \<noteq> producer_node_id e" for f
    using edges_okD(6) [OF assms that(1)] that(2) by (simp add: edge_key_def)
  then show "(if x = producer_node_id e then set_erase (edge_key e) (edge_entry (users_map G) x)
          else edge_entry (users_map G) x) =
         filter (\<lambda>f. edge_key f \<noteq> edge_key e) (edge_entry (users_map G) x)"
    by (simp add: set_erase_def)
qed

lemma remove_edge_ok:
  assumes ok: "graph_ok G" and remove: "remove_edge e G = Inr (p, H)" and c: "consumer_node_id e \<in> node_set G"
  shows "graph_ok H \<and> graph_edges H = {f \<in> graph_edges G. edge_key f \<noteq> edge_key e}"
proof -
  from ok have eok: "edges_ok G" and nok: "nodes_ok G" and aok: "attributes_ok G"
    by (simp_all add: graph_ok_def)
  from remove eok show ?thesis
  proof (cases rule: remove_edgeE)
    case 1
    note same = 1(8-15)
    have set: "node_set H = node_set G" by (simp add: node_set_def same)
    have edges: "edges_ok H \<and> graph_edges H = {f \<in> graph_edges G. edge_key f \<noteq> edge_key e}"
    proof (rule edges_ok_subset [OF eok])
      show "edge_entry (operands_map H) x = filter (\<lambda>f. edge_key f \<noteq> edge_key e) (edge_entry (operands_map G) x)" for x
        by (simp only: 1(3) erase_as_filter(1) [OF eok])
      show "edge_entry (users_map H) x = filter (\<lambda>f. edge_key f \<noteq> edge_key e) (edge_entry (users_map G) x)" for x
        by (simp only: 1(2) erase_as_filter(2) [OF eok])
    qed (use 1(4-7) c in \<open>simp_all add: set insert_absorb\<close>)
    moreover have "nodes_ok H" by (rule nodes_ok_frame [OF nok]) (simp_all add: same)
    moreover have "attributes_ok H"
      using aok unfolding attributes_ok_def same by (simp only: 1(3) erase_as_filter(1) [OF eok]) auto
    ultimately show ?thesis by (simp add: graph_ok_def)
  qed
qed

section \<open>Removing a node\<close>

lemma erase_edges_Cons:
  "erase_edges side (e # es) m =
   erase_edges side es (AList.update (side e) (set_erase (edge_key e) (edge_entry m (side e))) m)"
  by (simp add: erase_edges_def)

lemma erase_edges_entry:
  "edge_entry (erase_edges side es m) x =
     filter (\<lambda>f. \<forall>e \<in> set es. side e = x \<longrightarrow> edge_key f \<noteq> edge_key e) (edge_entry m x)"
proof (induction es arbitrary: m)
  case Nil
  then show ?case by (simp add: erase_edges_def)
next
  case (Cons e es)
  show ?case by (auto simp: erase_edges_Cons Cons.IH set_erase_def intro!: filter_cong)
qed

lemma dom_update_key: "dom (map_of (AList.update k v m)) = insert k (dom (map_of m))"
  by (auto simp: map_of_update_conv split: if_splits)

lemma erase_edges_dom:
  "dom (map_of (erase_edges side es m)) = dom (map_of m) \<union> side ` set es"
proof (induction es arbitrary: m)
  case (Cons e es)
  show ?case unfolding erase_edges_Cons Cons.IH dom_update_key by auto
qed (simp add: erase_edges_def)

lemma erase_edges_distinct:
  "distinct (map fst m) \<Longrightarrow> distinct (map fst (erase_edges side es m))"
proof (induction es arbitrary: m)
  case (Cons e es)
  then show ?case by (simp add: erase_edges_Cons)
qed (simp add: erase_edges_def)

text \<open>In a sound graph the first loop of \<open>remove_node\<close> drops the node's operand edges from the user
  sets, and the second one its remaining user edges from the operand sets.\<close>

lemma erase_operands_of:
  assumes ok: "edges_ok G"
  shows "edge_entry (erase_edges producer_node_id (edge_entry (operands_map G) n) (users_map G)) x =
         filter (\<lambda>f. consumer_node_id f \<noteq> n) (edge_entry (users_map G) x)"
proof -
  have "(\<forall>e \<in> set (edge_entry (operands_map G) n). producer_node_id e = x \<longrightarrow> edge_key f \<noteq> edge_key e) \<longleftrightarrow>
        consumer_node_id f \<noteq> n" if f: "f \<in> set (edge_entry (users_map G) x)" for f
  proof -
    from f have E: "f \<in> graph_edges G" "producer_node_id f = x" by (simp_all add: edges_ok_entries [OF ok])
    show ?thesis
    proof (cases "consumer_node_id f = n")
      case True
      with E show ?thesis by (auto simp: edges_ok_entries [OF ok])
    next
      case False
      then show ?thesis by (auto simp: edges_ok_entries [OF ok] edge_key_def)
    qed
  qed
  then show ?thesis by (simp add: erase_edges_entry cong: filter_cong)
qed

lemma erase_users_of:
  assumes ok: "edges_ok G" and "x \<noteq> n"
    and es: "set es = {e \<in> graph_edges G. producer_node_id e = n \<and> consumer_node_id e \<noteq> n}"
  shows "edge_entry (erase_edges consumer_node_id es (operands_map G)) x =
         filter (\<lambda>f. producer_node_id f \<noteq> n) (edge_entry (operands_map G) x)"
proof -
  have "(\<forall>e \<in> set es. consumer_node_id e = x \<longrightarrow> edge_key f \<noteq> edge_key e) \<longleftrightarrow> producer_node_id f \<noteq> n"
    if f: "f \<in> set (edge_entry (operands_map G) x)" for f
  proof -
    from f have E: "f \<in> graph_edges G" "consumer_node_id f = x" by (simp_all add: edges_ok_entries [OF ok])
    show ?thesis
    proof (cases "producer_node_id f = n")
      case True
      with E assms(2) show ?thesis by (auto simp: es)
    next
      case False
      then show ?thesis by (auto simp: es edge_key_def)
    qed
  qed
  then show ?thesis by (simp add: erase_edges_entry cong: filter_cong)
qed

lemma remove_nodeE:
  assumes "remove_node n G = Inr (x, H)" and ok: "edges_ok G"
  obtains y where "map_of (nodes_map G) n = Some y" and "x = y\<lparr>n_id := -1\<rparr>"
    and "\<And>z. edge_entry (users_map H) z =
           filter (\<lambda>f. consumer_node_id f \<noteq> n \<and> producer_node_id f \<noteq> n) (edge_entry (users_map G) z)"
    and "\<And>z. edge_entry (operands_map H) z =
           filter (\<lambda>f. consumer_node_id f \<noteq> n \<and> producer_node_id f \<noteq> n) (edge_entry (operands_map G) z)"
    and "dom (map_of (operands_map H)) = node_set G - {n}" and "dom (map_of (users_map H)) = node_set G - {n}"
    and "distinct (map fst (operands_map H))" and "distinct (map fst (users_map H))"
    and "nodes_map H = AList.delete n (nodes_map G)"
    and "node_name_to_node_id H = AList.delete (n_name y) (node_name_to_node_id G)"
    and "node_order H = removeAll n (node_order G)" and "virtual_nodes H = removeAll n (virtual_nodes G)"
    and "num_subgraphs H = num_subgraphs G" and "node_id_to_subgraph_id H = node_id_to_subgraph_id G"
    and "edge_to_attr_map H = edge_to_attr_map G" and "attr_store H = attr_store G"
proof -
  define users1 where "users1 = erase_edges producer_node_id (edge_entry (operands_map G) n) (users_map G)"
  define ops1 where "ops1 = erase_edges consumer_node_id (edge_entry users1 n) (operands_map G)"
  from assms(1) obtain y where y: "map_of (nodes_map G) n = Some y" "x = y\<lparr>n_id := -1\<rparr>"
    and H: "H = G\<lparr>node_name_to_node_id := AList.delete (n_name y) (node_name_to_node_id G),
               operands_map := AList.delete n ops1, users_map := AList.delete n users1,
               nodes_map := AList.delete n (nodes_map G),
               node_order := removeAll n (node_order G),
               virtual_nodes := removeAll n (virtual_nodes G)\<rparr>"
    by (auto simp: remove_node_def Let_def users1_def ops1_def res_simps)
  have users: "edge_entry users1 z = filter (\<lambda>f. consumer_node_id f \<noteq> n) (edge_entry (users_map G) z)" for z
    unfolding users1_def by (rule erase_operands_of [OF ok])
  have es: "set (edge_entry users1 n) = {e \<in> graph_edges G. producer_node_id e = n \<and> consumer_node_id e \<noteq> n}"
    by (auto simp: users edges_ok_entries [OF ok])
  have ops: "z \<noteq> n \<Longrightarrow> edge_entry ops1 z = filter (\<lambda>f. producer_node_id f \<noteq> n) (edge_entry (operands_map G) z)" for z
    unfolding ops1_def by (rule erase_users_of [OF ok _ es])
  have ends: "producer_node_id e \<in> node_set G" "consumer_node_id e \<in> node_set G" if "e \<in> graph_edges G" for e
    using edges_ok_ends [OF ok that] by simp_all
  have "producer_node_id ` set (edge_entry (operands_map G) n) \<subseteq> node_set G"
    using ends(1) by (auto simp: edges_ok_entries [OF ok])
  then have dom_users: "dom (map_of users1) = node_set G"
    using edges_okD(4) [OF ok] by (auto simp: users1_def erase_edges_dom)
  have "consumer_node_id ` set (edge_entry users1 n) \<subseteq> node_set G"
    unfolding es using ends(2) by auto
  then have dom_ops: "dom (map_of ops1) = node_set G"
    using edges_okD(3) [OF ok] by (auto simp: ops1_def erase_edges_dom)
  show thesis
  proof (rule that [OF y])
    fix z
    show "edge_entry (users_map H) z =
           filter (\<lambda>f. consumer_node_id f \<noteq> n \<and> producer_node_id f \<noteq> n) (edge_entry (users_map G) z)"
      using edges_okD(6) [OF ok, of _ z] by (auto simp: H users intro!: filter_cong filter_False [symmetric])
    show "edge_entry (operands_map H) z =
           filter (\<lambda>f. consumer_node_id f \<noteq> n \<and> producer_node_id f \<noteq> n) (edge_entry (operands_map G) z)"
      using edges_okD(5) [OF ok, of _ z] by (auto simp: H ops intro!: filter_cong filter_False [symmetric])
    show "dom (map_of (operands_map H)) = node_set G - {n}"
      by (auto simp: H map_of_delete_conv dom_ops [symmetric])
    show "dom (map_of (users_map H)) = node_set G - {n}"
      by (auto simp: H map_of_delete_conv dom_users [symmetric])
    show "distinct (map fst (operands_map H))" "distinct (map fst (users_map H))"
      by (simp_all add: H ops1_def users1_def erase_edges_distinct edges_okD(1,2) [OF ok])
  qed (simp_all add: H)
qed

lemma nodes_ok_remove:
  assumes ok: "nodes_ok G" and y: "map_of (nodes_map G) n = Some y"
    and H: "nodes_map H = AList.delete n (nodes_map G)"
      "node_name_to_node_id H = AList.delete (n_name y) (node_name_to_node_id G)"
      "node_order H = removeAll n (node_order G)" "virtual_nodes H = removeAll n (virtual_nodes G)"
      "num_subgraphs H = num_subgraphs G" "node_id_to_subgraph_id H = node_id_to_subgraph_id G"
  shows "nodes_ok H \<and> node_set H = node_set G - {n}"
proof -
  have nodes: "map_of (nodes_map H) m = (if m = n then None else map_of (nodes_map G) m)" for m
    by (simp add: H(1) map_of_delete_conv)
  then have set: "node_set H = node_set G - {n}" by (auto simp: node_set_def split: if_splits)
  have names: "map_of (node_name_to_node_id H) name = Some m \<longleftrightarrow>
        (\<exists>z. map_of (nodes_map H) m = Some z \<and> n_name z = name)" for name m
  proof (cases "name = n_name y")
    case True
    have "map_of (node_name_to_node_id G) name = Some n" using nodes_okD(5) [OF ok] y True by blast
    then have "m = n" if "map_of (nodes_map G) m = Some z" "n_name z = name" for z
      using nodes_okD(5) [OF ok, of name m] that by auto
    with True show ?thesis using H(2) by (auto simp: nodes map_of_delete_conv)
  next
    case False
    then show ?thesis
      using H(2) nodes_okD(5) [OF ok, of name m] y by (auto simp: nodes map_of_delete_conv)
  qed
  have "nodes_ok H"
    unfolding nodes_ok_def
    using nodes_okD(1,2,3,7) [OF ok] names set H(1,3,4,5,6)
      nodes_okD(4) [OF ok] nodes_okD(6) [OF ok]
    by (auto simp: nodes distinct_removeAll split: if_splits)
  with set show ?thesis by blast
qed

lemma remove_node_ok:
  assumes ok: "graph_ok G" and remove: "remove_node n G = Inr (x, H)"
  shows "graph_ok H \<and> node_set H = node_set G - {n} \<and>
         graph_edges H = {f \<in> graph_edges G. consumer_node_id f \<noteq> n \<and> producer_node_id f \<noteq> n}"
proof -
  from ok have eok: "edges_ok G" and nok: "nodes_ok G" and aok: "attributes_ok G"
    by (simp_all add: graph_ok_def)
  from remove eok show ?thesis
  proof (cases rule: remove_nodeE)
    case (1 y)
    note nodes = nodes_ok_remove [OF nok 1(1) 1(9-14)]
    have edges: "edges_ok H \<and> graph_edges H =
        {f \<in> graph_edges G. consumer_node_id f \<noteq> n \<and> producer_node_id f \<noteq> n}"
      by (rule edges_ok_subset [OF eok 1(4) 1(3)]) (use 1(5-8) nodes in simp_all)
    have "attributes_ok H"
      using aok unfolding attributes_ok_def 1(15,16) by (simp only: 1(4)) auto
    with nodes edges show ?thesis by (simp add: graph_ok_def)
  qed
qed

section \<open>Renaming\<close>

lemma update_node_name_ok:
  assumes ok: "graph_ok G" and rename: "update_node_name n name G = Inr H"
    and free: "\<And>m. map_of (node_name_to_node_id G) name = Some m \<Longrightarrow> m = n"
  shows "graph_ok H \<and> (\<exists>x. node_by_name H name = Inr x \<and> n_id x = n)"
proof -
  from ok have eok: "edges_ok G" and nok: "nodes_ok G" and aok: "attributes_ok G"
    by (simp_all add: graph_ok_def)
  from rename obtain x where x: "map_of (nodes_map G) n = Some x"
    by (auto simp: update_node_name_def node_by_id_def res_simps split: option.splits)
  have old: "map_of (node_name_to_node_id G) (n_name x) = Some n"
    using nodes_okD(5) [OF nok] x by blast
  with rename x have H: "H = set_node n (x\<lparr>n_name := name\<rparr>)
      (G\<lparr>node_name_to_node_id := AList.update name n (AList.delete (n_name x) (node_name_to_node_id G))\<rparr>)"
    by (simp add: update_node_name_def node_by_id_def Let_def)
  have nodes: "map_of (nodes_map H) m = (if m = n then Some (x\<lparr>n_name := name\<rparr>) else map_of (nodes_map G) m)" for m
    by (simp add: H set_node_def map_of_update_conv)
  have named: "map_of (node_name_to_node_id H) s =
      (if s = name then Some n else if s = n_name x then None else map_of (node_name_to_node_id G) s)" for s
    by (simp add: H set_node_def map_of_update_conv map_of_delete_conv)
  have set: "node_set H = node_set G" using x by (auto simp: node_set_def nodes split: if_splits)
  have names: "map_of (node_name_to_node_id H) s = Some m \<longleftrightarrow>
        (\<exists>z. map_of (nodes_map H) m = Some z \<and> n_name z = s)" for s m
  proof -
    have G: "map_of (node_name_to_node_id G) t = Some m" if "map_of (nodes_map G) m = Some z" "n_name z = t" for z t
      using nodes_okD(5) [OF nok, of t m] that by blast
    consider "s = name" | "s \<noteq> name" "s = n_name x" | "s \<noteq> name" "s \<noteq> n_name x" by blast
    then show ?thesis
    proof cases
      case 1
      then show ?thesis using G free by (auto simp: nodes named)
    next
      case 2
      then show ?thesis using G old by (auto simp: nodes named)
    next
      case 3
      then show ?thesis using nodes_okD(5) [OF nok, of s m] x by (auto simp: nodes named)
    qed
  qed
  have "nodes_ok H"
    unfolding nodes_ok_def
    using nodes_okD(1,2,3,7) [OF nok] names set nodes_okD(4) [OF nok] nodes_okD(6) [OF nok] x
    by (auto simp: nodes H set_node_def split: if_splits)
  moreover have "edges_ok H"
    by (rule edges_ok_frame [OF eok]) (simp_all add: set, simp_all add: H set_node_def edges_okD(1-4) [OF eok])
  moreover have "attributes_ok H"
    by (rule attributes_ok_frame [OF aok]) (simp_all add: H set_node_def)
  moreover have "node_by_name H name = Inr (x\<lparr>n_name := name\<rparr>)"
    by (simp add: node_by_name_def node_by_id_def named nodes)
  ultimately show ?thesis using nodes_okD(4) [OF nok x] by (simp add: graph_ok_def)
qed

end
