(* ===== verification/Graph_Run.thy ===== *)
theory Graph_Run
  imports Graph_Edit "HOL-Library.Multiset"
begin

text \<open>
  Graphs as disciplined clients build them: a step is one call of an operation of the interface, and a
  reachable graph is an empty one after any sequence of steps. The discipline is that edges join nodes of
  the graph, that attributes exist, that a node is renamed to a name no node has, that an edge is
  numbered by the counter or, like the changed copy of an edge that was removed (\<open>swap\<close> and others in
  \<open>graph_lib/utils.cpp\<close>), has a number that no edge of the graph has, and that the counters do not wrap.
  The operations do not check this. \<open>update_node_name\<close> with a taken name, and \<open>set_name\<close> on a node without
  the graph (\<open>fork_subgraph\<close>), leave the discipline, and after them the table of the names is wrong.
  Reachable graphs keep the invariant of the store, and no two edges have the same number.
\<close>

section \<open>Steps\<close>

inductive graph_step :: "IdCounters \<times> Graph \<Rightarrow> IdCounters \<times> Graph \<Rightarrow> bool" where
  new_node: "add_node x i d (ids, G) = Inr (n, ids', H) \<Longrightarrow> i + 1 < 2 ^ 32 \<Longrightarrow>
             graph_step (ids, G) (ids', H)"
| new_edge: "has_node_with_id G p \<Longrightarrow> has_node_with_id G c \<Longrightarrow>
             last_assigned_edge_creation_id ids + 1 < 2 ^ 64 \<Longrightarrow>
             graph_step (ids, G) (add_edge_ports p c pout cin t (ids, G))"
| new_edge_at_end: "has_node_with_id G p \<Longrightarrow> has_node_with_id G c \<Longrightarrow>
             last_assigned_edge_creation_id ids + 1 < 2 ^ 64 \<Longrightarrow>
             add_edge p c t (ids, G) = Inr s \<Longrightarrow> graph_step (ids, G) s"
| new_edge_sharing: "has_node_with_id G p \<Longrightarrow> has_node_with_id G c \<Longrightarrow>
             last_assigned_edge_creation_id ids + 1 < 2 ^ 64 \<Longrightarrow> a < length (attr_store G) \<Longrightarrow>
             mk_edge p pout c cin t ids = (e, ids') \<Longrightarrow>
             graph_step (ids, G) (ids', add_edge_with e (Some a) G)"
| changed_edge: "has_node_with_id G (producer_node_id e) \<Longrightarrow> has_node_with_id G (consumer_node_id e) \<Longrightarrow>
             edge_creation_id e < last_assigned_edge_creation_id ids \<Longrightarrow>
             \<forall>f \<in> graph_edges G. edge_creation_id f \<noteq> edge_creation_id e \<Longrightarrow>
             \<forall>q. a = Some q \<longrightarrow> q < length (attr_store G) \<Longrightarrow>
             graph_step (ids, G) (ids, add_edge_with e a G)"
| drop_edge: "has_node_with_id G (consumer_node_id e) \<Longrightarrow> remove_edge e G = Inr (a, H) \<Longrightarrow>
             graph_step (ids, G) (ids, H)"
| drop_node: "remove_node n G = Inr (x, H) \<Longrightarrow> graph_step (ids, G) (ids, H)"
| rename: "\<not> has_node_with_name G name \<Longrightarrow> update_node_name n name G = Inr H \<Longrightarrow>
             graph_step (ids, G) (ids, H)"
| mark_virtual: "has_node_with_id G n \<Longrightarrow> graph_step (ids, G) (ids, mark_node_virtual n G)"
| mark_persisted: "mark_node_persisted n G = Inr H \<Longrightarrow> graph_step (ids, G) (ids, H)"
| move_subgraph: "i + 1 < 2 ^ 32 \<Longrightarrow> graph_step (ids, G) (ids, move_node_to_subgraph n i G)"
| enter: "graph_step (ids, G) (ids, snd (enter_context nodes virt ignored G))"
| leave: "graph_step (ids, G) (ids, leave_context saved G)"
| register_inputs: "graph_step (ids, G) (ids, register_module_inputs ns keep G)"
| register_targets: "graph_step (ids, G) (ids, register_module_targets ns G)"
| register_outputs: "register_module_outputs ns grads keep G = Inr H \<Longrightarrow> graph_step (ids, G) (ids, H)"
| forget_input: "remove_module_input n G = Inr (i, H) \<Longrightarrow> graph_step (ids, G) (ids, H)"
| forget_output: "remove_module_output n G = Inr (i, H) \<Longrightarrow> graph_step (ids, G) (ids, H)"
| forget_target: "remove_module_target n G = Inr (i, H) \<Longrightarrow> graph_step (ids, G) (ids, H)"

inductive graph_reachable :: "IdCounters \<times> Graph \<Rightarrow> bool" where
  start: "graph_reachable (ids, mk_graph name i)"
| step: "graph_reachable s \<Longrightarrow> graph_step s t \<Longrightarrow> graph_reachable t"

section \<open>The invariant along a run\<close>

definition ids_ok :: "IdCounters \<Rightarrow> Graph \<Rightarrow> bool" where
  "ids_ok ids G \<longleftrightarrow>
     inj_on edge_creation_id (graph_edges G) \<and>
     (\<forall>e \<in> graph_edges G. edge_creation_id e < last_assigned_edge_creation_id ids)"

definition run_ok :: "IdCounters \<times> Graph \<Rightarrow> bool" where
  "run_ok s \<longleftrightarrow> graph_ok (snd s) \<and> ids_ok (fst s) (snd s)"

lemma ids_ok_subset:
  "ids_ok ids G \<Longrightarrow> graph_edges H \<subseteq> graph_edges G \<Longrightarrow> ids_ok ids H"
  unfolding ids_ok_def by (meson inj_on_subset subsetD)

lemma graph_edges_cong:
  "edge_entry (operands_map H) = edge_entry (operands_map G) \<Longrightarrow> graph_edges H = graph_edges G"
  by (simp add: graph_edges_def)

lemma graph_ok_frame:
  assumes "graph_ok G" and "nodes_map H = nodes_map G" and "node_order H = node_order G"
    and "node_name_to_node_id H = node_name_to_node_id G"
    and "operands_map H = operands_map G" and "users_map H = users_map G"
    and "edge_to_attr_map H = edge_to_attr_map G" and "attr_store H = attr_store G"
    and "set (virtual_nodes H) \<subseteq> node_set G"
    and "\<forall>n \<in> node_set G. \<exists>i < num_subgraphs H. map_of (node_id_to_subgraph_id H) n = Some i"
  shows "graph_ok H \<and> graph_edges H = graph_edges G"
proof -
  from assms(1) have nok: "nodes_ok G" and eok: "edges_ok G" and aok: "attributes_ok G"
    by (simp_all add: graph_ok_def)
  have set: "node_set H = node_set G" using assms(2) by (simp add: node_set_def)
  have "nodes_ok H"
    unfolding nodes_ok_def set assms(2-4)
    using nodes_okD(1-5) [OF nok] assms(9,10) by blast
  moreover have "edges_ok H"
    by (rule edges_ok_frame [OF eok]) (simp_all add: set assms(5,6) edges_okD(1-4) [OF eok])
  moreover have "attributes_ok H"
    by (rule attributes_ok_frame [OF aok]) (simp_all add: assms(5,7,8))
  ultimately show ?thesis by (simp add: graph_ok_def graph_edges_def assms(5))
qed

lemma add_edge_run_ok:
  assumes ok: "run_ok (ids, G)" and ends: "producer_node_id e \<in> node_set G" "consumer_node_id e \<in> node_set G"
    and counter: "edge_creation_id e < last_assigned_edge_creation_id ids'"
      "last_assigned_edge_creation_id ids \<le> last_assigned_edge_creation_id ids'"
    and unused: "\<forall>f \<in> graph_edges G. edge_creation_id f \<noteq> edge_creation_id e"
    and a: "\<And>q. a = Some q \<Longrightarrow> q < length (attr_store G)"
  shows "run_ok (ids', add_edge_with e a G)"
proof -
  from ok have gok: "graph_ok G" and iok: "ids_ok ids G" by (simp_all add: run_ok_def)
  have "graph_ok (add_edge_with e a G)"
    by (rule add_edge_ok [OF gok]) (use ends a in simp_all)
  moreover have sub: "graph_edges (add_edge_with e a G) \<subseteq> insert e (graph_edges G)"
  proof (cases "edge_key e \<in> edge_keys G")
    case True
    have "graph_edges (add_edge_with e a G) = graph_edges G"
      by (rule graph_edges_cong) (use add_edge_present [OF _ True] gok in \<open>simp add: graph_ok_def\<close>)
    then show ?thesis by blast
  next
    case False
    then show ?thesis using add_edge_absent gok by (simp add: graph_ok_def)
  qed
  moreover have "ids_ok ids' (add_edge_with e a G)"
  proof -
    have "inj_on edge_creation_id (insert e (graph_edges G))"
      using iok unused unfolding ids_ok_def inj_on_insert by fastforce
    moreover have "edge_creation_id f < last_assigned_edge_creation_id ids'" if "f \<in> insert e (graph_edges G)" for f
      using that iok counter unfolding ids_ok_def by (auto intro: less_le_trans)
    ultimately show ?thesis
      using sub unfolding ids_ok_def by (meson inj_on_subset subsetD)
  qed
  ultimately show ?thesis by (simp add: run_ok_def)
qed

lemma new_edge_run_ok:
  assumes ok: "run_ok (ids, G)" and ends: "p \<in> node_set G" "c \<in> node_set G"
    and small: "last_assigned_edge_creation_id ids + 1 < 2 ^ 64"
    and e: "mk_edge p pout c cin t ids = (e, ids')" and a: "\<And>q. a = Some q \<Longrightarrow> q < length (attr_store G)"
  shows "run_ok (ids', add_edge_with e a G)"
proof -
  from e have e_eq: "producer_node_id e = p" "consumer_node_id e = c"
    "edge_creation_id e = last_assigned_edge_creation_id ids"
    and ids': "last_assigned_edge_creation_id ids' = last_assigned_edge_creation_id ids + 1"
    using small by (auto simp: mk_edge_def u32_simps)
  have "\<forall>f \<in> graph_edges G. edge_creation_id f \<noteq> edge_creation_id e"
    using ok by (auto simp: run_ok_def ids_ok_def e_eq)
  then show ?thesis
    by (rule add_edge_run_ok [OF ok, rotated 4]) (simp_all add: ends e_eq ids' a)
qed

lemma add_node_edges:
  assumes "graph_ok G" and "add_node x i d (ids, G) = Inr (n, ids', H)"
  shows "graph_edges H = graph_edges G \<and>
         last_assigned_edge_creation_id ids' = last_assigned_edge_creation_id ids"
  using assms(2)
proof (cases rule: add_nodeE)
  case 1
  have "n \<notin> dom (map_of (operands_map G))"
    using 1(2) assms(1) by (simp add: graph_ok_def edges_okD)
  then have "graph_edges H = graph_edges G"
    by (intro graph_edges_cong) (simp add: 1(5) edge_entry_new)
  then show ?thesis by (simp add: 1(3) split: option.split)
qed

lemma set_node_ok:
  assumes ok: "graph_ok G" and x: "map_of (nodes_map G) n = Some x" and y: "n_name y = n_name x" "n_id y = n"
  shows "graph_ok (set_node n y G) \<and> graph_edges (set_node n y G) = graph_edges G"
proof -
  let ?H = "set_node n y G"
  from ok have nok: "nodes_ok G" and eok: "edges_ok G" and aok: "attributes_ok G"
    by (simp_all add: graph_ok_def)
  have nodes: "map_of (nodes_map ?H) m = (if m = n then Some y else map_of (nodes_map G) m)" for m
    by (simp add: set_node_def map_of_update_conv)
  have set: "node_set ?H = node_set G" using x by (auto simp: node_set_def nodes split: if_splits)
  have names: "map_of (node_name_to_node_id ?H) name = Some m \<longleftrightarrow>
        (\<exists>z. map_of (nodes_map ?H) m = Some z \<and> n_name z = name)" for name m
    using nodes_okD(5) [OF nok, of name m] x y(1)
    by (cases "m = n") (simp_all add: nodes, simp_all add: set_node_def)
  have ids: "n_id z = m" if "map_of (nodes_map ?H) m = Some z" for z m
    using that nodes_okD(4) [OF nok, of m z] y(2) by (simp add: nodes split: if_splits)
  have "nodes_ok ?H"
    unfolding nodes_ok_def set
    using nodes_okD(1,2,3,6,7) [OF nok] names ids by (auto simp: set_node_def)
  moreover have "edges_ok ?H"
    by (rule edges_ok_frame [OF eok]) (simp_all add: set, simp_all add: set_node_def edges_okD(1-4) [OF eok])
  moreover have "attributes_ok ?H" by (rule attributes_ok_frame [OF aok]) (simp_all add: set_node_def)
  ultimately show ?thesis by (simp add: graph_ok_def) (simp add: graph_edges_def set_node_def)
qed

lemma module_lists_ok:
  assumes "run_ok (ids, G)"
  shows "run_ok (ids, G\<lparr>ordered_module_input_node_ids := ns\<rparr>)"
    and "run_ok (ids, G\<lparr>ordered_module_output_node_ids := ns\<rparr>)"
    and "run_ok (ids, G\<lparr>ordered_module_target_node_ids := ns\<rparr>)"
proof -
  from assms have ok: "graph_ok G" "ids_ok ids G" by (simp_all add: run_ok_def)
  then have n: "set (virtual_nodes G) \<subseteq> node_set G"
    "\<forall>n \<in> node_set G. \<exists>i < num_subgraphs G. map_of (node_id_to_subgraph_id G) n = Some i"
    using nodes_okD(6,7) [of G] by (auto simp: graph_ok_def)
  have "graph_ok (G\<lparr>ordered_module_input_node_ids := ns\<rparr>) \<and>
        graph_edges (G\<lparr>ordered_module_input_node_ids := ns\<rparr>) = graph_edges G"
    "graph_ok (G\<lparr>ordered_module_output_node_ids := ns\<rparr>) \<and>
        graph_edges (G\<lparr>ordered_module_output_node_ids := ns\<rparr>) = graph_edges G"
    "graph_ok (G\<lparr>ordered_module_target_node_ids := ns\<rparr>) \<and>
        graph_edges (G\<lparr>ordered_module_target_node_ids := ns\<rparr>) = graph_edges G"
    by (rule graph_ok_frame [OF ok(1)]; simp add: n)+
  then show "run_ok (ids, G\<lparr>ordered_module_input_node_ids := ns\<rparr>)"
    and "run_ok (ids, G\<lparr>ordered_module_output_node_ids := ns\<rparr>)"
    and "run_ok (ids, G\<lparr>ordered_module_target_node_ids := ns\<rparr>)"
    using ok by (simp_all add: run_ok_def ids_ok_def)
qed

lemma set_requires_grad_ok:
  assumes "run_ok (ids, G)" and "set_requires_grad n b G = Inr H"
  shows "run_ok (ids, H)"
proof -
  from assms(2) obtain x f where x: "map_of (nodes_map G) n = Some x"
    and H: "H = set_node n (x\<lparr>n_class := OutputNodeClass (f\<lparr>output_requires_grad := b\<rparr>)\<rparr>) G"
    by (auto simp: set_requires_grad_def node_by_id_def res_simps split: option.splits)
  have "n_id x = n" using nodes_okD(4) [of G n x] x assms(1) by (simp add: run_ok_def graph_ok_def)
  then show ?thesis
    using set_node_ok [of G n x "x\<lparr>n_class := OutputNodeClass (f\<lparr>output_requires_grad := b\<rparr>)\<rparr>"] x assms(1)
    by (simp add: H run_ok_def ids_ok_def)
qed

lemma graph_step_ok:
  assumes "graph_step s t" and "run_ok s"
  shows "run_ok t"
  using assms
proof (induction rule: graph_step.induct)
  case (new_node x i d ids G n ids' H)
  then show ?case
    using add_node_ok [of G x i d ids n ids' H] add_node_edges [of G x i d ids n ids' H]
    by (simp add: run_ok_def ids_ok_def)
next
  case (new_edge G p c ids pout cin t)
  obtain e ids' where e: "mk_edge p pout c cin t ids = (e, ids')" by (cases "mk_edge p pout c cin t ids")
  show ?case
    using new_edge_run_ok [OF new_edge(4) _ _ new_edge(3) e, of None] new_edge(1,2)
    by (simp add: add_edge_ports_def e has_node_with_id_iff)
next
  case (new_edge_at_end G p c ids t s)
  from new_edge_at_end(4) obtain es where
    s: "s = add_edge_ports p c 0 (next_input_port es) t (ids, G)"
    by (auto simp: add_edge_def res_simps)
  obtain e ids' where e: "mk_edge p 0 c (next_input_port es) t ids = (e, ids')"
    by (cases "mk_edge p 0 c (next_input_port es) t ids")
  show ?case
    using new_edge_run_ok [OF new_edge_at_end(5) _ _ new_edge_at_end(3) e, of None] new_edge_at_end(1,2)
    by (simp add: s add_edge_ports_def e has_node_with_id_iff)
next
  case (new_edge_sharing G p c ids a pout cin t e ids')
  then show ?case
    using new_edge_run_ok [of ids G p c pout cin t e ids' "Some a"] by (simp add: has_node_with_id_iff)
next
  case (changed_edge G e ids a)
  then show ?case
    using add_edge_run_ok [of ids G e ids a] by (simp add: has_node_with_id_iff)
next
  case (drop_edge G e a H ids)
  then show ?case
    using remove_edge_ok [of G e a H] ids_ok_subset [of ids G H] by (simp add: run_ok_def has_node_with_id_iff)
next
  case (drop_node n G x H ids)
  then show ?case
    using remove_node_ok [of G n x H] ids_ok_subset [of ids G H] by (simp add: run_ok_def)
next
  case (rename G name n H ids)
  then have ok: "graph_ok H"
    using update_node_name_ok [of G n name H] by (auto simp: run_ok_def has_node_with_name_def)
  have "operands_map H = operands_map G"
    using rename(2) by (auto simp: update_node_name_def set_node_def Let_def res_simps)
  then have "graph_edges H = graph_edges G" by (simp add: graph_edges_def)
  with ok rename(3) show ?case by (simp add: run_ok_def ids_ok_def)
next
  case (mark_virtual G n ids)
  have "graph_ok (mark_node_virtual n G) \<and> graph_edges (mark_node_virtual n G) = graph_edges G"
    by (rule graph_ok_frame)
      (use mark_virtual nodes_okD(6,7) [of G] in
        \<open>auto simp: run_ok_def graph_ok_def mark_node_virtual_def has_node_with_id_iff\<close>)
  with mark_virtual show ?case by (simp add: run_ok_def ids_ok_def)
next
  case (mark_persisted n G H ids)
  then have H: "H = G\<lparr>virtual_nodes := removeAll n (virtual_nodes G)\<rparr>"
    by (auto simp: mark_node_persisted_def res_simps)
  have "graph_ok H \<and> graph_edges H = graph_edges G"
    by (rule graph_ok_frame)
      (use mark_persisted nodes_okD(6,7) [of G] in \<open>auto simp: run_ok_def graph_ok_def H\<close>)
  with mark_persisted show ?case by (simp add: run_ok_def ids_ok_def)
next
  case (move_subgraph i ids G n)
  let ?H0 = "G\<lparr>node_id_to_subgraph_id := AList.update n i (node_id_to_subgraph_id G)\<rparr>"
  have nok: "nodes_ok G" using move_subgraph by (simp add: run_ok_def graph_ok_def)
  have "graph_ok (move_node_to_subgraph n i G) \<and>
        graph_edges (move_node_to_subgraph n i G) = graph_edges G"
  proof (rule graph_ok_frame)
    show "\<forall>m \<in> node_set G. \<exists>j < num_subgraphs (move_node_to_subgraph n i G).
            map_of (node_id_to_subgraph_id (move_node_to_subgraph n i G)) m = Some j"
    proof
      fix m assume "m \<in> node_set G"
      then obtain j where "j < num_subgraphs G" "map_of (node_id_to_subgraph_id G) m = Some j"
        using nodes_okD(6) [OF nok] by blast
      then show "\<exists>j < num_subgraphs (move_node_to_subgraph n i G).
            map_of (node_id_to_subgraph_id (move_node_to_subgraph n i G)) m = Some j"
        using enlarged [OF move_subgraph(1), of ?H0]
        by (cases "m = n") (auto simp: move_node_to_subgraph_def)
    qed
  qed (use move_subgraph nodes_okD(7) [OF nok] in \<open>simp_all add: move_node_to_subgraph_def run_ok_def\<close>)
  with move_subgraph show ?case by (simp add: run_ok_def ids_ok_def)
next
  case (enter ids G nodes virt ignored)
  let ?H = "snd (enter_context nodes virt ignored G)"
  have "graph_ok ?H \<and> graph_edges ?H = graph_edges G"
    by (rule graph_ok_frame)
      (use enter nodes_okD(6,7) [of G] in \<open>auto simp: run_ok_def graph_ok_def enter_context_def\<close>)
  with enter show ?case by (simp add: run_ok_def ids_ok_def)
next
  case (leave ids G saved)
  have "graph_ok (leave_context saved G) \<and> graph_edges (leave_context saved G) = graph_edges G"
    by (rule graph_ok_frame)
      (use leave nodes_okD(6,7) [of G] in
        \<open>auto simp: run_ok_def graph_ok_def leave_context_def split: prod.splits\<close>)
  with leave show ?case by (simp add: run_ok_def ids_ok_def)
next
  case (register_outputs ns grads keep G H ids)
  from register_outputs(1) have
    "fold_res (\<lambda>(n, b). set_requires_grad n b) (zip ns grads)
       (G\<lparr>ordered_module_output_node_ids := (if keep then ordered_module_output_node_ids G else []) @ ns\<rparr>) = Inr H"
    by (auto simp: register_module_outputs_def res_simps)
  then show ?case
    by (rule fold_res_invariant [where P = "\<lambda>G. run_ok (ids, G)"])
      (auto simp: module_lists_ok register_outputs(2) intro: set_requires_grad_ok)
qed (auto simp: register_module_inputs_def register_module_targets_def remove_module_input_def
    remove_module_output_def remove_module_target_def res_simps module_lists_ok)

lemma graph_reachable_ok:
  assumes "graph_reachable s"
  shows "run_ok s"
  using assms
proof (induction rule: graph_reachable.induct)
  case (start ids name i)
  have "graph_edges (mk_graph name i) = {}" by (simp add: graph_edges_def mk_graph_def edge_entry_def)
  then show ?case by (simp add: run_ok_def ids_ok_def)
qed (rule graph_step_ok)

end
