(* ===== verification/Graph_Views.thy ===== *)
theory Graph_Views
  imports Graph_Run Graph_Queries
begin

text \<open>
  In a sound graph the edge queries do not fail; here they are as sets and lists: which edges are
  seen, and the producers and consumers at their ends.
\<close>

definition edge_shown :: "Graph \<Rightarrow> Edge \<Rightarrow> bool" where
  "edge_shown G e \<longleftrightarrow>
     no_context G \<or>
     (\<not> in_context (ignored_edges_traversal_context G) (edge_key e) \<and>
      is_node_visible G (producer_node_id e) \<and> is_node_visible G (consumer_node_id e))"

lemma is_edge_visible_pure:
  assumes "graph_ok G" and "e \<in> graph_edges G"
  shows "is_edge_visible G e = Inr (edge_shown G e)"
proof -
  have "producer_node_id e \<in> node_set G" "consumer_node_id e \<in> node_set G"
    using edges_ok_ends [OF _ assms(2)] assms(1) by (simp_all add: graph_ok_def)
  then show ?thesis by (auto simp: is_edge_visible_def edge_shown_def node_by_id_def node_set_def)
qed

lemma visible_edges_pure:
  assumes "graph_ok G" and "set es \<subseteq> graph_edges G"
  shows "visible_edges G f es = Inr [e \<leftarrow> es. f e \<and> edge_shown G e]"
proof -
  let ?step = "\<lambda>e acc. if f e then res_bind (is_edge_visible G e) (\<lambda>v. Inr (if v then acc @ [e] else acc)) else Inr acc"
  have "fold_res ?step es acc = Inr (acc @ [e \<leftarrow> es. f e \<and> edge_shown G e])" for acc
    using assms(2)
  proof (induction es arbitrary: acc)
    case (Cons e es)
    then show ?case by (simp add: is_edge_visible_pure [OF assms(1)])
  qed simp
  then show ?thesis by (simp add: visible_edges_def)
qed

lemma operand_edges_pure:
  assumes "graph_ok G" and "n \<in> node_set G"
  shows "operand_edges G f n =
         Inr (sort_key consumer_input_port_id [e \<leftarrow> edge_entry (operands_map G) n. f e \<and> edge_shown G e])"
proof -
  from assms have eok: "edges_ok G" by (simp add: graph_ok_def)
  have "at_key (operands_map G) n = Inr (edge_entry (operands_map G) n)"
    by (rule edge_entry_at_key) (simp add: edges_okD(3) [OF eok] assms(2))
  moreover have "set (edge_entry (operands_map G) n) \<subseteq> graph_edges G"
    by (auto simp: edges_ok_entries [OF eok])
  ultimately show ?thesis
    by (simp add: operand_edges_def operand_edges_set_def visible_edges_pure [OF assms(1)])
qed

lemma user_edges_pure:
  assumes "graph_ok G" and "n \<in> node_set G"
  shows "user_edges G f n =
         Inr (sort_key user_edge_order [e \<leftarrow> edge_entry (users_map G) n. f e \<and> edge_shown G e])"
proof -
  from assms have eok: "edges_ok G" by (simp add: graph_ok_def)
  have "at_key (users_map G) n = Inr (edge_entry (users_map G) n)"
    by (rule edge_entry_at_key) (simp add: edges_okD(4) [OF eok] assms(2))
  moreover have "set (edge_entry (users_map G) n) \<subseteq> graph_edges G"
    by (auto simp: edges_ok_entries [OF eok])
  ultimately show ?thesis
    by (simp add: user_edges_def user_edges_set_def visible_edges_pure [OF assms(1)])
qed

text \<open>The node behind an id, and the ends of a list of edges.\<close>

definition node_of :: "Graph \<Rightarrow> NodeId \<Rightarrow> Node" where
  "node_of G n = the (map_of (nodes_map G) n)"

lemma node_by_id_pure: "n \<in> node_set G \<Longrightarrow> node_by_id G n = Inr (node_of G n)"
  by (auto simp: node_by_id_def node_of_def node_set_def)

lemma node_of_id: "graph_ok G \<Longrightarrow> n \<in> node_set G \<Longrightarrow> n_id (node_of G n) = n"
  unfolding graph_ok_def using nodes_okD(4) [of G n] by (auto simp: node_of_def node_set_def)

lemma ends_pure:
  assumes "graph_ok G" and "set es \<subseteq> graph_edges G"
  shows "producers_of G es = Inr (map (\<lambda>e. node_of G (producer_node_id e)) es)"
    and "consumers_of G es = Inr (map (\<lambda>e. node_of G (consumer_node_id e)) es)"
proof -
  have ends: "producer_node_id e \<in> node_set G" "consumer_node_id e \<in> node_set G" if "e \<in> set es" for e
    using edges_ok_ends [of G e] assms that by (auto simp: graph_ok_def)
  show "producers_of G es = Inr (map (\<lambda>e. node_of G (producer_node_id e)) es)"
    unfolding producers_of_def by (rule map_res_pure) (simp add: node_by_id_pure ends)
  show "consumers_of G es = Inr (map (\<lambda>e. node_of G (consumer_node_id e)) es)"
    unfolding consumers_of_def by (rule map_res_pure) (simp add: node_by_id_pure ends)
qed

text \<open>The edges seen at a node.\<close>

definition shown_operands :: "Graph \<Rightarrow> NodeId \<Rightarrow> Edge list" where
  "shown_operands G n =
     sort_key consumer_input_port_id [e \<leftarrow> edge_entry (operands_map G) n. edge_shown G e]"

definition shown_users :: "Graph \<Rightarrow> NodeId \<Rightarrow> Edge list" where
  "shown_users G n = sort_key user_edge_order [e \<leftarrow> edge_entry (users_map G) n. edge_shown G e]"

lemma shown_sets:
  assumes "graph_ok G"
  shows "set (shown_operands G n) = {e \<in> graph_edges G. consumer_node_id e = n \<and> edge_shown G e}"
    and "set (shown_users G n) = {e \<in> graph_edges G. producer_node_id e = n \<and> edge_shown G e}"
proof -
  from assms have eok: "edges_ok G" by (simp add: graph_ok_def)
  show "set (shown_operands G n) = {e \<in> graph_edges G. consumer_node_id e = n \<and> edge_shown G e}"
    by (auto simp: shown_operands_def edges_ok_entries [OF eok])
  show "set (shown_users G n) = {e \<in> graph_edges G. producer_node_id e = n \<and> edge_shown G e}"
    by (auto simp: shown_users_def edges_ok_entries [OF eok])
qed

lemma all_edges_pure:
  assumes "graph_ok G" and "n \<in> node_set G"
  shows "operand_edges G any_edge n = Inr (shown_operands G n)"
    and "user_edges G any_edge n = Inr (shown_users G n)"
  using assms by (simp_all add: operand_edges_pure user_edges_pure shown_operands_def shown_users_def)

lemma operands_pure:
  assumes "graph_ok G" and "n \<in> node_set G"
  shows "operands G n = Inr (map (\<lambda>e. node_of G (producer_node_id e)) (shown_operands G n))"
    and "users G n = Inr (map (\<lambda>e. node_of G (consumer_node_id e)) (shown_users G n))"
proof -
  have sub: "set (shown_operands G n) \<subseteq> graph_edges G" "set (shown_users G n) \<subseteq> graph_edges G"
    by (auto simp: shown_sets [OF assms(1)])
  show "operands G n = Inr (map (\<lambda>e. node_of G (producer_node_id e)) (shown_operands G n))"
    by (simp add: operands_def all_edges_pure [OF assms] ends_pure [OF assms(1) sub(1)])
  show "users G n = Inr (map (\<lambda>e. node_of G (consumer_node_id e)) (shown_users G n))"
    by (simp add: users_def all_edges_pure [OF assms] ends_pure [OF assms(1) sub(2)])
qed

lemma node_order_nodes: "graph_ok G \<Longrightarrow> set (node_order G) = node_set G \<and> distinct (node_order G)"
  unfolding graph_ok_def using nodes_okD(2,3) by blast

end
