(* ===== verification/Graph_Spec.thy ===== *)
theory Graph_Spec
  imports Graph_Views
begin

text \<open>The properties of the graph store.\<close>

section \<open>A graph to look at\<close>

text \<open>An input, an op that reads it, and an output: built with the operations.\<close>

definition sample_node :: "string \<Rightarrow> NodeType \<Rightarrow> NodeClass \<Rightarrow> Node" where
  "sample_node name t c =
     \<lparr>n_name = name, n_id = -1, n_type = t, n_shape = default_shape, n_epoch = Forward, n_df = 5, n_class = c\<rparr>"

definition sample_input :: Node where
  "sample_input = sample_node ''in'' kInput
     (InputNodeClass \<lparr>input_type = Activation, input_requires_grad = False, tile_broadcast_dims = [],
        prologue = False\<rparr>)"

definition sample_op :: "string \<Rightarrow> Node" where
  "sample_op name = sample_node name kBudaOp
     (BudaOpNodeClass \<lparr>op_name = ''add'', is_gradient_op = False, is_buffering_op = False\<rparr>)"

definition sample_output :: Node where
  "sample_output = sample_node ''out'' kOutput
     (OutputNodeClass \<lparr>output_requires_grad = False, is_loss_output = False, is_saved_intermediate = True,
        untilize = True\<rparr>)"

definition sample_start :: "IdCounters \<times> Graph" where
  "sample_start = (\<lparr>last_node_id_assigned = 0, last_assigned_edge_creation_id = 0\<rparr>, mk_graph ''g'' 0)"

definition with_node :: "Node \<Rightarrow> IdCounters \<times> Graph \<Rightarrow> IdCounters \<times> Graph" where
  "with_node x s = (case add_node x 0 None s of Inr (_, t) \<Rightarrow> t | Inl _ \<Rightarrow> s)"

definition sample_state :: "IdCounters \<times> Graph" where
  "sample_state =
     add_edge_ports 2 3 0 0 kData (add_edge_ports 1 2 0 0 kData
       (with_node sample_output (with_node (sample_op ''op'') (with_node sample_input sample_start))))"

lemma with_node_reachable:
  assumes "graph_reachable s"
  shows "graph_reachable (with_node x s)"
proof (cases "add_node x 0 None s")
  case (Inl e)
  with assms show ?thesis by (simp add: with_node_def)
next
  case (Inr r)
  obtain n t where r: "r = (n, t)" by (cases r)
  obtain ids G where s: "s = (ids, G)" by (cases s)
  obtain ids' H where t: "t = (ids', H)" by (cases t)
  have "graph_step s t" unfolding s t by (rule new_node [where x = x and i = 0 and d = None and n = n])
    (use Inr in \<open>simp_all add: r s t\<close>)
  with assms show ?thesis by (auto simp: with_node_def Inr r intro: graph_reachable.step)
qed

lemma edge_reachable:
  assumes "graph_reachable s" and "has_node_with_id (snd s) p \<and> has_node_with_id (snd s) c"
    and "last_assigned_edge_creation_id (fst s) + 1 < 2 ^ 64"
  shows "graph_reachable (add_edge_ports p c pout cin t s)"
proof -
  obtain ids G where s: "s = (ids, G)" by (cases s)
  show ?thesis
    using graph_reachable.step [OF assms(1)] new_edge [of G p c ids pout cin t] assms(2,3)
    by (simp add: s)
qed

lemma sample_nodes_reachable:
  "graph_reachable (with_node sample_output (with_node (sample_op ''op'') (with_node sample_input sample_start)))"
  by (intro with_node_reachable) (simp add: sample_start_def graph_reachable.start)

lemma sample_reachable: "graph_reachable sample_state"
  unfolding sample_state_def
proof (intro edge_reachable sample_nodes_reachable)
qed code_simp+

section \<open>Properties\<close>



text \<open>
  C16 (functional).
  The order in which the user edges of a node are listed does not depend on the iteration order of
  the hash set that holds them: whatever permutation of its elements the set yields, \<open>user_edges\<close>
  returns the same vector.
\<close>
theorem user_edges_are_deterministic:
  assumes "graph_reachable (ids, G)" and "has_node_with_id G n"
    and "mset (edge_entry shuffled n) = mset (edge_entry (users_map G) n)" and "map_of shuffled n \<noteq> None"
  shows "user_edges (G\<lparr>users_map := shuffled\<rparr>) f n = user_edges G f n"
proof -
  let ?H = "G\<lparr>users_map := shuffled\<rparr>" and ?es = "edge_entry (users_map G) n" and ?fs = "edge_entry shuffled n"
  have ok: "graph_ok G" and inj: "inj_on edge_creation_id (graph_edges G)"
    using graph_reachable_ok [OF assms(1)] by (simp_all add: run_ok_def ids_ok_def)
  have sub: "set ?fs = set ?es" "set ?es \<subseteq> graph_edges G"
    using mset_eq_setD [OF assms(3)] ok by (auto simp: graph_ok_def edges_ok_entries)
  have same: "no_context ?H = no_context G" "is_node_visible ?H m = is_node_visible G m" for m
    by (simp_all add: no_context_def is_node_visible_def is_node_virtual_def)
  have "is_edge_visible ?H e = is_edge_visible G e" for e
    by (simp add: is_edge_visible_def same node_by_id_def)
  then have shown: "is_edge_visible ?H e = Inr (edge_shown G e)" if "e \<in> graph_edges G" for e
    by (simp add: is_edge_visible_pure [OF ok that])
  let ?step = "\<lambda>e acc. if f e then res_bind (is_edge_visible ?H e) (\<lambda>v. Inr (if v then acc @ [e] else acc)) else Inr acc"
  have "fold_res ?step es acc = Inr (acc @ [e \<leftarrow> es. f e \<and> edge_shown G e])" if "set es \<subseteq> graph_edges G" for es acc
    using that
  proof (induction es arbitrary: acc)
    case (Cons e es)
    then show ?case by (simp add: shown)
  qed simp
  then have "visible_edges ?H f ?fs = Inr [e \<leftarrow> ?fs. f e \<and> edge_shown G e]"
    using sub by (simp add: visible_edges_def)
  moreover have "sort_key user_edge_order [e \<leftarrow> ?fs. f e \<and> edge_shown G e] =
                 sort_key user_edge_order [e \<leftarrow> ?es. f e \<and> edge_shown G e]"
  proof (rule sort_key_inj_key_eq)
    show "mset [e \<leftarrow> ?fs. f e \<and> edge_shown G e] =
          mset (sort_key user_edge_order [e \<leftarrow> ?es. f e \<and> edge_shown G e])"
      by (simp add: assms(3))
    show "inj_on user_edge_order (set [e \<leftarrow> ?fs. f e \<and> edge_shown G e])"
      by (rule inj_onI) (use inj sub in \<open>auto simp: user_edge_order_def inj_on_def\<close>)
  qed simp
  ultimately show ?thesis
    unfolding user_edges_pure [OF ok assms(2) [unfolded has_node_with_id_iff]]
    using edge_entry_at_key [of n shuffled] assms(4)
    by (simp add: user_edges_def user_edges_set_def domIff)
qed

theorem user_edges_are_deterministic_witness:
  "user_edges (snd sample_state\<lparr>users_map := rev (users_map (snd sample_state))\<rparr>) any_edge 1 =
   user_edges (snd sample_state) any_edge 1"
  by (rule user_edges_are_deterministic [of "fst sample_state"])
    (simp add: sample_reachable, code_simp, code_simp, code_simp)

text \<open>
  C35 (roundtrip).
  Adding a new edge between two nodes and removing it again leaves the edge sets of every node as
  they were, in their order, and the graph sound; but the attributes of the edge stay in the table.
\<close>
theorem add_remove_edge_roundtrip:
  assumes "graph_reachable (ids, G)" and "has_node_with_id G p" and "has_node_with_id G c"
    and "mk_edge p pout c cin t ids = (e, ids')"
    and "edge_key e \<notin> edge_key ` set (edge_entry (operands_map G) c)"
  shows "\<exists>a H. remove_edge e (add_edge_with e None G) = Inr (a, H) \<and> graph_ok H \<and>
           (\<forall>n. edge_entry (operands_map H) n = edge_entry (operands_map G) n) \<and>
           (\<forall>n. edge_entry (users_map H) n = edge_entry (users_map G) n) \<and>
           get_edge_attributes H e = Inr a"
proof -
  let ?A = "add_edge_with e None G"
  have ok: "graph_ok G" using graph_reachable_ok [OF assms(1)] by (simp add: run_ok_def)
  then have eok: "edges_ok G" by (simp add: graph_ok_def)
  from assms(4) have e: "producer_node_id e = p" "consumer_node_id e = c" by (auto simp: mk_edge_def)
  with assms(2,3) have ends: "producer_node_id e \<in> node_set G" "consumer_node_id e \<in> node_set G"
    by (simp_all add: has_node_with_id_iff)
  have aok: "graph_ok ?A" by (rule add_edge_ok [OF ok ends]) simp
  have absent: "edge_key e \<notin> edge_keys G" using assms(5) key_present(1) [OF eok, of e] e by simp
  note out = key_present [OF eok, of e]
  obtain a where a: "map_of (edge_to_attr_map ?A) (edge_key e) = Some a"
    by (cases "map_of (edge_to_attr_map G) (edge_key e)") (auto simp: add_edge_with_def Let_def)
  then obtain H where H: "remove_edge e ?A = Inr (a, H)"
    by (simp add: remove_edge_def get_edge_attributes_def Let_def)
  have aeok: "edges_ok ?A" using aok by (simp add: graph_ok_def)
  from H aeok show ?thesis
  proof (cases rule: remove_edgeE)
    case 1
    have "graph_ok H" using remove_edge_ok [OF aok H] ends by simp
    moreover have "edge_entry (operands_map H) n = edge_entry (operands_map G) n" for n
      using out(1) absent by (simp add: 1(3) add_edge_entries set_insert_def set_erase_snoc)
    moreover have "edge_entry (users_map H) n = edge_entry (users_map G) n" for n
      using out(2) absent by (simp add: 1(2) add_edge_entries set_insert_def set_erase_snoc)
    moreover have "get_edge_attributes H e = Inr a"
      using a by (simp add: get_edge_attributes_def 1(14))
    ultimately show ?thesis using H by blast
  qed
qed

theorem add_remove_edge_roundtrip_witness:
  "\<exists>e a H. remove_edge e (add_edge_with e None (snd sample_state)) = Inr (a, H) \<and> graph_ok H"
proof -
  obtain e ids' where e: "mk_edge 1 1 3 0 kControl (fst sample_state) = (e, ids')"
    by (cases "mk_edge 1 1 3 0 kControl (fst sample_state)")
  have key: "edge_key e = (1, 1, 3, 0, kControl)" using e by (auto simp: mk_edge_def edge_key_def)
  have "(1, 1, 3, 0, kControl) \<notin> edge_key ` set (edge_entry (operands_map (snd sample_state)) 3)"
    by code_simp
  moreover have "has_node_with_id (snd sample_state) 1" "has_node_with_id (snd sample_state) 3" by code_simp+
  moreover have "graph_reachable (fst sample_state, snd sample_state)" by (simp add: sample_reachable)
  ultimately show ?thesis
    using add_remove_edge_roundtrip [OF _ _ _ e] unfolding key by blast
qed

text \<open>
  The attributes of a removed edge outlive it: adding an edge of the same identity with other
  attributes keeps the removed edge's ones and drops the ones given.
\<close>
theorem readded_edge_keeps_old_attributes:
  assumes "remove_edge e G = Inr (a, H)" and "edge_key e' = edge_key e"
  shows "get_edge_attributes (add_edge_with e' (Some b) H) e' = Inr a"
proof -
  from assms(1) have "map_of (edge_to_attr_map H) (edge_key e) = Some a"
    by (auto simp: remove_edge_def get_edge_attributes_def Let_def res_simps)
  then show ?thesis
    by (simp add: get_edge_attributes_def add_edge_with_def Let_def assms(2))
qed

text \<open>The edge from the input to the op of the sample.\<close>

definition sample_edge :: Edge where
  "sample_edge = fst (mk_edge 1 0 2 0 kData (fst sample_start))"

theorem readded_edge_keeps_old_attributes_witness:
  "\<exists>H. get_edge_attributes (add_edge_with sample_edge (Some 1) H) sample_edge = Inr 0"
proof -
  have "\<exists>H. remove_edge sample_edge (snd sample_state) = Inr (0, H)"
  proof -
    have "map_option fst (case remove_edge sample_edge (snd sample_state) of Inr r \<Rightarrow> Some r | Inl _ \<Rightarrow> None) = Some 0"
      by code_simp
    then show ?thesis by (auto split: sum.splits)
  qed
  then show ?thesis using readded_edge_keeps_old_attributes [where e = sample_edge and e' = sample_edge] by blast
qed

lemma remove_node_returns:
  "has_node_with_id G n \<Longrightarrow> \<exists>x H. remove_node n G = Inr (x, H)"
  by (auto simp: has_node_with_id_def remove_node_def Let_def)

text \<open>
  C15 (functional).
  Removing a node of a graph built by its clients succeeds, takes exactly the edges at the node
  with it, frees its name and leaves the graph sound.
\<close>
theorem remove_node_takes_its_edges:
  assumes "graph_reachable (ids, G)" and "has_node_with_id G n"
  shows "\<exists>x H. remove_node n G = Inr (x, H) \<and> graph_ok H \<and>
           node_set H = node_set G - {n} \<and> \<not> has_node_with_name H (n_name x) \<and>
           graph_edges H = {e \<in> graph_edges G. producer_node_id e \<noteq> n \<and> consumer_node_id e \<noteq> n}"
proof -
  have ok: "graph_ok G" using graph_reachable_ok [OF assms(1)] by (simp add: run_ok_def)
  from assms(2) obtain y where y: "map_of (nodes_map G) n = Some y"
    by (auto simp: has_node_with_id_iff node_set_def)
  then obtain H where H: "remove_node n G = Inr (y\<lparr>n_id := -1\<rparr>, H)"
    by (simp add: remove_node_def Let_def)
  have "node_name_to_node_id H = AList.delete (n_name y) (node_name_to_node_id G)"
    using H y by (auto simp: remove_node_def Let_def res_simps)
  then have "\<not> has_node_with_name H (n_name y)" by (simp add: has_node_with_name_def map_of_delete_conv)
  with remove_node_ok [OF ok H] H show ?thesis by (intro exI [of _ "y\<lparr>n_id := -1\<rparr>"] exI [of _ H]) auto
qed

theorem remove_node_takes_its_edges_witness:
  "\<exists>x H. remove_node 2 (snd sample_state) = Inr (x, H) \<and> graph_ok H"
proof -
  have "graph_reachable (fst sample_state, snd sample_state)" by (simp add: sample_reachable)
  moreover have "has_node_with_id (snd sample_state) 2" by code_simp
  ultimately show ?thesis using remove_node_takes_its_edges by blast
qed

text \<open>
  C37 (error).
  Removing a node does not take it out of the ordered module inputs: if it was one, listing the
  inputs of the module throws from then on.
\<close>
theorem removed_input_dangles:
  assumes "graph_reachable (ids, G)" and "n \<in> set (ordered_module_input_node_ids G)"
    and "remove_node n G = Inr (x, H)"
  shows "ordered_module_inputs H = Inl RuntimeError"
proof -
  have ok: "graph_ok G" using graph_reachable_ok [OF assms(1)] by (simp add: run_ok_def)
  have same: "ordered_module_input_node_ids H = ordered_module_input_node_ids G"
    using assms(3) by (auto simp: remove_node_def Let_def res_simps)
  have gone: "map_of (nodes_map H) n = None"
    using assms(3) by (auto simp: remove_node_def Let_def res_simps map_of_delete_conv)
  have "n \<in> set ns \<Longrightarrow> map_res (node_by_id H) ns = Inl RuntimeError" for ns
  proof (induction ns)
    case (Cons m ns)
    then show ?case using gone by (cases "map_of (nodes_map H) m") (auto simp: node_by_id_def)
  qed simp
  with assms(2) show ?thesis by (simp add: ordered_module_inputs_def ordered_nodes_def same)
qed

theorem removed_input_dangles_witness:
  "\<exists>x H. remove_node 1 (register_module_inputs [1] False (snd sample_state)) = Inr (x, H) \<and>
         ordered_module_inputs H = Inl RuntimeError"
proof -
  let ?G = "register_module_inputs [1] False (snd sample_state)"
  have reach: "graph_reachable (fst sample_state, ?G)"
    using graph_reachable.step [OF sample_reachable] register_inputs [of "fst sample_state" "snd sample_state"]
    by simp
  have "has_node_with_id ?G 1" by code_simp
  then obtain x H where H: "remove_node 1 ?G = Inr (x, H)"
    using remove_node_returns by blast
  moreover have "ordered_module_inputs H = Inl RuntimeError"
    by (rule removed_input_dangles [OF reach _ H]) (simp add: register_module_inputs_def)
  ultimately show ?thesis by blast
qed

end
