(* ===== verification/Graph_Clone.thy ===== *)
theory Graph_Clone
  imports Graph_Spec
begin

text \<open>
  Cloning a sound graph: first the loop over the nodes, then the one over the operand edges, each
  with what the clone holds after a prefix of it.
\<close>

section \<open>Nodes\<close>

definition clonable :: "Node \<Rightarrow> bool" where
  "clonable x \<longleftrightarrow> (case n_class x of BudaNaryTMNodeClass _ \<Rightarrow> False | _ \<Rightarrow> True)"

definition clone_of :: "Node \<Rightarrow> Node" where
  "clone_of x = (case clone_node x '''' of Inr y \<Rightarrow> y | Inl _ \<Rightarrow> x)"

lemma clone_node_ok:
  assumes "clonable x"
  shows "clone_node x '''' = Inr (clone_of x) \<and> n_name (clone_of x) = n_name x \<and>
         n_shape (clone_of x) = n_shape x \<and> n_epoch (clone_of x) = n_epoch x \<and> n_df (clone_of x) = n_df x"
  using assms
  by (cases "n_class x") (auto simp: clonable_def clone_of_def clone_node_def clone_class_def)

text \<open>After the nodes in \<open>ps\<close>: the clone has exactly these, and no edge.\<close>

definition cloned_nodes :: "Graph \<Rightarrow> (NodeId \<times> Node) list \<Rightarrow> Graph \<Rightarrow> bool" where
  "cloned_nodes G ps C \<longleftrightarrow>
     graph_ok C \<and> node_set C = fst ` set ps \<and> graph_edges C = {} \<and>
     (\<forall>(n, x) \<in> set ps. map_of (nodes_map C) n = Some ((clone_of x)\<lparr>n_id := n\<rparr>) \<and>
        map_of (node_id_to_subgraph_id C) n = map_of (node_id_to_subgraph_id G) n) \<and>
     ordered_module_input_node_ids C = [] \<and> ordered_module_output_node_ids C = [] \<and>
     ordered_module_target_node_ids C = []"

lemma cloned_nodesD:
  assumes "cloned_nodes G ps C"
  shows "graph_ok C" and "node_set C = fst ` set ps" and "graph_edges C = {}"
    and "(n, x) \<in> set ps \<Longrightarrow> map_of (nodes_map C) n = Some ((clone_of x)\<lparr>n_id := n\<rparr>)"
    and "(n, x) \<in> set ps \<Longrightarrow> map_of (node_id_to_subgraph_id C) n = map_of (node_id_to_subgraph_id G) n"
    and "ordered_module_input_node_ids C = []" and "ordered_module_output_node_ids C = []"
    and "ordered_module_target_node_ids C = []"
  using assms unfolding cloned_nodes_def by blast+

lemma clone_one_node:
  assumes done_: "cloned_nodes G ps C" and n: "n \<notin> fst ` set ps" and x: "clonable x"
    and names: "n_name x \<notin> n_name ` snd ` set ps" "\<forall>(m, y) \<in> set ps. clonable y"
    and i: "map_of (node_id_to_subgraph_id G) n = Some i" "i + 1 < 2 ^ 32"
  shows "\<exists>D. add_node (clone_of x) i (Some n) (ids, C) = Inr (n, ids, D) \<and> cloned_nodes G (ps @ [(n, x)]) D"
proof -
  note D = cloned_nodesD [OF done_]
  have ok: "graph_ok C" by (rule D(1))
  have "map_of (node_name_to_node_id C) (n_name x) = None"
  proof (rule ccontr)
    assume "map_of (node_name_to_node_id C) (n_name x) \<noteq> None"
    then obtain m where "map_of (node_name_to_node_id C) (n_name x) = Some m" by blast
    then obtain y where y: "map_of (nodes_map C) m = Some y" "n_name y = n_name x"
      using nodes_okD(5) [of C "n_name x" m] ok by (auto simp: graph_ok_def)
    then have "m \<in> fst ` set ps" using D(2) by (auto simp: node_set_def)
    then obtain z where z: "(m, z) \<in> set ps" by auto
    then have "n_name z = n_name x"
      using D(4) [OF z] y names(2) clone_node_ok [of z] by auto
    with z names(1) show False by (metis image_eqI snd_conv)
  qed
  then have free: "\<not> has_node_with_name C (n_name (clone_of x))" "\<not> has_node_with_id C n"
    using clone_node_ok [OF x] D(2) n by (simp_all add: has_node_with_name_def has_node_with_id_iff)
  then obtain E where E: "add_node (clone_of x) i (Some n) (ids, C) = Inr (n, ids, E)"
    by (simp add: add_node_def)
  have Eok: "graph_ok E" by (rule add_node_ok [OF ok E i(2)])
  have Eedges: "graph_edges E = {}" using add_node_edges [OF ok E] D(3) by simp
  from E show ?thesis
  proof (cases rule: add_nodeE)
    case 1
    have "node_set E = insert n (node_set C)" by (simp add: 1(5))
    moreover have "map_of (nodes_map E) m = Some ((clone_of y)\<lparr>n_id := m\<rparr>) \<and>
        map_of (node_id_to_subgraph_id E) m = map_of (node_id_to_subgraph_id G) m"
      if "(m, y) \<in> set (ps @ [(n, x)])" for m y
    proof (cases "m = n")
      case True
      with that n have "y = x" by force
      with True i show ?thesis by (simp add: 1(5) map_of_update_conv)
    next
      case False
      with that D(4,5) [of m y] show ?thesis by (simp add: 1(5) map_of_update_conv)
    qed
    moreover have "ordered_module_input_node_ids E = []" "ordered_module_output_node_ids E = []"
      "ordered_module_target_node_ids E = []"
      using D(6-8) by (simp_all add: 1(5) enlarge_subgraphs_def)
    ultimately have "cloned_nodes G (ps @ [(n, x)]) E"
      using Eok Eedges D(2) unfolding cloned_nodes_def by auto
    with E show ?thesis by blast
  qed
qed

lemma add_node_attributes:
  "add_node x i d (ids, G) = Inr (n, ids', H) \<Longrightarrow> edge_to_attr_map H = edge_to_attr_map G"
  by (erule add_nodeE) simp

lemma clone_nodes_ok:
  assumes ok: "graph_ok G" and clonable: "\<forall>(n, x) \<in> set (nodes_map G). clonable x"
    and small: "num_subgraphs G < 2 ^ 32"
  shows "\<exists>C. clone_nodes G (ids, mk_graph name i) = Inr (ids, C) \<and> cloned_nodes G (nodes_map G) C"
proof -
  let ?step = "\<lambda>(n, x) s. res_bind (clone_node x '''') (\<lambda>copy.
       res_bind (get_subgraph_id_for_node G n) (\<lambda>i.
       res_bind (add_node copy i (Some n) s) (\<lambda>(_, s'). Inr s')))"
  from ok have nok: "nodes_ok G" by (simp add: graph_ok_def)
  have "\<exists>D. fold_res ?step qs (ids, C) = Inr (ids, D) \<and> cloned_nodes G (ps @ qs) D"
    if "cloned_nodes G ps C" "nodes_map G = ps @ qs" for ps qs C
    using that
  proof (induction qs arbitrary: ps C)
    case Nil
    then show ?case by simp
  next
    case (Cons q qs)
    obtain n x where q: "q = (n, x)" by (cases q)
    have dist: "distinct (map fst (ps @ q # qs))" using nodes_okD(1) [OF nok] Cons.prems(2) by simp
    have entry: "map_of (nodes_map G) m = Some y" if "(m, y) \<in> set (ps @ q # qs)" for m y
      using map_of_eq_Some_iff [OF dist] that Cons.prems(2) by simp
    have x: "map_of (nodes_map G) n = Some x" by (rule entry) (simp add: q)
    then obtain i where i: "i < num_subgraphs G" "map_of (node_id_to_subgraph_id G) n = Some i"
      using nodes_okD(6) [OF nok, of n] by (auto simp: node_set_def)
    have "n_name x \<notin> n_name ` snd ` set ps"
    proof
      assume "n_name x \<in> n_name ` snd ` set ps"
      then obtain m y where my: "(m, y) \<in> set ps" "n_name x = n_name y" by auto
      have "map_of (node_name_to_node_id G) (n_name x) = Some n"
        "map_of (node_name_to_node_id G) (n_name x) = Some m"
        using nodes_okD(5) [OF nok] x my(2) entry [of m y] my(1) by auto
      with my(1) dist q show False by force
    qed
    moreover have "n \<notin> fst ` set ps" using dist q by auto
    moreover have "clonable x" "\<forall>(m, y) \<in> set ps. clonable y"
      using clonable Cons.prems(2) q by auto
    ultimately obtain D where D: "add_node (clone_of x) i (Some n) (ids, C) = Inr (n, ids, D)"
      "cloned_nodes G (ps @ [q]) D"
      using clone_one_node [OF Cons.prems(1), of n x i ids] i small q by auto
    then have "?step q (ids, C) = Inr (ids, D)"
      using clone_node_ok [of x] clonable Cons.prems(2) i q by (auto simp: get_subgraph_id_for_node_def)
    then show ?case using Cons.IH [OF D(2)] Cons.prems(2) by simp
  qed
  from this [of "[]" "mk_graph name i"] show ?thesis
    by (simp add: clone_nodes_def cloned_nodes_def graph_edges_def edge_entry_def node_set_def)
      (simp add: mk_graph_def)
qed

section \<open>Edges\<close>

text \<open>The attributes that a clone has of an edge of the original.\<close>

definition attributes_cloned :: "Graph \<Rightarrow> Graph \<Rightarrow> Edge \<Rightarrow> bool" where
  "attributes_cloned G C e \<longleftrightarrow>
     (\<exists>a b. edge_attributes G e = Inr a \<and> edge_attributes C e = Inr b \<and>
            tms b = tms a \<and> ublock_order b = ublock_order a)"

lemma edge_attributes_total:
  assumes "graph_ok G" and "e \<in> graph_edges G"
  shows "\<exists>a. edge_attributes G e = Inr a"
proof -
  from assms have "edge_key e \<in> dom (map_of (edge_to_attr_map G))"
    unfolding graph_ok_def attributes_ok_def graph_edges_def by blast
  then obtain p where p: "map_of (edge_to_attr_map G) (edge_key e) = Some p" by blast
  with assms(1) have "p < length (attr_store G)" unfolding graph_ok_def attributes_ok_def by blast
  with p show ?thesis by (simp add: edge_attributes_def get_edge_attributes_def)
qed

text \<open>After the edges in \<open>es\<close>: the clone \<open>C\<close> started as \<open>N\<close>, has an edge of each identity in
  \<open>es\<close>, one attribute object for each, and nothing else changed.\<close>

definition cloned_edges :: "Graph \<Rightarrow> Graph \<Rightarrow> Edge list \<Rightarrow> Graph \<Rightarrow> bool" where
  "cloned_edges G N es C \<longleftrightarrow>
     graph_ok C \<and> edge_keys C = edge_key ` set es \<and>
     dom (map_of (edge_to_attr_map C)) = edge_key ` set es \<and>
     (\<forall>e \<in> set es. attributes_cloned G C e) \<and> node_set C = node_set N \<and>
     nodes_map C = nodes_map N \<and> node_id_to_subgraph_id C = node_id_to_subgraph_id N \<and>
     ordered_module_input_node_ids C = ordered_module_input_node_ids N \<and>
     ordered_module_output_node_ids C = ordered_module_output_node_ids N \<and>
     ordered_module_target_node_ids C = ordered_module_target_node_ids N"

lemma clone_one_edge:
  assumes G: "graph_ok G" "e \<in> graph_edges G" and done_: "cloned_edges G N es C"
    and nodes: "node_set N = node_set G" and new: "edge_key e \<notin> edge_key ` set es"
  shows "\<exists>ids' D. clone_edge G e (ids, C) = Inr (ids', D) \<and> cloned_edges G N (es @ [e]) D"
proof -
  obtain e' ids' where mk: "mk_edge (producer_node_id e) (producer_output_port_id e) (consumer_node_id e)
      (consumer_input_port_id e) (edge_type e) ids = (e', ids')"
    by (cases "mk_edge (producer_node_id e) (producer_output_port_id e) (consumer_node_id e)
      (consumer_input_port_id e) (edge_type e) ids")
  then have key: "edge_key e' = edge_key e" and ends: "producer_node_id e' = producer_node_id e"
    "consumer_node_id e' = consumer_node_id e" "edge_type e' = edge_type e"
    by (auto simp: mk_edge_def edge_key_def)
  from done_ have ok: "graph_ok C" and keys: "edge_keys C = edge_key ` set es"
    and attrs: "dom (map_of (edge_to_attr_map C)) = edge_key ` set es" and set: "node_set C = node_set N"
    by (simp_all add: cloned_edges_def)
  have e_nodes: "producer_node_id e \<in> node_set G" "consumer_node_id e \<in> node_set G"
    using edges_ok_ends [of G e] G by (simp_all add: graph_ok_def)
  let ?A = "add_edge_with e' None C" and ?p = "length (attr_store C)"
  have Aok: "graph_ok ?A" by (rule add_edge_ok [OF ok]) (simp_all add: ends e_nodes set nodes)
  have A_attr: "edge_to_attr_map ?A = AList.update (edge_key e) ?p (edge_to_attr_map C)"
    "attr_store ?A = attr_store C @ [create_attributes (edge_type e)]"
    using new attrs by (auto simp: add_edge_with_def Let_def map_insert_def key ends)
  obtain a where a: "edge_attributes G e = Inr a" using edge_attributes_total [OF G] by blast
  let ?D = "?A\<lparr>attr_store := (attr_store ?A)[?p := copy_from a (create_attributes (edge_type e))]\<rparr>"
  have p: "map_of (edge_to_attr_map ?A) (edge_key e) = Some ?p" by (simp add: A_attr map_of_update_conv)
  have "copy_edge_attributes e e' G ?A = Inr ?D"
    using a p by (simp add: copy_edge_attributes_def get_edge_attributes_def key A_attr vec_idx_def)
  then have run: "clone_edge G e (ids, C) = Inr (ids', ?D)"
    using e_nodes by (auto simp: clone_edge_def mk node_set_def)
  have same: "operands_map ?D = operands_map ?A" "users_map ?D = users_map ?A"
    "edge_to_attr_map ?D = edge_to_attr_map ?A" "node_set ?D = node_set C" "nodes_map ?D = nodes_map C"
    by (simp_all add: node_set_def)
  have "attributes_ok ?D"
    using Aok unfolding graph_ok_def attributes_ok_def same by simp
  moreover have "edges_ok ?D"
    by (rule edges_ok_frame [of ?A]) (use Aok edges_okD(1-4) [of ?A] in \<open>simp_all add: graph_ok_def same\<close>)
  moreover have "nodes_ok ?D" by (rule nodes_ok_frame [of ?A]) (use Aok in \<open>simp_all add: graph_ok_def\<close>)
  ultimately have Dok: "graph_ok ?D" by (simp add: graph_ok_def)
  have "graph_edges ?D = insert e' (graph_edges C)"
    using add_edge_absent [of C e' None] ok keys new by (simp add: graph_ok_def key graph_edges_def)
  then have Dkeys: "edge_keys ?D = edge_key ` set (es @ [e])" using keys by (simp add: edge_keys_def key)
  have "attributes_cloned G ?D f" if f: "f \<in> set (es @ [e])" for f
  proof (cases "edge_key f = edge_key e")
    case True
    have "f \<notin> set es" using new True by (metis image_eqI)
    with f have "f = e" by auto
    with a p show ?thesis
      by (simp add: attributes_cloned_def edge_attributes_def get_edge_attributes_def A_attr copy_from_def
          map_of_update_conv)
  next
    case False
    with f have old: "attributes_cloned G C f" using done_ by (auto simp: cloned_edges_def)
    then obtain q where q: "map_of (edge_to_attr_map C) (edge_key f) = Some q" "q < length (attr_store C)"
      by (auto simp: attributes_cloned_def edge_attributes_def get_edge_attributes_def res_simps)
    then have "edge_attributes ?D f = edge_attributes C f"
      using False by (simp add: edge_attributes_def get_edge_attributes_def A_attr map_of_update_conv
          nth_append)
    with old show ?thesis by (simp add: attributes_cloned_def)
  qed
  moreover have "dom (map_of (edge_to_attr_map ?D)) = edge_key ` set (es @ [e])"
    using attrs by (auto simp: A_attr map_of_update_conv split: if_splits)
  ultimately have "cloned_edges G N (es @ [e]) ?D"
    using Dok Dkeys done_ unfolding cloned_edges_def same
    by (simp add: add_edge_with_def Let_def)
  with run show ?thesis by blast
qed

lemma operand_edges_list:
  assumes "edges_ok G"
  shows "set (concat (map snd (operands_map G))) = graph_edges G \<and>
         distinct (map edge_key (concat (map snd (operands_map G))))"
proof -
  note dist = edges_okD(1) [OF assms]
  have entry: "edge_entry (operands_map G) c = es" if "(c, es) \<in> set (operands_map G)" for c es
    using map_of_eq_Some_iff [OF dist, of c es] that by (simp add: edge_entry_def)
  have entries: "\<exists>es. (consumer_node_id e, es) \<in> set (operands_map G) \<and> e \<in> set es" if "e \<in> graph_edges G" for e
  proof -
    from that have "e \<in> set (edge_entry (operands_map G) (consumer_node_id e))" by (simp add: graph_edges_def)
    then show ?thesis
      by (cases "map_of (operands_map G) (consumer_node_id e)") (auto simp: edge_entry_def dest: map_of_SomeD)
  qed
  have edges: "e \<in> graph_edges G \<and> consumer_node_id e = c" if "(c, es) \<in> set (operands_map G)" "e \<in> set es" for c es e
    using entry [OF that(1)] that(2) edges_ok_entries(1) [OF assms, of c] by auto
  have set: "set (concat (map snd (operands_map G))) = graph_edges G"
  proof (intro set_eqI iffI)
    fix e assume "e \<in> set (concat (map snd (operands_map G)))"
    then obtain ce where "ce \<in> set (operands_map G)" "e \<in> set (snd ce)" by auto
    then show "e \<in> graph_edges G" using edges [of "fst ce" "snd ce" e] by simp
  next
    fix e assume "e \<in> graph_edges G"
    from entries [OF this] show "e \<in> set (concat (map snd (operands_map G)))" by force
  qed
  have "distinct (map edge_key (concat (map snd m)))"
    if "distinct (map fst m)" "set m \<subseteq> set (operands_map G)" for m
    using that
  proof (induction m)
    case (Cons ce m)
    obtain c es where ce: "ce = (c, es)" by (cases ce)
    have apart: "edge_key e \<noteq> edge_key f" if "e \<in> set es" "f \<in> set (concat (map snd m))" for e f
    proof -
      from that(2) obtain d fs where df: "(d, fs) \<in> set m" "f \<in> set fs" by auto
      then have "consumer_node_id f = d" "consumer_node_id e = c" "c \<noteq> d"
        using edges [of d fs f] edges [of c es e] that(1) Cons.prems ce by force+
      then show ?thesis by (auto simp: edge_key_def)
    qed
    have "edge_key ` set es \<inter> edge_key ` set (concat (map snd m)) = {}" using apart by blast
    moreover have "distinct (map edge_key es)"
      using edges_okD(8) [OF assms, of c] entry [of c es] Cons.prems(2) ce by simp
    moreover have "distinct (map edge_key (concat (map snd m)))" using Cons by simp
    ultimately show ?case
      by (simp only: ce list.map snd_conv concat.simps map_append distinct_append set_map)
  qed simp
  with dist set show ?thesis by blast
qed

lemma clone_edges_ok:
  assumes ok: "graph_ok G" and N: "graph_ok N" "node_set N = node_set G" "graph_edges N = {}"
    and fresh: "edge_to_attr_map N = []"
  shows "\<exists>ids' C. clone_edges G (ids, N) = Inr (ids', C) \<and>
           cloned_edges G N (concat (map snd (operands_map G))) C"
proof -
  note all = operand_edges_list [of G]
  have "\<exists>ids' D. fold_res (clone_edge G) fs (ids, C) = Inr (ids', D) \<and> cloned_edges G N (es @ fs) D"
    if "cloned_edges G N es C" "distinct (map edge_key (es @ fs))" "set fs \<subseteq> graph_edges G" for es fs C ids
    using that
  proof (induction fs arbitrary: es C ids)
    case Nil
    then show ?case by simp
  next
    case (Cons f fs)
    have "edge_key f \<notin> edge_key ` set es" using Cons.prems(2) by auto
    then obtain ids' D where D: "clone_edge G f (ids, C) = Inr (ids', D)" "cloned_edges G N (es @ [f]) D"
      using clone_one_edge [OF ok _ Cons.prems(1) N(2), of f ids] Cons.prems(3) by auto
    then show ?case using Cons.IH [OF D(2)] Cons.prems(2,3) by simp
  qed
  moreover have "cloned_edges G N [] N"
    using N fresh by (simp add: cloned_edges_def edge_keys_def)
  ultimately show ?thesis
    using all ok by (fastforce simp: clone_edges_def graph_ok_def)
qed

section \<open>The clone\<close>

lemma cloned_ids_pure: "set ns \<subseteq> node_set G \<Longrightarrow> cloned_ids G ns = Inr ns"
  unfolding cloned_ids_def by (subst map_res_pure [where g = "\<lambda>n. n"]) (auto simp: node_set_def)

lemma clone_graph_ok:
  assumes ok: "graph_ok G" and clonable: "\<forall>(n, x) \<in> set (nodes_map G). clonable x"
    and small: "num_subgraphs G < 2 ^ 32"
    and lists: "set (ordered_module_input_node_ids G) \<subseteq> node_set G"
      "set (ordered_module_output_node_ids G) \<subseteq> node_set G"
      "set (ordered_module_target_node_ids G) \<subseteq> node_set G"
  shows "\<exists>ids' C. clone_graph G (ids, mk_graph name i) = Inr (ids', C) \<and> graph_ok C \<and>
           node_set C = node_set G \<and> edge_keys C = edge_keys G \<and>
           (\<forall>n x. map_of (nodes_map G) n = Some x \<longrightarrow>
              map_of (nodes_map C) n = Some ((clone_of x)\<lparr>n_id := n\<rparr>)) \<and>
           (\<forall>n \<in> node_set G. map_of (node_id_to_subgraph_id C) n = map_of (node_id_to_subgraph_id G) n) \<and>
           (\<forall>e \<in> graph_edges G. attributes_cloned G C e) \<and>
           ordered_module_input_node_ids C = ordered_module_input_node_ids G \<and>
           ordered_module_output_node_ids C = ordered_module_output_node_ids G \<and>
           ordered_module_target_node_ids C = ordered_module_target_node_ids G"
proof -
  from ok have nok: "nodes_ok G" and eok: "edges_ok G" by (simp_all add: graph_ok_def)
  obtain N where N: "clone_nodes G (ids, mk_graph name i) = Inr (ids, N)" "cloned_nodes G (nodes_map G) N"
    using clone_nodes_ok [OF ok clonable small] by blast
  note ND = cloned_nodesD [OF N(2)]
  have set: "node_set N = node_set G" using ND(2) by (simp add: node_set_def dom_map_of_conv_image_fst)
  have fresh: "edge_to_attr_map N = []"
  proof -
    let ?P = "\<lambda>s. edge_to_attr_map (snd s) = []"
    have "?P (ids, N)"
      using N(1) unfolding clone_nodes_def
      by (rule fold_res_invariant [where P = ?P])
        (auto simp: mk_graph_def res_simps, metis add_node_attributes)
    then show ?thesis by simp
  qed
  obtain ids' C where C: "clone_edges G (ids, N) = Inr (ids', C)"
    "cloned_edges G N (concat (map snd (operands_map G))) C"
    using clone_edges_ok [OF ok ND(1) set ND(3) fresh] by blast
  let ?C = "C\<lparr>ordered_module_input_node_ids := ordered_module_input_node_ids G,
           ordered_module_output_node_ids := ordered_module_output_node_ids G,
           ordered_module_target_node_ids := ordered_module_target_node_ids G, microbatch := microbatch G\<rparr>"
  obtain es where "cloned_edges G N es C" "set es = graph_edges G"
    using C(2) operand_edges_list [OF eok] by blast
  then have CD: "graph_ok C" "edge_keys C = edge_keys G" "node_set C = node_set G"
    "nodes_map C = nodes_map N" "node_id_to_subgraph_id C = node_id_to_subgraph_id N"
    "\<forall>e \<in> graph_edges G. attributes_cloned G C e"
    "ordered_module_input_node_ids C = []" "ordered_module_output_node_ids C = []"
    "ordered_module_target_node_ids C = []"
    using set ND(6-8) unfolding cloned_edges_def by (simp_all add: edge_keys_def)
  have "clone_graph G (ids, mk_graph name i) = Inr (ids', ?C)"
    by (simp add: clone_graph_def N(1) C(1) cloned_ids_pure lists CD)
  moreover have "graph_ok ?C \<and> graph_edges ?C = graph_edges C"
    by (rule graph_ok_frame [OF CD(1)])
      (use CD(1) nodes_okD(6,7) [of C] in \<open>auto simp: graph_ok_def\<close>)
  moreover have "map_of (nodes_map C) n = Some ((clone_of x)\<lparr>n_id := n\<rparr>)"
    if "map_of (nodes_map G) n = Some x" for n x
    using ND(4) [of n x] map_of_SomeD [OF that] CD(4) by simp
  moreover have "map_of (node_id_to_subgraph_id C) n = map_of (node_id_to_subgraph_id G) n"
    if "n \<in> node_set G" for n
  proof -
    from that obtain x where "(n, x) \<in> set (nodes_map G)" by (auto simp: node_set_def dest: map_of_SomeD)
    then show ?thesis using ND(5) [of n x] CD(5) by simp
  qed
  moreover have "attributes_cloned G ?C e" if "e \<in> graph_edges G" for e
    using CD(6) that by (simp add: attributes_cloned_def edge_attributes_def get_edge_attributes_def)
  moreover have "node_set ?C = node_set C" "edge_keys ?C = edge_keys C"
    by (simp_all add: node_set_def edge_keys_def graph_edges_def)
  ultimately show ?thesis using CD by (intro exI [of _ ids'] exI [of _ ?C]) simp
qed



lemma clone_of_output:
  assumes "clonable x"
  shows "is_intermediate ((clone_of x)\<lparr>n_id := n\<rparr>) = Inr False"
  using assms
  by (cases "n_class x")
    (auto simp: clonable_def clone_of_def clone_node_def clone_class_def is_intermediate_def as_output_def)

text \<open>
  \<open>OutputNode::clone\<close> does not copy \<open>is_saved_intermediate_\<close>: whatever a graph saves, its clone
  reports no intermediate at all.
\<close>
theorem clone_forgets_intermediates:
  assumes "graph_reachable (ids0, G)" and "\<forall>(n, x) \<in> set (nodes_map G). clonable x"
    and "num_subgraphs G < 2 ^ 32"
    and "list_all (has_node_with_id G) (ordered_module_input_node_ids G @ ordered_module_output_node_ids G @
           ordered_module_target_node_ids G)"
    and "clone_graph G (ids, mk_graph name i) = Inr (ids', C)"
  shows "get_ordered_intermediate_names C = Inr []"
proof -
  have ok: "graph_ok G" using graph_reachable_ok [OF assms(1)] by (simp add: run_ok_def)
  have lists: "set (ordered_module_input_node_ids G) \<subseteq> node_set G"
      "set (ordered_module_output_node_ids G) \<subseteq> node_set G"
      "set (ordered_module_target_node_ids G) \<subseteq> node_set G"
    using assms(4) by (auto simp: list_all_iff has_node_with_id_iff)
  have C: "graph_ok C" "node_set C = node_set G"
    and nodes: "\<And>n x. map_of (nodes_map G) n = Some x \<Longrightarrow> map_of (nodes_map C) n = Some ((clone_of x)\<lparr>n_id := n\<rparr>)"
    using clone_graph_ok [OF ok assms(2,3) lists, of ids name i] assms(5) by auto
  have "res_bind (node_by_id C n) (\<lambda>x. res_bind (is_intermediate x) (\<lambda>b.
          Inr (if b then acc @ [n_name x] else acc))) = Inr acc" if "n \<in> set (node_order C)" for n acc
  proof -
    from that obtain x where x: "map_of (nodes_map G) n = Some x"
      using node_order_nodes [OF C(1)] C(2) by (auto simp: node_set_def)
    then have "clonable x" using assms(2) map_of_SomeD [OF x] by auto
    then show ?thesis by (simp add: node_by_id_def nodes [OF x] clone_of_output)
  qed
  then have "get_ordered_intermediate_names C = Inr (fold (\<lambda>n acc. acc) (node_order C) [])"
    unfolding get_ordered_intermediate_names_def by (intro fold_res_pure)
  moreover have "fold (\<lambda>n acc. acc) ns acc = acc" for ns :: "NodeId list" and acc :: "string list"
    by (induction ns) simp_all
  ultimately show ?thesis by simp
qed

theorem clone_forgets_intermediates_witness:
  "get_ordered_intermediate_names (snd sample_state) = Inr [''out''] \<and>
   (\<exists>ids' C. clone_graph (snd sample_state) (fst sample_state, mk_graph ''copy'' 1) = Inr (ids', C) \<and>
      get_ordered_intermediate_names C = Inr [])"
proof
  show "get_ordered_intermediate_names (snd sample_state) = Inr [''out'']" by code_simp
  have a: "graph_reachable (fst sample_state, snd sample_state)" by (simp add: sample_reachable)
  have b: "\<forall>(n, x) \<in> set (nodes_map (snd sample_state)). clonable x" by code_simp
  have c: "num_subgraphs (snd sample_state) < 2 ^ 32" by code_simp
  have d: "list_all (has_node_with_id (snd sample_state))
      (ordered_module_input_node_ids (snd sample_state) @ ordered_module_output_node_ids (snd sample_state) @
       ordered_module_target_node_ids (snd sample_state))" by code_simp
  have "graph_ok (snd sample_state)" using graph_reachable_ok [OF a] by (simp add: run_ok_def)
  moreover have "set (ordered_module_input_node_ids (snd sample_state)) = {}"
    "set (ordered_module_output_node_ids (snd sample_state)) = {}"
    "set (ordered_module_target_node_ids (snd sample_state)) = {}" by code_simp+
  ultimately obtain ids' C where C: "clone_graph (snd sample_state) (fst sample_state, mk_graph ''copy'' 1) = Inr (ids', C)"
    using clone_graph_ok [of "snd sample_state" "fst sample_state" "''copy''" 1] b c by auto
  show "\<exists>ids' C. clone_graph (snd sample_state) (fst sample_state, mk_graph ''copy'' 1) = Inr (ids', C) \<and>
      get_ordered_intermediate_names C = Inr []"
    using clone_forgets_intermediates [OF a b c d C] C by blast
qed

end
