(* ===== verification/Graph_Topo.thy ===== *)
theory Graph_Topo
  imports Graph_Queries
begin

text \<open>
  The traversals of the graph (\<open>graph_lib/utils.cpp\<close>): the topological sort with its unrolling of
  control loops, the topological generations, the nodes reachable over data edges, the longest path
  and the nodes without operands or users. The recursive lambdas get a bound on their depth; a call
  that needs more does not return. A node is its id, as in the rest of the library.
\<close>

type_synonym Visited = "(NodeId \<times> bool) list"

definition requires_visit :: "Visited \<Rightarrow> NodeId \<Rightarrow> bool" where
  "requires_visit visited n \<longleftrightarrow> map_of visited n = None \<or> map_of visited n = Some False"

text \<open>The edges that a traversal does not follow.\<close>

definition not_followed :: "Edge \<Rightarrow> bool" where
  "not_followed e \<longleftrightarrow>
     edge_type e = kDataLoopback \<or> edge_type e = kPartialDataCopy \<or> edge_type e = kControlLoop"

section \<open>Topological sort\<close>

record TopoState =
  topo_visited :: Visited
  topo_result :: "NodeId list"
  node_queue :: "NodeId list"
  control_loop_edge_to_iteration :: "(EdgeUniqueId \<times> int) list"

text \<open>
  A control loop that has iterations left puts the nodes of the loop back into the queue. The
  number of iterations is only there if somebody set it.
\<close>

definition reenqueue :: "Graph \<Rightarrow> EdgeAttributes \<Rightarrow> TopoState \<Rightarrow> TopoState" where
  "reenqueue G loop_attributes s =
     fold (\<lambda>n s. if n \<in> set (nodes_processed_in_loop loop_attributes)
                 then s\<lparr>topo_visited := AList.update n False (topo_visited s),
                        node_queue := node_queue s @ [n]\<rparr>
                 else s) (node_order G) s"

definition unroll_edge :: "Graph \<Rightarrow> Edge \<Rightarrow> TopoState \<Rightarrow> TopoState res" where
  "unroll_edge G e s =
     (if edge_type e \<noteq> kControlLoop then Inr s
      else
        res_bind (edge_attributes G e) (\<lambda>a.
        res_bind (as_loop a) (\<lambda>loop_attributes.
        let i = (case map_of (control_loop_edge_to_iteration s) (edge_key e) of None \<Rightarrow> 1 | Some i \<Rightarrow> i) in
        case loop_iterations loop_attributes of
          None \<Rightarrow> Inl UndefinedBehaviour
        | Some limit \<Rightarrow>
            let s1 = (if i < limit then reenqueue G loop_attributes s else s) in
            Inr (s1\<lparr>control_loop_edge_to_iteration :=
                      AList.update (edge_key e) (i + 1) (control_loop_edge_to_iteration s1)\<rparr>))))"

primrec visit_node ::
    "Graph \<Rightarrow> (Node \<Rightarrow> bool) \<Rightarrow> bool \<Rightarrow> nat \<Rightarrow> NodeId \<Rightarrow> TopoState \<Rightarrow> TopoState comp" where
  "visit_node G node_filter unroll_loops 0 = (\<lambda>n s. None)"
| "visit_node G node_filter unroll_loops (Suc depth) = (\<lambda>n s.
     comp_bind (Some (operand_edges G any_edge n)) (\<lambda>es.
     comp_bind
       (fold_comp (\<lambda>e s.
          if not_followed e then Some (Inr s)
          else comp_bind (Some (node_by_id G (producer_node_id e))) (\<lambda>_.
                 if requires_visit (topo_visited s) (producer_node_id e)
                 then visit_node G node_filter unroll_loops depth (producer_node_id e) s
                 else Some (Inr s)))
          es (s\<lparr>topo_visited := AList.update n True (topo_visited s)\<rparr>)) (\<lambda>s1.
     comp_bind (Some (node_by_id G n)) (\<lambda>x.
       let s2 = (if node_filter x then s1\<lparr>topo_result := topo_result s1 @ [n]\<rparr> else s1) in
       if unroll_loops
       then comp_bind (Some (user_edges G any_edge n)) (\<lambda>us. Some (fold_res (unroll_edge G) us s2))
       else Some (Inr s2)))))"

partial_function (option) topo_loop ::
    "(NodeId \<Rightarrow> TopoState \<Rightarrow> TopoState comp) \<Rightarrow> TopoState \<Rightarrow> TopoState comp" where
  "topo_loop visit s =
     (case node_queue s of
        [] \<Rightarrow> Some (Inr s)
      | n # _ \<Rightarrow>
          Option.bind (if requires_visit (topo_visited s) n then visit n s else Some (Inr s)) (\<lambda>r.
            case r of Inl e \<Rightarrow> Some (Inl e)
                    | Inr s1 \<Rightarrow> topo_loop visit (s1\<lparr>node_queue := tl (node_queue s1)\<rparr>)))"

declare topo_loop.simps [code]

definition topological_sort :: "Graph \<Rightarrow> (Node \<Rightarrow> bool) \<Rightarrow> bool \<Rightarrow> nat \<Rightarrow> NodeId list comp" where
  "topological_sort G node_filter unroll_loops depth =
     comp_bind
       (topo_loop (visit_node G node_filter unroll_loops depth)
          \<lparr>topo_visited = [], topo_result = [], node_queue = filter (is_node_visible G) (node_order G),
           control_loop_edge_to_iteration = []\<rparr>)
       (\<lambda>s. Some (Inr (topo_result s)))"

definition default_node_filter :: "Node \<Rightarrow> bool" where
  "default_node_filter = (\<lambda>_. True)"

definition visible_nodes :: "Graph \<Rightarrow> (Node \<Rightarrow> bool) \<Rightarrow> NodeId list res" where
  "visible_nodes G node_filter =
     fold_res (\<lambda>n acc.
       if is_node_visible G n
       then res_bind (node_by_id G n) (\<lambda>x. Inr (if node_filter x then acc @ [n] else acc))
       else Inr acc) (node_order G) []"

section \<open>Reachable nodes\<close>

primrec reach_node ::
    "Graph \<Rightarrow> (Node \<Rightarrow> bool) \<Rightarrow> bool \<Rightarrow> nat \<Rightarrow> NodeId \<Rightarrow> Visited \<times> NodeId list \<Rightarrow>
     (Visited \<times> NodeId list) comp" where
  "reach_node G node_filter ancestors_only 0 = (\<lambda>n s. None)"
| "reach_node G node_filter ancestors_only (Suc depth) = (\<lambda>n s.
     let visit = (\<lambda>m s. if requires_visit (fst s) (n_id m)
                        then reach_node G node_filter ancestors_only depth (n_id m) s else Some (Inr s)) in
     comp_bind (Some (data_operands G n)) (\<lambda>os.
     comp_bind (fold_comp visit os (AList.update n True (fst s), snd s)) (\<lambda>s1.
     comp_bind (Some (node_by_id G n)) (\<lambda>x.
     comp_bind (if n_type x \<noteq> kInput \<and> \<not> ancestors_only
                then comp_bind (Some (data_users G n)) (\<lambda>us. fold_comp visit us s1)
                else Some (Inr s1)) (\<lambda>s2.
       Some (Inr (fst s2, if node_filter x then snd s2 @ [n] else snd s2)))))))"

definition reachable_nodes :: "Graph \<Rightarrow> NodeId \<Rightarrow> (Node \<Rightarrow> bool) \<Rightarrow> bool \<Rightarrow> nat \<Rightarrow> NodeId list comp" where
  "reachable_nodes G start node_filter ancestors_only depth =
     comp_bind (reach_node G node_filter ancestors_only depth start ([], [])) (\<lambda>s. Some (Inr (snd s)))"

definition check_producer_consumer ::
    "Graph \<Rightarrow> NodeId \<Rightarrow> NodeId \<Rightarrow> (Node \<Rightarrow> bool) \<Rightarrow> nat \<Rightarrow> bool comp" where
  "check_producer_consumer G producer consumer node_filter depth =
     comp_bind (reachable_nodes G producer node_filter True depth) (\<lambda>rc_nodes.
       Some (Inr (consumer \<in> set rc_nodes)))"

section \<open>Nodes without operands or users\<close>

definition not_input :: "Graph \<Rightarrow> NodeId \<Rightarrow> bool res" where
  "not_input G n = res_bind (node_by_id G n) (\<lambda>x. Inr (n_type x \<noteq> kInput))"

definition nodes_such_that :: "Graph \<Rightarrow> (NodeId \<Rightarrow> bool res) \<Rightarrow> NodeId list res" where
  "nodes_such_that G chosen =
     fold_res (\<lambda>n acc.
       res_bind (chosen n) (\<lambda>b.
       res_bind (not_input G n) (\<lambda>i. Inr (if b \<and> i then acc @ [n] else acc)))) (node_order G) []"

definition get_nodes_with_indegree_zero :: "Graph \<Rightarrow> NodeId list res" where
  "get_nodes_with_indegree_zero G =
     nodes_such_that G (\<lambda>n. res_bind (operands G n) (\<lambda>os. Inr (\<forall>x \<in> set os. n_type x = kInput)))"

definition get_nodes_with_outdegree_zero :: "Graph \<Rightarrow> NodeId list res" where
  "get_nodes_with_outdegree_zero G =
     nodes_such_that G (\<lambda>n. res_bind (users G n) (\<lambda>us. Inr (us = [])))"

definition get_nodes_with_data_outdegree_zero :: "Graph \<Rightarrow> NodeId list res" where
  "get_nodes_with_data_outdegree_zero G =
     nodes_such_that G (\<lambda>n. res_bind (user_data_edges G any_edge n) (\<lambda>es. Inr (es = [])))"

section \<open>The longest path\<close>

text \<open>
  \<open>cost[x]\<close> of a missing node is 0. Without a node that has data users the path is the null
  pointer alone.
\<close>

record LongestPath =
  lp_cost :: "(NodeId \<times> int) list"
  parent_map :: "(NodeId \<times> NodeId) list"
  max_distance :: int
  max_path_output :: "NodeId option"

definition int_min :: int where "int_min = - (2 ^ 31)"

definition cost_of :: "LongestPath \<Rightarrow> NodeId \<Rightarrow> int" where
  "cost_of s n = (case map_of (lp_cost s) n of None \<Rightarrow> 0 | Some c \<Rightarrow> c)"

definition relax :: "NodeId \<Rightarrow> NodeId \<Rightarrow> LongestPath \<Rightarrow> LongestPath" where
  "relax n user s =
     (let s1 = (if cost_of s user < cost_of s n + 1
                then s\<lparr>lp_cost := AList.update user (cost_of s n + 1) (lp_cost s),
                       parent_map := AList.update user n (parent_map s)\<rparr>
                else s) in
      if cost_of s1 n > max_distance s1
      then s1\<lparr>max_distance := cost_of s1 n, max_path_output := Some n\<rparr>
      else s1)"

partial_function (option) trace_parents :: "(NodeId \<times> NodeId) list \<Rightarrow> NodeId \<Rightarrow> NodeId list option" where
  "trace_parents parents n =
     (case map_of parents n of
        None \<Rightarrow> Some [n]
      | Some p \<Rightarrow> Option.bind (trace_parents parents p) (\<lambda>ps. Some (n # ps)))"

declare trace_parents.simps [code]

definition initial_costs :: "Graph \<Rightarrow> bool \<Rightarrow> (NodeId \<times> int) list res" where
  "initial_costs G from_inputs_only =
     (if from_inputs_only
      then res_bind (ordered_module_inputs G) (\<lambda>ins.
             Inr (fold (\<lambda>x. AList.update (n_id x) 0) ins (map (\<lambda>n. (n, int_min)) (node_order G))))
      else Inr [])"

definition relax_users :: "Graph \<Rightarrow> NodeId \<Rightarrow> LongestPath \<Rightarrow> LongestPath res" where
  "relax_users G n s =
     res_bind (data_users G n) (\<lambda>us. Inr (fold (\<lambda>u. relax n (n_id u)) us s))"

definition get_longest_path :: "Graph \<Rightarrow> bool \<Rightarrow> nat \<Rightarrow> NodeId option list comp" where
  "get_longest_path G from_inputs_only depth =
     comp_bind (Some (initial_costs G from_inputs_only)) (\<lambda>costs.
     comp_bind (topological_sort G default_node_filter False depth) (\<lambda>ns.
     comp_bind (Some (fold_res (relax_users G) ns
                  \<lparr>lp_cost = costs, parent_map = [], max_distance = int_min, max_path_output = None\<rparr>)) (\<lambda>s.
       case max_path_output s of
         None \<Rightarrow> Some (Inr [None])
       | Some n \<Rightarrow> Option.bind (trace_parents (parent_map s) n) (\<lambda>ns. Some (Inr (map Some (rev ns)))))))"

end
