(* ===== verification/Depth_First.thy ===== *)
theory Depth_First
  imports Prelude
begin

text \<open>
  Depth-first traversal, as the graph utilities write it: a recursive visit that marks the node,
  visits what it points to unless marked, and appends the node to the result. The depth bounds the
  recursion (the call stack); the locale proves that the number of nodes is enough, what the
  result contains, and that on an acyclic graph a node comes after everything it points to.
\<close>

fun dfs_visit :: "('n \<Rightarrow> 'n list) \<Rightarrow> nat \<Rightarrow> 'n \<Rightarrow> 'n set \<times> 'n list \<Rightarrow> ('n set \<times> 'n list) option"
and dfs_each :: "('n \<Rightarrow> 'n list) \<Rightarrow> nat \<Rightarrow> 'n list \<Rightarrow> 'n set \<times> 'n list \<Rightarrow> ('n set \<times> 'n list) option" where
  "dfs_visit adj 0 n s = None"
| "dfs_visit adj (Suc k) n s =
     map_option (\<lambda>(V, R). (V, R @ [n])) (dfs_each adj k (adj n) (insert n (fst s), snd s))"
| "dfs_each adj k [] s = Some s"
| "dfs_each adj k (m # ms) s =
     Option.bind (if m \<in> fst s then Some s else dfs_visit adj k m s) (dfs_each adj k ms)"

text \<open>Every element comes after what it points to.\<close>

definition after_targets :: "('n \<Rightarrow> 'n list) \<Rightarrow> 'n list \<Rightarrow> bool" where
  "after_targets adj xs \<longleftrightarrow> (\<forall>i < length xs. set (adj (xs ! i)) \<subseteq> set (take i xs))"

lemma after_targets_Nil [simp]: "after_targets adj []"
  by (simp add: after_targets_def)

lemma after_targets_snoc:
  "after_targets adj (xs @ [x]) \<longleftrightarrow> after_targets adj xs \<and> set (adj x) \<subseteq> set xs"
  by (auto simp: after_targets_def nth_append less_Suc_eq)

text \<open>
  What a visit adds to the marks and the result: new nodes, each once, reachable from the roots, and
  with everything they point to marked.
\<close>

definition points :: "('n \<Rightarrow> 'n list) \<Rightarrow> 'n set \<Rightarrow> ('n \<times> 'n) set" where
  "points adj nodes = {(m, n). m \<in> nodes \<and> n \<in> set (adj m)}"

definition settled :: "('n \<Rightarrow> 'n list) \<Rightarrow> 'n set \<Rightarrow> 'n set \<Rightarrow> 'n set \<Rightarrow> 'n list \<Rightarrow> bool" where
  "settled adj nodes roots V R \<longleftrightarrow>
     (\<forall>n \<in> set R. set (adj n) \<subseteq> V) \<and> set R \<subseteq> (points adj nodes)\<^sup>* `` roots"

lemma settled_more: "settled adj nodes A V R \<Longrightarrow> A \<subseteq> B \<Longrightarrow> V \<subseteq> W \<Longrightarrow> settled adj nodes B W R"
  unfolding settled_def by (meson Image_mono order_refl order_trans)

lemma settled_append:
  "settled adj nodes A V R \<Longrightarrow> settled adj nodes A V Q \<Longrightarrow> settled adj nodes A V (R @ Q)"
  unfolding settled_def set_append by blast

lemma settled_Nil [simp]: "settled adj nodes A V []"
  by (simp add: settled_def)

definition dfs_added ::
    "('n \<Rightarrow> 'n list) \<Rightarrow> 'n set \<Rightarrow> 'n set \<Rightarrow> 'n set \<times> 'n list \<Rightarrow> 'n set \<times> 'n list \<Rightarrow> 'n list \<Rightarrow> bool" where
  "dfs_added adj nodes roots s t R \<longleftrightarrow>
     fst t = fst s \<union> set R \<and> snd t = snd s @ R \<and> set R \<inter> fst s = {} \<and> set R \<subseteq> nodes \<and> distinct R \<and>
     settled adj nodes roots (fst t) R"

lemma dfs_added_trans:
  assumes "dfs_added adj nodes A s t R" and "dfs_added adj nodes B t u Q"
  shows "dfs_added adj nodes (A \<union> B) s u (R @ Q)"
proof -
  have "fst t \<subseteq> fst u" using assms(2) by (auto simp: dfs_added_def)
  then have "settled adj nodes (A \<union> B) (fst u) R"
    using settled_more [of adj nodes A "fst t" R "A \<union> B" "fst u"] assms(1) unfolding dfs_added_def by blast
  moreover have "settled adj nodes (A \<union> B) (fst u) Q"
    using settled_more [of adj nodes B "fst u" Q "A \<union> B" "fst u"] assms(2) unfolding dfs_added_def by blast
  ultimately have "settled adj nodes (A \<union> B) (fst u) (R @ Q)" by (rule settled_append)
  then show ?thesis using assms by (auto simp: dfs_added_def)
qed

lemma dfs_added_more: "dfs_added adj nodes A s t R \<Longrightarrow> A \<subseteq> B \<Longrightarrow> dfs_added adj nodes B s t R"
  unfolding dfs_added_def using settled_more [OF _ _ order_refl] by blast

locale depth_first =
  fixes adj :: "'n \<Rightarrow> 'n list" and nodes :: "'n set"
  assumes finite_nodes: "finite nodes"
    and adj_nodes: "n \<in> nodes \<Longrightarrow> set (adj n) \<subseteq> nodes"
begin

lemma each_from_visit:
  assumes visit: "\<And>n s. n \<in> nodes \<Longrightarrow> n \<notin> fst s \<Longrightarrow> fst s \<subseteq> nodes \<Longrightarrow> card (nodes - fst s) \<le> k \<Longrightarrow>
      \<exists>t R. dfs_visit adj k n s = Some t \<and> dfs_added adj nodes {n} s t R \<and> n \<in> set R"
    and "set ms \<subseteq> nodes" and "fst s \<subseteq> nodes" and "card (nodes - fst s) \<le> k"
  shows "\<exists>t R. dfs_each adj k ms s = Some t \<and> dfs_added adj nodes (set ms) s t R \<and> set ms \<subseteq> fst t"
  using assms(2-4)
proof (induction ms arbitrary: s)
  case Nil
  then show ?case by (auto simp: dfs_added_def)
next
  case (Cons m ms)
  show ?case
  proof (cases "m \<in> fst s")
    case True
    then obtain t R where t: "dfs_each adj k ms s = Some t" "dfs_added adj nodes (set ms) s t R" "set ms \<subseteq> fst t"
      using Cons.IH [of s] Cons.prems by auto
    moreover have "dfs_added adj nodes (set (m # ms)) s t R"
      by (rule dfs_added_more [OF t(2)]) auto
    moreover have "m \<in> fst t" using True t(2) by (simp add: dfs_added_def)
    ultimately show ?thesis using True by auto
  next
    case False
    then obtain u Q where u: "dfs_visit adj k m s = Some u" "dfs_added adj nodes {m} s u Q" "m \<in> set Q"
      using visit [of m s] Cons.prems by auto
    then have sub: "fst s \<subseteq> fst u" "fst u \<subseteq> nodes" "m \<in> fst u"
      using Cons.prems(2) by (auto simp: dfs_added_def)
    then have "card (nodes - fst u) \<le> card (nodes - fst s)"
      using finite_nodes by (intro card_mono) auto
    then obtain t R where t: "dfs_each adj k ms u = Some t" "dfs_added adj nodes (set ms) u t R" "set ms \<subseteq> fst t"
      using Cons.IH [of u] Cons.prems(1,3) sub(2) by auto
    moreover have "m \<in> fst t" using t(2) sub(3) by (auto simp: dfs_added_def)
    moreover have "dfs_added adj nodes (set (m # ms)) s t (Q @ R)"
      using dfs_added_trans [OF u(2) t(2)] by simp
    ultimately show ?thesis using False u(1) by auto
  qed
qed

lemma visit_returns:
  "n \<in> nodes \<Longrightarrow> n \<notin> fst s \<Longrightarrow> fst s \<subseteq> nodes \<Longrightarrow> card (nodes - fst s) \<le> k \<Longrightarrow>
   \<exists>t R. dfs_visit adj k n s = Some t \<and> dfs_added adj nodes {n} s t R \<and> n \<in> set R"
proof (induction k arbitrary: n s)
  case 0
  then show ?case using finite_nodes by auto
next
  case (Suc k)
  let ?s = "(insert n (fst s), snd s)"
  have "nodes - fst ?s = (nodes - fst s) - {n}" by auto
  then have "card (nodes - fst ?s) \<le> k"
    using Suc.prems finite_nodes by (simp add: card_Diff_singleton)
  then obtain t R where t: "dfs_each adj k (adj n) ?s = Some t" "dfs_added adj nodes (set (adj n)) ?s t R"
      "set (adj n) \<subseteq> fst t"
    using each_from_visit [OF Suc.IH, of "adj n" ?s] adj_nodes [OF Suc.prems(1)] Suc.prems(1,3) by auto
  have "(points adj nodes)\<^sup>* `` set (adj n) \<subseteq> (points adj nodes)\<^sup>* `` {n}"
    using Suc.prems(1) by (auto simp: points_def intro: converse_rtrancl_into_rtrancl)
  then have "settled adj nodes {n} (fst t) (R @ [n])"
    using t(2,3) unfolding dfs_added_def settled_def by (simp del: Image_singleton_iff) blast
  then have "dfs_added adj nodes {n} s (fst t, snd t @ [n]) (R @ [n])"
    using Suc.prems(1,2) t(2) unfolding dfs_added_def by auto
  with t(1) show ?case by (auto simp: case_prod_beta intro!: exI [of _ "R @ [n]"])
qed

lemma each_returns:
  assumes "set ms \<subseteq> nodes" and "fst s \<subseteq> nodes" and "card (nodes - fst s) \<le> k"
  shows "\<exists>t R. dfs_each adj k ms s = Some t \<and> dfs_added adj nodes (set ms) s t R \<and> set ms \<subseteq> fst t"
  by (rule each_from_visit [OF visit_returns assms])

text \<open>
  On an acyclic graph: the marked nodes that are not in the result yet are the callers of the
  visit, so what a finished node points to is finished too.
\<close>

definition callers_reach :: "'n \<Rightarrow> 'n set \<times> 'n list \<Rightarrow> bool" where
  "callers_reach n s \<longleftrightarrow> (\<forall>q \<in> fst s - set (snd s). (q, n) \<in> (points adj nodes)\<^sup>+)"

lemma added_callers:
  "dfs_added adj nodes A s t R \<Longrightarrow> set (snd s) \<subseteq> fst s \<Longrightarrow> fst t - set (snd t) = fst s - set (snd s)"
  by (auto simp: dfs_added_def)

lemma each_after_targets:
  assumes visit: "\<And>n s t. n \<in> nodes \<Longrightarrow> n \<notin> fst s \<Longrightarrow> fst s \<subseteq> nodes \<Longrightarrow> card (nodes - fst s) \<le> k \<Longrightarrow>
      set (snd s) \<subseteq> fst s \<Longrightarrow> callers_reach n s \<Longrightarrow> after_targets adj (snd s) \<Longrightarrow>
      dfs_visit adj k n s = Some t \<Longrightarrow> after_targets adj (snd t)"
    and "set ms \<subseteq> nodes" and "fst s \<subseteq> nodes" and "card (nodes - fst s) \<le> k" and "set (snd s) \<subseteq> fst s"
    and "\<forall>m \<in> set ms. callers_reach m s" and "after_targets adj (snd s)"
    and "dfs_each adj k ms s = Some t"
  shows "after_targets adj (snd t)"
  using assms(2-)
proof (induction ms arbitrary: s)
  case Nil
  then show ?case by simp
next
  case (Cons m ms)
  show ?case
  proof (cases "m \<in> fst s")
    case True
    with Cons show ?thesis by simp
  next
    case False
    then obtain u Q where u: "dfs_visit adj k m s = Some u" "dfs_added adj nodes {m} s u Q"
      using visit_returns [of m s k] Cons.prems by auto
    have uok: "after_targets adj (snd u)"
      using visit [of m s u] False Cons.prems u(1) by simp
    have sub: "fst s \<subseteq> fst u" "fst u \<subseteq> nodes" "set (snd u) \<subseteq> fst u"
      using u(2) Cons.prems(2,4) by (auto simp: dfs_added_def)
    then have card: "card (nodes - fst u) \<le> k"
      using finite_nodes Cons.prems(3) by (meson Diff_mono card_mono finite_Diff le_trans order_refl)
    have "\<forall>m \<in> set ms. callers_reach m u"
      using Cons.prems(5) added_callers [OF u(2) Cons.prems(4)] by (simp add: callers_reach_def)
    then show ?thesis
      using Cons.IH [of u] Cons.prems(1,7) sub card uok False u(1) by simp
  qed
qed

lemma visit_after_targets:
  assumes acyclic: "acyclic (points adj nodes)"
  shows "n \<in> nodes \<Longrightarrow> n \<notin> fst s \<Longrightarrow> fst s \<subseteq> nodes \<Longrightarrow> card (nodes - fst s) \<le> k \<Longrightarrow>
      set (snd s) \<subseteq> fst s \<Longrightarrow> callers_reach n s \<Longrightarrow> after_targets adj (snd s) \<Longrightarrow>
      dfs_visit adj k n s = Some t \<Longrightarrow> after_targets adj (snd t)"
proof (induction k arbitrary: n s t)
  case 0
  then show ?case by simp
next
  case (Suc k)
  let ?s = "(insert n (fst s), snd s)"
  have "nodes - fst ?s = (nodes - fst s) - {n}" by auto
  then have card: "card (nodes - fst ?s) \<le> k"
    using Suc.prems finite_nodes by (simp add: card_Diff_singleton)
  note adj_n = adj_nodes [OF Suc.prems(1)]
  obtain u R where u: "dfs_each adj k (adj n) ?s = Some u" "dfs_added adj nodes (set (adj n)) ?s u R" "set (adj n) \<subseteq> fst u"
    using each_returns [OF adj_n, of ?s k] card Suc.prems(1,3) by auto
  have point: "(n, m) \<in> points adj nodes" if "m \<in> set (adj n)" for m
    using that Suc.prems(1) by (simp add: points_def)
  have callers: "\<forall>m \<in> set (adj n). callers_reach m ?s"
    unfolding callers_reach_def
  proof (intro ballI)
    fix m q assume m: "m \<in> set (adj n)" and q: "q \<in> fst ?s - set (snd ?s)"
    show "(q, m) \<in> (points adj nodes)\<^sup>+"
    proof (cases "q = n")
      case True
      with point [OF m] show ?thesis by blast
    next
      case False
      with q Suc.prems(6) have "(q, n) \<in> (points adj nodes)\<^sup>+" by (simp add: callers_reach_def)
      with point [OF m] show ?thesis by simp
    qed
  qed
  have "after_targets adj (snd u)"
  proof (rule each_after_targets [where s = ?s and ms = "adj n" and k = k])
    show "set (adj n) \<subseteq> nodes" by (rule adj_n)
    show "card (nodes - fst ?s) \<le> k" by (rule card)
    show "\<forall>m \<in> set (adj n). callers_reach m ?s" by (rule callers)
    show "dfs_each adj k (adj n) ?s = Some u" by (rule u(1))
  qed (use Suc.IH Suc.prems(1,3,5,7) in auto)
  moreover have "set (adj n) \<subseteq> set (snd u)"
  proof
    fix m assume m: "m \<in> set (adj n)"
    show "m \<in> set (snd u)"
    proof (rule ccontr)
      assume "m \<notin> set (snd u)"
      then have "m \<in> fst ?s - set (snd ?s)"
        using u(3) m added_callers [OF u(2)] Suc.prems(5) by auto
      then have "(m, n) \<in> (points adj nodes)\<^sup>*"
        using Suc.prems(6) by (auto simp: callers_reach_def)
      with point [OF m] acyclic show False by (meson acyclic_def rtrancl_into_trancl2)
    qed
  qed
  ultimately show ?case using Suc.prems(8) u(1) by (cases u) (auto simp: after_targets_snoc)
qed

text \<open>
  A traversal from the start returns everything reachable from the nodes it is given, each node once,
  and on an acyclic graph targets first.
\<close>

lemma closed_reach:
  assumes "set ms \<subseteq> V" and "\<And>n. n \<in> V \<Longrightarrow> set (adj n) \<subseteq> V"
  shows "(points adj nodes)\<^sup>* `` set ms \<subseteq> V"
proof
  fix x assume "x \<in> (points adj nodes)\<^sup>* `` set ms"
  then obtain m where "m \<in> set ms" "(m, x) \<in> (points adj nodes)\<^sup>*" by blast
  from this(2) this(1) show "x \<in> V"
    by (induction rule: rtrancl_induct) (use assms in \<open>auto simp: points_def\<close>)
qed

theorem traversal:
  assumes "set ms \<subseteq> nodes" and "card nodes \<le> k"
  shows "\<exists>V R. dfs_each adj k ms ({}, []) = Some (V, R) \<and> set R = V \<and> distinct R \<and>
           V = (points adj nodes)\<^sup>* `` set ms \<and> V \<subseteq> nodes \<and>
           (acyclic (points adj nodes) \<longrightarrow> after_targets adj R)"
proof -
  let ?s = "({}, []) :: 'n set \<times> 'n list"
  have card: "card (nodes - fst ?s) \<le> k" using assms(2) by simp
  obtain t R where t: "dfs_each adj k ms ?s = Some t" "dfs_added adj nodes (set ms) ?s t R" "set ms \<subseteq> fst t"
    using each_returns [OF assms(1), of ?s k] card by auto
  have "after_targets adj (snd t)" if acyclic: "acyclic (points adj nodes)"
  proof (rule each_after_targets [where s = ?s and ms = ms and k = k])
    show "set ms \<subseteq> nodes" by (rule assms(1))
    show "card (nodes - fst ?s) \<le> k" by (rule card)
    show "dfs_each adj k ms ?s = Some t" by (rule t(1))
  qed (use visit_after_targets [OF acyclic] in \<open>auto simp: callers_reach_def\<close>)
  moreover have "(points adj nodes)\<^sup>* `` set ms \<subseteq> fst t"
    by (rule closed_reach [OF t(3)]) (use t(2) in \<open>auto simp: dfs_added_def settled_def\<close>)
  moreover have "fst t \<subseteq> (points adj nodes)\<^sup>* `` set ms"
    using t(2) by (simp add: dfs_added_def settled_def)
  ultimately show ?thesis using t by (cases t) (auto simp: dfs_added_def)
qed

end

end
