(* ===== verification/Graph_Topo_Facts.thy ===== *)
theory Graph_Topo_Facts
  imports Graph_Topo Graph_Views Depth_First
begin

text \<open>
  The traversals as depth-first searches: the visits of \<open>topological_sort\<close> (without unrolling) and of
  \<open>reachable_nodes\<close> are the visit of the locale \<open>depth_first\<close> over the operands they follow, which is
  interpreted here on the model's graph.
\<close>

section \<open>A loop over edges is a loop over their targets\<close>

lemma fold_comp_each:
  assumes visit: "\<And>m s V R V' R'. m \<in> set ms \<Longrightarrow> rel s V R \<Longrightarrow> m \<notin> V \<Longrightarrow>
      dfs_visit adj k m (V, R) = Some (V', R') \<Longrightarrow> \<exists>s'. visit m s = Some (Inr s') \<and> rel s' V' R'"
    and body: "\<And>e s V R. e \<in> set es \<Longrightarrow> rel s V R \<Longrightarrow>
      f e s = (if follow e \<and> g e \<notin> V then visit (g e) s else Some (Inr s))"
    and ms: "ms = map g (filter follow es)"
    and run: "dfs_each adj k ms (V, R) = Some (V', R')" and start: "rel s V R"
  shows "\<exists>s'. fold_comp f es s = Some (Inr s') \<and> rel s' V' R'"
  using assms
proof (induction es arbitrary: ms s V R)
  case Nil
  then show ?case by simp
next
  case (Cons e es)
  let ?ms = "map g (filter follow es)"
  have f: "f e s = (if follow e \<and> g e \<notin> V then visit (g e) s else Some (Inr s))"
    by (rule Cons.prems(2) [OF _ Cons.prems(5)]) simp
  have rest: "\<exists>s'. fold_comp f es u = Some (Inr s') \<and> rel s' V' R'"
    if "rel u W Q" and "dfs_each adj k ?ms (W, Q) = Some (V', R')" for u W Q
  proof (rule Cons.IH [OF _ _ refl that(2,1)])
    show "\<exists>s'. visit m s = Some (Inr s') \<and> rel s' V' R'"
      if "m \<in> set ?ms" "rel s V R" "m \<notin> V" "dfs_visit adj k m (V, R) = Some (V', R')" for m s V R V' R'
      by (rule Cons.prems(1) [OF _ that(2-4)]) (use that(1) in \<open>auto simp: Cons.prems(3)\<close>)
    show "f e s = (if follow e \<and> g e \<notin> V then visit (g e) s else Some (Inr s))"
      if "e \<in> set es" "rel s V R" for e s V R
      by (rule Cons.prems(2) [OF _ that(2)]) (simp add: that(1))
  qed
  show ?case
  proof (cases "follow e \<and> g e \<notin> V")
    case True
    then obtain W Q where u: "dfs_visit adj k (g e) (V, R) = Some (W, Q)"
        "dfs_each adj k ?ms (W, Q) = Some (V', R')"
      using Cons.prems(3,4) by (cases "dfs_visit adj k (g e) (V, R)") auto
    obtain u' where u': "visit (g e) s = Some (Inr u')" "rel u' W Q"
      using Cons.prems(1) [OF _ Cons.prems(5) _ u(1)] True Cons.prems(3) by auto
    then show ?thesis using rest [OF u'(2) u(2)] f True by simp
  next
    case False
    then have "dfs_each adj k ?ms (V, R) = Some (V', R')"
      using Cons.prems(3,4) by (auto split: if_splits)
    then show ?thesis using rest [OF Cons.prems(5)] f False by simp
  qed
qed

section \<open>The operands a topological sort follows\<close>

definition seen :: "Graph \<Rightarrow> NodeId set" where
  "seen G = {n \<in> node_set G. is_node_visible G n}"

definition followed_operands :: "Graph \<Rightarrow> NodeId \<Rightarrow> Edge list" where
  "followed_operands G n = [e \<leftarrow> shown_operands G n. \<not> not_followed e]"

definition topo_adj :: "Graph \<Rightarrow> NodeId \<Rightarrow> NodeId list" where
  "topo_adj G n = [p \<leftarrow> map producer_node_id (followed_operands G n). has_node_with_id G p \<and> is_node_visible G p]"

lemma finite_node_set [simp]: "finite (node_set G)"
  by (simp add: node_set_def finite_dom_map_of)

lemma finite_seen [simp]: "finite (seen G)"
  by (simp add: seen_def)

interpretation topo: depth_first "topo_adj G" "seen G" for G
  by unfold_locales (auto simp: topo_adj_def seen_def has_node_with_id_iff)

lemma shown_ends:
  assumes "graph_ok G" and "e \<in> graph_edges G" and "edge_shown G e"
  shows "producer_node_id e \<in> seen G" and "consumer_node_id e \<in> seen G"
proof -
  have "is_node_visible G (producer_node_id e)" "is_node_visible G (consumer_node_id e)"
    using assms(3) by (auto simp: edge_shown_def is_node_visible_def)
  then show "producer_node_id e \<in> seen G" "consumer_node_id e \<in> seen G"
    using edges_ok_ends [of G e] assms(1,2) by (simp_all add: seen_def graph_ok_def)
qed

lemma topo_adj_producers:
  assumes "graph_ok G"
  shows "topo_adj G n = map producer_node_id (followed_operands G n)"
proof -
  have "producer_node_id e \<in> seen G" if "e \<in> set (followed_operands G n)" for e
    using that shown_ends(1) [OF assms, of e] by (auto simp: followed_operands_def shown_sets [OF assms])
  then have "has_node_with_id G p \<and> is_node_visible G p"
    if "p \<in> set (map producer_node_id (followed_operands G n))" for p
    using that unfolding has_node_with_id_iff seen_def by auto
  then show ?thesis unfolding topo_adj_def by (simp add: filter_id_conv)
qed

definition topo_rel ::
    "Graph \<Rightarrow> (Node \<Rightarrow> bool) \<Rightarrow> NodeId list \<Rightarrow> TopoState \<Rightarrow> NodeId set \<Rightarrow> NodeId list \<Rightarrow> bool" where
  "topo_rel G P q s V R \<longleftrightarrow>
     (\<forall>n. requires_visit (topo_visited s) n \<longleftrightarrow> n \<notin> V) \<and>
     topo_result s = filter (\<lambda>n. P (node_of G n)) R \<and> node_queue s = q"

lemma requires_visit_update:
  "requires_visit (AList.update n b visited) m \<longleftrightarrow> (if m = n then \<not> b else requires_visit visited m)"
  by (simp add: requires_visit_def map_of_update_conv)

lemma visit_node_dfs:
  assumes "graph_ok G"
  shows "n \<in> seen G \<Longrightarrow> topo_rel G P q s V R \<Longrightarrow> dfs_visit (topo_adj G) k n (V, R) = Some (V', R') \<Longrightarrow>
    \<exists>s'. visit_node G P False k n s = Some (Inr s') \<and> topo_rel G P q s' V' R'"
proof (induction k arbitrary: n s V R V' R')
  case 0
  then show ?case by simp
next
  case (Suc k)
  let ?s = "s\<lparr>topo_visited := AList.update n True (topo_visited s)\<rparr>"
  let ?es = "shown_operands G n"
  let ?body = "\<lambda>e s. if not_followed e then Some (Inr s)
     else comp_bind (Some (node_by_id G (producer_node_id e))) (\<lambda>_.
            if requires_visit (topo_visited s) (producer_node_id e)
            then visit_node G P False k (producer_node_id e) s else Some (Inr s))"
  from Suc.prems(3) obtain Q where Q: "dfs_each (topo_adj G) k (topo_adj G n) (insert n V, R) = Some (V', Q)"
    and R': "R' = Q @ [n]" by auto
  have n: "n \<in> node_set G" using Suc.prems(1) by (simp add: seen_def)
  have start: "topo_rel G P q ?s (insert n V) R"
    using Suc.prems(2) by (auto simp: topo_rel_def requires_visit_update)
  have ends: "producer_node_id e \<in> seen G" if "e \<in> set ?es" for e
    using that shown_ends(1) [OF assms, of e] by (auto simp: shown_sets [OF assms])
  have "\<exists>s'. fold_comp ?body ?es ?s = Some (Inr s') \<and> topo_rel G P q s' V' Q"
  proof (rule fold_comp_each [where visit = "visit_node G P False k" and g = producer_node_id and
        follow = "\<lambda>e. \<not> not_followed e" and rel = "topo_rel G P q", OF _ _ _ Q start])
    show "\<exists>s'. visit_node G P False k m s = Some (Inr s') \<and> topo_rel G P q s' V' R'"
      if m: "m \<in> set (topo_adj G n)" and "topo_rel G P q s V R" and "m \<notin> V"
        and "dfs_visit (topo_adj G) k m (V, R) = Some (V', R')" for m s V R V' R'
      by (rule Suc.IH [OF _ that(2,4)]) (use topo.adj_nodes [OF Suc.prems(1)] m in auto)
    show "?body e s = (if \<not> not_followed e \<and> producer_node_id e \<notin> V
        then visit_node G P False k (producer_node_id e) s else Some (Inr s))"
      if "e \<in> set ?es" "topo_rel G P q s V R" for e s V R
      using that(2) ends [OF that(1)] by (simp add: topo_rel_def node_by_id_pure seen_def)
  qed (simp add: topo_adj_producers [OF assms] followed_operands_def)
  then obtain s1 where s1: "fold_comp ?body ?es ?s = Some (Inr s1)" "topo_rel G P q s1 V' Q" by blast
  let ?t = "if P (node_of G n) then s1\<lparr>topo_result := topo_result s1 @ [n]\<rparr> else s1"
  have "visit_node G P False (Suc k) n s = Some (Inr ?t)"
    by (simp add: all_edges_pure [OF assms n] s1(1) node_by_id_pure [OF n] Let_def)
  moreover have "topo_rel G P q ?t V' R'" using s1(2) by (simp add: topo_rel_def R')
  ultimately show ?case by blast
qed

lemma topo_loop_dfs:
  assumes "graph_ok G"
  shows "set ms \<subseteq> seen G \<Longrightarrow> topo_rel G P ms s V R \<Longrightarrow> dfs_each (topo_adj G) k ms (V, R) = Some (V', R') \<Longrightarrow>
    \<exists>s'. topo_loop (visit_node G P False k) s = Some (Inr s') \<and> topo_rel G P [] s' V' R'"
proof (induction ms arbitrary: s V R)
  case Nil
  then show ?case by (simp add: topo_loop.simps topo_rel_def)
next
  case (Cons m ms)
  have q: "node_queue s = m # ms" using Cons.prems(2) by (simp add: topo_rel_def)
  have visit: "requires_visit (topo_visited s) m \<longleftrightarrow> m \<notin> V" using Cons.prems(2) by (simp add: topo_rel_def)
  obtain u W Q where u: "(if m \<notin> V then visit_node G P False k m s else Some (Inr s)) = Some (Inr u)"
      "topo_rel G P (m # ms) u W Q" "dfs_each (topo_adj G) k ms (W, Q) = Some (V', R')"
  proof (cases "m \<in> V")
    case True
    then show ?thesis using Cons.prems(2,3) that [of s V R] by simp
  next
    case False
    then obtain W Q where "dfs_visit (topo_adj G) k m (V, R) = Some (W, Q)"
        "dfs_each (topo_adj G) k ms (W, Q) = Some (V', R')"
      using Cons.prems(3) by (cases "dfs_visit (topo_adj G) k m (V, R)") auto
    then show ?thesis
      using visit_node_dfs [OF assms, of m P "m # ms" s V R k W Q] Cons.prems(1,2) False that by auto
  qed
  let ?u = "u\<lparr>node_queue := tl (node_queue u)\<rparr>"
  have "topo_rel G P ms ?u W Q" using u(2) by (simp add: topo_rel_def)
  then obtain s' where "topo_loop (visit_node G P False k) ?u = Some (Inr s')" "topo_rel G P [] s' V' R'"
    using Cons.IH [of ?u W Q] Cons.prems(1) u(3) by auto
  then show ?case using u(1) q visit by (subst topo_loop.simps) simp
qed

lemma card_seen: "graph_ok G \<Longrightarrow> card (seen G) \<le> num_nodes G"
proof -
  have "seen G \<subseteq> fst ` set (nodes_map G)" by (auto simp: seen_def node_set_def dom_map_of_conv_image_fst)
  then have "card (seen G) \<le> card (fst ` set (nodes_map G))" by (intro card_mono) auto
  also have "\<dots> \<le> num_nodes G" unfolding num_nodes_def by (metis card_length length_map list.set_map)
  finally show ?thesis .
qed

text \<open>The sort: the nodes seen, in an order that on an acyclic graph puts operands first.\<close>

lemma topological_sort_dfs:
  assumes "graph_ok G" and "num_nodes G \<le> depth"
  shows "\<exists>R. topological_sort G P False depth = Some (Inr (filter (\<lambda>n. P (node_of G n)) R)) \<and>
           set R = seen G \<and> distinct R \<and>
           (acyclic (points (topo_adj G) (seen G)) \<longrightarrow> after_targets (topo_adj G) R)"
proof -
  let ?ms = "filter (is_node_visible G) (node_order G)"
  have ms: "set ?ms = seen G"
    using node_order_nodes [OF assms(1)] by (auto simp: seen_def)
  obtain V R where R: "dfs_each (topo_adj G) depth ?ms ({}, []) = Some (V, R)" "set R = V" "distinct R"
      "V = (points (topo_adj G) (seen G))\<^sup>* `` set ?ms" "V \<subseteq> seen G"
      "acyclic (points (topo_adj G) (seen G)) \<longrightarrow> after_targets (topo_adj G) R"
    using topo.traversal [of ?ms G depth] ms card_seen [OF assms(1)] assms(2) by auto
  let ?s = "\<lparr>topo_visited = [], topo_result = [], node_queue = ?ms, control_loop_edge_to_iteration = []\<rparr>"
  have "topo_rel G P ?ms ?s {} []" by (simp add: topo_rel_def requires_visit_def)
  then obtain s' where "topo_loop (visit_node G P False depth) ?s = Some (Inr s')" "topo_rel G P [] s' V R"
    using topo_loop_dfs [OF assms(1) _ _ R(1), of P ?s] ms by auto
  then have "topological_sort G P False depth = Some (Inr (filter (\<lambda>n. P (node_of G n)) R))"
    by (simp add: topological_sort_def topo_rel_def)
  moreover have "seen G \<subseteq> V" using R(4) ms by auto
  ultimately show ?thesis using R by blast
qed

text \<open>
  \<open>reachable_nodes\<close> as a depth-first search over data operands (and data users, unless only ancestors
  are asked for), by the same interpretation of \<open>depth_first\<close>.
\<close>

definition data_operands_of :: "Graph \<Rightarrow> NodeId \<Rightarrow> Edge list" where
  "data_operands_of G n = filter is_data_edge (shown_operands G n)"

definition data_users_of :: "Graph \<Rightarrow> NodeId \<Rightarrow> Edge list" where
  "data_users_of G n = [e \<leftarrow> shown_users G n. edge_type e = kData]"

lemma operand_data_edges_pure:
  assumes "graph_ok G" and "n \<in> node_set G"
  shows "operand_data_edges G any_edge n = Inr (data_operands_of G n)"
  by (simp add: operand_data_edges_def operand_edges_pure [OF assms] data_operands_of_def
      shown_operands_def filter_sort conj_commute)

lemma data_nodes_pure:
  assumes "graph_ok G" and "n \<in> node_set G"
  shows "data_operands G n = Inr (map (\<lambda>e. node_of G (producer_node_id e)) (data_operands_of G n))"
    and "data_users G n = Inr (map (\<lambda>e. node_of G (consumer_node_id e)) (data_users_of G n))"
proof -
  have sub: "set (data_operands_of G n) \<subseteq> graph_edges G" "set (data_users_of G n) \<subseteq> graph_edges G"
    by (auto simp: data_operands_of_def data_users_of_def shown_sets [OF assms(1)])
  show "data_operands G n = Inr (map (\<lambda>e. node_of G (producer_node_id e)) (data_operands_of G n))"
    by (simp add: data_operands_def operand_data_edges_pure [OF assms] ends_pure [OF assms(1) sub(1)])
  show "data_users G n = Inr (map (\<lambda>e. node_of G (consumer_node_id e)) (data_users_of G n))"
    using ends_pure(2) [OF assms(1) sub(2)]
    by (simp add: data_users_def all_edges_pure [OF assms] data_users_of_def)
qed

definition walks_users :: "Graph \<Rightarrow> bool \<Rightarrow> NodeId \<Rightarrow> bool" where
  "walks_users G ancestors_only n \<longleftrightarrow> n_type (node_of G n) \<noteq> kInput \<and> \<not> ancestors_only"

definition reach_adj :: "Graph \<Rightarrow> bool \<Rightarrow> NodeId \<Rightarrow> NodeId list" where
  "reach_adj G ancestors_only n =
     filter (has_node_with_id G)
       (map producer_node_id (data_operands_of G n) @
        (if walks_users G ancestors_only n then map consumer_node_id (data_users_of G n) else []))"

interpretation reach: depth_first "reach_adj G ancestors_only" "node_set G" for G ancestors_only
  by unfold_locales (auto simp: reach_adj_def has_node_with_id_iff)

lemma data_ends:
  assumes "graph_ok G"
  shows "e \<in> set (data_operands_of G n) \<Longrightarrow> producer_node_id e \<in> node_set G"
    and "e \<in> set (data_users_of G n) \<Longrightarrow> consumer_node_id e \<in> node_set G"
  using edges_ok_ends [of G e] assms
  by (auto simp: graph_ok_def data_operands_of_def data_users_of_def shown_sets [OF assms])

lemma reach_adj_nodes:
  assumes "graph_ok G"
  shows "reach_adj G a n = map producer_node_id (data_operands_of G n) @
           (if walks_users G a n then map consumer_node_id (data_users_of G n) else [])"
  using data_ends [OF assms] by (auto simp: reach_adj_def has_node_with_id_iff intro!: filter_True)

lemma dfs_each_append:
  "dfs_each adj k (xs @ ys) s = Option.bind (dfs_each adj k xs s) (dfs_each adj k ys)"
proof (induction xs arbitrary: s)
  case (Cons x xs)
  have "dfs_each adj k (xs @ ys) = (\<lambda>s. Option.bind (dfs_each adj k xs s) (dfs_each adj k ys))"
    using Cons.IH by (rule ext)
  then show ?case by simp
qed simp

definition reach_rel ::
    "Graph \<Rightarrow> (Node \<Rightarrow> bool) \<Rightarrow> Visited \<times> NodeId list \<Rightarrow> NodeId set \<Rightarrow> NodeId list \<Rightarrow> bool" where
  "reach_rel G P s V R \<longleftrightarrow>
     (\<forall>n. requires_visit (fst s) n \<longleftrightarrow> n \<notin> V) \<and> snd s = filter (\<lambda>n. P (node_of G n)) R"

lemma reach_node_dfs:
  assumes "graph_ok G"
  shows "n \<in> node_set G \<Longrightarrow> reach_rel G P s V R \<Longrightarrow> dfs_visit (reach_adj G a) k n (V, R) = Some (V', R') \<Longrightarrow>
    \<exists>s'. reach_node G P a k n s = Some (Inr s') \<and> reach_rel G P s' V' R'"
proof (induction k arbitrary: n s V R V' R')
  case 0
  then show ?case by simp
next
  case (Suc k)
  note n = Suc.prems(1)
  let ?os = "map producer_node_id (data_operands_of G n)"
  let ?us = "if walks_users G a n then map consumer_node_id (data_users_of G n) else []"
  let ?visit = "\<lambda>m s. if requires_visit (fst s) (n_id m) then reach_node G P a k (n_id m) s else Some (Inr s)"
  have visits: "\<exists>s'. fold_comp ?visit (map (node_of G) ms) s = Some (Inr s') \<and> reach_rel G P s' V' R'"
    if ms: "set ms \<subseteq> node_set G" and s: "reach_rel G P s V R"
      and run: "dfs_each (reach_adj G a) k ms (V, R) = Some (V', R')" for ms s V R V' R'
  proof (rule fold_comp_each [where visit = "reach_node G P a k" and g = n_id and follow = "\<lambda>_. True" and
        rel = "reach_rel G P", OF _ _ _ run s])
    have same: "map n_id (map (node_of G) ms) = ms"
      using ms by (simp add: comp_def) (metis map_idI node_of_id [OF assms] subsetD)
    then show "ms = map n_id (filter (\<lambda>_. True) (map (node_of G) ms))" by simp
    show "\<exists>s'. reach_node G P a k m s = Some (Inr s') \<and> reach_rel G P s' V' R'"
      if "m \<in> set ms" "reach_rel G P s V R" "m \<notin> V" "dfs_visit (reach_adj G a) k m (V, R) = Some (V', R')"
      for m s V R V' R'
      by (rule Suc.IH [OF _ that(2,4)]) (use ms that(1) in auto)
    show "?visit e s = (if True \<and> n_id e \<notin> V then reach_node G P a k (n_id e) s else Some (Inr s))"
      if "reach_rel G P s V R" for e s V R
      using that by (simp add: reach_rel_def)
  qed
  from Suc.prems(3) obtain Q where
      "dfs_each (reach_adj G a) k (reach_adj G a n) (insert n V, R) = Some (V', Q)" and R': "R' = Q @ [n]"
    by auto
  then have Q: "dfs_each (reach_adj G a) k (?os @ ?us) (insert n V, R) = Some (V', Q)"
    by (simp only: reach_adj_nodes [OF assms, of a n])
  then obtain W S where W: "dfs_each (reach_adj G a) k ?os (insert n V, R) = Some (W, S)"
      "dfs_each (reach_adj G a) k ?us (W, S) = Some (V', Q)"
    unfolding dfs_each_append by (cases "dfs_each (reach_adj G a) k ?os (insert n V, R)") auto
  have start: "reach_rel G P (AList.update n True (fst s), snd s) (insert n V) R"
    using Suc.prems(2) by (auto simp: reach_rel_def requires_visit_update)
  have subs: "set ?os \<subseteq> node_set G" "set ?us \<subseteq> node_set G" using data_ends [OF assms] by auto
  obtain s1 where s1: "fold_comp ?visit (map (node_of G) ?os) (AList.update n True (fst s), snd s) = Some (Inr s1)"
      "reach_rel G P s1 W S"
    using visits [OF subs(1) start W(1)] by blast
  obtain s2 where s2: "fold_comp ?visit (map (node_of G) ?us) s1 = Some (Inr s2)" "reach_rel G P s2 V' Q"
    using visits [OF subs(2) s1(2) W(2)] by blast
  have "(if walks_users G a n
         then comp_bind (Some (data_users G n)) (\<lambda>us. fold_comp ?visit us s1)
         else Some (Inr s1)) = Some (Inr s2)"
    using s2(1) by (simp add: data_nodes_pure [OF assms n] comp_def split: if_splits)
  then have "reach_node G P a (Suc k) n s =
      Some (Inr (fst s2, if P (node_of G n) then snd s2 @ [n] else snd s2))"
    using s1(1) by (simp add: data_nodes_pure(1) [OF assms n] node_by_id_pure [OF n] Let_def comp_def walks_users_def)
  moreover have "reach_rel G P (fst s2, if P (node_of G n) then snd s2 @ [n] else snd s2) V' R'"
    using s2(2) by (simp add: reach_rel_def R')
  ultimately show ?case by blast
qed

lemma card_node_set: "card (node_set G) \<le> num_nodes G"
  unfolding node_set_def num_nodes_def dom_map_of_conv_image_fst
  by (metis card_length length_map list.set_map)

lemma reachable_nodes_dfs:
  assumes "graph_ok G" and "start \<in> node_set G" and "num_nodes G \<le> depth"
  shows "\<exists>R. reachable_nodes G start P a depth = Some (Inr (filter (\<lambda>n. P (node_of G n)) R)) \<and> distinct R \<and>
           set R = (points (reach_adj G a) (node_set G))\<^sup>* `` {start}"
proof -
  have "card (node_set G) \<le> depth" using card_node_set [of G] assms(3) by simp
  then obtain V R where R: "dfs_each (reach_adj G a) depth [start] ({}, []) = Some (V, R)" "set R = V" "distinct R"
      "V = (points (reach_adj G a) (node_set G))\<^sup>* `` {start}"
    using reach.traversal [of "[start]" G depth a] assms(2) by auto
  then have "dfs_visit (reach_adj G a) depth start ({}, []) = Some (V, R)"
    by (cases "dfs_visit (reach_adj G a) depth start ({}, [])") auto
  moreover have "reach_rel G P ([], []) {} []" by (simp add: reach_rel_def requires_visit_def)
  ultimately obtain s where "reach_node G P a depth start ([], []) = Some (Inr s)" "reach_rel G P s V R"
    using reach_node_dfs [OF assms(1,2)] by blast
  then show ?thesis using R by (auto simp: reachable_nodes_def reach_rel_def)
qed

text \<open>The data edges a graph shows, from producer to consumer.\<close>

definition feeds :: "Graph \<Rightarrow> (NodeId \<times> NodeId) set" where
  "feeds G = {(producer_node_id e, consumer_node_id e) | e.
     e \<in> graph_edges G \<and> edge_shown G e \<and> is_data_edge e}"

lemma points_ancestors:
  assumes "graph_ok G"
  shows "points (reach_adj G True) (node_set G) = (feeds G)\<inverse>"
proof -
  have "consumer_node_id e \<in> node_set G" if "e \<in> graph_edges G" for e
    using edges_ok_ends [of G e] assms that by (simp add: graph_ok_def)
  then show ?thesis
    by (auto simp: points_def reach_adj_nodes [OF assms] walks_users_def data_operands_of_def
        shown_sets [OF assms] feeds_def)
qed

end
