(* ===== verification/Interactive_Scheduler.thy ===== *)
theory Interactive_Scheduler
  imports Graph_Topo Graph_Topo_Facts
begin

text \<open>
  The scheduler that hands out ops one by one (\<open>scheduler/interactive_scheduler.cpp\<close>): it keeps a
  preferred schedule, the ops that are ready and the ops that were accepted, offers the ready ones,
  and takes back the caller's choice. The policies that compute the preferred schedule are in
  \<open>Scheduler\<close>; the constructor gets their result.
\<close>

type_synonym Schedule = "string list"

record InteractiveScheduler =
  current_epoch_type :: NodeEpochType
  preferred_schedule :: Schedule
  ready_ops :: Schedule
  scheduled_ops :: "NodeId list"

text \<open>All operands that are ops have been scheduled.\<close>

definition op_is_ready :: "Graph \<Rightarrow> InteractiveScheduler \<Rightarrow> Node \<Rightarrow> bool res" where
  "op_is_ready G s op =
     (if n_epoch op \<noteq> current_epoch_type s then Inr False
      else
        res_bind (operands G (n_id op)) (\<lambda>ns.
          all_res (\<lambda>x.
            if n_type x = kBudaOp
            then res_bind (as_buda_op x) (\<lambda>_. Inr (n_id x \<in> set (scheduled_ops s)))
            else Inr True) ns))"

definition try_schedule_user :: "Graph \<Rightarrow> Node \<Rightarrow> InteractiveScheduler \<Rightarrow> InteractiveScheduler res" where
  "try_schedule_user G user s =
     (if n_type user = kBudaOp \<and> n_name user \<notin> set (ready_ops s)
      then res_bind (as_buda_op user) (\<lambda>_.
           res_bind (op_is_ready G s user) (\<lambda>b.
             Inr (if b then s\<lparr>ready_ops := ready_ops s @ [n_name user]\<rparr> else s)))
      else Inr s)"

definition try_schedule_users :: "Graph \<Rightarrow> NodeId \<Rightarrow> InteractiveScheduler \<Rightarrow> InteractiveScheduler res" where
  "try_schedule_users G n s = res_bind (users G n) (\<lambda>us. fold_res (try_schedule_user G) us s)"

definition mk_interactive_scheduler ::
    "Graph \<Rightarrow> Schedule \<Rightarrow> NodeEpochType \<Rightarrow> InteractiveScheduler res" where
  "mk_interactive_scheduler G preferred initial_epoch_type =
     (let s = \<lparr>current_epoch_type = initial_epoch_type, preferred_schedule = preferred, ready_ops = [],
               scheduled_ops = []\<rparr> in
      case preferred of
        [] \<Rightarrow> Inr s
      | first # _ \<Rightarrow>
          fold_res (\<lambda>n s.
            res_bind (node_by_id G n) (\<lambda>x.
              if n_type x = kInput then try_schedule_users G n s else Inr s))
            (node_order G) (s\<lparr>ready_ops := [first]\<rparr>))"

definition get_ops :: "InteractiveScheduler \<Rightarrow> Schedule" where
  "get_ops s = ready_ops s"

text \<open>If the next preferred op is among the ready ones it moves to the front.\<close>

definition offer_preferred :: "InteractiveScheduler \<Rightarrow> InteractiveScheduler" where
  "offer_preferred s =
     (case preferred_schedule s of
        [] \<Rightarrow> s
      | first # _ \<Rightarrow>
          if first \<in> set (ready_ops s) \<and> hd (ready_ops s) \<noteq> first
          then s\<lparr>ready_ops := first # remove1 first (ready_ops s)\<rparr> else s)"

definition accept_op :: "Graph \<Rightarrow> string \<Rightarrow> InteractiveScheduler \<Rightarrow> InteractiveScheduler res" where
  "accept_op G op s =
     res_bind (node_by_name G op) (\<lambda>x.
     let s1 = s\<lparr>scheduled_ops := List.insert (n_id x) (scheduled_ops s)\<rparr> in
     res_bind (tt_assert (op \<in> set (ready_ops s1))) (\<lambda>_.
     res_bind (try_schedule_users G (n_id x) (s1\<lparr>ready_ops := remove1 op (ready_ops s1)\<rparr>)) (\<lambda>s2.
       Inr (offer_preferred (s2\<lparr>preferred_schedule := remove1 op (preferred_schedule s2)\<rparr>)))))"

definition scheduler_done :: "InteractiveScheduler \<Rightarrow> bool" where
  "scheduler_done s \<longleftrightarrow> ready_ops s = []"

definition push_if_ready :: "Graph \<Rightarrow> string \<Rightarrow> InteractiveScheduler \<Rightarrow> InteractiveScheduler res" where
  "push_if_ready G op s =
     res_bind (node_by_name G op) (\<lambda>x.
     res_bind (as_buda_op x) (\<lambda>_.
     res_bind (op_is_ready G s x) (\<lambda>b.
       Inr (if b then s\<lparr>ready_ops := ready_ops s @ [op]\<rparr> else s))))"

definition set_epoch_type :: "Graph \<Rightarrow> NodeEpochType \<Rightarrow> InteractiveScheduler \<Rightarrow> InteractiveScheduler res" where
  "set_epoch_type G epoch_type s =
     res_bind (tt_assert (scheduler_done s)) (\<lambda>_.
       fold_res (push_if_ready G) (preferred_schedule s) (s\<lparr>current_epoch_type := epoch_type\<rparr>))"

text \<open>A checkpoint is a copy of the whole state.\<close>

definition save_checkpoint :: "InteractiveScheduler \<Rightarrow> InteractiveScheduler" where
  "save_checkpoint s =
     \<lparr>current_epoch_type = current_epoch_type s, preferred_schedule = preferred_schedule s,
      ready_ops = ready_ops s, scheduled_ops = scheduled_ops s\<rparr>"

definition restore_checkpoint :: "InteractiveScheduler \<Rightarrow> InteractiveScheduler \<Rightarrow> InteractiveScheduler" where
  "restore_checkpoint checkpoint s =
     s\<lparr>preferred_schedule := preferred_schedule checkpoint, ready_ops := ready_ops checkpoint,
       scheduled_ops := scheduled_ops checkpoint, current_epoch_type := current_epoch_type checkpoint\<rparr>"

text \<open>
  What the interactive scheduler does in a sound graph: the tests and updates without errors, the
  invariant that relates the offered, the accepted and the preferred ops to the graph, and its
  preservation by every operation.
\<close>

section \<open>Ops and their names\<close>

definition name_of :: "Graph \<Rightarrow> NodeId \<Rightarrow> string" where
  "name_of G n = n_name (node_of G n)"

definition is_op :: "Graph \<Rightarrow> NodeId \<Rightarrow> bool" where
  "is_op G n \<longleftrightarrow> n_type (node_of G n) = kBudaOp"

text \<open>Every op node is of the op class.\<close>

definition classes_ok :: "Graph \<Rightarrow> bool" where
  "classes_ok G \<longleftrightarrow>
     list_all (\<lambda>(n, x). n_type x = kBudaOp \<longrightarrow> (case n_class x of BudaOpNodeClass _ \<Rightarrow> True | _ \<Rightarrow> False)) (nodes_map G)"

definition op_graph :: "Graph \<Rightarrow> bool" where
  "op_graph G \<longleftrightarrow> graph_ok G \<and> classes_ok G"

definition buda_ops :: "Graph \<Rightarrow> NodeId list" where
  "buda_ops G = [n \<leftarrow> node_order G. is_node_visible G n \<and> is_op G n]"

definition producer_ids :: "Graph \<Rightarrow> NodeId \<Rightarrow> NodeId list" where
  "producer_ids G n = map producer_node_id (shown_operands G n)"

definition consumer_ids :: "Graph \<Rightarrow> NodeId \<Rightarrow> NodeId list" where
  "consumer_ids G n = map consumer_node_id (shown_users G n)"

definition op_operands :: "Graph \<Rightarrow> NodeId \<Rightarrow> NodeId list" where
  "op_operands G n = filter (is_op G) (producer_ids G n)"

definition ready_here :: "Graph \<Rightarrow> InteractiveScheduler \<Rightarrow> NodeId \<Rightarrow> bool" where
  "ready_here G s n \<longleftrightarrow>
     n_epoch (node_of G n) = current_epoch_type s \<and> set (op_operands G n) \<subseteq> set (scheduled_ops s)"

lemma op_graph_ok: "op_graph G \<Longrightarrow> graph_ok G"
  by (simp add: op_graph_def)

lemma buda_ops_set: "op_graph G \<Longrightarrow> set (buda_ops G) = {n \<in> seen G. is_op G n}"
  using node_order_nodes [of G] by (auto simp: buda_ops_def op_graph_def seen_def)

lemma op_class:
  assumes "op_graph G" and "n \<in> node_set G" and "is_op G n"
  shows "\<exists>f. as_buda_op (node_of G n) = Inr f"
proof -
  from assms(2) have "(n, node_of G n) \<in> set (nodes_map G)"
    by (auto simp: node_set_def node_of_def map_of_SomeD)
  then show ?thesis
    using assms(1,3) by (auto simp: op_graph_def classes_ok_def is_op_def as_buda_op_def list_all_iff
        split: NodeClass.splits)
qed

lemma name_lookup:
  assumes "graph_ok G" and "n \<in> node_set G"
  shows "map_of (node_name_to_node_id G) (name_of G n) = Some n"
  using assms nodes_okD(5) [of G "name_of G n" n]
  by (auto simp: graph_ok_def name_of_def node_of_def node_set_def)

lemma name_inj: "graph_ok G \<Longrightarrow> inj_on (name_of G) (node_set G)"
  by (rule inj_onI) (metis name_lookup option.inject)

lemma node_by_name_pure: "graph_ok G \<Longrightarrow> n \<in> node_set G \<Longrightarrow> node_by_name G (name_of G n) = Inr (node_of G n)"
  by (simp add: node_by_name_def name_lookup node_by_id_pure)

lemma shown_op_ends:
  assumes "graph_ok G"
  shows "set (producer_ids G n) \<subseteq> seen G" and "set (consumer_ids G n) \<subseteq> seen G"
    and "m \<in> set (consumer_ids G n) \<longleftrightarrow> n \<in> set (producer_ids G m)"
  using shown_ends [OF assms] by (auto simp: producer_ids_def consumer_ids_def shown_sets [OF assms])

lemma seen_node: "n \<in> seen G \<Longrightarrow> n \<in> node_set G"
  by (simp add: seen_def)

section \<open>The tests and updates\<close>

lemma op_is_ready_pure:
  assumes "op_graph G" and "n \<in> node_set G"
  shows "op_is_ready G s (node_of G n) = Inr (ready_here G s n)"
proof (cases "n_epoch (node_of G n) = current_epoch_type s")
  case False
  then show ?thesis by (simp add: op_is_ready_def ready_here_def)
next
  case True
  note ok = op_graph_ok [OF assms(1)]
  let ?f = "\<lambda>x. if n_type x = kBudaOp then res_bind (as_buda_op x) (\<lambda>_. Inr (n_id x \<in> set (scheduled_ops s)))
                else Inr True"
  let ?P = "\<lambda>x. n_type x = kBudaOp \<longrightarrow> n_id x \<in> set (scheduled_ops s)"
  have "?f x = Inr (?P x)" if x: "x \<in> set (map (node_of G) (producer_ids G n))" for x
  proof -
    from x obtain p where p: "x = node_of G p" "p \<in> node_set G"
      using shown_op_ends(1) [OF ok, of n] seen_node by auto
    then show ?thesis using op_class [OF assms(1), of p] by (auto simp: is_op_def)
  qed
  then have "all_res ?f (map (node_of G) (producer_ids G n)) =
      Inr (\<forall>x \<in> set (map (node_of G) (producer_ids G n)). ?P x)"
    by (rule all_res_pure)
  moreover have "n_id (node_of G p) = p" if "p \<in> set (producer_ids G n)" for p
    using that node_of_id [OF ok] shown_op_ends(1) [OF ok, of n] seen_node by blast
  then have "(\<forall>x \<in> set (map (node_of G) (producer_ids G n)). ?P x) \<longleftrightarrow>
      set (op_operands G n) \<subseteq> set (scheduled_ops s)"
    by (auto simp: op_operands_def is_op_def)
  moreover have "operands G (n_id (node_of G n)) = Inr (map (node_of G) (producer_ids G n))"
    using operands_pure(1) [OF ok assms(2)] by (simp add: node_of_id [OF ok assms(2)] producer_ids_def comp_def)
  ultimately show ?thesis using True by (simp add: op_is_ready_def ready_here_def)
qed

text \<open>A list that takes in the names it does not have.\<close>

fun merge_new :: "string list \<Rightarrow> string list \<Rightarrow> string list" where
  "merge_new rs [] = rs"
| "merge_new rs (n # ns) = merge_new (if n \<in> set rs then rs else rs @ [n]) ns"

lemma merge_new_set [simp]: "set (merge_new rs ns) = set rs \<union> set ns"
  by (induction ns arbitrary: rs) auto

lemma merge_new_distinct [simp]: "distinct rs \<Longrightarrow> distinct (merge_new rs ns)"
  by (induction ns arbitrary: rs) auto

lemma merge_new_append: "merge_new rs (xs @ ys) = merge_new (merge_new rs xs) ys"
  by (induction xs arbitrary: rs) auto

definition ready_users :: "Graph \<Rightarrow> InteractiveScheduler \<Rightarrow> NodeId \<Rightarrow> string list" where
  "ready_users G s n = map (name_of G) [u \<leftarrow> consumer_ids G n. is_op G u \<and> ready_here G s u]"

lemma ready_here_frame [simp]: "ready_here G (s\<lparr>ready_ops := rs\<rparr>) n = ready_here G s n"
  by (simp add: ready_here_def)

lemma try_schedule_users_pure:
  assumes "op_graph G" and "n \<in> node_set G"
  shows "try_schedule_users G n s = Inr (s\<lparr>ready_ops := merge_new (ready_ops s) (ready_users G s n)\<rparr>)"
proof -
  note ok = op_graph_ok [OF assms(1)]
  have "fold_res (try_schedule_user G) (map (node_of G) us) s =
      Inr (s\<lparr>ready_ops := merge_new (ready_ops s) (map (name_of G) [u \<leftarrow> us. is_op G u \<and> ready_here G s u])\<rparr>)"
    if "set us \<subseteq> node_set G" for us
    using that
  proof (induction us arbitrary: s)
    case (Cons u us)
    then have u: "u \<in> node_set G" by simp
    have "try_schedule_user G (node_of G u) s =
        Inr (s\<lparr>ready_ops := merge_new (ready_ops s) (if is_op G u \<and> ready_here G s u then [name_of G u] else [])\<rparr>)"
      using op_class [OF assms(1) u]
      by (auto simp: try_schedule_user_def op_is_ready_pure [OF assms(1) u] is_op_def name_of_def)
    then show ?case using Cons by simp
  qed simp
  moreover have "set (consumer_ids G n) \<subseteq> node_set G" using shown_op_ends(2) [OF ok, of n] seen_node by blast
  moreover have "users G n = Inr (map (node_of G) (consumer_ids G n))"
    using operands_pure(2) [OF ok assms(2)] by (simp add: consumer_ids_def comp_def)
  ultimately show ?thesis by (simp add: try_schedule_users_def ready_users_def)
qed

section \<open>The invariant\<close>

text \<open>An op that an input or an accepted op feeds.\<close>

definition fed :: "Graph \<Rightarrow> InteractiveScheduler \<Rightarrow> NodeId \<Rightarrow> bool" where
  "fed G s n \<longleftrightarrow>
     (\<exists>p \<in> set (producer_ids G n). n_type (node_of G p) = kInput \<or> p \<in> set (scheduled_ops s))"

text \<open>
  Offered ops are ready and not accepted, accepted ops have their operands accepted, the preferred
  schedule holds what is left, and every fed op that is ready is on offer.
\<close>

definition sched_inv :: "Graph \<Rightarrow> InteractiveScheduler \<Rightarrow> bool" where
  "sched_inv G s \<longleftrightarrow>
     distinct (ready_ops s) \<and> distinct (preferred_schedule s) \<and>
     set (ready_ops s) \<subseteq> name_of G ` set (buda_ops G) \<and> set (scheduled_ops s) \<subseteq> set (buda_ops G) \<and>
     set (preferred_schedule s) = name_of G ` (set (buda_ops G) - set (scheduled_ops s)) \<and>
     (\<forall>n \<in> set (buda_ops G). name_of G n \<in> set (ready_ops s) \<longrightarrow>
        n \<notin> set (scheduled_ops s) \<and> ready_here G s n) \<and>
     (\<forall>n \<in> set (scheduled_ops s). set (op_operands G n) \<subseteq> set (scheduled_ops s)) \<and>
     (\<forall>n \<in> set (buda_ops G). n \<notin> set (scheduled_ops s) \<longrightarrow> fed G s n \<longrightarrow> ready_here G s n \<longrightarrow>
        name_of G n \<in> set (ready_ops s))"

lemma sched_invD:
  assumes "sched_inv G s"
  shows "distinct (ready_ops s)" and "distinct (preferred_schedule s)"
    and "set (ready_ops s) \<subseteq> name_of G ` set (buda_ops G)" and "set (scheduled_ops s) \<subseteq> set (buda_ops G)"
    and "set (preferred_schedule s) = name_of G ` (set (buda_ops G) - set (scheduled_ops s))"
    and "n \<in> set (buda_ops G) \<Longrightarrow> name_of G n \<in> set (ready_ops s) \<Longrightarrow>
         n \<notin> set (scheduled_ops s) \<and> ready_here G s n"
    and "n \<in> set (scheduled_ops s) \<Longrightarrow> set (op_operands G n) \<subseteq> set (scheduled_ops s)"
    and "n \<in> set (buda_ops G) \<Longrightarrow> n \<notin> set (scheduled_ops s) \<Longrightarrow> fed G s n \<Longrightarrow> ready_here G s n \<Longrightarrow>
         name_of G n \<in> set (ready_ops s)"
  using assms unfolding sched_inv_def by blast+

lemma op_name_inj:
  assumes "op_graph G" and "n \<in> set (buda_ops G)" and "m \<in> set (buda_ops G)" and "name_of G n = name_of G m"
  shows "n = m"
  using name_inj [OF op_graph_ok [OF assms(1)]] assms(2-4) seen_node
  by (auto simp: buda_ops_set [OF assms(1)] dest: inj_onD)

section \<open>Accepting an op\<close>

lemma sched_inv_reordered:
  assumes "sched_inv G s" and "set rs = set (ready_ops s)" and "distinct rs"
  shows "sched_inv G (s\<lparr>ready_ops := rs\<rparr>)"
  using assms unfolding sched_inv_def by (simp add: fed_def)

lemma offer_preferred_inv: "sched_inv G s \<Longrightarrow> sched_inv G (offer_preferred s)"
proof (cases "preferred_schedule s")
  case (Cons first rest)
  assume inv: "sched_inv G s"
  have "distinct (first # remove1 first (ready_ops s))" using sched_invD(1) [OF inv] by simp
  moreover have "set (first # remove1 first (ready_ops s)) = insert first (set (ready_ops s))"
    using sched_invD(1) [OF inv] by auto
  ultimately show ?thesis
    using inv Cons sched_inv_reordered [OF inv, of "first # remove1 first (ready_ops s)"]
    by (auto simp: offer_preferred_def insert_absorb)
qed (simp add: offer_preferred_def)

lemma offer_preferred_frame [simp]:
  "scheduled_ops (offer_preferred s) = scheduled_ops s"
  "current_epoch_type (offer_preferred s) = current_epoch_type s"
  "preferred_schedule (offer_preferred s) = preferred_schedule s"
  by (simp_all add: offer_preferred_def split: list.split)

lemma consumer_op:
  assumes "op_graph G" and "m \<in> set (consumer_ids G n)" and "is_op G m"
  shows "m \<in> set (buda_ops G)"
  using assms shown_op_ends(2) [OF op_graph_ok [OF assms(1)], of n] by (auto simp: buda_ops_set)

lemma accept_inv:
  assumes G: "op_graph G" and inv: "sched_inv G s" and n: "n \<in> set (buda_ops G)"
    and offered: "name_of G n \<in> set (ready_ops s)"
    and t: "t = s\<lparr>scheduled_ops := List.insert n (scheduled_ops s),
      ready_ops := merge_new (remove1 (name_of G n) (ready_ops s)) new,
      preferred_schedule := remove1 (name_of G n) (preferred_schedule s)\<rparr>"
    and new: "new = ready_users G t n"
  shows "sched_inv G t"
proof -
  note ok = op_graph_ok [OF G]
  note D = sched_invD [OF inv]
  have n_ok: "n \<notin> set (scheduled_ops s)" "ready_here G s n" using D(6) [OF n offered] by auto
  have sched: "set (scheduled_ops t) = insert n (set (scheduled_ops s))"
    and epoch: "current_epoch_type t = current_epoch_type s"
    and ready: "set (ready_ops t) = (set (ready_ops s) - {name_of G n}) \<union> set new"
    and pref: "preferred_schedule t = remove1 (name_of G n) (preferred_schedule s)"
    using D(1) by (simp_all add: t)
  have mono: "ready_here G t m" if "ready_here G s m" for m
    using that sched epoch by (auto simp: ready_here_def)
  have new_user: "\<exists>u \<in> set (buda_ops G). x = name_of G u \<and> n \<in> set (producer_ids G u) \<and> ready_here G t u"
    if "x \<in> set new" for x
    using that consumer_op [OF G, of _ n] shown_op_ends(3) [OF ok] unfolding new ready_users_def by auto
  have in_operands: "n \<in> set (op_operands G u)" if "n \<in> set (producer_ids G u)" for u
    using that n by (simp add: op_operands_def buda_ops_set [OF G])
  have fresh: "u \<notin> set (scheduled_ops t)" if "u \<in> set (buda_ops G)" "n \<in> set (producer_ids G u)" for u
  proof
    assume "u \<in> set (scheduled_ops t)"
    then have "set (op_operands G u) \<subseteq> set (scheduled_ops s)"
      using D(7) [of u] n_ok(2) sched by (auto simp: ready_here_def)
    with in_operands [OF that(2)] n_ok(1) show False by blast
  qed
  have "set (ready_ops t) \<subseteq> name_of G ` set (buda_ops G)"
    using D(3) new_user unfolding ready by blast
  moreover have "set (scheduled_ops t) \<subseteq> set (buda_ops G)" using D(4) n by (simp add: sched)
  moreover have "set (preferred_schedule t) = name_of G ` (set (buda_ops G) - set (scheduled_ops t))"
  proof -
    let ?A = "set (buda_ops G) - set (scheduled_ops s)"
    have "inj_on (name_of G) (set (buda_ops G))" using op_name_inj [OF G] by (meson inj_onI)
    then have "name_of G ` (?A - {n}) = name_of G ` ?A - name_of G ` {n}"
      using n by (intro inj_on_image_set_diff [where C = "set (buda_ops G)"]) auto
    moreover have "set (buda_ops G) - set (scheduled_ops t) = ?A - {n}" by (auto simp: sched)
    ultimately show ?thesis unfolding pref set_remove1_eq [OF D(2)] D(5) by simp
  qed
  moreover have "m \<notin> set (scheduled_ops t) \<and> ready_here G t m"
    if m: "m \<in> set (buda_ops G)" "name_of G m \<in> set (ready_ops t)" for m
  proof (cases "name_of G m \<in> set new")
    case True
    then obtain u where u: "u \<in> set (buda_ops G)" "name_of G m = name_of G u" "n \<in> set (producer_ids G u)"
        "ready_here G t u" using new_user by blast
    then have "u = m" using op_name_inj [OF G m(1) u(1)] by simp
    with u fresh [OF u(1,3)] show ?thesis by simp
  next
    case False
    then have "name_of G m \<in> set (ready_ops s)" "m \<noteq> n" using m(2) unfolding ready by auto
    then show ?thesis using D(6) [OF m(1)] mono sched by auto
  qed
  moreover have "set (op_operands G m) \<subseteq> set (scheduled_ops t)" if "m \<in> set (scheduled_ops t)" for m
    using that D(7) [of m] n_ok(2) unfolding sched ready_here_def by blast
  moreover have "name_of G m \<in> set (ready_ops t)"
    if m: "m \<in> set (buda_ops G)" "m \<notin> set (scheduled_ops t)" "fed G t m" "ready_here G t m" for m
  proof (cases "n \<in> set (producer_ids G m)")
    case True
    then have "m \<in> set (consumer_ids G n)" using shown_op_ends(3) [OF ok] by blast
    moreover have "is_op G m" using m(1) by (simp add: buda_ops_set [OF G])
    ultimately have "name_of G m \<in> set new" using m(4) unfolding new ready_users_def by auto
    then show ?thesis by (simp add: ready)
  next
    case False
    then have "fed G s m" "ready_here G s m"
      using m(3,4) sched epoch by (auto simp: fed_def ready_here_def op_operands_def)
    then have "name_of G m \<in> set (ready_ops s)" using D(8) [of m] m(1,2) sched by auto
    moreover have "name_of G m \<noteq> name_of G n" using op_name_inj [OF G m(1) n] m(2) sched by auto
    ultimately show ?thesis by (simp add: ready)
  qed
  moreover have "distinct (ready_ops t)" "distinct (preferred_schedule t)"
    using D(1,2) by (simp_all add: t)
  ultimately show ?thesis unfolding sched_inv_def by blast
qed

lemma accept_run:
  assumes G: "op_graph G" and n: "n \<in> set (buda_ops G)" and offered: "name_of G n \<in> set (ready_ops s)"
  shows "\<exists>t new. accept_op G (name_of G n) s = Inr (offer_preferred t) \<and> new = ready_users G t n \<and>
           t = s\<lparr>scheduled_ops := List.insert n (scheduled_ops s),
             ready_ops := merge_new (remove1 (name_of G n) (ready_ops s)) new,
             preferred_schedule := remove1 (name_of G n) (preferred_schedule s)\<rparr>"
proof -
  have node: "n \<in> node_set G" using n seen_node by (simp add: buda_ops_set [OF G])
  let ?s = "s\<lparr>scheduled_ops := List.insert n (scheduled_ops s), ready_ops := remove1 (name_of G n) (ready_ops s)\<rparr>"
  define new where "new = ready_users G ?s n"
  define t where "t = s\<lparr>scheduled_ops := List.insert n (scheduled_ops s),
      ready_ops := merge_new (remove1 (name_of G n) (ready_ops s)) new,
      preferred_schedule := remove1 (name_of G n) (preferred_schedule s)\<rparr>"
  have "new = ready_users G t n"
    by (simp add: new_def t_def ready_users_def ready_here_def)
  moreover have "accept_op G (name_of G n) s = Inr (offer_preferred t)"
    using offered node_by_name_pure [OF op_graph_ok [OF G] node] node_of_id [OF op_graph_ok [OF G] node]
    by (simp add: accept_op_def Let_def try_schedule_users_pure [OF G node] new_def t_def)
  ultimately show ?thesis unfolding t_def by blast
qed

lemma accept_ok:
  assumes G: "op_graph G" and inv: "sched_inv G s" and offered: "op \<in> set (ready_ops s)"
  shows "\<exists>n t. accept_op G op s = Inr t \<and> sched_inv G t \<and> n \<in> set (buda_ops G) \<and> op = name_of G n \<and>
           n \<notin> set (scheduled_ops s) \<and> ready_here G s n \<and>
           scheduled_ops t = List.insert n (scheduled_ops s) \<and> current_epoch_type t = current_epoch_type s"
proof -
  obtain n where n: "n \<in> set (buda_ops G)" "op = name_of G n"
    using sched_invD(3) [OF inv] offered by blast
  obtain t new where run: "accept_op G (name_of G n) s = Inr (offer_preferred t)" and new: "new = ready_users G t n"
    and t: "t = s\<lparr>scheduled_ops := List.insert n (scheduled_ops s),
        ready_ops := merge_new (remove1 (name_of G n) (ready_ops s)) new,
        preferred_schedule := remove1 (name_of G n) (preferred_schedule s)\<rparr>"
    using accept_run [OF G n(1)] offered n(2) by blast
  have "sched_inv G t"
    using accept_inv [OF G inv n(1) _ t new] offered n(2) by simp
  then have "sched_inv G (offer_preferred t)" by (rule offer_preferred_inv)
  moreover have "n \<notin> set (scheduled_ops s) \<and> ready_here G s n"
    using sched_invD(6) [OF inv n(1)] offered n(2) by simp
  ultimately show ?thesis using n run t by auto
qed

section \<open>What is offered whatever the preferred schedule is\<close>

text \<open>
  The constructor offers the first preferred op without asking \<open>op_is_ready\<close>. Whatever that op is, until
  it is accepted it is the only one on offer that may be unready.
\<close>

definition offer_inv :: "Graph \<Rightarrow> string \<Rightarrow> InteractiveScheduler \<Rightarrow> bool" where
  "offer_inv G first s \<longleftrightarrow>
     distinct (ready_ops s) \<and> distinct (preferred_schedule s) \<and>
     set (ready_ops s) \<subseteq> name_of G ` set (buda_ops G) \<and>
     set (preferred_schedule s) \<subseteq> name_of G ` set (buda_ops G) \<and>
     (\<forall>n \<in> set (buda_ops G). name_of G n \<in> set (ready_ops s) \<longrightarrow>
        ready_here G s n \<or> name_of G n = first \<and> n \<notin> set (scheduled_ops s))"

lemma offer_preferred_offers:
  assumes "distinct (ready_ops s)"
  shows "distinct (ready_ops (offer_preferred s))" and "set (ready_ops (offer_preferred s)) = set (ready_ops s)"
  using assms by (auto simp: offer_preferred_def split: list.split)

lemma accept_offer_inv:
  assumes G: "op_graph G" and inv: "offer_inv G first s" and offered: "op \<in> set (ready_ops s)"
  shows "\<exists>t. accept_op G op s = Inr t \<and> offer_inv G first t"
proof -
  obtain n where n: "n \<in> set (buda_ops G)" "op = name_of G n"
    using inv offered unfolding offer_inv_def by blast
  obtain t new where run: "accept_op G (name_of G n) s = Inr (offer_preferred t)" and new: "new = ready_users G t n"
    and t: "t = s\<lparr>scheduled_ops := List.insert n (scheduled_ops s),
        ready_ops := merge_new (remove1 (name_of G n) (ready_ops s)) new,
        preferred_schedule := remove1 (name_of G n) (preferred_schedule s)\<rparr>"
    using accept_run [OF G n(1)] offered n(2) by blast
  have dist: "distinct (ready_ops s)" "distinct (preferred_schedule s)" using inv by (simp_all add: offer_inv_def)
  have ready: "set (ready_ops t) = (set (ready_ops s) - {name_of G n}) \<union> set new" "distinct (ready_ops t)"
    using dist by (simp_all add: t)
  have users: "\<exists>u \<in> set (buda_ops G). x = name_of G u \<and> ready_here G t u" if "x \<in> set new" for x
    using that consumer_op [OF G] by (auto simp: new ready_users_def)
  have "ready_here G t m \<or> name_of G m = first \<and> m \<notin> set (scheduled_ops t)"
    if m: "m \<in> set (buda_ops G)" "name_of G m \<in> set (ready_ops t)" for m
  proof (cases "name_of G m \<in> set new")
    case True
    then show ?thesis using users op_name_inj [OF G m(1)] by metis
  next
    case False
    then have "name_of G m \<in> set (ready_ops s)" "m \<noteq> n" using m(2) ready(1) by auto
    then show ?thesis using inv m(1) by (auto simp: offer_inv_def t ready_here_def)
  qed
  moreover have "set (ready_ops t) \<subseteq> name_of G ` set (buda_ops G)"
    using inv users ready(1) by (auto simp: offer_inv_def)
  moreover have "distinct (preferred_schedule t)" "set (preferred_schedule t) \<subseteq> name_of G ` set (buda_ops G)"
    using inv dist by (auto simp: offer_inv_def t)
  ultimately have "offer_inv G first (offer_preferred t)"
    using offer_preferred_offers [OF ready(2)] by (simp add: offer_inv_def ready_here_def)
  then show ?thesis using run n(2) by blast
qed

end
