(* ===== verification/Interactive_Scheduler_Spec.thy ===== *)
theory Interactive_Scheduler_Spec
  imports Interactive_Scheduler Graph_Spec
begin

text \<open>
  The runs of a client of the interactive scheduler, their invariant, and the properties: what is
  offered, that accepting returns, and that a graph of one epoch type is scheduled completely.
\<close>

section \<open>Construction\<close>

text \<open>The preferred schedule lists the visible ops, each once.\<close>

definition lists_ops :: "Graph \<Rightarrow> Schedule \<Rightarrow> bool" where
  "lists_ops G preferred \<longleftrightarrow> distinct preferred \<and> set preferred = set (map (name_of G) (buda_ops G))"

text \<open>
  The first preferred op has the initial epoch type and reads no other op. The constructor does not check
  this before it offers the op, so it is a condition on the policy. (\<open>Scheduler_Spec\<close> shows that the
  topological schedule of an acyclic graph starts with an op that reads no other op.)
\<close>

definition first_is_ready :: "Graph \<Rightarrow> NodeEpochType \<Rightarrow> Schedule \<Rightarrow> bool" where
  "first_is_ready G t preferred \<longleftrightarrow>
     (case preferred of
        [] \<Rightarrow> True
      | first # _ \<Rightarrow>
          list_ex (\<lambda>n. name_of G n = first \<and> n_epoch (node_of G n) = t \<and> op_operands G n = []) (buda_ops G))"

definition preferred_ok :: "Graph \<Rightarrow> NodeEpochType \<Rightarrow> Schedule \<Rightarrow> bool" where
  "preferred_ok G t preferred \<longleftrightarrow> lists_ops G preferred \<and> first_is_ready G t preferred"

lemmas preferred_defs = preferred_ok_def lists_ops_def first_is_ready_def

lemma offer_input_users:
  assumes "op_graph G"
  shows "set ns \<subseteq> node_set G \<Longrightarrow>
    fold_res (\<lambda>n s. res_bind (node_by_id G n) (\<lambda>x. if n_type x = kInput then try_schedule_users G n s else Inr s)) ns s =
    Inr (s\<lparr>ready_ops := merge_new (ready_ops s)
       (concat (map (ready_users G s) [n \<leftarrow> ns. n_type (node_of G n) = kInput]))\<rparr>)"
proof (induction ns arbitrary: s)
  case (Cons n ns)
  have "ready_users G (s\<lparr>ready_ops := rs\<rparr>) = ready_users G s" for rs
    by (simp add: ready_users_def fun_eq_iff)
  with Cons show ?case
    by (simp add: node_by_id_pure try_schedule_users_pure [OF assms] merge_new_append)
qed simp

text \<open>The state after the construction: the first preferred op, and the ready users of the inputs.\<close>

definition offers_first :: "NodeEpochType \<Rightarrow> Schedule \<Rightarrow> string \<Rightarrow> InteractiveScheduler" where
  "offers_first t preferred first =
     \<lparr>current_epoch_type = t, preferred_schedule = preferred, ready_ops = [first], scheduled_ops = []\<rparr>"

lemma offers_first_simps [simp]:
  "current_epoch_type (offers_first t preferred first) = t" "preferred_schedule (offers_first t preferred first) = preferred"
  "ready_ops (offers_first t preferred first) = [first]" "scheduled_ops (offers_first t preferred first) = []"
  by (simp_all add: offers_first_def)

lemma construct_run:
  assumes G: "op_graph G" and s: "s = offers_first t (first # rest) first"
    and new: "new = concat (map (ready_users G s) [n \<leftarrow> node_order G. n_type (node_of G n) = kInput])"
  shows "mk_interactive_scheduler G (first # rest) t = Inr (s\<lparr>ready_ops := merge_new [first] new\<rparr>)"
    and "x \<in> set new \<Longrightarrow> \<exists>u \<in> set (buda_ops G). x = name_of G u \<and> ready_here G s u"
proof -
  have "set (node_order G) = node_set G" using node_order_nodes [OF op_graph_ok [OF G]] by simp
  then show "mk_interactive_scheduler G (first # rest) t = Inr (s\<lparr>ready_ops := merge_new [first] new\<rparr>)"
    using offer_input_users [OF G, of "node_order G" s]
    by (simp add: mk_interactive_scheduler_def Let_def s new offers_first_def)
  show "\<exists>u \<in> set (buda_ops G). x = name_of G u \<and> ready_here G s u" if "x \<in> set new"
    using that consumer_op [OF G] by (auto simp: new ready_users_def)
qed

lemma construct_offer_inv:
  assumes G: "op_graph G" and pref: "lists_ops G preferred" and run: "mk_interactive_scheduler G preferred t = Inr s"
  shows "offer_inv G (hd preferred) s"
proof (cases preferred)
  case Nil
  then show ?thesis using run by (auto simp: mk_interactive_scheduler_def offer_inv_def)
next
  case (Cons first rest)
  let ?s = "offers_first t preferred first"
  let ?new = "concat (map (ready_users G ?s) [n \<leftarrow> node_order G. n_type (node_of G n) = kInput])"
  note C = construct_run [OF G _ refl, of ?s t first rest, folded Cons, OF refl]
  have s: "s = ?s\<lparr>ready_ops := merge_new [first] ?new\<rparr>" using run C(1) by simp
  have "first \<in> name_of G ` set (buda_ops G)" using pref Cons by (auto simp: lists_ops_def)
  moreover have "ready_here G s m \<or> name_of G m = first" if m: "m \<in> set (buda_ops G)" "name_of G m \<in> set (ready_ops s)" for m
  proof -
    have "name_of G m = first \<or> name_of G m \<in> set ?new" using m(2) s by simp
    then show ?thesis using C(2) op_name_inj [OF G m(1)] by (auto simp: s)
  qed
  ultimately show ?thesis
    using pref Cons C(2) by (auto simp: offer_inv_def lists_ops_def s)
qed

lemma construct_ok:
  assumes G: "op_graph G" and pref: "preferred_ok G t preferred"
  shows "\<exists>s. mk_interactive_scheduler G preferred t = Inr s \<and> sched_inv G s \<and>
           scheduled_ops s = [] \<and> current_epoch_type s = t"
proof (cases preferred)
  case Nil
  then have "buda_ops G = []" using pref by (simp add: preferred_defs)
  then show ?thesis using Nil by (simp add: mk_interactive_scheduler_def sched_inv_def)
next
  case (Cons first rest)
  note ok = op_graph_ok [OF G]
  let ?s = "offers_first t preferred first"
  let ?new = "concat (map (ready_users G ?s) [n \<leftarrow> node_order G. n_type (node_of G n) = kInput])"
  let ?t = "?s\<lparr>ready_ops := merge_new [first] ?new\<rparr>"
  have order: "set (node_order G) = node_set G" using node_order_nodes [OF ok] by simp
  note C = construct_run [OF G _ refl, of ?s t first rest, folded Cons, OF refl]
  note run = C(1) and new = C(2)
  obtain n where n: "n \<in> set (buda_ops G)" "name_of G n = first" "ready_here G ?s n"
    using pref Cons by (auto simp: preferred_defs list_ex_iff ready_here_def)
  have offered: "ready_here G ?s m" if m: "m \<in> set (buda_ops G)" "name_of G m \<in> set (ready_ops ?t)" for m
  proof -
    have "name_of G m = first \<or> name_of G m \<in> set ?new" using m(2) by simp
    then obtain u where "u \<in> set (buda_ops G)" "name_of G m = name_of G u" "ready_here G ?s u"
      using n new by metis
    with op_name_inj [OF G m(1)] show ?thesis by metis
  qed
  have complete: "name_of G m \<in> set (ready_ops ?t)"
    if m: "m \<in> set (buda_ops G)" "fed G ?t m" "ready_here G ?t m" for m
  proof -
    obtain p where p: "p \<in> set (producer_ids G m)" "n_type (node_of G p) = kInput"
      using m(2) by (auto simp: fed_def)
    have "p \<in> node_set G" using p(1) shown_op_ends(1) [OF ok, of m] seen_node by blast
    moreover have "m \<in> set (consumer_ids G p)" using p(1) shown_op_ends(3) [OF ok] by blast
    moreover have "is_op G m" using m(1) by (simp add: buda_ops_set [OF G])
    moreover have "ready_here G ?s m" using m(3) by (simp add: ready_here_def)
    ultimately have "name_of G m \<in> set (ready_users G ?s p)" "p \<in> set (node_order G)"
      using order by (auto simp: ready_users_def)
    then show ?thesis using p(2) by auto
  qed
  have "sched_inv G ?t"
    unfolding sched_inv_def
  proof (intro conjI ballI impI)
    show "distinct (preferred_schedule ?t)" using pref by (simp add: preferred_defs)
    show "set (preferred_schedule ?t) = name_of G ` (set (buda_ops G) - set (scheduled_ops ?t))"
      using pref by (simp add: preferred_defs)
    show "set (ready_ops ?t) \<subseteq> name_of G ` set (buda_ops G)" using n new by auto
    fix m assume m: "m \<in> set (buda_ops G)"
    show "ready_here G ?t m" if "name_of G m \<in> set (ready_ops ?t)"
      using offered [OF m that] by (simp add: ready_here_def)
    show "name_of G m \<in> set (ready_ops ?t)" if "fed G ?t m" "ready_here G ?t m"
      using complete [OF m that] .
  qed simp_all
  with run show ?thesis by auto
qed

section \<open>Changing the epoch type\<close>

lemma push_ready:
  assumes "op_graph G"
  shows "set ns \<subseteq> node_set G \<Longrightarrow> \<forall>n \<in> set ns. is_op G n \<Longrightarrow>
    fold_res (push_if_ready G) (map (name_of G) ns) s =
    Inr (s\<lparr>ready_ops := ready_ops s @ map (name_of G) (filter (ready_here G s) ns)\<rparr>)"
proof (induction ns arbitrary: s)
  case (Cons n ns)
  have same: "ready_here G (s\<lparr>ready_ops := rs\<rparr>) = ready_here G s" for rs by (rule ext) simp
  from Cons obtain f where "as_buda_op (node_of G n) = Inr f" using op_class [OF assms, of n] by auto
  with Cons show ?case
    by (simp add: push_if_ready_def node_by_name_pure [OF op_graph_ok [OF assms]] op_is_ready_pure [OF assms] same)
qed simp

lemma set_epoch_type_run:
  assumes G: "op_graph G" and finished: "scheduler_done s"
    and names: "set (preferred_schedule s) \<subseteq> name_of G ` A" "A \<subseteq> set (buda_ops G)"
  shows "\<exists>ns. preferred_schedule s = map (name_of G) ns \<and> set ns \<subseteq> A \<and>
           set_epoch_type G t s = Inr (s\<lparr>current_epoch_type := t,
             ready_ops := map (name_of G) (filter (ready_here G (s\<lparr>current_epoch_type := t\<rparr>)) ns)\<rparr>)"
proof -
  have "\<forall>x \<in> set (preferred_schedule s). \<exists>n. n \<in> A \<and> x = name_of G n" using names(1) by blast
  then obtain f where f: "\<forall>x \<in> set (preferred_schedule s). f x \<in> A \<and> x = name_of G (f x)" by metis
  let ?ns = "map f (preferred_schedule s)"
  have ns: "preferred_schedule s = map (name_of G) ?ns" "set ?ns \<subseteq> A"
    using f by (auto simp: map_idI)
  have nodes: "set ?ns \<subseteq> node_set G" "\<forall>n \<in> set ?ns. is_op G n"
    using ns(2) names(2) seen_node by (auto simp: buda_ops_set [OF G])
  have "set_epoch_type G t s = Inr (s\<lparr>current_epoch_type := t,
      ready_ops := map (name_of G) (filter (ready_here G (s\<lparr>current_epoch_type := t\<rparr>)) ?ns)\<rparr>)"
    using push_ready [OF G nodes, of "s\<lparr>current_epoch_type := t\<rparr>"] finished ns(1)
    by (simp add: set_epoch_type_def scheduler_done_def)
  with ns show ?thesis by blast
qed

lemma set_epoch_type_offers:
  assumes G: "op_graph G" and inv: "offer_inv G first s" and run: "set_epoch_type G t s = Inr s'"
  shows "offer_inv G first s'"
proof -
  have "scheduler_done s" using run by (auto simp: set_epoch_type_def res_simps)
  moreover have names: "set (preferred_schedule s) \<subseteq> name_of G ` set (buda_ops G)" using inv by (simp add: offer_inv_def)
  ultimately obtain ns where ns: "preferred_schedule s = map (name_of G) ns" "set ns \<subseteq> set (buda_ops G)"
      and s': "s' = s\<lparr>current_epoch_type := t,
        ready_ops := map (name_of G) (filter (ready_here G (s\<lparr>current_epoch_type := t\<rparr>)) ns)\<rparr>"
    using set_epoch_type_run [OF G _ _ order_refl, of s t] run by auto
  have "ready_here G s' m" if m: "m \<in> set (buda_ops G)" "name_of G m \<in> set (ready_ops s')" for m
  proof -
    obtain n where n: "n \<in> set ns" "ready_here G (s\<lparr>current_epoch_type := t\<rparr>) n" "name_of G m = name_of G n"
      using m(2) s' by auto
    then have "m = n" using op_name_inj [OF G m(1)] ns(2) by blast
    with n(2) show ?thesis by (simp add: s')
  qed
  moreover have "distinct (map (name_of G) ns)" using inv ns(1) by (simp add: offer_inv_def)
  ultimately show ?thesis
    using inv ns by (auto simp: offer_inv_def s' distinct_map_filter)
qed

lemma set_epoch_type_ok:
  assumes G: "op_graph G" and inv: "sched_inv G s" and finished: "scheduler_done s"
  shows "\<exists>u. set_epoch_type G t s = Inr u \<and> sched_inv G u \<and> scheduled_ops u = scheduled_ops s \<and>
           current_epoch_type u = t"
proof -
  note D = sched_invD [OF inv]
  let ?s = "s\<lparr>current_epoch_type := t\<rparr>"
  obtain ns where ns: "preferred_schedule s = map (name_of G) ns" "set ns \<subseteq> set (buda_ops G) - set (scheduled_ops s)"
    and run: "set_epoch_type G t s = Inr (?s\<lparr>ready_ops := map (name_of G) (filter (ready_here G ?s) ns)\<rparr>)"
    using set_epoch_type_run [OF G finished equalityD1 [OF D(5)] Diff_subset, of t] by auto
  let ?ready = "map (name_of G) (filter (ready_here G ?s) ns)"
  let ?u = "?s\<lparr>ready_ops := ?ready\<rparr>"
  have pick: "n \<in> set ns" if "n \<in> set (buda_ops G)" "name_of G n \<in> set (map (name_of G) ns)" for n
    using that ns(2) op_name_inj [OF G that(1)] by auto
  have all: "set ns = set (buda_ops G) - set (scheduled_ops s)"
    using pick D(5) ns by fastforce
  have "sched_inv G ?u"
    unfolding sched_inv_def
  proof (intro conjI ballI impI)
    show "distinct (ready_ops ?u)" using D(2) ns(1) by (simp add: distinct_map_filter)
    show "distinct (preferred_schedule ?u)" using D(2) by simp
    show "set (ready_ops ?u) \<subseteq> name_of G ` set (buda_ops G)" using ns(2) by auto
    show "set (scheduled_ops ?u) \<subseteq> set (buda_ops G)" using D(4) by simp
    show "set (preferred_schedule ?u) = name_of G ` (set (buda_ops G) - set (scheduled_ops ?u))" using D(5) by simp
    show "set (op_operands G n) \<subseteq> set (scheduled_ops ?u)" if "n \<in> set (scheduled_ops ?u)" for n
      using D(7) [of n] that by simp
    fix n assume n: "n \<in> set (buda_ops G)"
    show "n \<notin> set (scheduled_ops ?u)" "ready_here G ?u n" if shown: "name_of G n \<in> set (ready_ops ?u)"
    proof -
      obtain m where m: "m \<in> set ns" "ready_here G ?s m" "name_of G n = name_of G m" using shown by auto
      then have "n = m" using op_name_inj [OF G n] ns(2) by blast
      with m show "n \<notin> set (scheduled_ops ?u)" "ready_here G ?u n" using all by auto
    qed
    show "name_of G n \<in> set (ready_ops ?u)" if "n \<notin> set (scheduled_ops ?u)" "ready_here G ?u n"
      using that n all by simp
  qed
  with run show ?thesis by auto
qed

section \<open>Runs of a client\<close>

inductive client_run :: "Graph \<Rightarrow> Schedule \<Rightarrow> NodeEpochType \<Rightarrow> InteractiveScheduler \<Rightarrow> bool"
  for G preferred t where
  constructed: "mk_interactive_scheduler G preferred t = Inr s \<Longrightarrow> client_run G preferred t s"
| accepted: "client_run G preferred t s \<Longrightarrow> op \<in> set (get_ops s) \<Longrightarrow> accept_op G op s = Inr s' \<Longrightarrow>
    client_run G preferred t s'"
| next_type: "client_run G preferred t s \<Longrightarrow> set_epoch_type G u s = Inr s' \<Longrightarrow> client_run G preferred t s'"
| restored: "client_run G preferred t s \<Longrightarrow> client_run G preferred t c \<Longrightarrow>
    client_run G preferred t (restore_checkpoint (save_checkpoint c) s)"

lemma restore_saved: "restore_checkpoint (save_checkpoint c) s = c"
  by (simp add: restore_checkpoint_def save_checkpoint_def)

lemma client_run_inv:
  assumes "op_graph G" and "preferred_ok G t preferred" and "client_run G preferred t s"
  shows "sched_inv G s"
  using assms(3)
proof induction
  case (constructed s)
  then show ?case using construct_ok [OF assms(1,2)] by auto
next
  case (accepted s op s')
  then show ?case using accept_ok [OF assms(1) accepted.IH, of op] by (auto simp: get_ops_def)
next
  case (next_type s u s')
  then have "scheduler_done s" by (auto simp: set_epoch_type_def res_simps)
  with next_type show ?case using set_epoch_type_ok [OF assms(1) next_type.IH, of u] by auto
next
  case (restored s c)
  then show ?case by (simp add: restore_saved)
qed

lemma client_run_offers:
  assumes "op_graph G" and "lists_ops G preferred" and "client_run G preferred t s"
  shows "offer_inv G (hd preferred) s"
  using assms(3)
proof induction
  case (constructed s)
  then show ?case using construct_offer_inv [OF assms(1,2)] by blast
next
  case (accepted s op s')
  then show ?case using accept_offer_inv [OF assms(1) accepted.IH, of op] by (auto simp: get_ops_def)
next
  case (next_type s u s')
  then show ?case using set_epoch_type_offers [OF assms(1)] by blast
next
  case (restored s c)
  then show ?case by (simp add: restore_saved)
qed

lemma op_graph_reachable: "graph_reachable (ids, G) \<Longrightarrow> classes_ok G \<Longrightarrow> op_graph G"
  using graph_reachable_ok by (fastforce simp: run_ok_def op_graph_def)

text \<open>The operands of an op that are ops themselves.\<close>

definition op_dependencies :: "Graph \<Rightarrow> (NodeId \<times> NodeId) set" where
  "op_dependencies G = {(p, n). n \<in> set (buda_ops G) \<and> p \<in> set (op_operands G n)}"

section \<open>Properties\<close>

text \<open>
  C12 (invariant).
  Whatever a client accepts, changes and restores, for any preferred schedule that lists the visible ops:
  the ops on offer are distinct, and each of them is of the current epoch type and has all its operands that
  are ops accepted, except for the very first preferred op, which the constructor offers unchecked, until it
  is accepted for the first time. If that op has the initial epoch type and reads no other op, there is no
  exception, no op on offer was accepted before, and the accepted ops have all their op operands accepted.
\<close>

theorem offered_ops_are_ready:
  assumes "graph_reachable (ids, G)" and "classes_ok G" and "lists_ops G preferred"
    and "client_run G preferred t s"
  shows "distinct (get_ops s) \<and>
         (\<forall>op \<in> set (get_ops s). \<exists>n. map_of (node_name_to_node_id G) op = Some n \<and>
            (n_epoch (node_of G n) = current_epoch_type s \<and> set (op_operands G n) \<subseteq> set (scheduled_ops s) \<or>
             op = hd preferred \<and> n \<notin> set (scheduled_ops s) \<and> \<not> first_is_ready G t preferred) \<and>
            (first_is_ready G t preferred \<longrightarrow> n \<notin> set (scheduled_ops s))) \<and>
         (first_is_ready G t preferred \<longrightarrow>
            (\<forall>n \<in> set (scheduled_ops s). set (op_operands G n) \<subseteq> set (scheduled_ops s)))"
proof (intro conjI ballI impI)
  note G = op_graph_reachable [OF assms(1,2)]
  note light = client_run_offers [OF G assms(3,4)]
  have full: "sched_inv G s" if "first_is_ready G t preferred"
    using client_run_inv [OF G _ assms(4)] assms(3) that by (simp add: preferred_ok_def)
  show "distinct (get_ops s)" using light by (simp add: get_ops_def offer_inv_def)
  show "set (op_operands G n) \<subseteq> set (scheduled_ops s)"
    if "first_is_ready G t preferred" "n \<in> set (scheduled_ops s)" for n
    using sched_invD(7) [OF full [OF that(1)] that(2)] .
  fix op assume offered: "op \<in> set (get_ops s)"
  then obtain n where n: "n \<in> set (buda_ops G)" "op = name_of G n"
    using light by (auto simp: get_ops_def offer_inv_def)
  then have "map_of (node_name_to_node_id G) op = Some n"
    using name_lookup [OF op_graph_ok [OF G], of n] seen_node by (simp add: buda_ops_set [OF G])
  moreover have "ready_here G s n \<or> op = hd preferred \<and> n \<notin> set (scheduled_ops s)"
    using light n offered by (simp add: get_ops_def offer_inv_def)
  moreover have "n \<notin> set (scheduled_ops s) \<and> ready_here G s n" if "first_is_ready G t preferred"
    using sched_invD(6) [OF full [OF that] n(1)] offered n(2) by (simp add: get_ops_def)
  ultimately show "\<exists>n. map_of (node_name_to_node_id G) op = Some n \<and>
      (n_epoch (node_of G n) = current_epoch_type s \<and> set (op_operands G n) \<subseteq> set (scheduled_ops s) \<or>
       op = hd preferred \<and> n \<notin> set (scheduled_ops s) \<and> \<not> first_is_ready G t preferred) \<and>
      (first_is_ready G t preferred \<longrightarrow> n \<notin> set (scheduled_ops s))"
    by (auto simp: ready_here_def)
qed

text \<open>
  C40 (liveness).
  Accepting an op that is on offer never throws and is progress: the accepted ops are one more. (The
  preferred schedule lists the visible ops and starts with an op of the initial epoch type that reads no
  other op.)
\<close>

theorem accepting_makes_progress:
  assumes "graph_reachable (ids, G)" and "classes_ok G" and "preferred_ok G t preferred"
    and "client_run G preferred t s" and "op \<in> set (get_ops s)"
  shows "\<exists>n s'. accept_op G op s = Inr s' \<and> map_of (node_name_to_node_id G) op = Some n \<and>
           n \<notin> set (scheduled_ops s) \<and> set (scheduled_ops s') = insert n (set (scheduled_ops s))"
proof -
  note G = op_graph_reachable [OF assms(1,2)]
  note inv = client_run_inv [OF G assms(3,4)]
  obtain n s' where n: "accept_op G op s = Inr s'" "n \<in> set (buda_ops G)" "op = name_of G n"
      "n \<notin> set (scheduled_ops s)" "scheduled_ops s' = List.insert n (scheduled_ops s)"
    using accept_ok [OF G inv, of op] assms(5) by (auto simp: get_ops_def)
  then have "map_of (node_name_to_node_id G) op = Some n"
    using name_lookup [OF op_graph_ok [OF G], of n] seen_node by (simp add: buda_ops_set [OF G])
  with n show ?thesis by auto
qed

text \<open>
  C13 (liveness).
  On an acyclic graph whose ops all have the current epoch type and each read an input or another
  op, a client that goes on until nothing is on offer has been handed every visible op. (Ops behind
  queues are the ones that the last hypothesis leaves out: they are never found. The preferred schedule lists
  the visible ops and starts with an op of the initial epoch type that reads no other op.)
\<close>

theorem everything_is_handed_out:
  assumes "graph_reachable (ids, G)" and "classes_ok G" and "preferred_ok G t preferred"
    and "client_run G preferred t s" and "scheduler_done s" and "acyclic (op_dependencies G)"
    and "list_all (\<lambda>n. n_epoch (node_of G n) = current_epoch_type s \<and>
           list_ex (\<lambda>p. n_type (node_of G p) = kInput \<or> is_op G p) (producer_ids G n)) (buda_ops G)"
  shows "set (scheduled_ops s) = set (buda_ops G)"
proof
  note G = op_graph_reachable [OF assms(1,2)]
  note inv = client_run_inv [OF G assms(3,4)]
  show "set (scheduled_ops s) \<subseteq> set (buda_ops G)" using sched_invD(4) [OF inv] .
  have "op_dependencies G \<subseteq> (\<Union>n \<in> set (buda_ops G). set (op_operands G n)) \<times> set (buda_ops G)"
    by (auto simp: op_dependencies_def)
  then have "finite (op_dependencies G)" by (rule finite_subset) simp
  then have wf: "wf (op_dependencies G)" using assms(6) by (rule finite_acyclic_wf)
  show "set (buda_ops G) \<subseteq> set (scheduled_ops s)"
  proof
    fix n assume "n \<in> set (buda_ops G)"
    with wf show "n \<in> set (scheduled_ops s)"
    proof (induction n rule: wf_induct_rule)
      case (less n)
      have operands: "set (op_operands G n) \<subseteq> set (scheduled_ops s)"
      proof
        fix p assume p: "p \<in> set (op_operands G n)"
        then have "p \<in> set (buda_ops G)"
          using shown_op_ends(1) [OF op_graph_ok [OF G], of n] by (auto simp: op_operands_def buda_ops_set [OF G])
        then show "p \<in> set (scheduled_ops s)" using less p by (simp add: op_dependencies_def)
      qed
      show ?case
      proof (rule ccontr)
        assume "n \<notin> set (scheduled_ops s)"
        moreover have "ready_here G s n" "fed G s n"
          using assms(7) less.prems operands by (auto simp: ready_here_def fed_def op_operands_def list_all_iff list_ex_iff)
        ultimately have "name_of G n \<in> set (ready_ops s)" using sched_invD(8) [OF inv less.prems] by simp
        then show False using assms(5) by (simp add: scheduler_done_def)
      qed
    qed
  qed
qed

section \<open>A run\<close>

definition start_offers :: InteractiveScheduler where
  "start_offers = \<lparr>current_epoch_type = Forward, preferred_schedule = [''op''], ready_ops = [''op''], scheduled_ops = []\<rparr>"

definition all_handed_out :: InteractiveScheduler where
  "all_handed_out = \<lparr>current_epoch_type = Forward, preferred_schedule = [], ready_ops = [], scheduled_ops = [2]\<rparr>"

lemma sample_classes: "classes_ok (snd sample_state)" by code_simp
lemma sample_preferred: "preferred_ok (snd sample_state) Forward [''op'']" by code_simp
lemma sample_lists: "lists_ops (snd sample_state) [''op'']" by code_simp
lemma sample_first: "first_is_ready (snd sample_state) Forward [''op'']" by code_simp

lemma sample_run:
  "client_run (snd sample_state) [''op''] Forward start_offers"
  "client_run (snd sample_state) [''op''] Forward all_handed_out"
proof -
  show start: "client_run (snd sample_state) [''op''] Forward start_offers"
    by (rule constructed) code_simp
  have "accept_op (snd sample_state) ''op'' start_offers = Inr all_handed_out" by code_simp
  then show "client_run (snd sample_state) [''op''] Forward all_handed_out"
    by (rule accepted [OF start, rotated]) (simp add: start_offers_def get_ops_def)
qed

lemma sample_acyclic: "acyclic (op_dependencies (snd sample_state))"
proof (rule acyclicI_order [where f = uminus])
  fix p n assume "(p, n) \<in> op_dependencies (snd sample_state)"
  moreover have "\<forall>n \<in> set (buda_ops (snd sample_state)). op_operands (snd sample_state) n = []" by code_simp
  ultimately show "- n < - p" by (auto simp: op_dependencies_def)
qed

theorem offered_ops_are_ready_witness:
  "\<exists>n. map_of (node_name_to_node_id (snd sample_state)) ''op'' = Some n \<and> n \<notin> set (scheduled_ops start_offers)"
  using offered_ops_are_ready [OF _ sample_classes sample_lists sample_run(1), of "fst sample_state"]
  by (auto simp: sample_reachable sample_first start_offers_def get_ops_def)

theorem accepting_makes_progress_witness:
  "\<exists>s'. accept_op (snd sample_state) ''op'' start_offers = Inr s' \<and> scheduled_ops s' \<noteq> []"
  using accepting_makes_progress [OF _ sample_classes sample_preferred sample_run(1), of "fst sample_state" "''op''"]
  by (force simp: sample_reachable start_offers_def get_ops_def)

theorem everything_is_handed_out_witness:
  "set (scheduled_ops all_handed_out) = set (buda_ops (snd sample_state))"
proof (rule everything_is_handed_out [OF _ sample_classes sample_preferred sample_run(2) _ sample_acyclic])
  show "graph_reachable (fst sample_state, snd sample_state)" by (simp add: sample_reachable)
qed code_simp+

end
