(* ===== verification/Scheduler.thy ===== *)
theory Scheduler
  imports Interactive_Scheduler
begin

text \<open>
  The schedulers (\<open>scheduler/utils.cpp\<close>, \<open>scheduler/scheduler.cpp\<close>, \<open>scheduler/longest_path.cpp\<close>): the
  topological and the longest path schedule, the checks of a schedule, and the optimisation of the
  backward schedule by a repair that restores the order of dependencies. A schedule is a list of
  names. The scheduler that walks breadth-first from the module inputs is not modelled; where its
  result is used it is an argument.
\<close>

section \<open>Predecessors and successors\<close>

definition can_schedule_node :: "Node \<Rightarrow> bool" where
  "can_schedule_node x \<longleftrightarrow>
     n_type x \<noteq> kInput \<and> n_type x \<noteq> kOutput \<and> n_type x \<noteq> kQueue \<and> n_type x \<noteq> kBudaNaryTM"

definition is_passed_queue :: "Node \<Rightarrow> bool res" where
  "is_passed_queue x = res_bind (as_queue_type x) (\<lambda>q. Inr (q = Buffering \<or> q = EpochToEpoch))"

definition get_schedule_predecessors :: "Graph \<Rightarrow> Node \<Rightarrow> Node list res" where
  "get_schedule_predecessors G op =
     res_bind (data_operands G (n_id op)) (\<lambda>os.
       fold_res (\<lambda>x predecessors.
         if n_type x = kQueue
         then res_bind (is_passed_queue x) (\<lambda>b.
                if b
                then res_bind (data_operands G (n_id x)) (\<lambda>ps.
                     res_bind (vec_idx ps 0) (\<lambda>p. Inr (predecessors @ [p])))
                else Inr predecessors)
         else Inr (predecessors @ [x])) os [])"

definition get_schedule_successors :: "Graph \<Rightarrow> Node \<Rightarrow> Node list res" where
  "get_schedule_successors G op =
     res_bind (data_users G (n_id op)) (\<lambda>us.
       fold_res (\<lambda>x successors.
         if n_type x = kQueue
         then res_bind (is_passed_queue x) (\<lambda>b.
                if b then res_bind (data_users G (n_id x)) (\<lambda>vs. Inr (successors @ vs)) else Inr successors)
         else Inr (successors @ [x])) us [])"

section \<open>Schedules\<close>

text \<open>The index of an op; of an op that is there twice the later one.\<close>

definition get_op_to_schedule_index :: "Schedule \<Rightarrow> (string \<times> nat) list" where
  "get_op_to_schedule_index schedule =
     fold (\<lambda>(i, op). AList.update op i) (enumerate 0 schedule) []"

definition get_filtered_schedule :: "Graph \<Rightarrow> Schedule \<Rightarrow> NodeEpochType \<Rightarrow> Schedule res" where
  "get_filtered_schedule G schedule type =
     fold_res (\<lambda>subgraph_index.
       fold_res (\<lambda>op filtered.
         res_bind (node_by_name G op) (\<lambda>x.
           if n_epoch x = type
           then res_bind (get_subgraph_id_for_node G (n_id x)) (\<lambda>i.
                  Inr (if i = subgraph_index then filtered @ [op] else filtered))
           else Inr filtered)) schedule) [0 ..< num_subgraphs G] []"

text \<open>\<open>are_schedule_dependencies_met\<close>, over all data operands, loopbacks included.\<close>

definition are_schedule_dependencies_met :: "Graph \<Rightarrow> Schedule \<Rightarrow> bool res" where
  "are_schedule_dependencies_met G schedule =
     (let node_to_schedule_index = get_op_to_schedule_index schedule in
      all_res (\<lambda>op.
        res_bind (node_by_name G op) (\<lambda>x.
        res_bind (operand_data_edges G any_edge (n_id x)) (\<lambda>es.
          all_res (\<lambda>e.
            res_bind (node_by_id G (producer_node_id e)) (\<lambda>p.
              case map_of node_to_schedule_index (n_name p) of
                None \<Rightarrow> Inr True
              | Some i \<Rightarrow> res_bind (at_key node_to_schedule_index op) (\<lambda>j. Inr (i \<le> j)))) es))) schedule)"

text \<open>\<open>assert_schedule_dependencies_met\<close> looks through queues.\<close>

definition assert_schedule_dependencies_met :: "Graph \<Rightarrow> Schedule \<Rightarrow> unit res" where
  "assert_schedule_dependencies_met G schedule =
     (let node_to_schedule_index = get_op_to_schedule_index schedule in
      fold_res (\<lambda>op _.
        res_bind (node_by_name G op) (\<lambda>x.
        res_bind (get_schedule_predecessors G x) (\<lambda>ps.
          fold_res (\<lambda>p _.
            case map_of node_to_schedule_index (n_name p) of
              None \<Rightarrow> Inr ()
            | Some i \<Rightarrow> res_bind (at_key node_to_schedule_index op) (\<lambda>j. tt_assert (i < j))) ps ())))
        schedule ())"

section \<open>The topological schedule\<close>

definition run_topological_scheduler :: "Graph \<Rightarrow> nat \<Rightarrow> Schedule comp" where
  "run_topological_scheduler G depth =
     comp_bind (topological_sort G default_node_filter False depth) (\<lambda>ns.
       Some (fold_res (\<lambda>n scheduled.
         res_bind (node_by_id G n) (\<lambda>x.
           Inr (if can_schedule_node x then scheduled @ [n_name x] else scheduled))) ns []))"

text \<open>Before it fails, \<open>assert_valid_schedule\<close> looks up the names by which the two schedules differ.\<close>

definition assert_valid_schedule :: "Graph \<Rightarrow> nat \<Rightarrow> Schedule \<Rightarrow> unit comp" where
  "assert_valid_schedule G depth schedule =
     comp_bind (run_topological_scheduler G depth) (\<lambda>topo_schedule.
       if length schedule \<noteq> length topo_schedule
       then Some (res_bind (map_res (node_by_name G) (fold remove1 topo_schedule schedule @ fold remove1 schedule topo_schedule))
                   (\<lambda>_. Inl RuntimeError))
       else Some (assert_schedule_dependencies_met G schedule))"

section \<open>Groups and constraints\<close>

definition is_looping :: "Edge \<Rightarrow> bool" where
  "is_looping e \<longleftrightarrow> edge_type e = kDataLoopback \<or> edge_type e = kControlLoop"

definition add_group :: "Graph \<Rightarrow> string \<Rightarrow> string list res" where
  "add_group G op =
     res_bind (node_by_name G op) (\<lambda>x.
     res_bind (operand_data_edges G any_edge (n_id x)) (\<lambda>es.
       fold_res (\<lambda>e names.
         if is_looping e then Inr names
         else res_bind (node_by_id G (producer_node_id e)) (\<lambda>p. Inr (List.insert (n_name p) names))) es []))"

definition create_groups :: "Graph \<Rightarrow> string list \<Rightarrow> string list list res" where
  "create_groups G ops = map_res (add_group G) ops"

definition HEURISTIC_FOR_NUM_INPUTS :: nat where "HEURISTIC_FOR_NUM_INPUTS = 6"

definition takes_grouped_inputs :: "Graph \<Rightarrow> Node \<Rightarrow> bool res" where
  "takes_grouped_inputs G x =
     (if n_type x = kPyOp \<or> n_type x = kBudaOp
      then res_bind (as_op x) (\<lambda>f.
             if op_name f = ''concatenate'' \<or> op_name f = ''splice''
             then res_bind (operand_data_edges G any_edge (n_id x)) (\<lambda>es.
                    Inr (HEURISTIC_FOR_NUM_INPUTS \<le> length (filter (\<lambda>e. \<not> is_looping e) es)))
             else Inr False)
      else Inr False)"

definition discover_ops_for_grouped_inputs :: "Graph \<Rightarrow> nat \<Rightarrow> string list comp" where
  "discover_ops_for_grouped_inputs G depth =
     comp_bind (topological_sort G default_node_filter False depth) (\<lambda>ns.
       Some (fold_res (\<lambda>n ops.
         res_bind (node_by_id G n) (\<lambda>x.
         res_bind (takes_grouped_inputs G x) (\<lambda>b. Inr (if b then ops @ [n_name x] else ops)))) ns []))"

definition add_schedule_dependencies ::
    "string list \<Rightarrow> (string \<times> string) list \<Rightarrow> (string \<times> string) list" where
  "add_schedule_dependencies partial_ordering dependencies =
     fold (\<lambda>i. AList.update (partial_ordering ! i) (partial_ordering ! (i - 1)))
       [1 ..< length partial_ordering] dependencies"

definition get_constraints_from_control_edges :: "Graph \<Rightarrow> string list list res" where
  "get_constraints_from_control_edges G =
     fold_res (\<lambda>e partial_orderings.
       res_bind (node_by_id G (producer_node_id e)) (\<lambda>producer.
       res_bind (node_by_id G (consumer_node_id e)) (\<lambda>consumer.
         Inr (if can_schedule_node producer \<and> can_schedule_node consumer
              then partial_orderings @ [[n_name producer, n_name consumer]]
              else partial_orderings)))) (edges_by_type G kControl) []"

definition get_operand_node_ids :: "(string \<times> string) list \<Rightarrow> Graph \<Rightarrow> Node \<Rightarrow> NodeId list res" where
  "get_operand_node_ids schedule_dependencies G x =
     res_bind (operand_data_edges G any_edge (n_id x)) (\<lambda>es.
     let ids = map producer_node_id (filter (\<lambda>e. \<not> is_looping e) es) in
     case map_of schedule_dependencies (n_name x) of
       None \<Rightarrow> Inr ids
     | Some dependency \<Rightarrow> res_bind (node_by_name G dependency) (\<lambda>d. Inr (ids @ [n_id d])))"

definition is_recompute :: "Graph \<Rightarrow> NodeId \<Rightarrow> bool res" where
  "is_recompute G n =
     res_bind (operand_edges G any_edge n) (\<lambda>es. Inr (\<exists>e \<in> set es. edge_type e = kAutogradFwdToRecompute))"

definition get_visited_with_recompute_nodes_marked :: "Graph \<Rightarrow> nat \<Rightarrow> NodeId list \<Rightarrow> NodeId list comp" where
  "get_visited_with_recompute_nodes_marked G depth visited =
     comp_bind (topological_sort G default_node_filter False depth) (\<lambda>ns.
       Some (fold_res (\<lambda>n marked.
         res_bind (is_recompute G n) (\<lambda>b. Inr (if b then List.insert n marked else marked))) ns visited))"

section \<open>Restoring the order of dependencies\<close>

text \<open>
  \<open>get_valid_schedule\<close> counts for every op the predecessors that are in the schedule, starts with the
  ops that have none, and appends an op when its count reaches zero. The counters are 32 bits wide.
\<close>

record ValidSchedule =
  node_to_indegree :: "(string \<times> nat) list"
  ops_to_process :: "string list"
  valid_schedule :: Schedule

definition indegree_of :: "Graph \<Rightarrow> Schedule \<Rightarrow> string \<Rightarrow> nat res" where
  "indegree_of G schedule op =
     res_bind (node_by_name G op) (\<lambda>x.
     res_bind (get_schedule_predecessors G x) (\<lambda>ps.
       Inr (foldl (\<lambda>d p. if n_name p \<in> set schedule then add32 d 1 else d) 0 ps)))"

definition release :: "Schedule \<Rightarrow> string \<Rightarrow> ValidSchedule \<Rightarrow> ValidSchedule" where
  "release schedule op s =
     (if op \<in> set schedule
      then let d = sub32 (case map_of (node_to_indegree s) op of None \<Rightarrow> 0 | Some d \<Rightarrow> d) 1;
               s1 = s\<lparr>node_to_indegree := AList.update op d (node_to_indegree s)\<rparr> in
           if d = 0 then s1\<lparr>ops_to_process := ops_to_process s1 @ [op]\<rparr> else s1
      else s)"

partial_function (option) process_ops :: "Graph \<Rightarrow> Schedule \<Rightarrow> ValidSchedule \<Rightarrow> ValidSchedule comp" where
  "process_ops G schedule s =
     (case ops_to_process s of
        [] \<Rightarrow> Some (Inr s)
      | op # rest \<Rightarrow>
          (case res_bind (node_by_name G op) (get_schedule_successors G) of
             Inl e \<Rightarrow> Some (Inl e)
           | Inr successors \<Rightarrow>
               process_ops G schedule
                 (fold (\<lambda>x. release schedule (n_name x)) successors
                   (s\<lparr>ops_to_process := rest, valid_schedule := valid_schedule s @ [op]\<rparr>))))"

declare process_ops.simps [code]

definition get_valid_schedule :: "Graph \<Rightarrow> Schedule \<Rightarrow> Schedule comp" where
  "get_valid_schedule G schedule =
     comp_bind (Some (map_res (indegree_of G schedule) schedule)) (\<lambda>degrees.
     let indegrees = fold (\<lambda>(op, d). AList.update op d) (zip schedule degrees) [] in
     comp_bind
       (process_ops G schedule
         \<lparr>node_to_indegree = indegrees,
          ops_to_process = [op \<leftarrow> schedule. map_of indegrees op = Some 0], valid_schedule = []\<rparr>) (\<lambda>s.
       if length (valid_schedule s) = length schedule then Some (Inr (valid_schedule s))
       else Some (Inl RuntimeError)))"

section \<open>The backward schedule\<close>

definition push_ops :: "Graph \<Rightarrow> EdgeType \<Rightarrow> NodeId \<Rightarrow> string list \<Rightarrow> string list res" where
  "push_ops G t n ops =
     res_bind (user_edges G (\<lambda>e. edge_type e = t) n) (\<lambda>es.
       fold_res (\<lambda>e ops.
         res_bind (node_by_id G (consumer_node_id e)) (\<lambda>x.
           Inr (if n_type x = kBudaOp then ops @ [n_name x] else ops))) es ops)"

definition bwd_ops_of :: "Graph \<Rightarrow> Node \<Rightarrow> string list res" where
  "bwd_ops_of G fwd_node =
     res_bind (get_schedule_predecessors G fwd_node) (\<lambda>ps.
     res_bind (fold_res (\<lambda>p. push_ops G kAutogradFwdToRecompute (n_id p)) ps []) (\<lambda>ops1.
     res_bind (push_ops G kAutogradFwdToBwd (n_id fwd_node) ops1) (\<lambda>ops2.
     res_bind (data_operands G (n_id fwd_node)) (\<lambda>os.
       fold_res (\<lambda>x. if n_type x = kInput then push_ops G kAutogradFwdToBwd (n_id x) else Inr) os ops2))))"

definition get_fwd_to_bwd_nodes :: "Graph \<Rightarrow> nat \<Rightarrow> (string \<times> string list) list comp" where
  "get_fwd_to_bwd_nodes G depth =
     comp_bind (topological_sort G default_node_filter False depth) (\<lambda>ns.
       Some (fold_res (\<lambda>n m.
         res_bind (node_by_id G n) (\<lambda>x.
           if n_epoch x = Forward \<and> n_type x = kBudaOp
           then res_bind (bwd_ops_of G x) (\<lambda>ops. Inr (AList.update (n_name x) ops m))
           else Inr m)) ns []))"

text \<open>
  Backwards over the schedule, each forward op claims its backward ops that no later forward op has
  claimed, in the order of the schedule.
\<close>

definition claim ::
    "(string \<times> nat) list \<Rightarrow> string list \<Rightarrow> string list \<Rightarrow> ((nat \<times> string) list \<times> string list) res" where
  "claim op_to_schedule_index bwd_ops visited =
     fold_res (\<lambda>op (order, visited).
       if op \<in> set visited then Inr (order, visited)
       else res_bind (at_key op_to_schedule_index op) (\<lambda>i. Inr (order @ [(i, op)], op # visited)))
       bwd_ops ([], visited)"

definition get_ordered_fwd_to_bwd_ops ::
    "(string \<times> string list) list \<Rightarrow> Schedule \<Rightarrow> (string \<times> string list) list res" where
  "get_ordered_fwd_to_bwd_ops fwd_to_bwd original_schedule =
     (let index = get_op_to_schedule_index original_schedule in
      res_bind
        (fold_res (\<lambda>op (m, visited).
          case map_of fwd_to_bwd op of
            None \<Rightarrow> Inr (m, visited)
          | Some bwd_ops \<Rightarrow>
              res_bind (claim index bwd_ops visited) (\<lambda>(order, visited').
                Inr (AList.update op (map snd (sort_key fst order)) m, visited')))
          (rev original_schedule) ([], []))
        (\<lambda>(m, _). Inr m))"

definition optimize_bwd_schedule :: "Graph \<Rightarrow> nat \<Rightarrow> Schedule \<Rightarrow> Schedule \<Rightarrow> Schedule comp" where
  "optimize_bwd_schedule G depth original_schedule fwd_schedule =
     comp_bind (get_fwd_to_bwd_nodes G depth) (\<lambda>fwd_to_bwd.
     comp_bind (Some (get_ordered_fwd_to_bwd_ops fwd_to_bwd original_schedule)) (\<lambda>fwd_to_bwd_ops.
     comp_bind (Some (map_res (at_key fwd_to_bwd_ops) (rev fwd_schedule))) (\<lambda>opss.
       get_valid_schedule G (concat opss))))"

definition optimize_schedule :: "Graph \<Rightarrow> nat \<Rightarrow> Schedule \<Rightarrow> Schedule comp" where
  "optimize_schedule G depth schedule =
     comp_bind (Some (get_filtered_schedule G schedule Forward)) (\<lambda>fwd_schedule.
     comp_bind (optimize_bwd_schedule G depth schedule fwd_schedule) (\<lambda>bwd_schedule.
     comp_bind (Some (get_filtered_schedule G schedule Optimizer)) (\<lambda>opt_schedule.
       Some (Inr (fwd_schedule @ bwd_schedule @ opt_schedule)))))"

definition feeds_graph_output_queue :: "Graph \<Rightarrow> string \<Rightarrow> bool res" where
  "feeds_graph_output_queue G op =
     res_bind (node_by_name G op) (\<lambda>x.
     res_bind (users G (n_id x)) (\<lambda>consumers. Inr (\<forall>y \<in> set consumers. n_type y = kOutput)))"

definition move_output_ops_to_end :: "Graph \<Rightarrow> Schedule \<Rightarrow> Schedule res" where
  "move_output_ops_to_end G schedule =
     res_bind
       (fold_res (\<lambda>op (new_schedule, output_ops).
         res_bind (feeds_graph_output_queue G op) (\<lambda>b.
           Inr (if b then (new_schedule, output_ops @ [op]) else (new_schedule @ [op], output_ops))))
         schedule ([], []))
       (\<lambda>(new_schedule, output_ops). Inr (new_schedule @ output_ops))"

section \<open>Policies\<close>

datatype SchedulerPolicy = Topological | ModuleInputsBFS | LongestPath

definition policy_from_string :: "string \<Rightarrow> SchedulerPolicy" where
  "policy_from_string policy_str =
     (if policy_str = ''Topological'' then Topological
      else if policy_str = ''ModuleInputsBFS'' then ModuleInputsBFS
      else if policy_str = ''LongestPath'' then LongestPath
      else ModuleInputsBFS)"

text \<open>
  The schedule along the longest path (\<open>scheduler/longest_path.cpp\<close>) and the dispatch over the policies
  (\<open>run_scheduler\<close> of \<open>scheduler/scheduler.cpp\<close>). The sets of nodes are ordered by id, so they are sorted
  lists of ids. Nothing in the code bounds the main loop.
\<close>

section \<open>Scheduling along the longest path\<close>

record PathScheduler =
  P1 :: "NodeId list"
  P2 :: "NodeId list"
  path_index :: nat
  path_scheduled :: "NodeId list"
  path_schedule :: "NodeId list"

definition add_sorted :: "NodeId \<Rightarrow> NodeId list \<Rightarrow> NodeId list" where
  "add_sorted n ns = (if n \<in> set ns then ns else insort n ns)"

definition can_be_scheduled :: "Graph \<Rightarrow> PathScheduler \<Rightarrow> NodeId \<Rightarrow> bool res" where
  "can_be_scheduled G s n =
     res_bind (data_operands G n) (\<lambda>os.
     res_bind (tt_assert (os \<noteq> [])) (\<lambda>_. Inr (\<forall>x \<in> set os. n_id x \<in> set (path_scheduled s))))"

definition schedule_op :: "Graph \<Rightarrow> NodeId \<Rightarrow> PathScheduler \<Rightarrow> PathScheduler res" where
  "schedule_op G n s =
     res_bind (can_be_scheduled G s n) (\<lambda>b.
     res_bind (tt_assert b) (\<lambda>_.
     res_bind (tt_assert (n \<in> set (P1 s) \<and> n \<notin> set (P2 s) \<and> n \<notin> set (path_scheduled s))) (\<lambda>_.
     let s1 = s\<lparr>path_schedule := path_schedule s @ [n], path_scheduled := add_sorted n (path_scheduled s),
                P1 := removeAll n (P1 s)\<rparr> in
     res_bind (data_users G n) (\<lambda>us.
       Inr (fold (\<lambda>x s. if n_id x \<notin> set (P1 s) \<and> n_id x \<notin> set (path_scheduled s)
                       then s\<lparr>P2 := add_sorted (n_id x) (P2 s)\<rparr> else s) us s1)))))"

definition schedule_if_possible :: "Graph \<Rightarrow> NodeId \<Rightarrow> PathScheduler \<Rightarrow> PathScheduler res" where
  "schedule_if_possible G n s =
     res_bind (can_be_scheduled G s n) (\<lambda>b. if b then schedule_op G n s else Inr s)"

partial_function (option) follow_path :: "Graph \<Rightarrow> NodeId list \<Rightarrow> PathScheduler \<Rightarrow> PathScheduler comp" where
  "follow_path G longest_path s =
     (if path_index s \<ge> length longest_path then Some (Inl UndefinedBehaviour)
      else
        let n = longest_path ! path_index s in
        if n \<notin> set (P1 s) then Some (Inr s)
        else
          (case can_be_scheduled G s n of
             Inl e \<Rightarrow> Some (Inl e)
           | Inr b \<Rightarrow>
               if \<not> b then Some (Inr s)
               else (case schedule_op G n s of
                       Inl e \<Rightarrow> Some (Inl e)
                     | Inr s1 \<Rightarrow>
                         follow_path G longest_path
                           (if path_index s1 < length longest_path - 1
                            then s1\<lparr>path_index := path_index s1 + 1\<rparr> else s1))))"

declare follow_path.simps [code]

text \<open>The operands of a node that could not be scheduled move up.\<close>

definition promote_operands :: "Graph \<Rightarrow> NodeId \<Rightarrow> PathScheduler \<Rightarrow> PathScheduler res" where
  "promote_operands G n s =
     res_bind (data_operands G n) (\<lambda>os.
       Inr (fold (\<lambda>x s. if n_id x \<notin> set (P1 s) \<and> n_id x \<notin> set (path_scheduled s)
                       then s\<lparr>P2 := removeAll (n_id x) (P2 s), P1 := add_sorted (n_id x) (P1 s)\<rparr>
                       else s) os s))"

definition queue_input_users :: "Graph \<Rightarrow> NodeId list \<Rightarrow> PathScheduler \<Rightarrow> PathScheduler res" where
  "queue_input_users G inputs s =
     fold_res (\<lambda>n s.
       res_bind (data_users G n) (\<lambda>us.
         Inr (fold (\<lambda>x s. if n_id x \<notin> set (path_scheduled s)
                         then s\<lparr>P1 := add_sorted (n_id x) (P1 s)\<rparr> else s) us s))) inputs s"

definition after_path :: "Graph \<Rightarrow> NodeId list \<Rightarrow> PathScheduler \<Rightarrow> PathScheduler res" where
  "after_path G inputs s =
     res_bind (fold_res (schedule_if_possible G) (P1 s) s) (\<lambda>s1.
     res_bind (fold_res (promote_operands G) (P1 s1) s1) (\<lambda>s2.
       if P1 s2 = [] \<and> P2 s2 = [] then queue_input_users G inputs s2 else Inr s2))"

partial_function (option) path_loop ::
    "Graph \<Rightarrow> NodeId list \<Rightarrow> NodeId list \<Rightarrow> PathScheduler \<Rightarrow> PathScheduler comp" where
  "path_loop G longest_path inputs s =
     (if P1 s = [] \<and> P2 s = [] then Some (Inr s)
      else
        Option.bind (follow_path G longest_path (if P1 s = [] then s\<lparr>P1 := P2 s, P2 := []\<rparr> else s)) (\<lambda>r.
          case res_bind r (after_path G inputs) of
            Inl e \<Rightarrow> Some (Inl e)
          | Inr s1 \<Rightarrow> path_loop G longest_path inputs s1))"

declare path_loop.simps [code]

text \<open>The check of the result: everything visible was scheduled, operands first.\<close>

definition verify_path_schedule :: "Graph \<Rightarrow> NodeId list \<Rightarrow> PathScheduler \<Rightarrow> unit res" where
  "verify_path_schedule G inputs s =
     res_bind (visible_nodes G default_node_filter) (\<lambda>vs.
     res_bind (tt_assert (length (path_scheduled s) = length vs)) (\<lambda>_.
     res_bind
       (fold_res (\<lambda>n visited.
          res_bind (data_operands G n) (\<lambda>os.
          res_bind (tt_assert (\<forall>x \<in> set os. n_id x \<in> set visited \<or> n_id x \<in> set inputs)) (\<lambda>_.
            Inr (n # visited)))) (path_schedule s) [])
       (\<lambda>_. Inr ())))"

definition is_input_id :: "Graph \<Rightarrow> NodeId \<Rightarrow> bool res" where
  "is_input_id G n = res_bind (node_by_id G n) (\<lambda>x. Inr (n_type x = kInput))"

definition schedulable_names :: "Graph \<Rightarrow> NodeId list \<Rightarrow> Schedule res" where
  "schedulable_names G ns =
     fold_res (\<lambda>n acc. res_bind (node_by_id G n) (\<lambda>x.
       Inr (if can_schedule_node x then acc @ [n_name x] else acc))) ns []"

definition run_longest_path_scheduler :: "Graph \<Rightarrow> nat \<Rightarrow> Schedule comp" where
  "run_longest_path_scheduler G depth =
     comp_bind (get_longest_path G False depth) (\<lambda>path.
     let longest_path = map the path in
     if length path < 2 \<or> None \<in> set path then Some (Inl UndefinedBehaviour)
     else
       comp_bind (Some (fold_res (\<lambda>n acc. res_bind (is_input_id G n) (\<lambda>b.
                    Inr (if b then add_sorted n acc else acc))) (node_order G) [])) (\<lambda>inputs.
       comp_bind (path_loop G longest_path inputs
                    \<lparr>P1 = [longest_path ! 1], P2 = [], path_index = 1, path_scheduled = inputs,
                     path_schedule = []\<rparr>) (\<lambda>s.
       comp_bind (Some (verify_path_schedule G inputs s)) (\<lambda>_.
         Some (schedulable_names G (path_schedule s))))))"

section \<open>Dispatch\<close>

record SchedulerConfig =
  policy :: SchedulerPolicy
  scheduler_constraints :: "string list list"
  ignored_nodes :: "NodeId list option"

text \<open>
  The breadth-first schedule and the environment variable are arguments. Ignoring more nodes than
  the schedule has fails (with \<open>std::length_error\<close> in the code).
\<close>

definition run_scheduler :: "SchedulerConfig \<Rightarrow> Graph \<Rightarrow> nat \<Rightarrow> Schedule comp \<Rightarrow> bool \<Rightarrow> Schedule comp" where
  "run_scheduler config G depth bfs_schedule galaxy_placer =
     comp_bind
       (case policy config of
          Topological \<Rightarrow> run_topological_scheduler G depth
        | ModuleInputsBFS \<Rightarrow> bfs_schedule
        | LongestPath \<Rightarrow> run_longest_path_scheduler G depth) (\<lambda>schedule.
     comp_bind (Some (if galaxy_placer then move_output_ops_to_end G schedule else Inr schedule)) (\<lambda>schedule1.
       case ignored_nodes config of
         None \<Rightarrow> Some (Inr schedule1)
       | Some ignored \<Rightarrow>
           Some (res_bind
             (fold_res (\<lambda>op final. res_bind (node_by_name G op) (\<lambda>x.
                Inr (if n_id x \<in> set ignored then final else final @ [op]))) schedule1 []) (\<lambda>final.
             res_bind (tt_assert (length final + length ignored = length schedule1)) (\<lambda>_. Inr final)))))"

end
