(* ===== verification/Repair_Facts.thy ===== *)
theory Repair_Facts
  imports Scheduler Interactive_Scheduler Graph_Topo_Facts
begin

text \<open>
  The loop of \<open>get_valid_schedule\<close>: the counters are the numbers of edges from ops that are not yet in
  the result, the queue holds the ops whose counter is zero, and an op is appended after everything
  that points to it. On an acyclic relation nothing is left over.
\<close>

section \<open>Releasing the successors of one op\<close>

lemma release_all:
  assumes "\<And>b. b \<in> set ops \<Longrightarrow> map_of (node_to_indegree s) b = Some (D b)"
    and "\<And>b. b \<in> set ops \<Longrightarrow> count_list bs b \<le> D b" and "\<And>b. b \<in> set ops \<Longrightarrow> D b < 2 ^ 32"
  shows "\<exists>new. ops_to_process (fold (release ops) bs s) = ops_to_process s @ new \<and> distinct new \<and>
           set new = {b \<in> set ops. b \<in> set bs \<and> D b = count_list bs b} \<and>
           valid_schedule (fold (release ops) bs s) = valid_schedule s \<and>
           (\<forall>b \<in> set ops. map_of (node_to_indegree (fold (release ops) bs s)) b = Some (D b - count_list bs b))"
  using assms
proof (induction bs arbitrary: s D)
  case Nil
  then show ?case by auto
next
  case (Cons b bs)
  show ?case
  proof (cases "b \<in> set ops")
    case False
    then have id: "release ops b s = s" by (simp add: release_def)
    have le: "count_list bs c \<le> D c" if "c \<in> set ops" for c
      using Cons.prems(2) [OF that] by (simp split: if_splits)
    have same: "{c \<in> set ops. c \<in> set (b # bs) \<and> D c = count_list (b # bs) c} =
        {c \<in> set ops. c \<in> set bs \<and> D c = count_list bs c}" using False by auto
    have count: "count_list (b # bs) c = count_list bs c" if "c \<in> set ops" for c using that False by auto
    show ?thesis
      unfolding same using Cons.IH [OF Cons.prems(1) le Cons.prems(3)] by (simp add: id count cong: ball_cong del: count_list.simps)
  next
    case True
    define E where "E = D(b := D b - 1)"
    let ?s = "release ops b s"
    have pos: "1 \<le> D b" using Cons.prems(2) [OF True] by simp
    have d: "sub32 (D b) 1 = D b - 1" using pos Cons.prems(3) [OF True] by (simp add: sub32_exact)
    have s: "valid_schedule ?s = valid_schedule s"
      "ops_to_process ?s = ops_to_process s @ (if D b = 1 then [b] else [])"
      "map_of (node_to_indegree ?s) c = (if c = b then Some (D b - 1) else map_of (node_to_indegree s) c)" for c
      using True pos Cons.prems(1) [OF True] d by (auto simp: release_def Let_def map_of_update_conv)
    have E1: "map_of (node_to_indegree ?s) c = Some (E c)" if "c \<in> set ops" for c
      using s(3) [of c] Cons.prems(1) [OF that] by (simp add: E_def)
    have E2: "count_list bs c \<le> E c" if "c \<in> set ops" for c
      using Cons.prems(2) [OF that] by (auto simp: E_def split: if_splits)
    have E3: "E c < 2 ^ 32" if "c \<in> set ops" for c
      using Cons.prems(3) [OF that] by (auto simp: E_def)
    obtain new where new: "ops_to_process (fold (release ops) bs ?s) = ops_to_process ?s @ new" "distinct new"
        "set new = {c \<in> set ops. c \<in> set bs \<and> E c = count_list bs c}"
        "valid_schedule (fold (release ops) bs ?s) = valid_schedule ?s"
        "\<forall>c \<in> set ops. map_of (node_to_indegree (fold (release ops) bs ?s)) c = Some (E c - count_list bs c)"
      using Cons.IH [OF E1 E2 E3] by blast
    let ?new = "(if D b = 1 then [b] else []) @ new"
    have none: "b \<notin> set bs" if "D b = 1"
      using that Cons.prems(2) [OF True] by (auto simp: count_list_0_iff)
    have "c \<in> set ?new \<longleftrightarrow> c \<in> set ops \<and> c \<in> set (b # bs) \<and> D c = count_list (b # bs) c" for c
    proof (cases "c = b")
      case False
      then show ?thesis using new(3) by (auto simp: E_def)
    next
      case c: True
      show ?thesis
      proof (cases "D b = 1")
        case one: True
        then have "count_list bs b = 0" using none by (simp add: count_list_0_iff)
        then show ?thesis using True c one by simp
      next
        case False
        then have "D b - 1 = count_list bs b \<Longrightarrow> b \<in> set bs" using pos by (cases "count_list bs b = 0") (auto simp: count_list_0_iff)
        moreover have "c \<in> set ?new \<longleftrightarrow> b \<in> set bs \<and> D b - 1 = count_list bs b"
          unfolding c using False True new(3) by (simp add: E_def)
        moreover have "D b - 1 = count_list bs b \<longleftrightarrow> D b = count_list (b # bs) b" using pos by simp linarith
        ultimately show ?thesis using True unfolding c by (metis list.set_intros(1))
      qed
    qed
    then have "set ?new = {c \<in> set ops. c \<in> set (b # bs) \<and> D c = count_list (b # bs) c}" by blast
    moreover have "distinct ?new" using new(2,3) none by auto
    moreover have "\<forall>c \<in> set ops. map_of (node_to_indegree (fold (release ops) (b # bs) s)) c =
        Some (D c - count_list (b # bs) c)"
      using new(5) by (auto simp: E_def)
    ultimately show ?thesis using new(1,4) s(1,2) by (intro exI [of _ ?new]) simp
  qed
qed

section \<open>The invariant\<close>

definition pending :: "(string \<Rightarrow> string list) \<Rightarrow> string list \<Rightarrow> string list \<Rightarrow> string \<Rightarrow> nat" where
  "pending succs ops R b = sum_list (map (\<lambda>a. count_list (succs a) b) [a \<leftarrow> ops. a \<notin> set R])"

lemma pending_snoc:
  assumes "distinct ops" and "a \<in> set ops" and "a \<notin> set R"
  shows "pending succs ops R b = count_list (succs a) b + pending succs ops (R @ [a]) b"
  using assms(1,2)
proof (induction ops)
  case (Cons x ops)
  show ?case
  proof (cases "x = a")
    case True
    with Cons.prems have "a \<notin> set ops" by simp
    then have "filter (\<lambda>y. y \<notin> set (R @ [a])) ops = filter (\<lambda>y. y \<notin> set R) ops" by (auto intro: filter_cong)
    then show ?thesis using True assms(3) by (simp add: pending_def)
  next
    case False
    then show ?thesis using Cons by (simp add: pending_def)
  qed
qed simp

lemma pending_mono: "pending succs ops R b \<le> pending succs ops [] b"
  unfolding pending_def by (induction ops) auto

lemma pending_zero: "pending succs ops R b = 0 \<longleftrightarrow> (\<forall>a \<in> set ops. b \<in> set (succs a) \<longrightarrow> a \<in> set R)"
  by (auto simp: pending_def sum_list_eq_0_iff count_list_0_iff)

text \<open>An op of the result comes after everything that points to it.\<close>

definition preceded :: "(string \<Rightarrow> string list) \<Rightarrow> string list \<Rightarrow> string list \<Rightarrow> bool" where
  "preceded succs ops R \<longleftrightarrow>
     (\<forall>i < length R. \<forall>a \<in> set ops. R ! i \<in> set (succs a) \<longrightarrow> a \<in> set (take i R))"

lemma preceded_snoc:
  "preceded succs ops R \<Longrightarrow> \<forall>a \<in> set ops. c \<in> set (succs a) \<longrightarrow> a \<in> set R \<Longrightarrow> preceded succs ops (R @ [c])"
  by (auto simp: preceded_def nth_append less_Suc_eq)

definition kahn_inv :: "(string \<Rightarrow> string list) \<Rightarrow> string list \<Rightarrow> ValidSchedule \<Rightarrow> bool" where
  "kahn_inv succs ops s \<longleftrightarrow>
     (\<forall>b \<in> set ops. map_of (node_to_indegree s) b = Some (pending succs ops (valid_schedule s) b)) \<and>
     distinct (valid_schedule s @ ops_to_process s) \<and>
     set (valid_schedule s @ ops_to_process s) = {b \<in> set ops. pending succs ops (valid_schedule s) b = 0} \<and>
     preceded succs ops (valid_schedule s)"

lemma kahn_step:
  assumes "distinct ops" and small: "\<And>b. b \<in> set ops \<Longrightarrow> pending succs ops [] b < 2 ^ 32"
    and inv: "kahn_inv succs ops s" and q: "ops_to_process s = a # q"
  shows "kahn_inv succs ops
           (fold (release ops) (succs a) (s\<lparr>ops_to_process := q, valid_schedule := valid_schedule s @ [a]\<rparr>))"
proof -
  let ?R = "valid_schedule s" and ?s = "s\<lparr>ops_to_process := q, valid_schedule := valid_schedule s @ [a]\<rparr>"
  let ?D = "pending succs ops ?R"
  let ?t = "fold (release ops) (succs a) ?s"
  from inv have degrees: "\<And>b. b \<in> set ops \<Longrightarrow> map_of (node_to_indegree s) b = Some (?D b)"
    and dist: "distinct (?R @ a # q)" and zero: "set (?R @ a # q) = {b \<in> set ops. ?D b = 0}"
    and order: "preceded succs ops ?R"
    using q by (auto simp: kahn_inv_def)
  have a: "a \<in> set ops" "a \<notin> set ?R" "?D a = 0" using dist zero by auto
  have D: "?D b = count_list (succs a) b + pending succs ops (?R @ [a]) b" for b
    by (rule pending_snoc [OF assms(1) a(1,2)])
  obtain new where new: "ops_to_process ?t = q @ new" "distinct new"
      "set new = {b \<in> set ops. b \<in> set (succs a) \<and> ?D b = count_list (succs a) b}"
      "valid_schedule ?t = ?R @ [a]"
      "\<forall>b \<in> set ops. map_of (node_to_indegree ?t) b = Some (?D b - count_list (succs a) b)"
  proof -
    have "map_of (node_to_indegree ?s) b = Some (?D b)" if "b \<in> set ops" for b using degrees [OF that] by simp
    moreover have "count_list (succs a) b \<le> ?D b" for b using D [of b] by simp
    moreover have "?D b < 2 ^ 32" if "b \<in> set ops" for b
      using pending_mono [of succs ops ?R b] small [OF that] by (rule le_less_trans)
    ultimately show thesis
      using release_all [of ops ?s ?D "succs a"] that by auto
  qed
  have "set (?R @ [a]) \<union> set q \<union> set new = {b \<in> set ops. pending succs ops (?R @ [a]) b = 0}"
  proof -
    have "{b \<in> set ops. pending succs ops (?R @ [a]) b = 0} = {b \<in> set ops. ?D b = 0} \<union> set new"
      unfolding new(3) using D by (auto simp: count_list_0_iff)
    then show ?thesis using zero by auto
  qed
  moreover have "set new \<inter> set (?R @ a # q) = {}"
    unfolding new(3) zero by (auto simp: count_list_0_iff)
  moreover have "preceded succs ops (?R @ [a])"
    by (rule preceded_snoc [OF order]) (use a(3) in \<open>simp add: pending_zero\<close>)
  ultimately show ?thesis
    using new dist D unfolding kahn_inv_def by auto
qed

lemma kahn_loop:
  assumes "distinct ops" and "\<And>b. b \<in> set ops \<Longrightarrow> pending succs ops [] b < 2 ^ 32"
    and succs: "\<And>op. op \<in> set ops \<Longrightarrow>
      \<exists>xs. res_bind (node_by_name G op) (get_schedule_successors G) = Inr xs \<and> map n_name xs = succs op"
  shows "kahn_inv succs ops s \<Longrightarrow>
    \<exists>t. process_ops G ops s = Some (Inr t) \<and> kahn_inv succs ops t \<and> ops_to_process t = []"
proof (induction "length ops - length (valid_schedule s)" arbitrary: s rule: less_induct)
  case less
  show ?case
  proof (cases "ops_to_process s")
    case Nil
    then show ?thesis using less.prems by (subst process_ops.simps) simp
  next
    case (Cons a q)
    have a: "a \<in> set ops" using less.prems Cons by (auto simp: kahn_inv_def)
    obtain xs where xs: "res_bind (node_by_name G a) (get_schedule_successors G) = Inr xs" "map n_name xs = succs a"
      using succs [OF a] by blast
    let ?s = "s\<lparr>ops_to_process := q, valid_schedule := valid_schedule s @ [a]\<rparr>"
    let ?t = "fold (release ops) (succs a) ?s"
    have step: "fold (\<lambda>x. release ops (n_name x)) xs ?s = ?t"
      by (simp add: fold_map comp_def flip: xs(2))
    have inv: "kahn_inv succs ops ?t" by (rule kahn_step [OF assms(1,2) less.prems Cons])
    have valid: "valid_schedule (fold (release ops) bs u) = valid_schedule u" for bs u
      by (induction bs arbitrary: u) (simp_all add: release_def Let_def)
    have "distinct (valid_schedule s @ a # q)" "set (valid_schedule s @ a # q) \<subseteq> set ops"
      using less.prems Cons by (auto simp: kahn_inv_def)
    then have "length (valid_schedule s @ a # q) \<le> length ops"
      using card_mono [of "set ops" "set (valid_schedule s @ a # q)"] distinct_card [OF assms(1)]
        distinct_card [of "valid_schedule s @ a # q"] by simp
    then have "length ops - length (valid_schedule ?t) < length ops - length (valid_schedule s)"
      by (simp add: valid)
    from less.hyps [OF this inv] show ?thesis
      by (subst process_ops.simps) (simp add: Cons xs(1) step)
  qed
qed

text \<open>When the loop ends on an acyclic relation, the result is a permutation.\<close>

lemma kahn_complete:
  assumes "distinct ops" and "kahn_inv succs ops t" and "ops_to_process t = []"
    and "wf {(a, b). a \<in> set ops \<and> b \<in> set (succs a)}"
  shows "distinct (valid_schedule t) \<and> set (valid_schedule t) = set ops \<and> preceded succs ops (valid_schedule t)"
proof -
  from assms(2,3) have t: "distinct (valid_schedule t)" "preceded succs ops (valid_schedule t)"
      "set (valid_schedule t) = {b \<in> set ops. pending succs ops (valid_schedule t) b = 0}"
    by (simp_all add: kahn_inv_def)
  have "b \<in> set (valid_schedule t)" if "b \<in> set ops" for b
    using assms(4) that
  proof (induction b rule: wf_induct_rule)
    case (less b)
    then have "pending succs ops (valid_schedule t) b = 0" by (auto simp: pending_zero)
    then show ?case using t(3) less.prems by simp
  qed
  then show ?thesis using t by blast
qed

text \<open>
  The predecessors and successors of a schedule as lists of node ids, which agree on the number of
  times they list a pair, and the counters that the repair of a schedule starts from.
\<close>

section \<open>Predecessors and successors\<close>

lemma not_loopback:
  assumes "edges_by_type G kDataLoopback = []" and "e \<in> graph_edges G"
  shows "edge_type e \<noteq> kDataLoopback"
proof -
  from assms(2) obtain es where "(consumer_node_id e, es) \<in> set (operands_map G)" "e \<in> set es"
    by (cases "map_of (operands_map G) (consumer_node_id e)")
      (auto simp: graph_edges_def edge_entry_def dest: map_of_SomeD)
  then show ?thesis using assms(1) by (force simp: edges_by_type_def filter_empty_conv)
qed

definition is_queue :: "Graph \<Rightarrow> NodeId \<Rightarrow> bool" where
  "is_queue G n \<longleftrightarrow> n_type (node_of G n) = kQueue"

definition passed :: "Graph \<Rightarrow> NodeId \<Rightarrow> bool" where
  "passed G n \<longleftrightarrow> (case as_queue_type (node_of G n) of
                    Inl _ \<Rightarrow> False | Inr q \<Rightarrow> q = Buffering \<or> q = EpochToEpoch)"

text \<open>A queue node is of a queue class, and a queue that is looked through has one operand.\<close>

definition queues_ok :: "Graph \<Rightarrow> bool" where
  "queues_ok G \<longleftrightarrow>
     list_all (\<lambda>n. is_queue G n \<longrightarrow>
       (case as_queue_type (node_of G n) of
          Inl _ \<Rightarrow> False
        | Inr q \<Rightarrow> (q = Buffering \<or> q = EpochToEpoch) \<longrightarrow> length (data_operands_of G n) = 1)) (node_order G)"

lemma queues_okD:
  assumes "graph_ok G" and "queues_ok G" and "n \<in> node_set G" and "is_queue G n"
  shows "is_passed_queue (node_of G n) = Inr (passed G n)"
    and "passed G n \<Longrightarrow> \<exists>e. data_operands_of G n = [e]"
proof -
  have "n \<in> set (node_order G)" using node_order_nodes [OF assms(1)] assms(3) by blast
  then have typed: "case as_queue_type (node_of G n) of Inl _ \<Rightarrow> False
      | Inr q \<Rightarrow> (q = Buffering \<or> q = EpochToEpoch) \<longrightarrow> length (data_operands_of G n) = 1"
    using assms(2,4) by (simp add: queues_ok_def list_all_iff)
  then obtain q where q: "as_queue_type (node_of G n) = Inr q"
    by (cases "as_queue_type (node_of G n)") simp_all
  with typed show "is_passed_queue (node_of G n) = Inr (passed G n)"
    and "passed G n \<Longrightarrow> \<exists>e. data_operands_of G n = [e]"
    by (auto simp: is_passed_queue_def passed_def length_Suc_conv)
qed

definition predecessor_ids :: "Graph \<Rightarrow> NodeId \<Rightarrow> NodeId list" where
  "predecessor_ids G n =
     concat (map (\<lambda>p. if is_queue G p
                      then if passed G p then map producer_node_id (data_operands_of G p) else []
                      else [p]) (map producer_node_id (data_operands_of G n)))"

definition successor_ids :: "Graph \<Rightarrow> NodeId \<Rightarrow> NodeId list" where
  "successor_ids G n =
     concat (map (\<lambda>u. if is_queue G u
                      then if passed G u then map consumer_node_id (data_users_of G u) else []
                      else [u]) (map consumer_node_id (data_users_of G n)))"

lemma schedule_ids_nodes:
  assumes "graph_ok G"
  shows "set (predecessor_ids G n) \<subseteq> node_set G" and "set (successor_ids G n) \<subseteq> node_set G"
  using data_ends [OF assms] by (auto simp: predecessor_ids_def successor_ids_def split: if_splits)

lemma fold_res_concat:
  assumes "\<And>x acc. x \<in> set xs \<Longrightarrow> f (h x) acc = Inr (acc @ g x)"
  shows "fold_res f (map h xs) acc = Inr (acc @ concat (map g xs))"
  using assms by (induction xs arbitrary: acc) auto

lemma get_schedule_predecessors_pure:
  assumes "graph_ok G" and "queues_ok G" and "n \<in> node_set G"
  shows "get_schedule_predecessors G (node_of G n) = Inr (map (node_of G) (predecessor_ids G n))"
proof -
  let ?g = "\<lambda>p. map (node_of G) (if is_queue G p
      then if passed G p then map producer_node_id (data_operands_of G p) else [] else [p])"
  let ?f = "\<lambda>x acc. if n_type x = kQueue
         then res_bind (is_passed_queue x) (\<lambda>b. if b then res_bind (data_operands G (n_id x)) (\<lambda>ps.
                     res_bind (vec_idx ps 0) (\<lambda>p. Inr (acc @ [p]))) else Inr acc)
         else Inr (acc @ [x])"
  let ?ps = "map producer_node_id (data_operands_of G n)"
  have one: "?f (node_of G p) acc = Inr (acc @ ?g p)" if "p \<in> set ?ps" for p acc
  proof -
    have p: "p \<in> node_set G" using that data_ends(1) [OF assms(1)] by auto
    show ?thesis
    proof (cases "is_queue G p")
      case True
      note q = queues_okD [OF assms(1,2) p True]
      show ?thesis
      proof (cases "passed G p")
        case passes: True
        then obtain e where "data_operands_of G p = [e]" using q(2) by blast
        then show ?thesis
          using True passes q(1) by (simp add: is_queue_def node_of_id [OF assms(1) p] data_nodes_pure [OF assms(1) p])
      next
        case False
        then show ?thesis using True q(1) by (simp add: is_queue_def)
      qed
    next
      case False
      then show ?thesis by (simp add: is_queue_def)
    qed
  qed
  have "fold_res ?f (map (node_of G) ?ps) [] = Inr ([] @ concat (map ?g ?ps))"
    by (rule fold_res_concat) (rule one)
  then show ?thesis
    by (simp add: get_schedule_predecessors_def node_of_id [OF assms(1,3)] data_nodes_pure [OF assms(1,3)]
        predecessor_ids_def map_concat comp_def)
qed

lemma get_schedule_successors_pure:
  assumes "graph_ok G" and "queues_ok G" and "n \<in> node_set G"
  shows "get_schedule_successors G (node_of G n) = Inr (map (node_of G) (successor_ids G n))"
proof -
  let ?g = "\<lambda>u. map (node_of G) (if is_queue G u
      then if passed G u then map consumer_node_id (data_users_of G u) else [] else [u])"
  let ?f = "\<lambda>x acc. if n_type x = kQueue
         then res_bind (is_passed_queue x) (\<lambda>b.
                if b then res_bind (data_users G (n_id x)) (\<lambda>vs. Inr (acc @ vs)) else Inr acc)
         else Inr (acc @ [x])"
  let ?us = "map consumer_node_id (data_users_of G n)"
  have one: "?f (node_of G u) acc = Inr (acc @ ?g u)" if "u \<in> set ?us" for u acc
  proof -
    have u: "u \<in> node_set G" using that data_ends(2) [OF assms(1)] by auto
    show ?thesis
      using queues_okD(1) [OF assms(1,2) u]
      by (cases "is_queue G u") (simp_all add: is_queue_def node_of_id [OF assms(1) u] data_nodes_pure [OF assms(1) u])
  qed
  have "fold_res ?f (map (node_of G) ?us) [] = Inr ([] @ concat (map ?g ?us))"
    by (rule fold_res_concat) (rule one)
  then show ?thesis
    by (simp add: get_schedule_successors_def node_of_id [OF assms(1,3)] data_nodes_pure [OF assms(1,3)]
        successor_ids_def map_concat comp_def)
qed

section \<open>Both sides list a pair equally often\<close>

definition wires :: "Graph \<Rightarrow> NodeId \<Rightarrow> NodeId \<Rightarrow> nat" where
  "wires G a b = count_list (map producer_node_id (data_operands_of G b)) a"

lemma wires_users:
  assumes "graph_ok G" and "edges_by_type G kDataLoopback = []"
  shows "count_list (map consumer_node_id (data_users_of G a)) b = wires G a b"
proof -
  have eok: "edges_ok G" using assms(1) by (simp add: graph_ok_def)
  have dist: "distinct (data_operands_of G b)" "distinct (data_users_of G a)"
    using edges_okD(8) [OF eok, of b] edges_okD(9) [OF eok, of a]
    by (simp_all add: data_operands_of_def data_users_of_def shown_operands_def shown_users_def distinct_map)
  have "{e \<in> set (data_users_of G a). consumer_node_id e = b} = {e \<in> set (data_operands_of G b). producer_node_id e = a}"
    using not_loopback [OF assms(2)]
    by (auto simp: data_operands_of_def data_users_of_def shown_sets [OF assms(1)] is_data_edge_def)
  then have "length (filter (\<lambda>e. consumer_node_id e = b) (data_users_of G a)) =
      length (filter (\<lambda>e. producer_node_id e = a) (data_operands_of G b))"
    using distinct_card [OF distinct_filter [OF dist(1)]] distinct_card [OF distinct_filter [OF dist(2)]]
    by (metis set_filter)
  then show ?thesis
    by (simp add: wires_def count_list_eq_length_filter filter_map comp_def eq_commute)
qed

lemma count_concat_map: "count_list (concat (map f xs)) b = sum_list (map (\<lambda>x. count_list (f x) b) xs)"
  by (induction xs) (simp_all add: count_list_append)

lemma sum_list_grouped:
  assumes "finite A" and "set xs \<subseteq> A"
  shows "sum_list (map f xs) = (\<Sum>x \<in> A. count_list xs x * (f x :: nat))"
  using assms(2)
proof (induction xs)
  case (Cons x xs)
  have "(\<Sum>y \<in> A. count_list (x # xs) y * f y) = (\<Sum>y \<in> A. count_list xs y * f y + (if y = x then f y else 0))"
    by (rule sum.cong) auto
  then show ?case using Cons assms(1) by (simp add: sum.distrib sum.delta)
qed simp

lemma schedule_counts:
  assumes "graph_ok G" and "queues_ok G" and "edges_by_type G kDataLoopback = []"
    and "\<not> is_queue G a" and "\<not> is_queue G b"
  shows "count_list (predecessor_ids G b) a = count_list (successor_ids G a) b"
proof -
  let ?N = "node_set G"
  have "count_list (predecessor_ids G b) a =
      (\<Sum>p \<in> ?N. wires G p b * (if is_queue G p then if passed G p then wires G a p else 0 else of_bool (p = a)))"
    unfolding predecessor_ids_def count_concat_map
    by (subst sum_list_grouped [of ?N])
      (use data_ends(1) [OF assms(1)] in \<open>auto simp: wires_def intro!: sum.cong\<close>)
  moreover have "count_list (successor_ids G a) b =
      (\<Sum>u \<in> ?N. wires G a u * (if is_queue G u then if passed G u then wires G u b else 0 else of_bool (u = b)))"
    unfolding successor_ids_def count_concat_map
    by (subst sum_list_grouped [of ?N])
      (use data_ends(2) [OF assms(1)] in \<open>auto simp: wires_users [OF assms(1,3)] intro!: sum.cong\<close>)
  moreover have "(\<Sum>p \<in> ?N. wires G p b * (if is_queue G p then if passed G p then wires G a p else 0 else of_bool (p = a))) =
      (\<Sum>p \<in> ?N. (if is_queue G p \<and> passed G p then wires G a p * wires G p b else 0)) + (\<Sum>p \<in> ?N. if p = a then wires G a b else 0)"
    unfolding sum.distrib [symmetric] by (rule sum.cong) (use assms(4) in auto)
  moreover have "(\<Sum>u \<in> ?N. wires G a u * (if is_queue G u then if passed G u then wires G u b else 0 else of_bool (u = b))) =
      (\<Sum>p \<in> ?N. (if is_queue G p \<and> passed G p then wires G a p * wires G p b else 0)) + (\<Sum>p \<in> ?N. if p = b then wires G a b else 0)"
    unfolding sum.distrib [symmetric] by (rule sum.cong) (use assms(5) in auto)
  moreover have "wires G a b = 0" if "a \<notin> ?N \<or> b \<notin> ?N"
  proof -
    have "e \<notin> set (data_operands_of G b) \<or> producer_node_id e \<noteq> a" for e
      using that edges_ok_ends [of G e] assms(1)
      by (auto simp: graph_ok_def data_operands_of_def shown_sets [OF assms(1)])
    then show ?thesis by (auto simp: wires_def count_list_0_iff)
  qed
  ultimately show ?thesis by (simp add: sum.delta)
qed

section \<open>The loop on a graph\<close>

definition id_of :: "Graph \<Rightarrow> string \<Rightarrow> NodeId" where
  "id_of G op = the (map_of (node_name_to_node_id G) op)"

definition succs_of :: "Graph \<Rightarrow> string \<Rightarrow> string list" where
  "succs_of G op = map (name_of G) (successor_ids G (id_of G op))"

lemma id_of_name: "graph_ok G \<Longrightarrow> n \<in> node_set G \<Longrightarrow> id_of G (name_of G n) = n"
  by (simp add: id_of_def name_lookup)

text \<open>The schedules to repair: no op twice, every op a node that is not a queue.\<close>

definition schedule_ok :: "Graph \<Rightarrow> Schedule \<Rightarrow> bool" where
  "schedule_ok G ops \<longleftrightarrow>
     distinct ops \<and>
     list_all (\<lambda>op. case map_of (node_name_to_node_id G) op of None \<Rightarrow> False | Some n \<Rightarrow> \<not> is_queue G n) ops"

lemma schedule_okD:
  assumes "graph_ok G" and "schedule_ok G ops" and "op \<in> set ops"
  shows "id_of G op \<in> node_set G" and "name_of G (id_of G op) = op" and "\<not> is_queue G (id_of G op)"
proof -
  obtain n where n: "map_of (node_name_to_node_id G) op = Some n" "\<not> is_queue G n"
    using assms(2,3) by (auto simp: schedule_ok_def list_all_iff split: option.splits)
  moreover obtain x where "map_of (nodes_map G) n = Some x" "n_name x = op"
    using n(1) nodes_okD(5) [of G op n] assms(1) by (auto simp: graph_ok_def)
  ultimately show "id_of G op \<in> node_set G" "name_of G (id_of G op) = op" "\<not> is_queue G (id_of G op)"
    by (auto simp: id_of_def node_set_def name_of_def node_of_def)
qed

lemma count_list_map_inj:
  "inj_on f A \<Longrightarrow> set xs \<subseteq> A \<Longrightarrow> x \<in> A \<Longrightarrow> count_list (map f xs) (f x) = count_list xs x"
  by (induction xs) (auto dest: inj_onD)

lemma succs_of_count:
  assumes "graph_ok G" and "queues_ok G" and "edges_by_type G kDataLoopback = []"
    and "schedule_ok G ops" and "a \<in> set ops" and "b \<in> set ops"
  shows "count_list (succs_of G a) b = count_list (map (name_of G) (predecessor_ids G (id_of G b))) a"
proof -
  note a = schedule_okD [OF assms(1,4,5)] and b = schedule_okD [OF assms(1,4,6)]
  have "count_list (succs_of G a) b = count_list (successor_ids G (id_of G a)) (id_of G b)"
    using count_list_map_inj [OF name_inj [OF assms(1)] schedule_ids_nodes(2) [OF assms(1)] b(1)]
    by (simp add: succs_of_def b(2))
  moreover have "count_list (map (name_of G) (predecessor_ids G (id_of G b))) a =
      count_list (predecessor_ids G (id_of G b)) (id_of G a)"
    using count_list_map_inj [OF name_inj [OF assms(1)] schedule_ids_nodes(1) [OF assms(1)] a(1)]
    by (simp add: a(2))
  ultimately show ?thesis using schedule_counts [OF assms(1-3) a(3) b(3)] by simp
qed

lemma sum_of_counts:
  "distinct ops \<Longrightarrow> sum_list (map (count_list ps) ops) = length (filter (\<lambda>p. p \<in> set ops) ps)"
proof (induction ps)
  case (Cons p ps)
  have "sum_list (map (count_list (p # ps)) ops) = sum_list (map (count_list ps) ops) + sum_list (map (\<lambda>a. of_bool (p = a)) ops)"
    by (subst sum_list_addf [symmetric]) (auto intro!: arg_cong [where f = sum_list] map_cong)
  moreover have "sum_list (map (\<lambda>a. of_bool (p = a)) ops) = (of_bool (p \<in> set ops) :: nat)"
    using Cons.prems by (induction ops) auto
  ultimately have "sum_list (map (count_list (p # ps)) ops) =
      length (filter (\<lambda>p. p \<in> set ops) ps) + of_bool (p \<in> set ops)"
    using Cons by simp
  then show ?case by (simp del: count_list.simps)
qed simp

lemma pending_predecessors:
  assumes "graph_ok G" and "queues_ok G" and "edges_by_type G kDataLoopback = []"
    and "schedule_ok G ops" and "b \<in> set ops"
  shows "pending (succs_of G) ops [] b =
           length (filter (\<lambda>p. p \<in> set ops) (map (name_of G) (predecessor_ids G (id_of G b))))"
proof -
  let ?ps = "map (name_of G) (predecessor_ids G (id_of G b))"
  have "map (\<lambda>a. count_list (succs_of G a) b) ops = map (count_list ?ps) ops"
    using succs_of_count [OF assms(1-4) _ assms(5)] by simp
  moreover have "sum_list (map (count_list ?ps) ops) = length (filter (\<lambda>p. p \<in> set ops) ?ps)"
    by (rule sum_of_counts) (use assms(4) in \<open>simp add: schedule_ok_def\<close>)
  ultimately show ?thesis unfolding pending_def by (simp del: map_eq_conv)
qed

lemma predecessor_ids_length:
  assumes "graph_ok G" and "queues_ok G"
  shows "length (predecessor_ids G n) \<le> length (data_operands_of G n)"
proof -
  let ?f = "\<lambda>p. if is_queue G p then if passed G p then map producer_node_id (data_operands_of G p) else [] else [p]"
  have "length (concat (map ?f ps)) \<le> length ps" if "set ps \<subseteq> node_set G" for ps
    using that
  proof (induction ps)
    case (Cons p ps)
    then have "length (?f p) \<le> 1" using queues_okD(2) [OF assms, of p] by auto
    then show ?case using Cons by simp
  qed simp
  from this [of "map producer_node_id (data_operands_of G n)"] show ?thesis
    using data_ends(1) [OF assms(1)] unfolding predecessor_ids_def by auto
qed

lemma foldl_count:
  "length ps + d < 2 ^ 32 \<Longrightarrow> foldl (\<lambda>d p. if P p then add32 d 1 else d) d ps = d + length (filter P ps)"
  by (induction ps arbitrary: d) (simp_all add: add32_exact)

lemma indegree_pure:
  assumes "graph_ok G" and "queues_ok G" and "edges_by_type G kDataLoopback = []" and "schedule_ok G ops"
    and small: "list_all (\<lambda>n. length (data_operands_of G n) < 2 ^ 32) (node_order G)"
    and "b \<in> set ops"
  shows "indegree_of G ops b = Inr (pending (succs_of G) ops [] b)" and "pending (succs_of G) ops [] b < 2 ^ 32"
proof -
  let ?n = "id_of G b"
  let ?ps = "predecessor_ids G ?n"
  note n = schedule_okD [OF assms(1,4,6)]
  have "length ?ps \<le> length (data_operands_of G ?n)" by (rule predecessor_ids_length [OF assms(1,2)])
  moreover have "?n \<in> set (node_order G)" using node_order_nodes [OF assms(1)] n(1) by simp
  ultimately have len: "length ?ps < 2 ^ 32" using small by (force simp: list_all_iff)
  have "node_by_name G b = Inr (node_of G ?n)" using node_by_name_pure [OF assms(1) n(1)] n(2) by simp
  moreover have "filter (\<lambda>p. p \<in> set ops) (map (name_of G) ?ps) =
      map (name_of G) (filter (\<lambda>p. name_of G p \<in> set ops) ?ps)"
    by (simp add: filter_map comp_def)
  moreover have "foldl (\<lambda>d p. if n_name p \<in> set ops then add32 d 1 else d) 0 (map (node_of G) ?ps) =
      length (filter (\<lambda>p. n_name p \<in> set ops) (map (node_of G) ?ps))"
    using foldl_count [of "map (node_of G) ?ps" 0 "\<lambda>p. n_name p \<in> set ops"] len by simp
  ultimately show "indegree_of G ops b = Inr (pending (succs_of G) ops [] b)"
    unfolding pending_predecessors [OF assms(1-4,6)]
    by (simp add: indegree_of_def get_schedule_predecessors_pure [OF assms(1,2) n(1)] filter_map comp_def name_of_def)
  show "pending (succs_of G) ops [] b < 2 ^ 32"
    unfolding pending_predecessors [OF assms(1-4,6)]
    by (rule le_less_trans [OF length_filter_le]) (use len in simp)
qed

lemma zip_update_map:
  "distinct xs \<Longrightarrow> map_of (fold (\<lambda>(op, d). AList.update op d) (zip xs (map f xs)) m) x =
     (if x \<in> set xs then Some (f x) else map_of m x)"
  by (induction xs arbitrary: m) (auto simp: map_of_update_conv)

lemma get_valid_schedule_kahn:
  assumes "graph_ok G" and "queues_ok G" and "edges_by_type G kDataLoopback = []" and "schedule_ok G ops"
    and "list_all (\<lambda>n. length (data_operands_of G n) < 2 ^ 32) (node_order G)"
    and "wf {(a, b). a \<in> set ops \<and> b \<in> set (succs_of G a)}"
  shows "\<exists>ys. get_valid_schedule G ops = Some (Inr ys) \<and> distinct ys \<and> set ys = set ops \<and>
           preceded (succs_of G) ops ys"
proof -
  let ?p = "pending (succs_of G) ops []"
  let ?m = "fold (\<lambda>(op, d). AList.update op d) (zip ops (map ?p ops)) []"
  let ?s = "\<lparr>node_to_indegree = ?m, ops_to_process = [op \<leftarrow> ops. map_of ?m op = Some 0], valid_schedule = []\<rparr>"
  have dist: "distinct ops" using assms(4) by (simp add: schedule_ok_def)
  have degrees: "map_res (indegree_of G ops) ops = Inr (map ?p ops)"
    by (rule map_res_pure) (rule indegree_pure [OF assms(1-5)])
  have "kahn_inv (succs_of G) ops ?s"
    unfolding kahn_inv_def using dist by (auto simp: zip_update_map preceded_def)
  moreover have "\<exists>xs. res_bind (node_by_name G op) (get_schedule_successors G) = Inr xs \<and> map n_name xs = succs_of G op"
    if "op \<in> set ops" for op
    using node_by_name_pure [OF assms(1) schedule_okD(1) [OF assms(1,4) that]] schedule_okD(2) [OF assms(1,4) that]
      get_schedule_successors_pure [OF assms(1,2) schedule_okD(1) [OF assms(1,4) that]]
    by (simp add: succs_of_def comp_def name_of_def)
  ultimately obtain t where t: "process_ops G ops ?s = Some (Inr t)" "kahn_inv (succs_of G) ops t" "ops_to_process t = []"
    using kahn_loop [OF dist indegree_pure(2) [OF assms(1-5)]] by blast
  have v: "distinct (valid_schedule t)" "set (valid_schedule t) = set ops" "preceded (succs_of G) ops (valid_schedule t)"
    using kahn_complete [OF dist t(2,3) assms(6)] by simp_all
  then have "length (valid_schedule t) = length ops" using dist by (metis distinct_card)
  then have "get_valid_schedule G ops = Some (Inr (valid_schedule t))"
    using t(1) by (simp add: get_valid_schedule_def degrees Let_def)
  with v show ?thesis by blast
qed

end
