(* ===== verification/Graph_Topo_Spec.thy ===== *)
theory Graph_Topo_Spec
  imports Graph_Topo_Facts Graph_Spec
begin

text \<open>The properties of the traversals.\<close>

text \<open>The dependencies a sort follows, from operand to user.\<close>

definition dependencies :: "Graph \<Rightarrow> (NodeId \<times> NodeId) set" where
  "dependencies G = {(producer_node_id e, consumer_node_id e) | e.
     e \<in> graph_edges G \<and> edge_shown G e \<and> \<not> not_followed e}"

lemma points_dependencies:
  assumes "graph_ok G"
  shows "points (topo_adj G) (seen G) \<subseteq> (dependencies G)\<inverse>"
  by (auto simp: points_def topo_adj_producers [OF assms] followed_operands_def shown_sets [OF assms]
      dependencies_def)

lemma acyclic_points:
  assumes "graph_ok G" and "acyclic (dependencies G)"
  shows "acyclic (points (topo_adj G) (seen G))"
  using acyclic_subset [OF _ points_dependencies [OF assms(1)]] assms(2) by simp

lemma filter_eq_appendE:
  "filter F xs = us @ vs \<Longrightarrow> \<exists>as bs. xs = as @ bs \<and> filter F as = us \<and> filter F bs = vs"
proof (induction us arbitrary: xs)
  case Nil
  then show ?case by (intro exI [of _ "[]"] exI [of _ xs]) simp
next
  case (Cons u us)
  then obtain as bs where xs: "xs = as @ u # bs" "\<forall>x \<in> set as. \<not> F x" "F u" "us @ vs = filter F bs"
    by (auto simp: filter_eq_Cons_iff)
  with Cons.IH [of bs] obtain cs ds where "bs = cs @ ds" "filter F cs = us" "filter F ds = vs" by metis
  with xs show ?case by (intro exI [of _ "as @ u # cs"] exI [of _ ds]) simp
qed

lemma after_targets_filter:
  assumes "after_targets adj R" and "filter F R = us @ c # vs" and "p \<in> set (adj c)" and "F p"
  shows "p \<in> set us"
proof -
  obtain as bs where R: "R = as @ bs" "filter F as = us" "filter F bs = c # vs"
    using assms(2) by (metis filter_eq_appendE)
  then obtain cs ds where bs: "bs = cs @ c # ds" "\<forall>x \<in> set cs. \<not> F x"
    by (auto simp: filter_eq_Cons_iff)
  have "length (as @ cs) < length R" "R ! length (as @ cs) = c" "take (length (as @ cs)) R = as @ cs"
    using R(1) bs(1) by (simp_all add: nth_append)
  then have "p \<in> set (as @ cs)"
    using assms(1,3) unfolding after_targets_def by (metis subsetD)
  then show ?thesis using assms(4) bs(2) R(2) by auto
qed

text \<open>
  C11 (termination).
  Without unrolling, the topological sort of a graph built by its clients returns, cyclic or not,
  as long as the stack allows as many nested calls as the graph has nodes; the result lists exactly
  the visible nodes that pass the filter, each once.
\<close>

theorem sort_lists_the_visible_nodes:
  assumes "graph_reachable (ids, G)" and "num_nodes G \<le> depth"
  shows "\<exists>xs. topological_sort G P False depth = Some (Inr xs) \<and> distinct xs \<and>
           set xs = {n. has_node_with_id G n \<and> is_node_visible G n \<and> P (node_of G n)}"
proof -
  have ok: "graph_ok G" using graph_reachable_ok [OF assms(1)] by (simp add: run_ok_def)
  show ?thesis
    using topological_sort_dfs [OF ok assms(2), of P] by (auto simp: seen_def has_node_with_id_iff)
qed

theorem sort_lists_the_visible_nodes_witness:
  "\<exists>xs. topological_sort (snd sample_state) default_node_filter False 3 = Some (Inr xs) \<and> distinct xs"
proof -
  have "graph_reachable (fst sample_state, snd sample_state)" by (simp add: sample_reachable)
  moreover have "num_nodes (snd sample_state) \<le> 3" by code_simp
  ultimately show ?thesis using sort_lists_the_visible_nodes by blast
qed

text \<open>
  C10 (functional).
  On a graph without cycles (data copies, loopbacks and control loops apart) the sort is
  topological: a node comes after every visible operand that passes the filter.
\<close>

theorem sort_puts_operands_first:
  assumes "graph_reachable (ids, G)" and "num_nodes G \<le> depth" and "acyclic (dependencies G)"
    and "topological_sort G P False depth = Some (Inr (us @ c # vs))"
    and "(p, c) \<in> dependencies G" and "P (node_of G p)"
  shows "p \<in> set us"
proof -
  have ok: "graph_ok G" using graph_reachable_ok [OF assms(1)] by (simp add: run_ok_def)
  obtain R where R: "filter (\<lambda>n. P (node_of G n)) R = us @ c # vs" "after_targets (topo_adj G) R"
    using topological_sort_dfs [OF ok assms(2), of P] acyclic_points [OF ok assms(3)] assms(4) by auto
  have "p \<in> set (topo_adj G c)"
    using assms(5) by (auto simp: dependencies_def topo_adj_producers [OF ok] followed_operands_def
        shown_sets [OF ok])
  then show ?thesis using after_targets_filter [OF R(2,1)] assms(6) by simp
qed

lemma acyclic_by_ids:
  assumes "list_all (\<lambda>(_, es). list_all (\<lambda>e. producer_node_id e < consumer_node_id e) es) (operands_map G)"
  shows "acyclic (dependencies G)"
proof (rule acyclicI_order [where f = uminus])
  fix p c assume "(p, c) \<in> dependencies G"
  then obtain e where e: "e \<in> graph_edges G" "p = producer_node_id e" "c = consumer_node_id e"
    by (auto simp: dependencies_def)
  then obtain es where "(c, es) \<in> set (operands_map G)" "e \<in> set es"
    by (cases "map_of (operands_map G) (consumer_node_id e)")
      (auto simp: graph_edges_def edge_entry_def dest: map_of_SomeD)
  then show "- c < - p" using assms e(2,3) by (auto simp: list_all_iff)
qed

theorem sort_puts_operands_first_witness:
  "topological_sort (snd sample_state) default_node_filter False 3 = Some (Inr ([1] @ 2 # [3])) \<and>
   (1 :: NodeId) \<in> set [1]"
proof
  show sorted: "topological_sort (snd sample_state) default_node_filter False 3 = Some (Inr ([1] @ 2 # [3]))"
    by code_simp
  have reach: "graph_reachable (fst sample_state, snd sample_state)" by (simp add: sample_reachable)
  have "num_nodes (snd sample_state) \<le> 3" by code_simp
  moreover have "acyclic (dependencies (snd sample_state))" by (rule acyclic_by_ids) code_simp
  moreover have "(1, 2) \<in> dependencies (snd sample_state)"
  proof -
    have "sample_edge \<in> set (edge_entry (operands_map (snd sample_state)) (consumer_node_id sample_edge))"
      and "no_context (snd sample_state)" by code_simp+
    then have "sample_edge \<in> graph_edges (snd sample_state) \<and> edge_shown (snd sample_state) sample_edge \<and>
        \<not> not_followed sample_edge"
      by (simp add: graph_edges_def edge_shown_def not_followed_def sample_edge_def mk_edge_def)
    then show ?thesis unfolding dependencies_def by (auto intro!: exI [of _ sample_edge] simp: sample_edge_def mk_edge_def)
  qed
  ultimately show "(1 :: NodeId) \<in> set [1]"
    using sort_puts_operands_first [OF reach _ _ sorted, of 1] by (simp add: default_node_filter_def)
qed

text \<open>
  C38 (functional).
  \<open>reachable_nodes\<close> restricted to ancestors returns, for every start node, exactly the nodes that
  pass the filter and from which a path of shown data edges leads to the start, each once.
\<close>

theorem reachable_nodes_are_the_ancestors:
  assumes "graph_reachable (ids, G)" and "num_nodes G \<le> depth" and "has_node_with_id G start"
  shows "\<exists>xs. reachable_nodes G start P True depth = Some (Inr xs) \<and> distinct xs \<and>
           set xs = {n. (n, start) \<in> (feeds G)\<^sup>* \<and> P (node_of G n)}"
proof -
  have ok: "graph_ok G" using graph_reachable_ok [OF assms(1)] by (simp add: run_ok_def)
  have "start \<in> node_set G" using assms(3) by (simp add: has_node_with_id_iff)
  then obtain R where "reachable_nodes G start P True depth = Some (Inr (filter (\<lambda>n. P (node_of G n)) R))"
      "distinct R" "set R = ((feeds G)\<inverse>)\<^sup>* `` {start}"
    using reachable_nodes_dfs [OF ok _ assms(2), of start P True] points_ancestors [OF ok] by auto
  then show ?thesis by (auto simp: rtrancl_converse)
qed

theorem reachable_nodes_are_the_ancestors_witness:
  "\<exists>xs. reachable_nodes (snd sample_state) 3 default_node_filter True 3 = Some (Inr xs) \<and> distinct xs"
proof -
  have "graph_reachable (fst sample_state, snd sample_state)" by (simp add: sample_reachable)
  moreover have "num_nodes (snd sample_state) \<le> 3" "has_node_with_id (snd sample_state) 3" by code_simp+
  ultimately show ?thesis using reachable_nodes_are_the_ancestors by blast
qed

text \<open>
  C39 (error).
  \<open>check_producer_consumer\<close> looks the other way: it answers whether its second argument, the
  consumer, feeds the first, the producer, over some path (and passes the filter). For a consumer
  that only reads the producer's result the answer is no.
\<close>

theorem check_producer_consumer_looks_upstream:
  assumes "graph_reachable (ids, G)" and "num_nodes G \<le> depth" and "has_node_with_id G producer"
  shows "check_producer_consumer G producer consumer P depth =
           Some (Inr ((consumer, producer) \<in> (feeds G)\<^sup>* \<and> P (node_of G consumer)))"
proof -
  have ok: "graph_ok G" using graph_reachable_ok [OF assms(1)] by (simp add: run_ok_def)
  have "producer \<in> node_set G" using assms(3) by (simp add: has_node_with_id_iff)
  then obtain R where "reachable_nodes G producer P True depth = Some (Inr (filter (\<lambda>n. P (node_of G n)) R))"
      "set R = ((feeds G)\<inverse>)\<^sup>* `` {producer}"
    using reachable_nodes_dfs [OF ok _ assms(2), of producer P True] points_ancestors [OF ok] by auto
  then show ?thesis by (auto simp: check_producer_consumer_def rtrancl_converse)
qed

theorem check_producer_consumer_looks_upstream_witness:
  "check_producer_consumer (snd sample_state) 1 2 default_node_filter 3 = Some (Inr False) \<and>
   (2, 1) \<notin> (feeds (snd sample_state))\<^sup>*"
proof
  show no: "check_producer_consumer (snd sample_state) 1 2 default_node_filter 3 = Some (Inr False)" by code_simp
  have "graph_reachable (fst sample_state, snd sample_state)" by (simp add: sample_reachable)
  moreover have "num_nodes (snd sample_state) \<le> 3" "has_node_with_id (snd sample_state) 1" by code_simp+
  ultimately show "(2, 1) \<notin> (feeds (snd sample_state))\<^sup>*"
    using check_producer_consumer_looks_upstream [of "fst sample_state" "snd sample_state" 3 1 2 default_node_filter]
      no by (simp add: default_node_filter_def)
qed

end
