(* ===== verification/Scheduler_Spec.thy ===== *)
theory Scheduler_Spec
  imports Repair_Facts Graph_Topo_Spec Interactive_Scheduler_Spec "HOL-Library.Multiset"
begin

text \<open>
  The properties of the schedules: the topological schedule meets the dependencies, it is a preferred
  schedule as the interactive scheduler needs it, and the repair of a schedule is a permutation of it that
  meets the dependencies.
\<close>

section \<open>Indices in a schedule\<close>

lemma schedule_index:
  assumes "distinct xs"
  shows "map_of (get_op_to_schedule_index xs) x = Some i \<longleftrightarrow> i < length xs \<and> xs ! i = x"
  using assms
proof (induction xs arbitrary: i rule: rev_induct)
  case Nil
  then show ?case by (simp add: get_op_to_schedule_index_def)
next
  case (snoc y ys)
  have "get_op_to_schedule_index (ys @ [y]) = AList.update y (length ys) (get_op_to_schedule_index ys)"
    by (simp add: get_op_to_schedule_index_def enumerate_append_eq)
  then show ?case
    using snoc by (auto simp: map_of_update_conv nth_append less_Suc_eq in_set_conv_nth)
qed

lemma schedule_index_None:
  "distinct xs \<Longrightarrow> map_of (get_op_to_schedule_index xs) x = None \<longleftrightarrow> x \<notin> set xs"
  by (metis schedule_index in_set_conv_nth option.exhaust option.distinct(1))

section \<open>The topological schedule\<close>

lemma topological_scheduler_run:
  assumes "graph_ok G" and "num_nodes G \<le> depth"
  shows "\<exists>R. run_topological_scheduler G depth =
             Some (Inr (map (name_of G) (filter (\<lambda>n. can_schedule_node (node_of G n)) R))) \<and>
           set R = seen G \<and> distinct R \<and>
           (acyclic (points (topo_adj G) (seen G)) \<longrightarrow> after_targets (topo_adj G) R)"
proof -
  obtain R where R: "topological_sort G default_node_filter False depth = Some (Inr R)" "set R = seen G" "distinct R"
      "acyclic (points (topo_adj G) (seen G)) \<longrightarrow> after_targets (topo_adj G) R"
    using topological_sort_dfs [OF assms, of default_node_filter] by (auto simp: default_node_filter_def)
  have "fold_res (\<lambda>n scheduled. res_bind (node_by_id G n) (\<lambda>x.
           Inr (if can_schedule_node x then scheduled @ [n_name x] else scheduled))) ns acc =
      Inr (acc @ map (name_of G) (filter (\<lambda>n. can_schedule_node (node_of G n)) ns))"
    if "set ns \<subseteq> node_set G" for ns acc
    using that by (induction ns arbitrary: acc) (simp_all add: node_by_id_pure name_of_def)
  moreover have "set R \<subseteq> node_set G" using R(2) by (auto simp: seen_def)
  ultimately show ?thesis using R by (intro exI [of _ R]) (simp add: run_topological_scheduler_def)
qed

text \<open>
  What the interactive scheduler asks of its preferred schedule holds for the topological policy: on an
  acyclic graph whose edges are all followed by the sort and whose schedulable nodes are ops, the schedule
  lists the visible ops, and its first op reads no other op. What is left of \<open>first_is_ready\<close> is that
  this op has the epoch type the scheduler starts with.
\<close>

lemma topological_policy_starts_ready:
  assumes ok: "graph_ok G" and classes: "classes_ok G" and "num_nodes G \<le> depth" and "acyclic (dependencies G)"
    and followed: "\<forall>e \<in> graph_edges G. \<not> not_followed e"
    and ops: "\<forall>n \<in> seen G. can_schedule_node (node_of G n) \<longleftrightarrow> is_op G n"
    and run: "run_topological_scheduler G depth = Some (Inr xs)"
  shows "lists_ops G xs \<and>
         (xs \<noteq> [] \<longrightarrow> (\<exists>n \<in> set (buda_ops G). name_of G n = hd xs \<and> op_operands G n = [] \<and>
            (n_epoch (node_of G n) = t \<longrightarrow> first_is_ready G t xs)))"
proof -
  have G: "op_graph G" using ok classes by (simp add: op_graph_def)
  obtain R where R: "xs = map (name_of G) (filter (\<lambda>n. can_schedule_node (node_of G n)) R)"
      "set R = seen G" "distinct R" "after_targets (topo_adj G) R"
    using topological_scheduler_run [OF ok assms(3)] acyclic_points [OF ok assms(4)] run by auto
  define ns where "ns = filter (\<lambda>n. can_schedule_node (node_of G n)) R"
  have ns: "set ns = set (buda_ops G)" "distinct ns"
    using R(2,3) ops by (auto simp: ns_def buda_ops_set [OF G])
  have inj: "inj_on (name_of G) (set ns)" using op_name_inj [OF G] unfolding ns(1) by (meson inj_onI)
  then have lists: "lists_ops G xs"
    using ns R(1) by (simp add: lists_ops_def distinct_map ns_def [symmetric])
  have first: "op_operands G n = []" if "ns = n # rest" for n rest
  proof -
    have False if p: "p \<in> set (op_operands G n)" for p
    proof -
      obtain e where e: "e \<in> graph_edges G" "consumer_node_id e = n" "edge_shown G e" "producer_node_id e = p" "is_op G p"
        using p by (auto simp: op_operands_def producer_ids_def shown_sets [OF ok])
      have "p \<in> set (topo_adj G n)"
        using e followed by (auto simp: topo_adj_producers [OF ok] followed_operands_def shown_sets [OF ok])
      moreover have "p \<in> seen G" using shown_ends(1) [OF ok e(1,3)] e(4) by simp
      then have "can_schedule_node (node_of G p)" using ops e(5) by simp
      ultimately have "p \<in> set []"
        using after_targets_filter [OF R(4), of "\<lambda>n. can_schedule_node (node_of G n)" "[]" n rest] that
        by (simp add: ns_def [symmetric] \<open>ns = n # rest\<close>)
      then show False by simp
    qed
    then show ?thesis by (cases "op_operands G n") auto
  qed
  have "\<exists>n \<in> set (buda_ops G). name_of G n = hd xs \<and> op_operands G n = [] \<and>
      (n_epoch (node_of G n) = t \<longrightarrow> first_is_ready G t xs)" if some: "xs \<noteq> []"
  proof -
    obtain n rest where nr: "ns = n # rest" using some R(1) by (cases ns) (simp_all add: ns_def [symmetric])
    then have "n \<in> set (buda_ops G)" "xs = name_of G n # map (name_of G) rest"
      using ns(1) R(1) by (auto simp: ns_def [symmetric])
    then show ?thesis using first [OF nr] by (auto simp: first_is_ready_def list_ex_iff)
  qed
  with lists show ?thesis by blast
qed

text \<open>
  C14 (functional).
  On an acyclic graph without loopback edges the topological scheduler lists each visible node that
  can be scheduled once, by name, and the schedule passes the check that no op comes before an operand.
\<close>

theorem topological_schedule_is_valid:
  assumes "graph_reachable (ids, G)" and "num_nodes G \<le> depth" and "acyclic (dependencies G)"
    and "edges_by_type G kDataLoopback = []"
  shows "\<exists>xs. run_topological_scheduler G depth = Some (Inr xs) \<and> distinct xs \<and>
           set xs = name_of G ` {n. has_node_with_id G n \<and> is_node_visible G n \<and>
                                  can_schedule_node (node_of G n)} \<and>
           are_schedule_dependencies_met G xs = Inr True"
proof -
  have ok: "graph_ok G" using graph_reachable_ok [OF assms(1)] by (simp add: run_ok_def)
  obtain R where R: "run_topological_scheduler G depth =
        Some (Inr (map (name_of G) (filter (\<lambda>n. can_schedule_node (node_of G n)) R)))"
      "set R = seen G" "distinct R" "after_targets (topo_adj G) R"
    using topological_scheduler_run [OF ok assms(2)] acyclic_points [OF ok assms(3)] by blast
  define ns where "ns = filter (\<lambda>n. can_schedule_node (node_of G n)) R"
  let ?xs = "map (name_of G) ns"
  have ns: "set ns = {n \<in> seen G. can_schedule_node (node_of G n)}" "set ns \<subseteq> node_set G"
    by (auto simp: ns_def R(2) seen_def)
  have inj: "inj_on (name_of G) (set ns)" using name_inj [OF ok] ns(2) by (rule inj_on_subset)
  have dist: "distinct ?xs" using R(3) inj by (simp add: distinct_map ns_def)
  have before: "i < j"
    if "j < length ns" "e \<in> set (data_operands_of G (ns ! j))"
      "map_of (get_op_to_schedule_index ?xs) (name_of G (producer_node_id e)) = Some i" for e i j
  proof -
    let ?p = "producer_node_id e"
    have e: "e \<in> graph_edges G" "edge_shown G e" "is_data_edge e" "consumer_node_id e = ns ! j"
      using that(2) by (auto simp: data_operands_of_def shown_sets [OF ok])
    have "\<not> not_followed e"
      using e(3) not_loopback [OF assms(4) e(1)] by (auto simp: not_followed_def is_data_edge_def)
    then have adj: "?p \<in> set (topo_adj G (ns ! j))"
      using e by (auto simp: topo_adj_producers [OF ok] followed_operands_def shown_sets [OF ok])
    have i: "i < length ns" "name_of G (ns ! i) = name_of G ?p"
      using that(3) by (auto simp: schedule_index [OF dist])
    have p: "?p \<in> seen G" by (rule shown_ends [OF ok e(1,2)])
    have "ns ! i = ?p"
      using inj_onD [OF name_inj [OF ok] i(2)] ns(2) i(1) seen_node [OF p] nth_mem by blast
    then have "can_schedule_node (node_of G ?p)" using nth_mem [OF i(1)] ns(1) by auto
    then have "?p \<in> set (take j ns)"
      using after_targets_filter [OF R(4), of "\<lambda>n. can_schedule_node (node_of G n)" "take j ns" "ns ! j" "drop (Suc j) ns"]
        adj that(1) by (simp add: ns_def [symmetric] id_take_nth_drop [symmetric])
    then obtain k where k: "k < j" "ns ! k = ?p" by (auto simp: in_set_conv_nth)
    have "distinct ns" using R(3) by (simp add: ns_def)
    then show "i < j" using k i(1) that(1) \<open>ns ! i = ?p\<close> by (metis less_trans nth_eq_iff_index_eq)
  qed
  have "are_schedule_dependencies_met G ?xs = Inr True"
  proof -
    let ?index = "get_op_to_schedule_index ?xs"
    have op: "res_bind (node_by_name G x) (\<lambda>x'. res_bind (operand_data_edges G any_edge (n_id x')) (\<lambda>es.
          all_res (\<lambda>e. res_bind (node_by_id G (producer_node_id e)) (\<lambda>p.
            case map_of ?index (n_name p) of None \<Rightarrow> Inr True
            | Some i \<Rightarrow> res_bind (at_key ?index x) (\<lambda>j. Inr (i \<le> j)))) es)) = Inr True"
      if x: "x \<in> set ?xs" for x
    proof -
      obtain n where "n \<in> set ns" "x = name_of G n" using x by auto
      then obtain j where j: "j < length ns" "x = name_of G (ns ! j)" by (auto simp: in_set_conv_nth)
      then have n: "ns ! j \<in> node_set G" using ns(2) nth_mem by blast
      have index: "map_of ?index x = Some j" using j by (simp add: schedule_index [OF dist])
      have "res_bind (node_by_id G (producer_node_id e)) (\<lambda>p.
            case map_of ?index (n_name p) of None \<Rightarrow> Inr True
            | Some i \<Rightarrow> res_bind (at_key ?index x) (\<lambda>j. Inr (i \<le> j))) = Inr True"
        if e: "e \<in> set (data_operands_of G (ns ! j))" for e
        using data_ends(1) [OF ok e] before [OF j(1) e] index
        by (auto simp: node_by_id_pure name_of_def less_imp_le split: option.split)
      then have "all_res (\<lambda>e. res_bind (node_by_id G (producer_node_id e)) (\<lambda>p.
            case map_of ?index (n_name p) of None \<Rightarrow> Inr True
            | Some i \<Rightarrow> res_bind (at_key ?index x) (\<lambda>j. Inr (i \<le> j)))) (data_operands_of G (ns ! j)) = Inr True"
        by (subst all_res_pure [where P = "\<lambda>_. True"]) auto
      then show ?thesis
        using j(2) by (simp add: node_by_name_pure [OF ok n] node_of_id [OF ok n] operand_data_edges_pure [OF ok n])
    qed
    show ?thesis
      unfolding are_schedule_dependencies_met_def Let_def
      by (subst all_res_pure [where P = "\<lambda>_. True"]) (use op in auto)
  qed
  moreover have "set ?xs = name_of G ` {n. has_node_with_id G n \<and> is_node_visible G n \<and> can_schedule_node (node_of G n)}"
    using ns(1) by (simp add: seen_def has_node_with_id_iff)
  ultimately show ?thesis using R(1) dist by (auto simp: ns_def)
qed

section \<open>The repaired schedule\<close>

lemma data_dependency:
  assumes "graph_ok G" and "edges_by_type G kDataLoopback = []" and "e \<in> set (data_users_of G n)"
  shows "(n, consumer_node_id e) \<in> dependencies G"
proof -
  have e: "e \<in> graph_edges G" "edge_shown G e" "edge_type e = kData" "producer_node_id e = n"
    using assms(3) by (auto simp: data_users_of_def shown_sets [OF assms(1)])
  then have "\<not> not_followed e" by (simp add: not_followed_def)
  with e show ?thesis unfolding dependencies_def by blast
qed

lemma successors_depend:
  assumes "graph_ok G" and "edges_by_type G kDataLoopback = []" and "u \<in> set (successor_ids G n)"
  shows "(n, u) \<in> (dependencies G)\<^sup>+"
  using assms(3) data_dependency [OF assms(1,2)]
  by (fastforce simp: successor_ids_def split: if_splits intro: trancl_into_trancl2 r_into_trancl)

lemma wf_dependencies:
  assumes "graph_ok G" and "acyclic (dependencies G)"
  shows "wf (dependencies G)"
proof (rule finite_acyclic_wf [OF _ assms(2)])
  have "dependencies G \<subseteq> node_set G \<times> node_set G"
    using edges_ok_ends assms(1) by (auto simp: dependencies_def graph_ok_def)
  then show "finite (dependencies G)" by (rule finite_subset) simp
qed

lemma wf_succs:
  assumes "graph_ok G" and "edges_by_type G kDataLoopback = []" and "acyclic (dependencies G)"
  shows "wf {(a, b). a \<in> set ops \<and> b \<in> set (succs_of G a)}"
proof (rule wf_subset)
  show "wf (inv_image ((dependencies G)\<^sup>+) (id_of G))"
    by (intro wf_inv_image wf_trancl wf_dependencies assms)
  show "{(a, b). a \<in> set ops \<and> b \<in> set (succs_of G a)} \<subseteq> inv_image ((dependencies G)\<^sup>+) (id_of G)"
    using successors_depend [OF assms(1,2)] schedule_ids_nodes(2) [OF assms(1)] id_of_name [OF assms(1)]
    by (fastforce simp: succs_of_def inv_image_def)
qed

lemma fold_res_unit: "(\<And>x. x \<in> set xs \<Longrightarrow> f x () = Inr ()) \<Longrightarrow> fold_res f xs () = Inr ()"
  by (induction xs) auto

lemma assert_schedule_dependencies_preceded:
  assumes "graph_ok G" and "queues_ok G" and "edges_by_type G kDataLoopback = []" and "schedule_ok G ops"
    and "distinct ys" and "set ys = set ops" and "preceded (succs_of G) ops ys"
  shows "assert_schedule_dependencies_met G ys = Inr ()"
  unfolding assert_schedule_dependencies_met_def Let_def
proof (rule fold_res_unit)
  let ?index = "get_op_to_schedule_index ys"
  fix op assume "op \<in> set ys"
  then obtain j where j: "j < length ys" "ys ! j = op" by (auto simp: in_set_conv_nth)
  let ?n = "id_of G op"
  note op = schedule_okD [OF assms(1,4), of op]
  have n: "?n \<in> node_set G" "name_of G ?n = op" using op \<open>op \<in> set ys\<close> assms(6) by blast+
  have index: "map_of ?index op = Some j" using j by (simp add: schedule_index [OF assms(5)])
  have ps: "fold_res (\<lambda>p _. case map_of ?index (n_name p) of None \<Rightarrow> Inr ()
          | Some i \<Rightarrow> res_bind (at_key ?index op) (\<lambda>j. tt_assert (i < j)))
        (map (node_of G) (predecessor_ids G ?n)) () = Inr ()"
  proof (rule fold_res_unit)
    fix x assume "x \<in> set (map (node_of G) (predecessor_ids G ?n))"
    then obtain p where p: "p \<in> set (predecessor_ids G ?n)" "n_name x = name_of G p" by (auto simp: name_of_def)
    have "i < j" if i: "map_of ?index (name_of G p) = Some i" for i
    proof -
      from i have i': "i < length ys" "ys ! i = name_of G p" by (simp_all add: schedule_index [OF assms(5)])
      have mem: "name_of G p \<in> set ops" "op \<in> set ops"
        using nth_mem [OF i'(1)] \<open>op \<in> set ys\<close> unfolding i'(2) assms(6) by simp_all
      have "name_of G p \<in> set (map (name_of G) (predecessor_ids G ?n))" using p(1) by simp
      then have "count_list (succs_of G (name_of G p)) op \<noteq> 0"
        unfolding succs_of_count [OF assms(1-4) mem] count_list_0_iff by simp
      then have "op \<in> set (succs_of G (name_of G p))" by (simp add: count_list_0_iff)
      then have "name_of G p \<in> set (take j ys)" using assms(7) j mem(1) by (auto simp: preceded_def)
      then obtain k where "k < j" "ys ! k = name_of G p" by (auto simp: in_set_conv_nth)
      then show "i < j" using i' j(1) assms(5) by (metis less_trans nth_eq_iff_index_eq)
    qed
    then show "(case map_of ?index (n_name x) of None \<Rightarrow> Inr ()
          | Some i \<Rightarrow> res_bind (at_key ?index op) (\<lambda>j. tt_assert (i < j))) = Inr ()"
      using index p(2) by (auto simp: tt_assert_def split: option.split)
  qed
  show "res_bind (node_by_name G op) (\<lambda>x. res_bind (get_schedule_predecessors G x) (\<lambda>ps.
          fold_res (\<lambda>p _. case map_of ?index (n_name p) of None \<Rightarrow> Inr ()
            | Some i \<Rightarrow> res_bind (at_key ?index op) (\<lambda>j. tt_assert (i < j))) ps ())) = Inr ()"
    using ps node_by_name_pure [OF assms(1) n(1)] n(2)
    by (simp add: get_schedule_predecessors_pure [OF assms(1,2) n(1)])
qed

text \<open>
  C9 (liveness).
  The repair of a schedule gives up on no acyclic graph: for any order of distinct ops, it returns
  a permutation of them that passes the check of the dependencies through queues. (The queues it
  looks through have one operand, no node has 2^32 operands, and there are no loopback edges.)
\<close>

theorem valid_schedule_restores_order:
  assumes "graph_reachable (ids, G)" and "queues_ok G" and "edges_by_type G kDataLoopback = []"
    and "schedule_ok G xs" and "list_all (\<lambda>n. length (data_operands_of G n) < 2 ^ 32) (node_order G)"
    and "acyclic (dependencies G)"
  shows "\<exists>ys. get_valid_schedule G xs = Some (Inr ys) \<and> mset ys = mset xs \<and>
           assert_schedule_dependencies_met G ys = Inr ()"
proof -
  have ok: "graph_ok G" using graph_reachable_ok [OF assms(1)] by (simp add: run_ok_def)
  obtain ys where ys: "get_valid_schedule G xs = Some (Inr ys)" "distinct ys" "set ys = set xs"
      "preceded (succs_of G) xs ys"
    using get_valid_schedule_kahn [OF ok assms(2-5) wf_succs [OF ok assms(3,6)]] by blast
  have "mset ys = mset xs"
    using ys(2,3) assms(4) by (simp add: schedule_ok_def set_eq_iff_mset_eq_distinct [symmetric])
  then show ?thesis
    using ys(1) assert_schedule_dependencies_preceded [OF ok assms(2-4) ys(2-4)] by blast
qed

section \<open>Concrete schedules\<close>

text \<open>An input, two ops in a row and an output.\<close>

definition chain_state :: "IdCounters \<times> Graph" where
  "chain_state =
     add_edge_ports 3 4 0 0 kData (add_edge_ports 2 3 0 0 kData (add_edge_ports 1 2 0 0 kData
       (with_node sample_output (with_node (sample_op ''second'') (with_node (sample_op ''first'')
         (with_node sample_input sample_start))))))"

lemma chain_nodes_reachable:
  "graph_reachable (with_node sample_output (with_node (sample_op ''second'') (with_node (sample_op ''first'')
     (with_node sample_input sample_start))))"
  by (intro with_node_reachable) (simp add: sample_start_def graph_reachable.start)

lemma chain_reachable: "graph_reachable chain_state"
  unfolding chain_state_def
proof (intro edge_reachable chain_nodes_reachable)
qed code_simp+

theorem topological_schedule_is_valid_witness:
  "\<exists>xs. run_topological_scheduler (snd chain_state) 4 = Some (Inr xs) \<and>
        are_schedule_dependencies_met (snd chain_state) xs = Inr True"
proof -
  have "graph_reachable (fst chain_state, snd chain_state)" by (simp add: chain_reachable)
  moreover have "num_nodes (snd chain_state) \<le> 4" by code_simp
  moreover have "acyclic (dependencies (snd chain_state))" by (rule acyclic_by_ids) code_simp
  moreover have "edges_by_type (snd chain_state) kDataLoopback = []" by code_simp
  ultimately show ?thesis using topological_schedule_is_valid by blast
qed

theorem valid_schedule_restores_order_witness:
  "\<exists>ys. get_valid_schedule (snd chain_state) [''second'', ''first''] = Some (Inr ys) \<and>
        mset ys = mset [''second'', ''first''] \<and> assert_schedule_dependencies_met (snd chain_state) ys = Inr ()"
proof (rule valid_schedule_restores_order)
  show "graph_reachable (fst chain_state, snd chain_state)" by (simp add: chain_reachable)
  show "queues_ok (snd chain_state)" by code_simp
  show "edges_by_type (snd chain_state) kDataLoopback = []" by code_simp
  show "schedule_ok (snd chain_state) [''second'', ''first'']" by code_simp
  have "list_all (\<lambda>n. length (data_operands_of (snd chain_state) n) \<le> 1) (node_order (snd chain_state))" by code_simp
  then show "list_all (\<lambda>n. length (data_operands_of (snd chain_state) n) < 2 ^ 32) (node_order (snd chain_state))"
    by (rule list.pred_mono_strong) simp
  show "acyclic (dependencies (snd chain_state))" by (rule acyclic_by_ids) code_simp
qed

end
