(* ===== verification/Spec2Isabelle.thy ===== *)
theory Spec2Isabelle
  imports Wormhole_Facts Chip_Assignment_Facts Best_Fit_Spec Dram_Queues Dram_Device Host_Memory_Facts
    Interactive_Spec Sparse_Spec Sparse_Estimates Graph_Queries Shape_Spec Graph_Clone
    Interactive_Scheduler_Spec Scheduler_Spec
begin

text \<open>
  A model of four parts of the PyBuda compiler, the graph it works on (\<open>pybuda/csrc/graph_lib\<close>), its scheduler
  (\<open>pybuda/csrc/scheduler\<close>), its placer (\<open>pybuda/csrc/placer\<close>) and its encoder for sparse matrix products (\<open>pybuda/csrc/shared_utils\<close>), translated
  from the C++ sources into executable HOL definitions.

  The program. The compiler turns a tensor graph into a netlist for a grid of cores. Its scheduler
  puts the ops in an order, as a whole or one by one as the balancer asks for them. Its placer
  decides for every op on which chip, in which epoch and on which rectangle of cores it runs, and
  for every queue in which DRAM channel, or where in host memory, its buffers lie. Modelled here
  are the way of the ops (the schedule becomes a workload of op groups, the grid placer packs the
  groups into device grids epoch by epoch, the architecture placers distribute the epochs over the
  chips) and the way of the queues (channels are picked, addresses allocated and freed). A sparse
  operand of an op is cut into slices, one sequence of slices for every row of cores; the slices of a
  core are compressed into unique tiles and a list of indices, and the list is encoded in strips of 16-bit words that
  the kernel on the core walks over.

  The theories.
  \<^item> \<open>Prelude\<close>: errors as values (\<open>exn\<close>, \<open>res\<close>, for code that may also loop \<open>comp\<close>), 32 and 64 bit
    arithmetic on nat, association lists for maps (\<open>std::map\<close> is kept sorted by \<open>omap_insert\<close>;
    for \<open>std::unordered_map\<close> the order of the list stands for the unspecified iteration order).
  \<^item> \<open>Geometry\<close> (\<open>placer.hpp\<close>): coordinates, shapes, ranges, overrides.
  \<^item> \<open>Device_Grid\<close> (\<open>grid_placer.cpp\<close>, namespace \<open>device_grid\<close>; \<open>placer.cpp\<close>,
    \<open>EpochIdToDeviceGrid\<close>); \<open>Grid_Facts\<close> and \<open>Grid_Interface\<close> prove what its operations compute. The
    locale \<open>placement_surface\<close> states what the placer relies on: a placement test, a search that is
    sound and complete for it, and filling; it is interpreted for one device grid and for the
    grids of the epochs with constraints.
  \<^item> \<open>Grid_Placer\<close>, \<open>Grid_Placer_Facts\<close> (\<open>grid_placer.cpp\<close>): one op, one group, all groups.
  \<^item> \<open>Placer_Types\<close> (\<open>placer.hpp\<close>, \<open>placer.cpp\<close>): configuration and solution.
  \<^item> \<open>Epoch_Placer\<close>, \<open>Epoch_Placer_Facts\<close> (\<open>grid_placer.cpp\<close>, class \<open>EpochDevicePlacer\<close>).
  \<^item> \<open>Channel_Interface\<close>: the locale \<open>channel_allocator\<close>, the contract of a channel's allocator.
    \<open>Best_Fit\<close>, \<open>Best_Fit_Facts\<close>, \<open>Best_Fit_Spec\<close> (\<open>best_fit_allocator.cpp\<close>) provide it.
  \<^item> \<open>Lowering\<close>, \<open>Lowering_Facts\<close> (\<open>lowering_utils.cpp\<close>, \<open>utils.cpp\<close>, the tag functions of
    \<open>lower_to_placer.cpp\<close>): the checks of the input and the workloads.
  \<^item> \<open>Chip_Assignment\<close>, \<open>Chip_Assignment_Facts\<close> (\<open>chip_id_assignment.cpp\<close>) with the locale
    \<open>following_pass\<close> for the passes that send backward and optimizer ops after their forward op.
  \<^item> \<open>Chip_Placer\<close>, \<open>Chip_Placer_Facts\<close> (\<open>placer.cpp\<close>): \<open>place_onto_chip\<close> and the check of its result.
  \<^item> \<open>Arch_Placers\<close> (\<open>placer.cpp\<close>): the placers of the three architectures. \<open>Deal_Facts\<close> shows that the
    search for a chip finds one, \<open>Temporal_Facts\<close> that the temporal epochs form a full matrix, and
    \<open>Wormhole_Facts\<close> puts everything together for \<open>wormhole_placer\<close>.
  \<^item> \<open>Dram_Config\<close> (\<open>dram.hpp\<close>), \<open>Channel_Picker\<close>, \<open>Channel_Picker_Facts\<close> with the locale
    \<open>picker_contract\<close>, \<open>Dram_Allocator\<close>, \<open>Dram_Allocator_Facts\<close>, \<open>Dram_Spec\<close>
    (\<open>dram_allocator.cpp\<close>) and \<open>Dram_Placement\<close> (\<open>dram.cpp\<close>). \<open>Dram_Schedule\<close> and \<open>Dram_Queues\<close> show what
    allocating and freeing the queues epoch by epoch does, \<open>Dram_Device\<close> how allocators are
    built and what location a buffer reports.
  \<^item> \<open>Interactive_Placer\<close> (\<open>interactive_placer.cpp\<close>): the placer the balancer drives op by op, with its epochs,
    rewinds, pipelined chip assignment and commit. \<open>Interactive_Facts\<close> numbers the epochs (epoch
    \<open>t * n + i\<close> is the \<open>i\<close>-th of temporal epoch \<open>t\<close> on \<open>n\<close> chips) and shows that the search for a chip makes
    progress, \<open>Interactive_Ops\<close> that records and grids agree, \<open>Interactive_Place\<close> that placing an op
    returns, \<open>Interactive_Run\<close> that filling, rewinding and construction keep the invariant;
    \<open>Interactive_Spec\<close> states the runs of a client as the relation \<open>ip_run\<close> and its properties. They
    are for configurations with at most one MMIO chip; what two do is a property of its own.
  \<^item> \<open>Host_Memory\<close>, \<open>Host_Memory_Facts\<close> (\<open>host_memory.cpp\<close>, \<open>host_memory_allocator.cpp\<close>): queues in host memory.

  \<^item> \<open>Sparse_Matrix\<close> (\<open>sparse_matmul_utils.hpp\<close>, \<open>SparseCOO\<close>; \<open>sparse_matmul_utils.cpp\<close>, \<open>compress_unique_tiles\<close>),
    \<open>Sparse_Encoding\<close> (\<open>StripAllocator\<close>, \<open>encode_strips\<close>; the reader follows \<open>print_info_indices\<close>), \<open>Sparse_Buda\<close>
    and \<open>Sparse_Estimates\<close> (\<open>SparseBUDA\<close>). \<open>Sparse_Facts\<close> is about slicing and stacking, \<open>Sparse_Tiles\<close> about
    the compression. \<open>Sparse_Strips\<close> (bit fields, the words of a memory, and what the reader
    makes of them), \<open>Sparse_Alloc\<close> (the allocator keeps the layout; the locale \<open>strip_store\<close> is what the encoder relies
    on), \<open>Sparse_Codec\<close> (ublocks), \<open>Sparse_Loop\<close> (the invariant of the loop) lead to the
    round trip of the encoder, \<open>Sparse_Cores\<close> and \<open>Sparse_Values\<close> to what all cores hold together, for the default
    layout and \<open>t_factor_c = 1\<close>. \<open>Sparse_Spec\<close> has the properties. The unordered maps of the compression are iterated
    in the order of insertion; another order only renames the ids of the tiles.

  \<^item> \<open>Graph_Shape\<close>, \<open>Graph_Shape_Facts\<close>, \<open>Shape_Spec\<close> (\<open>shape.cpp\<close>, \<open>shape.hpp\<close>): the shapes of nodes. The rules
    \<open>factory_shape\<close> say what the factory functions build; the type property is about these shapes.
  \<^item> \<open>Graph_Store\<close>, \<open>Graph_Edges\<close>, \<open>Graph_Ops\<close>, \<open>Graph_Queries\<close> (\<open>graph.cpp\<close>, \<open>graph.hpp\<close>, \<open>edge.hpp\<close>,
    \<open>node.cpp\<close>, \<open>node_types.cpp\<close>): the tensor graph with its tables, edge queries under traversal contexts,
    the operations that change it, and the lists the compiler reads off it. \<open>Graph_Facts\<close>, \<open>Graph_Edit\<close>
    and \<open>Graph_Run\<close> prove the invariant \<open>graph_ok\<close> of the tables for every sequence of operations
    (\<open>graph_step\<close>, \<open>graph_reachable\<close>), \<open>Graph_Views\<close> what the queries yield in such a graph;
    \<open>Graph_Spec\<close> and \<open>Graph_Clone\<close> have the properties.
  \<^item> \<open>Graph_Topo\<close> (\<open>graph_lib/utils.cpp\<close>): the traversals. The recursive lambdas take the depth the stack
    allows; the properties show that as many calls as there are nodes are enough. \<open>Depth_First\<close> is the
    locale \<open>depth_first\<close>, the search over any adjacency: it returns, lists what is reachable once, and on
    an acyclic graph lists targets first. \<open>Graph_Topo_Facts\<close> interprets it for the operands a sort
    follows and for the data edges of \<open>reachable_nodes\<close>; \<open>Graph_Topo_Spec\<close> has the properties.
  \<^item> \<open>Interactive_Scheduler\<close> (\<open>interactive_scheduler.cpp\<close>) with its invariant,
    \<open>Interactive_Scheduler_Spec\<close>: the scheduler that offers ready ops; a client is the relation \<open>client_run\<close>.
  \<^item> \<open>Scheduler\<close> (\<open>scheduler.cpp\<close>, \<open>scheduler/utils.cpp\<close>, \<open>longest_path.cpp\<close>, \<open>get_fwd_to_bwd_nodes\<close> of
    \<open>lower_to_placer.cpp\<close>): the schedules. \<open>Repair_Facts\<close> is about the counters of the repair
    \<open>get_valid_schedule\<close>, first over any successor relation and then on the graph, where queues are looked
    through from both sides, and \<open>Scheduler_Spec\<close> has the properties.

  Conventions. Fields and functions keep their names; a prefix marks those that share a name
  (\<open>eg_\<close> for \<open>EpochIdToDeviceGrid\<close>, \<open>edp_\<close> for \<open>EpochDevicePlacer\<close>). A method returns the updated
  object. Exceptions and failed assertions are values of \<open>exn\<close>, reads out of bounds through
  \<open>operator[]\<close> are \<open>UndefinedBehaviour\<close>. Loops over a range are folds; the loops whose end is not
  evident (\<open>place_loop\<close>, \<open>epoch_loop\<close>, \<open>collect_epochs\<close>, \<open>ip_place_one_op\<close>, \<open>find_chip_for_epoch\<close>, \<open>topo_loop\<close>, \<open>process_ops\<close>)
  are partial functions, so that not returning is the value None, and the properties state that they
  return. \<open>trace_parents\<close>, \<open>follow_path\<close> and \<open>path_loop\<close> of the longest path are modelled alike. The loop over the chips
  of \<open>wormhole_placer\<close> counts its attempts down, as the code does. The static counter of the op group
  ids is passed in and returned. Two quotients that the code computes in float (\<open>ops_per_device\<close>,
  \<open>epochs_per_chip\<close>) are integer ceilings; both agree below 2 to the 24.

  Not modelled: the graph passes, the balancer and the netlist, which rewrite the tensor
  graph or cost it in floating point; the schedule that walks breadth-first from the module inputs (it
  reads tags and partial data copies, which the graph leaves out), whose result is an argument; logging and reports; the environment variables and the answers of the backend
  are parameters; the passes that walk the tensor graph hand over their results as arguments.
\<close>

end
